(* ===== verification/Prelude.thy ===== *)
theory Prelude
  imports Main "HOL-Library.Word" "HOL-Library.Multiset"
begin

section \<open>Shared vocabulary of the development\<close>

text \<open>
  The types, the model of the error handler and the generic lemmas that every component
  theory uses.

  \<^item> The C++ integer types are words of their width, so that \<open>+\<close>, \<open>-\<close> and \<open>*\<close> wrap as they
    do in the program.
  \<^item> A call of \<open>iox::cxx::Expects\<close> or of \<open>errorHandler\<close> at level \<open>FATAL\<close> ends the process.
    Such a computation has type \<open>'a outcome\<close>: \<open>Inl e\<close> is the termination with error \<open>e\<close>.
    Errors of level \<open>SEVERE\<close> and \<open>MODERATE\<close> are logged and execution goes on (the
    \<open>assert(false)\<close> of level \<open>SEVERE\<close> is compiled out in a release build, which is the
    build the model describes).
  \<^item> A function that fails with a value of its own (\<open>cxx::expected\<close>) returns a sum.
\<close>

unbundle bit_operations_syntax

type_synonym u8 = "8 word"
type_synonym u16 = "16 word"
type_synonym u32 = "32 word"
type_synonym u64 = "64 word"

text \<open>Addresses in (shared) memory; \<open>None\<close> stands for \<open>nullptr\<close>.\<close>

type_synonym address = u64
type_synonym 'a pointer = "'a option"

subsection \<open>Errors\<close>

text \<open>
  The errors of \<open>PoshError\<close> that the modelled code raises, grouped by the module that raises them.
  \<open>NULLPTR_ACCESS\<close> is not one of them: it
  marks the points where the code would use a null or dangling pointer, whose behaviour C++ does
  not define. Likewise \<open>NO_RETURN\<close> is the result of a call that loops forever. The theorems show
  that neither is reached.
\<close>

datatype error_level = FATAL | SEVERE | MODERATE

datatype mepoo_error =
    MEPOO__MEMPOOL_CHUNKSIZE_MUST_BE_MULTIPLE_OF_CHUNK_MEMORY_ALIGNMENT
  | MEPOO__MEMPOOL_ADDMEMPOOL_AFTER_GENERATECHUNKMANAGEMENTPOOL
  | MEPOO__MEMPOOL_CONFIG_MUST_BE_ORDERED_BY_INCREASING_SIZE
  | MEPOO__MAXIMUM_NUMBER_OF_MEMPOOLS_REACHED
  | MEPOO__MEMPOOL_GETCHUNK_CHUNK_WITHOUT_MEMPOOL
  | MEPOO__MEMPOOL_GETCHUNK_CHUNK_IS_TOO_LARGE
  | MEPOO__MEMPOOL_GETCHUNK_POOL_IS_RUNNING_OUT_OF_CHUNKS
  | POSH__MEMPOOL_POSSIBLE_DOUBLE_FREE
  | MEPOO__SEGMENT_UNABLE_TO_CREATE_SHARED_MEMORY_OBJECT
  | MEPOO__SEGMENT_COULD_NOT_APPLY_POSIX_RIGHTS_TO_SHARED_MEMORY

datatype popo_error =
    POPO__CHUNK_QUEUE_POPPER_CHUNK_WITH_INCOMPATIBLE_CHUNK_HEADER_VERSION
  | POPO__CHUNK_DISTRIBUTOR_OVERFLOW_OF_QUEUE_CONTAINER
  | POPO__CHUNK_DISTRIBUTOR_CLEANUP_DEADLOCK_BECAUSE_BAD_APPLICATION_TERMINATION
  | POPO__CHUNK_SENDER_INVALID_CHUNK_TO_FREE_FROM_USER
  | POPO__CHUNK_SENDER_INVALID_CHUNK_TO_SEND_FROM_USER
  | POPO__CHUNK_RECEIVER_INVALID_CHUNK_TO_RELEASE_FROM_USER
  | POPO__CAPRO_PROTOCOL_ERROR
  | POPO__SERVER_PORT_NO_CLIENT_RESPONSE_QUEUE_TO_CONNECT
  | POPO__CLIENT_PORT_INVALID_REQUEST_TO_FREE_FROM_USER
  | POPO__CLIENT_PORT_INVALID_REQUEST_TO_SEND_FROM_USER
  | POPO__CLIENT_PORT_INVALID_RESPONSE_TO_RELEASE_FROM_USER
  | POPO__SERVER_PORT_INVALID_REQUEST_TO_RELEASE_FROM_USER
  | POPO__SERVER_PORT_INVALID_RESPONSE_TO_FREE_FROM_USER
  | POPO__SERVER_PORT_INVALID_RESPONSE_TO_SEND_FROM_USER
  | POSH__PUBLISHING_EMPTY_SAMPLE
  | POSH__SENDING_EMPTY_REQUEST
  | POSH__SENDING_EMPTY_RESPONSE

datatype notification_error =
    POPO__CONDITION_NOTIFIER_INDEX_TOO_LARGE
  | POPO__CONDITION_NOTIFIER_SEMAPHORE_CORRUPT_IN_NOTIFY
  | POPO__CONDITION_LISTENER_SEMAPHORE_CORRUPTED_IN_DESTROY
  | POPO__TRIGGER_INVALID_RESET_CALLBACK
  | POPO__TRIGGER_INVALID_HAS_TRIGGERED_CALLBACK
  | POPO__TRIGGER_HANDLE_INVALID_RESET_CALLBACK
  | POPO__NOTIFICATION_INFO_TYPE_INCONSISTENCY_IN_GET_ORIGIN
  | POPO__BASE_SUBSCRIBER_OVERRIDING_WITH_STATE_SINCE_HAS_DATA_OR_DATA_RECEIVED_ALREADY_ATTACHED
  | POPO__BASE_SUBSCRIBER_OVERRIDING_WITH_EVENT_SINCE_HAS_DATA_OR_DATA_RECEIVED_ALREADY_ATTACHED
  | POPO__BASE_CLIENT_OVERRIDING_WITH_STATE_SINCE_HAS_RESPONSE_OR_RESPONSE_RECEIVED_ALREADY_ATTACHED
  | POPO__BASE_CLIENT_OVERRIDING_WITH_EVENT_SINCE_HAS_RESPONSE_OR_RESPONSE_RECEIVED_ALREADY_ATTACHED
  | POPO__BASE_SERVER_OVERRIDING_WITH_STATE_SINCE_HAS_REQUEST_OR_REQUEST_RECEIVED_ALREADY_ATTACHED
  | POPO__BASE_SERVER_OVERRIDING_WITH_EVENT_SINCE_HAS_REQUEST_OR_REQUEST_RECEIVED_ALREADY_ATTACHED

datatype roudi_error =
    POSH__INTERFACEPORT_CAPRO_MESSAGE_DISMISSED
  | POSH__PORT_MANAGER_PUBLISHERPORT_NOT_UNIQUE
  | POSH__PORT_MANAGER_INTERNAL_SERVICE_DESCRIPTION_IS_FORBIDDEN
  | POSH__PORT_MANAGER_COULD_NOT_ADD_SERVICE_TO_REGISTRY
  | PORT_MANAGER__HANDLE_PUBLISHER_PORTS_INVALID_CAPRO_MESSAGE
  | PORT_MANAGER__HANDLE_SUBSCRIBER_PORTS_INVALID_CAPRO_MESSAGE
  | PORT_POOL__PUBLISHERLIST_OVERFLOW
  | PORT_POOL__SUBSCRIBERLIST_OVERFLOW
  | POSH__PORT_MANAGER_SERVERPORT_NOT_UNIQUE
  | PORT_MANAGER__HANDLE_CLIENT_PORTS_INVALID_CAPRO_MESSAGE
  | PORT_MANAGER__HANDLE_SERVER_PORTS_INVALID_CAPRO_MESSAGE
  | PORT_MANAGER__NO_PUBLISHER_PORT_FOR_INTERNAL_SERVICE
  | PORT_POOL__CLIENTLIST_OVERFLOW
  | PORT_POOL__SERVERLIST_OVERFLOW
  | PORT_POOL__INTERFACELIST_OVERFLOW
  | PORT_POOL__NODELIST_OVERFLOW
  | PORT_POOL__CONDITION_VARIABLE_LIST_OVERFLOW
  | POSH__ROUDI_PROCESS_SEND_VIA_IPC_CHANNEL_FAILED
  | POSH__ROUDI_PROCESS_SHUTDOWN_FAILED

datatype runtime_error =
    POSH__RUNTIME_PUBLISHER_PORT_NOT_UNIQUE
  | POSH__RUNTIME_SERVICE_DESCRIPTION_FORBIDDEN
  | POSH__RUNTIME_NO_WRITABLE_SHM_SEGMENT
  | POSH__RUNTIME_ROUDI_PUBLISHER_LIST_FULL
  | POSH__RUNTIME_ROUDI_REQUEST_PUBLISHER_INVALID_RESPONSE
  | POSH__RUNTIME_ROUDI_REQUEST_PUBLISHER_WRONG_IPC_MESSAGE_RESPONSE
  | POSH__RUNTIME_PUBLISHER_PORT_CREATION_UNKNOWN_ERROR
  | POSH__RUNTIME_ROUDI_SUBSCRIBER_LIST_FULL
  | POSH__RUNTIME_ROUDI_REQUEST_SUBSCRIBER_INVALID_RESPONSE
  | POSH__RUNTIME_ROUDI_REQUEST_SUBSCRIBER_WRONG_IPC_MESSAGE_RESPONSE
  | POSH__RUNTIME_SUBSCRIBER_PORT_CREATION_UNKNOWN_ERROR
  | POSH__RUNTIME_ROUDI_OUT_OF_CLIENTS
  | POSH__RUNTIME_ROUDI_REQUEST_CLIENT_INVALID_RESPONSE
  | POSH__RUNTIME_ROUDI_REQUEST_CLIENT_WRONG_IPC_MESSAGE_RESPONSE
  | POSH__RUNTIME_CLIENT_PORT_CREATION_UNKNOWN_ERROR
  | POSH__RUNTIME_ROUDI_OUT_OF_SERVERS
  | POSH__RUNTIME_ROUDI_REQUEST_SERVER_INVALID_RESPONSE
  | POSH__RUNTIME_ROUDI_REQUEST_SERVER_WRONG_IPC_MESSAGE_RESPONSE
  | POSH__RUNTIME_SERVER_PORT_CREATION_UNKNOWN_ERROR
  | POSH__RUNTIME_ROUDI_GET_MW_INTERFACE_INVALID_RESPONSE
  | POSH__RUNTIME_ROUDI_GET_MW_INTERFACE_WRONG_IPC_MESSAGE_RESPONSE
  | POSH__RUNTIME_ROUDI_CREATE_NODE_INVALID_RESPONSE
  | POSH__RUNTIME_ROUDI_CREATE_NODE_WRONG_IPC_MESSAGE_RESPONSE
  | POSH__RUNTIME_ROUDI_CONDITION_VARIABLE_LIST_FULL
  | POSH__RUNTIME_ROUDI_REQUEST_CONDITION_VARIABLE_INVALID_RESPONSE
  | POSH__RUNTIME_ROUDI_REQUEST_CONDITION_VARIABLE_WRONG_IPC_MESSAGE_RESPONSE
  | POSH__RUNTIME_ROUDI_CONDITION_VARIABLE_CREATION_UNKNOWN_ERROR
  | POSH__SHM_APP_MAPP_ERR
  | POSH__SHM_APP_SEGMENT_COUNT_OVERFLOW
  | POSH__SHM_APP_SEGMENT_MAPP_ERR

datatype posh_error = EXPECTS_ENSURES_FAILED
  | MEPOO mepoo_error
  | POPO popo_error
  | NOTIFICATION notification_error
  | ROUDI roudi_error
  | RUNTIME runtime_error
  | NULLPTR_ACCESS
  | NO_RETURN

type_synonym 'a outcome = "posh_error + 'a"

definition obind :: "'a outcome \<Rightarrow> ('a \<Rightarrow> 'b outcome) \<Rightarrow> 'b outcome" where
  "obind m k = (case m of Inl e \<Rightarrow> Inl e | Inr x \<Rightarrow> k x)"

text \<open>A loop that may run forever has type \<open>'a option\<close>; this embeds it into the other computations.\<close>

definition returns :: "'a option \<Rightarrow> 'a outcome" where
  "returns r = (case r of None \<Rightarrow> Inl NO_RETURN | Some x \<Rightarrow> Inr x)"

text \<open>\<open>ErrorHandler::reactOnErrorLevel\<close>: the continuation \<open>k\<close> runs unless the level is fatal.\<close>

fun errorHandler :: "posh_error \<Rightarrow> error_level \<Rightarrow> 'a outcome \<Rightarrow> 'a outcome" where
  "errorHandler e FATAL k = Inl e"
| "errorHandler e SEVERE k = k"
| "errorHandler e MODERATE k = k"

text \<open>\<open>cxx::internal::Require\<close>, behind the macros \<open>Expects\<close> and \<open>Ensures\<close>.\<close>

definition Expects :: "bool \<Rightarrow> 'a outcome \<Rightarrow> 'a outcome" where
  "Expects condition k = (if condition then k else errorHandler EXPECTS_ENSURES_FAILED FATAL k)"

named_theorems outcome_simps \<open>evaluation rules of the error-handling layer\<close>

lemma obind_Inl [simp, outcome_simps]: "obind (Inl e) k = Inl e"
  by (simp add: obind_def)

lemma obind_Inr [simp, outcome_simps]: "obind (Inr x) k = k x"
  by (simp add: obind_def)

lemma obind_eq_Inr [simp]: "obind m k = Inr y \<longleftrightarrow> (\<exists>x. m = Inr x \<and> k x = Inr y)"
  by (cases m) auto

lemma returns_simps [simp, outcome_simps]: "returns None = Inl NO_RETURN" "returns (Some x) = Inr x"
  by (simp_all add: returns_def)

lemma Expects_True [simp, outcome_simps]: "c \<Longrightarrow> Expects c k = k"
  by (simp add: Expects_def)

lemma Expects_False [simp, outcome_simps]: "\<not> c \<Longrightarrow> Expects c k = Inl EXPECTS_ENSURES_FAILED"
  by (simp add: Expects_def)

lemma Expects_eq_Inr [simp]: "Expects c k = Inr y \<longleftrightarrow> c \<and> k = Inr y"
  by (auto simp: Expects_def)

subsection \<open>Words\<close>

named_theorems unat_simps \<open>unat of word arithmetic that does not wrap\<close>

lemma unat_add_no_wrap [unat_simps]:
  "unat (a :: 'a::len word) + unat b < 2 ^ LENGTH('a) \<Longrightarrow> unat (a + b) = unat a + unat b"
  by (simp add: unat_word_ariths)

lemma unat_mult_no_wrap [unat_simps]:
  "unat (a :: 'a::len word) * unat b < 2 ^ LENGTH('a) \<Longrightarrow> unat (a * b) = unat a * unat b"
  by (simp add: unat_word_ariths)

lemma unat_sub_no_wrap [unat_simps]:
  "unat (b :: 'a::len word) \<le> unat a \<Longrightarrow> unat (a - b) = unat a - unat b"
  by (simp add: unat_sub word_le_nat_alt)

lemma u32_unat_less: "unat (w :: u32) < 4294967296"
  using unsigned_less [of w, where 'a = nat] by simp

lemma u64_unat_less: "unat (w :: u64) < 18446744073709551616"
  using unsigned_less [of w, where 'a = nat] by simp

lemma unat_ucast_u32_u64 [simp]: "unat (ucast (w :: u32) :: u64) = unat w"
  by (simp add: unsigned_ucast_eq take_bit_nat_eq_self_iff order_less_trans [OF u32_unat_less])

lemma unat_ucast_u64_u32: "unat (w :: u64) < 4294967296 \<Longrightarrow> unat (ucast w :: u32) = unat w"
  by (simp add: unsigned_ucast_eq take_bit_nat_eq_self_iff)

lemma unat_of_nat_u32: "n < 4294967296 \<Longrightarrow> unat (of_nat n :: u32) = n"
  by (simp add: unat_of_nat)

lemma unat_of_nat_u64: "n < 18446744073709551616 \<Longrightarrow> unat (of_nat n :: u64) = n"
  by (simp add: unat_of_nat)

lemma unat_max_u32 [simp]: "unat (- 1 :: u32) = 4294967295"
  by (simp add: unsigned_minus_1_eq_mask mask_eq_exp_minus_1)

lemma unat_image_below: "unat ` {i. i < (n :: u32)} = {..<unat n}"
proof -
  have "x \<in> unat ` {i. i < n}" if "x < unat n" for x
    using that u32_unat_less [of n]
    by (intro image_eqI [of _ unat "of_nat x"]) (auto simp: word_less_nat_alt unat_of_nat_u32)
  then show ?thesis by (auto simp: word_less_nat_alt)
qed

lemma card_below_u32: "card {i. i < (n :: u32)} = unat n"
proof -
  have "card (unat ` {i. i < n}) = card {i. i < n}"
    by (rule card_image) (simp add: inj_on_def word_unat_eq_iff)
  then show ?thesis by (simp add: unat_image_below)
qed

subsection \<open>Lists\<close>

lemma upt_below_u32:
  "distinct (map of_nat [0..<unat n] :: u32 list)" "set (map of_nat [0..<unat n]) = {i. i < (n :: u32)}"
proof -
  have "inj_on (of_nat :: nat \<Rightarrow> u32) {0..<unat n}"
    using u32_unat_less [of n] by (intro inj_on_inverseI [of _ unat]) (simp add: unat_of_nat_u32)
  then show "distinct (map of_nat [0..<unat n] :: u32 list)" by (simp add: distinct_map)
  show "set (map of_nat [0..<unat n]) = {i. i < (n :: u32)}"
  proof (intro set_eqI iffI)
    fix x :: u32 assume "x \<in> {i. i < n}"
    then show "x \<in> set (map of_nat [0..<unat n])"
      by (auto simp: word_less_nat_alt intro: image_eqI [of _ _ "unat x"])
  qed (use u32_unat_less [of n] in \<open>auto simp: word_less_nat_alt unat_of_nat_u32\<close>)
qed

lemma map_eq_SomeD:
  assumes "map f us = map Some ms" "i \<in> set us"
  obtains m where "m \<in> set ms" "f i = Some m"
proof -
  have "f i \<in> set (map f us)" using assms(2) by simp
  then have "f i \<in> set (map Some ms)" by (simp only: assms(1))
  then show thesis using that by auto
qed

lemma count_mset_remove1: "x \<in> set xs \<Longrightarrow> mset (remove1 x xs) + {#x#} = mset xs"
  by (induction xs) auto

end
