(* ===== verification/Helplets.thy ===== *)
theory Helplets
  imports Prelude
begin

section \<open>Helper functions of iceoryx hoofs\<close>

text \<open>
  The arithmetic helpers of \<open>iceoryx_hoofs/cxx/helplets.hpp\<close> that the memory layer relies
  on, with their characterisation over the natural numbers.
\<close>

definition align :: "'a::len word \<Rightarrow> 'a word \<Rightarrow> 'a word" where
  "align v alignment =
     (let r = v mod alignment in v + (if r = 0 then 0 else alignment - r))"

definition isPowerOfTwo :: "'a::len word \<Rightarrow> bool" where
  "isPowerOfTwo n \<longleftrightarrow> n \<noteq> 0 \<and> (n AND (n - 1)) = 0"

subsection \<open>Rounding up\<close>

definition round_up :: "nat \<Rightarrow> nat \<Rightarrow> nat" where
  "round_up n a = n + (if n mod a = 0 then 0 else a - n mod a)"

lemma round_up_dvd: "0 < a \<Longrightarrow> a dvd round_up n a"
proof -
  assume a: "0 < a"
  have "n = n div a * a + n mod a" by simp
  moreover have "n mod a < a" using a by simp
  ultimately have "n mod a \<noteq> 0 \<Longrightarrow> round_up n a = (n div a + 1) * a"
    unfolding round_up_def by (simp only: add_mult_distrib if_False)
  then show ?thesis
    by (cases "n mod a = 0") (auto simp: round_up_def dvd_eq_mod_eq_0)
qed

lemma round_up_ge: "n \<le> round_up n a"
  by (simp add: round_up_def)

lemma round_up_less: "0 < a \<Longrightarrow> round_up n a < n + a"
  by (auto simp: round_up_def)

lemma round_up_idem: "a dvd n \<Longrightarrow> round_up n a = n"
  by (simp add: round_up_def)

text \<open>If both sides are multiples of \<open>d\<close>, rounding up adds at most \<open>a - d\<close>.\<close>

lemma round_up_le_dvd:
  assumes "0 < a" "d dvd a" "d dvd n"
  shows "round_up n a + d \<le> n + a"
proof -
  have "d dvd round_up n a"
    using assms round_up_dvd dvd_trans by blast
  with assms have "d dvd (n + a) - round_up n a" by simp
  moreover have "0 < (n + a) - round_up n a" using round_up_less [OF assms(1)] by simp
  ultimately have "d \<le> (n + a) - round_up n a" by (rule dvd_imp_le)
  then show ?thesis using round_up_less [OF assms(1), of n] by linarith
qed

lemma round_up_add_dvd: "a dvd m \<Longrightarrow> round_up (m + n) a = m + round_up n a"
proof -
  assume "a dvd m"
  then have "(m + n) mod a = n mod a" by (auto simp: dvd_def)
  then show ?thesis by (simp add: round_up_def)
qed

lemma unat_align:
  assumes "alignment \<noteq> 0" and "unat v + unat alignment \<le> 2 ^ LENGTH('a)"
  shows "unat (align v (alignment :: 'a::len word)) = round_up (unat v) (unat alignment)"
proof -
  let ?r = "v mod alignment"
  have pos: "0 < unat alignment" using assms(1) by (simp add: unat_gt_0)
  have r: "unat ?r = unat v mod unat alignment" by (simp add: unat_mod_distrib)
  then have rless: "unat ?r < unat alignment" using pos by simp
  show ?thesis
  proof (cases "?r = 0")
    case True
    with r show ?thesis by (simp add: align_def round_up_def)
  next
    case False
    then have "0 < unat ?r" by (simp add: unat_gt_0)
    moreover have "unat (alignment - ?r) = unat alignment - unat ?r"
      using rless by (simp add: unat_sub_no_wrap)
    moreover from this have "unat (v + (alignment - ?r)) = unat v + (unat alignment - unat ?r)"
      using assms(2) \<open>0 < unat ?r\<close> rless by (subst unat_add_no_wrap) auto
    ultimately show ?thesis using False r by (simp add: align_def round_up_def)
  qed
qed

subsection \<open>Powers of two\<close>

lemma nat_and_pred_zero: "0 < n \<Longrightarrow> (n AND (n - 1) = 0) \<longleftrightarrow> (\<exists>k. n = 2 ^ k)" for n :: nat
proof (induction n rule: less_induct)
  case (less n)
  show ?case
  proof (cases "even n")
    case True
    then obtain m where m: "n = 2 * m" by (elim evenE)
    with less.prems have mpos: "0 < m" by simp
    have "n AND (n - 1) = 2 * (m AND (m - 1))"
    proof -
      have "n div 2 = m" "(n - 1) div 2 = m - 1" "n mod 2 = 0"
        using m mpos by auto
      then show ?thesis by (subst and_nat_rec) (simp add: True)
    qed
    moreover have "(m AND (m - 1) = 0) \<longleftrightarrow> (\<exists>k. m = 2 ^ k)"
      using less.IH [of m] m mpos by simp
    moreover have "(\<exists>k. m = 2 ^ k) \<longleftrightarrow> (\<exists>k. n = 2 ^ k)"
    proof
      assume "\<exists>k. m = 2 ^ k"
      then show "\<exists>k. n = 2 ^ k" using m by (metis power_Suc)
    next
      assume "\<exists>k. n = 2 ^ k"
      then obtain k where k: "n = 2 ^ k" by blast
      with True have "k \<noteq> 0" by (metis odd_one power_0)
      then obtain j where "k = Suc j" by (cases k) auto
      with k m show "\<exists>k. m = 2 ^ k" by auto
    qed
    ultimately show ?thesis by simp
  next
    case False
    then obtain m where m: "n = 2 * m + 1" by (elim oddE)
    have "n AND (n - 1) = 2 * m"
      by (subst and_nat_rec) (simp add: m)
    moreover have "(m = 0) \<longleftrightarrow> (\<exists>k. n = 2 ^ k)"
    proof
      assume "m = 0"
      then have "n = 2 ^ 0" using m by simp
      then show "\<exists>k. n = 2 ^ k" ..
    next
      assume "\<exists>k. n = 2 ^ k"
      then obtain k where k: "n = 2 ^ k" by blast
      with False have "k = 0" by (cases k) auto
      with k m show "m = 0" by simp
    qed
    ultimately show ?thesis by simp
  qed
qed

lemma isPowerOfTwo_iff: "isPowerOfTwo n \<longleftrightarrow> (\<exists>k. unat n = 2 ^ k)"
proof (cases "n = 0")
  case True
  then show ?thesis by (simp add: isPowerOfTwo_def)
next
  case False
  then have pos: "0 < unat n" by (simp add: unat_gt_0)
  then have "unat (n - 1) = unat n - 1" by (simp add: unat_minus_one False)
  then have "unat (n AND (n - 1)) = unat n AND (unat n - 1)"
    by (simp add: unsigned_and_eq)
  then have "(n AND (n - 1)) = 0 \<longleftrightarrow> unat n AND (unat n - 1) = 0"
    by (simp flip: unat_eq_0)
  with False nat_and_pred_zero [OF pos] show ?thesis by (simp add: isPowerOfTwo_def)
qed

lemma power_of_two_dvd: "isPowerOfTwo n \<Longrightarrow> 2 ^ k \<le> unat n \<Longrightarrow> 2 ^ k dvd unat n"
  by (auto simp: isPowerOfTwo_iff intro!: le_imp_power_dvd)

lemma power_of_two_dvd_pow: "isPowerOfTwo n \<Longrightarrow> unat n \<le> 2 ^ k \<Longrightarrow> unat n dvd 2 ^ k"
  by (auto simp: isPowerOfTwo_iff intro!: le_imp_power_dvd)

lemma isPowerOfTwo_nonzero: "isPowerOfTwo n \<Longrightarrow> n \<noteq> 0"
  by (simp add: isPowerOfTwo_def)

end
