(* ===== verification/Chunk_Settings.thy ===== *)
theory Chunk_Settings
  imports Helplets
begin

section \<open>Chunk settings\<close>

text \<open>
  \<open>mepoo::ChunkSettings\<close> (\<open>chunk_settings.hpp\<close>, \<open>chunk_settings.cpp\<close>): the validated request
  of a user for a chunk, and the size a chunk must have so that the header, the user-header,
  the back-offset and the aligned user-payload fit into it wherever the chunk starts.
\<close>

definition SIZEOF_ChunkHeader :: u64 where "SIZEOF_ChunkHeader = 40"
definition ALIGNOF_ChunkHeader :: u64 where "ALIGNOF_ChunkHeader = 8"
definition SIZEOF_UserPayloadOffset :: u64 where "SIZEOF_UserPayloadOffset = 4"
definition ALIGNOF_UserPayloadOffset :: u64 where "ALIGNOF_UserPayloadOffset = 4"

lemmas chunk_layout_defs =
  SIZEOF_ChunkHeader_def ALIGNOF_ChunkHeader_def
  SIZEOF_UserPayloadOffset_def ALIGNOF_UserPayloadOffset_def

record chunk_settings =
  cs_userPayloadSize :: u32
  cs_userPayloadAlignment :: u32
  cs_userHeaderSize :: u32
  cs_userHeaderAlignment :: u32
  cs_requiredChunkSize :: u32

datatype chunk_settings_error =
    ALIGNMENT_NOT_POWER_OF_TWO
  | USER_HEADER_ALIGNMENT_EXCEEDS_CHUNK_HEADER_ALIGNMENT
  | USER_HEADER_SIZE_NOT_MULTIPLE_OF_ITS_ALIGNMENT
  | REQUIRED_CHUNK_SIZE_EXCEEDS_MAX_CHUNK_SIZE

definition calculateRequiredChunkSize :: "u32 \<Rightarrow> u32 \<Rightarrow> u32 \<Rightarrow> u64" where
  "calculateRequiredChunkSize userPayloadSize userPayloadAlignment userHeaderSize =
     (if userHeaderSize = 0 then
        (if ucast userPayloadAlignment \<le> ALIGNOF_ChunkHeader
         then SIZEOF_ChunkHeader + ucast userPayloadSize
         else (let preUserPayloadAlignmentOverhang = SIZEOF_ChunkHeader - ALIGNOF_ChunkHeader
               in preUserPayloadAlignmentOverhang + ucast userPayloadAlignment + ucast userPayloadSize))
      else
        (let headerSize = SIZEOF_ChunkHeader + ucast userHeaderSize;
             preUserPayloadAlignmentOverhang = align headerSize ALIGNOF_UserPayloadOffset;
             maxPadding = max SIZEOF_UserPayloadOffset (ucast userPayloadAlignment)
         in preUserPayloadAlignmentOverhang + maxPadding + ucast userPayloadSize))"

definition ChunkSettings_create ::
  "u32 \<Rightarrow> u32 \<Rightarrow> u32 \<Rightarrow> u32 \<Rightarrow> chunk_settings_error + chunk_settings" where
  "ChunkSettings_create userPayloadSize userPayloadAlignment userHeaderSize userHeaderAlignment =
     (let adjustedUserPayloadAlignment = (if userPayloadAlignment = 0 then 1 else userPayloadAlignment);
          adjustedUserHeaderAlignment = (if userHeaderAlignment = 0 then 1 else userHeaderAlignment)
      in if \<not> isPowerOfTwo adjustedUserPayloadAlignment \<or> \<not> isPowerOfTwo adjustedUserHeaderAlignment
         then Inl ALIGNMENT_NOT_POWER_OF_TWO
         else if ucast adjustedUserHeaderAlignment > ALIGNOF_ChunkHeader
         then Inl USER_HEADER_ALIGNMENT_EXCEEDS_CHUNK_HEADER_ALIGNMENT
         else if userHeaderSize mod adjustedUserHeaderAlignment \<noteq> 0
         then Inl USER_HEADER_SIZE_NOT_MULTIPLE_OF_ITS_ALIGNMENT
         else (let requiredChunkSize =
                     calculateRequiredChunkSize userPayloadSize adjustedUserPayloadAlignment userHeaderSize
               in if requiredChunkSize > ucast (- 1 :: u32)
                  then Inl REQUIRED_CHUNK_SIZE_EXCEEDS_MAX_CHUNK_SIZE
                  else Inr \<lparr> cs_userPayloadSize = userPayloadSize,
                             cs_userPayloadAlignment = adjustedUserPayloadAlignment,
                             cs_userHeaderSize = userHeaderSize,
                             cs_userHeaderAlignment = adjustedUserHeaderAlignment,
                             cs_requiredChunkSize = ucast requiredChunkSize \<rparr>))"

subsection \<open>The required size over the natural numbers\<close>

definition required_size :: "nat \<Rightarrow> nat \<Rightarrow> nat \<Rightarrow> nat" where
  "required_size payload alignment header =
     (if header = 0
      then (if alignment \<le> 8 then 40 + payload else 32 + alignment + payload)
      else round_up (40 + header) 4 + max 4 alignment + payload)"

lemma ucast_u32_le_8 [simp]: "(ucast (a :: u32) \<le> (8 :: u64)) \<longleftrightarrow> unat a \<le> 8"
  by (simp add: word_le_nat_alt)

lemma unat_calculateRequiredChunkSize:
  "unat (calculateRequiredChunkSize ps a hs) = required_size (unat ps) (unat a) (unat hs)"
proof -
  note b = u32_unat_less [of ps] u32_unat_less [of a] u32_unat_less [of hs]
  have hs0: "hs = 0 \<longleftrightarrow> unat hs = 0" by (simp add: unat_eq_0)
  have m: "unat (max 4 (ucast a :: u64)) = max 4 (unat a)"
    by (auto simp: max_def word_le_nat_alt)
  have h: "unat (40 + ucast hs :: u64) = 40 + unat hs"
    using b by (subst unat_add_no_wrap) auto
  have al: "unat (align (40 + ucast hs :: u64) 4) = round_up (40 + unat hs) 4"
    using b by (subst unat_align) (auto simp: h)
  have r: "round_up (40 + unat hs) 4 < 44 + unat hs"
    using round_up_less [of 4 "40 + unat hs"] by simp
  have s1: "unat (40 + ucast ps :: u64) = 40 + unat ps"
    using b by (subst unat_add_no_wrap) auto
  have s2': "unat (32 + ucast a :: u64) = 32 + unat a"
    using b by (subst unat_add_no_wrap) auto
  then have s2: "unat (32 + ucast a + ucast ps :: u64) = 32 + unat a + unat ps"
    using b by (subst unat_add_no_wrap) auto
  have s3': "unat (align (40 + ucast hs :: u64) 4 + max 4 (ucast a)) =
             round_up (40 + unat hs) 4 + max 4 (unat a)"
    using b r by (subst unat_add_no_wrap) (auto simp: al m)
  then have s3: "unat (align (40 + ucast hs :: u64) 4 + max 4 (ucast a) + ucast ps) =
             round_up (40 + unat hs) 4 + max 4 (unat a) + unat ps"
    using b r by (subst unat_add_no_wrap) auto
  show ?thesis
    unfolding calculateRequiredChunkSize_def required_size_def chunk_layout_defs hs0 [symmetric] Let_def
    by (simp add: s1 s2 s3)
qed

text \<open>The settings a successful \<open>ChunkSettings::create\<close> can return.\<close>

definition chunk_settings_valid :: "chunk_settings \<Rightarrow> bool" where
  "chunk_settings_valid cs \<longleftrightarrow>
     isPowerOfTwo (cs_userPayloadAlignment cs) \<and> isPowerOfTwo (cs_userHeaderAlignment cs) \<and>
     unat (cs_userHeaderAlignment cs) \<le> 8 \<and>
     unat (cs_userHeaderAlignment cs) dvd unat (cs_userHeaderSize cs) \<and>
     unat (cs_requiredChunkSize cs) =
       required_size (unat (cs_userPayloadSize cs)) (unat (cs_userPayloadAlignment cs))
         (unat (cs_userHeaderSize cs))"

lemma mod_eq_0_unat: "(x mod y = 0) \<longleftrightarrow> unat y dvd unat (x :: u32)"
  by (metis dvd_eq_mod_eq_0 unat_eq_0 unat_mod_distrib)

lemma ChunkSettings_create_valid:
  assumes "ChunkSettings_create ps a hs ha = Inr cs"
  shows "chunk_settings_valid cs" and "cs_userPayloadSize cs = ps"
    and "cs_userHeaderSize cs = hs" and "cs_userPayloadAlignment cs = (if a = 0 then 1 else a)"
proof -
  let ?a = "if a = 0 then 1 else a" and ?ha = "if ha = 0 then 1 else ha"
  let ?req = "calculateRequiredChunkSize ps ?a hs"
  from assms have c: "isPowerOfTwo ?a" "isPowerOfTwo ?ha" "\<not> ucast ?ha > ALIGNOF_ChunkHeader"
      "hs mod ?ha = 0" "\<not> ?req > ucast (- 1 :: u32)"
    and cs: "cs = \<lparr> cs_userPayloadSize = ps, cs_userPayloadAlignment = ?a, cs_userHeaderSize = hs,
                    cs_userHeaderAlignment = ?ha, cs_requiredChunkSize = ucast ?req \<rparr>"
    unfolding ChunkSettings_create_def Let_def by (auto split: if_split_asm)
  have "unat ?req \<le> 4294967295"
    using c(5) by (simp add: not_less word_le_nat_alt split del: if_split)
  then have "unat (ucast ?req :: u32) = unat ?req" by (intro unat_ucast_u64_u32) simp
  moreover have "unat ?ha \<le> 8"
    using c(3) by (simp add: ALIGNOF_ChunkHeader_def not_less del: if_not_P if_P split del: if_split)
  ultimately show "chunk_settings_valid cs"
    unfolding chunk_settings_valid_def cs chunk_settings.simps
    using c(1,2,4) by (simp add: unat_calculateRequiredChunkSize mod_eq_0_unat del: if_not_P if_P split del: if_split)
  show "cs_userPayloadSize cs = ps" "cs_userHeaderSize cs = hs"
    "cs_userPayloadAlignment cs = ?a" by (simp_all add: cs)
qed

text \<open>
  C13: \<open>ChunkSettings::create\<close> accepts a request exactly when both alignments (0 counts as 1) are
  powers of two, the alignment of the user-header does not exceed the one of the chunk header,
  the size of the user-header is a multiple of its alignment, and the required size, computed
  without overflow, fits into 32 bits.
\<close>

theorem ChunkSettings_create_ok_iff:
  "(\<exists>cs. ChunkSettings_create ps a hs ha = Inr cs) \<longleftrightarrow>
     (let a' = (if a = 0 then 1 else a); ha' = (if ha = 0 then 1 else ha)
      in isPowerOfTwo a' \<and> isPowerOfTwo ha' \<and> unat ha' \<le> 8 \<and> unat ha' dvd unat hs \<and>
         required_size (unat ps) (unat a') (unat hs) \<le> 4294967295)"
proof -
  let ?a = "if a = 0 then 1 else a" and ?ha = "if ha = 0 then 1 else ha"
  let ?req = "calculateRequiredChunkSize ps ?a hs"
  have "(\<exists>cs. ChunkSettings_create ps a hs ha = Inr cs) \<longleftrightarrow>
      isPowerOfTwo ?a \<and> isPowerOfTwo ?ha \<and> \<not> ucast ?ha > ALIGNOF_ChunkHeader \<and>
      hs mod ?ha = 0 \<and> \<not> ?req > ucast (- 1 :: u32)"
    unfolding ChunkSettings_create_def Let_def by (auto split: if_split_asm)
  moreover have "\<not> ucast ?ha > ALIGNOF_ChunkHeader \<longleftrightarrow> unat ?ha \<le> 8"
    by (simp add: ALIGNOF_ChunkHeader_def not_less split del: if_split)
  moreover have "\<not> ?req > ucast (- 1 :: u32) \<longleftrightarrow> unat ?req \<le> 4294967295"
    by (simp add: not_less word_le_nat_alt split del: if_split)
  ultimately show ?thesis
    by (simp add: Let_def mod_eq_0_unat unat_calculateRequiredChunkSize split del: if_split)
qed

end
