(* ===== verification/Chunk_Header.thy ===== *)
theory Chunk_Header
  imports Chunk_Settings
begin

section \<open>Chunk header\<close>

text \<open>
  \<open>mepoo::ChunkHeader\<close> (\<open>chunk_header.hpp\<close>, \<open>chunk_header.cpp\<close>): the header constructed in
  place at the start of every chunk. The constructor depends on the address of the chunk, and
  it stores the offset of the user-payload twice: in the header and, as back-offset, in the four
  bytes in front of the user-payload. The four-byte cells that hold those two values are the
  memory \<open>offset_memory\<close>; the last member of the header, \<open>m_userPayloadOffset\<close>, is its cell at
  distance 36.
\<close>

type_synonym offset_memory = "address \<Rightarrow> u32"

definition CHUNK_HEADER_VERSION :: u8 where "CHUNK_HEADER_VERSION = 1"
definition NO_USER_HEADER :: u16 where "NO_USER_HEADER = 0"
definition UNKNOWN_USER_HEADER :: u16 where "UNKNOWN_USER_HEADER = 0xFFFF"

text \<open>The value of a \<open>UniquePortId\<close> constructed with \<open>InvalidPortId\<close>.\<close>

definition INVALID_UNIQUE_ID :: u64 where "INVALID_UNIQUE_ID = 0"

record chunk_header =
  ch_chunkSize :: u32
  ch_chunkHeaderVersion :: u8
  ch_reserved :: u8
  ch_userHeaderId :: u16
  ch_originId :: u64
  ch_sequenceNumber :: u64
  ch_userHeaderSize :: u32
  ch_userPayloadSize :: u32
  ch_userPayloadAlignment :: u32
  ch_userPayloadOffset :: u32

definition overflowSafeUsedSizeOfChunk :: "chunk_header \<Rightarrow> u64" where
  "overflowSafeUsedSizeOfChunk h = ucast (ch_userPayloadOffset h) + ucast (ch_userPayloadSize h)"

definition usedSizeOfChunk :: "chunk_header \<Rightarrow> u32" where
  "usedSizeOfChunk h = ucast (overflowSafeUsedSizeOfChunk h)"

definition ADDRESS_OF_m_userPayloadOffset :: "address \<Rightarrow> address" where
  "ADDRESS_OF_m_userPayloadOffset this = this + SIZEOF_ChunkHeader - SIZEOF_UserPayloadOffset"

definition ChunkHeader_init :: "u32 \<Rightarrow> chunk_settings \<Rightarrow> chunk_header" where
  "ChunkHeader_init chunkSize cs =
     \<lparr> ch_chunkSize = chunkSize,
       ch_chunkHeaderVersion = CHUNK_HEADER_VERSION,
       ch_reserved = 0,
       ch_userHeaderId = NO_USER_HEADER,
       ch_originId = INVALID_UNIQUE_ID,
       ch_sequenceNumber = 0,
       ch_userHeaderSize = cs_userHeaderSize cs,
       ch_userPayloadSize = cs_userPayloadSize cs,
       ch_userPayloadAlignment = cs_userPayloadAlignment cs,
       ch_userPayloadOffset = ucast SIZEOF_ChunkHeader \<rparr>"

definition ChunkHeader_new ::
  "address \<Rightarrow> u32 \<Rightarrow> chunk_settings \<Rightarrow> offset_memory \<Rightarrow> (chunk_header \<times> offset_memory) outcome" where
  "ChunkHeader_new this chunkSize cs mem =
     (let userPayloadAlignment = cs_userPayloadAlignment cs;
          userHeaderSize = cs_userHeaderSize cs;
          h0 = ChunkHeader_init chunkSize cs;
          (h, mem') =
            (if userHeaderSize = 0 then
               (if ucast userPayloadAlignment \<le> ALIGNOF_ChunkHeader then
                  (let off = ucast SIZEOF_ChunkHeader
                   in (h0\<lparr>ch_userPayloadOffset := off\<rparr>, mem(ADDRESS_OF_m_userPayloadOffset this := off)))
                else
                  (let headerEndAddress = this + SIZEOF_ChunkHeader;
                       alignedUserPayloadAddress = align headerEndAddress (ucast userPayloadAlignment);
                       offsetToUserPayload = alignedUserPayloadAddress - this;
                       off = ucast offsetToUserPayload;
                       addressOfBackOffset = alignedUserPayloadAddress - SIZEOF_UserPayloadOffset
                   in (h0\<lparr>ch_userPayloadOffset := off\<rparr>,
                       mem(ADDRESS_OF_m_userPayloadOffset this := off, addressOfBackOffset := off))))
             else
               (let headerEndAddress = this + SIZEOF_ChunkHeader + ucast userHeaderSize;
                    anticipatedBackOffsetAddress = align headerEndAddress ALIGNOF_UserPayloadOffset;
                    unalignedUserPayloadAddress = anticipatedBackOffsetAddress + SIZEOF_UserPayloadOffset;
                    alignedUserPayloadAddress =
                      align unalignedUserPayloadAddress (ucast userPayloadAlignment);
                    offsetToUserPayload = alignedUserPayloadAddress - this;
                    off = ucast offsetToUserPayload;
                    backOffsetAddress = alignedUserPayloadAddress - SIZEOF_UserPayloadOffset
                in (h0\<lparr>ch_userHeaderId := UNKNOWN_USER_HEADER, ch_userPayloadOffset := off\<rparr>,
                    mem(ADDRESS_OF_m_userPayloadOffset this := off, backOffsetAddress := off))))
      in Expects (overflowSafeUsedSizeOfChunk h \<le> ucast chunkSize) (Inr (h, mem')))"

definition userHeader :: "address \<Rightarrow> chunk_header \<Rightarrow> address pointer" where
  "userHeader this h =
     (if ch_userHeaderId h = NO_USER_HEADER then None else Some (this + SIZEOF_ChunkHeader))"

definition userPayload :: "address \<Rightarrow> chunk_header \<Rightarrow> address" where
  "userPayload this h = this + ucast (ch_userPayloadOffset h)"

definition fromUserPayload :: "offset_memory \<Rightarrow> address pointer \<Rightarrow> address pointer" where
  "fromUserPayload mem p =
     (case p of None \<Rightarrow> None
      | Some userPayloadAddress \<Rightarrow>
          Some (userPayloadAddress - ucast (mem (userPayloadAddress - SIZEOF_UserPayloadOffset))))"

definition fromUserHeader :: "address pointer \<Rightarrow> address pointer" where
  "fromUserHeader p = (case p of None \<Rightarrow> None | Some a \<Rightarrow> Some (a - SIZEOF_ChunkHeader))"

definition setOriginId :: "u64 \<Rightarrow> chunk_header \<Rightarrow> chunk_header" where
  "setOriginId originId h = h\<lparr>ch_originId := originId\<rparr>"

definition setSequenceNumber :: "u64 \<Rightarrow> chunk_header \<Rightarrow> chunk_header" where
  "setSequenceNumber sequenceNumber h = h\<lparr>ch_sequenceNumber := sequenceNumber\<rparr>"

subsection \<open>The payload offset over the natural numbers\<close>

definition payload_offset :: "nat \<Rightarrow> nat \<Rightarrow> nat \<Rightarrow> nat" where
  "payload_offset this alignment header =
     (if header = 0
      then (if alignment \<le> 8 then 40 else round_up (this + 40) alignment - this)
      else round_up (round_up (this + 40 + header) 4 + 4) alignment - this)"

lemma payload_offset_le_required:
  assumes "isPowerOfTwo a" and "8 dvd this"
  shows "payload_offset this (unat (a :: u32)) h + p \<le> required_size p (unat a) h"
proof -
  have pos: "0 < unat a" using isPowerOfTwo_nonzero [OF assms(1)] by (simp add: unat_gt_0)
  show ?thesis
  proof (cases "h = 0")
    case True
    show ?thesis
    proof (cases "unat a \<le> 8")
      case True
      with \<open>h = 0\<close> show ?thesis by (simp add: payload_offset_def required_size_def)
    next
      case False
      then have "8 dvd unat a" using power_of_two_dvd [OF assms(1), of 3] by simp
      then have "round_up (this + 40) (unat a) + 8 \<le> this + 40 + unat a"
        using assms(2) by (intro round_up_le_dvd [OF pos]) auto
      moreover have "this \<le> round_up (this + 40) (unat a)"
        using round_up_ge [of "this + 40" "unat a"] by simp
      ultimately show ?thesis using \<open>h = 0\<close> False
        by (simp add: payload_offset_def required_size_def)
    qed
  next
    case False
    have "4 dvd this" using assms(2) by (auto intro: dvd_trans [of 4 8])
    then have "round_up (this + 40 + h) 4 = this + round_up (40 + h) 4"
      using round_up_add_dvd [of 4 this "40 + h"] by (simp add: add.assoc)
    moreover let ?u = "this + round_up (40 + h) 4 + 4"
    have "4 dvd ?u" using \<open>4 dvd this\<close> round_up_dvd [of 4 "40 + h"] by simp
    then have "round_up ?u (unat a) \<le> this + round_up (40 + h) 4 + max 4 (unat a)"
    proof (cases "unat a \<le> 4")
      case True
      then have "unat a dvd 4" using power_of_two_dvd_pow [OF assms(1), of 2] by simp
      with \<open>4 dvd ?u\<close> have "unat a dvd ?u" using dvd_trans by blast
      then show ?thesis by (simp add: round_up_idem)
    next
      case False
      then have "4 dvd unat a" using power_of_two_dvd [OF assms(1), of 2] by simp
      then have "round_up ?u (unat a) + 4 \<le> ?u + unat a"
        using \<open>4 dvd ?u\<close> by (intro round_up_le_dvd [OF pos]) auto
      with False show ?thesis by (simp add: max_def)
    qed
    ultimately show ?thesis using False
      by (simp add: payload_offset_def required_size_def)
  qed
qed

lemma payload_offset_aligned:
  assumes "isPowerOfTwo a" and "8 dvd this"
  shows "unat (a :: u32) dvd this + payload_offset this (unat a) h"
proof -
  have pos: "0 < unat a" using isPowerOfTwo_nonzero [OF assms(1)] by (simp add: unat_gt_0)
  have ge: "this \<le> round_up (this + x) (unat a)" for x
    using round_up_ge [of "this + x" "unat a"] by simp
  have ge2: "this \<le> round_up (round_up (this + 40 + h) 4 + 4) (unat a)"
    using round_up_ge [of "this + 40 + h" 4]
      round_up_ge [of "round_up (this + 40 + h) 4 + 4" "unat a"] by simp
  show ?thesis
  proof (cases "h = 0 \<and> unat a \<le> 8")
    case True
    then have "unat a dvd 8" using power_of_two_dvd_pow [OF assms(1), of 3] by simp
    with assms(2) have "unat a dvd this" "unat a dvd 40"
      using dvd_trans [of "unat a" 8 40] by (auto intro: dvd_trans)
    with True show ?thesis by (simp add: payload_offset_def)
  next
    case False
    then show ?thesis using ge [of 40] ge2 round_up_dvd [OF pos]
      by (auto simp: payload_offset_def)
  qed
qed

lemma payload_offset_ge:
  "0 < a \<Longrightarrow> 40 + h + (if h = 0 then 0 else 4) \<le> payload_offset this a h"
  using round_up_ge [of "this + 40" a] round_up_ge [of "this + 40 + h" 4]
    round_up_ge [of "round_up (this + 40 + h) 4 + 4" a]
  by (auto simp: payload_offset_def)

subsection \<open>The constructor\<close>

text \<open>The address space above the chunk is large enough that no address computation wraps.\<close>

definition chunk_address_ok :: "address \<Rightarrow> bool" where
  "chunk_address_ok this \<longleftrightarrow> 8 dvd unat this \<and> unat this + 2 ^ 34 \<le> 2 ^ 64"

definition payload_address :: "address \<Rightarrow> chunk_settings \<Rightarrow> address" where
  "payload_address this cs =
     (if cs_userHeaderSize cs = 0
      then (if ucast (cs_userPayloadAlignment cs) \<le> ALIGNOF_ChunkHeader then this + SIZEOF_ChunkHeader
            else align (this + SIZEOF_ChunkHeader) (ucast (cs_userPayloadAlignment cs)))
      else align (align (this + SIZEOF_ChunkHeader + ucast (cs_userHeaderSize cs)) ALIGNOF_UserPayloadOffset
             + SIZEOF_UserPayloadOffset) (ucast (cs_userPayloadAlignment cs)))"

lemma unat_payload_address:
  assumes "chunk_address_ok this" "chunk_settings_valid cs"
  shows "unat (payload_address this cs) =
    unat this + payload_offset (unat this) (unat (cs_userPayloadAlignment cs)) (unat (cs_userHeaderSize cs))"
proof -
  let ?a = "cs_userPayloadAlignment cs" and ?h = "cs_userHeaderSize cs" and ?t = "unat this"
  have pos: "0 < unat ?a" using assms(2) isPowerOfTwo_nonzero
    by (auto simp: chunk_settings_valid_def unat_gt_0)
  then have nz: "(ucast ?a :: u64) \<noteq> 0" by (simp flip: unat_eq_0)
  note b = u32_unat_less [of ?a] u32_unat_less [of ?h]
  have t: "?t + 17179869184 \<le> 18446744073709551616"
    using assms(1) by (simp add: chunk_address_ok_def)
  have e1: "unat (this + 40) = ?t + 40" using t by (subst unat_add_no_wrap) auto
  then have e2: "unat (this + 40 + ucast ?h) = ?t + 40 + unat ?h"
    using t b by (subst unat_add_no_wrap) auto
  then have e3: "unat (align (this + 40 + ucast ?h) 4) = round_up (?t + 40 + unat ?h) 4"
    using t b by (subst unat_align) auto
  have r: "round_up (?t + 40 + unat ?h) 4 < ?t + 44 + unat ?h"
    using round_up_less [of 4 "?t + 40 + unat ?h"] by simp
  then have e4: "unat (align (this + 40 + ucast ?h) 4 + 4) = round_up (?t + 40 + unat ?h) 4 + 4"
    using t b by (subst unat_add_no_wrap) (auto simp: e3)
  have e5: "unat (align (align (this + 40 + ucast ?h) 4 + 4) (ucast ?a)) =
      round_up (round_up (?t + 40 + unat ?h) 4 + 4) (unat ?a)"
    using t b r nz by (subst unat_align) (auto simp: e4)
  have e6: "unat (align (this + 40) (ucast ?a)) = round_up (?t + 40) (unat ?a)"
    using t b nz by (subst unat_align) (auto simp: e1)
  have g: "?t \<le> round_up (?t + 40) (unat ?a)"
    "?t \<le> round_up (round_up (?t + 40 + unat ?h) 4 + 4) (unat ?a)"
    using round_up_ge [of "?t + 40" "unat ?a"] round_up_ge [of "?t + 40 + unat ?h" 4]
      round_up_ge [of "round_up (?t + 40 + unat ?h) 4 + 4" "unat ?a"] by linarith+
  have h0: "?h = 0 \<longleftrightarrow> unat ?h = 0" by (simp add: unat_eq_0)
  show ?thesis
    unfolding payload_address_def payload_offset_def chunk_layout_defs h0
    by (simp add: e1 e5 e6 g)
qed

lemma fun_upd_self_upd: "(f(a := x, b := x)) b = x"
  by simp

text \<open>
  The result of the constructor, for valid settings and a chunk of at least the required size:
  it always passes its post-condition, and the offset it stores is the one of the
  specification.
\<close>

lemma ChunkHeader_new_ok:
  assumes "chunk_address_ok this" "chunk_settings_valid cs"
    and "cs_requiredChunkSize cs \<le> chunkSize"
  obtains h mem' where "ChunkHeader_new this chunkSize cs mem = Inr (h, mem')"
    and "unat (ch_userPayloadOffset h) =
      payload_offset (unat this) (unat (cs_userPayloadAlignment cs)) (unat (cs_userHeaderSize cs))"
    and "userPayload this h = payload_address this cs"
    and "mem' (payload_address this cs - SIZEOF_UserPayloadOffset) = ch_userPayloadOffset h"
    and "h = (ChunkHeader_init chunkSize cs)
      \<lparr>ch_userHeaderId := (if cs_userHeaderSize cs = 0 then NO_USER_HEADER else UNKNOWN_USER_HEADER),
       ch_userPayloadOffset := ch_userPayloadOffset h\<rparr>"
proof -
  let ?A = "payload_address this cs"
  let ?off = "payload_offset (unat this) (unat (cs_userPayloadAlignment cs)) (unat (cs_userHeaderSize cs))"
  let ?o = "ucast (?A - this) :: u32"
  let ?h = "(ChunkHeader_init chunkSize cs)
      \<lparr>ch_userHeaderId := (if cs_userHeaderSize cs = 0 then NO_USER_HEADER else UNKNOWN_USER_HEADER),
       ch_userPayloadOffset := ?o\<rparr>"
  let ?m = "mem(ADDRESS_OF_m_userPayloadOffset this := ?o, ?A - SIZEOF_UserPayloadOffset := ?o)"
  from assms(2) have pw: "isPowerOfTwo (cs_userPayloadAlignment cs)"
    by (simp add: chunk_settings_valid_def)
  from assms(1) have al: "8 dvd unat this" by (simp add: chunk_address_ok_def)
  have A: "unat ?A = unat this + ?off" by (rule unat_payload_address [OF assms(1,2)])
  have le: "?off + unat (cs_userPayloadSize cs) \<le> unat (cs_requiredChunkSize cs)"
    using payload_offset_le_required [OF pw al] assms(2) by (simp add: chunk_settings_valid_def)
  then have off32: "?off < 4294967296" using u32_unat_less [of "cs_requiredChunkSize cs"] by linarith
  have d: "unat (?A - this) = ?off" by (subst unat_sub_no_wrap) (auto simp: A)
  then have o: "unat ?o = ?off" using off32 by (simp add: unat_ucast_u64_u32)
  have "unat (?A - this) = unat (ucast ?o :: u64)" using d o by simp
  then have "?A - this = ucast ?o" by (simp only: word_unat_eq_iff)
  then have P: "userPayload this ?h = ?A" by (simp add: userPayload_def algebra_simps)
  have "unat (overflowSafeUsedSizeOfChunk ?h) = ?off + unat (cs_userPayloadSize cs)"
    unfolding overflowSafeUsedSizeOfChunk_def
    using off32 u32_unat_less [of "cs_userPayloadSize cs"] o
    by (subst unat_add_no_wrap) (auto simp: ChunkHeader_init_def)
  then have E: "overflowSafeUsedSizeOfChunk ?h \<le> ucast chunkSize"
    using le assms(3) by (simp add: word_le_nat_alt)
  have N: "ChunkHeader_new this chunkSize cs mem = Inr (?h, ?m)"
  proof (cases "cs_userHeaderSize cs = 0 \<and> ucast (cs_userPayloadAlignment cs) \<le> ALIGNOF_ChunkHeader")
    case True
    then have "?A = this + SIZEOF_ChunkHeader" by (simp add: payload_address_def)
    with True E show ?thesis
      by (auto simp: ChunkHeader_new_def Let_def ADDRESS_OF_m_userPayloadOffset_def ChunkHeader_init_def
          chunk_layout_defs)
  next
    case False
    with E show ?thesis
      by (auto simp: ChunkHeader_new_def Let_def payload_address_def ChunkHeader_init_def
          simp del: fun_upd_apply)
  qed
  show thesis by (rule that [OF N]) (use o P in simp_all)
qed

subsection \<open>Properties\<close>

text \<open>
  C2: for every accepted request, every 8-aligned chunk address and every chunk of at least the
  required size, the constructor of the chunk header passes its post-condition; the user-payload
  is aligned as requested, starts behind the headers and the back-offset, and ends inside the
  chunk; the header is found again from the user-payload and from the user-header.
\<close>

theorem chunk_layout_correct:
  assumes "ChunkSettings_create ps a hs ha = Inr cs" "chunk_address_ok this"
    and "cs_requiredChunkSize cs \<le> chunkSize"
  shows "\<exists>h mem'. ChunkHeader_new this chunkSize cs mem = Inr (h, mem') \<and>
     unat (cs_userPayloadAlignment cs) dvd unat (userPayload this h) \<and>
     unat this + 40 + unat hs + (if hs = 0 then 0 else 4) \<le> unat (userPayload this h) \<and>
     unat (userPayload this h) + unat ps \<le> unat this + unat chunkSize \<and>
     fromUserPayload mem' (Some (userPayload this h)) = Some this \<and>
     userHeader this h = (if hs = 0 then None else Some (this + 40)) \<and>
     (hs \<noteq> 0 \<longrightarrow> fromUserHeader (userHeader this h) = Some this) \<and>
     unat (usedSizeOfChunk h) \<le> unat chunkSize"
proof -
  note cs = ChunkSettings_create_valid [OF assms(1)]
  obtain h mem' where n: "ChunkHeader_new this chunkSize cs mem = Inr (h, mem')"
    and off: "unat (ch_userPayloadOffset h) =
      payload_offset (unat this) (unat (cs_userPayloadAlignment cs)) (unat (cs_userHeaderSize cs))"
    and p: "userPayload this h = payload_address this cs"
    and b: "mem' (payload_address this cs - SIZEOF_UserPayloadOffset) = ch_userPayloadOffset h"
    and h: "h = (ChunkHeader_init chunkSize cs)
      \<lparr>ch_userHeaderId := (if cs_userHeaderSize cs = 0 then NO_USER_HEADER else UNKNOWN_USER_HEADER),
       ch_userPayloadOffset := ch_userPayloadOffset h\<rparr>"
    using ChunkHeader_new_ok [OF assms(2) cs(1) assms(3)] by metis
  from cs(1) have pw: "isPowerOfTwo (cs_userPayloadAlignment cs)" by (simp add: chunk_settings_valid_def)
  from assms(2) have al: "8 dvd unat this" by (simp add: chunk_address_ok_def)
  have P: "unat (userPayload this h) = unat this + unat (ch_userPayloadOffset h)"
    using unat_payload_address [OF assms(2) cs(1)] p off by simp
  have fit: "unat (ch_userPayloadOffset h) + unat ps \<le> unat chunkSize"
    using payload_offset_le_required [OF pw al, of "unat (cs_userHeaderSize cs)" "unat ps"]
      cs(1) cs(2) assms(3) off
    by (simp add: chunk_settings_valid_def word_le_nat_alt)
  have ge: "40 + unat hs + (if hs = 0 then 0 else 4) \<le> unat (ch_userPayloadOffset h)"
    using payload_offset_ge [of "unat (cs_userPayloadAlignment cs)" "unat hs" "unat this"]
      isPowerOfTwo_nonzero [OF pw] off cs(3) by (simp add: unat_gt_0 unat_eq_0)
  have sz: "ch_userPayloadSize h = ps" using cs(2) by (subst h) (simp add: ChunkHeader_init_def)
  have uid: "ch_userHeaderId h = (if hs = 0 then NO_USER_HEADER else UNKNOWN_USER_HEADER)"
    using cs(3) by (subst h) simp
  have "unat (overflowSafeUsedSizeOfChunk h) = unat (ch_userPayloadOffset h) + unat ps"
    unfolding overflowSafeUsedSizeOfChunk_def sz using fit u32_unat_less [of chunkSize]
    by (subst unat_add_no_wrap) auto
  then have us: "unat (usedSizeOfChunk h) \<le> unat chunkSize"
    unfolding usedSizeOfChunk_def using fit u32_unat_less [of chunkSize] by (simp add: unat_ucast_u64_u32)
  have "userPayload this h - ucast (ch_userPayloadOffset h) = this" by (simp add: userPayload_def)
  then have bk: "fromUserPayload mem' (Some (userPayload this h)) = Some this"
    using b p by (simp add: fromUserPayload_def)
  have "unat (cs_userPayloadAlignment cs) dvd unat (userPayload this h)"
    using payload_offset_aligned [OF pw al] P off by simp
  then show ?thesis using n P fit ge us bk uid
    by (intro exI [of _ h] exI [of _ mem'])
      (simp add: userHeader_def fromUserHeader_def NO_USER_HEADER_def UNKNOWN_USER_HEADER_def
        SIZEOF_ChunkHeader_def)
qed

lemma chunk_layout_correct_witness:
  "\<exists>cs h mem'. ChunkSettings_create 100 64 24 8 = Inr cs \<and> cs_requiredChunkSize cs = 228 \<and>
     ChunkHeader_new 0x1008 240 cs (\<lambda>_. 0) = Inr (h, mem') \<and> userPayload 0x1008 h = 0x1080 \<and>
     unat (userPayload 0x1008 h) + 100 \<le> 0x1008 + 240 \<and>
     fromUserPayload mem' (Some (userPayload 0x1008 h)) = Some 0x1008 \<and>
     fromUserHeader (userHeader 0x1008 h) = Some 0x1008"
proof -
  let ?cs = "\<lparr> cs_userPayloadSize = 100, cs_userPayloadAlignment = 64, cs_userHeaderSize = 24,
    cs_userHeaderAlignment = 8, cs_requiredChunkSize = 228 \<rparr>"
  have c: "ChunkSettings_create 100 64 24 8 = Inr ?cs" by code_simp
  have a: "chunk_address_ok 0x1008" by (simp add: chunk_address_ok_def)
  have r: "cs_requiredChunkSize ?cs \<le> 240" by simp
  have u: "userPayload 0x1008 h = 0x1080" if "ChunkHeader_new 0x1008 240 ?cs (\<lambda>_. 0) = Inr (h, mem')" for h mem'
  proof -
    have "map_sum id (\<lambda>(h, _). userPayload 0x1008 h) (ChunkHeader_new 0x1008 240 ?cs (\<lambda>_. 0)) = Inr 0x1080"
      by code_simp
    with that show ?thesis by simp
  qed
  show ?thesis using chunk_layout_correct [OF c a r, of "\<lambda>_. 0"] u c by fastforce
qed

end
