(* ===== verification/LoFFLi.thy ===== *)
theory LoFFLi
  imports Prelude
begin

section \<open>LoFFLi: the free list of indices\<close>

text \<open>
  \<open>concurrent::LoFFLi\<close> (\<open>loffli.hpp\<close>, \<open>loffli.inl\<close>, \<open>loffli.cpp\<close>): a free list threaded through
  an array of indices. This theory models the calls one after the other, where the
  compare-and-swap of \<open>pop\<close> and \<open>push\<close> succeeds in its first iteration; the interleaved
  execution is the subject of \<open>LoFFLi_Concurrent\<close>, which uses the same data.

  The locale \<open>index_allocator\<close> is the contract that the memory pools rely on; it is
  interpreted on the free list at the end of the theory.
\<close>

record loffli_node =
  indexToNextFreeIndex :: u32
  abaCounter :: u32

record loffli =
  m_size :: u32
  m_invalidIndex :: u32
  m_head :: loffli_node
  m_nextFreeIndex :: "u32 list"

text \<open>The member initialisers of the class.\<close>

definition LoFFLi_ctor :: loffli where
  "LoFFLi_ctor = \<lparr> m_size = 0, m_invalidIndex = 0,
     m_head = \<lparr> indexToNextFreeIndex = 0, abaCounter = 1 \<rparr>, m_nextFreeIndex = [] \<rparr>"

definition requiredIndexMemorySize :: "u32 \<Rightarrow> u64" where
  "requiredIndexMemorySize capacity = (ucast capacity + 1) * 4"

text \<open>
  \<open>head_is_lock_free\<close> is what the platform answers to \<open>m_head.is_lock_free()\<close>;
  \<open>freeIndicesMemory\<close> is the array the (never null) pointer argument refers to.
\<close>

definition LoFFLi_init :: "bool \<Rightarrow> u32 list \<Rightarrow> u32 \<Rightarrow> loffli \<Rightarrow> loffli outcome" where
  "LoFFLi_init head_is_lock_free freeIndicesMemory capacity this =
     Expects (capacity > 0)
       (Expects (capacity < - 1 - 1)
         (Expects head_is_lock_free
           (let n = capacity;
                memory = foldl (\<lambda>mem i. mem[i := of_nat i + 1]) freeIndicesMemory [0..<unat (n + 1)]
            in Inr (this\<lparr> m_nextFreeIndex := memory, m_size := n, m_invalidIndex := n + 1 \<rparr>))))"

definition LoFFLi_pop :: "loffli \<Rightarrow> u32 option \<times> loffli" where
  "LoFFLi_pop this =
     (let oldHead = m_head this
      in if indexToNextFreeIndex oldHead \<ge> m_size this then (None, this)
         else (let newHead = \<lparr> indexToNextFreeIndex =
                                 m_nextFreeIndex this ! unat (indexToNextFreeIndex oldHead),
                               abaCounter = abaCounter oldHead + 1 \<rparr>;
                   index = indexToNextFreeIndex oldHead
               in (Some index,
                   this\<lparr> m_head := newHead,
                         m_nextFreeIndex := (m_nextFreeIndex this)[unat index := m_invalidIndex this] \<rparr>)))"

definition LoFFLi_push :: "u32 \<Rightarrow> loffli \<Rightarrow> bool \<times> loffli" where
  "LoFFLi_push index this =
     (if index \<ge> m_size this \<or> m_nextFreeIndex this ! unat index \<noteq> m_invalidIndex this
      then (False, this)
      else (let oldHead = m_head this;
                newHead = \<lparr> indexToNextFreeIndex = index, abaCounter = abaCounter oldHead + 1 \<rparr>
            in (True,
                this\<lparr> m_nextFreeIndex := (m_nextFreeIndex this)[unat index := indexToNextFreeIndex oldHead],
                      m_head := newHead \<rparr>)))"

subsection \<open>The list of free indices\<close>

text \<open>The indices met when following the links from \<open>i\<close>; \<open>n\<close> is the end marker.\<close>

primrec walk :: "nat \<Rightarrow> u32 list \<Rightarrow> u32 \<Rightarrow> u32 \<Rightarrow> u32 list" where
  "walk 0 nxt n i = []"
| "walk (Suc k) nxt n i = (if i < n then i # walk k nxt n (nxt ! unat i) else [])"

definition free_indices :: "loffli \<Rightarrow> u32 list" where
  "free_indices l = walk (unat (m_size l)) (m_nextFreeIndex l) (m_size l) (indexToNextFreeIndex (m_head l))"

primrec linked :: "u32 list \<Rightarrow> u32 \<Rightarrow> u32 \<Rightarrow> u32 list \<Rightarrow> bool" where
  "linked nxt n i [] \<longleftrightarrow> i = n"
| "linked nxt n i (x # xs) \<longleftrightarrow> i = x \<and> x < n \<and> linked nxt n (nxt ! unat x) xs"

definition loffli_shape :: "loffli \<Rightarrow> u32 list \<Rightarrow> bool" where
  "loffli_shape l fl \<longleftrightarrow>
     0 < m_size l \<and> m_size l < - 1 - 1 \<and> m_invalidIndex l = m_size l + 1 \<and>
     length (m_nextFreeIndex l) = unat (m_size l) + 1 \<and>
     linked (m_nextFreeIndex l) (m_size l) (indexToNextFreeIndex (m_head l)) fl \<and> distinct fl \<and>
     (\<forall>i<m_size l. i \<notin> set fl \<longrightarrow> m_nextFreeIndex l ! unat i = m_invalidIndex l)"

definition loffli_inv :: "loffli \<Rightarrow> bool" where
  "loffli_inv l \<longleftrightarrow> loffli_shape l (free_indices l)"

lemma linked_bound: "linked nxt n i fl \<Longrightarrow> x \<in> set fl \<Longrightarrow> x < n"
  by (induction fl arbitrary: i) auto

lemma linked_walk: "linked nxt n i fl \<Longrightarrow> length fl \<le> k \<Longrightarrow> walk k nxt n i = fl"
proof (induction fl arbitrary: i k)
  case Nil
  then show ?case by (cases k) auto
next
  case (Cons a fl)
  then show ?case by (cases k) auto
qed

lemma linked_update:
  "linked nxt n i fl \<Longrightarrow> x \<notin> set fl \<Longrightarrow> linked (nxt[unat x := v]) n i fl"
  by (induction fl arbitrary: i) (auto simp: nth_list_update word_unat_eq_iff)

lemma linked_next_le:
  "linked nxt n i fl \<Longrightarrow> x \<in> set fl \<Longrightarrow> nxt ! unat x \<le> n"
proof (induction fl arbitrary: i)
  case (Cons a fl)
  then show ?case by (cases fl) auto
qed simp

lemma distinct_below_length:
  assumes "distinct fl" "\<forall>x\<in>set fl. x < (n :: u32)"
  shows "length fl \<le> unat n"
proof -
  have "card (unat ` set fl) = length fl"
    using assms(1) distinct_card [of fl] by (subst card_image) (auto simp: inj_on_def word_unat_eq_iff)
  moreover have "unat ` set fl \<subseteq> {..<unat n}"
    using assms(2) by (auto simp: word_less_nat_alt)
  ultimately show ?thesis
    by (metis card_lessThan card_mono finite_lessThan)
qed

lemma loffli_shape_free:
  assumes "loffli_shape l fl" shows "free_indices l = fl"
proof -
  from assms have *: "linked (m_nextFreeIndex l) (m_size l) (indexToNextFreeIndex (m_head l)) fl"
    "distinct fl" by (simp_all add: loffli_shape_def)
  then have "length fl \<le> unat (m_size l)" by (intro distinct_below_length) (auto dest: linked_bound)
  with *(1) show ?thesis by (simp add: free_indices_def linked_walk)
qed

lemma loffli_shape_iff: "loffli_shape l fl \<longleftrightarrow> loffli_inv l \<and> free_indices l = fl"
  using loffli_shape_free loffli_inv_def by metis

lemma u32_no_wrap_Suc: "(n :: u32) < - 1 - 1 \<Longrightarrow> unat (n + 1) = unat n + 1"
  using u32_unat_less [of n] by (subst unat_add_no_wrap) (auto simp: word_less_nat_alt)

lemma invalid_not_linked:
  assumes "loffli_shape l fl" "x \<in> set fl"
  shows "m_nextFreeIndex l ! unat x \<noteq> m_invalidIndex l"
proof
  assume e: "m_nextFreeIndex l ! unat x = m_invalidIndex l"
  have "m_nextFreeIndex l ! unat x \<le> m_size l"
    using assms linked_next_le by (auto simp: loffli_shape_def)
  moreover have "unat (m_size l + 1) = unat (m_size l) + 1"
    using assms(1) by (intro u32_no_wrap_Suc) (simp add: loffli_shape_def)
  ultimately show False using assms(1) e by (simp add: loffli_shape_def word_le_nat_alt)
qed

subsection \<open>The operations on the shape\<close>

lemma pop_shape_Nil: "loffli_shape l [] \<Longrightarrow> LoFFLi_pop l = (None, l)"
  by (simp add: loffli_shape_def LoFFLi_pop_def)

lemma pop_shape_Cons:
  assumes "loffli_shape l (x # fl)"
  obtains l' where "LoFFLi_pop l = (Some x, l')" "loffli_shape l' fl" "m_size l' = m_size l"
proof
  let ?l' = "l\<lparr> m_head := \<lparr> indexToNextFreeIndex = m_nextFreeIndex l ! unat x,
                             abaCounter = abaCounter (m_head l) + 1 \<rparr>,
                m_nextFreeIndex := (m_nextFreeIndex l)[unat x := m_invalidIndex l] \<rparr>"
  from assms have h: "indexToNextFreeIndex (m_head l) = x" "x < m_size l" "x \<notin> set fl"
    "linked (m_nextFreeIndex l) (m_size l) (m_nextFreeIndex l ! unat x) fl"
    "length (m_nextFreeIndex l) = unat (m_size l) + 1"
    by (auto simp: loffli_shape_def)
  show "LoFFLi_pop l = (Some x, ?l')" using h by (simp add: LoFFLi_pop_def Let_def)
  have "unat x < unat (m_size l)" using h(2) by (simp add: word_less_nat_alt)
  then show "loffli_shape ?l' fl"
    using assms h linked_update [OF h(4,3)]
    by (auto simp: loffli_shape_def nth_list_update)
  show "m_size ?l' = m_size l" by simp
qed

lemma push_shape_ok:
  assumes "loffli_shape l fl" "x < m_size l" "x \<notin> set fl"
  obtains l' where "LoFFLi_push x l = (True, l')" "loffli_shape l' (x # fl)" "m_size l' = m_size l"
proof
  let ?l' = "l\<lparr> m_nextFreeIndex := (m_nextFreeIndex l)[unat x := indexToNextFreeIndex (m_head l)],
                m_head := \<lparr> indexToNextFreeIndex = x, abaCounter = abaCounter (m_head l) + 1 \<rparr> \<rparr>"
  from assms have n: "m_nextFreeIndex l ! unat x = m_invalidIndex l"
    and lk: "linked (m_nextFreeIndex l) (m_size l) (indexToNextFreeIndex (m_head l)) fl"
    by (auto simp: loffli_shape_def)
  with assms(2) show "LoFFLi_push x l = (True, ?l')" by (simp add: LoFFLi_push_def Let_def not_le)
  have "unat x < unat (m_size l)" using assms(2) by (simp add: word_less_nat_alt)
  then show "loffli_shape ?l' (x # fl)"
    using assms linked_update [OF lk assms(3)]
    by (auto simp: loffli_shape_def nth_list_update word_unat_eq_iff)
  show "m_size ?l' = m_size l" by simp
qed

lemma push_shape_refused:
  assumes "loffli_shape l fl" "x \<ge> m_size l \<or> x \<in> set fl"
  shows "LoFFLi_push x l = (False, l)"
  using assms invalid_not_linked [OF assms(1)] by (auto simp: LoFFLi_push_def)

subsection \<open>Initialisation\<close>

lemma foldl_list_update:
  "length (foldl (\<lambda>mem i. mem[i := f i]) m xs) = length m \<and>
   (\<forall>j<length m. foldl (\<lambda>mem i. mem[i := f i]) m xs ! j = (if j \<in> set xs then f j else m ! j))"
proof (induction xs arbitrary: m)
  case (Cons a xs)
  show ?case using Cons.IH [of "m[a := f a]"] by (auto simp: nth_list_update)
qed simp

lemma linked_initial:
  assumes "\<forall>j<n. nxt ! j = of_nat j + (1 :: u32)" "n < 4294967296" "k \<le> n"
  shows "linked nxt (of_nat n) (of_nat (n - k)) (map of_nat [n - k..<n])"
  using assms(3)
proof (induction k)
  case (Suc k)
  then have e: "[n - Suc k..<n] = (n - Suc k) # [n - k..<n]"
    by (simp add: upt_rec Suc_diff_Suc)
  have lt: "n - Suc k < n" using Suc.prems by simp
  then have u: "unat (of_nat (n - Suc k) :: u32) = n - Suc k" using assms(2) by (simp add: unat_of_nat_u32)
  have "nxt ! (n - Suc k) = of_nat (n - Suc k) + 1" using assms(1) lt by blast
  also have "\<dots> = of_nat (Suc (n - Suc k))" by simp
  also have "Suc (n - Suc k) = n - k" using Suc.prems by simp
  finally have nx: "nxt ! (n - Suc k) = of_nat (n - k)" .
  have "(of_nat (n - Suc k) :: u32) < of_nat n"
    using lt u assms(2) by (simp add: word_less_nat_alt unat_of_nat_u32)
  then show ?case using Suc by (simp add: e u nx del: of_nat_diff)
qed simp

lemma init_shape:
  assumes "0 < capacity" "capacity < - 1 - 1" "length mem = unat capacity + 1"
    and "indexToNextFreeIndex (m_head l) = 0"
  obtains l' where "LoFFLi_init True mem capacity l = Inr l'"
    "loffli_shape l' (map of_nat [0..<unat capacity])" "m_size l' = capacity"
proof -
  define m where "m = foldl (\<lambda>mem i. mem[i := of_nat i + (1 :: u32)]) mem [0..<unat (capacity + 1)]"
  let ?l' = "l\<lparr> m_nextFreeIndex := m, m_size := capacity, m_invalidIndex := capacity + 1 \<rparr>"
  let ?fl = "map of_nat [0..<unat capacity] :: u32 list"
  have i: "LoFFLi_init True mem capacity l = Inr ?l'"
    using assms(1,2) by (simp add: LoFFLi_init_def Let_def m_def)
  have n: "unat (capacity + 1) = unat capacity + 1" by (rule u32_no_wrap_Suc) (fact assms)
  have m: "length m = unat capacity + 1" "\<forall>j<unat capacity. m ! j = of_nat j + 1"
    using assms(3) foldl_list_update [of "\<lambda>i. of_nat i + 1" mem "[0..<unat (capacity + 1)]"]
    by (simp_all add: n m_def del: upt_Suc)
  have "linked m (of_nat (unat capacity)) (of_nat (unat capacity - unat capacity))
      (map of_nat [unat capacity - unat capacity..<unat capacity])"
    using m(2) u32_unat_less by (intro linked_initial) auto
  then have lk: "linked m capacity 0 ?fl" by simp
  have d: "distinct ?fl" and "\<forall>i<capacity. i \<in> set ?fl" using upt_below_u32 [of capacity] by auto
  then have "loffli_shape ?l' ?fl"
    unfolding loffli_shape_def using assms(1,2,4) lk m(1) d by simp
  with i show thesis by (rule that) simp
qed

subsection \<open>The contract of an index allocator\<close>

text \<open>
  What a memory pool relies on: \<open>pop\<close> hands out the first free index and fails only when there
  is none, \<open>push\<close> accepts exactly the indices that are handed out.
\<close>

locale index_allocator =
  fixes inv :: "'s \<Rightarrow> bool" and capacity :: "'s \<Rightarrow> u32" and free :: "'s \<Rightarrow> u32 list"
    and pop :: "'s \<Rightarrow> u32 option \<times> 's" and push :: "u32 \<Rightarrow> 's \<Rightarrow> bool \<times> 's"
  assumes free_distinct: "inv s \<Longrightarrow> distinct (free s)"
    and free_bound: "inv s \<Longrightarrow> i \<in> set (free s) \<Longrightarrow> i < capacity s"
    and pop_none: "inv s \<Longrightarrow> free s = [] \<Longrightarrow> pop s = (None, s)"
    and pop_some: "inv s \<Longrightarrow> free s = i # is \<Longrightarrow>
      \<exists>s'. pop s = (Some i, s') \<and> inv s' \<and> free s' = is \<and> capacity s' = capacity s"
    and push_used: "inv s \<Longrightarrow> i < capacity s \<Longrightarrow> i \<notin> set (free s) \<Longrightarrow>
      \<exists>s'. push i s = (True, s') \<and> inv s' \<and> free s' = i # free s \<and> capacity s' = capacity s"
    and push_free: "inv s \<Longrightarrow> i \<ge> capacity s \<or> i \<in> set (free s) \<Longrightarrow> push i s = (False, s)"
begin

lemma pop_cases:
  assumes "inv s" "pop s = (r, s')"
  obtains (empty) "free s = []" "r = None" "s' = s"
  | (index) i "is" where "free s = i # is" "r = Some i" "inv s'" "free s' = is"
      "capacity s' = capacity s" "i < capacity s" "i \<notin> set is"
proof (cases "free s")
  case Nil
  show thesis using assms(2) pop_none [OF assms(1) Nil] by (intro empty [OF Nil]) simp_all
next
  case (Cons i "is")
  then have "i < capacity s" "i \<notin> set is"
    using free_bound [OF assms(1), of i] free_distinct [OF assms(1)] by simp_all
  then show thesis using assms(2) pop_some [OF assms(1) Cons] by (intro index [OF Cons]) auto
qed

lemma push_cases:
  assumes "inv s" "push i s = (r, s')"
  obtains (refused) "i \<ge> capacity s \<or> i \<in> set (free s)" "\<not> r" "s' = s"
  | (accepted) "i < capacity s" "i \<notin> set (free s)" "r" "inv s'" "free s' = i # free s"
      "capacity s' = capacity s"
proof (cases "i < capacity s \<and> i \<notin> set (free s)")
  case True
  with assms(2) push_used [OF assms(1), of i] show thesis by (intro accepted) auto
next
  case False
  then have "i \<ge> capacity s \<or> i \<in> set (free s)" by auto
  with assms(2) push_free [OF assms(1) this] show thesis by (intro refused) auto
qed

lemma push_pop: "inv s \<Longrightarrow> i < capacity s \<Longrightarrow> i \<notin> set (free s) \<Longrightarrow> \<exists>s'. pop (snd (push i s)) = (Some i, s') \<and> free s' = free s"
  using push_used [of s i] pop_some by fastforce

lemma free_length: "inv s \<Longrightarrow> length (free s) \<le> unat (capacity s)"
  using free_distinct free_bound by (intro distinct_below_length) auto

lemma free_card:
  assumes "inv s"
  shows "length (free s) + card {i. i < capacity s \<and> i \<notin> set (free s)} = unat (capacity s)"
proof -
  let ?u = "{i. i < capacity s \<and> i \<notin> set (free s)}"
  have "card {i. i < capacity s} = unat (capacity s)" by (rule card_below_u32)
  moreover have "{i. i < capacity s} = set (free s) \<union> ?u" using free_bound [OF assms] by auto
  moreover have "card (set (free s) \<union> ?u) = card (set (free s)) + card ?u"
    by (rule card_Un_disjoint) auto
  ultimately show ?thesis using distinct_card [OF free_distinct [OF assms]] by simp
qed

end

interpretation loffli: index_allocator loffli_inv m_size free_indices LoFFLi_pop LoFFLi_push
proof (unfold_locales, goal_cases)
  case (1 s)
  then show ?case by (simp add: loffli_inv_def loffli_shape_def)
next
  case (2 s i)
  then show ?case by (auto simp: loffli_inv_def loffli_shape_def dest: linked_bound)
next
  case (3 s)
  then show ?case using pop_shape_Nil [of s] by (simp add: loffli_inv_def)
next
  case (4 s i "is")
  then show ?case using pop_shape_Cons [of s i "is"] by (auto simp: loffli_shape_iff)
next
  case (5 s i)
  then show ?case using push_shape_ok [of s "free_indices s" i] by (auto simp: loffli_shape_iff)
next
  case (6 s i)
  then show ?case using push_shape_refused [of s "free_indices s" i] by (simp add: loffli_inv_def)
qed

subsection \<open>Sequences of calls\<close>

text \<open>
  A sequence of calls by any clients; the first component collects the indices that \<open>pop\<close> has
  returned and \<open>push\<close> has not yet taken back.
\<close>

datatype loffli_call = Pop | Push u32

fun loffli_apply :: "loffli_call \<Rightarrow> u32 list \<times> loffli \<Rightarrow> u32 list \<times> loffli" where
  "loffli_apply Pop (owned, l) =
     (case LoFFLi_pop l of (None, l') \<Rightarrow> (owned, l') | (Some i, l') \<Rightarrow> (i # owned, l'))"
| "loffli_apply (Push i) (owned, l) =
     (case LoFFLi_push i l of (True, l') \<Rightarrow> (remove1 i owned, l') | (False, l') \<Rightarrow> (owned, l'))"

definition loffli_calls :: "loffli_call list \<Rightarrow> loffli \<Rightarrow> u32 list \<times> loffli" where
  "loffli_calls cs l = fold loffli_apply cs ([], l)"

definition owned_ok :: "u32 \<Rightarrow> u32 list \<times> loffli \<Rightarrow> bool" where
  "owned_ok n s \<longleftrightarrow> loffli_inv (snd s) \<and> m_size (snd s) = n \<and> distinct (fst s) \<and>
     set (fst s) = {i. i < n \<and> i \<notin> set (free_indices (snd s))}"

lemma owned_ok_call: "owned_ok n s \<Longrightarrow> owned_ok n (loffli_apply c s)"
proof (induction c s rule: loffli_apply.induct)
  case (1 owned l)
  then have inv: "loffli_inv l" by (simp add: owned_ok_def)
  obtain r l' where p: "LoFFLi_pop l = (r, l')" by (cases "LoFFLi_pop l")
  from inv p show ?case
  proof (cases rule: loffli.pop_cases)
    case empty
    with 1 p show ?thesis by simp
  next
    case (index i "is")
    with 1 p show ?thesis by (auto simp: owned_ok_def)
  qed
next
  case (2 i owned l)
  then have inv: "loffli_inv l" by (simp add: owned_ok_def)
  obtain r l' where p: "LoFFLi_push i l = (r, l')" by (cases "LoFFLi_push i l")
  from inv p show ?case
  proof (cases rule: loffli.push_cases)
    case refused
    with 2 p show ?thesis by simp
  next
    case accepted
    with 2 p show ?thesis by (auto simp: owned_ok_def)
  qed
qed

lemma owned_ok_calls: "owned_ok n s \<Longrightarrow> owned_ok n (fold loffli_apply cs s)"
  by (induction cs arbitrary: s) (simp_all add: owned_ok_call)

text \<open>
  C3: from its initialisation on, and after every sequence of \<open>pop\<close> and \<open>push\<close> calls with any
  arguments, the indices that are handed out are pairwise different, are exactly the indices
  that are not in the free list, and no index is lost: the free ones and the ones handed out
  add up to the capacity. In particular \<open>push\<close> has no effect on an index that is free.
\<close>

theorem loffli_exclusive_ownership:
  assumes "0 < capacity" "capacity < - 1 - 1" "length mem = unat capacity + 1"
    and "LoFFLi_init True mem capacity LoFFLi_ctor = Inr l"
    and "loffli_calls cs l = (owned, l')"
  shows "distinct owned \<and> set owned = {i. i < capacity \<and> i \<notin> set (free_indices l')} \<and>
    length owned + length (free_indices l') = unat capacity"
proof -
  from init_shape [OF assms(1-3), of LoFFLi_ctor] assms(4)
  have "loffli_shape l (map of_nat [0..<unat capacity])" "m_size l = capacity"
    by (auto simp: LoFFLi_ctor_def)
  moreover have "i \<in> of_nat ` {0..<unat capacity}" if "i < capacity" for i :: u32
    using that by (intro image_eqI [of _ _ "unat i"]) (auto simp: word_less_nat_alt)
  ultimately have "owned_ok capacity ([], l)" by (auto simp: owned_ok_def loffli_shape_iff)
  then have ok: "owned_ok capacity (owned, l')"
    using owned_ok_calls [of capacity "([], l)" cs] assms(5) by (simp add: loffli_calls_def)
  then have d: "distinct owned" and e: "set owned = {i. i < capacity \<and> i \<notin> set (free_indices l')}"
    by (simp_all add: owned_ok_def)
  then show ?thesis
    using ok loffli.free_card [of l'] distinct_card [OF d] by (simp add: owned_ok_def)
qed

lemma loffli_exclusive_ownership_witness:
  "\<exists>l owned l'. LoFFLi_init True [0, 0, 0, 0] 3 LoFFLi_ctor = Inr l \<and>
     loffli_calls [Pop, Pop, Push 0, Push 0, Push 7, Pop] l = (owned, l') \<and> owned = [0, 1] \<and>
     distinct owned \<and> set owned = {i. i < 3 \<and> i \<notin> set (free_indices l')} \<and>
     length owned + length (free_indices l') = unat (3 :: u32)"
proof -
  let ?l = "projr (LoFFLi_init True [0, 0, 0, 0] 3 LoFFLi_ctor)"
  have i: "LoFFLi_init True [0, 0, 0, 0] 3 LoFFLi_ctor = Inr ?l" by code_simp
  have c: "loffli_calls [Pop, Pop, Push 0, Push 0, Push 7, Pop] ?l =
      ([0, 1], snd (loffli_calls [Pop, Pop, Push 0, Push 0, Push 7, Pop] ?l))" by code_simp
  show ?thesis
    using i c loffli_exclusive_ownership [OF _ _ _ i c] by fastforce
qed

end
