(* ===== verification/Allocator.thy ===== *)
theory Allocator
  imports Helplets
begin

section \<open>The bump allocator of a shared memory segment\<close>

text \<open>
  \<open>posix::Allocator\<close> (\<open>allocator.hpp\<close>, \<open>allocator.cpp\<close>). The sum \<open>alignedPosition + size\<close> is
  computed with 64 bits, as in the code; the lemmas say for which requests it does not wrap.
\<close>

record allocator =
  al_startAddress :: address
  al_length :: u64
  al_currentPosition :: u64
  al_allocationFinalized :: bool

definition Allocator_ctor :: "address \<Rightarrow> u64 \<Rightarrow> allocator" where
  "Allocator_ctor startAddress len =
     \<lparr> al_startAddress = startAddress, al_length = len, al_currentPosition = 0,
       al_allocationFinalized = False \<rparr>"

definition allocate :: "u64 \<Rightarrow> u64 \<Rightarrow> allocator \<Rightarrow> (address \<times> allocator) outcome" where
  "allocate sz alignment this =
     Expects (sz > 0)
       (Expects (\<not> al_allocationFinalized this)
         (let currentAddress = al_startAddress this + al_currentPosition this;
              alignedPosition = align currentAddress alignment - al_startAddress this
          in if al_length this \<ge> alignedPosition + sz
             then Inr (al_startAddress this + alignedPosition,
                       this\<lparr> al_currentPosition := alignedPosition + sz \<rparr>)
             else Expects False (Inr (0, this))))"

definition finalizeAllocation :: "allocator \<Rightarrow> allocator" where
  "finalizeAllocation this = this\<lparr> al_allocationFinalized := True \<rparr>"

subsection \<open>Requests that fit\<close>

text \<open>The managed memory lies inside the address space, and the cursor inside the memory.\<close>

definition allocator_inv :: "allocator \<Rightarrow> bool" where
  "allocator_inv A \<longleftrightarrow>
     unat (al_startAddress A) + unat (al_length A) < 2 ^ 64 \<and>
     unat (al_currentPosition A) \<le> unat (al_length A)"

text \<open>The first byte behind the memory handed out so far, and behind the managed memory.\<close>

definition allocator_top :: "allocator \<Rightarrow> nat" where
  "allocator_top A = unat (al_startAddress A) + unat (al_currentPosition A)"

definition allocator_end :: "allocator \<Rightarrow> nat" where
  "allocator_end A = unat (al_startAddress A) + unat (al_length A)"

text \<open>The position behind the request, as a natural number.\<close>

definition next_top :: "u64 \<Rightarrow> u64 \<Rightarrow> allocator \<Rightarrow> nat" where
  "next_top sz alignment A = round_up (allocator_top A) (unat alignment) + unat sz"

lemma allocator_top_bound: "allocator_inv A \<Longrightarrow> allocator_top A \<le> allocator_end A"
  by (simp add: allocator_inv_def allocator_top_def allocator_end_def)

lemma unat_current_address:
  "allocator_inv A \<Longrightarrow> unat (al_startAddress A + al_currentPosition A) = allocator_top A"
  unfolding allocator_inv_def allocator_top_def by (subst unat_add_no_wrap) auto

lemma unat_aligned_position:
  assumes "allocator_inv A" "alignment \<noteq> 0" "allocator_top A + unat alignment \<le> 2 ^ 64"
  shows "unat (align (al_startAddress A + al_currentPosition A) alignment - al_startAddress A) =
    round_up (allocator_top A) (unat alignment) - unat (al_startAddress A)"
proof -
  have e: "unat (align (al_startAddress A + al_currentPosition A) alignment) =
      round_up (allocator_top A) (unat alignment)"
    using assms by (subst unat_align) (auto simp: unat_current_address)
  have "unat (al_startAddress A) \<le> round_up (allocator_top A) (unat alignment)"
    using round_up_ge [of "allocator_top A" "unat alignment"] by (simp add: allocator_top_def)
  then show ?thesis by (subst unat_sub_no_wrap) (auto simp: e)
qed

text \<open>
  A request whose end does not wrap around the address space is granted exactly when it fits,
  and it is granted at the first aligned address behind the memory in use.
\<close>

lemma allocate_fits:
  assumes "allocator_inv A" "\<not> al_allocationFinalized A" "alignment \<noteq> 0" "sz > 0"
    and "next_top sz alignment A + unat alignment \<le> 2 ^ 64"
  shows "next_top sz alignment A \<le> allocator_end A \<Longrightarrow>
      \<exists>a A'. allocate sz alignment A = Inr (a, A') \<and>
        unat a = round_up (allocator_top A) (unat alignment) \<and>
        A' = A\<lparr> al_currentPosition := al_currentPosition A' \<rparr> \<and>
        allocator_top A' = next_top sz alignment A \<and> allocator_inv A'"
    and "\<not> next_top sz alignment A \<le> allocator_end A \<Longrightarrow>
      allocate sz alignment A = Inl EXPECTS_ENSURES_FAILED"
proof -
  let ?s = "al_startAddress A" and ?r = "round_up (allocator_top A) (unat alignment)"
  define ap where "ap = align (?s + al_currentPosition A) alignment - ?s"
  have ge: "unat ?s \<le> ?r" "allocator_top A \<le> ?r"
    using round_up_ge [of "allocator_top A" "unat alignment"] by (simp_all add: allocator_top_def)
  have pos: "0 < unat alignment" using assms(3) by (simp add: unat_gt_0)
  have ap: "unat ap = ?r - unat ?s"
    unfolding ap_def using assms ge by (intro unat_aligned_position) (auto simp: next_top_def)
  have aps: "unat (ap + sz) = ?r - unat ?s + unat sz"
    using assms(5) ge pos by (subst unat_add_no_wrap) (auto simp: ap next_top_def)
  have a: "unat (?s + ap) = ?r"
    using assms(5) ge pos
    by (subst unat_add_no_wrap) (auto simp: ap next_top_def word_less_nat_alt)
  have fit: "al_length A \<ge> ap + sz \<longleftrightarrow> next_top sz alignment A \<le> allocator_end A"
    using ge by (auto simp: word_le_nat_alt aps next_top_def allocator_end_def)
  note al = allocate_def [of sz alignment A, folded ap_def, unfolded Let_def, folded ap_def]
  show "\<not> next_top sz alignment A \<le> allocator_end A \<Longrightarrow>
      allocate sz alignment A = Inl EXPECTS_ENSURES_FAILED"
    using assms(2,4) by (simp add: al fit)
  assume f: "next_top sz alignment A \<le> allocator_end A"
  let ?A' = "A\<lparr> al_currentPosition := ap + sz \<rparr>"
  have "allocate sz alignment A = Inr (?s + ap, ?A')" using assms(2,4) f by (simp add: al fit)
  moreover have "allocator_top ?A' = next_top sz alignment A"
    using ge by (simp add: allocator_top_def aps next_top_def)
  moreover from this f have "allocator_inv ?A'"
    using assms(1) by (simp add: allocator_inv_def allocator_top_def allocator_end_def)
  ultimately show "\<exists>a A'. allocate sz alignment A = Inr (a, A') \<and> unat a = ?r \<and>
        A' = A\<lparr> al_currentPosition := al_currentPosition A' \<rparr> \<and>
        allocator_top A' = next_top sz alignment A \<and> allocator_inv A'"
    using a by (intro exI [of _ "?s + ap"] exI [of _ ?A']) simp
qed

end
