(* ===== verification/Mem_Pool.thy ===== *)
theory Mem_Pool
  imports LoFFLi Allocator
begin

section \<open>Memory pools\<close>

text \<open>
  \<open>mepoo::MemPool\<close> (\<open>mem_pool.hpp\<close>, \<open>mem_pool.cpp\<close>): chunks of one size in a contiguous block of
  memory, whose free indices are kept in a \<open>LoFFLi\<close>. The locale \<open>chunk_pool\<close> is the contract
  the memory manager and the shared chunks rely on; it is interpreted on the pools whose last
  chunk starts below 4 GiB, which is the range in which the 32-bit product in \<open>getChunk\<close> is
  exact.

  The constructor is called with two references to allocators, which are the same object for
  the chunk management pool; the allocators therefore live in a store, and the constructor is
  given their names. The index array of the free list is fresh memory; its content is
  irrelevant because \<open>LoFFLi::init\<close> overwrites it. The platform has lock-free 64-bit atomics.
\<close>

definition CHUNK_MEMORY_ALIGNMENT :: u64 where "CHUNK_MEMORY_ALIGNMENT = 8"

datatype allocator_name = ManagementAllocator | ChunkMemoryAllocator

type_synonym allocators = "allocator_name \<Rightarrow> allocator"

record mem_pool_info =
  mpi_usedChunks :: u32
  mpi_minFreeChunks :: u32
  mpi_numChunks :: u32
  mpi_chunkSize :: u32

record mem_pool =
  mp_rawMemory :: address
  mp_chunkSize :: u32
  mp_numberOfChunks :: u32
  mp_usedChunks :: u32
  mp_minFree :: u32
  mp_freeIndices :: loffli

definition isMultipleOfAlignment :: "u32 \<Rightarrow> bool" where
  "isMultipleOfAlignment v \<longleftrightarrow> ucast v mod CHUNK_MEMORY_ALIGNMENT = 0"

definition allocate_in :: "allocator_name \<Rightarrow> u64 \<Rightarrow> u64 \<Rightarrow> allocators \<Rightarrow> (address \<times> allocators) outcome" where
  "allocate_in name sz alignment als =
     obind (allocate sz alignment (als name)) (\<lambda>(a, A). Inr (a, als(name := A)))"

definition MemPool_ctor ::
  "u32 \<Rightarrow> u32 \<Rightarrow> allocator_name \<Rightarrow> allocator_name \<Rightarrow> allocators \<Rightarrow> (mem_pool \<times> allocators) outcome" where
  "MemPool_ctor chunkSize numberOfChunks managementAllocator chunkMemoryAllocator als =
     Expects (ucast chunkSize \<ge> CHUNK_MEMORY_ALIGNMENT) (Expects (numberOfChunks \<ge> 1)
      (if isMultipleOfAlignment chunkSize then
         obind (allocate_in chunkMemoryAllocator (ucast numberOfChunks * ucast chunkSize)
                  CHUNK_MEMORY_ALIGNMENT als) (\<lambda>(rawMemory, als1).
         obind (allocate_in managementAllocator (requiredIndexMemorySize numberOfChunks)
                  CHUNK_MEMORY_ALIGNMENT als1) (\<lambda>(memoryLoFFLi, als2).
         obind (LoFFLi_init True (replicate (unat numberOfChunks + 1) 0) numberOfChunks LoFFLi_ctor)
           (\<lambda>freeIndices.
         Inr (\<lparr> mp_rawMemory = rawMemory, mp_chunkSize = chunkSize,
                mp_numberOfChunks = numberOfChunks, mp_usedChunks = 0, mp_minFree = numberOfChunks,
                mp_freeIndices = freeIndices \<rparr>, als2))))
       else errorHandler (MEPOO MEPOO__MEMPOOL_CHUNKSIZE_MUST_BE_MULTIPLE_OF_CHUNK_MEMORY_ALIGNMENT) FATAL
         (Inr (\<lparr> mp_rawMemory = 0, mp_chunkSize = chunkSize,
                mp_numberOfChunks = numberOfChunks, mp_usedChunks = 0, mp_minFree = numberOfChunks,
                mp_freeIndices = LoFFLi_ctor \<rparr>, als))))"

definition adjustMinFree :: "mem_pool \<Rightarrow> mem_pool" where
  "adjustMinFree this =
     this\<lparr> mp_minFree := min (mp_numberOfChunks this - mp_usedChunks this) (mp_minFree this) \<rparr>"

definition MemPool_getChunk :: "mem_pool \<Rightarrow> address pointer \<times> mem_pool" where
  "MemPool_getChunk this =
     (case LoFFLi_pop (mp_freeIndices this) of
        (None, fi) \<Rightarrow> (None, this\<lparr> mp_freeIndices := fi \<rparr>)
      | (Some l_index, fi) \<Rightarrow>
          (let this1 = this\<lparr> mp_freeIndices := fi, mp_usedChunks := mp_usedChunks this + 1 \<rparr>;
               this2 = adjustMinFree this1
           in (Some (mp_rawMemory this2 + ucast (l_index * mp_chunkSize this2)), this2)))"

definition MemPool_freeChunk :: "address \<Rightarrow> mem_pool \<Rightarrow> mem_pool outcome" where
  "MemPool_freeChunk chunk this =
     Expects (mp_rawMemory this \<le> chunk \<and>
              chunk \<le> mp_rawMemory this + ucast (mp_chunkSize this) * ucast (mp_numberOfChunks this - 1))
      (let offset = chunk - mp_rawMemory this
       in Expects (offset mod ucast (mp_chunkSize this) = 0)
           (let index = ucast (offset div ucast (mp_chunkSize this));
                (pushed, fi) = LoFFLi_push index (mp_freeIndices this);
                this1 = this\<lparr> mp_freeIndices := fi \<rparr>;
                this2 = Inr (this1\<lparr> mp_usedChunks := mp_usedChunks this1 - 1 \<rparr>)
            in if \<not> pushed then errorHandler (MEPOO POSH__MEMPOOL_POSSIBLE_DOUBLE_FREE) FATAL this2
               else this2))"

definition getInfo :: "mem_pool \<Rightarrow> mem_pool_info" where
  "getInfo this =
     \<lparr> mpi_usedChunks = mp_usedChunks this, mpi_minFreeChunks = mp_minFree this,
       mpi_numChunks = mp_numberOfChunks this, mpi_chunkSize = mp_chunkSize this \<rparr>"

subsection \<open>Invariant\<close>

definition mem_pool_inv :: "mem_pool \<Rightarrow> bool" where
  "mem_pool_inv P \<longleftrightarrow>
     loffli_inv (mp_freeIndices P) \<and> m_size (mp_freeIndices P) = mp_numberOfChunks P \<and>
     8 \<le> unat (mp_chunkSize P) \<and> 8 dvd unat (mp_chunkSize P) \<and> 1 \<le> unat (mp_numberOfChunks P) \<and>
     8 dvd unat (mp_rawMemory P) \<and>
     unat (mp_rawMemory P) + unat (mp_numberOfChunks P) * unat (mp_chunkSize P) < 2 ^ 64 \<and>
     unat (mp_usedChunks P) + length (free_indices (mp_freeIndices P)) = unat (mp_numberOfChunks P) \<and>
     unat (mp_minFree P) \<le> length (free_indices (mp_freeIndices P))"

text \<open>The last chunk starts less than 4 GiB behind the first.\<close>

definition offsets_fit_u32 :: "mem_pool \<Rightarrow> bool" where
  "offsets_fit_u32 P \<longleftrightarrow> (unat (mp_numberOfChunks P) - 1) * unat (mp_chunkSize P) < 2 ^ 32"

definition chunk_at :: "mem_pool \<Rightarrow> u32 \<Rightarrow> address" where
  "chunk_at P i = mp_rawMemory P + ucast i * ucast (mp_chunkSize P)"

text \<open>The indices and the addresses of the chunks that are handed out.\<close>

definition used_indices :: "mem_pool \<Rightarrow> u32 set" where
  "used_indices P = {i. i < mp_numberOfChunks P \<and> i \<notin> set (free_indices (mp_freeIndices P))}"

definition used_chunks :: "mem_pool \<Rightarrow> address set" where
  "used_chunks P = chunk_at P ` used_indices P"

text \<open>What no operation changes.\<close>

definition pool_layout :: "mem_pool \<Rightarrow> address \<times> u32 \<times> u32" where
  "pool_layout P = (mp_rawMemory P, mp_chunkSize P, mp_numberOfChunks P)"

lemma chunk_index_bound:
  assumes "i < mp_numberOfChunks P"
  shows "unat i * unat (mp_chunkSize P) \<le> (unat (mp_numberOfChunks P) - 1) * unat (mp_chunkSize P)"
  using assms by (intro mult_right_mono) (auto simp: word_less_nat_alt)

lemma chunk_index_bound2:
  assumes "i < mp_numberOfChunks P"
  shows "unat i * unat (mp_chunkSize P) + unat (mp_chunkSize P)
      \<le> unat (mp_numberOfChunks P) * unat (mp_chunkSize P)"
proof -
  have "(unat i + 1) * unat (mp_chunkSize P) \<le> unat (mp_numberOfChunks P) * unat (mp_chunkSize P)"
    using assms by (intro mult_right_mono) (auto simp: word_less_nat_alt)
  then show ?thesis by simp
qed

lemma unat_u32_product_u64: "unat (ucast (i :: u32) * ucast (s :: u32) :: u64) = unat i * unat s"
proof -
  have "unat i * unat s \<le> 4294967295 * 4294967295"
    using u32_unat_less [of i] u32_unat_less [of s] by (intro mult_mono) auto
  then show ?thesis by (subst unat_mult_no_wrap) auto
qed

lemma unat_chunk_at:
  assumes "mem_pool_inv P" "i < mp_numberOfChunks P"
  shows "unat (chunk_at P i) = unat (mp_rawMemory P) + unat i * unat (mp_chunkSize P)"
  unfolding chunk_at_def using assms chunk_index_bound2 [OF assms(2)]
  by (subst unat_add_no_wrap) (auto simp: unat_u32_product_u64 mem_pool_inv_def)

lemma chunk_at_inj:
  assumes "mem_pool_inv P" "i < mp_numberOfChunks P" "j < mp_numberOfChunks P"
    and "chunk_at P i = chunk_at P j"
  shows "i = j"
proof -
  have "unat i * unat (mp_chunkSize P) = unat j * unat (mp_chunkSize P)"
    using unat_chunk_at [OF assms(1,2)] unat_chunk_at [OF assms(1,3)] arg_cong [OF assms(4), of unat]
    by linarith
  moreover have "unat (mp_chunkSize P) \<noteq> 0" using assms(1) by (auto simp: mem_pool_inv_def)
  ultimately show ?thesis by (simp add: word_unat_eq_iff)
qed

text \<open>The address \<open>getChunk\<close> computes is the address of the chunk exactly when the 32-bit product fits.\<close>

lemma getChunk_address:
  assumes "mem_pool_inv P" "i < mp_numberOfChunks P"
  shows "mp_rawMemory P + ucast (i * mp_chunkSize P) = chunk_at P i \<longleftrightarrow>
    unat i * unat (mp_chunkSize P) < 2 ^ 32"
proof -
  have "unat (ucast (i * mp_chunkSize P) :: u64) = unat i * unat (mp_chunkSize P) mod 2 ^ 32"
    by (simp add: unat_word_ariths)
  moreover have "mp_rawMemory P + ucast (i * mp_chunkSize P) = chunk_at P i \<longleftrightarrow>
      (ucast (i * mp_chunkSize P) :: u64) = ucast i * ucast (mp_chunkSize P)"
    by (simp add: chunk_at_def)
  ultimately show ?thesis
    by (simp add: word_unat_eq_iff unat_u32_product_u64) (simp add: mod_eq_self_iff_div_eq_0 div_eq_0_iff)
qed

subsection \<open>The operations\<close>

lemma getChunk_none:
  assumes "mem_pool_inv P" "used_indices P = {i. i < mp_numberOfChunks P}"
  shows "MemPool_getChunk P = (None, P)"
proof -
  have "free_indices (mp_freeIndices P) = []"
    using assms loffli.free_bound [of "mp_freeIndices P"]
    by (cases "free_indices (mp_freeIndices P)") (auto simp: used_indices_def mem_pool_inv_def)
  then have "LoFFLi_pop (mp_freeIndices P) = (None, mp_freeIndices P)"
    using assms(1) by (intro loffli.pop_none) (auto simp: mem_pool_inv_def)
  then show ?thesis by (simp add: MemPool_getChunk_def)
qed

lemma getChunk_some:
  assumes inv: "mem_pool_inv P" and "used_indices P \<noteq> {i. i < mp_numberOfChunks P}"
  obtains i P' where "MemPool_getChunk P = (Some (mp_rawMemory P + ucast (i * mp_chunkSize P)), P')"
    and "i < mp_numberOfChunks P" "i \<notin> used_indices P"
    and "used_indices P' = insert i (used_indices P)"
    and "mem_pool_inv P'" "pool_layout P' = pool_layout P"
    and "mp_usedChunks P' = mp_usedChunks P + 1" "mp_minFree P' \<le> mp_minFree P"
proof -
  let ?F = "mp_freeIndices P"
  from inv have I: "loffli_inv ?F" "m_size ?F = mp_numberOfChunks P"
    and cnt: "unat (mp_usedChunks P) + length (free_indices ?F) = unat (mp_numberOfChunks P)"
    and mf: "unat (mp_minFree P) \<le> length (free_indices ?F)"
    by (simp_all add: mem_pool_inv_def)
  obtain i F' where p: "LoFFLi_pop ?F = (Some i, F')" "free_indices ?F = i # free_indices F'"
    "loffli_inv F'" "m_size F' = m_size ?F" "i < m_size ?F" "i \<notin> set (free_indices F')"
    using I(1) assms(2) I(2) unfolding used_indices_def
    by (cases "LoFFLi_pop ?F") (erule loffli.pop_cases, auto)
  define P' where "P' = adjustMinFree (P\<lparr> mp_freeIndices := F', mp_usedChunks := mp_usedChunks P + 1 \<rparr>)"
  have g: "MemPool_getChunk P = (Some (mp_rawMemory P + ucast (i * mp_chunkSize P)), P')"
    using p(1) by (simp add: MemPool_getChunk_def P'_def Let_def adjustMinFree_def)
  have u: "unat (mp_usedChunks P + 1) = unat (mp_usedChunks P) + 1"
    using cnt p(2) u32_unat_less [of "mp_numberOfChunks P"] by (subst unat_add_no_wrap) auto
  then have m: "unat (mp_numberOfChunks P - (mp_usedChunks P + 1)) = length (free_indices F')"
    using cnt p(2) by (subst unat_sub_no_wrap) auto
  have "mp_freeIndices P' = F'" "pool_layout P' = pool_layout P" "mp_usedChunks P' = mp_usedChunks P + 1"
    "mp_minFree P' = min (mp_numberOfChunks P - (mp_usedChunks P + 1)) (mp_minFree P)"
    by (simp_all add: P'_def adjustMinFree_def pool_layout_def)
  note P' = this
  then have lay: "mp_rawMemory P' = mp_rawMemory P" "mp_chunkSize P' = mp_chunkSize P"
    "mp_numberOfChunks P' = mp_numberOfChunks P" by (simp_all add: pool_layout_def)
  have "mp_minFree P' \<le> mp_numberOfChunks P - (mp_usedChunks P + 1)" by (simp add: P')
  then have "unat (mp_minFree P') \<le> length (free_indices F')" by (simp add: word_le_nat_alt m)
  then have "mem_pool_inv P'"
    using inv p cnt u by (simp add: mem_pool_inv_def P'(1,3) lay)
  moreover have "used_indices P' = insert i (used_indices P)"
    using p I by (auto simp: used_indices_def P' lay)
  moreover have "i \<notin> used_indices P" using p(2) by (simp add: used_indices_def)
  moreover have "mp_minFree P' \<le> mp_minFree P" by (simp add: P')
  ultimately show thesis using p(5) I(2) by (intro that [OF g] P') auto
qed

text \<open>The address of a chunk leads \<open>freeChunk\<close> back to its index.\<close>

lemma freeChunk_index:
  assumes "mem_pool_inv P" "i < mp_numberOfChunks P"
  shows "mp_rawMemory P \<le> chunk_at P i"
    and "chunk_at P i \<le> mp_rawMemory P + ucast (mp_chunkSize P) * ucast (mp_numberOfChunks P - 1)"
    and "(chunk_at P i - mp_rawMemory P) mod ucast (mp_chunkSize P) = 0"
    and "ucast ((chunk_at P i - mp_rawMemory P) div ucast (mp_chunkSize P)) = i"
proof -
  let ?s = "mp_chunkSize P" and ?n = "mp_numberOfChunks P"
  have n1: "unat (?n - 1) = unat ?n - 1"
    using assms(1) by (subst unat_sub_no_wrap) (auto simp: mem_pool_inv_def)
  have s: "unat ?s \<noteq> 0" using assms(1) by (auto simp: mem_pool_inv_def)
  have last: "mp_rawMemory P + ucast ?s * ucast (?n - 1) = chunk_at P (?n - 1)"
    by (simp add: chunk_at_def mult.commute)
  have "?n - 1 < ?n" using assms n1 by (auto simp: word_less_nat_alt mem_pool_inv_def)
  then have ul: "unat (chunk_at P (?n - 1)) = unat (mp_rawMemory P) + (unat ?n - 1) * unat ?s"
    using unat_chunk_at [OF assms(1)] n1 by simp
  show "mp_rawMemory P \<le> chunk_at P i"
    using unat_chunk_at [OF assms] by (simp add: word_le_nat_alt)
  show "chunk_at P i \<le> mp_rawMemory P + ucast ?s * ucast (?n - 1)"
    unfolding last using unat_chunk_at [OF assms] ul chunk_index_bound [OF assms(2)]
    by (simp add: word_le_nat_alt)
  have d: "chunk_at P i - mp_rawMemory P = ucast i * ucast ?s" by (simp add: chunk_at_def)
  have "unat ((ucast i * ucast ?s :: u64) mod ucast ?s) = 0"
    by (simp add: unat_mod_distrib unat_u32_product_u64)
  then show "(chunk_at P i - mp_rawMemory P) mod ucast ?s = 0"
    by (simp add: d unat_eq_0)
  have "unat ((ucast i * ucast ?s :: u64) div ucast ?s) = unat i"
    using s by (simp add: unat_div_distrib unat_u32_product_u64)
  then show "ucast ((chunk_at P i - mp_rawMemory P) div ucast ?s) = i"
    unfolding d using u32_unat_less [of i] by (simp add: word_unat_eq_iff unat_ucast_u64_u32)
qed

lemma freeChunk_used:
  assumes inv: "mem_pool_inv P" and "i \<in> used_indices P"
  obtains P' where "MemPool_freeChunk (chunk_at P i) P = Inr P'"
    and "used_indices P' = used_indices P - {i}" "mem_pool_inv P'" "pool_layout P' = pool_layout P"
    and "mp_usedChunks P' = mp_usedChunks P - 1" "mp_minFree P' = mp_minFree P"
proof -
  let ?F = "mp_freeIndices P"
  from inv have I: "loffli_inv ?F" "m_size ?F = mp_numberOfChunks P"
    and cnt: "unat (mp_usedChunks P) + length (free_indices ?F) = unat (mp_numberOfChunks P)"
    by (simp_all add: mem_pool_inv_def)
  from assms(2) I have i: "i < mp_numberOfChunks P" "i < m_size ?F" "i \<notin> set (free_indices ?F)"
    by (simp_all add: used_indices_def)
  obtain F' where p: "LoFFLi_push i ?F = (True, F')" "loffli_inv F'"
    "free_indices F' = i # free_indices ?F" "m_size F' = m_size ?F"
    using loffli.push_used [OF I(1) i(2,3)] by blast
  define P' where "P' = P\<lparr> mp_freeIndices := F', mp_usedChunks := mp_usedChunks P - 1 \<rparr>"
  have f: "MemPool_freeChunk (chunk_at P i) P = Inr P'"
    using p(1) by (simp add: MemPool_freeChunk_def P'_def Let_def freeChunk_index [OF inv i(1)])
  have "length (i # free_indices ?F) \<le> unat (m_size F')"
    using loffli.free_length [OF p(2)] p(3) by simp
  then have "unat (mp_usedChunks P - 1) = unat (mp_usedChunks P) - 1" "unat (mp_usedChunks P) \<noteq> 0"
    using cnt I(2) p(4) by (subst unat_sub_no_wrap, auto)
  then have "mem_pool_inv P'"
    using inv p cnt by (auto simp: mem_pool_inv_def P'_def)
  moreover have "used_indices P' = used_indices P - {i}" "pool_layout P' = pool_layout P"
    "mp_usedChunks P' = mp_usedChunks P - 1" "mp_minFree P' = mp_minFree P"
    using p(3) by (auto simp: used_indices_def P'_def pool_layout_def)
  ultimately show thesis by (intro that [OF f]) auto
qed

lemma freeChunk_refused:
  assumes "mem_pool_inv P" "i < mp_numberOfChunks P" "i \<notin> used_indices P"
  shows "MemPool_freeChunk (chunk_at P i) P = Inl (MEPOO POSH__MEMPOOL_POSSIBLE_DOUBLE_FREE)"
proof -
  have "LoFFLi_push i (mp_freeIndices P) = (False, mp_freeIndices P)"
    using assms by (intro loffli.push_free) (auto simp: mem_pool_inv_def used_indices_def)
  then show ?thesis by (simp add: MemPool_freeChunk_def Let_def freeChunk_index [OF assms(1,2)])
qed

subsection \<open>The contract of a pool of chunks\<close>

text \<open>
  \<open>slots\<close> are the addresses of all chunks of a pool and \<open>used\<close> those that are handed out;
  \<open>get\<close> hands out an unused one and fails only if there is none, and \<open>free\<close> takes back exactly
  the used ones.
\<close>

locale chunk_pool =
  fixes inv :: "'p \<Rightarrow> bool" and used :: "'p \<Rightarrow> address set" and layout :: "'p \<Rightarrow> 'l"
    and slots :: "'l \<Rightarrow> address set" and stride :: "'l \<Rightarrow> nat"
    and get :: "'p \<Rightarrow> address pointer \<times> 'p" and free :: "address \<Rightarrow> 'p \<Rightarrow> 'p outcome"
  assumes used_slots: "inv p \<Longrightarrow> used p \<subseteq> slots (layout p)"
    and slots_finite: "inv p \<Longrightarrow> finite (slots (layout p))"
    and slots_apart: "inv p \<Longrightarrow> a \<in> slots (layout p) \<Longrightarrow> b \<in> slots (layout p) \<Longrightarrow> a < b \<Longrightarrow>
      unat a + stride (layout p) \<le> unat b"
    and get_full: "inv p \<Longrightarrow> used p = slots (layout p) \<Longrightarrow> get p = (None, p)"
    and get_free_slot: "inv p \<Longrightarrow> used p \<noteq> slots (layout p) \<Longrightarrow>
      \<exists>a p'. get p = (Some a, p') \<and> inv p' \<and> a \<in> slots (layout p) - used p \<and>
        used p' = insert a (used p) \<and> layout p' = layout p"
    and free_used: "inv p \<Longrightarrow> a \<in> used p \<Longrightarrow>
      \<exists>p'. free a p = Inr p' \<and> inv p' \<and> used p' = used p - {a} \<and> layout p' = layout p"
    and free_unused: "inv p \<Longrightarrow> a \<in> slots (layout p) - used p \<Longrightarrow> \<exists>e. free a p = Inl e"
begin

lemma get_cases:
  assumes "inv p" "get p = (r, p')"
  obtains (full) "r = None" "p' = p" "used p = slots (layout p)"
  | (chunk) a where "r = Some a" "inv p'" "a \<in> slots (layout p)" "a \<notin> used p"
      "used p' = insert a (used p)" "layout p' = layout p"
proof (cases "used p = slots (layout p)")
  case True
  with assms get_full show thesis by (intro full) auto
next
  case False
  with assms(2) get_free_slot [OF assms(1)] obtain a where "r = Some a" "inv p'" "a \<in> slots (layout p)"
    "a \<notin> used p" "used p' = insert a (used p)" "layout p' = layout p" by auto
  then show thesis by (rule chunk)
qed

text \<open>A chunk handed out shares no byte with the chunks in use.\<close>

lemma get_fresh:
  assumes "inv p" "get p = (Some a, p')" "b \<in> used p"
  shows "unat a + stride (layout p) \<le> unat b \<or> unat b + stride (layout p) \<le> unat a"
proof -
  from assms(1,2) have "a \<in> slots (layout p)" "a \<notin> used p" by (auto elim: get_cases)
  moreover have "b \<in> slots (layout p)" using assms used_slots by auto
  moreover have "a < b \<or> b < a" using assms(3) calculation(2) by (metis linorder_neqE)
  ultimately show ?thesis using slots_apart [OF assms(1)] by blast
qed

lemma get_then_free:
  assumes "inv p" "get p = (Some a, p')"
  shows "\<exists>p''. free a p' = Inr p'' \<and> inv p'' \<and> used p'' = used p \<and> layout p'' = layout p"
proof -
  from assms have *: "inv p'" "a \<notin> used p" "used p' = insert a (used p)" "layout p' = layout p"
    by (auto elim: get_cases)
  then obtain p'' where "free a p' = Inr p''" "inv p''" "used p'' = used p' - {a}" "layout p'' = layout p'"
    using free_used [of p' a] by auto
  with * show ?thesis by auto
qed

lemma double_free:
  assumes "inv p" "a \<in> used p" "free a p = Inr p'"
  shows "\<exists>e. free a p' = Inl e"
proof -
  from free_used [OF assms(1,2)] assms(3)
  have "inv p'" "used p' = used p - {a}" "layout p' = layout p" by auto
  then show ?thesis using free_unused [of p' a] used_slots [OF assms(1)] assms(2) by auto
qed

lemma used_card: "inv p \<Longrightarrow> card (used p) \<le> card (slots (layout p))"
  by (intro card_mono slots_finite used_slots)

end

definition layout_slots :: "address \<times> u32 \<times> u32 \<Rightarrow> address set" where
  "layout_slots = (\<lambda>(raw, sz, n). (\<lambda>i. raw + ucast i * ucast sz) ` {i. i < n})"

definition layout_stride :: "address \<times> u32 \<times> u32 \<Rightarrow> nat" where
  "layout_stride = (\<lambda>(raw, sz, n). unat sz)"

definition pool_ok :: "mem_pool \<Rightarrow> bool" where
  "pool_ok P \<longleftrightarrow> mem_pool_inv P \<and> offsets_fit_u32 P"

lemma layout_slots_pool: "layout_slots (pool_layout P) = chunk_at P ` {i. i < mp_numberOfChunks P}"
  by (simp add: layout_slots_def pool_layout_def chunk_at_def [abs_def])

lemma layout_stride_pool [simp]: "layout_stride (pool_layout P) = unat (mp_chunkSize P)"
  by (simp add: layout_stride_def pool_layout_def)

lemma offsets_fit_layout: "pool_layout P' = pool_layout P \<Longrightarrow> offsets_fit_u32 P' = offsets_fit_u32 P"
  by (simp add: pool_layout_def offsets_fit_u32_def)

lemma chunk_at_layout: "pool_layout P' = pool_layout P \<Longrightarrow> chunk_at P' = chunk_at P"
  by (simp add: pool_layout_def chunk_at_def [abs_def])

lemma chunk_at_inj_on: "mem_pool_inv P \<Longrightarrow> inj_on (chunk_at P) {i. i < mp_numberOfChunks P}"
  by (intro inj_onI) (auto dest: chunk_at_inj)

lemma used_indices_bound: "used_indices P \<subseteq> {i. i < mp_numberOfChunks P}"
  by (auto simp: used_indices_def)

lemma used_all_iff:
  "mem_pool_inv P \<Longrightarrow> used_chunks P = layout_slots (pool_layout P) \<longleftrightarrow>
     used_indices P = {i. i < mp_numberOfChunks P}"
  unfolding used_chunks_def layout_slots_pool
  using chunk_at_inj_on used_indices_bound by (metis inj_on_image_eq_iff order_refl)

lemma chunk_at_used_iff:
  "mem_pool_inv P \<Longrightarrow> i < mp_numberOfChunks P \<Longrightarrow> chunk_at P i \<in> used_chunks P \<longleftrightarrow> i \<in> used_indices P"
  unfolding used_chunks_def
  using chunk_at_inj_on [of P] used_indices_bound [of P] by (simp add: inj_on_image_mem_iff)

lemma used_chunks_remove:
  assumes "mem_pool_inv P" "i < mp_numberOfChunks P"
  shows "chunk_at P ` (used_indices P - {i}) = used_chunks P - {chunk_at P i}"
  unfolding used_chunks_def using assms used_indices_bound [of P] by (auto dest: chunk_at_inj)

interpretation mem_pool: chunk_pool pool_ok used_chunks pool_layout layout_slots layout_stride
  MemPool_getChunk MemPool_freeChunk
proof (unfold_locales, goal_cases)
  case (1 P)
  then show ?case using used_indices_bound by (auto simp: used_chunks_def layout_slots_pool)
next
  case (2 P)
  then show ?case by (simp add: layout_slots_pool)
next
  case (3 P a b)
  then obtain i j where ij: "a = chunk_at P i" "b = chunk_at P j" "i < mp_numberOfChunks P"
    "j < mp_numberOfChunks P" and inv: "mem_pool_inv P" by (auto simp: layout_slots_pool pool_ok_def)
  with 3 have "unat i * unat (mp_chunkSize P) < unat j * unat (mp_chunkSize P)"
    by (simp add: word_less_nat_alt unat_chunk_at)
  then have "unat i + 1 \<le> unat j" by simp
  then have "(unat i + 1) * unat (mp_chunkSize P) \<le> unat j * unat (mp_chunkSize P)"
    by (intro mult_right_mono) auto
  with ij inv show ?case by (simp add: unat_chunk_at)
next
  case (4 P)
  then show ?case by (simp add: pool_ok_def used_all_iff getChunk_none)
next
  case (5 P)
  then have inv: "mem_pool_inv P" and fit: "offsets_fit_u32 P"
    and nf: "used_indices P \<noteq> {i. i < mp_numberOfChunks P}" by (auto simp: pool_ok_def used_all_iff)
  obtain i P' where
    g: "MemPool_getChunk P = (Some (mp_rawMemory P + ucast (i * mp_chunkSize P)), P')"
    and i: "i < mp_numberOfChunks P" "i \<notin> used_indices P"
    and P': "used_indices P' = insert i (used_indices P)" "mem_pool_inv P'" "pool_layout P' = pool_layout P"
    by (rule getChunk_some [OF inv nf])
  have "unat i * unat (mp_chunkSize P) < 2 ^ 32"
    using fit chunk_index_bound [OF i(1)] unfolding offsets_fit_u32_def by (rule order.strict_trans1 [rotated])
  then have "mp_rawMemory P + ucast (i * mp_chunkSize P) = chunk_at P i"
    using getChunk_address [OF inv i(1)] by blast
  with g have g': "MemPool_getChunk P = (Some (chunk_at P i), P')" by simp
  have "pool_ok P'" using P' fit offsets_fit_layout [OF P'(3)] by (simp add: pool_ok_def)
  moreover have "chunk_at P i \<in> layout_slots (pool_layout P) - used_chunks P"
    using i inv by (auto simp: layout_slots_pool chunk_at_used_iff)
  moreover have "used_chunks P' = insert (chunk_at P i) (used_chunks P)"
    by (simp add: used_chunks_def P'(1) chunk_at_layout [OF P'(3)])
  ultimately show ?case using g' P'(3) by blast
next
  case (6 P a)
  then obtain i where i: "i \<in> used_indices P" "a = chunk_at P i" and inv: "mem_pool_inv P"
    by (auto simp: used_chunks_def pool_ok_def)
  obtain P' where P': "MemPool_freeChunk (chunk_at P i) P = Inr P'"
    "used_indices P' = used_indices P - {i}" "mem_pool_inv P'" "pool_layout P' = pool_layout P"
    by (rule freeChunk_used [OF inv i(1)])
  have "used_chunks P' = used_chunks P - {a}"
    using used_chunks_remove [OF inv, of i] used_indices_bound [of P] i
    by (auto simp: used_chunks_def P'(2) chunk_at_layout [OF P'(4)])
  moreover have "pool_ok P'" using 6 P' offsets_fit_layout [OF P'(4)] by (simp add: pool_ok_def)
  ultimately show ?case using P' i by blast
next
  case (7 P a)
  then obtain i where i: "i < mp_numberOfChunks P" "a = chunk_at P i" and inv: "mem_pool_inv P"
    by (auto simp: layout_slots_pool pool_ok_def)
  with 7 show ?case using freeChunk_refused [OF inv i(1)] by (auto simp: chunk_at_used_iff)
qed

subsection \<open>Construction\<close>

text \<open>
  A sequence of requests at the chunk alignment, each naming its allocator, fits if every one
  of them ends inside the memory of its allocator.
\<close>

fun fits :: "(allocator_name \<Rightarrow> nat) \<Rightarrow> (allocator_name \<Rightarrow> nat) \<Rightarrow> (allocator_name \<times> nat) list \<Rightarrow> bool" where
  "fits ends tops [] \<longleftrightarrow> True"
| "fits ends tops ((a, k) # rs) \<longleftrightarrow>
     round_up (tops a) 8 + k \<le> ends a \<and> fits ends (tops(a := round_up (tops a) 8 + k)) rs"

fun tops_after :: "(allocator_name \<Rightarrow> nat) \<Rightarrow> (allocator_name \<times> nat) list \<Rightarrow> allocator_name \<Rightarrow> nat" where
  "tops_after tops [] = tops"
| "tops_after tops ((a, k) # rs) = tops_after (tops(a := round_up (tops a) 8 + k)) rs"

definition demand :: "allocator_name \<Rightarrow> (allocator_name \<times> nat) list \<Rightarrow> nat" where
  "demand a rs = (\<Sum>(b, k)\<leftarrow>rs. if b = a then round_up k 8 else 0)"

lemma fits_append: "fits ends tops (rs @ rs') \<longleftrightarrow> fits ends tops rs \<and> fits ends (tops_after tops rs) rs'"
  by (induction rs arbitrary: tops) (auto simp del: fun_upd_apply)

lemma tops_after_append: "tops_after tops (rs @ rs') = tops_after (tops_after tops rs) rs'"
  by (induction rs arbitrary: tops) (auto simp del: fun_upd_apply)

lemma fits_demand:
  "(\<And>a. round_up (tops a) 8 + demand a rs \<le> ends a) \<Longrightarrow> fits ends tops rs"
proof (induction rs arbitrary: tops)
  case (Cons r rs)
  obtain a k where r: "r = (a, k)" by (cases r)
  have "round_up (tops a) 8 + round_up k 8 + demand a rs \<le> ends a"
    using Cons.prems [of a] by (simp add: demand_def r)
  moreover have "round_up (round_up (tops a) 8 + k) 8 = round_up (tops a) 8 + round_up k 8"
    by (rule round_up_add_dvd) (simp add: round_up_dvd)
  moreover have "round_up (tops b) 8 + demand b rs \<le> ends b" for b
    using Cons.prems [of b] by (simp add: demand_def r split: if_split_asm)
  ultimately have "fits ends (tops(a := round_up (tops a) 8 + k)) rs"
    by (intro Cons.IH) simp
  then show ?case using Cons.prems [of a] round_up_ge [of k 8]
    by (simp add: r demand_def del: fun_upd_apply)
qed simp

definition allocators_ok :: "allocators \<Rightarrow> bool" where
  "allocators_ok als \<longleftrightarrow>
     (\<forall>a. allocator_inv (als a) \<and> \<not> al_allocationFinalized (als a) \<and> allocator_end (als a) + 8 \<le> 2 ^ 64)"

abbreviation tops_of :: "allocators \<Rightarrow> allocator_name \<Rightarrow> nat" where
  "tops_of als \<equiv> \<lambda>a. allocator_top (als a)"

abbreviation ends_of :: "allocators \<Rightarrow> allocator_name \<Rightarrow> nat" where
  "ends_of als \<equiv> \<lambda>a. allocator_end (als a)"

lemma allocate_in_ok:
  assumes "allocators_ok als" "sz > 0" "round_up (allocator_top (als a)) 8 + unat sz \<le> allocator_end (als a)"
  obtains p als' where "allocate_in a sz CHUNK_MEMORY_ALIGNMENT als = Inr (p, als')"
    "unat p = round_up (allocator_top (als a)) 8" "allocators_ok als'" "ends_of als' = ends_of als"
    "tops_of als' = (tops_of als)(a := round_up (allocator_top (als a)) 8 + unat sz)"
proof -
  from assms(1) have ok: "allocator_inv (als a)" "\<not> al_allocationFinalized (als a)"
    "allocator_end (als a) + 8 \<le> 2 ^ 64" by (simp_all add: allocators_ok_def)
  have nt: "next_top sz CHUNK_MEMORY_ALIGNMENT (als a) = round_up (allocator_top (als a)) 8 + unat sz"
    by (simp add: next_top_def CHUNK_MEMORY_ALIGNMENT_def)
  from allocate_fits(1) [OF ok(1,2), of CHUNK_MEMORY_ALIGNMENT sz] assms(2,3) ok(3)
  obtain p A where A: "allocate sz CHUNK_MEMORY_ALIGNMENT (als a) = Inr (p, A)"
    "unat p = round_up (allocator_top (als a)) 8" "A = (als a)\<lparr> al_currentPosition := al_currentPosition A \<rparr>"
    "allocator_top A = round_up (allocator_top (als a)) 8 + unat sz" "allocator_inv A"
    unfolding nt by (auto simp: CHUNK_MEMORY_ALIGNMENT_def)
  have e: "allocator_end A = allocator_end (als a)" "al_allocationFinalized A = al_allocationFinalized (als a)"
    by (subst A(3), simp add: allocator_end_def)+
  show thesis
  proof (rule that)
    show "allocate_in a sz CHUNK_MEMORY_ALIGNMENT als = Inr (p, als(a := A))"
      by (simp add: allocate_in_def A(1))
    show "allocators_ok (als(a := A))" using assms(1) A(5) e ok by (simp add: allocators_ok_def)
  qed (use A e in \<open>auto simp: fun_eq_iff\<close>)
qed

text \<open>The requests of the constructor.\<close>

definition pool_requests :: "u32 \<Rightarrow> u32 \<Rightarrow> allocator_name \<Rightarrow> allocator_name \<Rightarrow> (allocator_name \<times> nat) list" where
  "pool_requests chunkSize n managementAllocator chunkMemoryAllocator =
     [(chunkMemoryAllocator, unat n * unat chunkSize), (managementAllocator, (unat n + 1) * 4)]"

lemma unat_requiredIndexMemorySize: "unat (requiredIndexMemorySize n) = (unat n + 1) * 4"
proof -
  have "unat (ucast n + 1 :: u64) = unat n + 1"
    using u32_unat_less [of n] by (subst unat_add_no_wrap) auto
  then show ?thesis unfolding requiredIndexMemorySize_def
    using u32_unat_less [of n] by (subst unat_mult_no_wrap) auto
qed

lemma isMultipleOfAlignment_iff: "isMultipleOfAlignment v \<longleftrightarrow> 8 dvd unat v"
proof -
  have "isMultipleOfAlignment v \<longleftrightarrow> unat ((ucast v :: u64) mod 8) = 0"
    by (simp add: isMultipleOfAlignment_def CHUNK_MEMORY_ALIGNMENT_def unat_eq_0)
  also have "\<dots> \<longleftrightarrow> 8 dvd unat v" by (simp add: unat_mod_distrib dvd_eq_mod_eq_0)
  finally show ?thesis .
qed

lemma MemPool_ctor_ok:
  assumes "allocators_ok als" "8 \<le> unat chunkSize" "8 dvd unat chunkSize" "0 < n" "n < - 1 - 1"
    and "fits (ends_of als) (tops_of als) (pool_requests chunkSize n ma ca)"
  obtains P als' where "MemPool_ctor chunkSize n ma ca als = Inr (P, als')"
    "mem_pool_inv P" "used_indices P = {}" "mp_chunkSize P = chunkSize" "mp_numberOfChunks P = n"
    "mp_usedChunks P = 0" "mp_minFree P = n"
    "allocators_ok als'" "ends_of als' = ends_of als"
    "tops_of als' = tops_after (tops_of als) (pool_requests chunkSize n ma ca)"
    "unat (mp_rawMemory P) = round_up (tops_of als ca) 8"
proof -
  have n: "0 < unat n" using assms(4) by (simp add: word_less_nat_alt)
  have sz: "unat (ucast n * ucast chunkSize :: u64) = unat n * unat chunkSize"
    by (rule unat_u32_product_u64)
  have pos: "(ucast n * ucast chunkSize :: u64) > 0" "requiredIndexMemorySize n > 0"
    using n assms(2) by (simp_all add: word_less_nat_alt sz unat_requiredIndexMemorySize)
  from assms(6) have f: "round_up (tops_of als ca) 8 + unat (ucast n * ucast chunkSize :: u64) \<le> ends_of als ca"
    by (simp add: pool_requests_def sz)
  obtain p als1 where
    1: "allocate_in ca (ucast n * ucast chunkSize) CHUNK_MEMORY_ALIGNMENT als = Inr (p, als1)"
    "unat p = round_up (tops_of als ca) 8" "allocators_ok als1" "ends_of als1 = ends_of als"
    "tops_of als1 = (tops_of als)(ca := round_up (tops_of als ca) 8 + unat (ucast n * ucast chunkSize :: u64))"
    by (rule allocate_in_ok [OF assms(1) pos(1) f])
  from assms(6) have f2: "round_up (tops_of als1 ma) 8 + unat (requiredIndexMemorySize n) \<le> ends_of als1 ma"
    by (simp add: pool_requests_def fun_cong [OF 1(4)] fun_cong [OF 1(5)] sz unat_requiredIndexMemorySize)
  obtain q als2 where
    2: "allocate_in ma (requiredIndexMemorySize n) CHUNK_MEMORY_ALIGNMENT als1 = Inr (q, als2)"
    "allocators_ok als2" "ends_of als2 = ends_of als1"
    "tops_of als2 = (tops_of als1)(ma := round_up (tops_of als1 ma) 8 + unat (requiredIndexMemorySize n))"
    by (rule allocate_in_ok [OF 1(3) pos(2) f2])
  from init_shape [OF assms(4,5), of "replicate (unat n + 1) 0" LoFFLi_ctor]
  obtain F where F: "LoFFLi_init True (replicate (unat n + 1) 0) n LoFFLi_ctor = Inr F"
    "loffli_shape F (map of_nat [0..<unat n])" "m_size F = n" by (auto simp: LoFFLi_ctor_def)
  then have F': "loffli_inv F" "free_indices F = map of_nat [0..<unat n]" by (simp_all add: loffli_shape_iff)
  define P where "P = \<lparr> mp_rawMemory = p, mp_chunkSize = chunkSize, mp_numberOfChunks = n,
    mp_usedChunks = 0, mp_minFree = n, mp_freeIndices = F \<rparr>"
  have c: "MemPool_ctor chunkSize n ma ca als = Inr (P, als2)"
    using assms(2,3) n 1(1) 2(1) F(1)
    by (simp add: MemPool_ctor_def isMultipleOfAlignment_iff word_le_nat_alt CHUNK_MEMORY_ALIGNMENT_def P_def)
  have "unat p + unat n * unat chunkSize \<le> ends_of als ca" using f 1(2) sz by simp
  moreover have "ends_of als ca < 2 ^ 64" using assms(1) by (auto simp: allocators_ok_def allocator_inv_def allocator_end_def)
  ultimately have "mem_pool_inv P"
    using assms(2,3) n F' F(3) 1(2) round_up_dvd [of 8] by (simp add: mem_pool_inv_def P_def)
  moreover have "used_indices P = {}"
    using F' n by (force simp: used_indices_def P_def word_less_nat_alt image_iff intro: bexI [of _ "unat _"])
  moreover have "tops_of als2 = tops_after (tops_of als) (pool_requests chunkSize n ma ca)"
    unfolding 2(4) by (simp add: pool_requests_def 1(5) fun_cong [OF 1(5)] sz unat_requiredIndexMemorySize fun_eq_iff)
  ultimately show thesis
    using 1(2,4) 2(2,3) by (intro that [OF c]) (simp_all add: P_def)
qed

subsection \<open>Properties\<close>

text \<open>
  C1: a chunk that a pool whose byte offsets all fit in 32 bits hands out (the last chunk starts less than 4 GiB
  behind the first one) is 8-aligned, lies in the memory of the
  pool and shares no byte with a chunk in use; the pool is left in a consistent state, the chunk
  can be given back once, which restores the set of chunks in use, and the second time the
  double free is detected.
\<close>

theorem mem_pool_chunk_exclusive:
  assumes "mem_pool_inv P" "offsets_fit_u32 P" "MemPool_getChunk P = (Some a, P')"
  shows "8 dvd unat a \<and> unat (mp_rawMemory P) \<le> unat a \<and>
    unat a + unat (mp_chunkSize P) \<le>
      unat (mp_rawMemory P) + unat (mp_numberOfChunks P) * unat (mp_chunkSize P) \<and>
    (\<forall>b\<in>used_chunks P. unat a + unat (mp_chunkSize P) \<le> unat b \<or> unat b + unat (mp_chunkSize P) \<le> unat a) \<and>
    mem_pool_inv P' \<and> offsets_fit_u32 P' \<and> used_chunks P' = insert a (used_chunks P) \<and>
    (\<exists>P''. MemPool_freeChunk a P' = Inr P'' \<and> mem_pool_inv P'' \<and> used_chunks P'' = used_chunks P \<and>
       (\<exists>e. MemPool_freeChunk a P'' = Inl e))"
proof -
  have ok: "pool_ok P" using assms(1,2) by (simp add: pool_ok_def)
  from ok assms(3) have *: "a \<in> layout_slots (pool_layout P)" "pool_ok P'" "a \<notin> used_chunks P"
    "used_chunks P' = insert a (used_chunks P)" "pool_layout P' = pool_layout P"
    by (auto elim: mem_pool.get_cases)
  then obtain i where i: "a = chunk_at P i" "i < mp_numberOfChunks P" by (auto simp: layout_slots_pool)
  note inv = assms(1)
  have "8 dvd unat (mp_rawMemory P) + unat i * unat (mp_chunkSize P)"
    using inv by (intro dvd_add) (auto simp: mem_pool_inv_def)
  moreover obtain P'' where P'': "MemPool_freeChunk a P' = Inr P''" "pool_ok P''"
    "used_chunks P'' = used_chunks P" "pool_layout P'' = pool_layout P"
    using mem_pool.get_then_free [OF ok assms(3)] by blast
  moreover have "\<exists>e. MemPool_freeChunk a P'' = Inl e"
    using mem_pool.double_free [OF *(2) _ P''(1)] *(4) by simp
  ultimately show ?thesis
    using * i unat_chunk_at [OF inv i(2)] chunk_index_bound2 [OF i(2)] mem_pool.get_fresh [OF ok assms(3)]
    by (auto simp: pool_ok_def)
qed

definition example_allocators :: allocators where
  "example_allocators = (\<lambda>a. case a of ManagementAllocator \<Rightarrow> Allocator_ctor 0x1000 0x1000
     | ChunkMemoryAllocator \<Rightarrow> Allocator_ctor 0x100000000 0x200000000)"

definition example_pool :: mem_pool where
  "example_pool = fst (projr (MemPool_ctor 64 3 ManagementAllocator ChunkMemoryAllocator example_allocators))"

lemma example_pool_eq:
  "example_pool = \<lparr> mp_rawMemory = 0x100000000, mp_chunkSize = 64, mp_numberOfChunks = 3,
     mp_usedChunks = 0, mp_minFree = 3,
     mp_freeIndices = \<lparr> m_size = 3, m_invalidIndex = 4,
       m_head = \<lparr> indexToNextFreeIndex = 0, abaCounter = 1 \<rparr>, m_nextFreeIndex = [1, 2, 3, 4] \<rparr> \<rparr>"
  by code_simp

lemma all_less_3: "(\<forall>i<(3 :: u32). P i) \<longleftrightarrow> P 0 \<and> P 1 \<and> P 2"
proof -
  have "i = 0 \<or> i = 1 \<or> i = 2" if "i < 3" for i :: u32
  proof -
    have "unat i < 3" using that by (simp add: word_less_nat_alt)
    then have "unat i = unat (0 :: u32) \<or> unat i = unat (1 :: u32) \<or> unat i = unat (2 :: u32)" by auto
    then show ?thesis by (simp only: word_unat_eq_iff)
  qed
  then show ?thesis by auto
qed

lemma three_chunks_inv:
  assumes "8 \<le> unat sz" "8 dvd unat sz"
  shows "mem_pool_inv (example_pool\<lparr>mp_chunkSize := sz\<rparr>)"
proof -
  have f: "free_indices (mp_freeIndices example_pool) = [0, 1, 2]" by code_simp
  have "loffli_inv (mp_freeIndices example_pool)"
    unfolding loffli_inv_def loffli_shape_def f by (simp add: example_pool_eq all_less_3)
  with f assms u32_unat_less [of sz] show ?thesis
    by (simp add: mem_pool_inv_def) (simp add: example_pool_eq)
qed

lemma example_pool_ok: "pool_ok example_pool"
  using three_chunks_inv [of 64] by (simp add: pool_ok_def offsets_fit_u32_def example_pool_eq)

lemma mem_pool_chunk_exclusive_witness:
  "\<exists>P'. MemPool_getChunk example_pool = (Some 0x100000000, P') \<and>
     used_chunks P' = insert 0x100000000 (used_chunks example_pool) \<and>
     (\<exists>P''. MemPool_freeChunk 0x100000000 P' = Inr P'' \<and> (\<exists>e. MemPool_freeChunk 0x100000000 P'' = Inl e))"
proof -
  have g: "MemPool_getChunk example_pool = (Some 0x100000000, snd (MemPool_getChunk example_pool))"
    by code_simp
  show ?thesis using mem_pool_chunk_exclusive [OF _ _ g] example_pool_ok g by (auto simp: pool_ok_def)
qed

text \<open>
  C14: the byte offset of a chunk is the 32-bit product of its index and the chunk size, while the
  memory was sized with the 64-bit product. A pool of three chunks of 2 GiB, which is constructed
  without complaint, hands out the same address twice.
\<close>

theorem mem_pool_above_4GiB_hands_out_a_chunk_twice:
  "\<exists>P als P1 P2 P3 a b.
     MemPool_ctor 0x80000000 3 ManagementAllocator ChunkMemoryAllocator example_allocators = Inr (P, als) \<and>
     mem_pool_inv P \<and> MemPool_getChunk P = (Some a, P1) \<and> MemPool_getChunk P1 = (Some b, P2) \<and>
     MemPool_getChunk P2 = (Some a, P3)"
proof -
  let ?P = "example_pool\<lparr>mp_chunkSize := 0x80000000\<rparr>"
  let ?c = "MemPool_ctor 0x80000000 3 ManagementAllocator ChunkMemoryAllocator example_allocators"
  have c: "map_sum id fst ?c = Inr ?P" by code_simp
  obtain als where "?c = Inr (?P, als)" using c by (cases ?c) auto
  moreover have "mem_pool_inv ?P" by (rule three_chunks_inv) simp_all
  moreover
  let ?P1 = "snd (MemPool_getChunk ?P)" and ?P2 = "snd (MemPool_getChunk (snd (MemPool_getChunk ?P)))"
  have "MemPool_getChunk ?P = (Some 0x100000000, ?P1)" by code_simp
  moreover have "MemPool_getChunk ?P1 = (Some 0x180000000, ?P2)" by code_simp
  moreover have "MemPool_getChunk ?P2 = (Some 0x100000000, snd (MemPool_getChunk ?P2))" by code_simp
  ultimately show ?thesis by blast
qed

end
