(* ===== verification/Mepoo_Config.thy ===== *)
theory Mepoo_Config
  imports Prelude
begin

section \<open>Configuration of the memory pools\<close>

text \<open>
  \<open>mepoo::MePooConfig\<close> (\<open>mepoo_config.hpp\<close>, \<open>mepoo_config.cpp\<close>). The configuration is a
  \<open>cxx::vector\<close> of at most \<open>MAX_NUMBER_OF_MEMPOOLS\<close> entries; \<open>push_back\<close> on a full vector has no
  effect. \<open>std::sort\<close> is not stable, but entries of equal size are merged afterwards, so that
  their order does not matter.
\<close>

definition MAX_NUMBER_OF_MEMPOOLS :: nat where "MAX_NUMBER_OF_MEMPOOLS = 32"

record mempool_entry =
  me_size :: u32
  me_chunkCount :: u32

type_synonym mepoo_config = "mempool_entry list"

abbreviation Entry :: "u32 \<Rightarrow> u32 \<Rightarrow> mempool_entry" where
  "Entry s c \<equiv> \<lparr> me_size = s, me_chunkCount = c \<rparr>"

text \<open>\<open>cxx::vector::push_back\<close> and \<open>emplace_back\<close> for a vector of capacity \<open>cap\<close>.\<close>

definition vector_push_back :: "nat \<Rightarrow> 'a \<Rightarrow> 'a list \<Rightarrow> 'a list" where
  "vector_push_back cap x xs = (if length xs < cap then xs @ [x] else xs)"

abbreviation config_push_back :: "mempool_entry \<Rightarrow> mepoo_config \<Rightarrow> mepoo_config" where
  "config_push_back \<equiv> vector_push_back MAX_NUMBER_OF_MEMPOOLS"

definition MePooConfig_addMemPool :: "mempool_entry \<Rightarrow> mepoo_config \<Rightarrow> mepoo_config outcome" where
  "MePooConfig_addMemPool f_entry this =
     (if length this < MAX_NUMBER_OF_MEMPOOLS then Inr (config_push_back f_entry this)
      else errorHandler (MEPOO MEPOO__MAXIMUM_NUMBER_OF_MEMPOOLS_REACHED) FATAL (Inr this))"

definition setDefaults :: "mepoo_config \<Rightarrow> mepoo_config" where
  "setDefaults this =
     fold config_push_back
       [Entry 128 10000, Entry 1024 5000, Entry (1024 * 16) 1000, Entry (1024 * 128) 200,
        Entry (1024 * 512) 50, Entry (1024 * 1024) 30, Entry (1024 * 1024 * 4) 10] this"

text \<open>The body of the loop of \<open>optimize\<close>, on the new container and \<open>newEntry\<close>.\<close>

definition optimize_step ::
  "mempool_entry \<Rightarrow> mepoo_config \<times> mempool_entry \<Rightarrow> mepoo_config \<times> mempool_entry" where
  "optimize_step entry = (\<lambda>(cfg, newEntry).
     if me_size entry \<noteq> me_size newEntry
     then (if me_size newEntry \<noteq> 0 then config_push_back newEntry cfg else cfg,
           Entry (me_size entry) (me_chunkCount entry))
     else (cfg, newEntry\<lparr> me_chunkCount := me_chunkCount newEntry + me_chunkCount entry \<rparr>))"

definition optimize :: "mepoo_config \<Rightarrow> mepoo_config" where
  "optimize this =
     (let config = sort_key me_size this;
          (cfg, newEntry) = fold optimize_step config ([], Entry 0 0)
      in if me_size newEntry \<noteq> 0 then config_push_back newEntry cfg else cfg)"

subsection \<open>Merging runs of equal size\<close>

text \<open>The number of chunks configured for a size, with the 32-bit sum of the code.\<close>

definition chunks_of_size :: "u32 \<Rightarrow> mepoo_config \<Rightarrow> u32" where
  "chunks_of_size s cfg = (\<Sum>e\<leftarrow>cfg. if me_size e = s then me_chunkCount e else 0)"

lemma chunks_of_size_simps [simp]:
  "chunks_of_size s [] = 0"
  "chunks_of_size s (e # cfg) = (if me_size e = s then me_chunkCount e else 0) + chunks_of_size s cfg"
  "chunks_of_size s (cfg @ cfg') = chunks_of_size s cfg + chunks_of_size s cfg'"
  by (simp_all add: chunks_of_size_def)

lemma chunks_of_size_mset: "mset xs = mset ys \<Longrightarrow> chunks_of_size s xs = chunks_of_size s ys"
proof -
  assume m: "mset xs = mset ys"
  let ?f = "\<lambda>e. if me_size e = s then me_chunkCount e else 0"
  have "sum_list (map ?f xs) = sum_mset (image_mset ?f (mset xs))" by (simp add: sum_mset_sum_list flip: mset_map)
  also have "\<dots> = sum_list (map ?f ys)" unfolding m by (simp add: sum_mset_sum_list flip: mset_map)
  finally show ?thesis by (simp add: chunks_of_size_def)
qed

text \<open>
  What the loop maintains: the finished entries are strictly increasing, smaller than the
  current entry and not zero; the vector has room because every finished entry stands for at
  least one entry of the input.
\<close>

definition optimize_inv :: "mepoo_config \<Rightarrow> mepoo_config \<times> mempool_entry \<Rightarrow> bool" where
  "optimize_inv seen = (\<lambda>(cfg, e).
     sorted_wrt (<) (map me_size cfg) \<and> (\<forall>x\<in>set cfg. me_size x \<noteq> 0 \<and> me_size x < me_size e) \<and>
     (\<forall>x\<in>set seen. me_size x \<le> me_size e) \<and>
     length cfg + (if me_size e = 0 then 0 else 1) \<le> length seen \<and>
     (\<forall>s. s \<noteq> 0 \<longrightarrow> chunks_of_size s (cfg @ [e]) = chunks_of_size s seen))"

lemma optimize_step_inv:
  assumes "optimize_inv seen st" "\<forall>x\<in>set seen. me_size x \<le> me_size e" "me_size (snd st) \<le> me_size e"
    and "length seen < MAX_NUMBER_OF_MEMPOOLS"
  shows "optimize_inv (seen @ [e]) (optimize_step e st)" and "me_size (snd (optimize_step e st)) = me_size e"
proof -
  obtain cfg n where st: "st = (cfg, n)" by (cases st)
  note I = assms(1) [unfolded optimize_inv_def st, simplified]
  have room: "me_size n \<noteq> 0 \<Longrightarrow> config_push_back n cfg = cfg @ [n]"
    using I assms(4) by (simp add: vector_push_back_def)
  show "me_size (snd (optimize_step e st)) = me_size e" by (simp add: optimize_step_def st)
  show "optimize_inv (seen @ [e]) (optimize_step e st)"
  proof (cases "me_size e = me_size n")
    case True
    then have "optimize_step e st = (cfg, n\<lparr> me_chunkCount := me_chunkCount n + me_chunkCount e \<rparr>)"
      by (simp add: optimize_step_def st)
    then show ?thesis using I True by (auto simp: optimize_inv_def)
  next
    case False
    then have lt: "me_size n < me_size e" using assms(3) by (simp add: st)
    have e0: "me_size e \<noteq> 0" using lt by auto
    have eq: "optimize_step e st =
        (if me_size n \<noteq> 0 then cfg @ [n] else cfg, Entry (me_size e) (me_chunkCount e))"
      using False room by (auto simp: optimize_step_def st)
    have tr: "me_size x < me_size n \<Longrightarrow> me_size x < me_size e" for x :: mempool_entry
      by (rule less_trans [OF _ lt])
    show ?thesis
    proof (cases "me_size n = 0")
      case True
      then have "cfg = []" using I by (cases cfg) auto
      then show ?thesis using I True e0 assms(2) by (auto simp: optimize_inv_def eq)
    next
      case False
      then show ?thesis using I lt e0 assms(2) tr
        by (auto simp: optimize_inv_def eq sorted_wrt_append add.commute)
    qed
  qed
qed

lemma optimize_fold_inv:
  "sorted (map me_size cfg) \<Longrightarrow> length cfg \<le> MAX_NUMBER_OF_MEMPOOLS \<Longrightarrow>
   optimize_inv cfg (fold optimize_step cfg ([], Entry 0 0)) \<and>
   (cfg \<noteq> [] \<longrightarrow> me_size (snd (fold optimize_step cfg ([], Entry 0 0))) = me_size (last cfg))"
proof (induction cfg rule: rev_induct)
  case Nil
  then show ?case by (simp add: optimize_inv_def)
next
  case (snoc e cfg)
  let ?st = "fold optimize_step cfg ([], Entry 0 0)"
  from snoc have IH: "optimize_inv cfg ?st" "cfg \<noteq> [] \<Longrightarrow> me_size (snd ?st) = me_size (last cfg)"
    by (auto simp: sorted_wrt_append)
  have le: "\<forall>x\<in>set cfg. me_size x \<le> me_size e" using snoc.prems by (auto simp: sorted_wrt_append)
  then have "me_size (snd ?st) \<le> me_size e" using IH(2) by (cases "cfg = []") auto
  from optimize_step_inv [OF IH(1) le this] snoc.prems show ?case by simp
qed

subsection \<open>Properties\<close>

text \<open>
  The optimised configuration can be used by the memory manager: its sizes are strictly
  increasing and not zero, and the number of chunks configured for every size is unchanged.
\<close>

theorem optimize_correct:
  assumes "length cfg \<le> MAX_NUMBER_OF_MEMPOOLS"
  shows "sorted_wrt (<) (map me_size (optimize cfg)) \<and> (\<forall>x\<in>set (optimize cfg). me_size x \<noteq> 0) \<and>
    length (optimize cfg) \<le> length cfg \<and>
    (\<forall>s. s \<noteq> 0 \<longrightarrow> chunks_of_size s (optimize cfg) = chunks_of_size s cfg)"
proof -
  let ?s = "sort_key me_size cfg"
  obtain c n where cn: "fold optimize_step ?s ([], Entry 0 0) = (c, n)" by fastforce
  from optimize_fold_inv [of ?s] assms cn have I: "optimize_inv ?s (c, n)" by simp
  have m: "chunks_of_size s ?s = chunks_of_size s cfg" for s by (rule chunks_of_size_mset) simp
  have o: "optimize cfg = (if me_size n \<noteq> 0 then c @ [n] else c)"
    using cn I assms by (auto simp: optimize_def vector_push_back_def optimize_inv_def split: if_split_asm)
  show ?thesis using I m unfolding optimize_inv_def o by (auto simp: sorted_wrt_append)
qed

lemma optimize_correct_witness:
  "optimize [Entry 128 5, Entry 64 1, Entry 0 9, Entry 128 7] = [Entry 64 1, Entry 128 12] \<and>
   chunks_of_size 128 (optimize [Entry 128 5, Entry 64 1, Entry 0 9, Entry 128 7]) =
     chunks_of_size 128 [Entry 128 5, Entry 64 1, Entry 0 9, Entry 128 7]"
proof -
  have l: "length [Entry 128 5, Entry 64 1, Entry 0 9, Entry 128 7] \<le> MAX_NUMBER_OF_MEMPOOLS"
    by (simp add: MAX_NUMBER_OF_MEMPOOLS_def)
  have e: "optimize [Entry 128 5, Entry 64 1, Entry 0 9, Entry 128 7] = [Entry 64 1, Entry 128 12]"
    by code_simp
  have "(128 :: u32) \<noteq> 0" by simp
  then show ?thesis using optimize_correct [OF l] e by blast
qed

end
