(* ===== verification/Memory_Manager.thy ===== *)
theory Memory_Manager
  imports Chunk_Header Mem_Pool Mepoo_Config
begin

section \<open>The memory manager\<close>

text \<open>
  \<open>mepoo::MemoryManager\<close> (\<open>memory_manager.hpp\<close>, \<open>memory_manager.cpp\<close>) and the data of
  \<open>mepoo::ChunkManagement\<close>: a vector of memory pools of increasing chunk size, and one pool for
  the chunk management objects.

  The shared memory is the record \<open>shm\<close>: the manager, the chunk headers and the chunk management
  objects at their addresses, and the memory cells of the payload offsets. Freeing a chunk does
  not clear its memory, so that the entries of freed chunks stay in the maps. A pointer to a
  memory pool is its position in the vector.
\<close>

definition SIZEOF_ChunkManagement :: u32 where "SIZEOF_ChunkManagement = 56"

datatype memory_manager_error =
    NO_MEMPOOLS_AVAILABLE
  | NO_MEMPOOL_FOR_REQUESTED_CHUNK_SIZE
  | MEMPOOL_OUT_OF_CHUNKS

record memory_manager =
  mm_denyAddMemPool :: bool
  mm_totalNumberOfChunks :: u32
  mm_memPoolVector :: "mem_pool list"
  mm_chunkManagementPool :: "mem_pool list"

record chunk_management =
  cm_chunkHeader :: address
  cm_referenceCounter :: u64
  cm_mempool :: nat
  cm_chunkManagementPool :: nat

record shm =
  shm_manager :: memory_manager
  shm_headers :: "address \<rightharpoonup> chunk_header"
  shm_offsets :: offset_memory
  shm_managements :: "address \<rightharpoonup> chunk_management"

text \<open>The pointer a \<open>SharedChunk\<close> holds.\<close>

type_synonym shared_chunk = "address pointer"

definition MemoryManager_ctor :: memory_manager where
  "MemoryManager_ctor = \<lparr> mm_denyAddMemPool = False, mm_totalNumberOfChunks = 0,
     mm_memPoolVector = [], mm_chunkManagementPool = [] \<rparr>"

definition ChunkManagement_ctor :: "address \<Rightarrow> nat \<Rightarrow> nat \<Rightarrow> chunk_management" where
  "ChunkManagement_ctor chunkHeader mempool chunkManagementPool =
     \<lparr> cm_chunkHeader = chunkHeader, cm_referenceCounter = 1, cm_mempool = mempool,
       cm_chunkManagementPool = chunkManagementPool \<rparr>"

definition sizeWithChunkHeaderStruct :: "u32 \<Rightarrow> u32 outcome" where
  "sizeWithChunkHeaderStruct sz =
     Expects (1 \<le> sz \<and> sz \<le> - 1 - ucast SIZEOF_ChunkHeader) (Inr (sz + ucast SIZEOF_ChunkHeader))"

text \<open>\<open>emplace_back\<close> of a \<open>MemPool\<close>: the constructor only runs if the vector has room.\<close>

definition emplace_back_pool ::
  "nat \<Rightarrow> u32 \<Rightarrow> u32 \<Rightarrow> allocator_name \<Rightarrow> allocator_name \<Rightarrow> mem_pool list \<Rightarrow> allocators
    \<Rightarrow> (mem_pool list \<times> allocators) outcome" where
  "emplace_back_pool cap chunkSize numberOfChunks ma ca pools als =
     (if length pools < cap
      then obind (MemPool_ctor chunkSize numberOfChunks ma ca als) (\<lambda>(p, als'). Inr (pools @ [p], als'))
      else Inr (pools, als))"

definition MemoryManager_addMemPool ::
  "u32 \<Rightarrow> u32 \<Rightarrow> memory_manager \<Rightarrow> allocators \<Rightarrow> (memory_manager \<times> allocators) outcome" where
  "MemoryManager_addMemPool chunkPayloadSize numberOfChunks this als =
     Expects (ucast chunkPayloadSize \<ge> CHUNK_MEMORY_ALIGNMENT) (Expects (numberOfChunks \<ge> 1)
      (obind (sizeWithChunkHeaderStruct chunkPayloadSize) (\<lambda>adjustedChunkSize.
        (let add =
           obind (emplace_back_pool MAX_NUMBER_OF_MEMPOOLS adjustedChunkSize numberOfChunks
                    ManagementAllocator ChunkMemoryAllocator (mm_memPoolVector this) als)
             (\<lambda>(pools, als'). Inr (this\<lparr> mm_memPoolVector := pools,
                mm_totalNumberOfChunks := mm_totalNumberOfChunks this + numberOfChunks \<rparr>, als'))
         in if mm_denyAddMemPool this
            then errorHandler (MEPOO MEPOO__MEMPOOL_ADDMEMPOOL_AFTER_GENERATECHUNKMANAGEMENTPOOL) FATAL add
            else if length (mm_memPoolVector this) > 0 \<and>
                    adjustedChunkSize \<le> mp_chunkSize (last (mm_memPoolVector this))
            then errorHandler (MEPOO MEPOO__MEMPOOL_CONFIG_MUST_BE_ORDERED_BY_INCREASING_SIZE) FATAL add
            else add))))"

definition generateChunkManagementPool ::
  "memory_manager \<Rightarrow> allocators \<Rightarrow> (memory_manager \<times> allocators) outcome" where
  "generateChunkManagementPool this als =
     obind (emplace_back_pool 1 SIZEOF_ChunkManagement (mm_totalNumberOfChunks this)
              ManagementAllocator ManagementAllocator (mm_chunkManagementPool this) als)
       (\<lambda>(pools, als'). Inr (this\<lparr> mm_denyAddMemPool := True, mm_chunkManagementPool := pools \<rparr>, als'))"

definition getNumberOfMemPools :: "memory_manager \<Rightarrow> u32" where
  "getNumberOfMemPools this = of_nat (length (mm_memPoolVector this))"

definition getMemPoolInfo :: "u32 \<Rightarrow> memory_manager \<Rightarrow> mem_pool_info" where
  "getMemPoolInfo index this =
     (if unat index \<ge> length (mm_memPoolVector this)
      then \<lparr> mpi_usedChunks = 0, mpi_minFreeChunks = 0, mpi_numChunks = 0, mpi_chunkSize = 0 \<rparr>
      else getInfo (mm_memPoolVector this ! unat index))"

primrec requiredChunkMemorySize_loop :: "mepoo_config \<Rightarrow> u64 \<Rightarrow> u64 outcome" where
  "requiredChunkMemorySize_loop [] memorySize = Inr memorySize"
| "requiredChunkMemorySize_loop (e # cfg) memorySize =
     obind (sizeWithChunkHeaderStruct (me_size e)) (\<lambda>chunkSize.
       requiredChunkMemorySize_loop cfg
         (memorySize + align (ucast (me_chunkCount e) * ucast chunkSize) CHUNK_MEMORY_ALIGNMENT))"

definition requiredChunkMemorySize :: "mepoo_config \<Rightarrow> u64 outcome" where
  "requiredChunkMemorySize cfg = requiredChunkMemorySize_loop cfg 0"

definition requiredManagementMemorySize :: "mepoo_config \<Rightarrow> u64" where
  "requiredManagementMemorySize cfg =
     (let (memorySize, sumOfAllChunks) =
        foldl (\<lambda>(memorySize, sumOfAllChunks) e.
            (memorySize + align (requiredIndexMemorySize (me_chunkCount e)) CHUNK_MEMORY_ALIGNMENT,
             sumOfAllChunks + me_chunkCount e)) (0, 0) cfg
      in memorySize
         + align (ucast sumOfAllChunks * ucast SIZEOF_ChunkManagement) CHUNK_MEMORY_ALIGNMENT
         + align (requiredIndexMemorySize sumOfAllChunks) CHUNK_MEMORY_ALIGNMENT)"

definition requiredFullMemorySize :: "mepoo_config \<Rightarrow> u64 outcome" where
  "requiredFullMemorySize cfg =
     obind (requiredChunkMemorySize cfg) (\<lambda>c. Inr (requiredManagementMemorySize cfg + c))"

primrec addMemPools :: "mepoo_config \<Rightarrow> memory_manager \<Rightarrow> allocators \<Rightarrow> (memory_manager \<times> allocators) outcome" where
  "addMemPools [] this als = Inr (this, als)"
| "addMemPools (e # cfg) this als =
     obind (MemoryManager_addMemPool (me_size e) (me_chunkCount e) this als)
       (\<lambda>(this', als'). addMemPools cfg this' als')"

definition configureMemoryManager ::
  "mepoo_config \<Rightarrow> memory_manager \<Rightarrow> allocators \<Rightarrow> (memory_manager \<times> allocators) outcome" where
  "configureMemoryManager cfg this als =
     obind (addMemPools cfg this als) (\<lambda>(this', als'). generateChunkManagementPool this' als')"

text \<open>The loop of \<open>getChunk\<close> takes the first pool whose chunks are large enough.\<close>

primrec first_fitting :: "u32 \<Rightarrow> nat \<Rightarrow> mem_pool list \<Rightarrow> nat option" where
  "first_fitting requiredChunkSize i [] = None"
| "first_fitting requiredChunkSize i (p # ps) =
     (if mp_chunkSize p \<ge> requiredChunkSize then Some i else first_fitting requiredChunkSize (i + 1) ps)"

definition MemoryManager_getChunk ::
  "chunk_settings \<Rightarrow> shm \<Rightarrow> ((memory_manager_error + shared_chunk) \<times> shm) outcome" where
  "MemoryManager_getChunk chunkSettings S =
     (let mm = shm_manager S; pools = mm_memPoolVector mm
      in case first_fitting (cs_requiredChunkSize chunkSettings) 0 pools of
           None \<Rightarrow>
             (if length pools = 0
              then errorHandler (MEPOO MEPOO__MEMPOOL_GETCHUNK_CHUNK_WITHOUT_MEMPOOL) SEVERE
                     (Inr (Inl NO_MEMPOOLS_AVAILABLE, S))
              else errorHandler (MEPOO MEPOO__MEMPOOL_GETCHUNK_CHUNK_IS_TOO_LARGE) SEVERE
                     (Inr (Inl NO_MEMPOOL_FOR_REQUESTED_CHUNK_SIZE, S)))
         | Some memPool \<Rightarrow>
             (let (chunk, p') = MemPool_getChunk (pools ! memPool);
                  aquiredChunkSize = mp_chunkSize (pools ! memPool);
                  mm1 = mm\<lparr> mm_memPoolVector := pools[memPool := p'] \<rparr>
              in case chunk of
                   None \<Rightarrow> errorHandler (MEPOO MEPOO__MEMPOOL_GETCHUNK_POOL_IS_RUNNING_OUT_OF_CHUNKS) MODERATE
                             (Inr (Inl MEMPOOL_OUT_OF_CHUNKS, S\<lparr> shm_manager := mm1 \<rparr>))
                 | Some a \<Rightarrow>
                     obind (ChunkHeader_new a aquiredChunkSize chunkSettings (shm_offsets S)) (\<lambda>(h, offs).
                       (case mm_chunkManagementPool mm1 of
                          [] \<Rightarrow> Inl NULLPTR_ACCESS
                        | M # Ms \<Rightarrow>
                            (case MemPool_getChunk M of
                               (None, M') \<Rightarrow> Inl NULLPTR_ACCESS
                             | (Some m, M') \<Rightarrow>
                                 Inr (Inr (Some m),
                                   S\<lparr> shm_manager := mm1\<lparr> mm_chunkManagementPool := M' # Ms \<rparr>,
                                     shm_headers := (shm_headers S)(a \<mapsto> h),
                                     shm_offsets := offs,
                                     shm_managements := (shm_managements S)
                                       (m \<mapsto> ChunkManagement_ctor a memPool 0) \<rparr>))))))"

subsection \<open>The required memory is sufficient\<close>

definition config_ok :: "mepoo_config \<Rightarrow> bool" where
  "config_ok cfg \<longleftrightarrow> cfg \<noteq> [] \<and> length cfg \<le> MAX_NUMBER_OF_MEMPOOLS \<and> sorted_wrt (<) (map me_size cfg) \<and>
     (\<forall>e\<in>set cfg. 8 \<le> unat (me_size e) \<and> 8 dvd unat (me_size e) \<and> unat (me_size e) \<le> 4294967295 - 40 \<and>
        1 \<le> unat (me_chunkCount e)) \<and>
     (\<Sum>e\<leftarrow>cfg. unat (me_chunkCount e)) < 2 ^ 32 - 2"

text \<open>The requests of a configuration, in the order in which the pools are constructed.\<close>

definition entry_requests :: "mempool_entry \<Rightarrow> (allocator_name \<times> nat) list" where
  "entry_requests e = pool_requests (me_size e + 40) (me_chunkCount e) ManagementAllocator ChunkMemoryAllocator"

definition chunk_memory_need :: "mepoo_config \<Rightarrow> nat" where
  "chunk_memory_need cfg = (\<Sum>e\<leftarrow>cfg. round_up (unat (me_chunkCount e) * (unat (me_size e) + 40)) 8)"

definition management_memory_need :: "mepoo_config \<Rightarrow> nat" where
  "management_memory_need cfg =
     (let n = \<Sum>e\<leftarrow>cfg. unat (me_chunkCount e)
      in (\<Sum>e\<leftarrow>cfg. round_up ((unat (me_chunkCount e) + 1) * 4) 8) + round_up (n * 56) 8 + round_up ((n + 1) * 4) 8)"

lemma unat_size_header:
  "unat s \<le> 4294967295 - 40 \<Longrightarrow> unat (s + 40 :: u32) = unat s + 40"
  by (subst unat_add_no_wrap) auto

lemma sizeWithChunkHeaderStruct_ok:
  assumes "8 \<le> unat s" "unat s \<le> 4294967295 - 40"
  shows "sizeWithChunkHeaderStruct s = Inr (s + 40)"
proof -
  have "unat (- 1 - 40 :: u32) = 4294967295 - 40" by simp
  then have "1 \<le> s \<and> s \<le> - 1 - 40" using assms by (simp add: word_le_nat_alt)
  then show ?thesis by (simp add: sizeWithChunkHeaderStruct_def SIZEOF_ChunkHeader_def)
qed

text \<open>The 64-bit sums of the code are the sums over the natural numbers if these fit.\<close>

lemma unat_align_8:
  "unat v + 8 \<le> 2 ^ 64 \<Longrightarrow> unat (align v CHUNK_MEMORY_ALIGNMENT) = round_up (unat v) 8"
  unfolding CHUNK_MEMORY_ALIGNMENT_def by (subst unat_align) auto

lemma requiredChunkMemorySize_loop_ok:
  "(\<forall>e\<in>set cfg. 8 \<le> unat (me_size e) \<and> unat (me_size e) \<le> 4294967295 - 40) \<Longrightarrow>
   unat acc + chunk_memory_need cfg + 8 \<le> 2 ^ 64 \<Longrightarrow>
   \<exists>r. requiredChunkMemorySize_loop cfg acc = Inr r \<and> unat r = unat acc + chunk_memory_need cfg"
proof (induction cfg arbitrary: acc)
  case (Cons e cfg)
  let ?k = "unat (me_chunkCount e) * (unat (me_size e) + 40)"
  have sz: "sizeWithChunkHeaderStruct (me_size e) = Inr (me_size e + 40)"
    using Cons.prems(1) by (intro sizeWithChunkHeaderStruct_ok) auto
  have u: "unat (ucast (me_chunkCount e) * ucast (me_size e + 40) :: u64) = ?k"
    using Cons.prems(1) by (simp add: unat_u32_product_u64 unat_size_header)
  have need: "chunk_memory_need (e # cfg) = round_up ?k 8 + chunk_memory_need cfg"
    by (simp add: chunk_memory_need_def)
  let ?a = "align (ucast (me_chunkCount e) * ucast (me_size e + 40) :: u64) CHUNK_MEMORY_ALIGNMENT"
  have a: "unat ?a = round_up ?k 8"
    using Cons.prems(2) need round_up_ge [of ?k 8] by (subst unat_align_8) (simp_all add: u)
  have "unat (acc + ?a) = unat acc + round_up ?k 8"
    using Cons.prems(2) need by (subst unat_add_no_wrap) (auto simp: a)
  then show ?case using Cons.IH [of "acc + ?a"] Cons.prems need sz by (simp add: add.assoc)
qed (simp add: chunk_memory_need_def)

lemma unat_requiredChunkMemorySize:
  assumes "config_ok cfg" "chunk_memory_need cfg + 8 \<le> 2 ^ 64"
  obtains r where "requiredChunkMemorySize cfg = Inr r" "unat r = chunk_memory_need cfg"
  using requiredChunkMemorySize_loop_ok [of cfg 0] assms
  by (auto simp: requiredChunkMemorySize_def config_ok_def)

lemma unat_align_index_memory:
  "unat (align (requiredIndexMemorySize n) CHUNK_MEMORY_ALIGNMENT) = round_up ((unat n + 1) * 4) 8"
  using u32_unat_less [of n] by (subst unat_align_8) (auto simp: unat_requiredIndexMemorySize)

lemma requiredManagement_loop:
  "unat a + (\<Sum>e\<leftarrow>cfg. round_up ((unat (me_chunkCount e) + 1) * 4) 8) < 2 ^ 64 \<Longrightarrow>
   unat b + (\<Sum>e\<leftarrow>cfg. unat (me_chunkCount e)) < 2 ^ 32 \<Longrightarrow>
   case foldl (\<lambda>(memorySize, sumOfAllChunks) e.
            (memorySize + align (requiredIndexMemorySize (me_chunkCount e)) CHUNK_MEMORY_ALIGNMENT,
             sumOfAllChunks + me_chunkCount e)) (a, b :: u32) cfg of
     (m, s) \<Rightarrow> unat m = unat a + (\<Sum>e\<leftarrow>cfg. round_up ((unat (me_chunkCount e) + 1) * 4) 8) \<and>
        unat s = unat b + (\<Sum>e\<leftarrow>cfg. unat (me_chunkCount e))"
proof (induction cfg arbitrary: a b)
  case (Cons e cfg)
  let ?a = "align (requiredIndexMemorySize (me_chunkCount e)) CHUNK_MEMORY_ALIGNMENT"
  have "unat (a + ?a) = unat a + round_up ((unat (me_chunkCount e) + 1) * 4) 8"
    using Cons.prems(1) by (subst unat_add_no_wrap) (auto simp: unat_align_index_memory)
  moreover have "unat (b + me_chunkCount e) = unat b + unat (me_chunkCount e)"
    using Cons.prems(2) by (subst unat_add_no_wrap) auto
  ultimately show ?case
    using Cons.IH [of "a + ?a" "b + me_chunkCount e"] Cons.prems by (simp add: add.assoc)
qed simp

lemma index_memory_sum_bound:
  "(\<Sum>e\<leftarrow>cfg. round_up ((unat (me_chunkCount e) + 1) * 4) 8) \<le>
     4 * (\<Sum>e\<leftarrow>cfg. unat (me_chunkCount e)) + 12 * length cfg"
proof (induction cfg)
  case (Cons e cfg)
  then show ?case using round_up_less [of 8 "(unat (me_chunkCount e) + 1) * 4"] by simp
qed simp

lemma unat_requiredManagementMemorySize:
  assumes "config_ok cfg"
  shows "unat (requiredManagementMemorySize cfg) = management_memory_need cfg"
proof -
  let ?n = "\<Sum>e\<leftarrow>cfg. unat (me_chunkCount e)"
  let ?i = "\<Sum>e\<leftarrow>cfg. round_up ((unat (me_chunkCount e) + 1) * 4) 8"
  from assms have n: "?n < 4294967294" and len: "length cfg \<le> 32"
    by (simp_all add: config_ok_def MAX_NUMBER_OF_MEMPOOLS_def)
  then have i: "?i \<le> 4 * 4294967294 + 12 * 32" using index_memory_sum_bound [of cfg] by linarith
  define f where "f = (\<lambda>(memorySize, sumOfAllChunks) (e :: mempool_entry).
            (memorySize + align (requiredIndexMemorySize (me_chunkCount e)) CHUNK_MEMORY_ALIGNMENT,
             sumOfAllChunks + me_chunkCount e))"
  obtain m k where mk: "foldl f (0, 0) cfg = (m, k)" by (cases "foldl f (0, 0) cfg")
  with requiredManagement_loop [of 0 cfg 0] n i have m: "unat m = ?i" and k: "unat k = ?n"
    by (simp_all add: f_def)
  have "unat (ucast k * ucast SIZEOF_ChunkManagement :: u64) = ?n * 56"
    unfolding unat_u32_product_u64 by (simp add: k SIZEOF_ChunkManagement_def)
  then have c: "unat (align (ucast k * ucast SIZEOF_ChunkManagement :: u64) CHUNK_MEMORY_ALIGNMENT) = round_up (?n * 56) 8"
    using n by (subst unat_align_8) simp_all
  have b: "round_up (?n * 56) 8 < ?n * 56 + 8" "round_up ((?n + 1) * 4) 8 < (?n + 1) * 4 + 8"
    by (rule round_up_less, simp)+
  have "unat (m + align (ucast k * ucast SIZEOF_ChunkManagement) CHUNK_MEMORY_ALIGNMENT) = ?i + round_up (?n * 56) 8"
    using n i b by (subst unat_add_no_wrap) (simp_all add: m c)
  then have "unat (m + align (ucast k * ucast SIZEOF_ChunkManagement) CHUNK_MEMORY_ALIGNMENT
      + align (requiredIndexMemorySize k) CHUNK_MEMORY_ALIGNMENT) = management_memory_need cfg"
    using n i b by (subst unat_add_no_wrap)
      (simp_all add: unat_align_index_memory k management_memory_need_def Let_def)
  then show ?thesis using mk by (simp add: requiredManagementMemorySize_def f_def)
qed

subsection \<open>Configuration\<close>

text \<open>The memory blocks of the pools follow each other between two addresses.\<close>

primrec pools_between :: "nat \<Rightarrow> mem_pool list \<Rightarrow> nat \<Rightarrow> bool" where
  "pools_between lo [] hi \<longleftrightarrow> lo \<le> hi"
| "pools_between lo (p # ps) hi \<longleftrightarrow> lo \<le> unat (mp_rawMemory p) \<and>
     pools_between (unat (mp_rawMemory p) + unat (mp_numberOfChunks p) * unat (mp_chunkSize p)) ps hi"

definition fresh_pool :: "mempool_entry \<Rightarrow> mem_pool \<Rightarrow> bool" where
  "fresh_pool e p \<longleftrightarrow> mem_pool_inv p \<and> used_indices p = {} \<and> mp_chunkSize p = me_size e + 40 \<and>
     mp_numberOfChunks p = me_chunkCount e"

lemma pools_between_mono: "pools_between lo ps hi \<Longrightarrow> lo' \<le> lo \<Longrightarrow> pools_between lo' ps hi"
  by (cases ps) auto

lemma tops_after_ge: "tops a \<le> tops_after tops rs a"
proof (induction rs arbitrary: tops)
  case (Cons r rs)
  obtain b k where r: "r = (b, k)" by (cases r)
  have "tops a \<le> (tops(b := round_up (tops b) 8 + k)) a"
    using round_up_ge [of "tops b" 8] by (cases "a = b") auto
  also have "\<dots> \<le> tops_after (tops(b := round_up (tops b) 8 + k)) rs a" by (rule Cons.IH)
  finally show ?case by (simp add: r del: fun_upd_apply)
qed simp

lemma count_no_wrap: "unat (n :: u32) < 4294967294 \<Longrightarrow> n < - 1 - 1"
  by (simp add: word_less_nat_alt)

lemma addMemPool_ok:
  assumes "allocators_ok als" "\<not> mm_denyAddMemPool M"
    and e: "8 \<le> unat (me_size e)" "8 dvd unat (me_size e)" "unat (me_size e) \<le> 4294967295 - 40"
      "1 \<le> unat (me_chunkCount e)" "unat (me_chunkCount e) < 4294967294"
    and "length (mm_memPoolVector M) < MAX_NUMBER_OF_MEMPOOLS"
    and "mm_memPoolVector M \<noteq> [] \<Longrightarrow> mp_chunkSize (last (mm_memPoolVector M)) < me_size e + 40"
    and "fits (ends_of als) (tops_of als) (entry_requests e)"
  obtains p als' where
    "MemoryManager_addMemPool (me_size e) (me_chunkCount e) M als =
       Inr (M\<lparr> mm_memPoolVector := mm_memPoolVector M @ [p],
              mm_totalNumberOfChunks := mm_totalNumberOfChunks M + me_chunkCount e \<rparr>, als')"
    "fresh_pool e p" "allocators_ok als'" "ends_of als' = ends_of als"
    "tops_of als' = tops_after (tops_of als) (entry_requests e)"
    "tops_of als ChunkMemoryAllocator \<le> unat (mp_rawMemory p)"
    "unat (mp_rawMemory p) + unat (mp_numberOfChunks p) * unat (mp_chunkSize p) \<le>
       tops_of als' ChunkMemoryAllocator"
proof -
  have s: "unat (me_size e + 40) = unat (me_size e) + 40" by (rule unat_size_header) (fact e)
  have c: "0 < me_chunkCount e" using e(4) by (simp add: word_less_nat_alt)
  have sz: "8 \<le> unat (me_size e + 40)" "8 dvd unat (me_size e + 40)"
    using e(1,2) s dvd_add [of 8 "unat (me_size e)" 40] by simp_all
  obtain p als' where p: "MemPool_ctor (me_size e + 40) (me_chunkCount e) ManagementAllocator
      ChunkMemoryAllocator als = Inr (p, als')"
    "mem_pool_inv p" "used_indices p = {}" "mp_chunkSize p = me_size e + 40"
    "mp_numberOfChunks p = me_chunkCount e" "mp_usedChunks p = 0" "mp_minFree p = me_chunkCount e"
    "allocators_ok als'" "ends_of als' = ends_of als"
    "tops_of als' = tops_after (tops_of als) (entry_requests e)"
    "unat (mp_rawMemory p) = round_up (tops_of als ChunkMemoryAllocator) 8"
    unfolding entry_requests_def
    by (rule MemPool_ctor_ok [OF assms(1) sz c count_no_wrap [OF e(5)] assms(10) [unfolded entry_requests_def]])
  have "MemoryManager_addMemPool (me_size e) (me_chunkCount e) M als =
       Inr (M\<lparr> mm_memPoolVector := mm_memPoolVector M @ [p],
              mm_totalNumberOfChunks := mm_totalNumberOfChunks M + me_chunkCount e \<rparr>, als')"
    using assms(2,8,9) e(1,4) p(1) sizeWithChunkHeaderStruct_ok [OF e(1,3)]
    by (auto simp: MemoryManager_addMemPool_def emplace_back_pool_def CHUNK_MEMORY_ALIGNMENT_def
        word_le_nat_alt word_less_nat_alt Let_def)
  moreover have "tops_of als' ChunkMemoryAllocator = unat (mp_rawMemory p) + unat (mp_numberOfChunks p) * unat (mp_chunkSize p)"
    using fun_cong [OF p(10), of ChunkMemoryAllocator] p(4,5,11) by (simp add: entry_requests_def pool_requests_def)
  ultimately show thesis
    using p round_up_ge [of "tops_of als ChunkMemoryAllocator" 8]
    by (intro that [of p als']) (auto simp: fresh_pool_def)
qed

lemma addMemPools_ok:
  assumes "allocators_ok als" "\<not> mm_denyAddMemPool M"
    and "\<forall>e\<in>set cfg. 8 \<le> unat (me_size e) \<and> 8 dvd unat (me_size e) \<and> unat (me_size e) \<le> 4294967295 - 40 \<and>
        1 \<le> unat (me_chunkCount e)"
    and "(\<Sum>e\<leftarrow>cfg. unat (me_chunkCount e)) < 4294967294"
    and "length (mm_memPoolVector M) + length cfg \<le> MAX_NUMBER_OF_MEMPOOLS"
    and "sorted_wrt (<) (map me_size cfg)"
    and "mm_memPoolVector M \<noteq> [] \<Longrightarrow> \<forall>e\<in>set cfg. mp_chunkSize (last (mm_memPoolVector M)) < me_size e + 40"
    and "fits (ends_of als) (tops_of als) (concat (map entry_requests cfg))"
  shows "\<exists>ps als'. addMemPools cfg M als =
       Inr (M\<lparr> mm_memPoolVector := mm_memPoolVector M @ ps,
              mm_totalNumberOfChunks := mm_totalNumberOfChunks M + (\<Sum>e\<leftarrow>cfg. me_chunkCount e) \<rparr>, als') \<and>
     list_all2 fresh_pool cfg ps \<and> allocators_ok als' \<and> ends_of als' = ends_of als \<and>
     tops_of als' = tops_after (tops_of als) (concat (map entry_requests cfg)) \<and>
     pools_between (tops_of als ChunkMemoryAllocator) ps (tops_of als' ChunkMemoryAllocator)"
  using assms
proof (induction cfg arbitrary: M als)
  case (Cons e cfg)
  from Cons.prems have e: "8 \<le> unat (me_size e)" "8 dvd unat (me_size e)" "unat (me_size e) \<le> 4294967295 - 40"
      "1 \<le> unat (me_chunkCount e)" "unat (me_chunkCount e) < 4294967294" by auto
  obtain p als1 where p: "MemoryManager_addMemPool (me_size e) (me_chunkCount e) M als =
       Inr (M\<lparr> mm_memPoolVector := mm_memPoolVector M @ [p],
              mm_totalNumberOfChunks := mm_totalNumberOfChunks M + me_chunkCount e \<rparr>, als1)"
    "fresh_pool e p" "allocators_ok als1" "ends_of als1 = ends_of als"
    "tops_of als1 = tops_after (tops_of als) (entry_requests e)"
    "tops_of als ChunkMemoryAllocator \<le> unat (mp_rawMemory p)"
    "unat (mp_rawMemory p) + unat (mp_numberOfChunks p) * unat (mp_chunkSize p) \<le>
       tops_of als1 ChunkMemoryAllocator"
    by (rule addMemPool_ok [OF Cons.prems(1,2) e]) (use Cons.prems in \<open>auto simp: fits_append\<close>)
  let ?M1 = "M\<lparr> mm_memPoolVector := mm_memPoolVector M @ [p],
              mm_totalNumberOfChunks := mm_totalNumberOfChunks M + me_chunkCount e \<rparr>"
  have lt: "me_size e + 40 < me_size e' + 40" if "e' \<in> set cfg" for e'
    using that Cons.prems(3,6) by (auto simp: word_less_nat_alt unat_size_header)
  have "\<exists>ps als'. addMemPools cfg ?M1 als1 =
       Inr (?M1\<lparr> mm_memPoolVector := mm_memPoolVector ?M1 @ ps,
              mm_totalNumberOfChunks := mm_totalNumberOfChunks ?M1 + (\<Sum>e\<leftarrow>cfg. me_chunkCount e) \<rparr>, als') \<and>
     list_all2 fresh_pool cfg ps \<and> allocators_ok als' \<and> ends_of als' = ends_of als1 \<and>
     tops_of als' = tops_after (tops_of als1) (concat (map entry_requests cfg)) \<and>
     pools_between (tops_of als1 ChunkMemoryAllocator) ps (tops_of als' ChunkMemoryAllocator)"
    by (rule Cons.IH [OF p(3)]) (use Cons.prems p lt in \<open>auto simp: fits_append fresh_pool_def\<close>)
  then obtain ps als' where IH: "addMemPools cfg ?M1 als1 =
       Inr (?M1\<lparr> mm_memPoolVector := mm_memPoolVector ?M1 @ ps,
              mm_totalNumberOfChunks := mm_totalNumberOfChunks ?M1 + (\<Sum>e\<leftarrow>cfg. me_chunkCount e) \<rparr>, als')"
     "list_all2 fresh_pool cfg ps" "allocators_ok als'" "ends_of als' = ends_of als1"
     "tops_of als' = tops_after (tops_of als1) (concat (map entry_requests cfg))"
     "pools_between (tops_of als1 ChunkMemoryAllocator) ps (tops_of als' ChunkMemoryAllocator)" by blast
  show ?case
    using IH p pools_between_mono [OF IH(6) p(7)]
    by (intro exI [of _ "p # ps"] exI [of _ als']) (auto simp: tops_after_append add.assoc)
qed (auto intro!: exI [of _ "[]"])

end
