(* ===== verification/Shared_Chunk.thy ===== *)
theory Shared_Chunk
  imports Memory_Manager
begin

section \<open>Shared chunks\<close>

text \<open>
  \<open>mepoo::SharedChunk\<close> (\<open>shared_chunk.hpp\<close>, \<open>shared_chunk.cpp\<close>), the reference-counted owner of a
  chunk, and \<open>mepoo::ShmSafeUnmanagedChunk\<close> (\<open>shm_safe_unmanaged_chunk.cpp\<close>), the same pointer
  without the counting, as it is stored in queues and lists in the shared memory.

  Both hold a pointer to a chunk management object, or null. The operations pass the shared
  memory explicitly; the returned pointer is the value of the object after the call. Passing a
  \<open>SharedChunk\<close> by value creates a copy and destroys it at the end of the call; an increment
  and a decrement that cancel in this way are left out. At this level a relative pointer is
  identified with the address it denotes.

  The accounting invariant \<open>shm_inv\<close> relates the shared memory to the multiset of all owners. The
  locale \<open>chunk_ownership\<close> is what the queues, lists and ports above rely on.
\<close>

definition incrementReferenceCounter :: "shared_chunk \<Rightarrow> shm \<Rightarrow> shm outcome" where
  "incrementReferenceCounter this S =
     (case this of None \<Rightarrow> Inr S
      | Some m \<Rightarrow>
          (case shm_managements S m of None \<Rightarrow> Inl NULLPTR_ACCESS
           | Some cm \<Rightarrow> Inr (S\<lparr> shm_managements := (shm_managements S)
               (m \<mapsto> cm\<lparr> cm_referenceCounter := cm_referenceCounter cm + 1 \<rparr>) \<rparr>)))"

text \<open>\<open>MemPool::freeChunk\<close> on the pool at a position of the vector.\<close>

definition freeChunk_of_mempool :: "nat \<Rightarrow> address \<Rightarrow> shm \<Rightarrow> shm outcome" where
  "freeChunk_of_mempool i a S =
     (let mm = shm_manager S; pools = mm_memPoolVector mm
      in if i < length pools
         then obind (MemPool_freeChunk a (pools ! i)) (\<lambda>p'.
                Inr (S\<lparr> shm_manager := mm\<lparr> mm_memPoolVector := pools[i := p'] \<rparr> \<rparr>))
         else Inl NULLPTR_ACCESS)"

definition freeChunk_of_managementPool :: "nat \<Rightarrow> address \<Rightarrow> shm \<Rightarrow> shm outcome" where
  "freeChunk_of_managementPool i a S =
     (let mm = shm_manager S; pools = mm_chunkManagementPool mm
      in if i < length pools
         then obind (MemPool_freeChunk a (pools ! i)) (\<lambda>p'.
                Inr (S\<lparr> shm_manager := mm\<lparr> mm_chunkManagementPool := pools[i := p'] \<rparr> \<rparr>))
         else Inl NULLPTR_ACCESS)"

definition SharedChunk_freeChunk :: "address \<Rightarrow> shm \<Rightarrow> (shared_chunk \<times> shm) outcome" where
  "SharedChunk_freeChunk m S =
     (case shm_managements S m of None \<Rightarrow> Inl NULLPTR_ACCESS
      | Some cm \<Rightarrow>
          obind (freeChunk_of_mempool (cm_mempool cm) (cm_chunkHeader cm) S) (\<lambda>S1.
          obind (freeChunk_of_managementPool (cm_chunkManagementPool cm) m S1) (\<lambda>S2.
          Inr (None, S2))))"

definition decrementReferenceCounter :: "shared_chunk \<Rightarrow> shm \<Rightarrow> (shared_chunk \<times> shm) outcome" where
  "decrementReferenceCounter this S =
     (case this of None \<Rightarrow> Inr (None, S)
      | Some m \<Rightarrow>
          (case shm_managements S m of None \<Rightarrow> Inl NULLPTR_ACCESS
           | Some cm \<Rightarrow>
               (let S1 = S\<lparr> shm_managements := (shm_managements S)
                      (m \<mapsto> cm\<lparr> cm_referenceCounter := cm_referenceCounter cm - 1 \<rparr>) \<rparr>
                in if cm_referenceCounter cm = 1 then SharedChunk_freeChunk m S1
                   else Inr (Some m, S1))))"

text \<open>The destructor.\<close>

definition SharedChunk_dtor :: "shared_chunk \<Rightarrow> shm \<Rightarrow> shm outcome" where
  "SharedChunk_dtor this S = obind (decrementReferenceCounter this S) (\<lambda>(_, S'). Inr S')"

text \<open>Copy construction and copy assignment (of a different object).\<close>

definition SharedChunk_assign :: "shared_chunk \<Rightarrow> shared_chunk \<Rightarrow> shm \<Rightarrow> (shared_chunk \<times> shm) outcome" where
  "SharedChunk_assign this rhs S =
     obind (decrementReferenceCounter this S) (\<lambda>(_, S1).
     obind (incrementReferenceCounter rhs S1) (\<lambda>S2. Inr (rhs, S2)))"

definition SharedChunk_copy :: "shared_chunk \<Rightarrow> shm \<Rightarrow> (shared_chunk \<times> shm) outcome" where
  "SharedChunk_copy rhs S = SharedChunk_assign None rhs S"

text \<open>Move assignment: the second pointer is the moved-from object.\<close>

definition SharedChunk_move_assign ::
  "shared_chunk \<Rightarrow> shared_chunk \<Rightarrow> shm \<Rightarrow> (shared_chunk \<times> shared_chunk \<times> shm) outcome" where
  "SharedChunk_move_assign this rhs S =
     obind (decrementReferenceCounter this S) (\<lambda>(_, S1). Inr (rhs, None, S1))"

definition SharedChunk_getChunkHeader :: "shared_chunk \<Rightarrow> shm \<Rightarrow> address pointer" where
  "SharedChunk_getChunkHeader this S =
     (case this of None \<Rightarrow> None | Some m \<Rightarrow> map_option cm_chunkHeader (shm_managements S m))"

definition SharedChunk_getUserPayload :: "shared_chunk \<Rightarrow> shm \<Rightarrow> address pointer" where
  "SharedChunk_getUserPayload this S =
     (case SharedChunk_getChunkHeader this S of None \<Rightarrow> None
      | Some a \<Rightarrow> map_option (userPayload a) (shm_headers S a))"

text \<open>
  \<open>ShmSafeUnmanagedChunk\<close>: construction and release move the ownership, cloning adds an owner. The object is the pointer to the chunk management;
  the theory of relative pointers has its packed form, in which it is stored in shared memory, and shows that it is read back as this pointer in every application.
\<close>

type_synonym shm_safe_unmanaged_chunk = "address pointer"

definition ShmSafeUnmanagedChunk_ctor :: "shared_chunk \<Rightarrow> shm_safe_unmanaged_chunk" where
  "ShmSafeUnmanagedChunk_ctor chunk = chunk"

definition releaseToSharedChunk :: "shm_safe_unmanaged_chunk \<Rightarrow> shared_chunk \<times> shm_safe_unmanaged_chunk" where
  "releaseToSharedChunk this = (this, None)"

definition cloneToSharedChunk :: "shm_safe_unmanaged_chunk \<Rightarrow> shm \<Rightarrow> (shared_chunk \<times> shm) outcome" where
  "cloneToSharedChunk this S = obind (incrementReferenceCounter this S) (\<lambda>S'. Inr (this, S'))"

definition unmanaged_getChunkHeader :: "shm_safe_unmanaged_chunk \<Rightarrow> shm \<Rightarrow> address pointer" where
  "unmanaged_getChunkHeader this S =
     (case this of None \<Rightarrow> None | Some m \<Rightarrow> map_option cm_chunkHeader (shm_managements S m))"

definition isNotLogicalNullptrAndHasNoOtherOwners :: "shm_safe_unmanaged_chunk \<Rightarrow> shm \<Rightarrow> bool" where
  "isNotLogicalNullptrAndHasNoOtherOwners this S \<longleftrightarrow>
     (case this of None \<Rightarrow> False
      | Some m \<Rightarrow> (case shm_managements S m of None \<Rightarrow> False | Some cm \<Rightarrow> cm_referenceCounter cm = 1))"

subsection \<open>The accounting invariant\<close>

text \<open>The chunks in use, as pairs of pool position and address.\<close>

definition used_pairs :: "mem_pool list \<Rightarrow> (nat \<times> address) set" where
  "used_pairs ps = Sigma {..<length ps} (\<lambda>i. used_chunks (ps ! i))"

text \<open>The pool and the chunk of a chunk management object.\<close>

definition chunk_of :: "(address \<rightharpoonup> chunk_management) \<Rightarrow> address \<Rightarrow> nat \<times> address" where
  "chunk_of cms m = (case cms m of None \<Rightarrow> (0, 0) | Some cm \<Rightarrow> (cm_mempool cm, cm_chunkHeader cm))"

definition pools_ok :: "mem_pool list \<Rightarrow> bool" where
  "pools_ok ps \<longleftrightarrow> (\<forall>p\<in>set ps. pool_ok p) \<and> sorted_wrt (<) (map mp_chunkSize ps) \<and>
     (\<forall>i<length ps. \<forall>j<length ps. i \<noteq> j \<longrightarrow>
        layout_slots (pool_layout (ps ! i)) \<inter> layout_slots (pool_layout (ps ! j)) = {}) \<and>
     (\<forall>p\<in>set ps. \<forall>a\<in>layout_slots (pool_layout p). chunk_address_ok a)"

text \<open>
  The invariant, for the multiset \<open>Os\<close> of all owners (each \<open>SharedChunk\<close> and each
  \<open>ShmSafeUnmanagedChunk\<close> that holds a pointer counts once): the chunk management objects in use
  are the owned ones, their reference counter is the number of owners, and they correspond one
  to one to the chunks in use.
\<close>

definition management_ok :: "shm \<Rightarrow> mem_pool list \<Rightarrow> address multiset \<Rightarrow> address \<Rightarrow> bool" where
  "management_ok S ps Os m \<longleftrightarrow>
     (\<exists>cm h. shm_managements S m = Some cm \<and> unat (cm_referenceCounter cm) = count Os m \<and>
        cm_mempool cm < length ps \<and> cm_chunkManagementPool cm = 0 \<and>
        shm_headers S (cm_chunkHeader cm) = Some h \<and> ch_chunkSize h = mp_chunkSize (ps ! cm_mempool cm))"

definition shm_inv :: "shm \<Rightarrow> address multiset \<Rightarrow> bool" where
  "shm_inv S Os \<longleftrightarrow>
     (\<exists>M ps. mm_chunkManagementPool (shm_manager S) = [M] \<and> mm_memPoolVector (shm_manager S) = ps \<and>
        pool_ok M \<and> pools_ok ps \<and>
        (\<Sum>p\<leftarrow>ps. unat (mp_numberOfChunks p)) = unat (mp_numberOfChunks M) \<and>
        set_mset Os = used_chunks M \<and>
        (\<forall>m\<in>used_chunks M. management_ok S ps Os m) \<and>
        bij_betw (chunk_of (shm_managements S)) (used_chunks M) (used_pairs ps))"

lemma shm_invD:
  assumes "shm_inv S Os"
  obtains M where "mm_chunkManagementPool (shm_manager S) = [M]" "pool_ok M"
    "pools_ok (mm_memPoolVector (shm_manager S))"
    "(\<Sum>p\<leftarrow>mm_memPoolVector (shm_manager S). unat (mp_numberOfChunks p)) = unat (mp_numberOfChunks M)"
    "set_mset Os = used_chunks M"
    "\<forall>m. m \<in># Os \<longrightarrow> management_ok S (mm_memPoolVector (shm_manager S)) Os m"
    "bij_betw (chunk_of (shm_managements S)) (used_chunks M) (used_pairs (mm_memPoolVector (shm_manager S)))"
  using assms by (auto simp: shm_inv_def)

subsection \<open>Updating one pool of the vector\<close>

lemma pools_ok_update:
  assumes "pools_ok ps" "i < length ps" "pool_ok p" "pool_layout p = pool_layout (ps ! i)"
  shows "pools_ok (ps[i := p])"
proof -
  have sz: "map mp_chunkSize (ps[i := p]) = map mp_chunkSize ps"
    using assms(2,4) by (auto simp: list_eq_iff_nth_eq nth_list_update pool_layout_def)
  have lay: "pool_layout (ps[i := p] ! j) = pool_layout (ps ! j)" if "j < length ps" for j
    using that assms(2,4) by (auto simp: nth_list_update)
  have "q \<in> set (ps[i := p]) \<Longrightarrow> \<exists>q'\<in>set ps. pool_layout q = pool_layout q'" for q
    using assms(2,4) set_update_subset_insert [of ps i p] nth_mem [of i ps] by (metis insertE subsetD)
  moreover have "\<forall>q\<in>set (ps[i := p]). pool_ok q"
    using assms(1,3) set_update_subset_insert [of ps i p] by (auto simp: pools_ok_def)
  ultimately show ?thesis using assms(1) lay unfolding pools_ok_def sz by fastforce
qed

lemma sum_chunks_update:
  assumes "i < length ps" "pool_layout p = pool_layout (ps ! i)"
  shows "(\<Sum>q\<leftarrow>ps[i := p]. unat (mp_numberOfChunks q)) = (\<Sum>q\<leftarrow>ps. unat (mp_numberOfChunks q))"
proof -
  have "map mp_numberOfChunks (ps[i := p]) = map mp_numberOfChunks ps"
    using assms by (auto simp: list_eq_iff_nth_eq nth_list_update pool_layout_def)
  then have "map (\<lambda>q. unat (mp_numberOfChunks q)) (ps[i := p]) = map (\<lambda>q. unat (mp_numberOfChunks q)) ps"
    unfolding map_map [symmetric, of unat mp_numberOfChunks, unfolded comp_def] by simp
  then show ?thesis by simp
qed

lemma management_ok_pools:
  assumes "management_ok S ps Os m" "i < length ps" "pool_layout p = pool_layout (ps ! i)"
  shows "management_ok S (ps[i := p]) Os m"
proof -
  have "mp_chunkSize (ps[i := p] ! j) = mp_chunkSize (ps ! j)" if "j < length ps" for j
    using that assms(2,3) by (auto simp: nth_list_update pool_layout_def)
  then show ?thesis using assms(1) by (auto simp: management_ok_def)
qed

lemma used_pairs_mem: "(j, b) \<in> used_pairs ps \<longleftrightarrow> j < length ps \<and> b \<in> used_chunks (ps ! j)"
  by (simp add: used_pairs_def)

lemma used_pairs_insert:
  assumes "i < length ps" "used_chunks p = insert a (used_chunks (ps ! i))"
  shows "used_pairs (ps[i := p]) = insert (i, a) (used_pairs ps)"
proof -
  have "(j, b) \<in> used_pairs (ps[i := p]) \<longleftrightarrow> (j, b) \<in> insert (i, a) (used_pairs ps)" for j b
    using assms by (cases "j = i") (auto simp: used_pairs_mem)
  then show ?thesis by auto
qed

lemma used_pairs_remove:
  assumes "i < length ps" "used_chunks p = used_chunks (ps ! i) - {a}"
  shows "used_pairs (ps[i := p]) = used_pairs ps - {(i, a)}"
proof -
  have "(j, b) \<in> used_pairs (ps[i := p]) \<longleftrightarrow> (j, b) \<in> used_pairs ps - {(i, a)}" for j b
    using assms by (cases "j = i") (auto simp: used_pairs_mem)
  then show ?thesis by auto
qed

lemma pool_ok_nth: "pools_ok ps \<Longrightarrow> i < length ps \<Longrightarrow> pool_ok (ps ! i)"
  by (simp add: pools_ok_def)

lemma card_slots: "pool_ok p \<Longrightarrow> card (layout_slots (pool_layout p)) = unat (mp_numberOfChunks p)"
proof -
  assume "pool_ok p"
  then have "card (layout_slots (pool_layout p)) = card {i. i < mp_numberOfChunks p}"
    unfolding layout_slots_pool by (intro card_image chunk_at_inj_on) (simp add: pool_ok_def)
  also have "\<dots> = unat (mp_numberOfChunks p)" by (rule card_below_u32)
  finally show ?thesis .
qed

lemma card_used_pairs:
  assumes "pools_ok ps"
  shows "card (used_pairs ps) = (\<Sum>i<length ps. card (used_chunks (ps ! i)))"
proof -
  have "finite (used_chunks (ps ! i))" if "i < length ps" for i
    using pool_ok_nth [OF assms that] mem_pool.used_slots mem_pool.slots_finite by (metis finite_subset)
  then show ?thesis unfolding used_pairs_def by (subst card_SigmaI) auto
qed

text \<open>If one pool has a free chunk, the management pool, which has as many chunks, has one, too.\<close>

lemma management_pool_not_full:
  assumes "pools_ok ps" "pool_ok M" "i < length ps"
    and "used_chunks (ps ! i) \<noteq> layout_slots (pool_layout (ps ! i))"
    and "(\<Sum>p\<leftarrow>ps. unat (mp_numberOfChunks p)) = unat (mp_numberOfChunks M)"
    and "card (used_chunks M) = card (used_pairs ps)"
  shows "used_chunks M \<noteq> layout_slots (pool_layout M)"
proof
  assume full: "used_chunks M = layout_slots (pool_layout M)"
  have le: "card (used_chunks (ps ! j)) \<le> unat (mp_numberOfChunks (ps ! j))" if "j < length ps" for j
    using pool_ok_nth [OF assms(1) that] mem_pool.used_card card_slots by metis
  have "card (used_chunks (ps ! i)) < card (layout_slots (pool_layout (ps ! i)))"
    using pool_ok_nth [OF assms(1,3)] assms(4) mem_pool.used_slots mem_pool.slots_finite
    by (intro psubset_card_mono) auto
  then have "card (used_chunks (ps ! i)) < unat (mp_numberOfChunks (ps ! i))"
    using pool_ok_nth [OF assms(1,3)] card_slots by simp
  then have "(\<Sum>j<length ps. card (used_chunks (ps ! j))) < (\<Sum>j<length ps. unat (mp_numberOfChunks (ps ! j)))"
    using le assms(3) by (intro sum_strict_mono_ex1) auto
  also have "\<dots> = (\<Sum>p\<leftarrow>ps. unat (mp_numberOfChunks p))"
    by (simp add: sum_list_sum_nth atLeast0LessThan)
  finally show False
    using card_slots [OF assms(2)] full assms(5,6) card_used_pairs [OF assms(1)] by simp
qed

subsection \<open>Counting\<close>

lemma management_ok_other:
  assumes "management_ok S ps Os m" "shm_managements S' m = shm_managements S m"
    and "\<And>a. shm_headers S a \<noteq> None \<Longrightarrow> shm_headers S' a = shm_headers S a" "count Os' m = count Os m"
  shows "management_ok S' ps Os' m"
proof -
  from assms(1) obtain cm h where "shm_managements S m = Some cm" "unat (cm_referenceCounter cm) = count Os m"
    "cm_mempool cm < length ps" "cm_chunkManagementPool cm = 0" "shm_headers S (cm_chunkHeader cm) = Some h"
    "ch_chunkSize h = mp_chunkSize (ps ! cm_mempool cm)" by (auto simp: management_ok_def)
  with assms show ?thesis by (auto simp: management_ok_def)
qed

text \<open>Writing the reference counter of one object.\<close>

definition set_counter :: "address \<Rightarrow> chunk_management \<Rightarrow> u64 \<Rightarrow> shm \<Rightarrow> shm" where
  "set_counter m cm c S = S\<lparr> shm_managements := (shm_managements S)(m \<mapsto> cm\<lparr> cm_referenceCounter := c \<rparr>) \<rparr>"

lemma set_counter_simps [simp]:
  "shm_manager (set_counter m cm c S) = shm_manager S"
  "shm_headers (set_counter m cm c S) = shm_headers S"
  "shm_offsets (set_counter m cm c S) = shm_offsets S"
  "shm_managements (set_counter m cm c S) = (shm_managements S)(m \<mapsto> cm\<lparr> cm_referenceCounter := c \<rparr>)"
  by (simp_all add: set_counter_def)

lemma chunk_of_set_counter:
  "shm_managements S m = Some cm \<Longrightarrow> chunk_of (shm_managements (set_counter m cm c S)) = chunk_of (shm_managements S)"
  by (auto simp: chunk_of_def fun_eq_iff)

lemma shm_inv_set_counter:
  assumes "shm_inv S Os" "shm_managements S m = Some cm" "m \<in># Os"
    and "unat c = count Os' m" "set_mset Os' = set_mset Os" "\<And>x. x \<noteq> m \<Longrightarrow> count Os' x = count Os x"
  shows "shm_inv (set_counter m cm c S) Os'"
proof -
  obtain M where M: "mm_chunkManagementPool (shm_manager S) = [M]" "pool_ok M"
    "pools_ok (mm_memPoolVector (shm_manager S))"
    "(\<Sum>p\<leftarrow>mm_memPoolVector (shm_manager S). unat (mp_numberOfChunks p)) = unat (mp_numberOfChunks M)"
    "set_mset Os = used_chunks M"
    "\<forall>m. m \<in># Os \<longrightarrow> management_ok S (mm_memPoolVector (shm_manager S)) Os m"
    "bij_betw (chunk_of (shm_managements S)) (used_chunks M) (used_pairs (mm_memPoolVector (shm_manager S)))"
    by (rule shm_invD [OF assms(1)])
  have "management_ok (set_counter m cm c S) (mm_memPoolVector (shm_manager S)) Os' x" if "x \<in># Os" for x
  proof -
    have ok: "management_ok S (mm_memPoolVector (shm_manager S)) Os x" using M(6) that by blast
    show ?thesis
    proof (cases "x = m")
      case True
      then show ?thesis using ok assms(2,4) by (auto simp: management_ok_def)
    next
      case False
      then show ?thesis using assms(6) by (intro management_ok_other [OF ok]) auto
    qed
  qed
  then show ?thesis
    using M assms(5) chunk_of_set_counter [OF assms(2)] by (simp add: shm_inv_def)
qed

lemma shm_inv_management:
  assumes "shm_inv S Os" "m \<in># Os"
  obtains cm h where "shm_managements S m = Some cm" "unat (cm_referenceCounter cm) = count Os m"
    "cm_mempool cm < length (mm_memPoolVector (shm_manager S))" "cm_chunkManagementPool cm = 0"
    "shm_headers S (cm_chunkHeader cm) = Some h"
    "ch_chunkSize h = mp_chunkSize (mm_memPoolVector (shm_manager S) ! cm_mempool cm)"
proof -
  have "management_ok S (mm_memPoolVector (shm_manager S)) Os m" using assms by (auto simp: shm_inv_def)
  then show thesis using that unfolding management_ok_def by blast
qed

lemma increment_ok:
  assumes "shm_inv S Os" "m \<in># Os" "count Os m < 2 ^ 64 - 1"
  obtains S' where "incrementReferenceCounter (Some m) S = Inr S'" "shm_inv S' (add_mset m Os)"
    "shm_headers S' = shm_headers S" "shm_manager S' = shm_manager S"
    "chunk_of (shm_managements S') = chunk_of (shm_managements S)"
proof -
  obtain cm where cm: "shm_managements S m = Some cm" "unat (cm_referenceCounter cm) = count Os m"
    by (rule shm_inv_management [OF assms(1,2)])
  let ?S = "set_counter m cm (cm_referenceCounter cm + 1) S"
  have "incrementReferenceCounter (Some m) S = Inr ?S"
    using cm by (simp add: incrementReferenceCounter_def set_counter_def)
  moreover have "unat (cm_referenceCounter cm + 1) = count Os m + 1"
    using cm(2) assms(3) by (subst unat_add_no_wrap) auto
  then have "shm_inv ?S (add_mset m Os)"
    using assms cm by (intro shm_inv_set_counter) auto
  ultimately show thesis using chunk_of_set_counter [OF cm(1)] by (intro that [of ?S]) auto
qed

subsection \<open>Releasing\<close>

lemma bij_betw_remove:
  assumes "bij_betw f A B" "x \<in> A" "\<And>y. y \<in> A - {x} \<Longrightarrow> g y = f y"
  shows "bij_betw g (A - {x}) (B - {f x})"
proof -
  have "bij_betw f (A - {x}) (B - {f x})"
    using assms(1,2) unfolding bij_betw_def by (auto simp: inj_on_def)
  then show ?thesis using assms(3) bij_betw_cong [of "A - {x}" g f] by blast
qed

text \<open>The last owner gives the chunk back to its pool, and the object to the management pool.\<close>

lemma freeChunk_ok:
  assumes "shm_inv S (add_mset m Os)" "m \<notin># Os" "shm_managements S m = Some cm"
    and "S1 = set_counter m cm c S"
  obtains S' where "SharedChunk_freeChunk m S1 = Inr (None, S')" "shm_inv S' Os"
    "shm_headers S' = shm_headers S" "\<And>x. x \<noteq> m \<Longrightarrow> shm_managements S' x = shm_managements S x"
proof -
  let ?ps = "mm_memPoolVector (shm_manager S)"
  obtain M where M: "mm_chunkManagementPool (shm_manager S) = [M]" "pool_ok M" "pools_ok ?ps"
    "(\<Sum>p\<leftarrow>?ps. unat (mp_numberOfChunks p)) = unat (mp_numberOfChunks M)"
    "set_mset (add_mset m Os) = used_chunks M"
    "\<forall>x. x \<in># add_mset m Os \<longrightarrow> management_ok S ?ps (add_mset m Os) x"
    "bij_betw (chunk_of (shm_managements S)) (used_chunks M) (used_pairs ?ps)"
    by (rule shm_invD [OF assms(1)])
  let ?i = "cm_mempool cm" and ?a = "cm_chunkHeader cm"
  have mM: "m \<in> used_chunks M" using M(5) by auto
  have ch: "chunk_of (shm_managements S) m = (?i, ?a)" using assms(3) by (simp add: chunk_of_def)
  then have "(?i, ?a) \<in> used_pairs ?ps" using M(7) mM by (metis bij_betw_apply)
  then have i: "?i < length ?ps" and a: "?a \<in> used_chunks (?ps ! ?i)" by (simp_all add: used_pairs_mem)
  obtain p' where p': "MemPool_freeChunk ?a (?ps ! ?i) = Inr p'" "pool_ok p'"
    "used_chunks p' = used_chunks (?ps ! ?i) - {?a}" "pool_layout p' = pool_layout (?ps ! ?i)"
    using mem_pool.free_used [OF pool_ok_nth [OF M(3) i] a] by blast
  obtain M' where M': "MemPool_freeChunk m M = Inr M'" "pool_ok M'" "used_chunks M' = used_chunks M - {m}"
    "pool_layout M' = pool_layout M"
    using mem_pool.free_used [OF M(2) mM] by blast
  have z: "cm_chunkManagementPool cm = 0"
    using M(6) assms(3) by (auto simp: management_ok_def)
  define S' where "S' = S1\<lparr> shm_manager := (shm_manager S)\<lparr> mm_memPoolVector := ?ps[?i := p'],
    mm_chunkManagementPool := [M'] \<rparr> \<rparr>"
  have f: "SharedChunk_freeChunk m S1 = Inr (None, S')"
    using i z M(1) p'(1) M'(1)
    by (simp add: SharedChunk_freeChunk_def freeChunk_of_mempool_def freeChunk_of_managementPool_def
        assms(4) S'_def Let_def)
  have cms: "shm_managements S' x = shm_managements S x" if "x \<noteq> m" for x
    using that by (simp add: S'_def assms(4))
  have hd: "shm_headers S' = shm_headers S" by (simp add: S'_def assms(4))
  have set: "set_mset Os = used_chunks M'" using M(5) M'(3) assms(2) by auto
  have "management_ok S' (?ps[?i := p']) Os x" if "x \<in> used_chunks M'" for x
  proof -
    have x: "x \<in># add_mset m Os" "x \<noteq> m" using that set assms(2) by auto
    then have "management_ok S (?ps[?i := p']) (add_mset m Os) x"
      using M(6) management_ok_pools [OF _ i p'(4)] by blast
    then show ?thesis by (rule management_ok_other) (use cms hd x in auto)
  qed
  moreover have "bij_betw (chunk_of (shm_managements S')) (used_chunks M') (used_pairs (?ps[?i := p']))"
    unfolding M'(3) used_pairs_remove [OF i p'(3)] ch [symmetric]
    by (rule bij_betw_remove [OF M(7) mM]) (simp add: chunk_of_def cms)
  moreover have "unat (mp_numberOfChunks M') = unat (mp_numberOfChunks M)"
    using M'(4) by (simp add: pool_layout_def)
  ultimately have "shm_inv S' Os"
    unfolding shm_inv_def
    using M(4) M'(2) set pools_ok_update [OF M(3) i p'(2,4)] sum_chunks_update [OF i p'(4)]
    by (intro exI [of _ M'] exI [of _ "?ps[?i := p']"]) (simp add: S'_def)
  then show thesis by (rule that [OF f]) (use hd cms in auto)
qed

text \<open>
  Removing one owner: the chunk stays alive as long as there are others, and is freed with the
  last one. In both cases nothing else changes.
\<close>

lemma decrement_ok:
  assumes "shm_inv S (add_mset m Os)"
  obtains r S' where "decrementReferenceCounter (Some m) S = Inr (r, S')" "shm_inv S' Os"
    "r = (if m \<in># Os then Some m else None)"
    "shm_headers S' = shm_headers S"
    "\<forall>x. x \<in># Os \<longrightarrow> chunk_of (shm_managements S') x = chunk_of (shm_managements S) x"
proof -
  obtain cm where cm: "shm_managements S m = Some cm" "unat (cm_referenceCounter cm) = count (add_mset m Os) m"
    by (rule shm_inv_management [OF assms, of m]) auto
  let ?S = "set_counter m cm (cm_referenceCounter cm - 1) S"
  have d: "decrementReferenceCounter (Some m) S =
      (if cm_referenceCounter cm = 1 then SharedChunk_freeChunk m ?S else Inr (Some m, ?S))"
    using cm by (simp add: decrementReferenceCounter_def set_counter_def Let_def)
  have one: "cm_referenceCounter cm = 1 \<longleftrightarrow> m \<notin># Os"
  proof -
    have "cm_referenceCounter cm = 1 \<longleftrightarrow> unat (cm_referenceCounter cm) = 1"
      by (simp add: word_unat_eq_iff)
    then show ?thesis using cm(2) by (simp add: not_in_iff)
  qed
  show thesis
  proof (cases "m \<in># Os")
    case True
    have "unat (cm_referenceCounter cm - 1) = count Os m"
      using cm(2) by (subst unat_sub_no_wrap) auto
    then have "shm_inv ?S Os"
      using assms cm True by (intro shm_inv_set_counter [of S "add_mset m Os"]) auto
    then show thesis
      using d one True chunk_of_set_counter [OF cm(1)] by (intro that [of "Some m" ?S]) auto
  next
    case False
    obtain S' where S': "SharedChunk_freeChunk m ?S = Inr (None, S')" "shm_inv S' Os"
      "shm_headers S' = shm_headers S" "\<And>x. x \<noteq> m \<Longrightarrow> shm_managements S' x = shm_managements S x"
      by (rule freeChunk_ok [OF assms False cm(1) refl]) blast
    have "x \<in># Os \<Longrightarrow> x \<noteq> m" for x using False by auto
    then show thesis using d one False S' by (intro that [of None S']) (auto simp: chunk_of_def)
  qed
qed

subsection \<open>Allocating\<close>

lemma first_fitting_None:
  "first_fitting r k ps = None \<longleftrightarrow> (\<forall>p\<in>set ps. mp_chunkSize p < r)"
  by (induction ps arbitrary: k) (auto simp: not_le)

lemma first_fitting_Some:
  "first_fitting r k ps = Some j \<Longrightarrow> k \<le> j \<and> j - k < length ps \<and> r \<le> mp_chunkSize (ps ! (j - k)) \<and>
     (\<forall>l<j - k. mp_chunkSize (ps ! l) < r)"
proof (induction ps arbitrary: k)
  case (Cons p ps)
  show ?case
  proof (cases "r \<le> mp_chunkSize p")
    case False
    then have "first_fitting r (k + 1) ps = Some j" using Cons.prems by simp
    from Cons.IH [OF this] show ?thesis
      using False by (auto simp: nth_Cons' not_le Suc_le_eq)
  qed (use Cons.prems in auto)
qed simp

text \<open>Adding one owner for a new object and a new chunk.\<close>

lemma shm_inv_new_chunk:
  fixes S :: shm
  defines "ps \<equiv> mm_memPoolVector (shm_manager S)"
  assumes inv: "shm_inv S Os" and i: "i < length ps"
    and M: "mm_chunkManagementPool (shm_manager S) = [M]"
    and p: "a \<in> layout_slots (pool_layout (ps ! i))" "a \<notin> used_chunks (ps ! i)" "pool_ok p'"
      "used_chunks p' = insert a (used_chunks (ps ! i))" "pool_layout p' = pool_layout (ps ! i)"
    and m: "m \<notin> used_chunks M" "pool_ok M'" "used_chunks M' = insert m (used_chunks M)"
      "pool_layout M' = pool_layout M"
    and h: "ch_chunkSize h = mp_chunkSize (ps ! i)"
    and S': "S' = S\<lparr> shm_manager := (shm_manager S)\<lparr> mm_memPoolVector := ps[i := p'],
        mm_chunkManagementPool := [M'] \<rparr>,
      shm_headers := (shm_headers S)(a \<mapsto> h), shm_offsets := offs,
      shm_managements := (shm_managements S)(m \<mapsto> ChunkManagement_ctor a i 0) \<rparr>"
  shows "m \<notin># Os" "shm_inv S' (add_mset m Os)"
    "\<forall>x. x \<in># Os \<longrightarrow> chunk_of (shm_managements S') x = chunk_of (shm_managements S) x \<and>
       snd (chunk_of (shm_managements S) x) \<noteq> a"
proof -
  have I: "pool_ok M" "pools_ok ps" "(\<Sum>p\<leftarrow>ps. unat (mp_numberOfChunks p)) = unat (mp_numberOfChunks M)"
    "set_mset Os = used_chunks M" "bij_betw (chunk_of (shm_managements S)) (used_chunks M) (used_pairs ps)"
    and mo: "\<And>x. x \<in># Os \<Longrightarrow> management_ok S ps Os x"
    using inv M unfolding shm_inv_def ps_def by auto
  show mOs: "m \<notin># Os" using I(4) m(1) by auto
  have other: "snd (chunk_of (shm_managements S) x) \<noteq> a" if "x \<in># Os" for x
  proof
    assume e: "snd (chunk_of (shm_managements S) x) = a"
    obtain j where j: "chunk_of (shm_managements S) x = (j, a)" using e by (metis prod.collapse)
    have "(j, a) \<in> used_pairs ps" using bij_betw_apply [OF I(5)] that I(4) j by metis
    then have u: "j < length ps" "a \<in> used_chunks (ps ! j)" by (simp_all add: used_pairs_mem)
    then have "a \<in> layout_slots (pool_layout (ps ! j))"
      using mem_pool.used_slots [OF pool_ok_nth [OF I(2)]] by blast
    then have "j = i" using I(2) i u(1) p(1) unfolding pools_ok_def by blast
    with u(2) p(2) show False by simp
  qed
  have ch: "chunk_of (shm_managements S') x = chunk_of (shm_managements S) x" if "x \<in># Os" for x
    using that mOs by (auto simp: S' chunk_of_def)
  then show "\<forall>x. x \<in># Os \<longrightarrow> chunk_of (shm_managements S') x = chunk_of (shm_managements S) x \<and>
       snd (chunk_of (shm_managements S) x) \<noteq> a" using other by simp
  have chm: "chunk_of (shm_managements S') m = (i, a)"
    by (simp add: S' chunk_of_def ChunkManagement_ctor_def)
  have "management_ok S' (ps[i := p']) (add_mset m Os) x" if "x \<in> used_chunks M'" for x
  proof (cases "x = m")
    case True
    have "count Os m = 0" using mOs by (simp add: not_in_iff)
    moreover have "mp_chunkSize p' = mp_chunkSize (ps ! i)" using p(5) by (simp add: pool_layout_def)
    ultimately show ?thesis using True i h by (simp add: management_ok_def S' ChunkManagement_ctor_def)
  next
    case False
    then have x: "x \<in># Os" using that m(3) I(4) by auto
    then obtain cm hh where cm: "shm_managements S x = Some cm" "unat (cm_referenceCounter cm) = count Os x"
      "cm_mempool cm < length ps" "cm_chunkManagementPool cm = 0" "shm_headers S (cm_chunkHeader cm) = Some hh"
      "ch_chunkSize hh = mp_chunkSize (ps ! cm_mempool cm)" using mo unfolding management_ok_def by blast
    moreover have "cm_chunkHeader cm \<noteq> a" using other [OF x] cm(1) by (simp add: chunk_of_def)
    moreover have "mp_chunkSize (ps[i := p'] ! cm_mempool cm) = mp_chunkSize (ps ! cm_mempool cm)"
      using cm(3) p(5) by (cases "cm_mempool cm = i") (auto simp: pool_layout_def)
    ultimately show ?thesis using False by (auto simp: management_ok_def S')
  qed
  moreover have "bij_betw (chunk_of (shm_managements S')) (used_chunks M') (used_pairs (ps[i := p']))"
  proof -
    have "bij_betw (chunk_of (shm_managements S')) (used_chunks M) (used_pairs ps)"
      using I(4,5) ch bij_betw_cong [of "used_chunks M"] by metis
    moreover have "(i, a) \<notin> used_pairs ps" using p(2) by (simp add: used_pairs_mem)
    ultimately show ?thesis
      using notIn_Un_bij_betw [of m "used_chunks M" "chunk_of (shm_managements S')" "used_pairs ps"] m(1) chm
      by (simp add: m(3) used_pairs_insert [OF i p(4)])
  qed
  moreover have "unat (mp_numberOfChunks M') = unat (mp_numberOfChunks M)"
    using m(4) by (simp add: pool_layout_def)
  ultimately show "shm_inv S' (add_mset m Os)"
    unfolding shm_inv_def
    using I(3,4) m(2,3) pools_ok_update [OF I(2) i p(3,5)] sum_chunks_update [OF i p(5)]
    by (intro exI [of _ M'] exI [of _ "ps[i := p']"]) (simp add: S')
qed

lemma getChunk_ok:
  fixes S :: shm
  defines "ps \<equiv> mm_memPoolVector (shm_manager S)"
  assumes inv: "shm_inv S Os" and cs: "chunk_settings_valid cs"
    and ff: "first_fitting (cs_requiredChunkSize cs) 0 ps = Some i"
    and free: "used_chunks (ps ! i) \<noteq> layout_slots (pool_layout (ps ! i))"
  obtains m a h S' where "MemoryManager_getChunk cs S = Inr (Inr (Some m), S')"
    "m \<notin># Os" "shm_inv S' (add_mset m Os)" "chunk_of (shm_managements S') m = (i, a)"
    "shm_headers S' = (shm_headers S)(a \<mapsto> h)"
    "ChunkHeader_new a (mp_chunkSize (ps ! i)) cs (shm_offsets S) = Inr (h, shm_offsets S')"
    "\<forall>x. x \<in># Os \<longrightarrow> chunk_of (shm_managements S') x = chunk_of (shm_managements S) x \<and>
       snd (chunk_of (shm_managements S) x) \<noteq> a"
proof -
  obtain M where M: "mm_chunkManagementPool (shm_manager S) = [M]" "pool_ok M" "pools_ok ps"
    "(\<Sum>p\<leftarrow>ps. unat (mp_numberOfChunks p)) = unat (mp_numberOfChunks M)"
    "bij_betw (chunk_of (shm_managements S)) (used_chunks M) (used_pairs ps)"
    unfolding ps_def by (rule shm_invD [OF inv])
  from first_fitting_Some [OF ff] have i: "i < length ps" and fit: "cs_requiredChunkSize cs \<le> mp_chunkSize (ps ! i)"
    by simp_all
  obtain a p' where p: "MemPool_getChunk (ps ! i) = (Some a, p')" "pool_ok p'"
    "a \<in> layout_slots (pool_layout (ps ! i))" "a \<notin> used_chunks (ps ! i)"
    "used_chunks p' = insert a (used_chunks (ps ! i))" "pool_layout p' = pool_layout (ps ! i)"
    using mem_pool.get_free_slot [OF pool_ok_nth [OF M(3) i] free] by blast
  have "used_chunks M \<noteq> layout_slots (pool_layout M)"
    by (rule management_pool_not_full [OF M(3,2) i free M(4) bij_betw_same_card [OF M(5)]])
  then obtain m M' where m: "MemPool_getChunk M = (Some m, M')" "pool_ok M'" "m \<notin> used_chunks M"
    "used_chunks M' = insert m (used_chunks M)" "pool_layout M' = pool_layout M"
    using mem_pool.get_free_slot [OF M(2)] by blast
  have "chunk_address_ok a" using M(3) i p(3) unfolding pools_ok_def by (meson nth_mem)
  from ChunkHeader_new_ok [OF this cs fit, of "shm_offsets S"]
  obtain h offs where h: "ChunkHeader_new a (mp_chunkSize (ps ! i)) cs (shm_offsets S) = Inr (h, offs)"
    "h = (ChunkHeader_init (mp_chunkSize (ps ! i)) cs)
      \<lparr>ch_userHeaderId := (if cs_userHeaderSize cs = 0 then NO_USER_HEADER else UNKNOWN_USER_HEADER),
       ch_userPayloadOffset := ch_userPayloadOffset h\<rparr>" by metis
  have sz: "ch_chunkSize h = mp_chunkSize (ps ! i)" by (subst h(2)) (simp add: ChunkHeader_init_def)
  define S' where "S' = S\<lparr> shm_manager := (shm_manager S)\<lparr> mm_memPoolVector := ps[i := p'],
        mm_chunkManagementPool := [M'] \<rparr>,
      shm_headers := (shm_headers S)(a \<mapsto> h), shm_offsets := offs,
      shm_managements := (shm_managements S)(m \<mapsto> ChunkManagement_ctor a i 0) \<rparr>"
  have g: "MemoryManager_getChunk cs S = Inr (Inr (Some m), S')"
    using ff p(1) h(1) m(1) M(1)
    by (simp add: MemoryManager_getChunk_def Let_def ps_def S'_def)
  note new = shm_inv_new_chunk [OF inv i [unfolded ps_def] M(1) p(3,4,2,5,6) [unfolded ps_def]
      m(3,2,4,5) sz [unfolded ps_def] S'_def [unfolded ps_def]]
  show thesis
    by (rule that [OF g new(1,2) _ _ _ new(3)]) (use h(1) in \<open>simp_all add: S'_def chunk_of_def ChunkManagement_ctor_def\<close>)
qed

lemma getChunk_error:
  fixes S :: shm
  defines "ps \<equiv> mm_memPoolVector (shm_manager S)"
  assumes inv: "shm_inv S Os"
  shows "ps = [] \<Longrightarrow> MemoryManager_getChunk cs S = Inr (Inl NO_MEMPOOLS_AVAILABLE, S)"
    and "ps \<noteq> [] \<Longrightarrow> first_fitting (cs_requiredChunkSize cs) 0 ps = None \<Longrightarrow>
      MemoryManager_getChunk cs S = Inr (Inl NO_MEMPOOL_FOR_REQUESTED_CHUNK_SIZE, S)"
    and "first_fitting (cs_requiredChunkSize cs) 0 ps = Some i \<Longrightarrow>
      used_chunks (ps ! i) = layout_slots (pool_layout (ps ! i)) \<Longrightarrow>
      MemoryManager_getChunk cs S = Inr (Inl MEMPOOL_OUT_OF_CHUNKS, S)"
proof -
  show "ps = [] \<Longrightarrow> MemoryManager_getChunk cs S = Inr (Inl NO_MEMPOOLS_AVAILABLE, S)"
    by (simp add: MemoryManager_getChunk_def Let_def ps_def)
  show "ps \<noteq> [] \<Longrightarrow> first_fitting (cs_requiredChunkSize cs) 0 ps = None \<Longrightarrow>
      MemoryManager_getChunk cs S = Inr (Inl NO_MEMPOOL_FOR_REQUESTED_CHUNK_SIZE, S)"
    by (simp add: MemoryManager_getChunk_def Let_def ps_def)
  assume ff: "first_fitting (cs_requiredChunkSize cs) 0 ps = Some i"
    and full: "used_chunks (ps ! i) = layout_slots (pool_layout (ps ! i))"
  have "pools_ok ps" using inv by (auto simp: shm_inv_def ps_def)
  then have "MemPool_getChunk (ps ! i) = (None, ps ! i)"
    using first_fitting_Some [OF ff] full by (intro mem_pool.get_full pool_ok_nth) auto
  then show "MemoryManager_getChunk cs S = Inr (Inl MEMPOOL_OUT_OF_CHUNKS, S)"
    using ff by (simp add: MemoryManager_getChunk_def Let_def ps_def)
qed

subsection \<open>The contract of chunk ownership\<close>

text \<open>
  What the parts of the program that hold chunks rely on: an owner can be added for a chunk that
  has one, an owner can be removed, and both leave the content of the chunks that are still owned
  alone.
\<close>

primrec release_list :: "(address \<Rightarrow> 's \<Rightarrow> 's outcome) \<Rightarrow> address list \<Rightarrow> 's \<Rightarrow> 's outcome" where
  "release_list release [] S = Inr S"
| "release_list release (m # ms) S = obind (release m S) (\<lambda>S'. release_list release ms S')"

locale chunk_ownership =
  fixes inv :: "'s \<Rightarrow> address multiset \<Rightarrow> bool" and content :: "'s \<Rightarrow> address \<Rightarrow> 'c"
    and clone :: "address \<Rightarrow> 's \<Rightarrow> 's outcome" and release :: "address \<Rightarrow> 's \<Rightarrow> 's outcome"
  assumes clone_ok: "inv S Os \<Longrightarrow> m \<in># Os \<Longrightarrow> size Os < 2 ^ 64 - 1 \<Longrightarrow>
      \<exists>S'. clone m S = Inr S' \<and> inv S' (add_mset m Os) \<and> content S' = content S"
    and release_ok: "inv S (add_mset m Os) \<Longrightarrow>
      \<exists>S'. release m S = Inr S' \<and> inv S' Os \<and> (\<forall>x. x \<in># Os \<longrightarrow> content S' x = content S x)"
begin

lemma release_list_ok:
  "inv S (mset ms + Os) \<Longrightarrow>
     \<exists>S'. release_list release ms S = Inr S' \<and> inv S' Os \<and> (\<forall>x. x \<in># Os \<longrightarrow> content S' x = content S x)"
proof (induction ms arbitrary: S)
  case (Cons m ms)
  from Cons.prems have "inv S (add_mset m (mset ms + Os))" by simp
  from release_ok [OF this] obtain S1 where S1: "release m S = Inr S1" "inv S1 (mset ms + Os)"
    "\<forall>x. x \<in># mset ms + Os \<longrightarrow> content S1 x = content S x" by blast
  from Cons.IH [OF S1(2)] S1 show ?case by auto
qed simp

lemma clone_release:
  assumes "inv S Os" "m \<in># Os" "size Os < 2 ^ 64 - 1"
  shows "\<exists>S' S''. clone m S = Inr S' \<and> release m S' = Inr S'' \<and> inv S'' Os \<and>
    (\<forall>x. x \<in># Os \<longrightarrow> content S'' x = content S x)"
  using clone_ok [OF assms] release_ok by fastforce

end

text \<open>The place of a chunk and its header.\<close>

definition chunk_content :: "shm \<Rightarrow> address \<Rightarrow> (nat \<times> address) \<times> chunk_header option" where
  "chunk_content S m =
     (chunk_of (shm_managements S) m, shm_headers S (snd (chunk_of (shm_managements S) m)))"

definition release_chunk :: "address \<Rightarrow> shm \<Rightarrow> shm outcome" where
  "release_chunk m S = SharedChunk_dtor (Some m) S"

definition clone_chunk :: "address \<Rightarrow> shm \<Rightarrow> shm outcome" where
  "clone_chunk m S = incrementReferenceCounter (Some m) S"

interpretation shm: chunk_ownership shm_inv chunk_content clone_chunk release_chunk
proof (unfold_locales, goal_cases)
  case (1 S Os m)
  have "count Os m < 2 ^ 64 - 1" using count_le_size [of Os m] 1(3) by simp
  then obtain S' where "incrementReferenceCounter (Some m) S = Inr S'" "shm_inv S' (add_mset m Os)"
    "shm_headers S' = shm_headers S" "chunk_of (shm_managements S') = chunk_of (shm_managements S)"
    by (rule increment_ok [OF 1(1,2)])
  then show ?case by (auto simp: clone_chunk_def chunk_content_def fun_eq_iff)
next
  case (2 S m Os)
  obtain r S' where "decrementReferenceCounter (Some m) S = Inr (r, S')" "shm_inv S' Os"
    "shm_headers S' = shm_headers S"
    "\<forall>x. x \<in># Os \<longrightarrow> chunk_of (shm_managements S') x = chunk_of (shm_managements S) x"
    by (rule decrement_ok [OF 2])
  then show ?case by (auto simp: release_chunk_def SharedChunk_dtor_def chunk_content_def)
qed

end
