(* ===== verification/Memory_Setup.thy ===== *)
theory Memory_Setup
  imports Shared_Chunk
begin

section \<open>Setting up and using the shared memory\<close>

text \<open>
  The properties of the memory layer as a whole: a configured memory manager starts with a
  consistent shared memory, the memory sizes it asks for are sufficient, and no sequence of
  allocations, copies and releases leaks a chunk, frees it twice or hands it out twice.
\<close>

definition initial_shm :: "memory_manager \<Rightarrow> shm" where
  "initial_shm mm = \<lparr> shm_manager = mm, shm_headers = Map.empty, shm_offsets = (\<lambda>_. 0),
     shm_managements = Map.empty \<rparr>"

subsection \<open>Disjoint pools\<close>

definition block_end :: "mem_pool \<Rightarrow> nat" where
  "block_end p = unat (mp_rawMemory p) + unat (mp_numberOfChunks p) * unat (mp_chunkSize p)"

lemma slots_in_block:
  assumes "mem_pool_inv p" "a \<in> layout_slots (pool_layout p)"
  shows "8 dvd unat a" "unat (mp_rawMemory p) \<le> unat a" "unat a < block_end p"
proof -
  obtain i where i: "a = chunk_at p i" "i < mp_numberOfChunks p" using assms(2) by (auto simp: layout_slots_pool)
  have d: "8 dvd unat (mp_rawMemory p)" "8 dvd unat (mp_chunkSize p)" "0 < unat (mp_chunkSize p)"
    using assms(1) by (auto simp: mem_pool_inv_def)
  then show "8 dvd unat a" using i unat_chunk_at [OF assms(1) i(2)] by simp
  show "unat (mp_rawMemory p) \<le> unat a" using i unat_chunk_at [OF assms(1) i(2)] by simp
  show "unat a < block_end p"
    using unat_chunk_at [OF assms(1) i(2)] chunk_index_bound2 [OF i(2)] d(3)
    unfolding block_end_def i(1) by linarith
qed

lemma pools_between_bounds:
  "pools_between lo ps hi \<Longrightarrow> j < length ps \<Longrightarrow> lo \<le> unat (mp_rawMemory (ps ! j)) \<and> block_end (ps ! j) \<le> hi"
proof (induction ps arbitrary: lo j)
  case (Cons p ps)
  have hi: "lo' \<le> hi" if "pools_between lo' ps hi" for lo'
    using that by (induction ps arbitrary: lo') fastforce+
  show ?case
  proof (cases j)
    case 0
    then show ?thesis using Cons.prems hi by (auto simp: block_end_def)
  next
    case (Suc k)
    then show ?thesis using Cons.prems Cons.IH [of "block_end p" k] by (auto simp: block_end_def)
  qed
qed simp

lemma pools_between_order:
  "pools_between lo ps hi \<Longrightarrow> i < j \<Longrightarrow> j < length ps \<Longrightarrow> block_end (ps ! i) \<le> unat (mp_rawMemory (ps ! j))"
proof (induction ps arbitrary: lo i j)
  case (Cons p ps)
  from Cons.prems have r: "pools_between (block_end p) ps hi" by (simp add: block_end_def)
  obtain k where j: "j = Suc k" using Cons.prems(2) by (cases j) auto
  show ?case
  proof (cases i)
    case 0
    then show ?thesis using pools_between_bounds [OF r, of k] Cons.prems(3) j by simp
  next
    case (Suc l)
    then show ?thesis using Cons.IH [OF r, of l k] Cons.prems j by simp
  qed
qed simp

lemma pools_between_disjoint:
  assumes "pools_between lo ps hi" "\<forall>p\<in>set ps. mem_pool_inv p" "i < length ps" "j < length ps" "i \<noteq> j"
  shows "layout_slots (pool_layout (ps ! i)) \<inter> layout_slots (pool_layout (ps ! j)) = {}"
proof -
  have inv: "mem_pool_inv (ps ! i)" "mem_pool_inv (ps ! j)" using assms by simp_all
  have "block_end (ps ! i) \<le> unat (mp_rawMemory (ps ! j)) \<or> block_end (ps ! j) \<le> unat (mp_rawMemory (ps ! i))"
    using pools_between_order [OF assms(1)] assms(3-5) by (meson nat_neq_iff)
  then show ?thesis using slots_in_block [OF inv(1)] slots_in_block [OF inv(2)] by fastforce
qed

lemma fresh_pools_ok:
  assumes "list_all2 fresh_pool cfg ps" "pools_between lo ps hi" "hi + 2 ^ 34 \<le> 2 ^ 64"
    and "sorted_wrt (<) (map me_size cfg)"
    and "\<forall>e\<in>set cfg. unat (me_size e) \<le> 4294967295 - 40 \<and>
      (unat (me_chunkCount e) - 1) * (unat (me_size e) + 40) < 2 ^ 32"
  shows "pools_ok ps" "used_pairs ps = {}"
proof -
  have len: "length cfg = length ps" using assms(1) by (rule list_all2_lengthD)
  have fp: "fresh_pool (cfg ! i) (ps ! i)" if "i < length ps" for i
    using assms(1) that by (simp add: list_all2_conv_all_nth)
  have inv: "\<forall>p\<in>set ps. mem_pool_inv p" using fp by (auto simp: in_set_conv_nth fresh_pool_def)
  have sz: "unat (mp_chunkSize (ps ! i)) = unat (me_size (cfg ! i)) + 40"
      "mp_numberOfChunks (ps ! i) = me_chunkCount (cfg ! i)" if "i < length ps" for i
    using fp [OF that] assms(5) that len by (simp_all add: fresh_pool_def unat_size_header)
  have "pool_ok (ps ! i)" if "i < length ps" for i
    using fp [OF that] sz [OF that] assms(5) that len
    by (simp add: pool_ok_def offsets_fit_u32_def fresh_pool_def)
  then have "\<forall>p\<in>set ps. pool_ok p" by (auto simp: in_set_conv_nth)
  moreover have "sorted_wrt (<) (map mp_chunkSize ps)"
    using assms(4) sz len by (auto simp: sorted_wrt_iff_nth_less word_less_nat_alt)
  moreover have "chunk_address_ok a" if "p \<in> set ps" "a \<in> layout_slots (pool_layout p)" for p a
  proof -
    obtain j where j: "j < length ps" "p = ps ! j" using \<open>p \<in> set ps\<close> by (auto simp: in_set_conv_nth)
    have "unat a < hi"
      using slots_in_block(3) [of p a] that inv j pools_between_bounds [OF assms(2) j(1)] by fastforce
    then show ?thesis using slots_in_block(1) [of p a] that inv assms(3) by (simp add: chunk_address_ok_def)
  qed
  ultimately show "pools_ok ps"
    unfolding pools_ok_def using pools_between_disjoint [OF assms(2) inv] by blast
  show "used_pairs ps = {}"
    using fp by (auto simp: used_pairs_def used_chunks_def fresh_pool_def)
qed

subsection \<open>Configuration\<close>

lemma demand_entries:
  "demand ChunkMemoryAllocator (concat (map entry_requests cfg)) =
     (\<Sum>e\<leftarrow>cfg. round_up (unat (me_chunkCount e) * unat (me_size e + 40)) 8)"
  "demand ManagementAllocator (concat (map entry_requests cfg)) =
     (\<Sum>e\<leftarrow>cfg. round_up ((unat (me_chunkCount e) + 1) * 4) 8)"
  by (induction cfg) (simp_all add: demand_def entry_requests_def pool_requests_def)

lemma demand_append: "demand a (rs @ rs') = demand a rs + demand a rs'"
  by (simp add: demand_def)

lemma unat_sum_counts:
  "(\<Sum>e\<leftarrow>cfg. unat (me_chunkCount e)) < 2 ^ 32 \<Longrightarrow>
     unat (\<Sum>e\<leftarrow>cfg. me_chunkCount e) = (\<Sum>e\<leftarrow>cfg. unat (me_chunkCount e))"
proof (induction cfg)
  case (Cons e cfg)
  then have "unat (\<Sum>e\<leftarrow>cfg. me_chunkCount e) = (\<Sum>e\<leftarrow>cfg. unat (me_chunkCount e))" by simp
  then show ?case using Cons.prems by (simp, subst unat_add_no_wrap) simp_all
qed simp

definition setup_allocators :: "address \<Rightarrow> u64 \<Rightarrow> address \<Rightarrow> u64 \<Rightarrow> allocators" where
  "setup_allocators ms ml cs cl = (\<lambda>a. case a of ManagementAllocator \<Rightarrow> Allocator_ctor ms ml
     | ChunkMemoryAllocator \<Rightarrow> Allocator_ctor cs cl)"

lemma setup_allocators_simps [simp]:
  "setup_allocators ms ml cs cl ManagementAllocator = Allocator_ctor ms ml"
  "setup_allocators ms ml cs cl ChunkMemoryAllocator = Allocator_ctor cs cl"
  by (simp_all add: setup_allocators_def)

lemma Allocator_ctor_simps [simp]:
  "allocator_top (Allocator_ctor s l) = unat s" "allocator_end (Allocator_ctor s l) = unat s + unat l"
  "al_allocationFinalized (Allocator_ctor s l) = False"
  "allocator_inv (Allocator_ctor s l) \<longleftrightarrow> unat s + unat l < 2 ^ 64"
  by (simp_all add: Allocator_ctor_def allocator_top_def allocator_end_def allocator_inv_def)

lemma all_allocator_names: "(\<forall>a. P a) \<longleftrightarrow> P ManagementAllocator \<and> P ChunkMemoryAllocator"
  by (metis allocator_name.exhaust)

text \<open>The setup can be used: offsets of all pools fit into 32 bits.\<close>

definition offsets_fit_config :: "mepoo_config \<Rightarrow> bool" where
  "offsets_fit_config cfg \<longleftrightarrow>
     (\<forall>e\<in>set cfg. (unat (me_chunkCount e) - 1) * (unat (me_size e) + 40) < 2 ^ 32) \<and>
     ((\<Sum>e\<leftarrow>cfg. unat (me_chunkCount e)) - 1) * 56 < 2 ^ 32"

lemma chunk_memory_need_eq:
  "config_ok cfg \<Longrightarrow> (\<Sum>e\<leftarrow>cfg. round_up (unat (me_chunkCount e) * unat (me_size e + 40)) 8) = chunk_memory_need cfg"
  unfolding chunk_memory_need_def config_ok_def
  by (intro arg_cong [of _ _ sum_list] map_cong) (auto simp: unat_size_header)

definition config_requests :: "mepoo_config \<Rightarrow> (allocator_name \<times> nat) list" where
  "config_requests cfg = concat (map entry_requests cfg) @
     pool_requests 56 (\<Sum>e\<leftarrow>cfg. me_chunkCount e) ManagementAllocator ManagementAllocator"

lemma config_requests_demand:
  assumes "config_ok cfg"
  shows "demand ChunkMemoryAllocator (config_requests cfg) = chunk_memory_need cfg"
    and "demand ManagementAllocator (config_requests cfg) = management_memory_need cfg"
proof -
  have n: "unat (\<Sum>e\<leftarrow>cfg. me_chunkCount e) = (\<Sum>e\<leftarrow>cfg. unat (me_chunkCount e))"
    using assms by (intro unat_sum_counts) (simp add: config_ok_def)
  show "demand ChunkMemoryAllocator (config_requests cfg) = chunk_memory_need cfg"
    by (simp add: config_requests_def demand_append demand_entries chunk_memory_need_eq [OF assms])
      (simp add: demand_def pool_requests_def)
  show "demand ManagementAllocator (config_requests cfg) = management_memory_need cfg"
    by (simp add: config_requests_def demand_append demand_entries management_memory_need_def Let_def)
      (simp add: demand_def pool_requests_def n)
qed

lemma configure_ok:
  assumes cfg: "config_ok cfg" "offsets_fit_config cfg"
    and als: "allocators_ok als" "allocator_end (als ChunkMemoryAllocator) + 2 ^ 34 \<le> 2 ^ 64"
    and fit: "fits (ends_of als) (tops_of als) (config_requests cfg)"
  obtains mm als' M where "configureMemoryManager cfg MemoryManager_ctor als = Inr (mm, als')"
    "shm_inv (initial_shm mm) {#}" "list_all2 fresh_pool cfg (mm_memPoolVector mm)"
proof -
  let ?n = "\<Sum>e\<leftarrow>cfg. me_chunkCount e" and ?rs = "concat (map entry_requests cfg)"
  let ?ca = ChunkMemoryAllocator and ?ma = ManagementAllocator
  have c: "cfg \<noteq> []" "length cfg \<le> MAX_NUMBER_OF_MEMPOOLS" "sorted_wrt (<) (map me_size cfg)"
    "\<forall>e\<in>set cfg. 8 \<le> unat (me_size e) \<and> 8 dvd unat (me_size e) \<and> unat (me_size e) \<le> 4294967295 - 40 \<and>
        1 \<le> unat (me_chunkCount e)" "(\<Sum>e\<leftarrow>cfg. unat (me_chunkCount e)) < 4294967294"
    using cfg(1) by (simp_all add: config_ok_def)
  have n: "unat ?n = (\<Sum>e\<leftarrow>cfg. unat (me_chunkCount e))" using c(5) by (intro unat_sum_counts) simp
  have f1: "fits (ends_of als) (tops_of als) ?rs"
    and f2: "fits (ends_of als) (tops_after (tops_of als) ?rs) (pool_requests 56 ?n ?ma ?ma)"
    using fit by (simp_all add: config_requests_def fits_append)
  have "\<exists>ps als'. addMemPools cfg MemoryManager_ctor als =
       Inr (MemoryManager_ctor\<lparr> mm_memPoolVector := mm_memPoolVector MemoryManager_ctor @ ps,
              mm_totalNumberOfChunks := mm_totalNumberOfChunks MemoryManager_ctor + ?n \<rparr>, als') \<and>
     list_all2 fresh_pool cfg ps \<and> allocators_ok als' \<and> ends_of als' = ends_of als \<and>
     tops_of als' = tops_after (tops_of als) ?rs \<and>
     pools_between (tops_of als ?ca) ps (tops_of als' ?ca)"
    by (rule addMemPools_ok [OF als(1) _ c(4,5) _ c(3) _ f1]) (use c(2) in \<open>simp_all add: MemoryManager_ctor_def\<close>)
  then obtain ps als1 where 1: "addMemPools cfg MemoryManager_ctor als =
       Inr (MemoryManager_ctor\<lparr> mm_memPoolVector := ps, mm_totalNumberOfChunks := ?n \<rparr>, als1)"
     "list_all2 fresh_pool cfg ps" "allocators_ok als1" "ends_of als1 = ends_of als"
     "tops_of als1 = tops_after (tops_of als) ?rs" "pools_between (tops_of als ?ca) ps (tops_of als1 ?ca)"
    by (auto simp: MemoryManager_ctor_def)
  have "0 < unat ?n" using c(1,4) n by (cases cfg) auto
  then have n0: "0 < ?n" by (simp add: word_less_nat_alt)
  have sz: "8 \<le> unat (56 :: u32)" "8 dvd unat (56 :: u32)" by simp_all
  have f2': "fits (ends_of als1) (tops_of als1) (pool_requests 56 ?n ?ma ?ma)" using f2 1(4,5) by simp
  have nw: "?n < - 1 - 1" using c(5) n by (intro count_no_wrap) simp
  obtain M als2 where M: "MemPool_ctor 56 ?n ?ma ?ma als1 = Inr (M, als2)" "mem_pool_inv M"
    "used_indices M = {}" "mp_chunkSize M = 56" "mp_numberOfChunks M = ?n"
    by (rule MemPool_ctor_ok [OF 1(3) sz n0 nw f2'])
  define mm where "mm = MemoryManager_ctor\<lparr> mm_memPoolVector := ps, mm_totalNumberOfChunks := ?n,
    mm_denyAddMemPool := True, mm_chunkManagementPool := [M] \<rparr>"
  have g: "configureMemoryManager cfg MemoryManager_ctor als = Inr (mm, als2)"
    using 1(1) M(1) by (simp add: configureMemoryManager_def generateChunkManagementPool_def
        emplace_back_pool_def SIZEOF_ChunkManagement_def MemoryManager_ctor_def mm_def)
  have "tops_of als1 ?ca \<le> ends_of als ?ca"
    using 1(3,4) allocator_top_bound [of "als1 ?ca"] fun_cong [OF 1(4), of ?ca] by (simp add: allocators_ok_def)
  then have "tops_of als1 ?ca + 2 ^ 34 \<le> 2 ^ 64" using als(2) by simp
  then have ps: "pools_ok ps" "used_pairs ps = {}"
    using fresh_pools_ok [OF 1(2,6) _ c(3)] c(4) cfg(2) by (auto simp: offsets_fit_config_def)
  have "pool_ok M" using M cfg(2) n by (simp add: pool_ok_def offsets_fit_u32_def offsets_fit_config_def)
  moreover have "used_chunks M = {}" using M(3) by (simp add: used_chunks_def)
  moreover have "map (\<lambda>p. unat (mp_numberOfChunks p)) ps = map (\<lambda>e. unat (me_chunkCount e)) cfg"
    using 1(2) by (auto simp: list_all2_conv_all_nth list_eq_iff_nth_eq fresh_pool_def)
  then have "(\<Sum>p\<leftarrow>ps. unat (mp_numberOfChunks p)) = unat (mp_numberOfChunks M)" using M(5) n by simp
  ultimately have "shm_inv (initial_shm mm) {#}"
    using ps by (simp add: shm_inv_def initial_shm_def mm_def bij_betw_def)
  then show thesis using that [OF g] 1(2) by (simp add: mm_def)
qed

subsection \<open>Properties\<close>

text \<open>
  C17: a memory manager that is configured on memory of the sizes it asks for itself
  (\<open>requiredManagementMemorySize\<close> and \<open>requiredChunkMemorySize\<close>) never runs out of memory: for a valid
  configuration whose pools have byte offsets of 32 bits, on 8-aligned blocks that do not reach the end of the
  address space, the configuration succeeds, with one pool per entry of the configuration, and the shared memory is
  consistent and has no chunk in use.
\<close>

theorem required_memory_suffices:
  assumes "config_ok cfg" "offsets_fit_config cfg" "chunk_memory_need cfg + 8 \<le> 2 ^ 64"
    and "8 dvd unat ms" "8 dvd unat cs" "unat ms + unat ml + 8 \<le> 2 ^ 64" "unat cs + unat cl + 2 ^ 34 \<le> 2 ^ 64"
    and "requiredManagementMemorySize cfg \<le> ml" "requiredChunkMemorySize cfg = Inr r" "r \<le> cl"
  shows "\<exists>mm als. configureMemoryManager cfg MemoryManager_ctor (setup_allocators ms ml cs cl) = Inr (mm, als) \<and>
    shm_inv (initial_shm mm) {#} \<and> list_all2 fresh_pool cfg (mm_memPoolVector mm)"
proof -
  let ?als = "setup_allocators ms ml cs cl"
  have r: "unat r = chunk_memory_need cfg"
    using unat_requiredChunkMemorySize [OF assms(1,3)] assms(9) by (metis sum.inject(2))
  have "round_up (tops_of ?als a) 8 + demand a (config_requests cfg) \<le> ends_of ?als a" for a
    using assms(8,10) r unat_requiredManagementMemorySize [OF assms(1)]
    by (cases a) (simp_all add: config_requests_demand [OF assms(1)] round_up_idem assms(4,5) word_le_nat_alt)
  then have fit: "fits (ends_of ?als) (tops_of ?als) (config_requests cfg)" by (rule fits_demand)
  have "allocators_ok ?als" using assms(6,7) by (simp add: allocators_ok_def all_allocator_names)
  moreover have "allocator_end (?als ChunkMemoryAllocator) + 2 ^ 34 \<le> 2 ^ 64" using assms(7) by simp
  ultimately obtain mm als where "configureMemoryManager cfg MemoryManager_ctor ?als = Inr (mm, als)"
    "shm_inv (initial_shm mm) {#}" "list_all2 fresh_pool cfg (mm_memPoolVector mm)"
    by (rule configure_ok [OF assms(1,2) _ _ fit])
  then show ?thesis by blast
qed

definition example_config :: mepoo_config where
  "example_config = [Entry 64 2, Entry 128 1]"

lemma example_config_ok: "config_ok example_config" "offsets_fit_config example_config"
  "chunk_memory_need example_config + 8 \<le> 2 ^ 64"
  by (simp_all add: config_ok_def offsets_fit_config_def chunk_memory_need_def example_config_def
      MAX_NUMBER_OF_MEMPOOLS_def round_up_def)

lemma example_required:
  "requiredManagementMemorySize example_config = 208" "requiredChunkMemorySize example_config = Inr 376"
  by code_simp+

lemma required_memory_suffices_witness:
  "\<exists>mm als. configureMemoryManager example_config MemoryManager_ctor
      (setup_allocators 0x1000 208 0x2000 376) = Inr (mm, als) \<and> shm_inv (initial_shm mm) {#} \<and>
     map mp_chunkSize (mm_memPoolVector mm) = [104, 168]"
proof -
  have "\<exists>mm als. configureMemoryManager example_config MemoryManager_ctor
      (setup_allocators 0x1000 208 0x2000 376) = Inr (mm, als) \<and> shm_inv (initial_shm mm) {#} \<and>
      list_all2 fresh_pool example_config (mm_memPoolVector mm)"
    by (rule required_memory_suffices [OF example_config_ok _ _ _ _ _ example_required(2)])
      (simp_all add: example_required)
  then show ?thesis by (auto simp: example_config_def list_all2_Cons1 fresh_pool_def)
qed

text \<open>
  C16: the result of \<open>MemoryManager::getChunk\<close> in every consistent state, in which the byte offsets of
  every pool fit in 32 bits. It fails exactly if there
  is no pool, if no pool has large enough chunks, or if the first pool with large enough chunks
  has none left, and then changes nothing. Otherwise it returns a chunk that nobody owned, from
  the first (and therefore smallest) fitting pool, with an initialised header and one owner; the
  chunks that are in use keep their place and their header.
\<close>

theorem getChunk_correct:
  assumes "shm_inv S Os" "chunk_settings_valid cs"
  shows "let ps = mm_memPoolVector (shm_manager S) in
    case first_fitting (cs_requiredChunkSize cs) 0 ps of
      None \<Rightarrow> MemoryManager_getChunk cs S =
        Inr (Inl (if ps = [] then NO_MEMPOOLS_AVAILABLE else NO_MEMPOOL_FOR_REQUESTED_CHUNK_SIZE), S) \<and>
        (\<forall>p\<in>set ps. mp_chunkSize p < cs_requiredChunkSize cs)
    | Some i \<Rightarrow> i < length ps \<and> cs_requiredChunkSize cs \<le> mp_chunkSize (ps ! i) \<and>
        (\<forall>l<i. mp_chunkSize (ps ! l) < cs_requiredChunkSize cs) \<and>
        (if used_chunks (ps ! i) = layout_slots (pool_layout (ps ! i))
         then MemoryManager_getChunk cs S = Inr (Inl MEMPOOL_OUT_OF_CHUNKS, S)
         else \<exists>m a h S'. MemoryManager_getChunk cs S = Inr (Inr (Some m), S') \<and> m \<notin># Os \<and>
           shm_inv S' (add_mset m Os) \<and> chunk_content S' m = ((i, a), Some h) \<and>
           ChunkHeader_new a (mp_chunkSize (ps ! i)) cs (shm_offsets S) = Inr (h, shm_offsets S') \<and>
           (\<forall>x. x \<in># Os \<longrightarrow> chunk_content S' x = chunk_content S x))"
proof (cases "first_fitting (cs_requiredChunkSize cs) 0 (mm_memPoolVector (shm_manager S))")
  case None
  then show ?thesis
    using getChunk_error(1) [OF assms(1), of cs] getChunk_error(2) [OF assms(1) _ None]
      first_fitting_None [THEN iffD1, OF None]
    by (cases "mm_memPoolVector (shm_manager S) = []") (simp_all add: Let_def)
next
  case (Some i)
  let ?ps = "mm_memPoolVector (shm_manager S)"
  show ?thesis
  proof (cases "used_chunks (?ps ! i) = layout_slots (pool_layout (?ps ! i))")
    case True
    then show ?thesis
      using Some getChunk_error(3) [OF assms(1) Some] first_fitting_Some [OF Some] by (simp add: Let_def)
  next
    case False
    obtain m a h S' where "MemoryManager_getChunk cs S = Inr (Inr (Some m), S')"
      "m \<notin># Os" "shm_inv S' (add_mset m Os)" "chunk_of (shm_managements S') m = (i, a)"
      "shm_headers S' = (shm_headers S)(a \<mapsto> h)"
      "ChunkHeader_new a (mp_chunkSize (?ps ! i)) cs (shm_offsets S) = Inr (h, shm_offsets S')"
      "\<forall>x. x \<in># Os \<longrightarrow> chunk_of (shm_managements S') x = chunk_of (shm_managements S) x \<and>
         snd (chunk_of (shm_managements S) x) \<noteq> a"
      by (rule getChunk_ok [OF assms Some False])
    then have "\<exists>m a h S'. MemoryManager_getChunk cs S = Inr (Inr (Some m), S') \<and> m \<notin># Os \<and>
           shm_inv S' (add_mset m Os) \<and> chunk_content S' m = ((i, a), Some h) \<and>
           ChunkHeader_new a (mp_chunkSize (?ps ! i)) cs (shm_offsets S) = Inr (h, shm_offsets S') \<and>
           (\<forall>x. x \<in># Os \<longrightarrow> chunk_content S' x = chunk_content S x)"
      by (intro exI [of _ m] exI [of _ a] exI [of _ h] exI [of _ S']) (simp add: chunk_content_def)
    then show ?thesis using Some False first_fitting_Some [OF Some] by (simp add: Let_def)
  qed
qed

definition example_shm :: shm where
  "example_shm = initial_shm (fst (projr (configureMemoryManager example_config MemoryManager_ctor
     (setup_allocators 0x1000 208 0x2000 376))))"

definition example_settings :: chunk_settings where
  "example_settings = projr (ChunkSettings_create 100 8 0 1)"

lemma example_shm_inv: "shm_inv example_shm {#}"
proof -
  have fit: "fits (ends_of (setup_allocators 0x1000 208 0x2000 376))
      (tops_of (setup_allocators 0x1000 208 0x2000 376)) (config_requests example_config)"
  proof (rule fits_demand)
    fix a
    have need: "chunk_memory_need example_config = 376" "management_memory_need example_config = 208"
      by (simp_all add: chunk_memory_need_def management_memory_need_def example_config_def Let_def round_up_def)
    show "round_up (tops_of (setup_allocators 0x1000 208 0x2000 376) a) 8 + demand a (config_requests example_config)
        \<le> ends_of (setup_allocators 0x1000 208 0x2000 376) a"
      by (cases a) (simp_all add: config_requests_demand [OF example_config_ok(1)] need round_up_def)
  qed
  have "allocators_ok (setup_allocators 0x1000 208 0x2000 376)"
    by (simp add: allocators_ok_def all_allocator_names)
  then obtain mm als where "configureMemoryManager example_config MemoryManager_ctor
      (setup_allocators 0x1000 208 0x2000 376) = Inr (mm, als)" "shm_inv (initial_shm mm) {#}"
    by (rule configure_ok [OF example_config_ok(1,2) _ _ fit]) simp
  then show ?thesis by (simp add: example_shm_def)
qed

lemma example_settings_valid: "chunk_settings_valid example_settings"
proof -
  have "ChunkSettings_create 100 8 0 1 = Inr example_settings"
    unfolding example_settings_def by code_simp
  then show ?thesis by (rule ChunkSettings_create_valid(1))
qed

lemma example_free_chunk:
  defines "ps \<equiv> mm_memPoolVector (shm_manager example_shm)"
  shows "first_fitting (cs_requiredChunkSize example_settings) 0 ps = Some 1"
    "used_chunks (ps ! 1) \<noteq> layout_slots (pool_layout (ps ! 1))"
proof -
  show "first_fitting (cs_requiredChunkSize example_settings) 0 ps = Some 1" unfolding ps_def by code_simp
  have "free_indices (mp_freeIndices (ps ! 1)) = [0]" "mp_numberOfChunks (ps ! 1) = 1" unfolding ps_def by code_simp+
  moreover have "(i :: u32) < 1 \<longleftrightarrow> i = 0" for i by (simp add: word_less_nat_alt unat_eq_0)
  ultimately show "used_chunks (ps ! 1) \<noteq> layout_slots (pool_layout (ps ! 1))"
    by (simp add: used_chunks_def used_indices_def layout_slots_pool)
qed

lemma example_chunk:
  obtains m S where "MemoryManager_getChunk example_settings example_shm = Inr (Inr (Some m), S)" "shm_inv S {#m#}"
  using getChunk_ok [OF example_shm_inv example_settings_valid example_free_chunk] by metis

lemma getChunk_correct_witness:
  "\<exists>m h S'. MemoryManager_getChunk example_settings example_shm = Inr (Inr (Some m), S') \<and>
     shm_inv S' {#m#} \<and> chunk_content S' m = ((1, 0x20D0), Some h)"
proof -
  from getChunk_correct [OF example_shm_inv example_settings_valid] example_free_chunk
  obtain m a h S' where *: "MemoryManager_getChunk example_settings example_shm = Inr (Inr (Some m), S')"
    "shm_inv S' {#m#}" "chunk_content S' m = ((1, a), Some h)" by (auto simp: Let_def)
  have "map_sum id (\<lambda>(r, S'). case r of Inr (Some m) \<Rightarrow> snd (chunk_of (shm_managements S') m) | _ \<Rightarrow> 0)
      (MemoryManager_getChunk example_settings example_shm) = Inr 0x20D0" by code_simp
  then have "a = 0x20D0" using * by (simp add: chunk_content_def)
  with * show ?thesis by blast
qed

subsection \<open>Sequences of allocations, copies and releases\<close>

text \<open>
  The clients together hold a list of \<open>SharedChunk\<close> objects. They request a chunk with any
  parameters, copy the object at a position of the list, or destroy it.
\<close>

datatype shm_call = GetChunk u32 u32 u32 u32 | CopyChunk nat | DropChunk nat

fun shm_apply :: "shm_call \<Rightarrow> address list \<times> shm \<Rightarrow> (address list \<times> shm) outcome" where
  "shm_apply (GetChunk ps a hs ha) (owned, S) =
     (case ChunkSettings_create ps a hs ha of Inl e \<Rightarrow> Inr (owned, S)
      | Inr cs \<Rightarrow> obind (MemoryManager_getChunk cs S) (\<lambda>(r, S'). case r of Inl e \<Rightarrow> Inr (owned, S')
          | Inr None \<Rightarrow> Inr (owned, S') | Inr (Some m) \<Rightarrow> Inr (m # owned, S')))"
| "shm_apply (CopyChunk k) (owned, S) =
     (if k < length owned
      then obind (SharedChunk_copy (Some (owned ! k)) S) (\<lambda>(c, S'). Inr (owned ! k # owned, S'))
      else Inr (owned, S))"
| "shm_apply (DropChunk k) (owned, S) =
     (if k < length owned
      then obind (SharedChunk_dtor (Some (owned ! k)) S) (\<lambda>S'. Inr (take k owned @ drop (k + 1) owned, S'))
      else Inr (owned, S))"

primrec shm_run :: "shm_call list \<Rightarrow> address list \<times> shm \<Rightarrow> (address list \<times> shm) outcome" where
  "shm_run [] s = Inr s"
| "shm_run (c # cs) s = obind (shm_apply c s) (shm_run cs)"

lemma mset_drop_nth: "k < length xs \<Longrightarrow> mset xs = add_mset (xs ! k) (mset (take k xs @ drop (k + 1) xs))"
  by (metis Suc_eq_plus1 add_mset_add_single append_Cons append_Nil id_take_nth_drop mset.simps(2) mset_append union_mset_add_mset_right)

lemma shm_apply_ok:
  assumes "shm_inv S (mset owned)" "length owned < 2 ^ 64 - 1"
  shows "\<exists>owned' S'. shm_apply c (owned, S) = Inr (owned', S') \<and> shm_inv S' (mset owned') \<and>
    length owned' \<le> length owned + 1"
proof (cases c)
  case (GetChunk ps a hs ha)
  show ?thesis
  proof (cases "ChunkSettings_create ps a hs ha")
    case (Inr cs)
    note v = ChunkSettings_create_valid(1) [OF Inr]
    let ?ps = "mm_memPoolVector (shm_manager S)"
    show ?thesis
    proof (cases "\<exists>i. first_fitting (cs_requiredChunkSize cs) 0 ?ps = Some i \<and>
        used_chunks (?ps ! i) \<noteq> layout_slots (pool_layout (?ps ! i))")
      case True
      then obtain i where "first_fitting (cs_requiredChunkSize cs) 0 ?ps = Some i"
        "used_chunks (?ps ! i) \<noteq> layout_slots (pool_layout (?ps ! i))" by blast
      then obtain m S' where "MemoryManager_getChunk cs S = Inr (Inr (Some m), S')"
        "shm_inv S' (add_mset m (mset owned))" by (rule getChunk_ok [OF assms(1) v])
      then show ?thesis using GetChunk Inr by simp
    next
      case False
      then have "\<exists>e. MemoryManager_getChunk cs S = Inr (Inl e, S)"
        using getChunk_error [OF assms(1), of cs]
        by (cases "first_fitting (cs_requiredChunkSize cs) 0 ?ps"; cases "?ps = []") auto
      then show ?thesis using GetChunk Inr assms by auto
    qed
  qed (use GetChunk assms in simp)
next
  case (CopyChunk k)
  show ?thesis
  proof (cases "k < length owned")
    case True
    then obtain S' where "clone_chunk (owned ! k) S = Inr S'" "shm_inv S' (add_mset (owned ! k) (mset owned))"
      using shm.clone_ok [OF assms(1), of "owned ! k"] assms(2) by auto
    then show ?thesis using CopyChunk True
      by (simp add: SharedChunk_copy_def SharedChunk_assign_def clone_chunk_def decrementReferenceCounter_def)
  qed (use CopyChunk assms in simp)
next
  case (DropChunk k)
  show ?thesis
  proof (cases "k < length owned")
    case True
    then obtain S' where "release_chunk (owned ! k) S = Inr S'" "shm_inv S' (mset (take k owned @ drop (k + 1) owned))"
      using shm.release_ok [of S "owned ! k"] assms(1) mset_drop_nth [OF True] by metis
    then show ?thesis using DropChunk True by (simp add: release_chunk_def)
  qed (use DropChunk assms in simp)
qed

lemma shm_run_ok:
  "shm_inv S (mset owned) \<Longrightarrow> length owned + length cs < 2 ^ 64 - 1 \<Longrightarrow>
     \<exists>owned' S'. shm_run cs (owned, S) = Inr (owned', S') \<and> shm_inv S' (mset owned')"
proof (induction cs arbitrary: owned S)
  case (Cons c cs)
  from Cons.prems obtain owned1 S1 where 1: "shm_apply c (owned, S) = Inr (owned1, S1)"
    "shm_inv S1 (mset owned1)" "length owned1 \<le> length owned + 1"
    using shm_apply_ok [of S owned c] by auto
  then show ?case using Cons.IH [OF 1(2)] Cons.prems(2) by simp
qed simp

lemma shm_inv_used:
  assumes "shm_inv S Os" "i < length (mm_memPoolVector (shm_manager S))"
  shows "used_chunks (mm_memPoolVector (shm_manager S) ! i) =
    {a. \<exists>m. m \<in># Os \<and> fst (chunk_content S m) = (i, a)}"
proof -
  let ?ps = "mm_memPoolVector (shm_manager S)"
  obtain M where M: "set_mset Os = used_chunks M"
    "bij_betw (chunk_of (shm_managements S)) (used_chunks M) (used_pairs ?ps)"
    by (rule shm_invD [OF assms(1)])
  then have e: "used_pairs ?ps = chunk_of (shm_managements S) ` set_mset Os"
    by (simp add: bij_betw_imp_surj_on)
  have "(i, a) \<in> used_pairs ?ps \<longleftrightarrow> (\<exists>m. m \<in># Os \<and> chunk_of (shm_managements S) m = (i, a))" for a
    unfolding e image_iff Bex_def by (metis (mono_tags))
  then show ?thesis using assms(2) by (auto simp: used_pairs_mem chunk_content_def)
qed

text \<open>
  C15: from a consistent state, in which the byte offsets of every pool fit in 32 bits, no sequence of
  fewer than 2^64 - 1 requests, copies and releases of chunks ends the process or uses a null pointer; afterwards the chunks in use in every pool are exactly those of the objects that are
  still held, and two objects share a chunk only if they are copies of each other. In particular
  the pools are completely free once all objects are destroyed: no chunk leaks.
\<close>

theorem shared_chunks_no_leak:
  assumes "shm_inv S {#}" "length calls < 2 ^ 64 - 1"
  shows "\<exists>owned S'. shm_run calls ([], S) = Inr (owned, S') \<and> shm_inv S' (mset owned) \<and>
    (\<forall>i<length (mm_memPoolVector (shm_manager S')).
       used_chunks (mm_memPoolVector (shm_manager S') ! i) =
         {a. \<exists>m\<in>set owned. fst (chunk_content S' m) = (i, a)}) \<and>
    inj_on (\<lambda>m. fst (chunk_content S' m)) (set owned)"
proof -
  obtain owned S' where r: "shm_run calls ([], S) = Inr (owned, S')" "shm_inv S' (mset owned)"
    using shm_run_ok [of S "[]" calls] assms by auto
  obtain M where "set_mset (mset owned) = used_chunks M"
    "bij_betw (chunk_of (shm_managements S')) (used_chunks M) (used_pairs (mm_memPoolVector (shm_manager S')))"
    by (rule shm_invD [OF r(2)])
  then have "inj_on (\<lambda>m. fst (chunk_content S' m)) (set owned)"
    by (simp add: bij_betw_def chunk_content_def)
  then show ?thesis using r shm_inv_used [OF r(2)] by auto
qed

definition example_calls :: "shm_call list" where
  "example_calls = [GetChunk 100 8 0 1, GetChunk 32 64 0 1, CopyChunk 0, DropChunk 1, GetChunk 100 8 0 1,
     DropChunk 1, DropChunk 0]"

lemma shared_chunks_no_leak_witness:
  "\<exists>S'. shm_run example_calls ([], example_shm) = Inr ([], S') \<and>
     used_chunks (mm_memPoolVector (shm_manager S') ! 0) = {} \<and> used_chunks (mm_memPoolVector (shm_manager S') ! 1) = {}"
proof -
  have e: "map_sum id (map_prod id (\<lambda>S. length (mm_memPoolVector (shm_manager S))))
      (shm_run example_calls ([], example_shm)) = Inr ([], 2)" by code_simp
  have "length example_calls < 2 ^ 64 - 1" by (simp add: example_calls_def)
  from shared_chunks_no_leak [OF example_shm_inv this]
  obtain owned S' where *: "shm_run example_calls ([], example_shm) = Inr (owned, S')"
    "\<forall>i<length (mm_memPoolVector (shm_manager S')).
       used_chunks (mm_memPoolVector (shm_manager S') ! i) =
         {a. \<exists>m\<in>set owned. fst (chunk_content S' m) = (i, a)}" by blast
  from e *(1) have "owned = []" "length (mm_memPoolVector (shm_manager S')) = 2" by simp_all
  with * show ?thesis by simp
qed

end
