(* ===== verification/Used_Chunk_List.thy ===== *)
theory Used_Chunk_List
  imports Memory_Setup
begin

section \<open>The list of chunks in use\<close>

text \<open>
  \<open>popo::UsedChunkList\<close> (\<open>used_chunk_list.hpp\<close>, \<open>used_chunk_list.inl\<close>): the chunks an application
  holds at a port, in an array with a used list and a free list threaded through an index array.
  RouDi calls \<open>cleanup\<close> for an application that died; then the index array may be in any state.

  A \<open>SharedChunk\<close> that is passed by value belongs to the callee: \<open>insert\<close> stores it or destroys it.
\<close>

record used_chunk_list =
  ucl_synchronizer :: bool
  ucl_usedListHead :: u32
  ucl_freeListHead :: u32
  ucl_listIndices :: "u32 list"
  ucl_listData :: "shm_safe_unmanaged_chunk list"

definition UsedChunkList_insert ::
  "u32 \<Rightarrow> shared_chunk \<Rightarrow> used_chunk_list \<Rightarrow> shm \<Rightarrow> (bool \<times> used_chunk_list \<times> shm) outcome" where
  "UsedChunkList_insert Capacity chunk l S =
     (let hasFreeSpace = (ucl_freeListHead l \<noteq> Capacity)
      in if hasFreeSpace
         then (let nextFree = ucl_listIndices l ! unat (ucl_freeListHead l);
                   newHead = ucl_freeListHead l
               in Inr (True,
                    l\<lparr> ucl_listIndices := (ucl_listIndices l)[unat newHead := ucl_usedListHead l],
                       ucl_usedListHead := newHead,
                       ucl_listData := (ucl_listData l)[unat newHead := ShmSafeUnmanagedChunk_ctor chunk],
                       ucl_freeListHead := nextFree,
                       ucl_synchronizer := False \<rparr>, S))
         else obind (SharedChunk_dtor chunk S) (\<lambda>S'. Inr (False, l, S')))"

text \<open>The loop of \<open>remove\<close>: the entry with the chunk header and its predecessor.\<close>

partial_function (option) UsedChunkList_find ::
  "u32 \<Rightarrow> address pointer \<Rightarrow> used_chunk_list \<Rightarrow> shm \<Rightarrow> u32 \<Rightarrow> u32 \<Rightarrow> (u32 \<times> u32) option option" where
  "UsedChunkList_find Capacity chunkHeader l S previous current =
     (if current = Capacity then Some None
      else if ucl_listData l ! unat current \<noteq> None \<and>
              unmanaged_getChunkHeader (ucl_listData l ! unat current) S = chunkHeader
      then Some (Some (previous, current))
      else UsedChunkList_find Capacity chunkHeader l S current (ucl_listIndices l ! unat current))"

text \<open>\<open>chunk\<close> is the value of the out parameter before the call.\<close>

definition UsedChunkList_remove ::
  "u32 \<Rightarrow> address pointer \<Rightarrow> shared_chunk \<Rightarrow> used_chunk_list \<Rightarrow> shm \<Rightarrow>
     (bool \<times> shared_chunk \<times> used_chunk_list \<times> shm) outcome" where
  "UsedChunkList_remove Capacity chunkHeader chunk l S =
     obind (returns (UsedChunkList_find Capacity chunkHeader l S Capacity (ucl_usedListHead l))) (\<lambda>found.
       case found of None \<Rightarrow> Inr (False, chunk, l, S)
       | Some (previous, current) \<Rightarrow>
           (case releaseToSharedChunk (ucl_listData l ! unat current) of (released, remaining) \<Rightarrow>
            obind (SharedChunk_move_assign chunk released S) (\<lambda>(chunk', _, S').
              let l1 = l\<lparr> ucl_listData := (ucl_listData l)[unat current := remaining] \<rparr>;
                  l2 = (if current = ucl_usedListHead l1
                        then l1\<lparr> ucl_usedListHead := ucl_listIndices l1 ! unat current \<rparr>
                        else l1\<lparr> ucl_listIndices :=
                               (ucl_listIndices l1)[unat previous := ucl_listIndices l1 ! unat current] \<rparr>);
                  l3 = l2\<lparr> ucl_listIndices := (ucl_listIndices l2)[unat current := ucl_freeListHead l2],
                           ucl_freeListHead := current, ucl_synchronizer := False \<rparr>
              in Inr (True, chunk', l3, S'))))"

text \<open>
  \<open>data.releaseToSharedChunk()\<close> for all elements of the array: each temporary \<open>SharedChunk\<close> is
  destroyed at once.
\<close>

primrec release_data :: "shm_safe_unmanaged_chunk list \<Rightarrow> shm \<Rightarrow> (shm_safe_unmanaged_chunk list \<times> shm) outcome" where
  "release_data [] S = Inr ([], S)"
| "release_data (d # ds) S =
     (case releaseToSharedChunk d of (temporary, d') \<Rightarrow>
      obind (SharedChunk_dtor temporary S) (\<lambda>S1.
      obind (release_data ds S1) (\<lambda>(ds', S2). Inr (d' # ds', S2))))"

definition UsedChunkList_init :: "u32 \<Rightarrow> used_chunk_list \<Rightarrow> shm \<Rightarrow> (used_chunk_list \<times> shm) outcome" where
  "UsedChunkList_init Capacity l S =
     (let built = foldl (\<lambda>xs i. xs[i := of_nat i + 1]) (ucl_listIndices l) [0..<unat Capacity];
          indices = (if Capacity > 0 then built[unat (Capacity - 1) := Capacity] else built[0 := Capacity])
      in obind (release_data (ucl_listData l) S) (\<lambda>(data, S').
         Inr (l\<lparr> ucl_listIndices := indices, ucl_usedListHead := Capacity, ucl_freeListHead := 0,
                ucl_listData := data, ucl_synchronizer := False \<rparr>, S')))"

text \<open>The constructor; \<open>indices\<close> is the uninitialised array.\<close>

definition UsedChunkList_ctor :: "u32 \<Rightarrow> u32 list \<Rightarrow> shm \<Rightarrow> (used_chunk_list \<times> shm) outcome" where
  "UsedChunkList_ctor Capacity indices S =
     UsedChunkList_init Capacity
       \<lparr> ucl_synchronizer = False, ucl_usedListHead = Capacity, ucl_freeListHead = 0, ucl_listIndices = indices,
         ucl_listData = replicate (unat Capacity) None \<rparr> S"

primrec cleanup_data :: "shm_safe_unmanaged_chunk list \<Rightarrow> shm \<Rightarrow> (shm_safe_unmanaged_chunk list \<times> shm) outcome" where
  "cleanup_data [] S = Inr ([], S)"
| "cleanup_data (d # ds) S =
     (if d \<noteq> None
      then (case releaseToSharedChunk d of (temporary, d') \<Rightarrow>
            obind (SharedChunk_dtor temporary S) (\<lambda>S1.
            obind (cleanup_data ds S1) (\<lambda>(ds', S2). Inr (d' # ds', S2))))
      else obind (cleanup_data ds S) (\<lambda>(ds', S2). Inr (d # ds', S2)))"

definition UsedChunkList_cleanup :: "u32 \<Rightarrow> used_chunk_list \<Rightarrow> shm \<Rightarrow> (used_chunk_list \<times> shm) outcome" where
  "UsedChunkList_cleanup Capacity l S =
     (let l0 = l\<lparr> ucl_synchronizer := True \<rparr>
      in obind (cleanup_data (ucl_listData l0) S) (\<lambda>(data, S').
         UsedChunkList_init Capacity (l0\<lparr> ucl_listData := data \<rparr>) S'))"

subsection \<open>Representation\<close>

text \<open>The used list holds the chunks \<open>ms\<close>, the newest first.\<close>

definition ucl_shape :: "u32 \<Rightarrow> used_chunk_list \<Rightarrow> u32 list \<Rightarrow> u32 list \<Rightarrow> bool" where
  "ucl_shape Capacity l us fs \<longleftrightarrow>
     0 < Capacity \<and> length (ucl_listIndices l) = unat Capacity \<and> length (ucl_listData l) = unat Capacity \<and>
     linked (ucl_listIndices l) Capacity (ucl_usedListHead l) us \<and>
     linked (ucl_listIndices l) Capacity (ucl_freeListHead l) fs \<and>
     distinct (us @ fs) \<and> set us \<union> set fs = {i. i < Capacity} \<and>
     (\<forall>i\<in>set fs. ucl_listData l ! unat i = None)"

definition ucl_rep :: "u32 \<Rightarrow> used_chunk_list \<Rightarrow> address list \<Rightarrow> bool" where
  "ucl_rep Capacity l ms \<longleftrightarrow>
     (\<exists>us fs. ucl_shape Capacity l us fs \<and> map (\<lambda>i. ucl_listData l ! unat i) us = map Some ms)"

lemma ucl_shape_length: "ucl_shape Capacity l us fs \<Longrightarrow> length us + length fs = unat Capacity"
proof -
  assume "ucl_shape Capacity l us fs"
  then have "length (us @ fs) = card {i. i < Capacity}"
    unfolding ucl_shape_def by (metis distinct_card set_append)
  then show ?thesis by (simp add: card_below_u32)
qed

lemma ucl_rep_length: "ucl_rep Capacity l ms \<Longrightarrow> length ms \<le> unat Capacity"
  unfolding ucl_rep_def using ucl_shape_length by (metis le_add1 length_map)

lemma linked_remove:
  "linked nxt n i (pre @ x # post) \<Longrightarrow> distinct (pre @ x # post) \<Longrightarrow> pre \<noteq> [] \<Longrightarrow> unat n \<le> length nxt \<Longrightarrow>
     linked (nxt[unat (last pre) := nxt ! unat x]) n i (pre @ post)"
proof (induction pre arbitrary: i)
  case (Cons a pre)
  have a: "i = a" "a < n" "unat a < length nxt" using Cons.prems by (auto simp: word_less_nat_alt)
  show ?case
  proof (cases pre)
    case Nil
    with Cons.prems a show ?thesis by (auto intro: linked_update)
  next
    case (Cons b pre')
    then have "a \<noteq> last pre" using Cons.prems(2) by (auto dest: last_in_set)
    then show ?thesis using Cons.IH [of "nxt ! unat a"] Cons.prems Cons a by (simp add: word_unat_eq_iff)
  qed
qed simp

subsection \<open>Operations\<close>

lemma UsedChunkList_insert_ok:
  assumes "ucl_rep Capacity l ms" "length ms < unat Capacity"
  obtains l' where "UsedChunkList_insert Capacity (Some m) l S = Inr (True, l', S)" "ucl_rep Capacity l' (m # ms)"
proof -
  obtain us fs where sh: "ucl_shape Capacity l us fs" and d: "map (\<lambda>i. ucl_listData l ! unat i) us = map Some ms"
    using assms(1) by (auto simp: ucl_rep_def)
  from d have "length us = length ms" by (metis length_map)
  with ucl_shape_length [OF sh] assms(2) obtain f fs' where fs: "fs = f # fs'" by (cases fs) auto
  from sh fs have f: "ucl_freeListHead l = f" "f < Capacity" "f \<notin> set us" "f \<notin> set fs'"
    by (auto simp: ucl_shape_def)
  then have uf: "unat f < unat Capacity" by (simp add: word_less_nat_alt)
  define l' where "l' = l\<lparr> ucl_listIndices := (ucl_listIndices l)[unat f := ucl_usedListHead l],
    ucl_usedListHead := f, ucl_listData := (ucl_listData l)[unat f := Some m],
    ucl_freeListHead := ucl_listIndices l ! unat f, ucl_synchronizer := False \<rparr>"
  have other: "(ucl_listData l)[unat f := Some m] ! unat i = ucl_listData l ! unat i" if "i \<noteq> f" for i
    using that by (simp add: word_unat_eq_iff)
  have data: "ucl_listData l' = (ucl_listData l)[unat f := Some m]" by (simp add: l'_def)
  have "UsedChunkList_insert Capacity (Some m) l S = Inr (True, l', S)"
    using f by (auto simp: UsedChunkList_insert_def ShmSafeUnmanagedChunk_ctor_def l'_def)
  moreover have "ucl_shape Capacity l' (f # us) fs'"
  proof -
    have "\<forall>i\<in>set fs'. (ucl_listData l)[unat f := Some m] ! unat i = None"
      using other f(4) fs sh unfolding ucl_shape_def by (metis list.set_intros(2))
    then show ?thesis using sh fs f uf unfolding ucl_shape_def l'_def by (auto intro: linked_update)
  qed
  moreover have "map (\<lambda>i. ucl_listData l' ! unat i) (f # us) = map Some (m # ms)"
  proof -
    have "map (\<lambda>i. ucl_listData l' ! unat i) us = map (\<lambda>i. ucl_listData l ! unat i) us"
      using f(3) by (intro map_cong refl) (metis data other)
    moreover have "ucl_listData l' ! unat f = Some m" using uf sh by (simp add: l'_def ucl_shape_def)
    ultimately show ?thesis using d by simp
  qed
  ultimately show thesis using that unfolding ucl_rep_def by blast
qed

lemma UsedChunkList_insert_full:
  assumes "ucl_rep Capacity l ms" "length ms = unat Capacity"
  shows "UsedChunkList_insert Capacity chunk l S = obind (SharedChunk_dtor chunk S) (\<lambda>S'. Inr (False, l, S'))"
proof -
  obtain us fs where sh: "ucl_shape Capacity l us fs" and d: "map (\<lambda>i. ucl_listData l ! unat i) us = map Some ms"
    using assms(1) by (auto simp: ucl_rep_def)
  from d have "length us = length ms" by (metis length_map)
  with ucl_shape_length [OF sh] assms(2) have "fs = []" by simp
  with sh show ?thesis by (simp add: UsedChunkList_insert_def ucl_shape_def)
qed

lemma UsedChunkList_find_none:
  "linked (ucl_listIndices l) Capacity current us \<Longrightarrow>
   \<forall>i\<in>set us. unmanaged_getChunkHeader (ucl_listData l ! unat i) S \<noteq> hdr \<Longrightarrow>
   UsedChunkList_find Capacity hdr l S previous current = Some None"
  by (induction us arbitrary: previous current) (auto simp: UsedChunkList_find.simps)

lemma UsedChunkList_find_some:
  "linked (ucl_listIndices l) Capacity current (pre @ x # post) \<Longrightarrow>
   \<forall>i\<in>set pre. unmanaged_getChunkHeader (ucl_listData l ! unat i) S \<noteq> hdr \<Longrightarrow>
   ucl_listData l ! unat x \<noteq> None \<Longrightarrow> unmanaged_getChunkHeader (ucl_listData l ! unat x) S = hdr \<Longrightarrow>
   UsedChunkList_find Capacity hdr l S previous current = Some (Some (last (previous # pre), x))"
proof (induction pre arbitrary: previous current)
  case Nil
  then show ?case by (auto simp: UsedChunkList_find.simps)
next
  case (Cons a pre)
  from Cons.prems have "UsedChunkList_find Capacity hdr l S previous current =
      UsedChunkList_find Capacity hdr l S a (ucl_listIndices l ! unat a)"
    by (subst UsedChunkList_find.simps) auto
  also have "\<dots> = Some (Some (last (a # pre), x))" using Cons.prems by (intro Cons.IH) auto
  finally show ?case by simp
qed

lemma UsedChunkList_remove_found:
  assumes "ucl_rep Capacity l (pre @ m # post)"
    and "\<forall>x\<in>set pre. unmanaged_getChunkHeader (Some x) S \<noteq> hdr" "unmanaged_getChunkHeader (Some m) S = hdr"
  obtains l' where "UsedChunkList_remove Capacity hdr None l S = Inr (True, Some m, l', S)"
    "ucl_rep Capacity l' (pre @ post)"
proof -
  obtain us fs where sh: "ucl_shape Capacity l us fs"
    and d: "map (\<lambda>i. ucl_listData l ! unat i) us = map Some pre @ Some m # map Some post"
    using assms(1) by (auto simp: ucl_rep_def)
  from d obtain upre x upost where us: "us = upre @ x # upost"
    and dpre: "map (\<lambda>i. ucl_listData l ! unat i) upre = map Some pre" and dx: "ucl_listData l ! unat x = Some m"
    and dpost: "map (\<lambda>i. ucl_listData l ! unat i) upost = map Some post"
    by (auto simp: map_eq_append_conv map_eq_Cons_conv)
  from sh us have x: "x < Capacity" "x \<notin> set upre" "x \<notin> set upost" "x \<notin> set fs" "unat x < unat Capacity"
    by (auto simp: ucl_shape_def word_less_nat_alt dest: linked_bound)
  have no: "\<forall>i\<in>set upre. unmanaged_getChunkHeader (ucl_listData l ! unat i) S \<noteq> hdr"
  proof
    fix i assume "i \<in> set upre"
    from map_eq_SomeD [OF dpre this] obtain y where "y \<in> set pre" "ucl_listData l ! unat i = Some y" .
    then show "unmanaged_getChunkHeader (ucl_listData l ! unat i) S \<noteq> hdr" using assms(2) by auto
  qed
  let ?p = "last (Capacity # upre)"
  have find: "UsedChunkList_find Capacity hdr l S Capacity (ucl_usedListHead l) = Some (Some (?p, x))"
    using sh us no dx assms(3) by (intro UsedChunkList_find_some) (auto simp: ucl_shape_def)
  have head: "x = ucl_usedListHead l \<longleftrightarrow> upre = []"
    using sh us x(2) by (cases upre) (auto simp: ucl_shape_def)
  define idx where "idx = (if upre = [] then ucl_listIndices l
    else (ucl_listIndices l)[unat ?p := ucl_listIndices l ! unat x])"
  define hd' where "hd' = (if upre = [] then ucl_listIndices l ! unat x else ucl_usedListHead l)"
  define l' where "l' = l\<lparr> ucl_listData := (ucl_listData l)[unat x := None], ucl_usedListHead := hd',
    ucl_listIndices := idx[unat x := ucl_freeListHead l], ucl_freeListHead := x, ucl_synchronizer := False \<rparr>"
  have result: "UsedChunkList_remove Capacity hdr None l S = Inr (True, Some m, l', S)"
    using dx head by (auto simp: UsedChunkList_remove_def find releaseToSharedChunk_def SharedChunk_move_assign_def
        decrementReferenceCounter_def Let_def l'_def idx_def hd'_def)
  have other: "ucl_listData l' ! unat i = ucl_listData l ! unat i" if "i \<noteq> x" for i
    using that by (simp add: l'_def word_unat_eq_iff)
  have dat: "map (\<lambda>i. ucl_listData l' ! unat i) (upre @ upost) = map Some (pre @ post)"
  proof -
    have "map (\<lambda>i. ucl_listData l' ! unat i) upre = map (\<lambda>i. ucl_listData l ! unat i) upre"
      "map (\<lambda>i. ucl_listData l' ! unat i) upost = map (\<lambda>i. ucl_listData l ! unat i) upost"
      using other x(2,3) by (intro map_cong refl; metis)+
    then show ?thesis using dpre dpost by simp
  qed
  have lk: "linked idx Capacity hd' (upre @ upost)" "linked idx Capacity (ucl_freeListHead l) fs"
    "length idx = unat Capacity"
  proof -
    have "?p \<notin> set fs" if "upre \<noteq> []" using sh us last_in_set [OF that] unfolding ucl_shape_def
      by (auto simp del: last_in_set)
    then show "linked idx Capacity (ucl_freeListHead l) fs"
      using sh by (auto simp: idx_def ucl_shape_def intro: linked_update)
    show "linked idx Capacity hd' (upre @ upost)"
      using sh us linked_remove [of "ucl_listIndices l" Capacity "ucl_usedListHead l" upre x upost]
      by (auto simp: idx_def hd'_def ucl_shape_def)
    show "length idx = unat Capacity" using sh by (simp add: idx_def ucl_shape_def)
  qed
  have "ucl_shape Capacity l' (upre @ upost) (x # fs)"
  proof -
    have "linked (idx[unat x := ucl_freeListHead l]) Capacity hd' (upre @ upost)"
      "linked (idx[unat x := ucl_freeListHead l]) Capacity (ucl_freeListHead l) fs"
      using lk x by (auto intro: linked_update)
    moreover have "\<forall>i\<in>set fs. ucl_listData l' ! unat i = None"
      using other x(4) sh unfolding ucl_shape_def by metis
    moreover have "insert x (set upre \<union> set upost \<union> set fs) = {i. i < Capacity}"
      using sh us by (auto simp: ucl_shape_def)
    ultimately show ?thesis using sh us x lk(3) by (auto simp: ucl_shape_def l'_def)
  qed
  with dat have "ucl_rep Capacity l' (pre @ post)" unfolding ucl_rep_def by blast
  with result show thesis by (rule that)
qed

lemma UsedChunkList_remove_unknown:
  assumes "ucl_rep Capacity l ms" "\<forall>x\<in>set ms. unmanaged_getChunkHeader (Some x) S \<noteq> hdr"
  shows "UsedChunkList_remove Capacity hdr chunk l S = Inr (False, chunk, l, S)"
proof -
  obtain us fs where sh: "ucl_shape Capacity l us fs" and d: "map (\<lambda>i. ucl_listData l ! unat i) us = map Some ms"
    using assms(1) by (auto simp: ucl_rep_def)
  have "\<forall>i\<in>set us. unmanaged_getChunkHeader (ucl_listData l ! unat i) S \<noteq> hdr"
  proof
    fix i assume "i \<in> set us"
    from map_eq_SomeD [OF d this] obtain y where "y \<in> set ms" "ucl_listData l ! unat i = Some y" .
    then show "unmanaged_getChunkHeader (ucl_listData l ! unat i) S \<noteq> hdr" using assms(2) by auto
  qed
  then have "UsedChunkList_find Capacity hdr l S Capacity (ucl_usedListHead l) = Some None"
    using sh by (intro UsedChunkList_find_none) (auto simp: ucl_shape_def)
  then show ?thesis by (simp add: UsedChunkList_remove_def)
qed

subsection \<open>Clean-up\<close>

text \<open>The chunks in an array of unmanaged chunks.\<close>

definition stored_chunks :: "shm_safe_unmanaged_chunk list \<Rightarrow> address list" where
  "stored_chunks ds = map the (filter (\<lambda>d. d \<noteq> None) ds)"

lemma release_data_null: "release_data (replicate n None) S = Inr (replicate n None, S)"
  by (induction n) (auto simp: releaseToSharedChunk_def SharedChunk_dtor_def decrementReferenceCounter_def)

lemma cleanup_data_eq:
  "cleanup_data ds S =
     obind (release_list release_chunk (stored_chunks ds) S) (\<lambda>S'. Inr (replicate (length ds) None, S'))"
proof (induction ds arbitrary: S)
  case (Cons d ds)
  show ?case
  proof (cases d)
    case None
    then show ?thesis using Cons.IH [of S]
      by (cases "release_list release_chunk (stored_chunks ds) S") (auto simp: stored_chunks_def)
  next
    case (Some m)
    show ?thesis
    proof (cases "release_chunk m S")
      case (Inl e)
      then show ?thesis using Some by (simp add: stored_chunks_def releaseToSharedChunk_def release_chunk_def)
    next
      case (Inr S1)
      then have "SharedChunk_dtor (Some m) S = Inr S1" by (simp add: release_chunk_def)
      then show ?thesis using Some Cons.IH [of S1] Inr
        by (cases "release_list release_chunk (stored_chunks ds) S1")
          (auto simp: stored_chunks_def releaseToSharedChunk_def)
    qed
  qed
qed (simp add: stored_chunks_def)

lemma UsedChunkList_init_empty:
  assumes "0 < Capacity" "length (ucl_listIndices l) = unat Capacity" "ucl_listData l = replicate (unat Capacity) None"
  obtains l' where "UsedChunkList_init Capacity l S = Inr (l', S)" "ucl_rep Capacity l' []"
proof -
  let ?n = "unat Capacity"
  have n: "0 < ?n" using assms(1) by (simp add: word_less_nat_alt)
  define built where "built = foldl (\<lambda>xs i. xs[i := of_nat i + (1 :: u32)]) (ucl_listIndices l) [0..<?n]"
  define idx where "idx = built[unat (Capacity - 1) := Capacity]"
  have pred: "unat (Capacity - 1) = ?n - 1" using n by (subst unat_sub_no_wrap) (auto simp: word_le_nat_alt)
  have built: "length built = ?n" "\<forall>j<?n. built ! j = of_nat j + 1"
    using foldl_list_update [of "\<lambda>i. of_nat i + 1" "ucl_listIndices l" "[0..<?n]"] assms(2)
    by (simp_all add: built_def)
  have idx: "length idx = ?n" "\<forall>j<?n. idx ! j = of_nat j + 1"
    using built n pred by (auto simp: idx_def nth_list_update of_nat_diff)
  define l' where "l' = l\<lparr> ucl_listIndices := idx, ucl_usedListHead := Capacity, ucl_freeListHead := 0,
    ucl_listData := replicate ?n None, ucl_synchronizer := False \<rparr>"
  have "UsedChunkList_init Capacity l S = Inr (l', S)"
    using assms(1,3) by (simp add: UsedChunkList_init_def Let_def release_data_null l'_def idx_def built_def)
  moreover have "ucl_shape Capacity l' [] (map of_nat [0..<?n])"
  proof -
    have "linked idx (of_nat ?n) (of_nat (?n - ?n)) (map of_nat [?n - ?n..<?n])"
      using idx(2) u32_unat_less [of Capacity] by (intro linked_initial) auto
    then have "linked idx Capacity 0 (map of_nat [0..<?n])" by simp
    moreover note upt_below_u32 [of Capacity]
    ultimately show ?thesis using assms(1) idx(1) unfolding ucl_shape_def l'_def
      by (simp add: word_less_nat_alt)
  qed
  ultimately show thesis using that unfolding ucl_rep_def by fastforce
qed

lemma UsedChunkList_ctor_ok:
  assumes "0 < Capacity" "length indices = unat Capacity"
  obtains l where "UsedChunkList_ctor Capacity indices S = Inr (l, S)" "ucl_rep Capacity l []"
proof -
  let ?l = "\<lparr> ucl_synchronizer = False, ucl_usedListHead = Capacity, ucl_freeListHead = 0, ucl_listIndices = indices,
    ucl_listData = replicate (unat Capacity) None \<rparr>"
  obtain l where "UsedChunkList_init Capacity ?l S = Inr (l, S)" "ucl_rep Capacity l []"
    using UsedChunkList_init_empty [of Capacity ?l S] assms by auto
  then show thesis using that by (simp add: UsedChunkList_ctor_def)
qed

subsection \<open>Header addresses identify chunks\<close>

lemma getChunkHeader_owned:
  assumes "shm_inv S Os" "m \<in># Os"
  shows "unmanaged_getChunkHeader (Some m) S = Some (snd (fst (chunk_content S m)))"
    "SharedChunk_getChunkHeader (Some m) S = Some (snd (fst (chunk_content S m)))"
proof -
  obtain cm where "shm_managements S m = Some cm" by (rule shm_inv_management [OF assms])
  then show "unmanaged_getChunkHeader (Some m) S = Some (snd (fst (chunk_content S m)))"
    "SharedChunk_getChunkHeader (Some m) S = Some (snd (fst (chunk_content S m)))"
    by (simp_all add: unmanaged_getChunkHeader_def SharedChunk_getChunkHeader_def chunk_content_def chunk_of_def)
qed

lemma header_address_inj:
  assumes "shm_inv S Os" "x \<in># Os" "y \<in># Os" "snd (fst (chunk_content S x)) = snd (fst (chunk_content S y))"
  shows "x = y"
proof -
  let ?ps = "mm_memPoolVector (shm_manager S)" and ?c = "chunk_of (shm_managements S)"
  obtain M where M: "set_mset Os = used_chunks M" "bij_betw ?c (used_chunks M) (used_pairs ?ps)" "pools_ok ?ps"
    by (rule shm_invD [OF assms(1)])
  have u: "?c z \<in> used_pairs ?ps" if "z \<in># Os" for z using that M by (metis bij_betw_apply)
  obtain i j a where c: "?c x = (i, a)" "?c y = (j, a)"
    using assms(4) by (metis chunk_content_def fst_conv prod.collapse)
  with u [OF assms(2)] u [OF assms(3)] have ij: "i < length ?ps" "j < length ?ps"
    "a \<in> used_chunks (?ps ! i)" "a \<in> used_chunks (?ps ! j)" by (auto simp: used_pairs_mem)
  then have "a \<in> layout_slots (pool_layout (?ps ! i)) \<inter> layout_slots (pool_layout (?ps ! j))"
    using mem_pool.used_slots M(3) pool_ok_nth by blast
  then have "i = j" using M(3) ij(1,2) unfolding pools_ok_def by blast
  with c M assms(2,3) show ?thesis by (metis bij_betw_imp_inj_on inj_on_eq_iff)
qed

lemma UsedChunkList_remove_owned:
  assumes "ucl_rep Capacity l ms" "shm_inv S Os" "set ms \<subseteq> set_mset Os" "m \<in> set ms"
  obtains l' where
    "UsedChunkList_remove Capacity (Some (snd (fst (chunk_content S m)))) None l S = Inr (True, Some m, l', S)"
    "ucl_rep Capacity l' (remove1 m ms)"
proof -
  obtain pre post where ms: "ms = pre @ m # post" "m \<notin> set pre" using assms(4) by (meson split_list_first)
  have m: "m \<in># Os" using assms(3,4) by blast
  have "unmanaged_getChunkHeader (Some x) S \<noteq> Some (snd (fst (chunk_content S m)))" if "x \<in> set pre" for x
  proof -
    have "x \<in># Os" "x \<noteq> m" using that ms assms(3) by auto
    then show ?thesis using header_address_inj [OF assms(2)] m by (auto simp: getChunkHeader_owned [OF assms(2)])
  qed
  moreover have "unmanaged_getChunkHeader (Some m) S = Some (snd (fst (chunk_content S m)))"
    by (rule getChunkHeader_owned [OF assms(2) m])
  ultimately obtain l' where
    "UsedChunkList_remove Capacity (Some (snd (fst (chunk_content S m)))) None l S = Inr (True, Some m, l', S)"
    "ucl_rep Capacity l' (pre @ post)"
    using UsedChunkList_remove_found [of Capacity l pre m post S] assms(1) ms(1) by blast
  then show thesis using that ms by (simp add: remove1_append)
qed

lemma UsedChunkList_remove_foreign:
  assumes "ucl_rep Capacity l ms" "shm_inv S Os" "set ms \<subseteq> set_mset Os"
    and "\<forall>m\<in>set ms. hdr \<noteq> Some (snd (fst (chunk_content S m)))"
  shows "UsedChunkList_remove Capacity hdr chunk l S = Inr (False, chunk, l, S)"
proof (rule UsedChunkList_remove_unknown [OF assms(1)], intro ballI)
  fix x assume "x \<in> set ms"
  then show "unmanaged_getChunkHeader (Some x) S \<noteq> hdr"
    using assms(3,4) getChunkHeader_owned(1) [OF assms(2)] by fastforce
qed

lemma UsedChunkList_cleanup_ok:
  assumes "0 < Capacity" "length (ucl_listIndices l) = unat Capacity" "length (ucl_listData l) = unat Capacity"
    and "shm_inv S (mset (stored_chunks (ucl_listData l)) + Os)"
  obtains l' S' where "UsedChunkList_cleanup Capacity l S = Inr (l', S')" "ucl_rep Capacity l' []" "shm_inv S' Os"
    "\<forall>m. m \<in># Os \<longrightarrow> chunk_content S' m = chunk_content S m"
proof -
  from shm.release_list_ok [OF assms(4)]
  obtain S' where S': "release_list release_chunk (stored_chunks (ucl_listData l)) S = Inr S'" "shm_inv S' Os"
    "\<forall>m. m \<in># Os \<longrightarrow> chunk_content S' m = chunk_content S m" by blast
  let ?l = "l\<lparr> ucl_synchronizer := True, ucl_listData := replicate (unat Capacity) None \<rparr>"
  obtain l' where l': "UsedChunkList_init Capacity ?l S' = Inr (l', S')" "ucl_rep Capacity l' []"
    using UsedChunkList_init_empty [of Capacity ?l S'] assms(1,2) by auto
  have "UsedChunkList_cleanup Capacity l S = Inr (l', S')"
    using S'(1) l'(1) assms(3) by (simp add: UsedChunkList_cleanup_def cleanup_data_eq)
  from this l'(2) S'(2,3) show thesis by (rule that)
qed

lemma stored_chunks_rep:
  assumes "ucl_rep Capacity l ms" shows "mset (stored_chunks (ucl_listData l)) = mset ms"
proof -
  let ?d = "ucl_listData l"
  obtain us fs where sh: "ucl_shape Capacity l us fs" and d: "map (\<lambda>i. ?d ! unat i) us = map Some ms"
    using assms by (auto simp: ucl_rep_def)
  have "distinct (map unat (us @ fs))"
    using sh by (simp add: ucl_shape_def distinct_map inj_on_def word_unat_eq_iff del: map_append)
  moreover have "set (map unat (us @ fs)) = {..<length ?d}"
    using sh unat_image_below [of Capacity] unfolding ucl_shape_def by (metis set_append set_map)
  ultimately have "mset (map unat (us @ fs)) = mset [0..<length ?d]"
    by (metis atLeast_upt distinct_upt set_eq_iff_mset_eq_distinct)
  then have "mset (map (\<lambda>i. ?d ! i) (map unat (us @ fs))) = mset (map (\<lambda>i. ?d ! i) [0..<length ?d])"
    by (metis mset_map)
  moreover have "map (\<lambda>i. ?d ! unat i) fs = replicate (length fs) None"
    using sh by (intro replicate_eqI) (auto simp: ucl_shape_def)
  ultimately have "mset ?d = mset (map Some ms @ replicate (length fs) None)"
    using d by (simp add: map_nth comp_def)
  then have "mset (filter (\<lambda>x. x \<noteq> None) ?d) = mset (filter (\<lambda>x. x \<noteq> None) (map Some ms @ replicate (length fs) None))"
    by (metis mset_filter)
  also have "filter (\<lambda>x. x \<noteq> None) (map Some ms @ replicate (length fs) None) = map Some ms"
    by (simp add: filter_map comp_def filter_replicate)
  finally show ?thesis unfolding stored_chunks_def by (metis (no_types, lifting) map_map mset_map list.map_id comp_the_Some)
qed

text \<open>
  C21: after the death of an application, whatever state it left the index arrays in, \<open>cleanup\<close>
  gives back exactly the chunks stored in the list: it returns, the owners that remain are the
  others, their chunks are untouched, and the list is empty and usable again.
\<close>

theorem used_chunk_list_cleanup_releases_all:
  assumes "0 < Capacity" "length (ucl_listIndices l) = unat Capacity" "length (ucl_listData l) = unat Capacity"
    and "shm_inv S (mset (stored_chunks (ucl_listData l)) + Os)"
  shows "\<exists>l' S'. UsedChunkList_cleanup Capacity l S = Inr (l', S') \<and> ucl_rep Capacity l' [] \<and> shm_inv S' Os \<and>
    (\<forall>m. m \<in># Os \<longrightarrow> chunk_content S' m = chunk_content S m)"
proof -
  obtain l' S' where "UsedChunkList_cleanup Capacity l S = Inr (l', S')" "ucl_rep Capacity l' []" "shm_inv S' Os"
    "\<forall>m. m \<in># Os \<longrightarrow> chunk_content S' m = chunk_content S m"
    by (rule UsedChunkList_cleanup_ok [OF assms])
  then show ?thesis by blast
qed

lemma used_chunk_list_cleanup_releases_all_witness:
  "\<exists>m S l' S'. MemoryManager_getChunk example_settings example_shm = Inr (Inr (Some m), S) \<and>
     UsedChunkList_cleanup 2 \<lparr> ucl_synchronizer = False, ucl_usedListHead = 1, ucl_freeListHead = 1,
       ucl_listIndices = [1, 1], ucl_listData = [None, Some m] \<rparr> S = Inr (l', S') \<and>
     ucl_rep 2 l' [] \<and> shm_inv S' {#}"
proof -
  obtain m S where S: "MemoryManager_getChunk example_settings example_shm = Inr (Inr (Some m), S)" "shm_inv S {#m#}"
    by (rule example_chunk)
  let ?l = "\<lparr> ucl_synchronizer = False, ucl_usedListHead = 1, ucl_freeListHead = 1,
    ucl_listIndices = [1, 1 :: u32], ucl_listData = [None, Some m] \<rparr>"
  have "shm_inv S (mset (stored_chunks (ucl_listData ?l)) + {#})" using S(2) by (simp add: stored_chunks_def)
  from used_chunk_list_cleanup_releases_all [OF _ _ _ this, of 2] S(1) show ?thesis by auto
qed

end
