(* ===== verification/Index_Queue.thy ===== *)
theory Index_Queue
  imports Prelude
begin

section \<open>Cyclic indices and the index queue\<close>

text \<open>
  \<open>concurrent::CyclicIndex\<close> (\<open>cyclic_index.hpp\<close>, \<open>cyclic_index.inl\<close>) and \<open>concurrent::IndexQueue\<close>
  (\<open>index_queue.hpp\<close>, \<open>index_queue.inl\<close>), the ring of index cells in which every cell and both
  positions carry a cycle counter. The template parameter \<open>Capacity\<close> is the first argument of
  the functions.

  The operations are executed one after the other. A compare-and-swap is written as the code
  has it, with the reloaded value when it fails; the retry loops of \<open>push\<close> and \<open>pop\<close> are partial
  functions, for which \<open>None\<close> means that the loop does not end, so that their termination is a
  theorem and not an assumption of the model.
\<close>

type_synonym cyclic_index = u64

definition getIndex :: "u64 \<Rightarrow> cyclic_index \<Rightarrow> u64" where
  "getIndex CycleLength v = v mod CycleLength"

definition getCycle :: "u64 \<Rightarrow> cyclic_index \<Rightarrow> u64" where
  "getCycle CycleLength v = v div CycleLength"

definition CyclicIndex_ctor :: "u64 \<Rightarrow> u64 \<Rightarrow> u64 \<Rightarrow> cyclic_index" where
  "CyclicIndex_ctor CycleLength index cycle = index + cycle * CycleLength"

definition cyclic_plus :: "u64 \<Rightarrow> cyclic_index \<Rightarrow> u64 \<Rightarrow> cyclic_index" where
  "cyclic_plus CycleLength m_value v =
     (let delta = - 1 - v
      in if delta < m_value
         then (let OVERFLOW_START_INDEX = (- 1 mod CycleLength + 1) mod CycleLength;
                   delta' = m_value - delta - 1
               in OVERFLOW_START_INDEX + delta')
         else m_value + v)"

definition isOneCycleBehind :: "u64 \<Rightarrow> cyclic_index \<Rightarrow> cyclic_index \<Rightarrow> bool" where
  "isOneCycleBehind CycleLength this other \<longleftrightarrow>
     (let thisCycle = getCycle CycleLength this; otherCycle = getCycle CycleLength other
      in if thisCycle = - 1 div CycleLength then otherCycle = 0 else thisCycle + 1 = otherCycle)"

definition cyclic_minus :: "cyclic_index \<Rightarrow> cyclic_index \<Rightarrow> int" where
  "cyclic_minus lhs rhs = sint (lhs - rhs)"

record index_queue =
  iq_cells :: "cyclic_index list"
  iq_readPosition :: cyclic_index
  iq_writePosition :: cyclic_index

definition IndexQueue_ConstructEmpty :: "u64 \<Rightarrow> index_queue" where
  "IndexQueue_ConstructEmpty Capacity =
     \<lparr> iq_cells = replicate (unat Capacity) 0, iq_readPosition = Capacity, iq_writePosition = Capacity \<rparr>"

definition IndexQueue_ConstructFull :: "u64 \<Rightarrow> index_queue" where
  "IndexQueue_ConstructFull Capacity =
     \<lparr> iq_cells = map of_nat [0..<unat Capacity], iq_readPosition = 0, iq_writePosition = Capacity \<rparr>"

definition loadvalueAt :: "u64 \<Rightarrow> cyclic_index \<Rightarrow> index_queue \<Rightarrow> cyclic_index" where
  "loadvalueAt Capacity position q = iq_cells q ! unat (getIndex Capacity position)"

text \<open>
  \<open>compare_exchange\<close> on the write and on the read position: success, the value of \<open>expected\<close>
  afterwards, and the queue.
\<close>

definition cas_writePosition :: "cyclic_index \<Rightarrow> cyclic_index \<Rightarrow> index_queue \<Rightarrow> bool \<times> cyclic_index \<times> index_queue" where
  "cas_writePosition expected desired q =
     (if iq_writePosition q = expected then (True, expected, q\<lparr> iq_writePosition := desired \<rparr>)
      else (False, iq_writePosition q, q))"

definition cas_readPosition :: "cyclic_index \<Rightarrow> cyclic_index \<Rightarrow> index_queue \<Rightarrow> bool \<times> cyclic_index \<times> index_queue" where
  "cas_readPosition expected desired q =
     (if iq_readPosition q = expected then (True, expected, q\<lparr> iq_readPosition := desired \<rparr>)
      else (False, iq_readPosition q, q))"

partial_function (option) IndexQueue_push_loop ::
  "u64 \<Rightarrow> u64 \<Rightarrow> cyclic_index \<Rightarrow> index_queue \<Rightarrow> (cyclic_index \<times> index_queue) option" where
  "IndexQueue_push_loop Capacity index writePosition q =
     (let oldValue = loadvalueAt Capacity writePosition q
      in if isOneCycleBehind Capacity oldValue writePosition
         then (let newValue = CyclicIndex_ctor Capacity index (getCycle Capacity writePosition)
               in Some (writePosition,
                    q\<lparr> iq_cells := (iq_cells q)[unat (getIndex Capacity writePosition) := newValue] \<rparr>))
         else if getCycle Capacity oldValue = getCycle Capacity writePosition
         then (case cas_writePosition writePosition (cyclic_plus Capacity writePosition 1) q of
                 (_, writePosition', q') \<Rightarrow> IndexQueue_push_loop Capacity index writePosition' q')
         else IndexQueue_push_loop Capacity index (iq_writePosition q) q)"

definition IndexQueue_push :: "u64 \<Rightarrow> u64 \<Rightarrow> index_queue \<Rightarrow> index_queue option" where
  "IndexQueue_push Capacity index q =
     map_option (\<lambda>(writePosition, q'). snd (snd (cas_writePosition writePosition
         (cyclic_plus Capacity writePosition 1) q')))
       (IndexQueue_push_loop Capacity index (iq_writePosition q) q)"

partial_function (option) IndexQueue_pop_loop ::
  "u64 \<Rightarrow> cyclic_index \<Rightarrow> index_queue \<Rightarrow> (u64 option \<times> index_queue) option" where
  "IndexQueue_pop_loop Capacity readPosition q =
     (let val = loadvalueAt Capacity readPosition q
      in if getCycle Capacity readPosition = getCycle Capacity val
         then (case cas_readPosition readPosition (cyclic_plus Capacity readPosition 1) q of
                 (ownershipGained, readPosition', q') \<Rightarrow>
                   if ownershipGained then Some (Some (getIndex Capacity val), q')
                   else IndexQueue_pop_loop Capacity readPosition' q')
         else if isOneCycleBehind Capacity val readPosition then Some (None, q)
         else IndexQueue_pop_loop Capacity (iq_readPosition q) q)"

definition IndexQueue_pop :: "u64 \<Rightarrow> index_queue \<Rightarrow> (u64 option \<times> index_queue) option" where
  "IndexQueue_pop Capacity q = IndexQueue_pop_loop Capacity (iq_readPosition q) q"

definition IndexQueue_popIfFull :: "u64 \<Rightarrow> index_queue \<Rightarrow> u64 option \<times> index_queue" where
  "IndexQueue_popIfFull Capacity q =
     (let writePosition = iq_writePosition q; readPosition = iq_readPosition q;
          val = loadvalueAt Capacity readPosition q;
          isFull = (getIndex Capacity writePosition = getIndex Capacity readPosition \<and>
                    isOneCycleBehind Capacity readPosition writePosition)
      in if isFull
         then (case cas_readPosition readPosition (cyclic_plus Capacity readPosition 1) q of
                 (ownershipGained, _, q') \<Rightarrow>
                   if ownershipGained then (Some (getIndex Capacity val), q') else (None, q'))
         else (None, q))"

definition IndexQueue_popIfSizeIsAtLeast :: "u64 \<Rightarrow> u64 \<Rightarrow> index_queue \<Rightarrow> (u64 option \<times> index_queue) option" where
  "IndexQueue_popIfSizeIsAtLeast Capacity requiredSize q =
     (if requiredSize = 0 then IndexQueue_pop Capacity q
      else (let writePosition = iq_writePosition q; readPosition = iq_readPosition q;
                delta = cyclic_minus writePosition readPosition
            in if delta < 0 then Some (None, q)
               else if (of_int delta :: u64) \<ge> requiredSize
               then (let val = loadvalueAt Capacity readPosition q
                     in case cas_readPosition readPosition (cyclic_plus Capacity readPosition 1) q of
                          (ownershipGained, _, q') \<Rightarrow>
                            if ownershipGained then Some (Some (getIndex Capacity val), q') else Some (None, q'))
               else Some (None, q)))"

definition IndexQueue_empty :: "u64 \<Rightarrow> index_queue \<Rightarrow> bool" where
  "IndexQueue_empty Capacity q =
     isOneCycleBehind Capacity (loadvalueAt Capacity (iq_readPosition q) q) (iq_readPosition q)"

subsection \<open>Refinement to lists\<close>

text \<open>
  \<open>iq_rep Capacity b q L\<close>: the queue contains the indices \<open>L\<close>, and its 64-bit positions leave room
  for \<open>b\<close> more operations. The cell of an occupied position holds its index and the cycle of
  the position, the cell of a free one carries the previous cycle.
\<close>

definition iq_rep :: "u64 \<Rightarrow> nat \<Rightarrow> index_queue \<Rightarrow> u64 list \<Rightarrow> bool" where
  "iq_rep Capacity b q L \<longleftrightarrow>
     0 < unat Capacity \<and> length (iq_cells q) = unat Capacity \<and>
     unat (iq_writePosition q) = unat (iq_readPosition q) + length L \<and> length L \<le> unat Capacity \<and>
     unat (iq_writePosition q) + 2 * unat Capacity + b < 2 ^ 63 \<and>
     (\<forall>k<unat Capacity.
        let p = unat (iq_readPosition q) + k; c = unat (iq_cells q ! (p mod unat Capacity))
        in if k < length L then unat (L ! k) < unat Capacity \<and>
             c = unat (L ! k) + p div unat Capacity * unat Capacity
           else c div unat Capacity + 1 = p div unat Capacity)"

lemma unat_getIndex: "unat (getIndex C v) = unat v mod unat C"
  by (simp add: getIndex_def unat_mod_distrib)

lemma unat_getCycle: "unat (getCycle C v) = unat v div unat C"
  by (simp add: getCycle_def unat_div_distrib)

lemma getCycle_eq_iff: "getCycle C v = getCycle C w \<longleftrightarrow> unat v div unat C = unat w div unat C"
  by (simp add: word_unat_eq_iff unat_getCycle)

lemma cyclic_plus_1: "unat v < 2 ^ 64 - 1 \<Longrightarrow> cyclic_plus C v 1 = v + 1"
proof -
  assume v: "unat v < 2 ^ 64 - 1"
  have "unat (- 1 - 1 :: u64) = 2 ^ 64 - 2" by simp
  then have "\<not> (- 1 - 1 :: u64) < v" using v by (simp add: word_less_nat_alt)
  then show ?thesis by (simp add: cyclic_plus_def Let_def)
qed

lemma unat_plus_1: "unat (v :: u64) < 2 ^ 64 - 1 \<Longrightarrow> unat (v + 1) = unat v + 1"
  by (subst unat_add_no_wrap) auto

lemma isOneCycleBehind_iff:
  assumes "0 < unat C" "unat w + unat C < 2 ^ 64" "unat v + unat C < 2 ^ 64"
  shows "isOneCycleBehind C v w \<longleftrightarrow> unat v div unat C + 1 = unat w div unat C"
proof -
  have m: "unat (- 1 div C) = (2 ^ 64 - 1) div unat C"
    by (simp add: unat_div_distrib unsigned_minus_1_eq_mask mask_eq_exp_minus_1)
  have "unat v + unat C \<le> 2 ^ 64 - 1" using assms(3) by simp
  then have "(unat v + unat C) div unat C \<le> (2 ^ 64 - 1) div unat C" by (rule div_le_mono)
  moreover have "(unat v + unat C) div unat C = unat v div unat C + 1"
    using assms(1) by (intro div_add_self2) auto
  ultimately have lt: "unat v div unat C < (2 ^ 64 - 1) div unat C" by linarith
  then have ne: "getCycle C v \<noteq> - 1 div C" by (metis m unat_getCycle less_irrefl)
  have "unat v div unat C + 1 < 2 ^ 64"
    using lt div_le_dividend [of "2 ^ 64 - 1" "unat C"] by linarith
  then have "unat (getCycle C v + 1) = unat v div unat C + 1"
    by (subst unat_add_no_wrap) (auto simp: unat_getCycle)
  then show ?thesis using ne
    by (simp add: isOneCycleBehind_def Let_def word_unat_eq_iff [of "getCycle C v + 1"] unat_getCycle)
qed

lemma unat_CyclicIndex_ctor:
  assumes "unat i < unat C" "unat w + unat C < 2 ^ 64"
  shows "unat (CyclicIndex_ctor C i (getCycle C w)) = unat i + unat w div unat C * unat C"
proof -
  have le: "unat w div unat C * unat C \<le> unat w" by simp
  have "unat w div unat C * unat C < 2 ^ 64" by (rule le_less_trans [OF le]) (use assms(2) in simp)
  then have "unat (getCycle C w * C) = unat w div unat C * unat C"
    by (subst unat_mult_no_wrap) (simp_all add: unat_getCycle)
  moreover have "unat i + unat w div unat C * unat C < 2 ^ 64" using assms le by linarith
  ultimately show ?thesis unfolding CyclicIndex_ctor_def by (subst unat_add_no_wrap) simp_all
qed

lemma iq_repD:
  assumes "iq_rep C b q L"
  shows "0 < unat C" "length (iq_cells q) = unat C" "length L \<le> unat C"
    "unat (iq_writePosition q) = unat (iq_readPosition q) + length L"
    "unat (iq_writePosition q) + 2 * unat C + b < 2 ^ 63"
  using assms by (simp_all add: iq_rep_def)

lemma iq_rep_used:
  assumes "iq_rep C b q L" "k < length L"
  shows "unat (L ! k) < unat C"
    "unat (iq_cells q ! ((unat (iq_readPosition q) + k) mod unat C)) =
       unat (L ! k) + (unat (iq_readPosition q) + k) div unat C * unat C"
  using assms iq_repD(3) [OF assms(1)] by (auto simp: iq_rep_def Let_def)

lemma iq_rep_free:
  assumes "iq_rep C b q L" "length L \<le> k" "k < unat C"
  shows "unat (iq_cells q ! ((unat (iq_readPosition q) + k) mod unat C)) div unat C + 1 =
    (unat (iq_readPosition q) + k) div unat C"
  using assms by (auto simp: iq_rep_def Let_def)

lemma mod_neq_close: "a < b \<Longrightarrow> b - a < c \<Longrightarrow> a mod c \<noteq> b mod (c :: nat)"
proof
  assume "a < b" "b - a < c" "a mod c = b mod c"
  then have "c dvd b - a" by (metis mod_eq_dvd_iff_nat less_imp_le)
  with \<open>a < b\<close> \<open>b - a < c\<close> show False by (auto dest: dvd_imp_le)
qed

lemma add_mult_div_eq: "(x :: nat) < c \<Longrightarrow> (x + y * c) div c = y"
  by simp

lemma iq_load_read: "loadvalueAt C (iq_readPosition q) q = iq_cells q ! (unat (iq_readPosition q) mod unat C)"
  by (simp add: loadvalueAt_def unat_getIndex)

text \<open>The oldest index is at the read position, and it can be taken from there.\<close>

lemma iq_rep_head:
  assumes "iq_rep C b q (x # L)"
  defines "v \<equiv> loadvalueAt C (iq_readPosition q) q"
  shows "getIndex C v = x" "getCycle C (iq_readPosition q) = getCycle C v"
    "cyclic_plus C (iq_readPosition q) 1 = iq_readPosition q + 1"
    "\<not> isOneCycleBehind C v (iq_readPosition q)"
proof -
  let ?r = "unat (iq_readPosition q)"
  have x: "unat x < unat C" and v: "unat v = unat x + ?r div unat C * unat C"
    using iq_rep_used [OF assms(1), of 0] by (simp_all add: v_def iq_load_read)
  note D = iq_repD [OF assms(1)]
  show "getIndex C v = x" using x by (simp add: word_unat_eq_iff unat_getIndex v)
  have cyc: "unat v div unat C = ?r div unat C" unfolding v by (rule add_mult_div_eq) (rule x)
  then show "getCycle C (iq_readPosition q) = getCycle C v" by (simp add: getCycle_eq_iff)
  show "cyclic_plus C (iq_readPosition q) 1 = iq_readPosition q + 1"
    using D(4,5) by (intro cyclic_plus_1) simp
  have "?r div unat C * unat C \<le> ?r" by simp
  then have "unat v \<le> ?r + unat C" using v x by linarith
  then show "\<not> isOneCycleBehind C v (iq_readPosition q)"
    using D cyc by (subst isOneCycleBehind_iff) auto
qed

lemma iq_rep_pop:
  assumes "iq_rep C b q (x # L)"
  shows "iq_rep C b (q\<lparr> iq_readPosition := iq_readPosition q + 1 \<rparr>) L"
proof -
  let ?r = "unat (iq_readPosition q)"
  note D = iq_repD [OF assms]
  have r1: "unat (iq_readPosition q + 1) = ?r + 1" using D(4,5) by (intro unat_plus_1) simp
  have "let p = ?r + 1 + k; c = unat (iq_cells q ! (p mod unat C))
      in if k < length L then unat (L ! k) < unat C \<and> c = unat (L ! k) + p div unat C * unat C
         else c div unat C + 1 = p div unat C" if "k < unat C" for k
  proof -
    have "k + 1 < unat C \<or> k + 1 = unat C" using that by linarith
    then consider "k < length L" | "length L \<le> k" "k + 1 < unat C" | "length L \<le> k" "k + 1 = unat C"
      using not_less by blast
    then show ?thesis
    proof cases
      case 1
      then show ?thesis using iq_rep_used [OF assms, of "k + 1"] by (simp add: Let_def)
    next
      case 2
      then show ?thesis using iq_rep_free [OF assms, of "k + 1"] by (simp add: Let_def)
    next
      case 3
      have x: "unat x < unat C" "unat (iq_cells q ! (?r mod unat C)) = unat x + ?r div unat C * unat C"
        using iq_rep_used [OF assms, of 0] by simp_all
      have e: "?r + 1 + k = ?r + unat C" using 3 by simp
      have "unat (iq_cells q ! (?r mod unat C)) div unat C = ?r div unat C"
        unfolding x(2) by (rule add_mult_div_eq) (rule x)
      then show ?thesis unfolding e Let_def using 3 D(1) by (simp add: div_add_self2)
    qed
  qed
  then show ?thesis using D unfolding iq_rep_def by (simp add: r1)
qed

lemma IndexQueue_pop_Cons:
  assumes "iq_rep C b q (x # L)"
  shows "IndexQueue_pop C q = Some (Some x, q\<lparr> iq_readPosition := iq_readPosition q + 1 \<rparr>)"
  using iq_rep_head [OF assms]
  by (simp add: IndexQueue_pop_def IndexQueue_pop_loop.simps cas_readPosition_def Let_def)

lemma iq_rep_Nil:
  assumes "iq_rep C b q []"
  defines "v \<equiv> loadvalueAt C (iq_readPosition q) q"
  shows "isOneCycleBehind C v (iq_readPosition q)" "getCycle C (iq_readPosition q) \<noteq> getCycle C v"
proof -
  note D = iq_repD [OF assms(1)]
  have c: "unat v div unat C + 1 = unat (iq_readPosition q) div unat C"
    using iq_rep_free [OF assms(1), of 0] D(1) by (simp add: v_def iq_load_read)
  then show "getCycle C (iq_readPosition q) \<noteq> getCycle C v" by (simp add: getCycle_eq_iff)
  have "unat v < (unat v div unat C + 1) * unat C"
    using D(1) by (metis Suc_eq_plus1 dividend_less_times_div mult.commute mult_Suc_right add.commute)
  also have "\<dots> \<le> unat (iq_readPosition q)" unfolding c by simp
  finally show "isOneCycleBehind C v (iq_readPosition q)"
    using D c by (subst isOneCycleBehind_iff) auto
qed

lemma IndexQueue_pop_Nil: "iq_rep C b q [] \<Longrightarrow> IndexQueue_pop C q = Some (None, q)"
  using iq_rep_Nil [of C b q]
  by (simp add: IndexQueue_pop_def IndexQueue_pop_loop.simps Let_def)

lemma IndexQueue_empty_iff: "iq_rep C b q L \<Longrightarrow> IndexQueue_empty C q \<longleftrightarrow> L = []"
  using iq_rep_Nil(1) [of C b q] iq_rep_head(4) [of C b q]
  by (cases L) (auto simp: IndexQueue_empty_def)

lemma IndexQueue_push_ok:
  assumes "iq_rep C (Suc b) q L" "length L < unat C" "unat i < unat C"
  obtains q' where "IndexQueue_push C i q = Some q'" "iq_rep C b q' (L @ [i])"
proof -
  let ?r = "unat (iq_readPosition q)" and ?w = "unat (iq_writePosition q)"
  note D = iq_repD [OF assms(1)]
  define v where "v = loadvalueAt C (iq_writePosition q) q"
  have v: "v = iq_cells q ! (?w mod unat C)" by (simp add: v_def loadvalueAt_def unat_getIndex)
  have c: "unat v div unat C + 1 = ?w div unat C"
    using iq_rep_free [OF assms(1), of "length L"] assms(2) D(4) v by simp
  have "unat v < (unat v div unat C + 1) * unat C"
    using D(1) by (metis Suc_eq_plus1 dividend_less_times_div mult.commute mult_Suc_right add.commute)
  also have "\<dots> \<le> ?w" unfolding c by simp
  finally have behind: "isOneCycleBehind C v (iq_writePosition q)"
    using D c by (subst isOneCycleBehind_iff) auto
  let ?n = "CyclicIndex_ctor C i (getCycle C (iq_writePosition q))"
  define q' where "q' = q\<lparr> iq_cells := (iq_cells q)[?w mod unat C := ?n],
    iq_writePosition := iq_writePosition q + 1 \<rparr>"
  have w1: "cyclic_plus C (iq_writePosition q) 1 = iq_writePosition q + 1" "unat (iq_writePosition q + 1) = ?w + 1"
    using D(5) by (simp_all add: cyclic_plus_1 unat_plus_1)
  have push: "IndexQueue_push C i q = Some q'"
    using behind w1 by (simp add: IndexQueue_push_def IndexQueue_push_loop.simps Let_def v_def [symmetric]
        cas_writePosition_def q'_def unat_getIndex)
  have n: "unat ?n = unat i + ?w div unat C * unat C"
    using D(5) assms(3) by (intro unat_CyclicIndex_ctor) auto
  have "let p = ?r + k; c = unat (iq_cells q' ! (p mod unat C))
      in if k < length (L @ [i]) then unat ((L @ [i]) ! k) < unat C \<and> c = unat ((L @ [i]) ! k) + p div unat C * unat C
         else c div unat C + 1 = p div unat C" if k: "k < unat C" for k
  proof -
    have len: "?w mod unat C < length (iq_cells q)" using D by simp
    consider "k < length L" | "k = length L" | "length L < k" by linarith
    then show ?thesis
    proof cases
      case 1
      then have "(?r + k) mod unat C \<noteq> ?w mod unat C" using D(4) assms(2) by (intro mod_neq_close) auto
      then show ?thesis using 1 iq_rep_used [OF assms(1) 1] by (simp add: Let_def q'_def nth_append)
    next
      case 2
      then show ?thesis using D(4) assms(3) len n by (simp add: Let_def q'_def)
    next
      case 3
      then have "?w mod unat C \<noteq> (?r + k) mod unat C" using D(4) k by (intro mod_neq_close) auto
      then show ?thesis using 3 iq_rep_free [OF assms(1) _ k] by (simp add: Let_def q'_def)
    qed
  qed
  then have "iq_rep C b q' (L @ [i])"
    using D assms(2) unfolding iq_rep_def by (simp add: q'_def w1)
  with push show thesis by (rule that)
qed

lemma IndexQueue_popIfSizeIsAtLeast_Cons:
  assumes "iq_rep C b q (x # L)"
  shows "IndexQueue_popIfSizeIsAtLeast C n q =
    (if unat n \<le> length (x # L) then Some (Some x, q\<lparr> iq_readPosition := iq_readPosition q + 1 \<rparr>)
     else Some (None, q))"
proof -
  note D = iq_repD [OF assms]
  have "unat (iq_writePosition q - iq_readPosition q) = length (x # L)"
    using D(4) by (subst unat_sub_no_wrap) auto
  then have u: "uint (iq_writePosition q - iq_readPosition q) = int (length (x # L))"
    by (simp add: uint_nat)
  have lt: "int (length (x # L)) < 2 ^ 63" using D(4,5) by simp
  have s: "cyclic_minus (iq_writePosition q) (iq_readPosition q) = int (length (x # L))"
    unfolding cyclic_minus_def sint_uint u using lt by (intro signed_take_bit_int_eq_self) simp_all
  have "unat (of_int (int (length (x # L))) :: u64) = length (x # L)"
    unfolding of_int_of_nat_eq using lt by (intro unat_of_nat_u64) simp
  then show ?thesis
    using s iq_rep_head [OF assms] IndexQueue_pop_Cons [OF assms] unfolding IndexQueue_popIfSizeIsAtLeast_def
    by (auto simp: Let_def cas_readPosition_def word_le_nat_alt simp del: length_Cons of_int_of_nat_eq of_nat_Suc)
qed

lemma IndexQueue_popIfSizeIsAtLeast_Nil:
  assumes "iq_rep C b q []"
  shows "IndexQueue_popIfSizeIsAtLeast C n q = Some (None, q)"
proof -
  have "iq_writePosition q - iq_readPosition q = 0"
    using iq_repD(4) [OF assms] by (simp add: word_unat_eq_iff [of "iq_writePosition q" "iq_readPosition q", symmetric])
  then show ?thesis using IndexQueue_pop_Nil [OF assms]
    by (auto simp: IndexQueue_popIfSizeIsAtLeast_def cyclic_minus_def Let_def word_le_nat_alt unat_eq_0)
qed

lemma IndexQueue_popIfFull_iff:
  assumes "iq_rep C b q (x # L)"
  shows "IndexQueue_popIfFull C q =
    (if length (x # L) = unat C then (Some x, q\<lparr> iq_readPosition := iq_readPosition q + 1 \<rparr>) else (None, q))"
proof -
  let ?r = "unat (iq_readPosition q)" and ?w = "unat (iq_writePosition q)"
  note D = iq_repD [OF assms]
  have "getIndex C (iq_writePosition q) = getIndex C (iq_readPosition q) \<longleftrightarrow> ?w mod unat C = ?r mod unat C"
    by (simp add: word_unat_eq_iff unat_getIndex)
  also have "\<dots> \<longleftrightarrow> length (x # L) = unat C"
  proof
    assume m: "?w mod unat C = ?r mod unat C"
    show "length (x # L) = unat C"
    proof (rule ccontr)
      assume "length (x # L) \<noteq> unat C"
      then have "?r mod unat C \<noteq> ?w mod unat C" using D(3,4) by (intro mod_neq_close) auto
      with m show False by simp
    qed
  qed (simp add: D(4))
  finally have full: "getIndex C (iq_writePosition q) = getIndex C (iq_readPosition q) \<longleftrightarrow> length (x # L) = unat C" .
  have "isOneCycleBehind C (iq_readPosition q) (iq_writePosition q)" if "length (x # L) = unat C"
  proof -
    have "?w = ?r + unat C" using that D(4) by simp
    then have "?w div unat C = ?r div unat C + 1" using D(1) by (simp add: div_add_self2)
    then show ?thesis using D by (subst isOneCycleBehind_iff) auto
  qed
  then show ?thesis using full iq_rep_head [OF assms]
    by (auto simp: IndexQueue_popIfFull_def Let_def cas_readPosition_def simp del: length_Cons)
qed

lemma IndexQueue_ConstructEmpty_rep:
  assumes "0 < unat C" "3 * unat C + b < 2 ^ 63"
  shows "iq_rep C b (IndexQueue_ConstructEmpty C) []"
proof -
  have "(unat C + k) div unat C = 1" if "k < unat C" for k using that by (simp add: div_add_self1)
  then show ?thesis using assms by (simp add: iq_rep_def IndexQueue_ConstructEmpty_def Let_def)
qed

lemma IndexQueue_ConstructFull_rep:
  assumes "0 < unat C" "3 * unat C + b < 2 ^ 63"
  shows "iq_rep C b (IndexQueue_ConstructFull C) (map of_nat [0..<unat C])"
proof -
  have "unat (of_nat k :: u64) = k" if "k < unat C" for k
    using that assms(2) by (intro unat_of_nat_u64) simp
  then show ?thesis using assms by (simp add: iq_rep_def IndexQueue_ConstructFull_def Let_def)
qed

lemma iq_rep_mono: "iq_rep C b q L \<Longrightarrow> b' \<le> b \<Longrightarrow> iq_rep C b' q L"
  by (auto simp: iq_rep_def)

end
