(* ===== verification/Lock_Free_Queue.thy ===== *)
theory Lock_Free_Queue
  imports Index_Queue
begin

section \<open>Lock-free queues\<close>

text \<open>
  \<open>concurrent::LockFreeQueue\<close> (\<open>lockfree_queue.hpp\<close>, \<open>lockfree_queue.inl\<close>) and
  \<open>concurrent::ResizeableLockFreeQueue\<close> (\<open>resizeable_lockfree_queue.hpp\<close>,
  \<open>resizeable_lockfree_queue.inl\<close>): two index queues over a buffer, and their extension by a
  capacity that can be changed. The inheritance is an extension of the record. A cell of the
  buffer is \<open>None\<close> while no element is constructed in it.

  As in \<open>Index_Queue\<close>, the operations run one after the other, the loops are partial functions
  and \<open>None\<close> is the result of a loop that does not end.
\<close>

record 'a lockfree_queue =
  lq_freeIndices :: index_queue
  lq_usedIndices :: index_queue
  lq_buffer :: "'a option list"
  lq_size :: u64

record 'a resizeable_lockfree_queue = "'a lockfree_queue" +
  rq_capacity :: u64
  rq_resizeInProgress :: bool
  rq_unusedIndices :: "u64 list"

definition ResizeableLockFreeQueue_ctor :: "u64 \<Rightarrow> 'a resizeable_lockfree_queue" where
  "ResizeableLockFreeQueue_ctor MaxCapacity =
     \<lparr> lq_freeIndices = IndexQueue_ConstructFull MaxCapacity,
       lq_usedIndices = IndexQueue_ConstructEmpty MaxCapacity,
       lq_buffer = replicate (unat MaxCapacity) None, lq_size = 0,
       rq_capacity = MaxCapacity, rq_resizeInProgress = False, rq_unusedIndices = [] \<rparr>"

definition readBufferAt :: "u64 \<Rightarrow> ('a, 'z) lockfree_queue_scheme \<Rightarrow> 'a option \<times> ('a, 'z) lockfree_queue_scheme" where
  "readBufferAt index q =
     (lq_buffer q ! unat index,
      q\<lparr> lq_size := lq_size q - 1, lq_buffer := (lq_buffer q)[unat index := None] \<rparr>)"

definition writeBufferAt :: "u64 \<Rightarrow> 'a \<Rightarrow> ('a, 'z) lockfree_queue_scheme \<Rightarrow> ('a, 'z) lockfree_queue_scheme" where
  "writeBufferAt index v q =
     q\<lparr> lq_buffer := (lq_buffer q)[unat index := Some v], lq_size := lq_size q + 1 \<rparr>"

text \<open>The calls of the two index queues of a queue.\<close>

definition popFree :: "u64 \<Rightarrow> ('a, 'z) lockfree_queue_scheme \<Rightarrow> (u64 option \<times> ('a, 'z) lockfree_queue_scheme) option" where
  "popFree C q = map_option (\<lambda>(i, f). (i, q\<lparr> lq_freeIndices := f \<rparr>)) (IndexQueue_pop C (lq_freeIndices q))"

definition pushFree :: "u64 \<Rightarrow> u64 \<Rightarrow> ('a, 'z) lockfree_queue_scheme \<Rightarrow> ('a, 'z) lockfree_queue_scheme option" where
  "pushFree C i q = map_option (\<lambda>f. q\<lparr> lq_freeIndices := f \<rparr>) (IndexQueue_push C i (lq_freeIndices q))"

definition pushUsed :: "u64 \<Rightarrow> u64 \<Rightarrow> ('a, 'z) lockfree_queue_scheme \<Rightarrow> ('a, 'z) lockfree_queue_scheme option" where
  "pushUsed C i q = map_option (\<lambda>u. q\<lparr> lq_usedIndices := u \<rparr>) (IndexQueue_push C i (lq_usedIndices q))"

definition LockFreeQueue_tryPush ::
  "u64 \<Rightarrow> 'a \<Rightarrow> ('a, 'z) lockfree_queue_scheme \<Rightarrow> (bool \<times> ('a, 'z) lockfree_queue_scheme) option" where
  "LockFreeQueue_tryPush C v q =
     Option.bind (popFree C q) (\<lambda>(index, q1). case index of None \<Rightarrow> Some (False, q1)
       | Some i \<Rightarrow> Option.bind (pushUsed C i (writeBufferAt i v q1)) (\<lambda>q2. Some (True, q2)))"

definition LockFreeQueue_pop ::
  "u64 \<Rightarrow> ('a, 'z) lockfree_queue_scheme \<Rightarrow> ('a option \<times> ('a, 'z) lockfree_queue_scheme) option" where
  "LockFreeQueue_pop C q =
     Option.bind (IndexQueue_pop C (lq_usedIndices q)) (\<lambda>(index, u).
       case index of None \<Rightarrow> Some (None, q\<lparr> lq_usedIndices := u \<rparr>)
       | Some i \<Rightarrow> (case readBufferAt i (q\<lparr> lq_usedIndices := u \<rparr>) of (result, q2) \<Rightarrow>
           Option.bind (pushFree C i q2) (\<lambda>q3. Some (result, q3))))"

definition LockFreeQueue_empty :: "u64 \<Rightarrow> ('a, 'z) lockfree_queue_scheme \<Rightarrow> bool" where
  "LockFreeQueue_empty C q = IndexQueue_empty C (lq_usedIndices q)"

definition tryGetUsedIndex ::
  "u64 \<Rightarrow> 'a resizeable_lockfree_queue \<Rightarrow> (u64 option \<times> 'a resizeable_lockfree_queue) option" where
  "tryGetUsedIndex C q =
     map_option (\<lambda>(i, u). (i, q\<lparr> lq_usedIndices := u \<rparr>))
       (IndexQueue_popIfSizeIsAtLeast C (rq_capacity q) (lq_usedIndices q))"

text \<open>The loop of \<open>pushImpl\<close>: an index to write to, and the evicted value.\<close>

partial_function (option) acquire_index ::
  "u64 \<Rightarrow> 'a resizeable_lockfree_queue \<Rightarrow> (u64 \<times> 'a option \<times> 'a resizeable_lockfree_queue) option" where
  "acquire_index C q =
     Option.bind (popFree C q) (\<lambda>(index, q1). case index of Some i \<Rightarrow> Some (i, None, q1)
       | None \<Rightarrow> Option.bind (tryGetUsedIndex C q1) (\<lambda>(index', q2). case index' of
             Some i \<Rightarrow> (case readBufferAt i q2 of (evicted, q3) \<Rightarrow> Some (i, evicted, q3))
           | None \<Rightarrow> acquire_index C q2))"

definition ResizeableLockFreeQueue_push ::
  "u64 \<Rightarrow> 'a \<Rightarrow> 'a resizeable_lockfree_queue \<Rightarrow> ('a option \<times> 'a resizeable_lockfree_queue) option" where
  "ResizeableLockFreeQueue_push C v q =
     Option.bind (acquire_index C q) (\<lambda>(i, evicted, q1).
       Option.bind (pushUsed C i (writeBufferAt i v q1)) (\<lambda>q2. Some (evicted, q2)))"

partial_function (option) increaseCapacity ::
  "u64 \<Rightarrow> u64 \<Rightarrow> u64 \<Rightarrow> 'a resizeable_lockfree_queue \<Rightarrow> (u64 \<times> 'a resizeable_lockfree_queue) option" where
  "increaseCapacity C toIncrease increased q =
     (if increased < toIncrease then
        (if rq_unusedIndices q = [] then Some (increased, q)
         else Option.bind (pushFree C (last (rq_unusedIndices q)) (q\<lparr> rq_capacity := rq_capacity q + 1 \<rparr>)) (\<lambda>q1.
                increaseCapacity C toIncrease (increased + 1)
                  (q1\<lparr> rq_unusedIndices := butlast (rq_unusedIndices q1) \<rparr>)))
      else Some (increased, q))"

text \<open>
  The two inner loops of \<open>decreaseCapacity\<close>; the first component of the result says whether the
  capacity 0 was reached, upon which the function returns.
\<close>

definition retire_index :: "u64 \<Rightarrow> 'a resizeable_lockfree_queue \<Rightarrow> bool \<times> 'a resizeable_lockfree_queue" where
  "retire_index i q =
     (rq_capacity q = 1, q\<lparr> rq_unusedIndices := rq_unusedIndices q @ [i], rq_capacity := rq_capacity q - 1 \<rparr>)"

partial_function (option) decrease_free ::
  "u64 \<Rightarrow> u64 \<Rightarrow> u64 \<Rightarrow> 'a resizeable_lockfree_queue \<Rightarrow> (bool \<times> u64 \<times> 'a resizeable_lockfree_queue) option" where
  "decrease_free C toDecrease decreased q =
     (if decreased < toDecrease then
        Option.bind (popFree C q) (\<lambda>(index, q1). case index of None \<Rightarrow> Some (False, decreased, q1)
          | Some i \<Rightarrow> (case retire_index i q1 of (zero, q2) \<Rightarrow>
              if zero then Some (True, decreased + 1, q2) else decrease_free C toDecrease (decreased + 1) q2))
      else Some (False, decreased, q))"

partial_function (option) decrease_used ::
  "u64 \<Rightarrow> u64 \<Rightarrow> u64 \<Rightarrow> 'a list \<Rightarrow> 'a resizeable_lockfree_queue
    \<Rightarrow> (bool \<times> u64 \<times> 'a list \<times> 'a resizeable_lockfree_queue) option" where
  "decrease_used C toDecrease decreased removed q =
     (if decreased < toDecrease then
        Option.bind (tryGetUsedIndex C q) (\<lambda>(index, q1). case index of None \<Rightarrow> Some (False, decreased, removed, q1)
          | Some i \<Rightarrow> (case readBufferAt i q1 of (result, q2) \<Rightarrow> (case retire_index i q2 of (zero, q3) \<Rightarrow>
              (let removed' = removed @ (case result of None \<Rightarrow> [] | Some x \<Rightarrow> [x])
               in if zero then Some (True, decreased + 1, removed', q3)
                  else decrease_used C toDecrease (decreased + 1) removed' q3))))
      else Some (False, decreased, removed, q))"

partial_function (option) decreaseCapacity ::
  "u64 \<Rightarrow> u64 \<Rightarrow> u64 \<Rightarrow> 'a list \<Rightarrow> 'a resizeable_lockfree_queue
    \<Rightarrow> (u64 \<times> 'a list \<times> 'a resizeable_lockfree_queue) option" where
  "decreaseCapacity C toDecrease decreased removed q =
     (if decreased < toDecrease then
        Option.bind (decrease_free C toDecrease decreased q) (\<lambda>(zero, d1, q1).
          if zero then Some (d1, removed, q1)
          else Option.bind (decrease_used C toDecrease d1 removed q1) (\<lambda>(zero', d2, removed', q2).
                 if zero' then Some (d2, removed', q2)
                 else decreaseCapacity C toDecrease d2 removed' q2))
      else Some (decreased, removed, q))"

partial_function (option) setCapacity_loop ::
  "u64 \<Rightarrow> u64 \<Rightarrow> 'a list \<Rightarrow> 'a resizeable_lockfree_queue \<Rightarrow> ('a list \<times> 'a resizeable_lockfree_queue) option" where
  "setCapacity_loop C newCapacity removed q =
     (let cap = rq_capacity q
      in if cap \<noteq> newCapacity then
           (if cap < newCapacity
            then Option.bind (increaseCapacity C (newCapacity - cap) 0 q) (\<lambda>(_, q1).
                   setCapacity_loop C newCapacity removed q1)
            else Option.bind (decreaseCapacity C (cap - newCapacity) 0 removed q) (\<lambda>(_, removed', q1).
                   setCapacity_loop C newCapacity removed' q1))
         else Some (removed, q))"

text \<open>The removed elements, which the code passes to the remove handler, are part of the result.\<close>

definition ResizeableLockFreeQueue_setCapacity ::
  "u64 \<Rightarrow> u64 \<Rightarrow> 'a resizeable_lockfree_queue \<Rightarrow> (bool \<times> 'a list \<times> 'a resizeable_lockfree_queue) option" where
  "ResizeableLockFreeQueue_setCapacity C newCapacity q =
     (if newCapacity > C then Some (False, [], q)
      else if rq_resizeInProgress q then Some (False, [], q)
      else Option.bind (setCapacity_loop C newCapacity [] (q\<lparr> rq_resizeInProgress := True \<rparr>)) (\<lambda>(removed, q1).
             Some (True, removed, q1\<lparr> rq_resizeInProgress := False \<rparr>)))"

subsection \<open>Refinement to lists\<close>

text \<open>
  The indices are partitioned into the free ones \<open>F\<close>, the used ones \<open>U\<close> and the retired ones;
  the used ones point to the elements in the order of the queue.
\<close>

definition lq_rep :: "u64 \<Rightarrow> nat \<Rightarrow> 'a resizeable_lockfree_queue \<Rightarrow> u64 list \<Rightarrow> u64 list \<Rightarrow> 'a list \<Rightarrow> bool" where
  "lq_rep C b q F U xs \<longleftrightarrow>
     iq_rep C b (lq_freeIndices q) F \<and> iq_rep C b (lq_usedIndices q) U \<and>
     length (lq_buffer q) = unat C \<and> distinct (F @ U @ rq_unusedIndices q) \<and>
     (\<forall>i\<in>set (F @ U @ rq_unusedIndices q). unat i < unat C) \<and>
     length F + length U = unat (rq_capacity q) \<and>
     length F + length U + length (rq_unusedIndices q) = unat C \<and>
     map (\<lambda>i. lq_buffer q ! unat i) U = map Some xs \<and> unat (lq_size q) = length xs"

lemma lq_repD:
  assumes "lq_rep C b q F U xs"
  shows "iq_rep C b (lq_freeIndices q) F" "iq_rep C b (lq_usedIndices q) U" "length U = length xs"
    "length F + length U = unat (rq_capacity q)"
    "length F + length U + length (rq_unusedIndices q) = unat C"
  using assms by (auto simp: lq_rep_def dest: map_eq_imp_length_eq)

lemma lq_rep_mono: "lq_rep C b q F U xs \<Longrightarrow> b' \<le> b \<Longrightarrow> lq_rep C b' q F U xs"
  unfolding lq_rep_def using iq_rep_mono by blast

definition rq_rep :: "u64 \<Rightarrow> nat \<Rightarrow> 'a resizeable_lockfree_queue \<Rightarrow> 'a list \<Rightarrow> bool" where
  "rq_rep C b q xs \<longleftrightarrow> (\<exists>F U. lq_rep C b q F U xs) \<and> \<not> rq_resizeInProgress q"

lemma rq_rep_length: "rq_rep C b q xs \<Longrightarrow> length xs \<le> unat (rq_capacity q)"
proof -
  assume "rq_rep C b q xs"
  then obtain F U where r: "lq_rep C b q F U xs" by (auto simp: rq_rep_def)
  show ?thesis using lq_repD(3,4) [OF r] by simp
qed

lemma buffer_update_other:
  "i \<notin> set U \<Longrightarrow> map (\<lambda>j. (bs[unat i := v]) ! unat j) U = map (\<lambda>j. bs ! unat j) U"
  by (auto intro!: nth_list_update_neq dest: word_unat_eq_iff [THEN iffD2])

lemma unat_size_minus_1: "unat (s :: u64) = Suc n \<Longrightarrow> unat (s - 1) = n"
  by (subst unat_sub_no_wrap) auto

lemma popFree_Cons:
  assumes "lq_rep C b q (i # F) U xs"
  shows "popFree C q = Some (Some i, q\<lparr> lq_freeIndices := (lq_freeIndices q)\<lparr> iq_readPosition := iq_readPosition (lq_freeIndices q) + 1 \<rparr> \<rparr>)"
    "iq_rep C b ((lq_freeIndices q)\<lparr> iq_readPosition := iq_readPosition (lq_freeIndices q) + 1 \<rparr>) F"
  using IndexQueue_pop_Cons [OF lq_repD(1) [OF assms]] iq_rep_pop [OF lq_repD(1) [OF assms]]
  by (simp_all add: popFree_def)

lemma popFree_Nil: "lq_rep C b q [] U xs \<Longrightarrow> popFree C q = Some (None, q)"
  using IndexQueue_pop_Nil [of C b "lq_freeIndices q"] by (simp add: popFree_def lq_rep_def)

text \<open>Writing an element to an index that is neither free nor used.\<close>

lemma write_push_ok:
  assumes "iq_rep C b (lq_freeIndices q) F" "iq_rep C (Suc b) (lq_usedIndices q) U"
    and "length (lq_buffer q) = unat C" "distinct (i # F @ U @ rq_unusedIndices q)"
    and "\<forall>j\<in>set (i # F @ U @ rq_unusedIndices q). unat j < unat C"
    and "length F + length U + 1 = unat (rq_capacity q)"
    and "length F + length U + length (rq_unusedIndices q) + 1 = unat C"
    and "map (\<lambda>i. lq_buffer q ! unat i) U = map Some xs" "unat (lq_size q) = length xs"
  obtains q' where "pushUsed C i (writeBufferAt i v q) = Some q'" "lq_rep C b q' F (U @ [i]) (xs @ [v])"
    "rq_capacity q' = rq_capacity q" "rq_resizeInProgress q' = rq_resizeInProgress q"
proof -
  have len: "length U < unat C" "unat i < unat C" using assms(5,7) by auto
  have rep: "iq_rep C (Suc b) (lq_usedIndices (writeBufferAt i v q)) U" using assms(2) by (simp add: writeBufferAt_def)
  obtain u where u: "IndexQueue_push C i (lq_usedIndices (writeBufferAt i v q)) = Some u" "iq_rep C b u (U @ [i])"
    by (rule IndexQueue_push_ok [OF rep len])
  let ?q = "(writeBufferAt i v q)\<lparr> lq_usedIndices := u \<rparr>"
  have "length xs < unat C" using map_eq_imp_length_eq [OF assms(8)] len by simp
  then have "unat (lq_size q + 1) = length xs + 1"
    using assms(9) u64_unat_less [of C] by (subst unat_add_no_wrap) auto
  moreover have "i \<notin> set U" using assms(4) by auto
  ultimately have "lq_rep C b ?q F (U @ [i]) (xs @ [v])"
    using assms u(2) len buffer_update_other [of i U "lq_buffer q" "Some v"]
    by (auto simp: lq_rep_def writeBufferAt_def)
  with u(1) show thesis by (intro that [of ?q]) (simp_all add: pushUsed_def writeBufferAt_def)
qed

lemma tryPush_full:
  "lq_rep C b q [] U xs \<Longrightarrow> LockFreeQueue_tryPush C v q = Some (False, q)"
  by (simp add: LockFreeQueue_tryPush_def popFree_Nil)

lemma push_with_free:
  assumes "lq_rep C (Suc b) q (i # F) U xs"
  defines "q1 \<equiv> q\<lparr> lq_freeIndices := (lq_freeIndices q)\<lparr> iq_readPosition := iq_readPosition (lq_freeIndices q) + 1 \<rparr> \<rparr>"
  obtains q' where "pushUsed C i (writeBufferAt i v q1) = Some q'" "lq_rep C b q' F (U @ [i]) (xs @ [v])"
    "rq_capacity q' = rq_capacity q" "rq_resizeInProgress q' = rq_resizeInProgress q"
proof (rule write_push_ok [of C b q1 F U i xs v])
  show "iq_rep C b (lq_freeIndices q1) F"
    using iq_rep_mono [OF popFree_Cons(2) [OF assms(1)]] by (simp add: q1_def)
qed (use assms(1) that in \<open>auto simp: lq_rep_def q1_def\<close>)

lemma tryPush_ok:
  assumes "lq_rep C (Suc b) q (i # F) U xs"
  obtains q' where "LockFreeQueue_tryPush C v q = Some (True, q')" "lq_rep C b q' F (U @ [i]) (xs @ [v])"
    "rq_capacity q' = rq_capacity q" "rq_resizeInProgress q' = rq_resizeInProgress q"
proof -
  let ?q1 = "q\<lparr> lq_freeIndices := (lq_freeIndices q)\<lparr> iq_readPosition := iq_readPosition (lq_freeIndices q) + 1 \<rparr> \<rparr>"
  obtain q' where q': "pushUsed C i (writeBufferAt i v ?q1) = Some q'" "lq_rep C b q' F (U @ [i]) (xs @ [v])"
    "rq_capacity q' = rq_capacity q" "rq_resizeInProgress q' = rq_resizeInProgress q"
    by (rule push_with_free [OF assms])
  then show thesis by (intro that [of q']) (simp_all add: LockFreeQueue_tryPush_def popFree_Cons(1) [OF assms])
qed

text \<open>Taking the oldest element out of the buffer.\<close>

definition take_oldest :: "'a resizeable_lockfree_queue \<Rightarrow> u64 \<Rightarrow> 'a resizeable_lockfree_queue" where
  "take_oldest q i = snd (readBufferAt i
     (q\<lparr> lq_usedIndices := (lq_usedIndices q)\<lparr> iq_readPosition := iq_readPosition (lq_usedIndices q) + 1 \<rparr> \<rparr>))"

lemma take_oldest_ok:
  assumes "lq_rep C b q F (i # U) (x # xs)"
  shows "lq_buffer q ! unat i = Some x" "iq_rep C b (lq_usedIndices (take_oldest q i)) U"
    "lq_freeIndices (take_oldest q i) = lq_freeIndices q" "length (lq_buffer (take_oldest q i)) = unat C"
    "map (\<lambda>i. lq_buffer (take_oldest q i') ! unat i) U = map Some xs \<or> i' \<noteq> i"
    "unat (lq_size (take_oldest q i)) = length xs" "rq_capacity (take_oldest q i) = rq_capacity q"
    "rq_unusedIndices (take_oldest q i) = rq_unusedIndices q"
    "rq_resizeInProgress (take_oldest q i) = rq_resizeInProgress q"
proof -
  show "lq_buffer q ! unat i = Some x" using assms by (simp add: lq_rep_def)
  show "iq_rep C b (lq_usedIndices (take_oldest q i)) U"
    using iq_rep_pop [OF lq_repD(2) [OF assms]] by (simp add: take_oldest_def readBufferAt_def)
  have "i \<notin> set U" using assms by (auto simp: lq_rep_def)
  then show "map (\<lambda>i. lq_buffer (take_oldest q i') ! unat i) U = map Some xs \<or> i' \<noteq> i"
    using assms buffer_update_other [of i U "lq_buffer q" None]
    by (auto simp: take_oldest_def readBufferAt_def lq_rep_def)
  show "unat (lq_size (take_oldest q i)) = length xs"
    using assms by (auto simp: take_oldest_def readBufferAt_def lq_rep_def intro: unat_size_minus_1)
qed (use assms in \<open>auto simp: take_oldest_def readBufferAt_def lq_rep_def\<close>)

lemma acquire_free:
  "lq_rep C b q (i # F) U xs \<Longrightarrow> acquire_index C q = Some (i, None,
     q\<lparr> lq_freeIndices := (lq_freeIndices q)\<lparr> iq_readPosition := iq_readPosition (lq_freeIndices q) + 1 \<rparr> \<rparr>)"
  by (subst acquire_index.simps) (simp add: popFree_Cons)

lemma tryGetUsedIndex_full:
  assumes "lq_rep C b q [] (i # U) xs"
  shows "tryGetUsedIndex C q = Some (Some i, q\<lparr> lq_usedIndices := (lq_usedIndices q)\<lparr> iq_readPosition := iq_readPosition (lq_usedIndices q) + 1 \<rparr> \<rparr>)"
  using IndexQueue_popIfSizeIsAtLeast_Cons [OF lq_repD(2) [OF assms], of "rq_capacity q"] lq_repD(4) [OF assms]
  by (simp add: tryGetUsedIndex_def)

lemma acquire_evict:
  assumes "lq_rep C b q [] (i # U) (x # xs)"
  shows "acquire_index C q = Some (i, Some x, take_oldest q i)"
  using tryGetUsedIndex_full [OF assms] take_oldest_ok(1) [OF assms]
  by (subst acquire_index.simps) (simp add: popFree_Nil [OF assms] readBufferAt_def take_oldest_def)

lemma rq_push_ok:
  assumes "rq_rep C (Suc b) q xs" "0 < unat (rq_capacity q)"
  shows "\<exists>q'. ResizeableLockFreeQueue_push C v q =
      Some (if length xs < unat (rq_capacity q) then None else Some (hd xs), q') \<and>
    rq_rep C b q' (if length xs < unat (rq_capacity q) then xs @ [v] else tl xs @ [v]) \<and>
    rq_capacity q' = rq_capacity q"
proof -
  obtain F U where r: "lq_rep C (Suc b) q F U xs" and np: "\<not> rq_resizeInProgress q"
    using assms(1) by (auto simp: rq_rep_def)
  note L = lq_repD [OF r]
  show ?thesis
  proof (cases F)
    case (Cons i F')
    obtain q' where "pushUsed C i (writeBufferAt i v
        (q\<lparr> lq_freeIndices := (lq_freeIndices q)\<lparr> iq_readPosition := iq_readPosition (lq_freeIndices q) + 1 \<rparr> \<rparr>)) = Some q'"
      "lq_rep C b q' F' (U @ [i]) (xs @ [v])" "rq_capacity q' = rq_capacity q"
      "rq_resizeInProgress q' = rq_resizeInProgress q"
      by (rule push_with_free [OF r [unfolded Cons]])
    moreover have "length xs < unat (rq_capacity q)" using L Cons by simp
    ultimately show ?thesis using np acquire_free [OF r [unfolded Cons]]
      by (auto simp: ResizeableLockFreeQueue_push_def rq_rep_def)
  next
    case Nil
    then obtain i U' where U: "U = i # U'" using L(4) assms(2) by (cases U) auto
    then obtain x xs' where xs: "xs = x # xs'" using L(3) by (cases xs) auto
    have r': "lq_rep C (Suc b) q [] (i # U') (x # xs')" using r Nil U xs by simp
    note T = take_oldest_ok [OF r']
    obtain q' where "pushUsed C i (writeBufferAt i v (take_oldest q i)) = Some q'"
      "lq_rep C b q' [] (U' @ [i]) (xs' @ [v])" "rq_capacity q' = rq_capacity (take_oldest q i)"
      "rq_resizeInProgress q' = rq_resizeInProgress (take_oldest q i)"
    proof (rule write_push_ok [of C b "take_oldest q i" "[]" U' i xs' v])
      show "iq_rep C b (lq_freeIndices (take_oldest q i)) []"
        using lq_repD(1) [OF r'] iq_rep_mono [of C "Suc b" _ "[]" b] by (simp add: T(3))
    qed (use T r' in \<open>auto simp: lq_rep_def\<close>)
    moreover have "\<not> length xs < unat (rq_capacity q)" using L Nil U by simp
    ultimately show ?thesis using np T xs acquire_evict [OF r']
      by (auto simp: ResizeableLockFreeQueue_push_def rq_rep_def)
  qed
qed

lemma rq_tryPush_ok:
  assumes "rq_rep C (Suc b) q xs"
  shows "\<exists>q'. LockFreeQueue_tryPush C v q = Some (length xs < unat (rq_capacity q), q') \<and>
    rq_rep C b q' (if length xs < unat (rq_capacity q) then xs @ [v] else xs) \<and>
    rq_capacity q' = rq_capacity q"
proof -
  obtain F U where r: "lq_rep C (Suc b) q F U xs" and np: "\<not> rq_resizeInProgress q"
    using assms by (auto simp: rq_rep_def)
  note L = lq_repD [OF r]
  show ?thesis
  proof (cases F)
    case (Cons i F')
    obtain q' where "LockFreeQueue_tryPush C v q = Some (True, q')" "lq_rep C b q' F' (U @ [i]) (xs @ [v])"
      "rq_capacity q' = rq_capacity q" "rq_resizeInProgress q' = rq_resizeInProgress q"
      by (rule tryPush_ok [OF r [unfolded Cons]])
    then show ?thesis using L Cons np by (auto simp: rq_rep_def)
  next
    case Nil
    have "lq_rep C b q [] U xs" using lq_rep_mono [OF r, of b] Nil by simp
    then show ?thesis using L Nil np tryPush_full [OF r [unfolded Nil]] by (auto simp: rq_rep_def)
  qed
qed

lemma rq_pop_ok:
  assumes "rq_rep C (Suc b) q xs"
  shows "\<exists>q'. LockFreeQueue_pop C q = Some (case xs of [] \<Rightarrow> None | x # _ \<Rightarrow> Some x, q') \<and>
    rq_rep C b q' (tl xs) \<and> rq_capacity q' = rq_capacity q"
proof -
  obtain F U where r: "lq_rep C (Suc b) q F U xs" and np: "\<not> rq_resizeInProgress q"
    using assms by (auto simp: rq_rep_def)
  note L = lq_repD [OF r]
  have mono: "lq_rep C b q F U xs" using lq_rep_mono [OF r, of b] by simp
  show ?thesis
  proof (cases xs)
    case Nil
    then show ?thesis using L IndexQueue_pop_Nil [of C "Suc b" "lq_usedIndices q"] np mono
      by (auto simp: LockFreeQueue_pop_def rq_rep_def)
  next
    case (Cons x xs')
    then obtain i U' where U: "U = i # U'" using L(3) by (cases U) auto
    have r': "lq_rep C (Suc b) q F (i # U') (x # xs')" using r U Cons by simp
    note T = take_oldest_ok [OF r']
    have len: "length F < unat C" "unat i < unat C" using r' by (auto simp: lq_rep_def)
    have rep: "iq_rep C (Suc b) (lq_freeIndices (take_oldest q i)) F" using L(1) T(3) by simp
    obtain f where f: "IndexQueue_push C i (lq_freeIndices (take_oldest q i)) = Some f" "iq_rep C b f (F @ [i])"
      by (rule IndexQueue_push_ok [OF rep len])
    have rd: "readBufferAt i (q\<lparr> lq_usedIndices := (lq_usedIndices q)\<lparr> iq_readPosition := iq_readPosition (lq_usedIndices q) + 1 \<rparr> \<rparr>) = (Some x, take_oldest q i)"
      using T(1) by (simp add: take_oldest_def readBufferAt_def)
    have "LockFreeQueue_pop C q = Some (Some x, (take_oldest q i)\<lparr> lq_freeIndices := f \<rparr>)"
      using IndexQueue_pop_Cons [OF lq_repD(2) [OF r']] rd f(1)
      by (simp add: LockFreeQueue_pop_def pushFree_def)
    moreover have "lq_rep C b ((take_oldest q i)\<lparr> lq_freeIndices := f \<rparr>) (F @ [i]) U' xs'"
      using T f(2) r' iq_rep_mono [OF T(2)] by (auto simp: lq_rep_def)
    ultimately show ?thesis using Cons np T by (auto simp: rq_rep_def)
  qed
qed

text \<open>With capacity 0 there is neither a free nor a used index, and the loop of \<open>push\<close> never ends.\<close>

lemma acquire_index_zero:
  assumes "lq_rep C b q [] [] []"
  shows "acquire_index C q = None"
proof -
  have step: "popFree C q = Some (None, q)" "tryGetUsedIndex C q = Some (None, q)"
    using popFree_Nil [OF assms] IndexQueue_popIfSizeIsAtLeast_Nil [OF lq_repD(2) [OF assms]]
    by (simp_all add: tryGetUsedIndex_def)
  have "C' = C \<and> q' = q \<longrightarrow> False" if "acquire_index C' q' = Some y" for C' q' y
    using that
  proof (induction C' q' y rule: acquire_index.raw_induct)
    case (1 f C' q' y)
    have "f C q = Some y" if "C' = C" "q' = q" using 1(2) that step by simp
    then show ?case using 1(1) [of C q y] 1(3) by blast
  qed (rule that)
  then show ?thesis by (cases "acquire_index C q") blast+
qed

subsection \<open>Changing the capacity\<close>

lemma increaseCapacity_ok:
  "lq_rep C (b + n) q F U xs \<Longrightarrow> n \<le> length (rq_unusedIndices q) \<Longrightarrow> unat to = unat inc + n \<Longrightarrow>
   \<exists>q' F'. increaseCapacity C to inc q = Some (to, q') \<and> lq_rep C b q' F' U xs \<and>
     unat (rq_capacity q') = unat (rq_capacity q) + n \<and> rq_resizeInProgress q' = rq_resizeInProgress q"
proof (induction n arbitrary: q F inc)
  case 0
  then have "inc = to" by (simp add: word_unat_eq_iff)
  with 0 show ?case by (subst increaseCapacity.simps) auto
next
  case (Suc n)
  have lt: "inc < to" using Suc.prems(3) by (simp add: word_less_nat_alt)
  obtain un i where un: "rq_unusedIndices q = un @ [i]" using Suc.prems(2) by (cases "rq_unusedIndices q" rule: rev_cases) auto
  note L = lq_repD [OF Suc.prems(1)]
  have len: "length F < unat C" "unat i < unat C" using Suc.prems(1) un by (auto simp: lq_rep_def)
  have rep: "iq_rep C (Suc (b + n)) (lq_freeIndices q) F" using L(1) by simp
  obtain f where f: "IndexQueue_push C i (lq_freeIndices q) = Some f" "iq_rep C (b + n) f (F @ [i])"
    by (rule IndexQueue_push_ok [OF rep len])
  let ?q = "q\<lparr> rq_capacity := rq_capacity q + 1, lq_freeIndices := f, rq_unusedIndices := un \<rparr>"
  have cap: "unat (rq_capacity q + 1) = unat (rq_capacity q) + 1"
    using L(4,5) un u64_unat_less [of C] by (subst unat_add_no_wrap) auto
  have inc: "unat (inc + 1) = unat inc + 1"
    using Suc.prems(3) u64_unat_less [of to] by (subst unat_add_no_wrap) auto
  have "lq_rep C (b + n) ?q (F @ [i]) U xs"
    using Suc.prems(1) f(2) un cap iq_rep_mono [OF L(2), of "b + n"] by (auto simp: lq_rep_def)
  from Suc.IH [OF this, of "inc + 1"] Suc.prems(2,3) un inc cap
  obtain q' F' where q': "increaseCapacity C to (inc + 1) ?q = Some (to, q')" "lq_rep C b q' F' U xs"
    "unat (rq_capacity q') = unat (rq_capacity q) + Suc n" "rq_resizeInProgress q' = rq_resizeInProgress q" by auto
  have "increaseCapacity C to inc q = increaseCapacity C to (inc + 1) ?q"
    using lt un f(1) by (subst increaseCapacity.simps) (simp add: pushFree_def)
  with q' show ?case by auto
qed

lemma decrease_free_ok:
  "lq_rep C b q F U xs \<Longrightarrow> n \<le> length F + length U \<Longrightarrow> unat to = unat dec + n \<Longrightarrow>
   \<exists>q'. decrease_free C to dec q = Some (0 < n \<and> n = length F \<and> U = [], dec + of_nat (min n (length F)), q') \<and>
     lq_rep C b q' (drop n F) U xs \<and> unat (rq_capacity q') = unat (rq_capacity q) - min n (length F) \<and>
     rq_resizeInProgress q' = rq_resizeInProgress q"
proof (induction n arbitrary: q F dec)
  case 0
  then have "dec = to" by (simp add: word_unat_eq_iff)
  with 0 show ?case by (subst decrease_free.simps) auto
next
  case (Suc n)
  have lt: "dec < to" using Suc.prems(3) by (simp add: word_less_nat_alt)
  show ?case
  proof (cases F)
    case Nil
    then show ?thesis using Suc.prems(1) popFree_Nil [of C b q U xs] lt
      by (subst decrease_free.simps) auto
  next
    case (Cons i F')
    note L = lq_repD [OF Suc.prems(1)]
    let ?f = "(lq_freeIndices q)\<lparr> iq_readPosition := iq_readPosition (lq_freeIndices q) + 1 \<rparr>"
    let ?q = "q\<lparr> lq_freeIndices := ?f, rq_unusedIndices := rq_unusedIndices q @ [i], rq_capacity := rq_capacity q - 1 \<rparr>"
    have cap: "unat (rq_capacity q) = Suc (length F' + length U)" using L(4) Cons by simp
    then have cap1: "unat (rq_capacity q - 1) = length F' + length U" by (rule unat_size_minus_1)
    have zero: "rq_capacity q = 1 \<longleftrightarrow> F' = [] \<and> U = []" using cap by (simp add: word_unat_eq_iff)
    have dec: "unat (dec + 1) = unat dec + 1"
      using Suc.prems(3) u64_unat_less [of to] by (subst unat_add_no_wrap) auto
    have rep: "lq_rep C b ?q F' U xs"
      using Suc.prems(1) popFree_Cons(2) [OF Suc.prems(1) [unfolded Cons]] cap1 Cons by (auto simp: lq_rep_def)
    have unf: "decrease_free C to dec q =
        (if rq_capacity q = 1 then Some (True, dec + 1, ?q) else decrease_free C to (dec + 1) ?q)"
      using lt popFree_Cons(1) [OF Suc.prems(1) [unfolded Cons]]
      by (subst decrease_free.simps) (simp add: retire_index_def)
    show ?thesis
    proof (cases "F' = [] \<and> U = []")
      case True
      then have "n = 0" using Suc.prems(2) Cons by simp
      then show ?thesis using True unf zero rep cap cap1 Cons by auto
    next
      case False
      have "n \<le> length F' + length U" using Suc.prems(2) Cons by simp
      from Suc.IH [OF rep this, of "dec + 1"] Suc.prems(3) dec
      obtain q' where q': "decrease_free C to (dec + 1) ?q =
          Some (0 < n \<and> n = length F' \<and> U = [], dec + 1 + of_nat (min n (length F')), q')"
        "lq_rep C b q' (drop n F') U xs" "unat (rq_capacity q') = unat (rq_capacity q - 1) - min n (length F')"
        "rq_resizeInProgress q' = rq_resizeInProgress q" by auto
      show ?thesis using False unf zero q' cap cap1 Cons by (auto simp: add.assoc)
    qed
  qed
qed

lemma decrease_used_ok:
  "lq_rep C b q [] U xs \<Longrightarrow> n \<le> length U \<Longrightarrow> unat to = unat dec + n \<Longrightarrow>
   \<exists>q' U'. decrease_used C to dec removed q = Some (0 < n \<and> n = length U, to, removed @ take n xs, q') \<and>
     lq_rep C b q' [] U' (drop n xs) \<and> unat (rq_capacity q') = unat (rq_capacity q) - n \<and>
     rq_resizeInProgress q' = rq_resizeInProgress q"
proof (induction n arbitrary: q U xs dec removed)
  case 0
  then have "dec = to" by (simp add: word_unat_eq_iff)
  with 0 show ?case by (subst decrease_used.simps) auto
next
  case (Suc n)
  have lt: "dec < to" using Suc.prems(3) by (simp add: word_less_nat_alt)
  note L = lq_repD [OF Suc.prems(1)]
  obtain i U' where U: "U = i # U'" using Suc.prems(2) by (cases U) auto
  then obtain x xs' where xs: "xs = x # xs'" using L(3) by (cases xs) auto
  have r: "lq_rep C b q [] (i # U') (x # xs')" using Suc.prems(1) U xs by simp
  note T = take_oldest_ok [OF r]
  let ?q = "(take_oldest q i)\<lparr> rq_unusedIndices := rq_unusedIndices q @ [i], rq_capacity := rq_capacity q - 1 \<rparr>"
  have cap: "unat (rq_capacity q) = Suc (length U')" using L(4) U by simp
  then have cap1: "unat (rq_capacity q - 1) = length U'" by (rule unat_size_minus_1)
  have zero: "rq_capacity q = 1 \<longleftrightarrow> U' = []" using cap by (simp add: word_unat_eq_iff)
  have dec: "unat (dec + 1) = unat dec + 1"
    using Suc.prems(3) u64_unat_less [of to] by (subst unat_add_no_wrap) auto
  have rep: "lq_rep C b ?q [] U' xs'" using r T cap1 by (auto simp: lq_rep_def)
  have unf: "decrease_used C to dec removed q =
      (if rq_capacity q = 1 then Some (True, dec + 1, removed @ [x], ?q)
       else decrease_used C to (dec + 1) (removed @ [x]) ?q)"
    using lt tryGetUsedIndex_full [OF r] T(1,7,8)
    by (subst decrease_used.simps) (simp add: retire_index_def readBufferAt_def take_oldest_def Let_def)
  show ?case
  proof (cases "U' = []")
    case True
    then have "n = 0" using Suc.prems(2) U by simp
    then have "dec + 1 = to" using Suc.prems(3) dec by (simp add: word_unat_eq_iff)
    then show ?thesis using True unf zero rep cap cap1 U xs \<open>n = 0\<close> T(9) by auto
  next
    case False
    have "n \<le> length U'" using Suc.prems(2) U by simp
    from Suc.IH [OF rep this, of "dec + 1" "removed @ [x]"] Suc.prems(3) dec
    obtain q' U'' where q': "decrease_used C to (dec + 1) (removed @ [x]) ?q =
        Some (0 < n \<and> n = length U', to, removed @ x # take n xs', q')"
      "lq_rep C b q' [] U'' (drop n xs')" "unat (rq_capacity q') = unat (rq_capacity q - 1) - n"
      "rq_resizeInProgress q' = rq_resizeInProgress (take_oldest q i)" by auto
    show ?thesis using False unf zero q' cap cap1 U xs T(9) by auto
  qed
qed

lemma decreaseCapacity_ok:
  assumes "lq_rep C b q F U xs" "0 < n" "n \<le> unat (rq_capacity q)" "unat to = n"
  shows "\<exists>q' F' U'. decreaseCapacity C to 0 removed q = Some (to, removed @ take (n - length F) xs, q') \<and>
     lq_rep C b q' F' U' (drop (n - length F) xs) \<and> unat (rq_capacity q') = unat (rq_capacity q) - n \<and>
     rq_resizeInProgress q' = rq_resizeInProgress q"
proof -
  note L = lq_repD [OF assms(1)]
  have n: "n \<le> length F + length U" using assms(3) L(4) by simp
  have lt: "0 < to" using assms(2,4) by (simp add: word_less_nat_alt)
  obtain q1 where q1: "decrease_free C to 0 q =
      Some (0 < n \<and> n = length F \<and> U = [], of_nat (min n (length F)), q1)"
    "lq_rep C b q1 (drop n F) U xs" "unat (rq_capacity q1) = unat (rq_capacity q) - min n (length F)"
    "rq_resizeInProgress q1 = rq_resizeInProgress q"
    using decrease_free_ok [OF assms(1) n, of to 0] assms(4) by auto
  have to: "of_nat n = to" by (simp flip: assms(4))
  have unf: "decreaseCapacity C to 0 removed q =
      (if n = length F \<and> U = [] then Some (to, removed, q1)
       else Option.bind (decrease_used C to (of_nat (min n (length F))) removed q1) (\<lambda>(zero', d2, removed', q2).
                 if zero' then Some (d2, removed', q2)
                 else decreaseCapacity C to d2 removed' q2))"
    using lt q1(1) assms(2) by (subst decreaseCapacity.simps) (auto simp flip: to)
  have stop: "decreaseCapacity C to to r p = Some (to, r, p)" for r p
    by (subst decreaseCapacity.simps) simp
  show ?thesis
  proof (cases "n \<le> length F")
    case True
    have "decrease_used C to to removed q1 = Some (False, to, removed, q1)"
      by (subst decrease_used.simps) simp
    then show ?thesis using True unf q1 stop to by (auto simp: min_def)
  next
    case False
    then have m: "min n (length F) = length F" by simp
    have lf: "length F < 18446744073709551616" using False assms(4) u64_unat_less [of to] by simp
    have r1: "lq_rep C b q1 [] U xs" using q1(2) False by simp
    have n': "n - length F \<le> length U" using n by simp
    have "unat to = unat (of_nat (length F) :: u64) + (n - length F)"
      using False assms(4) unat_of_nat_u64 [OF lf] by simp
    from decrease_used_ok [OF r1 n' this, of removed]
    obtain q2 U2 where q2: "decrease_used C to (of_nat (length F)) removed q1 =
        Some (0 < n - length F \<and> n - length F = length U, to, removed @ take (n - length F) xs, q2)"
      "lq_rep C b q2 [] U2 (drop (n - length F) xs)" "unat (rq_capacity q2) = unat (rq_capacity q1) - (n - length F)"
      "rq_resizeInProgress q2 = rq_resizeInProgress q1" by blast
    have "decreaseCapacity C to 0 removed q = Some (to, removed @ take (n - length F) xs, q2)"
      using unf False m q2(1) stop by auto
    then show ?thesis using q2 q1 m False by auto
  qed
qed

lemma rq_setCapacity_ok:
  assumes "rq_rep C (b + unat C) q xs" "new \<le> C"
  shows "\<exists>q'. ResizeableLockFreeQueue_setCapacity C new q = Some (True, take (length xs - unat new) xs, q') \<and>
    rq_rep C b q' (drop (length xs - unat new) xs) \<and> rq_capacity q' = new"
proof -
  obtain F U where r0: "lq_rep C (b + unat C) q F U xs" and np: "\<not> rq_resizeInProgress q"
    using assms(1) by (auto simp: rq_rep_def)
  let ?q = "q\<lparr> rq_resizeInProgress := True \<rparr>"
  have r: "lq_rep C (b + unat C) ?q F U xs" using r0 by (simp add: lq_rep_def)
  note L = lq_repD [OF r]
  have nC: "unat new \<le> unat C" using assms(2) by (simp add: word_le_nat_alt)
  have loop: "\<exists>q' F' U'. setCapacity_loop C new [] ?q = Some (take (length xs - unat new) xs, q') \<and>
      lq_rep C b q' F' U' (drop (length xs - unat new) xs) \<and> rq_capacity q' = new"
  proof -
    have stop: "setCapacity_loop C new rm p = Some (rm, p)" if "rq_capacity p = new" for rm p
      using that by (subst setCapacity_loop.simps) simp
    consider "rq_capacity q = new" | "rq_capacity q < new" | "new < rq_capacity q" by fastforce
    then show ?thesis
    proof cases
      case 1
      then have "length xs - unat new = 0" using L(3,4) by simp
      then show ?thesis using 1 stop [of ?q] lq_rep_mono [OF r, of b] by auto
    next
      case 2
      define n where "n = unat new - unat (rq_capacity q)"
      have un: "unat (new - rq_capacity q) = n"
        using 2 by (subst unat_sub_no_wrap) (auto simp: n_def word_less_nat_alt)
      have "n \<le> length (rq_unusedIndices ?q)" using L(4,5) nC by (simp add: n_def)
      moreover have "lq_rep C (b + n) ?q F U xs"
        using lq_rep_mono [OF r, of "b + n"] nC by (simp add: n_def)
      ultimately obtain q' F' where q': "increaseCapacity C (new - rq_capacity q) 0 ?q = Some (new - rq_capacity q, q')"
        "lq_rep C b q' F' U xs" "unat (rq_capacity q') = unat (rq_capacity q) + n"
        using increaseCapacity_ok [of C b n ?q F U xs "new - rq_capacity q" 0] un by auto
      have c: "rq_capacity q' = new" using q'(3) 2 by (simp add: word_unat_eq_iff n_def word_less_nat_alt)
      have "length xs - unat new = 0" using L(3,4) 2 by (simp add: word_less_nat_alt)
      moreover have "setCapacity_loop C new [] ?q = Some ([], q')"
        using 2 q'(1) stop [OF c] by (subst setCapacity_loop.simps) (auto simp: Let_def)
      ultimately show ?thesis using q' c by auto
    next
      case 3
      define n where "n = unat (rq_capacity q) - unat new"
      have un: "unat (rq_capacity q - new) = n"
        using 3 by (subst unat_sub_no_wrap) (auto simp: n_def word_less_nat_alt)
      have n: "0 < n" "n \<le> unat (rq_capacity ?q)" using 3 by (simp_all add: n_def word_less_nat_alt)
      have "n - length F = length xs - unat new" using L(3,4) n(1) by (simp add: n_def)
      moreover obtain q' F' U' where q': "decreaseCapacity C (rq_capacity q - new) 0 [] ?q =
          Some (rq_capacity q - new, take (n - length F) xs, q')"
        "lq_rep C (b + unat C) q' F' U' (drop (n - length F) xs)" "unat (rq_capacity q') = unat (rq_capacity q) - n"
        using decreaseCapacity_ok [OF r n un, of "[]"] by auto
      moreover have c: "rq_capacity q' = new" using q'(3) 3 by (simp add: word_unat_eq_iff n_def word_less_nat_alt)
      moreover have "setCapacity_loop C new [] ?q = Some (take (n - length F) xs, q')"
        using 3 q'(1) stop [OF c] by (subst setCapacity_loop.simps) (auto simp: Let_def)
      moreover have "lq_rep C b q' F' U' (drop (n - length F) xs)"
        using lq_rep_mono [OF q'(2), of b] by simp
      ultimately show ?thesis by auto
    qed
  qed
  then obtain q' F' U' where q': "setCapacity_loop C new [] ?q = Some (take (length xs - unat new) xs, q')"
      "lq_rep C b q' F' U' (drop (length xs - unat new) xs)" "rq_capacity q' = new" by blast
  then have "rq_rep C b (q'\<lparr> rq_resizeInProgress := False \<rparr>) (drop (length xs - unat new) xs)"
    by (auto simp: rq_rep_def lq_rep_def)
  then show ?thesis using q' np assms(2)
    by (auto simp: ResizeableLockFreeQueue_setCapacity_def not_less)
qed

lemma rq_rep_ctor:
  assumes "0 < unat C" "3 * unat C + b < 2 ^ 63"
  shows "rq_rep C b (ResizeableLockFreeQueue_ctor C) []"
proof -
  have "unat (of_nat i :: u64) = i" if "i < unat C" for i using that assms(2) by (intro unat_of_nat_u64) simp
  moreover have "inj_on (of_nat :: nat \<Rightarrow> u64) {0..<unat C}"
    using calculation by (intro inj_on_inverseI [of _ unat]) simp
  ultimately have "lq_rep C b (ResizeableLockFreeQueue_ctor C) (map of_nat [0..<unat C]) [] []"
    using IndexQueue_ConstructFull_rep [OF assms] IndexQueue_ConstructEmpty_rep [OF assms]
    by (auto simp: lq_rep_def ResizeableLockFreeQueue_ctor_def distinct_map)
  then show ?thesis by (auto simp: rq_rep_def ResizeableLockFreeQueue_ctor_def)
qed

end
