(* ===== verification/Variant_Queue.thy ===== *)
theory Variant_Queue
  imports Lock_Free_Queue
begin

section \<open>FiFo, SoFi and the variant queue\<close>

text \<open>
  \<open>concurrent::FiFo\<close> (\<open>fifo.hpp\<close>, \<open>fifo.inl\<close>), \<open>concurrent::SoFi\<close> (\<open>sofi.hpp\<close>, \<open>sofi.inl\<close>) and
  \<open>cxx::VariantQueue\<close> (\<open>variant_queue.hpp\<close>, \<open>variant_queue.inl\<close>), which selects one of four queues.
  The template parameter \<open>Capacity\<close> is the first argument of the functions; calls run one after
  the other.

  The locale \<open>bounded_queue\<close> is the contract of a bounded queue with either overflow policy, and
  it is interpreted on all four variants.
\<close>

subsection \<open>FiFo\<close>

record 'a fifo =
  ff_data :: "'a list"
  ff_write_pos :: u64
  ff_read_pos :: u64

definition FiFo_is_full :: "u64 \<Rightarrow> 'a fifo \<Rightarrow> bool" where
  "FiFo_is_full Capacity q \<longleftrightarrow> ff_write_pos q = ff_read_pos q + Capacity"

definition FiFo_push :: "u64 \<Rightarrow> 'a \<Rightarrow> 'a fifo \<Rightarrow> bool \<times> 'a fifo" where
  "FiFo_push Capacity f_param_r q =
     (if FiFo_is_full Capacity q then (False, q)
      else (let currentWritePos = ff_write_pos q
            in (True, q\<lparr> ff_data := (ff_data q)[unat (currentWritePos mod Capacity) := f_param_r],
                         ff_write_pos := currentWritePos + 1 \<rparr>)))"

definition FiFo_size :: "'a fifo \<Rightarrow> u64" where
  "FiFo_size q = ff_write_pos q - ff_read_pos q"

definition FiFo_empty :: "'a fifo \<Rightarrow> bool" where
  "FiFo_empty q \<longleftrightarrow> ff_read_pos q = ff_write_pos q"

definition FiFo_pop :: "u64 \<Rightarrow> 'a fifo \<Rightarrow> 'a option \<times> 'a fifo" where
  "FiFo_pop Capacity q =
     (let currentReadPos = ff_read_pos q; isEmpty = (currentReadPos = ff_write_pos q)
      in if isEmpty then (None, q)
         else (Some (ff_data q ! unat (currentReadPos mod Capacity)),
               q\<lparr> ff_read_pos := currentReadPos + 1 \<rparr>))"

subsection \<open>SoFi\<close>

record 'a sofi =
  sf_data :: "'a list"
  sf_size :: u64
  sf_readPosition :: u64
  sf_writePosition :: u64

definition SoFi_capacity :: "'a sofi \<Rightarrow> u64" where
  "SoFi_capacity q = sf_size q - 1"

definition SoFi_size :: "'a sofi \<Rightarrow> u64" where
  "SoFi_size q = sf_writePosition q - sf_readPosition q"

definition SoFi_empty :: "'a sofi \<Rightarrow> bool" where
  "SoFi_empty q \<longleftrightarrow> sf_writePosition q = sf_readPosition q"

text \<open>\<open>INTERNAL_SOFI_SIZE\<close> is \<open>CapacityValue + 1\<close>, converted to 32 bits by its type.\<close>

definition INTERNAL_SOFI_SIZE :: "u64 \<Rightarrow> u64" where
  "INTERNAL_SOFI_SIZE CapacityValue = ucast (ucast (CapacityValue + 1) :: u32)"

definition SoFi_setCapacity :: "u64 \<Rightarrow> u64 \<Rightarrow> 'a sofi \<Rightarrow> bool \<times> 'a sofi" where
  "SoFi_setCapacity CapacityValue newSize q =
     (let newInternalSize = newSize + 1
      in if SoFi_empty q \<and> newInternalSize \<le> INTERNAL_SOFI_SIZE CapacityValue
         then (True, q\<lparr> sf_size := newInternalSize, sf_readPosition := 0, sf_writePosition := 0 \<rparr>)
         else (False, q))"

definition SoFi_popIf :: "('a \<Rightarrow> bool) \<Rightarrow> 'a sofi \<Rightarrow> 'a option \<times> 'a sofi" where
  "SoFi_popIf verificator q =
     (let currentReadPosition = sf_readPosition q
      in if currentReadPosition = sf_writePosition q then (None, q)
         else (let valueOut = sf_data q ! unat (currentReadPosition mod sf_size q)
               in if \<not> verificator valueOut then (None, q)
                  else (Some valueOut, q\<lparr> sf_readPosition := currentReadPosition + 1 \<rparr>)))"

definition SoFi_pop :: "'a sofi \<Rightarrow> 'a option \<times> 'a sofi" where
  "SoFi_pop q = SoFi_popIf (\<lambda>_. True) q"

text \<open>The result is \<open>None\<close> for the return value true, and otherwise the overflow value.\<close>

definition SoFi_push :: "'a \<Rightarrow> 'a sofi \<Rightarrow> 'a option \<times> 'a sofi" where
  "SoFi_push valueIn q =
     (let currentWritePosition = sf_writePosition q; nextWritePosition = currentWritePosition + 1;
          q1 = q\<lparr> sf_data := (sf_data q)[unat (currentWritePosition mod sf_size q) := valueIn],
                  sf_writePosition := nextWritePosition \<rparr>;
          currentReadPosition = sf_readPosition q1
      in if nextWritePosition < currentReadPosition + sf_size q1 then (None, q1)
         else (Some (sf_data q1 ! unat (currentReadPosition mod sf_size q1)),
               q1\<lparr> sf_readPosition := currentReadPosition + 1 \<rparr>))"

subsection \<open>The variant queue\<close>

datatype variant_queue_types =
    FiFo_SingleProducerSingleConsumer
  | SoFi_SingleProducerSingleConsumer
  | FiFo_MultiProducerSingleConsumer
  | SoFi_MultiProducerSingleConsumer

datatype 'a fifo_variant =
    FiFo "'a fifo"
  | SoFi "'a sofi"
  | ResizeableLockFreeQueue "'a resizeable_lockfree_queue"

record 'a variant_queue =
  vq_type :: variant_queue_types
  vq_fifo :: "'a fifo_variant"

text \<open>\<open>junk\<close> is the content of the uninitialised arrays.\<close>

definition VariantQueue_ctor :: "u64 \<Rightarrow> 'a \<Rightarrow> variant_queue_types \<Rightarrow> 'a variant_queue" where
  "VariantQueue_ctor Capacity junk type =
     \<lparr> vq_type = type,
       vq_fifo = (case type of
           FiFo_SingleProducerSingleConsumer \<Rightarrow>
             FiFo \<lparr> ff_data = replicate (unat Capacity) junk, ff_write_pos = 0, ff_read_pos = 0 \<rparr>
         | SoFi_SingleProducerSingleConsumer \<Rightarrow>
             SoFi \<lparr> sf_data = replicate (unat (INTERNAL_SOFI_SIZE Capacity)) junk,
                    sf_size = INTERNAL_SOFI_SIZE Capacity, sf_readPosition = 0, sf_writePosition = 0 \<rparr>
         | FiFo_MultiProducerSingleConsumer \<Rightarrow> ResizeableLockFreeQueue (ResizeableLockFreeQueue_ctor Capacity)
         | SoFi_MultiProducerSingleConsumer \<Rightarrow> ResizeableLockFreeQueue (ResizeableLockFreeQueue_ctor Capacity)) \<rparr>"

text \<open>
  The result of \<open>push\<close> is the value that was overridden or dropped; \<open>None\<close> as the overall result
  means that the call does not return. Accessing the variant with the wrong alternative would
  dereference a null pointer; it is the last case of each function and cannot occur because the
  constructor fixes both members.
\<close>

definition VariantQueue_push :: "u64 \<Rightarrow> 'a \<Rightarrow> 'a variant_queue \<Rightarrow> ('a option \<times> 'a variant_queue) option" where
  "VariantQueue_push Capacity val q =
     (case (vq_type q, vq_fifo q) of
        (FiFo_SingleProducerSingleConsumer, FiFo f) \<Rightarrow>
          (case FiFo_push Capacity val f of (hadSpace, f') \<Rightarrow>
             Some (if hadSpace then None else Some val, q\<lparr> vq_fifo := FiFo f' \<rparr>))
      | (SoFi_SingleProducerSingleConsumer, SoFi s) \<Rightarrow>
          (case SoFi_push val s of (overridden, s') \<Rightarrow> Some (overridden, q\<lparr> vq_fifo := SoFi s' \<rparr>))
      | (FiFo_MultiProducerSingleConsumer, ResizeableLockFreeQueue r) \<Rightarrow>
          map_option (\<lambda>(hadSpace, r'). (if hadSpace then None else Some val,
              q\<lparr> vq_fifo := ResizeableLockFreeQueue r' \<rparr>)) (LockFreeQueue_tryPush Capacity val r)
      | (SoFi_MultiProducerSingleConsumer, ResizeableLockFreeQueue r) \<Rightarrow>
          map_option (\<lambda>(evicted, r'). (evicted, q\<lparr> vq_fifo := ResizeableLockFreeQueue r' \<rparr>))
            (ResizeableLockFreeQueue_push Capacity val r)
      | _ \<Rightarrow> None)"

definition VariantQueue_pop :: "u64 \<Rightarrow> 'a variant_queue \<Rightarrow> ('a option \<times> 'a variant_queue) option" where
  "VariantQueue_pop Capacity q =
     (case (vq_type q, vq_fifo q) of
        (FiFo_SingleProducerSingleConsumer, FiFo f) \<Rightarrow>
          (case FiFo_pop Capacity f of (r, f') \<Rightarrow> Some (r, q\<lparr> vq_fifo := FiFo f' \<rparr>))
      | (SoFi_SingleProducerSingleConsumer, SoFi s) \<Rightarrow>
          (case SoFi_pop s of (r, s') \<Rightarrow> Some (r, q\<lparr> vq_fifo := SoFi s' \<rparr>))
      | (FiFo_MultiProducerSingleConsumer, ResizeableLockFreeQueue r) \<Rightarrow>
          map_option (\<lambda>(v, r'). (v, q\<lparr> vq_fifo := ResizeableLockFreeQueue r' \<rparr>)) (LockFreeQueue_pop Capacity r)
      | (SoFi_MultiProducerSingleConsumer, ResizeableLockFreeQueue r) \<Rightarrow>
          map_option (\<lambda>(v, r'). (v, q\<lparr> vq_fifo := ResizeableLockFreeQueue r' \<rparr>)) (LockFreeQueue_pop Capacity r)
      | _ \<Rightarrow> None)"

definition VariantQueue_empty :: "u64 \<Rightarrow> 'a variant_queue \<Rightarrow> bool" where
  "VariantQueue_empty Capacity q =
     (case vq_fifo q of FiFo f \<Rightarrow> FiFo_empty f | SoFi s \<Rightarrow> SoFi_empty s
      | ResizeableLockFreeQueue r \<Rightarrow> LockFreeQueue_empty Capacity r)"

definition VariantQueue_size :: "'a variant_queue \<Rightarrow> u64" where
  "VariantQueue_size q =
     (case vq_fifo q of FiFo f \<Rightarrow> FiFo_size f | SoFi s \<Rightarrow> SoFi_size s
      | ResizeableLockFreeQueue r \<Rightarrow> lq_size r)"

text \<open>The elements a resize discards are part of the result; the code destroys them.\<close>

definition VariantQueue_setCapacity :: "u64 \<Rightarrow> u64 \<Rightarrow> 'a variant_queue \<Rightarrow> (bool \<times> 'a list \<times> 'a variant_queue) option" where
  "VariantQueue_setCapacity Capacity newCapacity q =
     (case vq_fifo q of
        FiFo f \<Rightarrow> Some (False, [], q)
      | SoFi s \<Rightarrow> Some (True, [], q\<lparr> vq_fifo := SoFi (snd (SoFi_setCapacity Capacity newCapacity s)) \<rparr>)
      | ResizeableLockFreeQueue r \<Rightarrow>
          map_option (\<lambda>(ok, removed, r'). (ok, removed, q\<lparr> vq_fifo := ResizeableLockFreeQueue r' \<rparr>))
            (ResizeableLockFreeQueue_setCapacity Capacity newCapacity r))"

definition VariantQueue_capacity :: "u64 \<Rightarrow> 'a variant_queue \<Rightarrow> u64" where
  "VariantQueue_capacity Capacity q =
     (case vq_fifo q of FiFo f \<Rightarrow> Capacity | SoFi s \<Rightarrow> SoFi_capacity s
      | ResizeableLockFreeQueue r \<Rightarrow> rq_capacity r)"

subsection \<open>Ring buffers\<close>

text \<open>
  Both ring buffers store the element of position \<open>p\<close> in the cell \<open>p mod n\<close>. The positions are
  64-bit numbers; \<open>b\<close> is a number of operations for which they do not wrap.
\<close>

definition ring_rep :: "nat \<Rightarrow> nat \<Rightarrow> 'a list \<Rightarrow> nat \<Rightarrow> 'a list \<Rightarrow> bool" where
  "ring_rep n b ds r xs \<longleftrightarrow> 0 < n \<and> n \<le> length ds \<and> length xs \<le> n \<and> r + length xs + n + b < 2 ^ 64 \<and>
     (\<forall>k<length xs. ds ! ((r + k) mod n) = xs ! k)"

lemma ring_rep_push:
  assumes "ring_rep n (Suc b) ds r xs" "length xs < n"
  shows "ring_rep n b (ds[(r + length xs) mod n := x]) r (xs @ [x])"
proof -
  let ?ds = "ds[(r + length xs) mod n := x]"
  have "(r + length xs) mod n \<noteq> (r + k) mod n" if "k < length xs" for k
    using that assms(2) mod_neq_close [of "r + k" "r + length xs" n] by fastforce
  then have old: "?ds ! ((r + k) mod n) = ds ! ((r + k) mod n)" if "k < length xs" for k
    using that by (intro nth_list_update_neq)
  have "(r + length xs) mod n < length ds"
    using assms(1) by (auto simp: ring_rep_def intro: less_le_trans [OF mod_less_divisor])
  then show ?thesis using assms old by (auto simp: ring_rep_def nth_append less_Suc_eq)
qed

lemma ring_rep_pop: "ring_rep n b ds r (x # xs) \<Longrightarrow> ring_rep n b ds (r + 1) xs"
  unfolding ring_rep_def by (auto dest!: spec [where x = "Suc _"])

lemma ring_rep_hd: "ring_rep n b ds r (x # xs) \<Longrightarrow> ds ! (r mod n) = x"
  by (force simp: ring_rep_def)

lemma ring_rep_mono: "ring_rep n b ds r xs \<Longrightarrow> b' \<le> b \<Longrightarrow> ring_rep n b' ds r xs"
  by (auto simp: ring_rep_def)

definition ff_rep :: "u64 \<Rightarrow> nat \<Rightarrow> 'a fifo \<Rightarrow> 'a list \<Rightarrow> bool" where
  "ff_rep C b f xs \<longleftrightarrow> ring_rep (unat C) b (ff_data f) (unat (ff_read_pos f)) xs \<and>
     unat (ff_write_pos f) = unat (ff_read_pos f) + length xs"

definition sf_rep :: "nat \<Rightarrow> 'a sofi \<Rightarrow> 'a list \<Rightarrow> bool" where
  "sf_rep b s xs \<longleftrightarrow> ring_rep (unat (sf_size s)) b (sf_data s) (unat (sf_readPosition s)) xs \<and>
     length xs < unat (sf_size s) \<and>
     unat (sf_writePosition s) = unat (sf_readPosition s) + length xs"

lemma FiFo_push_ok:
  assumes "ff_rep C (Suc b) f xs"
  shows "\<exists>f'. FiFo_push C x f = (length xs < unat C, f') \<and> ff_rep C b f' (if length xs < unat C then xs @ [x] else xs)"
proof -
  let ?r = "unat (ff_read_pos f)"
  from assms have R: "ring_rep (unat C) (Suc b) (ff_data f) ?r xs" "unat (ff_write_pos f) = ?r + length xs"
    by (simp_all add: ff_rep_def)
  have "unat (ff_read_pos f + C) = ?r + unat C"
    using R by (subst unat_add_no_wrap) (auto simp: ring_rep_def)
  then have full: "FiFo_is_full C f \<longleftrightarrow> \<not> length xs < unat C"
    using R by (auto simp: FiFo_is_full_def word_unat_eq_iff ring_rep_def)
  show ?thesis
  proof (cases "length xs < unat C")
    case True
    have "unat (ff_write_pos f + 1) = ?r + length xs + 1"
      using R by (subst unat_add_no_wrap) (auto simp: ring_rep_def)
    then show ?thesis using True full ring_rep_push [OF R(1) True, of x] R(2)
      by (simp add: FiFo_push_def Let_def ff_rep_def unat_mod_distrib)
  next
    case False
    then show ?thesis using full assms ring_rep_mono [OF R(1), of b] by (simp add: FiFo_push_def ff_rep_def)
  qed
qed

lemma FiFo_pop_ok:
  assumes "ff_rep C b f xs"
  shows "\<exists>f'. FiFo_pop C f = (case xs of [] \<Rightarrow> None | x # _ \<Rightarrow> Some x, f') \<and> ff_rep C b f' (tl xs)"
proof (cases xs)
  case Nil
  then show ?thesis using assms by (simp add: FiFo_pop_def ff_rep_def word_unat_eq_iff Let_def)
next
  case (Cons x xs')
  from assms have R: "ring_rep (unat C) b (ff_data f) (unat (ff_read_pos f)) (x # xs')"
    "unat (ff_write_pos f) = unat (ff_read_pos f) + length xs" by (simp_all add: ff_rep_def Cons)
  have "ff_read_pos f \<noteq> ff_write_pos f" using R(2) Cons by (auto simp: word_unat_eq_iff)
  moreover have "unat (ff_read_pos f + 1) = unat (ff_read_pos f) + 1"
    using R(1) by (subst unat_add_no_wrap) (auto simp: ring_rep_def)
  ultimately show ?thesis using ring_rep_hd [OF R(1)] ring_rep_pop [OF R(1)] R(2) Cons
    by (simp add: FiFo_pop_def Let_def ff_rep_def unat_mod_distrib)
qed

lemma SoFi_pop_ok:
  assumes "sf_rep b s xs"
  shows "\<exists>s'. SoFi_pop s = (case xs of [] \<Rightarrow> None | x # _ \<Rightarrow> Some x, s') \<and> sf_rep b s' (tl xs) \<and> sf_size s' = sf_size s"
proof (cases xs)
  case Nil
  then show ?thesis using assms by (simp add: SoFi_pop_def SoFi_popIf_def sf_rep_def word_unat_eq_iff Let_def)
next
  case (Cons x xs')
  from assms have R: "ring_rep (unat (sf_size s)) b (sf_data s) (unat (sf_readPosition s)) (x # xs')"
    "unat (sf_writePosition s) = unat (sf_readPosition s) + length xs" "length xs < unat (sf_size s)"
    by (simp_all add: sf_rep_def Cons)
  have "sf_readPosition s \<noteq> sf_writePosition s" using R(2) Cons by (auto simp: word_unat_eq_iff)
  moreover have "unat (sf_readPosition s + 1) = unat (sf_readPosition s) + 1"
    using R(1) by (subst unat_add_no_wrap) (auto simp: ring_rep_def)
  ultimately show ?thesis using ring_rep_hd [OF R(1)] ring_rep_pop [OF R(1)] R(2,3) Cons
    by (simp add: SoFi_pop_def SoFi_popIf_def Let_def sf_rep_def unat_mod_distrib)
qed

text \<open>A full SoFi gives back its oldest element, which for capacity 0 is the pushed one.\<close>

lemma SoFi_push_ok:
  assumes "sf_rep (Suc b) s xs"
  shows "\<exists>s'. SoFi_push x s =
      (if length xs < unat (sf_size s) - 1 then None else Some (hd (xs @ [x])), s') \<and>
    sf_rep b s' (if length xs < unat (sf_size s) - 1 then xs @ [x] else tl (xs @ [x])) \<and> sf_size s' = sf_size s"
proof -
  let ?r = "unat (sf_readPosition s)" and ?n = "unat (sf_size s)"
  from assms have R: "ring_rep ?n (Suc b) (sf_data s) ?r xs" "length xs < ?n"
    "unat (sf_writePosition s) = ?r + length xs" by (simp_all add: sf_rep_def)
  define ds where "ds = (sf_data s)[unat (sf_writePosition s mod sf_size s) := x]"
  have ds: "ring_rep ?n b ds ?r (xs @ [x])"
    using ring_rep_push [OF R(1,2), of x] R(3) by (simp add: ds_def unat_mod_distrib)
  have w1: "unat (sf_writePosition s + 1) = ?r + length xs + 1"
    using R by (subst unat_add_no_wrap) (auto simp: ring_rep_def)
  have "unat (sf_readPosition s + sf_size s) = ?r + ?n"
    using R(1) by (subst unat_add_no_wrap) (auto simp: ring_rep_def)
  then have lt: "sf_writePosition s + 1 < sf_readPosition s + sf_size s \<longleftrightarrow> length xs < ?n - 1"
    using w1 by (auto simp: word_less_nat_alt)
  show ?thesis
  proof (cases "length xs < ?n - 1")
    case True
    then show ?thesis using lt ds w1 by (simp add: SoFi_push_def Let_def sf_rep_def flip: ds_def)
  next
    case False
    then obtain y ys where y: "xs @ [x] = y # ys" by (cases xs) auto
    have len: "length ys < ?n" "length xs + 1 = length ys + 1" using arg_cong [OF y, of length] R(2) by auto
    have "unat (sf_readPosition s + 1) = ?r + 1"
      using R(1) by (subst unat_add_no_wrap) (auto simp: ring_rep_def)
    then show ?thesis
      using False lt ring_rep_hd [OF ds [unfolded y]] ring_rep_pop [OF ds [unfolded y]] w1 len y
      by (simp add: SoFi_push_def Let_def sf_rep_def ds_def unat_mod_distrib)
  qed
qed

subsection \<open>The contract of a bounded queue\<close>

text \<open>
  The specification of \<open>push\<close> on lists, for a queue that overwrites its oldest element when it is
  full, and for one that drops the new one: the value that is given back, and the new content.
\<close>

definition push_spec :: "bool \<Rightarrow> nat \<Rightarrow> 'a \<Rightarrow> 'a list \<Rightarrow> 'a option \<times> 'a list" where
  "push_spec ow n x xs =
     (if length xs < n then (None, xs @ [x])
      else if ow then (Some (hd (xs @ [x])), tl (xs @ [x]))
      else (Some x, xs))"

primrec push_all :: "('a \<Rightarrow> 'q \<Rightarrow> ('a option \<times> 'q) option) \<Rightarrow> 'a list \<Rightarrow> 'q \<Rightarrow> 'q option" where
  "push_all push [] q = Some q"
| "push_all push (x # xs) q = Option.bind (push x q) (\<lambda>(_, q'). push_all push xs q')"

primrec pop_n :: "('q \<Rightarrow> ('a option \<times> 'q) option) \<Rightarrow> nat \<Rightarrow> 'q \<Rightarrow> ('a option list \<times> 'q) option" where
  "pop_n pop 0 q = Some ([], q)"
| "pop_n pop (Suc n) q = Option.bind (pop q) (\<lambda>(r, q'). Option.bind (pop_n pop n q') (\<lambda>(rs, q''). Some (r # rs, q'')))"

lemma push_spec_mset:
  "push_spec ow n x xs = (r, ys) \<Longrightarrow> mset ys + (case r of None \<Rightarrow> {#} | Some y \<Rightarrow> {#y#}) = add_mset x (mset xs)"
  by (cases xs) (auto simp: push_spec_def split: if_split_asm)

lemma push_spec_length: "push_spec ow n x xs = (r, ys) \<Longrightarrow> length xs \<le> n \<Longrightarrow> length ys \<le> n"
  by (auto simp: push_spec_def split: if_split_asm)

locale bounded_queue =
  fixes rep :: "nat \<Rightarrow> 'q \<Rightarrow> 'a list \<Rightarrow> bool" and cap :: "'q \<Rightarrow> nat" and overwrites :: "'q \<Rightarrow> bool"
    and push :: "'a \<Rightarrow> 'q \<Rightarrow> ('a option \<times> 'q) option" and pop :: "'q \<Rightarrow> ('a option \<times> 'q) option"
  assumes push_law: "rep (Suc b) q xs \<Longrightarrow> 0 < cap q \<Longrightarrow>
      \<exists>q'. push x q = Some (fst (push_spec (overwrites q) (cap q) x xs), q') \<and>
        rep b q' (snd (push_spec (overwrites q) (cap q) x xs)) \<and>
        cap q' = cap q \<and> overwrites q' = overwrites q"
    and pop_law: "rep (Suc b) q xs \<Longrightarrow>
      \<exists>q'. pop q = Some (case xs of [] \<Rightarrow> None | x # _ \<Rightarrow> Some x, q') \<and> rep b q' (tl xs) \<and>
        cap q' = cap q \<and> overwrites q' = overwrites q"
    and rep_length: "rep b q xs \<Longrightarrow> length xs \<le> cap q"
    and rep_mono: "rep b q xs \<Longrightarrow> b' \<le> b \<Longrightarrow> rep b' q xs"
begin

text \<open>Nothing is lost without being given back.\<close>

lemma push_conserves:
  assumes "rep (Suc b) q xs" "0 < cap q"
  shows "\<exists>r q' ys. push x q = Some (r, q') \<and> rep b q' ys \<and> cap q' = cap q \<and> overwrites q' = overwrites q \<and>
    mset ys + (case r of None \<Rightarrow> {#} | Some y \<Rightarrow> {#y#}) = add_mset x (mset xs)"
  using push_law [OF assms, of x] push_spec_mset [of "overwrites q" "cap q" x xs]
  by (metis prod.collapse)

text \<open>An overwriting queue keeps the newest elements.\<close>

lemma push_all_newest:
  "rep (b + length ys) q xs \<Longrightarrow> 0 < cap q \<Longrightarrow> overwrites q \<Longrightarrow>
     \<exists>q'. push_all push ys q = Some q' \<and> rep b q' (drop (length (xs @ ys) - cap q) (xs @ ys)) \<and> cap q' = cap q"
proof (induction ys arbitrary: q xs)
  case Nil
  then show ?case using rep_length [of b q xs] by auto
next
  case (Cons y ys)
  have r: "rep (Suc (b + length ys)) q xs" using Cons.prems(1) by simp
  let ?xs = "snd (push_spec True (cap q) y xs)"
  obtain q1 r1 where q1: "push y q = Some (r1, q1)" "rep (b + length ys) q1 ?xs" "cap q1 = cap q" "overwrites q1"
    using push_law [OF r Cons.prems(2), of y] Cons.prems(3) by auto
  have len: "length xs \<le> cap q" by (rule rep_length [OF r])
  have "drop (length (?xs @ ys) - cap q) (?xs @ ys) = drop (length (xs @ y # ys) - cap q) (xs @ y # ys)"
  proof (cases "length xs < cap q")
    case False
    then have e: "length xs = cap q" using len by simp
    then obtain z zs where "xs = z # zs" using Cons.prems(2) by (cases xs) auto
    then show ?thesis using e by (simp add: push_spec_def Suc_diff_le)
  qed (simp add: push_spec_def)
  moreover obtain q' where "push_all push ys q1 = Some q'"
    "rep b q' (drop (length (?xs @ ys) - cap q) (?xs @ ys))" "cap q' = cap q"
    using Cons.IH [OF q1(2)] q1(3,4) Cons.prems(2) by auto
  ultimately show ?case using q1(1) by simp
qed

text \<open>Elements leave in the order in which they are stored.\<close>

lemma pop_n_in_order:
  "rep (b + n) q xs \<Longrightarrow> n \<le> length xs \<Longrightarrow>
     \<exists>q'. pop_n pop n q = Some (map Some (take n xs), q') \<and> rep b q' (drop n xs)"
proof (induction n arbitrary: q xs)
  case (Suc n)
  then obtain x xs' where xs: "xs = x # xs'" by (cases xs) auto
  have r: "rep (Suc (b + n)) q xs" using Suc.prems(1) by simp
  obtain q1 where q1: "pop q = Some (Some x, q1)" "rep (b + n) q1 xs'"
    using pop_law [OF r] xs by auto
  then show ?case using Suc.IH [OF q1(2)] Suc.prems(2) xs by auto
qed simp

end

subsection \<open>The variant queue is a bounded queue\<close>

fun vq_rep :: "u64 \<Rightarrow> nat \<Rightarrow> 'a variant_queue \<Rightarrow> 'a list \<Rightarrow> bool" where
  "vq_rep C b q xs =
     (case (vq_type q, vq_fifo q) of
        (FiFo_SingleProducerSingleConsumer, FiFo f) \<Rightarrow> ff_rep C b f xs
      | (SoFi_SingleProducerSingleConsumer, SoFi s) \<Rightarrow> sf_rep b s xs
      | (FiFo_MultiProducerSingleConsumer, ResizeableLockFreeQueue r) \<Rightarrow> rq_rep C b r xs
      | (SoFi_MultiProducerSingleConsumer, ResizeableLockFreeQueue r) \<Rightarrow> rq_rep C b r xs
      | _ \<Rightarrow> False)"

declare vq_rep.simps [simp del]

definition vq_cap :: "u64 \<Rightarrow> 'a variant_queue \<Rightarrow> nat" where
  "vq_cap C q = unat (VariantQueue_capacity C q)"

definition vq_overwrites :: "'a variant_queue \<Rightarrow> bool" where
  "vq_overwrites q \<longleftrightarrow>
     vq_type q \<in> {SoFi_SingleProducerSingleConsumer, SoFi_MultiProducerSingleConsumer}"

text \<open>The four consistent combinations of type tag and alternative.\<close>

lemma vq_rep_cases [consumes 1, case_names fifo sofi mfifo msofi]:
  assumes "vq_rep C b q xs"
  obtains f where "q = \<lparr> vq_type = FiFo_SingleProducerSingleConsumer, vq_fifo = FiFo f \<rparr>" "ff_rep C b f xs"
  | s where "q = \<lparr> vq_type = SoFi_SingleProducerSingleConsumer, vq_fifo = SoFi s \<rparr>" "sf_rep b s xs"
  | r where "q = \<lparr> vq_type = FiFo_MultiProducerSingleConsumer, vq_fifo = ResizeableLockFreeQueue r \<rparr>" "rq_rep C b r xs"
  | r where "q = \<lparr> vq_type = SoFi_MultiProducerSingleConsumer, vq_fifo = ResizeableLockFreeQueue r \<rparr>" "rq_rep C b r xs"
  using assms by (cases q) (auto simp: vq_rep.simps split: variant_queue_types.split_asm fifo_variant.split_asm)

lemmas vq_defs = VariantQueue_push_def VariantQueue_pop_def vq_cap_def VariantQueue_capacity_def
  vq_overwrites_def vq_rep.simps

lemma sf_rep_capacity: "sf_rep b s xs \<Longrightarrow> unat (SoFi_capacity s) = unat (sf_size s) - 1"
  unfolding SoFi_capacity_def by (subst unat_sub_no_wrap) (auto simp: sf_rep_def ring_rep_def)

lemma SoFi_capacity_cong: "sf_size s' = sf_size s \<Longrightarrow> SoFi_capacity s' = SoFi_capacity s"
  by (simp add: SoFi_capacity_def)

interpretation vq: bounded_queue "vq_rep C" "vq_cap C" vq_overwrites "VariantQueue_push C" "VariantQueue_pop C" for C
proof (unfold_locales, goal_cases)
  case (1 b q xs x)
  from 1(1) show ?case
  proof (cases rule: vq_rep_cases)
    case (fifo f)
    then show ?thesis using FiFo_push_ok [OF fifo(2), of x] by (auto simp: vq_defs push_spec_def)
  next
    case (sofi s)
    obtain s' where s': "SoFi_push x s =
      (if length xs < unat (sf_size s) - 1 then None else Some (hd (xs @ [x])), s')"
      "sf_rep b s' (if length xs < unat (sf_size s) - 1 then xs @ [x] else tl (xs @ [x]))" "sf_size s' = sf_size s"
      using SoFi_push_ok [OF sofi(2), of x] by blast
    show ?thesis using s' SoFi_capacity_cong [OF s'(3)] sf_rep_capacity [OF sofi(2)] sofi(1)
      by (auto simp: vq_defs push_spec_def)
  next
    case (mfifo r)
    obtain r' where "LockFreeQueue_tryPush C x r = Some (length xs < unat (rq_capacity r), r')"
      "rq_rep C b r' (if length xs < unat (rq_capacity r) then xs @ [x] else xs)" "rq_capacity r' = rq_capacity r"
      using rq_tryPush_ok [OF mfifo(2), of x] by blast
    then show ?thesis using mfifo(1)
      by (intro exI [of _ "q\<lparr> vq_fifo := ResizeableLockFreeQueue r' \<rparr>"]) (auto simp: vq_defs push_spec_def split: if_split_asm)
  next
    case (msofi r)
    have "0 < unat (rq_capacity r)" using 1(2) msofi(1) by (simp add: vq_defs)
    moreover have "length xs < unat (rq_capacity r) \<or> hd (xs @ [x]) = hd xs \<and> tl (xs @ [x]) = tl xs @ [x]"
      using calculation by (cases xs) auto
    ultimately show ?thesis using rq_push_ok [OF msofi(2), of x] msofi(1) by (auto simp: vq_defs push_spec_def)
  qed
next
  case (2 b q xs)
  then show ?case
  proof (cases rule: vq_rep_cases)
    case (fifo f)
    have "ff_rep C b f xs" using fifo(2) ring_rep_mono [of _ "Suc b" _ _ _ b] by (auto simp: ff_rep_def)
    then show ?thesis using FiFo_pop_ok [of C b f xs] fifo(1) by (auto simp: vq_defs)
  next
    case (sofi s)
    have "sf_rep b s xs" using sofi(2) ring_rep_mono [of _ "Suc b" _ _ _ b] by (auto simp: sf_rep_def)
    then obtain s' where s': "SoFi_pop s = (case xs of [] \<Rightarrow> None | x # _ \<Rightarrow> Some x, s')"
      "sf_rep b s' (tl xs)" "sf_size s' = sf_size s" using SoFi_pop_ok [of b s xs] by blast
    show ?thesis using s' SoFi_capacity_cong [OF s'(3)] sofi(1) by (auto simp: vq_defs)
  next
    case (mfifo r)
    then show ?thesis using rq_pop_ok [OF mfifo(2)] by (auto simp: vq_defs)
  next
    case (msofi r)
    then show ?thesis using rq_pop_ok [OF msofi(2)] by (auto simp: vq_defs)
  qed
next
  case (3 b q xs)
  then show ?case
  proof (cases rule: vq_rep_cases)
    case (fifo f)
    then show ?thesis by (simp add: vq_defs ff_rep_def ring_rep_def)
  next
    case (sofi s)
    then show ?thesis using sf_rep_capacity [OF sofi(2)] by (auto simp: vq_defs sf_rep_def)
  next
    case (mfifo r)
    then show ?thesis using rq_rep_length by (auto simp: vq_defs)
  next
    case (msofi r)
    then show ?thesis using rq_rep_length by (auto simp: vq_defs)
  qed
next
  case (4 b q xs b')
  then show ?case
    by (cases rule: vq_rep_cases)
      (auto simp: vq_defs ff_rep_def sf_rep_def rq_rep_def intro: ring_rep_mono lq_rep_mono)
qed

lemma unat_INTERNAL_SOFI_SIZE: "unat C < 2 ^ 32 - 1 \<Longrightarrow> unat (INTERNAL_SOFI_SIZE C) = unat C + 1"
proof -
  assume C: "unat C < 2 ^ 32 - 1"
  then have "unat (C + 1) = unat C + 1" by (subst unat_add_no_wrap) auto
  with C show ?thesis by (simp add: INTERNAL_SOFI_SIZE_def unat_ucast_u64_u32)
qed

lemma VariantQueue_ctor_rep:
  assumes "0 < unat C" "unat C < 2 ^ 32 - 1" "3 * unat C + b < 2 ^ 63"
  shows "vq_rep C b (VariantQueue_ctor C junk type) []" "vq_cap C (VariantQueue_ctor C junk type) = unat C"
proof -
  show "vq_rep C b (VariantQueue_ctor C junk type) []"
    using assms rq_rep_ctor [OF assms(1,3)] unat_INTERNAL_SOFI_SIZE [OF assms(2)]
    by (cases type) (simp_all add: vq_rep.simps VariantQueue_ctor_def ff_rep_def sf_rep_def ring_rep_def)
  have "unat (INTERNAL_SOFI_SIZE C - 1) = unat C"
    using unat_INTERNAL_SOFI_SIZE [OF assms(2)] by (subst unat_sub_no_wrap) auto
  then show "vq_cap C (VariantQueue_ctor C junk type) = unat C"
    by (cases type)
      (simp_all add: vq_cap_def VariantQueue_capacity_def VariantQueue_ctor_def SoFi_capacity_def
        ResizeableLockFreeQueue_ctor_def)
qed

lemma VariantQueue_setCapacity_ok:
  assumes "vq_rep C (b + unat C) q xs" "new \<le> C" "vq_fifo q = ResizeableLockFreeQueue r"
  shows "\<exists>q'. VariantQueue_setCapacity C new q = Some (True, take (length xs - unat new) xs, q') \<and>
    vq_rep C b q' (drop (length xs - unat new) xs) \<and> vq_cap C q' = unat new \<and> vq_overwrites q' = vq_overwrites q"
proof -
  have "rq_rep C (b + unat C) r xs" using assms(1,3) by (cases rule: vq_rep_cases) auto
  from rq_setCapacity_ok [OF this assms(2)] obtain r' where
    "ResizeableLockFreeQueue_setCapacity C new r = Some (True, take (length xs - unat new) xs, r')"
    "rq_rep C b r' (drop (length xs - unat new) xs)" "rq_capacity r' = new" by blast
  with assms(1,3) show ?thesis
    by (cases rule: vq_rep_cases) (auto simp: VariantQueue_setCapacity_def vq_defs)
qed

subsection \<open>Properties\<close>

text \<open>
  C18: a queue of one of the two overwriting types, of any capacity, keeps the newest elements:
  after any sequence of pushes, with every call returning, the elements popped from it are the
  last \<open>Capacity\<close> pushed ones, in the order in which they were pushed.
\<close>

theorem variant_queue_keeps_newest:
  assumes "type \<in> {SoFi_SingleProducerSingleConsumer, SoFi_MultiProducerSingleConsumer}"
    and "0 < unat C" "unat C < 2 ^ 32 - 1" "3 * unat C + 2 * length ys < 2 ^ 63"
  shows "\<exists>q' q''. push_all (VariantQueue_push C) ys (VariantQueue_ctor C junk type) = Some q' \<and>
    pop_n (VariantQueue_pop C) (min (length ys) (unat C)) q' = Some (map Some (drop (length ys - unat C) ys), q'')"
proof -
  let ?q = "VariantQueue_ctor C junk type" and ?ys = "drop (length ys - unat C) ys"
  have r: "vq_rep C (length ys + length ys) ?q []" and c: "vq_cap C ?q = unat C"
    using assms VariantQueue_ctor_rep [of C "length ys + length ys"] by auto
  have "vq_overwrites ?q" using assms(1) by (simp add: vq_overwrites_def VariantQueue_ctor_def)
  then obtain q' where q': "push_all (VariantQueue_push C) ys ?q = Some q'" "vq_rep C (length ys) q' ?ys"
    using vq.push_all_newest [OF r] c assms(2) by auto
  have len: "length ?ys = min (length ys) (unat C)" by simp
  have "vq_rep C (0 + length ?ys) q' ?ys" using vq.rep_mono [OF q'(2), of "0 + length ?ys"] by simp
  from vq.pop_n_in_order [OF this] q'(1) len show ?thesis by auto
qed

lemma variant_queue_keeps_newest_witness:
  "\<exists>q' q''. push_all (VariantQueue_push 2) [1, 2, 3] (VariantQueue_ctor 2 (0 :: nat) SoFi_MultiProducerSingleConsumer) = Some q' \<and>
    pop_n (VariantQueue_pop 2) 2 q' = Some ([Some 2, Some 3], q'')"
proof -
  have e: "min (length [1, 2, 3 :: nat]) (unat (2 :: u64)) = 2"
    "map Some (drop (length [1, 2, 3 :: nat] - unat (2 :: u64)) [1, 2, 3 :: nat]) = [Some 2, Some 3]" by simp_all
  show ?thesis
    using variant_queue_keeps_newest [of SoFi_MultiProducerSingleConsumer 2 "[1, 2, 3 :: nat]" 0]
    unfolding e by simp
qed

text \<open>
  C19: for all four types, in every reachable state with room, \<open>push\<close> returns and behaves as the
  specification on lists: without overflow the element is appended; on overflow the overwriting
  queues give back the oldest element and the others the new one. In all cases the old content
  and the new element are the new content and the value that is given back, so that no element
  is lost or duplicated.
\<close>

theorem variant_queue_push_refines:
  assumes "vq_rep C (Suc b) q xs" "0 < vq_cap C q"
  shows "\<exists>r q' ys. VariantQueue_push C x q = Some (r, q') \<and> vq_rep C b q' ys \<and>
    (r, ys) = push_spec (vq_overwrites q) (vq_cap C q) x xs \<and> length ys \<le> vq_cap C q' \<and>
    mset ys + (case r of None \<Rightarrow> {#} | Some y \<Rightarrow> {#y#}) = add_mset x (mset xs)"
proof -
  let ?p = "push_spec (vq_overwrites q) (vq_cap C q) x xs"
  obtain q' where q': "VariantQueue_push C x q = Some (fst ?p, q')" "vq_rep C b q' (snd ?p)"
    using vq.push_law [OF assms, of x] by blast
  show ?thesis
    by (intro exI [of _ "fst ?p"] exI [of _ q'] exI [of _ "snd ?p"] conjI q' vq.rep_length [OF q'(2)]
        push_spec_mset [of _ _ x xs]) simp_all
qed

lemma variant_queue_push_refines_witness:
  "\<exists>r q'. VariantQueue_push 2 (7 :: nat) (VariantQueue_ctor 2 0 FiFo_SingleProducerSingleConsumer) = Some (r, q') \<and>
    r = None \<and> vq_rep 2 4 q' [7]"
proof -
  let ?q = "VariantQueue_ctor 2 (0 :: nat) FiFo_SingleProducerSingleConsumer"
  have r: "vq_rep 2 (Suc 4) ?q []" and c: "vq_cap 2 ?q = 2"
    using VariantQueue_ctor_rep [of 2 "Suc 4"] by simp_all
  have p: "0 < vq_cap 2 ?q" by (simp add: c)
  show ?thesis using variant_queue_push_refines [OF r p, of 7] by (auto simp: push_spec_def c)
qed

text \<open>
  Reducing the capacity of a resizeable queue gives the new capacity and removes only the
  oldest elements, as many as do not fit any more; the others stay in their order.
\<close>

theorem resizeable_queue_setCapacity:
  assumes "rq_rep C (b + unat C) q xs" "new \<le> C"
  shows "\<exists>removed q'. ResizeableLockFreeQueue_setCapacity C new q = Some (True, removed, q') \<and>
    rq_capacity q' = new \<and> (\<exists>ys. xs = removed @ ys \<and> rq_rep C b q' ys \<and> length removed = length xs - unat new)"
proof -
  let ?n = "length xs - unat new"
  obtain q' where "ResizeableLockFreeQueue_setCapacity C new q = Some (True, take ?n xs, q')"
    "rq_rep C b q' (drop ?n xs)" "rq_capacity q' = new" using rq_setCapacity_ok [OF assms] by blast
  then show ?thesis by (intro exI [of _ "take ?n xs"] exI [of _ q']) (auto intro!: exI [of _ "drop ?n xs"])
qed

lemma resizeable_queue_setCapacity_witness:
  "\<exists>removed q'. ResizeableLockFreeQueue_setCapacity 4 2 (ResizeableLockFreeQueue_ctor 4) = Some (True, removed, q') \<and>
    rq_capacity q' = 2 \<and> (removed :: nat list) = []"
  using resizeable_queue_setCapacity [OF rq_rep_ctor [of 4 "0 + unat (4 :: u64)"], of 2] by fastforce

text \<open>
  C20: a resizeable queue accepts the capacity 0 (documented as allowed) at any time, but a
  subsequent \<open>push\<close>, which is documented to always succeed, never returns.
\<close>

theorem resizeable_queue_capacity_0_push_hangs:
  assumes "rq_rep C (b + unat C) q xs"
  shows "\<exists>q'. ResizeableLockFreeQueue_setCapacity C 0 q = Some (True, xs, q') \<and>
    (\<forall>v. ResizeableLockFreeQueue_push C v q' = None)"
proof -
  obtain q' where q': "ResizeableLockFreeQueue_setCapacity C 0 q = Some (True, xs, q')" "rq_rep C b q' []"
    "rq_capacity q' = 0" using rq_setCapacity_ok [OF assms, of 0] by auto
  then obtain F U where r: "lq_rep C b q' F U []" by (auto simp: rq_rep_def)
  then have "F = []" "U = []" using lq_repD [OF r] q'(3) by auto
  with r have "acquire_index C q' = None" by (intro acquire_index_zero) auto
  then show ?thesis using q'(1) by (simp add: ResizeableLockFreeQueue_push_def)
qed

lemma resizeable_queue_capacity_0_push_hangs_witness:
  "\<exists>q'. ResizeableLockFreeQueue_setCapacity 4 0 (ResizeableLockFreeQueue_ctor 4) = Some (True, [], q') \<and>
    ResizeableLockFreeQueue_push 4 (5 :: nat) q' = None"
  using resizeable_queue_capacity_0_push_hangs [OF rq_rep_ctor [of 4 "0 + unat (4 :: u64)"]] by fastforce

text \<open>
  For the single-producer SoFi, \<open>VariantQueue::setCapacity\<close> reports success in every case,
  also when the queue is not empty or the capacity is too large, in which case it has no effect.
\<close>

theorem variant_queue_setCapacity_sofi_reports_success:
  "\<exists>q' q'' r. push_all (VariantQueue_push 2) [7 :: nat] (VariantQueue_ctor 2 0 SoFi_SingleProducerSingleConsumer) = Some q' \<and>
     VariantQueue_setCapacity 2 1 q' = Some (True, r, q'') \<and> VariantQueue_capacity 2 q'' = 2"
proof -
  let ?q = "VariantQueue_ctor 2 (0 :: nat) SoFi_SingleProducerSingleConsumer"
  let ?q' = "the (push_all (VariantQueue_push 2) [7] ?q)"
  have "push_all (VariantQueue_push 2) [7] ?q = Some ?q'" by code_simp
  moreover have "map_option (\<lambda>(ok, r, q''). (ok, VariantQueue_capacity 2 q''))
      (VariantQueue_setCapacity 2 1 ?q') = Some (True, 2)" by code_simp
  ultimately show ?thesis by (cases "VariantQueue_setCapacity 2 1 ?q'") auto
qed

end
