(* ===== verification/Condition_Variable.thy ===== *)
theory Condition_Variable
  imports Prelude
begin

section \<open>Condition variables\<close>

text \<open>
  \<open>popo::ConditionVariableData\<close>, \<open>popo::ConditionNotifier\<close> and \<open>popo::ConditionListener\<close>
  (\<open>condition_variable_data.cpp\<close>, \<open>condition_notifier.cpp\<close>, \<open>condition_listener.cpp\<close>) over
  \<open>posix::Semaphore\<close> (\<open>semaphore.cpp\<close>): the notification of a waiting process through shared memory.

  The semaphore is its value; \<open>post\<close> fails only at the largest value (\<open>EOVERFLOW\<close>), \<open>tryWait\<close> never,
  and \<open>wait\<close> blocks at 0. \<open>MAX_NUMBER_OF_NOTIFIERS\<close> has the value of the default build.

  The first part models each call as a whole. The second part is the concurrent behaviour: a step
  relation in which every access to the flags and to the semaphore is one step, with any number
  of notifiers and one listener, and the proof that no notification is lost.
\<close>

definition MAX_NUMBER_OF_NOTIFIERS :: nat where
  "MAX_NUMBER_OF_NOTIFIERS = 256"

definition SEM_VALUE_MAX :: nat where
  "SEM_VALUE_MAX = 2147483647"

text \<open>\<open>Semaphore::post\<close>, \<open>tryWait\<close> and \<open>wait\<close>; \<open>None\<close> is the error, respectively the blocked call.\<close>

definition Semaphore_post :: "nat \<Rightarrow> nat option" where
  "Semaphore_post v = (if v < SEM_VALUE_MAX then Some (v + 1) else None)"

definition Semaphore_tryWait :: "nat \<Rightarrow> bool \<times> nat" where
  "Semaphore_tryWait v = (if 0 < v then (True, v - 1) else (False, v))"

definition Semaphore_wait :: "nat \<Rightarrow> nat option" where
  "Semaphore_wait v = (if 0 < v then Some (v - 1) else None)"

record condition_variable_data =
  cv_semaphore :: nat
  cv_runtimeName :: string
  cv_toBeDestroyed :: bool
  cv_activeNotifications :: "bool list"

definition ConditionVariableData_ctor :: "string \<Rightarrow> condition_variable_data" where
  "ConditionVariableData_ctor runtimeName =
     \<lparr> cv_semaphore = 0, cv_runtimeName = runtimeName, cv_toBeDestroyed = False,
       cv_activeNotifications = replicate MAX_NUMBER_OF_NOTIFIERS False \<rparr>"

subsection \<open>The notifier\<close>

definition ConditionNotifier_ctor :: "u64 \<Rightarrow> u64 outcome" where
  "ConditionNotifier_ctor index =
     (if unat index \<ge> MAX_NUMBER_OF_NOTIFIERS
      then errorHandler (NOTIFICATION POPO__CONDITION_NOTIFIER_INDEX_TOO_LARGE) FATAL (Inr index)
      else Inr index)"

definition ConditionNotifier_notify :: "u64 \<Rightarrow> condition_variable_data \<Rightarrow> condition_variable_data outcome" where
  "ConditionNotifier_notify index cv =
     (let cv1 = (if unat index < MAX_NUMBER_OF_NOTIFIERS
                 then cv\<lparr> cv_activeNotifications := (cv_activeNotifications cv)[unat index := True] \<rparr> else cv)
      in case Semaphore_post (cv_semaphore cv1) of
           Some v \<Rightarrow> Inr (cv1\<lparr> cv_semaphore := v \<rparr>)
         | None \<Rightarrow> errorHandler (NOTIFICATION POPO__CONDITION_NOTIFIER_SEMAPHORE_CORRUPT_IN_NOTIFY) FATAL (Inr cv1))"

subsection \<open>The listener\<close>

text \<open>\<open>destroy\<close> sets the flag of the listener and wakes it up.\<close>

definition ConditionListener_destroy :: "condition_variable_data \<Rightarrow> (bool \<times> condition_variable_data) outcome" where
  "ConditionListener_destroy cv =
     (case Semaphore_post (cv_semaphore cv) of
        Some v \<Rightarrow> Inr (True, cv\<lparr> cv_semaphore := v \<rparr>)
      | None \<Rightarrow> errorHandler (NOTIFICATION POPO__CONDITION_LISTENER_SEMAPHORE_CORRUPTED_IN_DESTROY) FATAL (Inr (True, cv)))"

definition wasNotified :: "condition_variable_data \<Rightarrow> bool" where
  "wasNotified cv \<longleftrightarrow> cv_semaphore cv \<noteq> 0"

function resetSemaphore :: "condition_variable_data \<Rightarrow> condition_variable_data" where
  "resetSemaphore cv =
     (case Semaphore_tryWait (cv_semaphore cv) of
        (True, v) \<Rightarrow> resetSemaphore (cv\<lparr> cv_semaphore := v \<rparr>)
      | (False, v) \<Rightarrow> cv\<lparr> cv_semaphore := v \<rparr>)"
  by pat_completeness auto
termination
  by (relation "measure cv_semaphore") (auto simp: Semaphore_tryWait_def split: if_splits)

declare resetSemaphore.simps [simp del]

definition ConditionListener_reset :: "nat \<Rightarrow> condition_variable_data \<Rightarrow> condition_variable_data" where
  "ConditionListener_reset index cv =
     (if index < MAX_NUMBER_OF_NOTIFIERS
      then cv\<lparr> cv_activeNotifications := (cv_activeNotifications cv)[index := False] \<rparr> else cv)"

text \<open>The loop over the flags; \<open>activeNotifications\<close> is the vector collected so far.\<close>

primrec collect :: "nat list \<Rightarrow> nat list \<Rightarrow> condition_variable_data \<Rightarrow> nat list \<times> condition_variable_data" where
  "collect [] activeNotifications cv = (activeNotifications, cv)"
| "collect (i # is) activeNotifications cv =
     (if cv_activeNotifications cv ! i
      then collect is (activeNotifications @ [i]) (ConditionListener_reset i cv)
      else collect is activeNotifications cv)"

text \<open>
  \<open>waitImpl\<close>, for a wait call on the condition variable that gives back \<open>None\<close> if it blocks
  forever, and otherwise whether to go on and the condition variable.
\<close>

partial_function (option) waitImpl_loop ::
  "(condition_variable_data \<Rightarrow> (bool \<times> condition_variable_data) option) \<Rightarrow> bool \<Rightarrow> bool \<Rightarrow> nat list \<Rightarrow>
     condition_variable_data \<Rightarrow> (nat list \<times> condition_variable_data) option" where
  "waitImpl_loop waitCall toBeDestroyed doReturn activeNotifications cv =
     (if toBeDestroyed then Some (activeNotifications, cv)
      else (case collect [0..<MAX_NUMBER_OF_NOTIFIERS] activeNotifications cv of (ns, cv1) \<Rightarrow>
            if ns \<noteq> [] \<or> doReturn then Some (ns, cv1)
            else (case waitCall cv1 of None \<Rightarrow> None
                  | Some (ok, cv2) \<Rightarrow> waitImpl_loop waitCall toBeDestroyed (\<not> ok) ns cv2)))"

definition waitImpl ::
  "(condition_variable_data \<Rightarrow> (bool \<times> condition_variable_data) option) \<Rightarrow> bool \<Rightarrow>
     condition_variable_data \<Rightarrow> (nat list \<times> condition_variable_data) option" where
  "waitImpl waitCall toBeDestroyed cv = waitImpl_loop waitCall toBeDestroyed False [] (resetSemaphore cv)"

definition ConditionListener_wait :: "bool \<Rightarrow> condition_variable_data \<Rightarrow> (nat list \<times> condition_variable_data) option" where
  "ConditionListener_wait toBeDestroyed cv =
     waitImpl (\<lambda>cv. map_option (\<lambda>v. (True, cv\<lparr> cv_semaphore := v \<rparr>)) (Semaphore_wait (cv_semaphore cv)))
       toBeDestroyed cv"

text \<open>With a time-out the wait call returns in any case, and the collection is the last one.\<close>

definition ConditionListener_timedWait :: "bool \<Rightarrow> condition_variable_data \<Rightarrow> (nat list \<times> condition_variable_data) option" where
  "ConditionListener_timedWait toBeDestroyed cv =
     waitImpl (\<lambda>cv. Some (False, case Semaphore_wait (cv_semaphore cv) of Some v \<Rightarrow> cv\<lparr> cv_semaphore := v \<rparr> | None \<Rightarrow> cv))
       toBeDestroyed cv"

subsection \<open>Sequential behaviour\<close>

definition cv_ok :: "condition_variable_data \<Rightarrow> bool" where
  "cv_ok cv \<longleftrightarrow> length (cv_activeNotifications cv) = MAX_NUMBER_OF_NOTIFIERS \<and> cv_semaphore cv \<le> SEM_VALUE_MAX"

definition active_indices :: "condition_variable_data \<Rightarrow> nat list" where
  "active_indices cv = filter (\<lambda>i. cv_activeNotifications cv ! i) [0..<MAX_NUMBER_OF_NOTIFIERS]"

lemma resetSemaphore_eq: "resetSemaphore cv = cv\<lparr> cv_semaphore := 0 \<rparr>"
  by (induction cv rule: resetSemaphore.induct)
    (subst resetSemaphore.simps, auto simp: Semaphore_tryWait_def)

lemma collect_eq:
  "distinct is \<Longrightarrow> \<forall>i\<in>set is. i < MAX_NUMBER_OF_NOTIFIERS \<Longrightarrow>
   length (cv_activeNotifications cv) = MAX_NUMBER_OF_NOTIFIERS \<Longrightarrow>
   \<exists>fl. collect is ns cv = (ns @ filter (\<lambda>i. cv_activeNotifications cv ! i) is, cv\<lparr> cv_activeNotifications := fl \<rparr>) \<and>
     length fl = MAX_NUMBER_OF_NOTIFIERS \<and>
     (\<forall>i<MAX_NUMBER_OF_NOTIFIERS. fl ! i = (if i \<in> set is then False else cv_activeNotifications cv ! i))"
proof (induction "is" arbitrary: ns cv)
  case Nil
  then show ?case by (intro exI [of _ "cv_activeNotifications cv"]) simp
next
  case (Cons i "is")
  let ?cv = "ConditionListener_reset i cv"
  show ?case
  proof (cases "cv_activeNotifications cv ! i")
    case True
    have "filter (\<lambda>j. cv_activeNotifications ?cv ! j) is = filter (\<lambda>j. cv_activeNotifications cv ! j) is"
      using Cons.prems by (intro filter_cong refl) (auto simp: ConditionListener_reset_def nth_list_update)
    then show ?thesis using True Cons.prems Cons.IH [of ?cv "ns @ [i]"]
      by (auto simp: ConditionListener_reset_def nth_list_update)
  next
    case False
    then show ?thesis using Cons.prems Cons.IH [of cv ns] by auto
  qed
qed

lemma collect_all:
  assumes "cv_ok cv"
  obtains cv' where "collect [0..<MAX_NUMBER_OF_NOTIFIERS] [] cv = (active_indices cv, cv')" "cv_ok cv'"
    "active_indices cv' = []" "cv_semaphore cv' = cv_semaphore cv"
  using assms collect_eq [of "[0..<MAX_NUMBER_OF_NOTIFIERS]" cv "[]"]
  by (auto simp: cv_ok_def active_indices_def filter_empty_conv)

text \<open>
  C23: a notification reaches the listener. After \<open>notify\<close> on a consistent condition variable,
  which succeeds as long as the semaphore does not overflow, \<open>wait\<close> and \<open>timedWait\<close> return without
  blocking and give exactly the indices that were active, in increasing order and with the
  notified one among them; afterwards no notification is active any more.
\<close>

theorem notify_then_wait:
  assumes "cv_ok cv" "unat index < MAX_NUMBER_OF_NOTIFIERS" "cv_semaphore cv < SEM_VALUE_MAX"
  shows "\<exists>cv1 ns cv2. ConditionNotifier_notify index cv = Inr cv1 \<and> wasNotified cv1 \<and>
    ConditionListener_wait False cv1 = Some (ns, cv2) \<and> ConditionListener_timedWait False cv1 = Some (ns, cv2) \<and>
    sorted_wrt (<) ns \<and> set ns = insert (unat index) (set (active_indices cv)) \<and>
    cv_ok cv2 \<and> active_indices cv2 = [] \<and> \<not> wasNotified cv2"
proof -
  define cv1 where "cv1 = cv\<lparr> cv_activeNotifications := (cv_activeNotifications cv)[unat index := True],
    cv_semaphore := cv_semaphore cv + 1 \<rparr>"
  have n: "ConditionNotifier_notify index cv = Inr cv1" "wasNotified cv1"
    using assms(2,3) by (simp_all add: ConditionNotifier_notify_def Semaphore_post_def cv1_def wasNotified_def)
  have ok: "cv_ok (cv1\<lparr> cv_semaphore := 0 \<rparr>)" using assms(1) by (simp add: cv_ok_def cv1_def)
  obtain cv2 where c: "collect [0..<MAX_NUMBER_OF_NOTIFIERS] [] (cv1\<lparr> cv_semaphore := 0 \<rparr>) =
      (active_indices (cv1\<lparr> cv_semaphore := 0 \<rparr>), cv2)" "cv_ok cv2" "active_indices cv2 = []" "cv_semaphore cv2 = 0"
    by (rule collect_all [OF ok]) auto
  have a: "active_indices (cv1\<lparr> cv_semaphore := 0 \<rparr>) = active_indices cv1" by (simp add: active_indices_def)
  have i: "set (active_indices cv1) = insert (unat index) (set (active_indices cv))"
    using assms(1,2) by (auto simp: active_indices_def cv1_def cv_ok_def nth_list_update)
  have "waitImpl_loop w False False [] (cv1\<lparr> cv_semaphore := 0 \<rparr>) = Some (active_indices cv1, cv2)" for w
    using i by (subst waitImpl_loop.simps) (auto simp: c(1) a)
  then have w: "ConditionListener_wait False cv1 = Some (active_indices cv1, cv2)"
    "ConditionListener_timedWait False cv1 = Some (active_indices cv1, cv2)"
    by (simp_all add: ConditionListener_wait_def ConditionListener_timedWait_def waitImpl_def resetSemaphore_eq)
  have "sorted_wrt (<) (active_indices cv1)"
    unfolding active_indices_def by (intro sorted_wrt_filter) simp
  with n w i c show ?thesis by (auto simp: wasNotified_def)
qed

lemma notify_then_wait_witness:
  "\<exists>cv1 cv2. ConditionNotifier_notify 7 (ConditionVariableData_ctor ''app'') = Inr cv1 \<and>
     ConditionListener_wait False cv1 = Some ([7], cv2)"
proof -
  let ?cv = "ConditionVariableData_ctor ''app''"
  have ok: "cv_ok ?cv" "unat (7 :: u64) < MAX_NUMBER_OF_NOTIFIERS" "cv_semaphore ?cv < SEM_VALUE_MAX"
    by (simp_all add: ConditionVariableData_ctor_def cv_ok_def MAX_NUMBER_OF_NOTIFIERS_def SEM_VALUE_MAX_def)
  have "set (active_indices ?cv) = {}" by (auto simp: active_indices_def ConditionVariableData_ctor_def)
  moreover have "ns = [7]" if "set ns = {7}" "sorted_wrt (<) ns" for ns :: "nat list"
  proof -
    have "distinct ns" using that(2) by (simp add: strict_sorted_iff)
    then have "length ns = 1" using that(1) by (metis card.empty card_insert_disjoint distinct_card empty_iff finite.emptyI One_nat_def)
    then show ?thesis using that(1) by (cases ns) auto
  qed
  ultimately show ?thesis using notify_then_wait [OF ok] by auto
qed

subsection \<open>Concurrent notifiers\<close>

text \<open>
  The listener thread, which calls \<open>wait\<close> again and again, is at one of these points: counting the
  semaphore down, reading the flag at the head of the loop, loading the flag with a given index,
  storing \<open>false\<close> into the flag that it has just seen (the two accesses are separate, and a notifier
  may store in between), blocked in (or about to enter) \<open>Semaphore::wait\<close>, or back at the caller with a result.
\<close>

datatype listener_point = Resetting | AtLoopHead "nat list" | Collecting nat "nat list" | Clearing nat "nat list" | InWait | Returned "nat list"

text \<open>
  \<open>sys_pending\<close> are the notifiers that have stored their flag and not yet posted the semaphore,
  \<open>sys_destroying\<close> is the same for a thread in \<open>destroy\<close>.
\<close>

record cv_system =
  sys_data :: condition_variable_data
  sys_toBeDestroyed :: bool
  sys_listener :: listener_point
  sys_pending :: "nat multiset"
  sys_destroying :: nat

definition initial_system :: "condition_variable_data \<Rightarrow> cv_system" where
  "initial_system cv = \<lparr> sys_data = cv, sys_toBeDestroyed = False, sys_listener = Resetting,
     sys_pending = {#}, sys_destroying = 0 \<rparr>"

definition set_semaphore :: "nat \<Rightarrow> cv_system \<Rightarrow> cv_system" where
  "set_semaphore v s = s\<lparr> sys_data := (sys_data s)\<lparr> cv_semaphore := v \<rparr> \<rparr>"

definition set_flag :: "nat \<Rightarrow> bool \<Rightarrow> cv_system \<Rightarrow> cv_system" where
  "set_flag i b s = s\<lparr> sys_data := (sys_data s)\<lparr> cv_activeNotifications :=
     (cv_activeNotifications (sys_data s))[i := b] \<rparr> \<rparr>"

abbreviation sem :: "cv_system \<Rightarrow> nat" where
  "sem s \<equiv> cv_semaphore (sys_data s)"

abbreviation flag :: "cv_system \<Rightarrow> nat \<Rightarrow> bool" where
  "flag s i \<equiv> cv_activeNotifications (sys_data s) ! i"

inductive cv_step :: "cv_system \<Rightarrow> cv_system \<Rightarrow> bool" where
  notify_store: "i < MAX_NUMBER_OF_NOTIFIERS \<Longrightarrow>
    cv_step s ((set_flag i True s)\<lparr> sys_pending := add_mset i (sys_pending s) \<rparr>)"
| notify_post: "i \<in># sys_pending s \<Longrightarrow> Semaphore_post (sem s) = Some v \<Longrightarrow>
    cv_step s ((set_semaphore v s)\<lparr> sys_pending := sys_pending s - {#i#} \<rparr>)"
| destroy_store: "cv_step s (s\<lparr> sys_toBeDestroyed := True, sys_destroying := sys_destroying s + 1 \<rparr>)"
| destroy_post: "0 < sys_destroying s \<Longrightarrow> Semaphore_post (sem s) = Some v \<Longrightarrow>
    cv_step s ((set_semaphore v s)\<lparr> sys_destroying := sys_destroying s - 1 \<rparr>)"
| reset_down: "sys_listener s = Resetting \<Longrightarrow> Semaphore_tryWait (sem s) = (True, v) \<Longrightarrow>
    cv_step s (set_semaphore v s)"
| reset_done: "sys_listener s = Resetting \<Longrightarrow> Semaphore_tryWait (sem s) = (False, v) \<Longrightarrow>
    cv_step s (s\<lparr> sys_listener := AtLoopHead [] \<rparr>)"
| loop_enter: "sys_listener s = AtLoopHead ns \<Longrightarrow> \<not> sys_toBeDestroyed s \<Longrightarrow>
    cv_step s (s\<lparr> sys_listener := Collecting 0 ns \<rparr>)"
| loop_exit: "sys_listener s = AtLoopHead ns \<Longrightarrow> sys_toBeDestroyed s \<Longrightarrow>
    cv_step s (s\<lparr> sys_listener := Returned ns \<rparr>)"
| collect_active: "sys_listener s = Collecting i ns \<Longrightarrow> i < MAX_NUMBER_OF_NOTIFIERS \<Longrightarrow> flag s i \<Longrightarrow>
    cv_step s (s\<lparr> sys_listener := Clearing i ns \<rparr>)"
| collect_reset: "sys_listener s = Clearing i ns \<Longrightarrow>
    cv_step s ((set_flag i False s)\<lparr> sys_listener := Collecting (i + 1) (ns @ [i]) \<rparr>)"
| collect_inactive: "sys_listener s = Collecting i ns \<Longrightarrow> i < MAX_NUMBER_OF_NOTIFIERS \<Longrightarrow> \<not> flag s i \<Longrightarrow>
    cv_step s (s\<lparr> sys_listener := Collecting (i + 1) ns \<rparr>)"
| collect_done: "sys_listener s = Collecting MAX_NUMBER_OF_NOTIFIERS ns \<Longrightarrow>
    cv_step s (s\<lparr> sys_listener := (if ns \<noteq> [] then Returned ns else InWait) \<rparr>)"
| wake_up: "sys_listener s = InWait \<Longrightarrow> Semaphore_wait (sem s) = Some v \<Longrightarrow>
    cv_step s ((set_semaphore v s)\<lparr> sys_listener := AtLoopHead [] \<rparr>)"
| call_again: "sys_listener s = Returned ns \<Longrightarrow> cv_step s (s\<lparr> sys_listener := Resetting \<rparr>)"

inductive_cases cv_stepE: "cv_step s s'"

text \<open>The indices the listener has passed in the current collection.\<close>

fun passed :: "listener_point \<Rightarrow> nat" where
  "passed (Collecting i ns) = i"
| "passed (Clearing i ns) = i"
| "passed InWait = MAX_NUMBER_OF_NOTIFIERS"
| "passed _ = 0"

text \<open>The points at which the listener no longer sees a request to end before it waits.\<close>

fun past_head :: "listener_point \<Rightarrow> bool" where
  "past_head (Collecting i ns) = True"
| "past_head (Clearing i ns) = True"
| "past_head InWait = True"
| "past_head _ = False"

definition no_lost_wakeup :: "cv_system \<Rightarrow> bool" where
  "no_lost_wakeup s \<longleftrightarrow>
     length (cv_activeNotifications (sys_data s)) = MAX_NUMBER_OF_NOTIFIERS \<and>
     (\<forall>i < passed (sys_listener s). i < MAX_NUMBER_OF_NOTIFIERS \<longrightarrow> flag s i \<longrightarrow> 0 < sem s \<or> i \<in># sys_pending s) \<and>
     (past_head (sys_listener s) \<longrightarrow> sys_toBeDestroyed s \<longrightarrow> 0 < sem s \<or> 0 < sys_destroying s)"

lemmas cv_step_simps = no_lost_wakeup_def set_semaphore_def set_flag_def Semaphore_post_def Semaphore_tryWait_def
  Semaphore_wait_def

lemma cv_step_no_lost_wakeup: "cv_step s s' \<Longrightarrow> no_lost_wakeup s \<Longrightarrow> no_lost_wakeup s'"
proof (induction rule: cv_step.induct)
  case (collect_reset s i ns)
  then show ?case by (auto simp: cv_step_simps nth_list_update less_Suc_eq)
next
  case (collect_inactive s i ns)
  then show ?case by (auto simp: cv_step_simps less_Suc_eq)
qed (auto simp: cv_step_simps nth_list_update split: if_splits)

lemma cv_steps_no_lost_wakeup: "cv_step\<^sup>*\<^sup>* s s' \<Longrightarrow> no_lost_wakeup s \<Longrightarrow> no_lost_wakeup s'"
  by (induction rule: rtranclp_induct) (auto intro: cv_step_no_lost_wakeup)

text \<open>
  C8: no notification is lost, whatever the interleaving of any number of notifiers, of \<open>destroy\<close>
  and of the listener. If the listener is blocked (it waits and the semaphore is 0), then every
  active notification belongs to a notifier that is about to post the semaphore; and if the end
  was requested, the requesting thread is about to post it.
\<close>

theorem blocked_listener_will_be_woken:
  assumes "cv_step\<^sup>*\<^sup>* (initial_system (ConditionVariableData_ctor name)) s"
    and "sys_listener s = InWait" "sem s = 0"
  shows "(\<forall>i. i < MAX_NUMBER_OF_NOTIFIERS \<and> flag s i \<longrightarrow> i \<in># sys_pending s) \<and>
    (sys_toBeDestroyed s \<longrightarrow> 0 < sys_destroying s)"
proof -
  have "no_lost_wakeup (initial_system (ConditionVariableData_ctor name))"
    by (simp add: no_lost_wakeup_def initial_system_def ConditionVariableData_ctor_def)
  with assms(1) have "no_lost_wakeup s" by (rule cv_steps_no_lost_wakeup)
  with assms(2,3) show ?thesis by (simp add: no_lost_wakeup_def)
qed

lemma collect_quiet:
  assumes "\<forall>i<MAX_NUMBER_OF_NOTIFIERS. \<not> flag s i" "k \<le> MAX_NUMBER_OF_NOTIFIERS"
  shows "cv_step\<^sup>*\<^sup>* (s\<lparr> sys_listener := Collecting 0 ns \<rparr>) (s\<lparr> sys_listener := Collecting k ns \<rparr>)"
  using assms(2)
proof (induction k)
  case (Suc k)
  have "cv_step (s\<lparr> sys_listener := Collecting k ns \<rparr>) (s\<lparr> sys_listener := Collecting (k + 1) ns \<rparr>)"
    using collect_inactive [of "s\<lparr> sys_listener := Collecting k ns \<rparr>" k ns] assms(1) Suc.prems by simp
  with Suc show ?case by simp
qed simp

lemma blocked_listener_will_be_woken_witness:
  "\<exists>s. cv_step\<^sup>*\<^sup>* (initial_system (ConditionVariableData_ctor ''app'')) s \<and> sys_listener s = InWait \<and> sem s = 0 \<and>
     flag s 7 \<and> 7 \<in># sys_pending s"
proof -
  let ?i = "initial_system (ConditionVariableData_ctor ''app'')"
  have q: "\<forall>i<MAX_NUMBER_OF_NOTIFIERS. \<not> flag ?i i" "sem ?i = 0" "sys_listener ?i = Resetting"
    "\<not> sys_toBeDestroyed ?i" "length (cv_activeNotifications (sys_data ?i)) = MAX_NUMBER_OF_NOTIFIERS"
    by (simp_all add: initial_system_def ConditionVariableData_ctor_def)
  have 1: "cv_step ?i (?i\<lparr> sys_listener := AtLoopHead [] \<rparr>)"
    using q by (intro reset_done) (auto simp: Semaphore_tryWait_def)
  have 2: "cv_step (?i\<lparr> sys_listener := AtLoopHead [] \<rparr>) (?i\<lparr> sys_listener := Collecting 0 [] \<rparr>)"
    using q loop_enter [of "?i\<lparr> sys_listener := AtLoopHead [] \<rparr>" "[]"] by simp
  have 3: "cv_step\<^sup>*\<^sup>* (?i\<lparr> sys_listener := Collecting 0 [] \<rparr>) (?i\<lparr> sys_listener := Collecting MAX_NUMBER_OF_NOTIFIERS [] \<rparr>)"
    using q(1) by (rule collect_quiet) simp
  have 4: "cv_step (?i\<lparr> sys_listener := Collecting MAX_NUMBER_OF_NOTIFIERS [] \<rparr>) (?i\<lparr> sys_listener := InWait \<rparr>)"
    using collect_done [of "?i\<lparr> sys_listener := Collecting MAX_NUMBER_OF_NOTIFIERS [] \<rparr>" "[]"] by simp
  let ?w = "?i\<lparr> sys_listener := InWait \<rparr>"
  let ?s = "(set_flag 7 True ?w)\<lparr> sys_pending := add_mset 7 (sys_pending ?w) \<rparr>"
  have 5: "cv_step ?w ?s" by (rule notify_store) (simp add: MAX_NUMBER_OF_NOTIFIERS_def)
  have r: "cv_step\<^sup>*\<^sup>* ?i ?s" using 1 2 3 4 5 by (meson converse_rtranclp_into_rtranclp rtranclp.rtrancl_into_rtrancl)
  have s: "sys_listener ?s = InWait" "sem ?s = 0" "flag ?s 7"
    using q by (simp_all add: set_flag_def MAX_NUMBER_OF_NOTIFIERS_def)
  have "7 < MAX_NUMBER_OF_NOTIFIERS" by (simp add: MAX_NUMBER_OF_NOTIFIERS_def)
  with blocked_listener_will_be_woken [OF r s(1,2)] s(3) have "7 \<in># sys_pending ?s" by blast
  with r s show ?thesis by blast
qed

end
