(* ===== verification/Chunk_Queue.thy ===== *)
theory Chunk_Queue
  imports Used_Chunk_List Variant_Queue Condition_Variable
begin

section \<open>Chunk queues\<close>

text \<open>
  \<open>popo::ChunkQueueData\<close>, \<open>popo::ChunkQueuePusher\<close> and \<open>popo::ChunkQueuePopper\<close>
  (\<open>chunk_queue_data.hpp\<close>, \<open>chunk_queue_pusher.inl\<close>, \<open>chunk_queue_popper.inl\<close>): the queue of
  chunks between a sender and a receiver, with the notification of the receiver.

  The state \<open>popo_state\<close> holds what the ports share: the memory of the chunks, the queues by their
  address and the condition variables by their address. \<open>Capacity\<close> is the template parameter
  \<open>MAX_QUEUE_CAPACITY\<close>. The locks of the queue data are held within one operation only and do not
  appear in the model, in which the operations run one after the other.

  The invariant \<open>popo_rep\<close> describes the queues by the lists of the chunks they hold, and states that
  the reference counters account for exactly these chunks and the other owners. Its number \<open>b\<close> is
  the number of operations for which no counter (the 64-bit positions of the queues, the reference
  counters, the value of a semaphore) can overflow.
\<close>

datatype queue_full_policy = BLOCK_PRODUCER | DISCARD_OLDEST_DATA

record chunk_queue_data =
  cqd_uniqueId :: u64
  cqd_queue :: "shm_safe_unmanaged_chunk variant_queue"
  cqd_queueHasLostChunks :: bool
  cqd_conditionVariableDataPtr :: "address pointer"
  cqd_conditionVariableNotificationIndex :: "u64 option"
  cqd_queueFullPolicy :: queue_full_policy

record popo_state =
  ps_shm :: shm
  ps_queues :: "address \<rightharpoonup> chunk_queue_data"
  ps_condvars :: "address \<rightharpoonup> condition_variable_data"

definition ChunkQueueData_ctor :: "u64 \<Rightarrow> u64 \<Rightarrow> queue_full_policy \<Rightarrow> variant_queue_types \<Rightarrow> chunk_queue_data" where
  "ChunkQueueData_ctor Capacity uniqueId policy queueType =
     \<lparr> cqd_uniqueId = uniqueId, cqd_queue = VariantQueue_ctor Capacity None queueType,
       cqd_queueHasLostChunks = False, cqd_conditionVariableDataPtr = None,
       cqd_conditionVariableNotificationIndex = None, cqd_queueFullPolicy = policy \<rparr>"

subsection \<open>The pusher\<close>

text \<open>The notification of the condition variable, if there is one.\<close>

definition notify_receiver ::
  "chunk_queue_data \<Rightarrow> (address \<rightharpoonup> condition_variable_data) \<Rightarrow> (address \<rightharpoonup> condition_variable_data) outcome" where
  "notify_receiver cqd cvs =
     (case cqd_conditionVariableDataPtr cqd of None \<Rightarrow> Inr cvs
      | Some c \<Rightarrow>
          (case (cvs c, cqd_conditionVariableNotificationIndex cqd) of
             (Some cv, Some index) \<Rightarrow>
               obind (ConditionNotifier_ctor index) (\<lambda>i.
               obind (ConditionNotifier_notify i cv) (\<lambda>cv'. Inr (cvs(c \<mapsto> cv'))))
           | _ \<Rightarrow> Inl NULLPTR_ACCESS))"

text \<open>The chunk that an overflow gives back is dropped.\<close>

definition drop_overflow :: "shm_safe_unmanaged_chunk option \<Rightarrow> shm \<Rightarrow> (bool \<times> shm) outcome" where
  "drop_overflow pushRet S =
     (case pushRet of None \<Rightarrow> Inr (False, S)
      | Some d \<Rightarrow> (case releaseToSharedChunk d of (temporary, _) \<Rightarrow>
                    obind (SharedChunk_dtor temporary S) (\<lambda>S'. Inr (True, S'))))"

definition ChunkQueuePusher_push ::
  "u64 \<Rightarrow> address \<Rightarrow> shared_chunk \<Rightarrow> popo_state \<Rightarrow> (bool \<times> popo_state) outcome" where
  "ChunkQueuePusher_push Capacity queue chunk P =
     (case ps_queues P queue of None \<Rightarrow> Inl NULLPTR_ACCESS
      | Some cqd \<Rightarrow>
          obind (returns (VariantQueue_push Capacity (ShmSafeUnmanagedChunk_ctor chunk) (cqd_queue cqd))) (\<lambda>(pushRet, vq).
          obind (drop_overflow pushRet (ps_shm P)) (\<lambda>(hasQueueOverflow, S').
          obind (notify_receiver cqd (ps_condvars P)) (\<lambda>cvs'.
          Inr (\<not> hasQueueOverflow,
               P\<lparr> ps_shm := S', ps_queues := (ps_queues P)(queue \<mapsto> cqd\<lparr> cqd_queue := vq \<rparr>),
                  ps_condvars := cvs' \<rparr>)))))"

definition lostAChunk :: "address \<Rightarrow> popo_state \<Rightarrow> popo_state outcome" where
  "lostAChunk queue P =
     (case ps_queues P queue of None \<Rightarrow> Inl NULLPTR_ACCESS
      | Some cqd \<Rightarrow> Inr (P\<lparr> ps_queues := (ps_queues P)(queue \<mapsto> cqd\<lparr> cqd_queueHasLostChunks := True \<rparr>) \<rparr>))"

subsection \<open>The popper\<close>

text \<open>The check of the version of a received chunk: a chunk of another version is dropped.\<close>

definition check_version :: "shared_chunk \<Rightarrow> shm \<Rightarrow> (shared_chunk option \<times> shm) outcome" where
  "check_version chunk S =
     (case Option.bind (SharedChunk_getChunkHeader chunk S) (shm_headers S) of None \<Rightarrow> Inl NULLPTR_ACCESS
      | Some header \<Rightarrow>
          if ch_chunkHeaderVersion header \<noteq> CHUNK_HEADER_VERSION
          then errorHandler (POPO POPO__CHUNK_QUEUE_POPPER_CHUNK_WITH_INCOMPATIBLE_CHUNK_HEADER_VERSION) SEVERE
                 (obind (SharedChunk_dtor chunk S) (\<lambda>S'. Inr (None, S')))
          else Inr (Some chunk, S))"

definition ChunkQueuePopper_tryPop :: "u64 \<Rightarrow> address \<Rightarrow> popo_state \<Rightarrow> (shared_chunk option \<times> popo_state) outcome" where
  "ChunkQueuePopper_tryPop Capacity queue P =
     (case ps_queues P queue of None \<Rightarrow> Inl NULLPTR_ACCESS
      | Some cqd \<Rightarrow>
          obind (returns (VariantQueue_pop Capacity (cqd_queue cqd))) (\<lambda>(retVal, vq).
            let P1 = P\<lparr> ps_queues := (ps_queues P)(queue \<mapsto> cqd\<lparr> cqd_queue := vq \<rparr>) \<rparr>
            in case retVal of None \<Rightarrow> Inr (None, P1)
               | Some d \<Rightarrow> (case releaseToSharedChunk d of (chunk, _) \<Rightarrow>
                   obind (check_version chunk (ps_shm P1)) (\<lambda>(r, S'). Inr (r, P1\<lparr> ps_shm := S' \<rparr>)))))"

definition hasLostChunks :: "address \<Rightarrow> popo_state \<Rightarrow> (bool \<times> popo_state) outcome" where
  "hasLostChunks queue P =
     (case ps_queues P queue of None \<Rightarrow> Inl NULLPTR_ACCESS
      | Some cqd \<Rightarrow>
          if cqd_queueHasLostChunks cqd
          then Inr (True, P\<lparr> ps_queues := (ps_queues P)(queue \<mapsto> cqd\<lparr> cqd_queueHasLostChunks := False \<rparr>) \<rparr>)
          else Inr (False, P))"

text \<open>The elements a smaller capacity removes are forgotten.\<close>

definition ChunkQueuePopper_setCapacity :: "u64 \<Rightarrow> u64 \<Rightarrow> address \<Rightarrow> popo_state \<Rightarrow> popo_state outcome" where
  "ChunkQueuePopper_setCapacity Capacity newCapacity queue P =
     (case ps_queues P queue of None \<Rightarrow> Inl NULLPTR_ACCESS
      | Some cqd \<Rightarrow>
          obind (returns (VariantQueue_setCapacity Capacity newCapacity (cqd_queue cqd))) (\<lambda>(_, _, vq).
          Inr (P\<lparr> ps_queues := (ps_queues P)(queue \<mapsto> cqd\<lparr> cqd_queue := vq \<rparr>) \<rparr>)))"

text \<open>\<open>clear\<close> on the queue and the shared memory; \<open>None\<close> if the loop does not end.\<close>

partial_function (option) clear_loop ::
  "u64 \<Rightarrow> shm_safe_unmanaged_chunk variant_queue \<Rightarrow> shm \<Rightarrow>
     (shm_safe_unmanaged_chunk variant_queue \<times> shm) outcome option" where
  "clear_loop Capacity vq S =
     (case VariantQueue_pop Capacity vq of None \<Rightarrow> None
      | Some (None, vq') \<Rightarrow> Some (Inr (vq', S))
      | Some (Some d, vq') \<Rightarrow>
          (case SharedChunk_dtor (fst (releaseToSharedChunk d)) S of
             Inl e \<Rightarrow> Some (Inl e)
           | Inr S' \<Rightarrow> clear_loop Capacity vq' S'))"

definition ChunkQueuePopper_clear :: "u64 \<Rightarrow> address \<Rightarrow> popo_state \<Rightarrow> popo_state outcome" where
  "ChunkQueuePopper_clear Capacity queue P =
     (case ps_queues P queue of None \<Rightarrow> Inl NULLPTR_ACCESS
      | Some cqd \<Rightarrow>
          obind (returns (clear_loop Capacity (cqd_queue cqd) (ps_shm P))) (\<lambda>r.
          obind r (\<lambda>(vq, S').
          Inr (P\<lparr> ps_shm := S', ps_queues := (ps_queues P)(queue \<mapsto> cqd\<lparr> cqd_queue := vq \<rparr>) \<rparr>))))"

definition setConditionVariable :: "address \<Rightarrow> u64 \<Rightarrow> address \<Rightarrow> popo_state \<Rightarrow> popo_state outcome" where
  "setConditionVariable conditionVariableDataRef notificationIndex queue P =
     (case ps_queues P queue of None \<Rightarrow> Inl NULLPTR_ACCESS
      | Some cqd \<Rightarrow> Inr (P\<lparr> ps_queues := (ps_queues P)(queue \<mapsto>
          cqd\<lparr> cqd_conditionVariableDataPtr := Some conditionVariableDataRef,
               cqd_conditionVariableNotificationIndex := Some notificationIndex \<rparr>) \<rparr>))"

definition unsetConditionVariable :: "address \<Rightarrow> popo_state \<Rightarrow> popo_state outcome" where
  "unsetConditionVariable queue P =
     (case ps_queues P queue of None \<Rightarrow> Inl NULLPTR_ACCESS
      | Some cqd \<Rightarrow> Inr (P\<lparr> ps_queues := (ps_queues P)(queue \<mapsto>
          cqd\<lparr> cqd_conditionVariableDataPtr := None, cqd_conditionVariableNotificationIndex := None \<rparr>) \<rparr>))"

subsection \<open>The accounting invariant of the queues\<close>

type_synonym queue_contents = "address \<rightharpoonup> address list"

definition queued :: "queue_contents \<Rightarrow> address multiset" where
  "queued Q = (\<Sum>q\<in>dom Q. mset (the (Q q)))"

lemma queued_upd:
  assumes "finite (dom Q)" "Q q = Some ms"
  shows "queued (Q(q \<mapsto> ms')) + mset ms = queued Q + mset ms'"
proof -
  have d: "dom (Q(q \<mapsto> ms')) = dom Q" using assms(2) by auto
  have "queued (Q(q \<mapsto> ms')) = mset ms' + (\<Sum>x\<in>dom Q - {q}. mset (the (Q x)))"
    unfolding queued_def d using assms by (subst sum.remove [of _ q]) (auto intro!: sum.cong)
  moreover have "queued Q = mset ms + (\<Sum>x\<in>dom Q - {q}. mset (the (Q x)))"
    unfolding queued_def using assms by (subst sum.remove [of _ q]) auto
  ultimately show ?thesis by (simp add: ac_simps)
qed

definition condvar_ok :: "(address \<rightharpoonup> condition_variable_data) \<Rightarrow> chunk_queue_data \<Rightarrow> bool" where
  "condvar_ok cvs cqd \<longleftrightarrow>
     (case cqd_conditionVariableDataPtr cqd of None \<Rightarrow> True
      | Some c \<Rightarrow> cvs c \<noteq> None \<and>
          (\<exists>i. cqd_conditionVariableNotificationIndex cqd = Some i \<and> unat i < MAX_NUMBER_OF_NOTIFIERS))"

definition condvars_ok :: "nat \<Rightarrow> (address \<rightharpoonup> condition_variable_data) \<Rightarrow> bool" where
  "condvars_ok b cvs \<longleftrightarrow> (\<forall>c cv. cvs c = Some cv \<longrightarrow> cv_ok cv \<and> cv_semaphore cv + b \<le> SEM_VALUE_MAX)"

definition queue_rep ::
  "u64 \<Rightarrow> nat \<Rightarrow> (address \<rightharpoonup> condition_variable_data) \<Rightarrow> chunk_queue_data \<Rightarrow> address list \<Rightarrow> bool" where
  "queue_rep Capacity b cvs cqd ms \<longleftrightarrow>
     vq_rep Capacity b (cqd_queue cqd) (map Some ms) \<and> 0 < vq_cap Capacity (cqd_queue cqd) \<and> condvar_ok cvs cqd"

text \<open>A chunk of the version this build understands.\<close>

definition version_ok :: "shm \<Rightarrow> address \<Rightarrow> bool" where
  "version_ok S m \<longleftrightarrow> (case snd (chunk_content S m) of None \<Rightarrow> False
     | Some h \<Rightarrow> ch_chunkHeaderVersion h = CHUNK_HEADER_VERSION)"

definition popo_rep :: "u64 \<Rightarrow> nat \<Rightarrow> popo_state \<Rightarrow> queue_contents \<Rightarrow> address multiset \<Rightarrow> bool" where
  "popo_rep Capacity b P Q Os \<longleftrightarrow>
     finite (dom Q) \<and> (\<forall>q. rel_option (queue_rep Capacity b (ps_condvars P)) (ps_queues P q) (Q q)) \<and>
     condvars_ok b (ps_condvars P) \<and>
     shm_inv (ps_shm P) (Os + queued Q) \<and> (\<forall>m. m \<in># Os + queued Q \<longrightarrow> version_ok (ps_shm P) m) \<and>
     size (Os + queued Q) + b < 2 ^ 64 - 1"

text \<open>What the operations on a queue do not change.\<close>

definition queue_static ::
  "u64 \<Rightarrow> popo_state \<Rightarrow> address \<Rightarrow> (u64 \<times> nat \<times> bool \<times> queue_full_policy \<times> address pointer \<times> u64 option) option" where
  "queue_static Capacity P q = map_option (\<lambda>cqd. (cqd_uniqueId cqd, vq_cap Capacity (cqd_queue cqd),
     vq_overwrites (cqd_queue cqd), cqd_queueFullPolicy cqd, cqd_conditionVariableDataPtr cqd,
     cqd_conditionVariableNotificationIndex cqd)) (ps_queues P q)"

definition lost_flag :: "popo_state \<Rightarrow> address \<Rightarrow> bool" where
  "lost_flag P q = (case ps_queues P q of None \<Rightarrow> False | Some cqd \<Rightarrow> cqd_queueHasLostChunks cqd)"

definition same_chunks :: "address multiset \<Rightarrow> popo_state \<Rightarrow> popo_state \<Rightarrow> bool" where
  "same_chunks Os P P' \<longleftrightarrow> (\<forall>m. m \<in># Os \<longrightarrow> chunk_content (ps_shm P') m = chunk_content (ps_shm P) m)"

lemma same_chunks_refl [simp]: "same_chunks Os P P"
  by (simp add: same_chunks_def)

lemma same_chunks_trans:
  "same_chunks A P P' \<Longrightarrow> same_chunks B P' P'' \<Longrightarrow> set_mset C \<subseteq> set_mset A \<Longrightarrow> set_mset C \<subseteq> set_mset B \<Longrightarrow>
     same_chunks C P P''"
  unfolding same_chunks_def by (metis subsetD)

lemma version_ok_cong: "chunk_content S' m = chunk_content S m \<Longrightarrow> version_ok S' m = version_ok S m"
  by (simp add: version_ok_def)

lemma condvar_ok_dom: "condvar_ok cvs cqd \<Longrightarrow> dom cvs' = dom cvs \<Longrightarrow> condvar_ok cvs' cqd"
  by (auto simp: condvar_ok_def split: option.splits)

lemma condvar_ok_queue [simp]: "condvar_ok cvs (cqd\<lparr> cqd_queue := vq \<rparr>) = condvar_ok cvs cqd"
  by (auto simp: condvar_ok_def split: option.splits)

lemma queue_rep_mono:
  "queue_rep Capacity b cvs cqd ms \<Longrightarrow> b' \<le> b \<Longrightarrow> dom cvs' = dom cvs \<Longrightarrow> queue_rep Capacity b' cvs' cqd ms"
  unfolding queue_rep_def using vq.rep_mono condvar_ok_dom by blast

lemma condvars_ok_mono: "condvars_ok b cvs \<Longrightarrow> b' \<le> b \<Longrightarrow> condvars_ok b' cvs"
  by (fastforce simp: condvars_ok_def)

lemma popo_rep_mono: "popo_rep Capacity b P Q Os \<Longrightarrow> b' \<le> b \<Longrightarrow> popo_rep Capacity b' P Q Os"
  unfolding popo_rep_def
  by (auto intro: condvars_ok_mono) (metis (mono_tags) option.rel_mono_strong queue_rep_mono)

lemma popo_rep_queue:
  assumes "popo_rep Capacity b P Q Os" "Q q = Some ms"
  obtains cqd where "ps_queues P q = Some cqd" "queue_rep Capacity b (ps_condvars P) cqd ms"
proof -
  have "rel_option (queue_rep Capacity b (ps_condvars P)) (ps_queues P q) (Some ms)"
    using assms by (metis popo_rep_def)
  then show thesis using that by (cases "ps_queues P q") auto
qed

text \<open>
  The invariant after an operation that writes one queue: what remains to be shown are the new
  content of that queue and the accounting of the chunks.
\<close>

lemma popo_rep_update:
  assumes "popo_rep Capacity b0 P Q Os0" "Q q = Some ms0" "b \<le> b0"
    and "ps_queues P' = (ps_queues P)(q \<mapsto> cqd)" "dom (ps_condvars P') = dom (ps_condvars P)"
    and "queue_rep Capacity b (ps_condvars P') cqd ms" "condvars_ok b (ps_condvars P')"
    and "shm_inv (ps_shm P') (Os + queued (Q(q \<mapsto> ms)))" "same_chunks (Os + queued (Q(q \<mapsto> ms))) P P'"
    and "set_mset (Os + queued (Q(q \<mapsto> ms))) \<subseteq> set_mset (Os0 + queued Q)"
    and "size (Os + queued (Q(q \<mapsto> ms))) \<le> size (Os0 + queued Q)"
  shows "popo_rep Capacity b P' (Q(q \<mapsto> ms)) Os"
proof -
  have "rel_option (queue_rep Capacity b (ps_condvars P')) (ps_queues P' x) ((Q(q \<mapsto> ms)) x)" for x
  proof (cases "x = q")
    case False
    have "rel_option (queue_rep Capacity b0 (ps_condvars P)) (ps_queues P x) (Q x)"
      using assms(1) by (simp add: popo_rep_def)
    then have "rel_option (queue_rep Capacity b (ps_condvars P')) (ps_queues P x) (Q x)"
      by (rule option.rel_mono_strong) (rule queue_rep_mono [OF _ assms(3,5)])
    with False assms(4) show ?thesis by simp
  qed (simp add: assms)
  moreover have "version_ok (ps_shm P') m" if "m \<in># Os + queued (Q(q \<mapsto> ms))" for m
  proof -
    have "version_ok (ps_shm P) m" using that assms(1,10) unfolding popo_rep_def by blast
    then show ?thesis using assms(9) that version_ok_cong by (metis same_chunks_def)
  qed
  moreover have "size (Os + queued (Q(q \<mapsto> ms))) + b < 2 ^ 64 - 1"
    using assms(1,3,11) by (simp add: popo_rep_def)
  ultimately show ?thesis using assms unfolding popo_rep_def by simp
qed

subsection \<open>Pushing\<close>

lemma drop_overflow_ok:
  assumes "shm_inv S (Os + (case r of None \<Rightarrow> {#} | Some m \<Rightarrow> {#m#}))"
  obtains S' where "drop_overflow (map_option Some r) S = Inr (r \<noteq> None, S')" "shm_inv S' Os"
    "\<forall>x. x \<in># Os \<longrightarrow> chunk_content S' x = chunk_content S x"
proof (cases r)
  case None
  then show thesis using that [of S] assms by (simp add: drop_overflow_def)
next
  case (Some m)
  with assms have "shm_inv S (add_mset m Os)" by simp
  from shm.release_ok [OF this] show thesis
    using that Some by (auto simp: drop_overflow_def releaseToSharedChunk_def release_chunk_def)
qed

lemma notify_receiver_ok:
  assumes "condvar_ok cvs cqd" "condvars_ok (Suc b) cvs"
  obtains cvs' where "notify_receiver cqd cvs = Inr cvs'" "condvars_ok b cvs'" "dom cvs' = dom cvs"
proof (cases "cqd_conditionVariableDataPtr cqd")
  case None
  then show thesis using that [of cvs] condvars_ok_mono [OF assms(2), of b] by (simp add: notify_receiver_def)
next
  case (Some c)
  with assms(1) obtain cv i where cv: "cvs c = Some cv" "cqd_conditionVariableNotificationIndex cqd = Some i"
    "unat i < MAX_NUMBER_OF_NOTIFIERS" by (auto simp: condvar_ok_def)
  then have ok: "cv_ok cv" "cv_semaphore cv + Suc b \<le> SEM_VALUE_MAX" using assms(2) by (auto simp: condvars_ok_def)
  define cv' where "cv' = cv\<lparr> cv_activeNotifications := (cv_activeNotifications cv)[unat i := True],
    cv_semaphore := cv_semaphore cv + 1 \<rparr>"
  have "notify_receiver cqd cvs = Inr (cvs(c \<mapsto> cv'))"
    using Some cv ok by (simp add: notify_receiver_def ConditionNotifier_ctor_def ConditionNotifier_notify_def
        Semaphore_post_def cv'_def)
  moreover have "condvars_ok b (cvs(c \<mapsto> cv'))"
    using condvars_ok_mono [OF assms(2), of b] ok by (auto simp: condvars_ok_def cv'_def cv_ok_def)
  ultimately show thesis using that cv(1) by auto
qed

lemma push_spec_map:
  "push_spec ow n (f x) (map f xs) = map_prod (map_option f) (map f) (push_spec ow n x xs)"
  by (cases xs) (auto simp: push_spec_def)

lemma ChunkQueuePusher_push_ok:
  assumes rep: "popo_rep Capacity (Suc b) P Q (add_mset m Os)" and q: "Q q = Some ms"
    and st: "queue_static Capacity P q = Some (uid, cap, ow, policy, cv, index)"
  obtains P' where "ChunkQueuePusher_push Capacity q (Some m) P = Inr (length ms < cap, P')"
    "popo_rep Capacity b P' (Q(q \<mapsto> snd (push_spec ow cap m ms))) Os"
    "queue_static Capacity P' = queue_static Capacity P"
    "same_chunks (Os + queued (Q(q \<mapsto> snd (push_spec ow cap m ms)))) P P'" "lost_flag P' = lost_flag P"
proof -
  let ?r = "fst (push_spec ow cap m ms)" and ?ms = "snd (push_spec ow cap m ms)"
  let ?Os = "Os + queued (Q(q \<mapsto> ?ms))"
  obtain cqd where cqd: "ps_queues P q = Some cqd" "queue_rep Capacity (Suc b) (ps_condvars P) cqd ms"
    by (rule popo_rep_queue [OF rep q])
  from st cqd have cap: "vq_cap Capacity (cqd_queue cqd) = cap" "vq_overwrites (cqd_queue cqd) = ow"
    by (simp_all add: queue_static_def)
  obtain vq where vq: "VariantQueue_push Capacity (Some m) (cqd_queue cqd) = Some (map_option Some ?r, vq)"
    "vq_rep Capacity b vq (map Some ?ms)" "vq_cap Capacity vq = cap" "vq_overwrites vq = ow"
    using vq.push_law [of Capacity b "cqd_queue cqd" "map Some ms" "Some m"] cqd(2) cap
    by (auto simp: queue_rep_def push_spec_map)
  have acc: "add_mset m Os + queued Q = ?Os + (case ?r of None \<Rightarrow> {#} | Some x \<Rightarrow> {#x#})"
  proof -
    have "add_mset m Os + queued Q + mset ?ms = add_mset m Os + (queued (Q(q \<mapsto> ?ms)) + mset ms)"
      using queued_upd [of Q q ms ?ms] rep q by (simp add: popo_rep_def add.assoc)
    also have "\<dots> = Os + queued (Q(q \<mapsto> ?ms)) + (mset ?ms + (case ?r of None \<Rightarrow> {#} | Some x \<Rightarrow> {#x#}))"
      using push_spec_mset [of ow cap m ms] by simp
    finally show ?thesis by (simp add: ac_simps)
  qed
  have "shm_inv (ps_shm P) (?Os + (case ?r of None \<Rightarrow> {#} | Some x \<Rightarrow> {#x#}))"
    using rep by (simp add: popo_rep_def flip: acc)
  then obtain S' where S': "drop_overflow (map_option Some ?r) (ps_shm P) = Inr (?r \<noteq> None, S')" "shm_inv S' ?Os"
    "\<forall>x. x \<in># ?Os \<longrightarrow> chunk_content S' x = chunk_content (ps_shm P) x" by (rule drop_overflow_ok)
  obtain cvs' where cvs': "notify_receiver cqd (ps_condvars P) = Inr cvs'" "condvars_ok b cvs'"
    "dom cvs' = dom (ps_condvars P)"
    using notify_receiver_ok [of "ps_condvars P" cqd b] cqd(2) rep by (auto simp: queue_rep_def popo_rep_def)
  define P' where "P' = P\<lparr> ps_shm := S', ps_queues := (ps_queues P)(q \<mapsto> cqd\<lparr> cqd_queue := vq \<rparr>), ps_condvars := cvs' \<rparr>"
  have none: "?r = None \<longleftrightarrow> length ms < cap" by (simp add: push_spec_def)
  have 1: "ChunkQueuePusher_push Capacity q (Some m) P = Inr (length ms < cap, P')"
    using cqd(1) vq(1) S'(1) cvs'(1) none
    by (simp add: ChunkQueuePusher_push_def ShmSafeUnmanagedChunk_ctor_def P'_def)
  have sc: "same_chunks ?Os P P'" using S'(3) by (simp add: same_chunks_def P'_def)
  have 2: "popo_rep Capacity b P' (Q(q \<mapsto> ?ms)) Os"
  proof (rule popo_rep_update [OF rep q])
    show "queue_rep Capacity b (ps_condvars P') (cqd\<lparr> cqd_queue := vq \<rparr>) ?ms"
      using vq cqd(2) cap cvs'(3) condvar_ok_dom [of "ps_condvars P" cqd cvs']
      by (auto simp: queue_rep_def P'_def)
    show "set_mset ?Os \<subseteq> set_mset (add_mset m Os + queued Q)" unfolding acc by auto
    show "size ?Os \<le> size (add_mset m Os + queued Q)" unfolding acc by simp
  qed (use S' cvs' sc in \<open>auto simp: P'_def\<close>)
  have "queue_static Capacity P' = queue_static Capacity P"
    using vq(3,4) cqd(1) cap by (auto simp: queue_static_def P'_def)
  moreover have "lost_flag P' = lost_flag P" using cqd(1) by (auto simp: lost_flag_def P'_def fun_eq_iff)
  ultimately show thesis using that 1 2 sc by blast
qed

subsection \<open>Popping\<close>

lemma check_version_ok:
  assumes "shm_inv S Os" "m \<in># Os" "version_ok S m"
  shows "check_version (Some m) S = Inr (Some (Some m), S)"
proof -
  have "SharedChunk_getChunkHeader (Some m) S = Some (snd (fst (chunk_content S m)))"
    by (rule getChunkHeader_owned [OF assms(1,2)])
  then show ?thesis using assms(3)
    by (auto simp: check_version_def version_ok_def chunk_content_def split: option.splits)
qed

lemma ChunkQueuePopper_tryPop_ok:
  assumes rep: "popo_rep Capacity (Suc b) P Q Os" and q: "Q q = Some ms"
  obtains P' where
    "ChunkQueuePopper_tryPop Capacity q P = Inr (case ms of [] \<Rightarrow> None | m # _ \<Rightarrow> Some (Some m), P')"
    "popo_rep Capacity b P' (Q(q \<mapsto> tl ms)) (Os + (case ms of [] \<Rightarrow> {#} | m # _ \<Rightarrow> {#m#}))"
    "queue_static Capacity P' = queue_static Capacity P" "ps_shm P' = ps_shm P"
proof -
  let ?h = "case ms of [] \<Rightarrow> {#} | m # _ \<Rightarrow> {#m#}"
  obtain cqd where cqd: "ps_queues P q = Some cqd" "queue_rep Capacity (Suc b) (ps_condvars P) cqd ms"
    by (rule popo_rep_queue [OF rep q])
  obtain vq where vq: "VariantQueue_pop Capacity (cqd_queue cqd) = Some (case ms of [] \<Rightarrow> None | m # _ \<Rightarrow> Some (Some m), vq)"
    "vq_rep Capacity b vq (map Some (tl ms))" "vq_cap Capacity vq = vq_cap Capacity (cqd_queue cqd)"
    "vq_overwrites vq = vq_overwrites (cqd_queue cqd)"
    using vq.pop_law [of Capacity b "cqd_queue cqd" "map Some ms"] cqd(2)
    by (auto simp: queue_rep_def map_tl split: list.splits)
  define P' where "P' = P\<lparr> ps_queues := (ps_queues P)(q \<mapsto> cqd\<lparr> cqd_queue := vq \<rparr>) \<rparr>"
  have acc: "Os + ?h + queued (Q(q \<mapsto> tl ms)) = Os + queued Q"
  proof -
    have "?h + mset (tl ms) = mset ms" by (cases ms) auto
    moreover have "queued (Q(q \<mapsto> tl ms)) + mset ms = queued Q + mset (tl ms)"
      using queued_upd [of Q q ms "tl ms"] rep q by (simp add: popo_rep_def)
    ultimately have "queued (Q(q \<mapsto> tl ms)) + (?h + mset (tl ms)) = queued Q + mset (tl ms)" by simp
    then have "?h + queued (Q(q \<mapsto> tl ms)) = queued Q" by (simp add: ac_simps)
    then show ?thesis by (simp add: add.assoc)
  qed
  have "ms \<noteq> [] \<Longrightarrow> check_version (Some (hd ms)) (ps_shm P) = Inr (Some (Some (hd ms)), ps_shm P)"
  proof (rule check_version_ok)
    assume "ms \<noteq> []"
    then show "hd ms \<in># Os + queued Q" unfolding acc [symmetric] by (cases ms) auto
    then show "version_ok (ps_shm P) (hd ms)" using rep unfolding popo_rep_def by blast
  qed (use rep in \<open>simp add: popo_rep_def\<close>)
  then have 1: "ChunkQueuePopper_tryPop Capacity q P = Inr (case ms of [] \<Rightarrow> None | m # _ \<Rightarrow> Some (Some m), P')"
    using cqd(1) vq(1)
    by (cases ms) (simp_all add: ChunkQueuePopper_tryPop_def releaseToSharedChunk_def P'_def Let_def)
  have 2: "popo_rep Capacity b P' (Q(q \<mapsto> tl ms)) (Os + ?h)"
  proof (rule popo_rep_update [OF rep q])
    show "queue_rep Capacity b (ps_condvars P') (cqd\<lparr> cqd_queue := vq \<rparr>) (tl ms)"
      using vq cqd(2) by (simp add: queue_rep_def P'_def)
    show "condvars_ok b (ps_condvars P')"
      using rep condvars_ok_mono [of "Suc b" "ps_condvars P" b] by (simp add: popo_rep_def P'_def)
    show "shm_inv (ps_shm P') (Os + ?h + queued (Q(q \<mapsto> tl ms)))"
      unfolding acc using rep by (simp add: popo_rep_def P'_def)
  qed (simp_all add: P'_def acc same_chunks_def del: fun_upd_apply)
  have "queue_static Capacity P' = queue_static Capacity P"
    using vq(3,4) cqd(1) by (auto simp: queue_static_def P'_def)
  with 1 2 show thesis by (rule that) (simp add: P'_def)
qed

text \<open>\<open>clear\<close> releases all chunks of the queue.\<close>

lemma clear_loop_ok:
  "vq_rep Capacity (b + Suc (length ms)) vq (map Some ms) \<Longrightarrow> shm_inv S (mset ms + Os) \<Longrightarrow>
   \<exists>vq' S'. clear_loop Capacity vq S = Some (Inr (vq', S')) \<and> vq_rep Capacity b vq' [] \<and> shm_inv S' Os \<and>
     vq_cap Capacity vq' = vq_cap Capacity vq \<and> vq_overwrites vq' = vq_overwrites vq \<and>
     (\<forall>x. x \<in># Os \<longrightarrow> chunk_content S' x = chunk_content S x)"
proof (induction ms arbitrary: vq S)
  case Nil
  have "vq_rep Capacity (Suc b) vq []" using Nil.prems(1) by simp
  from vq.pop_law [OF this] obtain vq' where "VariantQueue_pop Capacity vq = Some (None, vq')" "vq_rep Capacity b vq' []"
    "vq_cap Capacity vq' = vq_cap Capacity vq" "vq_overwrites vq' = vq_overwrites vq" by auto
  with Nil.prems(2) show ?case by (subst clear_loop.simps) auto
next
  case (Cons m ms)
  have r: "vq_rep Capacity (Suc (b + Suc (length ms))) vq (Some m # map Some ms)" using Cons.prems(1) by simp
  from vq.pop_law [OF r] obtain vq1 where vq1: "VariantQueue_pop Capacity vq = Some (Some (Some m), vq1)"
    "vq_rep Capacity (b + Suc (length ms)) vq1 (map Some ms)"
    "vq_cap Capacity vq1 = vq_cap Capacity vq" "vq_overwrites vq1 = vq_overwrites vq" by auto
  have "shm_inv S (add_mset m (mset ms + Os))" using Cons.prems(2) by simp
  from shm.release_ok [OF this] obtain S1 where S1: "SharedChunk_dtor (Some m) S = Inr S1" "shm_inv S1 (mset ms + Os)"
    "\<forall>x. x \<in># mset ms + Os \<longrightarrow> chunk_content S1 x = chunk_content S x" by (auto simp: release_chunk_def)
  have "clear_loop Capacity vq S = clear_loop Capacity vq1 S1"
    using vq1(1) S1(1) by (subst clear_loop.simps) (simp add: releaseToSharedChunk_def)
  with Cons.IH [OF vq1(2) S1(2)] vq1(3,4) S1(3) show ?case by auto
qed

lemma ChunkQueuePopper_clear_ok:
  assumes rep: "popo_rep Capacity (b + Suc (length ms)) P Q Os" and q: "Q q = Some ms"
  obtains P' where "ChunkQueuePopper_clear Capacity q P = Inr P'" "popo_rep Capacity b P' (Q(q \<mapsto> [])) Os"
    "queue_static Capacity P' = queue_static Capacity P" "same_chunks (Os + queued (Q(q \<mapsto> []))) P P'"
proof -
  let ?Os = "Os + queued (Q(q \<mapsto> []))"
  obtain cqd where cqd: "ps_queues P q = Some cqd" "queue_rep Capacity (b + Suc (length ms)) (ps_condvars P) cqd ms"
    by (rule popo_rep_queue [OF rep q])
  have acc: "Os + queued Q = mset ms + ?Os"
    using queued_upd [of Q q ms "[]"] rep q by (simp add: popo_rep_def ac_simps)
  have inv: "shm_inv (ps_shm P) (mset ms + ?Os)" using rep unfolding popo_rep_def acc by blast
  have "vq_rep Capacity (b + Suc (length ms)) (cqd_queue cqd) (map Some ms)" using cqd(2) by (simp add: queue_rep_def)
  from clear_loop_ok [OF this inv]
  obtain vq S' where vq: "clear_loop Capacity (cqd_queue cqd) (ps_shm P) = Some (Inr (vq, S'))"
    "vq_rep Capacity b vq []" "shm_inv S' ?Os" "vq_cap Capacity vq = vq_cap Capacity (cqd_queue cqd)"
    "vq_overwrites vq = vq_overwrites (cqd_queue cqd)"
    "\<forall>x. x \<in># ?Os \<longrightarrow> chunk_content S' x = chunk_content (ps_shm P) x"
    by blast
  define P' where "P' = P\<lparr> ps_shm := S', ps_queues := (ps_queues P)(q \<mapsto> cqd\<lparr> cqd_queue := vq \<rparr>) \<rparr>"
  have sc: "same_chunks ?Os P P'" using vq(6) by (simp add: same_chunks_def P'_def)
  have "popo_rep Capacity b P' (Q(q \<mapsto> [])) Os"
  proof (rule popo_rep_update [OF rep q])
    show "queue_rep Capacity b (ps_condvars P') (cqd\<lparr> cqd_queue := vq \<rparr>) []"
      using vq cqd(2) by (simp add: queue_rep_def P'_def)
    show "condvars_ok b (ps_condvars P')"
      using rep condvars_ok_mono [of "b + Suc (length ms)" "ps_condvars P" b] by (simp add: popo_rep_def P'_def)
  qed (use vq sc in \<open>simp_all add: P'_def acc del: fun_upd_apply\<close>)
  moreover have "ChunkQueuePopper_clear Capacity q P = Inr P'"
    using cqd(1) vq(1) by (simp add: ChunkQueuePopper_clear_def P'_def)
  moreover have "queue_static Capacity P' = queue_static Capacity P"
    using vq(4,5) cqd(1) by (auto simp: queue_static_def P'_def)
  ultimately show thesis using that sc by blast
qed

subsection \<open>Operations that do not touch the content of a queue\<close>

lemma popo_rep_flags:
  assumes "popo_rep Capacity b P Q Os" "ps_queues P q = Some cqd"
  shows "popo_rep Capacity b (P\<lparr> ps_queues := (ps_queues P)(q \<mapsto> cqd\<lparr> cqd_queueHasLostChunks := l \<rparr>) \<rparr>) Q Os"
    "queue_static Capacity (P\<lparr> ps_queues := (ps_queues P)(q \<mapsto> cqd\<lparr> cqd_queueHasLostChunks := l \<rparr>) \<rparr>) = queue_static Capacity P"
proof -
  have "queue_rep Capacity b cvs (cqd\<lparr> cqd_queueHasLostChunks := l \<rparr>) ms = queue_rep Capacity b cvs cqd ms" for cvs ms
    by (auto simp: queue_rep_def condvar_ok_def split: option.splits)
  moreover have "rel_option (queue_rep Capacity b (ps_condvars P)) (Some cqd) (Q q)"
    using assms by (metis popo_rep_def)
  ultimately show "popo_rep Capacity b (P\<lparr> ps_queues := (ps_queues P)(q \<mapsto> cqd\<lparr> cqd_queueHasLostChunks := l \<rparr>) \<rparr>) Q Os"
    using assms(1) unfolding popo_rep_def by (auto simp: rel_option_iff split: option.splits)
  show "queue_static Capacity (P\<lparr> ps_queues := (ps_queues P)(q \<mapsto> cqd\<lparr> cqd_queueHasLostChunks := l \<rparr>) \<rparr>) = queue_static Capacity P"
    using assms(2) by (auto simp: queue_static_def)
qed

lemma lostAChunk_ok:
  assumes "popo_rep Capacity b P Q Os" "Q q = Some ms"
  obtains P' where "lostAChunk q P = Inr P'" "popo_rep Capacity b P' Q Os" "ps_shm P' = ps_shm P"
    "queue_static Capacity P' = queue_static Capacity P" "lost_flag P' = (lost_flag P)(q := True)"
proof -
  obtain cqd where cqd: "ps_queues P q = Some cqd" by (rule popo_rep_queue [OF assms])
  let ?P = "P\<lparr> ps_queues := (ps_queues P)(q \<mapsto> cqd\<lparr> cqd_queueHasLostChunks := True \<rparr>) \<rparr>"
  have "lost_flag ?P = (lost_flag P)(q := True)" by (auto simp: lost_flag_def fun_eq_iff)
  then show thesis using that [of ?P] cqd popo_rep_flags [OF assms(1) cqd, of True] by (simp add: lostAChunk_def)
qed

text \<open>The shared memory is all that changes when an owner outside of the queues comes or goes.\<close>

lemma popo_rep_shm:
  assumes "popo_rep Capacity b0 P Q Os0" "b \<le> b0" "shm_inv S' (Os + queued Q)"
    and "\<forall>x. x \<in># Os + queued Q \<longrightarrow> chunk_content S' x = chunk_content (ps_shm P) x \<and> version_ok (ps_shm P) x"
    and "size Os + b \<le> size Os0 + b0"
  shows "popo_rep Capacity b (P\<lparr> ps_shm := S' \<rparr>) Q Os"
proof -
  have "popo_rep Capacity b P Q Os0" by (rule popo_rep_mono [OF assms(1,2)])
  moreover have "size (Os + queued Q) + b < 2 ^ 64 - 1" using assms(1,5) by (simp add: popo_rep_def)
  moreover have "\<forall>x. x \<in># Os + queued Q \<longrightarrow> version_ok S' x" using assms(4) version_ok_cong by metis
  ultimately show ?thesis using assms(3) unfolding popo_rep_def by simp
qed

lemma popo_clone_ok:
  assumes "popo_rep Capacity (Suc b) P Q Os" "m \<in># Os + queued Q"
  obtains S' where "incrementReferenceCounter (Some m) (ps_shm P) = Inr S'"
    "popo_rep Capacity b (P\<lparr> ps_shm := S' \<rparr>) Q (add_mset m Os)" "chunk_content S' = chunk_content (ps_shm P)"
proof -
  have "shm_inv (ps_shm P) (Os + queued Q)" "size (Os + queued Q) < 2 ^ 64 - 1"
    using assms(1) by (simp_all add: popo_rep_def)
  from shm.clone_ok [OF this(1) assms(2) this(2)]
  obtain S' where S': "incrementReferenceCounter (Some m) (ps_shm P) = Inr S'" "shm_inv S' (add_mset m (Os + queued Q))"
    "chunk_content S' = chunk_content (ps_shm P)" by (auto simp: clone_chunk_def)
  have "popo_rep Capacity b (P\<lparr> ps_shm := S' \<rparr>) Q (add_mset m Os)"
  proof (rule popo_rep_shm [OF assms(1)])
    have "\<forall>x. x \<in># Os + queued Q \<longrightarrow> version_ok (ps_shm P) x" using assms(1) unfolding popo_rep_def by blast
    then show "\<forall>x. x \<in># add_mset m Os + queued Q \<longrightarrow>
        chunk_content S' x = chunk_content (ps_shm P) x \<and> version_ok (ps_shm P) x" using assms(2) S'(3) by auto
  qed (use S' in auto)
  with S' show thesis using that by blast
qed

lemma popo_release_ok:
  assumes "popo_rep Capacity b P Q (add_mset m Os)"
  obtains S' where "SharedChunk_dtor (Some m) (ps_shm P) = Inr S'" "popo_rep Capacity b (P\<lparr> ps_shm := S' \<rparr>) Q Os"
    "same_chunks (Os + queued Q) P (P\<lparr> ps_shm := S' \<rparr>)"
proof -
  have "shm_inv (ps_shm P) (add_mset m (Os + queued Q))" using assms by (simp add: popo_rep_def)
  from shm.release_ok [OF this] obtain S' where S': "SharedChunk_dtor (Some m) (ps_shm P) = Inr S'"
    "shm_inv S' (Os + queued Q)" "\<forall>x. x \<in># Os + queued Q \<longrightarrow> chunk_content S' x = chunk_content (ps_shm P) x"
    by (auto simp: release_chunk_def)
  have "popo_rep Capacity b (P\<lparr> ps_shm := S' \<rparr>) Q Os"
  proof (rule popo_rep_shm [OF assms])
    have "\<forall>x. x \<in># add_mset m Os + queued Q \<longrightarrow> version_ok (ps_shm P) x" using assms unfolding popo_rep_def by blast
    then show "\<forall>x. x \<in># Os + queued Q \<longrightarrow>
        chunk_content S' x = chunk_content (ps_shm P) x \<and> version_ok (ps_shm P) x" using S'(3) by auto
  qed (use S' in auto)
  with S' show thesis using that by (simp add: same_chunks_def)
qed

subsection \<open>Setting up queues\<close>

lemma popo_rep_empty:
  assumes "shm_inv S Os" "\<forall>m. m \<in># Os \<longrightarrow> version_ok S m" "size Os + b < 2 ^ 64 - 1"
  shows "popo_rep Capacity b \<lparr> ps_shm = S, ps_queues = Map.empty, ps_condvars = Map.empty \<rparr> Map.empty Os"
  using assms by (simp add: popo_rep_def queued_def condvars_ok_def)

lemma popo_rep_new_queue:
  assumes "popo_rep Capacity b P Q Os" "Q q = None"
    and "0 < unat Capacity" "unat Capacity < 2 ^ 32 - 1" "3 * unat Capacity + b < 2 ^ 63"
  shows "popo_rep Capacity b (P\<lparr> ps_queues := (ps_queues P)(q \<mapsto> ChunkQueueData_ctor Capacity uid policy type) \<rparr>) (Q(q \<mapsto> [])) Os"
proof -
  let ?v = "VariantQueue_ctor Capacity None type :: shm_safe_unmanaged_chunk variant_queue"
  have "vq_rep Capacity b ?v []" "vq_cap Capacity ?v = unat Capacity" by (rule VariantQueue_ctor_rep [OF assms(3-5)])+
  then have "queue_rep Capacity b (ps_condvars P) (ChunkQueueData_ctor Capacity uid policy type) []"
    using assms(3) by (simp add: queue_rep_def ChunkQueueData_ctor_def condvar_ok_def del: vq_rep.simps)
  moreover have "queued (Q(q \<mapsto> [])) = queued Q"
  proof -
    have "dom (Q(q \<mapsto> [])) = insert q (dom Q)" by simp
    moreover have "(\<Sum>x\<in>insert q (dom Q). mset (the ((Q(q \<mapsto> [])) x))) = (\<Sum>x\<in>dom Q. mset (the (Q x)))"
      using assms(1,2) by (subst sum.insert) (auto simp: popo_rep_def intro!: sum.cong)
    ultimately show ?thesis by (simp add: queued_def del: fun_upd_apply)
  qed
  ultimately show ?thesis using assms(1) unfolding popo_rep_def by auto
qed

lemma ChunkHeader_new_version:
  "ChunkHeader_new a sz cs mem = Inr (h, mem') \<Longrightarrow> ch_chunkHeaderVersion h = CHUNK_HEADER_VERSION"
  by (auto simp: ChunkHeader_new_def ChunkHeader_init_def Let_def split: if_splits)

text \<open>A new chunk has the right version.\<close>

lemma getChunk_version:
  fixes S :: shm
  defines "ps \<equiv> mm_memPoolVector (shm_manager S)"
  assumes "shm_inv S Os" "chunk_settings_valid cs" "first_fitting (cs_requiredChunkSize cs) 0 ps = Some i"
    and "used_chunks (ps ! i) \<noteq> layout_slots (pool_layout (ps ! i))"
  obtains m S' where "MemoryManager_getChunk cs S = Inr (Inr (Some m), S')" "m \<notin># Os" "shm_inv S' (add_mset m Os)"
    "version_ok S' m" "\<forall>x. x \<in># Os \<longrightarrow> chunk_content S' x = chunk_content S x"
proof -
  obtain m a h S' where *: "MemoryManager_getChunk cs S = Inr (Inr (Some m), S')" "m \<notin># Os" "shm_inv S' (add_mset m Os)"
    "chunk_of (shm_managements S') m = (i, a)" "shm_headers S' = (shm_headers S)(a \<mapsto> h)"
    "ChunkHeader_new a (mp_chunkSize (ps ! i)) cs (shm_offsets S) = Inr (h, shm_offsets S')"
    "\<forall>x. x \<in># Os \<longrightarrow> chunk_of (shm_managements S') x = chunk_of (shm_managements S) x \<and>
       snd (chunk_of (shm_managements S) x) \<noteq> a"
    by (rule getChunk_ok [OF assms(2-5) [unfolded ps_def], folded ps_def])
  have "version_ok S' m" using *(4,5) ChunkHeader_new_version [OF *(6)] by (simp add: version_ok_def chunk_content_def)
  moreover have "\<forall>x. x \<in># Os \<longrightarrow> chunk_content S' x = chunk_content S x" using *(5,7) by (auto simp: chunk_content_def)
  ultimately show thesis using that * by blast
qed

text \<open>A state with one chunk and two queues of capacity 2, for concrete instances of the properties.\<close>

definition example_popo :: "shm \<Rightarrow> popo_state" where
  "example_popo S = \<lparr> ps_shm = S, ps_queues = [0x100 \<mapsto> ChunkQueueData_ctor 2 1 DISCARD_OLDEST_DATA SoFi_MultiProducerSingleConsumer,
     0x200 \<mapsto> ChunkQueueData_ctor 2 2 BLOCK_PRODUCER FiFo_MultiProducerSingleConsumer], ps_condvars = Map.empty \<rparr>"

lemma example_popo_shm [simp]: "ps_shm (example_popo S) = S"
  by (simp add: example_popo_def)

lemma example_popo_rep:
  assumes "b < 1000"
  obtains m S where "MemoryManager_getChunk example_settings example_shm = Inr (Inr (Some m), S)"
    "popo_rep 2 b (example_popo S) [0x100 \<mapsto> [], 0x200 \<mapsto> []] {#m#}"
proof -
  obtain m S where S: "MemoryManager_getChunk example_settings example_shm = Inr (Inr (Some m), S)"
    "shm_inv S {#m#}" "version_ok S m"
    using getChunk_version [OF example_shm_inv example_settings_valid example_free_chunk] by metis
  let ?P = "\<lparr> ps_shm = S, ps_queues = Map.empty, ps_condvars = Map.empty \<rparr>"
  have "popo_rep 2 b ?P Map.empty {#m#}" using S assms by (intro popo_rep_empty) auto
  then have "popo_rep 2 b (?P\<lparr> ps_queues := [0x100 \<mapsto> ChunkQueueData_ctor 2 1 DISCARD_OLDEST_DATA SoFi_MultiProducerSingleConsumer] \<rparr>)
      [0x100 \<mapsto> []] {#m#}" (is "popo_rep _ _ ?P1 _ _")
    using popo_rep_new_queue [of 2 b ?P Map.empty "{#m#}" "0x100"] assms by simp
  then have "popo_rep 2 b (?P1\<lparr> ps_queues := (ps_queues ?P1)(0x200 \<mapsto> ChunkQueueData_ctor 2 2 BLOCK_PRODUCER FiFo_MultiProducerSingleConsumer) \<rparr>)
      ([0x100 \<mapsto> []](0x200 \<mapsto> [])) {#m#}"
    using assms by (intro popo_rep_new_queue) auto
  then have "popo_rep 2 b (example_popo S) [0x100 \<mapsto> [], 0x200 \<mapsto> []] {#m#}" by (simp add: example_popo_def)
  with S show thesis using that by blast
qed

end
