(* ===== verification/Chunk_Distributor.thy ===== *)
theory Chunk_Distributor
  imports Chunk_Queue
begin

section \<open>The chunk distributor\<close>

text \<open>
  \<open>popo::ChunkDistributorData\<close> and \<open>popo::ChunkDistributor\<close> (\<open>chunk_distributor_data.hpp\<close>,
  \<open>chunk_distributor.inl\<close>): the delivery of a chunk to the queues of all receivers, with the history
  for late joiners.

  \<open>MaxQueues\<close> and \<open>MaxHistory\<close> are the template parameters of the data. The mutex is recursive and
  held within one operation only; \<open>cdd_lockedByOther\<close> is true if a process died while it held the
  mutex, in which case every operation that locks it blocks forever.

  While a call waits for a slow consumer other threads run. Their effect is an argument of the
  waiting calls: one function on the state for each round of waiting.
\<close>

datatype consumer_too_slow_policy = WAIT_FOR_CONSUMER | DISCARD_OLDEST_DATA_OF_CONSUMER

datatype chunk_distributor_error = QUEUE_CONTAINER_OVERFLOW | QUEUE_NOT_IN_CONTAINER

record chunk_distributor_data =
  cdd_lockedByOther :: bool
  cdd_historyCapacity :: u64
  cdd_queues :: "address list"
  cdd_history :: "shm_safe_unmanaged_chunk list"
  cdd_consumerTooSlowPolicy :: consumer_too_slow_policy

definition ChunkDistributorData_ctor :: "u64 \<Rightarrow> consumer_too_slow_policy \<Rightarrow> u64 \<Rightarrow> chunk_distributor_data" where
  "ChunkDistributorData_ctor MaxHistory policy historyCapacity =
     \<lparr> cdd_lockedByOther = False, cdd_historyCapacity = min historyCapacity MaxHistory, cdd_queues = [],
       cdd_history = [], cdd_consumerTooSlowPolicy = policy \<rparr>"

definition locked :: "chunk_distributor_data \<Rightarrow> 'a outcome \<Rightarrow> 'a outcome" where
  "locked D k = (if cdd_lockedByOther D then Inl NO_RETURN else k)"

subsection \<open>Queues\<close>

text \<open>\<open>pushToQueue\<close> with a copy of the chunk.\<close>

definition pushToQueue :: "u64 \<Rightarrow> address \<Rightarrow> shared_chunk \<Rightarrow> popo_state \<Rightarrow> (bool \<times> popo_state) outcome" where
  "pushToQueue Capacity queue chunk P =
     obind (SharedChunk_copy chunk (ps_shm P)) (\<lambda>(copy, S').
     ChunkQueuePusher_push Capacity queue copy (P\<lparr> ps_shm := S' \<rparr>))"

primrec push_history :: "u64 \<Rightarrow> address \<Rightarrow> shm_safe_unmanaged_chunk list \<Rightarrow> popo_state \<Rightarrow> popo_state outcome" where
  "push_history Capacity queue [] P = Inr P"
| "push_history Capacity queue (h # hs) P =
     obind (cloneToSharedChunk h (ps_shm P)) (\<lambda>(chunk, S').
     obind (ChunkQueuePusher_push Capacity queue chunk (P\<lparr> ps_shm := S' \<rparr>)) (\<lambda>(_, P').
     push_history Capacity queue hs P'))"

definition tryAddQueue ::
  "nat \<Rightarrow> u64 \<Rightarrow> address \<Rightarrow> u64 \<Rightarrow> chunk_distributor_data \<Rightarrow> popo_state \<Rightarrow>
     ((chunk_distributor_error + unit) \<times> chunk_distributor_data \<times> popo_state) outcome" where
  "tryAddQueue MaxQueues Capacity queueToAdd requestedHistory D P =
     locked D
       (if queueToAdd \<notin> set (cdd_queues D)
        then if length (cdd_queues D) < MaxQueues
             then (let D' = D\<lparr> cdd_queues := cdd_queues D @ [queueToAdd] \<rparr>;
                       currChunkHistorySize = length (cdd_history D);
                       startIndex = (if unat requestedHistory \<le> currChunkHistorySize
                                     then currChunkHistorySize - unat requestedHistory else 0)
                   in obind (push_history Capacity queueToAdd (drop startIndex (cdd_history D)) P) (\<lambda>P'.
                      Inr (Inr (), D', P')))
             else errorHandler (POPO POPO__CHUNK_DISTRIBUTOR_OVERFLOW_OF_QUEUE_CONTAINER) MODERATE
                    (Inr (Inl QUEUE_CONTAINER_OVERFLOW, D, P))
        else Inr (Inr (), D, P))"

definition tryRemoveQueue ::
  "address \<Rightarrow> chunk_distributor_data \<Rightarrow> ((chunk_distributor_error + unit) \<times> chunk_distributor_data) outcome" where
  "tryRemoveQueue queueToRemove D =
     locked D
       (if queueToRemove \<in> set (cdd_queues D)
        then Inr (Inr (), D\<lparr> cdd_queues := remove1 queueToRemove (cdd_queues D) \<rparr>)
        else Inr (Inl QUEUE_NOT_IN_CONTAINER, D))"

definition removeAllQueues :: "chunk_distributor_data \<Rightarrow> chunk_distributor_data outcome" where
  "removeAllQueues D = locked D (Inr (D\<lparr> cdd_queues := [] \<rparr>))"

definition hasStoredQueues :: "chunk_distributor_data \<Rightarrow> bool outcome" where
  "hasStoredQueues D = locked D (Inr (cdd_queues D \<noteq> []))"

subsection \<open>History\<close>

definition addToHistoryWithoutDelivery ::
  "shared_chunk \<Rightarrow> chunk_distributor_data \<Rightarrow> popo_state \<Rightarrow> (chunk_distributor_data \<times> popo_state) outcome" where
  "addToHistoryWithoutDelivery chunk D P =
     locked D
       (if 0 < cdd_historyCapacity D
        then obind (if of_nat (length (cdd_history D)) \<ge> cdd_historyCapacity D
                    then (case releaseToSharedChunk (hd (cdd_history D)) of (temporary, _) \<Rightarrow>
                          obind (SharedChunk_dtor temporary (ps_shm P)) (\<lambda>S'.
                          Inr (tl (cdd_history D), S')))
                    else Inr (cdd_history D, ps_shm P)) (\<lambda>(history, S1).
             obind (SharedChunk_copy chunk S1) (\<lambda>(copy, S2).
             Inr (D\<lparr> cdd_history := history @ [ShmSafeUnmanagedChunk_ctor copy] \<rparr>, P\<lparr> ps_shm := S2 \<rparr>)))
        else Inr (D, P))"

definition clearHistory :: "chunk_distributor_data \<Rightarrow> popo_state \<Rightarrow> (chunk_distributor_data \<times> popo_state) outcome" where
  "clearHistory D P =
     locked D
       (obind (release_data (cdd_history D) (ps_shm P)) (\<lambda>(_, S').
        Inr (D\<lparr> cdd_history := [] \<rparr>, P\<lparr> ps_shm := S' \<rparr>)))"

text \<open>\<open>cleanup\<close> after the death of the application: it must not find the mutex locked.\<close>

definition ChunkDistributor_cleanup ::
  "chunk_distributor_data \<Rightarrow> popo_state \<Rightarrow> (chunk_distributor_data \<times> popo_state) outcome" where
  "ChunkDistributor_cleanup D P =
     (if \<not> cdd_lockedByOther D then clearHistory D P
      else errorHandler (POPO POPO__CHUNK_DISTRIBUTOR_CLEANUP_DEADLOCK_BECAUSE_BAD_APPLICATION_TERMINATION) FATAL (Inr (D, P)))"

subsection \<open>Delivery\<close>

definition isBlockingQueue :: "bool \<Rightarrow> address \<Rightarrow> popo_state \<Rightarrow> bool" where
  "isBlockingQueue willWaitForConsumer queue P \<longleftrightarrow> willWaitForConsumer \<and>
     (case ps_queues P queue of None \<Rightarrow> False | Some cqd \<Rightarrow> cqd_queueFullPolicy cqd = BLOCK_PRODUCER)"

text \<open>The first pass over all queues; the result is the number of deliveries and the remaining queues.\<close>

primrec deliver_loop ::
  "u64 \<Rightarrow> bool \<Rightarrow> shared_chunk \<Rightarrow> address list \<Rightarrow> u64 \<Rightarrow> address list \<Rightarrow> popo_state \<Rightarrow>
     (u64 \<times> address list \<times> popo_state) outcome" where
  "deliver_loop Capacity willWait chunk [] n remaining P = Inr (n, remaining, P)"
| "deliver_loop Capacity willWait chunk (queue # queues) n remaining P =
     (let blocking = isBlockingQueue willWait queue P
      in obind (pushToQueue Capacity queue chunk P) (\<lambda>(delivered, P1).
         if delivered then deliver_loop Capacity willWait chunk queues (n + 1) remaining P1
         else if blocking then deliver_loop Capacity willWait chunk queues n (remaining @ [queue]) P1
         else obind (lostAChunk queue P1) (\<lambda>P2.
              deliver_loop Capacity willWait chunk queues (n + 1) remaining P2)))"

text \<open>\<open>std::set_intersection\<close> of two sorted ranges.\<close>

fun set_intersection :: "address list \<Rightarrow> address list \<Rightarrow> address list" where
  "set_intersection (x # xs) (y # ys) =
     (if x < y then set_intersection xs (y # ys)
      else if y < x then set_intersection (x # xs) ys
      else x # set_intersection xs ys)"
| "set_intersection _ _ = []"

text \<open>One round of serving the remaining queues, from the last to the first.\<close>

primrec deliver_down ::
  "u64 \<Rightarrow> shared_chunk \<Rightarrow> nat \<Rightarrow> address list \<Rightarrow> u64 \<Rightarrow> popo_state \<Rightarrow> (u64 \<times> address list \<times> popo_state) outcome" where
  "deliver_down Capacity chunk 0 remaining n P =
     (if remaining = [] then Inr (n, remaining, P)
      else obind (pushToQueue Capacity (remaining ! 0) chunk P) (\<lambda>(delivered, P').
           if delivered then Inr (n + 1, drop 1 remaining, P') else Inr (n, remaining, P')))"
| "deliver_down Capacity chunk (Suc i) remaining n P =
     (if remaining = [] then Inr (n, remaining, P)
      else obind (pushToQueue Capacity (remaining ! Suc i) chunk P) (\<lambda>(delivered, P').
           if delivered
           then deliver_down Capacity chunk i (take (Suc i) remaining @ drop (Suc (Suc i)) remaining) (n + 1) P'
           else deliver_down Capacity chunk i remaining n P'))"

text \<open>The busy waiting; it does not return if queues remain after all rounds.\<close>

primrec wait_for_consumers ::
  "u64 \<Rightarrow> shared_chunk \<Rightarrow> (chunk_distributor_data \<times> popo_state \<Rightarrow> chunk_distributor_data \<times> popo_state) list \<Rightarrow>
     address list \<Rightarrow> u64 \<Rightarrow> chunk_distributor_data \<Rightarrow> popo_state \<Rightarrow> (u64 \<times> chunk_distributor_data \<times> popo_state) outcome" where
  "wait_for_consumers Capacity chunk [] remaining n D P =
     (if remaining = [] then Inr (n, D, P) else Inl NO_RETURN)"
| "wait_for_consumers Capacity chunk (others # rounds) remaining n D P =
     (if remaining = [] then Inr (n, D, P)
      else (case others (D, P) of (D1, P1) \<Rightarrow>
            locked D1
              (let D2 = D1\<lparr> cdd_queues := sort (cdd_queues D1) \<rparr>;
                   intersection = set_intersection (cdd_queues D2) (sort remaining)
               in obind (deliver_down Capacity chunk (length intersection - 1) intersection n P1)
                    (\<lambda>(n', remaining', P2). wait_for_consumers Capacity chunk rounds remaining' n' D2 P2))))"

definition deliverToAllStoredQueues ::
  "u64 \<Rightarrow> shared_chunk \<Rightarrow> (chunk_distributor_data \<times> popo_state \<Rightarrow> chunk_distributor_data \<times> popo_state) list \<Rightarrow>
     chunk_distributor_data \<Rightarrow> popo_state \<Rightarrow> (u64 \<times> chunk_distributor_data \<times> popo_state) outcome" where
  "deliverToAllStoredQueues Capacity chunk rounds D P =
     locked D
       (let willWaitForConsumer = (cdd_consumerTooSlowPolicy D = WAIT_FOR_CONSUMER)
        in obind (deliver_loop Capacity willWaitForConsumer chunk (cdd_queues D) 0 [] P) (\<lambda>(n, remaining, P1).
           obind (wait_for_consumers Capacity chunk rounds remaining n D P1) (\<lambda>(n', D2, P2).
           obind (addToHistoryWithoutDelivery chunk D2 P2) (\<lambda>(D3, P3).
           Inr (n', D3, P3)))))"

subsection \<open>Delivery to one queue\<close>

text \<open>The first queue with an id, from a position on; \<open>None\<close> in the list of ids is a dangling pointer.\<close>

definition queue_id :: "popo_state \<Rightarrow> address \<Rightarrow> u64 option" where
  "queue_id P queue = map_option cqd_uniqueId (ps_queues P queue)"

primrec find_index :: "u64 \<Rightarrow> popo_state \<Rightarrow> u32 \<Rightarrow> address list \<Rightarrow> u32 option" where
  "find_index uniqueQueueId P index [] = None"
| "find_index uniqueQueueId P index (queue # queues) =
     (if queue_id P queue = Some uniqueQueueId then Some index
      else find_index uniqueQueueId P (index + 1) queues)"

definition getQueueIndex :: "u64 \<Rightarrow> u32 \<Rightarrow> chunk_distributor_data \<Rightarrow> popo_state \<Rightarrow> u32 option" where
  "getQueueIndex uniqueQueueId lastKnownQueueIndex D P =
     (if length (cdd_queues D) > unat lastKnownQueueIndex \<and>
         queue_id P (cdd_queues D ! unat lastKnownQueueIndex) = Some uniqueQueueId
      then Some lastKnownQueueIndex
      else find_index uniqueQueueId P 0 (cdd_queues D))"

text \<open>
  \<open>deliverToQueue\<close>: one attempt, and another one after each round of the other threads as long as
  a blocking queue is full.
\<close>

definition deliver_once ::
  "u64 \<Rightarrow> u64 \<Rightarrow> u32 \<Rightarrow> shared_chunk \<Rightarrow> chunk_distributor_data \<Rightarrow> popo_state \<Rightarrow>
     ((chunk_distributor_error + bool) \<times> popo_state) outcome" where
  "deliver_once Capacity uniqueQueueId lastKnownQueueIndex chunk D P =
     locked D
       (case getQueueIndex uniqueQueueId lastKnownQueueIndex D P of
          None \<Rightarrow> Inr (Inl QUEUE_NOT_IN_CONTAINER, P)
        | Some queueIndex \<Rightarrow>
            (let queue = cdd_queues D ! unat queueIndex;
                 willWaitForConsumer = (cdd_consumerTooSlowPolicy D = WAIT_FOR_CONSUMER);
                 blocking = isBlockingQueue willWaitForConsumer queue P
             in obind (pushToQueue Capacity queue chunk P) (\<lambda>(delivered, P1).
                if delivered then Inr (Inr False, P1)
                else if blocking then Inr (Inr True, P1)
                else obind (lostAChunk queue P1) (\<lambda>P2. Inr (Inr False, P2)))))"

primrec deliverToQueue ::
  "u64 \<Rightarrow> u64 \<Rightarrow> u32 \<Rightarrow> shared_chunk \<Rightarrow>
     (chunk_distributor_data \<times> popo_state \<Rightarrow> chunk_distributor_data \<times> popo_state) list \<Rightarrow>
     chunk_distributor_data \<Rightarrow> popo_state \<Rightarrow>
     ((chunk_distributor_error + unit) \<times> chunk_distributor_data \<times> popo_state) outcome" where
  "deliverToQueue Capacity uniqueQueueId lastKnownQueueIndex chunk [] D P =
     obind (deliver_once Capacity uniqueQueueId lastKnownQueueIndex chunk D P) (\<lambda>(r, P1).
       case r of Inl e \<Rightarrow> Inr (Inl e, D, P1)
       | Inr retry \<Rightarrow> if retry then Inl NO_RETURN else Inr (Inr (), D, P1))"
| "deliverToQueue Capacity uniqueQueueId lastKnownQueueIndex chunk (others # rounds) D P =
     obind (deliver_once Capacity uniqueQueueId lastKnownQueueIndex chunk D P) (\<lambda>(r, P1).
       case r of Inl e \<Rightarrow> Inr (Inl e, D, P1)
       | Inr retry \<Rightarrow>
           if retry then (case others (D, P1) of (D2, P2) \<Rightarrow>
             deliverToQueue Capacity uniqueQueueId lastKnownQueueIndex chunk rounds D2 P2)
           else Inr (Inr (), D, P1))"

subsection \<open>The specification of a delivery\<close>

definition queue_cap :: "u64 \<Rightarrow> popo_state \<Rightarrow> address \<Rightarrow> nat" where
  "queue_cap Capacity P q = (case queue_static Capacity P q of None \<Rightarrow> 0 | Some (_, cap, _) \<Rightarrow> cap)"

definition queue_overwrites :: "u64 \<Rightarrow> popo_state \<Rightarrow> address \<Rightarrow> bool" where
  "queue_overwrites Capacity P q = (case queue_static Capacity P q of None \<Rightarrow> False | Some (_, _, ow, _) \<Rightarrow> ow)"

definition queue_blocks :: "u64 \<Rightarrow> popo_state \<Rightarrow> address \<Rightarrow> bool" where
  "queue_blocks Capacity P q =
     (case queue_static Capacity P q of None \<Rightarrow> False | Some (_, _, _, policy, _) \<Rightarrow> policy = BLOCK_PRODUCER)"

text \<open>The contents of the queues after a chunk was pushed to all queues of a set.\<close>

definition delivered :: "u64 \<Rightarrow> popo_state \<Rightarrow> address \<Rightarrow> address set \<Rightarrow> queue_contents \<Rightarrow> queue_contents" where
  "delivered Capacity P m A Q =
     (\<lambda>q. if q \<in> A then map_option (\<lambda>ms. snd (push_spec (queue_overwrites Capacity P q) (queue_cap Capacity P q) m ms)) (Q q)
          else Q q)"

text \<open>The queue has no room for another chunk.\<close>

definition queue_full :: "u64 \<Rightarrow> popo_state \<Rightarrow> queue_contents \<Rightarrow> address \<Rightarrow> bool" where
  "queue_full Capacity P Q q \<longleftrightarrow> (\<exists>ms. Q q = Some ms \<and> queue_cap Capacity P q \<le> length ms)"

lemma isBlockingQueue_eq: "isBlockingQueue w q P \<longleftrightarrow> w \<and> queue_blocks Capacity P q"
  by (simp add: isBlockingQueue_def queue_blocks_def queue_static_def split: option.split)

lemma static_cong:
  assumes "queue_static Capacity P' = queue_static Capacity P"
  shows "queue_cap Capacity P' = queue_cap Capacity P" "queue_overwrites Capacity P' = queue_overwrites Capacity P"
    "queue_blocks Capacity P' = queue_blocks Capacity P" "delivered Capacity P' = delivered Capacity P"
    "queue_full Capacity P' = queue_full Capacity P"
  by (simp_all add: fun_eq_iff queue_cap_def queue_overwrites_def queue_blocks_def delivered_def queue_full_def assms)

lemma queue_static_shm [simp]: "queue_static Capacity (P\<lparr> ps_shm := S \<rparr>) = queue_static Capacity P"
  by (simp add: queue_static_def fun_eq_iff)

lemma lost_flag_shm [simp]: "lost_flag (P\<lparr> ps_shm := S \<rparr>) = lost_flag P"
  by (simp add: lost_flag_def fun_eq_iff)

lemma delivered_empty [simp]: "delivered Capacity P m {} Q = Q"
  by (simp add: delivered_def)

lemma delivered_insert:
  assumes "q \<notin> A"
  shows "delivered Capacity P m A (delivered Capacity P m {q} Q) = delivered Capacity P m (insert q A) Q"
  using assms by (auto simp: delivered_def fun_eq_iff)

lemma delivered_single:
  "Q q = Some ms \<Longrightarrow> delivered Capacity P m {q} Q =
     Q(q \<mapsto> snd (push_spec (queue_overwrites Capacity P q) (queue_cap Capacity P q) m ms))"
  by (auto simp: delivered_def fun_eq_iff)

lemma pushToQueue_ok:
  assumes rep: "popo_rep Capacity (Suc (Suc b)) P Q Os" and m: "m \<in># Os" and q: "Q q = Some ms"
  obtains P' where "pushToQueue Capacity q (Some m) P = Inr (\<not> queue_full Capacity P Q q, P')"
    "popo_rep Capacity b P' (delivered Capacity P m {q} Q) Os"
    "queue_static Capacity P' = queue_static Capacity P" "lost_flag P' = lost_flag P"
    "same_chunks (Os + queued (delivered Capacity P m {q} Q)) P P'"
proof -
  have "m \<in># Os + queued Q" using m by simp
  then obtain S1 where S1: "incrementReferenceCounter (Some m) (ps_shm P) = Inr S1"
    "popo_rep Capacity (Suc b) (P\<lparr> ps_shm := S1 \<rparr>) Q (add_mset m Os)" "chunk_content S1 = chunk_content (ps_shm P)"
    by (rule popo_clone_ok [OF rep])
  obtain cqd where "ps_queues P q = Some cqd" by (rule popo_rep_queue [OF rep q])
  then obtain uid cap ow policy cv index where st: "queue_static Capacity P q = Some (uid, cap, ow, policy, cv, index)"
    by (simp add: queue_static_def)
  then have eq: "queue_cap Capacity P q = cap" "queue_overwrites Capacity P q = ow"
    by (simp_all add: queue_cap_def queue_overwrites_def)
  have d: "delivered Capacity P m {q} Q = Q(q \<mapsto> snd (push_spec ow cap m ms))"
    using delivered_single [of Q q ms Capacity P m] q by (simp add: eq)
  obtain P' where P': "ChunkQueuePusher_push Capacity q (Some m) (P\<lparr> ps_shm := S1 \<rparr>) = Inr (length ms < cap, P')"
    "popo_rep Capacity b P' (Q(q \<mapsto> snd (push_spec ow cap m ms))) Os"
    "queue_static Capacity P' = queue_static Capacity (P\<lparr> ps_shm := S1 \<rparr>)"
    "same_chunks (Os + queued (Q(q \<mapsto> snd (push_spec ow cap m ms)))) (P\<lparr> ps_shm := S1 \<rparr>) P'"
    "lost_flag P' = lost_flag (P\<lparr> ps_shm := S1 \<rparr>)"
    by (rule ChunkQueuePusher_push_ok [OF S1(2) q]) (simp add: st)
  have "pushToQueue Capacity q (Some m) P = Inr (\<not> queue_full Capacity P Q q, P')"
    using S1(1) P'(1) q by (simp add: pushToQueue_def SharedChunk_copy_def SharedChunk_assign_def
        decrementReferenceCounter_def queue_full_def eq not_le)
  moreover have "same_chunks (Os + queued (delivered Capacity P m {q} Q)) P P'"
    unfolding d using P'(4) S1(3) by (simp add: same_chunks_def)
  ultimately show thesis using that P' by (simp add: d)
qed

lemma queued_delivered:
  assumes "finite (dom Q)"
  shows "set_mset (queued (delivered Capacity P m A Q)) \<subseteq> insert m (set_mset (queued Q))"
proof
  have d: "dom (delivered Capacity P m A Q) = dom Q" by (auto simp: delivered_def split: if_splits)
  fix x assume "x \<in># queued (delivered Capacity P m A Q)"
  then obtain q ms' where q: "q \<in> dom Q" "delivered Capacity P m A Q q = Some ms'" "x \<in> set ms'"
    using assms by (auto simp: queued_def d set_mset_sum) (metis d domD domI option.sel)
  then obtain ms where ms: "Q q = Some ms" by auto
  have "set (snd (push_spec ow n m ms)) \<subseteq> insert m (set ms)" for ow n
    by (cases ms) (auto simp: push_spec_def)
  with q ms have "x \<in> insert m (set ms)" by (auto simp: delivered_def split: if_splits)
  moreover have "set ms \<subseteq> set_mset (queued Q)"
    using assms ms q(1) by (auto simp: queued_def set_mset_sum intro!: bexI [of _ q])
  ultimately show "x \<in> insert m (set_mset (queued Q))" by blast
qed

text \<open>The queues for which a delivery has to wait.\<close>

definition waits :: "u64 \<Rightarrow> bool \<Rightarrow> popo_state \<Rightarrow> queue_contents \<Rightarrow> address \<Rightarrow> bool" where
  "waits Capacity w P Q q \<longleftrightarrow> w \<and> queue_blocks Capacity P q \<and> queue_full Capacity P Q q"

lemma queue_full_delivered:
  "q \<notin> A \<Longrightarrow> queue_full Capacity P (delivered Capacity P m A Q) q = queue_full Capacity P Q q"
  by (simp add: queue_full_def delivered_def)

lemma deliver_loop_ok:
  assumes "popo_rep Capacity (b + 2 * length qs) P Q Os" "m \<in># Os" "distinct qs" "set qs \<subseteq> dom Q"
  shows "\<exists>P'. deliver_loop Capacity w (Some m) qs n remaining P =
      Inr (n + of_nat (length (filter (\<lambda>q. \<not> waits Capacity w P Q q) qs)),
           remaining @ filter (waits Capacity w P Q) qs, P') \<and>
    popo_rep Capacity b P' (delivered Capacity P m (set qs) Q) Os \<and>
    queue_static Capacity P' = queue_static Capacity P \<and>
    (\<forall>q. lost_flag P' q = (lost_flag P q \<or> q \<in> set qs \<and> queue_full Capacity P Q q \<and> \<not> waits Capacity w P Q q)) \<and>
    same_chunks (Os + queued (delivered Capacity P m (set qs) Q)) P P'"
  using assms
proof (induction qs arbitrary: P Q n remaining)
  case Nil
  then show ?case by simp
next
  case (Cons q qs)
  let ?Q1 = "delivered Capacity P m {q} Q"
  obtain ms where ms: "Q q = Some ms" using Cons.prems(4) by auto
  have rep: "popo_rep Capacity (Suc (Suc (b + 2 * length qs))) P Q Os" using Cons.prems(1) by simp
  obtain P1 where P1: "pushToQueue Capacity q (Some m) P = Inr (\<not> queue_full Capacity P Q q, P1)"
    "popo_rep Capacity (b + 2 * length qs) P1 ?Q1 Os"
    "queue_static Capacity P1 = queue_static Capacity P" "lost_flag P1 = lost_flag P"
    "same_chunks (Os + queued ?Q1) P P1"
    by (rule pushToQueue_ok [OF rep Cons.prems(2) ms])
  have dom1: "dom ?Q1 = dom Q" using ms by (auto simp: delivered_single)
  define lost where "lost = (queue_full Capacity P Q q \<and> \<not> waits Capacity w P Q q)"
  obtain P2 where P2: "(if lost then lostAChunk q P1 else Inr P1) = Inr P2"
    "popo_rep Capacity (b + 2 * length qs) P2 ?Q1 Os" "queue_static Capacity P2 = queue_static Capacity P"
    "lost_flag P2 = (if lost then (lost_flag P)(q := True) else lost_flag P)" "ps_shm P2 = ps_shm P1"
  proof (cases lost)
    case True
    have "?Q1 q = Some (the (?Q1 q))" using dom1 ms by (metis domI domIff option.collapse)
    from lostAChunk_ok [OF P1(2) this] obtain P2 where "lostAChunk q P1 = Inr P2"
      "popo_rep Capacity (b + 2 * length qs) P2 ?Q1 Os" "ps_shm P2 = ps_shm P1"
      "queue_static Capacity P2 = queue_static Capacity P1" "lost_flag P2 = (lost_flag P1)(q := True)" .
    with True P1 show thesis using that by simp
  next
    case False
    with P1 show thesis using that by simp
  qed
  have dl: "deliver_loop Capacity w (Some m) (q # qs) n remaining P =
      deliver_loop Capacity w (Some m) qs (if waits Capacity w P Q q then n else n + 1)
        (if waits Capacity w P Q q then remaining @ [q] else remaining) P2"
    using P1(1) P2(1) by (auto simp: lost_def waits_def isBlockingQueue_eq [where Capacity = Capacity] Let_def split: if_splits)
  have same: "queue_full Capacity P2 ?Q1 x = queue_full Capacity P Q x" "waits Capacity w P2 ?Q1 x = waits Capacity w P Q x"
    if "x \<noteq> q" for x
    using that static_cong [OF P2(3)] by (simp_all add: waits_def queue_full_delivered)
  have D: "delivered Capacity P2 m (set qs) ?Q1 = delivered Capacity P m (set (q # qs)) Q"
    using delivered_insert [of q "set qs" Capacity P m Q] Cons.prems(3) static_cong(4) [OF P2(3)] by simp
  have filt: "filter (waits Capacity w P2 ?Q1) qs = filter (waits Capacity w P Q) qs"
    "filter (\<lambda>x. \<not> waits Capacity w P2 ?Q1 x) qs = filter (\<lambda>x. \<not> waits Capacity w P Q x) qs"
  proof -
    have "\<forall>x\<in>set qs. waits Capacity w P2 ?Q1 x = waits Capacity w P Q x" using Cons.prems(3) same(2) by (metis distinct.simps(2))
    then show "filter (waits Capacity w P2 ?Q1) qs = filter (waits Capacity w P Q) qs"
      "filter (\<lambda>x. \<not> waits Capacity w P2 ?Q1 x) qs = filter (\<lambda>x. \<not> waits Capacity w P Q x) qs"
      by (simp_all cong: filter_cong)
  qed
  from Cons.IH [OF P2(2) Cons.prems(2), of "if waits Capacity w P Q q then n else n + 1"
      "if waits Capacity w P Q q then remaining @ [q] else remaining"] Cons.prems(3,4) dom1
  obtain P' where P': "deliver_loop Capacity w (Some m) qs (if waits Capacity w P Q q then n else n + 1)
        (if waits Capacity w P Q q then remaining @ [q] else remaining) P2 =
      Inr ((if waits Capacity w P Q q then n else n + 1) + of_nat (length (filter (\<lambda>q. \<not> waits Capacity w P Q q) qs)),
           (if waits Capacity w P Q q then remaining @ [q] else remaining) @ filter (waits Capacity w P Q) qs, P')"
    "popo_rep Capacity b P' (delivered Capacity P m (set (q # qs)) Q) Os"
    "queue_static Capacity P' = queue_static Capacity P"
    "\<forall>x. lost_flag P' x = (lost_flag P2 x \<or> x \<in> set qs \<and> queue_full Capacity P2 ?Q1 x \<and> \<not> waits Capacity w P2 ?Q1 x)"
    "same_chunks (Os + queued (delivered Capacity P m (set (q # qs)) Q)) P2 P'"
    unfolding D filt P2(3) by (auto simp del: fun_upd_apply)
  have lf: "\<forall>x. lost_flag P' x = (lost_flag P x \<or> x \<in> set (q # qs) \<and> queue_full Capacity P Q x \<and> \<not> waits Capacity w P Q x)"
  proof
    fix x
    show "lost_flag P' x = (lost_flag P x \<or> x \<in> set (q # qs) \<and> queue_full Capacity P Q x \<and> \<not> waits Capacity w P Q x)"
    proof (cases "x = q")
      case True
      then show ?thesis using P'(4) P2(4) Cons.prems(3) by (auto simp: lost_def)
    next
      case False
      then show ?thesis using P'(4) P2(4) by (simp add: same)
    qed
  qed
  have sc: "same_chunks (Os + queued (delivered Capacity P m (set (q # qs)) Q)) P P'"
  proof (rule same_chunks_trans [OF P1(5)])
    show "same_chunks (Os + queued (delivered Capacity P m (set (q # qs)) Q)) P1 P'"
      using P'(5) P2(5) by (simp add: same_chunks_def)
    have "set_mset (queued (delivered Capacity P2 m (set qs) ?Q1)) \<subseteq> insert m (set_mset (queued ?Q1))"
      using P2(2) by (intro queued_delivered) (simp add: popo_rep_def)
    then show "set_mset (Os + queued (delivered Capacity P m (set (q # qs)) Q)) \<subseteq> set_mset (Os + queued ?Q1)"
      using Cons.prems(2) unfolding D by auto
  qed simp
  show ?case unfolding dl using P' lf sc by (auto simp: of_nat_Suc)
qed

subsection \<open>History\<close>

definition distributor_ok :: "chunk_distributor_data \<Rightarrow> queue_contents \<Rightarrow> address list \<Rightarrow> bool" where
  "distributor_ok D Q hs \<longleftrightarrow>
     \<not> cdd_lockedByOther D \<and> cdd_history D = map Some hs \<and> length hs \<le> unat (cdd_historyCapacity D) \<and>
     distinct (cdd_queues D) \<and> set (cdd_queues D) \<subseteq> dom Q"

definition history_spec :: "nat \<Rightarrow> address \<Rightarrow> address list \<Rightarrow> address list" where
  "history_spec n m hs = drop (length hs + 1 - n) (hs @ [m])"

lemma addToHistory_ok:
  assumes rep: "popo_rep Capacity (Suc b) P Q (mset hs + Os)" and m: "m \<in># Os" and D: "distributor_ok D Q hs"
  obtains P' where "addToHistoryWithoutDelivery (Some m) D P =
      Inr (D\<lparr> cdd_history := map Some (history_spec (unat (cdd_historyCapacity D)) m hs) \<rparr>, P')"
    "popo_rep Capacity b P' Q (mset (history_spec (unat (cdd_historyCapacity D)) m hs) + Os)"
    "queue_static Capacity P' = queue_static Capacity P" "lost_flag P' = lost_flag P"
    "same_chunks (Os + mset (history_spec (unat (cdd_historyCapacity D)) m hs) + queued Q) P P'"
proof -
  let ?n = "unat (cdd_historyCapacity D)"
  have d: "\<not> cdd_lockedByOther D" "cdd_history D = map Some hs" "length hs \<le> ?n"
    using D by (simp_all add: distributor_ok_def)
  have full: "of_nat (length hs) \<ge> cdd_historyCapacity D \<longleftrightarrow> length hs = ?n"
  proof -
    have "unat (of_nat (length hs) :: u64) = length hs"
      using d(3) u64_unat_less [of "cdd_historyCapacity D"] by (intro unat_of_nat_u64) simp
    then show ?thesis using d(3) by (auto simp: word_le_nat_alt)
  qed
  have zero: "0 < cdd_historyCapacity D \<longleftrightarrow> 0 < ?n" by (simp add: word_less_nat_alt)
  show thesis
  proof (cases "?n = 0")
    case True
    then have "D\<lparr> cdd_history := map Some (history_spec ?n m hs) \<rparr> = D" "history_spec ?n m hs = []" "hs = []"
      using d by (simp_all add: history_spec_def)
    moreover have "addToHistoryWithoutDelivery (Some m) D P = Inr (D, P)"
      using d(1) zero True by (simp add: addToHistoryWithoutDelivery_def locked_def)
    moreover have "popo_rep Capacity b P Q (mset [] + Os)" using rep \<open>hs = []\<close> popo_rep_mono [OF rep, of b] by simp
    ultimately show thesis using that [of P] by simp
  next
    case False
    define old where "old = (if length hs = ?n then tl hs else hs)"
    have hist: "history_spec ?n m hs = old @ [m]"
      using d(3) False by (cases hs) (auto simp: history_spec_def old_def)
    obtain S1 where S1: "(if length hs = ?n then SharedChunk_dtor (Some (hd hs)) (ps_shm P) else Inr (ps_shm P)) = Inr S1"
      "popo_rep Capacity (Suc b) (P\<lparr> ps_shm := S1 \<rparr>) Q (mset old + Os)"
      "same_chunks (mset old + Os + queued Q) P (P\<lparr> ps_shm := S1 \<rparr>)"
    proof (cases "length hs = ?n")
      case True
      with False obtain h hs' where hs: "hs = h # hs'" by (cases hs) auto
      have "popo_rep Capacity (Suc b) P Q (add_mset h (mset hs' + Os))" using rep hs by simp
      then obtain S1 where "SharedChunk_dtor (Some h) (ps_shm P) = Inr S1"
        "popo_rep Capacity (Suc b) (P\<lparr> ps_shm := S1 \<rparr>) Q (mset hs' + Os)"
        "same_chunks (mset hs' + Os + queued Q) P (P\<lparr> ps_shm := S1 \<rparr>)" by (rule popo_release_ok)
      then show thesis using that True hs by (simp add: old_def)
    next
      case False
      have "P\<lparr> ps_shm := ps_shm P \<rparr> = P" by simp
      then show thesis using that [of "ps_shm P"] False rep by (simp add: old_def)
    qed
    have "m \<in># (mset old + Os) + queued Q" using m by simp
    then obtain S2 where S2: "incrementReferenceCounter (Some m) S1 = Inr S2"
      "popo_rep Capacity b (P\<lparr> ps_shm := S2 \<rparr>) Q (add_mset m (mset old + Os))" "chunk_content S2 = chunk_content S1"
      by (rule popo_clone_ok [OF S1(2)]) auto
    have hd: "length hs = ?n \<Longrightarrow> hd (map Some hs) = Some (hd hs)" using False by (cases hs) auto
    have "addToHistoryWithoutDelivery (Some m) D P =
        Inr (D\<lparr> cdd_history := map Some (history_spec ?n m hs) \<rparr>, P\<lparr> ps_shm := S2 \<rparr>)"
      using d False zero S1(1) S2(1) full hist
      by (auto simp: addToHistoryWithoutDelivery_def locked_def SharedChunk_copy_def SharedChunk_assign_def
          decrementReferenceCounter_def releaseToSharedChunk_def ShmSafeUnmanagedChunk_ctor_def old_def
          hd map_tl split: if_splits)
    moreover have "same_chunks (Os + mset (history_spec ?n m hs) + queued Q) P (P\<lparr> ps_shm := S2 \<rparr>)"
      using S1(3) S2(3) m unfolding hist by (auto simp: same_chunks_def)
    ultimately show thesis using that [of "P\<lparr> ps_shm := S2 \<rparr>"] S2(2) by (simp add: hist)
  qed
qed

text \<open>The delivery if no blocking queue is full: there is nothing to wait for.\<close>

lemma deliver_without_waiting:
  assumes "popo_rep Capacity (b + 2 * length (cdd_queues D) + 1) P Q (mset hs + Os)" "m \<in># Os" "distributor_ok D Q hs"
    and "\<forall>q\<in>set (cdd_queues D). \<not> waits Capacity (cdd_consumerTooSlowPolicy D = WAIT_FOR_CONSUMER) P Q q"
  shows "\<exists>P'. deliverToAllStoredQueues Capacity (Some m) rounds D P =
      Inr (of_nat (length (cdd_queues D)),
           D\<lparr> cdd_history := map Some (history_spec (unat (cdd_historyCapacity D)) m hs) \<rparr>, P') \<and>
    popo_rep Capacity b P' (delivered Capacity P m (set (cdd_queues D)) Q)
      (mset (history_spec (unat (cdd_historyCapacity D)) m hs) + Os) \<and>
    (\<forall>q. lost_flag P' q = (lost_flag P q \<or> q \<in> set (cdd_queues D) \<and> queue_full Capacity P Q q)) \<and>
    same_chunks (Os + mset (history_spec (unat (cdd_historyCapacity D)) m hs) +
      queued (delivered Capacity P m (set (cdd_queues D)) Q)) P P'"
proof -
  let ?w = "cdd_consumerTooSlowPolicy D = WAIT_FOR_CONSUMER" and ?qs = "cdd_queues D"
  let ?Q = "delivered Capacity P m (set ?qs) Q" and ?h = "history_spec (unat (cdd_historyCapacity D)) m hs"
  have m: "m \<in># mset hs + Os" using assms(2) by simp
  have D: "distinct ?qs" "set ?qs \<subseteq> dom Q" "\<not> cdd_lockedByOther D" using assms(3) by (simp_all add: distributor_ok_def)
  have "popo_rep Capacity (Suc b + 2 * length ?qs) P Q (mset hs + Os)" using assms(1) by simp
  from deliver_loop_ok [OF this m D(1,2), of ?w 0 "[]"] assms(4)
  obtain P1 where P1: "deliver_loop Capacity ?w (Some m) ?qs 0 [] P = Inr (of_nat (length ?qs), [], P1)"
    "popo_rep Capacity (Suc b) P1 ?Q (mset hs + Os)" "queue_static Capacity P1 = queue_static Capacity P"
    "\<forall>q. lost_flag P1 q = (lost_flag P q \<or> q \<in> set ?qs \<and> queue_full Capacity P Q q)"
    "same_chunks (mset hs + Os + queued ?Q) P P1"
    by (auto simp: filter_empty_conv)
  have "dom ?Q = dom Q" by (auto simp: delivered_def split: if_splits)
  then have "distributor_ok D ?Q hs" using assms(3) by (simp add: distributor_ok_def)
  from addToHistory_ok [OF P1(2) assms(2) this] obtain P2 where P2:
    "addToHistoryWithoutDelivery (Some m) D P1 = Inr (D\<lparr> cdd_history := map Some ?h \<rparr>, P2)"
    "popo_rep Capacity b P2 ?Q (mset ?h + Os)" "lost_flag P2 = lost_flag P1"
    "same_chunks (Os + mset ?h + queued ?Q) P1 P2" by blast
  have w: "wait_for_consumers Capacity (Some m) rounds [] n D P1 = Inr (n, D, P1)" for n by (cases rounds) simp_all
  have "deliverToAllStoredQueues Capacity (Some m) rounds D P =
      Inr (of_nat (length ?qs), D\<lparr> cdd_history := map Some ?h \<rparr>, P2)"
    using D(3) P1(1) P2(1) w by (simp add: deliverToAllStoredQueues_def locked_def)
  moreover have "set ?h \<subseteq> insert m (set hs)" unfolding history_spec_def by (auto dest: in_set_dropD)
  then have "same_chunks (Os + mset ?h + queued ?Q) P P2"
    using assms(2) by (intro same_chunks_trans [OF P1(5) P2(4)]) auto
  ultimately show ?thesis using P1(4) P2 by auto
qed

subsection \<open>Waiting for slow consumers\<close>

lemma set_intersection_sorted:
  assumes "sorted xs" "distinct xs" "sorted ys" "distinct ys"
  shows "set (set_intersection xs ys) = set xs \<inter> set ys \<and> distinct (set_intersection xs ys)"
  using assms
proof (induction xs ys rule: set_intersection.induct)
  case (1 x xs y ys)
  consider "x < y" | "y < x" | "x = y" by fastforce
  then show ?case
  proof cases
    case 1
    then have "x \<notin> set (y # ys)" using "1.prems"(3) by auto
    then show ?thesis using "1.IH"(1) "1.prems" \<open>x < y\<close> by auto
  next
    case 2
    then have "y \<notin> set (x # xs)" using "1.prems"(1) by auto
    then show ?thesis using "1.IH"(2) "1.prems" \<open>y < x\<close> by auto
  next
    case 3
    then show ?thesis using "1.IH"(3) "1.prems" by auto
  qed
qed simp_all

lemma card_filter_set: "distinct xs \<Longrightarrow> length (filter p xs) = card {x \<in> set xs. p x}"
  by (metis distinct_card distinct_filter set_filter)

lemma deliver_down_ok:
  assumes "popo_rep Capacity (b + 2 * Suc i) P Q Os" "m \<in># Os" "distinct qs" "set qs \<subseteq> dom Q" "i < length qs"
  shows "\<exists>P'. deliver_down Capacity (Some m) i qs n P =
      Inr (n + of_nat (length (filter (\<lambda>q. \<not> queue_full Capacity P Q q) (take (Suc i) qs))),
           filter (queue_full Capacity P Q) (take (Suc i) qs) @ drop (Suc i) qs, P') \<and>
    popo_rep Capacity b P' (delivered Capacity P m (set (take (Suc i) qs)) Q) Os \<and>
    queue_static Capacity P' = queue_static Capacity P \<and> lost_flag P' = lost_flag P \<and>
    same_chunks (Os + queued (delivered Capacity P m (set (take (Suc i) qs)) Q)) P P'"
  using assms
proof (induction i arbitrary: P Q qs n)
  case 0
  then obtain q qs' ms where q: "qs = q # qs'" "Q q = Some ms" by (cases qs) auto
  have rep: "popo_rep Capacity (Suc (Suc b)) P Q Os" using "0.prems"(1) by simp
  obtain P' where "pushToQueue Capacity q (Some m) P = Inr (\<not> queue_full Capacity P Q q, P')"
    "popo_rep Capacity b P' (delivered Capacity P m {q} Q) Os" "queue_static Capacity P' = queue_static Capacity P"
    "lost_flag P' = lost_flag P" "same_chunks (Os + queued (delivered Capacity P m {q} Q)) P P'"
    by (rule pushToQueue_ok [OF rep "0.prems"(2) q(2)])
  then show ?case by (simp add: q(1))
next
  case (Suc i)
  let ?q = "qs ! Suc i" and ?t = "take (Suc i) qs"
  let ?Q1 = "delivered Capacity P m {?q} Q"
  have split: "take (Suc (Suc i)) qs = ?t @ [?q]" using Suc.prems(5) by (simp add: take_Suc_conv_app_nth)
  have q: "?q \<notin> set ?t" using Suc.prems(3,5) by (metis distinct_take not_distinct_conv_prefix split)
  obtain ms where ms: "Q ?q = Some ms" using Suc.prems(4,5) nth_mem by blast
  have rep: "popo_rep Capacity (Suc (Suc (b + 2 * Suc i))) P Q Os" using Suc.prems(1) by simp
  obtain P1 where P1: "pushToQueue Capacity ?q (Some m) P = Inr (\<not> queue_full Capacity P Q ?q, P1)"
    "popo_rep Capacity (b + 2 * Suc i) P1 ?Q1 Os"
    "queue_static Capacity P1 = queue_static Capacity P" "lost_flag P1 = lost_flag P"
    "same_chunks (Os + queued ?Q1) P P1"
    by (rule pushToQueue_ok [OF rep Suc.prems(2) ms])
  define rest where "rest = (if queue_full Capacity P Q ?q then qs else ?t @ drop (Suc (Suc i)) qs)"
  have rest: "take (Suc i) rest = ?t" "distinct rest" "set rest \<subseteq> set qs" "i < length rest"
    "drop (Suc i) rest = (if queue_full Capacity P Q ?q then [?q] else []) @ drop (Suc (Suc i)) qs"
    using Suc.prems(3,5) q set_take_subset [of "Suc i" qs] set_drop_subset [of "Suc (Suc i)" qs]
      set_take_disj_set_drop_if_distinct [of qs "Suc i" "Suc (Suc i)"]
    by (auto simp: rest_def Cons_nth_drop_Suc min_def split: if_splits)
  have dom1: "dom ?Q1 = dom Q" using ms by (auto simp: delivered_single)
  have full: "queue_full Capacity P1 ?Q1 x = queue_full Capacity P Q x" if "x \<in> set ?t" for x
    using that q static_cong(5) [OF P1(3)] by (metis queue_full_delivered singletonD)
  have D: "delivered Capacity P1 m (set ?t) ?Q1 = delivered Capacity P m (set (take (Suc (Suc i)) qs)) Q"
    using delivered_insert [OF q, of Capacity P m Q] static_cong(4) [OF P1(3)] by (simp add: split)
  have filt: "filter (queue_full Capacity P1 ?Q1) ?t = filter (queue_full Capacity P Q) ?t"
    "filter (\<lambda>x. \<not> queue_full Capacity P1 ?Q1 x) ?t = filter (\<lambda>x. \<not> queue_full Capacity P Q x) ?t"
    using full by (simp_all cong: filter_cong)
  have dd: "deliver_down Capacity (Some m) (Suc i) qs n P =
      deliver_down Capacity (Some m) i rest (if queue_full Capacity P Q ?q then n else n + 1) P1"
    using P1(1) Suc.prems(5) by (auto simp: rest_def)
  from Suc.IH [OF P1(2) Suc.prems(2) rest(2) _ rest(4), of "if queue_full Capacity P Q ?q then n else n + 1"] rest(3) Suc.prems(4) dom1
  obtain P' where P': "deliver_down Capacity (Some m) i rest (if queue_full Capacity P Q ?q then n else n + 1) P1 =
      Inr ((if queue_full Capacity P Q ?q then n else n + 1) + of_nat (length (filter (\<lambda>q. \<not> queue_full Capacity P Q q) ?t)),
           filter (queue_full Capacity P Q) ?t @ drop (Suc i) rest, P')"
    "popo_rep Capacity b P' (delivered Capacity P m (set (take (Suc (Suc i)) qs)) Q) Os"
    "queue_static Capacity P' = queue_static Capacity P1" "lost_flag P' = lost_flag P1"
    "same_chunks (Os + queued (delivered Capacity P m (set (take (Suc (Suc i)) qs)) Q)) P1 P'"
    unfolding rest(1) D filt by auto
  have "same_chunks (Os + queued (delivered Capacity P m (set (take (Suc (Suc i)) qs)) Q)) P P'"
  proof (rule same_chunks_trans [OF P1(5) P'(5)])
    have "set_mset (queued (delivered Capacity P1 m (set ?t) ?Q1)) \<subseteq> insert m (set_mset (queued ?Q1))"
      using P1(2) by (intro queued_delivered) (simp add: popo_rep_def)
    then show "set_mset (Os + queued (delivered Capacity P m (set (take (Suc (Suc i)) qs)) Q)) \<subseteq> set_mset (Os + queued ?Q1)"
      using Suc.prems(2) unfolding D by auto
  qed simp
  then show ?case unfolding dd using P' P1(3,4) by (auto simp: split rest(5) of_nat_Suc)
qed

text \<open>
  What the other threads do in one round of waiting: anything that keeps the state consistent, with at most \<open>c\<close> steps of the counters, and that leaves
  alone the chunks \<open>F\<close> of the sending application. They may take chunks from the queues, and connect and disconnect queues.
\<close>

type_synonym other_threads = "chunk_distributor_data \<times> popo_state \<Rightarrow> chunk_distributor_data \<times> popo_state"

definition others_ok :: "u64 \<Rightarrow> nat \<Rightarrow> address multiset \<Rightarrow> other_threads \<Rightarrow> bool" where
  "others_ok Capacity c F others \<longleftrightarrow>
     (\<forall>b D P Q hs Os. popo_rep Capacity (b + c) P Q (mset hs + (F + Os)) \<longrightarrow> distributor_ok D Q hs \<longrightarrow>
        (\<exists>D' P' Q' hs' Os'. others (D, P) = (D', P') \<and> popo_rep Capacity b P' Q' (mset hs' + (F + Os')) \<and>
           distributor_ok D' Q' hs' \<and> same_chunks F P P'))"

text \<open>
  The rounds of a delivery of the chunk \<open>m\<close> to the queues \<open>A\<close>, which were full. A round starts from the state \<open>D1\<close>, \<open>P1\<close> that the other threads have
  left, with the queue contents \<open>Q1\<close>. The queues of \<open>A\<close> that are still connected, \<open>B\<close>, get the chunk as specified, and those of them that were full
  again remain for the next round. The result is the state at the end, with the queues that were never served and the number of deliveries.
\<close>

inductive delivery_rounds ::
  "u64 \<Rightarrow> address multiset \<Rightarrow> address \<Rightarrow> other_threads list \<Rightarrow> address set \<Rightarrow> nat \<Rightarrow> chunk_distributor_data \<Rightarrow> popo_state \<Rightarrow> queue_contents \<Rightarrow>
     address list \<Rightarrow> address multiset \<Rightarrow>
     address set \<times> nat \<times> chunk_distributor_data \<times> popo_state \<times> queue_contents \<times> address list \<times> address multiset \<Rightarrow> bool"
  for Capacity F m where
  all_served: "delivery_rounds Capacity F m rounds {} n D P Q hs Os ({}, n, D, P, Q, hs, Os)"
| still_waiting: "delivery_rounds Capacity F m [] A n D P Q hs Os (A, n, D, P, Q, hs, Os)" if "A \<noteq> {}"
| next_round: "delivery_rounds Capacity F m (others # rounds) A n D P Q hs Os R"
    if "A \<noteq> {}" "others (D, P) = (D1, P1)" "same_chunks F P P1"
      "popo_rep Capacity b P1 Q1 (mset hs1 + (F + Os1))" "distributor_ok D1 Q1 hs1"
      "B = A \<inter> set (cdd_queues D1)" "A' = {q \<in> B. queue_full Capacity P1 Q1 q}"
      "popo_rep Capacity b' P2 (delivered Capacity P1 m B Q1) (mset hs1 + (F + Os1))"
      "queue_static Capacity P2 = queue_static Capacity P1" "lost_flag P2 = lost_flag P1"
      "same_chunks (mset hs1 + (F + Os1) + queued (delivered Capacity P1 m B Q1)) P1 P2"
      "delivery_rounds Capacity F m rounds A' (n + card (B - A')) (D1\<lparr> cdd_queues := sort (cdd_queues D1) \<rparr>) P2
        (delivered Capacity P1 m B Q1) hs1 Os1 R"

lemma distributor_ok_sort:
  "distributor_ok D Q hs \<Longrightarrow> distributor_ok (D\<lparr> cdd_queues := sort (cdd_queues D) \<rparr>) Q hs"
  by (simp add: distributor_ok_def)

lemma dom_delivered [simp]: "dom (delivered Capacity P m A Q) = dom Q"
  by (auto simp: delivered_def split: if_splits)

lemma distributor_ok_delivered: "distributor_ok D (delivered Capacity P m A Q) hs = distributor_ok D Q hs"
  by (simp add: distributor_ok_def)

lemma wait_for_consumers_ok:
  assumes "popo_rep Capacity (b + length rounds * (c + 2 * k)) P Q (mset hs + (F + Os))" "m \<in># F" "distributor_ok D Q hs"
    "distinct remaining" "length remaining \<le> k" "\<forall>others\<in>set rounds. others_ok Capacity c F others"
  shows "\<exists>A n' D' P' Q' hs' Os'. delivery_rounds Capacity F m rounds (set remaining) n D P Q hs Os (A, n', D', P', Q', hs', Os') \<and>
    wait_for_consumers Capacity (Some m) rounds remaining (of_nat n) D P =
      (if A = {} then Inr (of_nat n', D', P') else Inl NO_RETURN) \<and>
    popo_rep Capacity b P' Q' (mset hs' + (F + Os')) \<and> distributor_ok D' Q' hs' \<and> same_chunks F P P'"
  using assms
proof (induction rounds arbitrary: remaining n D P Q hs Os)
  case Nil
  then show ?case by (cases "remaining = []") (fastforce intro: all_served still_waiting)+
next
  case (Cons others rounds)
  show ?case
  proof (cases "remaining = []")
    case True
    have "popo_rep Capacity b P Q (mset hs + (F + Os))" by (rule popo_rep_mono [OF Cons.prems(1)]) simp
    then show ?thesis using True Cons.prems(3) by (fastforce intro: all_served)
  next
    case False
    let ?b = "b + length rounds * (c + 2 * k)"
    have "popo_rep Capacity ((?b + 2 * k) + c) P Q (mset hs + (F + Os))" using Cons.prems(1) by (simp add: algebra_simps)
    then obtain D1 P1 Q1 hs1 Os1 where 1: "others (D, P) = (D1, P1)" "popo_rep Capacity (?b + 2 * k) P1 Q1 (mset hs1 + (F + Os1))"
      "distributor_ok D1 Q1 hs1" "same_chunks F P P1"
      using Cons.prems(3,6) unfolding others_ok_def by (metis list.set_intros(1))
    define B where "B = set_intersection (sort (cdd_queues D1)) (sort remaining)"
    have D1: "distinct (cdd_queues D1)" "set (cdd_queues D1) \<subseteq> dom Q1" "\<not> cdd_lockedByOther D1"
      using 1(3) by (simp_all add: distributor_ok_def)
    have B: "set B = set remaining \<inter> set (cdd_queues D1)" "distinct B"
      using set_intersection_sorted [of "sort (cdd_queues D1)" "sort remaining"] D1(1) Cons.prems(4) by (auto simp: B_def)
    have len: "length B \<le> k"
    proof -
      have "length B = card (set B)" using B(2) by (simp add: distinct_card)
      also have "\<dots> \<le> length remaining" unfolding B(1) by (meson List.finite_set card_length card_mono inf_le1 le_trans)
      finally show ?thesis using Cons.prems(5) by simp
    qed
    let ?Q2 = "delivered Capacity P1 m (set B) Q1" and ?full = "queue_full Capacity P1 Q1"
    have "\<exists>P2. deliver_down Capacity (Some m) (length B - 1) B (of_nat n) P1 =
        Inr (of_nat n + of_nat (length (filter (\<lambda>q. \<not> ?full q) B)), filter ?full B, P2) \<and>
      popo_rep Capacity ?b P2 ?Q2 (mset hs1 + (F + Os1)) \<and> queue_static Capacity P2 = queue_static Capacity P1 \<and>
      lost_flag P2 = lost_flag P1 \<and> same_chunks (mset hs1 + (F + Os1) + queued ?Q2) P1 P2"
    proof (cases "B = []")
      case True
      have "popo_rep Capacity ?b P1 Q1 (mset hs1 + (F + Os1))" by (rule popo_rep_mono [OF 1(2)]) simp
      with True show ?thesis by simp
    next
      case False
      then have l: "Suc (length B - 1) = length B" by simp
      have "popo_rep Capacity (?b + 2 * Suc (length B - 1)) P1 Q1 (mset hs1 + (F + Os1))"
        by (rule popo_rep_mono [OF 1(2)]) (use len l in simp)
      from deliver_down_ok [OF this _ B(2), of m "of_nat n"] False B(1) D1(2) Cons.prems(2) show ?thesis
        unfolding l by (auto simp: le_infI2)
    qed
    then obtain P2 where P2: "deliver_down Capacity (Some m) (length B - 1) B (of_nat n) P1 =
        Inr (of_nat n + of_nat (length (filter (\<lambda>q. \<not> ?full q) B)), filter ?full B, P2)"
      "popo_rep Capacity ?b P2 ?Q2 (mset hs1 + (F + Os1))" "queue_static Capacity P2 = queue_static Capacity P1"
      "lost_flag P2 = lost_flag P1" "same_chunks (mset hs1 + (F + Os1) + queued ?Q2) P1 P2" by blast
    let ?D = "D1\<lparr> cdd_queues := sort (cdd_queues D1) \<rparr>" and ?n = "n + card (set B - {q \<in> set B. ?full q})"
    have cnt: "of_nat n + of_nat (length (filter (\<lambda>q. \<not> ?full q) B)) = (of_nat ?n :: u64)"
    proof -
      have "{q \<in> set B. \<not> ?full q} = set B - {q \<in> set B. ?full q}" by auto
      then show ?thesis by (simp add: card_filter_set [OF B(2)])
    qed
    have "distributor_ok ?D ?Q2 hs1" using 1(3) by (simp add: distributor_ok_delivered distributor_ok_sort)
    from Cons.IH [OF P2(2) Cons.prems(2) this, of "filter ?full B" ?n] B(2) len Cons.prems(6) length_filter_le [of ?full B]
    obtain A n' D' P' Q' hs' Os' where IH: "delivery_rounds Capacity F m rounds {q \<in> set B. ?full q} ?n ?D P2 ?Q2 hs1 Os1 (A, n', D', P', Q', hs', Os')"
      "wait_for_consumers Capacity (Some m) rounds (filter ?full B) (of_nat ?n) ?D P2 = (if A = {} then Inr (of_nat n', D', P') else Inl NO_RETURN)"
      "popo_rep Capacity b P' Q' (mset hs' + (F + Os'))" "distributor_ok D' Q' hs'" "same_chunks F P2 P'"
      by auto
    have ne: "set remaining \<noteq> {}" using False by simp
    have "delivery_rounds Capacity F m (others # rounds) (set remaining) n D P Q hs Os (A, n', D', P', Q', hs', Os')"
      by (rule next_round [where others = others and D = D and P = P, OF ne 1(1,4,2,3) B(1) refl P2(2,3,4,5) IH(1)])
    moreover have "wait_for_consumers Capacity (Some m) (others # rounds) remaining (of_nat n) D P =
        (if A = {} then Inr (of_nat n', D', P') else Inl NO_RETURN)"
      using False D1(3) P2(1) IH(2) unfolding cnt by (simp add: 1(1) locked_def Let_def flip: B_def)
    moreover have "same_chunks F P P'"
      using 1(4) P2(5) IH(5) by (simp add: same_chunks_def)
    ultimately show ?thesis using IH(3,4) by blast
  qed
qed

text \<open>The whole delivery: the first pass, the rounds of waiting, and the history.\<close>

lemma deliver_to_all_rounds:
  assumes "popo_rep Capacity (b + length rounds * (c + 2 * length (cdd_queues D)) + 2 * length (cdd_queues D) + 1) P Q (mset hs + (F + Os))"
    and "m \<in># F" "distributor_ok D Q hs" "\<forall>others\<in>set rounds. others_ok Capacity c F others"
  shows "\<exists>P1 A n D2 P2 Q2 hs2 Os2.
    popo_rep Capacity (b + 1) P1 (delivered Capacity P m (set (cdd_queues D)) Q) (mset hs + (F + Os)) \<and>
    queue_static Capacity P1 = queue_static Capacity P \<and>
    (\<forall>q. lost_flag P1 q = (lost_flag P q \<or> q \<in> set (cdd_queues D) \<and> queue_full Capacity P Q q \<and>
       \<not> waits Capacity (cdd_consumerTooSlowPolicy D = WAIT_FOR_CONSUMER) P Q q)) \<and>
    same_chunks (mset hs + (F + Os) + queued (delivered Capacity P m (set (cdd_queues D)) Q)) P P1 \<and>
    delivery_rounds Capacity F m rounds
      {q \<in> set (cdd_queues D). waits Capacity (cdd_consumerTooSlowPolicy D = WAIT_FOR_CONSUMER) P Q q}
      (card {q \<in> set (cdd_queues D). \<not> waits Capacity (cdd_consumerTooSlowPolicy D = WAIT_FOR_CONSUMER) P Q q})
      D P1 (delivered Capacity P m (set (cdd_queues D)) Q) hs Os (A, n, D2, P2, Q2, hs2, Os2) \<and>
    same_chunks F P P2 \<and> distributor_ok D2 Q2 hs2 \<and>
    (A \<noteq> {} \<longrightarrow> deliverToAllStoredQueues Capacity (Some m) rounds D P = Inl NO_RETURN) \<and>
    (A = {} \<longrightarrow> (\<exists>P3. deliverToAllStoredQueues Capacity (Some m) rounds D P =
        Inr (of_nat n, D2\<lparr> cdd_history := map Some (history_spec (unat (cdd_historyCapacity D2)) m hs2) \<rparr>, P3) \<and>
      popo_rep Capacity b P3 Q2 (mset (history_spec (unat (cdd_historyCapacity D2)) m hs2) + (F + Os2)) \<and>
      lost_flag P3 = lost_flag P2 \<and>
      same_chunks (F + Os2 + mset (history_spec (unat (cdd_historyCapacity D2)) m hs2) + queued Q2) P2 P3))"
proof -
  let ?w = "cdd_consumerTooSlowPolicy D = WAIT_FOR_CONSUMER" and ?qs = "cdd_queues D"
  let ?Q = "delivered Capacity P m (set ?qs) Q" and ?wait = "waits Capacity ?w P Q"
  let ?b = "Suc b + length rounds * (c + 2 * length ?qs)"
  have D: "distinct ?qs" "set ?qs \<subseteq> dom Q" "\<not> cdd_lockedByOther D" using assms(3) by (simp_all add: distributor_ok_def)
  have m: "m \<in># mset hs + (F + Os)" using assms(2) by simp
  have "popo_rep Capacity (?b + 2 * length ?qs) P Q (mset hs + (F + Os))" using assms(1) by (simp add: algebra_simps)
  from deliver_loop_ok [OF this m D(1,2), of ?w 0 "[]"] obtain P1 where
    P1: "deliver_loop Capacity ?w (Some m) ?qs 0 [] P = Inr (of_nat (length (filter (\<lambda>q. \<not> ?wait q) ?qs)), filter ?wait ?qs, P1)"
    "popo_rep Capacity ?b P1 ?Q (mset hs + (F + Os))" "queue_static Capacity P1 = queue_static Capacity P"
    "\<forall>q. lost_flag P1 q = (lost_flag P q \<or> q \<in> set ?qs \<and> queue_full Capacity P Q q \<and> \<not> ?wait q)"
    "same_chunks (mset hs + (F + Os) + queued ?Q) P P1" by auto
  have dok: "distributor_ok D ?Q hs" using assms(3) by (simp add: distributor_ok_delivered)
  have "distinct (filter ?wait ?qs)" "length (filter ?wait ?qs) \<le> length ?qs" using D(1) by simp_all
  from wait_for_consumers_ok [OF P1(2) assms(2) dok this assms(4), of "length (filter (\<lambda>q. \<not> ?wait q) ?qs)"]
  obtain A n D2 P2 Q2 hs2 Os2 where W:
    "delivery_rounds Capacity F m rounds {q \<in> set ?qs. ?wait q} (card {q \<in> set ?qs. \<not> ?wait q}) D P1 ?Q hs Os (A, n, D2, P2, Q2, hs2, Os2)"
    "wait_for_consumers Capacity (Some m) rounds (filter ?wait ?qs) (of_nat (length (filter (\<lambda>q. \<not> ?wait q) ?qs))) D P1 =
      (if A = {} then Inr (of_nat n, D2, P2) else Inl NO_RETURN)"
    "popo_rep Capacity (Suc b) P2 Q2 (mset hs2 + (F + Os2))" "distributor_ok D2 Q2 hs2" "same_chunks F P1 P2"
    by (auto simp: card_filter_set [OF D(1)])
  have run: "deliverToAllStoredQueues Capacity (Some m) rounds D P =
      (if A = {} then obind (addToHistoryWithoutDelivery (Some m) D2 P2) (\<lambda>(D3, P3). Inr (of_nat n, D3, P3)) else Inl NO_RETURN)"
    using D(3) P1(1) W(2) by (simp add: deliverToAllStoredQueues_def locked_def)
  have "m \<in># F + Os2" using assms(2) by simp
  from addToHistory_ok [OF W(3) this W(4)] obtain P3 where P3:
    "addToHistoryWithoutDelivery (Some m) D2 P2 =
      Inr (D2\<lparr> cdd_history := map Some (history_spec (unat (cdd_historyCapacity D2)) m hs2) \<rparr>, P3)"
    "popo_rep Capacity b P3 Q2 (mset (history_spec (unat (cdd_historyCapacity D2)) m hs2) + (F + Os2))"
    "lost_flag P3 = lost_flag P2"
    "same_chunks (F + Os2 + mset (history_spec (unat (cdd_historyCapacity D2)) m hs2) + queued Q2) P2 P3" by blast
  have "popo_rep Capacity (b + 1) P1 ?Q (mset hs + (F + Os))" by (rule popo_rep_mono [OF P1(2)]) simp
  moreover have "same_chunks F P P2" by (rule same_chunks_trans [OF P1(5) W(5)]) auto
  ultimately show ?thesis using P1(3-5) W(1,4) run P3
    by (intro exI [of _ P1] exI [of _ A] exI [of _ n] exI [of _ D2] exI [of _ P2] exI [of _ Q2] exI [of _ hs2] exI [of _ Os2]) simp
qed

text \<open>Other threads that leave no connected queue full, for instance because the consumer reads or disconnects.\<close>

definition makes_room :: "u64 \<Rightarrow> other_threads \<Rightarrow> bool" where
  "makes_room Capacity others \<longleftrightarrow>
     (\<forall>D P D' P' b Q Os. others (D, P) = (D', P') \<longrightarrow> popo_rep Capacity b P' Q Os \<longrightarrow>
        (\<forall>q\<in>set (cdd_queues D'). \<not> queue_full Capacity P' Q q))"

lemma delivery_rounds_room:
  assumes "delivery_rounds Capacity F m rounds A n D P Q hs Os R" "\<exists>others\<in>set rounds. makes_room Capacity others"
  shows "fst R = {}"
  using assms
proof (induction rule: delivery_rounds.induct)
  case (next_round A others D P D1 P1 b Q1 hs1 Os1 B A' b' P2 rounds n R Q hs Os)
  show ?case
  proof (cases "makes_room Capacity others")
    case True
    then have "A' = {}" using next_round(2,4,6,7) unfolding makes_room_def by blast
    with next_round(12) show ?thesis by (cases rule: delivery_rounds.cases) simp_all
  next
    case False
    then show ?thesis using next_round(13,14) by simp
  qed
qed simp_all

inductive_cases delivery_rounds_one: "delivery_rounds Capacity F m [others] A n D P Q hs Os R"

subsection \<open>Properties\<close>

text \<open>
  C7: the delivery of a chunk \<open>m\<close> to all connected queues, with any number of rounds of waiting. In the first pass every connected
  queue gets the chunk exactly as the list specification of its type says and every other queue keeps its content; the lost-chunk flag
  is set for exactly the queues that overflowed and do not block the producer. The call then waits for the blocking queues that were full: in each
  round those that are still connected get the chunk, and only those that were full again remain, whatever the other threads do in between as long
  as they keep the state consistent. The call returns if and only if no queue remains, in particular if in one round the other threads leave no
  queue full; the number of deliveries is returned, the history holds the newest chunks, the reference counters account for all of this, and no
  chunk in use is changed.
\<close>

theorem deliver_to_all_queues_correct:
  assumes "popo_rep Capacity (b + length rounds * (c + 2 * length (cdd_queues D)) + 2 * length (cdd_queues D) + 1) P Q (mset hs + (F + Os))"
    and "m \<in># F" "distributor_ok D Q hs" "\<forall>others\<in>set rounds. others_ok Capacity c F others"
  shows "\<exists>P1 A n D2 P2 Q2 hs2 Os2.
    popo_rep Capacity (b + 1) P1 (delivered Capacity P m (set (cdd_queues D)) Q) (mset hs + (F + Os)) \<and>
    queue_static Capacity P1 = queue_static Capacity P \<and>
    (\<forall>q. lost_flag P1 q = (lost_flag P q \<or> q \<in> set (cdd_queues D) \<and> queue_full Capacity P Q q \<and>
       \<not> waits Capacity (cdd_consumerTooSlowPolicy D = WAIT_FOR_CONSUMER) P Q q)) \<and>
    same_chunks (mset hs + (F + Os) + queued (delivered Capacity P m (set (cdd_queues D)) Q)) P P1 \<and>
    delivery_rounds Capacity F m rounds
      {q \<in> set (cdd_queues D). waits Capacity (cdd_consumerTooSlowPolicy D = WAIT_FOR_CONSUMER) P Q q}
      (card {q \<in> set (cdd_queues D). \<not> waits Capacity (cdd_consumerTooSlowPolicy D = WAIT_FOR_CONSUMER) P Q q})
      D P1 (delivered Capacity P m (set (cdd_queues D)) Q) hs Os (A, n, D2, P2, Q2, hs2, Os2) \<and>
    same_chunks F P P2 \<and> ((\<exists>others\<in>set rounds. makes_room Capacity others) \<longrightarrow> A = {}) \<and>
    (A \<noteq> {} \<longrightarrow> deliverToAllStoredQueues Capacity (Some m) rounds D P = Inl NO_RETURN) \<and>
    (A = {} \<longrightarrow> (\<exists>P3. deliverToAllStoredQueues Capacity (Some m) rounds D P =
        Inr (of_nat n, D2\<lparr> cdd_history := map Some (history_spec (unat (cdd_historyCapacity D2)) m hs2) \<rparr>, P3) \<and>
      popo_rep Capacity b P3 Q2 (mset (history_spec (unat (cdd_historyCapacity D2)) m hs2) + (F + Os2)) \<and>
      lost_flag P3 = lost_flag P2 \<and>
      same_chunks (F + Os2 + mset (history_spec (unat (cdd_historyCapacity D2)) m hs2) + queued Q2) P2 P3))"
  using deliver_to_all_rounds [OF assms] delivery_rounds_room [of Capacity F m rounds] by (metis (no_types, lifting) fst_conv)

definition example_distributor :: chunk_distributor_data where
  "example_distributor = (ChunkDistributorData_ctor 16 WAIT_FOR_CONSUMER 1)\<lparr> cdd_queues := [0x100, 0x200] \<rparr>"

lemma example_queue_cap:
  "queue_cap 2 (example_popo S) 0x100 = 2" "queue_cap 2 (example_popo S) 0x200 = 2"
  using VariantQueue_ctor_rep(2) [of 2 0]
  by (simp_all add: queue_cap_def queue_static_def example_popo_def ChunkQueueData_ctor_def)

text \<open>
  Two queues that hold two chunks each, which is their capacity; the second one blocks the producer, who waits until the queues are disconnected.
\<close>

definition disconnect_all :: other_threads where
  "disconnect_all = (\<lambda>(D, P). (D\<lparr> cdd_queues := [] \<rparr>, P))"

lemma disconnect_all_ok: "others_ok Capacity 0 F disconnect_all" "makes_room Capacity disconnect_all"
  by (auto simp: others_ok_def makes_room_def disconnect_all_def distributor_ok_def)

lemma example_full_queues:
  assumes "b < 900"
  obtains m S P where "MemoryManager_getChunk example_settings example_shm = Inr (Inr (Some m), S)"
    "popo_rep 2 b P [0x100 \<mapsto> [m, m], 0x200 \<mapsto> [m, m]] (mset [m] + {#m#})"
    "queue_static 2 P = queue_static 2 (example_popo S)"
    "distributor_ok (example_distributor\<lparr> cdd_history := [Some m] \<rparr>) [0x100 \<mapsto> [m, m], 0x200 \<mapsto> [m, m]] [m]"
proof -
  let ?D = example_distributor and ?Q = "[0x100 \<mapsto> [], 0x200 \<mapsto> []] :: queue_contents"
  obtain m S where S: "MemoryManager_getChunk example_settings example_shm = Inr (Inr (Some m), S)"
    "popo_rep 2 (b + 10) (example_popo S) ?Q {#m#}" by (rule example_popo_rep [of "b + 10"]) (use assms in simp)
  let ?P = "example_popo S" and ?h = "[m]"
  let ?Q1 = "[0x100 \<mapsto> [m], 0x200 \<mapsto> [m]] :: queue_contents" and ?Q2 = "[0x100 \<mapsto> [m, m], 0x200 \<mapsto> [m, m]] :: queue_contents"
  have D: "cdd_queues ?D = [0x100, 0x200]" by (simp add: example_distributor_def)
  have d1: "delivered 2 ?P m {0x100, 0x200} ?Q = ?Q1" "delivered 2 ?P m {0x100, 0x200} ?Q1 = ?Q2"
    by (auto simp: delivered_def fun_eq_iff push_spec_def example_queue_cap)
  have m1: "m \<in># {#m#}" by simp
  have q: "distinct [0x100, 0x200 :: address]" "set [0x100, 0x200] \<subseteq> dom ?Q" "set [0x100, 0x200] \<subseteq> dom ?Q1" by auto
  have S2: "popo_rep 2 (b + 5 + 2 * length [0x100, 0x200 :: address]) ?P ?Q {#m#}" by (rule popo_rep_mono [OF S(2)]) simp
  obtain P1 where P1: "popo_rep 2 (b + 5) P1 (delivered 2 ?P m (set [0x100, 0x200]) ?Q) {#m#}" "queue_static 2 P1 = queue_static 2 ?P"
    using deliver_loop_ok [OF S2 m1 q(1,2), of False 0 "[]"] by blast
  have S3: "popo_rep 2 (Suc b + 2 * length [0x100, 0x200 :: address]) P1 ?Q1 {#m#}"
    using popo_rep_mono [OF P1(1)] d1(1) by simp
  obtain P2 where "popo_rep 2 (Suc b) P2 (delivered 2 P1 m (set [0x100, 0x200]) ?Q1) {#m#}" "queue_static 2 P2 = queue_static 2 P1"
    using deliver_loop_ok [OF S3 m1 q(1,3), of False 0 "[]"] by blast
  then have P2: "popo_rep 2 (Suc b) P2 ?Q2 {#m#}" "queue_static 2 P2 = queue_static 2 ?P"
    using d1(2) P1(2) static_cong(4) [OF P1(2)] by simp_all
  have "m \<in># {#m#} + queued ?Q2" by simp
  then obtain S3 where "popo_rep 2 b (P2\<lparr> ps_shm := S3 \<rparr>) ?Q2 (add_mset m {#m#})"
    by (rule popo_clone_ok [OF P2(1)]) blast
  then show thesis
    using that [OF S(1), of "P2\<lparr> ps_shm := S3 \<rparr>"] P2(2)
    by (auto simp: distributor_ok_def example_distributor_def ChunkDistributorData_ctor_def word_le_nat_alt min_def)
qed

lemma deliver_to_all_queues_correct_witness:
  "\<exists>m P D' P'. popo_rep 2 10 P [0x100 \<mapsto> [m, m], 0x200 \<mapsto> [m, m]] {#m, m#} \<and>
     deliverToAllStoredQueues 2 (Some m) [disconnect_all] (example_distributor\<lparr> cdd_history := [Some m] \<rparr>) P = Inr (1, D', P')"
proof -
  let ?D = "\<lambda>m. example_distributor\<lparr> cdd_history := [Some m] \<rparr>"
  obtain m S P where P: "popo_rep 2 19 P [0x100 \<mapsto> [m, m], 0x200 \<mapsto> [m, m]] (mset [m] + ({#m#} + {#}))"
    "queue_static 2 P = queue_static 2 (example_popo S)"
    "distributor_ok (?D m) [0x100 \<mapsto> [m, m], 0x200 \<mapsto> [m, m]] [m]"
    by (rule example_full_queues [of 19]) auto
  let ?Q = "[0x100 \<mapsto> [m, m], 0x200 \<mapsto> [m, m]] :: queue_contents" and ?w = "cdd_consumerTooSlowPolicy (?D m) = WAIT_FOR_CONSUMER"
  have q: "cdd_queues (?D m) = [0x100, 0x200]" "?w" by (simp_all add: example_distributor_def ChunkDistributorData_ctor_def)
  have "queue_blocks 2 P 0x200" "\<not> queue_blocks 2 P 0x100" "queue_cap 2 P 0x200 = 2"
    using static_cong [OF P(2)] example_queue_cap [of S]
    by (simp_all add: queue_blocks_def queue_static_def example_popo_def ChunkQueueData_ctor_def)
  then have w: "{q \<in> set (cdd_queues (?D m)). waits 2 ?w P ?Q q} = {0x200}" "{q \<in> set (cdd_queues (?D m)). \<not> waits 2 ?w P ?Q q} = {0x100}"
    using q by (auto simp: waits_def queue_full_def)
  have "popo_rep 2 (10 + length [disconnect_all] * (0 + 2 * length (cdd_queues (?D m))) + 2 * length (cdd_queues (?D m)) + 1) P ?Q (mset [m] + ({#m#} + {#}))"
    using P(1) q by simp
  from deliver_to_all_queues_correct [OF this _ P(3), of m] disconnect_all_ok
  obtain P1 n D2 P2 Q2 hs2 Os2 D' P' where R: "delivery_rounds 2 {#m#} m [disconnect_all] {0x200} (card {0x100 :: address}) (?D m) P1
      (delivered 2 P m (set (cdd_queues (?D m))) ?Q) [m] {#} ({}, n, D2, P2, Q2, hs2, Os2)"
    "deliverToAllStoredQueues 2 (Some m) [disconnect_all] (?D m) P = Inr (of_nat n, D', P')"
    unfolding w by (auto simp del: mset.simps)
  from R(1) have "n = 1"
    by (rule delivery_rounds_one) (auto simp: disconnect_all_def elim: delivery_rounds.cases)
  moreover have "popo_rep 2 10 P ?Q {#m, m#}" using popo_rep_mono [OF P(1), of 10] by simp
  ultimately show ?thesis using R(2) by auto
qed

subsection \<open>Late joiners\<close>

text \<open>A queue of capacity \<open>n\<close> with the chunks \<open>ms\<close>, after the chunks \<open>hs\<close> were pushed: if not all fit, an overwriting queue keeps the newest and a FiFo the oldest.\<close>

definition pushed_spec :: "bool \<Rightarrow> nat \<Rightarrow> address list \<Rightarrow> address list \<Rightarrow> address list" where
  "pushed_spec ow n hs ms = (if ow then drop (length ms + length hs - n) (ms @ hs) else take n (ms @ hs))"

lemma pushed_spec_room: "length ms + length hs \<le> n \<Longrightarrow> pushed_spec ow n hs ms = ms @ hs"
  by (simp add: pushed_spec_def)

lemma fold_push_spec:
  "length ms \<le> n \<Longrightarrow> 0 < n \<Longrightarrow> fold (\<lambda>h ms. snd (push_spec ow n h ms)) hs ms = pushed_spec ow n hs ms"
proof (induction hs arbitrary: ms)
  case Nil
  then show ?case by (simp add: pushed_spec_def)
next
  case (Cons h hs)
  show ?case
  proof (cases "length ms < n")
    case True
    then show ?thesis using Cons.IH [of "ms @ [h]"] Cons.prems by (simp add: push_spec_def pushed_spec_def)
  next
    case False
    then obtain x xs where "ms = x # xs" using Cons.prems by (cases ms) auto
    then show ?thesis using False Cons.IH [of "xs @ [h]"] Cons.IH [of ms] Cons.prems
      by (cases ow) (auto simp: push_spec_def pushed_spec_def Suc_diff_le)
  qed
qed

lemma popo_rep_cap:
  assumes "popo_rep Capacity b P Q Os" "Q q = Some ms"
  shows "length ms \<le> queue_cap Capacity P q" "0 < queue_cap Capacity P q"
proof -
  obtain cqd where "ps_queues P q = Some cqd" "queue_rep Capacity b (ps_condvars P) cqd ms" by (rule popo_rep_queue [OF assms])
  then show "length ms \<le> queue_cap Capacity P q" "0 < queue_cap Capacity P q"
    using vq.rep_length [of Capacity b "cqd_queue cqd" "map Some ms"]
    by (simp_all add: queue_rep_def queue_cap_def queue_static_def)
qed

lemma push_history_ok:
  assumes "popo_rep Capacity (b + 2 * length hs) P Q Os" "set hs \<subseteq> set_mset Os" "Q q = Some ms"
  shows "\<exists>P'. push_history Capacity q (map Some hs) P = Inr P' \<and>
    popo_rep Capacity b P' (Q(q \<mapsto> fold (\<lambda>h ms. snd (push_spec (queue_overwrites Capacity P q) (queue_cap Capacity P q) h ms)) hs ms)) Os \<and>
    queue_static Capacity P' = queue_static Capacity P \<and> lost_flag P' = lost_flag P \<and>
    (\<forall>x. x \<in># Os \<longrightarrow> chunk_content (ps_shm P') x = chunk_content (ps_shm P) x)"
  using assms
proof (induction hs arbitrary: P Q ms)
  case Nil
  then have "Q(q \<mapsto> ms) = Q" by auto
  with Nil show ?case by simp
next
  case (Cons h hs)
  let ?ms = "snd (push_spec (queue_overwrites Capacity P q) (queue_cap Capacity P q) h ms)"
  have rep: "popo_rep Capacity (Suc (Suc (b + 2 * length hs))) P Q Os" using Cons.prems(1) by simp
  have h: "h \<in># Os" using Cons.prems(2) by simp
  obtain P1 where P1: "pushToQueue Capacity q (Some h) P = Inr (\<not> queue_full Capacity P Q q, P1)"
    "popo_rep Capacity (b + 2 * length hs) P1 (delivered Capacity P h {q} Q) Os"
    "queue_static Capacity P1 = queue_static Capacity P" "lost_flag P1 = lost_flag P"
    "same_chunks (Os + queued (delivered Capacity P h {q} Q)) P P1"
    by (rule pushToQueue_ok [OF rep h Cons.prems(3)])
  have d: "delivered Capacity P h {q} Q = Q(q \<mapsto> ?ms)" by (rule delivered_single) (rule Cons.prems)
  have "push_history Capacity q (map Some (h # hs)) P = push_history Capacity q (map Some hs) P1"
    using P1(1) by (auto simp: pushToQueue_def cloneToSharedChunk_def SharedChunk_copy_def SharedChunk_assign_def
        decrementReferenceCounter_def)
  moreover have "set hs \<subseteq> set_mset Os" "(Q(q \<mapsto> ?ms)) q = Some ?ms" using Cons.prems(2) by auto
  ultimately show ?case
    using Cons.IH [OF P1(2) [unfolded d]] static_cong [OF P1(3)] P1(3,4,5)
    by (auto simp: same_chunks_def simp del: fun_upd_apply push_history.simps)
qed

text \<open>
  C22: a receiver that is connected later is sent, in the order of their publication, as many of the newest chunks of the history as it asks for
  (all of them if there are fewer). If its queue has the room it gets them all, behind what it contains; otherwise an overwriting
  queue keeps the newest chunks and a FiFo the older ones, and the loss is not flagged. The chunks stay in the history, with one more owner for
  each that is in the queue. A queue that is already connected is not changed, and beyond the maximal number of queues an error is returned.
\<close>

theorem late_joiner_gets_history:
  assumes "popo_rep Capacity (b + 2 * length hs) P Q (mset hs + Os)" "distributor_ok D Q hs" "Q q = Some ms"
  shows "let sent = drop (length hs - unat requested) hs;
      Q' = Q(q \<mapsto> pushed_spec (queue_overwrites Capacity P q) (queue_cap Capacity P q) sent ms)
    in (q \<in> set (cdd_queues D) \<longrightarrow> tryAddQueue MaxQueues Capacity q requested D P = Inr (Inr (), D, P)) \<and>
    (q \<notin> set (cdd_queues D) \<and> MaxQueues \<le> length (cdd_queues D) \<longrightarrow>
       tryAddQueue MaxQueues Capacity q requested D P = Inr (Inl QUEUE_CONTAINER_OVERFLOW, D, P)) \<and>
    (q \<notin> set (cdd_queues D) \<and> length (cdd_queues D) < MaxQueues \<longrightarrow>
       (\<exists>P'. tryAddQueue MaxQueues Capacity q requested D P = Inr (Inr (), D\<lparr> cdd_queues := cdd_queues D @ [q] \<rparr>, P') \<and>
          popo_rep Capacity b P' Q' (mset hs + Os) \<and> distributor_ok (D\<lparr> cdd_queues := cdd_queues D @ [q] \<rparr>) Q' hs \<and>
          lost_flag P' = lost_flag P)) \<and>
    (length ms + length sent \<le> queue_cap Capacity P q \<longrightarrow> Q' q = Some (ms @ sent))"
proof -
  let ?hs = "drop (length hs - unat requested) hs"
  let ?ms = "pushed_spec (queue_overwrites Capacity P q) (queue_cap Capacity P q) ?hs ms"
  have D: "\<not> cdd_lockedByOther D" "cdd_history D = map Some hs" using assms(2) by (simp_all add: distributor_ok_def)
  have "popo_rep Capacity (b + 2 * length ?hs) P Q (mset hs + Os)" by (rule popo_rep_mono [OF assms(1)]) simp
  moreover have "set ?hs \<subseteq> set_mset (mset hs + Os)" by (auto dest: in_set_dropD)
  ultimately obtain P' where P': "push_history Capacity q (map Some ?hs) P = Inr P'"
    "popo_rep Capacity b P' (Q(q \<mapsto> ?ms)) (mset hs + Os)" "lost_flag P' = lost_flag P"
    using push_history_ok [of Capacity b ?hs P Q "mset hs + Os" q ms] assms(3) fold_push_spec popo_rep_cap [OF assms(1,3)] by metis
  have "drop (if unat requested \<le> length hs then length hs - unat requested else 0) (cdd_history D) = map Some ?hs"
    by (simp add: D drop_map)
  then have "tryAddQueue MaxQueues Capacity q requested D P =
      (if q \<in> set (cdd_queues D) then Inr (Inr (), D, P)
       else if length (cdd_queues D) < MaxQueues then Inr (Inr (), D\<lparr> cdd_queues := cdd_queues D @ [q] \<rparr>, P')
       else Inr (Inl QUEUE_CONTAINER_OVERFLOW, D, P))"
    using D P'(1) by (simp add: tryAddQueue_def locked_def Let_def)
  moreover have "q \<notin> set (cdd_queues D) \<Longrightarrow> distributor_ok (D\<lparr> cdd_queues := cdd_queues D @ [q] \<rparr>) (Q(q \<mapsto> ?ms)) hs"
    using assms(2,3) by (auto simp: distributor_ok_def)
  ultimately show ?thesis using P' by (auto simp: Let_def pushed_spec_room)
qed

lemma late_joiner_gets_history_witness:
  "\<exists>m S P'. MemoryManager_getChunk example_settings example_shm = Inr (Inr (Some m), S) \<and>
     tryAddQueue 4 2 0x100 5 ((ChunkDistributorData_ctor 16 WAIT_FOR_CONSUMER 1)\<lparr> cdd_history := [Some m] \<rparr>) (example_popo S) =
       Inr (Inr (), (ChunkDistributorData_ctor 16 WAIT_FOR_CONSUMER 1)\<lparr> cdd_history := [Some m], cdd_queues := [0x100] \<rparr>, P') \<and>
     popo_rep 2 10 P' [0x100 \<mapsto> [m], 0x200 \<mapsto> []] {#m#}"
proof -
  let ?D = "(ChunkDistributorData_ctor 16 WAIT_FOR_CONSUMER 1)" and ?Q = "[0x100 \<mapsto> [], 0x200 \<mapsto> []] :: queue_contents"
  obtain m S where S: "MemoryManager_getChunk example_settings example_shm = Inr (Inr (Some m), S)"
    "popo_rep 2 12 (example_popo S) ?Q {#m#}" by (rule example_popo_rep [of 12]) simp
  let ?D1 = "?D\<lparr> cdd_history := [Some m] \<rparr>"
  have D: "distributor_ok ?D1 ?Q [m]" "cdd_queues ?D1 = []"
    by (auto simp: ChunkDistributorData_ctor_def distributor_ok_def word_le_nat_alt min_def)
  have "popo_rep 2 (10 + 2 * length [m]) (example_popo S) ?Q (mset [m] + {#})" using S(2) by simp
  from late_joiner_gets_history [OF this D(1), of "0x100" "[]" 5 4] S(1) show ?thesis
    by (auto simp: example_queue_cap D(2) fun_upd_twist pushed_spec_room Let_def)
qed

end
