(* ===== verification/Chunk_Sender.thy ===== *)
theory Chunk_Sender
  imports Chunk_Distributor
begin

section \<open>The chunk sender\<close>

text \<open>
  \<open>popo::ChunkSenderData\<close> and \<open>popo::ChunkSender\<close> (\<open>chunk_sender_data.hpp\<close>, \<open>chunk_sender.inl\<close>): the
  allocation of chunks for an application, their delivery by the distributor, the reuse of the last
  sent chunk, and the clean-up. The memory manager that \<open>m_memoryMgr\<close> points to is the one of the
  shared memory. \<open>MaxAlloc\<close> is the template parameter \<open>MaxChunksAllocatedSimultaneously\<close>.

  Local \<open>SharedChunk\<close> variables are destroyed where their scope ends; a copy that is passed by value
  belongs to the callee.
\<close>

datatype allocation_error =
    UNDEFINED_ERROR
  | ALLOCATION_NO_MEMPOOLS_AVAILABLE
  | RUNNING_OUT_OF_CHUNKS
  | TOO_MANY_CHUNKS_ALLOCATED_IN_PARALLEL
  | INVALID_PARAMETER_FOR_USER_PAYLOAD_OR_USER_HEADER
  | INVALID_PARAMETER_FOR_REQUEST_HEADER

fun allocation_error_from :: "memory_manager_error \<Rightarrow> allocation_error" where
  "allocation_error_from NO_MEMPOOLS_AVAILABLE = ALLOCATION_NO_MEMPOOLS_AVAILABLE"
| "allocation_error_from NO_MEMPOOL_FOR_REQUESTED_CHUNK_SIZE = ALLOCATION_NO_MEMPOOLS_AVAILABLE"
| "allocation_error_from MEMPOOL_OUT_OF_CHUNKS = RUNNING_OUT_OF_CHUNKS"

record chunk_sender_data =
  csd_distributor :: chunk_distributor_data
  csd_chunksInUse :: used_chunk_list
  csd_sequenceNumber :: u64
  csd_lastChunkUnmanaged :: shm_safe_unmanaged_chunk

definition ChunkSenderData_ctor ::
  "u32 \<Rightarrow> u64 \<Rightarrow> consumer_too_slow_policy \<Rightarrow> u64 \<Rightarrow> u32 list \<Rightarrow> shm \<Rightarrow> (chunk_sender_data \<times> shm) outcome" where
  "ChunkSenderData_ctor MaxAlloc MaxHistory consumerTooSlowPolicy historyCapacity indices S =
     obind (UsedChunkList_ctor MaxAlloc indices S) (\<lambda>(l, S').
     Inr (\<lparr> csd_distributor = ChunkDistributorData_ctor MaxHistory consumerTooSlowPolicy historyCapacity,
            csd_chunksInUse = l, csd_sequenceNumber = 0, csd_lastChunkUnmanaged = None \<rparr>, S'))"

text \<open>A write to the header at an address.\<close>

definition update_header :: "address \<Rightarrow> (chunk_header \<Rightarrow> chunk_header) \<Rightarrow> shm \<Rightarrow> shm outcome" where
  "update_header a f S =
     (case shm_headers S a of None \<Rightarrow> Inl NULLPTR_ACCESS
      | Some h \<Rightarrow> Inr (S\<lparr> shm_headers := (shm_headers S)(a \<mapsto> f h) \<rparr>))"

text \<open>\<open>insert\<close> of a copy of a local chunk into the list of chunks in use.\<close>

definition insert_copy ::
  "u32 \<Rightarrow> shared_chunk \<Rightarrow> used_chunk_list \<Rightarrow> shm \<Rightarrow> (bool \<times> used_chunk_list \<times> shm) outcome" where
  "insert_copy MaxInUse chunk l S =
     obind (SharedChunk_copy chunk S) (\<lambda>(copy, S1). UsedChunkList_insert MaxInUse copy l S1)"

text \<open>The branch of \<open>tryAllocate\<close> that reuses the last chunk, whose header is at \<open>a\<close>.\<close>

definition reuse_last_chunk ::
  "u32 \<Rightarrow> chunk_settings \<Rightarrow> address \<Rightarrow> chunk_header \<Rightarrow> chunk_sender_data \<Rightarrow> shm \<Rightarrow>
     ((allocation_error + address) \<times> chunk_sender_data \<times> shm) outcome" where
  "reuse_last_chunk MaxAlloc chunkSettings a h X S =
     obind (cloneToSharedChunk (csd_lastChunkUnmanaged X) S) (\<lambda>(sharedChunk, S1).
     obind (insert_copy MaxAlloc sharedChunk (csd_chunksInUse X) S1) (\<lambda>(ok, l, S2).
       let X' = X\<lparr> csd_chunksInUse := l \<rparr> in
       if ok
       then (let chunkSize = ch_chunkSize h
             in obind (ChunkHeader_new a chunkSize chunkSettings (shm_offsets S2)) (\<lambda>(h', offs).
                obind (SharedChunk_dtor sharedChunk
                         (S2\<lparr> shm_headers := (shm_headers S2)(a \<mapsto> h'), shm_offsets := offs \<rparr>)) (\<lambda>S3.
                Inr (Inr a, X', S3))))
       else obind (SharedChunk_dtor sharedChunk S2) (\<lambda>S3.
            Inr (Inl TOO_MANY_CHUNKS_ALLOCATED_IN_PARALLEL, X', S3))))"

text \<open>The branch that gets a new chunk.\<close>

definition allocate_new_chunk ::
  "u32 \<Rightarrow> u64 \<Rightarrow> chunk_settings \<Rightarrow> chunk_sender_data \<Rightarrow> shm \<Rightarrow>
     ((allocation_error + address) \<times> chunk_sender_data \<times> shm) outcome" where
  "allocate_new_chunk MaxAlloc originId chunkSettings X S =
     obind (MemoryManager_getChunk chunkSettings S) (\<lambda>(getChunkResult, S1).
       case getChunkResult of
         Inl e \<Rightarrow> Inr (Inl (allocation_error_from e), X, S1)
       | Inr chunk \<Rightarrow>
           obind (insert_copy MaxAlloc chunk (csd_chunksInUse X) S1) (\<lambda>(ok, l, S2).
             let X' = X\<lparr> csd_chunksInUse := l \<rparr> in
             if ok
             then (case SharedChunk_getChunkHeader chunk S2 of None \<Rightarrow> Inl NULLPTR_ACCESS
                   | Some a \<Rightarrow>
                       obind (update_header a (setOriginId originId) S2) (\<lambda>S3.
                       obind (SharedChunk_dtor chunk S3) (\<lambda>S4.
                       Inr (Inr a, X', S4))))
             else obind (SharedChunk_dtor chunk S2) (\<lambda>S3.
                  Inr (Inl TOO_MANY_CHUNKS_ALLOCATED_IN_PARALLEL, X', S3))))"

definition ChunkSender_tryAllocate ::
  "u32 \<Rightarrow> u64 \<Rightarrow> u32 \<Rightarrow> u32 \<Rightarrow> u32 \<Rightarrow> u32 \<Rightarrow> chunk_sender_data \<Rightarrow> shm \<Rightarrow>
     ((allocation_error + address) \<times> chunk_sender_data \<times> shm) outcome" where
  "ChunkSender_tryAllocate MaxAlloc originId userPayloadSize userPayloadAlignment userHeaderSize userHeaderAlignment X S =
     (case ChunkSettings_create userPayloadSize userPayloadAlignment userHeaderSize userHeaderAlignment of
        Inl _ \<Rightarrow> Inr (Inl INVALID_PARAMETER_FOR_USER_PAYLOAD_OR_USER_HEADER, X, S)
      | Inr chunkSettings \<Rightarrow>
          (let requiredChunkSize = cs_requiredChunkSize chunkSettings;
               lastChunkUnmanaged = csd_lastChunkUnmanaged X;
               lastChunkChunkHeader =
                 (if isNotLogicalNullptrAndHasNoOtherOwners lastChunkUnmanaged S
                  then unmanaged_getChunkHeader lastChunkUnmanaged S else None)
           in case lastChunkChunkHeader of
                None \<Rightarrow> allocate_new_chunk MaxAlloc originId chunkSettings X S
              | Some a \<Rightarrow>
                  (case shm_headers S a of None \<Rightarrow> Inl NULLPTR_ACCESS
                   | Some h \<Rightarrow>
                       if ch_chunkSize h \<ge> requiredChunkSize
                       then reuse_last_chunk MaxAlloc chunkSettings a h X S
                       else allocate_new_chunk MaxAlloc originId chunkSettings X S)))"

definition ChunkSender_release ::
  "u32 \<Rightarrow> address pointer \<Rightarrow> chunk_sender_data \<Rightarrow> shm \<Rightarrow> (chunk_sender_data \<times> shm) outcome" where
  "ChunkSender_release MaxAlloc chunkHeader X S =
     obind (UsedChunkList_remove MaxAlloc chunkHeader None (csd_chunksInUse X) S) (\<lambda>(removed, chunk, l, S1).
       let continue = obind (SharedChunk_dtor chunk S1) (\<lambda>S2. Inr (X\<lparr> csd_chunksInUse := l \<rparr>, S2))
       in if \<not> removed then errorHandler (POPO POPO__CHUNK_SENDER_INVALID_CHUNK_TO_FREE_FROM_USER) SEVERE continue
          else continue)"

definition getChunkReadyForSend ::
  "u32 \<Rightarrow> address pointer \<Rightarrow> chunk_sender_data \<Rightarrow> shm \<Rightarrow> (bool \<times> shared_chunk \<times> chunk_sender_data \<times> shm) outcome" where
  "getChunkReadyForSend MaxAlloc chunkHeader X S =
     obind (UsedChunkList_remove MaxAlloc chunkHeader None (csd_chunksInUse X) S) (\<lambda>(removed, chunk, l, S1).
       if removed
       then (case SharedChunk_getChunkHeader chunk S1 of None \<Rightarrow> Inl NULLPTR_ACCESS
             | Some a \<Rightarrow>
                 obind (update_header a (setSequenceNumber (csd_sequenceNumber X)) S1) (\<lambda>S2.
                 Inr (True, chunk,
                      X\<lparr> csd_chunksInUse := l, csd_sequenceNumber := csd_sequenceNumber X + 1 \<rparr>, S2)))
       else errorHandler (POPO POPO__CHUNK_SENDER_INVALID_CHUNK_TO_SEND_FROM_USER) SEVERE
              (Inr (False, chunk, X\<lparr> csd_chunksInUse := l \<rparr>, S1)))"

text \<open>
  The end of the three sending operations: the last chunk is released, the sent chunk becomes the
  last chunk, and the local variable goes out of scope.
\<close>

definition remember_last_chunk :: "shared_chunk \<Rightarrow> chunk_sender_data \<Rightarrow> shm \<Rightarrow> (chunk_sender_data \<times> shm) outcome" where
  "remember_last_chunk chunk X S =
     (case releaseToSharedChunk (csd_lastChunkUnmanaged X) of (temporary, _) \<Rightarrow>
      obind (SharedChunk_dtor temporary S) (\<lambda>S1.
      obind (SharedChunk_copy chunk S1) (\<lambda>(copy, S2).
      obind (SharedChunk_dtor chunk S2) (\<lambda>S3.
      Inr (X\<lparr> csd_lastChunkUnmanaged := ShmSafeUnmanagedChunk_ctor copy \<rparr>, S3)))))"

definition ChunkSender_send ::
  "u32 \<Rightarrow> u64 \<Rightarrow> (chunk_distributor_data \<times> popo_state \<Rightarrow> chunk_distributor_data \<times> popo_state) list \<Rightarrow>
     address pointer \<Rightarrow> chunk_sender_data \<Rightarrow> popo_state \<Rightarrow> (u64 \<times> chunk_sender_data \<times> popo_state) outcome" where
  "ChunkSender_send MaxAlloc Capacity rounds chunkHeader X P =
     obind (getChunkReadyForSend MaxAlloc chunkHeader X (ps_shm P)) (\<lambda>(ready, chunk, X1, S1).
       if ready
       then obind (deliverToAllStoredQueues Capacity chunk rounds (csd_distributor X1) (P\<lparr> ps_shm := S1 \<rparr>)) (\<lambda>(n, D2, P2).
            obind (remember_last_chunk chunk (X1\<lparr> csd_distributor := D2 \<rparr>) (ps_shm P2)) (\<lambda>(X3, S3).
            Inr (n, X3, P2\<lparr> ps_shm := S3 \<rparr>)))
       else Inr (0, X1, P\<lparr> ps_shm := S1 \<rparr>))"

definition ChunkSender_sendToQueue ::
  "u32 \<Rightarrow> u64 \<Rightarrow> (chunk_distributor_data \<times> popo_state \<Rightarrow> chunk_distributor_data \<times> popo_state) list \<Rightarrow>
     address pointer \<Rightarrow> u64 \<Rightarrow> u32 \<Rightarrow> chunk_sender_data \<Rightarrow> popo_state \<Rightarrow> (bool \<times> chunk_sender_data \<times> popo_state) outcome" where
  "ChunkSender_sendToQueue MaxAlloc Capacity rounds chunkHeader uniqueQueueId lastKnownQueueIndex X P =
     obind (getChunkReadyForSend MaxAlloc chunkHeader X (ps_shm P)) (\<lambda>(ready, chunk, X1, S1).
       if ready
       then obind (deliverToQueue Capacity uniqueQueueId lastKnownQueueIndex chunk rounds (csd_distributor X1)
                     (P\<lparr> ps_shm := S1 \<rparr>)) (\<lambda>(deliveryResult, D2, P2).
            obind (remember_last_chunk chunk (X1\<lparr> csd_distributor := D2 \<rparr>) (ps_shm P2)) (\<lambda>(X3, S3).
            Inr (deliveryResult = Inr (), X3, P2\<lparr> ps_shm := S3 \<rparr>)))
       else Inr (False, X1, P\<lparr> ps_shm := S1 \<rparr>))"

definition ChunkSender_pushToHistory ::
  "u32 \<Rightarrow> address pointer \<Rightarrow> chunk_sender_data \<Rightarrow> popo_state \<Rightarrow> (chunk_sender_data \<times> popo_state) outcome" where
  "ChunkSender_pushToHistory MaxAlloc chunkHeader X P =
     obind (getChunkReadyForSend MaxAlloc chunkHeader X (ps_shm P)) (\<lambda>(ready, chunk, X1, S1).
       if ready
       then obind (addToHistoryWithoutDelivery chunk (csd_distributor X1) (P\<lparr> ps_shm := S1 \<rparr>)) (\<lambda>(D2, P2).
            obind (remember_last_chunk chunk (X1\<lparr> csd_distributor := D2 \<rparr>) (ps_shm P2)) (\<lambda>(X3, S3).
            Inr (X3, P2\<lparr> ps_shm := S3 \<rparr>)))
       else Inr (X1, P\<lparr> ps_shm := S1 \<rparr>))"

definition tryGetPreviousChunk :: "chunk_sender_data \<Rightarrow> shm \<Rightarrow> address pointer" where
  "tryGetPreviousChunk X S =
     (if csd_lastChunkUnmanaged X \<noteq> None then unmanaged_getChunkHeader (csd_lastChunkUnmanaged X) S else None)"

definition ChunkSender_releaseAll :: "u32 \<Rightarrow> chunk_sender_data \<Rightarrow> popo_state \<Rightarrow> (chunk_sender_data \<times> popo_state) outcome" where
  "ChunkSender_releaseAll MaxAlloc X P =
     obind (UsedChunkList_cleanup MaxAlloc (csd_chunksInUse X) (ps_shm P)) (\<lambda>(l, S1).
     obind (ChunkDistributor_cleanup (csd_distributor X) (P\<lparr> ps_shm := S1 \<rparr>)) (\<lambda>(D, P2).
       case releaseToSharedChunk (csd_lastChunkUnmanaged X) of (temporary, remaining) \<Rightarrow>
       obind (SharedChunk_dtor temporary (ps_shm P2)) (\<lambda>S3.
       Inr (X\<lparr> csd_chunksInUse := l, csd_distributor := D, csd_lastChunkUnmanaged := remaining \<rparr>, P2\<lparr> ps_shm := S3 \<rparr>))))"

subsection \<open>Writing headers\<close>

lemma shm_inv_header:
  assumes "shm_inv S Os" "shm_headers S a = Some h" "ch_chunkSize h' = ch_chunkSize h"
  shows "shm_inv (S\<lparr> shm_headers := (shm_headers S)(a \<mapsto> h'), shm_offsets := offs \<rparr>) Os"
proof -
  let ?S = "S\<lparr> shm_headers := (shm_headers S)(a \<mapsto> h'), shm_offsets := offs \<rparr>"
  have "management_ok ?S ps Os x" if ok: "management_ok S ps Os x" for ps x
  proof -
    obtain cm hx where cm: "shm_managements S x = Some cm" "unat (cm_referenceCounter cm) = count Os x"
      "cm_mempool cm < length ps" "cm_chunkManagementPool cm = 0"
      "shm_headers S (cm_chunkHeader cm) = Some hx" "ch_chunkSize hx = mp_chunkSize (ps ! cm_mempool cm)"
      using ok by (auto simp: management_ok_def)
    then have "shm_headers ?S (cm_chunkHeader cm) = Some (if cm_chunkHeader cm = a then h' else hx)" by simp
    moreover have "ch_chunkSize (if cm_chunkHeader cm = a then h' else hx) = mp_chunkSize (ps ! cm_mempool cm)"
      using cm assms(2,3) by auto
    ultimately show ?thesis using cm unfolding management_ok_def by fastforce
  qed
  then show ?thesis using assms(1) unfolding shm_inv_def by auto
qed

lemma chunk_content_header:
  "chunk_content (S\<lparr> shm_headers := (shm_headers S)(a \<mapsto> h'), shm_offsets := offs \<rparr>) x =
     (if snd (fst (chunk_content S x)) = a then (fst (chunk_content S x), Some h') else chunk_content S x)"
  by (simp add: chunk_content_def)

text \<open>The header of an owned chunk.\<close>

lemma popo_rep_header_of:
  assumes "popo_rep Capacity b P Q Os" "m \<in># Os + queued Q"
  obtains i a h where "chunk_content (ps_shm P) m = ((i, a), Some h)" "shm_headers (ps_shm P) a = Some h"
    "ch_chunkHeaderVersion h = CHUNK_HEADER_VERSION"
    "SharedChunk_getChunkHeader (Some m) (ps_shm P) = Some a" "unmanaged_getChunkHeader (Some m) (ps_shm P) = Some a"
proof -
  have "version_ok (ps_shm P) m" using assms unfolding popo_rep_def by blast
  then obtain h where h: "snd (chunk_content (ps_shm P) m) = Some h" "ch_chunkHeaderVersion h = CHUNK_HEADER_VERSION"
    by (auto simp: version_ok_def split: option.splits)
  have inv: "shm_inv (ps_shm P) (Os + queued Q)" using assms(1) by (simp add: popo_rep_def)
  obtain i a where ia: "fst (chunk_content (ps_shm P) m) = (i, a)" by fastforce
  with h(1) have "chunk_content (ps_shm P) m = ((i, a), Some h)" "shm_headers (ps_shm P) a = Some h"
    by (auto simp: prod_eq_iff chunk_content_def)
  then show thesis using that h(2) getChunkHeader_owned [OF inv assms(2)] ia by simp
qed

lemma popo_rep_header_write:
  assumes "popo_rep Capacity b P Q Os" "m \<in># Os + queued Q" "chunk_content (ps_shm P) m = ((i, a), Some h)"
    and "ch_chunkSize h' = ch_chunkSize h" "ch_chunkHeaderVersion h' = CHUNK_HEADER_VERSION"
    and "S' = (ps_shm P)\<lparr> shm_headers := (shm_headers (ps_shm P))(a \<mapsto> h'), shm_offsets := offs \<rparr>"
  shows "popo_rep Capacity b (P\<lparr> ps_shm := S' \<rparr>) Q Os" "chunk_content S' m = ((i, a), Some h')"
    "\<forall>x. x \<in># Os + queued Q \<longrightarrow> x \<noteq> m \<longrightarrow> chunk_content S' x = chunk_content (ps_shm P) x"
proof -
  have inv: "shm_inv (ps_shm P) (Os + queued Q)" using assms(1) by (simp add: popo_rep_def)
  have "shm_headers (ps_shm P) a = Some h" using assms(3) by (auto simp: chunk_content_def)
  from shm_inv_header [OF inv this assms(4)] have inv': "shm_inv S' (Os + queued Q)" by (simp add: assms(6))
  show m: "chunk_content S' m = ((i, a), Some h')" using assms(3) by (simp add: assms(6) chunk_content_header)
  show o: "\<forall>x. x \<in># Os + queued Q \<longrightarrow> x \<noteq> m \<longrightarrow> chunk_content S' x = chunk_content (ps_shm P) x"
  proof (intro allI impI)
    fix x assume "x \<in># Os + queued Q" "x \<noteq> m"
    then have "snd (fst (chunk_content (ps_shm P) x)) \<noteq> a"
      using header_address_inj [OF inv _ assms(2), of x] assms(3) by auto
    then show "chunk_content S' x = chunk_content (ps_shm P) x" by (simp add: assms(6) chunk_content_header)
  qed
  have "version_ok S' x" if "x \<in># Os + queued Q" for x
  proof (cases "x = m")
    case True
    then show ?thesis using m assms(5) by (simp add: version_ok_def)
  next
    case False
    then have "chunk_content S' x = chunk_content (ps_shm P) x" using o that by blast
    then show ?thesis using assms(1) that version_ok_cong unfolding popo_rep_def by metis
  qed
  then show "popo_rep Capacity b (P\<lparr> ps_shm := S' \<rparr>) Q Os" using assms(1) inv' unfolding popo_rep_def by simp
qed

lemma ChunkHeader_new_fields:
  "ChunkHeader_new a sz cs mem = Inr (h, mem') \<Longrightarrow> ch_chunkSize h = sz \<and> ch_originId h = INVALID_UNIQUE_ID \<and>
     ch_sequenceNumber h = 0 \<and> ch_userPayloadSize h = cs_userPayloadSize cs \<and> ch_userHeaderSize h = cs_userHeaderSize cs"
  by (auto simp: ChunkHeader_new_def ChunkHeader_init_def Let_def split: if_splits)

subsection \<open>The invariant of the sender\<close>

definition last_owner :: "chunk_sender_data \<Rightarrow> address multiset" where
  "last_owner X = (case csd_lastChunkUnmanaged X of None \<Rightarrow> {#} | Some m \<Rightarrow> {#m#})"

definition sender_owners :: "chunk_sender_data \<Rightarrow> address list \<Rightarrow> address list \<Rightarrow> address multiset" where
  "sender_owners X hs us = mset hs + mset us + last_owner X"

definition sender_rep ::
  "u32 \<Rightarrow> u64 \<Rightarrow> nat \<Rightarrow> chunk_sender_data \<Rightarrow> popo_state \<Rightarrow> queue_contents \<Rightarrow> address list \<Rightarrow> address list \<Rightarrow>
     address multiset \<Rightarrow> bool" where
  "sender_rep MaxAlloc Capacity b X P Q hs us Os \<longleftrightarrow>
     distributor_ok (csd_distributor X) Q hs \<and> ucl_rep MaxAlloc (csd_chunksInUse X) us \<and>
     popo_rep Capacity b P Q (sender_owners X hs us + Os)"

lemma insert_copy_ok:
  assumes "popo_rep Capacity (Suc b) P Q (add_mset m Os)" "ucl_rep MaxAlloc l0 us" "length us < unat MaxAlloc"
  obtains l S' where "insert_copy MaxAlloc (Some m) l0 (ps_shm P) = Inr (True, l, S')"
    "ucl_rep MaxAlloc l (m # us)" "popo_rep Capacity b (P\<lparr> ps_shm := S' \<rparr>) Q (add_mset m (add_mset m Os))"
    "chunk_content S' = chunk_content (ps_shm P)"
proof -
  have "m \<in># add_mset m Os + queued Q" by simp
  then obtain S' where S': "incrementReferenceCounter (Some m) (ps_shm P) = Inr S'"
    "popo_rep Capacity b (P\<lparr> ps_shm := S' \<rparr>) Q (add_mset m (add_mset m Os))" "chunk_content S' = chunk_content (ps_shm P)"
    by (rule popo_clone_ok [OF assms(1)])
  obtain l where l: "UsedChunkList_insert MaxAlloc (Some m) l0 S' = Inr (True, l, S')" "ucl_rep MaxAlloc l (m # us)"
    by (rule UsedChunkList_insert_ok [OF assms(2,3)])
  then show thesis using that S'
    by (simp add: insert_copy_def SharedChunk_copy_def SharedChunk_assign_def decrementReferenceCounter_def)
qed

lemma insert_copy_full:
  assumes "popo_rep Capacity (Suc b) P Q (add_mset m Os)" "ucl_rep MaxAlloc l us" "length us = unat MaxAlloc"
  obtains S' where "insert_copy MaxAlloc (Some m) l (ps_shm P) = Inr (False, l, S')"
    "popo_rep Capacity b (P\<lparr> ps_shm := S' \<rparr>) Q (add_mset m Os)"
    "same_chunks (add_mset m Os + queued Q) P (P\<lparr> ps_shm := S' \<rparr>)"
proof -
  have "m \<in># add_mset m Os + queued Q" by simp
  then obtain S1 where S1: "incrementReferenceCounter (Some m) (ps_shm P) = Inr S1"
    "popo_rep Capacity b (P\<lparr> ps_shm := S1 \<rparr>) Q (add_mset m (add_mset m Os))" "chunk_content S1 = chunk_content (ps_shm P)"
    by (rule popo_clone_ok [OF assms(1)])
  obtain S2 where S2: "SharedChunk_dtor (Some m) S1 = Inr S2" "popo_rep Capacity b (P\<lparr> ps_shm := S2 \<rparr>) Q (add_mset m Os)"
    "same_chunks (add_mset m Os + queued Q) (P\<lparr> ps_shm := S1 \<rparr>) (P\<lparr> ps_shm := S2 \<rparr>)"
    using popo_release_ok [OF S1(2)] by auto
  have "insert_copy MaxAlloc (Some m) l (ps_shm P) = Inr (False, l, S2)"
    using S1(1) S2(1) UsedChunkList_insert_full [OF assms(2,3)]
    by (simp add: insert_copy_def SharedChunk_copy_def SharedChunk_assign_def decrementReferenceCounter_def)
  moreover have "same_chunks (add_mset m Os + queued Q) P (P\<lparr> ps_shm := S2 \<rparr>)"
    using S2(3) S1(3) by (simp add: same_chunks_def)
  ultimately show thesis using that S2(2) by blast
qed

subsection \<open>Allocation\<close>

text \<open>
  What an allocation promises: on an error nothing changes; on success the chunk of the returned
  header is owned by nobody but the list of chunks in use (and, if it is reused, the last chunk),
  it has a new header, and all other chunks keep theirs.
\<close>

definition allocation_spec ::
  "u32 \<Rightarrow> u64 \<Rightarrow> nat \<Rightarrow> u64 \<Rightarrow> chunk_settings \<Rightarrow> chunk_sender_data \<Rightarrow> popo_state \<Rightarrow> queue_contents \<Rightarrow> address list \<Rightarrow>
     address list \<Rightarrow> address multiset \<Rightarrow> (allocation_error + address) \<times> chunk_sender_data \<times> shm \<Rightarrow> bool" where
  "allocation_spec MaxAlloc Capacity b originId cs X P Q hs us Os = (\<lambda>(r, X', S').
     (case r of
        Inl e \<Rightarrow> X' = X \<and> sender_rep MaxAlloc Capacity b X (P\<lparr> ps_shm := S' \<rparr>) Q hs us Os \<and>
          same_chunks (sender_owners X hs us + Os + queued Q) P (P\<lparr> ps_shm := S' \<rparr>)
      | Inr a \<Rightarrow> \<exists>m i h. sender_rep MaxAlloc Capacity b X' (P\<lparr> ps_shm := S' \<rparr>) Q hs (m # us) Os \<and>
          X' = X\<lparr> csd_chunksInUse := csd_chunksInUse X' \<rparr> \<and>
          chunk_content S' m = ((i, a), Some h) \<and> cs_requiredChunkSize cs \<le> ch_chunkSize h \<and>
          ch_userPayloadSize h = cs_userPayloadSize cs \<and> ch_sequenceNumber h = 0 \<and>
          ch_originId h = (if m \<in># last_owner X then INVALID_UNIQUE_ID else originId) \<and>
          m \<notin># mset hs + mset us + Os + queued Q \<and>
          (\<forall>x. x \<in># sender_owners X hs us + Os + queued Q \<longrightarrow> x \<noteq> m \<longrightarrow>
             chunk_content S' x = chunk_content (ps_shm P) x)))"

lemma owned_address_ok:
  assumes "shm_inv S Os" "m \<in># Os"
  shows "chunk_address_ok (snd (fst (chunk_content S m)))"
proof -
  let ?ps = "mm_memPoolVector (shm_manager S)"
  obtain M where M: "set_mset Os = used_chunks M" "bij_betw (chunk_of (shm_managements S)) (used_chunks M) (used_pairs ?ps)"
    "pools_ok ?ps" by (rule shm_invD [OF assms(1)])
  obtain i a where c: "chunk_of (shm_managements S) m = (i, a)" by fastforce
  then have "(i, a) \<in> used_pairs ?ps" using M assms(2) by (metis bij_betw_apply)
  then have "i < length ?ps" "a \<in> used_chunks (?ps ! i)" by (simp_all add: used_pairs_mem)
  then have "a \<in> layout_slots (pool_layout (?ps ! i))" using mem_pool.used_slots M(3) pool_ok_nth by blast
  with \<open>i < length ?ps\<close> M(3) have "chunk_address_ok a" unfolding pools_ok_def using nth_mem by blast
  then show ?thesis by (simp add: c chunk_content_def)
qed

lemma popo_getChunk_ok:
  assumes pr: "popo_rep Capacity (Suc b) P Q Os" and cs: "chunk_settings_valid cs"
    and ff: "first_fitting (cs_requiredChunkSize cs) 0 (mm_memPoolVector (shm_manager (ps_shm P))) = Some i"
    and free: "used_chunks (mm_memPoolVector (shm_manager (ps_shm P)) ! i) \<noteq>
      layout_slots (pool_layout (mm_memPoolVector (shm_manager (ps_shm P)) ! i))"
  obtains m a h S1 offs where "MemoryManager_getChunk cs (ps_shm P) = Inr (Inr (Some m), S1)" "m \<notin># Os + queued Q"
    "chunk_content S1 m = ((i, a), Some h)"
    "ChunkHeader_new a (mp_chunkSize (mm_memPoolVector (shm_manager (ps_shm P)) ! i)) cs (shm_offsets (ps_shm P)) = Inr (h, offs)"
    "\<forall>x. x \<in># Os + queued Q \<longrightarrow> chunk_content S1 x = chunk_content (ps_shm P) x"
    "popo_rep Capacity b (P\<lparr> ps_shm := S1 \<rparr>) Q (add_mset m Os)"
proof -
  let ?ps = "mm_memPoolVector (shm_manager (ps_shm P))"
  have inv: "shm_inv (ps_shm P) (Os + queued Q)" using pr by (simp add: popo_rep_def)
  obtain m a h S1 where g: "MemoryManager_getChunk cs (ps_shm P) = Inr (Inr (Some m), S1)"
    "m \<notin># Os + queued Q" "shm_inv S1 (add_mset m (Os + queued Q))" "chunk_of (shm_managements S1) m = (i, a)"
    "shm_headers S1 = (shm_headers (ps_shm P))(a \<mapsto> h)"
    "ChunkHeader_new a (mp_chunkSize (?ps ! i)) cs (shm_offsets (ps_shm P)) = Inr (h, shm_offsets S1)"
    "\<forall>x. x \<in># Os + queued Q \<longrightarrow> chunk_of (shm_managements S1) x = chunk_of (shm_managements (ps_shm P)) x \<and>
       snd (chunk_of (shm_managements (ps_shm P)) x) \<noteq> a"
    by (rule getChunk_ok [OF inv cs ff free])
  have c1: "chunk_content S1 m = ((i, a), Some h)" "\<forall>x. x \<in># Os + queued Q \<longrightarrow> chunk_content S1 x = chunk_content (ps_shm P) x"
    using g(4,5,7) by (auto simp: chunk_content_def)
  have "version_ok S1 m" using c1(1) ChunkHeader_new_version [OF g(6)] by (simp add: version_ok_def)
  moreover have "version_ok S1 x" if "x \<in># Os + queued Q" for x
    using c1(2) that pr version_ok_cong unfolding popo_rep_def by metis
  moreover have "size (add_mset m Os + queued Q) + b < 2 ^ 64 - 1" using pr by (simp add: popo_rep_def)
  ultimately have "popo_rep Capacity b (P\<lparr> ps_shm := S1 \<rparr>) Q (add_mset m Os)"
    using popo_rep_mono [OF pr, of b] g(3) unfolding popo_rep_def by auto
  with g(1,2,6) c1 show thesis using that by blast
qed

lemma allocate_new_chunk_ok:
  assumes rep: "sender_rep MaxAlloc Capacity (Suc (Suc b)) X P Q hs us Os" and cs: "chunk_settings_valid cs"
    and len: "length us < unat MaxAlloc"
    and ff: "first_fitting (cs_requiredChunkSize cs) 0 (mm_memPoolVector (shm_manager (ps_shm P))) = Some i"
    and free: "used_chunks (mm_memPoolVector (shm_manager (ps_shm P)) ! i) \<noteq>
      layout_slots (pool_layout (mm_memPoolVector (shm_manager (ps_shm P)) ! i))"
  obtains r where "allocate_new_chunk MaxAlloc originId cs X (ps_shm P) = Inr r"
    "allocation_spec MaxAlloc Capacity b originId cs X P Q hs us Os r" "\<exists>a. fst r = Inr a"
proof -
  let ?O = "sender_owners X hs us + Os"
  have pr: "popo_rep Capacity (Suc (Suc b)) P Q ?O" and ucl: "ucl_rep MaxAlloc (csd_chunksInUse X) us"
    and D: "distributor_ok (csd_distributor X) Q hs" using rep by (simp_all add: sender_rep_def)
  obtain m a h S1 offs where g: "MemoryManager_getChunk cs (ps_shm P) = Inr (Inr (Some m), S1)" "m \<notin># ?O + queued Q"
    "chunk_content S1 m = ((i, a), Some h)"
    "ChunkHeader_new a (mp_chunkSize (mm_memPoolVector (shm_manager (ps_shm P)) ! i)) cs (shm_offsets (ps_shm P)) = Inr (h, offs)"
    "\<forall>x. x \<in># ?O + queued Q \<longrightarrow> chunk_content S1 x = chunk_content (ps_shm P) x"
    "popo_rep Capacity (Suc b) (P\<lparr> ps_shm := S1 \<rparr>) Q (add_mset m ?O)"
    by (rule popo_getChunk_ok [OF pr cs ff free])
  from insert_copy_ok [OF g(6) ucl len] obtain l S2 where
    l: "insert_copy MaxAlloc (Some m) (csd_chunksInUse X) S1 = Inr (True, l, S2)" "ucl_rep MaxAlloc l (m # us)"
    "popo_rep Capacity b (P\<lparr> ps_shm := S2 \<rparr>) Q (add_mset m (add_mset m ?O))" "chunk_content S2 = chunk_content S1" by auto
  let ?h = "setOriginId originId h"
  let ?S3 = "S2\<lparr> shm_headers := (shm_headers S2)(a \<mapsto> ?h), shm_offsets := shm_offsets S2 \<rparr>"
  have m2: "m \<in># add_mset m (add_mset m ?O) + queued Q" "chunk_content (ps_shm (P\<lparr> ps_shm := S2 \<rparr>)) m = ((i, a), Some h)"
    using g(3) l(4) by simp_all
  have hh: "ch_chunkSize ?h = ch_chunkSize h" "ch_chunkHeaderVersion ?h = CHUNK_HEADER_VERSION"
    using ChunkHeader_new_version [OF g(4)] by (simp_all add: setOriginId_def)
  have w: "popo_rep Capacity b (P\<lparr> ps_shm := ?S3 \<rparr>) Q (add_mset m (add_mset m ?O))" "chunk_content ?S3 m = ((i, a), Some ?h)"
    "\<forall>x. x \<in># add_mset m (add_mset m ?O) + queued Q \<longrightarrow> x \<noteq> m \<longrightarrow> chunk_content ?S3 x = chunk_content S2 x"
    using popo_rep_header_write [OF l(3) m2 hh, of ?S3 "shm_offsets S2"] by simp_all
  obtain S4 where S4: "SharedChunk_dtor (Some m) ?S3 = Inr S4" "popo_rep Capacity b (P\<lparr> ps_shm := S4 \<rparr>) Q (add_mset m ?O)"
    "same_chunks (add_mset m ?O + queued Q) (P\<lparr> ps_shm := ?S3 \<rparr>) (P\<lparr> ps_shm := S4 \<rparr>)"
    using popo_release_ok [OF w(1)] by auto
  have "shm_headers S2 a = Some h" "SharedChunk_getChunkHeader (Some m) S2 = Some a"
    using popo_rep_header_of [OF l(3) m2(1)] m2(2) by auto
  then have run: "allocate_new_chunk MaxAlloc originId cs X (ps_shm P) = Inr (Inr a, X\<lparr> csd_chunksInUse := l \<rparr>, S4)"
    using g(1) l(1) S4(1) by (simp add: allocate_new_chunk_def update_header_def)
  have "sender_owners (X\<lparr> csd_chunksInUse := l \<rparr>) hs (m # us) = add_mset m (sender_owners X hs us)"
    by (simp add: sender_owners_def last_owner_def)
  then have "sender_rep MaxAlloc Capacity b (X\<lparr> csd_chunksInUse := l \<rparr>) (P\<lparr> ps_shm := S4 \<rparr>) Q hs (m # us) Os"
    using D l(2) S4(2) by (simp add: sender_rep_def)
  moreover have "chunk_content S4 m = ((i, a), Some ?h)" using S4(3) w(2) by (simp add: same_chunks_def)
  moreover have "\<forall>x. x \<in># ?O + queued Q \<longrightarrow> x \<noteq> m \<longrightarrow> chunk_content S4 x = chunk_content (ps_shm P) x"
    using S4(3) w(3) l(4) g(5) by (auto simp: same_chunks_def)
  moreover have "cs_requiredChunkSize cs \<le> ch_chunkSize ?h"
    using ChunkHeader_new_fields [OF g(4)] first_fitting_Some [OF ff] by (simp add: setOriginId_def)
  ultimately have "allocation_spec MaxAlloc Capacity b originId cs X P Q hs us Os (Inr a, X\<lparr> csd_chunksInUse := l \<rparr>, S4)"
    using g(2) ChunkHeader_new_fields [OF g(4)]
    by (auto simp: allocation_spec_def sender_owners_def setOriginId_def intro!: exI [of _ m])
  with run show thesis using that by auto
qed

lemma allocate_new_chunk_full:
  assumes rep: "sender_rep MaxAlloc Capacity (Suc (Suc b)) X P Q hs us Os" and cs: "chunk_settings_valid cs"
    and len: "length us = unat MaxAlloc"
    and ff: "first_fitting (cs_requiredChunkSize cs) 0 (mm_memPoolVector (shm_manager (ps_shm P))) = Some i"
    and free: "used_chunks (mm_memPoolVector (shm_manager (ps_shm P)) ! i) \<noteq>
      layout_slots (pool_layout (mm_memPoolVector (shm_manager (ps_shm P)) ! i))"
  obtains r where "allocate_new_chunk MaxAlloc originId cs X (ps_shm P) = Inr r"
    "allocation_spec MaxAlloc Capacity b originId cs X P Q hs us Os r" "fst r = Inl TOO_MANY_CHUNKS_ALLOCATED_IN_PARALLEL"
proof -
  let ?O = "sender_owners X hs us + Os"
  have pr: "popo_rep Capacity (Suc (Suc b)) P Q ?O" and ucl: "ucl_rep MaxAlloc (csd_chunksInUse X) us"
    and D: "distributor_ok (csd_distributor X) Q hs" using rep by (simp_all add: sender_rep_def)
  obtain m a h S1 offs where g: "MemoryManager_getChunk cs (ps_shm P) = Inr (Inr (Some m), S1)" "m \<notin># ?O + queued Q"
    "chunk_content S1 m = ((i, a), Some h)"
    "ChunkHeader_new a (mp_chunkSize (mm_memPoolVector (shm_manager (ps_shm P)) ! i)) cs (shm_offsets (ps_shm P)) = Inr (h, offs)"
    "\<forall>x. x \<in># ?O + queued Q \<longrightarrow> chunk_content S1 x = chunk_content (ps_shm P) x"
    "popo_rep Capacity (Suc b) (P\<lparr> ps_shm := S1 \<rparr>) Q (add_mset m ?O)"
    by (rule popo_getChunk_ok [OF pr cs ff free])
  from insert_copy_full [OF g(6) ucl len] obtain S2 where S2: "insert_copy MaxAlloc (Some m) (csd_chunksInUse X) S1 = Inr (False, csd_chunksInUse X, S2)"
    "popo_rep Capacity b (P\<lparr> ps_shm := S2 \<rparr>) Q (add_mset m ?O)"
    "same_chunks (add_mset m ?O + queued Q) (P\<lparr> ps_shm := S1 \<rparr>) (P\<lparr> ps_shm := S2 \<rparr>)" by auto
  obtain S3 where S3: "SharedChunk_dtor (Some m) S2 = Inr S3" "popo_rep Capacity b (P\<lparr> ps_shm := S3 \<rparr>) Q ?O"
    "same_chunks (?O + queued Q) (P\<lparr> ps_shm := S2 \<rparr>) (P\<lparr> ps_shm := S3 \<rparr>)"
    using popo_release_ok [OF S2(2)] by auto
  have "allocate_new_chunk MaxAlloc originId cs X (ps_shm P) = Inr (Inl TOO_MANY_CHUNKS_ALLOCATED_IN_PARALLEL, X, S3)"
    using g(1) S2(1) S3(1) by (simp add: allocate_new_chunk_def)
  moreover have "same_chunks (?O + queued Q) P (P\<lparr> ps_shm := S3 \<rparr>)"
    using g(5) S2(3) S3(3) by (auto simp: same_chunks_def)
  ultimately show thesis using that D ucl S3(2) by (auto simp: allocation_spec_def sender_rep_def)
qed

lemma allocate_new_chunk_error:
  assumes rep: "sender_rep MaxAlloc Capacity b X P Q hs us Os"
    and err: "MemoryManager_getChunk cs (ps_shm P) = Inr (Inl e, ps_shm P)"
  shows "allocate_new_chunk MaxAlloc originId cs X (ps_shm P) = Inr (Inl (allocation_error_from e), X, ps_shm P)"
    "allocation_spec MaxAlloc Capacity b originId cs X P Q hs us Os (Inl (allocation_error_from e), X, ps_shm P)"
  using assms by (simp_all add: allocate_new_chunk_def allocation_spec_def)

lemma reuse_last_chunk_ok:
  assumes rep: "sender_rep MaxAlloc Capacity (Suc (Suc b)) X P Q hs us Os" and cs: "chunk_settings_valid cs"
    and last: "csd_lastChunkUnmanaged X = Some m" "count (sender_owners X hs us + Os + queued Q) m = 1"
    and fit: "chunk_content (ps_shm P) m = ((i, a), Some h)" "cs_requiredChunkSize cs \<le> ch_chunkSize h"
  obtains r where "reuse_last_chunk MaxAlloc cs a h X (ps_shm P) = Inr r"
    "allocation_spec MaxAlloc Capacity b originId cs X P Q hs us Os r"
    "if length us < unat MaxAlloc
     then \<exists>X' S' h'. r = (Inr a, X', S') \<and> chunk_content S' m = ((i, a), Some h') \<and> ch_originId h' = INVALID_UNIQUE_ID
     else fst r = Inl TOO_MANY_CHUNKS_ALLOCATED_IN_PARALLEL"
proof -
  let ?O = "sender_owners X hs us + Os"
  have pr: "popo_rep Capacity (Suc (Suc b)) P Q ?O" and ucl: "ucl_rep MaxAlloc (csd_chunksInUse X) us"
    and D: "distributor_ok (csd_distributor X) Q hs" using rep by (simp_all add: sender_rep_def)
  have m: "m \<in># ?O + queued Q" "m \<notin># mset hs + mset us + Os + queued Q" "m \<in># last_owner X"
    using last by (auto simp: sender_owners_def last_owner_def not_in_iff)
  obtain S1 where S1: "incrementReferenceCounter (Some m) (ps_shm P) = Inr S1"
    "popo_rep Capacity (Suc b) (P\<lparr> ps_shm := S1 \<rparr>) Q (add_mset m ?O)" "chunk_content S1 = chunk_content (ps_shm P)"
    by (rule popo_clone_ok [OF pr m(1)])
  show thesis
  proof (cases "length us < unat MaxAlloc")
    case True
    from insert_copy_ok [OF S1(2) ucl True] obtain l S2 where
      l: "insert_copy MaxAlloc (Some m) (csd_chunksInUse X) S1 = Inr (True, l, S2)" "ucl_rep MaxAlloc l (m # us)"
      "popo_rep Capacity b (P\<lparr> ps_shm := S2 \<rparr>) Q (add_mset m (add_mset m ?O))" "chunk_content S2 = chunk_content S1" by auto
    have m2: "m \<in># add_mset m (add_mset m ?O) + queued Q" "chunk_content (ps_shm (P\<lparr> ps_shm := S2 \<rparr>)) m = ((i, a), Some h)"
      using fit l(4) S1(3) by simp_all
    obtain h' offs where h': "ChunkHeader_new a (ch_chunkSize h) cs (shm_offsets S2) = Inr (h', offs)"
    proof -
      have "shm_inv (ps_shm P) (?O + queued Q)" using pr by (simp add: popo_rep_def)
      from owned_address_ok [OF this m(1)] have "chunk_address_ok a" using fit(1) by simp
      from ChunkHeader_new_ok [OF this cs fit(2)] show thesis using that by metis
    qed
    let ?S3 = "S2\<lparr> shm_headers := (shm_headers S2)(a \<mapsto> h'), shm_offsets := offs \<rparr>"
    have hh: "ch_chunkSize h' = ch_chunkSize h" "ch_chunkHeaderVersion h' = CHUNK_HEADER_VERSION"
      using ChunkHeader_new_version [OF h'] ChunkHeader_new_fields [OF h'] by simp_all
    have w: "popo_rep Capacity b (P\<lparr> ps_shm := ?S3 \<rparr>) Q (add_mset m (add_mset m ?O))" "chunk_content ?S3 m = ((i, a), Some h')"
      "\<forall>x. x \<in># add_mset m (add_mset m ?O) + queued Q \<longrightarrow> x \<noteq> m \<longrightarrow> chunk_content ?S3 x = chunk_content S2 x"
      using popo_rep_header_write [OF l(3) m2 hh, of ?S3 offs] by simp_all
    obtain S4 where S4: "SharedChunk_dtor (Some m) ?S3 = Inr S4" "popo_rep Capacity b (P\<lparr> ps_shm := S4 \<rparr>) Q (add_mset m ?O)"
      "same_chunks (add_mset m ?O + queued Q) (P\<lparr> ps_shm := ?S3 \<rparr>) (P\<lparr> ps_shm := S4 \<rparr>)"
      using popo_release_ok [OF w(1)] by auto
    have run: "reuse_last_chunk MaxAlloc cs a h X (ps_shm P) = Inr (Inr a, X\<lparr> csd_chunksInUse := l \<rparr>, S4)"
      using S1(1) l(1) S4(1) h' last(1) by (simp add: reuse_last_chunk_def cloneToSharedChunk_def)
    have "sender_owners (X\<lparr> csd_chunksInUse := l \<rparr>) hs (m # us) = add_mset m (sender_owners X hs us)"
      by (simp add: sender_owners_def last_owner_def)
    then have "sender_rep MaxAlloc Capacity b (X\<lparr> csd_chunksInUse := l \<rparr>) (P\<lparr> ps_shm := S4 \<rparr>) Q hs (m # us) Os"
      using D l(2) S4(2) by (simp add: sender_rep_def)
    moreover have cm: "chunk_content S4 m = ((i, a), Some h')" using S4(3) w(2) by (simp add: same_chunks_def)
    moreover have "\<forall>x. x \<in># ?O + queued Q \<longrightarrow> x \<noteq> m \<longrightarrow> chunk_content S4 x = chunk_content (ps_shm P) x"
      using S4(3) w(3) l(4) S1(3) by (auto simp: same_chunks_def)
    ultimately have "allocation_spec MaxAlloc Capacity b originId cs X P Q hs us Os (Inr a, X\<lparr> csd_chunksInUse := l \<rparr>, S4)"
      using m(2,3) ChunkHeader_new_fields [OF h'] fit(2)
      by (auto simp: allocation_spec_def intro!: exI [of _ m])
    with run True cm show thesis using that ChunkHeader_new_fields [OF h'] by auto
  next
    case False
    then have full: "length us = unat MaxAlloc" using ucl_rep_length [OF ucl] by simp
    from insert_copy_full [OF S1(2) ucl full] obtain S2 where S2: "insert_copy MaxAlloc (Some m) (csd_chunksInUse X) S1 = Inr (False, csd_chunksInUse X, S2)"
      "popo_rep Capacity b (P\<lparr> ps_shm := S2 \<rparr>) Q (add_mset m ?O)"
      "same_chunks (add_mset m ?O + queued Q) (P\<lparr> ps_shm := S1 \<rparr>) (P\<lparr> ps_shm := S2 \<rparr>)" by auto
    obtain S3 where S3: "SharedChunk_dtor (Some m) S2 = Inr S3" "popo_rep Capacity b (P\<lparr> ps_shm := S3 \<rparr>) Q ?O"
      "same_chunks (?O + queued Q) (P\<lparr> ps_shm := S2 \<rparr>) (P\<lparr> ps_shm := S3 \<rparr>)"
      using popo_release_ok [OF S2(2)] by auto
    have "reuse_last_chunk MaxAlloc cs a h X (ps_shm P) = Inr (Inl TOO_MANY_CHUNKS_ALLOCATED_IN_PARALLEL, X, S3)"
      using S1(1) S2(1) S3(1) last(1) by (simp add: reuse_last_chunk_def cloneToSharedChunk_def)
    moreover have "same_chunks (?O + queued Q) P (P\<lparr> ps_shm := S3 \<rparr>)"
      using S1(3) S2(3) S3(3) by (auto simp: same_chunks_def)
    ultimately show thesis using that D ucl S3(2) False by (auto simp: allocation_spec_def sender_rep_def)
  qed
qed

lemma allocate_new_chunk_total:
  assumes rep: "sender_rep MaxAlloc Capacity (Suc (Suc b)) X P Q hs us Os" and cs: "chunk_settings_valid cs"
  obtains r where "allocate_new_chunk MaxAlloc originId cs X (ps_shm P) = Inr r"
    "allocation_spec MaxAlloc Capacity b originId cs X P Q hs us Os r"
    "fst r = Inl TOO_MANY_CHUNKS_ALLOCATED_IN_PARALLEL \<longrightarrow> length us = unat MaxAlloc"
proof -
  note that_thesis = that
  let ?ps = "mm_memPoolVector (shm_manager (ps_shm P))"
  have pr: "popo_rep Capacity (Suc (Suc b)) P Q (sender_owners X hs us + Os)"
    and ucl: "ucl_rep MaxAlloc (csd_chunksInUse X) us" using rep by (simp_all add: sender_rep_def)
  have inv: "shm_inv (ps_shm P) (sender_owners X hs us + Os + queued Q)" using pr by (simp add: popo_rep_def)
  have rb: "sender_rep MaxAlloc Capacity b X P Q hs us Os"
    using rep popo_rep_mono [OF pr, of b] by (simp add: sender_rep_def)
  have fail: thesis if "MemoryManager_getChunk cs (ps_shm P) = Inr (Inl e, ps_shm P)" for e
    using allocate_new_chunk_error [OF rb that] that_thesis by (cases e) auto
  show thesis
  proof (cases "first_fitting (cs_requiredChunkSize cs) 0 ?ps")
    case None
    then show thesis using fail getChunk_error(1,2) [OF inv] by blast
  next
    case (Some i)
    show thesis
    proof (cases "used_chunks (?ps ! i) = layout_slots (pool_layout (?ps ! i))")
      case True
      then show thesis using fail getChunk_error(3) [OF inv Some] by blast
    next
      case False
      show thesis
      proof (cases "length us < unat MaxAlloc")
        case True
        obtain r where "allocate_new_chunk MaxAlloc originId cs X (ps_shm P) = Inr r"
          "allocation_spec MaxAlloc Capacity b originId cs X P Q hs us Os r" "\<exists>a. fst r = Inr a"
          by (rule allocate_new_chunk_ok [OF rep cs True Some False])
        then show thesis by (intro that_thesis [of r]) auto
      next
        case nl: False
        then have "length us = unat MaxAlloc" using ucl_rep_length [OF ucl] by simp
        from allocate_new_chunk_full [OF rep cs this Some False]
        obtain r where "allocate_new_chunk MaxAlloc originId cs X (ps_shm P) = Inr r"
          "allocation_spec MaxAlloc Capacity b originId cs X P Q hs us Os r" .
        then show thesis using \<open>length us = unat MaxAlloc\<close> by (intro that_thesis [of r]) auto
      qed
    qed
  qed
qed

lemma tryAllocate_ok:
  assumes "sender_rep MaxAlloc Capacity (Suc (Suc b)) X P Q hs us Os"
  shows "case ChunkSettings_create userPayloadSize userPayloadAlignment userHeaderSize userHeaderAlignment of
      Inl _ \<Rightarrow> ChunkSender_tryAllocate MaxAlloc originId userPayloadSize userPayloadAlignment userHeaderSize userHeaderAlignment X (ps_shm P) =
        Inr (Inl INVALID_PARAMETER_FOR_USER_PAYLOAD_OR_USER_HEADER, X, ps_shm P)
    | Inr cs \<Rightarrow> \<exists>r. ChunkSender_tryAllocate MaxAlloc originId userPayloadSize userPayloadAlignment userHeaderSize userHeaderAlignment X (ps_shm P) =
        Inr r \<and> allocation_spec MaxAlloc Capacity b originId cs X P Q hs us Os r \<and>
        (fst r = Inl TOO_MANY_CHUNKS_ALLOCATED_IN_PARALLEL \<longrightarrow> length us = unat MaxAlloc)"
proof (cases "ChunkSettings_create userPayloadSize userPayloadAlignment userHeaderSize userHeaderAlignment")
  case (Inl e)
  then show ?thesis by (simp add: ChunkSender_tryAllocate_def)
next
  case (Inr cs)
  let ?S = "ps_shm P" and ?O = "sender_owners X hs us + Os" and ?last = "csd_lastChunkUnmanaged X"
  have cs: "chunk_settings_valid cs" by (rule ChunkSettings_create_valid(1) [OF Inr])
  obtain r where new: "allocate_new_chunk MaxAlloc originId cs X ?S = Inr r"
    "allocation_spec MaxAlloc Capacity b originId cs X P Q hs us Os r"
    "fst r = Inl TOO_MANY_CHUNKS_ALLOCATED_IN_PARALLEL \<longrightarrow> length us = unat MaxAlloc"
    by (rule allocate_new_chunk_total [OF assms cs])
  have pr: "popo_rep Capacity (Suc (Suc b)) P Q ?O" and ucl: "ucl_rep MaxAlloc (csd_chunksInUse X) us"
    using assms by (simp_all add: sender_rep_def)
  show ?thesis
  proof (cases "isNotLogicalNullptrAndHasNoOtherOwners ?last ?S")
    case False
    then show ?thesis using Inr new by (simp add: ChunkSender_tryAllocate_def)
  next
    case True
    then obtain m where m: "?last = Some m" by (auto simp: isNotLogicalNullptrAndHasNoOtherOwners_def split: option.splits)
    then have mo: "m \<in># ?O + queued Q" by (simp add: sender_owners_def last_owner_def)
    have inv: "shm_inv ?S (?O + queued Q)" using pr by (simp add: popo_rep_def)
    obtain cm where cm: "shm_managements ?S m = Some cm" "unat (cm_referenceCounter cm) = count (?O + queued Q) m"
      by (rule shm_inv_management [OF inv mo])
    then have one: "count (?O + queued Q) m = 1"
      using True m by (simp add: isNotLogicalNullptrAndHasNoOtherOwners_def)
    obtain i a h where h: "chunk_content ?S m = ((i, a), Some h)" "shm_headers ?S a = Some h"
      "unmanaged_getChunkHeader (Some m) ?S = Some a" by (rule popo_rep_header_of [OF pr mo])
    show ?thesis
    proof (cases "cs_requiredChunkSize cs \<le> ch_chunkSize h")
      case fit: True
      obtain r where "reuse_last_chunk MaxAlloc cs a h X ?S = Inr r"
        "allocation_spec MaxAlloc Capacity b originId cs X P Q hs us Os r"
        "if length us < unat MaxAlloc
     then \<exists>X' S' h'. r = (Inr a, X', S') \<and> chunk_content S' m = ((i, a), Some h') \<and> ch_originId h' = INVALID_UNIQUE_ID
     else fst r = Inl TOO_MANY_CHUNKS_ALLOCATED_IN_PARALLEL"
        by (rule reuse_last_chunk_ok [OF assms cs m one h(1) fit])
      then show ?thesis using Inr True m h fit ucl_rep_length [OF ucl]
        by (auto simp: ChunkSender_tryAllocate_def split: if_splits)
    next
      case False
      then show ?thesis using Inr True m h new by (simp add: ChunkSender_tryAllocate_def)
    qed
  qed
qed

text \<open>
  C4: \<open>tryAllocate\<close> gives the application exclusive access. In every consistent state, in which the
  byte offsets of every pool fit in 32 bits, it returns;
  invalid parameters are refused without an effect; on any other error nothing changes (too many
  chunks is reported only if the limit is reached); on success the header belongs to a chunk of
  sufficient size with the requested payload that no history, queue, in-use list or other party
  owns, only the slot of the last sent chunk may share it, and no other chunk is touched.
\<close>

theorem sender_allocation_is_exclusive:
  assumes "sender_rep MaxAlloc Capacity (Suc (Suc b)) X P Q hs us Os"
  shows "case ChunkSettings_create userPayloadSize userPayloadAlignment userHeaderSize userHeaderAlignment of
      Inl _ \<Rightarrow> ChunkSender_tryAllocate MaxAlloc originId userPayloadSize userPayloadAlignment userHeaderSize userHeaderAlignment X (ps_shm P) =
        Inr (Inl INVALID_PARAMETER_FOR_USER_PAYLOAD_OR_USER_HEADER, X, ps_shm P)
    | Inr cs \<Rightarrow> \<exists>r. ChunkSender_tryAllocate MaxAlloc originId userPayloadSize userPayloadAlignment userHeaderSize userHeaderAlignment X (ps_shm P) =
        Inr r \<and> allocation_spec MaxAlloc Capacity b originId cs X P Q hs us Os r \<and>
        (fst r = Inl TOO_MANY_CHUNKS_ALLOCATED_IN_PARALLEL \<longrightarrow> length us = unat MaxAlloc)"
  by (rule tryAllocate_ok [OF assms])

definition example_used_list :: used_chunk_list where
  "example_used_list = fst (projr (UsedChunkList_ctor 2 [0, 0] example_shm))"

lemma example_used_list_rep: "ucl_rep 2 example_used_list []"
  by (rule UsedChunkList_ctor_ok [of 2 "[0, 0]" example_shm]) (simp_all add: example_used_list_def)

definition example_sender :: "shm_safe_unmanaged_chunk \<Rightarrow> chunk_sender_data" where
  "example_sender lastChunk = \<lparr> csd_distributor = example_distributor, csd_chunksInUse = example_used_list,
     csd_sequenceNumber = 0, csd_lastChunkUnmanaged = lastChunk \<rparr>"

text \<open>A sender connected to the two example queues that has sent one chunk to nobody.\<close>

lemma example_sender_rep:
  assumes "b < 1000"
  obtains m S where "MemoryManager_getChunk example_settings example_shm = Inr (Inr (Some m), S)"
    "sender_rep 2 2 b (example_sender (Some m)) (example_popo S) [0x100 \<mapsto> [], 0x200 \<mapsto> []] [] [] {#}"
proof -
  obtain m S where "MemoryManager_getChunk example_settings example_shm = Inr (Inr (Some m), S)"
    "popo_rep 2 b (example_popo S) [0x100 \<mapsto> [], 0x200 \<mapsto> []] {#m#}" by (rule example_popo_rep [OF assms])
  then show thesis using that example_used_list_rep
    by (auto simp: sender_rep_def example_sender_def sender_owners_def last_owner_def distributor_ok_def
        example_distributor_def ChunkDistributorData_ctor_def)
qed

lemma sender_allocation_is_exclusive_witness:
  "\<exists>m S. MemoryManager_getChunk example_settings example_shm = Inr (Inr (Some m), S) \<and>
     (\<exists>r. ChunkSender_tryAllocate 2 7 100 8 0 1 (example_sender (Some m)) S = Inr r \<and>
        allocation_spec 2 2 10 7 example_settings (example_sender (Some m)) (example_popo S)
          [0x100 \<mapsto> [], 0x200 \<mapsto> []] [] [] {#} r)"
proof -
  obtain m S where S: "MemoryManager_getChunk example_settings example_shm = Inr (Inr (Some m), S)"
    "sender_rep 2 2 (Suc (Suc 10)) (example_sender (Some m)) (example_popo S) [0x100 \<mapsto> [], 0x200 \<mapsto> []] [] [] {#}"
    by (rule example_sender_rep [of "Suc (Suc 10)"]) simp
  have "ChunkSettings_create 100 8 0 1 = Inr example_settings" unfolding example_settings_def by code_simp
  with sender_allocation_is_exclusive [OF S(2), of 7 100 8 0 1] S(1) show ?thesis
    by auto
qed

text \<open>
  A chunk that is reused for a new allocation carries no origin: whatever port requests it,
  the header of the chunk has the invalid id, while a new chunk gets the id of the port.
\<close>

theorem reused_chunk_loses_origin:
  assumes "sender_rep MaxAlloc Capacity (Suc (Suc b)) X P Q hs us Os" "length us < unat MaxAlloc"
    and "csd_lastChunkUnmanaged X = Some m" "count (sender_owners X hs us + Os + queued Q) m = 1"
    and "ChunkSettings_create userPayloadSize userPayloadAlignment userHeaderSize userHeaderAlignment = Inr cs"
    and "chunk_content (ps_shm P) m = ((i, a), Some h)" "cs_requiredChunkSize cs \<le> ch_chunkSize h"
  shows "\<exists>X' S' h'. ChunkSender_tryAllocate MaxAlloc originId userPayloadSize userPayloadAlignment userHeaderSize userHeaderAlignment X (ps_shm P) =
      Inr (Inr a, X', S') \<and> shm_headers S' a = Some h' \<and> ch_originId h' = INVALID_UNIQUE_ID"
proof -
  let ?O = "sender_owners X hs us + Os"
  have pr: "popo_rep Capacity (Suc (Suc b)) P Q ?O" using assms(1) by (simp add: sender_rep_def)
  have mo: "m \<in># ?O + queued Q" using assms(4) by (metis count_greater_zero_iff zero_less_one)
  have inv: "shm_inv (ps_shm P) (?O + queued Q)" using pr by (simp add: popo_rep_def)
  obtain cm where cm: "shm_managements (ps_shm P) m = Some cm" "unat (cm_referenceCounter cm) = count (?O + queued Q) m"
    by (rule shm_inv_management [OF inv mo])
  then have "cm_referenceCounter cm = 1" using assms(4) by (metis unat_1 word_unat_eq_iff)
  then have alone: "isNotLogicalNullptrAndHasNoOtherOwners (csd_lastChunkUnmanaged X) (ps_shm P)"
    using assms(3) cm(1) by (simp add: isNotLogicalNullptrAndHasNoOtherOwners_def)
  have hd: "shm_headers (ps_shm P) a = Some h" "unmanaged_getChunkHeader (Some m) (ps_shm P) = Some a"
    using popo_rep_header_of [OF pr mo] assms(6) by auto
  obtain r where r: "reuse_last_chunk MaxAlloc cs a h X (ps_shm P) = Inr r"
    "allocation_spec MaxAlloc Capacity b originId cs X P Q hs us Os r"
    "if length us < unat MaxAlloc
     then \<exists>X' S' h'. r = (Inr a, X', S') \<and> chunk_content S' m = ((i, a), Some h') \<and> ch_originId h' = INVALID_UNIQUE_ID
     else fst r = Inl TOO_MANY_CHUNKS_ALLOCATED_IN_PARALLEL"
    by (rule reuse_last_chunk_ok [OF assms(1) ChunkSettings_create_valid(1) [OF assms(5)] assms(3,4,6,7)])
  then obtain X' S' h' where "r = (Inr a, X', S')" "chunk_content S' m = ((i, a), Some h')" "ch_originId h' = INVALID_UNIQUE_ID"
    using assms(2) by auto
  moreover from this have "shm_headers S' a = Some h'" by (auto simp: chunk_content_def)
  moreover have "ChunkSender_tryAllocate MaxAlloc originId userPayloadSize userPayloadAlignment userHeaderSize userHeaderAlignment X (ps_shm P) = Inr r"
    using assms(3,5,7) alone hd r(1) by (simp add: ChunkSender_tryAllocate_def)
  ultimately show ?thesis by blast
qed

lemma reused_chunk_loses_origin_witness:
  "\<exists>m S a X' S' h'. MemoryManager_getChunk example_settings example_shm = Inr (Inr (Some m), S) \<and>
     ChunkSender_tryAllocate 2 7 100 8 0 1 (example_sender (Some m)) S = Inr (Inr a, X', S') \<and>
     shm_headers S' a = Some h' \<and> ch_originId h' \<noteq> 7"
proof -
  let ?Q = "[0x100 \<mapsto> [], 0x200 \<mapsto> []] :: queue_contents"
  obtain m S where S: "MemoryManager_getChunk example_settings example_shm = Inr (Inr (Some m), S)"
    "sender_rep 2 2 (Suc (Suc 10)) (example_sender (Some m)) (example_popo S) ?Q [] [] {#}"
    by (rule example_sender_rep [of "Suc (Suc 10)"]) simp
  have cs: "ChunkSettings_create 100 8 0 1 = Inr example_settings" unfolding example_settings_def by code_simp
  have q: "queued ?Q = {#}" by (simp add: queued_def)
  have pr: "popo_rep 2 (Suc (Suc 10)) (example_popo S) ?Q {#m#}"
    using S(2) by (simp add: sender_rep_def sender_owners_def last_owner_def example_sender_def)
  have c: "count (sender_owners (example_sender (Some m)) [] [] + {#} + queued ?Q) m = 1"
    by (simp add: q sender_owners_def last_owner_def example_sender_def)
  obtain i a h where h: "chunk_content S m = ((i, a), Some h)"
    by (rule popo_rep_header_of [OF pr, of m]) auto
  have "cs_requiredChunkSize example_settings \<le> ch_chunkSize h"
  proof -
    have "map_sum id (\<lambda>(r, S'). case r of Inr (Some m) \<Rightarrow> map_option ch_chunkSize (snd (chunk_content S' m)) | _ \<Rightarrow> None)
        (MemoryManager_getChunk example_settings example_shm) = Inr (Some 168)" by code_simp
    moreover have "cs_requiredChunkSize example_settings \<le> 168" by code_simp
    ultimately show ?thesis using S(1) h by simp
  qed
  with reused_chunk_loses_origin [OF S(2) _ _ c cs, of i a h 7] S(1) h show ?thesis
    by (auto simp: example_sender_def INVALID_UNIQUE_ID_def)
qed

subsection \<open>Sending\<close>

lemma getChunkReadyForSend_ok:
  assumes rep: "sender_rep MaxAlloc Capacity b X P Q hs us Os" and m: "m \<in> set us"
    and c: "chunk_content (ps_shm P) m = ((i, a), Some h)"
  obtains l S' where "getChunkReadyForSend MaxAlloc (Some a) X (ps_shm P) =
      Inr (True, Some m, X\<lparr> csd_chunksInUse := l, csd_sequenceNumber := csd_sequenceNumber X + 1 \<rparr>, S')"
    "ucl_rep MaxAlloc l (remove1 m us)" "popo_rep Capacity b (P\<lparr> ps_shm := S' \<rparr>) Q (sender_owners X hs us + Os)"
    "chunk_content S' m = ((i, a), Some (setSequenceNumber (csd_sequenceNumber X) h))"
    "\<forall>x. x \<in># sender_owners X hs us + Os + queued Q \<longrightarrow> x \<noteq> m \<longrightarrow> chunk_content S' x = chunk_content (ps_shm P) x"
proof -
  let ?O = "sender_owners X hs us + Os" and ?h = "setSequenceNumber (csd_sequenceNumber X) h"
  have pr: "popo_rep Capacity b P Q ?O" and ucl: "ucl_rep MaxAlloc (csd_chunksInUse X) us"
    using rep by (simp_all add: sender_rep_def)
  have inv: "shm_inv (ps_shm P) (?O + queued Q)" using pr by (simp add: popo_rep_def)
  have us: "set us \<subseteq> set_mset (?O + queued Q)" by (auto simp: sender_owners_def)
  with m have mo: "m \<in># ?O + queued Q" by blast
  obtain l where l: "UsedChunkList_remove MaxAlloc (Some a) None (csd_chunksInUse X) (ps_shm P) = Inr (True, Some m, l, ps_shm P)"
    "ucl_rep MaxAlloc l (remove1 m us)"
    using UsedChunkList_remove_owned [OF ucl inv us m] c by auto
  have hd: "shm_headers (ps_shm P) a = Some h" "SharedChunk_getChunkHeader (Some m) (ps_shm P) = Some a"
    "ch_chunkHeaderVersion h = CHUNK_HEADER_VERSION"
    using popo_rep_header_of [OF pr mo] c by auto
  let ?S = "(ps_shm P)\<lparr> shm_headers := (shm_headers (ps_shm P))(a \<mapsto> ?h), shm_offsets := shm_offsets (ps_shm P) \<rparr>"
  have hh: "ch_chunkSize ?h = ch_chunkSize h" "ch_chunkHeaderVersion ?h = CHUNK_HEADER_VERSION"
    using hd(3) by (simp_all add: setSequenceNumber_def)
  have "getChunkReadyForSend MaxAlloc (Some a) X (ps_shm P) =
      Inr (True, Some m, X\<lparr> csd_chunksInUse := l, csd_sequenceNumber := csd_sequenceNumber X + 1 \<rparr>, ?S)"
    using l(1) hd by (simp add: getChunkReadyForSend_def update_header_def)
  with l(2) popo_rep_header_write [OF pr mo c hh refl] show thesis using that by blast
qed

lemma remember_last_chunk_ok:
  assumes "popo_rep Capacity (Suc b) P Q (add_mset m (last_owner X + Os))"
  obtains S' where "remember_last_chunk (Some m) X (ps_shm P) = Inr (X\<lparr> csd_lastChunkUnmanaged := Some m \<rparr>, S')"
    "popo_rep Capacity b (P\<lparr> ps_shm := S' \<rparr>) Q (add_mset m Os)"
    "same_chunks (add_mset m Os + queued Q) P (P\<lparr> ps_shm := S' \<rparr>)"
proof -
  obtain S1 where S1: "SharedChunk_dtor (csd_lastChunkUnmanaged X) (ps_shm P) = Inr S1"
    "popo_rep Capacity (Suc b) (P\<lparr> ps_shm := S1 \<rparr>) Q (add_mset m Os)"
    "same_chunks (add_mset m Os + queued Q) P (P\<lparr> ps_shm := S1 \<rparr>)"
  proof (cases "csd_lastChunkUnmanaged X")
    case None
    have "P\<lparr> ps_shm := ps_shm P \<rparr> = P" by simp
    with None that [of "ps_shm P"] assms show thesis
      by (simp add: last_owner_def SharedChunk_dtor_def decrementReferenceCounter_def)
  next
    case (Some l)
    then have "popo_rep Capacity (Suc b) P Q (add_mset l (add_mset m Os))"
      using assms by (simp add: last_owner_def add_mset_commute)
    from popo_release_ok [OF this] that Some show thesis by auto
  qed
  obtain S2 where S2: "incrementReferenceCounter (Some m) S1 = Inr S2"
    "popo_rep Capacity b (P\<lparr> ps_shm := S2 \<rparr>) Q (add_mset m (add_mset m Os))" "chunk_content S2 = chunk_content S1"
    using popo_clone_ok [OF S1(2), of m] by auto
  obtain S3 where S3: "SharedChunk_dtor (Some m) S2 = Inr S3" "popo_rep Capacity b (P\<lparr> ps_shm := S3 \<rparr>) Q (add_mset m Os)"
    "same_chunks (add_mset m Os + queued Q) (P\<lparr> ps_shm := S2 \<rparr>) (P\<lparr> ps_shm := S3 \<rparr>)"
    using popo_release_ok [OF S2(2)] by auto
  have "remember_last_chunk (Some m) X (ps_shm P) = Inr (X\<lparr> csd_lastChunkUnmanaged := Some m \<rparr>, S3)"
    using S1(1) S2(1) S3(1) by (simp add: remember_last_chunk_def releaseToSharedChunk_def SharedChunk_copy_def
        SharedChunk_assign_def decrementReferenceCounter_def ShmSafeUnmanagedChunk_ctor_def)
  moreover have "same_chunks (add_mset m Os + queued Q) P (P\<lparr> ps_shm := S3 \<rparr>)"
    using S1(3) S2(3) S3(3) by (auto simp: same_chunks_def)
  ultimately show thesis using that S3(2) by blast
qed

lemma same_chunksD: "same_chunks Os P P' \<Longrightarrow> x \<in># Os \<Longrightarrow> chunk_content (ps_shm P') x = chunk_content (ps_shm P) x"
  by (simp add: same_chunks_def)

lemma send_rounds:
  assumes rep: "sender_rep MaxAlloc Capacity (b + length rounds * (c + 2 * length (cdd_queues (csd_distributor X))) +
        2 * length (cdd_queues (csd_distributor X)) + 2) X P Q hs us Os"
    and m: "m \<in> set us" and content: "chunk_content (ps_shm P) m = ((i, a), Some h)"
    and others: "\<forall>others\<in>set rounds. others_ok Capacity c (add_mset m (mset (remove1 m us) + last_owner X)) others"
  shows "\<exists>P1 A n D2 P2 Q2 hs2 Os2.
    popo_rep Capacity (b + 2) P1 (delivered Capacity P m (set (cdd_queues (csd_distributor X))) Q) (sender_owners X hs us + Os) \<and>
    queue_static Capacity P1 = queue_static Capacity P \<and>
    (\<forall>q. lost_flag P1 q = (lost_flag P q \<or> q \<in> set (cdd_queues (csd_distributor X)) \<and> queue_full Capacity P Q q \<and>
       \<not> waits Capacity (cdd_consumerTooSlowPolicy (csd_distributor X) = WAIT_FOR_CONSUMER) P Q q)) \<and>
    delivery_rounds Capacity (add_mset m (mset (remove1 m us) + last_owner X)) m rounds
      {q \<in> set (cdd_queues (csd_distributor X)). waits Capacity (cdd_consumerTooSlowPolicy (csd_distributor X) = WAIT_FOR_CONSUMER) P Q q}
      (card {q \<in> set (cdd_queues (csd_distributor X)). \<not> waits Capacity (cdd_consumerTooSlowPolicy (csd_distributor X) = WAIT_FOR_CONSUMER) P Q q})
      (csd_distributor X) P1 (delivered Capacity P m (set (cdd_queues (csd_distributor X))) Q) hs Os (A, n, D2, P2, Q2, hs2, Os2) \<and>
    (\<forall>x. x \<in># Os + mset hs + queued (delivered Capacity P m (set (cdd_queues (csd_distributor X))) Q) \<longrightarrow> x \<noteq> m \<longrightarrow>
       chunk_content (ps_shm P1) x = chunk_content (ps_shm P) x) \<and>
    (A \<noteq> {} \<longrightarrow> ChunkSender_send MaxAlloc Capacity rounds (Some a) X P = Inl NO_RETURN) \<and>
    (A = {} \<longrightarrow> (\<exists>X' P'. ChunkSender_send MaxAlloc Capacity rounds (Some a) X P = Inr (of_nat n, X', P') \<and>
      sender_rep MaxAlloc Capacity b X' P' Q2 (history_spec (unat (cdd_historyCapacity D2)) m hs2) (remove1 m us) Os2 \<and>
      csd_lastChunkUnmanaged X' = Some m \<and> csd_sequenceNumber X' = csd_sequenceNumber X + 1 \<and>
      csd_distributor X' = D2\<lparr> cdd_history := map Some (history_spec (unat (cdd_historyCapacity D2)) m hs2) \<rparr> \<and>
      lost_flag P' = lost_flag P2 \<and>
      chunk_content (ps_shm P') m = ((i, a), Some (setSequenceNumber (csd_sequenceNumber X) h)) \<and>
      (\<forall>x. x \<in> set (remove1 m us) \<longrightarrow> x \<noteq> m \<longrightarrow> chunk_content (ps_shm P') x = chunk_content (ps_shm P) x) \<and>
      (\<forall>x. x \<in># Os2 + queued Q2 \<longrightarrow> chunk_content (ps_shm P') x = chunk_content (ps_shm P2) x)))"
proof -
  let ?D = "csd_distributor X" and ?us = "remove1 m us"
  let ?Q = "delivered Capacity P m (set (cdd_queues ?D)) Q" and ?F = "add_mset m (mset ?us + last_owner X)"
  let ?B = "length rounds * (c + 2 * length (cdd_queues ?D)) + 2 * length (cdd_queues ?D)"
  have D: "distributor_ok ?D Q hs" using rep by (simp add: sender_rep_def)
  obtain l S1 where S1: "getChunkReadyForSend MaxAlloc (Some a) X (ps_shm P) =
      Inr (True, Some m, X\<lparr> csd_chunksInUse := l, csd_sequenceNumber := csd_sequenceNumber X + 1 \<rparr>, S1)"
    "ucl_rep MaxAlloc l ?us"
    "popo_rep Capacity (b + ?B + 2) (P\<lparr> ps_shm := S1 \<rparr>) Q (sender_owners X hs us + Os)"
    "chunk_content S1 m = ((i, a), Some (setSequenceNumber (csd_sequenceNumber X) h))"
    "\<forall>x. x \<in># sender_owners X hs us + Os + queued Q \<longrightarrow> x \<noteq> m \<longrightarrow> chunk_content S1 x = chunk_content (ps_shm P) x"
    using getChunkReadyForSend_ok [OF rep m content] by (auto simp: add.assoc)
  let ?P1 = "P\<lparr> ps_shm := S1 \<rparr>"
  have own: "sender_owners X hs us + Os = mset hs + (?F + Os)"
    using m by (simp add: sender_owners_def)
  have rep1: "popo_rep Capacity (Suc b + length rounds * (c + 2 * length (cdd_queues ?D)) + 2 * length (cdd_queues ?D) + 1) ?P1 Q (mset hs + (?F + Os))"
    using S1(3) own by (simp add: algebra_simps)
  have sc: "delivered Capacity ?P1 = delivered Capacity P" "queue_full Capacity ?P1 = queue_full Capacity P" "waits Capacity w ?P1 = waits Capacity w P" for w
    using static_cong [OF queue_static_shm [where P = P and S = S1 and Capacity = Capacity]] by (simp_all add: waits_def fun_eq_iff)
  have mF: "m \<in># ?F" by simp
  obtain P1 A n D2 P2 Q2 hs2 Os2 where R:
    "popo_rep Capacity (Suc b + 1) P1 ?Q (mset hs + (?F + Os))" "queue_static Capacity P1 = queue_static Capacity P"
    "\<forall>q. lost_flag P1 q = (lost_flag P q \<or> q \<in> set (cdd_queues ?D) \<and> queue_full Capacity P Q q \<and>
       \<not> waits Capacity (cdd_consumerTooSlowPolicy ?D = WAIT_FOR_CONSUMER) P Q q)"
    "same_chunks (mset hs + (?F + Os) + queued ?Q) ?P1 P1"
    "delivery_rounds Capacity ?F m rounds
      {q \<in> set (cdd_queues ?D). waits Capacity (cdd_consumerTooSlowPolicy ?D = WAIT_FOR_CONSUMER) P Q q}
      (card {q \<in> set (cdd_queues ?D). \<not> waits Capacity (cdd_consumerTooSlowPolicy ?D = WAIT_FOR_CONSUMER) P Q q})
      ?D P1 ?Q hs Os (A, n, D2, P2, Q2, hs2, Os2)"
    "same_chunks ?F ?P1 P2" "distributor_ok D2 Q2 hs2"
    "A \<noteq> {} \<longrightarrow> deliverToAllStoredQueues Capacity (Some m) rounds ?D ?P1 = Inl NO_RETURN"
    "A = {} \<longrightarrow> (\<exists>P3. deliverToAllStoredQueues Capacity (Some m) rounds ?D ?P1 =
        Inr (of_nat n, D2\<lparr> cdd_history := map Some (history_spec (unat (cdd_historyCapacity D2)) m hs2) \<rparr>, P3) \<and>
      popo_rep Capacity (Suc b) P3 Q2 (mset (history_spec (unat (cdd_historyCapacity D2)) m hs2) + (?F + Os2)) \<and>
      lost_flag P3 = lost_flag P2 \<and>
      same_chunks (?F + Os2 + mset (history_spec (unat (cdd_historyCapacity D2)) m hs2) + queued Q2) P2 P3)"
    using deliver_to_all_rounds [OF rep1 mF D others] unfolding sc lost_flag_shm queue_static_shm
    by (elim exE conjE) (rule that, assumption+)
  let ?h = "history_spec (unat (cdd_historyCapacity D2)) m hs2"
  have fin: "finite (dom Q)" using rep by (simp add: sender_rep_def popo_rep_def)
  have same: "chunk_content (ps_shm P1) x = chunk_content (ps_shm P) x" if x: "x \<in># Os + mset hs + queued ?Q" "x \<noteq> m" for x
  proof -
    have "x \<in># sender_owners X hs us + Os + queued Q"
      using queued_delivered [OF fin, of Capacity P m "set (cdd_queues ?D)"] x unfolding own by auto
    with S1(5) x(2) have "chunk_content S1 x = chunk_content (ps_shm P) x" by blast
    then show ?thesis using R(4) x(1) by (auto simp: same_chunks_def)
  qed
  have stuck: "A \<noteq> {} \<longrightarrow> ChunkSender_send MaxAlloc Capacity rounds (Some a) X P = Inl NO_RETURN"
    using S1(1) R(8) by (simp add: ChunkSender_send_def)
  have returns: "\<exists>X' P'. ChunkSender_send MaxAlloc Capacity rounds (Some a) X P = Inr (of_nat n, X', P') \<and>
      sender_rep MaxAlloc Capacity b X' P' Q2 ?h ?us Os2 \<and>
      csd_lastChunkUnmanaged X' = Some m \<and> csd_sequenceNumber X' = csd_sequenceNumber X + 1 \<and>
      csd_distributor X' = D2\<lparr> cdd_history := map Some ?h \<rparr> \<and> lost_flag P' = lost_flag P2 \<and>
      chunk_content (ps_shm P') m = ((i, a), Some (setSequenceNumber (csd_sequenceNumber X) h)) \<and>
      (\<forall>x. x \<in> set ?us \<longrightarrow> x \<noteq> m \<longrightarrow> chunk_content (ps_shm P') x = chunk_content (ps_shm P) x) \<and>
      (\<forall>x. x \<in># Os2 + queued Q2 \<longrightarrow> chunk_content (ps_shm P') x = chunk_content (ps_shm P2) x)" if A: "A = {}"
  proof -
    obtain P3 where P3: "deliverToAllStoredQueues Capacity (Some m) rounds ?D ?P1 = Inr (of_nat n, D2\<lparr> cdd_history := map Some ?h \<rparr>, P3)"
      "popo_rep Capacity (Suc b) P3 Q2 (mset ?h + (?F + Os2))" "lost_flag P3 = lost_flag P2"
      "same_chunks (?F + Os2 + mset ?h + queued Q2) P2 P3" using R(9) A by blast
    let ?X1 = "X\<lparr> csd_chunksInUse := l, csd_sequenceNumber := csd_sequenceNumber X + 1, csd_distributor := D2\<lparr> cdd_history := map Some ?h \<rparr> \<rparr>"
    have "popo_rep Capacity (Suc b) P3 Q2 (add_mset m (last_owner ?X1 + (mset ?h + mset ?us + Os2)))"
      using P3(2) by (simp add: last_owner_def ac_simps)
    then obtain S3 where S3: "remember_last_chunk (Some m) ?X1 (ps_shm P3) = Inr (?X1\<lparr> csd_lastChunkUnmanaged := Some m \<rparr>, S3)"
      "popo_rep Capacity b (P3\<lparr> ps_shm := S3 \<rparr>) Q2 (add_mset m (mset ?h + mset ?us + Os2))"
      "same_chunks (add_mset m (mset ?h + mset ?us + Os2) + queued Q2) P3 (P3\<lparr> ps_shm := S3 \<rparr>)"
      by (rule remember_last_chunk_ok)
    let ?X = "?X1\<lparr> csd_lastChunkUnmanaged := Some m \<rparr>" and ?P = "P3\<lparr> ps_shm := S3 \<rparr>"
    have run: "ChunkSender_send MaxAlloc Capacity rounds (Some a) X P = Inr (of_nat n, ?X, ?P)"
      using S1(1) P3(1) S3(1) by (simp add: ChunkSender_send_def)
    have "length ?h \<le> unat (cdd_historyCapacity D2)" using R(7) by (simp add: distributor_ok_def history_spec_def)
    then have sr: "sender_rep MaxAlloc Capacity b ?X ?P Q2 ?h ?us Os2"
      using R(7) S1(2) S3(2) by (simp add: sender_rep_def distributor_ok_def sender_owners_def last_owner_def ac_simps)
    have F: "chunk_content S3 x = chunk_content S1 x" if "x \<in> insert m (set ?us)" for x
      using same_chunksD [OF S3(3), of x] same_chunksD [OF P3(4), of x] same_chunksD [OF R(6), of x] that
      by (auto simp flip: set_mset_mset simp del: set_mset_mset mset_remove1)
    have us: "chunk_content S1 x = chunk_content (ps_shm P) x" if "x \<in> set ?us" "x \<noteq> m" for x
      using that S1(5) notin_set_remove1 [of x us m] by (auto simp: sender_owners_def)
    have o: "chunk_content S3 x = chunk_content (ps_shm P2) x" if "x \<in># Os2 + queued Q2" for x
      using same_chunksD [OF S3(3), of x] same_chunksD [OF P3(4), of x] that by auto
    have "\<forall>x. x \<in> set ?us \<longrightarrow> x \<noteq> m \<longrightarrow> chunk_content S3 x = chunk_content (ps_shm P) x" using F us by auto
    moreover have "chunk_content S3 m = ((i, a), Some (setSequenceNumber (csd_sequenceNumber X) h))" using F S1(4) by simp
    ultimately show ?thesis using run sr P3(3) o by (intro exI [of _ ?X] exI [of _ ?P]) simp
  qed
  have "popo_rep Capacity (b + 2) P1 ?Q (sender_owners X hs us + Os)" unfolding own using R(1) by simp
  then show ?thesis using R(2,3,5) same stuck returns
    by (intro exI [of _ P1] exI [of _ A] exI [of _ n] exI [of _ D2] exI [of _ P2] exI [of _ Q2] exI [of _ hs2] exI [of _ Os2]) simp
qed

text \<open>
  C5: sending a chunk \<open>m\<close> that the application holds, with any number of rounds of waiting for slow consumers. The chunk gets the sequence
  number, which is one higher the next time. In the first pass every connected queue receives it as specified, and the lost-chunk flag is set
  for exactly the queues that overflowed and do not block the producer. Then the blocking queues that were full are
  served, in each round those that are still connected, until none remains full, whatever the other threads do in between as long as they keep the
  state consistent and leave the chunks of this application alone. When the call returns, which it does in particular if in one round no queue is left full, the
  number of deliveries is the result, the chunk has left the list of chunks in use, has joined the history and is the last chunk; its header is
  unchanged but for the sequence number, the other chunks are not changed and every reference counter is right.
\<close>

theorem sender_send_correct:
  assumes "sender_rep MaxAlloc Capacity (b + length rounds * (c + 2 * length (cdd_queues (csd_distributor X))) +
        2 * length (cdd_queues (csd_distributor X)) + 2) X P Q hs us Os"
    and "m \<in> set us" "chunk_content (ps_shm P) m = ((i, a), Some h)"
    and "\<forall>others\<in>set rounds. others_ok Capacity c (add_mset m (mset (remove1 m us) + last_owner X)) others"
  shows "\<exists>P1 A n D2 P2 Q2 hs2 Os2.
    popo_rep Capacity (b + 2) P1 (delivered Capacity P m (set (cdd_queues (csd_distributor X))) Q) (sender_owners X hs us + Os) \<and>
    queue_static Capacity P1 = queue_static Capacity P \<and>
    (\<forall>q. lost_flag P1 q = (lost_flag P q \<or> q \<in> set (cdd_queues (csd_distributor X)) \<and> queue_full Capacity P Q q \<and>
       \<not> waits Capacity (cdd_consumerTooSlowPolicy (csd_distributor X) = WAIT_FOR_CONSUMER) P Q q)) \<and>
    delivery_rounds Capacity (add_mset m (mset (remove1 m us) + last_owner X)) m rounds
      {q \<in> set (cdd_queues (csd_distributor X)). waits Capacity (cdd_consumerTooSlowPolicy (csd_distributor X) = WAIT_FOR_CONSUMER) P Q q}
      (card {q \<in> set (cdd_queues (csd_distributor X)). \<not> waits Capacity (cdd_consumerTooSlowPolicy (csd_distributor X) = WAIT_FOR_CONSUMER) P Q q})
      (csd_distributor X) P1 (delivered Capacity P m (set (cdd_queues (csd_distributor X))) Q) hs Os (A, n, D2, P2, Q2, hs2, Os2) \<and>
    (\<forall>x. x \<in># Os + mset hs + queued (delivered Capacity P m (set (cdd_queues (csd_distributor X))) Q) \<longrightarrow> x \<noteq> m \<longrightarrow>
       chunk_content (ps_shm P1) x = chunk_content (ps_shm P) x) \<and>
    ((\<exists>others\<in>set rounds. makes_room Capacity others) \<longrightarrow> A = {}) \<and>
    (A \<noteq> {} \<longrightarrow> ChunkSender_send MaxAlloc Capacity rounds (Some a) X P = Inl NO_RETURN) \<and>
    (A = {} \<longrightarrow> (\<exists>X' P'. ChunkSender_send MaxAlloc Capacity rounds (Some a) X P = Inr (of_nat n, X', P') \<and>
      sender_rep MaxAlloc Capacity b X' P' Q2 (history_spec (unat (cdd_historyCapacity D2)) m hs2) (remove1 m us) Os2 \<and>
      csd_lastChunkUnmanaged X' = Some m \<and> csd_sequenceNumber X' = csd_sequenceNumber X + 1 \<and>
      csd_distributor X' = D2\<lparr> cdd_history := map Some (history_spec (unat (cdd_historyCapacity D2)) m hs2) \<rparr> \<and>
      lost_flag P' = lost_flag P2 \<and>
      chunk_content (ps_shm P') m = ((i, a), Some (setSequenceNumber (csd_sequenceNumber X) h)) \<and>
      (\<forall>x. x \<in> set (remove1 m us) \<longrightarrow> x \<noteq> m \<longrightarrow> chunk_content (ps_shm P') x = chunk_content (ps_shm P) x) \<and>
      (\<forall>x. x \<in># Os2 + queued Q2 \<longrightarrow> chunk_content (ps_shm P') x = chunk_content (ps_shm P2) x)))"
  using send_rounds [OF assms] delivery_rounds_room [of Capacity _ m rounds]
  by (elim exE conjE) (intro exI conjI, (assumption | force)+)

text \<open>A sender whose application holds one chunk, with two full queues, one of which blocks it until they are disconnected.\<close>

lemma example_blocked_sender:
  assumes "b < 900"
  obtains m P l i a h where
    "sender_rep 2 2 b ((example_sender None)\<lparr> csd_chunksInUse := l, csd_distributor := example_distributor\<lparr> cdd_history := [Some m] \<rparr> \<rparr>) P
       [0x100 \<mapsto> [m, m], 0x200 \<mapsto> [m, m]] [m] [m] {#}"
    "chunk_content (ps_shm P) m = ((i, a), Some h)"
    "queue_blocks 2 P 0x200" "\<not> queue_blocks 2 P 0x100" "queue_cap 2 P 0x200 = 2"
proof -
  obtain m S P where P: "popo_rep 2 b P [0x100 \<mapsto> [m, m], 0x200 \<mapsto> [m, m]] (mset [m] + {#m#})"
    "queue_static 2 P = queue_static 2 (example_popo S)"
    "distributor_ok (example_distributor\<lparr> cdd_history := [Some m] \<rparr>) [0x100 \<mapsto> [m, m], 0x200 \<mapsto> [m, m]] [m]"
    by (rule example_full_queues [OF assms])
  obtain i a h where h: "chunk_content (ps_shm P) m = ((i, a), Some h)" by (rule popo_rep_header_of [OF P(1), of m]) auto
  obtain l where l: "ucl_rep 2 l [m]"
    by (rule UsedChunkList_insert_ok [OF example_used_list_rep, where m = m and S = "ps_shm P"]) auto
  have "sender_rep 2 2 b ((example_sender None)\<lparr> csd_chunksInUse := l, csd_distributor := example_distributor\<lparr> cdd_history := [Some m] \<rparr> \<rparr>) P
       [0x100 \<mapsto> [m, m], 0x200 \<mapsto> [m, m]] [m] [m] {#}"
    using P(1,3) l by (simp add: sender_rep_def example_sender_def sender_owners_def last_owner_def)
  moreover have "queue_blocks 2 P 0x200" "\<not> queue_blocks 2 P 0x100" "queue_cap 2 P 0x200 = 2"
    using static_cong [OF P(2)] example_queue_cap [of S]
    by (simp_all add: queue_blocks_def queue_static_def example_popo_def ChunkQueueData_ctor_def)
  ultimately show thesis using that h by blast
qed

lemma sender_send_correct_witness:
  "\<exists>m X P a X' P'. ChunkSender_send 2 2 [disconnect_all] (Some a) X P = Inr (1, X', P') \<and>
     cdd_queues (csd_distributor X) = [0x100, 0x200] \<and> csd_lastChunkUnmanaged X' = Some m \<and> csd_sequenceNumber X' = 1"
proof -
  obtain m P l i a h where rep:
    "sender_rep 2 2 20 ((example_sender None)\<lparr> csd_chunksInUse := l, csd_distributor := example_distributor\<lparr> cdd_history := [Some m] \<rparr> \<rparr>) P
       [0x100 \<mapsto> [m, m], 0x200 \<mapsto> [m, m]] [m] [m] {#}"
    and h: "chunk_content (ps_shm P) m = ((i, a), Some h)"
    and w: "queue_blocks 2 P 0x200" "\<not> queue_blocks 2 P 0x100" "queue_cap 2 P 0x200 = 2"
    by (rule example_blocked_sender [of 20]) auto
  let ?D = "example_distributor\<lparr> cdd_history := [Some m] \<rparr>"
  let ?X = "(example_sender None)\<lparr> csd_chunksInUse := l, csd_distributor := ?D \<rparr>"
  let ?Q = "[0x100 \<mapsto> [m, m], 0x200 \<mapsto> [m, m]] :: queue_contents" and ?w = "cdd_consumerTooSlowPolicy (csd_distributor ?X) = WAIT_FOR_CONSUMER"
  have D: "cdd_queues (csd_distributor ?X) = [0x100, 0x200]" "?w" "csd_sequenceNumber ?X = 0"
    by (simp_all add: example_distributor_def ChunkDistributorData_ctor_def example_sender_def)
  have ws: "{q \<in> set (cdd_queues (csd_distributor ?X)). waits 2 ?w P ?Q q} = {0x200}"
    "{q \<in> set (cdd_queues (csd_distributor ?X)). \<not> waits 2 ?w P ?Q q} = {0x100}"
    using w D(1,2) by (auto simp: waits_def queue_full_def)
  have rep': "sender_rep 2 2 (10 + length [disconnect_all] * (0 + 2 * length (cdd_queues (csd_distributor ?X))) +
      2 * length (cdd_queues (csd_distributor ?X)) + 2) ?X P ?Q [m] [m] {#}"
    using rep D(1) by simp
  obtain P1 n D2 P2 Q2 hs2 Os2 X' P' where R: "delivery_rounds 2 (add_mset m (mset (remove1 m [m]) + last_owner ?X)) m [disconnect_all] {0x200}
      (card {0x100 :: address}) (csd_distributor ?X) P1 (delivered 2 P m (set (cdd_queues (csd_distributor ?X))) ?Q) [m] {#} ({}, n, D2, P2, Q2, hs2, Os2)"
    "ChunkSender_send 2 2 [disconnect_all] (Some a) ?X P = Inr (of_nat n, X', P')" "csd_lastChunkUnmanaged X' = Some m" "csd_sequenceNumber X' = 1"
    using sender_send_correct [OF rep' _ h] disconnect_all_ok unfolding ws D(3) by auto
  from R(1) have "n = 1"
    by (rule delivery_rounds_one) (auto simp: disconnect_all_def elim: delivery_rounds.cases)
  then show ?thesis using R(2-4) D(1) by (intro exI [of _ m] exI [of _ ?X] exI [of _ P] exI [of _ a] exI [of _ X'] exI [of _ P']) simp
qed

subsection \<open>Clean-up\<close>

lemma release_data_cleanup: "release_data ds S = cleanup_data ds S"
  by (induction ds arbitrary: S)
    (auto simp: releaseToSharedChunk_def SharedChunk_dtor_def decrementReferenceCounter_def)

lemmas release_data_eq = release_data_cleanup [unfolded cleanup_data_eq]

lemma popo_release_list_ok:
  assumes "popo_rep Capacity b P Q (mset ms + Os)"
  obtains S' where "release_list release_chunk ms (ps_shm P) = Inr S'" "popo_rep Capacity b (P\<lparr> ps_shm := S' \<rparr>) Q Os"
    "same_chunks (Os + queued Q) P (P\<lparr> ps_shm := S' \<rparr>)"
proof -
  have "shm_inv (ps_shm P) (mset ms + (Os + queued Q))" using assms by (simp add: popo_rep_def add.assoc)
  from shm.release_list_ok [OF this] obtain S' where S': "release_list release_chunk ms (ps_shm P) = Inr S'"
    "shm_inv S' (Os + queued Q)" "\<forall>x. x \<in># Os + queued Q \<longrightarrow> chunk_content S' x = chunk_content (ps_shm P) x" by blast
  have "popo_rep Capacity b (P\<lparr> ps_shm := S' \<rparr>) Q Os"
  proof (rule popo_rep_shm [OF assms])
    have "\<forall>x. x \<in># mset ms + Os + queued Q \<longrightarrow> version_ok (ps_shm P) x" using assms unfolding popo_rep_def by blast
    then show "\<forall>x. x \<in># Os + queued Q \<longrightarrow>
        chunk_content S' x = chunk_content (ps_shm P) x \<and> version_ok (ps_shm P) x" using S'(3) by auto
  qed (use S' in auto)
  with S' show thesis using that by (simp add: same_chunks_def)
qed

lemma popo_cleanup_ok:
  assumes pr: "popo_rep Capacity b P Q (mset us + Os)" and ucl: "ucl_rep MaxAlloc l us"
  obtains l' S' where "UsedChunkList_cleanup MaxAlloc l (ps_shm P) = Inr (l', S')" "ucl_rep MaxAlloc l' []"
    "popo_rep Capacity b (P\<lparr> ps_shm := S' \<rparr>) Q Os" "same_chunks (Os + queued Q) P (P\<lparr> ps_shm := S' \<rparr>)"
proof -
  obtain vs fs where sh: "ucl_shape MaxAlloc l vs fs" using ucl by (auto simp: ucl_rep_def)
  have "shm_inv (ps_shm P) (mset (stored_chunks (ucl_listData l)) + (Os + queued Q))"
    using pr stored_chunks_rep [OF ucl] by (simp add: popo_rep_def add.assoc)
  then obtain l' S' where S': "UsedChunkList_cleanup MaxAlloc l (ps_shm P) = Inr (l', S')" "ucl_rep MaxAlloc l' []"
    "shm_inv S' (Os + queued Q)" "\<forall>x. x \<in># Os + queued Q \<longrightarrow> chunk_content S' x = chunk_content (ps_shm P) x"
    using UsedChunkList_cleanup_ok [of MaxAlloc l "ps_shm P" "Os + queued Q"] sh by (auto simp: ucl_shape_def)
  have "popo_rep Capacity b (P\<lparr> ps_shm := S' \<rparr>) Q Os"
  proof (rule popo_rep_shm [OF pr])
    have "\<forall>x. x \<in># mset us + Os + queued Q \<longrightarrow> version_ok (ps_shm P) x" using pr unfolding popo_rep_def by blast
    then show "\<forall>x. x \<in># Os + queued Q \<longrightarrow>
        chunk_content S' x = chunk_content (ps_shm P) x \<and> version_ok (ps_shm P) x" using S'(4) by auto
  qed (use S' in auto)
  with S' show thesis using that by (simp add: same_chunks_def)
qed

lemma releaseAll_sender_ok:
  assumes rep: "sender_rep MaxAlloc Capacity b X P Q hs us Os"
  obtains X' P' where "ChunkSender_releaseAll MaxAlloc X P = Inr (X', P')" "sender_rep MaxAlloc Capacity b X' P' Q [] [] Os"
    "csd_lastChunkUnmanaged X' = None" "same_chunks (Os + queued Q) P P'"
    "queue_static Capacity P' = queue_static Capacity P" "cdd_queues (csd_distributor X') = cdd_queues (csd_distributor X)"
proof -
  have D: "distributor_ok (csd_distributor X) Q hs" and ucl: "ucl_rep MaxAlloc (csd_chunksInUse X) us"
    and pr: "popo_rep Capacity b P Q (mset us + (mset hs + (last_owner X + Os)))"
    using rep by (simp_all add: sender_rep_def sender_owners_def ac_simps)
  obtain l S1 where S1: "UsedChunkList_cleanup MaxAlloc (csd_chunksInUse X) (ps_shm P) = Inr (l, S1)" "ucl_rep MaxAlloc l []"
    "popo_rep Capacity b (P\<lparr> ps_shm := S1 \<rparr>) Q (mset hs + (last_owner X + Os))"
    "same_chunks (mset hs + (last_owner X + Os) + queued Q) P (P\<lparr> ps_shm := S1 \<rparr>)"
    by (rule popo_cleanup_ok [OF pr ucl])
  obtain S2 where S2: "release_list release_chunk hs S1 = Inr S2" "popo_rep Capacity b (P\<lparr> ps_shm := S2 \<rparr>) Q (last_owner X + Os)"
    "same_chunks (last_owner X + Os + queued Q) (P\<lparr> ps_shm := S1 \<rparr>) (P\<lparr> ps_shm := S2 \<rparr>)"
    using popo_release_list_ok [OF S1(3)] by auto
  have "stored_chunks (map Some hs) = hs" by (simp add: stored_chunks_def filter_map comp_def)
  then have cl: "ChunkDistributor_cleanup (csd_distributor X) (P\<lparr> ps_shm := S1 \<rparr>) =
      Inr ((csd_distributor X)\<lparr> cdd_history := [] \<rparr>, P\<lparr> ps_shm := S2 \<rparr>)"
    using D S2(1) by (simp add: ChunkDistributor_cleanup_def clearHistory_def locked_def distributor_ok_def release_data_eq)
  obtain S3 where S3: "SharedChunk_dtor (csd_lastChunkUnmanaged X) S2 = Inr S3" "popo_rep Capacity b (P\<lparr> ps_shm := S3 \<rparr>) Q Os"
    "same_chunks (Os + queued Q) (P\<lparr> ps_shm := S2 \<rparr>) (P\<lparr> ps_shm := S3 \<rparr>)"
  proof (cases "csd_lastChunkUnmanaged X")
    case None
    with that [of S2] S2(2) show thesis by (simp add: last_owner_def SharedChunk_dtor_def decrementReferenceCounter_def)
  next
    case (Some m)
    then have "popo_rep Capacity b (P\<lparr> ps_shm := S2 \<rparr>) Q (add_mset m Os)" using S2(2) by (simp add: last_owner_def)
    from popo_release_ok [OF this] that Some show thesis by auto
  qed
  let ?X = "X\<lparr> csd_chunksInUse := l, csd_distributor := (csd_distributor X)\<lparr> cdd_history := [] \<rparr>, csd_lastChunkUnmanaged := None \<rparr>"
  have "ChunkSender_releaseAll MaxAlloc X P = Inr (?X, P\<lparr> ps_shm := S3 \<rparr>)"
    using S1(1) cl S3(1) by (simp add: ChunkSender_releaseAll_def releaseToSharedChunk_def)
  moreover have "sender_rep MaxAlloc Capacity b ?X (P\<lparr> ps_shm := S3 \<rparr>) Q [] [] Os"
    using D S1(2) S3(2) by (simp add: sender_rep_def distributor_ok_def sender_owners_def last_owner_def)
  moreover have "same_chunks (Os + queued Q) P (P\<lparr> ps_shm := S3 \<rparr>)"
    using S1(4) S2(3) S3(3) by (auto simp: same_chunks_def)
  ultimately show thesis using that [of ?X "P\<lparr> ps_shm := S3 \<rparr>"] by simp
qed

end
