(* ===== verification/Chunk_Receiver.thy ===== *)
theory Chunk_Receiver
  imports Chunk_Sender
begin

section \<open>The chunk receiver\<close>

text \<open>
  \<open>popo::ChunkReceiverData\<close> and \<open>popo::ChunkReceiver\<close> (\<open>chunk_receiver_data.hpp\<close>, \<open>chunk_receiver.inl\<close>):
  a chunk queue together with the list of the chunks that the application holds. The data of the
  queue is the base-class part and lives at \<open>crd_queue\<close>. \<open>MaxHeld\<close> is the template parameter
  \<open>MaxChunksHeldSimultaneously\<close>; the list has one entry more.
\<close>

datatype chunk_receive_result = TOO_MANY_CHUNKS_HELD_IN_PARALLEL | NO_CHUNK_AVAILABLE

definition MAX_CHUNKS_IN_USE :: "u32 \<Rightarrow> u32" where
  "MAX_CHUNKS_IN_USE MaxHeld = MaxHeld + 1"

record chunk_receiver_data =
  crd_queue :: address
  crd_chunksInUse :: used_chunk_list

text \<open>The constructor places the queue at address \<open>q\<close>; the indices are the initial content of the arrays.\<close>

definition ChunkReceiverData_ctor ::
  "u32 \<Rightarrow> u64 \<Rightarrow> u64 \<Rightarrow> variant_queue_types \<Rightarrow> queue_full_policy \<Rightarrow> address \<Rightarrow> u32 list \<Rightarrow> popo_state \<Rightarrow>
     (chunk_receiver_data \<times> popo_state) outcome" where
  "ChunkReceiverData_ctor MaxHeld Capacity uniqueId queueType queueFullPolicy q indices P =
     obind (UsedChunkList_ctor (MAX_CHUNKS_IN_USE MaxHeld) indices (ps_shm P)) (\<lambda>(l, S').
     Inr (\<lparr> crd_queue = q, crd_chunksInUse = l \<rparr>,
          P\<lparr> ps_shm := S', ps_queues := (ps_queues P)(q \<mapsto> ChunkQueueData_ctor Capacity uniqueId queueFullPolicy queueType) \<rparr>))"

definition ChunkReceiver_tryGet ::
  "u32 \<Rightarrow> u64 \<Rightarrow> chunk_receiver_data \<Rightarrow> popo_state \<Rightarrow>
     ((chunk_receive_result + address pointer) \<times> chunk_receiver_data \<times> popo_state) outcome" where
  "ChunkReceiver_tryGet MaxHeld Capacity R P =
     obind (ChunkQueuePopper_tryPop Capacity (crd_queue R) P) (\<lambda>(popRet, P1).
       case popRet of
         None \<Rightarrow> Inr (Inl NO_CHUNK_AVAILABLE, R, P1)
       | Some popped \<Rightarrow>
           obind (SharedChunk_copy popped (ps_shm P1)) (\<lambda>(sharedChunk, S1).
           obind (insert_copy (MAX_CHUNKS_IN_USE MaxHeld) sharedChunk (crd_chunksInUse R) S1) (\<lambda>(ok, l, S2).
             let result = (if ok then Inr (SharedChunk_getChunkHeader sharedChunk S2)
                           else Inl TOO_MANY_CHUNKS_HELD_IN_PARALLEL)
             in obind (SharedChunk_dtor sharedChunk S2) (\<lambda>S3.
                obind (SharedChunk_dtor popped S3) (\<lambda>S4.
                Inr (result, R\<lparr> crd_chunksInUse := l \<rparr>, P1\<lparr> ps_shm := S4 \<rparr>))))))"

definition ChunkReceiver_release ::
  "u32 \<Rightarrow> address pointer \<Rightarrow> chunk_receiver_data \<Rightarrow> popo_state \<Rightarrow> (chunk_receiver_data \<times> popo_state) outcome" where
  "ChunkReceiver_release MaxHeld chunkHeader R P =
     obind (UsedChunkList_remove (MAX_CHUNKS_IN_USE MaxHeld) chunkHeader None (crd_chunksInUse R) (ps_shm P))
       (\<lambda>(removed, chunk, l, S1).
       let continue = obind (SharedChunk_dtor chunk S1) (\<lambda>S2.
             Inr (R\<lparr> crd_chunksInUse := l \<rparr>, P\<lparr> ps_shm := S2 \<rparr>))
       in if \<not> removed then errorHandler (POPO POPO__CHUNK_RECEIVER_INVALID_CHUNK_TO_RELEASE_FROM_USER) SEVERE continue
          else continue)"

definition ChunkReceiver_releaseAll ::
  "u32 \<Rightarrow> u64 \<Rightarrow> chunk_receiver_data \<Rightarrow> popo_state \<Rightarrow> (chunk_receiver_data \<times> popo_state) outcome" where
  "ChunkReceiver_releaseAll MaxHeld Capacity R P =
     obind (UsedChunkList_cleanup (MAX_CHUNKS_IN_USE MaxHeld) (crd_chunksInUse R) (ps_shm P)) (\<lambda>(l, S1).
     obind (ChunkQueuePopper_clear Capacity (crd_queue R) (P\<lparr> ps_shm := S1 \<rparr>)) (\<lambda>P2.
     Inr (R\<lparr> crd_chunksInUse := l \<rparr>, P2)))"

subsection \<open>The invariant of the receiver\<close>

definition receiver_rep ::
  "u32 \<Rightarrow> u64 \<Rightarrow> nat \<Rightarrow> chunk_receiver_data \<Rightarrow> popo_state \<Rightarrow> queue_contents \<Rightarrow> address list \<Rightarrow> address multiset \<Rightarrow> bool" where
  "receiver_rep MaxHeld Capacity b R P Q us Os \<longleftrightarrow>
     crd_queue R \<in> dom Q \<and> ucl_rep (MAX_CHUNKS_IN_USE MaxHeld) (crd_chunksInUse R) us \<and>
     popo_rep Capacity b P Q (mset us + Os)"

lemma queued_head:
  assumes "popo_rep Capacity b P Q Os" "Q q = Some (m # ms)"
  shows "queued Q = add_mset m (queued (Q(q \<mapsto> ms)))"
  using queued_upd [of Q q "m # ms" ms] assms by (simp add: popo_rep_def del: fun_upd_apply)

lemma queued_cleared:
  assumes "popo_rep Capacity b P Q Os" "Q q = Some ms" "x \<in># queued (Q(q \<mapsto> []))"
  shows "x \<in># queued Q"
proof -
  have "queued Q = queued (Q(q \<mapsto> [])) + mset ms"
    using queued_upd [of Q q ms "[]"] assms by (simp add: popo_rep_def del: fun_upd_apply)
  with assms(3) show ?thesis by simp
qed

lemma tryGet_empty_ok:
  assumes rep: "receiver_rep MaxHeld Capacity (Suc b) R P Q us Os" and q: "Q (crd_queue R) = Some []"
  obtains P' where "ChunkReceiver_tryGet MaxHeld Capacity R P = Inr (Inl NO_CHUNK_AVAILABLE, R, P')"
    "receiver_rep MaxHeld Capacity b R P' Q us Os" "ps_shm P' = ps_shm P"
    "queue_static Capacity P' = queue_static Capacity P"
proof -
  have pr: "popo_rep Capacity (Suc b) P Q (mset us + Os)" using rep by (simp add: receiver_rep_def)
  have "Q(crd_queue R \<mapsto> []) = Q" using q by auto
  with ChunkQueuePopper_tryPop_ok [OF pr q] obtain P' where
    "ChunkQueuePopper_tryPop Capacity (crd_queue R) P = Inr (None, P')" "popo_rep Capacity b P' Q (mset us + Os)"
    "queue_static Capacity P' = queue_static Capacity P" "ps_shm P' = ps_shm P" by auto
  then show thesis using that rep by (auto simp: ChunkReceiver_tryGet_def receiver_rep_def)
qed

text \<open>
  The two temporaries of \<open>tryGet\<close>: the popped chunk and its copy, both destroyed at the end.
\<close>

lemma release_twice_ok:
  assumes "popo_rep Capacity b P Q (add_mset m (add_mset m Os))"
  obtains S1 S2 where "SharedChunk_dtor (Some m) (ps_shm P) = Inr S1" "SharedChunk_dtor (Some m) S1 = Inr S2"
    "popo_rep Capacity b (P\<lparr> ps_shm := S2 \<rparr>) Q Os" "same_chunks (Os + queued Q) P (P\<lparr> ps_shm := S2 \<rparr>)"
proof -
  obtain S1 where S1: "SharedChunk_dtor (Some m) (ps_shm P) = Inr S1" "popo_rep Capacity b (P\<lparr> ps_shm := S1 \<rparr>) Q (add_mset m Os)"
    "same_chunks (add_mset m Os + queued Q) P (P\<lparr> ps_shm := S1 \<rparr>)" using popo_release_ok [OF assms] by auto
  obtain S2 where S2: "SharedChunk_dtor (Some m) S1 = Inr S2" "popo_rep Capacity b (P\<lparr> ps_shm := S2 \<rparr>) Q Os"
    "same_chunks (Os + queued Q) (P\<lparr> ps_shm := S1 \<rparr>) (P\<lparr> ps_shm := S2 \<rparr>)" using popo_release_ok [OF S1(2)] by auto
  have "same_chunks (Os + queued Q) P (P\<lparr> ps_shm := S2 \<rparr>)" using S1(3) S2(3) by (auto simp: same_chunks_def)
  with S1 S2 show thesis using that by blast
qed

lemma tryGet_pop_copy_ok:
  assumes rep: "receiver_rep MaxHeld Capacity (b + 3) R P Q us Os" and q: "Q (crd_queue R) = Some (m # ms)"
  obtains P1 S1 where "ChunkQueuePopper_tryPop Capacity (crd_queue R) P = Inr (Some (Some m), P1)"
    "SharedChunk_copy (Some m) (ps_shm P1) = Inr (Some m, S1)"
    "popo_rep Capacity (Suc b) (P1\<lparr> ps_shm := S1 \<rparr>) (Q(crd_queue R \<mapsto> ms)) (add_mset m (add_mset m (mset us + Os)))"
    "chunk_content S1 = chunk_content (ps_shm P)" "queue_static Capacity P1 = queue_static Capacity P"
proof -
  have pr: "popo_rep Capacity (Suc (Suc (Suc b))) P Q (mset us + Os)" using rep by (simp add: receiver_rep_def numeral_3_eq_3)
  obtain P1 where P1: "ChunkQueuePopper_tryPop Capacity (crd_queue R) P = Inr (Some (Some m), P1)"
    "popo_rep Capacity (Suc (Suc b)) P1 (Q(crd_queue R \<mapsto> ms)) (add_mset m (mset us + Os))"
    "queue_static Capacity P1 = queue_static Capacity P" "ps_shm P1 = ps_shm P"
    using ChunkQueuePopper_tryPop_ok [OF pr q] by auto
  obtain S1 where "incrementReferenceCounter (Some m) (ps_shm P1) = Inr S1"
    "popo_rep Capacity (Suc b) (P1\<lparr> ps_shm := S1 \<rparr>) (Q(crd_queue R \<mapsto> ms)) (add_mset m (add_mset m (mset us + Os)))"
    "chunk_content S1 = chunk_content (ps_shm P1)" by (rule popo_clone_ok [OF P1(2), of m]) auto
  with P1 show thesis using that
    by (simp add: SharedChunk_copy_def SharedChunk_assign_def decrementReferenceCounter_def del: fun_upd_apply)
qed

lemma tryGet_chunk_ok:
  assumes rep: "receiver_rep MaxHeld Capacity (b + 3) R P Q us Os" and q: "Q (crd_queue R) = Some (m # ms)"
    and len: "length us < unat (MAX_CHUNKS_IN_USE MaxHeld)" and c: "chunk_content (ps_shm P) m = ((i, a), Some h)"
  obtains R' P' where "ChunkReceiver_tryGet MaxHeld Capacity R P = Inr (Inr (Some a), R', P')"
    "receiver_rep MaxHeld Capacity b R' P' (Q(crd_queue R \<mapsto> ms)) (m # us) Os" "crd_queue R' = crd_queue R"
    "same_chunks (mset us + Os + queued Q) P P'" "queue_static Capacity P' = queue_static Capacity P"
proof -
  let ?Q = "Q(crd_queue R \<mapsto> ms)" and ?O = "mset us + Os"
  have ucl: "ucl_rep (MAX_CHUNKS_IN_USE MaxHeld) (crd_chunksInUse R) us"
    using rep by (simp add: receiver_rep_def)
  obtain P1 S1 where P1: "ChunkQueuePopper_tryPop Capacity (crd_queue R) P = Inr (Some (Some m), P1)"
    "SharedChunk_copy (Some m) (ps_shm P1) = Inr (Some m, S1)"
    "popo_rep Capacity (Suc b) (P1\<lparr> ps_shm := S1 \<rparr>) ?Q (add_mset m (add_mset m ?O))"
    "chunk_content S1 = chunk_content (ps_shm P)" "queue_static Capacity P1 = queue_static Capacity P"
    by (rule tryGet_pop_copy_ok [OF rep q])
  obtain l S2 where S2: "insert_copy (MAX_CHUNKS_IN_USE MaxHeld) (Some m) (crd_chunksInUse R) S1 = Inr (True, l, S2)"
    "ucl_rep (MAX_CHUNKS_IN_USE MaxHeld) l (m # us)"
    "popo_rep Capacity b (P1\<lparr> ps_shm := S2 \<rparr>) ?Q (add_mset m (add_mset m (add_mset m ?O)))" "chunk_content S2 = chunk_content S1"
    using insert_copy_ok [OF P1(3) ucl len] by (auto simp del: fun_upd_apply)
  obtain S3 S4 where S4: "SharedChunk_dtor (Some m) S2 = Inr S3" "SharedChunk_dtor (Some m) S3 = Inr S4"
    "popo_rep Capacity b (P1\<lparr> ps_shm := S4 \<rparr>) ?Q (add_mset m ?O)"
    "same_chunks (add_mset m ?O + queued ?Q) (P1\<lparr> ps_shm := S2 \<rparr>) (P1\<lparr> ps_shm := S4 \<rparr>)"
    using release_twice_ok [OF S2(3)] by (auto simp del: fun_upd_apply)
  have "SharedChunk_getChunkHeader (Some m) S2 = Some a"
    using popo_rep_header_of [OF S2(3), of m] c S2(4) P1(4) by (auto simp del: fun_upd_apply)
  then have "ChunkReceiver_tryGet MaxHeld Capacity R P =
      Inr (Inr (Some a), R\<lparr> crd_chunksInUse := l \<rparr>, P1\<lparr> ps_shm := S4 \<rparr>)"
    using P1(1,2) S2(1) S4(1,2) by (simp add: ChunkReceiver_tryGet_def del: fun_upd_apply)
  moreover have "receiver_rep MaxHeld Capacity b (R\<lparr> crd_chunksInUse := l \<rparr>) (P1\<lparr> ps_shm := S4 \<rparr>) ?Q (m # us) Os"
    using S2(2) S4(3) by (simp add: receiver_rep_def)
  moreover have "same_chunks (?O + queued Q) P (P1\<lparr> ps_shm := S4 \<rparr>)"
  proof -
    have "queued Q = add_mset m (queued ?Q)" by (rule queued_head [where q = "crd_queue R", OF rep [unfolded receiver_rep_def, THEN conjunct2, THEN conjunct2] q])
    then show ?thesis using S4(4) S2(4) P1(4) by (auto simp: same_chunks_def simp del: fun_upd_apply)
  qed
  ultimately show thesis using that P1(5) by (auto simp del: fun_upd_apply)
qed

lemma tryGet_too_many_ok:
  assumes rep: "receiver_rep MaxHeld Capacity (b + 3) R P Q us Os" and q: "Q (crd_queue R) = Some (m # ms)"
    and len: "length us = unat (MAX_CHUNKS_IN_USE MaxHeld)"
  obtains P' where "ChunkReceiver_tryGet MaxHeld Capacity R P = Inr (Inl TOO_MANY_CHUNKS_HELD_IN_PARALLEL, R, P')"
    "receiver_rep MaxHeld Capacity b R P' (Q(crd_queue R \<mapsto> ms)) us Os"
    "same_chunks (mset us + Os + queued (Q(crd_queue R \<mapsto> ms))) P P'" "queue_static Capacity P' = queue_static Capacity P"
proof -
  let ?Q = "Q(crd_queue R \<mapsto> ms)" and ?O = "mset us + Os"
  have ucl: "ucl_rep (MAX_CHUNKS_IN_USE MaxHeld) (crd_chunksInUse R) us" using rep by (simp add: receiver_rep_def)
  obtain P1 S1 where P1: "ChunkQueuePopper_tryPop Capacity (crd_queue R) P = Inr (Some (Some m), P1)"
    "SharedChunk_copy (Some m) (ps_shm P1) = Inr (Some m, S1)"
    "popo_rep Capacity (Suc b) (P1\<lparr> ps_shm := S1 \<rparr>) ?Q (add_mset m (add_mset m ?O))"
    "chunk_content S1 = chunk_content (ps_shm P)" "queue_static Capacity P1 = queue_static Capacity P"
    by (rule tryGet_pop_copy_ok [OF rep q])
  obtain S2 where S2: "insert_copy (MAX_CHUNKS_IN_USE MaxHeld) (Some m) (crd_chunksInUse R) S1 = Inr (False, crd_chunksInUse R, S2)"
    "popo_rep Capacity b (P1\<lparr> ps_shm := S2 \<rparr>) ?Q (add_mset m (add_mset m ?O))"
    "same_chunks (add_mset m (add_mset m ?O) + queued ?Q) (P1\<lparr> ps_shm := S1 \<rparr>) (P1\<lparr> ps_shm := S2 \<rparr>)"
    using insert_copy_full [OF P1(3) ucl len] by (auto simp del: fun_upd_apply)
  obtain S3 S4 where S4: "SharedChunk_dtor (Some m) S2 = Inr S3" "SharedChunk_dtor (Some m) S3 = Inr S4"
    "popo_rep Capacity b (P1\<lparr> ps_shm := S4 \<rparr>) ?Q ?O"
    "same_chunks (?O + queued ?Q) (P1\<lparr> ps_shm := S2 \<rparr>) (P1\<lparr> ps_shm := S4 \<rparr>)"
    using release_twice_ok [OF S2(2)] by (auto simp del: fun_upd_apply)
  have "ChunkReceiver_tryGet MaxHeld Capacity R P = Inr (Inl TOO_MANY_CHUNKS_HELD_IN_PARALLEL, R, P1\<lparr> ps_shm := S4 \<rparr>)"
    using P1(1,2) S2(1) S4(1,2) by (simp add: ChunkReceiver_tryGet_def del: fun_upd_apply)
  moreover have "receiver_rep MaxHeld Capacity b R (P1\<lparr> ps_shm := S4 \<rparr>) ?Q us Os"
    using ucl S4(3) by (simp add: receiver_rep_def)
  moreover have "same_chunks (?O + queued ?Q) P (P1\<lparr> ps_shm := S4 \<rparr>)"
    using S4(4) S2(3) P1(4) by (auto simp: same_chunks_def simp del: fun_upd_apply)
  ultimately show thesis using that P1(5) by (auto simp del: fun_upd_apply)
qed

subsection \<open>Receiving\<close>

text \<open>
  C6: \<open>tryGet\<close> in every consistent state. An empty queue is reported; otherwise the oldest chunk leaves the
  queue and, if the application holds at most \<open>MaxHeld\<close> chunks, its header is returned and the
  chunk is held with all contents unchanged; if it holds one more than \<open>MaxHeld\<close> already, the
  chunk is released and the error returned. All reference counters are right afterwards.
\<close>

theorem receiver_get_correct:
  assumes "receiver_rep MaxHeld Capacity (b + 3) R P Q us Os" "Q (crd_queue R) = Some ms" "MaxHeld < 2 ^ 32 - 1"
  shows "case ms of
      [] \<Rightarrow> \<exists>P'. ChunkReceiver_tryGet MaxHeld Capacity R P = Inr (Inl NO_CHUNK_AVAILABLE, R, P') \<and>
        receiver_rep MaxHeld Capacity b R P' Q us Os
    | m # ms' \<Rightarrow>
        if length us \<le> unat MaxHeld
        then \<exists>a h R' P'. ChunkReceiver_tryGet MaxHeld Capacity R P = Inr (Inr (Some a), R', P') \<and>
          snd (fst (chunk_content (ps_shm P) m)) = a \<and> shm_headers (ps_shm P) a = Some h \<and> shm_headers (ps_shm P') a = Some h \<and>
          receiver_rep MaxHeld Capacity b R' P' (Q(crd_queue R \<mapsto> ms')) (m # us) Os
        else \<exists>P'. ChunkReceiver_tryGet MaxHeld Capacity R P = Inr (Inl TOO_MANY_CHUNKS_HELD_IN_PARALLEL, R, P') \<and>
          receiver_rep MaxHeld Capacity b R P' (Q(crd_queue R \<mapsto> ms')) us Os"
proof (cases ms)
  case Nil
  have "receiver_rep MaxHeld Capacity (Suc b) R P Q us Os"
    using assms(1) popo_rep_mono [of Capacity "b + 3" P Q "mset us + Os" "Suc b"] by (simp add: receiver_rep_def)
  from tryGet_empty_ok [OF this] Nil assms(2) show ?thesis by auto
next
  case (Cons m ms')
  have q: "Q (crd_queue R) = Some (m # ms')" using assms(2) Cons by simp
  have max: "unat (MAX_CHUNKS_IN_USE MaxHeld) = Suc (unat MaxHeld)"
    using assms(3) by (simp add: MAX_CHUNKS_IN_USE_def unat_word_ariths word_less_nat_alt)
  have pr: "popo_rep Capacity (b + 3) P Q (mset us + Os)" using assms(1) by (simp add: receiver_rep_def)
  have m: "m \<in># mset us + Os + queued Q" using queued_head [OF pr q] by simp
  obtain i a h where c: "chunk_content (ps_shm P) m = ((i, a), Some h)" "shm_headers (ps_shm P) a = Some h"
    by (rule popo_rep_header_of [OF pr m])
  show ?thesis
  proof (cases "length us \<le> unat MaxHeld")
    case True
    then have "length us < unat (MAX_CHUNKS_IN_USE MaxHeld)" using max by simp
    from tryGet_chunk_ok [OF assms(1) q this c(1)] obtain R' P' where P':
      "ChunkReceiver_tryGet MaxHeld Capacity R P = Inr (Inr (Some a), R', P')"
      "receiver_rep MaxHeld Capacity b R' P' (Q(crd_queue R \<mapsto> ms')) (m # us) Os"
      "same_chunks (mset us + Os + queued Q) P P'" by blast
    have "chunk_content (ps_shm P') m = ((i, a), Some h)" using P'(3) m c(1) unfolding same_chunks_def by metis
    then have "shm_headers (ps_shm P') a = Some h" by (auto simp: chunk_content_def)
    with P' c True Cons show ?thesis by (auto simp del: fun_upd_apply)
  next
    case False
    have "length us \<le> unat (MAX_CHUNKS_IN_USE MaxHeld)"
      using assms(1) ucl_rep_length by (auto simp: receiver_rep_def)
    with False max have "length us = unat (MAX_CHUNKS_IN_USE MaxHeld)" by simp
    from tryGet_too_many_ok [OF assms(1) q this] False Cons show ?thesis by (auto simp del: fun_upd_apply)
  qed
qed

definition example_receiver :: "address \<Rightarrow> chunk_receiver_data" where
  "example_receiver q = \<lparr> crd_queue = q, crd_chunksInUse = example_used_list \<rparr>"

lemma receiver_get_correct_witness:
  "\<exists>m S P R' P'. MemoryManager_getChunk example_settings example_shm = Inr (Inr (Some m), S) \<and>
     pushToQueue 2 0x100 (Some m) (example_popo S) = Inr (True, P) \<and>
     (\<exists>a. ChunkReceiver_tryGet 1 2 (example_receiver 0x100) P = Inr (Inr (Some a), R', P')) \<and>
     receiver_rep 1 2 10 R' P' [0x100 \<mapsto> [], 0x200 \<mapsto> []] [m] {#m#}"
proof -
  let ?Q = "[0x100 \<mapsto> [], 0x200 \<mapsto> []] :: queue_contents" and ?R = "example_receiver 0x100"
  obtain m S where S: "MemoryManager_getChunk example_settings example_shm = Inr (Inr (Some m), S)"
    "popo_rep 2 (Suc (Suc (10 + 3))) (example_popo S) ?Q {#m#}" by (rule example_popo_rep [of "Suc (Suc (10 + 3))"]) simp
  have q: "?Q 0x100 = Some []" "m \<in># {#m#}" by simp_all
  obtain P where P: "pushToQueue 2 0x100 (Some m) (example_popo S) = Inr (\<not> queue_full 2 (example_popo S) ?Q 0x100, P)"
    "popo_rep 2 (10 + 3) P (delivered 2 (example_popo S) m {0x100} ?Q) {#m#}"
    by (rule pushToQueue_ok [OF S(2) q(2,1)])
  have d: "delivered 2 (example_popo S) m {0x100} ?Q = ?Q(0x100 \<mapsto> [m])"
    by (auto simp: delivered_def fun_eq_iff push_spec_def example_queue_cap)
  have "receiver_rep 1 2 (10 + 3) ?R P (?Q(0x100 \<mapsto> [m])) [] {#m#}"
    using P(2) example_used_list_rep unfolding d
    by (auto simp: receiver_rep_def example_receiver_def MAX_CHUNKS_IN_USE_def)
  from receiver_get_correct [OF this, of "[m]"] have
    "\<exists>a R' P'. ChunkReceiver_tryGet 1 2 ?R P = Inr (Inr (Some a), R', P') \<and> receiver_rep 1 2 10 R' P' ?Q [m] {#m#}"
    by (auto simp: example_receiver_def fun_upd_twist)
  with S(1) P(1) show ?thesis by (fastforce simp: queue_full_def example_queue_cap)
qed

lemma receiver_release_ok:
  assumes rep: "receiver_rep MaxHeld Capacity b R P Q us Os" and m: "m \<in> set us"
    and c: "chunk_content (ps_shm P) m = ((i, a), Some h)"
  obtains R' P' where "ChunkReceiver_release MaxHeld (Some a) R P = Inr (R', P')"
    "receiver_rep MaxHeld Capacity b R' P' Q (remove1 m us) Os" "crd_queue R' = crd_queue R"
    "same_chunks (mset (remove1 m us) + Os + queued Q) P P'" "queue_static Capacity P' = queue_static Capacity P"
    "lost_flag P' = lost_flag P"
proof -
  have pr: "popo_rep Capacity b P Q (add_mset m (mset (remove1 m us) + Os))"
    and ucl: "ucl_rep (MAX_CHUNKS_IN_USE MaxHeld) (crd_chunksInUse R) us"
    using rep m by (simp_all add: receiver_rep_def)
  have inv: "shm_inv (ps_shm P) (mset us + Os + queued Q)" using rep by (simp add: receiver_rep_def popo_rep_def)
  have us: "set us \<subseteq> set_mset (mset us + Os + queued Q)" by auto
  obtain l where l: "UsedChunkList_remove (MAX_CHUNKS_IN_USE MaxHeld) (Some a) None (crd_chunksInUse R) (ps_shm P) =
      Inr (True, Some m, l, ps_shm P)" "ucl_rep (MAX_CHUNKS_IN_USE MaxHeld) l (remove1 m us)"
    using UsedChunkList_remove_owned [OF ucl inv us m] c by auto
  obtain S' where S': "SharedChunk_dtor (Some m) (ps_shm P) = Inr S'"
    "popo_rep Capacity b (P\<lparr> ps_shm := S' \<rparr>) Q (mset (remove1 m us) + Os)"
    "same_chunks (mset (remove1 m us) + Os + queued Q) P (P\<lparr> ps_shm := S' \<rparr>)"
    using popo_release_ok [OF pr] by auto
  show thesis
  proof (rule that)
    show "ChunkReceiver_release MaxHeld (Some a) R P = Inr (R\<lparr> crd_chunksInUse := l \<rparr>, P\<lparr> ps_shm := S' \<rparr>)"
      using l(1) S'(1) by (simp add: ChunkReceiver_release_def Let_def)
    show "receiver_rep MaxHeld Capacity b (R\<lparr> crd_chunksInUse := l \<rparr>) (P\<lparr> ps_shm := S' \<rparr>) Q (remove1 m us) Os"
      using rep l(2) S'(2) by (simp add: receiver_rep_def)
  qed (use S'(3) in auto)
qed

lemma receiver_releaseAll_ok:
  assumes rep: "receiver_rep MaxHeld Capacity (b + Suc (length ms)) R P Q us Os" and q: "Q (crd_queue R) = Some ms"
  obtains R' P' where "ChunkReceiver_releaseAll MaxHeld Capacity R P = Inr (R', P')"
    "receiver_rep MaxHeld Capacity b R' P' (Q(crd_queue R \<mapsto> [])) [] Os" "crd_queue R' = crd_queue R"
    "same_chunks (Os + queued (Q(crd_queue R \<mapsto> []))) P P'" "queue_static Capacity P' = queue_static Capacity P"
proof -
  let ?Q = "Q(crd_queue R \<mapsto> [])"
  have pr: "popo_rep Capacity (b + Suc (length ms)) P Q (mset us + Os)"
    and ucl: "ucl_rep (MAX_CHUNKS_IN_USE MaxHeld) (crd_chunksInUse R) us" using rep by (simp_all add: receiver_rep_def)
  obtain l S1 where S1: "UsedChunkList_cleanup (MAX_CHUNKS_IN_USE MaxHeld) (crd_chunksInUse R) (ps_shm P) = Inr (l, S1)"
    "ucl_rep (MAX_CHUNKS_IN_USE MaxHeld) l []" "popo_rep Capacity (b + Suc (length ms)) (P\<lparr> ps_shm := S1 \<rparr>) Q Os"
    "same_chunks (Os + queued Q) P (P\<lparr> ps_shm := S1 \<rparr>)"
    by (rule popo_cleanup_ok [OF pr ucl])
  obtain P' where P': "ChunkQueuePopper_clear Capacity (crd_queue R) (P\<lparr> ps_shm := S1 \<rparr>) = Inr P'"
    "popo_rep Capacity b P' ?Q Os" "queue_static Capacity P' = queue_static Capacity (P\<lparr> ps_shm := S1 \<rparr>)"
    "same_chunks (Os + queued ?Q) (P\<lparr> ps_shm := S1 \<rparr>) P'"
    by (rule ChunkQueuePopper_clear_ok [OF S1(3) q])
  show thesis
  proof (rule that)
    show "ChunkReceiver_releaseAll MaxHeld Capacity R P = Inr (R\<lparr> crd_chunksInUse := l \<rparr>, P')"
      using S1(1) P'(1) by (simp add: ChunkReceiver_releaseAll_def)
    show "receiver_rep MaxHeld Capacity b (R\<lparr> crd_chunksInUse := l \<rparr>) P' ?Q [] Os"
      using S1(2) P'(2) by (simp add: receiver_rep_def)
    show "same_chunks (Os + queued ?Q) P P'" using S1(4) P'(4) queued_cleared [OF pr q] by (auto simp: same_chunks_def)
    show "queue_static Capacity P' = queue_static Capacity P" using P'(3) by simp
  qed simp
qed

end
