(* ===== verification/Serialization.thy ===== *)
theory Serialization
  imports Prelude
begin

section \<open>Conversion to strings and serialization\<close>

text \<open>
  \<open>cxx::convert\<close> (\<open>convert.inl\<close>) and \<open>cxx::Serialization\<close> (\<open>serialization.inl\<close>). A C++ string is a
  character list. A C string (\<open>const char*\<close>) ends before the first NUL: \<open>c_str\<close> is what a function
  with a \<open>const char*\<close> argument sees of a string. The variadic templates \<open>create\<close> and \<open>extract\<close> are
  functions on the list of their arguments; the type of an argument is a \<open>field\<close>, its value a
  \<open>field_value\<close>. Floating-point numbers are not modelled. The model is of a platform with a 64-bit
  \<open>unsigned long\<close>.
\<close>

definition NUL :: char where
  "NUL = CHR 0x00"

definition c_str :: "string \<Rightarrow> string" where
  "c_str s = takeWhile (\<lambda>c. c \<noteq> NUL) s"

definition ascii :: "char \<Rightarrow> nat" where
  "ascii c = of_char c"

subsection \<open>Numbers\<close>

datatype number_type = INTEGER | UNSIGNED_INTEGER | FLOAT

definition is_digit :: "char \<Rightarrow> bool" where
  "is_digit c \<longleftrightarrow> 48 \<le> ascii c \<and> ascii c \<le> 57"

fun stringIsNumber_loop :: "number_type \<Rightarrow> nat \<Rightarrow> bool \<Rightarrow> string \<Rightarrow> bool" where
  "stringIsNumber_loop type i hasDot [] = True"
| "stringIsNumber_loop type i hasDot (c # v) =
     (if is_digit c then stringIsNumber_loop type (Suc i) hasDot v
      else if type \<noteq> UNSIGNED_INTEGER \<and> i = 0 \<and> (ascii c = 43 \<or> ascii c = 45)
           then stringIsNumber_loop type (Suc i) hasDot v
      else if type = FLOAT \<and> \<not> hasDot \<and> ascii c = 46
           then stringIsNumber_loop type (Suc i) True v
      else False)"

definition stringIsNumber :: "string \<Rightarrow> number_type \<Rightarrow> bool" where
  "stringIsNumber v type = (if v = [] then False else stringIsNumber_loop type 0 False v)"

text \<open>The value of a sequence of digits, and what \<open>operator<<\<close> prints for an unsigned integer.\<close>

definition digit_value :: "char \<Rightarrow> nat" where
  "digit_value c = ascii c - 48"

definition digits_value :: "string \<Rightarrow> nat" where
  "digits_value v = foldl (\<lambda>n c. 10 * n + digit_value c) 0 v"

fun toString_nat :: "nat \<Rightarrow> string" where
  "toString_nat n = (if n < 10 then [] else toString_nat (n div 10)) @ [char_of (48 + n mod 10)]"

declare toString_nat.simps [simp del]

definition toString_int :: "int \<Rightarrow> string" where
  "toString_int z = (if z < 0 then ''-'' else []) @ toString_nat (nat \<bar>z\<bar>)"

text \<open>
  The C library on base-10 numbers without leading white space: the leading digits (after an optional
  sign), clamped to the range of the type.
\<close>

definition ULLONG_MAX :: nat where "ULLONG_MAX = 2 ^ 64 - 1"
definition LLONG_MAX :: int where "LLONG_MAX = 2 ^ 63 - 1"
definition LLONG_MIN :: int where "LLONG_MIN = - (2 ^ 63)"

definition strtoull :: "string \<Rightarrow> nat" where
  "strtoull v = min ULLONG_MAX (digits_value (takeWhile is_digit v))"

definition signed_digits :: "string \<Rightarrow> int" where
  "signed_digits v = (case v of [] \<Rightarrow> 0
     | c # v' \<Rightarrow> if ascii c = 45 then - int (digits_value (takeWhile is_digit v'))
                else if ascii c = 43 then int (digits_value (takeWhile is_digit v'))
                else int (digits_value (takeWhile is_digit v)))"

definition strtoll :: "string \<Rightarrow> int" where
  "strtoll v = max LLONG_MIN (min LLONG_MAX (signed_digits v))"

text \<open>
  \<open>fromString\<close> of the unsigned types differs only in the limit of the type; a return value of
  \<open>ULLONG_MAX\<close> counts as a failure of the call, whatever \<open>errno\<close> says.
\<close>

definition fromString_unsigned :: "nat \<Rightarrow> string \<Rightarrow> nat option" where
  "fromString_unsigned type_max v =
     (if \<not> stringIsNumber v UNSIGNED_INTEGER then None
      else (let value = strtoull v
            in if value = ULLONG_MAX then None
               else if value > type_max then None
               else Some value))"

definition fromString_uint64 :: "string \<Rightarrow> u64 option" where
  "fromString_uint64 v = map_option of_nat (fromString_unsigned (2 ^ 64 - 1) v)"

definition fromString_uint32 :: "string \<Rightarrow> u32 option" where
  "fromString_uint32 v = map_option of_nat (fromString_unsigned (2 ^ 32 - 1) v)"

definition fromString_uint16 :: "string \<Rightarrow> u16 option" where
  "fromString_uint16 v = map_option of_nat (fromString_unsigned (2 ^ 16 - 1) v)"

definition fromString_uint8 :: "string \<Rightarrow> u8 option" where
  "fromString_uint8 v = map_option of_nat (fromString_unsigned (2 ^ 8 - 1) v)"

definition fromString_bool :: "string \<Rightarrow> bool option" where
  "fromString_bool v =
     (if \<not> stringIsNumber v UNSIGNED_INTEGER then None
      else (let value = strtoull v in if value = ULLONG_MAX then None else Some (value \<noteq> 0)))"

definition fromString_signed :: "int \<Rightarrow> int \<Rightarrow> string \<Rightarrow> int option" where
  "fromString_signed type_min type_max v =
     (if \<not> stringIsNumber v INTEGER then None
      else (let value = strtoll v
            in if value = LLONG_MAX \<or> value = LLONG_MIN then None
               else if value > type_max \<or> value < type_min then None
               else Some value))"

definition fromString_int64 :: "string \<Rightarrow> int option" where
  "fromString_int64 v = fromString_signed (- (2 ^ 63)) (2 ^ 63 - 1) v"

definition fromString_int32 :: "string \<Rightarrow> int option" where
  "fromString_int32 v = fromString_signed (- (2 ^ 31)) (2 ^ 31 - 1) v"

definition fromString_int16 :: "string \<Rightarrow> int option" where
  "fromString_int16 v = fromString_signed (- (2 ^ 15)) (2 ^ 15 - 1) v"

definition fromString_int8 :: "string \<Rightarrow> int option" where
  "fromString_int8 v = fromString_signed (- (2 ^ 7)) (2 ^ 7 - 1) v"

definition fromString_char :: "string \<Rightarrow> char option" where
  "fromString_char v = (if length v \<noteq> 1 then None else Some (hd v))"

text \<open>\<open>string<100>(TruncateToCapacity, v)\<close>.\<close>

definition fromString_string100 :: "string \<Rightarrow> string option" where
  "fromString_string100 v = Some (take 100 v)"

subsection \<open>Serialization\<close>

definition separator :: char where
  "separator = CHR '':''"

datatype field = FString | FString100 | FChar | FBool | FU64 | FU32 | FU16 | FU8 | FI64 | FI32 | FI16 | FI8

text \<open>\<open>VStdString\<close> is a \<open>std::string\<close>, which may contain NUL characters; \<open>VString\<close> is a \<open>cxx::string<100>\<close>, whose conversion goes through \<open>c_str\<close>.\<close>

datatype field_value = VStdString string | VString string | VChar char | VBool bool | VU64 u64 | VU32 u32 | VU16 u16 | VU8 u8 | VInt int

fun getString :: "field_value \<Rightarrow> string" where
  "getString (VStdString s) = s"
| "getString (VString s) = c_str s"
| "getString (VChar c) = [c]"
| "getString (VBool b) = toString_nat (of_bool b)"
| "getString (VU64 n) = toString_nat (unat n)"
| "getString (VU32 n) = toString_nat (unat n)"
| "getString (VU16 n) = toString_nat (unat n)"
| "getString (VU8 n) = toString_nat (unat n)"
| "getString (VInt z) = toString_int z"

fun fromString :: "field \<Rightarrow> string \<Rightarrow> field_value option" where
  "fromString FString v = Some (VStdString v)"
| "fromString FString100 v = map_option VString (fromString_string100 v)"
| "fromString FChar v = map_option VChar (fromString_char v)"
| "fromString FBool v = map_option VBool (fromString_bool v)"
| "fromString FU64 v = map_option VU64 (fromString_uint64 v)"
| "fromString FU32 v = map_option VU32 (fromString_uint32 v)"
| "fromString FU16 v = map_option VU16 (fromString_uint16 v)"
| "fromString FU8 v = map_option VU8 (fromString_uint8 v)"
| "fromString FI64 v = map_option VInt (fromString_int64 v)"
| "fromString FI32 v = map_option VInt (fromString_int32 v)"
| "fromString FI16 v = map_option VInt (fromString_int16 v)"
| "fromString FI8 v = map_option VInt (fromString_int8 v)"

fun serializer :: "field_value list \<Rightarrow> string" where
  "serializer [] = []"
| "serializer (t # args) =
     (let serializedString = getString t;
          serializedStringLength = toString_nat (length serializedString)
      in serializedStringLength @ [separator] @ serializedString @ serializer args)"

definition find_first_of :: "char \<Rightarrow> string \<Rightarrow> nat option" where
  "find_first_of c s = (if c \<in> set s then Some (length (takeWhile (\<lambda>x. x \<noteq> c) s)) else None)"

definition substr :: "nat \<Rightarrow> nat \<Rightarrow> string \<Rightarrow> string" where
  "substr pos n s = take n (drop pos s)"

text \<open>The positions and lengths are 64-bit numbers and their sums wrap.\<close>

definition removeFirstEntry :: "string \<Rightarrow> (string \<times> string) option" where
  "removeFirstEntry remainder =
     (case find_first_of separator remainder of None \<Rightarrow> None
      | Some p \<Rightarrow>
          (let pos = (of_nat p :: u64)
           in case fromString_uint64 (c_str (substr 0 (unat pos) remainder)) of None \<Rightarrow> None
              | Some len \<Rightarrow>
                  if (of_nat (length remainder) :: u64) < pos + len + 1 then None
                  else Some (substr (unat (pos + 1)) (unat len) remainder, drop (unat (pos + 1 + len)) remainder)))"

fun deserialize :: "field list \<Rightarrow> string \<Rightarrow> field_value list option" where
  "deserialize [] serializedString = (if serializedString = [] then Some [] else None)"
| "deserialize (t # args) serializedString =
     (case removeFirstEntry serializedString of None \<Rightarrow> None
      | Some (entry, remainder) \<Rightarrow>
          (case fromString t (c_str entry) of None \<Rightarrow> None
           | Some v \<Rightarrow> map_option ((#) v) (deserialize args remainder)))"

definition Serialization_create :: "field_value list \<Rightarrow> string" where
  "Serialization_create args = serializer args"

definition Serialization_extract :: "field list \<Rightarrow> string \<Rightarrow> field_value list option" where
  "Serialization_extract fields s = deserialize fields s"

fun nth_entry :: "nat \<Rightarrow> string \<Rightarrow> string \<Rightarrow> string option" where
  "nth_entry 0 entry remainder = Some entry"
| "nth_entry (Suc n) entry remainder =
     (case removeFirstEntry remainder of None \<Rightarrow> None
      | Some (entry', remainder') \<Rightarrow> nth_entry n entry' remainder')"

definition getNth :: "u32 \<Rightarrow> field \<Rightarrow> string \<Rightarrow> field_value option" where
  "getNth index t s =
     (case nth_entry (unat (index + 1)) [] s of None \<Rightarrow> None | Some entry \<Rightarrow> fromString t (c_str entry))"

subsection \<open>Numbers: printing and reading\<close>

lemma ascii_digit [simp]: "d < 10 \<Longrightarrow> ascii (char_of (48 + d)) = 48 + d" for d :: nat
  by (simp add: ascii_def)

lemma is_digit_char_of [simp]: "d < 10 \<Longrightarrow> is_digit (char_of (48 + d))" for d :: nat
  by (simp add: is_digit_def)

lemma toString_nat_digits: "c \<in> set (toString_nat n) \<Longrightarrow> is_digit c"
proof (induction n rule: toString_nat.induct)
  case (1 n)
  then show ?case by (subst (asm) toString_nat.simps) (auto split: if_splits)
qed

lemma toString_nat_nonempty [simp]: "toString_nat n \<noteq> []"
  by (subst toString_nat.simps) simp

lemma digits_value_snoc: "digits_value (v @ [c]) = 10 * digits_value v + digit_value c"
  by (simp add: digits_value_def)

lemma digits_value_toString [simp]: "digits_value (toString_nat n) = n"
proof (induction n rule: toString_nat.induct)
  case (1 n)
  show ?case
  proof (cases "n < 10")
    case True
    then show ?thesis by (subst toString_nat.simps) (simp add: digits_value_def digit_value_def)
  next
    case False
    with 1 show ?thesis by (subst toString_nat.simps) (simp add: digits_value_snoc digit_value_def)
  qed
qed

lemma takeWhile_digits [simp]: "takeWhile is_digit (toString_nat n) = toString_nat n"
  by (simp add: takeWhile_eq_all_conv toString_nat_digits)

lemma stringIsNumber_loop_digits: "\<forall>c\<in>set v. is_digit c \<Longrightarrow> stringIsNumber_loop type i hasDot v"
  by (induction v arbitrary: i) auto

lemma stringIsNumber_toString [simp]: "stringIsNumber (toString_nat n) type"
  by (simp add: stringIsNumber_def stringIsNumber_loop_digits toString_nat_digits)

lemma digit_not_special: "is_digit c \<Longrightarrow> c \<noteq> NUL \<and> c \<noteq> separator \<and> ascii c \<noteq> 43 \<and> ascii c \<noteq> 45"
  by (auto simp: is_digit_def NUL_def separator_def ascii_def)

lemma c_str_id: "NUL \<notin> set s \<Longrightarrow> c_str s = s"
  by (auto simp: c_str_def takeWhile_eq_all_conv)

lemma c_str_toString [simp]: "c_str (toString_nat n) = toString_nat n"
  using c_str_id toString_nat_digits digit_not_special by blast

lemma fromString_unsigned_toString:
  "fromString_unsigned type_max (toString_nat n) = (if n < ULLONG_MAX \<and> n \<le> type_max then Some n else None)"
  by (auto simp: fromString_unsigned_def strtoull_def min_def)

lemma fromString_signed_toString:
  assumes "LLONG_MIN < z" "z < LLONG_MAX" "type_min \<le> z" "z \<le> type_max"
  shows "fromString_signed type_min type_max (toString_int z) = Some z"
proof -
  obtain c v where v: "toString_nat (nat \<bar>z\<bar>) = c # v" by (cases "toString_nat (nat \<bar>z\<bar>)") auto
  then have c: "is_digit c" "\<forall>x\<in>set (c # v). is_digit x" using toString_nat_digits [of _ "nat \<bar>z\<bar>"] by auto
  have minus: "ascii CHR ''-'' = 45" "\<not> is_digit CHR ''-''" by (simp_all add: ascii_def is_digit_def)
  have num: "stringIsNumber (toString_int z) INTEGER"
    using c(2) minus stringIsNumber_loop_digits [of "c # v"] by (auto simp: stringIsNumber_def toString_int_def v)
  have "signed_digits (toString_int z) = z"
  proof (cases "z < 0")
    case True
    then show ?thesis by (simp add: signed_digits_def toString_int_def minus)
  next
    case False
    have "signed_digits (toString_nat (nat \<bar>z\<bar>)) = int (digits_value (takeWhile is_digit (toString_nat (nat \<bar>z\<bar>))))"
      using digit_not_special [OF c(1)] by (simp add: signed_digits_def v)
    with False show ?thesis by (simp add: toString_int_def)
  qed
  with num assms show ?thesis by (simp add: fromString_signed_def strtoll_def)
qed

text \<open>
  An unsigned 64-bit number that is printed and read again is unchanged, except for the largest
  one, which is refused: the return value of \<open>strtoull\<close> on it is taken for a failure.
\<close>

lemma uint64_roundtrip: "fromString_uint64 (toString_nat (unat n)) = (if n = - 1 then None else Some n)"
proof -
  have "unat n < ULLONG_MAX \<longleftrightarrow> n \<noteq> - 1"
    using unsigned_less [of n, where ?'a = nat]
    by (auto simp: ULLONG_MAX_def word_unat_eq_iff unsigned_minus_1_eq_mask mask_eq_exp_minus_1)
  moreover have "unat n \<le> 2 ^ 64 - 1" using unsigned_less [of n, where ?'a = nat] by simp
  ultimately show ?thesis by (simp add: fromString_uint64_def fromString_unsigned_toString)
qed

text \<open>
  A lone sign is taken for the number 0: \<open>stringIsNumber\<close> accepts it and \<open>strtoll\<close> finds no digits.
\<close>

lemma lone_sign_is_read_as_zero:
  "stringIsNumber ''-'' INTEGER \<and> stringIsNumber ''+'' FLOAT \<and> fromString_int32 ''-'' = Some 0 \<and> fromString_int64 ''+'' = Some 0"
  by code_simp

subsection \<open>Entries\<close>

text \<open>The entry at the front of a serialization is found if the sum of the lengths fits into 64 bits.\<close>

lemma removeFirstEntry_entry:
  assumes "length (toString_nat (length s)) + length s + length rest + 1 < 2 ^ 64 - 1"
  shows "removeFirstEntry (toString_nat (length s) @ [separator] @ s @ rest) = Some (s, rest)"
proof -
  let ?d = "toString_nat (length s)" and ?n = "length (toString_nat (length s))"
  have "\<forall>c\<in>set ?d. c \<noteq> separator" using toString_nat_digits digit_not_special by blast
  then have p: "find_first_of separator (?d @ [separator] @ s @ rest) = Some ?n"
    by (simp add: find_first_of_def takeWhile_append2)
  have n: "unat (of_nat ?n :: u64) = ?n" "unat (of_nat (length s) :: u64) = length s"
    using assms by (simp_all add: unat_of_nat)
  have num: "fromString_uint64 (c_str (substr 0 ?n (?d @ [separator] @ s @ rest))) = Some (of_nat (length s))"
    using assms by (simp add: substr_def fromString_uint64_def fromString_unsigned_toString ULLONG_MAX_def)
  have sums: "unat (of_nat ?n + of_nat (length s) + 1 :: u64) = ?n + length s + 1" "unat (of_nat ?n + 1 :: u64) = ?n + 1"
    "unat (of_nat ?n + 1 + of_nat (length s) :: u64) = ?n + 1 + length s"
    using assms n by (simp_all add: unat_word_ariths)
  define L where "L = length (?d @ [separator] @ s @ rest)"
  have "L < 2 ^ 64" "?n + length s + 1 \<le> L" using assms by (simp_all add: L_def)
  then have L: "unat (of_nat L :: u64) = L" "?n + length s + 1 \<le> L" by (simp_all add: unat_of_nat)
  then have "\<not> (of_nat L :: u64) < of_nat ?n + of_nat (length s) + 1" by (simp add: word_less_nat_alt sums)
  then have "removeFirstEntry (?d @ [separator] @ s @ rest) =
      Some (substr (?n + 1) (length s) (?d @ [separator] @ s @ rest), drop (?n + 1 + length s) (?d @ [separator] @ s @ rest))"
    unfolding removeFirstEntry_def L_def p option.case Let_def n(1) num sums n(2) by simp
  then show ?thesis by (simp add: substr_def)
qed

text \<open>Which values survive the conversion to a string and back.\<close>

definition field_ok :: "field \<Rightarrow> field_value \<Rightarrow> bool" where
  "field_ok f v = (case v of
       VStdString s \<Rightarrow> f = FString \<and> NUL \<notin> set s
     | VString s \<Rightarrow> f = FString100 \<and> NUL \<notin> set s \<and> length s \<le> 100
     | VChar c \<Rightarrow> f = FChar \<and> c \<noteq> NUL
     | VBool b \<Rightarrow> f = FBool
     | VU64 n \<Rightarrow> f = FU64 \<and> n \<noteq> - 1
     | VU32 n \<Rightarrow> f = FU32
     | VU16 n \<Rightarrow> f = FU16
     | VU8 n \<Rightarrow> f = FU8
     | VInt z \<Rightarrow> f = FI64 \<and> LLONG_MIN < z \<and> z < LLONG_MAX \<or> f = FI32 \<and> - (2 ^ 31) \<le> z \<and> z < 2 ^ 31 \<or>
         f = FI16 \<and> - (2 ^ 15) \<le> z \<and> z < 2 ^ 15 \<or> f = FI8 \<and> - (2 ^ 7) \<le> z \<and> z < 2 ^ 7)"

lemma unsigned_word_roundtrip:
  "map_option of_nat (fromString_unsigned (2 ^ LENGTH('a) - 1) (toString_nat (unat n))) =
     (if unat n < ULLONG_MAX then Some n else None)" for n :: "'a::len word"
proof -
  have "unat n \<le> 2 ^ LENGTH('a) - 1" using unsigned_less [of n, where ?'a = nat] by linarith
  then show ?thesis by (auto simp: fromString_unsigned_toString)
qed

lemma unat_small: "LENGTH('a) < 64 \<Longrightarrow> unat n < ULLONG_MAX" for n :: "'a::len word"
proof -
  assume "LENGTH('a) < 64"
  then have "(2 :: nat) ^ LENGTH('a) < 2 ^ 64" by (rule power_strict_increasing) simp
  with unsigned_less [of n, where ?'a = nat] show ?thesis unfolding ULLONG_MAX_def by linarith
qed

lemma c_str_toString_int: "c_str (toString_int z) = toString_int z"
proof (rule c_str_id)
  show "NUL \<notin> set (toString_int z)"
    using toString_nat_digits [of NUL "nat \<bar>z\<bar>"] digit_not_special [of NUL] by (auto simp: toString_int_def NUL_def)
qed

lemmas unsigned_roundtrips =
  unsigned_word_roundtrip [where ?'a = 32, simplified] unsigned_word_roundtrip [where ?'a = 16, simplified]
  unsigned_word_roundtrip [where ?'a = 8, simplified]

lemma fromString_getString:
  assumes "field_ok f v"
  shows "fromString f (c_str (getString v)) = Some v"
proof (cases v)
  case (VInt z)
  then show ?thesis using assms
    by (auto simp: field_ok_def c_str_toString_int fromString_int64_def fromString_int32_def fromString_int16_def
        fromString_int8_def LLONG_MAX_def LLONG_MIN_def intro!: fromString_signed_toString)
next
  case (VBool b)
  then show ?thesis using assms by (simp add: field_ok_def fromString_bool_def strtoull_def ULLONG_MAX_def)
qed (use assms in \<open>auto simp: field_ok_def c_str_id fromString_string100_def fromString_char_def uint64_roundtrip fromString_uint32_def fromString_uint16_def fromString_uint8_def
    unsigned_roundtrips unat_small\<close>)

lemma serializer_roundtrip:
  assumes "list_all2 field_ok fs vs" "length (serializer vs) < 2 ^ 64 - 1"
  shows "deserialize fs (serializer vs) = Some vs"
  using assms
proof (induction rule: list_all2_induct)
  case (Cons f fs v vs)
  let ?s = "getString v"
  have "removeFirstEntry (serializer (v # vs)) = Some (?s, serializer vs)"
    using removeFirstEntry_entry [of ?s "serializer vs"] Cons.prems by (simp add: Let_def)
  then show ?case using Cons fromString_getString [of f v] by (simp add: Let_def)
qed simp

text \<open>The values that the type of a field has.\<close>

definition field_typed :: "field \<Rightarrow> field_value \<Rightarrow> bool" where
  "field_typed f v = (case v of
       VStdString s \<Rightarrow> f = FString
     | VString s \<Rightarrow> f = FString100 \<and> length s \<le> 100
     | VChar c \<Rightarrow> f = FChar
     | VBool b \<Rightarrow> f = FBool
     | VU64 n \<Rightarrow> f = FU64
     | VU32 n \<Rightarrow> f = FU32
     | VU16 n \<Rightarrow> f = FU16
     | VU8 n \<Rightarrow> f = FU8
     | VInt z \<Rightarrow> f = FI64 \<and> - (2 ^ 63) \<le> z \<and> z < 2 ^ 63 \<or> f = FI32 \<and> - (2 ^ 31) \<le> z \<and> z < 2 ^ 31 \<or>
         f = FI16 \<and> - (2 ^ 15) \<le> z \<and> z < 2 ^ 15 \<or> f = FI8 \<and> - (2 ^ 7) \<le> z \<and> z < 2 ^ 7)"

lemma c_str_NUL: "NUL \<notin> set (c_str s)"
  by (auto simp: c_str_def dest: set_takeWhileD)

lemma fromString_signed_edges: "fromString_signed type_min type_max v \<noteq> Some LLONG_MAX" "fromString_signed type_min type_max v \<noteq> Some LLONG_MIN"
  by (simp_all add: fromString_signed_def Let_def)

lemma field_ok_iff:
  assumes "field_typed f v"
  shows "fromString f (c_str (getString v)) = Some v \<longleftrightarrow> field_ok f v"
proof
  assume r: "fromString f (c_str (getString v)) = Some v"
  show "field_ok f v"
  proof (cases v)
    case (VInt z)
    have "z \<noteq> LLONG_MAX \<and> z \<noteq> LLONG_MIN" if "f = FI64"
      using r fromString_signed_edges that by (auto simp: VInt fromString_int64_def)
    then show ?thesis using assms VInt by (auto simp: field_ok_def field_typed_def LLONG_MAX_def LLONG_MIN_def)
  next
    case (VStdString s)
    then show ?thesis using r assms c_str_NUL [of s] by (auto simp: field_ok_def field_typed_def)
  next
    case (VString s)
    then have "take 100 (c_str (c_str s)) = s" using r assms by (simp add: field_typed_def fromString_string100_def)
    then have "set s \<subseteq> set (c_str (c_str s))" by (metis set_take_subset)
    then show ?thesis using VString assms c_str_NUL [of "c_str s"] by (auto simp: field_ok_def field_typed_def)
  next
    case (VChar c)
    then have "c \<noteq> NUL" using r assms by (auto simp: field_typed_def fromString_char_def c_str_def)
    then show ?thesis using VChar assms by (simp add: field_ok_def field_typed_def)
  next
    case (VU64 n)
    then have "n \<noteq> - 1" using r assms uint64_roundtrip [of n] by (auto simp: field_typed_def)
    then show ?thesis using VU64 assms by (simp add: field_ok_def field_typed_def)
  qed (use assms in \<open>simp_all add: field_ok_def field_typed_def\<close>)
qed (rule fromString_getString)

lemma serializer_roundtrip_only:
  assumes "list_all2 field_typed fs vs" "length (serializer vs) < 2 ^ 64 - 1" "deserialize fs (serializer vs) = Some vs"
  shows "list_all2 field_ok fs vs"
  using assms
proof (induction rule: list_all2_induct)
  case (Cons f fs v vs)
  have "removeFirstEntry (serializer (v # vs)) = Some (getString v, serializer vs)"
    using removeFirstEntry_entry [of "getString v" "serializer vs"] Cons.prems by (simp add: Let_def)
  then have "fromString f (c_str (getString v)) = Some v" "deserialize fs (serializer vs) = Some vs"
    using Cons.prems(2) by (auto simp del: serializer.simps split: option.splits)
  then show ?case using Cons.IH Cons.prems(1) field_ok_iff [OF Cons.hyps(1)] by (simp add: Let_def)
qed simp

text \<open>
  C27: what \<open>Serialization::create\<close> writes, \<open>Serialization::extract\<close> reads: the values come back, in order and
  whatever separators and digits the strings contain, if and only if each value can be represented: no NUL character, not the largest unsigned 64-bit
  number and neither the largest nor the smallest signed one, each of which is lost or refused.
\<close>

theorem serialization_roundtrip:
  assumes "list_all2 field_typed fs vs" "length (Serialization_create vs) < 2 ^ 64 - 1"
  shows "Serialization_extract fs (Serialization_create vs) = Some vs \<longleftrightarrow> list_all2 field_ok fs vs"
  using serializer_roundtrip serializer_roundtrip_only assms by (auto simp: Serialization_create_def Serialization_extract_def)

lemma serialization_roundtrip_witness:
  "Serialization_extract [FString, FU64, FI32, FString100] (Serialization_create [VStdString ''3:ab'', VU64 17, VInt (- 5), VString []]) =
     Some [VStdString ''3:ab'', VU64 17, VInt (- 5), VString []] \<and>
   Serialization_extract [FU64, FString] (Serialization_create [VU64 17, VStdString [CHR ''a'', NUL]]) \<noteq> Some [VU64 17, VStdString [CHR ''a'', NUL]]"
proof
  note len_simps = Serialization_create_def Let_def c_str_def NUL_def toString_int_def toString_nat.simps
  have "list_all2 field_typed [FString, FU64, FI32, FString100] [VStdString ''3:ab'', VU64 17, VInt (- 5), VString []]"
    "list_all2 field_ok [FString, FU64, FI32, FString100] [VStdString ''3:ab'', VU64 17, VInt (- 5), VString []]"
    by (simp_all add: field_typed_def field_ok_def NUL_def)
  moreover have "length (Serialization_create [VStdString ''3:ab'', VU64 17, VInt (- 5), VString []]) < 2 ^ 64 - 1" by (simp add: len_simps)
  ultimately show "Serialization_extract [FString, FU64, FI32, FString100] (Serialization_create [VStdString ''3:ab'', VU64 17, VInt (- 5), VString []]) =
     Some [VStdString ''3:ab'', VU64 17, VInt (- 5), VString []]" by (metis serialization_roundtrip)
  have "list_all2 field_typed [FU64, FString] [VU64 17, VStdString [CHR ''a'', NUL]]" "\<not> list_all2 field_ok [FU64, FString] [VU64 17, VStdString [CHR ''a'', NUL]]"
    by (simp_all add: field_typed_def field_ok_def)
  moreover have "length (Serialization_create [VU64 17, VStdString [CHR ''a'', NUL]]) < 2 ^ 64 - 1" by (simp add: len_simps)
  ultimately show "Serialization_extract [FU64, FString] (Serialization_create [VU64 17, VStdString [CHR ''a'', NUL]]) \<noteq> Some [VU64 17, VStdString [CHR ''a'', NUL]]"
    by (metis serialization_roundtrip)
qed

text \<open>
  A malformed serialization is accepted. The length of the first entry is so large that the sum of
  position and length wraps around; the entry is then the rest of the string, and the
  remainder starts inside the length itself.
\<close>

theorem overflowing_length_is_accepted:
  "Serialization_extract [FString, FString] ''18446744073709551614:abcd'' = Some [VStdString ''abcd'', VStdString ''abcd'']"
proof -
  note read_simps = removeFirstEntry_def find_first_of_def separator_def substr_def c_str_def NUL_def fromString_uint64_def
    fromString_unsigned_def stringIsNumber_def is_digit_def ascii_def strtoull_def digits_value_def digit_value_def ULLONG_MAX_def
  have "removeFirstEntry ''18446744073709551614:abcd'' = Some (''abcd'', ''4:abcd'')" by (simp add: read_simps)
  moreover have "removeFirstEntry ''4:abcd'' = Some (''abcd'', [])" by (simp add: read_simps)
  ultimately show ?thesis by (simp add: Serialization_extract_def c_str_def NUL_def)
qed

end
