(* ===== verification/Service_Description.thy ===== *)
theory Service_Description
  imports Serialization
begin

section \<open>Service descriptions\<close>

text \<open>
  \<open>capro::ServiceDescription\<close> and \<open>capro::CaproMessage\<close> (\<open>service_description.cpp\<close>,
  \<open>capro_message.hpp\<close>): the identification of a service, its order and its serialization, and the messages
  of the canonical protocol. \<open>string_compare\<close> is \<open>cxx::string::compare\<close>; of \<open>memcmp\<close> only the
  sign is used.
\<close>

datatype interfaces = INTERNAL | ESOC | SOMEIP | AMQP | MQTT | DDS | SIGNAL | MTA | ROS1 | INTERFACE_END

datatype service_scope = WORLDWIDE | LOCAL | INVALID

fun interface_value :: "interfaces \<Rightarrow> u16" where
  "interface_value INTERNAL = 0" | "interface_value ESOC = 1" | "interface_value SOMEIP = 2"
| "interface_value AMQP = 3" | "interface_value MQTT = 4" | "interface_value DDS = 5"
| "interface_value SIGNAL = 6" | "interface_value MTA = 7" | "interface_value ROS1 = 8"
| "interface_value INTERFACE_END = 9"

fun scope_value :: "service_scope \<Rightarrow> u16" where
  "scope_value WORLDWIDE = 0" | "scope_value LOCAL = 1" | "scope_value INVALID = 2"

text \<open>The names of the interfaces that the introspection prints, indexed by the value of the interface.\<close>

definition INTERFACE_NAMES :: "string list" where
  "INTERFACE_NAMES = [''INTERNAL'', ''ESOC'', ''SOMEIP'', ''AMQP'', ''DDS'', ''SIGNAL'', ''MTA'', ''ROS1'', ''END'']"

definition CLASS_HASH_ELEMENT_COUNT :: nat where
  "CLASS_HASH_ELEMENT_COUNT = 4"

text \<open>The constructor of the class hash writes at most four values over the memory \<open>data\<close>.\<close>

definition ClassHash_ctor :: "u32 list \<Rightarrow> u32 list \<Rightarrow> u32 list" where
  "ClassHash_ctor data values = take CLASS_HASH_ELEMENT_COUNT values @ drop (length (take CLASS_HASH_ELEMENT_COUNT values)) data"

fun ClassHash_eq :: "u32 list \<Rightarrow> u32 list \<Rightarrow> bool" where
  "ClassHash_eq [] [] = True"
| "ClassHash_eq (x # xs) (y # ys) = (if x \<noteq> y then False else ClassHash_eq xs ys)"
| "ClassHash_eq _ _ = False"

record service_description =
  sd_serviceString :: string
  sd_instanceString :: string
  sd_eventString :: string
  sd_classHash :: "u32 list"
  sd_scope :: service_scope
  sd_interfaceSource :: interfaces

definition ServiceDescription_ctor :: "string \<Rightarrow> string \<Rightarrow> string \<Rightarrow> u32 list \<Rightarrow> interfaces \<Rightarrow> service_description" where
  "ServiceDescription_ctor service inst event classHash interfaceSource =
     \<lparr> sd_serviceString = service, sd_instanceString = inst, sd_eventString = event, sd_classHash = classHash,
       sd_scope = WORLDWIDE, sd_interfaceSource = interfaceSource \<rparr>"

definition ServiceDescription_default :: service_description where
  "ServiceDescription_default = ServiceDescription_ctor [] [] [] [0, 0, 0, 0] INTERNAL"

text \<open>\<open>memcmp\<close> on the common length, then the lengths.\<close>

fun string_compare :: "string \<Rightarrow> string \<Rightarrow> int" where
  "string_compare [] [] = 0"
| "string_compare [] (d # t) = - 1"
| "string_compare (c # s) [] = 1"
| "string_compare (c # s) (d # t) =
     (if ascii c < ascii d then - 1 else if ascii d < ascii c then 1 else string_compare s t)"

definition ServiceDescription_eq :: "service_description \<Rightarrow> service_description \<Rightarrow> bool" where
  "ServiceDescription_eq lhs rhs =
     (if string_compare (sd_serviceString lhs) (sd_serviceString rhs) \<noteq> 0 then False
      else if string_compare (sd_instanceString lhs) (sd_instanceString rhs) \<noteq> 0 then False
      else if string_compare (sd_eventString lhs) (sd_eventString rhs) \<noteq> 0 then False
      else True)"

definition ServiceDescription_less :: "service_description \<Rightarrow> service_description \<Rightarrow> bool" where
  "ServiceDescription_less lhs rhs =
     (let serviceCompare = string_compare (sd_serviceString lhs) (sd_serviceString rhs)
      in if serviceCompare \<noteq> 0 then 0 < serviceCompare
         else (let instanceCompare = string_compare (sd_instanceString lhs) (sd_instanceString rhs)
               in if instanceCompare \<noteq> 0 then 0 < instanceCompare
                  else (let eventCompare = string_compare (sd_eventString lhs) (sd_eventString rhs)
                        in if eventCompare \<noteq> 0 then 0 < eventCompare else False)))"

definition isLocal :: "service_description \<Rightarrow> bool" where
  "isLocal sd \<longleftrightarrow> sd_scope sd = LOCAL"

definition setLocal :: "service_description \<Rightarrow> service_description" where
  "setLocal sd = sd\<lparr> sd_scope := LOCAL \<rparr>"

definition serviceMatch :: "service_description \<Rightarrow> service_description \<Rightarrow> bool" where
  "serviceMatch first second \<longleftrightarrow> string_compare (sd_serviceString first) (sd_serviceString second) = 0"

definition ServiceDescription_serialize :: "service_description \<Rightarrow> string" where
  "ServiceDescription_serialize sd = Serialization_create
     ([VString (sd_serviceString sd), VString (sd_instanceString sd), VString (sd_eventString sd)] @
      map VU32 (sd_classHash sd) @ [VU16 (scope_value (sd_scope sd)), VU16 (interface_value (sd_interfaceSource sd))])"

text \<open>The conversion of a number below the number of enumerators back to the enumeration.\<close>

definition scope_of :: "u16 \<Rightarrow> service_scope" where
  "scope_of n = (if n = 0 then WORLDWIDE else if n = 1 then LOCAL else INVALID)"

definition interface_of :: "u16 \<Rightarrow> interfaces" where
  "interface_of n = ([INTERNAL, ESOC, SOMEIP, AMQP, MQTT, DDS, SIGNAL, MTA, ROS1, INTERFACE_END] ! min 9 (unat n))"

definition service_fields :: "field list" where
  "service_fields = [FString100, FString100, FString100, FU32, FU32, FU32, FU32, FU16, FU16]"

datatype serialization_error = DESERIALIZATION_FAILED

definition ServiceDescription_deserialize :: "string \<Rightarrow> serialization_error + service_description" where
  "ServiceDescription_deserialize serialized =
     (case Serialization_extract service_fields serialized of
        Some [VString service, VString inst, VString event, VU32 h0, VU32 h1, VU32 h2, VU32 h3, VU16 scope, VU16 interfaceSource] \<Rightarrow>
          if scope \<ge> scope_value INVALID \<or> interfaceSource \<ge> interface_value INTERFACE_END then Inl DESERIALIZATION_FAILED
          else Inr ((ServiceDescription_ctor service inst event [h0, h1, h2, h3] (interface_of interfaceSource))
                      \<lparr> sd_scope := scope_of scope \<rparr>)
      | _ \<Rightarrow> Inl DESERIALIZATION_FAILED)"

subsection \<open>Messages\<close>

datatype capro_message_type =
    NOTYPE | FIND | OFFER | STOP_OFFER | SUB | UNSUB | CONNECT | DISCONNECT | ACK | NACK | PUB | REQ | RES | PING | PONG
  | MESSGAGE_TYPE_END

datatype capro_service_type = CAPRO_NONE | CAPRO_PUBLISHER | CAPRO_SERVER

record capro_message =
  cm_type :: capro_message_type
  cm_serviceType :: capro_service_type
  cm_serviceDescription :: service_description
  cm_chunkQueueData :: "address pointer"
  cm_historyCapacity :: u64

definition CaproMessage_ctor ::
  "capro_message_type \<Rightarrow> service_description \<Rightarrow> capro_service_type \<Rightarrow> address pointer \<Rightarrow> capro_message" where
  "CaproMessage_ctor type serviceDescription serviceType chunkQueueData =
     \<lparr> cm_type = type, cm_serviceType = serviceType, cm_serviceDescription = serviceDescription,
       cm_chunkQueueData = chunkQueueData, cm_historyCapacity = 0 \<rparr>"

subsection \<open>The order\<close>

lemma ascii_inj: "ascii c = ascii d \<longleftrightarrow> c = d"
  by (simp add: ascii_def)

lemma string_compare_zero [simp]: "string_compare s t = 0 \<longleftrightarrow> s = t"
  by (induction s t rule: string_compare.induct) (auto simp: ascii_inj [symmetric])

lemma string_compare_flip: "string_compare t s = - string_compare s t"
  by (induction s t rule: string_compare.induct) auto

lemma string_compare_pos [simp]:
  "\<not> 0 < string_compare [] t" "0 < string_compare (c # s) []"
  "0 < string_compare (c # s) (d # t) \<longleftrightarrow> ascii d < ascii c \<or> ascii c = ascii d \<and> 0 < string_compare s t"
  by (cases t) auto

lemma string_compare_self [simp]: "string_compare s s = 0"
  by (induction s) auto

lemma string_compare_pos_trans: "0 < string_compare s t \<Longrightarrow> 0 < string_compare t u \<Longrightarrow> 0 < string_compare s u"
proof (induction s arbitrary: t u)
  case (Cons c s)
  then show ?case by (cases t; cases u) (auto simp del: string_compare.simps)
qed simp

lemma string_compare_cases: "string_compare s t = - 1 \<or> string_compare s t = 0 \<or> string_compare s t = 1"
  by (induction s t rule: string_compare.induct) auto

definition service_key :: "service_description \<Rightarrow> string \<times> string \<times> string" where
  "service_key sd = (sd_serviceString sd, sd_instanceString sd, sd_eventString sd)"

lemma ServiceDescription_eq_key: "ServiceDescription_eq lhs rhs \<longleftrightarrow> service_key lhs = service_key rhs"
  by (simp add: ServiceDescription_eq_def service_key_def)

lemma ServiceDescription_less_alt:
  "ServiceDescription_less a b \<longleftrightarrow>
     0 < string_compare (sd_serviceString a) (sd_serviceString b) \<or>
     sd_serviceString a = sd_serviceString b \<and>
       (0 < string_compare (sd_instanceString a) (sd_instanceString b) \<or>
        sd_instanceString a = sd_instanceString b \<and> 0 < string_compare (sd_eventString a) (sd_eventString b))"
  by (auto simp: ServiceDescription_less_def Let_def)

text \<open>
  C28: the order of service descriptions is a strict weak order whose equivalence is \<open>operator==\<close>, as sorted
  containers require: it is irreflexive and transitive, and two descriptions are
  incomparable exactly if they are equal; the class hash, the scope and the interface play no role.
\<close>

theorem service_description_order:
  "\<not> ServiceDescription_less a a \<and>
   (ServiceDescription_less a b \<and> ServiceDescription_less b c \<longrightarrow> ServiceDescription_less a c) \<and>
   (\<not> ServiceDescription_less a b \<and> \<not> ServiceDescription_less b a \<longleftrightarrow> ServiceDescription_eq a b) \<and>
   \<not> (ServiceDescription_less a b \<and> ServiceDescription_less b a)"
proof -
  have irr: "string_compare s s = 0" for s by simp
  have trans: "ServiceDescription_less x y \<Longrightarrow> ServiceDescription_less y z \<Longrightarrow> ServiceDescription_less x z" for x y z
    unfolding ServiceDescription_less_alt by (metis string_compare_pos_trans)
  have 1: "\<not> ServiceDescription_less x x" for x by (simp add: ServiceDescription_less_alt)
  have tot: "\<not> 0 < string_compare s t \<and> \<not> 0 < string_compare t s \<longleftrightarrow> s = t" for s t
    using string_compare_cases [of s t] string_compare_flip [of s t] string_compare_zero [of s t] by force
  have 3: "\<not> ServiceDescription_less a b \<and> \<not> ServiceDescription_less b a \<longleftrightarrow> ServiceDescription_eq a b"
    unfolding ServiceDescription_eq_key service_key_def prod.inject ServiceDescription_less_alt by (metis tot)
  from 1 3 trans show ?thesis by blast
qed

lemma service_description_order_witness:
  "ServiceDescription_less (ServiceDescription_ctor ''b'' ''y'' ''e'' [0, 0, 0, 0] INTERNAL)
     (ServiceDescription_ctor ''a'' ''z'' ''e'' [0, 0, 0, 0] DDS)"
proof -
  let ?sd = "\<lambda>s i. ServiceDescription_ctor s i ''e'' [0, 0, 0, 0] INTERNAL"
  let ?c = "ServiceDescription_ctor ''a'' ''z'' ''e'' [0, 0, 0, 0] DDS"
  have "ServiceDescription_less (?sd ''b'' ''y'') (?sd ''b'' ''x'') \<and> ServiceDescription_less (?sd ''b'' ''x'') ?c" by code_simp
  with service_description_order [of "?sd ''b'' ''y''" "?sd ''b'' ''x''" ?c] show ?thesis by blast
qed

subsection \<open>Serialization\<close>

definition service_description_ok :: "service_description \<Rightarrow> bool" where
  "service_description_ok sd \<longleftrightarrow>
     NUL \<notin> set (sd_serviceString sd) \<and> NUL \<notin> set (sd_instanceString sd) \<and> NUL \<notin> set (sd_eventString sd) \<and>
     length (sd_serviceString sd) \<le> 100 \<and> length (sd_instanceString sd) \<le> 100 \<and> length (sd_eventString sd) \<le> 100 \<and>
     length (sd_classHash sd) = CLASS_HASH_ELEMENT_COUNT"

lemma scope_of_value: "scope_value sc < scope_value INVALID \<Longrightarrow> scope_of (scope_value sc) = sc"
  by (cases sc) (auto simp: scope_of_def)

lemma interface_of_value: "interface_of (interface_value i) = i"
  by (cases i) (auto simp: interface_of_def)

lemma scope_value_le: "scope_value sc \<ge> scope_value INVALID \<longleftrightarrow> sc = INVALID"
  by (cases sc) (auto simp: word_le_nat_alt)

lemma interface_value_le: "interface_value i \<ge> interface_value INTERFACE_END \<longleftrightarrow> i = INTERFACE_END"
  by (cases i) (auto simp: word_le_nat_alt)

lemma toString_nat_length: "n < 10 ^ Suc k \<Longrightarrow> length (toString_nat n) \<le> Suc k"
proof (induction k arbitrary: n)
  case 0
  then show ?case by (subst toString_nat.simps) simp
next
  case (Suc k)
  then have "n div 10 < 10 ^ Suc k" by (simp add: less_mult_imp_div_less mult.commute)
  with Suc.IH show ?case by (subst toString_nat.simps) simp
qed

lemma serializer_length: "\<forall>v\<in>set vs. length (getString v) \<le> 100 \<Longrightarrow> length (serializer vs) \<le> 104 * length vs"
proof (induction vs)
  case (Cons v vs)
  then have "length (toString_nat (length (getString v))) \<le> Suc 2" by (intro toString_nat_length) simp
  with Cons show ?case by (simp add: Let_def)
qed simp

lemma getString_word_length:
  "length (getString (VU32 n)) \<le> 100" "length (getString (VU16 m)) \<le> 100"
proof -
  have "unat n < 10 ^ Suc 9" using unsigned_less [of n, where ?'a = nat] by simp
  from toString_nat_length [OF this] show "length (getString (VU32 n)) \<le> 100" by simp
  have "unat m < 10 ^ Suc 9" using unsigned_less [of m, where ?'a = nat] by simp
  from toString_nat_length [OF this] show "length (getString (VU16 m)) \<le> 100" by simp
qed

lemma service_description_reads_back:
  assumes "service_description_ok sd"
  shows "ServiceDescription_deserialize (ServiceDescription_serialize sd) =
    (if sd_scope sd = INVALID \<or> sd_interfaceSource sd = INTERFACE_END then Inl DESERIALIZATION_FAILED else Inr sd)"
proof -
  obtain h0 h1 h2 h3 where h: "sd_classHash sd = [h0, h1, h2, h3]"
    using assms by (auto simp: service_description_ok_def CLASS_HASH_ELEMENT_COUNT_def numeral_eq_Suc length_Suc_conv)
  let ?vs = "[VString (sd_serviceString sd), VString (sd_instanceString sd), VString (sd_eventString sd),
    VU32 h0, VU32 h1, VU32 h2, VU32 h3, VU16 (scope_value (sd_scope sd)), VU16 (interface_value (sd_interfaceSource sd))]"
  have s: "ServiceDescription_serialize sd = serializer ?vs"
    by (simp add: ServiceDescription_serialize_def Serialization_create_def h del: serializer.simps)
  have "\<forall>v\<in>set ?vs. length (getString v) \<le> 100"
    using assms getString_word_length by (auto simp: service_description_ok_def c_str_id)
  from serializer_length [OF this] have "length (serializer ?vs) < 2 ^ 64 - 1" by (simp del: serializer.simps)
  moreover have "list_all2 field_ok service_fields ?vs"
    using assms by (simp add: service_fields_def field_ok_def service_description_ok_def)
  ultimately have "Serialization_extract service_fields (ServiceDescription_serialize sd) = Some ?vs"
    unfolding s Serialization_extract_def by (intro serializer_roundtrip)
  then show ?thesis
    using h by (simp add: ServiceDescription_deserialize_def scope_value_le [simplified] interface_value_le [simplified]
        ServiceDescription_ctor_def interface_of_value scope_of_value not_le [symmetric])
qed

text \<open>
  C26: a service description survives serialization and deserialization unchanged, whatever separators and
  digits its strings (of at most 100 characters, none of them NUL) contain, if the scope and the interface are valid; with an invalid scope or interface
  the deserialization reports the failure.
\<close>

theorem service_description_roundtrip:
  assumes "service_description_ok sd"
  shows "ServiceDescription_deserialize (ServiceDescription_serialize sd) =
    (if sd_scope sd = INVALID \<or> sd_interfaceSource sd = INTERFACE_END then Inl DESERIALIZATION_FAILED else Inr sd)"
  using assms by (rule service_description_reads_back)

lemma service_description_roundtrip_witness:
  "ServiceDescription_deserialize (ServiceDescription_serialize (ServiceDescription_ctor ''Radar:7'' ''Front'' ''Objects'' [1, 2, 3, 4] DDS)) =
     Inr (ServiceDescription_ctor ''Radar:7'' ''Front'' ''Objects'' [1, 2, 3, 4] DDS)"
proof -
  have "service_description_ok (ServiceDescription_ctor ''Radar:7'' ''Front'' ''Objects'' [1, 2, 3, 4] DDS)"
    by (simp add: service_description_ok_def ServiceDescription_ctor_def NUL_def CLASS_HASH_ELEMENT_COUNT_def)
  from service_description_roundtrip [OF this] show ?thesis by (simp add: ServiceDescription_ctor_def)
qed

text \<open>The table of interface names has no entry for MQTT: every later interface is printed with the name of the next one.\<close>

lemma interface_names_shifted:
  "INTERFACE_NAMES ! unat (interface_value MQTT) = ''DDS''" "INTERFACE_NAMES ! unat (interface_value DDS) = ''SIGNAL''"
  "INTERFACE_NAMES ! unat (interface_value ROS1) = ''END''"
  by (simp_all add: INTERFACE_NAMES_def)

end
