(* ===== verification/Service_Registry.thy ===== *)
theory Service_Registry
  imports Service_Description
begin

section \<open>The service registry\<close>

text \<open>
  \<open>roudi::ServiceRegistry\<close> (\<open>service_registry.cpp\<close>): the publishers and servers that are offered, counted
  per service description in a vector of optional entries with \<open>CAPACITY\<close> slots.
  \<open>m_freeIndex\<close> remembers a slot that was vacated, \<open>NO_INDEX\<close> (the capacity) means that none is known.
  A callback over the entries is the list of entries it is called with.
\<close>

record service_description_entry =
  sde_serviceDescription :: service_description
  sde_publisherCount :: u64
  sde_serverCount :: u64

record service_registry =
  sr_serviceDescriptions :: "service_description_entry option list"
  sr_freeIndex :: u32

datatype service_registry_error = SERVICE_REGISTRY_FULL

text \<open>The pointer to member \<open>ReferenceCounter_t ServiceDescriptionEntry::*count\<close>.\<close>

datatype count_member = publisherCount | serverCount

fun get_count :: "count_member \<Rightarrow> service_description_entry \<Rightarrow> u64" where
  "get_count publisherCount e = sde_publisherCount e"
| "get_count serverCount e = sde_serverCount e"

fun set_count :: "count_member \<Rightarrow> u64 \<Rightarrow> service_description_entry \<Rightarrow> service_description_entry" where
  "set_count publisherCount n e = e\<lparr> sde_publisherCount := n \<rparr>"
| "set_count serverCount n e = e\<lparr> sde_serverCount := n \<rparr>"

definition ServiceRegistry_ctor :: "u32 \<Rightarrow> service_registry" where
  "ServiceRegistry_ctor CAPACITY = \<lparr> sr_serviceDescriptions = [], sr_freeIndex = CAPACITY \<rparr>"

definition ServiceDescriptionEntry_ctor :: "service_description \<Rightarrow> service_description_entry" where
  "ServiceDescriptionEntry_ctor sd = \<lparr> sde_serviceDescription = sd, sde_publisherCount = 0, sde_serverCount = 0 \<rparr>"

fun findIndex_loop :: "u32 \<Rightarrow> u32 \<Rightarrow> service_description \<Rightarrow> service_description_entry option list \<Rightarrow> u32" where
  "findIndex_loop CAPACITY i sd [] = CAPACITY"
| "findIndex_loop CAPACITY i sd (e # es) =
     (case e of
        Some entry \<Rightarrow> if ServiceDescription_eq (sde_serviceDescription entry) sd then i
                      else findIndex_loop CAPACITY (i + 1) sd es
      | None \<Rightarrow> findIndex_loop CAPACITY (i + 1) sd es)"

definition ServiceRegistry_findIndex :: "u32 \<Rightarrow> service_description \<Rightarrow> service_registry \<Rightarrow> u32" where
  "ServiceRegistry_findIndex CAPACITY sd R = findIndex_loop CAPACITY 0 sd (sr_serviceDescriptions R)"

text \<open>\<open>entry.emplace(serviceDescription); (*entry).*count = 1U;\<close>\<close>

definition new_entry :: "service_description \<Rightarrow> count_member \<Rightarrow> service_description_entry" where
  "new_entry sd c = set_count c 1 (ServiceDescriptionEntry_ctor sd)"

fun fill_first_free :: "service_description_entry \<Rightarrow> service_description_entry option list \<Rightarrow>
    service_description_entry option list option" where
  "fill_first_free e [] = None"
| "fill_first_free e (x # xs) =
     (case x of None \<Rightarrow> Some (Some e # xs) | Some _ \<Rightarrow> map_option ((#) x) (fill_first_free e xs))"

definition ServiceRegistry_add ::
  "u32 \<Rightarrow> service_description \<Rightarrow> count_member \<Rightarrow> service_registry \<Rightarrow> (service_registry_error + unit) \<times> service_registry" where
  "ServiceRegistry_add CAPACITY sd c R =
     (let es = sr_serviceDescriptions R; index = ServiceRegistry_findIndex CAPACITY sd R
      in if index \<noteq> CAPACITY
         then (case es ! unat index of
                 Some entry \<Rightarrow>
                   (Inr (), R\<lparr> sr_serviceDescriptions := es[unat index := Some (set_count c (get_count c entry + 1) entry)] \<rparr>)
               | None \<Rightarrow> (Inr (), R))
         else if sr_freeIndex R \<noteq> CAPACITY
         then (Inr (), R\<lparr> sr_serviceDescriptions := es[unat (sr_freeIndex R) := Some (new_entry sd c)], sr_freeIndex := CAPACITY \<rparr>)
         else (case fill_first_free (new_entry sd c) es of
                 Some es' \<Rightarrow> (Inr (), R\<lparr> sr_serviceDescriptions := es' \<rparr>)
               | None \<Rightarrow>
                   if length es < unat CAPACITY
                   then (Inr (), R\<lparr> sr_serviceDescriptions := es @ [Some (new_entry sd c)] \<rparr>)
                   else (Inl SERVICE_REGISTRY_FULL, R)))"

definition addPublisher :: "u32 \<Rightarrow> service_description \<Rightarrow> service_registry \<Rightarrow> (service_registry_error + unit) \<times> service_registry" where
  "addPublisher CAPACITY sd R = ServiceRegistry_add CAPACITY sd publisherCount R"

definition addServer :: "u32 \<Rightarrow> service_description \<Rightarrow> service_registry \<Rightarrow> (service_registry_error + unit) \<times> service_registry" where
  "addServer CAPACITY sd R = ServiceRegistry_add CAPACITY sd serverCount R"

definition removePublisher :: "u32 \<Rightarrow> service_description \<Rightarrow> service_registry \<Rightarrow> service_registry" where
  "removePublisher CAPACITY sd R =
     (let index = ServiceRegistry_findIndex CAPACITY sd R
      in if index \<noteq> CAPACITY
         then (case sr_serviceDescriptions R ! unat index of None \<Rightarrow> R
               | Some entry \<Rightarrow>
                   if sde_publisherCount entry \<ge> 1
                   then (let entry' = entry\<lparr> sde_publisherCount := sde_publisherCount entry - 1 \<rparr>
                         in if sde_publisherCount entry' = 0 \<and> sde_serverCount entry' = 0
                            then R\<lparr> sr_serviceDescriptions := (sr_serviceDescriptions R)[unat index := None], sr_freeIndex := index \<rparr>
                            else R\<lparr> sr_serviceDescriptions := (sr_serviceDescriptions R)[unat index := Some entry'] \<rparr>)
                   else R)
         else R)"

definition removeServer :: "u32 \<Rightarrow> service_description \<Rightarrow> service_registry \<Rightarrow> service_registry" where
  "removeServer CAPACITY sd R =
     (let index = ServiceRegistry_findIndex CAPACITY sd R
      in if index \<noteq> CAPACITY
         then (case sr_serviceDescriptions R ! unat index of None \<Rightarrow> R
               | Some entry \<Rightarrow>
                   if sde_serverCount entry \<ge> 1
                   then (let entry' = entry\<lparr> sde_serverCount := sde_serverCount entry - 1 \<rparr>
                         in if sde_serverCount entry' = 0 \<and> sde_publisherCount entry' = 0
                            then R\<lparr> sr_serviceDescriptions := (sr_serviceDescriptions R)[unat index := None], sr_freeIndex := index \<rparr>
                            else R\<lparr> sr_serviceDescriptions := (sr_serviceDescriptions R)[unat index := Some entry'] \<rparr>)
                   else R)
         else R)"

definition purge :: "u32 \<Rightarrow> service_description \<Rightarrow> service_registry \<Rightarrow> service_registry" where
  "purge CAPACITY sd R =
     (let index = ServiceRegistry_findIndex CAPACITY sd R
      in if index \<noteq> CAPACITY
         then R\<lparr> sr_serviceDescriptions := (sr_serviceDescriptions R)[unat index := None], sr_freeIndex := index \<rparr>
         else R)"

definition entry_matches :: "string option \<Rightarrow> string option \<Rightarrow> string option \<Rightarrow> service_description_entry \<Rightarrow> bool" where
  "entry_matches service inst event entry =
     (let match = (case service of None \<Rightarrow> True | Some s \<Rightarrow> string_compare (sd_serviceString (sde_serviceDescription entry)) s = 0);
          match = (match \<and> (case inst of None \<Rightarrow> True | Some s \<Rightarrow> string_compare (sd_instanceString (sde_serviceDescription entry)) s = 0));
          match = (match \<and> (case event of None \<Rightarrow> True | Some s \<Rightarrow> string_compare (sd_eventString (sde_serviceDescription entry)) s = 0))
      in match)"

fun find_loop :: "string option \<Rightarrow> string option \<Rightarrow> string option \<Rightarrow> service_description_entry option list \<Rightarrow>
    service_description_entry list" where
  "find_loop service inst event [] = []"
| "find_loop service inst event (e # es) =
     (case e of
        Some entry \<Rightarrow> (if entry_matches service inst event entry then [entry] else []) @ find_loop service inst event es
      | None \<Rightarrow> find_loop service inst event es)"

definition ServiceRegistry_find :: "string option \<Rightarrow> string option \<Rightarrow> string option \<Rightarrow> service_registry \<Rightarrow> service_description_entry list" where
  "ServiceRegistry_find service inst event R = find_loop service inst event (sr_serviceDescriptions R)"

fun forEach_loop :: "service_description_entry option list \<Rightarrow> service_description_entry list" where
  "forEach_loop [] = []"
| "forEach_loop (e # es) = (case e of Some entry \<Rightarrow> entry # forEach_loop es | None \<Rightarrow> forEach_loop es)"

definition ServiceRegistry_forEach :: "service_registry \<Rightarrow> service_description_entry list" where
  "ServiceRegistry_forEach R = forEach_loop (sr_serviceDescriptions R)"

subsection \<open>The invariant and the abstraction\<close>

text \<open>
  The registry stands for the number of publishers and servers of each service key: a multiset of
  offers. In a consistent registry no key has two entries, an entry counts at least one offer and
  the remembered free slot is free.
\<close>

definition entry_key :: "service_description_entry \<Rightarrow> string \<times> string \<times> string" where
  "entry_key e = service_key (sde_serviceDescription e)"

definition registry_ok :: "u32 \<Rightarrow> service_registry \<Rightarrow> bool" where
  "registry_ok CAPACITY R \<longleftrightarrow>
     length (sr_serviceDescriptions R) \<le> unat CAPACITY \<and>
     distinct (map entry_key (ServiceRegistry_forEach R)) \<and>
     (\<forall>e\<in>set (ServiceRegistry_forEach R). sde_publisherCount e \<noteq> 0 \<or> sde_serverCount e \<noteq> 0) \<and>
     (sr_freeIndex R = CAPACITY \<or>
      unat (sr_freeIndex R) < length (sr_serviceDescriptions R) \<and> sr_serviceDescriptions R ! unat (sr_freeIndex R) = None)"

definition registry_entries :: "service_registry \<Rightarrow> (string \<times> string \<times> string) \<rightharpoonup> service_description_entry" where
  "registry_entries R = map_of (map (\<lambda>e. (entry_key e, e)) (ServiceRegistry_forEach R))"

definition registry_count :: "service_registry \<Rightarrow> count_member \<Rightarrow> string \<times> string \<times> string \<Rightarrow> nat" where
  "registry_count R c k = (case registry_entries R k of None \<Rightarrow> 0 | Some e \<Rightarrow> unat (get_count c e))"

lemma get_set_count [simp]:
  "get_count c (set_count c' n e) = (if c = c' then n else get_count c e)"
  "sde_serviceDescription (set_count c n e) = sde_serviceDescription e" "entry_key (set_count c n e) = entry_key e"
  by (cases c; cases c'; simp add: entry_key_def)+

lemma entry_key_new [simp]: "entry_key (new_entry sd c) = service_key sd"
  by (simp add: new_entry_def) (simp add: entry_key_def ServiceDescriptionEntry_ctor_def)

lemma get_count_new [simp]: "get_count c' (new_entry sd c) = (if c' = c then 1 else 0)"
  by (cases c; cases c') (simp_all add: new_entry_def ServiceDescriptionEntry_ctor_def)

lemma forEach_loop_eq: "forEach_loop es = map the (filter (\<lambda>e. e \<noteq> None) es)"
  by (induction es) (auto split: option.splits)

lemma forEach_set: "e \<in> set (forEach_loop es) \<longleftrightarrow> Some e \<in> set es"
  by (induction es) (auto split: option.splits)

lemma forEach_append [simp]: "forEach_loop (xs @ ys) = forEach_loop xs @ forEach_loop ys"
  by (simp add: forEach_loop_eq)

lemma forEach_update:
  "i < length es \<Longrightarrow> forEach_loop (es[i := x]) = forEach_loop (take i es) @ forEach_loop [x] @ forEach_loop (drop (Suc i) es)"
  by (simp add: upd_conv_take_nth_drop split: option.split)

lemma forEach_split:
  "i < length es \<Longrightarrow> forEach_loop es = forEach_loop (take i es) @ forEach_loop [es ! i] @ forEach_loop (drop (Suc i) es)"
  by (metis forEach_append append_Cons append_Nil id_take_nth_drop)

text \<open>Where \<open>findIndex\<close> finds a key.\<close>

lemma findIndex_loop_ok:
  assumes "unat i + length es < 2 ^ 32"
  shows "if \<exists>e. Some e \<in> set es \<and> entry_key e = service_key sd
    then \<exists>j e. findIndex_loop CAPACITY i sd es = i + of_nat j \<and> j < length es \<and> es ! j = Some e \<and> entry_key e = service_key sd
    else findIndex_loop CAPACITY i sd es = CAPACITY"
  using assms
proof (induction es arbitrary: i)
  case (Cons x es)
  have "unat (i + 1) = Suc (unat i)" using Cons.prems by (simp add: unat_word_ariths)
  then have IH: "if \<exists>e. Some e \<in> set es \<and> entry_key e = service_key sd
    then \<exists>j e. findIndex_loop CAPACITY (i + 1) sd es = i + 1 + of_nat j \<and> j < length es \<and> es ! j = Some e \<and> entry_key e = service_key sd
    else findIndex_loop CAPACITY (i + 1) sd es = CAPACITY" using Cons.IH [of "i + 1"] Cons.prems by simp
  have hit: ?case if "x = Some e" "entry_key e = service_key sd" for e
    using that by (auto simp: ServiceDescription_eq_key entry_key_def intro!: exI [of _ 0])
  have miss: ?case if no: "\<forall>e. x = Some e \<longrightarrow> entry_key e \<noteq> service_key sd"
  proof (cases "\<exists>e. Some e \<in> set es \<and> entry_key e = service_key sd")
    case True
    with IH obtain j e where j: "findIndex_loop CAPACITY (i + 1) sd es = i + 1 + of_nat j" "j < length es" "es ! j = Some e"
      "entry_key e = service_key sd" by auto
    have "findIndex_loop CAPACITY i sd (x # es) = i + of_nat (Suc j)"
      using no j(1) by (auto simp: ServiceDescription_eq_key entry_key_def ac_simps split: option.splits)
    moreover have "Suc j < length (x # es)" "(x # es) ! Suc j = Some e" using j by simp_all
    ultimately show ?thesis using j(4) by (metis nth_mem)
  next
    case False
    with IH no show ?thesis by (auto simp: ServiceDescription_eq_key entry_key_def split: option.splits)
  qed
  show ?case using hit miss by blast
qed simp

subsection \<open>Slots\<close>

text \<open>The list of slots as a finite map, and the change of one slot.\<close>

definition slots_ok :: "service_description_entry option list \<Rightarrow> bool" where
  "slots_ok es \<longleftrightarrow> distinct (map entry_key (forEach_loop es)) \<and>
     (\<forall>e\<in>set (forEach_loop es). sde_publisherCount e \<noteq> 0 \<or> sde_serverCount e \<noteq> 0)"

definition slots_map :: "service_description_entry option list \<Rightarrow> (string \<times> string \<times> string) \<rightharpoonup> service_description_entry" where
  "slots_map es = map_of (map (\<lambda>e. (entry_key e, e)) (forEach_loop es))"

lemma registry_ok_slots:
  "registry_ok CAPACITY R \<longleftrightarrow> length (sr_serviceDescriptions R) \<le> unat CAPACITY \<and> slots_ok (sr_serviceDescriptions R) \<and>
     (sr_freeIndex R = CAPACITY \<or>
      unat (sr_freeIndex R) < length (sr_serviceDescriptions R) \<and> sr_serviceDescriptions R ! unat (sr_freeIndex R) = None)"
  by (simp add: registry_ok_def slots_ok_def ServiceRegistry_forEach_def)

lemma registry_entries_slots: "registry_entries R = slots_map (sr_serviceDescriptions R)"
  by (simp add: registry_entries_def slots_map_def ServiceRegistry_forEach_def)

lemma slots_map_Some:
  assumes "slots_ok es"
  shows "slots_map es k = Some e \<longleftrightarrow> Some e \<in> set es \<and> entry_key e = k"
proof -
  have "distinct (map fst (map (\<lambda>e. (entry_key e, e)) (forEach_loop es)))"
    using assms by (simp add: slots_ok_def comp_def)
  from map_of_eq_Some_iff [OF this] show ?thesis unfolding slots_map_def by (auto simp: forEach_set)
qed

lemma slots_map_None:
  assumes "slots_ok es"
  shows "slots_map es k = None \<longleftrightarrow> (\<forall>e. Some e \<in> set es \<longrightarrow> entry_key e \<noteq> k)"
  by (metis assms not_None_eq slots_map_Some)

lemma map_eq_by_Some: "(\<And>k e. f k = Some e \<longleftrightarrow> g k = Some e) \<Longrightarrow> f = g"
  by (rule ext) (metis not_None_eq)

lemma slots_split:
  assumes "i < length es"
  shows "set (es[i := x]) = insert x (set (take i es) \<union> set (drop (Suc i) es))"
    "set es = insert (es ! i) (set (take i es) \<union> set (drop (Suc i) es))"
proof -
  show "set (es[i := x]) = insert x (set (take i es) \<union> set (drop (Suc i) es))"
    using assms by (simp add: upd_conv_take_nth_drop)
  have "set es = set (take i es @ es ! i # drop (Suc i) es)" using assms by (simp only: id_take_nth_drop [symmetric])
  then show "set es = insert (es ! i) (set (take i es) \<union> set (drop (Suc i) es))" by simp
qed

text \<open>Writing an entry into a slot that held its key, or into a free slot if the key is new.\<close>

lemma slots_write:
  assumes ok: "slots_ok es" and i: "i < length es" and e: "sde_publisherCount e \<noteq> 0 \<or> sde_serverCount e \<noteq> 0"
    and old: "case es ! i of Some e' \<Rightarrow> entry_key e' = entry_key e | None \<Rightarrow> slots_map es (entry_key e) = None"
  shows "slots_ok (es[i := Some e])" "slots_map (es[i := Some e]) = (slots_map es)(entry_key e \<mapsto> e)"
proof -
  let ?A = "take i es" and ?B = "drop (Suc i) es"
  have d: "distinct (map entry_key (forEach_loop ?A @ forEach_loop [es ! i] @ forEach_loop ?B))"
    using ok unfolding slots_ok_def forEach_split [OF i] by blast
  have fresh: "entry_key x \<noteq> entry_key e" if x: "Some x \<in> set ?A \<union> set ?B" for x
  proof (cases "es ! i")
    case None
    with old slots_map_None [OF ok] x slots_split(2) [OF i] show ?thesis by auto
  next
    case (Some e')
    with d old x show ?thesis by (auto simp: forEach_set [symmetric] image_iff)
  qed
  have "entry_key e \<notin> entry_key ` set (forEach_loop ?A @ forEach_loop ?B)"
  proof
    assume "entry_key e \<in> entry_key ` set (forEach_loop ?A @ forEach_loop ?B)"
    then obtain x where "entry_key e = entry_key x" "Some x \<in> set ?A \<union> set ?B" by (auto simp: forEach_set)
    with fresh [of x] show False by simp
  qed
  moreover have "distinct (map entry_key (forEach_loop ?A @ forEach_loop ?B))" using d by auto
  ultimately have "distinct (map entry_key (forEach_loop (es[i := Some e])))" unfolding forEach_update [OF i] by auto
  then show ok': "slots_ok (es[i := Some e])"
    using ok e by (auto simp: slots_ok_def forEach_set slots_split(1) [OF i] slots_split(2) [OF i])
  show "slots_map (es[i := Some e]) = (slots_map es)(entry_key e \<mapsto> e)"
  proof (rule map_eq_by_Some)
    fix k x
    have "es ! i = Some y \<Longrightarrow> entry_key y = entry_key e" for y using old by (simp split: option.splits)
    then show "slots_map (es[i := Some e]) k = Some x \<longleftrightarrow> ((slots_map es)(entry_key e \<mapsto> e)) k = Some x"
      using fresh unfolding slots_map_Some [OF ok'] slots_split [OF i]
      by (auto simp: slots_map_Some [OF ok] slots_split(2) [OF i])
  qed
qed

lemma slots_clear:
  assumes ok: "slots_ok es" and i: "i < length es" and old: "es ! i = Some e"
  shows "slots_ok (es[i := None])" "slots_map (es[i := None]) = (slots_map es)(entry_key e := None)"
proof -
  have d: "distinct (map entry_key (forEach_loop (take i es) @ forEach_loop [es ! i] @ forEach_loop (drop (Suc i) es)))"
    using ok unfolding slots_ok_def forEach_split [OF i] by blast
  have fresh: "entry_key x \<noteq> entry_key e" if "Some x \<in> set (take i es) \<union> set (drop (Suc i) es)" for x
    using d old that by (auto simp: forEach_set [symmetric] image_iff)
  show ok': "slots_ok (es[i := None])"
    using ok d unfolding slots_ok_def forEach_update [OF i] forEach_split [OF i] by auto
  show "slots_map (es[i := None]) = (slots_map es)(entry_key e := None)"
  proof (rule map_eq_by_Some)
    fix k x
    show "slots_map (es[i := None]) k = Some x \<longleftrightarrow> ((slots_map es)(entry_key e := None)) k = Some x"
      using fresh old unfolding slots_map_Some [OF ok'] slots_split [OF i]
      by (auto simp: slots_map_Some [OF ok] slots_split(2) [OF i])
  qed
qed

lemma slots_append:
  assumes "slots_ok es" "sde_publisherCount e \<noteq> 0 \<or> sde_serverCount e \<noteq> 0" "slots_map es (entry_key e) = None"
  shows "slots_ok (es @ [Some e])" "slots_map (es @ [Some e]) = (slots_map es)(entry_key e \<mapsto> e)"
proof -
  show ok': "slots_ok (es @ [Some e])"
    using assms slots_map_None [OF assms(1)] by (auto simp: slots_ok_def forEach_set)
  show "slots_map (es @ [Some e]) = (slots_map es)(entry_key e \<mapsto> e)"
  proof (rule map_eq_by_Some)
    fix k x
    show "slots_map (es @ [Some e]) k = Some x \<longleftrightarrow> ((slots_map es)(entry_key e \<mapsto> e)) k = Some x"
      using assms(3) unfolding slots_map_Some [OF ok'] slots_map_None [OF assms(1)]
      by (auto simp: slots_map_Some [OF assms(1)])
  qed
qed

lemma fill_first_free_ok:
  "(fill_first_free e es = None \<longleftrightarrow> None \<notin> set es) \<and>
   (\<forall>es'. fill_first_free e es = Some es' \<longrightarrow> (\<exists>i < length es. es ! i = None \<and> es' = es[i := Some e]))"
proof (induction es)
  case (Cons x es)
  show ?case
  proof (cases x)
    case None
    then show ?thesis by force
  next
    case (Some y)
    have "\<exists>i < length (x # es). (x # es) ! i = None \<and> es' = (x # es)[i := Some e]"
      if "fill_first_free e (x # es) = Some es'" for es'
    proof -
      from that Some obtain es1 where "fill_first_free e es = Some es1" "es' = x # es1" by auto
      with Cons obtain i where "i < length es" "es ! i = None" "es' = x # es[i := Some e]" by blast
      then show ?thesis by (intro exI [of _ "Suc i"]) simp
    qed
    with Some Cons show ?thesis by auto
  qed
qed simp

subsection \<open>The operations\<close>

lemma findIndex_cases:
  assumes "registry_ok CAPACITY R"
  obtains (found) j e where "ServiceRegistry_findIndex CAPACITY sd R = of_nat j" "j < length (sr_serviceDescriptions R)"
      "unat (of_nat j :: u32) = j" "(of_nat j :: u32) \<noteq> CAPACITY" "sr_serviceDescriptions R ! j = Some e"
      "entry_key e = service_key sd" "registry_entries R (service_key sd) = Some e"
    | (absent) "ServiceRegistry_findIndex CAPACITY sd R = CAPACITY" "registry_entries R (service_key sd) = None"
proof -
  let ?es = "sr_serviceDescriptions R"
  have ok: "slots_ok ?es" "length ?es \<le> unat CAPACITY" using assms by (simp_all add: registry_ok_slots)
  have len: "unat (0 :: u32) + length ?es < 2 ^ 32" using ok(2) unsigned_less [of CAPACITY, where ?'a = nat] by simp
  show thesis
  proof (cases "\<exists>e. Some e \<in> set ?es \<and> entry_key e = service_key sd")
    case True
    with findIndex_loop_ok [OF len, of sd CAPACITY] obtain j e where j:
      "ServiceRegistry_findIndex CAPACITY sd R = of_nat j" "j < length ?es" "?es ! j = Some e" "entry_key e = service_key sd"
      by (auto simp: ServiceRegistry_findIndex_def)
    have u: "unat (of_nat j :: u32) = j" using j(2) len by (simp add: unat_of_nat)
    then have "(of_nat j :: u32) \<noteq> CAPACITY" using j(2) ok(2) by auto
    moreover have "registry_entries R (service_key sd) = Some e"
      using j nth_mem [OF j(2)] by (simp add: registry_entries_slots slots_map_Some [OF ok(1)])
    ultimately show thesis using found j u by blast
  next
    case False
    with findIndex_loop_ok [OF len, of sd CAPACITY] absent show thesis
      by (simp add: ServiceRegistry_findIndex_def registry_entries_slots slots_map_None [OF ok(1)])
  qed
qed

text \<open>The number of occupied slots.\<close>

definition occupied :: "service_registry \<Rightarrow> nat" where
  "occupied R = card (dom (registry_entries R))"

lemma occupied_eq:
  assumes "registry_ok CAPACITY R"
  shows "occupied R = length (ServiceRegistry_forEach R)"
proof -
  have "dom (registry_entries R) = set (map entry_key (ServiceRegistry_forEach R))"
    by (simp add: registry_entries_def dom_map_of_conv_image_fst image_image)
  then show ?thesis using assms unfolding occupied_def registry_ok_def by (metis distinct_card length_map)
qed

lemma occupied_full:
  assumes "registry_ok CAPACITY R" "None \<notin> set (sr_serviceDescriptions R)"
  shows "occupied R = length (sr_serviceDescriptions R)"
proof -
  have "\<forall>x\<in>set (sr_serviceDescriptions R). x \<noteq> None" using assms(2) by metis
  then have "filter (\<lambda>e. e \<noteq> None) (sr_serviceDescriptions R) = sr_serviceDescriptions R" by (rule filter_True)
  then show ?thesis using occupied_eq [OF assms(1)] by (simp add: ServiceRegistry_forEach_def forEach_loop_eq)
qed

lemma occupied_not_full:
  assumes "registry_ok CAPACITY R" "None \<in> set (sr_serviceDescriptions R)"
  shows "occupied R < unat CAPACITY"
proof -
  have "length (filter (\<lambda>e. e \<noteq> None) (sr_serviceDescriptions R)) < length (sr_serviceDescriptions R)"
    using assms(2) by (simp add: length_filter_less)
  then show ?thesis using occupied_eq [OF assms(1)] assms(1)
    by (simp add: ServiceRegistry_forEach_def forEach_loop_eq registry_ok_slots)
qed

lemma set_count_positive: "n \<noteq> 0 \<Longrightarrow> sde_publisherCount (set_count c n e) \<noteq> 0 \<or> sde_serverCount (set_count c n e) \<noteq> 0"
  by (cases c) auto

lemma new_entry_positive: "sde_publisherCount (new_entry sd c) \<noteq> 0 \<or> sde_serverCount (new_entry sd c) \<noteq> 0"
  unfolding new_entry_def by (rule set_count_positive) simp

lemma registry_count_upd:
  "registry_entries R' = (registry_entries R)(k \<mapsto> e) \<Longrightarrow> registry_count R' c k' = (if k' = k then unat (get_count c e) else registry_count R c k')"
  by (simp add: registry_count_def)

lemma registry_count_del:
  "registry_entries R' = (registry_entries R)(k := None) \<Longrightarrow> registry_count R' c k' = (if k' = k then 0 else registry_count R c k')"
  by (simp add: registry_count_def)

lemma add_new_ok:
  assumes ok: "registry_ok CAPACITY R" and new: "registry_entries R (service_key sd) = None"
    and index: "ServiceRegistry_findIndex CAPACITY sd R = CAPACITY"
  shows "if occupied R < unat CAPACITY
    then \<exists>R'. ServiceRegistry_add CAPACITY sd c R = (Inr (), R') \<and> registry_ok CAPACITY R' \<and>
      registry_entries R' = (registry_entries R)(service_key sd \<mapsto> new_entry sd c)
    else ServiceRegistry_add CAPACITY sd c R = (Inl SERVICE_REGISTRY_FULL, R)"
proof -
  let ?es = "sr_serviceDescriptions R" and ?e = "new_entry sd c"
  have so: "slots_ok ?es" and new': "slots_map ?es (entry_key ?e) = None"
    using ok new by (simp_all add: registry_ok_slots registry_entries_slots)
  have wr: "slots_ok (?es[i := Some ?e])" "slots_map (?es[i := Some ?e]) = (slots_map ?es)(service_key sd \<mapsto> ?e)"
    if "i < length ?es" "?es ! i = None" for i
    using slots_write [OF so that(1) new_entry_positive [of sd c]] that new' by simp_all
  show ?thesis
  proof (cases "sr_freeIndex R = CAPACITY")
    case False
    then have free: "unat (sr_freeIndex R) < length ?es" "?es ! unat (sr_freeIndex R) = None"
      using ok by (simp_all add: registry_ok_slots)
    then have "None \<in> set ?es" by (metis nth_mem)
    from occupied_not_full [OF ok this] show ?thesis
      using wr [OF free] False ok index by (simp add: ServiceRegistry_add_def registry_ok_slots registry_entries_slots Let_def)
  next
    case True
    show ?thesis
    proof (cases "fill_first_free ?e ?es")
      case None
      then have full: "occupied R = length ?es" using fill_first_free_ok occupied_full [OF ok] by blast
      show ?thesis
        using full index True None slots_append [OF so new_entry_positive new'] ok
        by (simp add: ServiceRegistry_add_def registry_ok_slots registry_entries_slots Let_def)
    next
      case (Some es')
      then obtain i where i: "i < length ?es" "?es ! i = None" "es' = ?es[i := Some ?e]" using fill_first_free_ok by blast
      then have "None \<in> set ?es" by (metis nth_mem)
      from occupied_not_full [OF ok this] show ?thesis
        using wr [OF i(1,2)] True ok index Some i(3)
        by (simp add: ServiceRegistry_add_def registry_ok_slots registry_entries_slots Let_def)
    qed
  qed
qed

lemma add_ok:
  assumes ok: "registry_ok CAPACITY R" and max: "registry_count R c (service_key sd) < 2 ^ 64 - 1"
  shows "if registry_entries R (service_key sd) \<noteq> None \<or> occupied R < unat CAPACITY
    then \<exists>R'. ServiceRegistry_add CAPACITY sd c R = (Inr (), R') \<and> registry_ok CAPACITY R' \<and>
      (\<forall>c' k. registry_count R' c' k = registry_count R c' k + (if c' = c \<and> k = service_key sd then 1 else 0)) \<and>
      dom (registry_entries R') = insert (service_key sd) (dom (registry_entries R))
    else ServiceRegistry_add CAPACITY sd c R = (Inl SERVICE_REGISTRY_FULL, R)"
proof (rule findIndex_cases [OF ok, of sd], goal_cases found absent)
  case (found j e)
  let ?es = "sr_serviceDescriptions R" and ?e = "set_count c (get_count c e + 1) e"
  have so: "slots_ok ?es" using ok by (simp add: registry_ok_slots)
  have "unat (get_count c e) < 2 ^ 64 - 1" using max found(7) by (simp add: registry_count_def)
  then have inc: "unat (get_count c e + 1) = Suc (unat (get_count c e))" by (simp add: unat_word_ariths)
  then have pos: "sde_publisherCount ?e \<noteq> 0 \<or> sde_serverCount ?e \<noteq> 0" by (intro set_count_positive) auto
  have old: "case ?es ! j of Some e' \<Rightarrow> entry_key e' = entry_key ?e | None \<Rightarrow> slots_map ?es (entry_key ?e) = None"
    using found(5) by simp
  from slots_write [OF so found(2) pos old]
  have w: "slots_ok (?es[j := Some ?e])" "slots_map (?es[j := Some ?e]) = (slots_map ?es)(service_key sd \<mapsto> ?e)"
    by (simp_all add: found(6))
  define R' where "R' = R\<lparr> sr_serviceDescriptions := ?es[j := Some ?e] \<rparr>"
  have run: "ServiceRegistry_add CAPACITY sd c R = (Inr (), R')"
    using found by (simp add: ServiceRegistry_add_def R'_def Let_def)
  have free: "sr_freeIndex R = CAPACITY \<or> unat (sr_freeIndex R) < length ?es \<and> ?es ! unat (sr_freeIndex R) = None"
    using ok by (simp add: registry_ok_slots)
  have "unat (sr_freeIndex R) \<noteq> j" if "sr_freeIndex R \<noteq> CAPACITY" using free that found(5) by auto
  then have ok': "registry_ok CAPACITY R'" using ok w(1) free by (auto simp: registry_ok_slots R'_def)
  have "registry_entries R' = (registry_entries R)(service_key sd \<mapsto> ?e)" using w(2) by (simp add: registry_entries_slots R'_def)
  from registry_count_upd [OF this] this run ok' found(7) inc show ?thesis
    by (auto simp: registry_count_def split: option.splits)
next
  case absent
  show ?thesis
  proof (cases "occupied R < unat CAPACITY")
    case True
    with add_new_ok [OF ok absent(2,1), of c] obtain R' where R': "ServiceRegistry_add CAPACITY sd c R = (Inr (), R')"
      "registry_ok CAPACITY R'" "registry_entries R' = (registry_entries R)(service_key sd \<mapsto> new_entry sd c)" by auto
    have "registry_count R' c' k = registry_count R c' k + (if c' = c \<and> k = service_key sd then 1 else 0)" for c' k
      using registry_count_upd [OF R'(3)] absent(2) by (simp add: registry_count_def)
    with True R' show ?thesis by auto
  next
    case False
    with add_new_ok [OF ok absent(2,1), of c] absent(2) show ?thesis by simp
  qed
qed

text \<open>
  \<open>removePublisher\<close> and \<open>removeServer\<close> are the same operation on the two counters.
\<close>

definition registry_remove :: "u32 \<Rightarrow> count_member \<Rightarrow> service_description \<Rightarrow> service_registry \<Rightarrow> service_registry" where
  "registry_remove CAPACITY c sd R = (case c of publisherCount \<Rightarrow> removePublisher CAPACITY sd R | serverCount \<Rightarrow> removeServer CAPACITY sd R)"

fun other_count :: "count_member \<Rightarrow> count_member" where
  "other_count publisherCount = serverCount"
| "other_count serverCount = publisherCount"

lemma registry_remove_alt:
  "registry_remove CAPACITY c sd R =
     (let index = ServiceRegistry_findIndex CAPACITY sd R
      in if index \<noteq> CAPACITY
         then (case sr_serviceDescriptions R ! unat index of None \<Rightarrow> R
               | Some entry \<Rightarrow>
                   if get_count c entry \<ge> 1
                   then (if get_count c entry - 1 = 0 \<and> get_count (other_count c) entry = 0
                         then R\<lparr> sr_serviceDescriptions := (sr_serviceDescriptions R)[unat index := None], sr_freeIndex := index \<rparr>
                         else R\<lparr> sr_serviceDescriptions := (sr_serviceDescriptions R)[unat index := Some (set_count c (get_count c entry - 1) entry)] \<rparr>)
                   else R)
         else R)"
  by (cases c) (auto simp: registry_remove_def removePublisher_def removeServer_def Let_def split: option.split)

lemma remove_ok:
  assumes ok: "registry_ok CAPACITY R"
  shows "registry_ok CAPACITY (registry_remove CAPACITY c sd R) \<and>
    registry_count (registry_remove CAPACITY c sd R) c' k =
      registry_count R c' k - (if c' = c \<and> k = service_key sd then 1 else 0)"
proof (rule findIndex_cases [OF ok, of sd], goal_cases found absent)
  case (found j e)
  let ?es = "sr_serviceDescriptions R"
  have so: "slots_ok ?es" using ok by (simp add: registry_ok_slots)
  have free: "sr_freeIndex R = CAPACITY \<or> unat (sr_freeIndex R) < length ?es \<and> ?es ! unat (sr_freeIndex R) = None"
    using ok by (simp add: registry_ok_slots)
  then have other: "unat (sr_freeIndex R) \<noteq> j" if "sr_freeIndex R \<noteq> CAPACITY" using that found(5) by auto
  consider (zero) "get_count c e = 0" | (last) "get_count c e = 1" "get_count (other_count c) e = 0"
    | (more) "get_count c e \<ge> 1" "\<not> (get_count c e - 1 = 0 \<and> get_count (other_count c) e = 0)"
    by (metis diff_eq_eq add_0 word_le_nat_alt unat_1 less_one not_le unat_eq_zero)
  then show ?case
  proof cases
    case zero
    then have "registry_remove CAPACITY c sd R = R" using found by (simp add: registry_remove_alt Let_def)
    with ok zero found(7) show ?thesis by (simp add: registry_count_def)
  next
    case last
    define R' where "R' = R\<lparr> sr_serviceDescriptions := ?es[j := None], sr_freeIndex := of_nat j \<rparr>"
    have run: "registry_remove CAPACITY c sd R = R'" using found last by (simp add: registry_remove_alt Let_def R'_def)
    from slots_clear [OF so found(2,5)] have "registry_ok CAPACITY R'"
      "registry_entries R' = (registry_entries R)(service_key sd := None)"
      using ok found by (simp_all add: registry_ok_slots registry_entries_slots R'_def)
    moreover have "registry_count R c' k = 0" if "c' \<noteq> c" "k = service_key sd"
    proof -
      have "c' = other_count c" using that(1) by (cases c; cases c') auto
      with last(2) found(7) that(2) show ?thesis by (simp add: registry_count_def)
    qed
    ultimately show ?thesis using run last(1) found(7) registry_count_del [of R' R "service_key sd" c' k]
      by (auto simp: registry_count_def)
  next
    case more
    let ?e = "set_count c (get_count c e - 1) e"
    define R' where "R' = R\<lparr> sr_serviceDescriptions := ?es[j := Some ?e] \<rparr>"
    have run: "registry_remove CAPACITY c sd R = R'" using found more by (auto simp: registry_remove_alt Let_def R'_def)
    have pos: "sde_publisherCount ?e \<noteq> 0 \<or> sde_serverCount ?e \<noteq> 0" using more(2) by (cases c) auto
    have old: "case ?es ! j of Some e' \<Rightarrow> entry_key e' = entry_key ?e | None \<Rightarrow> slots_map ?es (entry_key ?e) = None"
      using found(5) by simp
    from slots_write [OF so found(2) pos old] have "registry_ok CAPACITY R'"
      "registry_entries R' = (registry_entries R)(service_key sd \<mapsto> ?e)"
      using ok free other found(6) by (auto simp: registry_ok_slots registry_entries_slots R'_def)
    moreover have "unat (get_count c e - 1) = unat (get_count c e) - 1" using more(1) by (simp add: unat_sub)
    ultimately show ?thesis using run found(7) registry_count_upd [of R' R "service_key sd" ?e c' k]
      by (auto simp: registry_count_def)
  qed
next
  case absent
  then have "registry_remove CAPACITY c sd R = R" by (simp add: registry_remove_alt Let_def)
  with ok absent(2) show ?case by (simp add: registry_count_def)
qed

lemma purge_ok:
  assumes ok: "registry_ok CAPACITY R"
  shows "registry_ok CAPACITY (purge CAPACITY sd R) \<and> registry_entries (purge CAPACITY sd R) = (registry_entries R)(service_key sd := None)"
proof (rule findIndex_cases [OF ok, of sd], goal_cases found absent)
  case (found j e)
  let ?es = "sr_serviceDescriptions R"
  have so: "slots_ok ?es" using ok by (simp add: registry_ok_slots)
  have "purge CAPACITY sd R = R\<lparr> sr_serviceDescriptions := ?es[j := None], sr_freeIndex := of_nat j \<rparr>"
    using found by (simp add: purge_def Let_def)
  with slots_clear [OF so found(2,5)] ok found show ?case by (simp add: registry_ok_slots registry_entries_slots)
next
  case absent
  then show ?case using ok by (auto simp: purge_def Let_def)
qed

subsection \<open>The contract of the registry\<close>

text \<open>
  What \<open>PortManager\<close> relies on: the registry counts offers. An operation on the directory adds or removes one
  offer of a kind; a run of operations leaves the counts that the abstract counters have.
\<close>

datatype offer_op = AddOffer count_member service_description | RemoveOffer count_member service_description

locale offer_directory =
  fixes inv :: "'r \<Rightarrow> bool"
    and count :: "'r \<Rightarrow> count_member \<Rightarrow> string \<times> string \<times> string \<Rightarrow> nat"
    and add :: "service_description \<Rightarrow> count_member \<Rightarrow> 'r \<Rightarrow> (service_registry_error + unit) \<times> 'r"
    and remove :: "count_member \<Rightarrow> service_description \<Rightarrow> 'r \<Rightarrow> 'r"
    and limit :: nat
  assumes add_law: "\<lbrakk> inv r; count r c (service_key sd) < limit; add sd c r = (Inr (), r') \<rbrakk> \<Longrightarrow>
      inv r' \<and> (\<forall>c' k. count r' c' k = count r c' k + (if c' = c \<and> k = service_key sd then 1 else 0))"
    and add_failed: "\<lbrakk> inv r; count r c (service_key sd) < limit; add sd c r = (Inl e, r') \<rbrakk> \<Longrightarrow> r' = r"
    and remove_law: "inv r \<Longrightarrow> inv (remove c sd r) \<and>
      count (remove c sd r) c' k = count r c' k - (if c' = c \<and> k = service_key sd then 1 else 0)"
begin

lemma remove_after_add:
  assumes "inv r" "count r c (service_key sd) < limit" "add sd c r = (Inr (), r')"
  shows "inv (remove c sd r')" "count (remove c sd r') = count r"
  using add_law [OF assms] remove_law [of r' c sd] by (auto simp: fun_eq_iff)

primrec apply_op :: "offer_op \<Rightarrow> 'r \<Rightarrow> 'r" where
  "apply_op (AddOffer c sd) r = snd (add sd c r)"
| "apply_op (RemoveOffer c sd) r = remove c sd r"

text \<open>The operations that took effect, for the abstract counters.\<close>

primrec effect :: "offer_op \<Rightarrow> 'r \<Rightarrow> (count_member \<Rightarrow> string \<times> string \<times> string \<Rightarrow> nat) \<Rightarrow> count_member \<Rightarrow> string \<times> string \<times> string \<Rightarrow> nat" where
  "effect (AddOffer c sd) r f =
     (\<lambda>c' k. f c' k + (if fst (add sd c r) = Inr () \<and> c' = c \<and> k = service_key sd then 1 else 0))"
| "effect (RemoveOffer c sd) r f = (\<lambda>c' k. f c' k - (if c' = c \<and> k = service_key sd then 1 else 0))"

lemma apply_op_ok:
  assumes "inv r" "\<forall>c k. count r c k < limit"
  shows "inv (apply_op op r) \<and> count (apply_op op r) = effect op r (count r)"
proof (cases op)
  case (AddOffer c sd)
  have lt: "count r c (service_key sd) < limit" using assms(2) by blast
  obtain res r' where a: "add sd c r = (res, r')" by fastforce
  show ?thesis
  proof (cases res)
    case (Inl e)
    with add_failed [OF assms(1) lt] a AddOffer assms(1) show ?thesis by (simp add: fun_eq_iff)
  next
    case (Inr u)
    with add_law [OF assms(1) lt] a AddOffer show ?thesis by (auto simp: fun_eq_iff)
  qed
next
  case (RemoveOffer c sd)
  with remove_law [OF assms(1)] show ?thesis by (simp add: fun_eq_iff)
qed

end

definition registry_limit :: nat where
  "registry_limit = 2 ^ 64 - 1"

interpretation registry: offer_directory "registry_ok CAPACITY" registry_count "ServiceRegistry_add CAPACITY"
    "registry_remove CAPACITY" registry_limit
  for CAPACITY
proof (unfold_locales, goal_cases add failed remove)
  case (add r c sd r')
  with add_ok [of CAPACITY r c sd] show ?case by (auto simp: registry_limit_def split: if_splits)
next
  case (failed r c sd e r')
  with add_ok [of CAPACITY r c sd] show ?case by (auto simp: registry_limit_def split: if_splits)
next
  case (remove r c sd c' k)
  then show ?case by (rule remove_ok)
qed

subsection \<open>Properties\<close>

text \<open>
  C24: the registry implements a multiset of offers. In a consistent registry an offer is accepted exactly
  if its service is known or a slot is free; it then counts one more for its service and kind and
  nothing else changes; a refused offer changes nothing; taking back an offer counts one less
  (never below zero); all operations keep the registry consistent.
\<close>

theorem registry_refines_multiset:
  assumes "registry_ok CAPACITY R" "registry_count R c (service_key sd) < 2 ^ 64 - 1"
  shows "(if registry_entries R (service_key sd) \<noteq> None \<or> occupied R < unat CAPACITY
      then \<exists>R'. ServiceRegistry_add CAPACITY sd c R = (Inr (), R') \<and> registry_ok CAPACITY R' \<and>
        registry_count R' = (registry_count R)(c := (registry_count R c)(service_key sd := registry_count R c (service_key sd) + 1))
      else ServiceRegistry_add CAPACITY sd c R = (Inl SERVICE_REGISTRY_FULL, R)) \<and>
    (\<forall>R'. R' = (case c of publisherCount \<Rightarrow> removePublisher CAPACITY sd R | serverCount \<Rightarrow> removeServer CAPACITY sd R) \<longrightarrow>
      registry_ok CAPACITY R' \<and>
      registry_count R' = (registry_count R)(c := (registry_count R c)(service_key sd := registry_count R c (service_key sd) - 1))) \<and>
    registry_ok CAPACITY (purge CAPACITY sd R) \<and>
    registry_entries (purge CAPACITY sd R) = (registry_entries R)(service_key sd := None)"
proof -
  have "registry_count R' = (registry_count R)(c := (registry_count R c)(service_key sd := registry_count R c (service_key sd) + 1))"
    if "\<forall>c' k. registry_count R' c' k = registry_count R c' k + (if c' = c \<and> k = service_key sd then 1 else 0)" for R'
    using that by (auto simp: fun_eq_iff)
  moreover have "registry_count (registry_remove CAPACITY c sd R) =
      (registry_count R)(c := (registry_count R c)(service_key sd := registry_count R c (service_key sd) - 1))"
    using remove_ok [OF assms(1)] by (auto simp: fun_eq_iff)
  ultimately show ?thesis
    using add_ok [OF assms] remove_ok [OF assms(1), of c sd] purge_ok [OF assms(1), of sd]
    unfolding registry_remove_def by (metis (no_types, lifting))
qed

definition example_service :: "string \<Rightarrow> service_description" where
  "example_service s = ServiceDescription_ctor s ''i'' ''e'' [0, 0, 0, 0] INTERNAL"

definition example_registry :: service_registry where
  "example_registry = snd (addPublisher 2 (example_service ''a'') (ServiceRegistry_ctor 2))"

lemma registry_ctor_ok: "registry_ok CAPACITY (ServiceRegistry_ctor CAPACITY)"
  by (simp add: registry_ok_def ServiceRegistry_ctor_def ServiceRegistry_forEach_def)

lemma example_registry_eq:
  "example_registry = \<lparr> sr_serviceDescriptions = [Some (new_entry (example_service ''a'') publisherCount)], sr_freeIndex = 2 \<rparr>"
  by (simp add: example_registry_def addPublisher_def ServiceRegistry_add_def ServiceRegistry_ctor_def ServiceRegistry_findIndex_def Let_def)

lemma example_registry_ok: "registry_ok 2 example_registry"
  by (simp add: example_registry_eq registry_ok_def ServiceRegistry_forEach_def new_entry_def ServiceDescriptionEntry_ctor_def)

lemma registry_refines_multiset_witness:
  "\<exists>R'. ServiceRegistry_add 2 (example_service ''b'') serverCount example_registry = (Inr (), R') \<and> registry_ok 2 R' \<and>
     registry_count R' serverCount (service_key (example_service ''b'')) = 1 \<and>
     registry_count R' publisherCount (service_key (example_service ''a'')) = 1"
proof -
  have "service_key (example_service ''b'') \<noteq> service_key (example_service ''a'')"
    by (simp add: example_service_def service_key_def ServiceDescription_ctor_def)
  then have e: "registry_entries example_registry (service_key (example_service ''b'')) = None"
    "registry_entries example_registry (service_key (example_service ''a'')) = Some (new_entry (example_service ''a'') publisherCount)"
    by (simp_all add: registry_entries_def example_registry_eq ServiceRegistry_forEach_def)
  then have c: "registry_count example_registry serverCount (service_key (example_service ''b'')) = 0"
    "registry_count example_registry publisherCount (service_key (example_service ''a'')) = 1"
    by (simp_all add: registry_count_def new_entry_def)
  have "occupied example_registry < unat (2 :: u32)"
    using occupied_eq [OF example_registry_ok] by (simp add: example_registry_eq ServiceRegistry_forEach_def)
  with registry_refines_multiset [OF example_registry_ok, of serverCount "example_service ''b''"] c show ?thesis by auto
qed

lemma find_loop_eq: "find_loop service inst event es = filter (entry_matches service inst event) (forEach_loop es)"
  by (induction es) (auto split: option.split)

text \<open>
  C25: \<open>find\<close> reports every offered service that matches the given strings (a missing one matches everything)
  exactly once, and nothing else.
\<close>

theorem registry_find_complete:
  assumes "registry_ok CAPACITY R"
  shows "distinct (map entry_key (ServiceRegistry_find service inst event R)) \<and>
    entry_key ` set (ServiceRegistry_find service inst event R) =
      {(s, i, e). (\<exists>c. 0 < registry_count R c (s, i, e)) \<and>
         (service = None \<or> service = Some s) \<and> (inst = None \<or> inst = Some i) \<and> (event = None \<or> event = Some e)}"
proof -
  let ?F = "ServiceRegistry_find service inst event R"
  have so: "slots_ok (sr_serviceDescriptions R)" using assms by (simp add: registry_ok_slots)
  have F: "set ?F = {e. Some e \<in> set (sr_serviceDescriptions R) \<and> entry_matches service inst event e}"
    by (auto simp: ServiceRegistry_find_def find_loop_eq forEach_set)
  have pos: "(\<exists>c. 0 < registry_count R c k) \<longleftrightarrow> registry_entries R k \<noteq> None" for k
  proof (cases "registry_entries R k")
    case (Some e)
    then have "Some e \<in> set (sr_serviceDescriptions R)" using slots_map_Some [OF so] by (simp add: registry_entries_slots)
    then have "sde_publisherCount e \<noteq> 0 \<or> sde_serverCount e \<noteq> 0" using so by (auto simp: slots_ok_def forEach_set)
    then have "get_count publisherCount e \<noteq> 0 \<or> get_count serverCount e \<noteq> 0" by simp
    then have "\<exists>c. get_count c e \<noteq> 0" by blast
    with Some show ?thesis by (simp add: registry_count_def unat_gt_0)
  qed (simp add: registry_count_def)
  have m: "entry_matches service inst event x \<longleftrightarrow> (service = None \<or> service = Some s) \<and> (inst = None \<or> inst = Some i) \<and>
      (event = None \<or> event = Some e)" if "entry_key x = (s, i, e)" for x s i e
    using that by (auto simp: entry_matches_def entry_key_def service_key_def split: option.splits)
  have keys: "(s, i, e) \<in> entry_key ` set ?F \<longleftrightarrow> (\<exists>c. 0 < registry_count R c (s, i, e)) \<and>
      (service = None \<or> service = Some s) \<and> (inst = None \<or> inst = Some i) \<and> (event = None \<or> event = Some e)" for s i e
  proof -
    have "(s, i, e) \<in> entry_key ` set ?F \<longleftrightarrow>
        (\<exists>x. slots_map (sr_serviceDescriptions R) (s, i, e) = Some x \<and> entry_matches service inst event x)"
      unfolding F slots_map_Some [OF so] by (auto simp: image_iff)
    also have "\<dots> \<longleftrightarrow> (\<exists>x. slots_map (sr_serviceDescriptions R) (s, i, e) = Some x \<and>
        (service = None \<or> service = Some s) \<and> (inst = None \<or> inst = Some i) \<and> (event = None \<or> event = Some e))"
      using m unfolding slots_map_Some [OF so] by blast
    finally show ?thesis unfolding pos registry_entries_slots by auto
  qed
  have "entry_key ` set ?F = {(s, i, e). (\<exists>c. 0 < registry_count R c (s, i, e)) \<and>
      (service = None \<or> service = Some s) \<and> (inst = None \<or> inst = Some i) \<and> (event = None \<or> event = Some e)}"
    (is "_ = ?K")
  proof (rule set_eqI)
    fix k show "k \<in> entry_key ` set ?F \<longleftrightarrow> k \<in> ?K" by (cases k) (simp only: keys mem_Collect_eq split_conv)
  qed
  moreover have "distinct (map entry_key ?F)"
    using so by (simp add: ServiceRegistry_find_def find_loop_eq slots_ok_def distinct_map_filter)
  ultimately show ?thesis by blast
qed

lemma registry_find_complete_witness:
  "entry_key ` set (ServiceRegistry_find None (Some ''i'') None example_registry) = {service_key (example_service ''a'')}"
proof -
  have k: "service_key (example_service ''a'') = (''a'', ''i'', ''e'')"
    by (simp add: example_service_def service_key_def ServiceDescription_ctor_def)
  have "(\<exists>c. 0 < registry_count example_registry c x) \<longleftrightarrow> x = (''a'', ''i'', ''e'')" for x
  proof -
    have "registry_count example_registry c x = (if c = publisherCount \<and> x = (''a'', ''i'', ''e'') then 1 else 0)" for c
      by (simp add: registry_count_def registry_entries_def example_registry_eq ServiceRegistry_forEach_def k)
    then show ?thesis by auto
  qed
  with registry_find_complete [OF example_registry_ok, of None "Some ''i''" None] show ?thesis by (auto simp: k)
qed

end
