(* ===== verification/Pub_Sub_Ports.thy ===== *)
theory Pub_Sub_Ports
  imports Chunk_Receiver Service_Registry
begin

section \<open>Publisher and subscriber ports\<close>

text \<open>
  \<open>popo::PublisherPortUser\<close>, \<open>popo::PublisherPortRouDi\<close>, \<open>popo::SubscriberPortUser\<close> and
  \<open>popo::SubscriberPortSingleProducer\<close>/\<open>MultiProducer\<close>: the two ends of a publish-subscribe connection as
  the application and RouDi see them. A port is its data; the classes for the application and for
  RouDi are two sets of operations on it. \<open>popo_config\<close> collects the compile-time constants.
\<close>

record popo_config =
  pc_manyToMany :: bool
  pc_MaxAlloc :: u32
  pc_MaxHeld :: u32
  pc_Capacity :: u64
  pc_MaxQueues :: nat
  pc_MaxHistory :: u64

record base_port_data =
  bpd_serviceDescription :: service_description
  bpd_runtimeName :: string
  bpd_nodeName :: string
  bpd_uniqueId :: u64
  bpd_toBeDestroyed :: bool

definition destroy :: "'a base_port_data_scheme \<Rightarrow> 'a base_port_data_scheme" where
  "destroy D = D\<lparr> bpd_toBeDestroyed := True \<rparr>"

subsection \<open>The publisher\<close>

record publisher_options =
  po_historyCapacity :: u64
  po_nodeName :: string
  po_offerOnCreate :: bool
  po_subscriberTooSlowPolicy :: consumer_too_slow_policy

record publisher_port_data = base_port_data +
  ppd_chunkSenderData :: chunk_sender_data
  ppd_options :: publisher_options
  ppd_offeringRequested :: bool
  ppd_offered :: bool

definition PublisherPortData_ctor ::
  "popo_config \<Rightarrow> service_description \<Rightarrow> string \<Rightarrow> publisher_options \<Rightarrow> u64 \<Rightarrow> u32 list \<Rightarrow> shm \<Rightarrow>
     (publisher_port_data \<times> shm) outcome" where
  "PublisherPortData_ctor cfg sd runtimeName options uniqueId indices S =
     obind (ChunkSenderData_ctor (pc_MaxAlloc cfg) (pc_MaxHistory cfg) (po_subscriberTooSlowPolicy options)
              (po_historyCapacity options) indices S) (\<lambda>(X, S').
     Inr (\<lparr> bpd_serviceDescription = sd, bpd_runtimeName = runtimeName, bpd_nodeName = po_nodeName options,
            bpd_uniqueId = uniqueId, bpd_toBeDestroyed = False, ppd_chunkSenderData = X, ppd_options = options,
            ppd_offeringRequested = po_offerOnCreate options, ppd_offered = False \<rparr>, S'))"

definition PublisherPortUser_tryAllocateChunk ::
  "popo_config \<Rightarrow> u32 \<Rightarrow> u32 \<Rightarrow> u32 \<Rightarrow> u32 \<Rightarrow> publisher_port_data \<Rightarrow> popo_state \<Rightarrow>
     ((allocation_error + address) \<times> publisher_port_data \<times> popo_state) outcome" where
  "PublisherPortUser_tryAllocateChunk cfg userPayloadSize userPayloadAlignment userHeaderSize userHeaderAlignment p P =
     obind (ChunkSender_tryAllocate (pc_MaxAlloc cfg) (bpd_uniqueId p) userPayloadSize userPayloadAlignment userHeaderSize
              userHeaderAlignment (ppd_chunkSenderData p) (ps_shm P)) (\<lambda>(r, X, S').
     Inr (r, p\<lparr> ppd_chunkSenderData := X \<rparr>, P\<lparr> ps_shm := S' \<rparr>))"

definition PublisherPortUser_releaseChunk ::
  "popo_config \<Rightarrow> address pointer \<Rightarrow> publisher_port_data \<Rightarrow> popo_state \<Rightarrow> (publisher_port_data \<times> popo_state) outcome" where
  "PublisherPortUser_releaseChunk cfg chunkHeader p P =
     obind (ChunkSender_release (pc_MaxAlloc cfg) chunkHeader (ppd_chunkSenderData p) (ps_shm P)) (\<lambda>(X, S').
     Inr (p\<lparr> ppd_chunkSenderData := X \<rparr>, P\<lparr> ps_shm := S' \<rparr>))"

text \<open>\<open>rounds\<close>: what the consumers do while a blocking publisher waits.\<close>

definition PublisherPortUser_sendChunk ::
  "popo_config \<Rightarrow> (chunk_distributor_data \<times> popo_state \<Rightarrow> chunk_distributor_data \<times> popo_state) list \<Rightarrow> address pointer \<Rightarrow>
     publisher_port_data \<Rightarrow> popo_state \<Rightarrow> (publisher_port_data \<times> popo_state) outcome" where
  "PublisherPortUser_sendChunk cfg rounds chunkHeader p P =
     (let offerRequested = ppd_offeringRequested p
      in if offerRequested
         then obind (ChunkSender_send (pc_MaxAlloc cfg) (pc_Capacity cfg) rounds chunkHeader (ppd_chunkSenderData p) P) (\<lambda>(_, X, P').
              Inr (p\<lparr> ppd_chunkSenderData := X \<rparr>, P'))
         else obind (ChunkSender_pushToHistory (pc_MaxAlloc cfg) chunkHeader (ppd_chunkSenderData p) P) (\<lambda>(X, P').
              Inr (p\<lparr> ppd_chunkSenderData := X \<rparr>, P')))"

definition PublisherPortUser_tryGetPreviousChunk :: "publisher_port_data \<Rightarrow> popo_state \<Rightarrow> address pointer" where
  "PublisherPortUser_tryGetPreviousChunk p P = tryGetPreviousChunk (ppd_chunkSenderData p) (ps_shm P)"

definition PublisherPortUser_offer :: "publisher_port_data \<Rightarrow> publisher_port_data" where
  "PublisherPortUser_offer p = (if \<not> ppd_offeringRequested p then p\<lparr> ppd_offeringRequested := True \<rparr> else p)"

definition PublisherPortUser_stopOffer :: "publisher_port_data \<Rightarrow> publisher_port_data" where
  "PublisherPortUser_stopOffer p = (if ppd_offeringRequested p then p\<lparr> ppd_offeringRequested := False \<rparr> else p)"

definition PublisherPortUser_hasSubscribers :: "publisher_port_data \<Rightarrow> bool outcome" where
  "PublisherPortUser_hasSubscribers p = hasStoredQueues (csd_distributor (ppd_chunkSenderData p))"

text \<open>The change of the distributor inside a publisher.\<close>

definition with_distributor :: "chunk_distributor_data \<Rightarrow> publisher_port_data \<Rightarrow> publisher_port_data" where
  "with_distributor D p = p\<lparr> ppd_chunkSenderData := (ppd_chunkSenderData p)\<lparr> csd_distributor := D \<rparr> \<rparr>"

definition PublisherPortRouDi_tryGetCaProMessage :: "publisher_port_data \<Rightarrow> (capro_message option \<times> publisher_port_data) outcome" where
  "PublisherPortRouDi_tryGetCaProMessage p =
     (let offeringRequested = ppd_offeringRequested p; isOffered = ppd_offered p; D = csd_distributor (ppd_chunkSenderData p)
      in if offeringRequested \<and> \<not> isOffered
         then Inr (Some ((CaproMessage_ctor OFFER (bpd_serviceDescription p) CAPRO_NONE None)
                           \<lparr> cm_historyCapacity := cdd_historyCapacity D, cm_serviceType := CAPRO_PUBLISHER \<rparr>),
                   p\<lparr> ppd_offered := True \<rparr>)
         else if \<not> offeringRequested \<and> isOffered
         then obind (removeAllQueues D) (\<lambda>D'.
              Inr (Some ((CaproMessage_ctor STOP_OFFER (bpd_serviceDescription p) CAPRO_NONE None)\<lparr> cm_serviceType := CAPRO_PUBLISHER \<rparr>),
                   (with_distributor D' p)\<lparr> ppd_offered := False \<rparr>))
         else Inr (None, p))"

text \<open>The parameter of \<open>tryAddQueue\<close> is a \<open>not_null\<close> pointer.\<close>

definition not_null :: "'a pointer \<Rightarrow> 'a outcome" where
  "not_null ptr = (case ptr of None \<Rightarrow> Inl EXPECTS_ENSURES_FAILED | Some x \<Rightarrow> Inr x)"

definition PublisherPortRouDi_dispatchCaProMessageAndGetPossibleResponse ::
  "popo_config \<Rightarrow> capro_message \<Rightarrow> publisher_port_data \<Rightarrow> popo_state \<Rightarrow>
     (capro_message option \<times> publisher_port_data \<times> popo_state) outcome" where
  "PublisherPortRouDi_dispatchCaProMessageAndGetPossibleResponse cfg caProMessage p P =
     (let responseMessage = CaproMessage_ctor NACK (bpd_serviceDescription p) CAPRO_NONE None;
          D = csd_distributor (ppd_chunkSenderData p);
          answer = (\<lambda>ret. case ret of Inr _ \<Rightarrow> responseMessage\<lparr> cm_type := ACK \<rparr> | Inl _ \<Rightarrow> responseMessage)
      in if ppd_offered p
         then if cm_type caProMessage = SUB
              then obind (not_null (cm_chunkQueueData caProMessage)) (\<lambda>q.
                   obind (tryAddQueue (pc_MaxQueues cfg) (pc_Capacity cfg) q (cm_historyCapacity caProMessage) D P) (\<lambda>(ret, D', P').
                   Inr (Some (answer ret), with_distributor D' p, P')))
              else if cm_type caProMessage = UNSUB
              then obind (not_null (cm_chunkQueueData caProMessage)) (\<lambda>q.
                   obind (tryRemoveQueue q D) (\<lambda>(ret, D').
                   Inr (Some (answer ret), with_distributor D' p, P)))
              else errorHandler (POPO POPO__CAPRO_PROTOCOL_ERROR) SEVERE (Inr (Some responseMessage, p, P))
         else Inr (Some responseMessage, p, P))"

definition PublisherPortRouDi_releaseAllChunks :: "popo_config \<Rightarrow> publisher_port_data \<Rightarrow> popo_state \<Rightarrow> (publisher_port_data \<times> popo_state) outcome" where
  "PublisherPortRouDi_releaseAllChunks cfg p P =
     obind (ChunkSender_releaseAll (pc_MaxAlloc cfg) (ppd_chunkSenderData p) P) (\<lambda>(X, P').
     Inr (p\<lparr> ppd_chunkSenderData := X \<rparr>, P'))"

subsection \<open>The subscriber\<close>

datatype subscribe_state = NOT_SUBSCRIBED | SUBSCRIBE_REQUESTED | SUBSCRIBED | UNSUBSCRIBE_REQUESTED | WAIT_FOR_OFFER

record subscriber_options =
  so_queueCapacity :: u64
  so_historyRequest :: u64
  so_nodeName :: string
  so_subscribeOnCreate :: bool
  so_queueFullPolicy :: queue_full_policy
  so_requiresPublisherHistorySupport :: bool

record subscriber_port_data = base_port_data +
  spd_chunkReceiverData :: chunk_receiver_data
  spd_options :: subscriber_options
  spd_subscribeRequested :: bool
  spd_subscriptionState :: subscribe_state

text \<open>The queue, with the identifier \<open>queueId\<close>, is constructed at \<open>q\<close> and then resized.\<close>

definition SubscriberPortData_ctor ::
  "popo_config \<Rightarrow> service_description \<Rightarrow> string \<Rightarrow> variant_queue_types \<Rightarrow> subscriber_options \<Rightarrow> u64 \<Rightarrow> u64 \<Rightarrow> address \<Rightarrow> u32 list \<Rightarrow>
     popo_state \<Rightarrow> (subscriber_port_data \<times> popo_state) outcome" where
  "SubscriberPortData_ctor cfg sd runtimeName queueType options uniqueId queueId q indices P =
     obind (ChunkReceiverData_ctor (pc_MaxHeld cfg) (pc_Capacity cfg) queueId queueType (so_queueFullPolicy options) q indices P) (\<lambda>(R, P1).
     obind (ChunkQueuePopper_setCapacity (pc_Capacity cfg) (so_queueCapacity options) q P1) (\<lambda>P2.
     Inr (\<lparr> bpd_serviceDescription = sd, bpd_runtimeName = runtimeName, bpd_nodeName = so_nodeName options,
            bpd_uniqueId = uniqueId, bpd_toBeDestroyed = False, spd_chunkReceiverData = R, spd_options = options,
            spd_subscribeRequested = so_subscribeOnCreate options, spd_subscriptionState = NOT_SUBSCRIBED \<rparr>, P2)))"

abbreviation spd_queue :: "subscriber_port_data \<Rightarrow> address" where
  "spd_queue s \<equiv> crd_queue (spd_chunkReceiverData s)"

definition SubscriberPortUser_subscribe :: "popo_config \<Rightarrow> subscriber_port_data \<Rightarrow> popo_state \<Rightarrow> (subscriber_port_data \<times> popo_state) outcome" where
  "SubscriberPortUser_subscribe cfg s P =
     (if \<not> spd_subscribeRequested s
      then obind (ChunkQueuePopper_clear (pc_Capacity cfg) (spd_queue s) P) (\<lambda>P'.
           Inr (s\<lparr> spd_subscribeRequested := True \<rparr>, P'))
      else Inr (s, P))"

definition SubscriberPortUser_unsubscribe :: "subscriber_port_data \<Rightarrow> subscriber_port_data" where
  "SubscriberPortUser_unsubscribe s = (if spd_subscribeRequested s then s\<lparr> spd_subscribeRequested := False \<rparr> else s)"

definition SubscriberPortUser_tryGetChunk ::
  "popo_config \<Rightarrow> subscriber_port_data \<Rightarrow> popo_state \<Rightarrow>
     ((chunk_receive_result + address pointer) \<times> subscriber_port_data \<times> popo_state) outcome" where
  "SubscriberPortUser_tryGetChunk cfg s P =
     obind (ChunkReceiver_tryGet (pc_MaxHeld cfg) (pc_Capacity cfg) (spd_chunkReceiverData s) P) (\<lambda>(r, R, P').
     Inr (r, s\<lparr> spd_chunkReceiverData := R \<rparr>, P'))"

definition SubscriberPortUser_releaseChunk ::
  "popo_config \<Rightarrow> address pointer \<Rightarrow> subscriber_port_data \<Rightarrow> popo_state \<Rightarrow> (subscriber_port_data \<times> popo_state) outcome" where
  "SubscriberPortUser_releaseChunk cfg chunkHeader s P =
     obind (ChunkReceiver_release (pc_MaxHeld cfg) chunkHeader (spd_chunkReceiverData s) P) (\<lambda>(R, P').
     Inr (s\<lparr> spd_chunkReceiverData := R \<rparr>, P'))"

definition SubscriberPortUser_releaseQueuedChunks :: "popo_config \<Rightarrow> subscriber_port_data \<Rightarrow> popo_state \<Rightarrow> popo_state outcome" where
  "SubscriberPortUser_releaseQueuedChunks cfg s P = ChunkQueuePopper_clear (pc_Capacity cfg) (spd_queue s) P"

definition SubscriberPortUser_hasNewChunks :: "popo_config \<Rightarrow> subscriber_port_data \<Rightarrow> popo_state \<Rightarrow> bool outcome" where
  "SubscriberPortUser_hasNewChunks cfg s P =
     (case ps_queues P (spd_queue s) of None \<Rightarrow> Inl NULLPTR_ACCESS
      | Some cqd \<Rightarrow> Inr (\<not> VariantQueue_empty (pc_Capacity cfg) (cqd_queue cqd)))"

definition SubscriberPortUser_hasLostChunksSinceLastCall :: "subscriber_port_data \<Rightarrow> popo_state \<Rightarrow> (bool \<times> popo_state) outcome" where
  "SubscriberPortUser_hasLostChunksSinceLastCall s P = hasLostChunks (spd_queue s) P"

text \<open>The \<open>SUB\<close> and \<open>UNSUB\<close> messages of a subscriber.\<close>

definition sub_message :: "subscriber_port_data \<Rightarrow> capro_message" where
  "sub_message s = (CaproMessage_ctor SUB (bpd_serviceDescription s) CAPRO_NONE None)
     \<lparr> cm_chunkQueueData := Some (spd_queue s), cm_historyCapacity := so_historyRequest (spd_options s) \<rparr>"

definition unsub_message :: "subscriber_port_data \<Rightarrow> capro_message" where
  "unsub_message s = (CaproMessage_ctor UNSUB (bpd_serviceDescription s) CAPRO_NONE None)\<lparr> cm_chunkQueueData := Some (spd_queue s) \<rparr>"

definition SubscriberPortSingleProducer_tryGetCaProMessage :: "subscriber_port_data \<Rightarrow> capro_message option \<times> subscriber_port_data" where
  "SubscriberPortSingleProducer_tryGetCaProMessage s =
     (let currentSubscribeRequest = spd_subscribeRequested s; currentSubscriptionState = spd_subscriptionState s
      in if currentSubscribeRequest \<and> currentSubscriptionState = NOT_SUBSCRIBED
         then (Some (sub_message s), s\<lparr> spd_subscriptionState := SUBSCRIBE_REQUESTED \<rparr>)
         else if \<not> currentSubscribeRequest \<and> currentSubscriptionState = SUBSCRIBED
         then (Some (unsub_message s), s\<lparr> spd_subscriptionState := UNSUBSCRIBE_REQUESTED \<rparr>)
         else if \<not> currentSubscribeRequest \<and> currentSubscriptionState = WAIT_FOR_OFFER
         then (None, s\<lparr> spd_subscriptionState := NOT_SUBSCRIBED \<rparr>)
         else (None, s))"

definition SubscriberPortSingleProducer_dispatch :: "capro_message \<Rightarrow> subscriber_port_data \<Rightarrow> (capro_message option \<times> subscriber_port_data) outcome" where
  "SubscriberPortSingleProducer_dispatch m s =
     (let st = spd_subscriptionState s
      in if cm_type m = OFFER \<and> st = WAIT_FOR_OFFER
         then Inr (Some (sub_message s), s\<lparr> spd_subscriptionState := SUBSCRIBE_REQUESTED \<rparr>)
         else if cm_type m = STOP_OFFER \<and> st = SUBSCRIBED
         then Inr (None, s\<lparr> spd_subscriptionState := WAIT_FOR_OFFER \<rparr>)
         else if cm_type m = ACK
         then (if st = SUBSCRIBE_REQUESTED then Inr (None, s\<lparr> spd_subscriptionState := SUBSCRIBED \<rparr>)
               else if st = UNSUBSCRIBE_REQUESTED then Inr (None, s\<lparr> spd_subscriptionState := NOT_SUBSCRIBED \<rparr>)
               else errorHandler (POPO POPO__CAPRO_PROTOCOL_ERROR) MODERATE (Inr (None, s)))
         else if cm_type m = NACK
         then (if st = SUBSCRIBE_REQUESTED then Inr (None, s\<lparr> spd_subscriptionState := WAIT_FOR_OFFER \<rparr>)
               else if st = UNSUBSCRIBE_REQUESTED then Inr (None, s\<lparr> spd_subscriptionState := NOT_SUBSCRIBED \<rparr>)
               else errorHandler (POPO POPO__CAPRO_PROTOCOL_ERROR) MODERATE (Inr (None, s)))
         else if (cm_type m = OFFER \<or> cm_type m = STOP_OFFER) \<and> st = NOT_SUBSCRIBED
         then Inr (None, s)
         else errorHandler (POPO POPO__CAPRO_PROTOCOL_ERROR) SEVERE (Inr (None, s)))"

definition SubscriberPortMultiProducer_tryGetCaProMessage :: "subscriber_port_data \<Rightarrow> capro_message option \<times> subscriber_port_data" where
  "SubscriberPortMultiProducer_tryGetCaProMessage s =
     (let currentSubscribeRequest = spd_subscribeRequested s; currentSubscriptionState = spd_subscriptionState s
      in if currentSubscribeRequest \<and> currentSubscriptionState = NOT_SUBSCRIBED
         then (Some (sub_message s), s\<lparr> spd_subscriptionState := SUBSCRIBED \<rparr>)
         else if \<not> currentSubscribeRequest \<and> currentSubscriptionState = SUBSCRIBED
         then (Some (unsub_message s), s\<lparr> spd_subscriptionState := NOT_SUBSCRIBED \<rparr>)
         else (None, s))"

definition SubscriberPortMultiProducer_dispatch :: "capro_message \<Rightarrow> subscriber_port_data \<Rightarrow> (capro_message option \<times> subscriber_port_data) outcome" where
  "SubscriberPortMultiProducer_dispatch m s =
     (let st = spd_subscriptionState s
      in if cm_type m = OFFER \<and> st = SUBSCRIBED then Inr (Some (sub_message s), s)
         else if cm_type m = OFFER \<and> st = NOT_SUBSCRIBED then Inr (None, s)
         else if cm_type m = ACK \<or> cm_type m = NACK \<or> cm_type m = STOP_OFFER then Inr (None, s)
         else errorHandler (POPO POPO__CAPRO_PROTOCOL_ERROR) SEVERE (Inr (None, s)))"

definition SubscriberPortRouDi_releaseAllChunks :: "popo_config \<Rightarrow> subscriber_port_data \<Rightarrow> popo_state \<Rightarrow> (subscriber_port_data \<times> popo_state) outcome" where
  "SubscriberPortRouDi_releaseAllChunks cfg s P =
     obind (ChunkReceiver_releaseAll (pc_MaxHeld cfg) (pc_Capacity cfg) (spd_chunkReceiverData s) P) (\<lambda>(R, P').
     Inr (s\<lparr> spd_chunkReceiverData := R \<rparr>, P'))"

end
