(* ===== verification/Port_Manager.thy ===== *)
theory Port_Manager
  imports Pub_Sub_Ports
begin

section \<open>The port manager\<close>

text \<open>
  \<open>roudi::PortPool\<close> and the publish-subscribe part of \<open>roudi::PortManager\<close> (\<open>port_pool_data.inl\<close>,
  \<open>port_pool.cpp\<close>, \<open>port_manager.cpp\<close>): RouDi creates and destroys the ports, asks them for their
  protocol messages and passes these on. The pool holds the ports in fixed slots; a pointer to a
  port is the number of its slot, and the queue of the subscriber in slot \<open>j\<close> is at \<open>pmc_queueAddress\<close> of \<open>j\<close>.
  The reports to the port introspection have no effect on the ports and are left out.
\<close>

record port_manager_config = popo_config +
  pmc_queueAddress :: "nat \<Rightarrow> address"
  pmc_MAX_PUBLISHERS :: nat
  pmc_MAX_SUBSCRIBERS :: nat
  pmc_registryCapacity :: u32
  pmc_sizeofServiceRegistry :: u32
  pmc_alignofServiceRegistry :: u32
  pmc_interfaceFifoSize :: u64
  pmc_roudiName :: string
  pmc_NUMBER_OF_INTERNAL_PUBLISHERS :: nat

record interface_port_data = base_port_data +
  ipd_caproMessageFiFo :: "capro_message fifo"
  ipd_doInitialOfferForward :: bool

record port_manager =
  pm_publishers :: "publisher_port_data option list"
  pm_subscribers :: "subscriber_port_data option list"
  pm_interfaces :: "interface_port_data option list"
  pm_serviceRegistry :: service_registry
  pm_serviceRegistryPublisherPortData :: "nat option"
  pm_internalServices :: "service_description list"
  pm_popo :: popo_state

subsection \<open>The pool\<close>

text \<open>\<open>FixedPositionContainer\<close>.\<close>

definition hasFreeSpace :: "nat \<Rightarrow> 'a option list \<Rightarrow> bool" where
  "hasFreeSpace Capacity xs = (if Capacity > length xs then True else \<exists>x\<in>set xs. x = None)"

fun first_free :: "'a option list \<Rightarrow> nat" where
  "first_free [] = 0"
| "first_free (x # xs) = (case x of None \<Rightarrow> 0 | Some _ \<Rightarrow> Suc (first_free xs))"

definition container_insert :: "'a \<Rightarrow> 'a option list \<Rightarrow> nat \<times> 'a option list" where
  "container_insert x xs =
     (let i = first_free xs in (i, if i < length xs then xs[i := Some x] else xs @ [Some x]))"

definition container_erase :: "nat \<Rightarrow> 'a option list \<Rightarrow> 'a option list" where
  "container_erase i xs = (if i < length xs \<and> xs ! i \<noteq> None then xs[i := None] else xs)"

definition content :: "'a option list \<Rightarrow> nat list" where
  "content xs = filter (\<lambda>i. xs ! i \<noteq> None) [0..<length xs]"

definition slot :: "'a option list \<Rightarrow> nat \<Rightarrow> 'a option" where
  "slot xs i = (if i < length xs then xs ! i else None)"

definition put_publisher :: "nat \<Rightarrow> publisher_port_data \<Rightarrow> port_manager \<Rightarrow> port_manager" where
  "put_publisher i p M = M\<lparr> pm_publishers := (pm_publishers M)[i := Some p] \<rparr>"

definition put_subscriber :: "nat \<Rightarrow> subscriber_port_data \<Rightarrow> port_manager \<Rightarrow> port_manager" where
  "put_subscriber j s M = M\<lparr> pm_subscribers := (pm_subscribers M)[j := Some s] \<rparr>"

text \<open>The use of a pointer to a port: it must not be dangling.\<close>

definition with_publisher :: "nat \<Rightarrow> port_manager \<Rightarrow> (publisher_port_data \<Rightarrow> 'a outcome) \<Rightarrow> 'a outcome" where
  "with_publisher i M k = (case slot (pm_publishers M) i of None \<Rightarrow> Inl NULLPTR_ACCESS | Some p \<Rightarrow> k p)"

definition with_subscriber :: "nat \<Rightarrow> port_manager \<Rightarrow> (subscriber_port_data \<Rightarrow> 'a outcome) \<Rightarrow> 'a outcome" where
  "with_subscriber j M k = (case slot (pm_subscribers M) j of None \<Rightarrow> Inl NULLPTR_ACCESS | Some s \<Rightarrow> k s)"

datatype port_pool_error =
    UNIQUE_PUBLISHER_PORT_ALREADY_EXISTS
  | INTERNAL_SERVICE_DESCRIPTION_IS_FORBIDDEN
  | PUBLISHER_PORT_LIST_FULL
  | SUBSCRIBER_PORT_LIST_FULL
  | INTERFACE_PORT_LIST_FULL
  | CLIENT_PORT_LIST_FULL
  | UNIQUE_SERVER_PORT_ALREADY_EXISTS
  | SERVER_PORT_LIST_FULL
  | NODE_DATA_LIST_FULL
  | CONDITION_VARIABLE_LIST_FULL
  | EVENT_VARIABLE_LIST_FULL

definition addPublisherPort ::
  "'a port_manager_config_scheme \<Rightarrow> service_description \<Rightarrow> string \<Rightarrow> publisher_options \<Rightarrow> u64 \<Rightarrow> u32 list \<Rightarrow> port_manager \<Rightarrow>
     ((port_pool_error + nat) \<times> port_manager) outcome" where
  "addPublisherPort cfg sd runtimeName options uniqueId indices M =
     (if hasFreeSpace (pmc_MAX_PUBLISHERS cfg) (pm_publishers M)
      then obind (PublisherPortData_ctor (popo_config.truncate cfg) sd runtimeName options uniqueId indices (ps_shm (pm_popo M))) (\<lambda>(p, S').
           case container_insert p (pm_publishers M) of (i, ps) \<Rightarrow>
           Inr (Inr i, M\<lparr> pm_publishers := ps, pm_popo := (pm_popo M)\<lparr> ps_shm := S' \<rparr> \<rparr>))
      else errorHandler (ROUDI PORT_POOL__PUBLISHERLIST_OVERFLOW) MODERATE (Inr (Inl PUBLISHER_PORT_LIST_FULL, M)))"

text \<open>\<open>constructSubscriber\<close> chooses the queue by the communication policy.\<close>

definition subscriber_queue_type :: "bool \<Rightarrow> queue_full_policy \<Rightarrow> variant_queue_types" where
  "subscriber_queue_type manyToMany policy =
     (if manyToMany
      then (if policy = DISCARD_OLDEST_DATA then SoFi_MultiProducerSingleConsumer else FiFo_MultiProducerSingleConsumer)
      else (if policy = DISCARD_OLDEST_DATA then SoFi_SingleProducerSingleConsumer else FiFo_SingleProducerSingleConsumer))"

definition addSubscriberPort ::
  "'a port_manager_config_scheme \<Rightarrow> service_description \<Rightarrow> string \<Rightarrow> subscriber_options \<Rightarrow> u64 \<Rightarrow> u64 \<Rightarrow> u32 list \<Rightarrow> port_manager \<Rightarrow>
     ((port_pool_error + nat) \<times> port_manager) outcome" where
  "addSubscriberPort cfg sd runtimeName options uniqueId queueId indices M =
     (if hasFreeSpace (pmc_MAX_SUBSCRIBERS cfg) (pm_subscribers M)
      then (let q = pmc_queueAddress cfg (first_free (pm_subscribers M))
            in obind (SubscriberPortData_ctor (popo_config.truncate cfg) sd runtimeName
                        (subscriber_queue_type (pc_manyToMany cfg) (so_queueFullPolicy options)) options uniqueId queueId q indices (pm_popo M)) (\<lambda>(s, P').
               case container_insert s (pm_subscribers M) of (j, ss) \<Rightarrow>
               Inr (Inr j, M\<lparr> pm_subscribers := ss, pm_popo := P' \<rparr>)))
      else errorHandler (ROUDI PORT_POOL__SUBSCRIBERLIST_OVERFLOW) MODERATE (Inr (Inl SUBSCRIBER_PORT_LIST_FULL, M)))"

definition removePublisherPort :: "nat \<Rightarrow> port_manager \<Rightarrow> port_manager" where
  "removePublisherPort i M = M\<lparr> pm_publishers := container_erase i (pm_publishers M) \<rparr>"

text \<open>The memory of the subscriber port, with its queue, is gone.\<close>

definition removeSubscriberPort :: "'a port_manager_config_scheme \<Rightarrow> nat \<Rightarrow> port_manager \<Rightarrow> port_manager" where
  "removeSubscriberPort cfg j M =
     M\<lparr> pm_subscribers := container_erase j (pm_subscribers M),
        pm_popo := (pm_popo M)\<lparr> ps_queues := (ps_queues (pm_popo M))(pmc_queueAddress cfg j := None) \<rparr> \<rparr>"

subsection \<open>The service registry\<close>

definition publishServiceRegistry :: "'a port_manager_config_scheme \<Rightarrow> port_manager \<Rightarrow> port_manager outcome" where
  "publishServiceRegistry cfg M =
     (case pm_serviceRegistryPublisherPortData M of None \<Rightarrow> Inr M
      | Some i \<Rightarrow> with_publisher i M (\<lambda>p.
          obind (PublisherPortUser_tryAllocateChunk (popo_config.truncate cfg) (pmc_sizeofServiceRegistry cfg)
                   (pmc_alignofServiceRegistry cfg) 0 1 p (pm_popo M)) (\<lambda>(r, p1, P1).
            case r of
              Inl _ \<Rightarrow> Inr ((put_publisher i p1 M)\<lparr> pm_popo := P1 \<rparr>)
            | Inr chunk \<Rightarrow>
                obind (PublisherPortUser_sendChunk (popo_config.truncate cfg) [] (Some chunk) p1 P1) (\<lambda>(p2, P2).
                Inr ((put_publisher i p2 M)\<lparr> pm_popo := P2 \<rparr>)))))"

definition addPublisherToServiceRegistry :: "'a port_manager_config_scheme \<Rightarrow> service_description \<Rightarrow> port_manager \<Rightarrow> port_manager outcome" where
  "addPublisherToServiceRegistry cfg sd M =
     (case addPublisher (pmc_registryCapacity cfg) sd (pm_serviceRegistry M) of (r, R) \<Rightarrow>
        let continue = publishServiceRegistry cfg (M\<lparr> pm_serviceRegistry := R \<rparr>)
        in case r of Inr _ \<Rightarrow> continue
           | Inl _ \<Rightarrow> errorHandler (ROUDI POSH__PORT_MANAGER_COULD_NOT_ADD_SERVICE_TO_REGISTRY) MODERATE continue)"

definition removePublisherFromServiceRegistry :: "'a port_manager_config_scheme \<Rightarrow> service_description \<Rightarrow> port_manager \<Rightarrow> port_manager outcome" where
  "removePublisherFromServiceRegistry cfg sd M =
     publishServiceRegistry cfg (M\<lparr> pm_serviceRegistry := removePublisher (pmc_registryCapacity cfg) sd (pm_serviceRegistry M) \<rparr>)"

subsection \<open>Passing on messages\<close>

definition isCompatiblePubSub :: "publisher_port_data \<Rightarrow> subscriber_port_data \<Rightarrow> bool" where
  "isCompatiblePubSub publisher subscriber =
     (if \<not> ServiceDescription_eq (bpd_serviceDescription subscriber) (bpd_serviceDescription publisher) then False
      else (let pubOpts = ppd_options publisher; subOpts = spd_options subscriber;
                blockingPoliciesAreCompatible =
                  (\<not> (po_subscriberTooSlowPolicy pubOpts = DISCARD_OLDEST_DATA_OF_CONSUMER \<and> so_queueFullPolicy subOpts = BLOCK_PRODUCER));
                historyRequestIsCompatible = (\<not> so_requiresPublisherHistorySupport subOpts \<or> 0 < po_historyCapacity pubOpts)
            in blockingPoliciesAreCompatible \<and> historyRequestIsCompatible))"

abbreviation port_interface :: "'a base_port_data_scheme \<Rightarrow> interfaces" where
  "port_interface D \<equiv> sd_interfaceSource (bpd_serviceDescription D)"

abbreviation message_interface :: "capro_message \<Rightarrow> interfaces" where
  "message_interface m \<equiv> sd_interfaceSource (cm_serviceDescription m)"

text \<open>The subscriber port type of the communication policy.\<close>

definition SubscriberPort_tryGetCaProMessage :: "'a popo_config_scheme \<Rightarrow> subscriber_port_data \<Rightarrow> capro_message option \<times> subscriber_port_data" where
  "SubscriberPort_tryGetCaProMessage cfg s =
     (if pc_manyToMany cfg then SubscriberPortMultiProducer_tryGetCaProMessage s else SubscriberPortSingleProducer_tryGetCaProMessage s)"

definition SubscriberPort_dispatch :: "'a popo_config_scheme \<Rightarrow> capro_message \<Rightarrow> subscriber_port_data \<Rightarrow> (capro_message option \<times> subscriber_port_data) outcome" where
  "SubscriberPort_dispatch cfg m s =
     (if pc_manyToMany cfg then SubscriberPortMultiProducer_dispatch m s else SubscriberPortSingleProducer_dispatch m s)"

fun publisher_ports_loop ::
  "'a port_manager_config_scheme \<Rightarrow> capro_message \<Rightarrow> nat \<Rightarrow> nat list \<Rightarrow> bool \<Rightarrow> port_manager \<Rightarrow> (bool \<times> port_manager) outcome" where
  "publisher_ports_loop cfg message j [] publisherFound M = Inr (publisherFound, M)"
| "publisher_ports_loop cfg message j (i # is) publisherFound M =
     with_publisher i M (\<lambda>p. with_subscriber j M (\<lambda>s.
       if port_interface p \<noteq> INTERNAL \<and> port_interface p = message_interface message
       then Inr (publisherFound, M)
       else if isCompatiblePubSub p s
       then obind (PublisherPortRouDi_dispatchCaProMessageAndGetPossibleResponse (popo_config.truncate cfg) message p (pm_popo M))
              (\<lambda>(publisherResponse, p1, P1).
              let M1 = (put_publisher i p1 M)\<lparr> pm_popo := P1 \<rparr>
              in case publisherResponse of
                   None \<Rightarrow> publisher_ports_loop cfg message j is True M1
                 | Some response \<Rightarrow>
                     obind (SubscriberPort_dispatch cfg response s) (\<lambda>(returnMessage, s1).
                     Expects (returnMessage = None)
                       (publisher_ports_loop cfg message j is True (put_subscriber j s1 M1))))
       else publisher_ports_loop cfg message j is publisherFound M))"

definition sendToAllMatchingPublisherPorts ::
  "'a port_manager_config_scheme \<Rightarrow> capro_message \<Rightarrow> nat \<Rightarrow> port_manager \<Rightarrow> (bool \<times> port_manager) outcome" where
  "sendToAllMatchingPublisherPorts cfg message j M =
     publisher_ports_loop cfg message j (content (pm_publishers M)) False M"

fun subscriber_ports_loop ::
  "'a port_manager_config_scheme \<Rightarrow> capro_message \<Rightarrow> nat \<Rightarrow> nat list \<Rightarrow> port_manager \<Rightarrow> port_manager outcome" where
  "subscriber_ports_loop cfg message i [] M = Inr M"
| "subscriber_ports_loop cfg message i (j # js) M =
     with_publisher i M (\<lambda>p. with_subscriber j M (\<lambda>s.
       if port_interface s \<noteq> INTERNAL \<and> port_interface s = message_interface message
       then Inr M
       else if isCompatiblePubSub p s
       then obind (SubscriberPort_dispatch cfg message s) (\<lambda>(subscriberResponse, s1).
              let M1 = put_subscriber j s1 M
              in case subscriberResponse of
                   None \<Rightarrow> subscriber_ports_loop cfg message i js M1
                 | Some request \<Rightarrow>
                     Expects (cm_type message = OFFER)
                       (obind (PublisherPortRouDi_dispatchCaProMessageAndGetPossibleResponse (popo_config.truncate cfg) request p (pm_popo M1))
                          (\<lambda>(publisherResponse, p1, P1).
                          let M2 = (put_publisher i p1 M1)\<lparr> pm_popo := P1 \<rparr>
                          in case publisherResponse of
                               None \<Rightarrow> subscriber_ports_loop cfg message i js M2
                             | Some response \<Rightarrow>
                                 obind (SubscriberPort_dispatch cfg response s1) (\<lambda>(returnMessage, s2).
                                 Expects (returnMessage = None)
                                   (subscriber_ports_loop cfg message i js (put_subscriber j s2 M2))))))
       else subscriber_ports_loop cfg message i js M))"

definition sendToAllMatchingSubscriberPorts ::
  "'a port_manager_config_scheme \<Rightarrow> capro_message \<Rightarrow> nat \<Rightarrow> port_manager \<Rightarrow> port_manager outcome" where
  "sendToAllMatchingSubscriberPorts cfg message i M = subscriber_ports_loop cfg message i (content (pm_subscribers M)) M"

definition InterfacePort_dispatchCaProMessage :: "u64 \<Rightarrow> capro_message \<Rightarrow> interface_port_data \<Rightarrow> interface_port_data outcome" where
  "InterfacePort_dispatchCaProMessage Capacity caProMessage f =
     (if port_interface f \<noteq> INTERNAL \<and> port_interface f = message_interface caProMessage then Inr f
      else (case FiFo_push Capacity caProMessage (ipd_caproMessageFiFo f) of (pushed, fifo) \<Rightarrow>
            let continue = Inr (f\<lparr> ipd_caproMessageFiFo := fifo \<rparr>)
            in if \<not> pushed then errorHandler (ROUDI POSH__INTERFACEPORT_CAPRO_MESSAGE_DISMISSED) SEVERE continue else continue))"

fun interface_ports_loop :: "u64 \<Rightarrow> capro_message \<Rightarrow> interface_port_data option list \<Rightarrow> interface_port_data option list outcome" where
  "interface_ports_loop Capacity message [] = Inr []"
| "interface_ports_loop Capacity message (x # xs) =
     obind (case x of None \<Rightarrow> Inr None
            | Some f \<Rightarrow> if message_interface message \<noteq> port_interface f
                        then obind (InterfacePort_dispatchCaProMessage Capacity message f) (\<lambda>f'. Inr (Some f'))
                        else Inr (Some f)) (\<lambda>x'.
     obind (interface_ports_loop Capacity message xs) (\<lambda>xs'. Inr (x' # xs')))"

definition sendToAllMatchingInterfacePorts :: "'a port_manager_config_scheme \<Rightarrow> capro_message \<Rightarrow> port_manager \<Rightarrow> port_manager outcome" where
  "sendToAllMatchingInterfacePorts cfg message M =
     obind (interface_ports_loop (pmc_interfaceFifoSize cfg) message (pm_interfaces M)) (\<lambda>fs.
     Inr (M\<lparr> pm_interfaces := fs \<rparr>))"

subsection \<open>Discovery\<close>

definition doDiscoveryForPublisherPort :: "'a port_manager_config_scheme \<Rightarrow> nat \<Rightarrow> port_manager \<Rightarrow> port_manager outcome" where
  "doDiscoveryForPublisherPort cfg i M =
     with_publisher i M (\<lambda>p.
       obind (PublisherPortRouDi_tryGetCaProMessage p) (\<lambda>(m, p1).
       let M1 = put_publisher i p1 M
       in case m of None \<Rightarrow> Inr M1
          | Some caproMessage \<Rightarrow>
              if cm_type caproMessage = OFFER
              then obind (addPublisherToServiceRegistry cfg (cm_serviceDescription caproMessage) M1) (\<lambda>M2.
                   obind (sendToAllMatchingSubscriberPorts cfg caproMessage i M2) (\<lambda>M3.
                   sendToAllMatchingInterfacePorts cfg caproMessage M3))
              else if cm_type caproMessage = STOP_OFFER
              then obind (removePublisherFromServiceRegistry cfg (cm_serviceDescription caproMessage) M1) (\<lambda>M2.
                   obind (sendToAllMatchingSubscriberPorts cfg caproMessage i M2) (\<lambda>M3.
                   sendToAllMatchingInterfacePorts cfg caproMessage M3))
              else errorHandler (ROUDI PORT_MANAGER__HANDLE_PUBLISHER_PORTS_INVALID_CAPRO_MESSAGE) MODERATE (Inr M1)))"

definition doDiscoveryForSubscriberPort :: "'a port_manager_config_scheme \<Rightarrow> nat \<Rightarrow> port_manager \<Rightarrow> port_manager outcome" where
  "doDiscoveryForSubscriberPort cfg j M =
     with_subscriber j M (\<lambda>s.
       case SubscriberPort_tryGetCaProMessage cfg s of (m, s1) \<Rightarrow>
       let M1 = put_subscriber j s1 M
       in case m of None \<Rightarrow> Inr M1
          | Some caproMessage \<Rightarrow>
              if cm_type caproMessage = SUB \<or> cm_type caproMessage = UNSUB
              then obind (sendToAllMatchingPublisherPorts cfg caproMessage j M1) (\<lambda>(found, M2).
                   if \<not> found
                   then with_subscriber j M2 (\<lambda>s2.
                        obind (SubscriberPort_dispatch cfg (CaproMessage_ctor NACK (bpd_serviceDescription s2) CAPRO_NONE None) s2) (\<lambda>(ret, s3).
                        Expects (ret = None) (Inr (put_subscriber j s3 M2))))
                   else Inr M2)
              else errorHandler (ROUDI PORT_MANAGER__HANDLE_SUBSCRIBER_PORTS_INVALID_CAPRO_MESSAGE) MODERATE (Inr M1))"

definition destroyPublisherPort :: "'a port_manager_config_scheme \<Rightarrow> nat \<Rightarrow> port_manager \<Rightarrow> port_manager outcome" where
  "destroyPublisherPort cfg i M =
     with_publisher i M (\<lambda>p.
       obind (PublisherPortRouDi_tryGetCaProMessage (PublisherPortUser_stopOffer p)) (\<lambda>(m, p1).
       let M1 = put_publisher i p1 M
       in obind (case m of None \<Rightarrow> Inr M1
                 | Some caproMessage \<Rightarrow>
                     Expects (cm_type caproMessage = STOP_OFFER)
                       (obind (removePublisherFromServiceRegistry cfg (cm_serviceDescription caproMessage) M1) (\<lambda>M2.
                        obind (sendToAllMatchingSubscriberPorts cfg caproMessage i M2) (\<lambda>M3.
                        sendToAllMatchingInterfacePorts cfg caproMessage M3)))) (\<lambda>M4.
          with_publisher i M4 (\<lambda>p4.
          obind (PublisherPortRouDi_releaseAllChunks (popo_config.truncate cfg) p4 (pm_popo M4)) (\<lambda>(_, P5).
          Inr (removePublisherPort i (M4\<lparr> pm_popo := P5 \<rparr>)))))))"

definition destroySubscriberPort :: "'a port_manager_config_scheme \<Rightarrow> nat \<Rightarrow> port_manager \<Rightarrow> port_manager outcome" where
  "destroySubscriberPort cfg j M =
     with_subscriber j M (\<lambda>s.
       case SubscriberPort_tryGetCaProMessage cfg (SubscriberPortUser_unsubscribe s) of (m, s1) \<Rightarrow>
       let M1 = put_subscriber j s1 M
       in obind (case m of None \<Rightarrow> Inr M1
                 | Some caproMessage \<Rightarrow>
                     Expects (cm_type caproMessage = UNSUB)
                       (obind (sendToAllMatchingPublisherPorts cfg caproMessage j M1) (\<lambda>(_, M2). Inr M2))) (\<lambda>M2.
          with_subscriber j M2 (\<lambda>s2.
          obind (SubscriberPortRouDi_releaseAllChunks (popo_config.truncate cfg) s2 (pm_popo M2)) (\<lambda>(_, P3).
          Inr (removeSubscriberPort cfg j (M2\<lparr> pm_popo := P3 \<rparr>))))))"

fun publishers_loop :: "'a port_manager_config_scheme \<Rightarrow> nat list \<Rightarrow> port_manager \<Rightarrow> port_manager outcome" where
  "publishers_loop cfg [] M = Inr M"
| "publishers_loop cfg (i # is) M =
     obind (doDiscoveryForPublisherPort cfg i M) (\<lambda>M1.
     with_publisher i M1 (\<lambda>p.
       if bpd_toBeDestroyed p
       then obind (destroyPublisherPort cfg i M1) (\<lambda>M2. publishers_loop cfg is M2)
       else publishers_loop cfg is M1))"

definition handlePublisherPorts :: "'a port_manager_config_scheme \<Rightarrow> port_manager \<Rightarrow> port_manager outcome" where
  "handlePublisherPorts cfg M = publishers_loop cfg (content (pm_publishers M)) M"

fun subscribers_loop :: "'a port_manager_config_scheme \<Rightarrow> nat list \<Rightarrow> port_manager \<Rightarrow> port_manager outcome" where
  "subscribers_loop cfg [] M = Inr M"
| "subscribers_loop cfg (j # js) M =
     obind (doDiscoveryForSubscriberPort cfg j M) (\<lambda>M1.
     with_subscriber j M1 (\<lambda>s.
       if bpd_toBeDestroyed s
       then obind (destroySubscriberPort cfg j M1) (\<lambda>M2. subscribers_loop cfg js M2)
       else subscribers_loop cfg js M1))"

definition handleSubscriberPorts :: "'a port_manager_config_scheme \<Rightarrow> port_manager \<Rightarrow> port_manager outcome" where
  "handleSubscriberPorts cfg M = subscribers_loop cfg (content (pm_subscribers M)) M"

fun stop_offer_loop :: "'a port_manager_config_scheme \<Rightarrow> nat list \<Rightarrow> port_manager \<Rightarrow> port_manager outcome" where
  "stop_offer_loop cfg [] M = Inr M"
| "stop_offer_loop cfg (i # is) M =
     with_publisher i M (\<lambda>p.
       obind (doDiscoveryForPublisherPort cfg i (put_publisher i (p\<lparr> ppd_offeringRequested := False \<rparr>) M)) (\<lambda>M1.
       stop_offer_loop cfg is M1))"

definition makeAllPublisherPortsToStopOffer :: "'a port_manager_config_scheme \<Rightarrow> port_manager \<Rightarrow> port_manager outcome" where
  "makeAllPublisherPortsToStopOffer cfg M = stop_offer_loop cfg (content (pm_publishers M)) M"

subsection \<open>Creation\<close>

definition isInternal :: "service_description \<Rightarrow> port_manager \<Rightarrow> bool" where
  "isInternal service M = (\<exists>sd\<in>set (pm_internalServices M). ServiceDescription_eq service sd)"

text \<open>With the policy of one publisher per service, the ports that wait for their destruction are destroyed first.\<close>

fun violation_loop :: "'a port_manager_config_scheme \<Rightarrow> service_description \<Rightarrow> nat list \<Rightarrow> port_manager \<Rightarrow> (string option \<times> port_manager) outcome" where
  "violation_loop cfg service [] M = Inr (None, M)"
| "violation_loop cfg service (i # is) M =
     with_publisher i M (\<lambda>p.
       if ServiceDescription_eq service (bpd_serviceDescription p)
       then if bpd_toBeDestroyed p
            then obind (destroyPublisherPort cfg i M) (\<lambda>M1. violation_loop cfg service is M1)
            else Inr (Some (bpd_runtimeName p), M)
       else violation_loop cfg service is M)"

definition doesViolateCommunicationPolicy :: "'a port_manager_config_scheme \<Rightarrow> service_description \<Rightarrow> port_manager \<Rightarrow> (string option \<times> port_manager) outcome" where
  "doesViolateCommunicationPolicy cfg service M =
     (if pc_manyToMany cfg then Inr (None, M) else violation_loop cfg service (content (pm_publishers M)) M)"

definition acquirePublisherPortDataWithoutDiscovery ::
  "'a port_manager_config_scheme \<Rightarrow> service_description \<Rightarrow> publisher_options \<Rightarrow> string \<Rightarrow> u64 \<Rightarrow> u32 list \<Rightarrow> port_manager \<Rightarrow>
     ((port_pool_error + nat) \<times> port_manager) outcome" where
  "acquirePublisherPortDataWithoutDiscovery cfg service options runtimeName uniqueId indices M =
     obind (doesViolateCommunicationPolicy cfg service M) (\<lambda>(violation, M1).
       if violation \<noteq> None
       then errorHandler (ROUDI POSH__PORT_MANAGER_PUBLISHERPORT_NOT_UNIQUE) MODERATE (Inr (Inl UNIQUE_PUBLISHER_PORT_ALREADY_EXISTS, M1))
       else if runtimeName = pmc_roudiName cfg
       then addPublisherPort cfg service runtimeName options uniqueId indices
              (if length (pm_internalServices M1) < pmc_NUMBER_OF_INTERNAL_PUBLISHERS cfg
               then M1\<lparr> pm_internalServices := pm_internalServices M1 @ [service] \<rparr> else M1)
       else if isInternal service M1
       then errorHandler (ROUDI POSH__PORT_MANAGER_INTERNAL_SERVICE_DESCRIPTION_IS_FORBIDDEN) MODERATE
              (Inr (Inl INTERNAL_SERVICE_DESCRIPTION_IS_FORBIDDEN, M1))
       else addPublisherPort cfg service runtimeName options uniqueId indices M1)"

definition acquirePublisherPortData ::
  "'a port_manager_config_scheme \<Rightarrow> service_description \<Rightarrow> publisher_options \<Rightarrow> string \<Rightarrow> u64 \<Rightarrow> u32 list \<Rightarrow> port_manager \<Rightarrow>
     ((port_pool_error + nat) \<times> port_manager) outcome" where
  "acquirePublisherPortData cfg service options runtimeName uniqueId indices M =
     obind (acquirePublisherPortDataWithoutDiscovery cfg service options runtimeName uniqueId indices M) (\<lambda>(r, M1).
       case r of Inl e \<Rightarrow> Inr (Inl e, M1)
       | Inr i \<Rightarrow> obind (doDiscoveryForPublisherPort cfg i M1) (\<lambda>M2. Inr (Inr i, M2)))"

definition acquireSubscriberPortData ::
  "'a port_manager_config_scheme \<Rightarrow> service_description \<Rightarrow> subscriber_options \<Rightarrow> string \<Rightarrow> u64 \<Rightarrow> u64 \<Rightarrow> u32 list \<Rightarrow> port_manager \<Rightarrow>
     ((port_pool_error + nat) \<times> port_manager) outcome" where
  "acquireSubscriberPortData cfg service options runtimeName uniqueId queueId indices M =
     obind (addSubscriberPort cfg service runtimeName options uniqueId queueId indices M) (\<lambda>(r, M1).
       case r of Inl e \<Rightarrow> Inr (Inl e, M1)
       | Inr j \<Rightarrow> obind (doDiscoveryForSubscriberPort cfg j M1) (\<lambda>M2. Inr (Inr j, M2)))"

end
