(* ===== verification/Connections.thy ===== *)
theory Connections
  imports Port_Manager
begin

section \<open>The connections between publishers and subscribers\<close>

text \<open>
  The invariant of the port manager with the many-to-many policy: the queues that an offered publisher
  delivers to are the queues of the compatible subscribers that are subscribed, and a publisher that is not
  offered delivers to no queue. Every operation of RouDi and of the applications keeps it, so
  a publisher never keeps the queue of a destroyed subscriber. The last part shows that this fails with gateways.
\<close>

abbreviation pqueues :: "publisher_port_data \<Rightarrow> address list" where
  "pqueues p \<equiv> cdd_queues (csd_distributor (ppd_chunkSenderData p))"

abbreviation subscribed :: "subscriber_port_data \<Rightarrow> bool" where
  "subscribed s \<equiv> spd_subscriptionState s = SUBSCRIBED"

text \<open>What the protocol of connections does not change of a publisher, and of the rest of the manager.\<close>

definition same_publisher :: "publisher_port_data \<Rightarrow> publisher_port_data \<Rightarrow> bool" where
  "same_publisher p p' \<longleftrightarrow> bpd_serviceDescription p' = bpd_serviceDescription p \<and> ppd_options p' = ppd_options p \<and>
     ppd_offered p' = ppd_offered p"

lemma same_publisher_refl [simp]: "same_publisher p p"
  by (simp add: same_publisher_def)

lemma same_publisher_trans: "same_publisher p p' \<Longrightarrow> same_publisher p' p'' \<Longrightarrow> same_publisher p p''"
  by (simp add: same_publisher_def)

lemma compatible_cong: "same_publisher p p' \<Longrightarrow> isCompatiblePubSub p' s = isCompatiblePubSub p s"
  by (simp add: same_publisher_def isCompatiblePubSub_def)

lemma same_publisher_offered: "same_publisher p p' \<Longrightarrow> ppd_offered p' = ppd_offered p"
  by (simp add: same_publisher_def)

subsection \<open>Slots\<close>

lemma slot_update: "slot (xs[i := x]) j = (if j = i \<and> i < length xs then x else slot xs j)"
  by (simp add: slot_def)

lemma slot_Some_length: "slot xs i = Some x \<Longrightarrow> i < length xs"
  by (simp add: slot_def split: if_splits)

lemma slot_put [simp]:
  "slot (pm_publishers (put_publisher i p M)) k = (if k = i \<and> i < length (pm_publishers M) then Some p else slot (pm_publishers M) k)"
  "slot (pm_subscribers (put_subscriber j s M)) k = (if k = j \<and> j < length (pm_subscribers M) then Some s else slot (pm_subscribers M) k)"
  "pm_subscribers (put_publisher i p M) = pm_subscribers M" "pm_publishers (put_subscriber j s M) = pm_publishers M"
  "length (pm_publishers (put_publisher i p M)) = length (pm_publishers M)"
  "length (pm_subscribers (put_subscriber j s M)) = length (pm_subscribers M)"
  by (auto simp: put_publisher_def put_subscriber_def slot_update)

lemma put_subscriber_same: "slot (pm_subscribers M) j = Some s \<Longrightarrow> put_subscriber j s M = M"
  by (simp add: put_subscriber_def slot_def list_update_same_conv split: if_splits)

lemma content_mem [simp]: "i \<in> set (content xs) \<longleftrightarrow> (\<exists>x. slot xs i = Some x)"
  by (auto simp: content_def slot_def)

lemma content_distinct [simp]: "distinct (content xs)"
  by (simp add: content_def)

lemma with_publisher_Inr: "with_publisher i M k = Inr r \<longleftrightarrow> (\<exists>p. slot (pm_publishers M) i = Some p \<and> k p = Inr r)"
  by (simp add: with_publisher_def split: option.split)

lemma with_subscriber_Inr: "with_subscriber j M k = Inr r \<longleftrightarrow> (\<exists>s. slot (pm_subscribers M) j = Some s \<and> k s = Inr r)"
  by (simp add: with_subscriber_def split: option.split)

lemma slot_insert:
  assumes "container_insert x xs = (i, ys)"
  shows "i = first_free xs" "slot xs i = None" "slot ys k = (if k = i then Some x else slot xs k)" "length ys \<le> max (length xs) (Suc i)"
proof -
  have ff: "first_free xs \<le> length xs" by (induction xs) (auto split: option.split)
  have fn: "first_free xs < length xs \<Longrightarrow> xs ! first_free xs = None" by (induction xs) (auto split: option.splits)
  show i: "i = first_free xs" using assms by (simp add: container_insert_def Let_def)
  show "slot xs i = None" using ff fn by (auto simp: i slot_def)
  show "slot ys k = (if k = i then Some x else slot xs k)"
    using assms ff by (auto simp: container_insert_def Let_def slot_def nth_append split: if_splits)
  show "length ys \<le> max (length xs) (Suc i)"
    using assms ff by (auto simp: container_insert_def Let_def split: if_splits)
qed

lemma first_free_full: "\<not> first_free xs < length xs \<Longrightarrow> x \<in> set xs \<Longrightarrow> x \<noteq> None"
  by (induction xs) (auto split: option.splits)

lemma slot_erase: "slot (container_erase i xs) k = (if k = i then None else slot xs k)"
  by (auto simp: container_erase_def slot_def)

subsection \<open>The messages of the ports\<close>

text \<open>What a publisher makes of the subscription of a compatible subscriber.\<close>

definition set_pqueues :: "address list \<Rightarrow> publisher_port_data \<Rightarrow> publisher_port_data" where
  "set_pqueues qs p = with_distributor ((csd_distributor (ppd_chunkSenderData p))\<lparr> cdd_queues := qs \<rparr>) p"

definition connect :: "nat \<Rightarrow> subscriber_port_data \<Rightarrow> publisher_port_data \<Rightarrow> publisher_port_data" where
  "connect MaxQueues s p =
     (if isCompatiblePubSub p s \<and> ppd_offered p \<and> spd_queue s \<notin> set (pqueues p) \<and> length (pqueues p) < MaxQueues
      then set_pqueues (pqueues p @ [spd_queue s]) p else p)"

definition disconnect :: "subscriber_port_data \<Rightarrow> publisher_port_data \<Rightarrow> publisher_port_data" where
  "disconnect s p = (if isCompatiblePubSub p s \<and> ppd_offered p then set_pqueues (remove1 (spd_queue s) (pqueues p)) p else p)"

lemma set_pqueues_simps [simp]:
  "pqueues (set_pqueues qs p) = qs" "same_publisher p (set_pqueues qs p)" "ppd_offered (set_pqueues qs p) = ppd_offered p"
  "bpd_toBeDestroyed (set_pqueues qs p) = bpd_toBeDestroyed p" "bpd_serviceDescription (set_pqueues qs p) = bpd_serviceDescription p"
  "isCompatiblePubSub (set_pqueues qs p) s = isCompatiblePubSub p s"
  by (simp_all add: set_pqueues_def with_distributor_def same_publisher_def isCompatiblePubSub_def)

lemma set_pqueues_same: "set_pqueues (pqueues p) p = p"
  by (simp add: set_pqueues_def with_distributor_def)

lemma connect_simps [simp]:
  "same_publisher p (connect n s p)" "ppd_offered (connect n s p) = ppd_offered p"
  "bpd_serviceDescription (connect n s p) = bpd_serviceDescription p"
  "isCompatiblePubSub (connect n s p) s' = isCompatiblePubSub p s'"
  by (simp_all add: connect_def)

lemma disconnect_simps [simp]:
  "same_publisher p (disconnect s p)" "ppd_offered (disconnect s p) = ppd_offered p"
  "bpd_serviceDescription (disconnect s p) = bpd_serviceDescription p"
  by (simp_all add: disconnect_def)

lemma truncate_simps [simp]:
  "pc_MaxQueues (popo_config.truncate cfg) = pc_MaxQueues cfg" "pc_Capacity (popo_config.truncate cfg) = pc_Capacity cfg"
  "pc_MaxAlloc (popo_config.truncate cfg) = pc_MaxAlloc cfg" "pc_MaxHeld (popo_config.truncate cfg) = pc_MaxHeld cfg"
  "pc_MaxHistory (popo_config.truncate cfg) = pc_MaxHistory cfg"
  by (simp_all add: popo_config.truncate_def)

text \<open>The answer of a publisher is an acknowledgement or its refusal.\<close>

definition is_answer :: "capro_message option \<Rightarrow> bool" where
  "is_answer r \<longleftrightarrow> (\<exists>m. r = Some m \<and> (cm_type m = ACK \<or> cm_type m = NACK))"

lemma tryAddQueue_result:
  assumes "tryAddQueue MaxQueues Capacity q h D P = Inr (ret, D', P')"
  shows "D' = (if q \<notin> set (cdd_queues D) \<and> length (cdd_queues D) < MaxQueues then D\<lparr> cdd_queues := cdd_queues D @ [q] \<rparr> else D)"
proof (cases "cdd_lockedByOther D")
  case False
  then show ?thesis
    using assms by (cases "q \<in> set (cdd_queues D)"; cases "length (cdd_queues D) < MaxQueues")
      (auto simp: tryAddQueue_def locked_def Let_def)
qed (use assms in \<open>simp add: tryAddQueue_def locked_def\<close>)

lemma tryRemoveQueue_result:
  assumes "tryRemoveQueue q D = Inr (ret, D')"
  shows "D' = D\<lparr> cdd_queues := remove1 q (cdd_queues D) \<rparr>"
  using assms by (cases "q \<in> set (cdd_queues D)") (auto simp: tryRemoveQueue_def locked_def remove1_idem split: if_splits)

lemma messages_type [simp]:
  "cm_type (sub_message s) = SUB" "cm_chunkQueueData (sub_message s) = Some (spd_queue s)"
  "cm_type (unsub_message s) = UNSUB" "cm_chunkQueueData (unsub_message s) = Some (spd_queue s)"
  "cm_serviceDescription (sub_message s) = bpd_serviceDescription s" "cm_serviceDescription (unsub_message s) = bpd_serviceDescription s"
  by (simp_all add: sub_message_def unsub_message_def CaproMessage_ctor_def)

lemma dispatch_not_offered:
  assumes "\<not> ppd_offered p"
  shows "PublisherPortRouDi_dispatchCaProMessageAndGetPossibleResponse cfg m p P =
    Inr (Some (CaproMessage_ctor NACK (bpd_serviceDescription p) CAPRO_NONE None), p, P)"
  using assms by (simp add: PublisherPortRouDi_dispatchCaProMessageAndGetPossibleResponse_def)

definition answer_message :: "publisher_port_data \<Rightarrow> chunk_distributor_error + unit \<Rightarrow> capro_message" where
  "answer_message p ret = (let nack = CaproMessage_ctor NACK (bpd_serviceDescription p) CAPRO_NONE None
     in case ret of Inr _ \<Rightarrow> nack\<lparr> cm_type := ACK \<rparr> | Inl _ \<Rightarrow> nack)"

lemma is_answer_message [simp]: "is_answer (Some (answer_message p ret))"
  by (cases ret) (simp_all add: is_answer_def answer_message_def CaproMessage_ctor_def)

lemma dispatch_offered:
  assumes "ppd_offered p"
  shows "PublisherPortRouDi_dispatchCaProMessageAndGetPossibleResponse cfg (sub_message s) p P =
      obind (tryAddQueue (pc_MaxQueues cfg) (pc_Capacity cfg) (spd_queue s) (cm_historyCapacity (sub_message s))
        (csd_distributor (ppd_chunkSenderData p)) P) (\<lambda>(ret, D', P').
      Inr (Some (answer_message p ret), with_distributor D' p, P'))"
    "PublisherPortRouDi_dispatchCaProMessageAndGetPossibleResponse cfg (unsub_message s) p P =
      obind (tryRemoveQueue (spd_queue s) (csd_distributor (ppd_chunkSenderData p))) (\<lambda>(ret, D').
      Inr (Some (answer_message p ret), with_distributor D' p, P))"
  using assms
  by (simp_all add: PublisherPortRouDi_dispatchCaProMessageAndGetPossibleResponse_def not_null_def Let_def answer_message_def)

lemma dispatch_sub:
  assumes run: "PublisherPortRouDi_dispatchCaProMessageAndGetPossibleResponse cfg (sub_message s) p P = Inr (r, p', P')"
    and comp: "isCompatiblePubSub p s"
  shows "p' = connect (pc_MaxQueues cfg) s p \<and> is_answer r"
proof (cases "ppd_offered p")
  case False
  with assms show ?thesis by (auto simp: dispatch_not_offered connect_def is_answer_def CaproMessage_ctor_def)
next
  case True
  obtain ret D' where d: "tryAddQueue (pc_MaxQueues cfg) (pc_Capacity cfg) (spd_queue s) (cm_historyCapacity (sub_message s))
      (csd_distributor (ppd_chunkSenderData p)) P = Inr (ret, D', P')" "p' = with_distributor D' p" "r = Some (answer_message p ret)"
    using run unfolding dispatch_offered(1) [OF True] by auto
  have step: "p' = connect (pc_MaxQueues cfg) s p"
    using True comp d(2) tryAddQueue_result [OF d(1)] by (auto simp: connect_def set_pqueues_def with_distributor_def)
  with d(3) show ?thesis by simp
qed

lemma dispatch_unsub:
  assumes run: "PublisherPortRouDi_dispatchCaProMessageAndGetPossibleResponse cfg (unsub_message s) p P = Inr (r, p', P')"
    and comp: "isCompatiblePubSub p s"
  shows "p' = disconnect s p \<and> is_answer r"
proof (cases "ppd_offered p")
  case False
  with assms show ?thesis by (auto simp: dispatch_not_offered disconnect_def is_answer_def CaproMessage_ctor_def)
next
  case True
  obtain ret D' where d: "tryRemoveQueue (spd_queue s) (csd_distributor (ppd_chunkSenderData p)) = Inr (ret, D')"
    "p' = with_distributor D' p" "r = Some (answer_message p ret)"
    using run unfolding dispatch_offered(2) [OF True] by auto
  have "p' = disconnect s p"
    using True comp d(2) tryRemoveQueue_result [OF d(1)] by (simp add: disconnect_def set_pqueues_def)
  with d(3) show ?thesis by simp
qed

lemma multi_dispatch_answer:
  assumes "pc_manyToMany cfg" "cm_type m = ACK \<or> cm_type m = NACK \<or> cm_type m = STOP_OFFER"
  shows "SubscriberPort_dispatch cfg m s = Inr (None, s)"
  using assms by (auto simp: SubscriberPort_dispatch_def SubscriberPortMultiProducer_dispatch_def)

lemma multi_dispatch_offer:
  assumes "pc_manyToMany cfg" "cm_type m = OFFER" "spd_subscriptionState s \<in> {NOT_SUBSCRIBED, SUBSCRIBED}"
  shows "SubscriberPort_dispatch cfg m s = Inr (if subscribed s then Some (sub_message s) else None, s)"
  using assms by (auto simp: SubscriberPort_dispatch_def SubscriberPortMultiProducer_dispatch_def)

subsection \<open>The loops over the ports\<close>

text \<open>
  No gateway ports: every port has the internal interface. Then the loops reach every port, and
  a request of subscriber \<open>s\<close> in slot \<open>j\<close> acts on each publisher.
\<close>

definition internal_ports :: "port_manager \<Rightarrow> bool" where
  "internal_ports M \<longleftrightarrow> (\<forall>i p. slot (pm_publishers M) i = Some p \<longrightarrow> port_interface p = INTERNAL) \<and>
     (\<forall>j s. slot (pm_subscribers M) j = Some s \<longrightarrow> port_interface s = INTERNAL)"

lemma publisher_ports_loop_ok:
  assumes run: "publisher_ports_loop cfg m j is found M = Inr (found', M')" and many: "pc_manyToMany cfg"
    and d: "distinct is" and s: "slot (pm_subscribers M) j = Some s"
    and int: "\<forall>i p. slot (pm_publishers M) i = Some p \<longrightarrow> port_interface p = INTERNAL"
    and step: "\<And>p P r p' P'. PublisherPortRouDi_dispatchCaProMessageAndGetPossibleResponse (popo_config.truncate cfg) m p P = Inr (r, p', P') \<Longrightarrow>
      isCompatiblePubSub p s \<Longrightarrow> p' = f p \<and> is_answer r"
    and desc: "\<And>p. bpd_serviceDescription (f p) = bpd_serviceDescription p"
    and skip: "\<And>p. \<not> isCompatiblePubSub p s \<Longrightarrow> f p = p"
  shows "pm_subscribers M' = pm_subscribers M \<and>
    (\<forall>i. slot (pm_publishers M') i = (if i \<in> set is then map_option f (slot (pm_publishers M) i) else slot (pm_publishers M) i))"
  using run d s int
proof (induction "is" arbitrary: found M)
  case (Cons i "is")
  from Cons.prems(1) Cons.prems(3) obtain p where p: "slot (pm_publishers M) i = Some p"
    by (auto simp: with_publisher_Inr)
  have pi: "port_interface p = INTERNAL" using Cons.prems(4) p by blast
  have len: "i < length (pm_publishers M)" using slot_Some_length [OF p] .
  show ?case
  proof (cases "isCompatiblePubSub p s")
    case False
    then have rest: "publisher_ports_loop cfg m j is found M = Inr (found', M')"
      using Cons.prems(1,3) p pi by (simp add: with_publisher_def with_subscriber_def)
    from Cons.IH [OF rest] Cons.prems skip [OF False] p show ?thesis by auto
  next
    case True
    with Cons.prems(1,3) p pi obtain r p1 P1 where r:
      "PublisherPortRouDi_dispatchCaProMessageAndGetPossibleResponse (popo_config.truncate cfg) m p (pm_popo M) = Inr (r, p1, P1)"
      by (auto simp: with_publisher_def with_subscriber_def)
    from step [OF this True] have p1: "p1 = f p" and "is_answer r" by simp_all
    then obtain a where a: "r = Some a" "cm_type a = ACK \<or> cm_type a = NACK" by (auto simp: is_answer_def)
    let ?M1 = "(put_publisher i (f p) M)\<lparr> pm_popo := P1 \<rparr>"
    have "SubscriberPort_dispatch cfg a s = Inr (None, s)" using multi_dispatch_answer [OF many] a(2) by blast
    moreover have "put_subscriber j s ?M1 = ?M1" using Cons.prems(3) by (intro put_subscriber_same) simp
    ultimately have rest: "publisher_ports_loop cfg m j is True ?M1 = Inr (found', M')"
      using Cons.prems(1,3) p pi True r a(1) p1 by (simp add: with_publisher_def with_subscriber_def Let_def)
    have "\<forall>k q. slot (pm_publishers ?M1) k = Some q \<longrightarrow> port_interface q = INTERNAL"
      using Cons.prems(4) pi desc len by auto
    from Cons.IH [OF rest _ _ this] Cons.prems(2,3) p len show ?thesis by auto
  qed
qed simp

definition connect_all :: "nat \<Rightarrow> port_manager \<Rightarrow> nat list \<Rightarrow> publisher_port_data \<Rightarrow> publisher_port_data" where
  "connect_all n M js p =
     fold (\<lambda>j p. case slot (pm_subscribers M) j of Some s \<Rightarrow> if subscribed s then connect n s p else p | None \<Rightarrow> p) js p"

lemma connect_all_simps [simp]:
  "same_publisher p (connect_all n M js p)" "ppd_offered (connect_all n M js p) = ppd_offered p"
  "bpd_serviceDescription (connect_all n M js p) = bpd_serviceDescription p"
proof -
  have "same_publisher p (connect_all n M js p) \<and> ppd_offered (connect_all n M js p) = ppd_offered p \<and>
      bpd_serviceDescription (connect_all n M js p) = bpd_serviceDescription p"
  proof (induction js arbitrary: p)
    case (Cons j js)
    let ?p = "case slot (pm_subscribers M) j of Some s \<Rightarrow> if subscribed s then connect n s p else p | None \<Rightarrow> p"
    have "connect_all n M (j # js) p = connect_all n M js ?p" by (simp add: connect_all_def)
    moreover have "same_publisher p ?p" "ppd_offered ?p = ppd_offered p" "bpd_serviceDescription ?p = bpd_serviceDescription p"
      by (simp_all split: option.split)
    ultimately show ?case using Cons [of ?p] same_publisher_trans [of p ?p "connect_all n M js ?p"] by simp
  qed (simp add: connect_all_def)
  then show "same_publisher p (connect_all n M js p)" "ppd_offered (connect_all n M js p) = ppd_offered p"
    "bpd_serviceDescription (connect_all n M js p) = bpd_serviceDescription p" by simp_all
qed

lemma subscriber_ports_loop_ok:
  assumes "subscriber_ports_loop cfg m i js M = Inr M'" "pc_manyToMany cfg" "slot (pm_publishers M) i = Some p"
    and "\<forall>j s. slot (pm_subscribers M) j = Some s \<longrightarrow> port_interface s = INTERNAL \<and> spd_subscriptionState s \<in> {NOT_SUBSCRIBED, SUBSCRIBED}"
    and "cm_type m = OFFER \<or> cm_type m = STOP_OFFER"
  shows "pm_subscribers M' = pm_subscribers M \<and>
    (\<forall>k. slot (pm_publishers M') k = (if k = i then Some (if cm_type m = OFFER then connect_all (pc_MaxQueues cfg) M js p else p)
      else slot (pm_publishers M) k))"
  using assms
proof (induction js arbitrary: M p)
  case Nil
  then show ?case by (simp add: connect_all_def)
next
  case (Cons j js)
  let ?n = "pc_MaxQueues cfg"
  from Cons.prems(1) obtain s where s: "slot (pm_subscribers M) j = Some s" by (auto simp: with_publisher_Inr with_subscriber_Inr)
  have st: "port_interface s = INTERNAL" "spd_subscriptionState s \<in> {NOT_SUBSCRIBED, SUBSCRIBED}" using Cons.prems(4) s by auto
  have same: "put_subscriber j s M = M" using s by (rule put_subscriber_same)
  show ?case
  proof (cases "isCompatiblePubSub p s \<and> cm_type m = OFFER \<and> subscribed s")
    case False
    have "subscriber_ports_loop cfg m i js M = Inr M'"
    proof (cases "isCompatiblePubSub p s")
      case True
      with False st(2) have "SubscriberPort_dispatch cfg m s = Inr (None, s)"
        using multi_dispatch_answer [OF Cons.prems(2)] multi_dispatch_offer [OF Cons.prems(2) _ st(2)] Cons.prems(5) by (cases "cm_type m = OFFER") auto
      with Cons.prems(1,3) s st(1) True same show ?thesis by (simp add: with_publisher_def with_subscriber_def Let_def)
    qed (use Cons.prems(1,3) s st(1) in \<open>simp add: with_publisher_def with_subscriber_def\<close>)
    from Cons.IH [OF this Cons.prems(2-5)]
    have IH: "pm_subscribers M' = pm_subscribers M \<and> (\<forall>k. slot (pm_publishers M') k = (if k = i
      then Some (if cm_type m = OFFER then connect_all ?n M js p else p) else slot (pm_publishers M) k))" .
    have "cm_type m = OFFER \<Longrightarrow> subscribed s \<Longrightarrow> connect ?n s p = p" using False by (simp add: connect_def)
    then have "cm_type m = OFFER \<Longrightarrow> connect_all ?n M (j # js) p = connect_all ?n M js p" using s by (simp add: connect_all_def)
    with IH show ?thesis by auto
  next
    case True
    then have disp: "SubscriberPort_dispatch cfg m s = Inr (Some (sub_message s), s)"
      using multi_dispatch_offer [OF Cons.prems(2) _ st(2)] by simp
    with Cons.prems(1,3) s st(1) True same obtain r p1 P1 where r:
      "PublisherPortRouDi_dispatchCaProMessageAndGetPossibleResponse (popo_config.truncate cfg) (sub_message s) p (pm_popo M) = Inr (r, p1, P1)"
      by (auto simp: with_publisher_def with_subscriber_def Let_def)
    from dispatch_sub [OF this] True have p1: "p1 = connect ?n s p" and "is_answer r" by simp_all
    then obtain a where a: "r = Some a" "cm_type a = ACK \<or> cm_type a = NACK" by (auto simp: is_answer_def)
    let ?M1 = "(put_publisher i (connect ?n s p) M)\<lparr> pm_popo := P1 \<rparr>"
    have "SubscriberPort_dispatch cfg a s = Inr (None, s)" using multi_dispatch_answer [OF Cons.prems(2)] a(2) by blast
    moreover have "put_subscriber j s ?M1 = ?M1" using s by (intro put_subscriber_same) simp
    ultimately have rest: "subscriber_ports_loop cfg m i js ?M1 = Inr M'"
      using Cons.prems(1,3) s st(1) True disp same r a(1) p1 by (simp add: with_publisher_def with_subscriber_def Let_def)
    have sl: "slot (pm_publishers ?M1) i = Some (connect ?n s p)" using slot_Some_length [OF Cons.prems(3)] by simp
    have ca: "connect_all ?n ?M1 js (connect ?n s p) = connect_all ?n M (j # js) p"
      using s True by (simp add: connect_all_def)
    from Cons.IH [OF rest Cons.prems(2) sl] Cons.prems(4,5) True show ?thesis by (auto simp: ca split: if_splits)
  qed
qed

subsection \<open>The invariant\<close>

text \<open>The queues that a publisher should deliver to.\<close>

definition wanted :: "port_manager \<Rightarrow> publisher_port_data \<Rightarrow> address set" where
  "wanted M p = {q. \<exists>j s. slot (pm_subscribers M) j = Some s \<and> isCompatiblePubSub p s \<and> subscribed s \<and> q = spd_queue s}"

text \<open>
  A publisher delivers only to wanted queues, and to all of them if its container has room for all
  subscribers of the system.
\<close>

definition publisher_ok :: "'a port_manager_config_scheme \<Rightarrow> port_manager \<Rightarrow> publisher_port_data \<Rightarrow> bool" where
  "publisher_ok cfg M p \<longleftrightarrow> distinct (pqueues p) \<and> set (pqueues p) \<subseteq> (if ppd_offered p then wanted M p else {}) \<and>
     (pmc_MAX_SUBSCRIBERS cfg \<le> pc_MaxQueues cfg \<longrightarrow> ppd_offered p \<longrightarrow> wanted M p \<subseteq> set (pqueues p))"

definition config_ok :: "'a port_manager_config_scheme \<Rightarrow> bool" where
  "config_ok cfg \<longleftrightarrow> pc_manyToMany cfg \<and> inj_on (pmc_queueAddress cfg) {..<pmc_MAX_SUBSCRIBERS cfg}"

definition base_ok :: "'a port_manager_config_scheme \<Rightarrow> port_manager \<Rightarrow> bool" where
  "base_ok cfg M \<longleftrightarrow> internal_ports M \<and> length (pm_subscribers M) \<le> pmc_MAX_SUBSCRIBERS cfg \<and>
     (\<forall>j s. slot (pm_subscribers M) j = Some s \<longrightarrow>
        spd_queue s = pmc_queueAddress cfg j \<and> spd_subscriptionState s \<in> {NOT_SUBSCRIBED, SUBSCRIBED})"

text \<open>All publishers but those in \<open>A\<close> are in order.\<close>

definition publishers_ok :: "'a port_manager_config_scheme \<Rightarrow> nat set \<Rightarrow> port_manager \<Rightarrow> bool" where
  "publishers_ok cfg A M \<longleftrightarrow> (\<forall>i p. i \<notin> A \<longrightarrow> slot (pm_publishers M) i = Some p \<longrightarrow> publisher_ok cfg M p)"

definition manager_ok :: "'a port_manager_config_scheme \<Rightarrow> port_manager \<Rightarrow> bool" where
  "manager_ok cfg M \<longleftrightarrow> base_ok cfg M \<and> publishers_ok cfg {} M"

lemma queue_address_inj:
  assumes "base_ok cfg M" "config_ok cfg" "slot (pm_subscribers M) k = Some s'" "slot (pm_subscribers M) j = Some s" "spd_queue s' = spd_queue s"
  shows "k = j"
proof (rule inj_onD)
  show "inj_on (pmc_queueAddress cfg) {..<pmc_MAX_SUBSCRIBERS cfg}" using assms(2) by (simp add: config_ok_def)
  show "pmc_queueAddress cfg k = pmc_queueAddress cfg j" using assms by (simp add: base_ok_def)
  show "k \<in> {..<pmc_MAX_SUBSCRIBERS cfg}" "j \<in> {..<pmc_MAX_SUBSCRIBERS cfg}"
    using assms(1) slot_Some_length [OF assms(3)] slot_Some_length [OF assms(4)] by (simp_all add: base_ok_def)
qed

lemma wanted_card:
  assumes "base_ok cfg M"
  shows "finite (wanted M p)" "card (wanted M p) \<le> pmc_MAX_SUBSCRIBERS cfg"
proof -
  have sub: "wanted M p \<subseteq> pmc_queueAddress cfg ` {..<length (pm_subscribers M)}"
    using assms slot_Some_length by (fastforce simp: wanted_def base_ok_def)
  then show fin: "finite (wanted M p)" using finite_subset by blast
  have "card (wanted M p) \<le> card (pmc_queueAddress cfg ` {..<length (pm_subscribers M)})" using sub by (intro card_mono) auto
  also have "\<dots> \<le> length (pm_subscribers M)" using card_image_le [of "{..<length (pm_subscribers M)}"] by simp
  finally show "card (wanted M p) \<le> pmc_MAX_SUBSCRIBERS cfg" using assms by (simp add: base_ok_def)
qed

lemma room_for_wanted:
  assumes "base_ok cfg M" "distinct qs" "set qs \<subseteq> wanted M p" "q \<in> wanted M p" "q \<notin> set qs"
  shows "length qs < pmc_MAX_SUBSCRIBERS cfg"
proof -
  have "insert q (set qs) \<subseteq> wanted M p" using assms(3,4) by simp
  then have "card (insert q (set qs)) \<le> card (wanted M p)" by (rule card_mono [OF wanted_card(1) [OF assms(1)]])
  then have "Suc (length qs) \<le> card (wanted M p)" using assms(2,5) by (simp add: distinct_card)
  with wanted_card(2) [OF assms(1), of p] show ?thesis by linarith
qed

lemma wanted_cong:
  assumes "pm_subscribers M' = pm_subscribers M" "same_publisher p p'"
  shows "wanted M' p' = wanted M p"
  using assms by (simp add: wanted_def compatible_cong)

definition publisher_equiv :: "publisher_port_data \<Rightarrow> publisher_port_data \<Rightarrow> bool" where
  "publisher_equiv p p' \<longleftrightarrow> same_publisher p p' \<and> pqueues p' = pqueues p"

lemma publisher_equiv_refl [simp]: "publisher_equiv p p"
  by (simp add: publisher_equiv_def)

lemma publisher_ok_cong:
  assumes "pm_subscribers M' = pm_subscribers M" "publisher_equiv p p'"
  shows "publisher_ok cfg M' p' = publisher_ok cfg M p"
proof -
  have p: "same_publisher p p'" "pqueues p' = pqueues p" using assms(2) by (simp_all add: publisher_equiv_def)
  show ?thesis
    unfolding publisher_ok_def wanted_cong [OF assms(1) p(1)] p(2) same_publisher_offered [OF p(1)] ..
qed

text \<open>A step that changes neither the subscribers nor the connections.\<close>

definition manager_equiv :: "port_manager \<Rightarrow> port_manager \<Rightarrow> bool" where
  "manager_equiv M M' \<longleftrightarrow> pm_subscribers M' = pm_subscribers M \<and>
     (\<forall>i. rel_option publisher_equiv (slot (pm_publishers M) i) (slot (pm_publishers M') i))"

lemma manager_equiv_refl [simp]: "manager_equiv M M"
  by (auto simp: manager_equiv_def intro: option.rel_refl)

lemma manager_equiv_slot:
  assumes "manager_equiv M M'" "slot (pm_publishers M') i = Some p'"
  obtains p where "slot (pm_publishers M) i = Some p" "publisher_equiv p p'"
  using assms unfolding manager_equiv_def by (metis option_rel_Some2)

lemma manager_equiv_ok:
  assumes "manager_equiv M M'" "base_ok cfg M" "publishers_ok cfg A M"
  shows "base_ok cfg M'" "publishers_ok cfg A M'"
proof -
  have subs: "pm_subscribers M' = pm_subscribers M" using assms(1) by (simp add: manager_equiv_def)
  have "port_interface p' = INTERNAL" if "slot (pm_publishers M') i = Some p'" for i p'
    using manager_equiv_slot [OF assms(1) that] assms(2)
    by (metis base_ok_def internal_ports_def publisher_equiv_def same_publisher_def)
  with assms(2) show "base_ok cfg M'" by (auto simp: base_ok_def internal_ports_def subs)
  show "publishers_ok cfg A M'"
    unfolding publishers_ok_def
  proof (intro allI impI)
    fix i p' assume "i \<notin> A" "slot (pm_publishers M') i = Some p'"
    with manager_equiv_slot [OF assms(1)] obtain p where "slot (pm_publishers M) i = Some p" "publisher_equiv p p'" by metis
    with assms(3) \<open>i \<notin> A\<close> publisher_ok_cong [OF subs, of p p' cfg] show "publisher_ok cfg M' p'" by (auto simp: publishers_ok_def)
  qed
qed

text \<open>A new subscription.\<close>

lemma connect_publisher_ok:
  assumes base: "base_ok cfg M1" and cfg: "config_ok cfg" and s: "slot (pm_subscribers M1) j = Some s" "subscribed s"
    and old: "distinct (pqueues p)" "set (pqueues p) \<subseteq> (if ppd_offered p then wanted M1 p else {})"
      "pmc_MAX_SUBSCRIBERS cfg \<le> pc_MaxQueues cfg \<longrightarrow> ppd_offered p \<longrightarrow> wanted M1 p - {spd_queue s} \<subseteq> set (pqueues p)"
  shows "publisher_ok cfg M1 (connect (pc_MaxQueues cfg) s p)"
proof -
  let ?p = "connect (pc_MaxQueues cfg) s p" and ?q = "spd_queue s"
  have w: "wanted M1 ?p = wanted M1 p" by (rule wanted_cong) simp_all
  show ?thesis
  proof (cases "isCompatiblePubSub p s \<and> ppd_offered p \<and> ?q \<notin> set (pqueues p)")
    case True
    then have q: "?q \<in> wanted M1 p" using s by (auto simp: wanted_def)
    have len: "length (pqueues p) < pmc_MAX_SUBSCRIBERS cfg" by (rule room_for_wanted [OF base old(1)]) (use old(2) True q in auto)
    show ?thesis
    proof (cases "length (pqueues p) < pc_MaxQueues cfg")
      case room: True
      then have "pqueues ?p = pqueues p @ [?q]" using True by (simp add: connect_def)
      with True old q w show ?thesis by (auto simp: publisher_ok_def)
    next
      case False
      then have "?p = p" by (simp add: connect_def)
      with False len old True w show ?thesis by (auto simp: publisher_ok_def)
    qed
  next
    case False
    then have same: "?p = p" by (auto simp: connect_def)
    have "wanted M1 p \<subseteq> set (pqueues p)" if "pmc_MAX_SUBSCRIBERS cfg \<le> pc_MaxQueues cfg" "ppd_offered p"
    proof -
      have "?q \<in> wanted M1 p \<Longrightarrow> ?q \<in> set (pqueues p)"
      proof -
        assume "?q \<in> wanted M1 p"
        then obtain k s' where k: "slot (pm_subscribers M1) k = Some s'" "isCompatiblePubSub p s'" "?q = spd_queue s'"
          by (auto simp: wanted_def)
        from queue_address_inj [OF base cfg k(1) s(1)] k(3) have "k = j" by simp
        with k s(1) False that(2) show ?thesis by simp
      qed
      then show ?thesis using old(3) that by blast
    qed
    with same old show ?thesis by (auto simp: publisher_ok_def)
  qed
qed

text \<open>The end of a subscription: \<open>s\<close> is subscribed in \<open>M\<close> and not in \<open>M1\<close>.\<close>

lemma wanted_unsubscribe:
  assumes base: "base_ok cfg M" and cfg: "config_ok cfg" and s: "slot (pm_subscribers M) j = Some s"
    and M1: "\<And>k. slot (pm_subscribers M1) k = (if k = j then Some s1 else slot (pm_subscribers M) k)" "\<not> subscribed s1"
  shows "wanted M1 p = (if isCompatiblePubSub p s then wanted M p - {spd_queue s} else wanted M p)"
proof -
  have one: "k = j" if "slot (pm_subscribers M) k = Some s'" "spd_queue s' = spd_queue s" for k s'
    by (rule queue_address_inj [OF base cfg that(1) s that(2)])
  show ?thesis
  proof (cases "isCompatiblePubSub p s")
    case True
    have "wanted M1 p = wanted M p - {spd_queue s}"
    proof (intro equalityI subsetI)
      fix q assume "q \<in> wanted M1 p"
      then obtain k s' where k: "slot (pm_subscribers M1) k = Some s'" "isCompatiblePubSub p s'" "subscribed s'" "q = spd_queue s'"
        by (auto simp: wanted_def)
      with M1 have "k \<noteq> j" by auto
      with k M1(1) have "slot (pm_subscribers M) k = Some s'" by simp
      with k \<open>k \<noteq> j\<close> one show "q \<in> wanted M p - {spd_queue s}" by (auto simp: wanted_def)
    next
      fix q assume "q \<in> wanted M p - {spd_queue s}"
      then obtain k s' where k: "slot (pm_subscribers M) k = Some s'" "isCompatiblePubSub p s'" "subscribed s'" "q = spd_queue s'" "q \<noteq> spd_queue s"
        by (auto simp: wanted_def)
      with s have "k \<noteq> j" by auto
      with k M1(1) show "q \<in> wanted M1 p" by (auto simp: wanted_def)
    qed
    with True show ?thesis by simp
  next
    case False
    have "wanted M1 p = wanted M p"
      using False s M1 by (auto simp: wanted_def split: if_splits) (metis option.inject)
    with False show ?thesis by simp
  qed
qed

lemma disconnect_publisher_ok:
  assumes base: "base_ok cfg M" and cfg: "config_ok cfg" and s: "slot (pm_subscribers M) j = Some s"
    and M1: "\<And>k. slot (pm_subscribers M1) k = (if k = j then Some s1 else slot (pm_subscribers M) k)" "\<not> subscribed s1"
    and old: "publisher_ok cfg M p"
  shows "publisher_ok cfg M1 (disconnect s p)"
proof -
  let ?p = "disconnect s p"
  have w1: "wanted M1 ?p = wanted M1 p" by (rule wanted_cong) simp_all
  note w2 = wanted_unsubscribe [OF base cfg s M1, of p]
  show ?thesis
  proof (cases "isCompatiblePubSub p s")
    case True
    have "pqueues ?p = remove1 (spd_queue s) (pqueues p)"
      using True old by (cases "ppd_offered p") (auto simp: disconnect_def publisher_ok_def)
    with True old w1 w2 show ?thesis by (auto simp: publisher_ok_def distinct_remove1)
  next
    case False
    then have "?p = p" by (simp add: disconnect_def)
    with False old w2 show ?thesis by (auto simp: publisher_ok_def)
  qed
qed

text \<open>A publisher that has just been offered.\<close>

lemma connect_all_ok:
  assumes base: "base_ok cfg M" and off: "ppd_offered p" and "distinct (pqueues p)" "set (pqueues p) \<subseteq> wanted M p"
  shows "distinct (pqueues (connect_all (pc_MaxQueues cfg) M js p)) \<and>
    set (pqueues (connect_all (pc_MaxQueues cfg) M js p)) \<subseteq> wanted M p \<and>
    set (pqueues p) \<subseteq> set (pqueues (connect_all (pc_MaxQueues cfg) M js p)) \<and>
    (pmc_MAX_SUBSCRIBERS cfg \<le> pc_MaxQueues cfg \<longrightarrow>
      (\<forall>j s. j \<in> set js \<longrightarrow> slot (pm_subscribers M) j = Some s \<longrightarrow> isCompatiblePubSub p s \<longrightarrow> subscribed s \<longrightarrow>
         spd_queue s \<in> set (pqueues (connect_all (pc_MaxQueues cfg) M js p))))"
  using off assms(3,4)
proof (induction js arbitrary: p)
  case Nil
  then show ?case by (simp add: connect_all_def)
next
  case (Cons j js)
  let ?n = "pc_MaxQueues cfg"
  define p1 where "p1 = (case slot (pm_subscribers M) j of Some s \<Rightarrow> if subscribed s then connect ?n s p else p | None \<Rightarrow> p)"
  have ca: "connect_all ?n M (j # js) p = connect_all ?n M js p1" by (simp add: connect_all_def p1_def)
  have same: "same_publisher p p1" by (simp add: p1_def split: option.split)
  have w: "wanted M p1 = wanted M p" by (rule wanted_cong) (simp_all add: same)
  have off1: "ppd_offered p1" using Cons.prems(1) same by (simp add: same_publisher_def)
  have step: "distinct (pqueues p1) \<and> set (pqueues p1) \<subseteq> wanted M p \<and> set (pqueues p) \<subseteq> set (pqueues p1) \<and>
    (pmc_MAX_SUBSCRIBERS cfg \<le> ?n \<longrightarrow> (\<forall>s. slot (pm_subscribers M) j = Some s \<longrightarrow> isCompatiblePubSub p s \<longrightarrow> subscribed s \<longrightarrow>
       spd_queue s \<in> set (pqueues p1)))"
  proof (cases "\<exists>s. slot (pm_subscribers M) j = Some s \<and> subscribed s \<and> isCompatiblePubSub p s \<and> spd_queue s \<notin> set (pqueues p)")
    case False
    then have "p1 = p" by (auto simp: p1_def connect_def split: option.split)
    with False Cons.prems show ?thesis by auto
  next
    case True
    then obtain s where s: "slot (pm_subscribers M) j = Some s" "subscribed s" "isCompatiblePubSub p s" "spd_queue s \<notin> set (pqueues p)" by auto
    then have q: "spd_queue s \<in> wanted M p" by (auto simp: wanted_def)
    have "length (pqueues p) < pmc_MAX_SUBSCRIBERS cfg" by (rule room_for_wanted [OF base Cons.prems(2,3) q s(4)])
    moreover have "p1 = connect ?n s p" using s by (simp add: p1_def)
    ultimately show ?thesis using Cons.prems s q by (auto simp: connect_def)
  qed
  from Cons.IH [OF off1] step w show ?case
    unfolding ca by (auto simp: compatible_cong [OF same])
qed

lemma connect_all_publisher_ok:
  assumes base: "base_ok cfg M" and off: "ppd_offered p" and e: "pqueues p = []"
  shows "publisher_ok cfg M (connect_all (pc_MaxQueues cfg) M (content (pm_subscribers M)) p)"
proof -
  let ?p = "connect_all (pc_MaxQueues cfg) M (content (pm_subscribers M)) p"
  have w: "wanted M ?p = wanted M p" by (rule wanted_cong) simp_all
  note ok = connect_all_ok [OF base off, of "content (pm_subscribers M)"]
  have "wanted M p \<subseteq> set (pqueues ?p)" if "pmc_MAX_SUBSCRIBERS cfg \<le> pc_MaxQueues cfg"
    using ok e that by (force simp: wanted_def)
  with ok e w off show ?thesis by (simp add: publisher_ok_def)
qed

subsection \<open>The operations of the application keep the connections\<close>

text \<open>Inversion of a returning operation, branch by branch.\<close>

lemma returns_sum: "(case r of Inl e \<Rightarrow> f e | Inr x \<Rightarrow> g x) = Inr y \<longleftrightarrow> (\<exists>e. r = Inl e \<and> f e = Inr y) \<or> (\<exists>x. r = Inr x \<and> g x = Inr y)"
  by (simp split: sum.split)

lemma returns_option: "(case r of None \<Rightarrow> f | Some x \<Rightarrow> g x) = Inr y \<longleftrightarrow> (r = None \<and> f = Inr y) \<or> (\<exists>x. r = Some x \<and> g x = Inr y)"
  by (simp split: option.split)

lemma returns_prod: "(case r of (a, b) \<Rightarrow> f a b) = Inr y \<longleftrightarrow> (\<exists>a b. r = (a, b) \<and> f a b = Inr y)"
  by (simp split: prod.split)

lemma returns_if: "(if c then f else g) = Inr y \<longleftrightarrow> (c \<and> f = Inr y) \<or> (\<not> c \<and> g = Inr y)"
  by simp

lemma returns_errorHandler: "errorHandler e l k = Inr y \<longleftrightarrow> l \<noteq> FATAL \<and> k = Inr y"
  by (cases l) simp_all

lemmas returns = returns_sum returns_option returns_prod returns_if returns_errorHandler with_publisher_Inr with_subscriber_Inr Let_def

lemma tryAllocate_distributor:
  assumes "ChunkSender_tryAllocate MaxAlloc originId us ua hs ha X S = Inr (r, X', S')"
  shows "csd_distributor X' = csd_distributor X"
  using assms by (auto simp: ChunkSender_tryAllocate_def reuse_last_chunk_def allocate_new_chunk_def returns)

lemma getChunkReady_distributor:
  assumes "getChunkReadyForSend MaxAlloc c X S = Inr (ready, chunk, X', S')"
  shows "csd_distributor X' = csd_distributor X"
  using assms by (auto simp: getChunkReadyForSend_def returns)

lemma addToHistory_queues:
  assumes "addToHistoryWithoutDelivery chunk D P = Inr (D', P')"
  shows "cdd_queues D' = cdd_queues D"
  using assms by (auto simp: addToHistoryWithoutDelivery_def locked_def split: if_splits)

lemma remember_distributor:
  assumes "remember_last_chunk chunk X S = Inr (X', S')"
  shows "csd_distributor X' = csd_distributor X"
  using assms by (auto simp: remember_last_chunk_def returns)

lemma deliver_queues:
  assumes "deliverToAllStoredQueues Capacity chunk [] D P = Inr (n, D', P')"
  shows "cdd_queues D' = cdd_queues D"
  using assms by (auto simp: deliverToAllStoredQueues_def locked_def dest!: addToHistory_queues split: if_splits)

lemma send_queues:
  assumes "ChunkSender_send MaxAlloc Capacity [] c X P = Inr (n, X', P')"
  shows "cdd_queues (csd_distributor X') = cdd_queues (csd_distributor X)"
  using assms by (auto simp: ChunkSender_send_def dest!: getChunkReady_distributor deliver_queues remember_distributor split: if_splits)

lemma pushToHistory_queues:
  assumes "ChunkSender_pushToHistory MaxAlloc c X P = Inr (X', P')"
  shows "cdd_queues (csd_distributor X') = cdd_queues (csd_distributor X)"
  using assms by (auto simp: ChunkSender_pushToHistory_def dest!: getChunkReady_distributor addToHistory_queues remember_distributor split: if_splits)

lemma publisher_user_equiv:
  "PublisherPortUser_tryAllocateChunk cfg us ua hs ha p P = Inr (r, p', P') \<Longrightarrow> publisher_equiv p p'"
  "PublisherPortUser_sendChunk cfg [] c p P = Inr (p', P') \<Longrightarrow> publisher_equiv p p'"
  "PublisherPortUser_releaseChunk cfg c p P = Inr (p', P') \<Longrightarrow> publisher_equiv p p'"
  "publisher_equiv p (PublisherPortUser_offer p)" "publisher_equiv p (PublisherPortUser_stopOffer p)"
  "publisher_equiv p (destroy p)"
  by (auto simp: PublisherPortUser_tryAllocateChunk_def PublisherPortUser_sendChunk_def PublisherPortUser_releaseChunk_def
      PublisherPortUser_offer_def PublisherPortUser_stopOffer_def destroy_def ChunkSender_release_def returns
      publisher_equiv_def same_publisher_def
      dest!: tryAllocate_distributor send_queues pushToHistory_queues)

lemma put_publisher_equiv:
  assumes "slot (pm_publishers M) i = Some p" "publisher_equiv p p'"
  shows "manager_equiv M ((put_publisher i p' M)\<lparr> pm_popo := P \<rparr>)" "manager_equiv M (put_publisher i p' M)"
  using assms by (auto simp: manager_equiv_def option.rel_refl)

lemma publisher_equiv_trans: "publisher_equiv p p' \<Longrightarrow> publisher_equiv p' p'' \<Longrightarrow> publisher_equiv p p''"
  by (auto simp: publisher_equiv_def intro: same_publisher_trans)

lemma manager_equiv_trans:
  assumes "manager_equiv M M'" "manager_equiv M' M''"
  shows "manager_equiv M M''"
  unfolding manager_equiv_def
proof (intro conjI allI)
  show "pm_subscribers M'' = pm_subscribers M" using assms by (simp add: manager_equiv_def)
  fix i
  have "rel_option publisher_equiv (slot (pm_publishers M) i) (slot (pm_publishers M') i)"
    "rel_option publisher_equiv (slot (pm_publishers M') i) (slot (pm_publishers M'') i)" using assms by (simp_all add: manager_equiv_def)
  then show "rel_option publisher_equiv (slot (pm_publishers M) i) (slot (pm_publishers M'') i)"
    by (auto simp: option_rel_Some1 rel_option_iff split: option.splits intro: publisher_equiv_trans)
qed

lemma publishServiceRegistry_equiv:
  assumes "publishServiceRegistry cfg M = Inr M'"
  shows "manager_equiv M M'"
  using assms
  by (auto simp: publishServiceRegistry_def returns
      dest!: publisher_user_equiv(1) publisher_user_equiv(2) intro: put_publisher_equiv publisher_equiv_trans)

lemma registry_equiv:
  "addPublisherToServiceRegistry cfg sd M = Inr M' \<Longrightarrow> manager_equiv M M'"
  "removePublisherFromServiceRegistry cfg sd M = Inr M' \<Longrightarrow> manager_equiv M M'"
  by (auto simp: addPublisherToServiceRegistry_def removePublisherFromServiceRegistry_def returns
      dest!: publishServiceRegistry_equiv simp: manager_equiv_def)

lemma interface_ports_equiv: "sendToAllMatchingInterfacePorts cfg m M = Inr M' \<Longrightarrow> manager_equiv M M'"
  by (auto simp: sendToAllMatchingInterfacePorts_def manager_equiv_def option.rel_refl)

subsection \<open>Discovery keeps the invariant\<close>

lemma base_ok_publishers:
  assumes "base_ok cfg M" "pm_subscribers M' = pm_subscribers M"
    "\<And>i p. slot (pm_publishers M') i = Some p \<Longrightarrow> port_interface p = INTERNAL"
  shows "base_ok cfg M'"
  using assms by (simp add: base_ok_def internal_ports_def)

lemma base_ok_interface: "base_ok cfg M \<Longrightarrow> slot (pm_publishers M) i = Some p \<Longrightarrow> port_interface p = INTERNAL"
  by (auto simp: base_ok_def internal_ports_def)

lemma manager_equivI:
  assumes "pm_subscribers M' = pm_subscribers M" "\<And>i. slot (pm_publishers M') i = slot (pm_publishers M) i"
  shows "manager_equiv M M'"
  using assms by (simp add: manager_equiv_def option.rel_refl)

lemma manager_equiv_manager_ok: "manager_equiv M M' \<Longrightarrow> manager_ok cfg M \<Longrightarrow> manager_ok cfg M'"
  using manager_equiv_ok by (auto simp: manager_ok_def)

text \<open>One publisher has changed.\<close>

lemma put_publisher_ok:
  assumes ok: "manager_ok cfg M" and p: "slot (pm_publishers M) i = Some p" and desc: "bpd_serviceDescription p' = bpd_serviceDescription p"
  shows "base_ok cfg (put_publisher i p' M)" "publishers_ok cfg {i} (put_publisher i p' M)"
proof -
  have base: "base_ok cfg M" using ok by (simp add: manager_ok_def)
  show "base_ok cfg (put_publisher i p' M)"
    using base_ok_interface [OF base] p desc by (intro base_ok_publishers [OF base]) (auto split: if_splits)
  have "publisher_ok cfg (put_publisher i p' M) q = publisher_ok cfg M q" for q by (rule publisher_ok_cong) simp_all
  with ok show "publishers_ok cfg {i} (put_publisher i p' M)" by (auto simp: publishers_ok_def manager_ok_def)
qed

lemma manager_ok_insert:
  assumes "base_ok cfg M" "publishers_ok cfg {i} M" "\<And>p. slot (pm_publishers M) i = Some p \<Longrightarrow> publisher_ok cfg M p"
  shows "manager_ok cfg M"
  using assms by (fastforce simp: manager_ok_def publishers_ok_def)

lemma publisher_message_cases:
  assumes "PublisherPortRouDi_tryGetCaProMessage p = Inr (m, p')"
  obtains (none) "m = None" "p' = p" "ppd_offeringRequested p = ppd_offered p"
  | (offer) a where "m = Some a" "cm_type a = OFFER" "p' = p\<lparr> ppd_offered := True \<rparr>" "\<not> ppd_offered p" "ppd_offeringRequested p"
  | (stop) a where "m = Some a" "cm_type a = STOP_OFFER" "\<not> ppd_offered p'" "pqueues p' = []" "ppd_offered p" "\<not> ppd_offeringRequested p"
      "bpd_serviceDescription p' = bpd_serviceDescription p"
  using assms
  by (cases "ppd_offeringRequested p"; cases "ppd_offered p")
    (auto simp: PublisherPortRouDi_tryGetCaProMessage_def Let_def CaproMessage_ctor_def removeAllQueues_def locked_def with_distributor_def split: if_splits)

lemma stopped_publisher_ok: "\<not> ppd_offered p \<Longrightarrow> pqueues p = [] \<Longrightarrow> publisher_ok cfg M p"
  by (simp add: publisher_ok_def)

lemma subscriber_states:
  assumes "base_ok cfg M"
  shows "\<forall>j s. slot (pm_subscribers M) j = Some s \<longrightarrow> port_interface s = INTERNAL \<and> spd_subscriptionState s \<in> {NOT_SUBSCRIBED, SUBSCRIBED}"
  using assms by (auto simp: base_ok_def internal_ports_def)

lemma stop_offer_ok:
  assumes ok: "manager_ok cfg M1" and cfg: "config_ok cfg" and p: "slot (pm_publishers M1) i = Some p1" and m: "cm_type a = STOP_OFFER"
    and run: "obind (removePublisherFromServiceRegistry cfg (cm_serviceDescription a) M1) (\<lambda>M2.
       obind (sendToAllMatchingSubscriberPorts cfg a i M2) (\<lambda>M3. sendToAllMatchingInterfacePorts cfg a M3)) = Inr M'"
  shows "manager_equiv M1 M'"
proof -
  from run obtain M2 M3 where M2: "removePublisherFromServiceRegistry cfg (cm_serviceDescription a) M1 = Inr M2"
    and M3: "sendToAllMatchingSubscriberPorts cfg a i M2 = Inr M3" and M4: "sendToAllMatchingInterfacePorts cfg a M3 = Inr M'" by auto
  have e2: "manager_equiv M1 M2" by (rule registry_equiv(2) [OF M2])
  have ok2: "manager_ok cfg M2" by (rule manager_equiv_manager_ok [OF e2 ok])
  obtain p2 where p2: "slot (pm_publishers M2) i = Some p2"
    using e2 p unfolding manager_equiv_def by (metis option_rel_Some1)
  have "manager_equiv M2 M3"
    using subscriber_ports_loop_ok [OF M3 [unfolded sendToAllMatchingSubscriberPorts_def] _ p2 subscriber_states] cfg ok2 m p2
    by (intro manager_equivI) (auto simp: config_ok_def manager_ok_def)
  with e2 interface_ports_equiv [OF M4] show ?thesis using manager_equiv_trans by blast
qed

lemma offer_ok:
  assumes base: "base_ok cfg M1" and oks: "publishers_ok cfg {i} M1" and cfg: "config_ok cfg"
    and p: "slot (pm_publishers M1) i = Some p1" "ppd_offered p1" "pqueues p1 = []" and m: "cm_type a = OFFER"
    and run: "obind (addPublisherToServiceRegistry cfg (cm_serviceDescription a) M1) (\<lambda>M2.
       obind (sendToAllMatchingSubscriberPorts cfg a i M2) (\<lambda>M3. sendToAllMatchingInterfacePorts cfg a M3)) = Inr M'"
  shows "manager_ok cfg M'" "pm_subscribers M' = pm_subscribers M1" "slot (pm_publishers M') i \<noteq> None"
proof -
  from run obtain M2 M3 where M2: "addPublisherToServiceRegistry cfg (cm_serviceDescription a) M1 = Inr M2"
    and M3: "sendToAllMatchingSubscriberPorts cfg a i M2 = Inr M3" and M4: "sendToAllMatchingInterfacePorts cfg a M3 = Inr M'" by auto
  have e2: "manager_equiv M1 M2" by (rule registry_equiv(1) [OF M2])
  note ok2 = manager_equiv_ok [OF e2 base oks]
  obtain p2 where p2: "slot (pm_publishers M2) i = Some p2" "publisher_equiv p1 p2"
    using e2 p(1) unfolding manager_equiv_def by (metis option_rel_Some1)
  then have p2': "ppd_offered p2" "pqueues p2 = []" using p by (simp_all add: publisher_equiv_def same_publisher_def)
  let ?p3 = "connect_all (pc_MaxQueues cfg) M2 (content (pm_subscribers M2)) p2"
  have loop: "pm_subscribers M3 = pm_subscribers M2"
    "\<And>k. slot (pm_publishers M3) k = (if k = i then Some ?p3 else slot (pm_publishers M2) k)"
    using subscriber_ports_loop_ok [OF M3 [unfolded sendToAllMatchingSubscriberPorts_def] _ p2(1) subscriber_states [OF ok2(1)]] cfg m
    by (simp_all add: config_ok_def)
  have "port_interface ?p3 = INTERNAL" using base_ok_interface [OF ok2(1) p2(1)] by simp
  then have base3: "base_ok cfg M3" using base_ok_interface [OF ok2(1)] loop
    by (intro base_ok_publishers [OF ok2(1)]) (auto split: if_splits)
  have same: "publisher_ok cfg M3 q = publisher_ok cfg M2 q" for q by (rule publisher_ok_cong) (simp_all add: loop)
  have "publisher_ok cfg M3 ?p3" unfolding same by (rule connect_all_publisher_ok [OF ok2(1) p2'])
  moreover have "publishers_ok cfg {i} M3" using ok2(2) by (simp add: publishers_ok_def loop same)
  ultimately have "manager_ok cfg M3" using loop(2) by (intro manager_ok_insert [OF base3]) auto
  with interface_ports_equiv [OF M4] show "manager_ok cfg M'" by (rule manager_equiv_manager_ok)
  have "pm_subscribers M' = pm_subscribers M3" "rel_option publisher_equiv (slot (pm_publishers M3) i) (slot (pm_publishers M') i)"
    using interface_ports_equiv [OF M4] by (simp_all add: manager_equiv_def)
  then show "pm_subscribers M' = pm_subscribers M1" "slot (pm_publishers M') i \<noteq> None"
    using loop e2 by (auto simp: option_rel_Some1 manager_equiv_def)
qed

lemma doDiscoveryForPublisherPort_ok:
  assumes ok: "manager_ok cfg M" and cfg: "config_ok cfg" and run: "doDiscoveryForPublisherPort cfg i M = Inr M'"
  shows "manager_ok cfg M'"
proof -
  from run obtain p m p1 where p: "slot (pm_publishers M) i = Some p" and get: "PublisherPortRouDi_tryGetCaProMessage p = Inr (m, p1)"
    by (auto simp: doDiscoveryForPublisherPort_def with_publisher_Inr)
  have len: "i < length (pm_publishers M)" using slot_Some_length [OF p] .
  have pok: "publisher_ok cfg M p" using ok p by (auto simp: manager_ok_def publishers_ok_def)
  have run: "(case m of None \<Rightarrow> Inr (put_publisher i p1 M)
     | Some a \<Rightarrow>
         if cm_type a = OFFER
         then obind (addPublisherToServiceRegistry cfg (cm_serviceDescription a) (put_publisher i p1 M)) (\<lambda>M2.
              obind (sendToAllMatchingSubscriberPorts cfg a i M2) (\<lambda>M3. sendToAllMatchingInterfacePorts cfg a M3))
         else if cm_type a = STOP_OFFER
         then obind (removePublisherFromServiceRegistry cfg (cm_serviceDescription a) (put_publisher i p1 M)) (\<lambda>M2.
              obind (sendToAllMatchingSubscriberPorts cfg a i M2) (\<lambda>M3. sendToAllMatchingInterfacePorts cfg a M3))
         else errorHandler (ROUDI PORT_MANAGER__HANDLE_PUBLISHER_PORTS_INVALID_CAPRO_MESSAGE) MODERATE (Inr (put_publisher i p1 M))) = Inr M'"
    using run unfolding doDiscoveryForPublisherPort_def with_publisher_def p by (simp only: get option.case obind_Inr prod.case Let_def)
  from get show ?thesis
  proof (cases rule: publisher_message_cases)
    case none
    with run have "M' = put_publisher i p M" by simp
    with put_publisher_equiv(2) [OF p publisher_equiv_refl] ok show ?thesis by (simp add: manager_equiv_manager_ok)
  next
    case (offer a)
    have desc: "bpd_serviceDescription p1 = bpd_serviceDescription p" using offer by simp
    note ok1 = put_publisher_ok [OF ok p desc]
    have "pqueues p1 = []" using pok offer by (simp add: publisher_ok_def)
    then show ?thesis using run offer len
      by (intro offer_ok(1) [OF ok1 cfg, of p1 a]) simp_all
  next
    case (stop a)
    note ok1 = put_publisher_ok [OF ok p stop(7)]
    have "manager_ok cfg (put_publisher i p1 M)"
      using len stop by (intro manager_ok_insert [OF ok1]) (simp add: stopped_publisher_ok)
    moreover have "manager_equiv (put_publisher i p1 M) M'"
      using run stop len by (intro stop_offer_ok [OF calculation cfg, of i p1 a]) simp_all
    ultimately show ?thesis using manager_equiv_manager_ok by blast
  qed
qed

lemma publishers_ok_put_subscriber_popo [simp]: "publishers_ok cfg A (M\<lparr> pm_popo := P \<rparr>) = publishers_ok cfg A M"
  by (simp add: publishers_ok_def publisher_ok_def wanted_def)

lemma base_ok_popo [simp]: "base_ok cfg (M\<lparr> pm_popo := P \<rparr>) = base_ok cfg M"
  by (simp add: base_ok_def internal_ports_def)

lemma manager_ok_popo [simp]: "manager_ok cfg (M\<lparr> pm_popo := P \<rparr>) = manager_ok cfg M"
  by (simp add: manager_ok_def)

text \<open>What a subscriber keeps: its description, its options and its queue.\<close>

definition same_subscriber :: "subscriber_port_data \<Rightarrow> subscriber_port_data \<Rightarrow> bool" where
  "same_subscriber s s' \<longleftrightarrow> bpd_serviceDescription s' = bpd_serviceDescription s \<and> spd_options s' = spd_options s \<and> spd_queue s' = spd_queue s"

lemma same_subscriber_compatible: "same_subscriber s s' \<Longrightarrow> isCompatiblePubSub p s' = isCompatiblePubSub p s"
  by (simp add: same_subscriber_def isCompatiblePubSub_def)

lemma same_subscriber_messages: "same_subscriber s s' \<Longrightarrow> sub_message s' = sub_message s" "same_subscriber s s' \<Longrightarrow> unsub_message s' = unsub_message s"
  by (simp_all add: same_subscriber_def sub_message_def unsub_message_def)

lemma put_subscriber_base:
  assumes base: "base_ok cfg M" and s: "slot (pm_subscribers M) j = Some s" "same_subscriber s s1" and st: "spd_subscriptionState s1 \<in> {NOT_SUBSCRIBED, SUBSCRIBED}"
  shows "base_ok cfg (put_subscriber j s1 M)"
  using assms by (auto simp: base_ok_def internal_ports_def same_subscriber_def split: if_splits)

text \<open>A subscriber whose state of subscription stays the same.\<close>

lemma put_subscriber_wanted:
  assumes "slot (pm_subscribers M) j = Some s" "same_subscriber s s1" "subscribed s1 = subscribed s"
  shows "wanted (put_subscriber j s1 M) p = wanted M p"
proof -
  have "(\<exists>s'. slot (pm_subscribers (put_subscriber j s1 M)) k = Some s' \<and> isCompatiblePubSub p s' \<and> subscribed s' \<and> q = spd_queue s') \<longleftrightarrow>
      (\<exists>s'. slot (pm_subscribers M) k = Some s' \<and> isCompatiblePubSub p s' \<and> subscribed s' \<and> q = spd_queue s')" for k q
    using assms slot_Some_length [OF assms(1)] same_subscriber_compatible [OF assms(2)]
    by (cases "k = j") (simp_all add: same_subscriber_def)
  then show ?thesis by (simp add: wanted_def)
qed

lemma put_subscriber_ok:
  assumes ok: "manager_ok cfg M" and s: "slot (pm_subscribers M) j = Some s" "same_subscriber s s1" "spd_subscriptionState s1 = spd_subscriptionState s"
  shows "manager_ok cfg (put_subscriber j s1 M)"
proof -
  have base: "base_ok cfg M" using ok by (simp add: manager_ok_def)
  have "spd_subscriptionState s1 \<in> {NOT_SUBSCRIBED, SUBSCRIBED}" using base s by (auto simp: base_ok_def)
  then have "base_ok cfg (put_subscriber j s1 M)" by (rule put_subscriber_base [OF base s(1,2)])
  moreover have "publisher_ok cfg (put_subscriber j s1 M) p = publisher_ok cfg M p" for p
    using s(3) by (simp only: publisher_ok_def put_subscriber_wanted [OF s(1,2)])
  then have "publishers_ok cfg {} (put_subscriber j s1 M)"
    using ok by (simp add: manager_ok_def publishers_ok_def)
  ultimately show ?thesis by (simp add: manager_ok_def)
qed

lemma subscriber_message_cases:
  assumes "SubscriberPort_tryGetCaProMessage cfg s = (m, s')" "pc_manyToMany cfg" "spd_subscriptionState s \<in> {NOT_SUBSCRIBED, SUBSCRIBED}"
  obtains (none) "m = None" "s' = s" "spd_subscribeRequested s = subscribed s"
  | (sub) "m = Some (sub_message s)" "same_subscriber s s'" "subscribed s'" "\<not> subscribed s" "spd_subscribeRequested s"
  | (unsub) "m = Some (unsub_message s)" "same_subscriber s s'" "\<not> subscribed s'" "spd_subscriptionState s' = NOT_SUBSCRIBED" "subscribed s" "\<not> spd_subscribeRequested s"
  using assms
  by (cases "spd_subscribeRequested s"; cases "subscribed s")
    (auto simp: SubscriberPort_tryGetCaProMessage_def SubscriberPortMultiProducer_tryGetCaProMessage_def same_subscriber_def)

text \<open>Publishers after a loop over all of them.\<close>

lemma loop_ok:
  assumes base: "base_ok cfg M1" and subs: "pm_subscribers M2 = pm_subscribers M1"
    and slots: "\<And>i. slot (pm_publishers M2) i = map_option f (slot (pm_publishers M1) i)"
    and desc: "\<And>p. bpd_serviceDescription (f p) = bpd_serviceDescription p"
    and each: "\<And>i p. slot (pm_publishers M1) i = Some p \<Longrightarrow> publisher_ok cfg M1 (f p)"
  shows "manager_ok cfg M2"
proof -
  have same: "publisher_ok cfg M2 q = publisher_ok cfg M1 q" for q by (rule publisher_ok_cong) (simp_all add: subs)
  have "base_ok cfg M2" using base_ok_interface [OF base] slots desc by (intro base_ok_publishers [OF base subs]) auto
  then show ?thesis using each slots by (auto simp: manager_ok_def publishers_ok_def same)
qed

lemma send_to_publishers:
  assumes run: "sendToAllMatchingPublisherPorts cfg m j M = Inr (found, M')" and many: "config_ok cfg" and base: "base_ok cfg M"
    and s: "slot (pm_subscribers M) j = Some s"
    and step: "\<And>p P r p' P'. PublisherPortRouDi_dispatchCaProMessageAndGetPossibleResponse (popo_config.truncate cfg) m p P = Inr (r, p', P') \<Longrightarrow>
      isCompatiblePubSub p s \<Longrightarrow> p' = f p \<and> is_answer r"
    and desc: "\<And>p. bpd_serviceDescription (f p) = bpd_serviceDescription p"
    and skip: "\<And>p. \<not> isCompatiblePubSub p s \<Longrightarrow> f p = p"
  shows "pm_subscribers M' = pm_subscribers M" "slot (pm_publishers M') i = map_option f (slot (pm_publishers M) i)"
proof -
  have r: "pm_subscribers M' = pm_subscribers M \<and> (\<forall>i. slot (pm_publishers M') i =
      (if i \<in> set (content (pm_publishers M)) then map_option f (slot (pm_publishers M) i) else slot (pm_publishers M) i))"
    using publisher_ports_loop_ok [OF run [unfolded sendToAllMatchingPublisherPorts_def] _ _ s _ step desc skip] many base
    by (simp add: config_ok_def base_ok_def internal_ports_def)
  then show "pm_subscribers M' = pm_subscribers M" by simp
  from r show "slot (pm_publishers M') i = map_option f (slot (pm_publishers M) i)"
    by (cases "slot (pm_publishers M) i") auto
qed

lemma subscribe_ok:
  assumes ok: "manager_ok cfg M" and cfg: "config_ok cfg" and s: "slot (pm_subscribers M) j = Some s" "same_subscriber s s1" "\<not> subscribed s" "subscribed s1"
    and run: "sendToAllMatchingPublisherPorts cfg (sub_message s) j (put_subscriber j s1 M) = Inr (found, M')"
  shows "manager_ok cfg M'" "slot (pm_subscribers M') j = Some s1"
proof -
  let ?M1 = "put_subscriber j s1 M"
  have len: "j < length (pm_subscribers M)" using slot_Some_length [OF s(1)] .
  have base: "base_ok cfg M" using ok by (simp add: manager_ok_def)
  have base1: "base_ok cfg ?M1" using s(4) by (intro put_subscriber_base [OF base s(1,2)]) simp
  have s1: "slot (pm_subscribers ?M1) j = Some s1" using len by simp
  have step: "p' = connect (pc_MaxQueues cfg) s1 p \<and> is_answer r"
    if "PublisherPortRouDi_dispatchCaProMessageAndGetPossibleResponse (popo_config.truncate cfg) (sub_message s) p P = Inr (r, p', P')"
      "isCompatiblePubSub p s1" for p P r p' P'
    using dispatch_sub [of "popo_config.truncate cfg" s1 p P r p' P'] that same_subscriber_messages [OF s(2)] by simp
  have subs: "pm_subscribers M' = pm_subscribers ?M1" and slots: "slot (pm_publishers M') i = map_option (connect (pc_MaxQueues cfg) s1) (slot (pm_publishers ?M1) i)" for i
    by (rule send_to_publishers [OF run cfg base1 s1 step]; auto simp: connect_def)+
  have mono: "wanted M p \<subseteq> wanted ?M1 p" "wanted ?M1 p - {spd_queue s1} \<subseteq> wanted M p" for p
    unfolding wanted_def using s len by (auto split: if_splits) (metis option.inject)
  show "manager_ok cfg M'"
  proof (rule loop_ok [OF base1 subs slots])
    fix i p assume "slot (pm_publishers ?M1) i = Some p"
    then have "publisher_ok cfg M p" using ok by (auto simp: manager_ok_def publishers_ok_def)
    with mono [of p] show "publisher_ok cfg ?M1 (connect (pc_MaxQueues cfg) s1 p)"
      by (intro connect_publisher_ok [OF base1 cfg s1 s(4)]; simp add: publisher_ok_def split: if_splits; blast)
  qed simp
  show "slot (pm_subscribers M') j = Some s1" using subs s1 by simp
qed

lemma unsubscribe_ok:
  assumes ok: "manager_ok cfg M" and cfg: "config_ok cfg" and s: "slot (pm_subscribers M) j = Some s" "same_subscriber s s1" "spd_subscriptionState s1 = NOT_SUBSCRIBED"
    and run: "sendToAllMatchingPublisherPorts cfg (unsub_message s) j (put_subscriber j s1 M) = Inr (found, M')"
  shows "manager_ok cfg M'" "slot (pm_subscribers M') j = Some s1"
proof -
  let ?M1 = "put_subscriber j s1 M"
  have len: "j < length (pm_subscribers M)" using slot_Some_length [OF s(1)] .
  have base: "base_ok cfg M" using ok by (simp add: manager_ok_def)
  have base1: "base_ok cfg ?M1" using s(3) by (intro put_subscriber_base [OF base s(1,2)]) simp
  have s1: "slot (pm_subscribers ?M1) j = Some s1" using len by simp
  have dis: "disconnect s1 p = disconnect s p" for p
    using s(2) same_subscriber_compatible [OF s(2)] by (simp add: disconnect_def same_subscriber_def)
  have step: "p' = disconnect s p \<and> is_answer r"
    if "PublisherPortRouDi_dispatchCaProMessageAndGetPossibleResponse (popo_config.truncate cfg) (unsub_message s) p P = Inr (r, p', P')"
      "isCompatiblePubSub p s1" for p P r p' P'
    using dispatch_unsub [of "popo_config.truncate cfg" s1 p P r p' P'] that same_subscriber_messages [OF s(2)] dis by simp
  have subs: "pm_subscribers M' = pm_subscribers ?M1" and slots: "slot (pm_publishers M') i = map_option (disconnect s) (slot (pm_publishers ?M1) i)" for i
    by (rule send_to_publishers [OF run cfg base1 s1 step]; auto simp: disconnect_def same_subscriber_compatible [OF s(2)])+
  show "manager_ok cfg M'"
  proof (rule loop_ok [OF base1 subs slots])
    fix i p assume "slot (pm_publishers ?M1) i = Some p"
    then have "publisher_ok cfg M p" using ok by (auto simp: manager_ok_def publishers_ok_def)
    then show "publisher_ok cfg ?M1 (disconnect s p)"
      using len s(3) by (intro disconnect_publisher_ok [OF base cfg s(1), of ?M1 s1]) simp_all
  qed simp
  show "slot (pm_subscribers M') j = Some s1" using subs s1 by simp
qed

lemma doDiscoveryForSubscriberPort_ok:
  assumes ok: "manager_ok cfg M" and cfg: "config_ok cfg" and run: "doDiscoveryForSubscriberPort cfg j M = Inr M'"
  shows "manager_ok cfg M'"
proof -
  from run obtain s where s: "slot (pm_subscribers M) j = Some s" by (auto simp: doDiscoveryForSubscriberPort_def with_subscriber_Inr)
  obtain m s1 where get: "SubscriberPort_tryGetCaProMessage cfg s = (m, s1)" by (cases "SubscriberPort_tryGetCaProMessage cfg s")
  have st: "spd_subscriptionState s \<in> {NOT_SUBSCRIBED, SUBSCRIBED}" "pc_manyToMany cfg"
    using ok s cfg by (auto simp: manager_ok_def base_ok_def config_ok_def)
  have answered: "manager_ok cfg M'"
    if m: "m = Some a" "cm_type a = SUB \<or> cm_type a = UNSUB"
      and sent: "\<And>found M2. sendToAllMatchingPublisherPorts cfg a j (put_subscriber j s1 M) = Inr (found, M2) \<Longrightarrow> manager_ok cfg M2 \<and> slot (pm_subscribers M2) j = Some s1"
    for a
  proof -
    from run m s get obtain found M2 where M2: "sendToAllMatchingPublisherPorts cfg a j (put_subscriber j s1 M) = Inr (found, M2)"
      by (auto simp: doDiscoveryForSubscriberPort_def with_subscriber_def)
    have slot2: "slot (pm_subscribers M2) j = Some s1" and ok2: "manager_ok cfg M2" using sent [OF M2] by simp_all
    have nack: "SubscriberPort_dispatch cfg (CaproMessage_ctor NACK sd CAPRO_NONE None) s1 = Inr (None, s1)" for sd
      by (rule multi_dispatch_answer [OF st(2)]) (simp add: CaproMessage_ctor_def)
    have "M' = M2"
      using run m s get M2 slot2 nack put_subscriber_same [OF slot2]
      by (auto simp: doDiscoveryForSubscriberPort_def with_subscriber_def Expects_def split: if_splits)
    with ok2 show ?thesis by simp
  qed
  from get st(2,1) show ?thesis
  proof (cases rule: subscriber_message_cases)
    case none
    with run s get put_subscriber_same [OF s] have "M' = M" by (simp add: doDiscoveryForSubscriberPort_def with_subscriber_def)
    with ok show ?thesis by simp
  next
    case sub
    with subscribe_ok [OF ok cfg s sub(2,4,3)] show ?thesis by (intro answered [of "sub_message s"]) auto
  next
    case unsub
    with unsubscribe_ok [OF ok cfg s unsub(2,4)] show ?thesis by (intro answered [of "unsub_message s"]) auto
  qed
qed

subsection \<open>Destruction and creation keep the invariant\<close>

lemma remove_publisher_ok: "manager_ok cfg M \<Longrightarrow> manager_ok cfg (removePublisherPort i M)"
proof -
  assume ok: "manager_ok cfg M"
  let ?M = "removePublisherPort i M"
  have slots: "slot (pm_publishers ?M) k = (if k = i then None else slot (pm_publishers M) k)" for k
    by (simp add: removePublisherPort_def slot_erase)
  have subs: "pm_subscribers ?M = pm_subscribers M" by (simp add: removePublisherPort_def)
  have same: "publisher_ok cfg ?M q = publisher_ok cfg M q" for q by (rule publisher_ok_cong) (simp_all add: subs)
  have "base_ok cfg ?M"
    by (rule base_ok_publishers [OF _ subs, of cfg]) (use ok base_ok_interface [of cfg M] in \<open>auto simp: manager_ok_def slots split: if_splits\<close>)
  then show ?thesis using ok by (simp add: manager_ok_def publishers_ok_def same slots)
qed

lemma destroyPublisherPort_ok:
  assumes ok: "manager_ok cfg M" and cfg: "config_ok cfg" and run: "destroyPublisherPort cfg i M = Inr M'"
  shows "manager_ok cfg M'"
proof -
  from run obtain p m p1 where p: "slot (pm_publishers M) i = Some p"
    and get: "PublisherPortRouDi_tryGetCaProMessage (PublisherPortUser_stopOffer p) = Inr (m, p1)"
    by (auto simp: destroyPublisherPort_def with_publisher_Inr)
  let ?p0 = "PublisherPortUser_stopOffer p"
  let ?M1 = "put_publisher i p1 M"
  have len: "i < length (pm_publishers M)" using slot_Some_length [OF p] .
  have p0: "publisher_equiv p ?p0" by (rule publisher_user_equiv)
  have put: "put_publisher i p1 (put_publisher i ?p0 M) = ?M1" by (simp add: put_publisher_def)
  have ok0: "manager_ok cfg (put_publisher i ?p0 M)" using put_publisher_equiv(2) [OF p p0] ok by (rule manager_equiv_manager_ok)
  have slot0: "slot (pm_publishers (put_publisher i ?p0 M)) i = Some ?p0" using len by simp
  obtain M4 P5 where M4: "(case m of None \<Rightarrow> Inr ?M1 | Some a \<Rightarrow>
        Expects (cm_type a = STOP_OFFER)
          (obind (removePublisherFromServiceRegistry cfg (cm_serviceDescription a) ?M1) (\<lambda>M2.
           obind (sendToAllMatchingSubscriberPorts cfg a i M2) (\<lambda>M3. sendToAllMatchingInterfacePorts cfg a M3)))) = Inr M4"
    and M': "M' = removePublisherPort i (M4\<lparr> pm_popo := P5 \<rparr>)"
    using run p get by (auto simp: destroyPublisherPort_def with_publisher_Inr Let_def)
  have "manager_ok cfg M4"
    using get
  proof (cases rule: publisher_message_cases)
    case none
    with M4 put ok0 show ?thesis by (simp add: put_publisher_def)
  next
    case (offer a)
    then show ?thesis by (simp add: PublisherPortUser_stopOffer_def split: if_splits)
  next
    case (stop a)
    have "manager_ok cfg ?M1"
      using manager_ok_insert [OF put_publisher_ok [OF ok0 slot0 stop(7)]] len stop by (simp add: stopped_publisher_ok put)
    moreover have "manager_equiv ?M1 M4"
      using M4 stop len by (intro stop_offer_ok [OF calculation cfg, of i p1 a]) (simp_all add: Expects_def)
    ultimately show ?thesis using manager_equiv_manager_ok by blast
  qed
  then show ?thesis unfolding M' by (intro remove_publisher_ok) simp
qed

lemma remove_subscriber_ok:
  assumes ok: "manager_ok cfg M" and s: "slot (pm_subscribers M) j = Some s" "\<not> subscribed s"
  shows "manager_ok cfg (removeSubscriberPort cfg j M)"
proof -
  let ?M = "removeSubscriberPort cfg j M"
  have pubs: "pm_publishers ?M = pm_publishers M" by (simp add: removeSubscriberPort_def)
  have slots: "slot (pm_subscribers ?M) k = (if k = j then None else slot (pm_subscribers M) k)" for k
    by (simp add: removeSubscriberPort_def slot_erase)
  have "length (pm_subscribers ?M) = length (pm_subscribers M)" by (simp add: removeSubscriberPort_def container_erase_def)
  then have "base_ok cfg ?M" using ok by (auto simp: manager_ok_def base_ok_def internal_ports_def slots pubs)
  moreover have "wanted ?M p = wanted M p" for p using s unfolding wanted_def slots by (auto split: if_splits) (metis option.inject)
  then have "publisher_ok cfg ?M p = publisher_ok cfg M p" for p by (simp only: publisher_ok_def)
  then have "publishers_ok cfg {} ?M" using ok by (simp add: manager_ok_def publishers_ok_def pubs)
  ultimately show ?thesis by (simp add: manager_ok_def)
qed

lemma destroySubscriberPort_ok:
  assumes ok: "manager_ok cfg M" and cfg: "config_ok cfg" and run: "destroySubscriberPort cfg j M = Inr M'"
  shows "manager_ok cfg M'"
proof -
  from run obtain s where s: "slot (pm_subscribers M) j = Some s" by (auto simp: destroySubscriberPort_def with_subscriber_Inr)
  let ?s0 = "SubscriberPortUser_unsubscribe s"
  obtain m s1 where get: "SubscriberPort_tryGetCaProMessage cfg ?s0 = (m, s1)" by (cases "SubscriberPort_tryGetCaProMessage cfg ?s0")
  let ?M1 = "put_subscriber j s1 M"
  have len: "j < length (pm_subscribers M)" using slot_Some_length [OF s] .
  have s0: "same_subscriber s ?s0" "spd_subscriptionState ?s0 = spd_subscriptionState s" "\<not> spd_subscribeRequested ?s0"
    by (simp_all add: SubscriberPortUser_unsubscribe_def same_subscriber_def)
  have put: "put_subscriber j s1 (put_subscriber j ?s0 M) = ?M1" by (simp add: put_subscriber_def)
  have ok0: "manager_ok cfg (put_subscriber j ?s0 M)" by (rule put_subscriber_ok [OF ok s s0(1,2)])
  have slot0: "slot (pm_subscribers (put_subscriber j ?s0 M)) j = Some ?s0" using len by simp
  have st: "spd_subscriptionState ?s0 \<in> {NOT_SUBSCRIBED, SUBSCRIBED}" "pc_manyToMany cfg"
    using ok s cfg s0(2) by (auto simp: manager_ok_def base_ok_def config_ok_def)
  obtain M2 P3 where M2: "(case m of None \<Rightarrow> Inr ?M1 | Some a \<Rightarrow>
       Expects (cm_type a = UNSUB) (obind (sendToAllMatchingPublisherPorts cfg a j ?M1) (\<lambda>(_, M2). Inr M2))) = Inr M2"
    and M': "M' = removeSubscriberPort cfg j (M2\<lparr> pm_popo := P3 \<rparr>)"
    using run s get by (auto simp: destroySubscriberPort_def with_subscriber_Inr Let_def)
  have "manager_ok cfg M2 \<and> (\<exists>s2. slot (pm_subscribers M2) j = Some s2 \<and> \<not> subscribed s2)"
    using get st(2,1)
  proof (cases rule: subscriber_message_cases)
    case none
    with M2 ok0 s0 slot0 show ?thesis by auto
  next
    case sub
    with s0(3) show ?thesis by simp
  next
    case unsub
    with M2 obtain found where f: "sendToAllMatchingPublisherPorts cfg (unsub_message ?s0) j ?M1 = Inr (found, M2)"
      by (auto simp: Expects_def)
    from unsubscribe_ok [OF ok0 cfg slot0 unsub(2,4), unfolded put, OF f] unsub(3) show ?thesis by simp
  qed
  then show ?thesis unfolding M' by (auto intro!: remove_subscriber_ok)
qed

lemma publishers_loop_ok: "publishers_loop cfg is M = Inr M' \<Longrightarrow> manager_ok cfg M \<Longrightarrow> config_ok cfg \<Longrightarrow> manager_ok cfg M'"
  by (induction "is" arbitrary: M)
    (auto simp: with_publisher_Inr split: if_splits dest: doDiscoveryForPublisherPort_ok destroyPublisherPort_ok)

lemma subscribers_loop_ok: "subscribers_loop cfg js M = Inr M' \<Longrightarrow> manager_ok cfg M \<Longrightarrow> config_ok cfg \<Longrightarrow> manager_ok cfg M'"
  by (induction js arbitrary: M)
    (auto simp: with_subscriber_Inr split: if_splits dest: doDiscoveryForSubscriberPort_ok destroySubscriberPort_ok)

lemma stop_offer_loop_ok: "stop_offer_loop cfg is M = Inr M' \<Longrightarrow> manager_ok cfg M \<Longrightarrow> config_ok cfg \<Longrightarrow> manager_ok cfg M'"
proof (induction "is" arbitrary: M)
  case (Cons i "is")
  then obtain p M1 where p: "slot (pm_publishers M) i = Some p"
    and M1: "doDiscoveryForPublisherPort cfg i (put_publisher i (p\<lparr> ppd_offeringRequested := False \<rparr>) M) = Inr M1" "stop_offer_loop cfg is M1 = Inr M'"
    by (auto simp: with_publisher_Inr)
  have "publisher_equiv p (p\<lparr> ppd_offeringRequested := False \<rparr>)" by (simp add: publisher_equiv_def same_publisher_def)
  from manager_equiv_manager_ok [OF put_publisher_equiv(2) [OF p this] Cons.prems(2)]
  show ?case using doDiscoveryForPublisherPort_ok [OF _ Cons.prems(3) M1(1)] Cons.IH [OF M1(2)] Cons.prems(3) by blast
qed simp

lemma insert_publisher_ok:
  assumes ok: "manager_ok cfg M" and new: "container_insert p (pm_publishers M) = (i, ps)"
    and p: "\<not> ppd_offered p" "pqueues p = []" "port_interface p = INTERNAL"
  shows "manager_ok cfg (M\<lparr> pm_publishers := ps \<rparr>)"
proof -
  let ?M = "M\<lparr> pm_publishers := ps \<rparr>"
  have slots: "slot ps k = (if k = i then Some p else slot (pm_publishers M) k)" for k
    using slot_insert(3) [OF new] .
  have same: "publisher_ok cfg ?M q = publisher_ok cfg M q" for q by (rule publisher_ok_cong) simp_all
  have base: "base_ok cfg M" using ok by (simp add: manager_ok_def)
  have "base_ok cfg ?M" using p(3) base_ok_interface [OF base] slots by (intro base_ok_publishers [OF base]) (auto split: if_splits)
  then show ?thesis using ok p(1,2) by (auto simp: manager_ok_def publishers_ok_def same slots stopped_publisher_ok split: if_splits)
qed

lemma manager_ok_fields:
  "manager_ok cfg (M\<lparr> pm_internalServices := is \<rparr>) = manager_ok cfg M"
  by (simp add: manager_ok_def base_ok_def internal_ports_def publishers_ok_def publisher_ok_def wanted_def)

lemma addPublisherPort_ok:
  assumes ok: "manager_ok cfg M" and sd: "sd_interfaceSource sd = INTERNAL"
    and run: "addPublisherPort cfg sd name options uid indices M = Inr (r, M')"
  shows "manager_ok cfg M'"
proof (cases "hasFreeSpace (pmc_MAX_PUBLISHERS cfg) (pm_publishers M)")
  case True
  with run obtain p S' i ps where p: "PublisherPortData_ctor (popo_config.truncate cfg) sd name options uid indices (ps_shm (pm_popo M)) = Inr (p, S')"
    and i: "container_insert p (pm_publishers M) = (i, ps)" and M': "M' = M\<lparr> pm_publishers := ps, pm_popo := (pm_popo M)\<lparr> ps_shm := S' \<rparr> \<rparr>"
    by (auto simp: addPublisherPort_def returns)
  have "\<not> ppd_offered p" "pqueues p = []" "port_interface p = INTERNAL"
    using p sd by (auto simp: PublisherPortData_ctor_def ChunkSenderData_ctor_def ChunkDistributorData_ctor_def)
  from insert_publisher_ok [OF ok i this] show ?thesis by (simp add: M')
next
  case False
  with run ok show ?thesis by (simp add: addPublisherPort_def)
qed

lemma acquirePublisherPortData_ok:
  assumes ok: "manager_ok cfg M" and cfg: "config_ok cfg" and sd: "sd_interfaceSource sd = INTERNAL"
    and run: "acquirePublisherPortData cfg sd options name uid indices M = Inr (r, M')"
  shows "manager_ok cfg M'"
proof -
  from run obtain r1 M1 where M1: "acquirePublisherPortDataWithoutDiscovery cfg sd options name uid indices M = Inr (r1, M1)"
    and M': "M' = M1 \<or> (\<exists>i. doDiscoveryForPublisherPort cfg i M1 = Inr M')"
    by (auto simp: acquirePublisherPortData_def returns)
  have "manager_ok cfg M1"
    using M1 cfg ok by (auto simp: acquirePublisherPortDataWithoutDiscovery_def doesViolateCommunicationPolicy_def config_ok_def returns
        manager_ok_fields dest!: addPublisherPort_ok [OF _ sd, rotated] split: if_splits)
  with M' cfg show ?thesis by (auto dest: doDiscoveryForPublisherPort_ok)
qed

lemma addSubscriberPort_ok:
  assumes ok: "manager_ok cfg M" and sd: "sd_interfaceSource sd = INTERNAL"
    and run: "addSubscriberPort cfg sd name options uid qid indices M = Inr (r, M')"
  shows "manager_ok cfg M'"
proof (cases "hasFreeSpace (pmc_MAX_SUBSCRIBERS cfg) (pm_subscribers M)")
  case True
  let ?q = "pmc_queueAddress cfg (first_free (pm_subscribers M))"
  from True run obtain s P' j ss where s: "SubscriberPortData_ctor (popo_config.truncate cfg) sd name
       (subscriber_queue_type (pc_manyToMany cfg) (so_queueFullPolicy options)) options uid qid ?q indices (pm_popo M) = Inr (s, P')"
    and j: "container_insert s (pm_subscribers M) = (j, ss)" and M': "M' = M\<lparr> pm_subscribers := ss, pm_popo := P' \<rparr>"
    by (auto simp: addSubscriberPort_def returns)
  have new: "\<not> subscribed s" "spd_subscriptionState s = NOT_SUBSCRIBED" "spd_queue s = ?q" "port_interface s = INTERNAL"
    using s sd by (auto simp: SubscriberPortData_ctor_def ChunkReceiverData_ctor_def)
  note ins = slot_insert [OF j]
  have slots: "slot (pm_subscribers M') k = (if k = j then Some s else slot (pm_subscribers M) k)" for k using ins(3) by (simp add: M')
  have pubs: "pm_publishers M' = pm_publishers M" by (simp add: M')
  have "length ss \<le> pmc_MAX_SUBSCRIBERS cfg"
  proof (cases "first_free (pm_subscribers M) < length (pm_subscribers M)")
    case False
    then have "length (pm_subscribers M) < pmc_MAX_SUBSCRIBERS cfg" using True first_free_full by (fastforce simp: hasFreeSpace_def split: if_splits)
    with False j show ?thesis by (auto simp: container_insert_def Let_def)
  qed (use j ok in \<open>auto simp: container_insert_def manager_ok_def base_ok_def Let_def\<close>)
  then have "base_ok cfg M'"
    using ok new ins(1) slots pubs by (auto simp: manager_ok_def base_ok_def internal_ports_def M' split: if_splits)
  moreover have "wanted M' p = wanted M p" for p
    using new(1) ins(2) unfolding wanted_def slots by (auto split: if_splits) (metis option.distinct(1))
  then have "publisher_ok cfg M' p = publisher_ok cfg M p" for p by (simp only: publisher_ok_def)
  then have "publishers_ok cfg {} M'" using ok by (simp add: manager_ok_def publishers_ok_def pubs)
  ultimately show ?thesis by (simp add: manager_ok_def)
next
  case False
  with run ok show ?thesis by (simp add: addSubscriberPort_def)
qed

lemma acquireSubscriberPortData_ok:
  assumes ok: "manager_ok cfg M" and cfg: "config_ok cfg" and sd: "sd_interfaceSource sd = INTERNAL"
    and run: "acquireSubscriberPortData cfg sd options name uid qid indices M = Inr (r, M')"
  shows "manager_ok cfg M'"
proof -
  from run obtain r1 M1 where M1: "addSubscriberPort cfg sd name options uid qid indices M = Inr (r1, M1)"
    and M': "M' = M1 \<or> (\<exists>j. doDiscoveryForSubscriberPort cfg j M1 = Inr M')"
    by (auto simp: acquireSubscriberPortData_def returns)
  from M' doDiscoveryForSubscriberPort_ok [OF addSubscriberPort_ok [OF ok sd M1] cfg] addSubscriberPort_ok [OF ok sd M1] show ?thesis by blast
qed

subsection \<open>All runs\<close>

text \<open>
  The operations of an application on its ports, which run between those of RouDi. A send is one step, so the
  runs have no publisher that waits in a send for a full blocking queue.
\<close>

inductive publisher_user_step :: "popo_config \<Rightarrow> publisher_port_data \<times> popo_state \<Rightarrow> publisher_port_data \<times> popo_state \<Rightarrow> bool" for cfg where
  user_offer: "publisher_user_step cfg (p, P) (PublisherPortUser_offer p, P)"
| user_stopOffer: "publisher_user_step cfg (p, P) (PublisherPortUser_stopOffer p, P)"
| user_destroy: "publisher_user_step cfg (p, P) (destroy p, P)"
| user_tryAllocate: "PublisherPortUser_tryAllocateChunk cfg us ua hs ha p P = Inr (r, p', P') \<Longrightarrow> publisher_user_step cfg (p, P) (p', P')"
| user_send: "PublisherPortUser_sendChunk cfg [] c p P = Inr (p', P') \<Longrightarrow> publisher_user_step cfg (p, P) (p', P')"
| user_release: "PublisherPortUser_releaseChunk cfg c p P = Inr (p', P') \<Longrightarrow> publisher_user_step cfg (p, P) (p', P')"

inductive subscriber_user_step :: "popo_config \<Rightarrow> subscriber_port_data \<times> popo_state \<Rightarrow> subscriber_port_data \<times> popo_state \<Rightarrow> bool" for cfg where
  user_subscribe: "SubscriberPortUser_subscribe cfg s P = Inr (s', P') \<Longrightarrow> subscriber_user_step cfg (s, P) (s', P')"
| user_unsubscribe: "subscriber_user_step cfg (s, P) (SubscriberPortUser_unsubscribe s, P)"
| user_destroySubscriber: "subscriber_user_step cfg (s, P) (destroy s, P)"
| user_tryGet: "SubscriberPortUser_tryGetChunk cfg s P = Inr (r, s', P') \<Longrightarrow> subscriber_user_step cfg (s, P) (s', P')"
| user_releaseChunk: "SubscriberPortUser_releaseChunk cfg c s P = Inr (s', P') \<Longrightarrow> subscriber_user_step cfg (s, P) (s', P')"
| user_releaseQueued: "SubscriberPortUser_releaseQueuedChunks cfg s P = Inr P' \<Longrightarrow> subscriber_user_step cfg (s, P) (s, P')"
| user_hasLost: "SubscriberPortUser_hasLostChunksSinceLastCall s P = Inr (lost, P') \<Longrightarrow> subscriber_user_step cfg (s, P) (s, P')"

text \<open>A step of RouDi or of an application. No gateway is connected: all services are internal.\<close>

inductive pm_step :: "'a port_manager_config_scheme \<Rightarrow> port_manager \<Rightarrow> port_manager \<Rightarrow> bool" for cfg where
  step_acquirePublisher: "acquirePublisherPortData cfg sd options name uid indices M = Inr (r, M') \<Longrightarrow> sd_interfaceSource sd = INTERNAL \<Longrightarrow> pm_step cfg M M'"
| step_acquireSubscriber: "acquireSubscriberPortData cfg sd soptions name uid qid indices M = Inr (r, M') \<Longrightarrow> sd_interfaceSource sd = INTERNAL \<Longrightarrow> pm_step cfg M M'"
| step_handlePublishers: "handlePublisherPorts cfg M = Inr M' \<Longrightarrow> pm_step cfg M M'"
| step_handleSubscribers: "handleSubscriberPorts cfg M = Inr M' \<Longrightarrow> pm_step cfg M M'"
| step_stopOffers: "makeAllPublisherPortsToStopOffer cfg M = Inr M' \<Longrightarrow> pm_step cfg M M'"
| step_destroyPublisher: "destroyPublisherPort cfg i M = Inr M' \<Longrightarrow> pm_step cfg M M'"
| step_destroySubscriber: "destroySubscriberPort cfg j M = Inr M' \<Longrightarrow> pm_step cfg M M'"
| step_publisher: "slot (pm_publishers M) i = Some p \<Longrightarrow> publisher_user_step (popo_config.truncate cfg) (p, pm_popo M) (p', P') \<Longrightarrow>
    pm_step cfg M ((put_publisher i p' M)\<lparr> pm_popo := P' \<rparr>)"
| step_subscriber: "slot (pm_subscribers M) j = Some s \<Longrightarrow> subscriber_user_step (popo_config.truncate cfg) (s, pm_popo M) (s', P') \<Longrightarrow>
    pm_step cfg M ((put_subscriber j s' M)\<lparr> pm_popo := P' \<rparr>)"

lemma publisher_user_step_equiv: "publisher_user_step cfg (p, P) (p', P') \<Longrightarrow> publisher_equiv p p'"
  by (auto elim!: publisher_user_step.cases intro: publisher_user_equiv)

lemma subscriber_user_step_same:
  assumes "subscriber_user_step cfg (s, P) (s', P')"
  shows "same_subscriber s s'" "spd_subscriptionState s' = spd_subscriptionState s"
  using assms by (auto elim!: subscriber_user_step.cases simp: same_subscriber_def SubscriberPortUser_subscribe_def
      SubscriberPortUser_unsubscribe_def destroy_def SubscriberPortUser_tryGetChunk_def SubscriberPortUser_releaseChunk_def
      ChunkReceiver_tryGet_def ChunkReceiver_release_def returns)

lemma pm_step_ok: "pm_step cfg M M' \<Longrightarrow> config_ok cfg \<Longrightarrow> manager_ok cfg M \<Longrightarrow> manager_ok cfg M'"
proof (induction rule: pm_step.induct)
  case (step_publisher M i p p' P')
  then show ?case using manager_equiv_manager_ok [OF put_publisher_equiv(1) [OF step_publisher.hyps(1) publisher_user_step_equiv]] by blast
next
  case (step_subscriber M j s s' P')
  then show ?case using put_subscriber_ok [OF _ step_subscriber.hyps(1) subscriber_user_step_same] by (auto simp: manager_ok_popo)
qed (auto simp: handlePublisherPorts_def handleSubscriberPorts_def makeAllPublisherPortsToStopOffer_def
    intro: acquirePublisherPortData_ok acquireSubscriberPortData_ok publishers_loop_ok subscribers_loop_ok stop_offer_loop_ok
      destroyPublisherPort_ok destroySubscriberPort_ok)

definition pm_initial :: "port_manager \<Rightarrow> bool" where
  "pm_initial M \<longleftrightarrow> pm_publishers M = [] \<and> pm_subscribers M = []"

lemma reachable_manager_ok:
  assumes "(pm_step cfg)\<^sup>*\<^sup>* M0 M" "pm_initial M0" "config_ok cfg"
  shows "manager_ok cfg M"
  using assms(1)
proof (induction rule: rtranclp_induct)
  case base
  from assms(2) show ?case by (simp add: pm_initial_def manager_ok_def base_ok_def internal_ports_def publishers_ok_def slot_def)
next
  case (step M M')
  from pm_step_ok [OF step.hyps(2) assms(3) step.IH] show ?case .
qed

subsection \<open>An example\<close>

text \<open>The loops of the queues are evaluated with their equations.\<close>

declare setCapacity_loop.simps [code] increaseCapacity.simps [code] decreaseCapacity.simps [code] decrease_free.simps [code] decrease_used.simps [code]
  acquire_index.simps [code] IndexQueue_push_loop.simps [code] IndexQueue_pop_loop.simps [code] clear_loop.simps [code] UsedChunkList_find.simps [code]

definition example_pm_config :: port_manager_config where
  "example_pm_config = \<lparr> pc_manyToMany = True, pc_MaxAlloc = 2, pc_MaxHeld = 2, pc_Capacity = 2, pc_MaxQueues = 2, pc_MaxHistory = 2,
     pmc_queueAddress = (\<lambda>j. of_nat j), pmc_MAX_PUBLISHERS = 2, pmc_MAX_SUBSCRIBERS = 2, pmc_registryCapacity = 4,
     pmc_sizeofServiceRegistry = 8, pmc_alignofServiceRegistry = 8, pmc_interfaceFifoSize = 2, pmc_roudiName = ''roudi'',
     pmc_NUMBER_OF_INTERNAL_PUBLISHERS = 1 \<rparr>"

definition example_manager :: port_manager where
  "example_manager = \<lparr> pm_publishers = [], pm_subscribers = [], pm_interfaces = [], pm_serviceRegistry = ServiceRegistry_ctor 4,
     pm_serviceRegistryPublisherPortData = None, pm_internalServices = [],
     pm_popo = \<lparr> ps_shm = \<lparr> shm_manager = MemoryManager_ctor, shm_headers = Map.empty, shm_offsets = (\<lambda>_. 0), shm_managements = Map.empty \<rparr>,
       ps_queues = Map.empty, ps_condvars = Map.empty \<rparr> \<rparr>"

definition example_publisher_options :: publisher_options where
  "example_publisher_options = \<lparr> po_historyCapacity = 0, po_nodeName = '''', po_offerOnCreate = True, po_subscriberTooSlowPolicy = DISCARD_OLDEST_DATA_OF_CONSUMER \<rparr>"

definition example_subscriber_options :: subscriber_options where
  "example_subscriber_options = \<lparr> so_queueCapacity = 2, so_historyRequest = 0, so_nodeName = '''', so_subscribeOnCreate = True,
     so_queueFullPolicy = DISCARD_OLDEST_DATA, so_requiresPublisherHistorySupport = False \<rparr>"

text \<open>An application creates a publisher and a subscriber of one service.\<close>

definition example_published :: port_manager where
  "example_published = snd (projr (acquirePublisherPortData example_pm_config (example_service ''a'') example_publisher_options ''app'' 1 [0, 0] example_manager))"

definition example_connected :: port_manager where
  "example_connected = snd (projr (acquireSubscriberPortData example_pm_config (example_service ''a'') example_subscriber_options ''app'' 2 20 [0, 0] example_published))"

lemma example_run: "(pm_step example_pm_config)\<^sup>*\<^sup>* example_manager example_connected"
proof -
  let ?r1 = "acquirePublisherPortData example_pm_config (example_service ''a'') example_publisher_options ''app'' 1 [0, 0] example_manager"
  let ?r2 = "acquireSubscriberPortData example_pm_config (example_service ''a'') example_subscriber_options ''app'' 2 20 [0, 0] example_published"
  have int: "sd_interfaceSource (example_service ''a'') = INTERNAL" by (simp add: example_service_def ServiceDescription_ctor_def)
  have "\<not> isl ?r1" by code_simp
  then have "?r1 = Inr (fst (projr ?r1), example_published)" by (simp add: example_published_def sum.expand)
  then have "pm_step example_pm_config example_manager example_published" using int by (rule step_acquirePublisher)
  moreover have "\<not> isl ?r2" by code_simp
  then have "?r2 = Inr (fst (projr ?r2), example_connected)" by (simp add: example_connected_def sum.expand)
  then have "pm_step example_pm_config example_published example_connected" using int by (rule step_acquireSubscriber)
  ultimately show ?thesis by simp
qed

lemma example_pm_config_ok: "config_ok example_pm_config" "pmc_MAX_SUBSCRIBERS example_pm_config \<le> pc_MaxQueues example_pm_config" "pm_initial example_manager"
proof -
  have "(of_nat i :: u64) = of_nat j \<Longrightarrow> i < 2 \<Longrightarrow> j < 2 \<Longrightarrow> i = j" for i j
    by (auto simp: less_2_cases_iff)
  then show "config_ok example_pm_config" by (auto simp: config_ok_def example_pm_config_def inj_on_def)
qed (simp_all add: example_pm_config_def pm_initial_def example_manager_def)

lemma example_ports:
  obtains p s where "slot (pm_publishers example_connected) 0 = Some p" "slot (pm_subscribers example_connected) 0 = Some s"
    "pqueues p = [0]" "ppd_offered p" "subscribed s" "spd_queue s = 0" "isCompatiblePubSub p s"
proof -
  have "(case (slot (pm_publishers example_connected) 0, slot (pm_subscribers example_connected) 0) of
      (Some p, Some s) \<Rightarrow> pqueues p = [0] \<and> ppd_offered p \<and> subscribed s \<and> spd_queue s = 0 \<and> isCompatiblePubSub p s | _ \<Rightarrow> False)"
    by code_simp
  with that show thesis by (auto split: option.splits)
qed

subsection \<open>The properties\<close>

text \<open>
  C29: in every state that RouDi and the applications can reach, with the many-to-many policy and without gateways, the
  queues that a publisher delivers to are queues of live subscribers: each is the queue of a port in the pool that is
  compatible with the publisher and is subscribed, none is there twice, and a publisher that is not offered
  delivers to no queue. So no chunk is pushed into the queue of a destroyed subscriber.
\<close>

theorem no_dangling_connection:
  assumes "(pm_step cfg)\<^sup>*\<^sup>* M0 M" "pm_initial M0" "config_ok cfg"
    and "slot (pm_publishers M) i = Some p" "q \<in> set (pqueues p)"
  shows "ppd_offered p \<and> distinct (pqueues p) \<and> (\<exists>j s. slot (pm_subscribers M) j = Some s \<and> q = spd_queue s \<and>
    q = pmc_queueAddress cfg j \<and> spd_subscriptionState s = SUBSCRIBED \<and> isCompatiblePubSub p s)"
proof -
  have ok: "manager_ok cfg M" by (rule reachable_manager_ok [OF assms(1-3)])
  then have p: "publisher_ok cfg M p" using assms(4) by (auto simp: manager_ok_def publishers_ok_def)
  with assms(5) have off: "ppd_offered p" "q \<in> wanted M p" "distinct (pqueues p)" by (auto simp: publisher_ok_def split: if_splits)
  with ok show ?thesis by (auto simp: wanted_def manager_ok_def base_ok_def)
qed

lemma no_dangling_connection_witness:
  "\<exists>p. slot (pm_publishers example_connected) 0 = Some p \<and> pqueues p = [0] \<and> ppd_offered p \<and>
     (\<exists>j s. slot (pm_subscribers example_connected) j = Some s \<and> (0::address) = spd_queue s \<and> spd_subscriptionState s = SUBSCRIBED \<and> isCompatiblePubSub p s)"
proof -
  obtain p where p: "slot (pm_publishers example_connected) 0 = Some p" "pqueues p = [0]" by (rule example_ports)
  from no_dangling_connection [OF example_run example_pm_config_ok(3,1) p(1), of 0] p show ?thesis by auto
qed

text \<open>
  C30: conversely, with the same policy, without gateways and when RouDi's limit on the subscribers of a publisher admits all subscribers of the system, every offered publisher is
  connected to every compatible subscriber that is subscribed, whatever order the ports were created, offered and subscribed in.
\<close>

theorem connections_complete:
  assumes "(pm_step cfg)\<^sup>*\<^sup>* M0 M" "pm_initial M0" "config_ok cfg" "pmc_MAX_SUBSCRIBERS cfg \<le> pc_MaxQueues cfg"
    and "slot (pm_publishers M) i = Some p" "ppd_offered p"
    and "slot (pm_subscribers M) j = Some s" "spd_subscriptionState s = SUBSCRIBED" "isCompatiblePubSub p s"
  shows "spd_queue s \<in> set (pqueues p)"
proof -
  have "publisher_ok cfg M p" using reachable_manager_ok [OF assms(1-3)] assms(5) by (auto simp: manager_ok_def publishers_ok_def)
  moreover have "spd_queue s \<in> wanted M p" using assms(7-9) by (auto simp: wanted_def)
  ultimately show ?thesis using assms(4,6) by (auto simp: publisher_ok_def)
qed

lemma connections_complete_witness:
  "\<exists>p s. slot (pm_publishers example_connected) 0 = Some p \<and> slot (pm_subscribers example_connected) 0 = Some s \<and> spd_queue s = 0 \<and> spd_queue s \<in> set (pqueues p)"
proof -
  obtain p s where p: "slot (pm_publishers example_connected) 0 = Some p" "slot (pm_subscribers example_connected) 0 = Some s"
    "ppd_offered p" "subscribed s" "spd_queue s = 0" "isCompatiblePubSub p s" by (rule example_ports)
  from connections_complete [OF example_run example_pm_config_ok(3,1,2) p(1,3,2,4,6)] p show ?thesis by blast
qed

subsection \<open>Gateways\<close>

text \<open>
  The loops over the ports leave with \<open>break\<close> at the first gateway port that has the interface of the message, where the comment asks to skip it.
  A gateway publishes, a subscriber of the gateway requests the service \<open>a\<close>, then \<open>a\<close> is published. When the subscriber is destroyed, its
  request to unsubscribe does not reach the publisher of \<open>a\<close>.
\<close>

definition gateway_run :: "port_manager outcome" where
  "gateway_run =
     obind (acquirePublisherPortData example_pm_config ((example_service ''g'')\<lparr> sd_interfaceSource := DDS \<rparr>) example_publisher_options ''gw'' 1 [0, 0] example_manager) (\<lambda>(_, M1).
     obind (acquireSubscriberPortData example_pm_config ((example_service ''a'')\<lparr> sd_interfaceSource := DDS \<rparr>) example_subscriber_options ''gw'' 2 20 [0, 0] M1) (\<lambda>(_, M2).
     obind (acquirePublisherPortData example_pm_config (example_service ''a'') example_publisher_options ''app'' 3 [0, 0] M2) (\<lambda>(_, M3).
     destroySubscriberPort example_pm_config 0 M3)))"

text \<open>
  C31: in this run with a gateway the publisher of \<open>a\<close> keeps the queue of the destroyed subscriber: the queue at address 0 is in its list although
  neither the port nor the queue exists any more.
\<close>

theorem gateway_leaves_dangling_queue:
  "\<exists>M p. gateway_run = Inr M \<and> slot (pm_publishers M) 1 = Some p \<and> pqueues p = [0] \<and> slot (pm_subscribers M) 0 = None \<and> ps_queues (pm_popo M) 0 = None"
proof -
  have "(case gateway_run of Inr M \<Rightarrow> (case slot (pm_publishers M) 1 of Some p \<Rightarrow> pqueues p = [0] \<and> slot (pm_subscribers M) 0 = None \<and>
      ps_queues (pm_popo M) 0 = None | None \<Rightarrow> False) | Inl _ \<Rightarrow> False)" by code_simp
  then show ?thesis by (auto split: sum.splits option.splits)
qed

end
