(* ===== verification/Client_Server_Ports.thy ===== *)
theory Client_Server_Ports
  imports Pub_Sub_Ports
begin

section \<open>Client and server ports\<close>

text \<open>
  \<open>popo::RpcBaseHeader\<close>, \<open>RequestHeader\<close>, \<open>ResponseHeader\<close>, \<open>popo::ClientPortUser\<close>, \<open>popo::ClientPortRouDi\<close>,
  \<open>popo::ServerPortUser\<close> and \<open>popo::ServerPortRouDi\<close>: request and response. A client sends its requests
  into the queue of the server, the server sends a response into the queue whose identifier is in the
  header of the request. The headers are the user headers of the chunks: \<open>rs_headers\<close> is the memory of them, by address.
\<close>

record rpc_config =
  rc_MaxRequestsAllocated :: u32
  rc_MaxResponsesHeld :: u32
  rc_ResponseCapacity :: u64
  rc_MaxResponsesAllocated :: u32
  rc_MaxRequestsHeld :: u32
  rc_RequestCapacity :: u64
  rc_MaxClientsPerServer :: nat

subsection \<open>The headers\<close>

text \<open>
  \<open>rh_hasServerError\<close> is a member of a \<open>ResponseHeader\<close> only. \<open>rh_sequenceId\<close> holds the 64 bits of the
  \<open>int64_t\<close>, whose value is \<open>sint\<close> of it; the ports only copy it.
\<close>

record rpc_header =
  rh_rpcHeaderVersion :: u8
  rh_lastKnownClientQueueIndex :: u32
  rh_uniqueClientQueueId :: u64
  rh_sequenceId :: u64
  rh_hasServerError :: "bool option"

record rpc_state =
  rs_popo :: popo_state
  rs_headers :: "address \<rightharpoonup> rpc_header"

definition RPC_HEADER_VERSION :: u8 where "RPC_HEADER_VERSION = 1"
definition UNKNOWN_CLIENT_QUEUE_INDEX :: u32 where "UNKNOWN_CLIENT_QUEUE_INDEX = - 1"
definition START_SEQUENCE_ID :: u64 where "START_SEQUENCE_ID = 0"

text \<open>The sizes of the two classes.\<close>

definition SIZEOF_RequestHeader :: u32 where "SIZEOF_RequestHeader = 24"
definition SIZEOF_ResponseHeader :: u32 where "SIZEOF_ResponseHeader = 32"
definition ALIGNOF_RpcHeader :: u32 where "ALIGNOF_RpcHeader = 8"

definition RpcBaseHeader_ctor :: "u64 \<Rightarrow> u32 \<Rightarrow> u64 \<Rightarrow> u8 \<Rightarrow> bool option \<Rightarrow> rpc_header" where
  "RpcBaseHeader_ctor uniqueClientQueueId lastKnownClientQueueIndex sequenceId rpcHeaderVersion hasServerError =
     \<lparr> rh_rpcHeaderVersion = rpcHeaderVersion, rh_lastKnownClientQueueIndex = lastKnownClientQueueIndex,
       rh_uniqueClientQueueId = uniqueClientQueueId, rh_sequenceId = sequenceId, rh_hasServerError = hasServerError \<rparr>"

definition RequestHeader_ctor :: "u64 \<Rightarrow> u32 \<Rightarrow> rpc_header" where
  "RequestHeader_ctor uniqueClientQueueId lastKnownClientQueueIndex =
     RpcBaseHeader_ctor uniqueClientQueueId lastKnownClientQueueIndex START_SEQUENCE_ID RPC_HEADER_VERSION None"

definition ResponseHeader_ctor :: "u64 \<Rightarrow> u32 \<Rightarrow> u64 \<Rightarrow> rpc_header" where
  "ResponseHeader_ctor uniqueClientQueueId lastKnownClientQueueIndex sequenceId =
     RpcBaseHeader_ctor uniqueClientQueueId lastKnownClientQueueIndex sequenceId RPC_HEADER_VERSION (Some False)"

text \<open>The access to the object at an address.\<close>

definition with_header :: "address \<Rightarrow> rpc_state \<Rightarrow> (rpc_header \<Rightarrow> 'a outcome) \<Rightarrow> 'a outcome" where
  "with_header a T k = (case rs_headers T a of None \<Rightarrow> Inl NULLPTR_ACCESS | Some h \<Rightarrow> k h)"

definition setSequenceId :: "address \<Rightarrow> u64 \<Rightarrow> rpc_state \<Rightarrow> rpc_state outcome" where
  "setSequenceId a sequenceId T =
     with_header a T (\<lambda>h. Inr (T\<lparr> rs_headers := (rs_headers T)(a \<mapsto> h\<lparr> rh_sequenceId := sequenceId \<rparr>) \<rparr>))"

definition setServerError :: "address \<Rightarrow> rpc_state \<Rightarrow> rpc_state outcome" where
  "setServerError a T =
     with_header a T (\<lambda>h. Inr (T\<lparr> rs_headers := (rs_headers T)(a \<mapsto> h\<lparr> rh_hasServerError := Some True \<rparr>) \<rparr>))"

text \<open>\<open>userHeader()\<close> of the chunk header at \<open>a\<close>.\<close>

definition chunk_userHeader :: "address \<Rightarrow> popo_state \<Rightarrow> address pointer outcome" where
  "chunk_userHeader a P = (case shm_headers (ps_shm P) a of None \<Rightarrow> Inl NULLPTR_ACCESS | Some h \<Rightarrow> Inr (userHeader a h))"

text \<open>\<open>new (chunkHeader->userHeader()) T(...)\<close>\<close>

definition placement_new :: "address \<Rightarrow> rpc_header \<Rightarrow> rpc_state \<Rightarrow> (address \<times> rpc_state) outcome" where
  "placement_new a header T =
     obind (chunk_userHeader a (rs_popo T)) (\<lambda>u.
       case u of None \<Rightarrow> Inl NULLPTR_ACCESS
       | Some b \<Rightarrow> Inr (b, T\<lparr> rs_headers := (rs_headers T)(b \<mapsto> header) \<rparr>))"

subsection \<open>The client\<close>

record client_options =
  co_responseQueueCapacity :: u64
  co_nodeName :: string
  co_connectOnCreate :: bool
  co_responseQueueFullPolicy :: queue_full_policy
  co_serverTooSlowPolicy :: consumer_too_slow_policy

text \<open>The constant member \<open>m_queueFullPolicy\<close> of \<open>m_chunkReceiverData\<close> is a member of the port here.\<close>

datatype connection_state = NOT_CONNECTED | CONNECT_REQUESTED | CONNECTED | DISCONNECT_REQUESTED | CONNECTION_WAIT_FOR_OFFER

record client_port_data = base_port_data +
  cpd_chunkSenderData :: chunk_sender_data
  cpd_chunkReceiverData :: chunk_receiver_data
  cpd_responseQueueFullPolicy :: queue_full_policy
  cpd_connectRequested :: bool
  cpd_connectionState :: connection_state

definition getResponseQueueType :: "queue_full_policy \<Rightarrow> variant_queue_types" where
  "getResponseQueueType policy =
     (if policy = DISCARD_OLDEST_DATA then SoFi_MultiProducerSingleConsumer else FiFo_MultiProducerSingleConsumer)"

text \<open>The history has a capacity of 1 in the type and of 0 in use.\<close>

definition ClientPortData_ctor ::
  "rpc_config \<Rightarrow> service_description \<Rightarrow> string \<Rightarrow> client_options \<Rightarrow> u64 \<Rightarrow> u64 \<Rightarrow> address \<Rightarrow> u32 list \<Rightarrow> u32 list \<Rightarrow> popo_state \<Rightarrow>
     (client_port_data \<times> popo_state) outcome" where
  "ClientPortData_ctor cfg sd runtimeName options uniqueId queueId q indices rindices P =
     obind (ChunkSenderData_ctor (rc_MaxRequestsAllocated cfg) 1 (co_serverTooSlowPolicy options) 0 indices (ps_shm P)) (\<lambda>(X, S).
     obind (ChunkReceiverData_ctor (rc_MaxResponsesHeld cfg) (rc_ResponseCapacity cfg) queueId
              (getResponseQueueType (co_responseQueueFullPolicy options)) (co_responseQueueFullPolicy options) q rindices
              (P\<lparr> ps_shm := S \<rparr>)) (\<lambda>(R, P1).
     obind (ChunkQueuePopper_setCapacity (rc_ResponseCapacity cfg) (co_responseQueueCapacity options) q P1) (\<lambda>P2.
     Inr (\<lparr> bpd_serviceDescription = sd, bpd_runtimeName = runtimeName, bpd_nodeName = co_nodeName options,
            bpd_uniqueId = uniqueId, bpd_toBeDestroyed = False, cpd_chunkSenderData = X, cpd_chunkReceiverData = R,
            cpd_responseQueueFullPolicy = co_responseQueueFullPolicy options, cpd_connectRequested = co_connectOnCreate options, cpd_connectionState = NOT_CONNECTED \<rparr>, P2))))"

abbreviation cpd_queue :: "client_port_data \<Rightarrow> address" where
  "cpd_queue c \<equiv> crd_queue (cpd_chunkReceiverData c)"

text \<open>The members of the queue of a receiver.\<close>

definition with_queue :: "address \<Rightarrow> popo_state \<Rightarrow> (chunk_queue_data \<Rightarrow> 'a outcome) \<Rightarrow> 'a outcome" where
  "with_queue q P k = (case ps_queues P q of None \<Rightarrow> Inl NULLPTR_ACCESS | Some d \<Rightarrow> k d)"

definition ClientPortUser_allocateRequest ::
  "rpc_config \<Rightarrow> u32 \<Rightarrow> u32 \<Rightarrow> client_port_data \<Rightarrow> rpc_state \<Rightarrow> ((allocation_error + address) \<times> client_port_data \<times> rpc_state) outcome" where
  "ClientPortUser_allocateRequest cfg userPayloadSize userPayloadAlignment c T =
     obind (ChunkSender_tryAllocate (rc_MaxRequestsAllocated cfg) (bpd_uniqueId c) userPayloadSize userPayloadAlignment
              SIZEOF_RequestHeader ALIGNOF_RpcHeader (cpd_chunkSenderData c) (ps_shm (rs_popo T))) (\<lambda>(allocateResult, X, S).
       let c1 = c\<lparr> cpd_chunkSenderData := X \<rparr>; T1 = T\<lparr> rs_popo := (rs_popo T)\<lparr> ps_shm := S \<rparr> \<rparr>
       in case allocateResult of
            Inl e \<Rightarrow> Inr (Inl e, c1, T1)
          | Inr a \<Rightarrow>
              with_queue (cpd_queue c1) (rs_popo T1) (\<lambda>d.
              obind (placement_new a (RequestHeader_ctor (cqd_uniqueId d) UNKNOWN_CLIENT_QUEUE_INDEX) T1) (\<lambda>(requestHeader, T2).
              Inr (Inr requestHeader, c1, T2))))"

definition ClientPortUser_releaseRequest ::
  "rpc_config \<Rightarrow> address pointer \<Rightarrow> client_port_data \<Rightarrow> rpc_state \<Rightarrow> (client_port_data \<times> rpc_state) outcome" where
  "ClientPortUser_releaseRequest cfg requestHeader c T =
     (if requestHeader \<noteq> None
      then obind (ChunkSender_release (rc_MaxRequestsAllocated cfg) (fromUserHeader requestHeader) (cpd_chunkSenderData c)
                    (ps_shm (rs_popo T))) (\<lambda>(X, S).
           Inr (c\<lparr> cpd_chunkSenderData := X \<rparr>, T\<lparr> rs_popo := (rs_popo T)\<lparr> ps_shm := S \<rparr> \<rparr>))
      else errorHandler (POPO POPO__CLIENT_PORT_INVALID_REQUEST_TO_FREE_FROM_USER) SEVERE (Inr (c, T)))"

datatype client_send_error = NO_CONNECT_REQUESTED | SERVER_NOT_AVAILABLE | INVALID_REQUEST

definition ClientPortUser_sendRequest ::
  "rpc_config \<Rightarrow> (chunk_distributor_data \<times> popo_state \<Rightarrow> chunk_distributor_data \<times> popo_state) list \<Rightarrow> address pointer \<Rightarrow>
     client_port_data \<Rightarrow> rpc_state \<Rightarrow> ((client_send_error + unit) \<times> client_port_data \<times> rpc_state) outcome" where
  "ClientPortUser_sendRequest cfg rounds requestHeader c T =
     (if requestHeader = None
      then errorHandler (POPO POPO__CLIENT_PORT_INVALID_REQUEST_TO_SEND_FROM_USER) SEVERE (Inr (Inl INVALID_REQUEST, c, T))
      else (let connectRequested = cpd_connectRequested c
            in if \<not> connectRequested
               then obind (ClientPortUser_releaseRequest cfg requestHeader c T) (\<lambda>(c1, T1).
                    Inr (Inl NO_CONNECT_REQUESTED, c1, T1))
               else obind (ChunkSender_send (rc_MaxRequestsAllocated cfg) (rc_RequestCapacity cfg) rounds (fromUserHeader requestHeader)
                             (cpd_chunkSenderData c) (rs_popo T)) (\<lambda>(numberOfReceiver, X, P1).
                    let c1 = c\<lparr> cpd_chunkSenderData := X \<rparr>; T1 = T\<lparr> rs_popo := P1 \<rparr>
                    in if numberOfReceiver = 0 then Inr (Inl SERVER_NOT_AVAILABLE, c1, T1) else Inr (Inr (), c1, T1))))"

definition ClientPortUser_connect :: "client_port_data \<Rightarrow> client_port_data" where
  "ClientPortUser_connect c = (if \<not> cpd_connectRequested c then c\<lparr> cpd_connectRequested := True \<rparr> else c)"

definition ClientPortUser_disconnect :: "client_port_data \<Rightarrow> client_port_data" where
  "ClientPortUser_disconnect c = (if cpd_connectRequested c then c\<lparr> cpd_connectRequested := False \<rparr> else c)"

definition ClientPortUser_getResponse ::
  "rpc_config \<Rightarrow> client_port_data \<Rightarrow> rpc_state \<Rightarrow> ((chunk_receive_result + address pointer) \<times> client_port_data \<times> rpc_state) outcome" where
  "ClientPortUser_getResponse cfg c T =
     obind (ChunkReceiver_tryGet (rc_MaxResponsesHeld cfg) (rc_ResponseCapacity cfg) (cpd_chunkReceiverData c) (rs_popo T)) (\<lambda>(r, R, P1).
       let c1 = c\<lparr> cpd_chunkReceiverData := R \<rparr>; T1 = T\<lparr> rs_popo := P1 \<rparr>
       in case r of
            Inl e \<Rightarrow> Inr (Inl e, c1, T1)
          | Inr None \<Rightarrow> Inl NULLPTR_ACCESS
          | Inr (Some a) \<Rightarrow> obind (chunk_userHeader a P1) (\<lambda>u. Inr (Inr u, c1, T1)))"

definition ClientPortUser_releaseResponse ::
  "rpc_config \<Rightarrow> address pointer \<Rightarrow> client_port_data \<Rightarrow> rpc_state \<Rightarrow> (client_port_data \<times> rpc_state) outcome" where
  "ClientPortUser_releaseResponse cfg responseHeader c T =
     (if responseHeader \<noteq> None
      then obind (ChunkReceiver_release (rc_MaxResponsesHeld cfg) (fromUserHeader responseHeader) (cpd_chunkReceiverData c) (rs_popo T)) (\<lambda>(R, P1).
           Inr (c\<lparr> cpd_chunkReceiverData := R \<rparr>, T\<lparr> rs_popo := P1 \<rparr>))
      else errorHandler (POPO POPO__CLIENT_PORT_INVALID_RESPONSE_TO_RELEASE_FROM_USER) SEVERE (Inr (c, T)))"

definition ClientPortUser_releaseQueuedResponses :: "rpc_config \<Rightarrow> client_port_data \<Rightarrow> popo_state \<Rightarrow> popo_state outcome" where
  "ClientPortUser_releaseQueuedResponses cfg c P = ChunkQueuePopper_clear (rc_ResponseCapacity cfg) (cpd_queue c) P"

definition ClientPortUser_hasNewResponses :: "rpc_config \<Rightarrow> client_port_data \<Rightarrow> popo_state \<Rightarrow> bool outcome" where
  "ClientPortUser_hasNewResponses cfg c P =
     with_queue (cpd_queue c) P (\<lambda>d. Inr (\<not> VariantQueue_empty (rc_ResponseCapacity cfg) (cqd_queue d)))"

definition ClientPortUser_hasLostResponsesSinceLastCall :: "client_port_data \<Rightarrow> popo_state \<Rightarrow> (bool \<times> popo_state) outcome" where
  "ClientPortUser_hasLostResponsesSinceLastCall c P = hasLostChunks (cpd_queue c) P"

subsection \<open>The client in RouDi\<close>

definition ClientPortRouDi_getServerTooSlowPolicy :: "client_port_data \<Rightarrow> consumer_too_slow_policy" where
  "ClientPortRouDi_getServerTooSlowPolicy c = cdd_consumerTooSlowPolicy (csd_distributor (cpd_chunkSenderData c))"

definition with_client_distributor :: "chunk_distributor_data \<Rightarrow> client_port_data \<Rightarrow> client_port_data" where
  "with_client_distributor D c = c\<lparr> cpd_chunkSenderData := (cpd_chunkSenderData c)\<lparr> csd_distributor := D \<rparr> \<rparr>"

definition connect_message :: "client_port_data \<Rightarrow> capro_message" where
  "connect_message c = (CaproMessage_ctor CONNECT (bpd_serviceDescription c) CAPRO_NONE None)
     \<lparr> cm_chunkQueueData := Some (cpd_queue c), cm_historyCapacity := 0 \<rparr>"

definition disconnect_message :: "client_port_data \<Rightarrow> capro_message" where
  "disconnect_message c = (CaproMessage_ctor DISCONNECT (bpd_serviceDescription c) CAPRO_NONE None)\<lparr> cm_chunkQueueData := Some (cpd_queue c) \<rparr>"

definition client_violation :: "client_port_data \<Rightarrow> popo_state \<Rightarrow> (capro_message option \<times> client_port_data \<times> popo_state) outcome" where
  "client_violation c P = errorHandler (POPO POPO__CAPRO_PROTOCOL_ERROR) SEVERE (Inr (None, c, P))"

definition handleCaProMessageForStateNotConnected ::
  "capro_message \<Rightarrow> client_port_data \<Rightarrow> popo_state \<Rightarrow> (capro_message option \<times> client_port_data \<times> popo_state) outcome" where
  "handleCaProMessageForStateNotConnected caProMessage c P =
     (case cm_type caProMessage of
        CONNECT \<Rightarrow> Inr (Some (connect_message c), c\<lparr> cpd_connectionState := CONNECT_REQUESTED \<rparr>, P)
      | OFFER \<Rightarrow> Inr (None, c, P)
      | _ \<Rightarrow> client_violation c P)"

definition handleCaProMessageForStateConnectRequested ::
  "rpc_config \<Rightarrow> capro_message \<Rightarrow> client_port_data \<Rightarrow> popo_state \<Rightarrow> (capro_message option \<times> client_port_data \<times> popo_state) outcome" where
  "handleCaProMessageForStateConnectRequested cfg caProMessage c P =
     (case cm_type caProMessage of
        ACK \<Rightarrow>
          Expects (cm_chunkQueueData caProMessage \<noteq> None)
            (obind (not_null (cm_chunkQueueData caProMessage)) (\<lambda>q.
             obind (tryAddQueue 1 (rc_RequestCapacity cfg) q (cm_historyCapacity caProMessage) (csd_distributor (cpd_chunkSenderData c)) P) (\<lambda>(ret, D, P1).
             Expects (\<not> isl ret)
               (Inr (None, (with_client_distributor D c)\<lparr> cpd_connectionState := CONNECTED \<rparr>, P1)))))
      | NACK \<Rightarrow> Inr (None, c\<lparr> cpd_connectionState := CONNECTION_WAIT_FOR_OFFER \<rparr>, P)
      | _ \<Rightarrow> client_violation c P)"

definition handleCaProMessageForStateWaitForOffer ::
  "capro_message \<Rightarrow> client_port_data \<Rightarrow> popo_state \<Rightarrow> (capro_message option \<times> client_port_data \<times> popo_state) outcome" where
  "handleCaProMessageForStateWaitForOffer caProMessage c P =
     (case cm_type caProMessage of
        OFFER \<Rightarrow> Inr (Some (connect_message c), c\<lparr> cpd_connectionState := CONNECT_REQUESTED \<rparr>, P)
      | DISCONNECT \<Rightarrow> Inr (None, c\<lparr> cpd_connectionState := NOT_CONNECTED \<rparr>, P)
      | _ \<Rightarrow> client_violation c P)"

definition handleCaProMessageForStateConnected ::
  "capro_message \<Rightarrow> client_port_data \<Rightarrow> popo_state \<Rightarrow> (capro_message option \<times> client_port_data \<times> popo_state) outcome" where
  "handleCaProMessageForStateConnected caProMessage c P =
     (case cm_type caProMessage of
        STOP_OFFER \<Rightarrow>
          obind (removeAllQueues (csd_distributor (cpd_chunkSenderData c))) (\<lambda>D.
          Inr (None, (with_client_distributor D c)\<lparr> cpd_connectionState := CONNECTION_WAIT_FOR_OFFER \<rparr>, P))
      | DISCONNECT \<Rightarrow>
          obind (removeAllQueues (csd_distributor (cpd_chunkSenderData c))) (\<lambda>D.
          Inr (Some (disconnect_message c), (with_client_distributor D c)\<lparr> cpd_connectionState := DISCONNECT_REQUESTED \<rparr>, P))
      | _ \<Rightarrow> client_violation c P)"

definition handleCaProMessageForStateDisconnectRequested ::
  "capro_message \<Rightarrow> client_port_data \<Rightarrow> popo_state \<Rightarrow> (capro_message option \<times> client_port_data \<times> popo_state) outcome" where
  "handleCaProMessageForStateDisconnectRequested caProMessage c P =
     (if cm_type caProMessage = ACK \<or> cm_type caProMessage = NACK
      then Inr (None, c\<lparr> cpd_connectionState := NOT_CONNECTED \<rparr>, P)
      else client_violation c P)"

definition ClientPortRouDi_dispatch ::
  "rpc_config \<Rightarrow> capro_message \<Rightarrow> client_port_data \<Rightarrow> popo_state \<Rightarrow> (capro_message option \<times> client_port_data \<times> popo_state) outcome" where
  "ClientPortRouDi_dispatch cfg caProMessage c P =
     (case cpd_connectionState c of
        NOT_CONNECTED \<Rightarrow> handleCaProMessageForStateNotConnected caProMessage c P
      | CONNECT_REQUESTED \<Rightarrow> handleCaProMessageForStateConnectRequested cfg caProMessage c P
      | CONNECTION_WAIT_FOR_OFFER \<Rightarrow> handleCaProMessageForStateWaitForOffer caProMessage c P
      | CONNECTED \<Rightarrow> handleCaProMessageForStateConnected caProMessage c P
      | DISCONNECT_REQUESTED \<Rightarrow> handleCaProMessageForStateDisconnectRequested caProMessage c P)"

definition ClientPortRouDi_tryGetCaProMessage ::
  "rpc_config \<Rightarrow> client_port_data \<Rightarrow> popo_state \<Rightarrow> (capro_message option \<times> client_port_data \<times> popo_state) outcome" where
  "ClientPortRouDi_tryGetCaProMessage cfg c P =
     (let currentConnectRequest = cpd_connectRequested c; currentConnectionState = cpd_connectionState c
      in if currentConnectionState = NOT_CONNECTED
         then if currentConnectRequest
              then ClientPortRouDi_dispatch cfg (CaproMessage_ctor CONNECT (bpd_serviceDescription c) CAPRO_NONE None) c P
              else Inr (None, c, P)
         else if currentConnectionState = CONNECTION_WAIT_FOR_OFFER \<or> currentConnectionState = CONNECTED
         then if \<not> currentConnectRequest
              then ClientPortRouDi_dispatch cfg (CaproMessage_ctor DISCONNECT (bpd_serviceDescription c) CAPRO_NONE None) c P
              else Inr (None, c, P)
         else Inr (None, c, P))"

definition ClientPortRouDi_releaseAllChunks :: "rpc_config \<Rightarrow> client_port_data \<Rightarrow> popo_state \<Rightarrow> (client_port_data \<times> popo_state) outcome" where
  "ClientPortRouDi_releaseAllChunks cfg c P =
     obind (ChunkSender_releaseAll (rc_MaxRequestsAllocated cfg) (cpd_chunkSenderData c) P) (\<lambda>(X, P1).
     obind (ChunkReceiver_releaseAll (rc_MaxResponsesHeld cfg) (rc_ResponseCapacity cfg) (cpd_chunkReceiverData c) P1) (\<lambda>(R, P2).
     Inr (c\<lparr> cpd_chunkSenderData := X, cpd_chunkReceiverData := R \<rparr>, P2)))"

subsection \<open>The server\<close>

record server_options =
  svo_requestQueueCapacity :: u64
  svo_nodeName :: string
  svo_offerOnCreate :: bool
  svo_requestQueueFullPolicy :: queue_full_policy
  svo_clientTooSlowPolicy :: consumer_too_slow_policy

record server_port_data = base_port_data +
  vpd_chunkSenderData :: chunk_sender_data
  vpd_chunkReceiverData :: chunk_receiver_data
  vpd_requestQueueFullPolicy :: queue_full_policy
  vpd_offeringRequested :: bool
  vpd_offered :: bool

definition getRequestQueueType :: "queue_full_policy \<Rightarrow> variant_queue_types" where
  "getRequestQueueType policy =
     (if policy = DISCARD_OLDEST_DATA then SoFi_MultiProducerSingleConsumer else FiFo_MultiProducerSingleConsumer)"

definition ServerPortData_ctor ::
  "rpc_config \<Rightarrow> service_description \<Rightarrow> string \<Rightarrow> server_options \<Rightarrow> u64 \<Rightarrow> u64 \<Rightarrow> address \<Rightarrow> u32 list \<Rightarrow> u32 list \<Rightarrow> popo_state \<Rightarrow>
     (server_port_data \<times> popo_state) outcome" where
  "ServerPortData_ctor cfg sd runtimeName options uniqueId queueId q indices rindices P =
     obind (ChunkSenderData_ctor (rc_MaxResponsesAllocated cfg) 1 (svo_clientTooSlowPolicy options) 0 indices (ps_shm P)) (\<lambda>(X, S).
     obind (ChunkReceiverData_ctor (rc_MaxRequestsHeld cfg) (rc_RequestCapacity cfg) queueId
              (getRequestQueueType (svo_requestQueueFullPolicy options)) (svo_requestQueueFullPolicy options) q rindices
              (P\<lparr> ps_shm := S \<rparr>)) (\<lambda>(R, P1).
     obind (ChunkQueuePopper_setCapacity (rc_RequestCapacity cfg) (svo_requestQueueCapacity options) q P1) (\<lambda>P2.
     Inr (\<lparr> bpd_serviceDescription = sd, bpd_runtimeName = runtimeName, bpd_nodeName = svo_nodeName options,
            bpd_uniqueId = uniqueId, bpd_toBeDestroyed = False, vpd_chunkSenderData = X, vpd_chunkReceiverData = R,
            vpd_requestQueueFullPolicy = svo_requestQueueFullPolicy options, vpd_offeringRequested = svo_offerOnCreate options, vpd_offered = False \<rparr>, P2))))"

abbreviation vpd_queue :: "server_port_data \<Rightarrow> address" where
  "vpd_queue v \<equiv> crd_queue (vpd_chunkReceiverData v)"

datatype server_request_result =
    TOO_MANY_REQUESTS_HELD_IN_PARALLEL
  | NO_PENDING_REQUESTS
  | UNDEFINED_CHUNK_RECEIVE_ERROR
  | NO_PENDING_REQUESTS_AND_SERVER_DOES_NOT_OFFER

fun server_request_result_from :: "chunk_receive_result \<Rightarrow> server_request_result" where
  "server_request_result_from TOO_MANY_CHUNKS_HELD_IN_PARALLEL = TOO_MANY_REQUESTS_HELD_IN_PARALLEL"
| "server_request_result_from NO_CHUNK_AVAILABLE = NO_PENDING_REQUESTS"

text \<open>\<open>isOffered\<close> of the application is the request, not the state.\<close>

definition ServerPortUser_isOffered :: "server_port_data \<Rightarrow> bool" where
  "ServerPortUser_isOffered v = vpd_offeringRequested v"

definition ServerPortUser_getRequest ::
  "rpc_config \<Rightarrow> server_port_data \<Rightarrow> rpc_state \<Rightarrow> ((server_request_result + address pointer) \<times> server_port_data \<times> rpc_state) outcome" where
  "ServerPortUser_getRequest cfg v T =
     obind (ChunkReceiver_tryGet (rc_MaxRequestsHeld cfg) (rc_RequestCapacity cfg) (vpd_chunkReceiverData v) (rs_popo T)) (\<lambda>(r, R, P1).
       let v1 = v\<lparr> vpd_chunkReceiverData := R \<rparr>; T1 = T\<lparr> rs_popo := P1 \<rparr>
       in case r of
            Inl e \<Rightarrow>
              (if \<not> ServerPortUser_isOffered v1 then Inr (Inl NO_PENDING_REQUESTS_AND_SERVER_DOES_NOT_OFFER, v1, T1)
               else Inr (Inl (server_request_result_from e), v1, T1))
          | Inr None \<Rightarrow> Inl NULLPTR_ACCESS
          | Inr (Some a) \<Rightarrow> obind (chunk_userHeader a P1) (\<lambda>u. Inr (Inr u, v1, T1)))"

definition ServerPortUser_releaseRequest ::
  "rpc_config \<Rightarrow> address pointer \<Rightarrow> server_port_data \<Rightarrow> rpc_state \<Rightarrow> (server_port_data \<times> rpc_state) outcome" where
  "ServerPortUser_releaseRequest cfg requestHeader v T =
     (if requestHeader \<noteq> None
      then obind (ChunkReceiver_release (rc_MaxRequestsHeld cfg) (fromUserHeader requestHeader) (vpd_chunkReceiverData v) (rs_popo T)) (\<lambda>(R, P1).
           Inr (v\<lparr> vpd_chunkReceiverData := R \<rparr>, T\<lparr> rs_popo := P1 \<rparr>))
      else errorHandler (POPO POPO__SERVER_PORT_INVALID_REQUEST_TO_RELEASE_FROM_USER) SEVERE (Inr (v, T)))"

definition ServerPortUser_releaseQueuedRequests :: "rpc_config \<Rightarrow> server_port_data \<Rightarrow> popo_state \<Rightarrow> popo_state outcome" where
  "ServerPortUser_releaseQueuedRequests cfg v P = ChunkQueuePopper_clear (rc_RequestCapacity cfg) (vpd_queue v) P"

definition ServerPortUser_hasNewRequests :: "rpc_config \<Rightarrow> server_port_data \<Rightarrow> popo_state \<Rightarrow> bool outcome" where
  "ServerPortUser_hasNewRequests cfg v P =
     with_queue (vpd_queue v) P (\<lambda>d. Inr (\<not> VariantQueue_empty (rc_RequestCapacity cfg) (cqd_queue d)))"

definition ServerPortUser_hasLostRequestsSinceLastCall :: "server_port_data \<Rightarrow> popo_state \<Rightarrow> (bool \<times> popo_state) outcome" where
  "ServerPortUser_hasLostRequestsSinceLastCall v P = hasLostChunks (vpd_queue v) P"

text \<open>The header of the response takes the queue and the sequence number from the request.\<close>

definition ServerPortUser_allocateResponse ::
  "rpc_config \<Rightarrow> address pointer \<Rightarrow> u32 \<Rightarrow> u32 \<Rightarrow> server_port_data \<Rightarrow> rpc_state \<Rightarrow>
     ((allocation_error + address) \<times> server_port_data \<times> rpc_state) outcome" where
  "ServerPortUser_allocateResponse cfg requestHeader userPayloadSize userPayloadAlignment v T =
     (case requestHeader of
        None \<Rightarrow> Inr (Inl INVALID_PARAMETER_FOR_REQUEST_HEADER, v, T)
      | Some request \<Rightarrow>
          obind (ChunkSender_tryAllocate (rc_MaxResponsesAllocated cfg) (bpd_uniqueId v) userPayloadSize userPayloadAlignment
                   SIZEOF_ResponseHeader ALIGNOF_RpcHeader (vpd_chunkSenderData v) (ps_shm (rs_popo T))) (\<lambda>(allocateResult, X, S).
            let v1 = v\<lparr> vpd_chunkSenderData := X \<rparr>; T1 = T\<lparr> rs_popo := (rs_popo T)\<lparr> ps_shm := S \<rparr> \<rparr>
            in case allocateResult of
                 Inl e \<Rightarrow> Inr (Inl e, v1, T1)
               | Inr a \<Rightarrow>
                   with_header request T1 (\<lambda>h.
                   obind (placement_new a (ResponseHeader_ctor (rh_uniqueClientQueueId h) (rh_lastKnownClientQueueIndex h) (rh_sequenceId h)) T1)
                     (\<lambda>(responseHeader, T2). Inr (Inr responseHeader, v1, T2)))))"

definition ServerPortUser_releaseResponse ::
  "rpc_config \<Rightarrow> address pointer \<Rightarrow> server_port_data \<Rightarrow> rpc_state \<Rightarrow> (server_port_data \<times> rpc_state) outcome" where
  "ServerPortUser_releaseResponse cfg responseHeader v T =
     (if responseHeader \<noteq> None
      then obind (ChunkSender_release (rc_MaxResponsesAllocated cfg) (fromUserHeader responseHeader) (vpd_chunkSenderData v)
                    (ps_shm (rs_popo T))) (\<lambda>(X, S).
           Inr (v\<lparr> vpd_chunkSenderData := X \<rparr>, T\<lparr> rs_popo := (rs_popo T)\<lparr> ps_shm := S \<rparr> \<rparr>))
      else errorHandler (POPO POPO__SERVER_PORT_INVALID_RESPONSE_TO_FREE_FROM_USER) SEVERE (Inr (v, T)))"

datatype server_send_error = NOT_OFFERED | CLIENT_NOT_AVAILABLE | INVALID_RESPONSE

definition ServerPortUser_sendResponse ::
  "rpc_config \<Rightarrow> (chunk_distributor_data \<times> popo_state \<Rightarrow> chunk_distributor_data \<times> popo_state) list \<Rightarrow> address pointer \<Rightarrow>
     server_port_data \<Rightarrow> rpc_state \<Rightarrow> ((server_send_error + unit) \<times> server_port_data \<times> rpc_state) outcome" where
  "ServerPortUser_sendResponse cfg rounds responseHeader v T =
     (case responseHeader of
        None \<Rightarrow> errorHandler (POPO POPO__SERVER_PORT_INVALID_RESPONSE_TO_SEND_FROM_USER) SEVERE (Inr (Inl INVALID_RESPONSE, v, T))
      | Some response \<Rightarrow>
          (let offerRequested = vpd_offeringRequested v; D = csd_distributor (vpd_chunkSenderData v)
           in if \<not> offerRequested
              then obind (ServerPortUser_releaseResponse cfg responseHeader v T) (\<lambda>(v1, T1). Inr (Inl NOT_OFFERED, v1, T1))
              else with_header response T (\<lambda>h.
                   locked D
                     (case getQueueIndex (rh_uniqueClientQueueId h) (rh_lastKnownClientQueueIndex h) D (rs_popo T) of
                        Some queueIndex \<Rightarrow>
                          (let T1 = T\<lparr> rs_headers := (rs_headers T)(response \<mapsto> h\<lparr> rh_lastKnownClientQueueIndex := queueIndex \<rparr>) \<rparr>
                           in obind (ChunkSender_sendToQueue (rc_MaxResponsesAllocated cfg) (rc_ResponseCapacity cfg) rounds
                                       (fromUserHeader responseHeader) (rh_uniqueClientQueueId h) queueIndex (vpd_chunkSenderData v) (rs_popo T1))
                                (\<lambda>(responseSent, X, P2).
                                Inr (if responseSent then Inr () else Inl CLIENT_NOT_AVAILABLE,
                                     v\<lparr> vpd_chunkSenderData := X \<rparr>, T1\<lparr> rs_popo := P2 \<rparr>)))
                      | None \<Rightarrow>
                          obind (ServerPortUser_releaseResponse cfg responseHeader v T) (\<lambda>(v1, T1).
                          Inr (Inl CLIENT_NOT_AVAILABLE, v1, T1))))))"

definition ServerPortUser_offer :: "server_port_data \<Rightarrow> server_port_data" where
  "ServerPortUser_offer v = (if \<not> vpd_offeringRequested v then v\<lparr> vpd_offeringRequested := True \<rparr> else v)"

definition ServerPortUser_stopOffer :: "server_port_data \<Rightarrow> server_port_data" where
  "ServerPortUser_stopOffer v = (if vpd_offeringRequested v then v\<lparr> vpd_offeringRequested := False \<rparr> else v)"

definition ServerPortUser_hasClients :: "server_port_data \<Rightarrow> bool outcome" where
  "ServerPortUser_hasClients v = hasStoredQueues (csd_distributor (vpd_chunkSenderData v))"

subsection \<open>The server in RouDi\<close>

definition ServerPortRouDi_getClientTooSlowPolicy :: "server_port_data \<Rightarrow> consumer_too_slow_policy" where
  "ServerPortRouDi_getClientTooSlowPolicy v = cdd_consumerTooSlowPolicy (csd_distributor (vpd_chunkSenderData v))"

definition with_server_distributor :: "chunk_distributor_data \<Rightarrow> server_port_data \<Rightarrow> server_port_data" where
  "with_server_distributor D v = v\<lparr> vpd_chunkSenderData := (vpd_chunkSenderData v)\<lparr> csd_distributor := D \<rparr> \<rparr>"

definition handleCaProMessageForStateOffered ::
  "rpc_config \<Rightarrow> capro_message \<Rightarrow> server_port_data \<Rightarrow> popo_state \<Rightarrow> (capro_message option \<times> server_port_data \<times> popo_state) outcome" where
  "handleCaProMessageForStateOffered cfg caProMessage v P =
     (let responseMessage = CaproMessage_ctor NACK (bpd_serviceDescription v) CAPRO_NONE None;
          D = csd_distributor (vpd_chunkSenderData v)
      in case cm_type caProMessage of
           STOP_OFFER \<Rightarrow>
             obind (removeAllQueues D) (\<lambda>D1. Inr (Some caProMessage, (with_server_distributor D1 v)\<lparr> vpd_offered := False \<rparr>, P))
         | OFFER \<Rightarrow> Inr (Some responseMessage, v, P)
         | CONNECT \<Rightarrow>
             (case cm_chunkQueueData caProMessage of
                None \<Rightarrow> errorHandler (POPO POPO__SERVER_PORT_NO_CLIENT_RESPONSE_QUEUE_TO_CONNECT) MODERATE (Inr (Some responseMessage, v, P))
              | Some q \<Rightarrow>
                  obind (tryAddQueue (rc_MaxClientsPerServer cfg) (rc_ResponseCapacity cfg) q (cm_historyCapacity caProMessage) D P) (\<lambda>(ret, D1, P1).
                  Inr (Some (case ret of Inl _ \<Rightarrow> responseMessage
                             | Inr _ \<Rightarrow> responseMessage\<lparr> cm_type := ACK, cm_chunkQueueData := Some (vpd_queue v), cm_historyCapacity := 0 \<rparr>),
                       with_server_distributor D1 v, P1)))
         | DISCONNECT \<Rightarrow>
             obind (not_null (cm_chunkQueueData caProMessage)) (\<lambda>q.
             obind (tryRemoveQueue q D) (\<lambda>(ret, D1).
             Inr (Some (case ret of Inl _ \<Rightarrow> responseMessage | Inr _ \<Rightarrow> responseMessage\<lparr> cm_type := ACK \<rparr>),
                  with_server_distributor D1 v, P)))
         | _ \<Rightarrow> errorHandler (POPO POPO__CAPRO_PROTOCOL_ERROR) SEVERE (Inr (None, v, P)))"

definition handleCaProMessageForStateNotOffered ::
  "capro_message \<Rightarrow> server_port_data \<Rightarrow> popo_state \<Rightarrow> (capro_message option \<times> server_port_data \<times> popo_state) outcome" where
  "handleCaProMessageForStateNotOffered caProMessage v P =
     (case cm_type caProMessage of
        OFFER \<Rightarrow> Inr (Some caProMessage, v\<lparr> vpd_offered := True \<rparr>, P)
      | STOP_OFFER \<Rightarrow> Inr (Some (CaproMessage_ctor NACK (bpd_serviceDescription v) CAPRO_NONE None), v, P)
      | CONNECT \<Rightarrow> Inr (Some (CaproMessage_ctor NACK (bpd_serviceDescription v) CAPRO_NONE None), v, P)
      | DISCONNECT \<Rightarrow> Inr (Some (CaproMessage_ctor NACK (bpd_serviceDescription v) CAPRO_NONE None), v, P)
      | _ \<Rightarrow> errorHandler (POPO POPO__CAPRO_PROTOCOL_ERROR) SEVERE (Inr (None, v, P)))"

definition ServerPortRouDi_dispatch ::
  "rpc_config \<Rightarrow> capro_message \<Rightarrow> server_port_data \<Rightarrow> popo_state \<Rightarrow> (capro_message option \<times> server_port_data \<times> popo_state) outcome" where
  "ServerPortRouDi_dispatch cfg caProMessage v P =
     (if vpd_offered v then handleCaProMessageForStateOffered cfg caProMessage v P
      else handleCaProMessageForStateNotOffered caProMessage v P)"

definition ServerPortRouDi_tryGetCaProMessage ::
  "rpc_config \<Rightarrow> server_port_data \<Rightarrow> popo_state \<Rightarrow> (capro_message option \<times> server_port_data \<times> popo_state) outcome" where
  "ServerPortRouDi_tryGetCaProMessage cfg v P =
     (if vpd_offered v
      then if \<not> vpd_offeringRequested v
           then ServerPortRouDi_dispatch cfg
                  ((CaproMessage_ctor STOP_OFFER (bpd_serviceDescription v) CAPRO_NONE None)\<lparr> cm_serviceType := CAPRO_SERVER \<rparr>) v P
           else Inr (None, v, P)
      else if vpd_offeringRequested v
           then ServerPortRouDi_dispatch cfg
                  ((CaproMessage_ctor OFFER (bpd_serviceDescription v) CAPRO_NONE None)\<lparr> cm_serviceType := CAPRO_SERVER \<rparr>) v P
           else Inr (None, v, P))"

definition ServerPortRouDi_releaseAllChunks :: "rpc_config \<Rightarrow> server_port_data \<Rightarrow> popo_state \<Rightarrow> (server_port_data \<times> popo_state) outcome" where
  "ServerPortRouDi_releaseAllChunks cfg v P =
     obind (ChunkSender_releaseAll (rc_MaxResponsesAllocated cfg) (vpd_chunkSenderData v) P) (\<lambda>(X, P1).
     obind (ChunkReceiver_releaseAll (rc_MaxRequestsHeld cfg) (rc_RequestCapacity cfg) (vpd_chunkReceiverData v) P1) (\<lambda>(R, P2).
     Inr (v\<lparr> vpd_chunkSenderData := X, vpd_chunkReceiverData := R \<rparr>, P2)))"

end
