(* ===== verification/Discovery.thy ===== *)
theory Discovery
  imports Connections Client_Server_Ports
begin

section \<open>Servers, clients and the discovery of RouDi\<close>

text \<open>
  The rest of \<open>roudi::PortManager\<close> and \<open>roudi::PortPool\<close>: servers and clients, interfaces, nodes and condition
  variables, the discovery loop and what RouDi does when a process ends. \<open>rp_ports\<close> is the part of
  the theory on publishers and subscribers. Queues and condition variables are at the addresses the configuration gives to the slots.
\<close>

record roudi_config =
  rdc_ports :: port_manager_config
  rdc_rpc :: rpc_config
  rdc_serverQueueAddress :: "nat \<Rightarrow> address"
  rdc_clientQueueAddress :: "nat \<Rightarrow> address"
  rdc_conditionVariableAddress :: "nat \<Rightarrow> address"
  rdc_MAX_SERVERS :: nat
  rdc_MAX_CLIENTS :: nat
  rdc_MAX_INTERFACE_NUMBER :: nat
  rdc_MAX_NODE_NUMBER :: nat
  rdc_MAX_NUMBER_OF_CONDITION_VARIABLES :: nat

record node_data =
  nd_runtimeName :: string
  nd_nodeName :: string
  nd_nodeDeviceIdentifier :: u64
  nd_toBeDestroyed :: bool

record roudi_ports =
  rp_ports :: port_manager
  rp_servers :: "server_port_data option list"
  rp_clients :: "client_port_data option list"
  rp_nodes :: "node_data option list"
  rp_conditionVariables :: "address option list"

abbreviation rp_popo :: "roudi_ports \<Rightarrow> popo_state" where
  "rp_popo N \<equiv> pm_popo (rp_ports N)"

definition set_popo :: "popo_state \<Rightarrow> roudi_ports \<Rightarrow> roudi_ports" where
  "set_popo P N = N\<lparr> rp_ports := (rp_ports N)\<lparr> pm_popo := P \<rparr> \<rparr>"

definition put_server :: "nat \<Rightarrow> server_port_data \<Rightarrow> roudi_ports \<Rightarrow> roudi_ports" where
  "put_server i v N = N\<lparr> rp_servers := (rp_servers N)[i := Some v] \<rparr>"

definition put_client :: "nat \<Rightarrow> client_port_data \<Rightarrow> roudi_ports \<Rightarrow> roudi_ports" where
  "put_client j c N = N\<lparr> rp_clients := (rp_clients N)[j := Some c] \<rparr>"

definition with_server :: "nat \<Rightarrow> roudi_ports \<Rightarrow> (server_port_data \<Rightarrow> 'a outcome) \<Rightarrow> 'a outcome" where
  "with_server i N k = (case slot (rp_servers N) i of None \<Rightarrow> Inl NULLPTR_ACCESS | Some v \<Rightarrow> k v)"

definition with_client :: "nat \<Rightarrow> roudi_ports \<Rightarrow> (client_port_data \<Rightarrow> 'a outcome) \<Rightarrow> 'a outcome" where
  "with_client j N k = (case slot (rp_clients N) j of None \<Rightarrow> Inl NULLPTR_ACCESS | Some c \<Rightarrow> k c)"

text \<open>An operation on the publishers, subscribers, interfaces and the registry.\<close>

definition on_ports :: "(port_manager \<Rightarrow> port_manager outcome) \<Rightarrow> roudi_ports \<Rightarrow> roudi_ports outcome" where
  "on_ports f N = obind (f (rp_ports N)) (\<lambda>M. Inr (N\<lparr> rp_ports := M \<rparr>))"

subsection \<open>The pool\<close>

definition addServerPort ::
  "roudi_config \<Rightarrow> service_description \<Rightarrow> string \<Rightarrow> server_options \<Rightarrow> u64 \<Rightarrow> u64 \<Rightarrow> u32 list \<Rightarrow> u32 list \<Rightarrow> roudi_ports \<Rightarrow>
     ((port_pool_error + nat) \<times> roudi_ports) outcome" where
  "addServerPort cfg sd runtimeName options uniqueId queueId indices rindices N =
     (if \<not> hasFreeSpace (rdc_MAX_SERVERS cfg) (rp_servers N)
      then errorHandler (ROUDI PORT_POOL__SERVERLIST_OVERFLOW) MODERATE (Inr (Inl SERVER_PORT_LIST_FULL, N))
      else (let q = rdc_serverQueueAddress cfg (first_free (rp_servers N))
            in obind (ServerPortData_ctor (rdc_rpc cfg) sd runtimeName options uniqueId queueId q indices rindices (rp_popo N)) (\<lambda>(v, P').
               case container_insert v (rp_servers N) of (i, vs) \<Rightarrow>
               Inr (Inr i, (set_popo P' N)\<lparr> rp_servers := vs \<rparr>))))"

definition addClientPort ::
  "roudi_config \<Rightarrow> service_description \<Rightarrow> string \<Rightarrow> client_options \<Rightarrow> u64 \<Rightarrow> u64 \<Rightarrow> u32 list \<Rightarrow> u32 list \<Rightarrow> roudi_ports \<Rightarrow>
     ((port_pool_error + nat) \<times> roudi_ports) outcome" where
  "addClientPort cfg sd runtimeName options uniqueId queueId indices rindices N =
     (if \<not> hasFreeSpace (rdc_MAX_CLIENTS cfg) (rp_clients N)
      then errorHandler (ROUDI PORT_POOL__CLIENTLIST_OVERFLOW) MODERATE (Inr (Inl CLIENT_PORT_LIST_FULL, N))
      else (let q = rdc_clientQueueAddress cfg (first_free (rp_clients N))
            in obind (ClientPortData_ctor (rdc_rpc cfg) sd runtimeName options uniqueId queueId q indices rindices (rp_popo N)) (\<lambda>(c, P').
               case container_insert c (rp_clients N) of (j, cs) \<Rightarrow>
               Inr (Inr j, (set_popo P' N)\<lparr> rp_clients := cs \<rparr>))))"

definition remove_queue :: "address \<Rightarrow> roudi_ports \<Rightarrow> roudi_ports" where
  "remove_queue q N = set_popo ((rp_popo N)\<lparr> ps_queues := (ps_queues (rp_popo N))(q := None) \<rparr>) N"

definition removeServerPort :: "roudi_config \<Rightarrow> nat \<Rightarrow> roudi_ports \<Rightarrow> roudi_ports" where
  "removeServerPort cfg i N = (remove_queue (rdc_serverQueueAddress cfg i) N)\<lparr> rp_servers := container_erase i (rp_servers N) \<rparr>"

definition removeClientPort :: "roudi_config \<Rightarrow> nat \<Rightarrow> roudi_ports \<Rightarrow> roudi_ports" where
  "removeClientPort cfg j N = (remove_queue (rdc_clientQueueAddress cfg j) N)\<lparr> rp_clients := container_erase j (rp_clients N) \<rparr>"

definition InterfacePortData_ctor :: "string \<Rightarrow> interfaces \<Rightarrow> u64 \<Rightarrow> capro_message list \<Rightarrow> interface_port_data" where
  "InterfacePortData_ctor runtimeName interface uniqueId buffer =
     \<lparr> bpd_serviceDescription = ServiceDescription_ctor '''' '''' '''' [0, 0, 0, 0] interface, bpd_runtimeName = runtimeName,
       bpd_nodeName = '''', bpd_uniqueId = uniqueId, bpd_toBeDestroyed = False, ipd_caproMessageFiFo = \<lparr> ff_data = buffer, ff_write_pos = 0, ff_read_pos = 0 \<rparr>,
       ipd_doInitialOfferForward = True \<rparr>"

definition addInterfacePort ::
  "roudi_config \<Rightarrow> string \<Rightarrow> interfaces \<Rightarrow> u64 \<Rightarrow> capro_message list \<Rightarrow> roudi_ports \<Rightarrow> ((port_pool_error + nat) \<times> roudi_ports) outcome" where
  "addInterfacePort cfg runtimeName interface uniqueId buffer N =
     (if hasFreeSpace (rdc_MAX_INTERFACE_NUMBER cfg) (pm_interfaces (rp_ports N))
      then (case container_insert (InterfacePortData_ctor runtimeName interface uniqueId buffer) (pm_interfaces (rp_ports N)) of (i, fs) \<Rightarrow>
            Inr (Inr i, N\<lparr> rp_ports := (rp_ports N)\<lparr> pm_interfaces := fs \<rparr> \<rparr>))
      else errorHandler (ROUDI PORT_POOL__INTERFACELIST_OVERFLOW) MODERATE (Inr (Inl INTERFACE_PORT_LIST_FULL, N)))"

definition removeInterfacePort :: "nat \<Rightarrow> roudi_ports \<Rightarrow> roudi_ports" where
  "removeInterfacePort i N = N\<lparr> rp_ports := (rp_ports N)\<lparr> pm_interfaces := container_erase i (pm_interfaces (rp_ports N)) \<rparr> \<rparr>"

definition addNodeData :: "roudi_config \<Rightarrow> string \<Rightarrow> string \<Rightarrow> u64 \<Rightarrow> roudi_ports \<Rightarrow> ((port_pool_error + nat) \<times> roudi_ports) outcome" where
  "addNodeData cfg runtimeName nodeName nodeDeviceIdentifier N =
     (if hasFreeSpace (rdc_MAX_NODE_NUMBER cfg) (rp_nodes N)
      then (case container_insert \<lparr> nd_runtimeName = runtimeName, nd_nodeName = nodeName,
                   nd_nodeDeviceIdentifier = nodeDeviceIdentifier, nd_toBeDestroyed = False \<rparr> (rp_nodes N) of (i, ns) \<Rightarrow>
            Inr (Inr i, N\<lparr> rp_nodes := ns \<rparr>))
      else errorHandler (ROUDI PORT_POOL__NODELIST_OVERFLOW) MODERATE (Inr (Inl NODE_DATA_LIST_FULL, N)))"

definition removeNodeData :: "nat \<Rightarrow> roudi_ports \<Rightarrow> roudi_ports" where
  "removeNodeData i N = N\<lparr> rp_nodes := container_erase i (rp_nodes N) \<rparr>"

definition addConditionVariableData :: "roudi_config \<Rightarrow> string \<Rightarrow> roudi_ports \<Rightarrow> ((port_pool_error + nat) \<times> roudi_ports) outcome" where
  "addConditionVariableData cfg runtimeName N =
     (if hasFreeSpace (rdc_MAX_NUMBER_OF_CONDITION_VARIABLES cfg) (rp_conditionVariables N)
      then (let a = rdc_conditionVariableAddress cfg (first_free (rp_conditionVariables N))
            in case container_insert a (rp_conditionVariables N) of (i, vs) \<Rightarrow>
               Inr (Inr i, (set_popo ((rp_popo N)\<lparr> ps_condvars := (ps_condvars (rp_popo N))(a \<mapsto> ConditionVariableData_ctor runtimeName) \<rparr>) N)
                             \<lparr> rp_conditionVariables := vs \<rparr>))
      else errorHandler (ROUDI PORT_POOL__CONDITION_VARIABLE_LIST_OVERFLOW) MODERATE (Inr (Inl CONDITION_VARIABLE_LIST_FULL, N)))"

definition removeConditionVariableData :: "roudi_config \<Rightarrow> nat \<Rightarrow> roudi_ports \<Rightarrow> roudi_ports" where
  "removeConditionVariableData cfg i N =
     (set_popo ((rp_popo N)\<lparr> ps_condvars := (ps_condvars (rp_popo N))(rdc_conditionVariableAddress cfg i := None) \<rparr>) N)
       \<lparr> rp_conditionVariables := container_erase i (rp_conditionVariables N) \<rparr>"

subsection \<open>The service registry\<close>

definition addServerToServiceRegistry :: "port_manager_config \<Rightarrow> service_description \<Rightarrow> port_manager \<Rightarrow> port_manager outcome" where
  "addServerToServiceRegistry cfg sd M =
     (case addServer (pmc_registryCapacity cfg) sd (pm_serviceRegistry M) of (r, R) \<Rightarrow>
        let continue = publishServiceRegistry cfg (M\<lparr> pm_serviceRegistry := R \<rparr>)
        in case r of Inr _ \<Rightarrow> continue
           | Inl _ \<Rightarrow> errorHandler (ROUDI POSH__PORT_MANAGER_COULD_NOT_ADD_SERVICE_TO_REGISTRY) MODERATE continue)"

definition removeServerFromServiceRegistry :: "port_manager_config \<Rightarrow> service_description \<Rightarrow> port_manager \<Rightarrow> port_manager outcome" where
  "removeServerFromServiceRegistry cfg sd M =
     publishServiceRegistry cfg (M\<lparr> pm_serviceRegistry := removeServer (pmc_registryCapacity cfg) sd (pm_serviceRegistry M) \<rparr>)"

subsection \<open>Passing on messages\<close>

definition isCompatibleClientServer :: "server_port_data \<Rightarrow> client_port_data \<Rightarrow> bool" where
  "isCompatibleClientServer server client =
     (if \<not> ServiceDescription_eq (bpd_serviceDescription server) (bpd_serviceDescription client) then False
      else (let requestMatch = (\<not> (ClientPortRouDi_getServerTooSlowPolicy client = DISCARD_OLDEST_DATA_OF_CONSUMER \<and>
                                   vpd_requestQueueFullPolicy server = BLOCK_PRODUCER));
                responseMatch = (\<not> (ServerPortRouDi_getClientTooSlowPolicy server = DISCARD_OLDEST_DATA_OF_CONSUMER \<and>
                                    cpd_responseQueueFullPolicy client = BLOCK_PRODUCER))
            in requestMatch \<and> responseMatch))"

fun client_ports_loop :: "rpc_config \<Rightarrow> capro_message \<Rightarrow> nat \<Rightarrow> nat list \<Rightarrow> roudi_ports \<Rightarrow> roudi_ports outcome" where
  "client_ports_loop cfg message i [] N = Inr N"
| "client_ports_loop cfg message i (j # js) N =
     with_server i N (\<lambda>v. with_client j N (\<lambda>c.
       if isCompatibleClientServer v c
       then obind (ClientPortRouDi_dispatch cfg message c (rp_popo N)) (\<lambda>(clientResponse, c1, P1).
              let N1 = set_popo P1 (put_client j c1 N)
              in case clientResponse of
                   None \<Rightarrow> client_ports_loop cfg message i js N1
                 | Some request \<Rightarrow>
                     Expects (cm_type request = CONNECT)
                       (obind (ServerPortRouDi_dispatch cfg request v (rp_popo N1)) (\<lambda>(serverResponse, v1, P2).
                          let N2 = set_popo P2 (put_server i v1 N1)
                          in case serverResponse of
                               None \<Rightarrow> client_ports_loop cfg message i js N2
                             | Some response \<Rightarrow>
                                 obind (ClientPortRouDi_dispatch cfg response c1 (rp_popo N2)) (\<lambda>(returnMessage, c2, P3).
                                 Expects (returnMessage = None)
                                   (client_ports_loop cfg message i js (set_popo P3 (put_client j c2 N2)))))))
       else client_ports_loop cfg message i js N))"

definition sendToAllMatchingClientPorts :: "rpc_config \<Rightarrow> capro_message \<Rightarrow> nat \<Rightarrow> roudi_ports \<Rightarrow> roudi_ports outcome" where
  "sendToAllMatchingClientPorts cfg message i N = client_ports_loop cfg message i (content (rp_clients N)) N"

fun server_ports_loop :: "rpc_config \<Rightarrow> capro_message \<Rightarrow> nat \<Rightarrow> nat list \<Rightarrow> bool \<Rightarrow> roudi_ports \<Rightarrow> (bool \<times> roudi_ports) outcome" where
  "server_ports_loop cfg message j [] serverFound N = Inr (serverFound, N)"
| "server_ports_loop cfg message j (i # is) serverFound N =
     with_server i N (\<lambda>v. with_client j N (\<lambda>c.
       if isCompatibleClientServer v c
       then obind (ServerPortRouDi_dispatch cfg message v (rp_popo N)) (\<lambda>(serverResponse, v1, P1).
              let N1 = set_popo P1 (put_server i v1 N)
              in case serverResponse of
                   None \<Rightarrow> server_ports_loop cfg message j is True N1
                 | Some response \<Rightarrow>
                     obind (ClientPortRouDi_dispatch cfg response c (rp_popo N1)) (\<lambda>(returnMessage, c1, P2).
                     Expects (returnMessage = None)
                       (server_ports_loop cfg message j is True (set_popo P2 (put_client j c1 N1)))))
       else server_ports_loop cfg message j is serverFound N))"

definition sendToAllMatchingServerPorts :: "rpc_config \<Rightarrow> capro_message \<Rightarrow> nat \<Rightarrow> roudi_ports \<Rightarrow> (bool \<times> roudi_ports) outcome" where
  "sendToAllMatchingServerPorts cfg message j N = server_ports_loop cfg message j (content (rp_servers N)) False N"

subsection \<open>Discovery of clients and servers\<close>

definition doDiscoveryForClientPort :: "roudi_config \<Rightarrow> nat \<Rightarrow> roudi_ports \<Rightarrow> roudi_ports outcome" where
  "doDiscoveryForClientPort cfg j N =
     with_client j N (\<lambda>c.
       obind (ClientPortRouDi_tryGetCaProMessage (rdc_rpc cfg) c (rp_popo N)) (\<lambda>(m, c1, P1).
       let N1 = set_popo P1 (put_client j c1 N)
       in case m of None \<Rightarrow> Inr N1
          | Some caproMessage \<Rightarrow>
              if cm_type caproMessage = CONNECT \<or> cm_type caproMessage = DISCONNECT
              then obind (sendToAllMatchingServerPorts (rdc_rpc cfg) caproMessage j N1) (\<lambda>(found, N2).
                   if \<not> found
                   then with_client j N2 (\<lambda>c2.
                        obind (ClientPortRouDi_dispatch (rdc_rpc cfg) (CaproMessage_ctor NACK (bpd_serviceDescription c2) CAPRO_NONE None) c2 (rp_popo N2))
                          (\<lambda>(returnMessage, c3, P3).
                          Expects (returnMessage = None) (Inr (set_popo P3 (put_client j c3 N2)))))
                   else Inr N2)
              else errorHandler (ROUDI PORT_MANAGER__HANDLE_CLIENT_PORTS_INVALID_CAPRO_MESSAGE) MODERATE (Inr N1)))"

definition doDiscoveryForServerPort :: "roudi_config \<Rightarrow> nat \<Rightarrow> roudi_ports \<Rightarrow> roudi_ports outcome" where
  "doDiscoveryForServerPort cfg i N =
     with_server i N (\<lambda>v.
       obind (ServerPortRouDi_tryGetCaProMessage (rdc_rpc cfg) v (rp_popo N)) (\<lambda>(m, v1, P1).
       let N1 = set_popo P1 (put_server i v1 N)
       in case m of None \<Rightarrow> Inr N1
          | Some caproMessage \<Rightarrow>
              (let continue = (\<lambda>N2.
                     obind (sendToAllMatchingClientPorts (rdc_rpc cfg) caproMessage i N2) (\<lambda>N3.
                     on_ports (sendToAllMatchingInterfacePorts (rdc_ports cfg) caproMessage) N3))
               in if cm_type caproMessage = OFFER
                  then obind (on_ports (addServerToServiceRegistry (rdc_ports cfg) (cm_serviceDescription caproMessage)) N1) continue
                  else if cm_type caproMessage = STOP_OFFER
                  then obind (on_ports (removeServerFromServiceRegistry (rdc_ports cfg) (cm_serviceDescription caproMessage)) N1) continue
                  else errorHandler (ROUDI PORT_MANAGER__HANDLE_SERVER_PORTS_INVALID_CAPRO_MESSAGE) MODERATE (Inr N1))))"

definition destroyClientPort :: "roudi_config \<Rightarrow> nat \<Rightarrow> roudi_ports \<Rightarrow> roudi_ports outcome" where
  "destroyClientPort cfg j N =
     with_client j N (\<lambda>c.
       obind (ClientPortRouDi_tryGetCaProMessage (rdc_rpc cfg) (ClientPortUser_disconnect c) (rp_popo N)) (\<lambda>(m, c1, P1).
       let N1 = set_popo P1 (put_client j c1 N)
       in obind (case m of None \<Rightarrow> Inr N1
                 | Some caproMessage \<Rightarrow>
                     Expects (cm_type caproMessage = DISCONNECT)
                       (obind (sendToAllMatchingServerPorts (rdc_rpc cfg) caproMessage j N1) (\<lambda>(_, N2). Inr N2))) (\<lambda>N2.
          with_client j N2 (\<lambda>c2.
          obind (ClientPortRouDi_releaseAllChunks (rdc_rpc cfg) c2 (rp_popo N2)) (\<lambda>(_, P3).
          Inr (removeClientPort cfg j (set_popo P3 N2)))))))"

definition destroyServerPort :: "roudi_config \<Rightarrow> nat \<Rightarrow> roudi_ports \<Rightarrow> roudi_ports outcome" where
  "destroyServerPort cfg i N =
     with_server i N (\<lambda>v.
       obind (ServerPortRouDi_tryGetCaProMessage (rdc_rpc cfg) (ServerPortUser_stopOffer v) (rp_popo N)) (\<lambda>(m, v1, P1).
       let N1 = set_popo P1 (put_server i v1 N)
       in obind (case m of None \<Rightarrow> Inr N1
                 | Some caproMessage \<Rightarrow>
                     Expects (cm_type caproMessage = STOP_OFFER)
                       (Expects (cm_serviceType caproMessage = CAPRO_SERVER)
                          (obind (on_ports (removeServerFromServiceRegistry (rdc_ports cfg) (cm_serviceDescription caproMessage)) N1) (\<lambda>N2.
                           obind (sendToAllMatchingClientPorts (rdc_rpc cfg) caproMessage i N2) (\<lambda>N3.
                           on_ports (sendToAllMatchingInterfacePorts (rdc_ports cfg) caproMessage) N3))))) (\<lambda>N4.
          with_server i N4 (\<lambda>v4.
          obind (ServerPortRouDi_releaseAllChunks (rdc_rpc cfg) v4 (rp_popo N4)) (\<lambda>(_, P5).
          Inr (removeServerPort cfg i (set_popo P5 N4)))))))"

fun clients_loop :: "roudi_config \<Rightarrow> nat list \<Rightarrow> roudi_ports \<Rightarrow> roudi_ports outcome" where
  "clients_loop cfg [] N = Inr N"
| "clients_loop cfg (j # js) N =
     obind (doDiscoveryForClientPort cfg j N) (\<lambda>N1.
     with_client j N1 (\<lambda>c.
       if bpd_toBeDestroyed c then obind (destroyClientPort cfg j N1) (\<lambda>N2. clients_loop cfg js N2)
       else clients_loop cfg js N1))"

definition handleClientPorts :: "roudi_config \<Rightarrow> roudi_ports \<Rightarrow> roudi_ports outcome" where
  "handleClientPorts cfg N = clients_loop cfg (content (rp_clients N)) N"

fun servers_loop :: "roudi_config \<Rightarrow> nat list \<Rightarrow> roudi_ports \<Rightarrow> roudi_ports outcome" where
  "servers_loop cfg [] N = Inr N"
| "servers_loop cfg (i # is) N =
     obind (doDiscoveryForServerPort cfg i N) (\<lambda>N1.
     with_server i N1 (\<lambda>v.
       if bpd_toBeDestroyed v then obind (destroyServerPort cfg i N1) (\<lambda>N2. servers_loop cfg is N2)
       else servers_loop cfg is N1))"

definition handleServerPorts :: "roudi_config \<Rightarrow> roudi_ports \<Rightarrow> roudi_ports outcome" where
  "handleServerPorts cfg N = servers_loop cfg (content (rp_servers N)) N"

text \<open>\<open>m_offeringRequested\<close> of a server is reset and the server is discovered.\<close>

definition stop_offer_server :: "roudi_config \<Rightarrow> nat \<Rightarrow> roudi_ports \<Rightarrow> roudi_ports outcome" where
  "stop_offer_server cfg i N =
     with_server i N (\<lambda>v. doDiscoveryForServerPort cfg i (put_server i (v\<lparr> vpd_offeringRequested := False \<rparr>) N))"

fun each_server :: "(nat \<Rightarrow> roudi_ports \<Rightarrow> roudi_ports outcome) \<Rightarrow> (server_port_data \<Rightarrow> bool) \<Rightarrow> nat list \<Rightarrow> roudi_ports \<Rightarrow> roudi_ports outcome" where
  "each_server f sel [] N = Inr N"
| "each_server f sel (i # is) N =
     with_server i N (\<lambda>v. obind (if sel v then f i N else Inr N) (\<lambda>N1. each_server f sel is N1))"

definition makeAllServerPortsToStopOffer :: "roudi_config \<Rightarrow> roudi_ports \<Rightarrow> roudi_ports outcome" where
  "makeAllServerPortsToStopOffer cfg N = each_server (stop_offer_server cfg) (\<lambda>_. True) (content (rp_servers N)) N"

definition unblockRouDiShutdown :: "roudi_config \<Rightarrow> roudi_ports \<Rightarrow> roudi_ports outcome" where
  "unblockRouDiShutdown cfg N =
     obind (on_ports (makeAllPublisherPortsToStopOffer (rdc_ports cfg)) N) (\<lambda>N1. makeAllServerPortsToStopOffer cfg N1)"

subsection \<open>Creation of clients and servers\<close>

definition acquireClientPortData ::
  "roudi_config \<Rightarrow> service_description \<Rightarrow> client_options \<Rightarrow> string \<Rightarrow> u64 \<Rightarrow> u64 \<Rightarrow> u32 list \<Rightarrow> u32 list \<Rightarrow> roudi_ports \<Rightarrow>
     ((port_pool_error + nat) \<times> roudi_ports) outcome" where
  "acquireClientPortData cfg service options runtimeName uniqueId queueId indices rindices N =
     obind (addClientPort cfg service runtimeName options uniqueId queueId indices rindices N) (\<lambda>(r, N1).
       case r of Inl e \<Rightarrow> Inr (Inl e, N1)
       | Inr j \<Rightarrow> obind (doDiscoveryForClientPort cfg j N1) (\<lambda>N2. Inr (Inr j, N2)))"

text \<open>The search for a server with the same description: ports that wait for their destruction are destroyed.\<close>

fun unique_server_loop :: "roudi_config \<Rightarrow> service_description \<Rightarrow> nat list \<Rightarrow> roudi_ports \<Rightarrow> (bool \<times> roudi_ports) outcome" where
  "unique_server_loop cfg service [] N = Inr (True, N)"
| "unique_server_loop cfg service (i # is) N =
     with_server i N (\<lambda>v.
       if ServiceDescription_eq service (bpd_serviceDescription v)
       then if bpd_toBeDestroyed v
            then obind (destroyServerPort cfg i N) (\<lambda>N1. unique_server_loop cfg service is N1)
            else errorHandler (ROUDI POSH__PORT_MANAGER_SERVERPORT_NOT_UNIQUE) MODERATE (Inr (False, N))
       else unique_server_loop cfg service is N)"

definition acquireServerPortData ::
  "roudi_config \<Rightarrow> service_description \<Rightarrow> server_options \<Rightarrow> string \<Rightarrow> u64 \<Rightarrow> u64 \<Rightarrow> u32 list \<Rightarrow> u32 list \<Rightarrow> roudi_ports \<Rightarrow>
     ((port_pool_error + nat) \<times> roudi_ports) outcome" where
  "acquireServerPortData cfg service options runtimeName uniqueId queueId indices rindices N =
     obind (unique_server_loop cfg service (content (rp_servers N)) N) (\<lambda>(unique, N1).
       if \<not> unique then Inr (Inl UNIQUE_SERVER_PORT_ALREADY_EXISTS, N1)
       else obind (addServerPort cfg service runtimeName options uniqueId queueId indices rindices N1) (\<lambda>(r, N2).
            case r of Inl e \<Rightarrow> Inr (Inl e, N2)
            | Inr i \<Rightarrow> obind (doDiscoveryForServerPort cfg i N2) (\<lambda>N3. Inr (Inr i, N3))))"

subsection \<open>Interfaces, nodes and condition variables\<close>

text \<open>The ports that get the initial offers; one that waits for its destruction is destroyed here.\<close>

fun interfaces_loop :: "nat list \<Rightarrow> nat list \<Rightarrow> roudi_ports \<Rightarrow> (nat list \<times> roudi_ports) outcome" where
  "interfaces_loop [] forwarding N = Inr (forwarding, N)"
| "interfaces_loop (i # is) forwarding N =
     (case slot (pm_interfaces (rp_ports N)) i of None \<Rightarrow> Inl NULLPTR_ACCESS
      | Some f \<Rightarrow>
          (let forwarding1 = (if ipd_doInitialOfferForward f then forwarding @ [i] else forwarding);
               f1 = (if ipd_doInitialOfferForward f then f\<lparr> ipd_doInitialOfferForward := False \<rparr> else f);
               N1 = N\<lparr> rp_ports := (rp_ports N)\<lparr> pm_interfaces := (pm_interfaces (rp_ports N))[i := Some f1] \<rparr> \<rparr>
           in interfaces_loop is forwarding1 (if bpd_toBeDestroyed f1 then removeInterfacePort i N1 else N1)))"

text \<open>An offer goes to the new interfaces but not to its own.\<close>

fun forward_loop :: "u64 \<Rightarrow> capro_message \<Rightarrow> nat list \<Rightarrow> roudi_ports \<Rightarrow> roudi_ports outcome" where
  "forward_loop Capacity message [] N = Inr N"
| "forward_loop Capacity message (i # is) N =
     (case slot (pm_interfaces (rp_ports N)) i of None \<Rightarrow> Inl NULLPTR_ACCESS
      | Some f \<Rightarrow>
          obind (if message_interface message \<noteq> port_interface f then InterfacePort_dispatchCaProMessage Capacity message f else Inr f) (\<lambda>f1.
          forward_loop Capacity message is
            (N\<lparr> rp_ports := (rp_ports N)\<lparr> pm_interfaces := (pm_interfaces (rp_ports N))[i := Some f1] \<rparr> \<rparr>)))"

fun forward_all :: "u64 \<Rightarrow> capro_service_type \<Rightarrow> service_description list \<Rightarrow> nat list \<Rightarrow> roudi_ports \<Rightarrow> roudi_ports outcome" where
  "forward_all Capacity serviceType [] forwarding N = Inr N"
| "forward_all Capacity serviceType (sd # sds) forwarding N =
     obind (forward_loop Capacity ((CaproMessage_ctor OFFER sd CAPRO_NONE None)\<lparr> cm_serviceType := serviceType \<rparr>) forwarding N) (\<lambda>N1.
     forward_all Capacity serviceType sds forwarding N1)"

definition PublisherPortUser_isOffered :: "publisher_port_data \<Rightarrow> bool" where
  "PublisherPortUser_isOffered p = ppd_offeringRequested p"

definition offered_publishers :: "roudi_ports \<Rightarrow> service_description list" where
  "offered_publishers N = map bpd_serviceDescription (filter PublisherPortUser_isOffered (List.map_filter id (pm_publishers (rp_ports N))))"

definition offered_servers :: "roudi_ports \<Rightarrow> service_description list" where
  "offered_servers N = map bpd_serviceDescription (filter ServerPortUser_isOffered (List.map_filter id (rp_servers N)))"

definition handleInterfaces :: "roudi_config \<Rightarrow> roudi_ports \<Rightarrow> roudi_ports outcome" where
  "handleInterfaces cfg N =
     obind (interfaces_loop (content (pm_interfaces (rp_ports N))) [] N) (\<lambda>(forwarding, N1).
       if length forwarding > 0
       then obind (forward_all (pmc_interfaceFifoSize (rdc_ports cfg)) CAPRO_PUBLISHER (offered_publishers N1) forwarding N1) (\<lambda>N2.
            forward_all (pmc_interfaceFifoSize (rdc_ports cfg)) CAPRO_SERVER (offered_servers N2) forwarding N2)
       else Inr N1)"

definition handleNodes :: "roudi_ports \<Rightarrow> roudi_ports" where
  "handleNodes N =
     fold (\<lambda>i N. case slot (rp_nodes N) i of Some d \<Rightarrow> if nd_toBeDestroyed d then removeNodeData i N else N | None \<Rightarrow> N)
       (content (rp_nodes N)) N"

fun condition_variables_loop ::
  "roudi_config \<Rightarrow> (condition_variable_data \<Rightarrow> bool) \<Rightarrow> nat list \<Rightarrow> roudi_ports \<Rightarrow> roudi_ports outcome" where
  "condition_variables_loop cfg sel [] N = Inr N"
| "condition_variables_loop cfg sel (i # is) N =
     (case Option.bind (slot (rp_conditionVariables N) i) (ps_condvars (rp_popo N)) of None \<Rightarrow> Inl NULLPTR_ACCESS
      | Some d \<Rightarrow> condition_variables_loop cfg sel is (if sel d then removeConditionVariableData cfg i N else N))"

definition handleConditionVariables :: "roudi_config \<Rightarrow> roudi_ports \<Rightarrow> roudi_ports outcome" where
  "handleConditionVariables cfg N = condition_variables_loop cfg cv_toBeDestroyed (content (rp_conditionVariables N)) N"

definition doDiscovery :: "roudi_config \<Rightarrow> roudi_ports \<Rightarrow> roudi_ports outcome" where
  "doDiscovery cfg N =
     obind (on_ports (handlePublisherPorts (rdc_ports cfg)) N) (\<lambda>N1.
     obind (on_ports (handleSubscriberPorts (rdc_ports cfg)) N1) (\<lambda>N2.
     obind (handleServerPorts cfg N2) (\<lambda>N3.
     obind (handleClientPorts cfg N3) (\<lambda>N4.
     obind (handleInterfaces cfg N4) (\<lambda>N5.
     handleConditionVariables cfg (handleNodes N5))))))"

subsection \<open>The end of a process\<close>

definition stop_offer_publisher :: "port_manager_config \<Rightarrow> nat \<Rightarrow> port_manager \<Rightarrow> port_manager outcome" where
  "stop_offer_publisher cfg i M =
     with_publisher i M (\<lambda>p. doDiscoveryForPublisherPort cfg i (put_publisher i (p\<lparr> ppd_offeringRequested := False \<rparr>) M))"

fun each_publisher :: "(nat \<Rightarrow> port_manager \<Rightarrow> port_manager outcome) \<Rightarrow> string \<Rightarrow> nat list \<Rightarrow> port_manager \<Rightarrow> port_manager outcome" where
  "each_publisher f runtimeName [] M = Inr M"
| "each_publisher f runtimeName (i # is) M =
     with_publisher i M (\<lambda>p. obind (if runtimeName = bpd_runtimeName p then f i M else Inr M) (\<lambda>M1. each_publisher f runtimeName is M1))"

fun each_subscriber :: "(nat \<Rightarrow> port_manager \<Rightarrow> port_manager outcome) \<Rightarrow> string \<Rightarrow> nat list \<Rightarrow> port_manager \<Rightarrow> port_manager outcome" where
  "each_subscriber f runtimeName [] M = Inr M"
| "each_subscriber f runtimeName (j # js) M =
     with_subscriber j M (\<lambda>s. obind (if runtimeName = bpd_runtimeName s then f j M else Inr M) (\<lambda>M1. each_subscriber f runtimeName js M1))"

fun each_client :: "(nat \<Rightarrow> roudi_ports \<Rightarrow> roudi_ports outcome) \<Rightarrow> string \<Rightarrow> nat list \<Rightarrow> roudi_ports \<Rightarrow> roudi_ports outcome" where
  "each_client f runtimeName [] N = Inr N"
| "each_client f runtimeName (j # js) N =
     with_client j N (\<lambda>c. obind (if runtimeName = bpd_runtimeName c then f j N else Inr N) (\<lambda>N1. each_client f runtimeName js N1))"

definition unblockProcessShutdown :: "roudi_config \<Rightarrow> string \<Rightarrow> roudi_ports \<Rightarrow> roudi_ports outcome" where
  "unblockProcessShutdown cfg runtimeName N =
     obind (on_ports (\<lambda>M. each_publisher (stop_offer_publisher (rdc_ports cfg)) runtimeName (content (pm_publishers M)) M) N) (\<lambda>N1.
     each_server (stop_offer_server cfg) (\<lambda>v. runtimeName = bpd_runtimeName v) (content (rp_servers N1)) N1)"

definition remove_interfaces_of :: "string \<Rightarrow> roudi_ports \<Rightarrow> roudi_ports" where
  "remove_interfaces_of runtimeName N =
     fold (\<lambda>i N. case slot (pm_interfaces (rp_ports N)) i of
                   Some f \<Rightarrow> if runtimeName = bpd_runtimeName f then removeInterfacePort i N else N | None \<Rightarrow> N)
       (content (pm_interfaces (rp_ports N))) N"

definition remove_nodes_of :: "string \<Rightarrow> roudi_ports \<Rightarrow> roudi_ports" where
  "remove_nodes_of runtimeName N =
     fold (\<lambda>i N. case slot (rp_nodes N) i of Some d \<Rightarrow> if runtimeName = nd_runtimeName d then removeNodeData i N else N | None \<Rightarrow> N)
       (content (rp_nodes N)) N"

definition deletePortsOfProcess :: "roudi_config \<Rightarrow> string \<Rightarrow> roudi_ports \<Rightarrow> roudi_ports outcome" where
  "deletePortsOfProcess cfg runtimeName N =
     (let N0 = (if runtimeName = pmc_roudiName (rdc_ports cfg)
                then N\<lparr> rp_ports := (rp_ports N)\<lparr> pm_serviceRegistryPublisherPortData := None \<rparr> \<rparr> else N)
      in obind (on_ports (\<lambda>M. each_publisher (destroyPublisherPort (rdc_ports cfg)) runtimeName (content (pm_publishers M)) M) N0) (\<lambda>N1.
         obind (on_ports (\<lambda>M. each_subscriber (destroySubscriberPort (rdc_ports cfg)) runtimeName (content (pm_subscribers M)) M) N1) (\<lambda>N2.
         obind (each_server (destroyServerPort cfg) (\<lambda>v. runtimeName = bpd_runtimeName v) (content (rp_servers N2)) N2) (\<lambda>N3.
         obind (each_client (destroyClientPort cfg) runtimeName (content (rp_clients N3)) N3) (\<lambda>N4.
         let N6 = remove_nodes_of runtimeName (remove_interfaces_of runtimeName N4)
         in condition_variables_loop cfg (\<lambda>d. runtimeName = cv_runtimeName d) (content (rp_conditionVariables N6)) N6)))))"

subsection \<open>Creation of the other data\<close>

definition acquireInternalPublisherPortDataWithoutDiscovery ::
  "port_manager_config \<Rightarrow> service_description \<Rightarrow> publisher_options \<Rightarrow> u64 \<Rightarrow> u32 list \<Rightarrow> port_manager \<Rightarrow> (nat \<times> port_manager) outcome" where
  "acquireInternalPublisherPortDataWithoutDiscovery cfg service options uniqueId indices M =
     obind (acquirePublisherPortDataWithoutDiscovery cfg service options (pmc_roudiName cfg) uniqueId indices M) (\<lambda>(r, M1).
       case r of Inl e \<Rightarrow> Inl (ROUDI PORT_MANAGER__NO_PUBLISHER_PORT_FOR_INTERNAL_SERVICE)
       | Inr i \<Rightarrow> Inr (i, M1))"

definition acquireInternalPublisherPortData ::
  "port_manager_config \<Rightarrow> service_description \<Rightarrow> publisher_options \<Rightarrow> u64 \<Rightarrow> u32 list \<Rightarrow> port_manager \<Rightarrow> (nat \<times> port_manager) outcome" where
  "acquireInternalPublisherPortData cfg service options uniqueId indices M =
     obind (acquireInternalPublisherPortDataWithoutDiscovery cfg service options uniqueId indices M) (\<lambda>(i, M1).
     obind (doDiscoveryForPublisherPort cfg i M1) (\<lambda>M2. Inr (i, M2)))"

definition acquireInterfacePortData ::
  "roudi_config \<Rightarrow> interfaces \<Rightarrow> string \<Rightarrow> u64 \<Rightarrow> capro_message list \<Rightarrow> roudi_ports \<Rightarrow> (nat pointer \<times> roudi_ports) outcome" where
  "acquireInterfacePortData cfg interface runtimeName uniqueId buffer N =
     obind (addInterfacePort cfg runtimeName interface uniqueId buffer N) (\<lambda>(r, N1).
     Inr (case r of Inr i \<Rightarrow> Some i | Inl _ \<Rightarrow> None, N1))"

definition acquireNodeData :: "roudi_config \<Rightarrow> string \<Rightarrow> string \<Rightarrow> roudi_ports \<Rightarrow> ((port_pool_error + nat) \<times> roudi_ports) outcome" where
  "acquireNodeData cfg runtimeName nodeName N = addNodeData cfg runtimeName nodeName 0 N"

definition acquireConditionVariableData :: "roudi_config \<Rightarrow> string \<Rightarrow> roudi_ports \<Rightarrow> ((port_pool_error + nat) \<times> roudi_ports) outcome" where
  "acquireConditionVariableData cfg runtimeName N = addConditionVariableData cfg runtimeName N"

end
