(* ===== verification/Rpc_Connections.thy ===== *)
theory Rpc_Connections
  imports Discovery
begin

section \<open>The connections between clients and servers\<close>

text \<open>
  The invariant of RouDi's handling of clients and servers: a client is connected exactly if an offered, compatible server has the
  queue of the client, and then the client sends to the queue of this server only. Between two operations of RouDi no client
  is in one of the transient states of the protocol.
\<close>

abbreviation squeues :: "server_port_data \<Rightarrow> address list" where
  "squeues v \<equiv> cdd_queues (csd_distributor (vpd_chunkSenderData v))"

abbreviation cqueues :: "client_port_data \<Rightarrow> address list" where
  "cqueues c \<equiv> cdd_queues (csd_distributor (cpd_chunkSenderData c))"

abbreviation connected :: "client_port_data \<Rightarrow> bool" where
  "connected c \<equiv> cpd_connectionState c = CONNECTED"

subsection \<open>What the protocol does not change\<close>

definition same_server :: "server_port_data \<Rightarrow> server_port_data \<Rightarrow> bool" where
  "same_server v v' \<longleftrightarrow> bpd_serviceDescription v' = bpd_serviceDescription v \<and> vpd_requestQueueFullPolicy v' = vpd_requestQueueFullPolicy v \<and>
     ServerPortRouDi_getClientTooSlowPolicy v' = ServerPortRouDi_getClientTooSlowPolicy v \<and> vpd_queue v' = vpd_queue v"

definition same_client :: "client_port_data \<Rightarrow> client_port_data \<Rightarrow> bool" where
  "same_client c c' \<longleftrightarrow> bpd_serviceDescription c' = bpd_serviceDescription c \<and> cpd_responseQueueFullPolicy c' = cpd_responseQueueFullPolicy c \<and>
     ClientPortRouDi_getServerTooSlowPolicy c' = ClientPortRouDi_getServerTooSlowPolicy c \<and> cpd_queue c' = cpd_queue c"

lemma same_refl [simp]: "same_server v v" "same_client c c"
  by (simp_all add: same_server_def same_client_def)

lemma same_compatible:
  "same_server v v' \<Longrightarrow> isCompatibleClientServer v' c = isCompatibleClientServer v c"
  "same_client c c' \<Longrightarrow> isCompatibleClientServer v c' = isCompatibleClientServer v c"
  by (simp_all add: same_server_def same_client_def isCompatibleClientServer_def)

lemma same_trans: "same_server v v' \<Longrightarrow> same_server v' v'' \<Longrightarrow> same_server v v''" "same_client c c' \<Longrightarrow> same_client c' c'' \<Longrightarrow> same_client c c''"
  by (simp_all add: same_server_def same_client_def)

definition set_client :: "connection_state \<Rightarrow> address list \<Rightarrow> client_port_data \<Rightarrow> client_port_data" where
  "set_client st qs c = (with_client_distributor ((csd_distributor (cpd_chunkSenderData c))\<lparr> cdd_queues := qs \<rparr>) c)\<lparr> cpd_connectionState := st \<rparr>"

definition set_server :: "bool \<Rightarrow> address list \<Rightarrow> server_port_data \<Rightarrow> server_port_data" where
  "set_server off qs v = (with_server_distributor ((csd_distributor (vpd_chunkSenderData v))\<lparr> cdd_queues := qs \<rparr>) v)\<lparr> vpd_offered := off \<rparr>"

lemma set_client_simps [simp]:
  "cqueues (set_client st qs c) = qs" "cpd_connectionState (set_client st qs c) = st" "same_client c (set_client st qs c)"
  "cpd_queue (set_client st qs c) = cpd_queue c" "set_client st qs (set_client st' qs' c) = set_client st qs c"
  "bpd_toBeDestroyed (set_client st qs c) = bpd_toBeDestroyed c" "bpd_serviceDescription (set_client st qs c) = bpd_serviceDescription c"
  "isCompatibleClientServer v (set_client st qs c) = isCompatibleClientServer v c"
  by (simp_all add: set_client_def with_client_distributor_def same_client_def ClientPortRouDi_getServerTooSlowPolicy_def isCompatibleClientServer_def)

lemma set_server_simps [simp]:
  "squeues (set_server off qs v) = qs" "vpd_offered (set_server off qs v) = off" "same_server v (set_server off qs v)"
  "vpd_queue (set_server off qs v) = vpd_queue v" "bpd_serviceDescription (set_server off qs v) = bpd_serviceDescription v"
  "bpd_toBeDestroyed (set_server off qs v) = bpd_toBeDestroyed v"
  "isCompatibleClientServer (set_server off qs v) c = isCompatibleClientServer v c"
  by (simp_all add: set_server_def with_server_distributor_def same_server_def ServerPortRouDi_getClientTooSlowPolicy_def isCompatibleClientServer_def)

lemma set_same: "cpd_connectionState c = st \<Longrightarrow> cqueues c = qs \<Longrightarrow> set_client st qs c = c"
  "vpd_offered v = off \<Longrightarrow> squeues v = qs \<Longrightarrow> set_server off qs v = v"
  by (auto simp: set_client_def with_client_distributor_def set_server_def with_server_distributor_def)

lemma set_state: "cqueues c = qs \<Longrightarrow> c\<lparr> cpd_connectionState := st \<rparr> = set_client st qs c"
  "squeues v = qs \<Longrightarrow> v\<lparr> vpd_offered := off \<rparr> = set_server off qs v"
  by (auto simp: set_client_def with_client_distributor_def set_server_def with_server_distributor_def)

subsection \<open>One client and one server\<close>

text \<open>The result of a request to connect.\<close>

definition accepts :: "nat \<Rightarrow> server_port_data \<Rightarrow> client_port_data \<Rightarrow> bool" where
  "accepts n v c \<longleftrightarrow> vpd_offered v \<and> (cpd_queue c \<in> set (squeues v) \<or> length (squeues v) < n)"

definition connected_server :: "nat \<Rightarrow> server_port_data \<Rightarrow> client_port_data \<Rightarrow> server_port_data" where
  "connected_server n v c =
     (if accepts n v c \<and> cpd_queue c \<notin> set (squeues v) then set_server True (squeues v @ [cpd_queue c]) v else v)"

definition connected_client :: "nat \<Rightarrow> server_port_data \<Rightarrow> client_port_data \<Rightarrow> client_port_data" where
  "connected_client n v c = (if accepts n v c then set_client CONNECTED [vpd_queue v] c else set_client CONNECTION_WAIT_FOR_OFFER [] c)"

lemma connect_message_simps [simp]:
  "cm_type (connect_message c) = CONNECT" "cm_chunkQueueData (connect_message c) = Some (cpd_queue c)" "cm_historyCapacity (connect_message c) = 0"
  "cm_type (disconnect_message c) = DISCONNECT" "cm_chunkQueueData (disconnect_message c) = Some (cpd_queue c)"
  by (simp_all add: connect_message_def disconnect_message_def CaproMessage_ctor_def)

lemma connect_message_set [simp]: "connect_message (set_client st qs c) = connect_message c" "disconnect_message (set_client st qs c) = disconnect_message c"
  by (simp_all add: connect_message_def disconnect_message_def)

lemma CaproMessage_type [simp]: "cm_type (CaproMessage_ctor t sd st q) = t"
  by (simp add: CaproMessage_ctor_def)

lemma tryAddQueue_ret:
  assumes "tryAddQueue MaxQueues Capacity q h D P = Inr (ret, D', P')"
  shows "isl ret \<longleftrightarrow> q \<notin> set (cdd_queues D) \<and> \<not> length (cdd_queues D) < MaxQueues"
  using assms by (auto simp: tryAddQueue_def locked_def Let_def split: if_splits)

lemma server_connect:
  assumes "ServerPortRouDi_dispatch cfg (connect_message c) v P = Inr (r, v', P')"
  obtains a where "r = Some a" "v' = connected_server (rc_MaxClientsPerServer cfg) v c"
    "if accepts (rc_MaxClientsPerServer cfg) v c then cm_type a = ACK \<and> cm_chunkQueueData a = Some (vpd_queue v) else cm_type a = NACK"
proof (cases "vpd_offered v")
  case False
  with assms that show thesis
    by (auto simp: ServerPortRouDi_dispatch_def handleCaProMessageForStateNotOffered_def connected_server_def accepts_def)
next
  case True
  let ?D = "csd_distributor (vpd_chunkSenderData v)"
  obtain ret D' where t: "tryAddQueue (rc_MaxClientsPerServer cfg) (rc_ResponseCapacity cfg) (cpd_queue c) 0 ?D P = Inr (ret, D', P')"
    and v': "v' = with_server_distributor D' v"
    and r: "r = Some (case ret of Inl _ \<Rightarrow> CaproMessage_ctor NACK (bpd_serviceDescription v) CAPRO_NONE None
      | Inr _ \<Rightarrow> (CaproMessage_ctor NACK (bpd_serviceDescription v) CAPRO_NONE None)\<lparr> cm_type := ACK, cm_chunkQueueData := Some (vpd_queue v), cm_historyCapacity := 0 \<rparr>)"
    using assms True by (auto simp: ServerPortRouDi_dispatch_def handleCaProMessageForStateOffered_def Let_def)
  have "v' = connected_server (rc_MaxClientsPerServer cfg) v c"
    using tryAddQueue_result [OF t] True v'
    by (auto simp: connected_server_def accepts_def set_server_def with_server_distributor_def)
  with that [OF r] tryAddQueue_ret [OF t] True show thesis by (cases ret) (auto simp: accepts_def)
qed

lemma client_answer:
  assumes "ClientPortRouDi_dispatch cfg a c P = Inr (r, c', P')" "cpd_connectionState c = CONNECT_REQUESTED" "cqueues c = []"
    and "if accepts n v c then cm_type a = ACK \<and> cm_chunkQueueData a = Some (vpd_queue v) else cm_type a = NACK"
  shows "r = None \<and> c' = connected_client n v c"
proof (cases "accepts n v c")
  case False
  with assms show ?thesis
    by (auto simp: ClientPortRouDi_dispatch_def handleCaProMessageForStateConnectRequested_def connected_client_def set_state(1))
next
  case True
  let ?D = "csd_distributor (cpd_chunkSenderData c)"
  obtain ret D where t: "tryAddQueue 1 (rc_RequestCapacity cfg) (vpd_queue v) (cm_historyCapacity a) ?D P = Inr (ret, D, P')"
    and r: "r = None" "c' = (with_client_distributor D c)\<lparr> cpd_connectionState := CONNECTED \<rparr>"
    using assms True by (auto simp: ClientPortRouDi_dispatch_def handleCaProMessageForStateConnectRequested_def not_null_def Expects_def split: if_splits)
  have "D = ?D\<lparr> cdd_queues := [vpd_queue v] \<rparr>" using tryAddQueue_result [OF t] assms(3) by simp
  with r True show ?thesis by (simp add: connected_client_def set_client_def)
qed

text \<open>The end of a connection, from either side.\<close>

lemma server_disconnect:
  assumes "ServerPortRouDi_dispatch cfg (disconnect_message c) v P = Inr (r, v', P')"
  obtains a where "r = Some a" "v' = set_server (vpd_offered v) (if vpd_offered v then remove1 (cpd_queue c) (squeues v) else squeues v) v"
    "cm_type a = ACK \<or> cm_type a = NACK"
proof (cases "vpd_offered v")
  case False
  with assms that show thesis
    by (auto simp: ServerPortRouDi_dispatch_def handleCaProMessageForStateNotOffered_def set_same)
next
  case True
  obtain ret D' where t: "tryRemoveQueue (cpd_queue c) (csd_distributor (vpd_chunkSenderData v)) = Inr (ret, D')" "v' = with_server_distributor D' v"
    and r: "r = Some (case ret of Inl _ \<Rightarrow> CaproMessage_ctor NACK (bpd_serviceDescription v) CAPRO_NONE None
      | Inr _ \<Rightarrow> (CaproMessage_ctor NACK (bpd_serviceDescription v) CAPRO_NONE None)\<lparr> cm_type := ACK \<rparr>)"
    using assms True by (auto simp: ServerPortRouDi_dispatch_def handleCaProMessageForStateOffered_def not_null_def Let_def)
  have "v' = set_server True (remove1 (cpd_queue c) (squeues v)) v"
    using tryRemoveQueue_result [OF t(1)] t(2) True by (simp add: set_server_def with_server_distributor_def)
  with that [OF r] True show thesis by (cases ret) auto
qed

lemma client_disconnect_answer:
  assumes "cpd_connectionState c = DISCONNECT_REQUESTED" "cm_type a = ACK \<or> cm_type a = NACK"
  shows "ClientPortRouDi_dispatch cfg a c P = Inr (None, c\<lparr> cpd_connectionState := NOT_CONNECTED \<rparr>, P)"
  using assms by (auto simp: ClientPortRouDi_dispatch_def handleCaProMessageForStateDisconnectRequested_def)

text \<open>The messages of a client to RouDi.\<close>

lemma client_get:
  "cpd_connectionState c = NOT_CONNECTED \<Longrightarrow> cpd_connectRequested c \<Longrightarrow>
     ClientPortRouDi_tryGetCaProMessage cfg c P = Inr (Some (connect_message c), c\<lparr> cpd_connectionState := CONNECT_REQUESTED \<rparr>, P)"
  "cpd_connectionState c = CONNECTION_WAIT_FOR_OFFER \<Longrightarrow> \<not> cpd_connectRequested c \<Longrightarrow>
     ClientPortRouDi_tryGetCaProMessage cfg c P = Inr (None, c\<lparr> cpd_connectionState := NOT_CONNECTED \<rparr>, P)"
  "connected c \<Longrightarrow> \<not> cpd_connectRequested c \<Longrightarrow>
     ClientPortRouDi_tryGetCaProMessage cfg c P = locked (csd_distributor (cpd_chunkSenderData c)) (Inr (Some (disconnect_message c), set_client DISCONNECT_REQUESTED [] c, P))"
  "cpd_connectRequested c \<longleftrightarrow> cpd_connectionState c \<noteq> NOT_CONNECTED \<Longrightarrow> ClientPortRouDi_tryGetCaProMessage cfg c P = Inr (None, c, P)"
  by (auto simp: ClientPortRouDi_tryGetCaProMessage_def ClientPortRouDi_dispatch_def handleCaProMessageForStateNotConnected_def
      handleCaProMessageForStateWaitForOffer_def handleCaProMessageForStateConnected_def removeAllQueues_def locked_def set_client_def Let_def)

lemma client_message_cases:
  assumes run: "ClientPortRouDi_tryGetCaProMessage cfg c P = Inr (m, c', P')"
    and st: "cpd_connectionState c \<in> {NOT_CONNECTED, CONNECTION_WAIT_FOR_OFFER, CONNECTED}" and qs: "\<not> connected c \<Longrightarrow> cqueues c = []"
  obtains (none) "m = None" "c' = c" "P' = P"
  | (stop_waiting) "m = None" "c' = set_client NOT_CONNECTED [] c" "cpd_connectionState c = CONNECTION_WAIT_FOR_OFFER" "P' = P" "\<not> cpd_connectRequested c"
  | (connect) "m = Some (connect_message c)" "c' = set_client CONNECT_REQUESTED [] c" "cpd_connectionState c = NOT_CONNECTED" "P' = P" "cpd_connectRequested c"
  | (disconnect) "m = Some (disconnect_message c)" "c' = set_client DISCONNECT_REQUESTED [] c" "connected c" "P' = P" "\<not> cpd_connectRequested c"
proof (cases "cpd_connectRequested c \<longleftrightarrow> cpd_connectionState c \<noteq> NOT_CONNECTED")
  case True
  with run none show thesis by (simp add: client_get)
next
  case False
  from st consider "cpd_connectionState c = NOT_CONNECTED" | "cpd_connectionState c = CONNECTION_WAIT_FOR_OFFER" | "connected c" by blast
  then show thesis
  proof cases
    case 1
    then have req: "cpd_connectRequested c" and q: "cqueues c = []" using False qs by auto
    from run client_get(1) [OF 1 req] set_state(1) [OF q] have "m = Some (connect_message c)" "c' = set_client CONNECT_REQUESTED [] c" "P' = P" by auto
    with connect 1 req show thesis by blast
  next
    case 2
    then have req: "\<not> cpd_connectRequested c" and q: "cqueues c = []" using False qs by auto
    from run client_get(2) [OF 2 req] set_state(1) [OF q] have "m = None" "c' = set_client NOT_CONNECTED [] c" "P' = P" by auto
    with stop_waiting 2 req show thesis by blast
  next
    case 3
    then have req: "\<not> cpd_connectRequested c" using False by auto
    from run client_get(3) [OF 3 req] have "m = Some (disconnect_message c)" "c' = set_client DISCONNECT_REQUESTED [] c" "P' = P"
      by (auto simp: locked_def split: if_splits)
    with disconnect 3 req show thesis by blast
  qed
qed

definition server_message :: "capro_message_type \<Rightarrow> server_port_data \<Rightarrow> capro_message" where
  "server_message t v = (CaproMessage_ctor t (bpd_serviceDescription v) CAPRO_NONE None)\<lparr> cm_serviceType := CAPRO_SERVER \<rparr>"

lemma server_message_simps [simp]: "cm_type (server_message t v) = t" "cm_serviceType (server_message t v) = CAPRO_SERVER"
  by (simp_all add: server_message_def)

lemma server_get:
  "vpd_offered v \<Longrightarrow> \<not> vpd_offeringRequested v \<Longrightarrow>
     ServerPortRouDi_tryGetCaProMessage cfg v P = locked (csd_distributor (vpd_chunkSenderData v)) (Inr (Some (server_message STOP_OFFER v), set_server False [] v, P))"
  "\<not> vpd_offered v \<Longrightarrow> vpd_offeringRequested v \<Longrightarrow>
     ServerPortRouDi_tryGetCaProMessage cfg v P = Inr (Some (server_message OFFER v), v\<lparr> vpd_offered := True \<rparr>, P)"
  "vpd_offered v = vpd_offeringRequested v \<Longrightarrow> ServerPortRouDi_tryGetCaProMessage cfg v P = Inr (None, v, P)"
  by (auto simp: ServerPortRouDi_tryGetCaProMessage_def ServerPortRouDi_dispatch_def handleCaProMessageForStateNotOffered_def
      handleCaProMessageForStateOffered_def removeAllQueues_def locked_def Let_def set_server_def server_message_def)

lemma server_message_cases:
  assumes run: "ServerPortRouDi_tryGetCaProMessage cfg v P = Inr (m, v', P')"
  obtains (none) "m = None" "v' = v" "P' = P" "vpd_offered v = vpd_offeringRequested v"
  | (offer) "m = Some (server_message OFFER v)" "v' = set_server True (squeues v) v" "\<not> vpd_offered v" "P' = P" "vpd_offeringRequested v"
  | (stop) "m = Some (server_message STOP_OFFER v)" "v' = set_server False [] v" "vpd_offered v" "P' = P" "\<not> vpd_offeringRequested v"
proof (cases "vpd_offered v = vpd_offeringRequested v")
  case True
  with run none show thesis by (simp add: server_get)
next
  case False
  show thesis
  proof (cases "vpd_offered v")
    case True
    with False run server_get(1) [of v cfg P] stop show thesis by (auto simp: locked_def split: if_splits)
  next
    case nof: False
    then have req: "vpd_offeringRequested v" using False by simp
    have "v\<lparr> vpd_offered := True \<rparr> = set_server True (squeues v) v" by (rule set_state) simp
    with run server_get(2) [OF nof req, of cfg P] have "m = Some (server_message OFFER v)" "v' = set_server True (squeues v) v" "P' = P" by auto
    with offer nof req show thesis by blast
  qed
qed

subsection \<open>The invariant\<close>

text \<open>The queues of the connected clients that are compatible with a server.\<close>

definition linked_queues :: "roudi_ports \<Rightarrow> server_port_data \<Rightarrow> address set" where
  "linked_queues N v = {q. \<exists>j c. slot (rp_clients N) j = Some c \<and> connected c \<and> isCompatibleClientServer v c \<and> q = cpd_queue c}"

definition client_ok :: "roudi_ports \<Rightarrow> client_port_data \<Rightarrow> bool" where
  "client_ok N c \<longleftrightarrow> cpd_connectionState c \<in> {NOT_CONNECTED, CONNECTION_WAIT_FOR_OFFER, CONNECTED} \<and>
     (if connected c
      then \<exists>i v. slot (rp_servers N) i = Some v \<and> vpd_offered v \<and> isCompatibleClientServer v c \<and> cqueues c = [vpd_queue v]
      else cqueues c = [])"

definition server_ok :: "roudi_ports \<Rightarrow> server_port_data \<Rightarrow> bool" where
  "server_ok N v \<longleftrightarrow> distinct (squeues v) \<and> (\<not> vpd_offered v \<longrightarrow> squeues v = []) \<and> set (squeues v) = linked_queues N v"

definition rpc_base :: "roudi_config \<Rightarrow> roudi_ports \<Rightarrow> bool" where
  "rpc_base cfg N \<longleftrightarrow> length (rp_clients N) \<le> rdc_MAX_CLIENTS cfg \<and>
     (\<forall>j c. slot (rp_clients N) j = Some c \<longrightarrow> cpd_queue c = rdc_clientQueueAddress cfg j) \<and>
     (\<forall>i v. slot (rp_servers N) i = Some v \<longrightarrow> vpd_queue v = rdc_serverQueueAddress cfg i) \<and>
     (\<forall>i i' v v'. slot (rp_servers N) i = Some v \<longrightarrow> slot (rp_servers N) i' = Some v' \<longrightarrow>
        ServiceDescription_eq (bpd_serviceDescription v) (bpd_serviceDescription v') \<longrightarrow> i = i')"

definition rpc_ok :: "roudi_config \<Rightarrow> roudi_ports \<Rightarrow> bool" where
  "rpc_ok cfg N \<longleftrightarrow> rpc_base cfg N \<and> (\<forall>j c. slot (rp_clients N) j = Some c \<longrightarrow> client_ok N c) \<and>
     (\<forall>i v. slot (rp_servers N) i = Some v \<longrightarrow> server_ok N v)"

definition rpc_config_ok :: "roudi_config \<Rightarrow> bool" where
  "rpc_config_ok cfg \<longleftrightarrow> inj_on (rdc_clientQueueAddress cfg) {..<rdc_MAX_CLIENTS cfg}"

lemma rpc_ok_cong:
  assumes "rp_servers N' = rp_servers N" "rp_clients N' = rp_clients N"
  shows "rpc_ok cfg N' = rpc_ok cfg N"
  using assms by (simp add: rpc_ok_def rpc_base_def client_ok_def server_ok_def linked_queues_def)

lemma rpc_frames [simp]:
  "rp_servers (set_popo P N) = rp_servers N" "rp_clients (set_popo P N) = rp_clients N"
  "rp_servers (put_client j c N) = rp_servers N" "rp_clients (put_server i v N) = rp_clients N"
  "slot (rp_clients (put_client j c N)) k = (if k = j \<and> j < length (rp_clients N) then Some c else slot (rp_clients N) k)"
  "slot (rp_servers (put_server i v N)) k = (if k = i \<and> i < length (rp_servers N) then Some v else slot (rp_servers N) k)"
  "length (rp_clients (put_client j c N)) = length (rp_clients N)" "length (rp_servers (put_server i v N)) = length (rp_servers N)"
  by (simp_all add: set_popo_def put_client_def put_server_def slot_update)

lemma set_popo_ok [simp]: "rpc_ok cfg (set_popo P N) = rpc_ok cfg N"
  by (rule rpc_ok_cong) simp_all

lemma on_ports_frames: "on_ports f N = Inr N' \<Longrightarrow> rp_servers N' = rp_servers N \<and> rp_clients N' = rp_clients N"
  by (auto simp: on_ports_def)

lemma with_port_Inr:
  "with_server i N k = Inr r \<longleftrightarrow> (\<exists>v. slot (rp_servers N) i = Some v \<and> k v = Inr r)"
  "with_client j N h = Inr r' \<longleftrightarrow> (\<exists>c. slot (rp_clients N) j = Some c \<and> h c = Inr r')"
  by (simp_all add: with_server_def with_client_def split: option.split)

lemma compatible_key: "isCompatibleClientServer v c \<Longrightarrow> service_key (bpd_serviceDescription v) = service_key (bpd_serviceDescription c)"
  by (simp add: isCompatibleClientServer_def ServiceDescription_eq_key split: if_splits)

lemma compatible_unique:
  assumes "rpc_base cfg N" "slot (rp_servers N) i = Some v" "slot (rp_servers N) i' = Some v'" "isCompatibleClientServer v c" "isCompatibleClientServer v' c"
  shows "i = i'"
proof -
  have "ServiceDescription_eq (bpd_serviceDescription v) (bpd_serviceDescription v')"
    using compatible_key [OF assms(4)] compatible_key [OF assms(5)] by (simp add: ServiceDescription_eq_key)
  with assms(1-3) show ?thesis by (auto simp: rpc_base_def)
qed

lemma client_queue_inj:
  assumes "rpc_base cfg N" "rpc_config_ok cfg" "slot (rp_clients N) k = Some c'" "slot (rp_clients N) j = Some c" "cpd_queue c' = cpd_queue c"
  shows "k = j"
proof (rule inj_onD)
  show "inj_on (rdc_clientQueueAddress cfg) {..<rdc_MAX_CLIENTS cfg}" using assms(2) by (simp add: rpc_config_ok_def)
  show "rdc_clientQueueAddress cfg k = rdc_clientQueueAddress cfg j" using assms by (simp add: rpc_base_def)
  show "k \<in> {..<rdc_MAX_CLIENTS cfg}" "j \<in> {..<rdc_MAX_CLIENTS cfg}"
    using assms(1) slot_Some_length [OF assms(3)] slot_Some_length [OF assms(4)] by (simp_all add: rpc_base_def)
qed

text \<open>The clients but one.\<close>

definition linked_others :: "roudi_ports \<Rightarrow> nat \<Rightarrow> server_port_data \<Rightarrow> address set" where
  "linked_others N j v = {q. \<exists>k c. k \<noteq> j \<and> slot (rp_clients N) k = Some c \<and> connected c \<and> isCompatibleClientServer v c \<and> q = cpd_queue c}"

lemma linked_split:
  assumes "slot (rp_clients N) j = Some c"
  shows "linked_queues N v = linked_others N j v \<union> (if connected c \<and> isCompatibleClientServer v c then {cpd_queue c} else {})"
  using assms by (auto simp: linked_queues_def linked_others_def) (metis option.inject)+

lemma linked_others_cong:
  assumes "\<And>k. k \<noteq> j \<Longrightarrow> slot (rp_clients N') k = slot (rp_clients N) k" "same_server v v'"
  shows "linked_others N' j v' = linked_others N j v"
  using assms by (auto simp: linked_others_def same_compatible(1))

lemma linked_others_fresh:
  assumes "rpc_base cfg N" "rpc_config_ok cfg" "slot (rp_clients N) j = Some c"
  shows "cpd_queue c \<notin> linked_others N j v"
  using client_queue_inj [OF assms(1,2) _ assms(3)] by (auto simp: linked_others_def)

lemma rpc_base_put:
  assumes base: "rpc_base cfg N" and v: "slot (rp_servers N) i = Some v" "same_server v v'" and c: "slot (rp_clients N) j = Some c" "same_client c c'"
  shows "rpc_base cfg (put_client j c' (put_server i v' N))"
proof -
  have "bpd_serviceDescription v' = bpd_serviceDescription v" "vpd_queue v' = vpd_queue v" "cpd_queue c' = cpd_queue c"
    using v(2) c(2) by (simp_all add: same_server_def same_client_def)
  with base v(1) c(1) show ?thesis
    unfolding rpc_base_def by (simp split: if_splits)
qed

text \<open>A client and a server change together.\<close>

lemma put_pair_ok:
  assumes ok: "rpc_ok cfg N" and v: "slot (rp_servers N) i = Some v" "same_server v v'" and c: "slot (rp_clients N) j = Some c" "same_client c c'"
    and comp: "isCompatibleClientServer v c"
    and v': "distinct (squeues v')" "\<not> vpd_offered v' \<longrightarrow> squeues v' = []" "vpd_offered v \<longrightarrow> vpd_offered v'"
      "set (squeues v') = linked_others N j v \<union> (if connected c' then {cpd_queue c} else {})"
    and c': "cpd_connectionState c' \<in> {NOT_CONNECTED, CONNECTION_WAIT_FOR_OFFER, CONNECTED}"
      "if connected c' then vpd_offered v' \<and> cqueues c' = [vpd_queue v] else cqueues c' = []"
  shows "rpc_ok cfg (put_client j c' (put_server i v' N))"
proof -
  let ?N = "put_client j c' (put_server i v' N)"
  have base: "rpc_base cfg N" using ok by (simp add: rpc_ok_def)
  have len: "i < length (rp_servers N)" "j < length (rp_clients N)" using slot_Some_length [OF v(1)] slot_Some_length [OF c(1)] by simp_all
  have sv: "slot (rp_servers ?N) k = (if k = i then Some v' else slot (rp_servers N) k)"
    and cl: "slot (rp_clients ?N) k = (if k = j then Some c' else slot (rp_clients N) k)" for k using len by simp_all
  have eqs: "vpd_queue v' = vpd_queue v" "cpd_queue c' = cpd_queue c" using v(2) c(2) by (simp_all add: same_server_def same_client_def)
  have oth: "linked_others ?N j w = linked_others N j w" for w by (rule linked_others_cong) (simp_all add: cl)
  have cj: "slot (rp_clients ?N) j = Some c'" using len by simp
  have link: "linked_queues ?N w = linked_others N j w \<union> (if connected c' \<and> isCompatibleClientServer w c then {cpd_queue c} else {})" for w
    using linked_split [OF cj, of w] by (simp add: oth eqs same_compatible(2) [OF c(2)])
  have servers: "server_ok ?N w" if w: "slot (rp_servers ?N) k = Some w" for k w
  proof (cases "k = i")
    case True
    have "linked_others N j v' = linked_others N j v" by (rule linked_others_cong) (simp_all add: v(2))
    moreover have "w = v'" using True w len by simp
    ultimately show ?thesis using v' link [of v'] comp by (simp add: server_ok_def same_compatible(1) [OF v(2)])
  next
    case False
    then have w': "slot (rp_servers N) k = Some w" using w sv by simp
    have "\<not> isCompatibleClientServer w c" using compatible_unique [OF base w' v(1) _ comp] False by blast
    then have "linked_queues ?N w = linked_queues N w" using link [of w] linked_split [OF c(1), of w] by simp
    with ok w' show ?thesis by (auto simp: rpc_ok_def server_ok_def)
  qed
  have clients: "client_ok ?N d" if d: "slot (rp_clients ?N) k = Some d" for k d
  proof (cases "k = j")
    case True
    then have "d = c'" using d len by simp
    moreover have "isCompatibleClientServer v' c'" using comp same_compatible(1) [OF v(2)] same_compatible(2) [OF c(2)] by simp
    ultimately show ?thesis using c' len eqs by (auto simp: client_ok_def split: if_splits)
  next
    case False
    then have d': "slot (rp_clients N) k = Some d" using d cl by simp
    then have cok: "client_ok N d" using ok by (auto simp: rpc_ok_def)
    show ?thesis
    proof (cases "connected d")
      case True
      with cok obtain l w where w: "slot (rp_servers N) l = Some w" "vpd_offered w" "isCompatibleClientServer w d" "cqueues d = [vpd_queue w]"
        by (auto simp: client_ok_def)
      show ?thesis
      proof (cases "l = i")
        case li: True
        then have "w = v" using w(1) v(1) by simp
        then have "slot (rp_servers ?N) i = Some v'" "vpd_offered v'" "isCompatibleClientServer v' d" "cqueues d = [vpd_queue v']"
          using w v'(3) len eqs same_compatible(1) [OF v(2)] by simp_all
        with True show ?thesis unfolding client_ok_def by (auto simp del: rpc_frames)
      next
        case False
        then have "slot (rp_servers ?N) l = Some w" using w(1) by simp
        with True w show ?thesis unfolding client_ok_def by (auto simp del: rpc_frames)
      qed
    qed (use cok in \<open>simp add: client_ok_def\<close>)
  qed
  show ?thesis using rpc_base_put [OF base v c] servers clients by (simp add: rpc_ok_def del: rpc_frames)
qed

lemma connect_pair_ok:
  assumes ok: "rpc_ok cfg N" and cfg: "rpc_config_ok cfg" and v: "slot (rp_servers N) i = Some v" and c: "slot (rp_clients N) j = Some c" "\<not> connected c"
    and comp: "isCompatibleClientServer v c"
  shows "rpc_ok cfg (put_client j (connected_client n v c) (put_server i (connected_server n v c) N))"
proof -
  have base: "rpc_base cfg N" and vok: "server_ok N v" using ok v by (auto simp: rpc_ok_def)
  have set_v: "set (squeues v) = linked_others N j v" using vok linked_split [OF c(1), of v] c(2) by (simp add: server_ok_def)
  have fresh: "cpd_queue c \<notin> set (squeues v)" unfolding set_v by (rule linked_others_fresh [OF base cfg c(1)])
  show ?thesis
    by (rule put_pair_ok [OF ok v _ c(1) _ comp])
      (use vok fresh set_v in \<open>auto simp: connected_server_def connected_client_def accepts_def server_ok_def split: if_splits\<close>)
qed

lemma disconnect_pair_ok:
  assumes ok: "rpc_ok cfg N" and cfg: "rpc_config_ok cfg" and v: "slot (rp_servers N) i = Some v" and c: "slot (rp_clients N) j = Some c" "connected c"
    and comp: "isCompatibleClientServer v c"
  shows "vpd_offered v" "rpc_ok cfg (put_client j (set_client NOT_CONNECTED [] c) (put_server i (set_server True (remove1 (cpd_queue c) (squeues v)) v) N))"
proof -
  have base: "rpc_base cfg N" and vok: "server_ok N v" using ok v by (auto simp: rpc_ok_def)
  have set_v: "set (squeues v) = linked_others N j v \<union> {cpd_queue c}" using vok linked_split [OF c(1), of v] c(2) comp by (simp add: server_ok_def)
  have fresh: "cpd_queue c \<notin> linked_others N j v" by (rule linked_others_fresh [OF base cfg c(1)])
  show off: "vpd_offered v" using vok set_v by (auto simp: server_ok_def)
  show "rpc_ok cfg (put_client j (set_client NOT_CONNECTED [] c) (put_server i (set_server True (remove1 (cpd_queue c) (squeues v)) v) N))"
    by (rule put_pair_ok [OF ok v _ c(1) _ comp]) (use vok fresh set_v off in \<open>auto simp: server_ok_def distinct_remove1\<close>)
qed

subsection \<open>The loops over the ports\<close>

lemma server_ports_loop_none:
  assumes "server_ports_loop rcfg m j is found N = Inr (found', N')" "slot (rp_clients N) j = Some c"
    and "\<forall>i v. i \<in> set is \<longrightarrow> slot (rp_servers N) i = Some v \<longrightarrow> \<not> isCompatibleClientServer v c"
  shows "found' = found \<and> N' = N"
  using assms
proof (induction "is")
  case (Cons i "is")
  from Cons.prems(1) obtain v where "slot (rp_servers N) i = Some v" by (auto simp: with_port_Inr)
  with Cons show ?case by (auto simp: with_server_def with_client_def)
qed simp

text \<open>At most one server is compatible with a client.\<close>

lemma server_ports_loop_unique:
  assumes run: "server_ports_loop rcfg m j is found N = Inr (found', N')" and d: "distinct is" and c: "slot (rp_clients N) j = Some c"
    and uniq: "\<And>i i' v v'. slot (rp_servers N) i = Some v \<Longrightarrow> slot (rp_servers N) i' = Some v' \<Longrightarrow> isCompatibleClientServer v c \<Longrightarrow> isCompatibleClientServer v' c \<Longrightarrow> i = i'"
    and step: "\<And>v P r v1 P1. ServerPortRouDi_dispatch rcfg m v P = Inr (r, v1, P1) \<Longrightarrow> isCompatibleClientServer v c \<Longrightarrow>
      \<exists>a. r = Some a \<and> v1 = vf v \<and> (\<forall>P2 r2 c2 P3. ClientPortRouDi_dispatch rcfg a c P2 = Inr (r2, c2, P3) \<longrightarrow> c2 = cf v)"
    and same: "\<And>v. same_client c (cf v)"
  shows "(found' = found \<and> N' = N \<and> (\<forall>i v. i \<in> set is \<longrightarrow> slot (rp_servers N) i = Some v \<longrightarrow> \<not> isCompatibleClientServer v c)) \<or>
    (found' \<and> (\<exists>i v. slot (rp_servers N) i = Some v \<and> isCompatibleClientServer v c \<and> rp_servers N' = (rp_servers N)[i := Some (vf v)] \<and>
       rp_clients N' = (rp_clients N)[j := Some (cf v)]))"
  using run d
proof (induction "is")
  case (Cons i "is")
  from Cons.prems(1) obtain v where v: "slot (rp_servers N) i = Some v" by (auto simp: with_port_Inr)
  show ?case
  proof (cases "isCompatibleClientServer v c")
    case False
    with Cons.prems(1) v c have "server_ports_loop rcfg m j is found N = Inr (found', N')" by (simp add: with_server_def with_client_def)
    from Cons.IH [OF this] Cons.prems(2) False v show ?thesis by auto
  next
    case True
    from Cons.prems(1) v c True obtain r v1 P1 where r: "ServerPortRouDi_dispatch rcfg m v (rp_popo N) = Inr (r, v1, P1)"
      by (auto simp: with_server_def with_client_def)
    from step [OF this True] obtain a where a: "r = Some a" "v1 = vf v"
      "\<And>P2 r2 c2 P3. ClientPortRouDi_dispatch rcfg a c P2 = Inr (r2, c2, P3) \<Longrightarrow> c2 = cf v" by blast
    let ?N1 = "set_popo P1 (put_server i (vf v) N)"
    from Cons.prems(1) v c True r a(1,2) obtain r2 c2 P3 where c2: "ClientPortRouDi_dispatch rcfg a c (rp_popo ?N1) = Inr (r2, c2, P3)"
      by (auto simp: with_server_def with_client_def Let_def)
    let ?N2 = "set_popo P3 (put_client j (cf v) ?N1)"
    have rest: "server_ports_loop rcfg m j is True ?N2 = Inr (found', N')"
      using Cons.prems(1) v c True r a(1,2) c2 a(3) [OF c2] by (auto simp: with_server_def with_client_def Let_def Expects_def split: if_splits)
    have j: "slot (rp_clients ?N2) j = Some (cf v)" using slot_Some_length [OF c] by simp
    have "\<not> isCompatibleClientServer w (cf v)" if "k \<in> set is" "slot (rp_servers ?N2) k = Some w" for k w
      using that Cons.prems(2) uniq [OF v _ True] same_compatible(2) [OF same] by (auto split: if_splits)
    with server_ports_loop_none [OF rest j] have "found' = True \<and> N' = ?N2" by blast
    with v True show ?thesis by (auto simp: put_client_def put_server_def set_popo_def)
  qed
qed simp

lemma put_client_same: "slot (rp_clients N) j = Some c \<Longrightarrow> put_client j c N = N"
  by (simp add: put_client_def slot_def list_update_same_conv split: if_splits)

lemma client_stop_offer:
  assumes "ClientPortRouDi_dispatch rcfg m c P = Inr (r, c', P')" "cm_type m = STOP_OFFER"
    and "cpd_connectionState c \<in> {NOT_CONNECTED, CONNECTION_WAIT_FOR_OFFER, CONNECTED}"
  shows "r = None \<and> c' = (if connected c then set_client CONNECTION_WAIT_FOR_OFFER [] c else c)"
  using assms by (auto simp: ClientPortRouDi_dispatch_def handleCaProMessageForStateNotConnected_def handleCaProMessageForStateWaitForOffer_def
      handleCaProMessageForStateConnected_def client_violation_def removeAllQueues_def locked_def set_client_def with_client_distributor_def split: if_splits)

lemma client_offer:
  assumes "ClientPortRouDi_dispatch rcfg m c P = Inr (r, c', P')" "cm_type m = OFFER"
    and "cpd_connectionState c \<in> {NOT_CONNECTED, CONNECTION_WAIT_FOR_OFFER, CONNECTED}"
  shows "if cpd_connectionState c = CONNECTION_WAIT_FOR_OFFER then r = Some (connect_message c) \<and> c' = c\<lparr> cpd_connectionState := CONNECT_REQUESTED \<rparr>
    else r = None \<and> c' = c"
  using assms by (auto simp: ClientPortRouDi_dispatch_def handleCaProMessageForStateNotConnected_def handleCaProMessageForStateWaitForOffer_def
      handleCaProMessageForStateConnected_def client_violation_def)

definition stopped_client :: "server_port_data \<Rightarrow> client_port_data \<Rightarrow> client_port_data" where
  "stopped_client v c = (if isCompatibleClientServer v c \<and> connected c then set_client CONNECTION_WAIT_FOR_OFFER [] c else c)"

lemma client_ports_loop_stop:
  assumes "client_ports_loop rcfg m i js N = Inr N'" "cm_type m = STOP_OFFER" "slot (rp_servers N) i = Some v" "distinct js"
    and "\<forall>j c. slot (rp_clients N) j = Some c \<longrightarrow> cpd_connectionState c \<in> {NOT_CONNECTED, CONNECTION_WAIT_FOR_OFFER, CONNECTED}"
  shows "rp_servers N' = rp_servers N \<and> length (rp_clients N') = length (rp_clients N) \<and>
    (\<forall>k. slot (rp_clients N') k = (if k \<in> set js then map_option (stopped_client v) (slot (rp_clients N) k) else slot (rp_clients N) k))"
  using assms
proof (induction js arbitrary: N)
  case (Cons j js)
  from Cons.prems(1) obtain c where c: "slot (rp_clients N) j = Some c" by (auto simp: with_port_Inr)
  have st: "cpd_connectionState c \<in> {NOT_CONNECTED, CONNECTION_WAIT_FOR_OFFER, CONNECTED}" using Cons.prems(5) c by blast
  obtain P1 where rest: "client_ports_loop rcfg m i js (set_popo P1 (put_client j (stopped_client v c) N)) = Inr N'"
  proof (cases "isCompatibleClientServer v c")
    case False
    then have "stopped_client v c = c" by (simp add: stopped_client_def)
    moreover have "set_popo (rp_popo N) N = N" by (simp add: set_popo_def)
    ultimately show thesis using that [of "rp_popo N"] Cons.prems(1,3) c False put_client_same [OF c] by (simp add: with_server_def with_client_def)
  next
    case True
    with Cons.prems(1,3) c obtain r c1 P1 where d: "ClientPortRouDi_dispatch rcfg m c (rp_popo N) = Inr (r, c1, P1)"
      by (auto simp: with_server_def with_client_def)
    from client_stop_offer [OF d Cons.prems(2) st] True have "r = None" "c1 = stopped_client v c" by (simp_all add: stopped_client_def)
    with that [of P1] Cons.prems(1,3) c True d show thesis by (simp add: with_server_def with_client_def Let_def)
  qed
  have len: "j < length (rp_clients N)" using slot_Some_length [OF c] .
  from Cons.IH [OF rest Cons.prems(2)] Cons.prems(3-5) c len st show ?case by (auto simp: stopped_client_def split: if_splits)
qed simp

lemma client_ports_loop_offer:
  assumes "client_ports_loop (rdc_rpc cfg) m i js N = Inr N'" "cm_type m = OFFER" "rpc_ok cfg N" "rpc_config_ok cfg"
  shows "rpc_ok cfg N'"
  using assms
proof (induction js arbitrary: N)
  case (Cons j js)
  let ?n = "rc_MaxClientsPerServer (rdc_rpc cfg)"
  from Cons.prems(1) obtain v c where v: "slot (rp_servers N) i = Some v" and c: "slot (rp_clients N) j = Some c" by (auto simp: with_port_Inr)
  have cok: "client_ok N c" using Cons.prems(3) c by (auto simp: rpc_ok_def)
  then have st: "cpd_connectionState c \<in> {NOT_CONNECTED, CONNECTION_WAIT_FOR_OFFER, CONNECTED}" by (simp add: client_ok_def)
  have "\<exists>N2. rpc_ok cfg N2 \<and> client_ports_loop (rdc_rpc cfg) m i js N2 = Inr N'"
  proof (cases "isCompatibleClientServer v c")
    case False
    then show ?thesis using Cons.prems(1,3) v c by (auto simp: with_server_def with_client_def)
  next
    case True
    with Cons.prems(1) v c obtain r c1 P1 where d: "ClientPortRouDi_dispatch (rdc_rpc cfg) m c (rp_popo N) = Inr (r, c1, P1)"
      by (auto simp: with_server_def with_client_def)
    note off = client_offer [OF d Cons.prems(2) st]
    show ?thesis
    proof (cases "cpd_connectionState c = CONNECTION_WAIT_FOR_OFFER")
      case False
      with off have r: "r = None" "c1 = c" by simp_all
      have "rpc_ok cfg (set_popo P1 N)" using Cons.prems(3) by simp
      with Cons.prems(1) v c True d r put_client_same [OF c] show ?thesis
        by (intro exI [of _ "set_popo P1 N"]) (auto simp: with_server_def with_client_def Let_def)
    next
      case wait: True
      then have qs: "cqueues c = []" using cok by (simp add: client_ok_def)
      have c1: "r = Some (connect_message c)" "c1 = set_client CONNECT_REQUESTED [] c" using off wait set_state(1) [OF qs] by simp_all
      let ?N1 = "set_popo P1 (put_client j c1 N)"
      from Cons.prems(1) v c True d c1(1) obtain r2 v1 P2 where s: "ServerPortRouDi_dispatch (rdc_rpc cfg) (connect_message c) v (rp_popo ?N1) = Inr (r2, v1, P2)"
        by (auto simp: with_server_def with_client_def Let_def Expects_def)
      have s': "ServerPortRouDi_dispatch (rdc_rpc cfg) (connect_message c1) v (rp_popo ?N1) = Inr (r2, v1, P2)" using s c1(2) by simp
      from server_connect [OF s'] obtain a where a: "r2 = Some a" "v1 = connected_server ?n v c1"
        "if accepts ?n v c1 then cm_type a = ACK \<and> cm_chunkQueueData a = Some (vpd_queue v) else cm_type a = NACK" by blast
      let ?N2 = "set_popo P2 (put_server i v1 ?N1)"
      from Cons.prems(1) v c True d c1(1) s a(1) obtain r3 c2 P3 where c2: "ClientPortRouDi_dispatch (rdc_rpc cfg) a c1 (rp_popo ?N2) = Inr (r3, c2, P3)"
        by (auto simp: with_server_def with_client_def Let_def Expects_def)
      have c2': "r3 = None \<and> c2 = connected_client ?n v c1" by (rule client_answer [OF c2 _ _ a(3)]) (simp_all add: c1(2))
      let ?N3 = "set_popo P3 (put_client j c2 ?N2)"
      have rest: "client_ports_loop (rdc_rpc cfg) m i js ?N3 = Inr N'"
        using Cons.prems(1) v c True d c1(1) s a(1) c2 c2' by (auto simp: with_server_def with_client_def Let_def Expects_def split: if_splits)
      have "accepts ?n v c1 = accepts ?n v c" by (simp add: accepts_def c1(2))
      then have eqs: "connected_server ?n v c1 = connected_server ?n v c" "connected_client ?n v c1 = connected_client ?n v c"
        by (simp_all add: connected_server_def connected_client_def c1(2))
      have "rpc_ok cfg (put_client j (connected_client ?n v c) (put_server i (connected_server ?n v c) N))"
        using wait by (intro connect_pair_ok [OF Cons.prems(3,4) v c _ True]) simp
      then have "rpc_ok cfg ?N3"
        by (rule rpc_ok_cong [THEN iffD1, rotated 2]) (simp_all add: put_client_def put_server_def set_popo_def a(2) c2' eqs)
      with rest show ?thesis by blast
    qed
  qed
  with Cons.IH Cons.prems(2,4) show ?case by blast
qed simp

subsection \<open>Every operation keeps the invariant\<close>

lemma stop_all_ok:
  assumes ok: "rpc_ok cfg N" and v: "slot (rp_servers N) i = Some v"
    and len: "length (rp_clients N') = length (rp_clients N)"
    and sv: "\<And>k. slot (rp_servers N') k = (if k = i then Some (set_server False [] v) else slot (rp_servers N) k)"
    and cl: "\<And>k. slot (rp_clients N') k = map_option (stopped_client v) (slot (rp_clients N) k)"
  shows "rpc_ok cfg N'"
proof -
  have base: "rpc_base cfg N" using ok by (simp add: rpc_ok_def)
  have stopped: "cpd_queue (stopped_client v c) = cpd_queue c" "same_client c (stopped_client v c)"
    "connected (stopped_client v c) \<longleftrightarrow> connected c \<and> \<not> isCompatibleClientServer v c" for c by (auto simp: stopped_client_def)
  have "rpc_base cfg N'"
    using base v unfolding rpc_base_def sv cl len by (auto simp: stopped split: if_splits)
  moreover have "server_ok N' w" if "slot (rp_servers N') k = Some w" for k w
  proof (cases "k = i")
    case True
    then have "w = set_server False [] v" using that sv by simp
    moreover have "linked_queues N' w = {}"
      using calculation by (auto simp: linked_queues_def cl stopped same_compatible(2) [OF stopped(2)])
    ultimately show ?thesis by (simp add: server_ok_def)
  next
    case False
    then have w: "slot (rp_servers N) k = Some w" using that sv by simp
    have "\<not> isCompatibleClientServer v c" if "isCompatibleClientServer w c" for c
      using compatible_unique [OF base w v that] False by blast
    then have "isCompatibleClientServer w c \<Longrightarrow> stopped_client v c = c" for c by (simp add: stopped_client_def)
    then have "(\<exists>c. slot (rp_clients N') k = Some c \<and> connected c \<and> isCompatibleClientServer w c \<and> q = cpd_queue c) \<longleftrightarrow>
        (\<exists>c. slot (rp_clients N) k = Some c \<and> connected c \<and> isCompatibleClientServer w c \<and> q = cpd_queue c)" for k q
      using same_compatible(2) [OF stopped(2), of w] by (cases "slot (rp_clients N) k") (auto simp: cl)
    then have "linked_queues N' w = linked_queues N w" by (simp add: linked_queues_def)
    with ok w show ?thesis by (auto simp: rpc_ok_def server_ok_def)
  qed
  moreover have "client_ok N' d" if d: "slot (rp_clients N') k = Some d" for k d
  proof -
    obtain c where c: "slot (rp_clients N) k = Some c" "d = stopped_client v c" using d unfolding cl by auto
    then have cok: "client_ok N c" using ok by (auto simp: rpc_ok_def)
    show ?thesis
    proof (cases "connected d")
      case True
      then have "connected c" "\<not> isCompatibleClientServer v c" "d = c" using c(2) by (auto simp: stopped_client_def split: if_splits)
      with cok obtain l w where w: "slot (rp_servers N) l = Some w" "vpd_offered w" "isCompatibleClientServer w d" "cqueues d = [vpd_queue w]"
        by (auto simp: client_ok_def)
      moreover have "l \<noteq> i" using w v \<open>\<not> isCompatibleClientServer v c\<close> \<open>d = c\<close> by auto
      ultimately show ?thesis using True sv [of l] by (auto simp: client_ok_def)
    next
      case False
      with cok c(2) show ?thesis by (auto simp: client_ok_def stopped_client_def split: if_splits)
    qed
  qed
  ultimately show ?thesis by (simp add: rpc_ok_def)
qed

lemma client_states:
  assumes "rpc_ok cfg N"
  shows "\<forall>j c. slot (rp_clients N) j = Some c \<longrightarrow> cpd_connectionState c \<in> {NOT_CONNECTED, CONNECTION_WAIT_FOR_OFFER, CONNECTED}"
  using assms unfolding rpc_ok_def client_ok_def by blast

text \<open>A server that stops to offer, with the message that RouDi passes on.\<close>

lemma server_stop_ok:
  assumes ok: "rpc_ok cfg N" and v: "slot (rp_servers N) i = Some v" and m: "cm_type a = STOP_OFFER"
    and run: "obind (on_ports f (set_popo P (put_server i (set_server False [] v) N))) (\<lambda>N2.
      obind (sendToAllMatchingClientPorts rcfg a i N2) (\<lambda>N3. on_ports g N3)) = Inr N'"
  shows "rpc_ok cfg N' \<and> slot (rp_servers N') i = Some (set_server False [] v)"
proof -
  from run obtain N2 N3 where N2: "on_ports f (set_popo P (put_server i (set_server False [] v) N)) = Inr N2"
    and N3: "sendToAllMatchingClientPorts rcfg a i N2 = Inr N3" and N4: "on_ports g N3 = Inr N'" by auto
  have len: "i < length (rp_servers N)" using slot_Some_length [OF v] .
  have e2: "rp_servers N2 = rp_servers (put_server i (set_server False [] v) N)" "rp_clients N2 = rp_clients N"
    using on_ports_frames [OF N2] by simp_all
  have v2: "slot (rp_servers N2) i = Some (set_server False [] v)" using len by (simp add: e2)
  have st: "\<forall>j c. slot (rp_clients N2) j = Some c \<longrightarrow> cpd_connectionState c \<in> {NOT_CONNECTED, CONNECTION_WAIT_FOR_OFFER, CONNECTED}"
    using client_states [OF ok] by (simp add: e2)
  note loop = client_ports_loop_stop [OF N3 [unfolded sendToAllMatchingClientPorts_def] m v2 _ st]
  have stopped: "stopped_client (set_server False [] v) = stopped_client v" by (rule ext) (simp add: stopped_client_def)
  have s3: "rp_servers N3 = rp_servers N2" "length (rp_clients N3) = length (rp_clients N)" using loop by (simp_all add: e2)
  have c3: "slot (rp_clients N3) k = map_option (stopped_client v) (slot (rp_clients N) k)" for k
  proof (cases "slot (rp_clients N) k")
    case None
    with loop show ?thesis by (simp add: e2)
  next
    case (Some c)
    with loop show ?thesis by (auto simp: e2 stopped)
  qed
  have e4: "rp_servers N' = rp_servers N3" "rp_clients N' = rp_clients N3" using on_ports_frames [OF N4] by simp_all
  have "rpc_ok cfg N'"
    by (rule stop_all_ok [OF ok v]) (use len in \<open>simp_all add: e4 s3 c3 e2\<close>)
  with e4 s3 v2 show ?thesis by simp
qed

lemma doDiscoveryForServerPort_ok:
  assumes ok: "rpc_ok cfg N" and cfg: "rpc_config_ok cfg" and run: "doDiscoveryForServerPort cfg i N = Inr N'"
  shows "rpc_ok cfg N'"
proof -
  from run obtain v m v1 P1 where v: "slot (rp_servers N) i = Some v" and get: "ServerPortRouDi_tryGetCaProMessage (rdc_rpc cfg) v (rp_popo N) = Inr (m, v1, P1)"
    by (auto simp: doDiscoveryForServerPort_def with_port_Inr)
  have len: "i < length (rp_servers N)" using slot_Some_length [OF v] .
  have vok: "server_ok N v" using ok v by (auto simp: rpc_ok_def)
  from get show ?thesis
  proof (cases rule: server_message_cases)
    case none
    with run v get have "N' = set_popo P1 (put_server i v N)" by (simp add: doDiscoveryForServerPort_def with_server_def)
    moreover have "put_server i v N = N" using v by (simp add: put_server_def slot_def list_update_same_conv split: if_splits)
    ultimately show ?thesis using ok by simp
  next
    case offer
    let ?v = "set_server True [] v"
    have qs: "squeues v = []" using vok offer(3) by (simp add: server_ok_def)
    obtain N2 N3 where N2: "on_ports (addServerToServiceRegistry (rdc_ports cfg) (cm_serviceDescription (server_message OFFER v))) (set_popo P1 (put_server i ?v N)) = Inr N2"
      and N3: "sendToAllMatchingClientPorts (rdc_rpc cfg) (server_message OFFER v) i N2 = Inr N3"
      and N4: "on_ports (sendToAllMatchingInterfacePorts (rdc_ports cfg) (server_message OFFER v)) N3 = Inr N'"
      using run v get offer qs by (auto simp: doDiscoveryForServerPort_def with_server_def Let_def)
    have e2: "rp_servers N2 = rp_servers (put_server i ?v N)" "rp_clients N2 = rp_clients N" using on_ports_frames [OF N2] by simp_all
    have "rpc_ok cfg (put_server i ?v N)"
    proof -
      have base: "rpc_base cfg N" using ok by (simp add: rpc_ok_def)
      have same: "linked_queues (put_server i ?v N) w = linked_queues N w" "linked_queues N ?v = linked_queues N v" for w
        by (simp_all add: linked_queues_def)
      have "rpc_base cfg (put_server i ?v N)" using base v unfolding rpc_base_def by (simp split: if_splits)
      moreover have "server_ok (put_server i ?v N) w" if "slot (rp_servers (put_server i ?v N)) k = Some w" for k w
        using that ok vok qs v by (auto simp: server_ok_def same rpc_ok_def split: if_splits)
      moreover have "client_ok (put_server i ?v N) c" if "slot (rp_clients (put_server i ?v N)) k = Some c" for k c
      proof (cases "connected c")
        case True
        have "client_ok N c" using that ok by (auto simp: rpc_ok_def)
        with True obtain l w where w: "slot (rp_servers N) l = Some w" "vpd_offered w" "isCompatibleClientServer w c" "cqueues c = [vpd_queue w]"
          by (auto simp: client_ok_def)
        moreover have "l \<noteq> i" using w v offer(3) by auto
        ultimately have "slot (rp_servers (put_server i ?v N)) l = Some w" by simp
        with True w show ?thesis unfolding client_ok_def by (auto simp del: rpc_frames)
      next
        case False
        have "client_ok N c" using that ok by (auto simp: rpc_ok_def)
        with False show ?thesis by (simp add: client_ok_def)
      qed
      ultimately show ?thesis by (simp add: rpc_ok_def del: rpc_frames)
    qed
    then have "rpc_ok cfg N2" by (rule rpc_ok_cong [THEN iffD1, rotated 2]) (simp_all add: e2)
    from client_ports_loop_offer [OF N3 [unfolded sendToAllMatchingClientPorts_def] _ this cfg] have "rpc_ok cfg N3" by simp
    then show ?thesis by (rule rpc_ok_cong [THEN iffD1, rotated 2]) (use on_ports_frames [OF N4] in simp_all)
  next
    case stop
    show ?thesis
      by (rule conjunct1 [OF server_stop_ok [OF ok v, of "server_message STOP_OFFER v"]])
        (use run v get stop in \<open>auto simp: doDiscoveryForServerPort_def with_server_def Let_def\<close>)
  qed
qed

text \<open>Changes of one port that the invariant does not depend on.\<close>

lemma put_client_idle:
  assumes ok: "rpc_ok cfg N" and c: "slot (rp_clients N) j = Some c" "same_client c c'"
    and st: "connected c' = connected c" "cqueues c' = cqueues c" "cpd_connectionState c' \<in> {NOT_CONNECTED, CONNECTION_WAIT_FOR_OFFER, CONNECTED}"
  shows "rpc_ok cfg (put_client j c' N)"
proof -
  let ?N = "put_client j c' N"
  have len: "j < length (rp_clients N)" using slot_Some_length [OF c(1)] .
  have eqs: "cpd_queue c' = cpd_queue c" "isCompatibleClientServer v c' = isCompatibleClientServer v c" for v
    using c(2) same_compatible(2) [OF c(2)] by (simp_all add: same_client_def)
  have "(\<exists>d. slot (rp_clients ?N) k = Some d \<and> connected d \<and> isCompatibleClientServer v d \<and> q = cpd_queue d) \<longleftrightarrow>
      (\<exists>d. slot (rp_clients N) k = Some d \<and> connected d \<and> isCompatibleClientServer v d \<and> q = cpd_queue d)" for k v q
    using c(1) len st(1) eqs by (cases "k = j") simp_all
  then have link: "linked_queues ?N v = linked_queues N v" for v by (simp add: linked_queues_def)
  have base: "rpc_base cfg ?N" using ok c(1) eqs(1) by (auto simp: rpc_ok_def rpc_base_def split: if_splits)
  have "client_ok N c" using ok c(1) by (auto simp: rpc_ok_def)
  then have "client_ok ?N c'" using st eqs(2) by (auto simp: client_ok_def split: if_splits)
  moreover have "client_ok N d = client_ok ?N d" for d by (simp add: client_ok_def)
  ultimately have "client_ok ?N d" if "slot (rp_clients ?N) k = Some d" for k d
    using that ok len by (auto simp: rpc_ok_def split: if_splits)
  moreover have "server_ok ?N v" if "slot (rp_servers ?N) k = Some v" for k v
    using that ok by (auto simp: rpc_ok_def server_ok_def link)
  ultimately show ?thesis using base by (simp add: rpc_ok_def del: rpc_frames)
qed

lemma put_server_idle:
  assumes ok: "rpc_ok cfg N" and v: "slot (rp_servers N) i = Some v" "same_server v v'" "squeues v' = squeues v" "vpd_offered v' = vpd_offered v"
  shows "rpc_ok cfg (put_server i v' N)"
proof -
  let ?N = "put_server i v' N"
  have len: "i < length (rp_servers N)" using slot_Some_length [OF v(1)] .
  have eqs: "vpd_queue v' = vpd_queue v" "bpd_serviceDescription v' = bpd_serviceDescription v" "isCompatibleClientServer v' c = isCompatibleClientServer v c" for c
    using v(2) same_compatible(1) [OF v(2)] by (simp_all add: same_server_def)
  have link: "linked_queues ?N w = linked_queues N w" "linked_queues N v' = linked_queues N v" for w by (simp_all add: linked_queues_def eqs)
  have base: "rpc_base cfg ?N" using ok v(1) eqs(1,2) unfolding rpc_ok_def rpc_base_def by (simp split: if_splits)
  have "server_ok N v" using ok v(1) by (auto simp: rpc_ok_def)
  then have "server_ok ?N v'" by (simp add: server_ok_def link v(3,4))
  moreover have "server_ok ?N w = server_ok N w" for w by (simp add: server_ok_def link)
  ultimately have "server_ok ?N w" if "slot (rp_servers ?N) k = Some w" for k w
    using that ok len by (cases "k = i") (auto simp: rpc_ok_def)
  moreover have "client_ok ?N c" if "slot (rp_clients ?N) k = Some c" for k c
  proof -
    have "(\<exists>w. slot (rp_servers ?N) l = Some w \<and> vpd_offered w \<and> isCompatibleClientServer w c \<and> cqueues c = [vpd_queue w]) \<longleftrightarrow>
       (\<exists>w. slot (rp_servers N) l = Some w \<and> vpd_offered w \<and> isCompatibleClientServer w c \<and> cqueues c = [vpd_queue w])" for l
      using v(1,4) len eqs by (cases "l = i") simp_all
    moreover have "client_ok N c" using that ok by (auto simp: rpc_ok_def)
    ultimately show ?thesis by (simp add: client_ok_def)
  qed
  ultimately show ?thesis using base by (simp add: rpc_ok_def del: rpc_frames)
qed

lemma client_disconnect_ok:
  assumes ok: "rpc_ok cfg N" and cfg: "rpc_config_ok cfg" and c: "slot (rp_clients N) j = Some c" "connected c"
    and run: "sendToAllMatchingServerPorts rcfg (disconnect_message c) j (set_popo P (put_client j (set_client DISCONNECT_REQUESTED [] c) N)) = Inr (found, N')"
  shows "found \<and> rpc_ok cfg N' \<and> slot (rp_clients N') j = Some (set_client NOT_CONNECTED [] c)"
proof -
  let ?c1 = "set_client DISCONNECT_REQUESTED [] c" let ?N1 = "set_popo P (put_client j ?c1 N)"
  let ?vf = "\<lambda>v. set_server (vpd_offered v) (if vpd_offered v then remove1 (cpd_queue c) (squeues v) else squeues v) v"
  have len: "j < length (rp_clients N)" using slot_Some_length [OF c(1)] .
  have base: "rpc_base cfg N" using ok by (simp add: rpc_ok_def)
  have slot1: "slot (rp_clients ?N1) j = Some ?c1" using len by simp
  have uniq: "i = i'" if "slot (rp_servers ?N1) i = Some v" "slot (rp_servers ?N1) i' = Some v'" "isCompatibleClientServer v ?c1" "isCompatibleClientServer v' ?c1" for i i' v v'
    using compatible_unique [OF base, of i v i' v' c] that by simp
  have step: "\<exists>a. r = Some a \<and> v1 = ?vf v \<and> (\<forall>P2 r2 c2 P3. ClientPortRouDi_dispatch rcfg a ?c1 P2 = Inr (r2, c2, P3) \<longrightarrow> c2 = set_client NOT_CONNECTED [] c)"
    if d: "ServerPortRouDi_dispatch rcfg (disconnect_message c) v P = Inr (r, v1, P1)" for v P r v1 P1
  proof -
    from server_disconnect [OF d] obtain a where a: "r = Some a" "v1 = ?vf v" "cm_type a = ACK \<or> cm_type a = NACK" by blast
    have "?c1\<lparr> cpd_connectionState := NOT_CONNECTED \<rparr> = set_client NOT_CONNECTED [] c" using set_state(1) [of ?c1 "[]" NOT_CONNECTED] by simp
    with a client_disconnect_answer [of ?c1 a] show ?thesis by auto
  qed
  have sub: "same_client ?c1 (set_client NOT_CONNECTED [] c)" by (simp add: same_client_def ClientPortRouDi_getServerTooSlowPolicy_def set_client_def with_client_distributor_def)
  have "client_ok N c" using ok c(1) by (auto simp: rpc_ok_def)
  with c(2) obtain i0 v0 where v0: "slot (rp_servers N) i0 = Some v0" "isCompatibleClientServer v0 c" by (auto simp: client_ok_def)
  then have "i0 \<in> set (content (rp_servers ?N1))" "slot (rp_servers ?N1) i0 = Some v0" "isCompatibleClientServer v0 ?c1" by auto
  moreover have "(found = False \<and> N' = ?N1 \<and> (\<forall>i v. i \<in> set (content (rp_servers ?N1)) \<longrightarrow> slot (rp_servers ?N1) i = Some v \<longrightarrow> \<not> isCompatibleClientServer v ?c1)) \<or>
    (found \<and> (\<exists>i v. slot (rp_servers ?N1) i = Some v \<and> isCompatibleClientServer v ?c1 \<and> rp_servers N' = (rp_servers ?N1)[i := Some (?vf v)] \<and>
       rp_clients N' = (rp_clients ?N1)[j := Some (set_client NOT_CONNECTED [] c)]))"
    by (rule server_ports_loop_unique [OF run [unfolded sendToAllMatchingServerPorts_def] content_distinct slot1])
      (erule uniq, assumption+, rule step, assumption, rule sub)
  ultimately obtain i v where f: "found" and v: "slot (rp_servers N) i = Some v" "isCompatibleClientServer v c"
    and lists: "rp_servers N' = (rp_servers N)[i := Some (?vf v)]" "rp_clients N' = (rp_clients (put_client j ?c1 N))[j := Some (set_client NOT_CONNECTED [] c)]"
    by auto
  note pair = disconnect_pair_ok [OF ok cfg v(1) c v(2)]
  have "rpc_ok cfg N'" using pair(2)
    by (rule rpc_ok_cong [THEN iffD1, rotated 2]) (simp_all add: lists pair(1) put_client_def put_server_def)
  with f len show ?thesis by (simp add: lists put_client_def slot_update)
qed

lemma client_connect_ok:
  assumes ok: "rpc_ok cfg N" and cfg: "rpc_config_ok cfg" and c: "slot (rp_clients N) j = Some c" "\<not> connected c"
    and run: "sendToAllMatchingServerPorts (rdc_rpc cfg) (connect_message c) j (set_popo P (put_client j (set_client CONNECT_REQUESTED [] c) N)) = Inr (found, N')"
  shows "if found then rpc_ok cfg N' else N' = set_popo P (put_client j (set_client CONNECT_REQUESTED [] c) N)"
proof -
  let ?n = "rc_MaxClientsPerServer (rdc_rpc cfg)"
  let ?c1 = "set_client CONNECT_REQUESTED [] c" let ?N1 = "set_popo P (put_client j ?c1 N)"
  have len: "j < length (rp_clients N)" using slot_Some_length [OF c(1)] .
  have base: "rpc_base cfg N" using ok by (simp add: rpc_ok_def)
  have slot1: "slot (rp_clients ?N1) j = Some ?c1" using len by simp
  have uniq: "i = i'" if "slot (rp_servers ?N1) i = Some v" "slot (rp_servers ?N1) i' = Some v'" "isCompatibleClientServer v ?c1" "isCompatibleClientServer v' ?c1" for i i' v v'
    using compatible_unique [OF base, of i v i' v' c] that by simp
  have step: "\<exists>a. r = Some a \<and> v1 = connected_server ?n v ?c1 \<and>
      (\<forall>P2 r2 c2 P3. ClientPortRouDi_dispatch (rdc_rpc cfg) a ?c1 P2 = Inr (r2, c2, P3) \<longrightarrow> c2 = connected_client ?n v ?c1)"
    if d: "ServerPortRouDi_dispatch (rdc_rpc cfg) (connect_message c) v P = Inr (r, v1, P1)" for v P r v1 P1
  proof -
    have "ServerPortRouDi_dispatch (rdc_rpc cfg) (connect_message ?c1) v P = Inr (r, v1, P1)" using d by simp
    from server_connect [OF this] obtain a where a: "r = Some a" "v1 = connected_server ?n v ?c1"
      "if accepts ?n v ?c1 then cm_type a = ACK \<and> cm_chunkQueueData a = Some (vpd_queue v) else cm_type a = NACK" by blast
    have "c2 = connected_client ?n v ?c1" if "ClientPortRouDi_dispatch (rdc_rpc cfg) a ?c1 P2 = Inr (r2, c2, P3)" for P2 r2 c2 P3
      using client_answer [OF that _ _ a(3)] by simp
    with a show ?thesis by blast
  qed
  have sub: "same_client ?c1 (connected_client ?n v ?c1)" for v by (simp add: connected_client_def) (simp add: same_client_def ClientPortRouDi_getServerTooSlowPolicy_def set_client_def with_client_distributor_def)
  have "(found = False \<and> N' = ?N1 \<and> (\<forall>i v. i \<in> set (content (rp_servers ?N1)) \<longrightarrow> slot (rp_servers ?N1) i = Some v \<longrightarrow> \<not> isCompatibleClientServer v ?c1)) \<or>
    (found \<and> (\<exists>i v. slot (rp_servers ?N1) i = Some v \<and> isCompatibleClientServer v ?c1 \<and> rp_servers N' = (rp_servers ?N1)[i := Some (connected_server ?n v ?c1)] \<and>
       rp_clients N' = (rp_clients ?N1)[j := Some (connected_client ?n v ?c1)]))"
    by (rule server_ports_loop_unique [OF run [unfolded sendToAllMatchingServerPorts_def] content_distinct slot1])
      (erule uniq, assumption+, rule step, assumption, rule sub)
  moreover have "rpc_ok cfg N'" if v: "slot (rp_servers N) i = Some v" "isCompatibleClientServer v c"
      "rp_servers N' = (rp_servers N)[i := Some (connected_server ?n v ?c1)]" "rp_clients N' = (rp_clients ?N1)[j := Some (connected_client ?n v ?c1)]" for i v
  proof -
    have "accepts ?n v ?c1 = accepts ?n v c" by (simp add: accepts_def)
    then have eqs: "connected_server ?n v ?c1 = connected_server ?n v c" "connected_client ?n v ?c1 = connected_client ?n v c"
      by (simp_all add: connected_server_def connected_client_def)
    from connect_pair_ok [OF ok cfg v(1) c v(2), of ?n] show ?thesis
      by (rule rpc_ok_cong [THEN iffD1, rotated 2]) (simp_all add: v(3,4) eqs put_client_def put_server_def set_popo_def)
  qed
  ultimately show ?thesis by auto
qed

lemma doDiscoveryForClientPort_ok:
  assumes ok: "rpc_ok cfg N" and cfg: "rpc_config_ok cfg" and run: "doDiscoveryForClientPort cfg j N = Inr N'"
  shows "rpc_ok cfg N'"
proof -
  from run obtain c m c1 P1 where c: "slot (rp_clients N) j = Some c" and get: "ClientPortRouDi_tryGetCaProMessage (rdc_rpc cfg) c (rp_popo N) = Inr (m, c1, P1)"
    by (auto simp: doDiscoveryForClientPort_def with_port_Inr)
  have len: "j < length (rp_clients N)" using slot_Some_length [OF c] .
  have cok: "client_ok N c" using ok c by (auto simp: rpc_ok_def)
  have st: "cpd_connectionState c \<in> {NOT_CONNECTED, CONNECTION_WAIT_FOR_OFFER, CONNECTED}" and qs: "\<not> connected c \<Longrightarrow> cqueues c = []"
    using cok by (auto simp: client_ok_def)
  have idle: "rpc_ok cfg (put_client j (set_client st' [] c) N)" if "\<not> connected c" "st' \<in> {NOT_CONNECTED, CONNECTION_WAIT_FOR_OFFER}" for st'
    using that qs by (intro put_client_idle [OF ok c]) auto
  show ?thesis
  proof (rule client_message_cases [OF get st qs], goal_cases prem none stop_waiting connect disconnect)
    case prem
    then show ?case .
  next
    case none
    with run c get put_client_same [OF c] have "N' = set_popo P1 N" by (simp add: doDiscoveryForClientPort_def with_client_def)
    with ok show ?thesis by simp
  next
    case stop_waiting
    with run c get have "N' = set_popo P1 (put_client j (set_client NOT_CONNECTED [] c) N)" by (simp add: doDiscoveryForClientPort_def with_client_def)
    with idle [of NOT_CONNECTED] stop_waiting show ?thesis by simp
  next
    case connect
    let ?N1 = "set_popo P1 (put_client j (set_client CONNECT_REQUESTED [] c) N)"
    obtain found N2 where N2: "sendToAllMatchingServerPorts (rdc_rpc cfg) (connect_message c) j ?N1 = Inr (found, N2)"
      and rest: "(if \<not> found then with_client j N2 (\<lambda>c2.
         obind (ClientPortRouDi_dispatch (rdc_rpc cfg) (CaproMessage_ctor NACK (bpd_serviceDescription c2) CAPRO_NONE None) c2 (rp_popo N2))
           (\<lambda>(returnMessage, c3, P3). Expects (returnMessage = None) (Inr (set_popo P3 (put_client j c3 N2))))) else Inr N2) = Inr N'"
      using run c get connect by (auto simp: doDiscoveryForClientPort_def with_client_def)
    have nc: "\<not> connected c" using connect by simp
    note conn = client_connect_ok [OF ok cfg c nc N2]
    show ?thesis
    proof (cases found)
      case True
      with conn rest show ?thesis by simp
    next
      case False
      then have N2': "N2 = ?N1" using conn by simp
      have "slot (rp_clients ?N1) j = Some (set_client CONNECT_REQUESTED [] c)" using len by simp
      with rest False N2' obtain P3 where "N' = set_popo P3 (put_client j (set_client CONNECTION_WAIT_FOR_OFFER [] c) ?N1)"
        by (auto simp: with_client_def ClientPortRouDi_dispatch_def handleCaProMessageForStateConnectRequested_def Expects_def set_state(1) split: if_splits)
      moreover have "rpc_ok cfg (put_client j (set_client CONNECTION_WAIT_FOR_OFFER [] c) N)" using idle nc by blast
      then have "rpc_ok cfg (put_client j (set_client CONNECTION_WAIT_FOR_OFFER [] c) ?N1)"
        by (rule rpc_ok_cong [THEN iffD1, rotated 2]) (simp_all add: put_client_def set_popo_def)
      ultimately show ?thesis by simp
    qed
  next
    case disconnect
    let ?N1 = "set_popo P1 (put_client j (set_client DISCONNECT_REQUESTED [] c) N)"
    obtain found N2 where N2: "sendToAllMatchingServerPorts (rdc_rpc cfg) (disconnect_message c) j ?N1 = Inr (found, N2)" and rest: "found \<Longrightarrow> N' = N2"
      using run c get disconnect by (auto simp: doDiscoveryForClientPort_def with_client_def split: if_splits)
    from client_disconnect_ok [OF ok cfg c disconnect(3) N2] rest show ?thesis by simp
  qed
qed

lemma remove_client_ok:
  assumes ok: "rpc_ok cfg N" and c: "slot (rp_clients N) j = Some c" "\<not> connected c"
  shows "rpc_ok cfg (removeClientPort cfg j N)"
proof -
  let ?N = "removeClientPort cfg j N"
  have sv: "rp_servers ?N = rp_servers N" by (simp add: removeClientPort_def remove_queue_def)
  have cl: "slot (rp_clients ?N) k = (if k = j then None else slot (rp_clients N) k)" for k by (simp add: removeClientPort_def remove_queue_def slot_erase)
  have "length (rp_clients ?N) = length (rp_clients N)" by (simp add: removeClientPort_def remove_queue_def container_erase_def)
  then have base: "rpc_base cfg ?N" using ok unfolding rpc_ok_def rpc_base_def sv cl by auto
  have "linked_queues ?N v = linked_queues N v" for v
    using linked_split [OF c(1), of v] c(2) by (auto simp: linked_queues_def linked_others_def cl split: if_splits)
  then have "server_ok ?N v = server_ok N v" "client_ok ?N d = client_ok N d" for v d by (simp_all add: server_ok_def client_ok_def sv)
  with ok base show ?thesis by (auto simp: rpc_ok_def cl sv)
qed

lemma destroyClientPort_ok:
  assumes ok: "rpc_ok cfg N" and cfg: "rpc_config_ok cfg" and run: "destroyClientPort cfg j N = Inr N'"
  shows "rpc_ok cfg N' \<and> slot (rp_clients N') j = None"
proof -
  from run obtain c m c1 P1 where c: "slot (rp_clients N) j = Some c"
    and get: "ClientPortRouDi_tryGetCaProMessage (rdc_rpc cfg) (ClientPortUser_disconnect c) (rp_popo N) = Inr (m, c1, P1)"
    by (auto simp: destroyClientPort_def with_port_Inr)
  let ?c0 = "ClientPortUser_disconnect c"
  let ?N1 = "set_popo P1 (put_client j c1 N)"
  have len: "j < length (rp_clients N)" using slot_Some_length [OF c] .
  have c0: "same_client c ?c0" "cpd_connectionState ?c0 = cpd_connectionState c" "cqueues ?c0 = cqueues c" "\<not> cpd_connectRequested ?c0"
    by (simp_all add: ClientPortUser_disconnect_def same_client_def ClientPortRouDi_getServerTooSlowPolicy_def)
  have cok: "client_ok N c" using ok c by (auto simp: rpc_ok_def)
  have st: "cpd_connectionState ?c0 \<in> {NOT_CONNECTED, CONNECTION_WAIT_FOR_OFFER, CONNECTED}" and qs: "\<not> connected ?c0 \<Longrightarrow> cqueues ?c0 = []"
    using cok c0(2,3) by (auto simp: client_ok_def)
  let ?N0 = "put_client j ?c0 N"
  have ok0: "rpc_ok cfg ?N0" by (rule put_client_idle [OF ok c c0(1)]) (use c0(2,3) st in simp_all)
  have slot0: "slot (rp_clients ?N0) j = Some ?c0" using len by simp
  have over: "put_client j d ?N0 = put_client j d N" for d by (simp add: put_client_def)
  obtain N2 P3 where N2: "(case m of None \<Rightarrow> Inr ?N1 | Some a \<Rightarrow>
       Expects (cm_type a = DISCONNECT) (obind (sendToAllMatchingServerPorts (rdc_rpc cfg) a j ?N1) (\<lambda>(_, N2). Inr N2))) = Inr N2"
    and N': "N' = removeClientPort cfg j (set_popo P3 N2)"
    using run c get by (auto simp: destroyClientPort_def with_port_Inr Let_def)
  have "rpc_ok cfg N2 \<and> (\<exists>c2. slot (rp_clients N2) j = Some c2 \<and> \<not> connected c2)"
  proof (rule client_message_cases [OF get st qs], goal_cases prem none stop_waiting connect disconnect)
    case prem
    then show ?case .
  next
    case none
    then have "\<not> connected ?c0" using get c0(4) client_get(3) [of ?c0 "rdc_rpc cfg" "rp_popo N"] by (auto simp: locked_def split: if_splits)
    with none N2 ok0 slot0 len show ?thesis by auto
  next
    case stop_waiting
    have "rpc_ok cfg (put_client j (set_client NOT_CONNECTED [] ?c0) ?N0)" using stop_waiting qs by (intro put_client_idle [OF ok0 slot0]) auto
    with stop_waiting N2 len show ?thesis by (auto simp: over)
  next
    case connect
    with c0(4) show ?thesis by simp
  next
    case disconnect
    with N2 obtain found where f: "sendToAllMatchingServerPorts (rdc_rpc cfg) (disconnect_message ?c0) j (set_popo P1 (put_client j (set_client DISCONNECT_REQUESTED [] ?c0) ?N0)) = Inr (found, N2)"
      by (auto simp: Expects_def over)
    from client_disconnect_ok [OF ok0 cfg slot0 disconnect(3) f] show ?thesis by auto
  qed
  then have "rpc_ok cfg N'" unfolding N' by (auto intro!: remove_client_ok)
  then show ?thesis unfolding N' by (simp add: removeClientPort_def remove_queue_def slot_erase)
qed

lemma remove_server_ok:
  assumes ok: "rpc_ok cfg N" and v: "slot (rp_servers N) i = Some v" "\<not> vpd_offered v"
  shows "rpc_ok cfg (removeServerPort cfg i N)"
proof -
  let ?N = "removeServerPort cfg i N"
  have cl: "rp_clients ?N = rp_clients N" by (simp add: removeServerPort_def remove_queue_def)
  have sv: "slot (rp_servers ?N) k = (if k = i then None else slot (rp_servers N) k)" for k by (simp add: removeServerPort_def remove_queue_def slot_erase)
  have base: "rpc_base cfg ?N" using ok unfolding rpc_ok_def rpc_base_def sv cl by auto
  have "server_ok ?N w = server_ok N w" for w by (simp add: server_ok_def linked_queues_def cl)
  moreover have "client_ok ?N c" if "client_ok N c" for c
    using that v by (auto simp: client_ok_def sv split: if_splits) (metis option.inject)
  ultimately show ?thesis using ok base by (auto simp: rpc_ok_def cl sv)
qed

lemma destroyServerPort_ok:
  assumes ok: "rpc_ok cfg N" and run: "destroyServerPort cfg i N = Inr N'"
  shows "rpc_ok cfg N' \<and> (\<forall>k. slot (rp_servers N') k = (if k = i then None else slot (rp_servers N) k))"
proof -
  from run obtain v m v1 P1 where v: "slot (rp_servers N) i = Some v"
    and get: "ServerPortRouDi_tryGetCaProMessage (rdc_rpc cfg) (ServerPortUser_stopOffer v) (rp_popo N) = Inr (m, v1, P1)"
    by (auto simp: destroyServerPort_def with_port_Inr)
  let ?v0 = "ServerPortUser_stopOffer v"
  let ?N1 = "set_popo P1 (put_server i v1 N)" let ?N0 = "put_server i ?v0 N"
  have len: "i < length (rp_servers N)" using slot_Some_length [OF v] .
  have v0: "same_server v ?v0" "squeues ?v0 = squeues v" "vpd_offered ?v0 = vpd_offered v" "\<not> vpd_offeringRequested ?v0"
    by (simp_all add: ServerPortUser_stopOffer_def same_server_def ServerPortRouDi_getClientTooSlowPolicy_def)
  have ok0: "rpc_ok cfg ?N0" by (rule put_server_idle [OF ok v v0(1-3)])
  have slot0: "slot (rp_servers ?N0) i = Some ?v0" using len by simp
  have over: "put_server i w ?N0 = put_server i w N" for w by (simp add: put_server_def)
  obtain N4 P5 where N4: "(case m of None \<Rightarrow> Inr ?N1 | Some a \<Rightarrow>
       Expects (cm_type a = STOP_OFFER) (Expects (cm_serviceType a = CAPRO_SERVER)
         (obind (on_ports (removeServerFromServiceRegistry (rdc_ports cfg) (cm_serviceDescription a)) ?N1) (\<lambda>N2.
          obind (sendToAllMatchingClientPorts (rdc_rpc cfg) a i N2) (\<lambda>N3. on_ports (sendToAllMatchingInterfacePorts (rdc_ports cfg) a) N3))))) = Inr N4"
    and N': "N' = removeServerPort cfg i (set_popo P5 N4)"
    using run v get by (auto simp: destroyServerPort_def with_port_Inr Let_def)
  have "rpc_ok cfg N4 \<and> (\<exists>w. slot (rp_servers N4) i = Some w \<and> \<not> vpd_offered w) \<and> (\<forall>k. k \<noteq> i \<longrightarrow> slot (rp_servers N4) k = slot (rp_servers N) k)"
    using get
  proof (cases rule: server_message_cases)
    case none
    with N4 ok0 v0 len show ?thesis by auto
  next
    case offer
    with v0(4) show ?thesis by simp
  next
    case stop
    let ?a = "server_message STOP_OFFER ?v0"
    have run4: "obind (on_ports (removeServerFromServiceRegistry (rdc_ports cfg) (cm_serviceDescription ?a)) (set_popo P1 (put_server i (set_server False [] ?v0) ?N0))) (\<lambda>N2.
          obind (sendToAllMatchingClientPorts (rdc_rpc cfg) ?a i N2) (\<lambda>N3. on_ports (sendToAllMatchingInterfacePorts (rdc_ports cfg) ?a) N3)) = Inr N4"
      using N4 stop by (simp add: over Expects_def)
    from server_stop_ok [OF ok0 slot0 _ run4] have r: "rpc_ok cfg N4" "slot (rp_servers N4) i = Some (set_server False [] ?v0)" by simp_all
    from run4 obtain N2 N3 where N2: "on_ports (removeServerFromServiceRegistry (rdc_ports cfg) (cm_serviceDescription ?a)) (set_popo P1 (put_server i (set_server False [] ?v0) ?N0)) = Inr N2"
      and N3: "sendToAllMatchingClientPorts (rdc_rpc cfg) ?a i N2 = Inr N3" and "on_ports (sendToAllMatchingInterfacePorts (rdc_ports cfg) ?a) N3 = Inr N4" by auto
    then have s: "rp_servers N4 = rp_servers N3" "rp_servers N2 = rp_servers (put_server i (set_server False [] ?v0) ?N0)" "rp_clients N2 = rp_clients N"
      using on_ports_frames by fastforce+
    have "slot (rp_servers N2) i = Some (set_server False [] ?v0)" using len by (simp add: s)
    from client_ports_loop_stop [OF N3 [unfolded sendToAllMatchingClientPorts_def] _ this] client_states [OF ok] s
    have "rp_servers N3 = rp_servers N2" by simp
    with r s show ?thesis by auto
  qed
  then obtain w where w: "rpc_ok cfg N4" "slot (rp_servers N4) i = Some w" "\<not> vpd_offered w"
    "\<forall>k. k \<noteq> i \<longrightarrow> slot (rp_servers N4) k = slot (rp_servers N) k" by blast
  have "rpc_ok cfg N'" unfolding N' by (rule remove_server_ok [of cfg "set_popo P5 N4" i w]) (use w in simp_all)
  moreover have "slot (rp_servers N') k = (if k = i then None else slot (rp_servers N) k)" for k
    using w(4) by (simp add: N' removeServerPort_def remove_queue_def slot_erase)
  ultimately show ?thesis by blast
qed

lemma clients_loop_ok: "clients_loop cfg js N = Inr N' \<Longrightarrow> rpc_ok cfg N \<Longrightarrow> rpc_config_ok cfg \<Longrightarrow> rpc_ok cfg N'"
proof (induction js arbitrary: N)
  case (Cons j js)
  then obtain N1 where N1: "doDiscoveryForClientPort cfg j N = Inr N1" by auto
  note ok1 = doDiscoveryForClientPort_ok [OF Cons.prems(2,3) N1]
  from Cons.prems(1) N1 consider "clients_loop cfg js N1 = Inr N'" | N2 where "destroyClientPort cfg j N1 = Inr N2" "clients_loop cfg js N2 = Inr N'"
    by (auto simp: with_port_Inr split: if_splits)
  then show ?case using Cons.IH Cons.prems(3) ok1 destroyClientPort_ok [OF ok1 Cons.prems(3)] by cases blast+
qed simp

lemma servers_loop_ok: "servers_loop cfg is N = Inr N' \<Longrightarrow> rpc_ok cfg N \<Longrightarrow> rpc_config_ok cfg \<Longrightarrow> rpc_ok cfg N'"
proof (induction "is" arbitrary: N)
  case (Cons i "is")
  then obtain N1 where N1: "doDiscoveryForServerPort cfg i N = Inr N1" by auto
  note ok1 = doDiscoveryForServerPort_ok [OF Cons.prems(2,3) N1]
  from Cons.prems(1) N1 consider "servers_loop cfg is N1 = Inr N'" | N2 where "destroyServerPort cfg i N1 = Inr N2" "servers_loop cfg is N2 = Inr N'"
    by (auto simp: with_port_Inr split: if_splits)
  then show ?case using Cons.IH Cons.prems(3) ok1 destroyServerPort_ok [OF ok1] by cases blast+
qed simp

lemma each_server_ok:
  assumes "each_server f sel is N = Inr N'" "rpc_ok cfg N" "\<And>i N N'. f i N = Inr N' \<Longrightarrow> rpc_ok cfg N \<Longrightarrow> rpc_ok cfg N'"
  shows "rpc_ok cfg N'"
  using assms by (induction "is" arbitrary: N) (auto simp: with_port_Inr split: if_splits)

lemma each_client_ok:
  assumes "each_client f name js N = Inr N'" "rpc_ok cfg N" "\<And>j N N'. f j N = Inr N' \<Longrightarrow> rpc_ok cfg N \<Longrightarrow> rpc_ok cfg N'"
  shows "rpc_ok cfg N'"
  using assms by (induction js arbitrary: N) (auto simp: with_port_Inr split: if_splits)

lemma stop_offer_server_ok:
  assumes "stop_offer_server cfg i N = Inr N'" "rpc_ok cfg N" "rpc_config_ok cfg"
  shows "rpc_ok cfg N'"
proof -
  from assms(1) obtain v where v: "slot (rp_servers N) i = Some v"
    and run: "doDiscoveryForServerPort cfg i (put_server i (v\<lparr> vpd_offeringRequested := False \<rparr>) N) = Inr N'"
    by (auto simp: stop_offer_server_def with_port_Inr)
  have "rpc_ok cfg (put_server i (v\<lparr> vpd_offeringRequested := False \<rparr>) N)"
    by (rule put_server_idle [OF assms(2) v]) (simp_all add: same_server_def ServerPortRouDi_getClientTooSlowPolicy_def)
  from doDiscoveryForServerPort_ok [OF this assms(3) run] show ?thesis .
qed

text \<open>New ports.\<close>

lemma insert_length:
  assumes "hasFreeSpace n xs" "container_insert x xs = (i, ys)" "length xs \<le> n"
  shows "length ys \<le> n"
proof (cases "first_free xs < length xs")
  case True
  with assms(2,3) show ?thesis by (auto simp: container_insert_def Let_def)
next
  case False
  then have "length xs < n" using assms(1) first_free_full by (fastforce simp: hasFreeSpace_def split: if_splits)
  with False assms(2) show ?thesis by (auto simp: container_insert_def Let_def)
qed

lemma addClientPort_ok:
  assumes ok: "rpc_ok cfg N" and run: "addClientPort cfg sd name options uid qid is ris N = Inr (r, N')"
  shows "rpc_ok cfg N'"
proof (cases "hasFreeSpace (rdc_MAX_CLIENTS cfg) (rp_clients N)")
  case True
  let ?q = "rdc_clientQueueAddress cfg (first_free (rp_clients N))"
  from True run obtain c P' j cs where c: "ClientPortData_ctor (rdc_rpc cfg) sd name options uid qid ?q is ris (rp_popo N) = Inr (c, P')"
    and j: "container_insert c (rp_clients N) = (j, cs)" and N': "N' = (set_popo P' N)\<lparr> rp_clients := cs \<rparr>"
    by (auto simp: addClientPort_def returns)
  have new: "cpd_connectionState c = NOT_CONNECTED" "cqueues c = []" "cpd_queue c = ?q"
    using c by (auto simp: ClientPortData_ctor_def ChunkReceiverData_ctor_def ChunkSenderData_ctor_def ChunkDistributorData_ctor_def)
  note ins = slot_insert [OF j]
  have cl: "slot (rp_clients N') k = (if k = j then Some c else slot (rp_clients N) k)" for k using ins(3) by (simp add: N')
  have sv: "rp_servers N' = rp_servers N" by (simp add: N')
  have "length cs \<le> rdc_MAX_CLIENTS cfg" by (rule insert_length [OF True j]) (use ok in \<open>simp add: rpc_ok_def rpc_base_def\<close>)
  then have base: "rpc_base cfg N'" using ok new(3) ins(1) unfolding rpc_ok_def rpc_base_def cl sv by (auto simp: N')
  have "linked_queues N' v = linked_queues N v" for v
    using new(1) ins(2) unfolding linked_queues_def cl by (auto split: if_splits) (metis option.distinct(1))
  then have "server_ok N' v = server_ok N v" "client_ok N' d = client_ok N d" for v d by (simp_all add: server_ok_def client_ok_def sv)
  moreover have "client_ok N' c" using new by (simp add: client_ok_def)
  ultimately show ?thesis using ok base by (auto simp: rpc_ok_def cl sv)
next
  case False
  with run ok show ?thesis by (simp add: addClientPort_def)
qed

lemma acquireClientPortData_ok:
  assumes ok: "rpc_ok cfg N" and cfg: "rpc_config_ok cfg"
    and run: "acquireClientPortData cfg sd options name uid qid is ris N = Inr (r, N')"
  shows "rpc_ok cfg N'"
proof -
  from run obtain r1 N1 where N1: "addClientPort cfg sd name options uid qid is ris N = Inr (r1, N1)"
    and N': "N' = N1 \<or> (\<exists>j. doDiscoveryForClientPort cfg j N1 = Inr N')"
    by (auto simp: acquireClientPortData_def returns)
  from addClientPort_ok [OF ok N1] N' doDiscoveryForClientPort_ok [OF _ cfg] show ?thesis by blast
qed

lemma unique_server_loop_ok:
  assumes "unique_server_loop cfg sd is N = Inr (unique, N')" "rpc_ok cfg N" "distinct is"
  shows "rpc_ok cfg N' \<and> (\<forall>k. k \<notin> set is \<longrightarrow> slot (rp_servers N') k = slot (rp_servers N) k) \<and>
    (unique \<longrightarrow> (\<forall>i v. i \<in> set is \<longrightarrow> slot (rp_servers N') i = Some v \<longrightarrow> \<not> ServiceDescription_eq sd (bpd_serviceDescription v)))"
  using assms
proof (induction "is" arbitrary: N)
  case (Cons i "is")
  from Cons.prems(1) obtain v where v: "slot (rp_servers N) i = Some v" by (auto simp: with_port_Inr)
  consider (other) "\<not> ServiceDescription_eq sd (bpd_serviceDescription v)" "unique_server_loop cfg sd is N = Inr (unique, N')"
    | (destroyed) N1 where "destroyServerPort cfg i N = Inr N1" "unique_server_loop cfg sd is N1 = Inr (unique, N')"
    | (found) "\<not> unique" "N' = N"
    using Cons.prems(1) v by (auto simp: with_server_def split: if_splits)
  then show ?case
  proof cases
    case other
    from Cons.IH [OF other(2) Cons.prems(2)] Cons.prems(3) other(1) v show ?thesis by auto
  next
    case destroyed
    note d = destroyServerPort_ok [OF Cons.prems(2) destroyed(1)]
    from Cons.IH [OF destroyed(2)] Cons.prems(3) d show ?thesis by auto
  next
    case found
    with Cons.prems(2) show ?thesis by simp
  qed
qed simp

lemma addServerPort_ok:
  assumes ok: "rpc_ok cfg N" and run: "addServerPort cfg sd name options uid qid is ris N = Inr (r, N')"
    and uniq: "\<And>i v. slot (rp_servers N) i = Some v \<Longrightarrow> \<not> ServiceDescription_eq sd (bpd_serviceDescription v)"
  shows "rpc_ok cfg N'"
proof (cases "hasFreeSpace (rdc_MAX_SERVERS cfg) (rp_servers N)")
  case True
  let ?q = "rdc_serverQueueAddress cfg (first_free (rp_servers N))"
  from True run obtain v P' i vs where v: "ServerPortData_ctor (rdc_rpc cfg) sd name options uid qid ?q is ris (rp_popo N) = Inr (v, P')"
    and i: "container_insert v (rp_servers N) = (i, vs)" and N': "N' = (set_popo P' N)\<lparr> rp_servers := vs \<rparr>"
    by (auto simp: addServerPort_def returns)
  have new: "\<not> vpd_offered v" "squeues v = []" "vpd_queue v = ?q" "bpd_serviceDescription v = sd"
    using v by (auto simp: ServerPortData_ctor_def ChunkReceiverData_ctor_def ChunkSenderData_ctor_def ChunkDistributorData_ctor_def)
  note ins = slot_insert [OF i]
  have sv: "slot (rp_servers N') k = (if k = i then Some v else slot (rp_servers N) k)" for k using ins(3) by (simp add: N')
  have cl: "rp_clients N' = rp_clients N" by (simp add: N')
  have uniq': "\<not> ServiceDescription_eq (bpd_serviceDescription w) sd" if "slot (rp_servers N) k = Some w" for k w
    using uniq [OF that] by (simp add: ServiceDescription_eq_key eq_commute)
  have base: "rpc_base cfg N'" using ok new(3,4) ins(1) uniq uniq' unfolding rpc_ok_def rpc_base_def sv cl by auto
  have "\<not> isCompatibleClientServer v c" if "slot (rp_clients N) k = Some c" "connected c" for k c
  proof -
    have "client_ok N c" using ok that(1) by (auto simp: rpc_ok_def)
    with that(2) obtain l w where "slot (rp_servers N) l = Some w" "isCompatibleClientServer w c" by (auto simp: client_ok_def)
    with uniq [of l w] new(4) compatible_key [of w c] compatible_key [of v c] show ?thesis by (auto simp: ServiceDescription_eq_key)
  qed
  then have "server_ok N' v" using new by (auto simp: server_ok_def linked_queues_def cl)
  moreover have "server_ok N' w = server_ok N w" for w by (simp add: server_ok_def linked_queues_def cl)
  moreover have "client_ok N' c" if "client_ok N c" for c
    using that ins(2) by (auto simp: client_ok_def sv split: if_splits) (metis option.distinct(1))
  ultimately show ?thesis using ok base by (auto simp: rpc_ok_def cl sv)
next
  case False
  with run ok show ?thesis by (simp add: addServerPort_def)
qed

lemma acquireServerPortData_ok:
  assumes ok: "rpc_ok cfg N" and cfg: "rpc_config_ok cfg"
    and run: "acquireServerPortData cfg sd options name uid qid is ris N = Inr (r, N')"
  shows "rpc_ok cfg N'"
proof -
  from run obtain unique N1 where N1: "unique_server_loop cfg sd (content (rp_servers N)) N = Inr (unique, N1)" by (auto simp: acquireServerPortData_def)
  note u = unique_server_loop_ok [OF N1 ok content_distinct]
  show ?thesis
  proof (cases unique)
    case False
    with run N1 u show ?thesis by (simp add: acquireServerPortData_def)
  next
    case True
    with run N1 obtain r2 N2 where N2: "addServerPort cfg sd name options uid qid is ris N1 = Inr (r2, N2)"
      and N': "N' = N2 \<or> (\<exists>i. doDiscoveryForServerPort cfg i N2 = Inr N')"
      by (auto simp: acquireServerPortData_def returns)
    have "\<not> ServiceDescription_eq sd (bpd_serviceDescription v)" if "slot (rp_servers N1) i = Some v" for i v
      using u True that by (cases "i \<in> set (content (rp_servers N))") auto
    with u have "rpc_ok cfg N2" by (intro addServerPort_ok [OF _ N2]) auto
    with N' doDiscoveryForServerPort_ok [OF _ cfg] show ?thesis by blast
  qed
qed

subsection \<open>All runs\<close>

text \<open>The operations of an application on its ports; as for publishers, a send is one step, in which nobody waits for a full blocking queue.\<close>

inductive client_user_step :: "rpc_config \<Rightarrow> client_port_data \<times> popo_state \<Rightarrow> client_port_data \<times> popo_state \<Rightarrow> bool" for cfg where
  client_connect: "client_user_step cfg (c, P) (ClientPortUser_connect c, P)"
| client_disconnect: "client_user_step cfg (c, P) (ClientPortUser_disconnect c, P)"
| client_destroy: "client_user_step cfg (c, P) (destroy c, P)"
| client_allocate: "ClientPortUser_allocateRequest cfg us ua c T = Inr (r, c', T') \<Longrightarrow> rs_popo T = P \<Longrightarrow> client_user_step cfg (c, P) (c', rs_popo T')"
| client_send: "ClientPortUser_sendRequest cfg [] h c T = Inr (r', c', T') \<Longrightarrow> rs_popo T = P \<Longrightarrow> client_user_step cfg (c, P) (c', rs_popo T')"
| client_get: "ClientPortUser_getResponse cfg c T = Inr (r'', c', T') \<Longrightarrow> rs_popo T = P \<Longrightarrow> client_user_step cfg (c, P) (c', rs_popo T')"
| client_releaseRequest: "ClientPortUser_releaseRequest cfg h c T = Inr (c', T') \<Longrightarrow> rs_popo T = P \<Longrightarrow> client_user_step cfg (c, P) (c', rs_popo T')"
| client_releaseResponse: "ClientPortUser_releaseResponse cfg h c T = Inr (c', T') \<Longrightarrow> rs_popo T = P \<Longrightarrow> client_user_step cfg (c, P) (c', rs_popo T')"
| client_releaseQueued: "ClientPortUser_releaseQueuedResponses cfg c P = Inr P' \<Longrightarrow> client_user_step cfg (c, P) (c, P')"
| client_hasLost: "ClientPortUser_hasLostResponsesSinceLastCall c P = Inr (lost, P') \<Longrightarrow> client_user_step cfg (c, P) (c, P')"

inductive server_user_step :: "rpc_config \<Rightarrow> server_port_data \<times> popo_state \<Rightarrow> server_port_data \<times> popo_state \<Rightarrow> bool" for cfg where
  server_offer: "server_user_step cfg (v, P) (ServerPortUser_offer v, P)"
| server_stopOffer: "server_user_step cfg (v, P) (ServerPortUser_stopOffer v, P)"
| server_destroy: "server_user_step cfg (v, P) (destroy v, P)"
| server_get: "ServerPortUser_getRequest cfg v T = Inr (r, v', T') \<Longrightarrow> rs_popo T = P \<Longrightarrow> server_user_step cfg (v, P) (v', rs_popo T')"
| server_allocate: "ServerPortUser_allocateResponse cfg h us ua v T = Inr (r', v', T') \<Longrightarrow> rs_popo T = P \<Longrightarrow> server_user_step cfg (v, P) (v', rs_popo T')"
| server_send: "ServerPortUser_sendResponse cfg [] h v T = Inr (r'', v', T') \<Longrightarrow> rs_popo T = P \<Longrightarrow> server_user_step cfg (v, P) (v', rs_popo T')"
| server_releaseRequest: "ServerPortUser_releaseRequest cfg h v T = Inr (v', T') \<Longrightarrow> rs_popo T = P \<Longrightarrow> server_user_step cfg (v, P) (v', rs_popo T')"
| server_releaseQueued: "ServerPortUser_releaseQueuedRequests cfg v P = Inr P' \<Longrightarrow> server_user_step cfg (v, P) (v, P')"
| server_hasLost: "ServerPortUser_hasLostRequestsSinceLastCall v P = Inr (lost, P') \<Longrightarrow> server_user_step cfg (v, P) (v, P')"
| server_releaseResponse: "ServerPortUser_releaseResponse cfg h v T = Inr (v', T') \<Longrightarrow> rs_popo T = P \<Longrightarrow> server_user_step cfg (v, P) (v', rs_popo T')"

text \<open>The last rule: publishers, subscribers and everything else that RouDi and the applications keep may change at any time.\<close>

inductive rpc_step :: "roudi_config \<Rightarrow> roudi_ports \<Rightarrow> roudi_ports \<Rightarrow> bool" for cfg where
  rpc_acquireClient: "acquireClientPortData cfg sd coptions name uid qid is ris N = Inr (r, N') \<Longrightarrow> rpc_step cfg N N'"
| rpc_acquireServer: "acquireServerPortData cfg sd soptions name uid qid is ris N = Inr (r, N') \<Longrightarrow> rpc_step cfg N N'"
| rpc_discovery: "doDiscovery cfg N = Inr N' \<Longrightarrow> rpc_step cfg N N'"
| rpc_delete: "deletePortsOfProcess cfg name N = Inr N' \<Longrightarrow> rpc_step cfg N N'"
| rpc_unblockProcess: "unblockProcessShutdown cfg name N = Inr N' \<Longrightarrow> rpc_step cfg N N'"
| rpc_unblockRouDi: "unblockRouDiShutdown cfg N = Inr N' \<Longrightarrow> rpc_step cfg N N'"
| rpc_client: "slot (rp_clients N) j = Some c \<Longrightarrow> client_user_step (rdc_rpc cfg) (c, rp_popo N) (c', P') \<Longrightarrow> rpc_step cfg N (set_popo P' (put_client j c' N))"
| rpc_server: "slot (rp_servers N) i = Some v \<Longrightarrow> server_user_step (rdc_rpc cfg) (v, rp_popo N) (v', P') \<Longrightarrow> rpc_step cfg N (set_popo P' (put_server i v' N))"
| rpc_other: "rp_servers N' = rp_servers N \<Longrightarrow> rp_clients N' = rp_clients N \<Longrightarrow> rpc_step cfg N N'"

text \<open>The operations of the applications keep the lists of queues.\<close>

lemma release_distributor: "ChunkSender_release MaxAlloc h X S = Inr (X', S') \<Longrightarrow> csd_distributor X' = csd_distributor X"
  by (auto simp: ChunkSender_release_def returns)

lemma deliver_policy:
  assumes "deliverToAllStoredQueues Capacity chunk [] D P = Inr (n, D', P')"
  shows "cdd_queues D' = cdd_queues D \<and> cdd_consumerTooSlowPolicy D' = cdd_consumerTooSlowPolicy D"
  using assms by (auto simp: deliverToAllStoredQueues_def addToHistoryWithoutDelivery_def locked_def split: if_splits)

lemma deliverToQueue_same: "deliverToQueue Capacity q i chunk [] D P = Inr (r, D', P') \<Longrightarrow> D' = D"
  by (auto simp: returns)

lemma tryGet_queue: "ChunkReceiver_tryGet n Capacity R P = Inr (r, R', P') \<Longrightarrow> crd_queue R' = crd_queue R"
  by (auto simp: ChunkReceiver_tryGet_def returns)

lemma receiver_release_queue: "ChunkReceiver_release n h R P = Inr (R', P') \<Longrightarrow> crd_queue R' = crd_queue R"
  by (auto simp: ChunkReceiver_release_def returns)

lemma client_user_step_same:
  assumes "client_user_step cfg (c, P) (c', P')"
  shows "same_client c c' \<and> cpd_connectionState c' = cpd_connectionState c \<and> cqueues c' = cqueues c"
  using assms
  by (auto elim!: client_user_step.cases simp: same_client_def ClientPortRouDi_getServerTooSlowPolicy_def ClientPortUser_connect_def
      ClientPortUser_disconnect_def destroy_def ClientPortUser_allocateRequest_def ClientPortUser_sendRequest_def ClientPortUser_releaseRequest_def
      ClientPortUser_getResponse_def ClientPortUser_releaseResponse_def with_queue_def ChunkSender_send_def returns
      dest!: tryAllocate_distributor release_distributor tryGet_queue receiver_release_queue getChunkReady_distributor deliver_policy remember_distributor)

lemma server_user_step_same:
  assumes "server_user_step cfg (v, P) (v', P')"
  shows "same_server v v' \<and> vpd_offered v' = vpd_offered v \<and> squeues v' = squeues v"
  using assms
  by (auto elim!: server_user_step.cases simp: same_server_def ServerPortRouDi_getClientTooSlowPolicy_def ServerPortUser_offer_def
      ServerPortUser_stopOffer_def destroy_def ServerPortUser_getRequest_def ServerPortUser_allocateResponse_def ServerPortUser_sendResponse_def
      ServerPortUser_releaseResponse_def ServerPortUser_releaseRequest_def with_header_def locked_def ChunkSender_sendToQueue_def returns
      dest!: tryAllocate_distributor release_distributor tryGet_queue receiver_release_queue getChunkReady_distributor deliverToQueue_same remember_distributor split: if_split_asm)

text \<open>The rest of the discovery does not touch servers and clients.\<close>

lemma interfaces_loop_frame: "interfaces_loop is fw N = Inr (fw', N') \<Longrightarrow> rp_servers N' = rp_servers N \<and> rp_clients N' = rp_clients N"
proof (induction "is" arbitrary: fw N)
  case (Cons i "is")
  then obtain fw1 N1 where "interfaces_loop is fw1 N1 = Inr (fw', N')" "rp_servers N1 = rp_servers N \<and> rp_clients N1 = rp_clients N"
    by (auto simp: Let_def removeInterfacePort_def split: option.splits if_splits)
  with Cons.IH show ?case by fastforce
qed simp

lemma forward_loop_frame: "forward_loop Capacity m is N = Inr N' \<Longrightarrow> rp_servers N' = rp_servers N \<and> rp_clients N' = rp_clients N"
proof (induction "is" arbitrary: N)
  case (Cons i "is")
  then obtain N1 where "forward_loop Capacity m is N1 = Inr N'" "rp_servers N1 = rp_servers N \<and> rp_clients N1 = rp_clients N"
    by (auto split: option.splits if_splits)
  with Cons.IH show ?case by fastforce
qed simp

lemma forward_all_frame: "forward_all Capacity t sds is N = Inr N' \<Longrightarrow> rp_servers N' = rp_servers N \<and> rp_clients N' = rp_clients N"
  by (induction sds arbitrary: N) (auto dest!: forward_loop_frame)

lemma handleInterfaces_frame: "handleInterfaces cfg N = Inr N' \<Longrightarrow> rp_servers N' = rp_servers N \<and> rp_clients N' = rp_clients N"
  by (auto simp: handleInterfaces_def dest!: interfaces_loop_frame forward_all_frame split: if_splits)

lemma fold_frame:
  assumes "\<And>i N. rp_servers (f i N) = rp_servers N \<and> rp_clients (f i N) = rp_clients N"
  shows "rp_servers (fold f is N) = rp_servers N \<and> rp_clients (fold f is N) = rp_clients N"
  using assms by (induction "is" arbitrary: N) auto

lemma nodes_frame: "rp_servers (handleNodes N) = rp_servers N \<and> rp_clients (handleNodes N) = rp_clients N"
  "rp_servers (remove_nodes_of name N) = rp_servers N \<and> rp_clients (remove_nodes_of name N) = rp_clients N"
  "rp_servers (remove_interfaces_of name N) = rp_servers N \<and> rp_clients (remove_interfaces_of name N) = rp_clients N"
  unfolding handleNodes_def remove_nodes_of_def remove_interfaces_of_def
  by (rule fold_frame; simp add: removeNodeData_def removeInterfacePort_def split: option.split)+

lemma condition_variables_loop_frame:
  "condition_variables_loop cfg sel is N = Inr N' \<Longrightarrow> rp_servers N' = rp_servers N \<and> rp_clients N' = rp_clients N"
proof (induction "is" arbitrary: N)
  case (Cons i "is")
  then obtain N1 where "condition_variables_loop cfg sel is N1 = Inr N'" "rp_servers N1 = rp_servers N \<and> rp_clients N1 = rp_clients N"
    by (auto simp: removeConditionVariableData_def split: option.splits if_splits)
  with Cons.IH show ?case by fastforce
qed simp

lemma rpc_ok_frame: "rp_servers N' = rp_servers N \<and> rp_clients N' = rp_clients N \<Longrightarrow> rpc_ok cfg N \<Longrightarrow> rpc_ok cfg N'"
  using rpc_ok_cong [of N' N] by simp

lemma doDiscovery_ok:
  assumes ok: "rpc_ok cfg N" and cfg: "rpc_config_ok cfg" and run: "doDiscovery cfg N = Inr N'"
  shows "rpc_ok cfg N'"
proof -
  from run obtain N1 N2 N3 N4 N5 where N: "on_ports (handlePublisherPorts (rdc_ports cfg)) N = Inr N1" "on_ports (handleSubscriberPorts (rdc_ports cfg)) N1 = Inr N2"
    "handleServerPorts cfg N2 = Inr N3" "handleClientPorts cfg N3 = Inr N4" "handleInterfaces cfg N4 = Inr N5"
    "handleConditionVariables cfg (handleNodes N5) = Inr N'" by (auto simp: doDiscovery_def)
  have "rpc_ok cfg N2" using ok rpc_ok_frame [OF on_ports_frames [OF N(1)]] rpc_ok_frame [OF on_ports_frames [OF N(2)]] by blast
  then have "rpc_ok cfg N4" using N(3,4) servers_loop_ok clients_loop_ok cfg by (auto simp: handleServerPorts_def handleClientPorts_def)
  moreover have "rp_servers N' = rp_servers N4 \<and> rp_clients N' = rp_clients N4"
    using handleInterfaces_frame [OF N(5)] nodes_frame(1) [of N5] condition_variables_loop_frame [OF N(6) [unfolded handleConditionVariables_def]] by simp
  ultimately show ?thesis using rpc_ok_frame by blast
qed

lemma deletePortsOfProcess_ok:
  assumes ok: "rpc_ok cfg N" and cfg: "rpc_config_ok cfg" and run: "deletePortsOfProcess cfg name N = Inr N'"
  shows "rpc_ok cfg N'"
proof -
  let ?N0 = "if name = pmc_roudiName (rdc_ports cfg) then N\<lparr> rp_ports := (rp_ports N)\<lparr> pm_serviceRegistryPublisherPortData := None \<rparr> \<rparr> else N"
  let ?f = "\<lambda>M. each_publisher (destroyPublisherPort (rdc_ports cfg)) name (content (pm_publishers M)) M"
  let ?g = "\<lambda>M. each_subscriber (destroySubscriberPort (rdc_ports cfg)) name (content (pm_subscribers M)) M"
  have N1: "rp_servers ?N0 = rp_servers N \<and> rp_clients ?N0 = rp_clients N" by simp
  from run obtain N1 N2 N3 N4 where N: "on_ports ?f ?N0 = Inr N1" "on_ports ?g N1 = Inr N2"
    "each_server (destroyServerPort cfg) (\<lambda>v. name = bpd_runtimeName v) (content (rp_servers N2)) N2 = Inr N3"
    "each_client (destroyClientPort cfg) name (content (rp_clients N3)) N3 = Inr N4"
    "condition_variables_loop cfg (\<lambda>d. name = cv_runtimeName d) (content (rp_conditionVariables (remove_nodes_of name (remove_interfaces_of name N4))))
       (remove_nodes_of name (remove_interfaces_of name N4)) = Inr N'"
    unfolding deletePortsOfProcess_def Let_def obind_eq_Inr by blast
  have "rpc_ok cfg N2" using ok rpc_ok_frame [OF N1] rpc_ok_frame [OF on_ports_frames [OF N(1)]] rpc_ok_frame [OF on_ports_frames [OF N(2)]] by blast
  then have "rpc_ok cfg N3" by (rule each_server_ok [OF N(3)]) (use destroyServerPort_ok in blast)
  then have "rpc_ok cfg N4" by (rule each_client_ok [OF N(4)]) (use destroyClientPort_ok cfg in blast)
  moreover have "rp_servers N' = rp_servers N4 \<and> rp_clients N' = rp_clients N4"
    using condition_variables_loop_frame [OF N(5)] nodes_frame(2) [of name "remove_interfaces_of name N4"] nodes_frame(3) [of name N4] by simp
  ultimately show ?thesis using rpc_ok_frame by blast
qed

lemma rpc_step_ok: "rpc_step cfg N N' \<Longrightarrow> rpc_config_ok cfg \<Longrightarrow> rpc_ok cfg N \<Longrightarrow> rpc_ok cfg N'"
proof (induction rule: rpc_step.induct)
  case (rpc_unblockProcess name N N')
  then obtain f N1 where N1: "on_ports f N = Inr N1"
    "each_server (stop_offer_server cfg) (\<lambda>v. name = bpd_runtimeName v) (content (rp_servers N1)) N1 = Inr N'"
    by (fastforce simp: unblockProcessShutdown_def)
  have "rpc_ok cfg N1" using rpc_ok_frame [OF on_ports_frames [OF N1(1)]] rpc_unblockProcess by blast
  then show ?case by (rule each_server_ok [OF N1(2)]) (use stop_offer_server_ok rpc_unblockProcess in blast)
next
  case (rpc_unblockRouDi N N')
  then obtain f N1 where N1: "on_ports f N = Inr N1"
    "each_server (stop_offer_server cfg) (\<lambda>_. True) (content (rp_servers N1)) N1 = Inr N'"
    by (fastforce simp: unblockRouDiShutdown_def makeAllServerPortsToStopOffer_def)
  have "rpc_ok cfg N1" using rpc_ok_frame [OF on_ports_frames [OF N1(1)]] rpc_unblockRouDi by blast
  then show ?case by (rule each_server_ok [OF N1(2)]) (use stop_offer_server_ok rpc_unblockRouDi in blast)
next
  case (rpc_client N j c c' P')
  have "client_ok N c" using rpc_client by (auto simp: rpc_ok_def)
  with client_user_step_same [OF rpc_client.hyps(2)] rpc_client show ?case
    by (simp add: put_client_idle client_ok_def)
next
  case (rpc_server N i v v' P')
  with server_user_step_same [OF rpc_server.hyps(2)] show ?case by (simp add: put_server_idle)
qed (blast intro: acquireClientPortData_ok acquireServerPortData_ok doDiscovery_ok deletePortsOfProcess_ok rpc_ok_frame)+

lemma reachable_rpc_ok:
  assumes "(rpc_step cfg)\<^sup>*\<^sup>* N0 N" "rp_servers N0 = []" "rp_clients N0 = []" "rpc_config_ok cfg"
  shows "rpc_ok cfg N"
  using assms(1)
proof (induction rule: rtranclp_induct)
  case base
  show ?case using assms(2,3) by (simp add: rpc_ok_def rpc_base_def slot_def)
next
  case (step N N')
  from rpc_step_ok [OF step.hyps(2) assms(4) step.IH] show ?case .
qed

subsection \<open>An example\<close>

definition example_rpc_config :: rpc_config where
  "example_rpc_config = \<lparr> rc_MaxRequestsAllocated = 2, rc_MaxResponsesHeld = 2, rc_ResponseCapacity = 2, rc_MaxResponsesAllocated = 2,
     rc_MaxRequestsHeld = 2, rc_RequestCapacity = 2, rc_MaxClientsPerServer = 2 \<rparr>"

definition example_roudi_config :: roudi_config where
  "example_roudi_config = \<lparr> rdc_ports = example_pm_config, rdc_rpc = example_rpc_config, rdc_serverQueueAddress = (\<lambda>i. 100 + of_nat i),
     rdc_clientQueueAddress = (\<lambda>j. 200 + of_nat j), rdc_conditionVariableAddress = (\<lambda>i. 300 + of_nat i), rdc_MAX_SERVERS = 2, rdc_MAX_CLIENTS = 2,
     rdc_MAX_INTERFACE_NUMBER = 2, rdc_MAX_NODE_NUMBER = 2, rdc_MAX_NUMBER_OF_CONDITION_VARIABLES = 2 \<rparr>"

definition example_roudi :: roudi_ports where
  "example_roudi = \<lparr> rp_ports = example_manager, rp_servers = [], rp_clients = [], rp_nodes = [], rp_conditionVariables = [] \<rparr>"

definition example_client_options :: client_options where
  "example_client_options = \<lparr> co_responseQueueCapacity = 2, co_nodeName = '''', co_connectOnCreate = True,
     co_responseQueueFullPolicy = DISCARD_OLDEST_DATA, co_serverTooSlowPolicy = DISCARD_OLDEST_DATA_OF_CONSUMER \<rparr>"

definition example_server_options :: server_options where
  "example_server_options = \<lparr> svo_requestQueueCapacity = 2, svo_nodeName = '''', svo_offerOnCreate = True,
     svo_requestQueueFullPolicy = DISCARD_OLDEST_DATA, svo_clientTooSlowPolicy = DISCARD_OLDEST_DATA_OF_CONSUMER \<rparr>"

definition example_with_client :: roudi_ports where
  "example_with_client = snd (projr (acquireClientPortData example_roudi_config (example_service ''a'') example_client_options ''app'' 1 10 [0, 0] [0, 0] example_roudi))"

definition example_with_server :: roudi_ports where
  "example_with_server = snd (projr (acquireServerPortData example_roudi_config (example_service ''a'') example_server_options ''srv'' 2 20 [0, 0] [0, 0] example_with_client))"

lemma example_rpc_run: "(rpc_step example_roudi_config)\<^sup>*\<^sup>* example_roudi example_with_server"
proof -
  let ?r1 = "acquireClientPortData example_roudi_config (example_service ''a'') example_client_options ''app'' 1 10 [0, 0] [0, 0] example_roudi"
  let ?r2 = "acquireServerPortData example_roudi_config (example_service ''a'') example_server_options ''srv'' 2 20 [0, 0] [0, 0] example_with_client"
  have "\<not> isl ?r1" by code_simp
  then have "?r1 = Inr (fst (projr ?r1), example_with_client)" by (simp add: example_with_client_def sum.expand)
  then have "rpc_step example_roudi_config example_roudi example_with_client" by (rule rpc_acquireClient)
  moreover have "\<not> isl ?r2" by code_simp
  then have "?r2 = Inr (fst (projr ?r2), example_with_server)" by (simp add: example_with_server_def sum.expand)
  then have "rpc_step example_roudi_config example_with_client example_with_server" by (rule rpc_acquireServer)
  ultimately show ?thesis by simp
qed

lemma example_roudi_config_ok: "rpc_config_ok example_roudi_config" "rp_servers example_roudi = []" "rp_clients example_roudi = []"
proof -
  have "200 + (of_nat i :: u64) = 200 + of_nat j \<Longrightarrow> i < 2 \<Longrightarrow> j < 2 \<Longrightarrow> i = j" for i j
    by (auto simp: less_2_cases_iff)
  then show "rpc_config_ok example_roudi_config" by (auto simp: rpc_config_ok_def example_roudi_config_def inj_on_def)
qed (simp_all add: example_roudi_def)

lemma example_rpc_ports:
  obtains v c where "slot (rp_servers example_with_server) 0 = Some v" "slot (rp_clients example_with_server) 0 = Some c" "connected c" "cqueues c = [100]" "squeues v = [200]"
proof -
  have "(case (slot (rp_servers example_with_server) 0, slot (rp_clients example_with_server) 0) of
      (Some v, Some c) \<Rightarrow> connected c \<and> cqueues c = [100] \<and> squeues v = [200] | _ \<Rightarrow> False)"
    by code_simp
  with that show thesis by (auto split: option.splits)
qed

subsection \<open>The properties\<close>

text \<open>
  C32: in every state that RouDi and the applications can reach, no client is in a transient state of the connection protocol. A
  connected client sends its requests to the queue of exactly one server, which is offered, has its description and compatible policies, and
  has the queue of the client for its responses. A client that is not connected sends to nobody, and a server sends responses only into queues of
  connected clients, so never into the queue of a client that has been destroyed.
\<close>

theorem rpc_connections_consistent:
  assumes run: "(rpc_step cfg)\<^sup>*\<^sup>* N0 N" "rp_servers N0 = []" "rp_clients N0 = []" "rpc_config_ok cfg"
    and c: "slot (rp_clients N) j = Some c" and v: "slot (rp_servers N) i = Some v"
  shows "(if cpd_connectionState c = CONNECTED
      then \<exists>i' v'. slot (rp_servers N) i' = Some v' \<and> vpd_offered v' \<and> isCompatibleClientServer v' c \<and> cqueues c = [rdc_serverQueueAddress cfg i'] \<and>
        cpd_queue c \<in> set (squeues v')
      else cpd_connectionState c \<in> {NOT_CONNECTED, CONNECTION_WAIT_FOR_OFFER} \<and> cqueues c = []) \<and>
    distinct (squeues v) \<and>
    set (squeues v) = {q. \<exists>j' c'. slot (rp_clients N) j' = Some c' \<and> cpd_connectionState c' = CONNECTED \<and> isCompatibleClientServer v c' \<and> q = rdc_clientQueueAddress cfg j'}"
proof -
  have ok: "rpc_ok cfg N" by (rule reachable_rpc_ok [OF run])
  then have base: "rpc_base cfg N" and cok: "client_ok N c" and vok: "server_ok N v" using c v by (auto simp: rpc_ok_def)
  have addr: "slot (rp_clients N) j' = Some c' \<Longrightarrow> cpd_queue c' = rdc_clientQueueAddress cfg j'" for j' c' using base by (simp add: rpc_base_def)
  have "linked_queues N v = {q. \<exists>j' c'. slot (rp_clients N) j' = Some c' \<and> connected c' \<and> isCompatibleClientServer v c' \<and> q = rdc_clientQueueAddress cfg j'}"
    unfolding linked_queues_def using addr by (intro Collect_cong) metis
  moreover have "\<exists>i' v'. slot (rp_servers N) i' = Some v' \<and> vpd_offered v' \<and> isCompatibleClientServer v' c \<and> cqueues c = [rdc_serverQueueAddress cfg i'] \<and>
        cpd_queue c \<in> set (squeues v')" if "connected c"
  proof -
    from cok that obtain i' v' where v': "slot (rp_servers N) i' = Some v'" "vpd_offered v'" "isCompatibleClientServer v' c" "cqueues c = [vpd_queue v']"
      by (auto simp: client_ok_def)
    have "server_ok N v'" using ok v'(1) by (auto simp: rpc_ok_def)
    then have "cpd_queue c \<in> set (squeues v')" using c that v'(3) by (auto simp: server_ok_def linked_queues_def)
    moreover have "vpd_queue v' = rdc_serverQueueAddress cfg i'" using base v'(1) by (simp add: rpc_base_def)
    ultimately show ?thesis using v' by auto
  qed
  ultimately show ?thesis using cok vok by (auto simp: client_ok_def server_ok_def)
qed

lemma rpc_connections_consistent_witness:
  "\<exists>v c. slot (rp_servers example_with_server) 0 = Some v \<and> slot (rp_clients example_with_server) 0 = Some c \<and> cqueues c = [100] \<and> set (squeues v) = {200} \<and>
     (\<exists>i' v'. slot (rp_servers example_with_server) i' = Some v' \<and> isCompatibleClientServer v' c \<and> cqueues c = [rdc_serverQueueAddress example_roudi_config i'] \<and>
        cpd_queue c \<in> set (squeues v'))"
proof -
  obtain v c where p: "slot (rp_servers example_with_server) 0 = Some v" "slot (rp_clients example_with_server) 0 = Some c" "connected c"
    "cqueues c = [100]" "squeues v = [200]" by (rule example_rpc_ports)
  from rpc_connections_consistent [OF example_rpc_run example_roudi_config_ok(2,3,1) p(2,1)] p show ?thesis by auto
qed

subsection \<open>Interfaces\<close>

text \<open>
  A gateway creates its interface port and ends before the next discovery of RouDi, while a publisher is offered: \<open>handleInterfaces\<close> puts the
  new port on the list for the initial offers, destroys it because it is to be destroyed, and then forwards the offers to it.
\<close>

definition destroyed_interface_run :: "roudi_ports outcome" where
  "destroyed_interface_run =
     obind (on_ports (\<lambda>M. obind (acquirePublisherPortData example_pm_config (example_service ''a'') example_publisher_options ''app'' 1 [0, 0] M) (\<lambda>(_, M1). Inr M1)) example_roudi) (\<lambda>N1.
     obind (acquireInterfacePortData example_roudi_config DDS ''gw'' 3 [] N1) (\<lambda>(_, N2).
     doDiscovery example_roudi_config (N2\<lparr> rp_ports := (rp_ports N2)\<lparr> pm_interfaces := map (map_option destroy) (pm_interfaces (rp_ports N2)) \<rparr> \<rparr>)))"

text \<open>
  The discovery of RouDi uses the memory of an interface port after it has destroyed the port, if the port was destroyed by its application before
  the first discovery.
\<close>

theorem destroyed_interface_is_used:
  "destroyed_interface_run = Inl NULLPTR_ACCESS"
  by code_simp

end
