(* ===== verification/Ownership.thy ===== *)
theory Ownership
  imports Rpc_Connections
begin

section \<open>Ports and their owners\<close>

text \<open>
  Every port and node of the pool has the name of the runtime it was created for. The operations of the port manager never change this name:
  messages and discovery keep all owners, the destruction of a port only empties its place, and \<open>deletePortsOfProcess\<close> leaves no
  port and no node with the name of the process.
\<close>

abbreviation owner_at :: "'a base_port_data_scheme option list \<Rightarrow> nat \<Rightarrow> string option" where
  "owner_at xs i \<equiv> map_option bpd_runtimeName (slot xs i)"

text \<open>The owners by the place in the containers: publishers, subscribers and interfaces; then also servers, clients and nodes.\<close>

record pm_owners =
  own_publishers :: "nat \<Rightarrow> string option"
  own_subscribers :: "nat \<Rightarrow> string option"
  own_interfaces :: "nat \<Rightarrow> string option"

record owners = pm_owners +
  own_servers :: "nat \<Rightarrow> string option"
  own_clients :: "nat \<Rightarrow> string option"
  own_nodes :: "nat \<Rightarrow> string option"

definition pm_owner :: "port_manager \<Rightarrow> pm_owners" where
  "pm_owner M = \<lparr> own_publishers = owner_at (pm_publishers M), own_subscribers = owner_at (pm_subscribers M),
     own_interfaces = owner_at (pm_interfaces M) \<rparr>"

definition owner :: "roudi_ports \<Rightarrow> owners" where
  "owner N = pm_owners.extend (pm_owner (rp_ports N))
     \<lparr> own_servers = owner_at (rp_servers N), own_clients = owner_at (rp_clients N), own_nodes = (\<lambda>i. map_option nd_runtimeName (slot (rp_nodes N) i)) \<rparr>"

named_theorems owner_keeps \<open>operations that keep the owners\<close>

lemma pm_owner_popo [simp]: "pm_owner (M\<lparr> pm_popo := P \<rparr>) = pm_owner M"
  "pm_owner (M\<lparr> pm_serviceRegistry := R \<rparr>) = pm_owner M" "pm_owner (M\<lparr> pm_internalServices := sds \<rparr>) = pm_owner M"
  "pm_owner (M\<lparr> pm_serviceRegistryPublisherPortData := i \<rparr>) = pm_owner M"
  by (simp_all add: pm_owner_def)

lemma put_owner:
  "slot (pm_publishers M) i = Some p \<Longrightarrow> bpd_runtimeName p' = bpd_runtimeName p \<Longrightarrow> pm_owner (put_publisher i p' M) = pm_owner M"
  "slot (pm_subscribers M) j = Some s \<Longrightarrow> bpd_runtimeName s' = bpd_runtimeName s \<Longrightarrow> pm_owner (put_subscriber j s' M) = pm_owner M"
  by (auto simp: pm_owner_def fun_eq_iff slot_update put_publisher_def put_subscriber_def)

subsection \<open>One port\<close>

lemma publisher_owner:
  "PublisherPortUser_tryAllocateChunk pc us ua hs ha p P = Inr (r, p', P') \<Longrightarrow> bpd_runtimeName p' = bpd_runtimeName p"
  "PublisherPortUser_sendChunk pc rounds h p P = Inr (p', P') \<Longrightarrow> bpd_runtimeName p' = bpd_runtimeName p"
  "PublisherPortUser_releaseChunk pc h p P = Inr (p', P') \<Longrightarrow> bpd_runtimeName p' = bpd_runtimeName p"
  "PublisherPortRouDi_tryGetCaProMessage p = Inr (m, p') \<Longrightarrow> bpd_runtimeName p' = bpd_runtimeName p"
  "PublisherPortRouDi_dispatchCaProMessageAndGetPossibleResponse pc msg p P = Inr (m, p', P') \<Longrightarrow> bpd_runtimeName p' = bpd_runtimeName p"
  by (auto simp: PublisherPortUser_tryAllocateChunk_def PublisherPortUser_sendChunk_def PublisherPortUser_releaseChunk_def
      PublisherPortRouDi_tryGetCaProMessage_def PublisherPortRouDi_dispatchCaProMessageAndGetPossibleResponse_def with_distributor_def Let_def
      split: if_splits)

lemma publisher_requests_owner [simp]:
  "bpd_runtimeName (PublisherPortUser_offer p) = bpd_runtimeName p" "bpd_runtimeName (PublisherPortUser_stopOffer p) = bpd_runtimeName p"
  "bpd_runtimeName (destroy D) = bpd_runtimeName D" "bpd_runtimeName (SubscriberPortUser_unsubscribe s) = bpd_runtimeName s"
  "bpd_runtimeName (ClientPortUser_connect c) = bpd_runtimeName c" "bpd_runtimeName (ClientPortUser_disconnect c) = bpd_runtimeName c"
  "bpd_runtimeName (ServerPortUser_offer v) = bpd_runtimeName v" "bpd_runtimeName (ServerPortUser_stopOffer v) = bpd_runtimeName v"
  by (simp_all add: PublisherPortUser_offer_def PublisherPortUser_stopOffer_def destroy_def SubscriberPortUser_unsubscribe_def
      ClientPortUser_connect_def ClientPortUser_disconnect_def ServerPortUser_offer_def ServerPortUser_stopOffer_def)

lemma subscriber_owner:
  "SubscriberPort_tryGetCaProMessage pc s = (m, s') \<Longrightarrow> bpd_runtimeName s' = bpd_runtimeName s"
  "SubscriberPort_dispatch pc msg s = Inr (m, s') \<Longrightarrow> bpd_runtimeName s' = bpd_runtimeName s"
  by (auto simp: SubscriberPort_tryGetCaProMessage_def SubscriberPort_dispatch_def SubscriberPortMultiProducer_tryGetCaProMessage_def
      SubscriberPortSingleProducer_tryGetCaProMessage_def SubscriberPortMultiProducer_dispatch_def SubscriberPortSingleProducer_dispatch_def
      Let_def split: if_splits)

lemma client_owner:
  "ClientPortRouDi_dispatch rc msg c P = Inr (m, c', P') \<Longrightarrow> bpd_runtimeName c' = bpd_runtimeName c"
  by (auto simp: ClientPortRouDi_dispatch_def handleCaProMessageForStateNotConnected_def handleCaProMessageForStateConnectRequested_def
      handleCaProMessageForStateWaitForOffer_def handleCaProMessageForStateConnected_def handleCaProMessageForStateDisconnectRequested_def
      client_violation_def with_client_distributor_def
      split: connection_state.splits capro_message_type.splits if_splits)

lemma client_message_owner:
  "ClientPortRouDi_tryGetCaProMessage rc c P = Inr (m, c', P') \<Longrightarrow> bpd_runtimeName c' = bpd_runtimeName c"
  by (auto simp: ClientPortRouDi_tryGetCaProMessage_def Let_def dest: client_owner split: if_splits)

lemma server_owner:
  "ServerPortRouDi_dispatch rc msg v P = Inr (m, v', P') \<Longrightarrow> bpd_runtimeName v' = bpd_runtimeName v"
  by (auto simp: ServerPortRouDi_dispatch_def handleCaProMessageForStateOffered_def handleCaProMessageForStateNotOffered_def
      with_server_distributor_def Let_def
      split: capro_message_type.splits if_splits option.splits)

lemma server_message_owner:
  "ServerPortRouDi_tryGetCaProMessage rc v P = Inr (m, v', P') \<Longrightarrow> bpd_runtimeName v' = bpd_runtimeName v"
  by (auto simp: ServerPortRouDi_tryGetCaProMessage_def dest: server_owner split: if_splits)

lemma interface_owner: "InterfacePort_dispatchCaProMessage n msg f = Inr f' \<Longrightarrow> bpd_runtimeName f' = bpd_runtimeName f"
  by (auto simp: InterfacePort_dispatchCaProMessage_def Let_def split: if_splits prod.splits)

subsection \<open>Publishers, subscribers and interfaces\<close>

lemma publishServiceRegistry_owner [owner_keeps]:
  assumes "publishServiceRegistry cfg M = Inr M'"
  shows "pm_owner M' = pm_owner M"
proof (cases "pm_serviceRegistryPublisherPortData M")
  case (Some i)
  with assms obtain p r p1 P1 where p: "slot (pm_publishers M) i = Some p"
    and alloc: "PublisherPortUser_tryAllocateChunk (popo_config.truncate cfg) (pmc_sizeofServiceRegistry cfg) (pmc_alignofServiceRegistry cfg) 0 1 p (pm_popo M) = Inr (r, p1, P1)"
    and rest: "(case r of Inl _ \<Rightarrow> Inr ((put_publisher i p1 M)\<lparr> pm_popo := P1 \<rparr>)
      | Inr chunk \<Rightarrow> obind (PublisherPortUser_sendChunk (popo_config.truncate cfg) [] (Some chunk) p1 P1) (\<lambda>(p2, P2).
          Inr ((put_publisher i p2 M)\<lparr> pm_popo := P2 \<rparr>))) = Inr M'"
    by (auto simp: publishServiceRegistry_def with_publisher_Inr)
  show ?thesis using rest publisher_owner(1) [OF alloc] p
    by (cases r) (auto dest!: publisher_owner(2) simp: put_owner)
qed (use assms in \<open>simp add: publishServiceRegistry_def\<close>)

lemma registry_owner [owner_keeps]:
  "addPublisherToServiceRegistry cfg sd M = Inr M' \<Longrightarrow> pm_owner M' = pm_owner M"
  "removePublisherFromServiceRegistry cfg sd M = Inr M' \<Longrightarrow> pm_owner M' = pm_owner M"
  "addServerToServiceRegistry cfg' sd M = Inr M' \<Longrightarrow> pm_owner M' = pm_owner M"
  "removeServerFromServiceRegistry cfg' sd M = Inr M' \<Longrightarrow> pm_owner M' = pm_owner M"
  by (auto simp: addPublisherToServiceRegistry_def removePublisherFromServiceRegistry_def addServerToServiceRegistry_def
      removeServerFromServiceRegistry_def Let_def split: prod.splits sum.splits dest!: publishServiceRegistry_owner)

lemma publisher_ports_loop_owner:
  "publisher_ports_loop cfg msg j is found M = Inr (r, M') \<Longrightarrow> pm_owner M' = pm_owner M"
proof (induction "is" arbitrary: found M)
  case (Cons i "is")
  from Cons.prems show ?case
    by (auto simp: with_publisher_Inr with_subscriber_Inr Let_def split: if_splits option.splits
        dest!: Cons.IH publisher_owner subscriber_owner simp: put_owner)
qed simp

lemma subscriber_ports_loop_owner:
  "subscriber_ports_loop cfg msg i js M = Inr M' \<Longrightarrow> pm_owner M' = pm_owner M"
proof (induction js arbitrary: M)
  case (Cons j js)
  from Cons.prems show ?case
    by (auto simp: with_publisher_Inr with_subscriber_Inr Let_def split: if_splits option.splits
        dest!: Cons.IH publisher_owner subscriber_owner simp: put_owner slot_Some_length)
qed simp

lemma interface_ports_loop_owner: "interface_ports_loop n msg xs = Inr ys \<Longrightarrow> owner_at ys = owner_at xs"
proof (induction xs arbitrary: ys)
  case (Cons x xs)
  then obtain x' ys' where "map_option bpd_runtimeName x' = map_option bpd_runtimeName x" "owner_at ys' = owner_at xs" "ys = x' # ys'"
    by (auto split: option.splits if_splits dest!: interface_owner)
  then show ?case by (auto simp: fun_eq_iff slot_def nth_Cons split: nat.splits if_splits)
qed simp

lemma passing_owner [owner_keeps]:
  "sendToAllMatchingPublisherPorts cfg msg j M = Inr (r, M') \<Longrightarrow> pm_owner M' = pm_owner M"
  "sendToAllMatchingSubscriberPorts cfg msg i M = Inr M' \<Longrightarrow> pm_owner M' = pm_owner M"
  "sendToAllMatchingInterfacePorts cfg msg M = Inr M' \<Longrightarrow> pm_owner M' = pm_owner M"
  by (auto simp: sendToAllMatchingPublisherPorts_def sendToAllMatchingSubscriberPorts_def sendToAllMatchingInterfacePorts_def pm_owner_def
      dest: interface_ports_loop_owner publisher_ports_loop_owner [unfolded pm_owner_def] subscriber_ports_loop_owner [unfolded pm_owner_def])

lemma doDiscoveryForPublisherPort_owner [owner_keeps]:
  assumes "doDiscoveryForPublisherPort cfg i M = Inr M'"
  shows "pm_owner M' = pm_owner M"
proof -
  obtain p m p1 where p: "slot (pm_publishers M) i = Some p" "PublisherPortRouDi_tryGetCaProMessage p = Inr (m, p1)"
    using assms by (auto simp: doDiscoveryForPublisherPort_def with_publisher_Inr)
  then have M1: "pm_owner (put_publisher i p1 M) = pm_owner M" by (auto dest: publisher_owner intro: put_owner)
  show ?thesis using assms p
    by (cases m) (auto simp: Let_def doDiscoveryForPublisherPort_def with_publisher_Inr M1 split: if_splits dest!: registry_owner(1,2) passing_owner(2,3))
qed

lemma doDiscoveryForSubscriberPort_owner [owner_keeps]:
  assumes "doDiscoveryForSubscriberPort cfg j M = Inr M'"
  shows "pm_owner M' = pm_owner M"
proof -
  obtain s where s: "slot (pm_subscribers M) j = Some s" using assms by (auto simp: doDiscoveryForSubscriberPort_def with_subscriber_Inr)
  obtain m s1 where m: "SubscriberPort_tryGetCaProMessage cfg s = (m, s1)" by fastforce
  have M1: "pm_owner (put_subscriber j s1 M) = pm_owner M" using s subscriber_owner(1) [OF m] by (rule put_owner)
  have nack: "pm_owner (put_subscriber j s3 M2) = pm_owner M2"
    if "slot (pm_subscribers M2) j = Some s2" "SubscriberPort_dispatch cfg msg s2 = Inr (r, s3)" for M2 s2 s3 msg r
    using that(1) subscriber_owner(2) [OF that(2)] by (rule put_owner)
  show ?thesis using assms s m
    by (cases m) (auto simp: Let_def doDiscoveryForSubscriberPort_def with_subscriber_Inr M1 nack split: if_splits dest!: passing_owner(1))
qed

subsection \<open>Fewer owners\<close>

text \<open>Places become empty.\<close>

definition pm_fewer :: "port_manager \<Rightarrow> port_manager \<Rightarrow> bool" where
  "pm_fewer M M' \<longleftrightarrow> own_publishers (pm_owner M') \<subseteq>\<^sub>m own_publishers (pm_owner M) \<and>
     own_subscribers (pm_owner M') \<subseteq>\<^sub>m own_subscribers (pm_owner M) \<and> own_interfaces (pm_owner M') \<subseteq>\<^sub>m own_interfaces (pm_owner M)"

lemma pm_fewer_refl [simp]: "pm_fewer M M"
  by (simp add: pm_fewer_def)

lemma pm_fewer_trans [trans]: "pm_fewer M M' \<Longrightarrow> pm_fewer M' M'' \<Longrightarrow> pm_fewer M M''"
  unfolding pm_fewer_def by (blast intro: map_le_trans)

lemma pm_fewer_eq: "pm_owner M' = pm_owner M \<Longrightarrow> pm_fewer M M'"
  by (simp add: pm_fewer_def)

lemma erase_owner_at: "owner_at (container_erase i xs) = (owner_at xs)(i := None)"
  by (auto simp: fun_eq_iff slot_erase)

lemma remove_owner:
  "pm_owner (removePublisherPort i M) = (pm_owner M)\<lparr> own_publishers := (own_publishers (pm_owner M))(i := None) \<rparr>"
  "pm_owner (removeSubscriberPort cfg i M) = (pm_owner M)\<lparr> own_subscribers := (own_subscribers (pm_owner M))(i := None) \<rparr>"
  by (simp_all add: pm_owner_def removePublisherPort_def removeSubscriberPort_def erase_owner_at)

lemma map_le_update_None: "f(i := None) \<subseteq>\<^sub>m f"
  by (simp add: map_le_def)

lemma destroyPublisherPort_owner:
  assumes "destroyPublisherPort cfg i M = Inr M'"
  shows "pm_owner M' = (pm_owner M)\<lparr> own_publishers := (own_publishers (pm_owner M))(i := None) \<rparr>"
proof -
  obtain p m p1 where p: "slot (pm_publishers M) i = Some p" "PublisherPortRouDi_tryGetCaProMessage (PublisherPortUser_stopOffer p) = Inr (m, p1)"
    using assms by (auto simp: destroyPublisherPort_def with_publisher_Inr)
  have M1: "pm_owner (put_publisher i p1 M) = pm_owner M" using p publisher_owner(4) [OF p(2)] by (auto intro: put_owner)
  show ?thesis using assms p
    by (cases m) (auto simp: Let_def destroyPublisherPort_def with_publisher_Inr M1 remove_owner dest!: registry_owner(2) passing_owner(2,3))
qed

lemma destroySubscriberPort_owner:
  assumes "destroySubscriberPort cfg j M = Inr M'"
  shows "pm_owner M' = (pm_owner M)\<lparr> own_subscribers := (own_subscribers (pm_owner M))(j := None) \<rparr>"
proof -
  obtain s where s: "slot (pm_subscribers M) j = Some s" using assms by (auto simp: destroySubscriberPort_def with_subscriber_Inr)
  obtain m s1 where m: "SubscriberPort_tryGetCaProMessage cfg (SubscriberPortUser_unsubscribe s) = (m, s1)" by fastforce
  have M1: "pm_owner (put_subscriber j s1 M) = pm_owner M" using s subscriber_owner(1) [OF m] by (auto intro: put_owner)
  show ?thesis using assms s m
    by (cases m) (auto simp: Let_def destroySubscriberPort_def with_subscriber_Inr M1 remove_owner dest!: passing_owner(1))
qed

lemma destroy_fewer:
  "destroyPublisherPort cfg i M = Inr M' \<Longrightarrow> pm_fewer M M'" "destroySubscriberPort cfg j M = Inr M' \<Longrightarrow> pm_fewer M M'"
  by (auto simp: pm_fewer_def map_le_update_None dest!: destroyPublisherPort_owner destroySubscriberPort_owner)

lemma publishers_loop_fewer: "publishers_loop cfg is M = Inr M' \<Longrightarrow> pm_fewer M M'"
proof (induction "is" arbitrary: M)
  case (Cons i "is")
  then obtain M1 p where 1: "pm_fewer M M1" "slot (pm_publishers M1) i = Some p" and
    rest: "(if bpd_toBeDestroyed p then obind (destroyPublisherPort cfg i M1) (\<lambda>M2. publishers_loop cfg is M2) else publishers_loop cfg is M1) = Inr M'"
    by (auto simp: with_publisher_Inr dest!: doDiscoveryForPublisherPort_owner intro: pm_fewer_eq)
  from rest have "pm_fewer M1 M'" by (auto split: if_splits dest!: Cons.IH destroy_fewer intro: pm_fewer_trans)
  with 1(1) show ?case by (rule pm_fewer_trans)
qed simp

lemma subscribers_loop_fewer: "subscribers_loop cfg js M = Inr M' \<Longrightarrow> pm_fewer M M'"
proof (induction js arbitrary: M)
  case (Cons j js)
  then obtain M1 s where 1: "pm_fewer M M1" "slot (pm_subscribers M1) j = Some s" and
    rest: "(if bpd_toBeDestroyed s then obind (destroySubscriberPort cfg j M1) (\<lambda>M2. subscribers_loop cfg js M2) else subscribers_loop cfg js M1) = Inr M'"
    by (auto simp: with_subscriber_Inr dest!: doDiscoveryForSubscriberPort_owner intro: pm_fewer_eq)
  from rest have "pm_fewer M1 M'" by (auto split: if_splits dest!: Cons.IH destroy_fewer intro: pm_fewer_trans)
  with 1(1) show ?case by (rule pm_fewer_trans)
qed simp

lemma stop_offer_loop_owner [owner_keeps]: "stop_offer_loop cfg is M = Inr M' \<Longrightarrow> pm_owner M' = pm_owner M"
proof (induction "is" arbitrary: M)
  case (Cons i "is")
  then show ?case by (auto simp: with_publisher_Inr put_owner dest!: Cons.IH doDiscoveryForPublisherPort_owner)
qed simp

lemma violation_loop_fewer: "violation_loop cfg service is M = Inr (r, M') \<Longrightarrow> pm_fewer M M'"
proof (induction "is" arbitrary: M)
  case (Cons i "is")
  then show ?case by (auto simp: with_publisher_Inr split: if_splits dest!: Cons.IH destroy_fewer intro: pm_fewer_trans)
qed simp

lemma addPublisherPort_owner:
  assumes "addPublisherPort cfg sd name options uid indices M = Inr (r, M')"
  shows "pm_owner M' = pm_owner M \<or> (\<exists>i. pm_owner M' = (pm_owner M)\<lparr> own_publishers := (own_publishers (pm_owner M))(i \<mapsto> name) \<rparr>)"
proof (cases "hasFreeSpace (pmc_MAX_PUBLISHERS cfg) (pm_publishers M)")
  case True
  obtain p S' where p: "PublisherPortData_ctor (popo_config.truncate cfg) sd name options uid indices (ps_shm (pm_popo M)) = Inr (p, S')"
    using assms True by (auto simp: addPublisherPort_def)
  obtain i ps where i: "container_insert p (pm_publishers M) = (i, ps)" by fastforce
  have "bpd_runtimeName p = name" using p by (auto simp: PublisherPortData_ctor_def)
  moreover have "M' = M\<lparr> pm_publishers := ps, pm_popo := (pm_popo M)\<lparr> ps_shm := S' \<rparr> \<rparr>" using assms True p i by (simp add: addPublisherPort_def)
  ultimately have "pm_owner M' = (pm_owner M)\<lparr> own_publishers := (own_publishers (pm_owner M))(i \<mapsto> name) \<rparr>"
    using slot_insert(3) [OF i] by (auto simp: pm_owner_def fun_eq_iff)
  then show ?thesis by blast
qed (use assms in \<open>simp add: addPublisherPort_def\<close>)

lemma addSubscriberPort_owner:
  assumes "addSubscriberPort cfg sd name options uid qid indices M = Inr (r, M')"
  shows "pm_owner M' = pm_owner M \<or> (\<exists>i. pm_owner M' = (pm_owner M)\<lparr> own_subscribers := (own_subscribers (pm_owner M))(i \<mapsto> name) \<rparr>)"
proof (cases "hasFreeSpace (pmc_MAX_SUBSCRIBERS cfg) (pm_subscribers M)")
  case True
  then obtain s P' where s: "SubscriberPortData_ctor (popo_config.truncate cfg) sd name
      (subscriber_queue_type (pc_manyToMany cfg) (so_queueFullPolicy options)) options uid qid
      (pmc_queueAddress cfg (first_free (pm_subscribers M))) indices (pm_popo M) = Inr (s, P')"
    using assms by (auto simp: addSubscriberPort_def Let_def)
  obtain i ss where i: "container_insert s (pm_subscribers M) = (i, ss)" by fastforce
  have "bpd_runtimeName s = name" using s by (auto simp: SubscriberPortData_ctor_def)
  moreover have "M' = M\<lparr> pm_subscribers := ss, pm_popo := P' \<rparr>" using assms True s i by (simp add: addSubscriberPort_def Let_def)
  ultimately have "pm_owner M' = (pm_owner M)\<lparr> own_subscribers := (own_subscribers (pm_owner M))(i \<mapsto> name) \<rparr>"
    using slot_insert(3) [OF i] by (auto simp: pm_owner_def fun_eq_iff)
  then show ?thesis by blast
qed (use assms in \<open>simp add: addSubscriberPort_def\<close>)

subsection \<open>The names of owners\<close>

definition pm_names :: "port_manager \<Rightarrow> string set" where
  "pm_names M = ran (own_publishers (pm_owner M)) \<union> ran (own_subscribers (pm_owner M)) \<union> ran (own_interfaces (pm_owner M))"

definition names :: "roudi_ports \<Rightarrow> string set" where
  "names N = pm_names (rp_ports N) \<union> ran (own_servers (owner N)) \<union> ran (own_clients (owner N)) \<union> ran (own_nodes (owner N))"

lemma ran_map_le: "f \<subseteq>\<^sub>m g \<Longrightarrow> ran f \<subseteq> ran g"
  by (force simp: map_le_def ran_def dom_def)

lemma ran_update: "ran (f(i \<mapsto> x)) \<subseteq> insert x (ran f)"
  by (auto simp: ran_def)

lemma pm_fewer_names: "pm_fewer M M' \<Longrightarrow> pm_names M' \<subseteq> pm_names M"
  unfolding pm_fewer_def pm_names_def by (blast dest: ran_map_le)

lemma pm_owner_names: "pm_owner M' = pm_owner M \<Longrightarrow> pm_names M' = pm_names M"
  by (simp add: pm_names_def)

lemma add_names:
  "addPublisherPort cfg sd name options uid indices M = Inr (r, M') \<Longrightarrow> pm_names M' \<subseteq> insert name (pm_names M)"
  "addSubscriberPort cfg sd name soptions uid qid indices M = Inr (r, M') \<Longrightarrow> pm_names M' \<subseteq> insert name (pm_names M)"
  using ran_update by (fastforce dest!: addPublisherPort_owner addSubscriberPort_owner simp: pm_names_def)+

lemma acquirePublisherPortDataWithoutDiscovery_names:
  assumes "acquirePublisherPortDataWithoutDiscovery cfg sd options name uid indices M = Inr (r, M')"
  shows "pm_names M' \<subseteq> insert name (pm_names M)"
proof -
  obtain v M1 where v: "doesViolateCommunicationPolicy cfg sd M = Inr (v, M1)"
    using assms by (auto simp: acquirePublisherPortDataWithoutDiscovery_def)
  then have "pm_names M1 \<subseteq> pm_names M"
    by (auto simp: doesViolateCommunicationPolicy_def split: if_splits dest!: violation_loop_fewer pm_fewer_names)
  moreover have "pm_names M' \<subseteq> insert name (pm_names M1)"
    using assms v pm_owner_names [OF pm_owner_popo(3)]
    by (auto simp: acquirePublisherPortDataWithoutDiscovery_def split: if_splits dest!: add_names(1))
  ultimately show ?thesis by blast
qed

text \<open>The end of the functions that create a port: if there is a port, it is discovered.\<close>

lemma after_discovery:
  assumes "(case r of Inl e \<Rightarrow> Inr (Inl e, M1) | Inr i \<Rightarrow> obind (f i) (\<lambda>M2. Inr (Inr i, M2))) = Inr (r', M')"
    and "\<And>i M2. f i = Inr M2 \<Longrightarrow> g M2 = g M1"
  shows "g M' = g M1"
  using assms by (cases r) auto

lemma acquirePublisherPortData_names:
  assumes "acquirePublisherPortData cfg sd options name uid indices M = Inr (r, M')"
  shows "pm_names M' \<subseteq> insert name (pm_names M)"
proof -
  obtain r1 M1 where 1: "acquirePublisherPortDataWithoutDiscovery cfg sd options name uid indices M = Inr (r1, M1)"
    and 2: "(case r1 of Inl e \<Rightarrow> Inr (Inl e, M1) | Inr i \<Rightarrow> obind (doDiscoveryForPublisherPort cfg i M1) (\<lambda>M2. Inr (Inr i, M2))) = Inr (r, M')"
    using assms by (auto simp: acquirePublisherPortData_def)
  from 2 have "pm_names M' = pm_names M1" by (rule after_discovery [where g = pm_names]) (rule doDiscoveryForPublisherPort_owner [THEN pm_owner_names])
  then show ?thesis using acquirePublisherPortDataWithoutDiscovery_names [OF 1] by simp
qed

lemma acquireSubscriberPortData_names:
  assumes "acquireSubscriberPortData cfg sd options name uid qid indices M = Inr (r, M')"
  shows "pm_names M' \<subseteq> insert name (pm_names M)"
proof -
  obtain r1 M1 where 1: "addSubscriberPort cfg sd name options uid qid indices M = Inr (r1, M1)"
    and 2: "(case r1 of Inl e \<Rightarrow> Inr (Inl e, M1) | Inr i \<Rightarrow> obind (doDiscoveryForSubscriberPort cfg i M1) (\<lambda>M2. Inr (Inr i, M2))) = Inr (r, M')"
    using assms by (auto simp: acquireSubscriberPortData_def)
  from 2 have "pm_names M' = pm_names M1" by (rule after_discovery [where g = pm_names]) (rule doDiscoveryForSubscriberPort_owner [THEN pm_owner_names])
  then show ?thesis using add_names(2) [OF 1] by simp
qed

lemma acquireInternalPublisherPortData_names:
  assumes "acquireInternalPublisherPortData cfg sd options uid indices M = Inr (k, M')"
  shows "pm_names M' \<subseteq> insert (pmc_roudiName cfg) (pm_names M)"
proof -
  obtain r M1 where 1: "acquirePublisherPortDataWithoutDiscovery cfg sd options (pmc_roudiName cfg) uid indices M = Inr (r, M1)"
    using assms by (auto simp: acquireInternalPublisherPortData_def acquireInternalPublisherPortDataWithoutDiscovery_def)
  then have "pm_names M' = pm_names M1"
    using assms by (cases r) (auto simp: acquireInternalPublisherPortData_def acquireInternalPublisherPortDataWithoutDiscovery_def
        dest!: doDiscoveryForPublisherPort_owner [THEN pm_owner_names])
  then show ?thesis using acquirePublisherPortDataWithoutDiscovery_names [OF 1] by simp
qed

subsection \<open>Servers and clients\<close>

lemma owner_popo [simp]: "owner (set_popo P N) = owner N"
  by (simp add: owner_def set_popo_def)

lemma owner_ports: "pm_owner M = pm_owner (rp_ports N) \<Longrightarrow> owner (N\<lparr> rp_ports := M \<rparr>) = owner N"
  by (simp add: owner_def)

lemma put_rpc_owner:
  "slot (rp_servers N) i = Some v \<Longrightarrow> bpd_runtimeName v' = bpd_runtimeName v \<Longrightarrow> owner (put_server i v' N) = owner N"
  "slot (rp_clients N) j = Some c \<Longrightarrow> bpd_runtimeName c' = bpd_runtimeName c \<Longrightarrow> owner (put_client j c' N) = owner N"
  by (auto simp: owner_def pm_owners.extend_def fun_eq_iff slot_update put_server_def put_client_def)

lemma with_rpc_Inr:
  "with_server i N k = Inr r \<longleftrightarrow> (\<exists>v. slot (rp_servers N) i = Some v \<and> k v = Inr r)"
  "with_client j N k' = Inr r \<longleftrightarrow> (\<exists>c. slot (rp_clients N) j = Some c \<and> k' c = Inr r)"
  by (simp_all add: with_server_def with_client_def split: option.split)

lemma on_ports_owner:
  assumes "on_ports f N = Inr N'" "\<And>M'. f (rp_ports N) = Inr M' \<Longrightarrow> pm_owner M' = pm_owner (rp_ports N)"
  shows "owner N' = owner N"
  using assms by (auto simp: on_ports_def intro: owner_ports)

lemma slot_put_rpc:
  "slot (rp_servers (put_server i v N)) k = (if k = i \<and> i < length (rp_servers N) then Some v else slot (rp_servers N) k)"
  "slot (rp_clients (put_client j c N)) k = (if k = j \<and> j < length (rp_clients N) then Some c else slot (rp_clients N) k)"
  "rp_clients (put_server i v N) = rp_clients N" "rp_servers (put_client j c N) = rp_servers N"
  "rp_servers (set_popo P N) = rp_servers N" "rp_clients (set_popo P N) = rp_clients N"
  by (auto simp: put_server_def put_client_def slot_update set_popo_def)

lemma client_ports_loop_owner: "client_ports_loop rc msg i js N = Inr N' \<Longrightarrow> owner N' = owner N"
proof (induction js arbitrary: N)
  case (Cons j js)
  from Cons.prems show ?case
    by (auto simp: with_rpc_Inr Let_def slot_put_rpc slot_Some_length put_rpc_owner split: if_splits option.splits
        dest!: Cons.IH client_owner server_owner)
qed simp

lemma server_ports_loop_owner: "server_ports_loop rc msg j is found N = Inr (r, N') \<Longrightarrow> owner N' = owner N"
proof (induction "is" arbitrary: found N)
  case (Cons i "is")
  from Cons.prems show ?case
    by (auto simp: with_rpc_Inr Let_def slot_put_rpc slot_Some_length put_rpc_owner split: if_splits option.splits
        dest!: Cons.IH client_owner server_owner)
qed simp

lemma rpc_passing_owner:
  "sendToAllMatchingClientPorts rc msg i N = Inr N' \<Longrightarrow> owner N' = owner N"
  "sendToAllMatchingServerPorts rc msg j N = Inr (r, N') \<Longrightarrow> owner N' = owner N"
  "on_ports (sendToAllMatchingInterfacePorts cfg msg) N = Inr N' \<Longrightarrow> owner N' = owner N"
  "on_ports (addServerToServiceRegistry pcfg sd) N = Inr N' \<Longrightarrow> owner N' = owner N"
  "on_ports (removeServerFromServiceRegistry pcfg sd) N = Inr N' \<Longrightarrow> owner N' = owner N"
  using client_ports_loop_owner server_ports_loop_owner
  by (auto simp: sendToAllMatchingClientPorts_def sendToAllMatchingServerPorts_def intro: on_ports_owner dest: owner_keeps)

lemma doDiscoveryForClientPort_owner:
  assumes "doDiscoveryForClientPort cfg j N = Inr N'"
  shows "owner N' = owner N"
proof -
  obtain c m c1 P1 where c: "slot (rp_clients N) j = Some c" "ClientPortRouDi_tryGetCaProMessage (rdc_rpc cfg) c (rp_popo N) = Inr (m, c1, P1)"
    using assms by (auto simp: doDiscoveryForClientPort_def with_rpc_Inr)
  have N1: "owner (put_client j c1 N) = owner N" using c(1) client_message_owner [OF c(2)] by (rule put_rpc_owner)
  have nack: "owner (put_client j c3 N2) = owner N2"
    if "slot (rp_clients N2) j = Some c2" "ClientPortRouDi_dispatch rc msg c2 P2 = Inr (r, c3, P3)" for N2 rc c2 c3 msg r P2 P3
    using that(1) client_owner [OF that(2)] by (rule put_rpc_owner)
  show ?thesis using assms c
    by (cases m) (auto simp: Let_def doDiscoveryForClientPort_def with_rpc_Inr N1 nack split: if_splits dest!: rpc_passing_owner(2))
qed

lemma doDiscoveryForServerPort_owner:
  assumes "doDiscoveryForServerPort cfg i N = Inr N'"
  shows "owner N' = owner N"
proof -
  obtain v m v1 P1 where v: "slot (rp_servers N) i = Some v" "ServerPortRouDi_tryGetCaProMessage (rdc_rpc cfg) v (rp_popo N) = Inr (m, v1, P1)"
    using assms by (auto simp: doDiscoveryForServerPort_def with_rpc_Inr)
  have N1: "owner (put_server i v1 N) = owner N" using v(1) server_message_owner [OF v(2)] by (rule put_rpc_owner)
  show ?thesis using assms v
    by (cases m) (auto simp: Let_def doDiscoveryForServerPort_def with_rpc_Inr N1 split: if_splits dest!: rpc_passing_owner)
qed

lemma remove_rpc_owner:
  "owner (removeServerPort cfg i N) = (owner N)\<lparr> own_servers := (own_servers (owner N))(i := None) \<rparr>"
  "owner (removeClientPort cfg i N) = (owner N)\<lparr> own_clients := (own_clients (owner N))(i := None) \<rparr>"
  by (simp_all add: owner_def pm_owners.extend_def removeServerPort_def removeClientPort_def remove_queue_def set_popo_def erase_owner_at)

lemma destroyClientPort_owner:
  assumes "destroyClientPort cfg j N = Inr N'"
  shows "owner N' = (owner N)\<lparr> own_clients := (own_clients (owner N))(j := None) \<rparr>"
proof -
  obtain c m c1 P1 where c: "slot (rp_clients N) j = Some c"
    "ClientPortRouDi_tryGetCaProMessage (rdc_rpc cfg) (ClientPortUser_disconnect c) (rp_popo N) = Inr (m, c1, P1)"
    using assms by (auto simp: destroyClientPort_def with_rpc_Inr)
  have N1: "owner (put_client j c1 N) = owner N" using c(1) client_message_owner [OF c(2)] by (auto intro: put_rpc_owner)
  show ?thesis using assms c
    by (cases m) (auto simp: Let_def destroyClientPort_def with_rpc_Inr N1 remove_rpc_owner split: if_splits dest!: rpc_passing_owner(2))
qed

lemma destroyServerPort_owner:
  assumes "destroyServerPort cfg i N = Inr N'"
  shows "owner N' = (owner N)\<lparr> own_servers := (own_servers (owner N))(i := None) \<rparr>"
proof -
  obtain v m v1 P1 where v: "slot (rp_servers N) i = Some v"
    "ServerPortRouDi_tryGetCaProMessage (rdc_rpc cfg) (ServerPortUser_stopOffer v) (rp_popo N) = Inr (m, v1, P1)"
    using assms by (auto simp: destroyServerPort_def with_rpc_Inr)
  have N1: "owner (put_server i v1 N) = owner N" using v(1) server_message_owner [OF v(2)] by (auto intro: put_rpc_owner)
  show ?thesis using assms v
    by (cases m) (auto simp: Let_def destroyServerPort_def with_rpc_Inr N1 remove_rpc_owner split: if_splits dest!: rpc_passing_owner)
qed

text \<open>Places become empty.\<close>

definition fewer :: "roudi_ports \<Rightarrow> roudi_ports \<Rightarrow> bool" where
  "fewer N N' \<longleftrightarrow> pm_fewer (rp_ports N) (rp_ports N') \<and> own_servers (owner N') \<subseteq>\<^sub>m own_servers (owner N) \<and>
     own_clients (owner N') \<subseteq>\<^sub>m own_clients (owner N) \<and> own_nodes (owner N') \<subseteq>\<^sub>m own_nodes (owner N)"

lemma owner_pm_owner: "owner N' = owner N \<Longrightarrow> pm_owner (rp_ports N') = pm_owner (rp_ports N)"
  by (auto simp: owner_def pm_owners.extend_def)

lemma fewer_refl [simp]: "fewer N N"
  by (simp add: fewer_def)

lemma fewer_trans [trans]: "fewer N N' \<Longrightarrow> fewer N' N'' \<Longrightarrow> fewer N N''"
  unfolding fewer_def by (blast intro: map_le_trans pm_fewer_trans)

lemma fewer_eq: "owner N' = owner N \<Longrightarrow> fewer N N'"
  using owner_pm_owner [of N' N] by (simp add: fewer_def pm_fewer_eq)

lemma fewer_names: "fewer N N' \<Longrightarrow> names N' \<subseteq> names N"
  unfolding fewer_def names_def by (blast dest: ran_map_le pm_fewer_names)

lemma owner_names: "owner N' = owner N \<Longrightarrow> names N' = names N"
  using owner_pm_owner [of N' N] by (simp add: names_def pm_names_def)

lemma on_ports_fewer:
  assumes "on_ports f N = Inr N'" "\<And>M'. f (rp_ports N) = Inr M' \<Longrightarrow> pm_fewer (rp_ports N) M'"
  shows "fewer N N'"
  using assms by (auto simp: on_ports_def fewer_def owner_def pm_owners.extend_def)

lemma destroy_rpc_fewer:
  "destroyClientPort cfg j N = Inr N' \<Longrightarrow> fewer N N'" "destroyServerPort cfg i N = Inr N' \<Longrightarrow> fewer N N'"
  by (auto simp: fewer_def map_le_update_None owner_def pm_owners.extend_def pm_owner_def intro!: pm_fewer_eq
      dest!: destroyClientPort_owner destroyServerPort_owner)

lemma clients_loop_fewer: "clients_loop cfg js N = Inr N' \<Longrightarrow> fewer N N'"
proof (induction js arbitrary: N)
  case (Cons j js)
  then obtain N1 c where 1: "fewer N N1" "slot (rp_clients N1) j = Some c" and
    rest: "(if bpd_toBeDestroyed c then obind (destroyClientPort cfg j N1) (\<lambda>N2. clients_loop cfg js N2) else clients_loop cfg js N1) = Inr N'"
    by (auto simp: with_rpc_Inr dest!: doDiscoveryForClientPort_owner fewer_eq)
  from rest have "fewer N1 N'" by (auto split: if_splits dest!: Cons.IH destroy_rpc_fewer intro: fewer_trans)
  with 1(1) show ?case by (rule fewer_trans)
qed simp

lemma servers_loop_fewer: "servers_loop cfg is N = Inr N' \<Longrightarrow> fewer N N'"
proof (induction "is" arbitrary: N)
  case (Cons i "is")
  then obtain N1 v where 1: "fewer N N1" "slot (rp_servers N1) i = Some v" and
    rest: "(if bpd_toBeDestroyed v then obind (destroyServerPort cfg i N1) (\<lambda>N2. servers_loop cfg is N2) else servers_loop cfg is N1) = Inr N'"
    by (auto simp: with_rpc_Inr dest!: doDiscoveryForServerPort_owner fewer_eq)
  from rest have "fewer N1 N'" by (auto split: if_splits dest!: Cons.IH destroy_rpc_fewer intro: fewer_trans)
  with 1(1) show ?case by (rule fewer_trans)
qed simp

lemma stop_offer_owner:
  "stop_offer_server rcfg i N = Inr N' \<Longrightarrow> owner N' = owner N"
  "stop_offer_publisher cfg i M = Inr M' \<Longrightarrow> pm_owner M' = pm_owner M"
  by (auto simp: stop_offer_server_def stop_offer_publisher_def with_rpc_Inr with_publisher_Inr put_rpc_owner put_owner
      dest!: doDiscoveryForServerPort_owner doDiscoveryForPublisherPort_owner)

lemma each_server_owner:
  "each_server f sel is N = Inr N' \<Longrightarrow> (\<And>i N N'. f i N = Inr N' \<Longrightarrow> owner N' = owner N) \<Longrightarrow> owner N' = owner N"
proof (induction "is" arbitrary: N)
  case (Cons i "is")
  then show ?case by (fastforce simp: with_rpc_Inr split: if_splits)
qed simp

lemma each_publisher_owner:
  "each_publisher f name is M = Inr M' \<Longrightarrow> (\<And>i M M'. f i M = Inr M' \<Longrightarrow> pm_owner M' = pm_owner M) \<Longrightarrow> pm_owner M' = pm_owner M"
proof (induction "is" arbitrary: M)
  case (Cons i "is")
  then show ?case by (fastforce simp: with_publisher_Inr split: if_splits)
qed simp

lemma stop_offers_owner:
  "on_ports (\<lambda>M. each_publisher (stop_offer_publisher cfg) name (content (pm_publishers M)) M) N = Inr N' \<Longrightarrow> owner N' = owner N"
  "on_ports (makeAllPublisherPortsToStopOffer cfg) N = Inr N' \<Longrightarrow> owner N' = owner N"
  by (erule on_ports_owner, erule each_publisher_owner, erule stop_offer_owner)
    (erule on_ports_owner, simp add: makeAllPublisherPortsToStopOffer_def stop_offer_loop_owner)

lemma unblock_owner:
  "unblockProcessShutdown cfg name N = Inr N' \<Longrightarrow> owner N' = owner N"
  "unblockRouDiShutdown cfg N = Inr N' \<Longrightarrow> owner N' = owner N"
  by (auto simp: unblockProcessShutdown_def unblockRouDiShutdown_def makeAllServerPortsToStopOffer_def
      dest!: each_server_owner stop_offers_owner intro: stop_offer_owner)

subsection \<open>Interfaces, nodes and condition variables\<close>

lemma owner_interfaces:
  "owner (N\<lparr> rp_ports := (rp_ports N)\<lparr> pm_interfaces := fs \<rparr> \<rparr>) = (owner N)\<lparr> own_interfaces := owner_at fs \<rparr>"
  by (simp add: owner_def pm_owner_def pm_owners.extend_def)

lemma update_owner_at: "slot xs i = Some x \<Longrightarrow> owner_at (xs[i := Some x']) = (owner_at xs)(i \<mapsto> bpd_runtimeName x')"
  by (auto simp: fun_eq_iff slot_update dest: slot_Some_length)

lemma own_interfaces_owner: "own_interfaces (owner N) = owner_at (pm_interfaces (rp_ports N))"
  by (simp add: owner_def pm_owner_def pm_owners.extend_def)

lemma set_interface_owner:
  assumes "slot (pm_interfaces (rp_ports N)) i = Some f" "bpd_runtimeName f' = bpd_runtimeName f"
  shows "owner (N\<lparr> rp_ports := (rp_ports N)\<lparr> pm_interfaces := (pm_interfaces (rp_ports N))[i := Some f'] \<rparr> \<rparr>) = owner N"
proof -
  have "(owner_at (pm_interfaces (rp_ports N)))(i \<mapsto> bpd_runtimeName f') = own_interfaces (owner N)"
    using assms by (auto simp: own_interfaces_owner)
  then show ?thesis using assms(1) by (simp add: owner_interfaces update_owner_at)
qed

lemma removeInterfacePort_owner: "owner (removeInterfacePort i N) = (owner N)\<lparr> own_interfaces := (own_interfaces (owner N))(i := None) \<rparr>"
  by (simp add: removeInterfacePort_def owner_interfaces erase_owner_at own_interfaces_owner)

lemma removeNodeData_owner: "owner (removeNodeData i N) = (owner N)\<lparr> own_nodes := (own_nodes (owner N))(i := None) \<rparr>"
  by (auto simp: owner_def pm_owners.extend_def removeNodeData_def fun_eq_iff slot_erase)

lemma removeConditionVariableData_owner [simp]: "owner (removeConditionVariableData cfg i N) = owner N"
  by (simp add: removeConditionVariableData_def owner_def set_popo_def)

lemma fewer_of_owner:
  "owner N' = (owner N)\<lparr> own_interfaces := (own_interfaces (owner N))(i := None) \<rparr> \<Longrightarrow> fewer N N'"
  "owner N' = (owner N)\<lparr> own_nodes := (own_nodes (owner N))(i := None) \<rparr> \<Longrightarrow> fewer N N'"
  by (auto simp: fewer_def pm_fewer_def map_le_update_None owner_def pm_owners.extend_def)

lemma interfaces_loop_fewer: "interfaces_loop is forwarding N = Inr (r, N') \<Longrightarrow> fewer N N'"
proof (induction "is" arbitrary: forwarding N)
  case (Cons i "is")
  then obtain f where f: "slot (pm_interfaces (rp_ports N)) i = Some f" by (auto split: option.splits)
  let ?f = "if ipd_doInitialOfferForward f then f\<lparr> ipd_doInitialOfferForward := False \<rparr> else f"
  let ?N = "N\<lparr> rp_ports := (rp_ports N)\<lparr> pm_interfaces := (pm_interfaces (rp_ports N))[i := Some ?f] \<rparr> \<rparr>"
  let ?N1 = "if bpd_toBeDestroyed ?f then removeInterfacePort i ?N else ?N"
  have "owner ?N = owner N" using f by (rule set_interface_owner) simp
  then have "fewer N ?N" by (rule fewer_eq)
  moreover have "fewer ?N ?N1" using fewer_of_owner(1) [OF removeInterfacePort_owner, of ?N i] by simp
  moreover have "fewer ?N1 N'" using Cons.prems f by (auto simp: Let_def intro!: Cons.IH split: if_splits)
  ultimately show ?case by (blast intro: fewer_trans)
qed simp

lemma forward_loop_owner: "forward_loop n msg is N = Inr N' \<Longrightarrow> owner N' = owner N"
proof (induction "is" arbitrary: N)
  case (Cons i "is")
  then show ?case by (auto split: option.splits if_splits dest!: interface_owner simp: set_interface_owner)
qed simp

lemma forward_all_owner: "forward_all n t sds forwarding N = Inr N' \<Longrightarrow> owner N' = owner N"
  by (induction sds arbitrary: N) (auto dest!: forward_loop_owner)

lemma handleInterfaces_fewer: "handleInterfaces cfg N = Inr N' \<Longrightarrow> fewer N N'"
  by (auto simp: handleInterfaces_def split: if_splits dest!: interfaces_loop_fewer forward_all_owner
      intro: fewer_trans dest: fewer_eq)

lemma condition_variables_loop_owner: "condition_variables_loop cfg sel is N = Inr N' \<Longrightarrow> owner N' = owner N"
  by (induction "is" arbitrary: N) (auto split: option.splits if_splits)

text \<open>Loops that remove the entries of one place each.\<close>

lemma fold_remove_fewer:
  assumes "\<And>i N. fewer N (f i N)"
  shows "fewer N (fold f is N)"
  using assms by (induction "is" arbitrary: N) (auto intro: fewer_trans)

lemma handleNodes_fewer: "fewer N (handleNodes N)"
  unfolding handleNodes_def by (rule fold_remove_fewer) (auto intro: fewer_of_owner(2) [OF removeNodeData_owner] split: option.split)

lemma remove_of_fewer: "fewer N (remove_interfaces_of name N)" "fewer N (remove_nodes_of name N)"
  unfolding remove_interfaces_of_def remove_nodes_of_def
  by (rule fold_remove_fewer;
      auto intro: fewer_of_owner(1) [OF removeInterfacePort_owner] fewer_of_owner(2) [OF removeNodeData_owner] split: option.split)+

lemma handle_ports_fewer:
  "on_ports (handlePublisherPorts cfg) N = Inr N' \<Longrightarrow> fewer N N'"
  "on_ports (handleSubscriberPorts cfg) N = Inr N' \<Longrightarrow> fewer N N'"
  by (erule on_ports_fewer, simp add: handlePublisherPorts_def handleSubscriberPorts_def publishers_loop_fewer subscribers_loop_fewer)+

lemma doDiscovery_fewer:
  assumes "doDiscovery cfg N = Inr N'"
  shows "fewer N N'"
proof -
  obtain N1 N2 N3 N4 N5 where "on_ports (handlePublisherPorts (rdc_ports cfg)) N = Inr N1" "on_ports (handleSubscriberPorts (rdc_ports cfg)) N1 = Inr N2"
    "handleServerPorts cfg N2 = Inr N3" "handleClientPorts cfg N3 = Inr N4" "handleInterfaces cfg N4 = Inr N5"
    "handleConditionVariables cfg (handleNodes N5) = Inr N'"
    using assms by (auto simp: doDiscovery_def)
  then have "fewer N N1" "fewer N1 N2" "fewer N2 N3" "fewer N3 N4" "fewer N4 N5" "fewer (handleNodes N5) N'"
    by (auto simp: handleServerPorts_def handleClientPorts_def handleConditionVariables_def handle_ports_fewer
        intro: servers_loop_fewer clients_loop_fewer handleInterfaces_fewer fewer_eq condition_variables_loop_owner)
  then show ?thesis using handleNodes_fewer [of N5] by (blast intro: fewer_trans)
qed

subsection \<open>The end of a process\<close>

text \<open>A loop that destroys the ports of one owner, place by place: none of them is left at these places.\<close>

lemma each_publisher_destroy:
  "each_publisher (destroyPublisherPort cfg) name is M = Inr M' \<Longrightarrow>
     pm_fewer M M' \<and> (\<forall>i\<in>set is. own_publishers (pm_owner M') i \<noteq> Some name)"
proof (induction "is" arbitrary: M)
  case (Cons i "is")
  then obtain p M1 where p: "slot (pm_publishers M) i = Some p" and
    1: "(if name = bpd_runtimeName p then destroyPublisherPort cfg i M else Inr M) = Inr M1" "each_publisher (destroyPublisherPort cfg) name is M1 = Inr M'"
    by (auto simp: with_publisher_Inr)
  have "pm_fewer M M1" using 1(1) by (auto split: if_splits dest: destroy_fewer)
  moreover have "own_publishers (pm_owner M1) i \<noteq> Some name"
  proof (cases "name = bpd_runtimeName p")
    case True
    with 1(1) have "destroyPublisherPort cfg i M = Inr M1" by simp
    then show ?thesis by (simp add: destroyPublisherPort_owner)
  next
    case False
    with 1(1) p show ?thesis by (auto simp: pm_owner_def)
  qed
  ultimately show ?case using Cons.IH [OF 1(2)]
    by (auto simp: pm_fewer_def intro: map_le_trans) (metis domI map_le_def)+
qed simp

lemma each_subscriber_destroy:
  "each_subscriber (destroySubscriberPort cfg) name is M = Inr M' \<Longrightarrow>
     pm_fewer M M' \<and> (\<forall>i\<in>set is. own_subscribers (pm_owner M') i \<noteq> Some name)"
proof (induction "is" arbitrary: M)
  case (Cons i "is")
  then obtain p M1 where p: "slot (pm_subscribers M) i = Some p" and
    1: "(if name = bpd_runtimeName p then destroySubscriberPort cfg i M else Inr M) = Inr M1" "each_subscriber (destroySubscriberPort cfg) name is M1 = Inr M'"
    by (auto simp: with_subscriber_Inr)
  have "pm_fewer M M1" using 1(1) by (auto split: if_splits dest: destroy_fewer)
  moreover have "own_subscribers (pm_owner M1) i \<noteq> Some name"
  proof (cases "name = bpd_runtimeName p")
    case True
    with 1(1) have "destroySubscriberPort cfg i M = Inr M1" by simp
    then show ?thesis by (simp add: destroySubscriberPort_owner)
  next
    case False
    with 1(1) p show ?thesis by (auto simp: pm_owner_def)
  qed
  ultimately show ?case using Cons.IH [OF 1(2)]
    by (auto simp: pm_fewer_def intro: map_le_trans) (metis domI map_le_def)+
qed simp

lemma each_server_destroy:
  "each_server (destroyServerPort cfg) (\<lambda>v. name = bpd_runtimeName v) is N = Inr N' \<Longrightarrow>
     fewer N N' \<and> (\<forall>i\<in>set is. own_servers (owner N') i \<noteq> Some name)"
proof (induction "is" arbitrary: N)
  case (Cons i "is")
  then obtain v N1 where v: "slot (rp_servers N) i = Some v" and
    1: "(if name = bpd_runtimeName v then destroyServerPort cfg i N else Inr N) = Inr N1"
       "each_server (destroyServerPort cfg) (\<lambda>v. name = bpd_runtimeName v) is N1 = Inr N'"
    by (auto simp: with_rpc_Inr)
  have "fewer N N1" using 1(1) by (auto split: if_splits dest: destroy_rpc_fewer)
  moreover have "own_servers (owner N1) i \<noteq> Some name"
  proof (cases "name = bpd_runtimeName v")
    case True
    with 1(1) have "destroyServerPort cfg i N = Inr N1" by simp
    then show ?thesis by (simp add: destroyServerPort_owner)
  next
    case False
    with 1(1) v show ?thesis by (auto simp: owner_def pm_owners.extend_def)
  qed
  ultimately show ?case using Cons.IH [OF 1(2)]
    by (auto intro: fewer_trans) (metis domI fewer_def map_le_def)+
qed simp

lemma each_client_destroy:
  "each_client (destroyClientPort cfg) name is N = Inr N' \<Longrightarrow>
     fewer N N' \<and> (\<forall>i\<in>set is. own_clients (owner N') i \<noteq> Some name)"
proof (induction "is" arbitrary: N)
  case (Cons i "is")
  then obtain v N1 where v: "slot (rp_clients N) i = Some v" and
    1: "(if name = bpd_runtimeName v then destroyClientPort cfg i N else Inr N) = Inr N1" "each_client (destroyClientPort cfg) name is N1 = Inr N'"
    by (auto simp: with_rpc_Inr)
  have "fewer N N1" using 1(1) by (auto split: if_splits dest: destroy_rpc_fewer)
  moreover have "own_clients (owner N1) i \<noteq> Some name"
  proof (cases "name = bpd_runtimeName v")
    case True
    with 1(1) have "destroyClientPort cfg i N = Inr N1" by simp
    then show ?thesis by (simp add: destroyClientPort_owner)
  next
    case False
    with 1(1) v show ?thesis by (auto simp: owner_def pm_owners.extend_def)
  qed
  ultimately show ?case using Cons.IH [OF 1(2)]
    by (auto intro: fewer_trans) (metis domI fewer_def map_le_def)+
qed simp

text \<open>At the other places there was no port of this owner before the loop.\<close>

lemma fold_removes:
  assumes "\<And>i N. fewer N (f i N)" "\<And>i N. sel (owner (f i N)) i \<noteq> Some name"
    and mono: "\<And>N N'. fewer N N' \<Longrightarrow> sel (owner N') \<subseteq>\<^sub>m sel (owner N)"
  shows "i \<in> set is \<Longrightarrow> sel (owner (fold f is N)) i \<noteq> Some name"
proof (induction "is" arbitrary: N)
  case (Cons j js)
  show ?case
  proof (cases "i = j")
    case True
    then have "sel (owner (f j N)) i \<noteq> Some name" using assms(2) by simp
    moreover have "fewer (f j N) (fold f js (f j N))" by (rule fold_remove_fewer) (rule assms(1))
    ultimately show ?thesis using mono by simp (metis domI map_le_def)
  qed (use Cons in auto)
qed simp

lemma owner_elsewhere:
  "own_publishers (pm_owner M) i = Some name \<Longrightarrow> i \<in> set (content (pm_publishers M))"
  "own_subscribers (pm_owner M) i = Some name \<Longrightarrow> i \<in> set (content (pm_subscribers M))"
  "own_servers (owner N) i = Some name \<Longrightarrow> i \<in> set (content (rp_servers N))"
  "own_clients (owner N) i = Some name \<Longrightarrow> i \<in> set (content (rp_clients N))"
  "own_interfaces (owner N) i = Some name \<Longrightarrow> i \<in> set (content (pm_interfaces (rp_ports N)))"
  "own_nodes (owner N) i = Some name \<Longrightarrow> i \<in> set (content (rp_nodes N))"
  by (auto simp: pm_owner_def owner_def pm_owners.extend_def)

lemma fewer_parts:
  "fewer N N' \<Longrightarrow> own_publishers (owner N') \<subseteq>\<^sub>m own_publishers (owner N)" "fewer N N' \<Longrightarrow> own_subscribers (owner N') \<subseteq>\<^sub>m own_subscribers (owner N)"
  "fewer N N' \<Longrightarrow> own_interfaces (owner N') \<subseteq>\<^sub>m own_interfaces (owner N)" "fewer N N' \<Longrightarrow> own_servers (owner N') \<subseteq>\<^sub>m own_servers (owner N)"
  "fewer N N' \<Longrightarrow> own_clients (owner N') \<subseteq>\<^sub>m own_clients (owner N)" "fewer N N' \<Longrightarrow> own_nodes (owner N') \<subseteq>\<^sub>m own_nodes (owner N)"
  by (simp_all add: fewer_def pm_fewer_def owner_def pm_owners.extend_def)

lemma own_nodes_owner: "own_nodes (owner N) i = map_option nd_runtimeName (slot (rp_nodes N) i)"
  by (simp add: owner_def pm_owners.extend_def)

lemma remove_of_removes:
  "own_interfaces (owner (remove_interfaces_of name N)) i \<noteq> Some name" "own_nodes (owner (remove_nodes_of name N)) i \<noteq> Some name"
proof -
  have f: "fewer N (case slot (pm_interfaces (rp_ports N)) i of Some f \<Rightarrow> if name = bpd_runtimeName f then removeInterfacePort i N else N | None \<Rightarrow> N)"
    "own_interfaces (owner (case slot (pm_interfaces (rp_ports N)) i of Some f \<Rightarrow> if name = bpd_runtimeName f then removeInterfacePort i N else N | None \<Rightarrow> N)) i \<noteq> Some name"
    for i N
    by (auto simp: removeInterfacePort_owner own_interfaces_owner [of N] split: option.split intro: fewer_of_owner(1) [OF removeInterfacePort_owner])
  have n: "fewer N (case slot (rp_nodes N) i of Some d \<Rightarrow> if name = nd_runtimeName d then removeNodeData i N else N | None \<Rightarrow> N)"
    "own_nodes (owner (case slot (rp_nodes N) i of Some d \<Rightarrow> if name = nd_runtimeName d then removeNodeData i N else N | None \<Rightarrow> N)) i \<noteq> Some name"
    for i N
    by (auto simp: removeNodeData_owner own_nodes_owner [of N] split: option.split intro: fewer_of_owner(2) [OF removeNodeData_owner])
  show "own_interfaces (owner (remove_interfaces_of name N)) i \<noteq> Some name"
  proof (cases "i \<in> set (content (pm_interfaces (rp_ports N)))")
    case True
    then show ?thesis unfolding remove_interfaces_of_def by (intro fold_removes [where sel = own_interfaces] f fewer_parts)
  next
    case False
    then have "own_interfaces (owner N) i \<noteq> Some name" using owner_elsewhere(5) by blast
    then show ?thesis using fewer_parts(3) [OF remove_of_fewer(1), of name N] by (metis domI map_le_def)
  qed
  show "own_nodes (owner (remove_nodes_of name N)) i \<noteq> Some name"
  proof (cases "i \<in> set (content (rp_nodes N))")
    case True
    then show ?thesis unfolding remove_nodes_of_def by (intro fold_removes [where sel = own_nodes] n fewer_parts)
  next
    case False
    then have "own_nodes (owner N) i \<noteq> Some name" using owner_elsewhere(6) by blast
    then show ?thesis using fewer_parts(6) [OF remove_of_fewer(2), of name N] by (metis domI map_le_def)
  qed
qed

lemma not_own_mono: "f' \<subseteq>\<^sub>m f \<Longrightarrow> f i \<noteq> Some x \<Longrightarrow> f' i \<noteq> Some x"
  by (metis domI map_le_def)

lemma owner_pm_parts:
  "own_publishers (owner N) = own_publishers (pm_owner (rp_ports N))" "own_subscribers (owner N) = own_subscribers (pm_owner (rp_ports N))"
  "own_interfaces (owner N) = own_interfaces (pm_owner (rp_ports N))"
  by (simp_all add: owner_def pm_owners.extend_def)

lemma names_owner: "name \<in> names N \<longleftrightarrow> (\<exists>i. own_publishers (owner N) i = Some name \<or> own_subscribers (owner N) i = Some name \<or>
    own_interfaces (owner N) i = Some name \<or> own_servers (owner N) i = Some name \<or> own_clients (owner N) i = Some name \<or> own_nodes (owner N) i = Some name)"
  by (auto simp: names_def pm_names_def ran_def owner_pm_parts)

text \<open>After the deletion no port and no node of the process is left, and the others are as before.\<close>

lemma deletePortsOfProcess_owner:
  assumes "deletePortsOfProcess cfg name N = Inr N'"
  shows "fewer N N'" "name \<notin> names N'"
proof -
  let ?N0 = "if name = pmc_roudiName (rdc_ports cfg) then N\<lparr> rp_ports := (rp_ports N)\<lparr> pm_serviceRegistryPublisherPortData := None \<rparr> \<rparr> else N"
  obtain N1 N2 N3 N4 where
    N1: "on_ports (\<lambda>M. each_publisher (destroyPublisherPort (rdc_ports cfg)) name (content (pm_publishers M)) M) ?N0 = Inr N1" and
    N2: "on_ports (\<lambda>M. each_subscriber (destroySubscriberPort (rdc_ports cfg)) name (content (pm_subscribers M)) M) N1 = Inr N2" and
    N3: "each_server (destroyServerPort cfg) (\<lambda>v. name = bpd_runtimeName v) (content (rp_servers N2)) N2 = Inr N3" and
    N4: "each_client (destroyClientPort cfg) name (content (rp_clients N3)) N3 = Inr N4" and
    N': "condition_variables_loop cfg (\<lambda>d. name = cv_runtimeName d) (content (rp_conditionVariables (remove_nodes_of name (remove_interfaces_of name N4))))
       (remove_nodes_of name (remove_interfaces_of name N4)) = Inr N'"
    using assms unfolding deletePortsOfProcess_def Let_def obind_eq_Inr by blast
  let ?N5 = "remove_interfaces_of name N4"
  let ?N6 = "remove_nodes_of name ?N5"
  have 0: "fewer N ?N0" by (rule fewer_eq) (simp add: owner_def)
  have 1: "fewer ?N0 N1" using N1 by (rule on_ports_fewer) (blast dest: each_publisher_destroy)
  have 2: "fewer N1 N2" using N2 by (rule on_ports_fewer) (blast dest: each_subscriber_destroy)
  have 3: "fewer N2 N3" and 4: "fewer N3 N4" using each_server_destroy [OF N3] each_client_destroy [OF N4] by blast+
  have 6: "fewer N4 ?N5" "fewer ?N5 ?N6" by (rule remove_of_fewer)+
  have 7: "fewer ?N6 N'" using condition_variables_loop_owner [OF N'] by (rule fewer_eq)
  have end4: "fewer N4 N'" using 6 7 by (blast intro: fewer_trans)
  then have end3: "fewer N3 N'" and end2: "fewer N2 N'" and end1: "fewer N1 N'" using 4 3 2 by (blast intro: fewer_trans)+
  show "fewer N N'" using 0 1 end1 by (blast intro: fewer_trans)
  obtain M1 where M1: "each_publisher (destroyPublisherPort (rdc_ports cfg)) name (content (pm_publishers (rp_ports ?N0))) (rp_ports ?N0) = Inr M1" "rp_ports N1 = M1"
    using N1 by (auto simp: on_ports_def)
  obtain M2 where M2: "each_subscriber (destroySubscriberPort (rdc_ports cfg)) name (content (pm_subscribers (rp_ports N1))) (rp_ports N1) = Inr M2" "rp_ports N2 = M2"
    using N2 by (auto simp: on_ports_def)
  have "own_publishers (owner N1) i \<noteq> Some name" for i
    using each_publisher_destroy [OF M1(1)] owner_elsewhere(1) [of "rp_ports ?N0" i name] not_own_mono [of "own_publishers (pm_owner M1)" "own_publishers (pm_owner (rp_ports ?N0))" i name]
    unfolding pm_fewer_def owner_pm_parts M1(2) by blast
  then have "own_publishers (owner N') i \<noteq> Some name" for i using not_own_mono [OF fewer_parts(1) [OF end1]] by blast
  moreover have "own_subscribers (owner N2) i \<noteq> Some name" for i
    using each_subscriber_destroy [OF M2(1)] owner_elsewhere(2) [of "rp_ports N1" i name] not_own_mono [of "own_subscribers (pm_owner M2)" "own_subscribers (pm_owner (rp_ports N1))" i name]
    unfolding pm_fewer_def owner_pm_parts M2(2) by blast
  then have "own_subscribers (owner N') i \<noteq> Some name" for i using not_own_mono [OF fewer_parts(2) [OF end2]] by blast
  moreover have "own_servers (owner N3) i \<noteq> Some name" for i
    using each_server_destroy [OF N3] owner_elsewhere(3) [of N2 i name] not_own_mono [OF fewer_parts(4) [OF 3]] by blast
  then have "own_servers (owner N') i \<noteq> Some name" for i using not_own_mono [OF fewer_parts(4) [OF end3]] by blast
  moreover have "own_clients (owner N4) i \<noteq> Some name" for i
    using each_client_destroy [OF N4] owner_elsewhere(4) [of N3 i name] not_own_mono [OF fewer_parts(5) [OF 4]] by blast
  then have "own_clients (owner N') i \<noteq> Some name" for i using not_own_mono [OF fewer_parts(5) [OF end4]] by blast
  moreover have "own_interfaces (owner N') i \<noteq> Some name" for i
    using remove_of_removes(1) not_own_mono [OF fewer_parts(3) [OF fewer_trans [OF 6(2) 7]]] by blast
  moreover have "own_nodes (owner N') i \<noteq> Some name" for i using remove_of_removes(2) not_own_mono [OF fewer_parts(6) [OF 7]] by blast
  ultimately show "name \<notin> names N'" by (simp add: names_owner)
qed

subsection \<open>New objects\<close>

lemma addClientPort_owner:
  assumes "addClientPort cfg sd name options uid qid is ris N = Inr (r, N')"
  shows "owner N' = owner N \<or> (\<exists>i. owner N' = (owner N)\<lparr> own_clients := (own_clients (owner N))(i \<mapsto> name) \<rparr>)"
proof (cases "hasFreeSpace (rdc_MAX_CLIENTS cfg) (rp_clients N)")
  case True
  then obtain c P' where c: "ClientPortData_ctor (rdc_rpc cfg) sd name options uid qid (rdc_clientQueueAddress cfg (first_free (rp_clients N))) is ris (rp_popo N) = Inr (c, P')"
    using assms by (auto simp: addClientPort_def Let_def)
  obtain i cs where i: "container_insert c (rp_clients N) = (i, cs)" by fastforce
  have "bpd_runtimeName c = name" using c by (auto simp: ClientPortData_ctor_def)
  moreover have "N' = (set_popo P' N)\<lparr> rp_clients := cs \<rparr>" using assms True c i by (simp add: addClientPort_def Let_def)
  ultimately have "owner N' = (owner N)\<lparr> own_clients := (own_clients (owner N))(i \<mapsto> name) \<rparr>"
    using slot_insert(3) [OF i] by (auto simp: owner_def pm_owners.extend_def fun_eq_iff set_popo_def)
  then show ?thesis by blast
qed (use assms in \<open>simp add: addClientPort_def\<close>)

lemma addServerPort_owner:
  assumes "addServerPort cfg sd name options uid qid is ris N = Inr (r, N')"
  shows "owner N' = owner N \<or> (\<exists>i. owner N' = (owner N)\<lparr> own_servers := (own_servers (owner N))(i \<mapsto> name) \<rparr>)"
proof (cases "hasFreeSpace (rdc_MAX_SERVERS cfg) (rp_servers N)")
  case True
  then obtain v P' where v: "ServerPortData_ctor (rdc_rpc cfg) sd name options uid qid (rdc_serverQueueAddress cfg (first_free (rp_servers N))) is ris (rp_popo N) = Inr (v, P')"
    using assms by (auto simp: addServerPort_def Let_def)
  obtain i vs where i: "container_insert v (rp_servers N) = (i, vs)" by fastforce
  have "bpd_runtimeName v = name" using v by (auto simp: ServerPortData_ctor_def)
  moreover have "N' = (set_popo P' N)\<lparr> rp_servers := vs \<rparr>" using assms True v i by (simp add: addServerPort_def Let_def)
  ultimately have "owner N' = (owner N)\<lparr> own_servers := (own_servers (owner N))(i \<mapsto> name) \<rparr>"
    using slot_insert(3) [OF i] by (auto simp: owner_def pm_owners.extend_def fun_eq_iff set_popo_def)
  then show ?thesis by blast
qed (use assms in \<open>simp add: addServerPort_def\<close>)

lemma acquireInterfacePortData_owner:
  assumes "acquireInterfacePortData cfg interface name uid buffer N = Inr (r, N')"
  shows "owner N' = owner N \<or> (\<exists>i. owner N' = (owner N)\<lparr> own_interfaces := (own_interfaces (owner N))(i \<mapsto> name) \<rparr>)"
proof (cases "hasFreeSpace (rdc_MAX_INTERFACE_NUMBER cfg) (pm_interfaces (rp_ports N))")
  case True
  obtain i fs where i: "container_insert (InterfacePortData_ctor name interface uid buffer) (pm_interfaces (rp_ports N)) = (i, fs)" by fastforce
  have "N' = N\<lparr> rp_ports := (rp_ports N)\<lparr> pm_interfaces := fs \<rparr> \<rparr>"
    using assms True i by (simp add: acquireInterfacePortData_def addInterfacePort_def)
  then have "owner N' = (owner N)\<lparr> own_interfaces := (own_interfaces (owner N))(i \<mapsto> name) \<rparr>"
    using slot_insert(3) [OF i] by (auto simp: owner_interfaces own_interfaces_owner fun_eq_iff InterfacePortData_ctor_def intro!: owners.equality)
  then show ?thesis by blast
qed (use assms in \<open>simp add: acquireInterfacePortData_def addInterfacePort_def\<close>)

lemma acquireNodeData_owner:
  assumes "acquireNodeData cfg name node N = Inr (r, N')"
  shows "owner N' = owner N \<or> (\<exists>i. owner N' = (owner N)\<lparr> own_nodes := (own_nodes (owner N))(i \<mapsto> name) \<rparr>)"
proof (cases "hasFreeSpace (rdc_MAX_NODE_NUMBER cfg) (rp_nodes N)")
  case True
  obtain i ns where i: "container_insert \<lparr> nd_runtimeName = name, nd_nodeName = node, nd_nodeDeviceIdentifier = 0, nd_toBeDestroyed = False \<rparr> (rp_nodes N) = (i, ns)"
    by fastforce
  have "N' = N\<lparr> rp_nodes := ns \<rparr>" using assms True i by (simp add: acquireNodeData_def addNodeData_def)
  then have "owner N' = (owner N)\<lparr> own_nodes := (own_nodes (owner N))(i \<mapsto> name) \<rparr>"
    using slot_insert(3) [OF i] by (auto simp: owner_def pm_owners.extend_def fun_eq_iff)
  then show ?thesis by blast
qed (use assms in \<open>simp add: acquireNodeData_def addNodeData_def\<close>)

lemma acquireConditionVariableData_owner:
  "acquireConditionVariableData cfg name N = Inr (r, N') \<Longrightarrow> owner N' = owner N"
  by (auto simp: acquireConditionVariableData_def addConditionVariableData_def Let_def owner_def set_popo_def split: if_splits prod.splits)

lemma unique_server_loop_fewer: "unique_server_loop cfg sd is N = Inr (r, N') \<Longrightarrow> fewer N N'"
proof (induction "is" arbitrary: N)
  case (Cons i "is")
  then show ?case by (auto simp: with_rpc_Inr split: if_splits dest!: Cons.IH destroy_rpc_fewer intro: fewer_trans)
qed simp

text \<open>A new object belongs to the process that asked for it.\<close>

lemma added_names:
  "owner N' = owner N \<or> (\<exists>i. owner N' = (owner N)\<lparr> own_clients := (own_clients (owner N))(i \<mapsto> name) \<rparr>) \<Longrightarrow> names N' \<subseteq> insert name (names N)"
  "owner N' = owner N \<or> (\<exists>i. owner N' = (owner N)\<lparr> own_servers := (own_servers (owner N))(i \<mapsto> name) \<rparr>) \<Longrightarrow> names N' \<subseteq> insert name (names N)"
  "owner N' = owner N \<or> (\<exists>i. owner N' = (owner N)\<lparr> own_interfaces := (own_interfaces (owner N))(i \<mapsto> name) \<rparr>) \<Longrightarrow> names N' \<subseteq> insert name (names N)"
  "owner N' = owner N \<or> (\<exists>i. owner N' = (owner N)\<lparr> own_nodes := (own_nodes (owner N))(i \<mapsto> name) \<rparr>) \<Longrightarrow> names N' \<subseteq> insert name (names N)"
  by (auto simp: names_owner split: if_splits)

lemma acquireClientPortData_names:
  assumes "acquireClientPortData cfg sd options name uid qid is ris N = Inr (r, N')"
  shows "names N' \<subseteq> insert name (names N)"
proof -
  obtain r1 N1 where N1: "addClientPort cfg sd name options uid qid is ris N = Inr (r1, N1)" "N' = N1 \<or> (\<exists>j. doDiscoveryForClientPort cfg j N1 = Inr N')"
    using assms by (auto simp: acquireClientPortData_def returns)
  then have "names N' = names N1" by (auto dest: doDiscoveryForClientPort_owner owner_names)
  then show ?thesis using added_names(1) [OF addClientPort_owner [OF N1(1)]] by simp
qed

lemma acquireServerPortData_names:
  assumes "acquireServerPortData cfg sd options name uid qid is ris N = Inr (r, N')"
  shows "names N' \<subseteq> insert name (names N)"
proof -
  obtain unique N1 where N1: "unique_server_loop cfg sd (content (rp_servers N)) N = Inr (unique, N1)"
    and rest: "N' = N1 \<or> (\<exists>r2 N2. addServerPort cfg sd name options uid qid is ris N1 = Inr (r2, N2) \<and> (N' = N2 \<or> (\<exists>i. doDiscoveryForServerPort cfg i N2 = Inr N')))"
    using assms by (fastforce simp: acquireServerPortData_def returns split: if_splits)
  have "names N1 \<subseteq> names N" using unique_server_loop_fewer [OF N1] by (rule fewer_names)
  moreover have "names N' \<subseteq> insert name (names N1)"
    using rest by (auto dest!: added_names(2) [OF addServerPort_owner] doDiscoveryForServerPort_owner owner_names)
  ultimately show ?thesis by blast
qed

lemma acquire_names:
  "acquireInterfacePortData cfg interface name uid buffer N = Inr (r', N') \<Longrightarrow> names N' \<subseteq> insert name (names N)"
  "acquireNodeData cfg name node N = Inr (r, N') \<Longrightarrow> names N' \<subseteq> insert name (names N)"
  "acquireConditionVariableData cfg name N = Inr (r, N') \<Longrightarrow> names N' \<subseteq> insert name (names N)"
  using owner_names [OF acquireConditionVariableData_owner]
  by (auto dest!: added_names(3) [OF acquireInterfacePortData_owner] added_names(4) [OF acquireNodeData_owner])

text \<open>The publishers and subscribers of a process are in the part that their creation changes.\<close>

lemma on_ports_names:
  "pm_names M \<subseteq> insert name (pm_names (rp_ports N)) \<Longrightarrow> names (N\<lparr> rp_ports := M \<rparr>) \<subseteq> insert name (names N)"
  by (auto simp: names_def owner_def pm_owners.extend_def)

text \<open>The applications do not change the name in a port.\<close>

lemma user_step_owner:
  "publisher_user_step pc (p, P) (p', P') \<Longrightarrow> bpd_runtimeName p' = bpd_runtimeName p"
  "subscriber_user_step pc (s, P) (s', P') \<Longrightarrow> bpd_runtimeName s' = bpd_runtimeName s"
  "client_user_step rc (c, P) (c', P') \<Longrightarrow> bpd_runtimeName c' = bpd_runtimeName c"
  "server_user_step rc (v, P) (v', P') \<Longrightarrow> bpd_runtimeName v' = bpd_runtimeName v"
  by (auto elim!: publisher_user_step.cases dest: publisher_owner)
    (auto elim!: subscriber_user_step.cases client_user_step.cases server_user_step.cases
      simp: SubscriberPortUser_subscribe_def SubscriberPortUser_tryGetChunk_def SubscriberPortUser_releaseChunk_def
        ClientPortUser_allocateRequest_def ClientPortUser_sendRequest_def ClientPortUser_releaseRequest_def ClientPortUser_getResponse_def ClientPortUser_releaseResponse_def
        ServerPortUser_releaseRequest_def ServerPortUser_getRequest_def ServerPortUser_allocateResponse_def ServerPortUser_sendResponse_def ServerPortUser_releaseResponse_def
        with_queue_def with_header_def locked_def returns split: if_splits)

end
