(* ===== verification/Ipc_Message.thy ===== *)
theory Ipc_Message
  imports Service_Description
begin

section \<open>Messages between applications and RouDi\<close>

text \<open>
  \<open>runtime::IpcMessage\<close> (\<open>ipc_message.cpp\<close>, \<open>ipc_message.inl\<close>) and the numbers of the message and error types
  (\<open>ipc_interface_base.hpp\<close>, \<open>ipc_interface_base.cpp\<close>). A message is a text of entries that each end with a separator. What is inserted
  with \<open>operator<<\<close> is here the text the stream has printed. The channel itself belongs to the operating system; a receiver sees the text up to
  the first NUL.
\<close>

definition m_separator :: char where
  "m_separator = CHR '',''"

record ipc_message =
  im_msg :: string
  im_isValid :: bool
  im_numberOfElements :: u32

definition IpcMessage_ctor :: ipc_message where
  "IpcMessage_ctor = \<lparr> im_msg = [], im_isValid = True, im_numberOfElements = 0 \<rparr>"

definition isValidEntry :: "string \<Rightarrow> bool" where
  "isValidEntry entry \<longleftrightarrow> find_first_of m_separator entry = None"

definition addEntry :: "ipc_message \<Rightarrow> string \<Rightarrow> ipc_message" where
  "addEntry this entry =
     (if \<not> isValidEntry entry then this\<lparr> im_isValid := False \<rparr>
      else this\<lparr> im_msg := im_msg this @ entry @ [m_separator], im_numberOfElements := im_numberOfElements this + 1 \<rparr>)"

text \<open>The constructor with a list of entries, which is also a chain of insertions into an empty message.\<close>

definition IpcMessage_ctor_list :: "string list \<Rightarrow> ipc_message" where
  "IpcMessage_ctor_list msg = foldl addEntry IpcMessage_ctor msg"

definition clearMessage :: "ipc_message \<Rightarrow> ipc_message" where
  "clearMessage this = this\<lparr> im_msg := [], im_numberOfElements := 0, im_isValid := True \<rparr>"

definition setMessage :: "ipc_message \<Rightarrow> string \<Rightarrow> ipc_message" where
  "setMessage this msg =
     (let this = (clearMessage this)\<lparr> im_msg := msg \<rparr>
      in if im_msg this \<noteq> [] \<and> last (im_msg this) \<noteq> m_separator then this\<lparr> im_isValid := False \<rparr>
         else this\<lparr> im_numberOfElements := of_nat (length (filter (\<lambda>c. c = m_separator) (im_msg this))) \<rparr>)"

text \<open>The loop of \<open>getElementAtIndex\<close> on the text from \<open>startPos\<close> on.\<close>

function element_loop :: "string \<Rightarrow> u32 \<Rightarrow> u32 \<Rightarrow> string" where
  "element_loop messageRemainder counter index =
     (case find_first_of m_separator messageRemainder of None \<Rightarrow> []
      | Some endPos \<Rightarrow>
          if counter = index then take endPos messageRemainder
          else element_loop (drop (endPos + 1) messageRemainder) (counter + 1) index)"
  by pat_completeness auto
termination
  by (relation "measure (\<lambda>(s, _, _). length s)") (auto simp: find_first_of_def intro!: diff_less split: if_splits dest: length_pos_if_in_set)

declare element_loop.simps [simp del]

definition getElementAtIndex :: "ipc_message \<Rightarrow> u32 \<Rightarrow> string" where
  "getElementAtIndex this index = element_loop (im_msg this) 0 index"

definition IpcMessage_eq :: "ipc_message \<Rightarrow> ipc_message \<Rightarrow> bool" where
  "IpcMessage_eq this rhs \<longleftrightarrow> im_msg this = im_msg rhs"

text \<open>The receiving and the sending side of \<open>IpcInterfaceBase\<close> without the channel.\<close>

definition setMessageFromString :: "string \<Rightarrow> ipc_message \<Rightarrow> bool \<times> ipc_message" where
  "setMessageFromString buffer answer = (let answer = setMessage answer buffer in (im_isValid answer, answer))"

definition IpcInterface_send :: "(string \<Rightarrow> bool) \<Rightarrow> ipc_message \<Rightarrow> string option" where
  "IpcInterface_send channel_accepts msg =
     (if \<not> im_isValid msg then None else if channel_accepts (im_msg msg) then Some (im_msg msg) else None)"

definition IpcInterface_receive :: "string option \<Rightarrow> ipc_message \<Rightarrow> bool \<times> ipc_message" where
  "IpcInterface_receive message answer = (case message of None \<Rightarrow> (False, answer) | Some m \<Rightarrow> setMessageFromString (c_str m) answer)"

definition IpcInterface_timedReceive :: "string option \<Rightarrow> ipc_message \<Rightarrow> bool \<times> ipc_message" where
  "IpcInterface_timedReceive message answer =
     (let (received, answer) = (case message of None \<Rightarrow> (False, answer) | Some m \<Rightarrow> (True, snd (setMessageFromString (c_str m) answer)))
      in (received \<and> im_isValid answer, answer))"

subsection \<open>The types of messages\<close>

datatype ipc_message_type =
    MSG_NOTYPE | MSG_REG | MSG_REG_ACK | MSG_CREATE_PUBLISHER | MSG_CREATE_PUBLISHER_ACK | MSG_CREATE_SUBSCRIBER
  | MSG_CREATE_SUBSCRIBER_ACK | MSG_CREATE_CLIENT | MSG_CREATE_CLIENT_ACK | MSG_CREATE_SERVER | MSG_CREATE_SERVER_ACK
  | MSG_CREATE_INTERFACE | MSG_CREATE_INTERFACE_ACK | MSG_CREATE_CONDITION_VARIABLE | MSG_CREATE_CONDITION_VARIABLE_ACK
  | MSG_CREATE_NODE | MSG_CREATE_NODE_ACK | MSG_KEEPALIVE | MSG_TERMINATION | MSG_TERMINATION_ACK | MSG_PREPARE_APP_TERMINATION
  | MSG_PREPARE_APP_TERMINATION_ACK | MSG_ERROR | MSG_APP_WAIT | MSG_WAKEUP_TRIGGER | MSG_REPLAY | MSG_MESSAGE_NOT_SUPPORTED

text \<open>The enumerators from \<open>NOTYPE\<close> on, in their order; \<open>BEGIN\<close> is the number before the first and \<open>END\<close> the one after the last.\<close>

definition ipc_message_types :: "ipc_message_type list" where
  "ipc_message_types =
     [MSG_NOTYPE, MSG_REG, MSG_REG_ACK, MSG_CREATE_PUBLISHER, MSG_CREATE_PUBLISHER_ACK, MSG_CREATE_SUBSCRIBER,
      MSG_CREATE_SUBSCRIBER_ACK, MSG_CREATE_CLIENT, MSG_CREATE_CLIENT_ACK, MSG_CREATE_SERVER, MSG_CREATE_SERVER_ACK,
      MSG_CREATE_INTERFACE, MSG_CREATE_INTERFACE_ACK, MSG_CREATE_CONDITION_VARIABLE, MSG_CREATE_CONDITION_VARIABLE_ACK,
      MSG_CREATE_NODE, MSG_CREATE_NODE_ACK, MSG_KEEPALIVE, MSG_TERMINATION, MSG_TERMINATION_ACK, MSG_PREPARE_APP_TERMINATION,
      MSG_PREPARE_APP_TERMINATION_ACK, MSG_ERROR, MSG_APP_WAIT, MSG_WAKEUP_TRIGGER, MSG_REPLAY, MSG_MESSAGE_NOT_SUPPORTED]"

definition MSG_BEGIN :: int where "MSG_BEGIN = - 1"
definition MSG_END :: int where "MSG_END = 27"

definition ipc_message_type_value :: "ipc_message_type \<Rightarrow> int" where
  "ipc_message_type_value msg = int (length (takeWhile (\<lambda>t. t \<noteq> msg) ipc_message_types))"

definition stringToIpcMessageType :: "string \<Rightarrow> ipc_message_type" where
  "stringToIpcMessageType str =
     (if stringIsNumber str INTEGER
      then (case fromString_int32 str of None \<Rightarrow> MSG_NOTYPE
            | Some msg \<Rightarrow> if \<not> (MSG_BEGIN \<ge> msg \<or> MSG_END \<le> msg) then ipc_message_types ! nat msg else MSG_NOTYPE)
      else MSG_NOTYPE)"

definition IpcMessageTypeToString :: "ipc_message_type \<Rightarrow> string" where
  "IpcMessageTypeToString msg = toString_int (ipc_message_type_value msg)"

datatype ipc_message_error_type =
    ERR_NOTYPE | ERR_NO_UNIQUE_CREATED | ERR_INTERNAL_SERVICE_DESCRIPTION_IS_FORBIDDEN | ERR_REQUEST_PUBLISHER_INVALID_RESPONSE
  | ERR_REQUEST_PUBLISHER_WRONG_IPC_MESSAGE_RESPONSE | ERR_REQUEST_PUBLISHER_NO_WRITABLE_SHM_SEGMENT
  | ERR_REQUEST_SUBSCRIBER_INVALID_RESPONSE | ERR_REQUEST_SUBSCRIBER_WRONG_IPC_MESSAGE_RESPONSE | ERR_REQUEST_CLIENT_INVALID_RESPONSE
  | ERR_REQUEST_CLIENT_WRONG_IPC_MESSAGE_RESPONSE | ERR_REQUEST_CLIENT_NO_WRITABLE_SHM_SEGMENT | ERR_REQUEST_SERVER_INVALID_RESPONSE
  | ERR_REQUEST_SERVER_WRONG_IPC_MESSAGE_RESPONSE | ERR_REQUEST_SERVER_NO_WRITABLE_SHM_SEGMENT
  | ERR_REQUEST_CONDITION_VARIABLE_INVALID_RESPONSE | ERR_REQUEST_CONDITION_VARIABLE_WRONG_IPC_MESSAGE_RESPONSE
  | ERR_PUBLISHER_LIST_FULL | ERR_SUBSCRIBER_LIST_FULL | ERR_CLIENT_LIST_FULL | ERR_SERVER_LIST_FULL
  | ERR_CONDITION_VARIABLE_LIST_FULL | ERR_EVENT_VARIABLE_LIST_FULL | ERR_NODE_DATA_LIST_FULL

text \<open>The enumerators from \<open>NOTYPE\<close>, number 1, on; \<open>BEGIN\<close> is number 0.\<close>

definition ipc_message_error_types :: "ipc_message_error_type list" where
  "ipc_message_error_types =
     [ERR_NOTYPE, ERR_NO_UNIQUE_CREATED, ERR_INTERNAL_SERVICE_DESCRIPTION_IS_FORBIDDEN, ERR_REQUEST_PUBLISHER_INVALID_RESPONSE,
      ERR_REQUEST_PUBLISHER_WRONG_IPC_MESSAGE_RESPONSE, ERR_REQUEST_PUBLISHER_NO_WRITABLE_SHM_SEGMENT,
      ERR_REQUEST_SUBSCRIBER_INVALID_RESPONSE, ERR_REQUEST_SUBSCRIBER_WRONG_IPC_MESSAGE_RESPONSE, ERR_REQUEST_CLIENT_INVALID_RESPONSE,
      ERR_REQUEST_CLIENT_WRONG_IPC_MESSAGE_RESPONSE, ERR_REQUEST_CLIENT_NO_WRITABLE_SHM_SEGMENT, ERR_REQUEST_SERVER_INVALID_RESPONSE,
      ERR_REQUEST_SERVER_WRONG_IPC_MESSAGE_RESPONSE, ERR_REQUEST_SERVER_NO_WRITABLE_SHM_SEGMENT,
      ERR_REQUEST_CONDITION_VARIABLE_INVALID_RESPONSE, ERR_REQUEST_CONDITION_VARIABLE_WRONG_IPC_MESSAGE_RESPONSE,
      ERR_PUBLISHER_LIST_FULL, ERR_SUBSCRIBER_LIST_FULL, ERR_CLIENT_LIST_FULL, ERR_SERVER_LIST_FULL,
      ERR_CONDITION_VARIABLE_LIST_FULL, ERR_EVENT_VARIABLE_LIST_FULL, ERR_NODE_DATA_LIST_FULL]"

definition ERR_BEGIN :: int where "ERR_BEGIN = 0"
definition ERR_END :: int where "ERR_END = 24"

definition ipc_message_error_type_value :: "ipc_message_error_type \<Rightarrow> int" where
  "ipc_message_error_type_value msg = 1 + int (length (takeWhile (\<lambda>t. t \<noteq> msg) ipc_message_error_types))"

definition stringToIpcMessageErrorType :: "string \<Rightarrow> ipc_message_error_type" where
  "stringToIpcMessageErrorType str =
     (if stringIsNumber str INTEGER
      then (case fromString_int32 str of None \<Rightarrow> ERR_NOTYPE
            | Some msg \<Rightarrow> if \<not> (ERR_BEGIN \<ge> msg \<or> ERR_END \<le> msg) then ipc_message_error_types ! nat (msg - 1) else ERR_NOTYPE)
      else ERR_NOTYPE)"

definition IpcMessageErrorTypeToString :: "ipc_message_error_type \<Rightarrow> string" where
  "IpcMessageErrorTypeToString msg = toString_int (ipc_message_error_type_value msg)"

subsection \<open>Entries are read back\<close>

named_theorems ipc_entry \<open>texts that are entries of a message\<close>

lemma isValidEntry_iff: "isValidEntry entry \<longleftrightarrow> m_separator \<notin> set entry"
  by (simp add: isValidEntry_def find_first_of_def)

lemma foldl_addEntry:
  "\<forall>e\<in>set es. isValidEntry e \<Longrightarrow> foldl addEntry m es =
     m\<lparr> im_msg := im_msg m @ concat (map (\<lambda>e. e @ [m_separator]) es), im_numberOfElements := im_numberOfElements m + of_nat (length es) \<rparr>"
  by (induction es arbitrary: m) (simp_all add: addEntry_def algebra_simps)

lemma IpcMessage_ctor_list_valid:
  assumes "\<forall>e\<in>set es. isValidEntry e"
  shows "IpcMessage_ctor_list es =
    \<lparr> im_msg = concat (map (\<lambda>e. e @ [m_separator]) es), im_isValid = True, im_numberOfElements = of_nat (length es) \<rparr>"
  using foldl_addEntry [OF assms, of IpcMessage_ctor] by (simp add: IpcMessage_ctor_list_def IpcMessage_ctor_def)

lemma addEntry_invalid: "\<not> im_isValid m \<Longrightarrow> \<not> im_isValid (foldl addEntry m es)"
  by (induction es arbitrary: m) (simp_all add: addEntry_def)

lemma IpcMessage_ctor_list_isValid: "im_isValid (IpcMessage_ctor_list es) \<longleftrightarrow> (\<forall>e\<in>set es. isValidEntry e)"
proof
  have "im_isValid (foldl addEntry m es) \<Longrightarrow> \<forall>e\<in>set es. isValidEntry e" for m
  proof (induction es arbitrary: m)
    case (Cons e es)
    have "isValidEntry e"
      using Cons.prems addEntry_invalid [of "addEntry m e" es] by (cases "isValidEntry e") (simp_all add: addEntry_def [of m e])
    then show ?case using Cons by simp
  qed simp
  then show "im_isValid (IpcMessage_ctor_list es) \<Longrightarrow> \<forall>e\<in>set es. isValidEntry e" unfolding IpcMessage_ctor_list_def by blast
qed (simp add: IpcMessage_ctor_list_valid)

lemma find_first_of_entry: "isValidEntry e \<Longrightarrow> find_first_of m_separator (e @ m_separator # rest) = Some (length e)"
  by (auto simp: find_first_of_def isValidEntry_iff takeWhile_append intro!: arg_cong [where f = length])

lemma element_loop_entry:
  "isValidEntry e \<Longrightarrow> element_loop (e @ m_separator # rest) counter index =
     (if counter = index then e else element_loop rest (counter + 1) index)"
  by (subst element_loop.simps) (simp add: find_first_of_entry)

lemma element_loop_entries:
  assumes "\<forall>e\<in>set es. isValidEntry e" "unat index - unat counter < length es" "counter \<le> index"
  shows "element_loop (concat (map (\<lambda>e. e @ [m_separator]) es)) counter index = es ! (unat index - unat counter)"
  using assms
proof (induction es arbitrary: counter)
  case (Cons e es)
  show ?case
  proof (cases "counter = index")
    case False
    then have less: "unat counter < unat index" using Cons.prems(3) by (metis nat_less_le word_le_nat_alt word_unat_eq_iff)
    moreover have "unat (counter + 1) = unat counter + 1"
      using less unsigned_less [of index, where ?'a = nat] by (subst unat_add_no_wrap) simp_all
    ultimately show ?thesis using Cons.prems Cons.IH [of "counter + 1"] False
      by (simp add: element_loop_entry word_le_nat_alt nth_Cons')
  qed (use Cons.prems in \<open>simp add: element_loop_entry\<close>)
qed simp

lemma element_loop_end:
  assumes "\<forall>e\<in>set es. isValidEntry e" "length es \<le> unat index - unat counter" "counter \<le> index"
  shows "element_loop (concat (map (\<lambda>e. e @ [m_separator]) es)) counter index = []"
  using assms
proof (induction es arbitrary: counter)
  case Nil then show ?case by (subst element_loop.simps) (simp add: find_first_of_def)
next
  case (Cons e es)
  then have less: "unat counter < unat index" by simp
  moreover have "unat (counter + 1) = unat counter + 1"
    using less unsigned_less [of index, where ?'a = nat] by (subst unat_add_no_wrap) simp_all
  ultimately show ?case using Cons.prems Cons.IH [of "counter + 1"] by (auto simp: element_loop_entry word_le_nat_alt)
qed

lemma count_separators:
  "\<forall>e\<in>set es. isValidEntry e \<Longrightarrow> length (filter (\<lambda>c. c = m_separator) (concat (map (\<lambda>e. e @ [m_separator]) es))) = length es"
  by (induction es) (auto simp: isValidEntry_iff filter_empty_conv)

text \<open>A message with valid entries is received as it was sent, and its entries are the ones inserted.\<close>

lemma getElementAtIndex_nth:
  assumes "\<forall>e\<in>set es. isValidEntry e"
  shows "getElementAtIndex (IpcMessage_ctor_list es) index = (if unat index < length es then es ! unat index else [])"
  using element_loop_entries [of es index 0] element_loop_end [of es index 0] assms by (simp add: getElementAtIndex_def IpcMessage_ctor_list_valid)

lemma setMessage_sent:
  assumes "\<forall>e\<in>set es. isValidEntry e"
  shows "setMessage m (im_msg (IpcMessage_ctor_list es)) = IpcMessage_ctor_list es"
proof -
  have "concat (map (\<lambda>e. e @ [m_separator]) es) \<noteq> [] \<Longrightarrow> last (concat (map (\<lambda>e. e @ [m_separator]) es)) = m_separator"
    by (induction es) auto
  then show ?thesis using count_separators [OF assms]
    by (cases m) (auto simp: IpcMessage_ctor_list_valid [OF assms] setMessage_def clearMessage_def Let_def)
qed

lemma received_as_sent:
  assumes "\<forall>e\<in>set es. isValidEntry e" "\<forall>e\<in>set es. NUL \<notin> set e"
  shows "IpcInterface_receive (Some (im_msg (IpcMessage_ctor_list es))) m = (True, IpcMessage_ctor_list es)"
    and "IpcInterface_timedReceive (Some (im_msg (IpcMessage_ctor_list es))) m = (True, IpcMessage_ctor_list es)"
proof -
  have "NUL \<notin> set (im_msg (IpcMessage_ctor_list es))" using assms by (auto simp: IpcMessage_ctor_list_valid NUL_def m_separator_def)
  then show "IpcInterface_receive (Some (im_msg (IpcMessage_ctor_list es))) m = (True, IpcMessage_ctor_list es)"
    and "IpcInterface_timedReceive (Some (im_msg (IpcMessage_ctor_list es))) m = (True, IpcMessage_ctor_list es)"
    using assms(1) by (simp_all add: IpcInterface_receive_def IpcInterface_timedReceive_def setMessageFromString_def c_str_id setMessage_sent IpcMessage_ctor_list_isValid)
qed

lemma digit_ne_separator: "is_digit c \<Longrightarrow> c \<noteq> m_separator"
  by (auto simp: is_digit_def ascii_def m_separator_def)

lemma toString_nat_entry [simp, ipc_entry]: "isValidEntry (toString_nat n)" "NUL \<notin> set (toString_nat n)"
  using toString_nat_digits [of _ n] digit_ne_separator digit_not_special by (auto simp: isValidEntry_iff)

lemma toString_int_entry [simp, ipc_entry]: "isValidEntry (toString_int z)" "NUL \<notin> set (toString_int z)"
  using toString_nat_entry [of "nat \<bar>z\<bar>"] by (auto simp: toString_int_def isValidEntry_iff m_separator_def NUL_def)

lemma type_value_nth: "ipc_message_types ! nat (ipc_message_type_value t) = t" "0 \<le> ipc_message_type_value t" "ipc_message_type_value t < 27"
  by (cases t; simp add: ipc_message_type_value_def ipc_message_types_def)+

lemma error_type_value_nth:
  "ipc_message_error_types ! nat (ipc_message_error_type_value t - 1) = t" "1 \<le> ipc_message_error_type_value t" "ipc_message_error_type_value t < 24"
  by (cases t; simp add: ipc_message_error_type_value_def ipc_message_error_types_def)+

lemma int32_roundtrip:
  assumes "- (2 ^ 31) \<le> z" "z < 2 ^ 31"
  shows "fromString_int32 (toString_int z) = Some z" "stringIsNumber (toString_int z) INTEGER"
proof -
  show *: "fromString_int32 (toString_int z) = Some z"
    using assms by (simp add: fromString_int32_def fromString_signed_toString LLONG_MIN_def LLONG_MAX_def)
  show "stringIsNumber (toString_int z) INTEGER"
    using * unfolding fromString_int32_def fromString_signed_def by (auto split: if_splits)
qed

lemma stringToIpcMessageType_roundtrip [simp]: "stringToIpcMessageType (IpcMessageTypeToString t) = t"
  using type_value_nth [of t]
  by (simp add: stringToIpcMessageType_def IpcMessageTypeToString_def int32_roundtrip MSG_BEGIN_def MSG_END_def)

lemma stringToIpcMessageErrorType_roundtrip [simp]: "stringToIpcMessageErrorType (IpcMessageErrorTypeToString t) = t"
  using error_type_value_nth [of t]
  by (simp add: stringToIpcMessageErrorType_def IpcMessageErrorTypeToString_def int32_roundtrip ERR_BEGIN_def ERR_END_def)

end
