(* ===== verification/Port_Options.thy ===== *)
theory Port_Options
  imports Ipc_Message Client_Server_Ports
begin

section \<open>Options of ports and versions as text\<close>

text \<open>
  \<open>popo::PublisherOptions\<close>, \<open>popo::SubscriberOptions\<close>, \<open>popo::ClientOptions\<close>, \<open>popo::ServerOptions\<close>, \<open>runtime::PortConfigInfo\<close>,
  \<open>runtime::NodeProperty\<close> and \<open>version::VersionInfo\<close> with their serialization (the files of these names in \<open>source/popo\<close>,
  \<open>source/runtime\<close> and \<open>source/version\<close>). The two policies have two enumerators each, stored in one byte.
\<close>

definition consumer_too_slow_policy_value :: "consumer_too_slow_policy \<Rightarrow> u8" where
  "consumer_too_slow_policy_value p = (if p = WAIT_FOR_CONSUMER then 0 else 1)"

definition consumer_too_slow_policy_of :: "u8 \<Rightarrow> consumer_too_slow_policy" where
  "consumer_too_slow_policy_of n = (if n = 0 then WAIT_FOR_CONSUMER else DISCARD_OLDEST_DATA_OF_CONSUMER)"

definition queue_full_policy_value :: "queue_full_policy \<Rightarrow> u8" where
  "queue_full_policy_value p = (if p = BLOCK_PRODUCER then 0 else 1)"

definition queue_full_policy_of :: "u8 \<Rightarrow> queue_full_policy" where
  "queue_full_policy_of n = (if n = 0 then BLOCK_PRODUCER else DISCARD_OLDEST_DATA)"

subsection \<open>The options\<close>

definition PublisherOptions_serialize :: "publisher_options \<Rightarrow> string" where
  "PublisherOptions_serialize o' = Serialization_create
     [VU64 (po_historyCapacity o'), VString (po_nodeName o'), VBool (po_offerOnCreate o'),
      VU8 (consumer_too_slow_policy_value (po_subscriberTooSlowPolicy o'))]"

definition PublisherOptions_deserialize :: "string \<Rightarrow> serialization_error + publisher_options" where
  "PublisherOptions_deserialize serialized =
     (case Serialization_extract [FU64, FString100, FBool, FU8] serialized of
        Some [VU64 historyCapacity, VString nodeName, VBool offerOnCreate, VU8 subscriberTooSlowPolicy] \<Rightarrow>
          if subscriberTooSlowPolicy > consumer_too_slow_policy_value DISCARD_OLDEST_DATA_OF_CONSUMER then Inl DESERIALIZATION_FAILED
          else Inr \<lparr> po_historyCapacity = historyCapacity, po_nodeName = nodeName, po_offerOnCreate = offerOnCreate,
                     po_subscriberTooSlowPolicy = consumer_too_slow_policy_of subscriberTooSlowPolicy \<rparr>
      | _ \<Rightarrow> Inl DESERIALIZATION_FAILED)"

definition SubscriberOptions_serialize :: "subscriber_options \<Rightarrow> string" where
  "SubscriberOptions_serialize o' = Serialization_create
     [VU64 (so_queueCapacity o'), VU64 (so_historyRequest o'), VString (so_nodeName o'), VBool (so_subscribeOnCreate o'),
      VU8 (queue_full_policy_value (so_queueFullPolicy o')), VBool (so_requiresPublisherHistorySupport o')]"

definition SubscriberOptions_deserialize :: "string \<Rightarrow> serialization_error + subscriber_options" where
  "SubscriberOptions_deserialize serialized =
     (case Serialization_extract [FU64, FU64, FString100, FBool, FU8, FBool] serialized of
        Some [VU64 queueCapacity, VU64 historyRequest, VString nodeName, VBool subscribeOnCreate, VU8 queueFullPolicy,
              VBool requiresPublisherHistorySupport] \<Rightarrow>
          if queueFullPolicy > queue_full_policy_value DISCARD_OLDEST_DATA then Inl DESERIALIZATION_FAILED
          else Inr \<lparr> so_queueCapacity = queueCapacity, so_historyRequest = historyRequest, so_nodeName = nodeName,
                     so_subscribeOnCreate = subscribeOnCreate, so_queueFullPolicy = queue_full_policy_of queueFullPolicy,
                     so_requiresPublisherHistorySupport = requiresPublisherHistorySupport \<rparr>
      | _ \<Rightarrow> Inl DESERIALIZATION_FAILED)"

definition ClientOptions_serialize :: "client_options \<Rightarrow> string" where
  "ClientOptions_serialize o' = Serialization_create
     [VU64 (co_responseQueueCapacity o'), VString (co_nodeName o'), VBool (co_connectOnCreate o'),
      VU8 (queue_full_policy_value (co_responseQueueFullPolicy o')), VU8 (consumer_too_slow_policy_value (co_serverTooSlowPolicy o'))]"

definition ClientOptions_deserialize :: "string \<Rightarrow> serialization_error + client_options" where
  "ClientOptions_deserialize serialized =
     (case Serialization_extract [FU64, FString100, FBool, FU8, FU8] serialized of
        Some [VU64 responseQueueCapacity, VString nodeName, VBool connectOnCreate, VU8 responseQueueFullPolicy, VU8 serverTooSlowPolicy] \<Rightarrow>
          if responseQueueFullPolicy > queue_full_policy_value DISCARD_OLDEST_DATA
             \<or> serverTooSlowPolicy > consumer_too_slow_policy_value DISCARD_OLDEST_DATA_OF_CONSUMER then Inl DESERIALIZATION_FAILED
          else Inr \<lparr> co_responseQueueCapacity = responseQueueCapacity, co_nodeName = nodeName, co_connectOnCreate = connectOnCreate,
                     co_responseQueueFullPolicy = queue_full_policy_of responseQueueFullPolicy,
                     co_serverTooSlowPolicy = consumer_too_slow_policy_of serverTooSlowPolicy \<rparr>
      | _ \<Rightarrow> Inl DESERIALIZATION_FAILED)"

definition ServerOptions_serialize :: "server_options \<Rightarrow> string" where
  "ServerOptions_serialize o' = Serialization_create
     [VU64 (svo_requestQueueCapacity o'), VString (svo_nodeName o'), VBool (svo_offerOnCreate o'),
      VU8 (queue_full_policy_value (svo_requestQueueFullPolicy o')), VU8 (consumer_too_slow_policy_value (svo_clientTooSlowPolicy o'))]"

definition ServerOptions_deserialize :: "string \<Rightarrow> serialization_error + server_options" where
  "ServerOptions_deserialize serialized =
     (case Serialization_extract [FU64, FString100, FBool, FU8, FU8] serialized of
        Some [VU64 requestQueueCapacity, VString nodeName, VBool offerOnCreate, VU8 requestQueueFullPolicy, VU8 clientTooSlowPolicy] \<Rightarrow>
          if requestQueueFullPolicy > queue_full_policy_value DISCARD_OLDEST_DATA
             \<or> clientTooSlowPolicy > consumer_too_slow_policy_value DISCARD_OLDEST_DATA_OF_CONSUMER then Inl DESERIALIZATION_FAILED
          else Inr \<lparr> svo_requestQueueCapacity = requestQueueCapacity, svo_nodeName = nodeName, svo_offerOnCreate = offerOnCreate,
                     svo_requestQueueFullPolicy = queue_full_policy_of requestQueueFullPolicy,
                     svo_clientTooSlowPolicy = consumer_too_slow_policy_of clientTooSlowPolicy \<rparr>
      | _ \<Rightarrow> Inl DESERIALIZATION_FAILED)"

subsection \<open>Configuration of a port, properties of a node\<close>

text \<open>
  These two classes and \<open>VersionInfo\<close> read into their own members: if the text is malformed, the members before the malformed one
  keep the values read, the others their defaults.
\<close>

fun read_prefix :: "field list \<Rightarrow> string \<Rightarrow> field_value list" where
  "read_prefix [] serialized = []"
| "read_prefix (t # args) serialized =
     (case removeFirstEntry serialized of None \<Rightarrow> []
      | Some (entry, remainder) \<Rightarrow>
          (case fromString t (c_str entry) of None \<Rightarrow> [] | Some v \<Rightarrow> v # read_prefix args remainder))"

definition read_u32 :: "field_value list \<Rightarrow> nat \<Rightarrow> u32" where
  "read_u32 vs i = (if i < length vs then case vs ! i of VU32 n \<Rightarrow> n | _ \<Rightarrow> 0 else 0)"

definition read_u16 :: "field_value list \<Rightarrow> nat \<Rightarrow> u16" where
  "read_u16 vs i = (if i < length vs then case vs ! i of VU16 n \<Rightarrow> n | _ \<Rightarrow> 0 else 0)"

definition read_u64 :: "field_value list \<Rightarrow> nat \<Rightarrow> u64" where
  "read_u64 vs i = (if i < length vs then case vs ! i of VU64 n \<Rightarrow> n | _ \<Rightarrow> 0 else 0)"

definition read_string :: "field_value list \<Rightarrow> nat \<Rightarrow> string" where
  "read_string vs i = (if i < length vs then case vs ! i of VString s \<Rightarrow> s | _ \<Rightarrow> [] else [])"

record port_config_info =
  pci_portType :: u32
  pci_deviceId :: u32
  pci_memoryType :: u32

definition PortConfigInfo_of_serialization :: "string \<Rightarrow> port_config_info" where
  "PortConfigInfo_of_serialization serialization =
     (let vs = read_prefix [FU32, FU32, FU32] serialization
      in \<lparr> pci_portType = read_u32 vs 0, pci_deviceId = read_u32 vs 1, pci_memoryType = read_u32 vs 2 \<rparr>)"

definition PortConfigInfo_serialize :: "port_config_info \<Rightarrow> string" where
  "PortConfigInfo_serialize i = Serialization_create [VU32 (pci_portType i), VU32 (pci_deviceId i), VU32 (pci_memoryType i)]"

definition PortConfigInfo_eq :: "port_config_info \<Rightarrow> port_config_info \<Rightarrow> bool" where
  "PortConfigInfo_eq this rhs \<longleftrightarrow> pci_portType this = pci_portType rhs \<and> pci_deviceId this = pci_deviceId rhs \<and> pci_memoryType this = pci_memoryType rhs"

record node_property =
  np_name :: string
  np_nodeDeviceIdentifier :: u64

definition NodeProperty_of_serialization :: "string \<Rightarrow> node_property" where
  "NodeProperty_of_serialization serialized =
     (let vs = read_prefix [FString100, FU64] serialized in \<lparr> np_name = read_string vs 0, np_nodeDeviceIdentifier = read_u64 vs 1 \<rparr>)"

definition NodeProperty_serialize :: "node_property \<Rightarrow> string" where
  "NodeProperty_serialize p = Serialization_create [VString (np_name p), VU64 (np_nodeDeviceIdentifier p)]"

subsection \<open>Versions\<close>

record version_info =
  vi_valid :: bool
  vi_versionMajor :: u16
  vi_versionMinor :: u16
  vi_versionPatch :: u16
  vi_versionTweak :: u16
  vi_buildDateString :: string
  vi_commitIdString :: string

definition BUILD_DATE_STRING_SIZE :: nat where "BUILD_DATE_STRING_SIZE = 36"
definition COMMIT_ID_STRING_SIZE :: nat where "COMMIT_ID_STRING_SIZE = 12"

definition version_fields :: "field list" where
  "version_fields = [FU16, FU16, FU16, FU16, FString100, FString100]"

definition VersionInfo_of_serialization :: "string \<Rightarrow> version_info" where
  "VersionInfo_of_serialization serial =
     (let vs = read_prefix version_fields serial
      in \<lparr> vi_valid = (Serialization_extract version_fields serial \<noteq> None),
           vi_versionMajor = read_u16 vs 0, vi_versionMinor = read_u16 vs 1, vi_versionPatch = read_u16 vs 2, vi_versionTweak = read_u16 vs 3,
           vi_buildDateString = take BUILD_DATE_STRING_SIZE (c_str (read_string vs 4)),
           vi_commitIdString = take COMMIT_ID_STRING_SIZE (c_str (read_string vs 5)) \<rparr>)"

definition VersionInfo_serialize :: "version_info \<Rightarrow> string" where
  "VersionInfo_serialize v = Serialization_create
     [VU16 (vi_versionMajor v), VU16 (vi_versionMinor v), VU16 (vi_versionPatch v), VU16 (vi_versionTweak v),
      VString (vi_buildDateString v), VString (vi_commitIdString v)]"

definition VersionInfo_eq :: "version_info \<Rightarrow> version_info \<Rightarrow> bool" where
  "VersionInfo_eq this rhs \<longleftrightarrow>
     vi_valid this = vi_valid rhs \<and> vi_versionMajor this = vi_versionMajor rhs \<and> vi_versionMinor this = vi_versionMinor rhs \<and>
     vi_versionPatch this = vi_versionPatch rhs \<and> vi_versionTweak this = vi_versionTweak rhs \<and>
     vi_buildDateString this = vi_buildDateString rhs \<and> vi_commitIdString this = vi_commitIdString rhs"

datatype compatibility_check_level = CHECK_OFF | CHECK_MAJOR | CHECK_MINOR | CHECK_PATCH | CHECK_COMMIT_ID | CHECK_BUILD_DATE

fun checkCompatibility :: "version_info \<Rightarrow> version_info \<Rightarrow> compatibility_check_level \<Rightarrow> bool" where
  "checkCompatibility this other CHECK_OFF = True"
| "checkCompatibility this other CHECK_MAJOR = (vi_valid this = vi_valid other \<and> vi_versionMajor this = vi_versionMajor other)"
| "checkCompatibility this other CHECK_MINOR =
     (vi_valid this = vi_valid other \<and> vi_versionMajor this = vi_versionMajor other \<and> vi_versionMinor this = vi_versionMinor other)"
| "checkCompatibility this other CHECK_PATCH =
     (vi_valid this = vi_valid other \<and> vi_versionMajor this = vi_versionMajor other \<and> vi_versionMinor this = vi_versionMinor other \<and>
      vi_versionPatch this = vi_versionPatch other)"
| "checkCompatibility this other CHECK_COMMIT_ID =
     (vi_valid this = vi_valid other \<and> vi_versionMajor this = vi_versionMajor other \<and> vi_versionMinor this = vi_versionMinor other \<and>
      vi_versionPatch this = vi_versionPatch other \<and> vi_versionTweak this = vi_versionTweak other \<and> vi_commitIdString this = vi_commitIdString other)"
| "checkCompatibility this other CHECK_BUILD_DATE = VersionInfo_eq this other"

subsection \<open>Round trips\<close>

text \<open>A text of at most 100 characters without NUL, as a fixed string holds it.\<close>

definition name_ok :: "string \<Rightarrow> bool" where
  "name_ok s \<longleftrightarrow> length s \<le> 100 \<and> NUL \<notin> set s"

text \<open>
  Values as the options and versions have them. The largest 64-bit number can be written but not read: a text with it is refused as a whole.
\<close>

definition option_field :: "field \<Rightarrow> field_value \<Rightarrow> bool" where
  "option_field f v \<longleftrightarrow> (case v of
       VString s \<Rightarrow> f = FString100 \<and> name_ok s | VBool b \<Rightarrow> f = FBool | VU64 n \<Rightarrow> f = FU64 | VU32 n \<Rightarrow> f = FU32 | VU16 n \<Rightarrow> f = FU16
     | VU8 n \<Rightarrow> f = FU8 | _ \<Rightarrow> False)"

lemma toString_word_length:
  fixes n :: "'a::len word"
  assumes "LENGTH('a) \<le> 64"
  shows "length (toString_nat (unat n)) \<le> 100"
proof -
  have "unat n < 2 ^ LENGTH('a)" by (rule unsigned_less)
  also have "\<dots> \<le> 2 ^ 64" using assms by (intro power_increasing) simp_all
  finally have "unat n < 10 ^ Suc 19" by simp
  from toString_nat_length [OF this] show ?thesis by simp
qed

lemma option_field_short: "option_field f v \<Longrightarrow> length (getString v) \<le> 100"
  by (cases v) (simp_all add: option_field_def name_ok_def c_str_id toString_word_length toString_nat.simps [of "of_bool _"])

lemma option_field_ok: "option_field f v \<Longrightarrow> v \<noteq> VU64 (- 1) \<Longrightarrow> field_ok f v"
  by (cases v) (auto simp: option_field_def field_ok_def name_ok_def)

lemma deserialize_serializer:
  assumes "list_all2 option_field fs vs" "length (serializer vs) < 2 ^ 64 - 1"
  shows "deserialize fs (serializer vs) = (if VU64 (- 1) \<in> set vs then None else Some vs)"
  using assms
proof (induction rule: list_all2_induct)
  case (Cons f fs v vs)
  have "removeFirstEntry (serializer (v # vs)) = Some (getString v, serializer vs)"
    using removeFirstEntry_entry [of "getString v" "serializer vs"] Cons.prems by (simp add: Let_def)
  moreover have "fromString f (c_str (getString v)) = None" if "v = VU64 (- 1)"
    using that Cons.hyps(1) uint64_roundtrip [of "- 1"] by (simp add: option_field_def)
  moreover have "fromString f (c_str (getString v)) = Some v" if "v \<noteq> VU64 (- 1)"
    using option_field_ok [OF Cons.hyps(1) that] by (rule fromString_getString)
  ultimately show ?case using Cons by (cases "v = VU64 (- 1)") (auto simp: Let_def)
qed simp

lemma extract_create:
  assumes "list_all2 option_field fs vs" "length vs \<le> 100"
  shows "Serialization_extract fs (Serialization_create vs) = (if VU64 (- 1) \<in> set vs then None else Some vs)"
proof -
  have "\<forall>v\<in>set vs. length (getString v) \<le> 100"
    using assms(1) by (metis in_set_conv_nth list_all2_conv_all_nth option_field_short)
  from serializer_length [OF this] have "length (serializer vs) < 2 ^ 64 - 1" using assms(2) by simp
  then show ?thesis using deserialize_serializer [OF assms(1)] by (simp add: Serialization_extract_def Serialization_create_def)
qed

lemma deserialize_read_prefix: "deserialize fs s = Some vs \<Longrightarrow> read_prefix fs s = vs"
  by (induction fs s arbitrary: vs rule: deserialize.induct) (auto split: option.splits if_splits)

lemma extract_read_prefix: "Serialization_extract fs s = Some vs \<Longrightarrow> read_prefix fs s = vs"
  by (simp add: Serialization_extract_def deserialize_read_prefix)

lemma policy_roundtrips [simp]:
  "consumer_too_slow_policy_of (consumer_too_slow_policy_value p) = p" "queue_full_policy_of (queue_full_policy_value q) = q"
  "\<not> consumer_too_slow_policy_value DISCARD_OLDEST_DATA_OF_CONSUMER < consumer_too_slow_policy_value p"
  "\<not> queue_full_policy_value DISCARD_OLDEST_DATA < queue_full_policy_value q"
  by (cases p; cases q;
      simp add: consumer_too_slow_policy_of_def consumer_too_slow_policy_value_def queue_full_policy_of_def queue_full_policy_value_def)+

lemma PublisherOptions_roundtrip:
  "name_ok (po_nodeName o') \<Longrightarrow> PublisherOptions_deserialize (PublisherOptions_serialize o') =
     (if po_historyCapacity o' = - 1 then Inl DESERIALIZATION_FAILED else Inr o')"
  by (simp add: PublisherOptions_deserialize_def PublisherOptions_serialize_def extract_create option_field_def)

lemma SubscriberOptions_roundtrip:
  "name_ok (so_nodeName o') \<Longrightarrow> SubscriberOptions_deserialize (SubscriberOptions_serialize o') =
     (if so_queueCapacity o' = - 1 \<or> so_historyRequest o' = - 1 then Inl DESERIALIZATION_FAILED else Inr o')"
  by (auto simp: SubscriberOptions_deserialize_def SubscriberOptions_serialize_def extract_create option_field_def)

lemma ClientOptions_roundtrip:
  "name_ok (co_nodeName o') \<Longrightarrow> ClientOptions_deserialize (ClientOptions_serialize o') =
     (if co_responseQueueCapacity o' = - 1 then Inl DESERIALIZATION_FAILED else Inr o')"
  by (simp add: ClientOptions_deserialize_def ClientOptions_serialize_def extract_create option_field_def)

lemma ServerOptions_roundtrip:
  "name_ok (svo_nodeName o') \<Longrightarrow> ServerOptions_deserialize (ServerOptions_serialize o') =
     (if svo_requestQueueCapacity o' = - 1 then Inl DESERIALIZATION_FAILED else Inr o')"
  by (simp add: ServerOptions_deserialize_def ServerOptions_serialize_def extract_create option_field_def)

lemma PortConfigInfo_roundtrip: "PortConfigInfo_of_serialization (PortConfigInfo_serialize i) = i"
proof -
  have "Serialization_extract [FU32, FU32, FU32] (PortConfigInfo_serialize i) = Some [VU32 (pci_portType i), VU32 (pci_deviceId i), VU32 (pci_memoryType i)]"
    by (simp add: PortConfigInfo_serialize_def extract_create option_field_def)
  from extract_read_prefix [OF this] show ?thesis by (simp add: PortConfigInfo_of_serialization_def read_u32_def)
qed

lemma NodeProperty_roundtrip:
  assumes "name_ok (np_name p)" "np_nodeDeviceIdentifier p \<noteq> - 1"
  shows "NodeProperty_of_serialization (NodeProperty_serialize p) = p"
proof -
  have "Serialization_extract [FString100, FU64] (NodeProperty_serialize p) = Some [VString (np_name p), VU64 (np_nodeDeviceIdentifier p)]"
    using assms by (simp add: NodeProperty_serialize_def extract_create option_field_def)
  from extract_read_prefix [OF this] show ?thesis by (simp add: NodeProperty_of_serialization_def read_string_def read_u64_def)
qed

definition version_ok :: "version_info \<Rightarrow> bool" where
  "version_ok v \<longleftrightarrow> vi_valid v \<and> length (vi_buildDateString v) \<le> BUILD_DATE_STRING_SIZE \<and> NUL \<notin> set (vi_buildDateString v) \<and>
     length (vi_commitIdString v) \<le> COMMIT_ID_STRING_SIZE \<and> NUL \<notin> set (vi_commitIdString v)"

lemma VersionInfo_roundtrip:
  assumes "version_ok v"
  shows "VersionInfo_of_serialization (VersionInfo_serialize v) = v"
proof -
  have e: "Serialization_extract version_fields (VersionInfo_serialize v) =
      Some [VU16 (vi_versionMajor v), VU16 (vi_versionMinor v), VU16 (vi_versionPatch v), VU16 (vi_versionTweak v),
        VString (vi_buildDateString v), VString (vi_commitIdString v)]"
    using assms by (simp add: VersionInfo_serialize_def version_fields_def extract_create option_field_def version_ok_def name_ok_def
        BUILD_DATE_STRING_SIZE_def COMMIT_ID_STRING_SIZE_def)
  have "VersionInfo_of_serialization (VersionInfo_serialize v) =
      \<lparr> vi_valid = True, vi_versionMajor = vi_versionMajor v, vi_versionMinor = vi_versionMinor v, vi_versionPatch = vi_versionPatch v,
         vi_versionTweak = vi_versionTweak v, vi_buildDateString = take BUILD_DATE_STRING_SIZE (c_str (vi_buildDateString v)),
         vi_commitIdString = take COMMIT_ID_STRING_SIZE (c_str (vi_commitIdString v)) \<rparr>"
    unfolding VersionInfo_of_serialization_def extract_read_prefix [OF e] e by (simp add: read_u16_def read_string_def)
  then show ?thesis using assms by (simp add: version_ok_def c_str_id)
qed

text \<open>An application built from the same version is compatible at every level.\<close>

lemma checkCompatibility_refl: "version_ok v \<Longrightarrow> checkCompatibility v (VersionInfo_of_serialization (VersionInfo_serialize v)) level"
  by (cases level) (simp_all add: VersionInfo_roundtrip VersionInfo_eq_def)

subsection \<open>Serializations as entries of a message\<close>

text \<open>The characters of a serialization are digits, colons and the characters of the values.\<close>

lemma set_serializer: "set (serializer vs) \<subseteq> {c. is_digit c} \<union> {separator} \<union> (\<Union>v\<in>set vs. set (getString v))"
proof (induction vs)
  case (Cons v vs)
  then show ?case using toString_nat_digits [of _ "length (getString v)"] by (auto simp: Let_def)
qed simp

definition plain :: "string \<Rightarrow> bool" where
  "plain s \<longleftrightarrow> m_separator \<notin> set s \<and> NUL \<notin> set s"

lemma plain_entry: "plain s \<Longrightarrow> isValidEntry s" "plain s \<Longrightarrow> NUL \<notin> set s"
  by (simp_all add: plain_def isValidEntry_iff)

lemma plain_numbers [simp]: "plain (toString_nat n)" "plain (toString_int z)" "plain (IpcMessageTypeToString t)" "plain (IpcMessageErrorTypeToString e)"
  using toString_nat_entry [of n] toString_int_entry by (simp_all add: plain_def isValidEntry_iff IpcMessageTypeToString_def IpcMessageErrorTypeToString_def)

lemma plain_getString [simp]:
  "plain (getString (VString s)) \<longleftrightarrow> plain (c_str s)" "plain (getString (VU64 a))" "plain (getString (VU32 b))" "plain (getString (VU16 c))"
  "plain (getString (VU8 d))" "plain (getString (VBool f))" "plain (getString (VInt z))"
  by simp_all

lemma plain_Serialization_create: "\<forall>v\<in>set vs. plain (getString v) \<Longrightarrow> plain (Serialization_create vs)"
  using set_serializer [of vs] digit_ne_separator [of m_separator] digit_not_special [of NUL]
  by (auto simp: plain_def Serialization_create_def separator_def m_separator_def NUL_def)

lemma plain_c_str: "plain s \<Longrightarrow> plain (c_str s)"
  by (auto simp: plain_def c_str_def dest: set_takeWhileD)

lemma plain_options [simp]:
  "plain (po_nodeName p) \<Longrightarrow> plain (PublisherOptions_serialize p)" "plain (so_nodeName s) \<Longrightarrow> plain (SubscriberOptions_serialize s)"
  "plain (co_nodeName c) \<Longrightarrow> plain (ClientOptions_serialize c)" "plain (svo_nodeName v) \<Longrightarrow> plain (ServerOptions_serialize v)"
  "plain (PortConfigInfo_serialize i)" "plain (np_name n) \<Longrightarrow> plain (NodeProperty_serialize n)"
  "plain (vi_buildDateString w) \<Longrightarrow> plain (vi_commitIdString w) \<Longrightarrow> plain (VersionInfo_serialize w)"
  unfolding PublisherOptions_serialize_def SubscriberOptions_serialize_def ClientOptions_serialize_def ServerOptions_serialize_def
    PortConfigInfo_serialize_def NodeProperty_serialize_def VersionInfo_serialize_def
  by (intro plain_Serialization_create; simp add: plain_c_str)+

lemma plain_service_description [simp]:
  "plain (sd_serviceString sd) \<Longrightarrow> plain (sd_instanceString sd) \<Longrightarrow> plain (sd_eventString sd) \<Longrightarrow> plain (ServiceDescription_serialize sd)"
  unfolding ServiceDescription_serialize_def by (intro plain_Serialization_create) (auto simp: plain_c_str)

end
