(* ===== verification/Relative_Pointer.thy ===== *)
theory Relative_Pointer
  imports Prelude
begin

section \<open>Pointers in shared memory\<close>

text \<open>
  \<open>rp::PointerRepository\<close>, \<open>rp::BaseRelativePointer\<close>, \<open>rp::RelativePointer\<close>, \<open>rp::RelativePointerData\<close>,
  \<open>rp::relocatable_ptr\<close> and \<open>rp::AtomicRelocatablePointer\<close>. A shared memory segment is mapped at different addresses in
  the applications; a relative pointer is the identifier of the segment and the offset in it, and each
  application has a repository with the addresses of its segments. Pointers are the numbers the code casts them to, 0
  is \<open>nullptr\<close>. The static repository of an application is an argument of the operations that use it.
\<close>

subsection \<open>The repository\<close>

record segment_info =
  si_basePtr :: u64
  si_endPtr :: u64

record pointer_repository =
  pr_info :: "segment_info list"
  pr_maxRegistered :: u64

definition MIN_ID :: u64 where "MIN_ID = 1"
definition MAX_ID :: "u64 \<Rightarrow> u64" where "MAX_ID CAPACITY = CAPACITY - 1"
definition INVALID_ID :: u64 where "INVALID_ID = - 1"

abbreviation info_at :: "pointer_repository \<Rightarrow> u64 \<Rightarrow> segment_info" where
  "info_at R sid \<equiv> pr_info R ! unat sid"

definition PointerRepository_ctor :: "u64 \<Rightarrow> pointer_repository" where
  "PointerRepository_ctor CAPACITY =
     \<lparr> pr_info = replicate (unat CAPACITY) \<lparr> si_basePtr = 0, si_endPtr = 0 \<rparr>, pr_maxRegistered = 0 \<rparr>"

text \<open>The statements both overloads of \<open>registerPtr\<close> share.\<close>

definition set_segment :: "u64 \<Rightarrow> u64 \<Rightarrow> u64 \<Rightarrow> pointer_repository \<Rightarrow> pointer_repository" where
  "set_segment sid ptr sz R =
     R\<lparr> pr_info := (pr_info R)[unat sid := \<lparr> si_basePtr = ptr, si_endPtr = ptr + sz - 1 \<rparr>],
        pr_maxRegistered := (if sid > pr_maxRegistered R then sid else pr_maxRegistered R) \<rparr>"

definition registerPtr_id :: "u64 \<Rightarrow> u64 \<Rightarrow> u64 \<Rightarrow> u64 \<Rightarrow> pointer_repository \<Rightarrow> bool \<times> pointer_repository" where
  "registerPtr_id CAPACITY sid ptr sz R =
     (if sid > MAX_ID CAPACITY then (False, R)
      else if si_basePtr (info_at R sid) = 0 then (True, set_segment sid ptr sz R)
      else (False, R))"

text \<open>The identifiers of a counting loop.\<close>

definition ids_upto :: "u64 \<Rightarrow> u64 list" where
  "ids_upto n = map of_nat [1..<Suc (unat n)]"

fun register_loop :: "u64 list \<Rightarrow> u64 \<Rightarrow> u64 \<Rightarrow> pointer_repository \<Rightarrow> u64 \<times> pointer_repository" where
  "register_loop [] ptr sz R = (INVALID_ID, R)"
| "register_loop (sid # ids) ptr sz R =
     (if si_basePtr (info_at R sid) = 0 then (sid, set_segment sid ptr sz R) else register_loop ids ptr sz R)"

definition registerPtr :: "u64 \<Rightarrow> u64 \<Rightarrow> u64 \<Rightarrow> pointer_repository \<Rightarrow> u64 \<times> pointer_repository" where
  "registerPtr CAPACITY ptr sz R = register_loop (ids_upto (MAX_ID CAPACITY)) ptr sz R"

definition unregisterPtr :: "u64 \<Rightarrow> u64 \<Rightarrow> pointer_repository \<Rightarrow> bool \<times> pointer_repository" where
  "unregisterPtr CAPACITY sid R =
     (if sid \<le> MAX_ID CAPACITY \<and> sid \<ge> MIN_ID \<and> si_basePtr (info_at R sid) \<noteq> 0
      then (True, R\<lparr> pr_info := (pr_info R)[unat sid := (info_at R sid)\<lparr> si_basePtr := 0 \<rparr>] \<rparr>)
      else (False, R))"

definition unregisterAll :: "pointer_repository \<Rightarrow> pointer_repository" where
  "unregisterAll R = \<lparr> pr_info = map (\<lambda>info. info\<lparr> si_basePtr := 0 \<rparr>) (pr_info R), pr_maxRegistered = 0 \<rparr>"

definition PointerRepository_getBasePtr :: "u64 \<Rightarrow> u64 \<Rightarrow> pointer_repository \<Rightarrow> u64" where
  "PointerRepository_getBasePtr CAPACITY sid R = (if sid \<le> MAX_ID CAPACITY \<and> sid \<ge> MIN_ID then si_basePtr (info_at R sid) else 0)"

fun search_loop :: "u64 list \<Rightarrow> u64 \<Rightarrow> pointer_repository \<Rightarrow> u64" where
  "search_loop [] ptr R = 0"
| "search_loop (sid # ids) ptr R =
     (if ptr \<ge> si_basePtr (info_at R sid) \<and> ptr \<le> si_endPtr (info_at R sid) then sid else search_loop ids ptr R)"

definition PointerRepository_searchId :: "u64 \<Rightarrow> pointer_repository \<Rightarrow> u64" where
  "PointerRepository_searchId ptr R = search_loop (ids_upto (pr_maxRegistered R)) ptr R"

definition PointerRepository_isValid :: "u64 \<Rightarrow> bool" where
  "PointerRepository_isValid sid \<longleftrightarrow> sid \<noteq> INVALID_ID"

subsection \<open>Relative pointers\<close>

record base_relative_pointer =
  brp_id :: u64
  brp_offset :: u64

definition NULL_POINTER_ID :: u64 where "NULL_POINTER_ID = - 1"
definition NULL_POINTER_OFFSET :: u64 where "NULL_POINTER_OFFSET = - 1"

definition getOffset :: "u64 \<Rightarrow> pointer_repository \<Rightarrow> u64 \<Rightarrow> u64 \<Rightarrow> u64" where
  "getOffset CAPACITY R sid ptr =
     (if sid = NULL_POINTER_ID then NULL_POINTER_OFFSET else ptr - PointerRepository_getBasePtr CAPACITY sid R)"

definition getPtr :: "u64 \<Rightarrow> pointer_repository \<Rightarrow> u64 \<Rightarrow> u64 \<Rightarrow> u64" where
  "getPtr CAPACITY R sid offset =
     (if offset = NULL_POINTER_OFFSET then 0 else offset + PointerRepository_getBasePtr CAPACITY sid R)"

definition BaseRelativePointer_searchId :: "pointer_repository \<Rightarrow> u64 \<Rightarrow> u64" where
  "BaseRelativePointer_searchId R ptr = (if ptr = 0 then NULL_POINTER_ID else PointerRepository_searchId ptr R)"

definition BaseRelativePointer_ctor_id :: "u64 \<Rightarrow> pointer_repository \<Rightarrow> u64 \<Rightarrow> u64 \<Rightarrow> base_relative_pointer" where
  "BaseRelativePointer_ctor_id CAPACITY R ptr sid = \<lparr> brp_id = sid, brp_offset = getOffset CAPACITY R sid ptr \<rparr>"

definition BaseRelativePointer_ctor_offset :: "u64 \<Rightarrow> u64 \<Rightarrow> base_relative_pointer" where
  "BaseRelativePointer_ctor_offset offset sid = \<lparr> brp_id = sid, brp_offset = offset \<rparr>"

definition BaseRelativePointer_ctor :: "u64 \<Rightarrow> pointer_repository \<Rightarrow> u64 \<Rightarrow> base_relative_pointer" where
  "BaseRelativePointer_ctor CAPACITY R ptr =
     (let sid = BaseRelativePointer_searchId R ptr in \<lparr> brp_id = sid, brp_offset = getOffset CAPACITY R sid ptr \<rparr>)"

definition BaseRelativePointer_get :: "u64 \<Rightarrow> pointer_repository \<Rightarrow> base_relative_pointer \<Rightarrow> u64" where
  "BaseRelativePointer_get CAPACITY R p = getPtr CAPACITY R (brp_id p) (brp_offset p)"

definition RelativePointer_eq :: "u64 \<Rightarrow> pointer_repository \<Rightarrow> base_relative_pointer \<Rightarrow> u64 \<Rightarrow> bool" where
  "RelativePointer_eq CAPACITY R p ptr \<longleftrightarrow> ptr = BaseRelativePointer_get CAPACITY R p"

subsection \<open>The packed form\<close>

text \<open>\<open>RelativePointerData\<close>: the identifier in the lower 16 bits, the offset in the upper 48 bits of one word.\<close>

definition ID_RANGE :: u16 where "ID_RANGE = - 1"
definition MAX_VALID_ID :: u16 where "MAX_VALID_ID = ID_RANGE - 1"
definition OFFSET_RANGE :: u64 where "OFFSET_RANGE = push_bit 48 1 - 1"
definition MAX_VALID_OFFSET :: u64 where "MAX_VALID_OFFSET = OFFSET_RANGE - 1"
definition LOGICAL_NULLPTR :: u64 where "LOGICAL_NULLPTR = push_bit 16 OFFSET_RANGE OR ucast ID_RANGE"

definition RelativePointerData_ctor :: "u16 \<Rightarrow> u64 \<Rightarrow> u64" where
  "RelativePointerData_ctor sid offset =
     (if sid > MAX_VALID_ID \<or> offset > MAX_VALID_OFFSET then LOGICAL_NULLPTR else ucast sid OR push_bit 16 offset)"

definition RelativePointerData_id :: "u64 \<Rightarrow> u16" where
  "RelativePointerData_id idAndOffset = ucast (idAndOffset AND ucast ID_RANGE)"

definition RelativePointerData_offset :: "u64 \<Rightarrow> u64" where
  "RelativePointerData_offset idAndOffset = drop_bit 16 idAndOffset AND OFFSET_RANGE"

definition RelativePointerData_isLogicalNullptr :: "u64 \<Rightarrow> bool" where
  "RelativePointerData_isLogicalNullptr idAndOffset \<longleftrightarrow> idAndOffset = LOGICAL_NULLPTR"

subsection \<open>Relocatable pointers\<close>

text \<open>The pointer and its target are in the same block of memory; \<open>self\<close> is the address of the pointer object.\<close>

definition relocatable_NULL_OFFSET :: u64 where "relocatable_NULL_OFFSET = 1"

definition to_offset :: "u64 \<Rightarrow> u64 \<Rightarrow> u64" where
  "to_offset self ptr = (if ptr = 0 then relocatable_NULL_OFFSET else ptr - self)"

definition from_offset :: "u64 \<Rightarrow> u64 \<Rightarrow> u64" where
  "from_offset self offset = (if offset = relocatable_NULL_OFFSET then 0 else offset + self)"

text \<open>Copying: \<open>to_offset(other.get())\<close> at the address of the copy.\<close>

definition relocatable_copy :: "u64 \<Rightarrow> u64 \<Rightarrow> u64 \<Rightarrow> u64" where
  "relocatable_copy self other offset = to_offset self (from_offset other offset)"

definition relocatable_move :: "u64 \<Rightarrow> u64 \<Rightarrow> u64 \<Rightarrow> u64 \<times> u64" where
  "relocatable_move self other offset = (to_offset self (from_offset other offset), relocatable_NULL_OFFSET)"

definition relocatable_eq :: "u64 \<Rightarrow> u64 \<Rightarrow> u64 \<Rightarrow> u64 \<Rightarrow> bool" where
  "relocatable_eq self offset other offset' \<longleftrightarrow> from_offset self offset = from_offset other offset'"

definition Atomic_computeOffset :: "u64 \<Rightarrow> u64 \<Rightarrow> u64" where
  "Atomic_computeOffset self ptr = (if ptr = 0 then NULL_POINTER_OFFSET else self - ptr)"

definition Atomic_computeRawPtr :: "u64 \<Rightarrow> u64 \<Rightarrow> u64" where
  "Atomic_computeRawPtr self offset = (if offset = NULL_POINTER_OFFSET then 0 else self - offset)"

lemma relocatable_get: "p - self \<noteq> 1 \<Longrightarrow> from_offset self (to_offset self p) = p"
  by (simp add: from_offset_def to_offset_def relocatable_NULL_OFFSET_def)

text \<open>A block of memory with the pointer and its target is moved by \<open>delta\<close>.\<close>

lemma relocatable_relocate:
  "p \<noteq> 0 \<Longrightarrow> p - self \<noteq> 1 \<Longrightarrow> from_offset (self + delta) (to_offset self p) = p + delta"
  by (simp add: from_offset_def to_offset_def relocatable_NULL_OFFSET_def algebra_simps)

lemma relocatable_copy_get:
  "from_offset other offset - self \<noteq> 1 \<Longrightarrow> from_offset self (relocatable_copy self other offset) = from_offset other offset"
  by (simp add: relocatable_copy_def relocatable_get)

lemma Atomic_relocate:
  "p \<noteq> 0 \<Longrightarrow> self - p \<noteq> - 1 \<Longrightarrow> Atomic_computeRawPtr (self + delta) (Atomic_computeOffset self p) = p + delta"
  by (simp add: Atomic_computeRawPtr_def Atomic_computeOffset_def NULL_POINTER_OFFSET_def)

subsection \<open>Packing\<close>

lemma LOGICAL_NULLPTR_eq: "LOGICAL_NULLPTR = - 1" by code_simp

lemma OFFSET_RANGE_eq: "OFFSET_RANGE = mask 48" by code_simp

lemma RelativePointerData_roundtrip:
  assumes "sid \<le> MAX_VALID_ID" "offset \<le> MAX_VALID_OFFSET"
  shows "RelativePointerData_id (RelativePointerData_ctor sid offset) = sid"
    "RelativePointerData_offset (RelativePointerData_ctor sid offset) = offset"
    "\<not> RelativePointerData_isLogicalNullptr (RelativePointerData_ctor sid offset)"
proof -
  let ?d = "ucast sid OR push_bit 16 offset :: u64"
  have d: "RelativePointerData_ctor sid offset = ?d" using assms by (auto simp: RelativePointerData_ctor_def)
  have "offset < 2 ^ 48" using assms(2) by (simp add: MAX_VALID_OFFSET_def OFFSET_RANGE_eq mask_eq_exp_minus_1 word_le_nat_alt word_less_nat_alt)
  then have off: "take_bit 48 offset = offset" by (simp add: word_unat_eq_iff unsigned_take_bit_eq take_bit_nat_eq_self_iff word_less_nat_alt)
  then have hi: "bit offset n \<Longrightarrow> n < 48" for n by (metis bit_take_bit_iff)
  show *: "RelativePointerData_id (RelativePointerData_ctor sid offset) = sid"
    unfolding d by (rule bit_word_eqI) (auto simp: RelativePointerData_id_def ID_RANGE_def bit_simps)
  show "RelativePointerData_offset (RelativePointerData_ctor sid offset) = offset"
    unfolding d by (rule bit_word_eqI) (auto simp: RelativePointerData_offset_def OFFSET_RANGE_eq bit_simps dest: hi bit_imp_le_length)
  have "RelativePointerData_id (- 1) = - 1" by code_simp
  moreover have "sid \<noteq> - 1" using assms(1) by (auto simp: MAX_VALID_ID_def ID_RANGE_def word_le_nat_alt unsigned_minus_1_eq_mask mask_eq_exp_minus_1)
  ultimately show "\<not> RelativePointerData_isLogicalNullptr (RelativePointerData_ctor sid offset)"
    using * by (auto simp: RelativePointerData_isLogicalNullptr_def LOGICAL_NULLPTR_eq)
qed

subsection \<open>What a repository stands for\<close>

text \<open>
  The mapping of an application: for each registered identifier the address and the size of its segment. A new segment has to lie in
  the address space, apart from the others.
\<close>

type_synonym segments = "u64 \<rightharpoonup> u64 \<times> u64"

definition segment :: "u64 \<times> u64 \<Rightarrow> nat set" where
  "segment s = {unat (fst s)..<unat (fst s) + unat (snd s)}"

definition segment_fits :: "u64 \<Rightarrow> u64 \<Rightarrow> segments \<Rightarrow> bool" where
  "segment_fits ptr sz m \<longleftrightarrow> ptr \<noteq> 0 \<and> sz \<noteq> 0 \<and> unat ptr + unat sz < 2 ^ 64 \<and> (\<forall>s\<in>ran m. segment s \<inter> segment (ptr, sz) = {})"

text \<open>An application whose segments are registered, with a given or with a new identifier, and unregistered, in any order.\<close>

inductive registered :: "u64 \<Rightarrow> segments \<Rightarrow> pointer_repository \<Rightarrow> bool" for CAPACITY where
  start: "registered CAPACITY Map.empty (PointerRepository_ctor CAPACITY)"
| with_id: "registered CAPACITY m R \<Longrightarrow> segment_fits ptr sz m \<Longrightarrow> sid \<noteq> 0 \<Longrightarrow> registerPtr_id CAPACITY sid ptr sz R = (True, R') \<Longrightarrow>
    registered CAPACITY (m(sid \<mapsto> (ptr, sz))) R'"
| new_id: "registered CAPACITY m R \<Longrightarrow> segment_fits ptr sz m \<Longrightarrow> registerPtr CAPACITY ptr sz R = (sid, R') \<Longrightarrow> sid \<noteq> INVALID_ID \<Longrightarrow>
    registered CAPACITY (m(sid \<mapsto> (ptr, sz))) R'"
| unregister: "registered CAPACITY m R \<Longrightarrow> unregisterPtr CAPACITY sid R = (True, R') \<Longrightarrow> registered CAPACITY (m(sid := None)) R'"
| unregister_all: "registered CAPACITY m R \<Longrightarrow> registered CAPACITY Map.empty (unregisterAll R)"

definition info_of :: "u64 \<times> u64 \<Rightarrow> segment_info" where
  "info_of s = \<lparr> si_basePtr = fst s, si_endPtr = fst s + snd s - 1 \<rparr>"

text \<open>The entry of an identifier that is not registered has no first address; its last address may be a leftover.\<close>

definition info_matches :: "segment_info \<Rightarrow> (u64 \<times> u64) option \<Rightarrow> bool" where
  "info_matches info s \<longleftrightarrow> (case s of None \<Rightarrow> si_basePtr info = 0 | Some t \<Rightarrow> info = info_of t)"

definition represents :: "u64 \<Rightarrow> segments \<Rightarrow> pointer_repository \<Rightarrow> bool" where
  "represents CAPACITY m R \<longleftrightarrow> length (pr_info R) = unat CAPACITY \<and> m 0 = None \<and>
     (\<forall>sid. unat sid < unat CAPACITY \<longrightarrow> info_matches (info_at R sid) (m sid)) \<and>
     (\<forall>sid s. m sid = Some s \<longrightarrow> unat sid < unat CAPACITY \<and> sid \<le> pr_maxRegistered R \<and> fst s \<noteq> 0 \<and> snd s \<noteq> 0 \<and> unat (fst s) + unat (snd s) < 2 ^ 64) \<and>
     unat (pr_maxRegistered R) < unat CAPACITY \<and>
     (\<forall>i j s t. m i = Some s \<longrightarrow> m j = Some t \<longrightarrow> i \<noteq> j \<longrightarrow> segment s \<inter> segment t = {})"

lemma le_MAX_ID: "0 < CAPACITY \<Longrightarrow> sid \<le> MAX_ID CAPACITY \<longleftrightarrow> unat sid < unat CAPACITY"
  by (simp add: MAX_ID_def word_le_nat_alt unat_sub_no_wrap word_less_nat_alt)
     (metis One_nat_def Suc_pred le_simps(2))

lemma base_of [simp]: "si_basePtr (info_of s) = fst s"
  by (simp add: info_of_def)

lemma representsD:
  assumes "represents CAPACITY m R" "m sid = Some s"
  shows "unat sid < unat CAPACITY" "sid \<noteq> 0" "sid \<le> pr_maxRegistered R" "fst s \<noteq> 0" "snd s \<noteq> 0" "unat (fst s) + unat (snd s) < 2 ^ 64"
    "info_at R sid = info_of s"
proof -
  show *: "unat sid < unat CAPACITY" "sid \<le> pr_maxRegistered R" "fst s \<noteq> 0" "snd s \<noteq> 0" "unat (fst s) + unat (snd s) < 2 ^ 64"
    using assms unfolding represents_def by blast+
  have "m 0 = None" "\<forall>i. unat i < unat CAPACITY \<longrightarrow> info_matches (info_at R i) (m i)" using assms(1) unfolding represents_def by blast+
  then show "sid \<noteq> 0" "info_at R sid = info_of s" using assms(2) *(1) by (auto simp: info_matches_def)
qed

lemma represents_start: "0 < CAPACITY \<Longrightarrow> represents CAPACITY Map.empty (PointerRepository_ctor CAPACITY)"
  by (simp add: represents_def PointerRepository_ctor_def info_matches_def word_less_nat_alt)

lemma represents_free:
  assumes "represents CAPACITY m R" "unat sid < unat CAPACITY" "si_basePtr (info_at R sid) = 0"
  shows "m sid = None"
  using assms representsD(4,7) [OF assms(1), of sid] by (cases "m sid") auto

lemma represents_set:
  assumes rep: "represents CAPACITY m R" and fit: "segment_fits ptr sz m" and sid: "sid \<noteq> 0" "unat sid < unat CAPACITY" and free: "m sid = None"
  shows "represents CAPACITY (m(sid \<mapsto> (ptr, sz))) (set_segment sid ptr sz R)"
proof -
  have dis: "segment s \<inter> segment (ptr, sz) = {}" if "m i = Some s" for i s using fit that unfolding segment_fits_def by (blast intro: ranI)
  have "info_matches (info_at (set_segment sid ptr sz R) i) ((m(sid \<mapsto> (ptr, sz))) i)" if "unat i < unat CAPACITY" for i
    using rep sid that by (auto simp: represents_def set_segment_def info_of_def info_matches_def nth_list_update word_unat_eq_iff)
  moreover have "segment s \<inter> segment t = {}"
    if "(m(sid \<mapsto> (ptr, sz))) i = Some s" "(m(sid \<mapsto> (ptr, sz))) j = Some t" "i \<noteq> j" for i j s t
  proof (cases "i = sid \<or> j = sid")
    case True
    then show ?thesis
    proof
      assume "i = sid"
      then have "s = (ptr, sz)" "m j = Some t" using that by auto
      then show ?thesis using dis [of j t] by blast
    next
      assume "j = sid"
      then have "t = (ptr, sz)" "m i = Some s" using that by auto
      then show ?thesis using dis [of i s] by blast
    qed
  next
    case False
    then have "m i = Some s" "m j = Some t" using that by auto
    then show ?thesis using rep that(3) unfolding represents_def by blast
  qed
  moreover have "unat i < unat CAPACITY \<and> i \<le> pr_maxRegistered (set_segment sid ptr sz R) \<and> fst s \<noteq> 0 \<and> snd s \<noteq> 0 \<and> unat (fst s) + unat (snd s) < 2 ^ 64"
    if "(m(sid \<mapsto> (ptr, sz))) i = Some s" for i s
  proof (cases "i = sid")
    case True then show ?thesis using that fit sid by (auto simp: segment_fits_def set_segment_def)
  next
    case False
    then have "m i = Some s" using that by simp
    note D = representsD [OF rep this]
    show ?thesis using D(1,3-6) by (auto simp: set_segment_def)
  qed
  moreover have "length (pr_info R) = unat CAPACITY" "unat (pr_maxRegistered R) < unat CAPACITY" "m 0 = None" using rep unfolding represents_def by blast+
  ultimately show ?thesis
    using sid unfolding represents_def by (simp add: set_segment_def)
qed

lemma represents_unset:
  assumes rep: "represents CAPACITY m R" and sid: "unat sid < unat CAPACITY"
  shows "represents CAPACITY (m(sid := None)) (R\<lparr> pr_info := (pr_info R)[unat sid := (info_at R sid)\<lparr> si_basePtr := 0 \<rparr>] \<rparr>)"
proof -
  have "info_matches ((pr_info R)[unat sid := (info_at R sid)\<lparr> si_basePtr := 0 \<rparr>] ! unat i) ((m(sid := None)) i)" if "unat i < unat CAPACITY" for i
    using rep sid that by (auto simp: represents_def info_matches_def nth_list_update word_unat_eq_iff)
  moreover have "unat i < unat CAPACITY \<and> i \<le> pr_maxRegistered R \<and> fst t \<noteq> 0 \<and> snd t \<noteq> 0 \<and> unat (fst t) + unat (snd t) < 2 ^ 64"
    if "(m(sid := None)) i = Some t" for i t
    using that representsD [OF rep, of i t] by (auto split: if_splits)
  moreover have "segment u \<inter> segment t = {}" if "(m(sid := None)) i = Some u" "(m(sid := None)) j = Some t" "i \<noteq> j" for i j u t
    using rep that unfolding represents_def by (metis fun_upd_apply option.distinct(1))
  moreover have "length (pr_info R) = unat CAPACITY" "unat (pr_maxRegistered R) < unat CAPACITY" "m 0 = None" using rep unfolding represents_def by blast+
  ultimately show ?thesis unfolding represents_def by simp
qed

lemma represents_unset_all:
  assumes "represents CAPACITY m R"
  shows "represents CAPACITY Map.empty (unregisterAll R)"
  using assms by (auto simp: represents_def unregisterAll_def info_matches_def)

lemma register_loop_result:
  assumes "register_loop ids ptr sz R = (sid, R')" "sid \<noteq> INVALID_ID"
  shows "sid \<in> set ids \<and> si_basePtr (info_at R sid) = 0 \<and> R' = set_segment sid ptr sz R"
  using assms by (induction ids) (auto split: if_splits)

lemma in_ids_upto: "sid \<in> set (ids_upto n) \<longleftrightarrow> sid \<noteq> 0 \<and> sid \<le> n"
proof
  assume "sid \<in> set (ids_upto n)"
  then obtain k where k: "sid = of_nat k" "1 \<le> k" "k \<le> unat n" by (auto simp: ids_upto_def)
  then have "unat sid = k" using u64_unat_less [of n] by (simp add: unat_of_nat_u64)
  then show "sid \<noteq> 0 \<and> sid \<le> n" using k by (auto simp: word_le_nat_alt)
next
  assume "sid \<noteq> 0 \<and> sid \<le> n"
  then have "unat sid \<in> set [1..<Suc (unat n)]" by (auto simp: word_le_nat_alt unat_gt_0 Suc_le_eq unat_eq_0)
  then have "of_nat (unat sid) \<in> set (ids_upto n)" unfolding ids_upto_def by (metis image_eqI list.set_map)
  then show "sid \<in> set (ids_upto n)" by simp
qed

lemma registered_represents:
  assumes "registered CAPACITY m R" "0 < CAPACITY"
  shows "represents CAPACITY m R"
  using assms
proof (induction rule: registered.induct)
  case start then show ?case by (rule represents_start)
next
  case (with_id m R ptr sz sid R')
  then have "represents CAPACITY m R" "sid \<le> MAX_ID CAPACITY" "si_basePtr (info_at R sid) = 0" "R' = set_segment sid ptr sz R"
    by (auto simp: registerPtr_id_def split: if_splits)
  with with_id show ?case by (metis represents_set represents_free le_MAX_ID)
next
  case (new_id m R ptr sz sid R')
  then have "represents CAPACITY m R" "sid \<in> set (ids_upto (MAX_ID CAPACITY))" "si_basePtr (info_at R sid) = 0" "R' = set_segment sid ptr sz R"
    by (auto simp: registerPtr_def dest: register_loop_result)
  with new_id show ?case by (metis represents_set represents_free le_MAX_ID in_ids_upto)
next
  case (unregister m R sid R')
  then have "represents CAPACITY m R" "unat sid < unat CAPACITY"
    "R' = R\<lparr> pr_info := (pr_info R)[unat sid := (info_at R sid)\<lparr> si_basePtr := 0 \<rparr>] \<rparr>"
    by (auto simp: unregisterPtr_def le_MAX_ID split: if_splits)
  then show ?case by (metis represents_unset)
next
  case (unregister_all m R)
  then show ?case by (simp add: represents_unset_all)
qed

text \<open>The search finds the segment of an address.\<close>

lemma in_segment:
  assumes "ptr \<noteq> 0" "sz \<noteq> 0" "unat ptr + unat sz < 2 ^ 64"
  shows "p \<ge> ptr \<and> p \<le> ptr + sz - 1 \<longleftrightarrow> unat p \<in> segment (ptr, sz)"
proof -
  have "0 < unat sz" using assms(2) by (simp add: unat_gt_0)
  then have "unat (ptr + sz - 1) = unat ptr + unat sz - 1"
    using assms by (simp add: unat_sub_no_wrap unat_add_no_wrap)
  then show ?thesis using \<open>0 < unat sz\<close> by (auto simp: segment_def word_le_nat_alt)
qed

text \<open>
  An identifier that is not registered any more can cover addresses of other segments, if it is smaller than theirs: the first address of its
  entry is 0, the last one is that of the segment it had.
\<close>

definition captured :: "pointer_repository \<Rightarrow> u64 \<Rightarrow> u64 \<Rightarrow> bool" where
  "captured R sid p \<longleftrightarrow> (\<exists>i. i \<noteq> 0 \<and> i < sid \<and> si_basePtr (info_at R i) = 0 \<and> p \<le> si_endPtr (info_at R i))"

definition covers :: "pointer_repository \<Rightarrow> u64 \<Rightarrow> u64 \<Rightarrow> bool" where
  "covers R p i \<longleftrightarrow> p \<ge> si_basePtr (info_at R i) \<and> p \<le> si_endPtr (info_at R i)"

lemma search_loop_first: "search_loop (is @ i # js) p R = i" if "covers R p i" "\<forall>j\<in>set is. \<not> covers R p j"
  using that by (induction "is") (auto simp: covers_def)

lemma search_loop_covers: "search_loop is p R \<in> set is \<and> covers R p (search_loop is p R)" if "\<exists>j\<in>set is. covers R p j"
  using that by (induction "is") (auto simp: covers_def)

lemma ids_upto_split:
  assumes "sid \<noteq> 0" "sid \<le> n"
  obtains post where "ids_upto n = ids_upto (sid - 1) @ sid # post"
proof -
  have u: "0 < unat sid" "unat sid \<le> unat n" using assms by (simp_all add: word_le_nat_alt unat_gt_0)
  have "unat (sid - 1) = unat sid - 1" using u(1) by (simp add: unat_sub_no_wrap)
  then have "Suc (unat (sid - 1)) = unat sid" using u(1) by simp
  moreover have "[1..<Suc (unat n)] = [1..<unat sid] @ unat sid # [Suc (unat sid)..<Suc (unat n)]"
    using u upt_add_eq_append [of 1 "unat sid" "Suc (unat n) - unat sid"] by (simp add: upt_conv_Cons Suc_diff_le del: upt_Suc)
  ultimately have "ids_upto n = ids_upto (sid - 1) @ sid # map of_nat [Suc (unat sid)..<Suc (unat n)]"
    by (simp add: ids_upto_def)
  then show thesis by (rule that)
qed

lemma in_ids_below: "i \<in> set (ids_upto (sid - 1)) \<longleftrightarrow> i \<noteq> 0 \<and> i < sid" if "sid \<noteq> 0"
proof -
  have "unat (sid - 1) = unat sid - 1" "0 < unat sid" using that by (simp_all add: unat_sub_no_wrap unat_gt_0 Suc_le_eq)
  then show ?thesis by (auto simp: in_ids_upto word_le_nat_alt word_less_nat_alt)
qed

lemma covers_registered:
  assumes "represents CAPACITY m R" "m i = Some t"
  shows "covers R p i \<longleftrightarrow> unat p \<in> segment t"
proof -
  note D = representsD [OF assms]
  show ?thesis using in_segment [OF D(4-6), of p] by (simp add: covers_def D(7) info_of_def)
qed

text \<open>The search finds the segment of an address, unless an identifier without a segment captures it.\<close>

lemma searchId_registered:
  assumes rep: "represents CAPACITY m R" and p: "p \<noteq> 0" "m sid = Some s" "unat p \<in> segment s"
  shows "BaseRelativePointer_searchId R p = sid \<longleftrightarrow> \<not> captured R sid p"
proof -
  note D = representsD [OF rep p(2)]
  obtain post where split: "ids_upto (pr_maxRegistered R) = ids_upto (sid - 1) @ sid # post" using D(2,3) by (rule ids_upto_split)
  have sid: "covers R p sid" using covers_registered [OF rep p(2)] p(3) by simp
  have "i = sid" if "m i = Some t" "unat p \<in> segment t" for i t
    using rep p(2,3) that unfolding represents_def by (metis disjoint_iff)
  then have other: "\<not> covers R p i" if "m i = Some t" "i \<noteq> sid" for i t using that covers_registered [OF rep that(1)] by blast
  have below: "covers R p i \<longleftrightarrow> si_basePtr (info_at R i) = 0 \<and> p \<le> si_endPtr (info_at R i)" if i: "i < sid" for i
  proof (cases "m i")
    case None
    have "unat i < unat CAPACITY" using i D(1) by (simp add: word_less_nat_alt)
    then have "info_matches (info_at R i) (m i)" using rep by (simp add: represents_def)
    then show ?thesis using None by (simp add: info_matches_def covers_def)
  next
    case (Some t)
    then show ?thesis using other [OF Some] representsD(4,7) [OF rep Some] i by auto
  qed
  have cap: "captured R sid p \<longleftrightarrow> (\<exists>i\<in>set (ids_upto (sid - 1)). covers R p i)"
    using below by (auto simp: captured_def in_ids_below [OF D(2)])
  have "search_loop (ids_upto (pr_maxRegistered R)) p R = sid" if "\<not> captured R sid p"
    unfolding split using that sid cap by (intro search_loop_first) auto
  moreover have "search_loop (ids_upto (pr_maxRegistered R)) p R \<noteq> sid" if c: "captured R sid p"
  proof -
    have "search_loop (xs @ ys) p R = search_loop xs p R" if "\<exists>j\<in>set xs. covers R p j" for xs ys
      using that by (induction xs) (auto simp: covers_def)
    then have "search_loop (ids_upto (pr_maxRegistered R)) p R = search_loop (ids_upto (sid - 1)) p R"
      unfolding split using c cap by blast
    moreover have "search_loop (ids_upto (sid - 1)) p R < sid"
      using search_loop_covers [of "ids_upto (sid - 1)" R p] c cap in_ids_below [OF D(2)] by blast
    ultimately show ?thesis by simp
  qed
  ultimately show ?thesis using p(1) by (auto simp: BaseRelativePointer_searchId_def PointerRepository_searchId_def)
qed

text \<open>As long as nothing was unregistered, nothing is captured.\<close>

definition no_leftovers :: "pointer_repository \<Rightarrow> bool" where
  "no_leftovers R \<longleftrightarrow> (\<forall>info\<in>set (pr_info R). si_basePtr info = 0 \<longrightarrow> si_endPtr info = 0)"

lemma no_leftovers_ctor: "no_leftovers (PointerRepository_ctor CAPACITY)"
  by (simp add: no_leftovers_def PointerRepository_ctor_def)

lemma no_leftovers_set: "no_leftovers R \<Longrightarrow> ptr \<noteq> 0 \<Longrightarrow> no_leftovers (set_segment sid ptr sz R)"
  by (auto simp: no_leftovers_def set_segment_def dest!: set_update_subset_insert [THEN subsetD])

lemma no_leftovers_not_captured:
  assumes "no_leftovers R" "represents CAPACITY m R" "m sid = Some s" "p \<noteq> 0"
  shows "\<not> captured R sid p"
proof
  assume "captured R sid p"
  then obtain i where i: "i < sid" "si_basePtr (info_at R i) = 0" "p \<le> si_endPtr (info_at R i)" by (auto simp: captured_def)
  have "unat i < length (pr_info R)" using i(1) representsD(1) [OF assms(2,3)] assms(2) by (simp add: represents_def word_less_nat_alt)
  then have "si_endPtr (info_at R i) = 0" using assms(1) i(2) by (simp add: no_leftovers_def)
  then show False using i(3) assms(4) by simp
qed

lemma getBasePtr_registered:
  assumes "represents CAPACITY m R" "m sid = Some s" "0 < CAPACITY"
  shows "PointerRepository_getBasePtr CAPACITY sid R = fst s"
proof -
  have "unat sid < unat CAPACITY" "sid \<noteq> 0" "info_at R sid = info_of s" using representsD [OF assms(1,2)] by blast+
  moreover have "sid \<ge> MIN_ID" using \<open>sid \<noteq> 0\<close> by (auto simp: MIN_ID_def word_le_nat_alt Suc_le_eq unat_gt_0)
  ultimately show ?thesis using assms(3) by (simp add: PointerRepository_getBasePtr_def le_MAX_ID)
qed

lemma null_pointer: "BaseRelativePointer_get CAPACITY R' (BaseRelativePointer_ctor CAPACITY R 0) = 0"
  by (simp add: BaseRelativePointer_get_def BaseRelativePointer_ctor_def BaseRelativePointer_searchId_def getOffset_def getPtr_def)

text \<open>The pointer that an application makes from an address in a registered segment, and the address another application makes from it.\<close>

lemma pointer_of_registered:
  assumes rep: "represents CAPACITY m R" and CAPACITY: "0 < CAPACITY" and a: "m sid = Some (a, n)" and k: "k < n"
  shows "a + k \<noteq> 0" "brp_id (BaseRelativePointer_ctor CAPACITY R (a + k)) = sid \<longleftrightarrow> \<not> captured R sid (a + k)"
    "\<not> captured R sid (a + k) \<Longrightarrow> BaseRelativePointer_ctor CAPACITY R (a + k) = \<lparr> brp_id = sid, brp_offset = k \<rparr>"
    "k \<noteq> NULL_POINTER_OFFSET"
proof -
  have s: "a \<noteq> 0" "unat a + unat n < 2 ^ 64" "unat sid < unat CAPACITY" using representsD [OF rep a] by simp_all
  have uk: "unat k < unat n" using k by (simp add: word_less_nat_alt)
  have ak: "unat (a + k) = unat a + unat k" using s uk by (simp add: unat_add_no_wrap)
  show nz: "a + k \<noteq> 0" using ak s(1) by (metis add_is_0 unat_0 unat_eq_zero)
  have "unat (a + k) \<in> segment (a, n)" using ak uk by (simp add: segment_def)
  then have sid: "BaseRelativePointer_searchId R (a + k) = sid \<longleftrightarrow> \<not> captured R sid (a + k)" by (rule searchId_registered [OF rep nz a])
  then show "brp_id (BaseRelativePointer_ctor CAPACITY R (a + k)) = sid \<longleftrightarrow> \<not> captured R sid (a + k)"
    by (simp add: BaseRelativePointer_ctor_def Let_def)
  have "sid \<noteq> NULL_POINTER_ID" using s(3) u64_unat_less [of CAPACITY] by (auto simp: NULL_POINTER_ID_def unsigned_minus_1_eq_mask mask_eq_exp_minus_1)
  then show "BaseRelativePointer_ctor CAPACITY R (a + k) = \<lparr> brp_id = sid, brp_offset = k \<rparr>" if "\<not> captured R sid (a + k)"
    using that sid getBasePtr_registered [OF rep a CAPACITY] by (simp add: BaseRelativePointer_ctor_def getOffset_def)
  show "k \<noteq> NULL_POINTER_OFFSET"
    using uk s(2) u64_unat_less [of n] by (auto simp: NULL_POINTER_OFFSET_def unsigned_minus_1_eq_mask mask_eq_exp_minus_1)
qed

lemma getPtr_registered:
  assumes "represents CAPACITY m R" "0 < CAPACITY" "m sid = Some (b, n)" "k \<noteq> NULL_POINTER_OFFSET"
  shows "getPtr CAPACITY R sid k = b + k"
  using getBasePtr_registered [OF assms(1,3,2)] assms(4) by (simp add: getPtr_def add.commute)

lemma packed_pointer:
  fixes sid :: u64
  assumes "sid < 65535" "k < 281474976710655"
  shows "RelativePointerData_id (RelativePointerData_ctor (ucast sid) k) = ucast sid" "RelativePointerData_offset (RelativePointerData_ctor (ucast sid) k) = k"
    "\<not> RelativePointerData_isLogicalNullptr (RelativePointerData_ctor (ucast sid) k)" "ucast (ucast sid :: u16) = sid"
proof -
  have u: "unat (ucast sid :: u16) = unat sid" using assms(1) by (simp add: unsigned_ucast_eq take_bit_nat_eq_self_iff word_less_nat_alt)
  have "(ucast sid :: u16) \<le> MAX_VALID_ID" "k \<le> MAX_VALID_OFFSET"
    using assms by (simp_all add: u word_le_nat_alt word_less_nat_alt MAX_VALID_ID_def ID_RANGE_def MAX_VALID_OFFSET_def OFFSET_RANGE_eq mask_eq_exp_minus_1)
  note r = RelativePointerData_roundtrip [OF this]
  show "RelativePointerData_id (RelativePointerData_ctor (ucast sid) k) = ucast sid" "RelativePointerData_offset (RelativePointerData_ctor (ucast sid) k) = k"
    "\<not> RelativePointerData_isLogicalNullptr (RelativePointerData_ctor (ucast sid) k)" by (fact r)+
  show "ucast (ucast sid :: u16) = sid"
    using assms(1) by (simp add: word_unat_eq_iff unsigned_ucast_eq unsigned_take_bit_eq take_bit_nat_eq_self_iff word_less_nat_alt)
qed

text \<open>
  The chunk pointer of a \<open>ShmSafeUnmanagedChunk\<close>, which is stored in shared memory: its constructor makes a relative pointer from the address of the chunk management,
  checks the ranges and packs it into one word; the other operations start with the inverse.
\<close>

definition ShmSafeUnmanagedChunk_pack :: "u64 \<Rightarrow> pointer_repository \<Rightarrow> u64 \<Rightarrow> u64 outcome" where
  "ShmSafeUnmanagedChunk_pack CAPACITY R chunkManagement =
     (if chunkManagement \<noteq> 0
      then (let ptr = BaseRelativePointer_ctor CAPACITY R chunkManagement
            in Expects (brp_id ptr \<le> ucast ID_RANGE)
                 (Expects (brp_offset ptr \<le> OFFSET_RANGE)
                    (Inr (RelativePointerData_ctor (ucast (brp_id ptr)) (brp_offset ptr)))))
      else Inr LOGICAL_NULLPTR)"

definition ShmSafeUnmanagedChunk_unpack :: "u64 \<Rightarrow> pointer_repository \<Rightarrow> u64 \<Rightarrow> u64" where
  "ShmSafeUnmanagedChunk_unpack CAPACITY R m_chunkManagement =
     (if RelativePointerData_isLogicalNullptr m_chunkManagement then 0
      else BaseRelativePointer_get CAPACITY R
             (BaseRelativePointer_ctor_offset (RelativePointerData_offset m_chunkManagement) (ucast (RelativePointerData_id m_chunkManagement))))"

text \<open>
  What one application packs, another one unpacks as the address of the same chunk management: up to the addresses of the segments the stored pointer is the pointer
  itself, as the operations on shared chunks take it.
\<close>

lemma unmanaged_chunk_unpacks:
  assumes A: "registered CAPACITY mA A" and B: "registered CAPACITY mB B" and CAPACITY: "0 < CAPACITY"
    and a: "mA sid = Some (a, n)" and b: "mB sid = Some (b, n')" and k: "k < n"
    and range: "\<not> captured A sid (a + k)" "sid < 65535" "k < 281474976710655"
  shows "\<exists>d. ShmSafeUnmanagedChunk_pack CAPACITY A (a + k) = Inr d \<and> \<not> RelativePointerData_isLogicalNullptr d \<and>
    ShmSafeUnmanagedChunk_unpack CAPACITY B d = b + k"
proof -
  note p = pointer_of_registered [OF registered_represents [OF A CAPACITY] CAPACITY a k] and d = packed_pointer [OF range(2,3)]
  have "ucast ID_RANGE = (65535 :: u64)" by code_simp
  then have "sid \<le> ucast ID_RANGE" using range(2) by simp
  moreover have "k \<le> OFFSET_RANGE" using range(3) by (simp add: OFFSET_RANGE_eq mask_eq_exp_minus_1 word_le_nat_alt word_less_nat_alt)
  ultimately show ?thesis
    using p(1) p(3) [OF range(1)] d getPtr_registered [OF registered_represents [OF B CAPACITY] CAPACITY b p(4)]
    by (simp add: ShmSafeUnmanagedChunk_pack_def ShmSafeUnmanagedChunk_unpack_def Let_def BaseRelativePointer_get_def BaseRelativePointer_ctor_offset_def)
qed

lemma empty_unmanaged_chunk_unpacks:
  "ShmSafeUnmanagedChunk_pack CAPACITY A 0 = Inr LOGICAL_NULLPTR" "ShmSafeUnmanagedChunk_unpack CAPACITY B LOGICAL_NULLPTR = 0"
  by (simp_all add: ShmSafeUnmanagedChunk_pack_def ShmSafeUnmanagedChunk_unpack_def RelativePointerData_isLogicalNullptr_def)

text \<open>
  C34: two applications register and unregister segments in any order. A pointer that one application makes from an address in one of its registered segments is
  in every other application where the segment is registered the pointer to the same byte of this segment, wherever it is mapped there, provided that no smaller identifier which was unregistered
  captures the address; if one does, the pointer gets a wrong identifier, and without unregistrations none does. The pointer survives the packed form of one machine word if
  its identifier is below 65535 and its offset below 281474976710655; and the null pointer stays the null pointer.
\<close>

theorem relative_pointer_translates:
  assumes A: "registered CAPACITY mA A" and B: "registered CAPACITY mB B" and CAPACITY: "0 < CAPACITY"
    and a: "mA sid = Some (a, n)" and b: "mB sid = Some (b, n')" and k: "k < n"
  shows "(\<not> captured A sid (a + k) \<longrightarrow> BaseRelativePointer_get CAPACITY B (BaseRelativePointer_ctor CAPACITY A (a + k)) = b + k) \<and>
    (captured A sid (a + k) \<longleftrightarrow> brp_id (BaseRelativePointer_ctor CAPACITY A (a + k)) \<noteq> sid) \<and>
    (no_leftovers A \<longrightarrow> \<not> captured A sid (a + k)) \<and>
    BaseRelativePointer_get CAPACITY B (BaseRelativePointer_ctor CAPACITY A 0) = 0 \<and>
    (let p = BaseRelativePointer_ctor CAPACITY A (a + k); d = RelativePointerData_ctor (ucast (brp_id p)) (brp_offset p)
     in \<not> captured A sid (a + k) \<and> sid < 65535 \<and> k < 281474976710655 \<longrightarrow>
       \<not> RelativePointerData_isLogicalNullptr d \<and>
       BaseRelativePointer_get CAPACITY B (BaseRelativePointer_ctor_offset (RelativePointerData_offset d) (ucast (RelativePointerData_id d))) = b + k)"
proof -
  note repA = registered_represents [OF A CAPACITY] and repB = registered_represents [OF B CAPACITY]
  note p = pointer_of_registered [OF repA CAPACITY a k] and get = getPtr_registered [OF repB CAPACITY b]
  have nc: "no_leftovers A \<longrightarrow> \<not> captured A sid (a + k)" using no_leftovers_not_captured [OF _ repA a p(1)] by blast
  show ?thesis
  proof (cases "captured A sid (a + k)")
    case True
    then show ?thesis using nc p(2) null_pointer by simp
  next
    case False
    then show ?thesis using p(3,4) get null_pointer packed_pointer [of sid k]
      by (auto simp add: Let_def BaseRelativePointer_get_def BaseRelativePointer_ctor_offset_def)
  qed
qed

text \<open>Two applications with the same two segments at different addresses: RouDi, which gives the identifiers, and another one.\<close>

definition example_roudi_repository :: pointer_repository where
  "example_roudi_repository = snd (registerPtr 4 0x30000 0x2000 (snd (registerPtr 4 0x10000 0x1000 (PointerRepository_ctor 4))))"

definition example_app_repository :: pointer_repository where
  "example_app_repository = snd (registerPtr_id 4 2 0x20000 0x2000 (snd (registerPtr_id 4 1 0x50000 0x1000 (PointerRepository_ctor 4))))"

lemma example_roudi_repository_registered:
  "registered 4 [1 \<mapsto> (0x10000, 0x1000), 2 \<mapsto> (0x30000, 0x2000)] example_roudi_repository"
proof -
  let ?R = "snd (registerPtr 4 0x10000 0x1000 (PointerRepository_ctor 4))"
  have "registered 4 [1 \<mapsto> (0x10000, 0x1000)] ?R"
    by (rule new_id [OF start]) (simp add: segment_fits_def, code_simp, code_simp)
  then show ?thesis unfolding example_roudi_repository_def
    by (rule new_id) (simp add: segment_fits_def segment_def, code_simp, code_simp)
qed

lemma example_app_repository_registered:
  "registered 4 [1 \<mapsto> (0x50000, 0x1000), 2 \<mapsto> (0x20000, 0x2000)] example_app_repository"
proof -
  let ?R = "snd (registerPtr_id 4 1 0x50000 0x1000 (PointerRepository_ctor 4))"
  have "registered 4 [1 \<mapsto> (0x50000, 0x1000)] ?R"
    by (rule with_id [OF start]) (simp add: segment_fits_def, simp, code_simp)
  then show ?thesis unfolding example_app_repository_def
    by (rule with_id) (simp add: segment_fits_def segment_def, simp, code_simp)
qed

lemma relative_pointer_translates_witness:
  "BaseRelativePointer_get 4 example_app_repository (BaseRelativePointer_ctor 4 example_roudi_repository 0x30010) = 0x20010"
proof -
  have "no_leftovers example_roudi_repository" by code_simp
  then show ?thesis
    using relative_pointer_translates [OF example_roudi_repository_registered example_app_repository_registered, of 2 "0x30000" "0x2000" "0x20000" "0x2000" "0x10"]
    by auto
qed

subsection \<open>Removed segments\<close>

text \<open>
  \<open>unregisterPtr\<close> and \<open>unregisterAll\<close> clear the first address of a segment and keep the last one: an identifier that is no longer registered then
  covers all addresses up to the end of the segment it had. An address in another segment below is found under the dead identifier, its offset is the raw address, and
  in another application the pointer leads to this raw address.
\<close>

definition example_unregistered :: pointer_repository where
  "example_unregistered = snd (unregisterPtr 4 1 (snd (registerPtr 4 0x10000 0x1000 (snd (registerPtr 4 0x30000 0x2000 (PointerRepository_ctor 4))))))"

lemma unregistered_segment_captures_addresses:
  "BaseRelativePointer_ctor 4 example_unregistered 0x10010 = \<lparr> brp_id = 1, brp_offset = 0x10010 \<rparr> \<and>
   BaseRelativePointer_get 4 (snd (registerPtr_id 4 2 0x70000 0x1000 (PointerRepository_ctor 4)))
     (BaseRelativePointer_ctor 4 example_unregistered 0x10010) = 0x10010"
  by code_simp

end
