(* ===== verification/Duration.thy ===== *)
theory Duration
  imports Prelude
begin

section \<open>Durations\<close>

text \<open>
  \<open>units::Duration\<close>: seconds in 64 and nanoseconds in 32 bits, with saturating arithmetic, and \<open>cxx::DeadlineTimer\<close>. The
  argument of a template over integer types is its value. The operations on floating-point numbers are not modelled.
\<close>

record duration =
  d_seconds :: u64
  d_nanoseconds :: u32

definition SECS_PER_MINUTE :: u32 where "SECS_PER_MINUTE = 60"
definition SECS_PER_HOUR :: u32 where "SECS_PER_HOUR = 3600"
definition HOURS_PER_DAY :: u32 where "HOURS_PER_DAY = 24"
definition MILLISECS_PER_SEC :: u32 where "MILLISECS_PER_SEC = 1000"
definition MICROSECS_PER_SEC :: u32 where "MICROSECS_PER_SEC = MILLISECS_PER_SEC * 1000"
definition NANOSECS_PER_MICROSEC :: u32 where "NANOSECS_PER_MICROSEC = 1000"
definition NANOSECS_PER_MILLISEC :: u32 where "NANOSECS_PER_MILLISEC = NANOSECS_PER_MICROSEC * 1000"
definition NANOSECS_PER_SEC :: u32 where "NANOSECS_PER_SEC = NANOSECS_PER_MILLISEC * 1000"

definition UINT64_MAX :: u64 where "UINT64_MAX = - 1"

subsection \<open>Construction\<close>

definition Duration_ctor :: "u64 \<Rightarrow> u32 \<Rightarrow> duration" where
  "Duration_ctor seconds nanoseconds =
     (if nanoseconds \<ge> NANOSECS_PER_SEC
      then (let additionalSeconds = nanoseconds div NANOSECS_PER_SEC
            in if UINT64_MAX - ucast additionalSeconds < seconds
               then \<lparr> d_seconds = UINT64_MAX, d_nanoseconds = NANOSECS_PER_SEC - 1 \<rparr>
               else \<lparr> d_seconds = seconds + ucast additionalSeconds, d_nanoseconds = nanoseconds mod NANOSECS_PER_SEC \<rparr>)
      else \<lparr> d_seconds = seconds, d_nanoseconds = nanoseconds \<rparr>)"

definition Duration_max :: duration where
  "Duration_max = Duration_ctor UINT64_MAX (NANOSECS_PER_SEC - 1)"

definition Duration_zero :: duration where
  "Duration_zero = Duration_ctor 0 0"

definition positiveValueOrClampToZero :: "int \<Rightarrow> u64" where
  "positiveValueOrClampToZero v = (if v < 0 then 0 else of_int v)"

definition fromNanoseconds :: "int \<Rightarrow> duration" where
  "fromNanoseconds v =
     (let clampedValue = positiveValueOrClampToZero v;
          seconds = clampedValue div ucast NANOSECS_PER_SEC;
          nanoseconds = ucast (clampedValue mod ucast NANOSECS_PER_SEC)
      in Duration_ctor seconds nanoseconds)"

definition fromMicroseconds :: "int \<Rightarrow> duration" where
  "fromMicroseconds v =
     (let clampedValue = positiveValueOrClampToZero v;
          seconds = clampedValue div ucast MICROSECS_PER_SEC;
          nanoseconds = ucast (clampedValue mod ucast MICROSECS_PER_SEC * ucast NANOSECS_PER_MICROSEC)
      in Duration_ctor seconds nanoseconds)"

definition fromMilliseconds :: "int \<Rightarrow> duration" where
  "fromMilliseconds v =
     (let clampedValue = positiveValueOrClampToZero v;
          seconds = clampedValue div ucast MILLISECS_PER_SEC;
          nanoseconds = ucast (clampedValue mod ucast MILLISECS_PER_SEC * ucast NANOSECS_PER_MILLISEC)
      in Duration_ctor seconds nanoseconds)"

definition fromSeconds :: "int \<Rightarrow> duration" where
  "fromSeconds v =
     (let clampedValue = positiveValueOrClampToZero v
      in if clampedValue > UINT64_MAX then Duration_max else Duration_ctor clampedValue 0)"

definition fromMinutes :: "int \<Rightarrow> duration" where
  "fromMinutes v =
     (let clampedValue = positiveValueOrClampToZero v
      in if clampedValue > UINT64_MAX div ucast SECS_PER_MINUTE then Duration_max
         else Duration_ctor (clampedValue * ucast SECS_PER_MINUTE) 0)"

definition fromHours :: "int \<Rightarrow> duration" where
  "fromHours v =
     (let clampedValue = positiveValueOrClampToZero v
      in if clampedValue > UINT64_MAX div ucast SECS_PER_HOUR then Duration_max
         else Duration_ctor (clampedValue * ucast SECS_PER_HOUR) 0)"

definition fromDays :: "int \<Rightarrow> duration" where
  "fromDays v =
     (let clampedValue = positiveValueOrClampToZero v;
          SECS_PER_DAY = ucast (HOURS_PER_DAY * SECS_PER_HOUR)
      in if clampedValue > UINT64_MAX div SECS_PER_DAY then Duration_max
         else Duration_ctor (clampedValue * SECS_PER_DAY) 0)"

subsection \<open>Comparison\<close>

definition Duration_eq :: "duration \<Rightarrow> duration \<Rightarrow> bool" where
  "Duration_eq this rhs \<longleftrightarrow> d_seconds this = d_seconds rhs \<and> d_nanoseconds this = d_nanoseconds rhs"

definition Duration_less :: "duration \<Rightarrow> duration \<Rightarrow> bool" where
  "Duration_less this rhs \<longleftrightarrow>
     d_seconds this < d_seconds rhs \<or> d_seconds this = d_seconds rhs \<and> d_nanoseconds this < d_nanoseconds rhs"

definition Duration_greater :: "duration \<Rightarrow> duration \<Rightarrow> bool" where
  "Duration_greater this rhs \<longleftrightarrow>
     d_seconds this > d_seconds rhs \<or> d_seconds this = d_seconds rhs \<and> d_nanoseconds this > d_nanoseconds rhs"

definition Duration_lesseq :: "duration \<Rightarrow> duration \<Rightarrow> bool" where
  "Duration_lesseq this rhs \<longleftrightarrow> \<not> Duration_greater this rhs"

definition Duration_greatereq :: "duration \<Rightarrow> duration \<Rightarrow> bool" where
  "Duration_greatereq this rhs \<longleftrightarrow> \<not> Duration_less this rhs"

subsection \<open>Arithmetic\<close>

definition Duration_plus :: "duration \<Rightarrow> duration \<Rightarrow> duration" where
  "Duration_plus this rhs =
     (let seconds = d_seconds this + d_seconds rhs;
          nanoseconds = d_nanoseconds this + d_nanoseconds rhs;
          (seconds, nanoseconds) =
            (if nanoseconds \<ge> NANOSECS_PER_SEC then (seconds + 1, nanoseconds - NANOSECS_PER_SEC) else (seconds, nanoseconds));
          sum = Duration_ctor seconds nanoseconds
      in if Duration_less sum this then Duration_max else sum)"

definition Duration_minus :: "duration \<Rightarrow> duration \<Rightarrow> duration" where
  "Duration_minus this rhs =
     (if Duration_less this rhs then Duration_zero
      else (let seconds = d_seconds this - d_seconds rhs
            in if d_nanoseconds this \<ge> d_nanoseconds rhs
               then Duration_ctor seconds (d_nanoseconds this - d_nanoseconds rhs)
               else Duration_ctor (seconds - 1) (NANOSECS_PER_SEC - d_nanoseconds rhs + d_nanoseconds this)))"

definition LEAST_COMMON_MULTIPLE :: u64 where "LEAST_COMMON_MULTIPLE = 8388608000000000"
definition ONE_FULL_BLOCK_OF_SECONDS_ONLY :: u64 where "ONE_FULL_BLOCK_OF_SECONDS_ONLY = drop_bit 32 LEAST_COMMON_MULTIPLE"
definition SECONDS_PER_FULL_BLOCK :: u64 where "SECONDS_PER_FULL_BLOCK = LEAST_COMMON_MULTIPLE div ucast NANOSECS_PER_SEC"

definition multiplyWith :: "u64 \<Rightarrow> duration \<Rightarrow> duration" where
  "multiplyWith multiplicator this =
     (let maxBeforeOverflow = UINT64_MAX div multiplicator
      in if d_seconds this > maxBeforeOverflow then Duration_max
         else (let durationFromSeconds = Duration_ctor (d_seconds this * multiplicator) 0
               in if ucast (d_nanoseconds this) \<le> maxBeforeOverflow
                  then Duration_plus durationFromSeconds (fromNanoseconds (uint (ucast (d_nanoseconds this) * multiplicator)))
                  else (let multiplicatorLow = (ucast (ucast multiplicator :: u32) :: u64);
                            durationFromNanosecondsLow = fromNanoseconds (uint (ucast (d_nanoseconds this) * multiplicatorLow));
                            multiplicatorHigh = (ucast (ucast (drop_bit 32 multiplicator) :: u32) :: u64);
                            nanosecondsFromHigh = ucast (d_nanoseconds this) * multiplicatorHigh;
                            fullBlocksOfSecondsOnly = nanosecondsFromHigh div ONE_FULL_BLOCK_OF_SECONDS_ONLY;
                            remainingBlock = nanosecondsFromHigh mod ONE_FULL_BLOCK_OF_SECONDS_ONLY;
                            durationFromNanosecondsHigh =
                              Duration_plus (Duration_ctor (fullBlocksOfSecondsOnly * SECONDS_PER_FULL_BLOCK) 0)
                                (fromNanoseconds (uint (push_bit 32 remainingBlock)))
                        in Duration_plus (Duration_plus durationFromSeconds durationFromNanosecondsLow) durationFromNanosecondsHigh)))"

definition Duration_times :: "duration \<Rightarrow> int \<Rightarrow> duration" where
  "Duration_times this rhs =
     (if rhs \<le> 0 \<or> Duration_eq this Duration_zero then Duration_zero else multiplyWith (of_int rhs) this)"

subsection \<open>Conversion\<close>

definition toNanoseconds :: "duration \<Rightarrow> u64" where
  "toNanoseconds this =
     (if Duration_greater this (Duration_ctor (UINT64_MAX div ucast NANOSECS_PER_SEC) (ucast (UINT64_MAX mod ucast NANOSECS_PER_SEC)))
      then UINT64_MAX
      else d_seconds this * ucast NANOSECS_PER_SEC + ucast (d_nanoseconds this))"

definition toMicroseconds :: "duration \<Rightarrow> u64" where
  "toMicroseconds this =
     (if Duration_greater this (Duration_ctor (UINT64_MAX div ucast MICROSECS_PER_SEC)
           (ucast (UINT64_MAX mod ucast MICROSECS_PER_SEC * ucast NANOSECS_PER_MICROSEC)))
      then UINT64_MAX
      else d_seconds this * ucast MICROSECS_PER_SEC + ucast (d_nanoseconds this div NANOSECS_PER_MICROSEC))"

definition toMilliseconds :: "duration \<Rightarrow> u64" where
  "toMilliseconds this =
     (if Duration_greater this (Duration_ctor (UINT64_MAX div ucast MILLISECS_PER_SEC)
           (ucast (UINT64_MAX mod ucast MILLISECS_PER_SEC * ucast NANOSECS_PER_MILLISEC)))
      then UINT64_MAX
      else d_seconds this * ucast MILLISECS_PER_SEC + ucast (d_nanoseconds this div NANOSECS_PER_MILLISEC))"

definition toSeconds :: "duration \<Rightarrow> u64" where "toSeconds this = d_seconds this"
definition toMinutes :: "duration \<Rightarrow> u64" where "toMinutes this = d_seconds this div ucast SECS_PER_MINUTE"
definition toHours :: "duration \<Rightarrow> u64" where "toHours this = d_seconds this div ucast SECS_PER_HOUR"
definition toDays :: "duration \<Rightarrow> u64" where "toDays this = d_seconds this div ucast (HOURS_PER_DAY * SECS_PER_HOUR)"

text \<open>\<open>struct timespec\<close> and \<open>struct timeval\<close> have signed 64-bit members.\<close>

record time_struct =
  tv_sec :: int
  tv_frac :: int

definition INT64_MAX :: int where "INT64_MAX = 2 ^ 63 - 1"

definition Duration_from_timeval :: "time_struct \<Rightarrow> duration" where
  "Duration_from_timeval v = Duration_ctor (of_int (tv_sec v)) (of_int (tv_frac v) * NANOSECS_PER_MICROSEC)"

definition Duration_from_timespec :: "time_struct \<Rightarrow> duration" where
  "Duration_from_timespec v = Duration_ctor (of_int (tv_sec v)) (of_int (tv_frac v))"

definition Duration_to_timeval :: "duration \<Rightarrow> time_struct" where
  "Duration_to_timeval this =
     (if d_seconds this > of_int INT64_MAX then \<lparr> tv_sec = INT64_MAX, tv_frac = uint (MICROSECS_PER_SEC - 1) \<rparr>
      else \<lparr> tv_sec = uint (d_seconds this), tv_frac = uint (d_nanoseconds this div NANOSECS_PER_MICROSEC) \<rparr>)"

definition clamped_timespec :: "duration \<Rightarrow> time_struct" where
  "clamped_timespec d =
     (if d_seconds d > of_int INT64_MAX then \<lparr> tv_sec = INT64_MAX, tv_frac = uint (NANOSECS_PER_SEC - 1) \<rparr>
      else \<lparr> tv_sec = uint (d_seconds d), tv_frac = uint (d_nanoseconds d) \<rparr>)"

datatype time_spec_reference = Reference_None | Reference_Epoch | Reference_Monotonic

text \<open>\<open>clock_gettime\<close> is the result of the call for the chosen clock, \<open>None\<close> if it fails.\<close>

definition Duration_timespec :: "time_spec_reference \<Rightarrow> time_struct option \<Rightarrow> duration \<Rightarrow> time_struct" where
  "Duration_timespec reference clock_gettime this =
     (if reference = Reference_None then clamped_timespec this
      else case clock_gettime of None \<Rightarrow> \<lparr> tv_sec = 0, tv_frac = 0 \<rparr>
           | Some referenceTime \<Rightarrow> clamped_timespec (Duration_plus (Duration_from_timespec referenceTime) this))"

subsection \<open>Deadline timers\<close>

text \<open>\<open>now\<close> is the time of the monotonic clock at the call.\<close>

record deadline_timer =
  dt_timeToWait :: duration
  dt_endTime :: duration

definition DeadlineTimer_ctor :: "duration \<Rightarrow> duration \<Rightarrow> deadline_timer" where
  "DeadlineTimer_ctor now timeToWait = \<lparr> dt_timeToWait = timeToWait, dt_endTime = Duration_plus now timeToWait \<rparr>"

definition hasExpired :: "duration \<Rightarrow> deadline_timer \<Rightarrow> bool" where
  "hasExpired now this \<longleftrightarrow> Duration_greatereq now (dt_endTime this)"

definition DeadlineTimer_reset :: "duration \<Rightarrow> deadline_timer \<Rightarrow> deadline_timer" where
  "DeadlineTimer_reset now this = this\<lparr> dt_endTime := Duration_plus now (dt_timeToWait this) \<rparr>"

definition DeadlineTimer_reset_to :: "duration \<Rightarrow> duration \<Rightarrow> deadline_timer \<Rightarrow> deadline_timer" where
  "DeadlineTimer_reset_to now timeToWait this = DeadlineTimer_reset now (this\<lparr> dt_timeToWait := timeToWait \<rparr>)"

definition remainingTime :: "duration \<Rightarrow> deadline_timer \<Rightarrow> duration" where
  "remainingTime now this =
     (if Duration_greater (dt_endTime this) now then Duration_minus (dt_endTime this) now else fromMilliseconds 0)"

subsection \<open>Durations as numbers of nanoseconds\<close>

definition nsecs :: "duration \<Rightarrow> nat" where
  "nsecs d = unat (d_seconds d) * 1000000000 + unat (d_nanoseconds d)"

definition valid_duration :: "duration \<Rightarrow> bool" where
  "valid_duration d \<longleftrightarrow> d_nanoseconds d < NANOSECS_PER_SEC"

definition MAX_NSECS :: nat where "MAX_NSECS = 2 ^ 64 * 1000000000 - 1"

definition saturate :: "nat \<Rightarrow> nat" where "saturate n = min n MAX_NSECS"

lemmas duration_constants = SECS_PER_MINUTE_def SECS_PER_HOUR_def HOURS_PER_DAY_def MILLISECS_PER_SEC_def MICROSECS_PER_SEC_def
  NANOSECS_PER_MICROSEC_def NANOSECS_PER_MILLISEC_def NANOSECS_PER_SEC_def

lemma NANOSECS_PER_SEC_eq: "NANOSECS_PER_SEC = 1000000000" by (simp add: duration_constants)

lemma unat_UINT64_MAX [simp]: "unat UINT64_MAX = 18446744073709551615"
  by (simp add: UINT64_MAX_def unsigned_minus_1_eq_mask mask_eq_exp_minus_1)

lemma valid_unat: "valid_duration d \<longleftrightarrow> unat (d_nanoseconds d) < 1000000000"
  by (simp add: valid_duration_def NANOSECS_PER_SEC_eq word_less_nat_alt)

lemma nsecs_bound: "valid_duration d \<Longrightarrow> nsecs d \<le> MAX_NSECS"
  using u64_unat_less [of "d_seconds d"] by (simp add: nsecs_def valid_unat MAX_NSECS_def)

lemma nsecs_inject: "valid_duration a \<Longrightarrow> valid_duration b \<Longrightarrow> nsecs a = nsecs b \<longleftrightarrow> a = b"
proof
  assume v: "valid_duration a" "valid_duration b" and eq: "nsecs a = nsecs b"
  have "unat (d_seconds d) = nsecs d div 1000000000 \<and> unat (d_nanoseconds d) = nsecs d mod 1000000000" if "valid_duration d" for d :: duration
    using that by (simp add: nsecs_def valid_unat)
  with v eq show "a = b" by (simp add: word_unat_eq_iff)
qed simp

lemma Duration_less_nsecs: "valid_duration a \<Longrightarrow> valid_duration b \<Longrightarrow> Duration_less a b \<longleftrightarrow> nsecs a < nsecs b"
  by (auto simp: Duration_less_def nsecs_def valid_unat word_less_nat_alt word_unat_eq_iff)

lemma Duration_greater_less: "Duration_greater a b \<longleftrightarrow> Duration_less b a"
  by (auto simp: Duration_greater_def Duration_less_def)

lemma Duration_eq_iff: "Duration_eq a b \<longleftrightarrow> a = b"
  by (auto simp: Duration_eq_def)

lemma small_ctor: "unat ns < 1000000000 \<Longrightarrow> Duration_ctor s ns = \<lparr> d_seconds = s, d_nanoseconds = ns \<rparr>"
  by (simp add: Duration_ctor_def NANOSECS_PER_SEC_eq word_le_nat_alt)

lemma nsecs_small_ctor: "unat ns < 1000000000 \<Longrightarrow> nsecs (Duration_ctor s ns) = unat s * 1000000000 + unat ns \<and> valid_duration (Duration_ctor s ns)"
  by (simp add: small_ctor nsecs_def valid_unat)

lemma Duration_max_facts: "nsecs Duration_max = MAX_NSECS" "valid_duration Duration_max"
  using nsecs_small_ctor [of "NANOSECS_PER_SEC - 1" UINT64_MAX] by (simp_all add: Duration_max_def NANOSECS_PER_SEC_eq MAX_NSECS_def)

lemma Duration_zero_facts: "nsecs Duration_zero = 0" "valid_duration Duration_zero"
  using nsecs_small_ctor [of 0 0] by (simp_all add: Duration_zero_def)

lemma nsecs_ctor: "nsecs (Duration_ctor s ns) = saturate (unat s * 1000000000 + unat ns) \<and> valid_duration (Duration_ctor s ns)"
proof (cases "unat ns < 1000000000")
  case True
  then show ?thesis using nsecs_small_ctor [OF True, of s] nsecs_bound [of "Duration_ctor s ns"] by (simp add: saturate_def)
next
  case False
  let ?add = "ns div NANOSECS_PER_SEC"
  have add: "unat ?add = unat ns div 1000000000" by (simp add: unat_div NANOSECS_PER_SEC_eq)
  have le: "unat ?add \<le> 4" using u32_unat_less [of ns] by (simp add: add)
  have "unat (UINT64_MAX - ucast ?add) = 18446744073709551615 - unat ?add" using le by (simp add: unat_sub_no_wrap)
  then have cond: "UINT64_MAX - ucast ?add < s \<longleftrightarrow> 18446744073709551615 < unat s + unat ns div 1000000000"
    using le by (simp add: word_less_nat_alt add) linarith
  have ns: "unat ns = unat ns div 1000000000 * 1000000000 + unat ns mod 1000000000" by simp
  show ?thesis
  proof (cases "UINT64_MAX - ucast ?add < s")
    case True
    then have "Duration_ctor s ns = Duration_max"
      using False by (simp add: Duration_ctor_def Duration_max_def Let_def word_le_nat_alt NANOSECS_PER_SEC_eq)
    moreover have "MAX_NSECS \<le> unat s * 1000000000 + unat ns" using True cond ns by (simp add: MAX_NSECS_def)
    ultimately show ?thesis by (simp add: Duration_max_facts saturate_def)
  next
    case c: False
    then have "unat (s + ucast ?add) = unat s + unat ns div 1000000000" using cond by (simp add: unat_add_no_wrap add)
    moreover have "Duration_ctor s ns = \<lparr> d_seconds = s + ucast ?add, d_nanoseconds = ns mod NANOSECS_PER_SEC \<rparr>"
      using False c by (simp add: Duration_ctor_def Let_def word_le_nat_alt NANOSECS_PER_SEC_eq)
    moreover have "unat (ns mod NANOSECS_PER_SEC) = unat ns mod 1000000000" by (simp add: unat_mod NANOSECS_PER_SEC_eq)
    ultimately have "nsecs (Duration_ctor s ns) = unat s * 1000000000 + unat ns" "valid_duration (Duration_ctor s ns)"
      using ns by (simp_all add: nsecs_def valid_unat add_mult_distrib)
    then show ?thesis using nsecs_bound [of "Duration_ctor s ns"] by (simp add: saturate_def)
  qed
qed

lemma saturate_plus [simp]: "saturate (saturate a + b) = saturate (a + b)" "saturate (a + saturate b) = saturate (a + b)"
  by (simp_all add: saturate_def)

lemma saturate_valid: "valid_duration d \<Longrightarrow> saturate (nsecs d) = nsecs d"
  by (simp add: saturate_def nsecs_bound min_absorb1)

subsubsection \<open>Addition and subtraction\<close>

lemma Duration_plus_nsecs:
  assumes a: "valid_duration a" and b: "valid_duration b"
  shows "nsecs (Duration_plus a b) = saturate (nsecs a + nsecs b)" "valid_duration (Duration_plus a b)"
proof -
  let ?ns = "d_nanoseconds a + d_nanoseconds b" and ?s = "d_seconds a + d_seconds b"
  define c where "c = (unat (d_nanoseconds a) + unat (d_nanoseconds b) \<ge> 1000000000)"
  have ns: "unat ?ns = unat (d_nanoseconds a) + unat (d_nanoseconds b)"
    using a b by (simp add: valid_unat unat_add_no_wrap)
  then have c: "?ns \<ge> NANOSECS_PER_SEC \<longleftrightarrow> c" by (simp add: word_le_nat_alt NANOSECS_PER_SEC_eq c_def)
  define S N where "S = (if c then ?s + 1 else ?s)" and "N = (if c then ?ns - NANOSECS_PER_SEC else ?ns)"
  define t where "t = unat (d_seconds a) + unat (d_seconds b) + (if c then 1 else 0)"
  have N: "unat N = (if c then unat ?ns - 1000000000 else unat ?ns)"
    using ns by (simp add: N_def c_def unat_sub_no_wrap NANOSECS_PER_SEC_eq)
  then have N_less: "unat N < 1000000000" using a b ns by (auto simp: valid_unat c_def)
  have S: "unat S = t mod 2 ^ 64" by (auto simp: S_def t_def unat_word_ariths mod_simps)
  let ?sum = "Duration_ctor S N"
  have plus: "Duration_plus a b = (if Duration_less ?sum a then Duration_max else ?sum)"
    by (simp add: Duration_plus_def Let_def c S_def N_def)
  have sum: "nsecs ?sum = unat S * 1000000000 + unat N" "valid_duration ?sum" using nsecs_small_ctor [OF N_less] by blast+
  have total: "nsecs a + nsecs b = t * 1000000000 + unat N" using N ns by (auto simp: nsecs_def t_def c_def)
  have "t < 2 * 2 ^ 64" using u64_unat_less [of "d_seconds a"] u64_unat_less [of "d_seconds b"] by (simp add: t_def)
  then consider "t < 2 ^ 64" "unat S = t" | "t \<ge> 2 ^ 64" "unat S = t - 2 ^ 64"
    using S by (metis (no_types, lifting) le_mod_geq linorder_not_less mod_less mult_2 nat_add_left_cancel_less le_add_diff_inverse)
  then have "nsecs (Duration_plus a b) = saturate (nsecs a + nsecs b)"
  proof cases
    case 1
    then have "nsecs ?sum = nsecs a + nsecs b" using sum total by simp
    moreover from this have "\<not> Duration_less ?sum a" using sum a by (simp add: Duration_less_nsecs)
    ultimately show ?thesis using plus saturate_valid [OF sum(2)] by simp
  next
    case 2
    then have s: "nsecs ?sum + 2 ^ 64 * 1000000000 = nsecs a + nsecs b" using sum total by simp
    moreover have "nsecs b < 2 ^ 64 * 1000000000" using nsecs_bound [OF b] by (simp add: MAX_NSECS_def)
    ultimately have "Duration_less ?sum a" using sum a by (simp add: Duration_less_nsecs)
    moreover have "MAX_NSECS \<le> nsecs a + nsecs b" using s by (simp add: MAX_NSECS_def)
    ultimately show ?thesis using plus by (simp add: Duration_max_facts saturate_def)
  qed
  then show "nsecs (Duration_plus a b) = saturate (nsecs a + nsecs b)" .
  show "valid_duration (Duration_plus a b)" using plus sum by (simp add: Duration_max_facts)
qed

lemma Duration_minus_nsecs:
  assumes a: "valid_duration a" and b: "valid_duration b"
  shows "nsecs (Duration_minus a b) = nsecs a - nsecs b" "valid_duration (Duration_minus a b)"
proof -
  have "nsecs (Duration_minus a b) = nsecs a - nsecs b \<and> valid_duration (Duration_minus a b)"
  proof (cases "Duration_less a b")
    case True
    then show ?thesis using a b by (simp add: Duration_minus_def Duration_zero_facts Duration_less_nsecs)
  next
    case False
    then have le: "nsecs b \<le> nsecs a" using a b by (simp add: Duration_less_nsecs)
    let ?as = "unat (d_seconds a)" and ?bs = "unat (d_seconds b)" and ?an = "unat (d_nanoseconds a)" and ?bn = "unat (d_nanoseconds b)"
    have an: "?an < 1000000000" "?bn < 1000000000" using a b by (simp_all add: valid_unat)
    show ?thesis
    proof (cases "d_nanoseconds a \<ge> d_nanoseconds b")
      case True
      then have n: "?bn \<le> ?an" by (simp add: word_le_nat_alt)
      have "?bs \<le> ?as" using le an by (simp add: nsecs_def)
      then have "unat (d_seconds a - d_seconds b) = ?as - ?bs" by (rule unat_sub_no_wrap)
      moreover have un: "unat (d_nanoseconds a - d_nanoseconds b) = ?an - ?bn" using n by (rule unat_sub_no_wrap)
      moreover have "Duration_minus a b = Duration_ctor (d_seconds a - d_seconds b) (d_nanoseconds a - d_nanoseconds b)"
        using False True by (simp add: Duration_minus_def)
      ultimately show ?thesis
        using nsecs_small_ctor [of "d_nanoseconds a - d_nanoseconds b" "d_seconds a - d_seconds b"] an n \<open>?bs \<le> ?as\<close>
        by (simp add: nsecs_def diff_mult_distrib)
    next
      case c: False
      then have n: "?an < ?bn" by (simp add: word_le_nat_alt)
      have lt: "?bs < ?as" using le an n by (simp add: nsecs_def)
      have "unat (d_seconds a - d_seconds b - 1) = ?as - ?bs - 1"
        using lt unat_sub_no_wrap [of "d_seconds b" "d_seconds a"] unat_sub_no_wrap [of 1 "d_seconds a - d_seconds b"] by simp
      moreover have "unat (NANOSECS_PER_SEC - d_nanoseconds b + d_nanoseconds a) = 1000000000 - ?bn + ?an"
        using an n by (simp add: NANOSECS_PER_SEC_eq unat_add_no_wrap unat_sub_no_wrap)
      moreover have "Duration_minus a b = Duration_ctor (d_seconds a - d_seconds b - 1) (NANOSECS_PER_SEC - d_nanoseconds b + d_nanoseconds a)"
        using False c by (simp add: Duration_minus_def Let_def)
      moreover have "(?as - ?bs - 1) * 1000000000 + (1000000000 - ?bn + ?an) = ?as * 1000000000 + ?an - (?bs * 1000000000 + ?bn)"
      proof -
        obtain q where "?as = ?bs + Suc q" using lt less_imp_Suc_add by fastforce
        then show ?thesis using an n by simp
      qed
      ultimately show ?thesis
        using nsecs_small_ctor [of "NANOSECS_PER_SEC - d_nanoseconds b + d_nanoseconds a" "d_seconds a - d_seconds b - 1"] an n
        by (simp add: nsecs_def)
    qed
  qed
  then show "nsecs (Duration_minus a b) = nsecs a - nsecs b" "valid_duration (Duration_minus a b)" by blast+
qed

subsubsection \<open>Units\<close>

lemma clamp_unat: "v < 2 ^ 64 \<Longrightarrow> unat (positiveValueOrClampToZero v) = nat v"
proof (cases "v < 0")
  case False
  then obtain n where "v = int n" by (metis linorder_not_less zero_le_imp_eq_int)
  moreover assume "v < 2 ^ 64"
  ultimately show ?thesis by (simp add: positiveValueOrClampToZero_def unat_of_nat_u64)
qed (simp add: positiveValueOrClampToZero_def)

lemma from_fraction:
  assumes "unat (u :: u32) * unat f = 1000000000"
  shows "nsecs (Duration_ctor (v div ucast u) (ucast (v mod ucast u * ucast f :: u64))) = unat v * unat (f :: u32)"
    "valid_duration (Duration_ctor (v div ucast u) (ucast (v mod ucast u * ucast f :: u64)))"
proof -
  have pos: "0 < unat u" "0 < unat f" using assms by (metis mult_is_0 not_gr0 zero_neq_numeral)+
  have less: "unat v mod unat u * unat f < 1000000000" using pos mod_less_divisor [OF pos(1), of "unat v"] assms by (metis mult_less_mono1)
  have m: "unat (v mod ucast u * ucast f) = unat v mod unat u * unat f"
    using less by (simp add: unat_mult_no_wrap unat_mod)
  then have n: "unat (ucast (v mod ucast u * ucast f :: u64) :: u32) = unat v mod unat u * unat f"
    using less by (simp add: unat_ucast_u64_u32)
  have "unat v div unat u * 1000000000 + unat v mod unat u * unat f = unat v * unat f"
    by (metis add_mult_distrib assms div_mult_mod_eq mult.assoc)
  then show "nsecs (Duration_ctor (v div ucast u) (ucast (v mod ucast u * ucast f :: u64))) = unat v * unat f"
      "valid_duration (Duration_ctor (v div ucast u) (ucast (v mod ucast u * ucast f :: u64)))"
    using nsecs_small_ctor [of "ucast (v mod ucast u * ucast f :: u64)" "v div ucast u"] n less by (simp_all add: unat_div)
qed

lemma from_multiple:
  assumes "0 < unat (u :: u64)"
  shows "nsecs (if v > UINT64_MAX div u then Duration_max else Duration_ctor (v * u) 0) = saturate (unat v * unat u * 1000000000)"
    "valid_duration (if v > UINT64_MAX div u then Duration_max else Duration_ctor (v * u) 0)"
proof -
  have le: "v \<le> UINT64_MAX div u \<longleftrightarrow> unat v * unat u \<le> 18446744073709551615"
    using assms by (simp add: word_le_nat_alt unat_div less_eq_div_iff_mult_less_eq)
  have "nsecs (if v > UINT64_MAX div u then Duration_max else Duration_ctor (v * u) 0) = saturate (unat v * unat u * 1000000000)"
  proof (cases "v > UINT64_MAX div u")
    case True
    then have "MAX_NSECS \<le> unat v * unat u * 1000000000" using le by (simp add: MAX_NSECS_def not_le [symmetric])
    then show ?thesis using True by (simp add: Duration_max_facts saturate_def)
  next
    case False
    then have "unat (v * u) = unat v * unat u" using le by (simp add: unat_mult_no_wrap not_less)
    then show ?thesis using False nsecs_ctor [of "v * u" 0] by simp
  qed
  then show "nsecs (if v > UINT64_MAX div u then Duration_max else Duration_ctor (v * u) 0) = saturate (unat v * unat u * 1000000000)" .
  show "valid_duration (if v > UINT64_MAX div u then Duration_max else Duration_ctor (v * u) 0)"
    using nsecs_ctor by (simp add: Duration_max_facts)
qed

lemma fromNanoseconds_nsecs: "v < 2 ^ 64 \<Longrightarrow> nsecs (fromNanoseconds v) = nat v" "valid_duration (fromNanoseconds v)"
  using from_fraction [of NANOSECS_PER_SEC 1 "positiveValueOrClampToZero v"] by (simp_all add: fromNanoseconds_def Let_def clamp_unat NANOSECS_PER_SEC_eq)

lemma from_nsecs:
  assumes "v < 2 ^ 64"
  shows "nsecs (fromMicroseconds v) = nat v * 1000" "nsecs (fromMilliseconds v) = nat v * 1000000" "nsecs (fromSeconds v) = nat v * 1000000000"
    "nsecs (fromMinutes v) = saturate (nat v * 60 * 1000000000)" "nsecs (fromHours v) = saturate (nat v * 3600 * 1000000000)"
    "nsecs (fromDays v) = saturate (nat v * 86400 * 1000000000)"
proof -
  let ?v = "positiveValueOrClampToZero v"
  have v: "unat ?v = nat v" by (rule clamp_unat [OF assms])
  show "nsecs (fromMicroseconds v) = nat v * 1000" "nsecs (fromMilliseconds v) = nat v * 1000000"
    using from_fraction(1) [of MICROSECS_PER_SEC NANOSECS_PER_MICROSEC ?v] from_fraction(1) [of MILLISECS_PER_SEC NANOSECS_PER_MILLISEC ?v] v
    by (simp_all add: fromMicroseconds_def fromMilliseconds_def Let_def duration_constants)
  have "\<not> ?v > UINT64_MAX" by (simp add: UINT64_MAX_def)
  then show "nsecs (fromSeconds v) = nat v * 1000000000"
    using nsecs_small_ctor [of 0 ?v] v by (simp add: fromSeconds_def)
  show "nsecs (fromMinutes v) = saturate (nat v * 60 * 1000000000)" "nsecs (fromHours v) = saturate (nat v * 3600 * 1000000000)"
    using from_multiple(1) [of "ucast SECS_PER_MINUTE" ?v] from_multiple(1) [of "ucast SECS_PER_HOUR" ?v] v
    by (simp_all add: fromMinutes_def fromHours_def Let_def SECS_PER_MINUTE_def SECS_PER_HOUR_def)
  show "nsecs (fromDays v) = saturate (nat v * 86400 * 1000000000)"
    using from_multiple(1) [of 86400 ?v] v by (simp add: fromDays_def Let_def HOURS_PER_DAY_def SECS_PER_HOUR_def)
qed

text \<open>The conversions to 64-bit numbers saturate at the largest number.\<close>

lemma to_fraction:
  assumes d: "valid_duration d" and uf: "unat (u :: u32) * unat f = 1000000000" "UINT64_MAX div ucast u = S" "UINT64_MAX mod ucast u = (M :: u64)"
  shows "unat (if Duration_greater d (Duration_ctor S (ucast (M * ucast f)))
      then UINT64_MAX else d_seconds d * ucast u + ucast (d_nanoseconds d div (f :: u32))) = min (nsecs d div unat f) 18446744073709551615"
proof -
  have pos: "0 < unat u" "0 < unat f" using uf(1) by (metis mult_is_0 not_gr0 zero_neq_numeral)+
  have S: "unat S = 18446744073709551615 div unat u" "unat M = 18446744073709551615 mod unat u"
    using uf(2,3) by (auto simp: unat_div unat_mod)
  have bound: "nsecs (Duration_ctor S (ucast (M * ucast f))) = 18446744073709551615 * unat f" "valid_duration (Duration_ctor S (ucast (M * ucast f)))"
    using from_fraction [OF uf(1), of UINT64_MAX] uf(2,3) by simp_all
  let ?c = "Duration_greater d (Duration_ctor S (ucast (M * ucast f)))"
  have c: "?c \<longleftrightarrow> 18446744073709551615 * unat f < nsecs d" using d bound by (simp add: Duration_greater_less Duration_less_nsecs)
  have q: "nsecs d div unat f = unat (d_seconds d) * unat u + unat (d_nanoseconds d) div unat f"
  proof -
    have "nsecs d = unat (d_seconds d) * unat u * unat f + unat (d_nanoseconds d)" using uf(1) by (simp add: nsecs_def mult.assoc)
    then show ?thesis using pos(2) by simp
  qed
  show ?thesis
  proof (cases ?c)
    case True
    then have "18446744073709551615 \<le> nsecs d div unat f" using c pos(2) by (simp add: less_eq_div_iff_mult_less_eq)
    then show ?thesis using True by simp
  next
    case False
    then have "nsecs d div unat f \<le> 18446744073709551615" using c pos(2)
      by (metis div_le_mono linorder_not_less nonzero_mult_div_cancel_right not_gr0)
    then have le: "unat (d_seconds d) * unat u + unat (d_nanoseconds d) div unat f \<le> 18446744073709551615" by (simp add: q)
    then have "unat (d_seconds d * ucast u) = unat (d_seconds d) * unat u" by (simp add: unat_mult_no_wrap)
    then have "unat (d_seconds d * ucast u + ucast (d_nanoseconds d div f)) = unat (d_seconds d) * unat u + unat (d_nanoseconds d) div unat f"
      using le by (simp add: unat_add_no_wrap unat_div)
    then show ?thesis using False le q by simp
  qed
qed

lemma to_unat:
  assumes "valid_duration d"
  shows "unat (toNanoseconds d) = min (nsecs d) 18446744073709551615" "unat (toMicroseconds d) = min (nsecs d div 1000) 18446744073709551615"
    "unat (toMilliseconds d) = min (nsecs d div 1000000) 18446744073709551615"
proof -
  show "unat (toNanoseconds d) = min (nsecs d) 18446744073709551615"
    using to_fraction [OF assms, of NANOSECS_PER_SEC 1, OF _ refl refl] unfolding toNanoseconds_def by (simp add: NANOSECS_PER_SEC_eq split: if_splits)
  show "unat (toMicroseconds d) = min (nsecs d div 1000) 18446744073709551615"
    using to_fraction [OF assms, of MICROSECS_PER_SEC NANOSECS_PER_MICROSEC, OF _ refl refl] unfolding toMicroseconds_def
    by (simp add: duration_constants)
  show "unat (toMilliseconds d) = min (nsecs d div 1000000) 18446744073709551615"
    using to_fraction [OF assms, of MILLISECS_PER_SEC NANOSECS_PER_MILLISEC, OF _ refl refl] unfolding toMilliseconds_def
    by (simp add: duration_constants)
qed

subsubsection \<open>Multiplication\<close>

text \<open>The product of the nanoseconds with the upper half of the multiplicator, in blocks of 8388608 seconds.\<close>

lemma block_constants: "ONE_FULL_BLOCK_OF_SECONDS_ONLY = 1953125" "SECONDS_PER_FULL_BLOCK = 8388608"
  by code_simp+

lemma high_product:
  assumes "unat n < 1000000000" "unat h < 4294967296"
  shows "nsecs (Duration_plus (Duration_ctor (n * h div ONE_FULL_BLOCK_OF_SECONDS_ONLY * SECONDS_PER_FULL_BLOCK) 0)
      (fromNanoseconds (uint (push_bit 32 (n * h mod ONE_FULL_BLOCK_OF_SECONDS_ONLY) :: u64)))) = saturate (unat n * unat h * 4294967296)"
    (is "nsecs (Duration_plus ?s ?r) = _")
    and "valid_duration (Duration_plus (Duration_ctor (n * h div ONE_FULL_BLOCK_OF_SECONDS_ONLY * SECONDS_PER_FULL_BLOCK) 0)
      (fromNanoseconds (uint (push_bit 32 (n * h mod ONE_FULL_BLOCK_OF_SECONDS_ONLY) :: u64))))"
proof -
  let ?H = "unat n * unat h"
  have H: "?H \<le> 999999999 * 4294967295" using assms by (intro mult_le_mono) simp_all
  then have nh: "unat (n * h) = ?H" by (simp add: unat_mult_no_wrap)
  have d: "?H div 1953125 \<le> 999999999 * 4294967295 div 1953125" using H by (rule div_le_mono)
  have full: "unat (n * h div 1953125 * 8388608) = ?H div 1953125 * 8388608"
    using d nh by (simp add: unat_mult_no_wrap unat_div)
  have m: "?H mod 1953125 < 1953125" by simp
  have rem: "unat (push_bit 32 (n * h mod 1953125) :: u64) = ?H mod 1953125 * 4294967296"
    using m nh by (simp add: push_bit_eq_mult unat_mult_no_wrap unat_mod)
  have s: "nsecs ?s = ?H div 1953125 * 8388608 * 1000000000" "valid_duration ?s"
    using nsecs_small_ctor [of 0 "n * h div 1953125 * 8388608"] full by (simp_all add: block_constants)
  have "uint (push_bit 32 (n * h mod ONE_FULL_BLOCK_OF_SECONDS_ONLY) :: u64) < 2 ^ 64" using uint_bounded [of "push_bit 32 (n * h mod ONE_FULL_BLOCK_OF_SECONDS_ONLY) :: u64"] by simp
  then have r: "nsecs ?r = ?H mod 1953125 * 4294967296" "valid_duration ?r"
    using rem fromNanoseconds_nsecs [of "uint (push_bit 32 (n * h mod ONE_FULL_BLOCK_OF_SECONDS_ONLY) :: u64)"]
    by (simp_all add: block_constants)
  have "nsecs ?s + nsecs ?r = (?H div 1953125 * 1953125 + ?H mod 1953125) * 4294967296"
    unfolding s(1) r(1) add_mult_distrib by (simp del: div_mult_mod_eq)
  then have "nsecs ?s + nsecs ?r = ?H * 4294967296" by (simp only: div_mult_mod_eq)
  then show "nsecs (Duration_plus ?s ?r) = saturate (?H * 4294967296)" "valid_duration (Duration_plus ?s ?r)"
    using Duration_plus_nsecs [OF s(2) r(2)] by simp_all
qed

lemma fromNanoseconds_word: "nsecs (fromNanoseconds (uint (w :: u64))) = unat w"
  using fromNanoseconds_nsecs(1) [of "uint w"] uint_bounded [of w] by simp

lemma multiplyWith_nsecs:
  assumes d: "valid_duration d" and k: "k \<noteq> 0"
  shows "nsecs (multiplyWith k d) = saturate (nsecs d * unat k)" "valid_duration (multiplyWith k d)"
proof -
  let ?S = "unat (d_seconds d)" and ?N = "unat (d_nanoseconds d)" and ?k = "unat k" and ?n = "ucast (d_nanoseconds d) :: u64"
  have pos: "0 < ?k" using k by (simp add: unat_gt_0)
  have N: "?N < 1000000000" using d by (simp add: valid_unat)
  have le: "x \<le> UINT64_MAX div k \<longleftrightarrow> unat x * ?k \<le> 18446744073709551615" for x
    using pos by (simp add: word_le_nat_alt unat_div less_eq_div_iff_mult_less_eq)
  have total: "nsecs d * ?k = ?S * ?k * 1000000000 + ?N * ?k" by (simp add: nsecs_def algebra_simps)
  have "nsecs (multiplyWith k d) = saturate (nsecs d * ?k) \<and> valid_duration (multiplyWith k d)"
  proof (cases "d_seconds d > UINT64_MAX div k")
    case True
    then have "18446744073709551616 \<le> ?S * ?k" using le [of "d_seconds d"] by (simp add: not_le [symmetric])
    then have "MAX_NSECS \<le> nsecs d * ?k" using total by (simp add: MAX_NSECS_def)
    then show ?thesis using True by (simp add: multiplyWith_def Duration_max_facts saturate_def)
  next
    case small: False
    then have "?S * ?k \<le> 18446744073709551615" using le [of "d_seconds d"] by (simp add: not_less)
    then have "unat (d_seconds d * k) = ?S * ?k" by (simp add: unat_mult_no_wrap)
    then have s: "nsecs (Duration_ctor (d_seconds d * k) 0) = ?S * ?k * 1000000000" "valid_duration (Duration_ctor (d_seconds d * k) 0)"
      using nsecs_small_ctor [of 0 "d_seconds d * k"] by simp_all
    show ?thesis
    proof (cases "?n \<le> UINT64_MAX div k")
      case True
      then have "unat (?n * k) = ?N * ?k" using le [of ?n] by (simp add: unat_mult_no_wrap)
      then show ?thesis
        using small True s total Duration_plus_nsecs [OF s(2) fromNanoseconds_nsecs(2) [of "uint (?n * k)"]]
        by (simp add: multiplyWith_def Let_def fromNanoseconds_word)
    next
      case False
      let ?l = "ucast (ucast k :: u32) :: u64" and ?h = "ucast (ucast (drop_bit 32 k) :: u32) :: u64"
      have l: "unat ?l = ?k mod 4294967296" by (simp add: unsigned_ucast_eq take_bit_eq_mod unsigned_take_bit_eq unat_mod)
      have "?k div 4294967296 < 4294967296" using u64_unat_less [of k] by (simp add: div_less_iff_less_mult)
      then have h: "unat ?h = ?k div 4294967296"
        by (simp add: unsigned_ucast_eq unsigned_take_bit_eq take_bit_eq_mod unsigned_drop_bit_eq drop_bit_eq_div unat_mod unat_div)
      have "?N * (?k mod 4294967296) \<le> 999999999 * 4294967295" using N by (intro mult_le_mono) (simp_all add: less_Suc_eq_le [symmetric])
      then have "unat (?n * ?l) = ?N * (?k mod 4294967296)" using unat_mult_no_wrap [of ?n ?l] l by simp
      then have low: "nsecs (fromNanoseconds (uint (?n * ?l))) = ?N * (?k mod 4294967296)" by (simp add: fromNanoseconds_word)
      have h_less: "unat ?h < 4294967296" using u32_unat_less by simp
      note high = high_product [of ?n ?h]
      let ?hi = "Duration_plus (Duration_ctor (?n * ?h div ONE_FULL_BLOCK_OF_SECONDS_ONLY * SECONDS_PER_FULL_BLOCK) 0)
        (fromNanoseconds (uint (push_bit 32 (?n * ?h mod ONE_FULL_BLOCK_OF_SECONDS_ONLY) :: u64)))"
      have hi: "nsecs ?hi = saturate (?N * (?k div 4294967296) * 4294967296)" "valid_duration ?hi"
        using high N h_less h by simp_all
      note lo = Duration_plus_nsecs [OF s(2) fromNanoseconds_nsecs(2) [of "uint (?n * ?l)"]]
      have "?N * ?k = ?N * (?k mod 4294967296) + ?N * (?k div 4294967296) * 4294967296"
        by (simp only: mult.assoc add_mult_distrib2 [symmetric] mod_div_mult_eq)
      then have "nsecs (Duration_plus (Duration_plus (Duration_ctor (d_seconds d * k) 0) (fromNanoseconds (uint (?n * ?l)))) ?hi) = saturate (nsecs d * ?k)"
        using Duration_plus_nsecs(1) [OF lo(2) hi(2)] lo(1) hi(1) low s(1) total by (simp add: add.assoc)
      moreover have "valid_duration (Duration_plus (Duration_plus (Duration_ctor (d_seconds d * k) 0) (fromNanoseconds (uint (?n * ?l)))) ?hi)"
        by (rule Duration_plus_nsecs(2) [OF lo(2) hi(2)])
      ultimately show ?thesis using small False by (simp add: multiplyWith_def Let_def)
    qed
  qed
  then show "nsecs (multiplyWith k d) = saturate (nsecs d * unat k)" "valid_duration (multiplyWith k d)" by blast+
qed

lemma Duration_times_nsecs:
  assumes d: "valid_duration d" and k: "k < 2 ^ 64"
  shows "nsecs (Duration_times d k) = saturate (nsecs d * nat k)" "valid_duration (Duration_times d k)"
proof -
  have "nsecs (Duration_times d k) = saturate (nsecs d * nat k) \<and> valid_duration (Duration_times d k)"
  proof (cases "k \<le> 0 \<or> d = Duration_zero")
    case True
    then have z: "nsecs d * nat k = 0" using Duration_zero_facts by auto
    show ?thesis unfolding z using True Duration_zero_facts by (simp add: Duration_times_def Duration_eq_iff saturate_def)
  next
    case False
    then have "positiveValueOrClampToZero k = of_int k" by (simp add: positiveValueOrClampToZero_def)
    then have "unat (of_int k :: u64) = nat k" using clamp_unat [OF k] by simp
    moreover from this have "(of_int k :: u64) \<noteq> 0" using False by (metis nat_0_iff unat_0)
    ultimately show ?thesis using False multiplyWith_nsecs [OF d, of "of_int k"] by (simp add: Duration_times_def Duration_eq_iff)
  qed
  then show "nsecs (Duration_times d k) = saturate (nsecs d * nat k)" "valid_duration (Duration_times d k)" by blast+
qed

subsection \<open>The arithmetic is that of saturated numbers\<close>

text \<open>
  C33: on durations whose nanoseconds are less than a second, comparison, addition, subtraction and multiplication with a
  64-bit number are those of the numbers of nanoseconds, saturated at the largest duration, with no overflow in between; the results have this form again.
\<close>

theorem duration_is_saturated_arithmetic:
  assumes "valid_duration a" "valid_duration b" "k < 2 ^ 64"
  shows "(Duration_less a b \<longleftrightarrow> nsecs a < nsecs b) \<and> (Duration_lesseq a b \<longleftrightarrow> nsecs a \<le> nsecs b) \<and> (Duration_eq a b \<longleftrightarrow> nsecs a = nsecs b) \<and>
    nsecs (Duration_plus a b) = min (nsecs a + nsecs b) (nsecs Duration_max) \<and>
    nsecs (Duration_minus a b) = nsecs a - nsecs b \<and>
    nsecs (Duration_times a k) = min (nsecs a * nat k) (nsecs Duration_max) \<and>
    valid_duration (Duration_plus a b) \<and> valid_duration (Duration_minus a b) \<and> valid_duration (Duration_times a k)"
  using assms Duration_plus_nsecs [OF assms(1,2)] Duration_minus_nsecs [OF assms(1,2)] Duration_times_nsecs [OF assms(1,3)]
  by (auto simp: Duration_less_nsecs Duration_lesseq_def Duration_greater_less Duration_eq_iff nsecs_inject saturate_def Duration_max_facts)

text \<open>A multiplication that needs the upper half of the multiplicator: 1.5 seconds times \<open>2 ^ 60\<close>.\<close>

lemma duration_is_saturated_arithmetic_witness:
  "nsecs (Duration_times \<lparr> d_seconds = 1, d_nanoseconds = 500000000 \<rparr> 1152921504606846976) = 1729382256910270464000000000 \<and>
   Duration_times \<lparr> d_seconds = 1, d_nanoseconds = 500000000 \<rparr> 1152921504606846976 = \<lparr> d_seconds = 1729382256910270464, d_nanoseconds = 0 \<rparr>"
proof -
  let ?d = "\<lparr> d_seconds = 1, d_nanoseconds = 500000000 \<rparr>"
  have "valid_duration ?d" by code_simp
  from duration_is_saturated_arithmetic [OF this this, of 1152921504606846976]
  have "nsecs (Duration_times ?d 1152921504606846976) = min (nsecs ?d * nat 1152921504606846976) (nsecs Duration_max)" by simp
  then have "nsecs (Duration_times ?d 1152921504606846976) = 1729382256910270464000000000"
    unfolding Duration_max_facts by (simp add: nsecs_def [of ?d] MAX_NSECS_def)
  moreover have "Duration_times ?d 1152921504606846976 = \<lparr> d_seconds = 1729382256910270464, d_nanoseconds = 0 \<rparr>" by code_simp
  ultimately show ?thesis by blast
qed

subsection \<open>Deadline timers\<close>

text \<open>The time that remains and the expiry of a timer agree.\<close>

lemma remainingTime_nsecs:
  assumes "valid_duration start" "valid_duration now" "valid_duration wait"
  shows "nsecs (remainingTime now (DeadlineTimer_ctor start wait)) = saturate (nsecs start + nsecs wait) - nsecs now"
    "hasExpired now (DeadlineTimer_ctor start wait) \<longleftrightarrow> nsecs (remainingTime now (DeadlineTimer_ctor start wait)) = 0"
proof -
  note e = Duration_plus_nsecs [OF assms(1,3)]
  show *: "nsecs (remainingTime now (DeadlineTimer_ctor start wait)) = saturate (nsecs start + nsecs wait) - nsecs now"
    using e assms(2) Duration_minus_nsecs(1) [OF e(2) assms(2)] from_nsecs(2) [of 0]
    by (auto simp: remainingTime_def DeadlineTimer_ctor_def Duration_greater_less Duration_less_nsecs)
  show "hasExpired now (DeadlineTimer_ctor start wait) \<longleftrightarrow> nsecs (remainingTime now (DeadlineTimer_ctor start wait)) = 0"
    unfolding * using e assms(2) by (auto simp: hasExpired_def DeadlineTimer_ctor_def Duration_greatereq_def Duration_less_nsecs)
qed

end
