(* ===== verification/Process_Manager.thy ===== *)
theory Process_Manager
  imports Ownership Port_Options Relative_Pointer Duration
begin

section \<open>Processes\<close>

text \<open>
  \<open>roudi::Process\<close> (\<open>process.cpp\<close>), \<open>roudi::ProcessIntrospection\<close> (\<open>process_introspection.inl\<close>), the search of
  \<open>mepoo::SegmentManager\<close> for a writable segment (\<open>segment_manager.inl\<close>) and \<open>roudi::ProcessManager\<close> (\<open>process_manager.cpp\<close>): the
  applications that are registered with RouDi and the ports it creates for them.

  The state has the port manager, the processes, the list of the introspection, the texts that were handed to the
  channels of the applications and the signals that were sent to them. The operating system is an argument: whether a channel takes a text,
  the groups of a user and the result of \<open>kill\<close>. Times are those of the clock in nanoseconds, \<open>now\<close> is its value at the call. A new object gets the identifiers
  and the memory of a \<open>resources\<close> record.
\<close>

record process =
  prc_pid :: u32
  prc_name :: string
  prc_timestamp :: int
  prc_user :: u32
  prc_isMonitored :: bool
  prc_sessionId :: u64

definition Process_ctor :: "int \<Rightarrow> string \<Rightarrow> u32 \<Rightarrow> u32 \<Rightarrow> bool \<Rightarrow> u64 \<Rightarrow> process" where
  "Process_ctor now name pid user isMonitored sessionId =
     \<lparr> prc_pid = pid, prc_name = name, prc_timestamp = now, prc_user = user, prc_isMonitored = isMonitored, prc_sessionId = sessionId \<rparr>"

definition setTimestamp :: "int \<Rightarrow> process \<Rightarrow> process" where
  "setTimestamp timestamp p = p\<lparr> prc_timestamp := timestamp \<rparr>"

subsection \<open>The introspection of processes\<close>

record process_introspection_data =
  pid_pid :: u32
  pid_name :: string
  pid_nodes :: "string list"

record process_introspection =
  pin_processList :: "process_introspection_data list"
  pin_processListNewData :: bool

definition MAX_PROCESS_NUMBER :: nat where "MAX_PROCESS_NUMBER = 300"
definition MAX_NODE_PER_PROCESS :: nat where "MAX_NODE_PER_PROCESS = 50"

text \<open>\<open>push_back\<close> and \<open>emplace_back\<close> of a container with a capacity do nothing if it is full.\<close>

definition push_back :: "nat \<Rightarrow> 'a \<Rightarrow> 'a list \<Rightarrow> 'a list" where
  "push_back Capacity x xs = (if length xs < Capacity then xs @ [x] else xs)"

definition Introspection_addProcess :: "u32 \<Rightarrow> string \<Rightarrow> process_introspection \<Rightarrow> process_introspection" where
  "Introspection_addProcess pid name I =
     I\<lparr> pin_processList := push_back MAX_PROCESS_NUMBER \<lparr> pid_pid = pid, pid_name = name, pid_nodes = [] \<rparr> (pin_processList I),
        pin_processListNewData := True \<rparr>"

fun remove_pid :: "u32 \<Rightarrow> process_introspection_data list \<Rightarrow> process_introspection_data list" where
  "remove_pid pid [] = []"
| "remove_pid pid (d # ds) = (if pid_pid d = pid then ds else d # remove_pid pid ds)"

definition Introspection_removeProcess :: "u32 \<Rightarrow> process_introspection \<Rightarrow> process_introspection" where
  "Introspection_removeProcess pid I =
     I\<lparr> pin_processList := remove_pid pid (pin_processList I), pin_processListNewData := True \<rparr>"

definition Introspection_addNode :: "string \<Rightarrow> string \<Rightarrow> process_introspection \<Rightarrow> process_introspection" where
  "Introspection_addNode runtimeName nodeName I =
     I\<lparr> pin_processList := map (\<lambda>d. if pid_name d = runtimeName \<and> nodeName \<notin> set (pid_nodes d)
                                      then d\<lparr> pid_nodes := push_back MAX_NODE_PER_PROCESS nodeName (pid_nodes d) \<rparr> else d) (pin_processList I),
        pin_processListNewData := True \<rparr>"

definition Introspection_removeNode :: "string \<Rightarrow> string \<Rightarrow> process_introspection \<Rightarrow> process_introspection" where
  "Introspection_removeNode runtimeName nodeName I =
     I\<lparr> pin_processList := map (\<lambda>d. if pid_name d = runtimeName then d\<lparr> pid_nodes := remove1 nodeName (pid_nodes d) \<rparr> else d) (pin_processList I),
        pin_processListNewData := True \<rparr>"

subsection \<open>Writable segments\<close>

text \<open>The first segment, by the order of the groups of the user and then of the segments, whose writer group the user is in.\<close>

fun find_segment :: "string \<Rightarrow> nat \<Rightarrow> string list \<Rightarrow> nat option" where
  "find_segment groupID i [] = None"
| "find_segment groupID i (writerGroup # segments) =
     (if writerGroup = groupID then Some i else find_segment groupID (Suc i) segments)"

fun getSegmentInformationWithWriteAccessForUser :: "string list \<Rightarrow> string list \<Rightarrow> nat option" where
  "getSegmentInformationWithWriteAccessForUser [] writerGroups = None"
| "getSegmentInformationWithWriteAccessForUser (groupID # groups) writerGroups =
     (case find_segment groupID 0 writerGroups of
        Some i \<Rightarrow> Some i | None \<Rightarrow> getSegmentInformationWithWriteAccessForUser groups writerGroups)"

subsection \<open>The manager\<close>

datatype signal = SIGTERM | SIGKILL

definition EPERM :: int where "EPERM = 1"
definition ESRCH :: int where "ESRCH = 3"
definition EINVAL :: int where "EINVAL = 22"

record process_manager =
  prm_processList :: "process list"
  prm_ports :: roudi_ports
  prm_introspection :: process_introspection
  prm_sent :: "(string \<times> string) list"
  prm_signals :: "(u32 \<times> signal) list"

text \<open>
  The addresses of the objects in the pool by their place. The data segment whose memory manager the port manager has is the only one.
\<close>

record process_manager_config =
  prc_roudi :: roudi_config
  prc_roudiPid :: u32
  prc_version :: version_info
  prc_compatibilityCheckLevel :: compatibility_check_level
  prc_repository :: pointer_repository
  prc_repositoryCapacity :: u64
  prc_mgmtSegmentId :: u64
  prc_mgmtMemorySize :: u64
  prc_segmentManager :: u64
  prc_publisherAddress :: "nat \<Rightarrow> u64"
  prc_subscriberAddress :: "nat \<Rightarrow> u64"
  prc_clientAddress :: "nat \<Rightarrow> u64"
  prc_serverAddress :: "nat \<Rightarrow> u64"
  prc_interfaceAddress :: "nat \<Rightarrow> u64"
  prc_nodeAddress :: "nat \<Rightarrow> u64"
  prc_writerGroups :: "string list"
  prc_groupsOfUser :: "u32 \<Rightarrow> string list"
  prc_channelAccepts :: "string \<Rightarrow> string \<Rightarrow> bool"
  prc_kill :: "u32 \<Rightarrow> signal \<Rightarrow> int option"

record resources =
  res_uniqueId :: u64
  res_queueId :: u64
  res_indices :: "u32 list"
  res_rindices :: "u32 list"
  res_buffer :: "capro_message list"

definition sendViaIpcChannel :: "process_manager_config \<Rightarrow> string \<Rightarrow> ipc_message \<Rightarrow> process_manager \<Rightarrow> process_manager outcome" where
  "sendViaIpcChannel cfg name data PM =
     (case IpcInterface_send (prc_channelAccepts cfg name) data of
        Some text \<Rightarrow> Inr (PM\<lparr> prm_sent := prm_sent PM @ [(name, text)] \<rparr>)
      | None \<Rightarrow> errorHandler (ROUDI POSH__ROUDI_PROCESS_SEND_VIA_IPC_CHANNEL_FAILED) MODERATE (Inr PM))"

text \<open>The answer that hands out an object in the management segment, and the one that reports an error.\<close>

definition send_ack :: "process_manager_config \<Rightarrow> ipc_message_type \<Rightarrow> u64 \<Rightarrow> string \<Rightarrow> process_manager \<Rightarrow> process_manager outcome" where
  "send_ack cfg type ptr name PM =
     (let offset = getOffset (prc_repositoryCapacity cfg) (prc_repository cfg) (prc_mgmtSegmentId cfg) ptr
      in sendViaIpcChannel cfg name
           (IpcMessage_ctor_list [IpcMessageTypeToString type, toString_nat (unat offset), toString_nat (unat (prc_mgmtSegmentId cfg))]) PM)"

definition send_error :: "process_manager_config \<Rightarrow> ipc_message_error_type \<Rightarrow> string \<Rightarrow> process_manager \<Rightarrow> process_manager outcome" where
  "send_error cfg error name PM =
     sendViaIpcChannel cfg name (IpcMessage_ctor_list [IpcMessageTypeToString MSG_ERROR, IpcMessageErrorTypeToString error]) PM"

fun findProcess :: "string \<Rightarrow> process list \<Rightarrow> nat option" where
  "findProcess name [] = None"
| "findProcess name (process # processes) =
     (if prc_name process = name then Some 0 else map_option Suc (findProcess name processes))"

text \<open>An operation for a process that is registered; the request of an unknown one is only logged.\<close>

definition for_process :: "string \<Rightarrow> (nat \<Rightarrow> process_manager \<Rightarrow> process_manager outcome) \<Rightarrow> process_manager \<Rightarrow> process_manager outcome" where
  "for_process name f PM = (case findProcess name (prm_processList PM) of None \<Rightarrow> Inr PM | Some i \<Rightarrow> f i PM)"

definition handleProcessShutdownPreparationRequest :: "process_manager_config \<Rightarrow> string \<Rightarrow> process_manager \<Rightarrow> process_manager outcome" where
  "handleProcessShutdownPreparationRequest cfg name = for_process name (\<lambda>i PM.
     obind (unblockProcessShutdown (prc_roudi cfg) name (prm_ports PM)) (\<lambda>N.
     sendViaIpcChannel cfg name (IpcMessage_ctor_list [IpcMessageTypeToString MSG_PREPARE_APP_TERMINATION_ACK]) (PM\<lparr> prm_ports := N \<rparr>)))"

subsection \<open>The end of processes\<close>

definition evaluateKillError :: "int \<Rightarrow> process_manager \<Rightarrow> process_manager outcome" where
  "evaluateKillError errnum PM =
     (if errnum = EINVAL \<or> errnum = EPERM \<or> errnum = ESRCH
      then errorHandler (ROUDI POSH__ROUDI_PROCESS_SHUTDOWN_FAILED) SEVERE (Inr PM)
      else errorHandler (ROUDI POSH__ROUDI_PROCESS_SHUTDOWN_FAILED) SEVERE (Inr PM))"

definition requestShutdownOfProcess :: "process_manager_config \<Rightarrow> process \<Rightarrow> signal \<Rightarrow> process_manager \<Rightarrow> (bool \<times> process_manager) outcome" where
  "requestShutdownOfProcess cfg process shutdownPolicy PM =
     (let PM = PM\<lparr> prm_signals := prm_signals PM @ [(prc_pid process, shutdownPolicy)] \<rparr>
      in case prc_kill cfg (prc_pid process) shutdownPolicy of
           None \<Rightarrow> Inr (True, PM)
         | Some errnum \<Rightarrow> obind (evaluateKillError errnum PM) (\<lambda>PM1. Inr (False, PM1)))"

fun shutdown_loop :: "process_manager_config \<Rightarrow> signal \<Rightarrow> process list \<Rightarrow> process_manager \<Rightarrow> process_manager outcome" where
  "shutdown_loop cfg policy [] PM = Inr PM"
| "shutdown_loop cfg policy (process # processes) PM =
     obind (requestShutdownOfProcess cfg process policy PM) (\<lambda>(_, PM1). shutdown_loop cfg policy processes PM1)"

definition requestShutdownOfAllProcesses :: "process_manager_config \<Rightarrow> process_manager \<Rightarrow> process_manager outcome" where
  "requestShutdownOfAllProcesses cfg PM =
     obind (shutdown_loop cfg SIGTERM (prm_processList PM) PM) (\<lambda>PM1.
     obind (unblockRouDiShutdown (prc_roudi cfg) (prm_ports PM1)) (\<lambda>N. Inr (PM1\<lparr> prm_ports := N \<rparr>)))"

text \<open>\<open>isProcessAlive\<close> sends the signal again; only the answer that there is no such process counts as its end.\<close>

definition isProcessAlive :: "process_manager_config \<Rightarrow> process \<Rightarrow> process_manager \<Rightarrow> (bool \<times> process_manager) outcome" where
  "isProcessAlive cfg process PM =
     (let PM = PM\<lparr> prm_signals := prm_signals PM @ [(prc_pid process, SIGTERM)] \<rparr>
      in case prc_kill cfg (prc_pid process) SIGTERM of
           None \<Rightarrow> Inr (True, PM)
         | Some errnum \<Rightarrow> if errnum = ESRCH then Inr (False, PM) else obind (evaluateKillError errnum PM) (\<lambda>PM1. Inr (True, PM1)))"

fun alive_loop :: "process_manager_config \<Rightarrow> process list \<Rightarrow> process_manager \<Rightarrow> (bool \<times> process_manager) outcome" where
  "alive_loop cfg [] PM = Inr (False, PM)"
| "alive_loop cfg (process # processes) PM =
     obind (isProcessAlive cfg process PM) (\<lambda>(alive, PM1). if alive then Inr (True, PM1) else alive_loop cfg processes PM1)"

definition isAnyRegisteredProcessStillRunning :: "process_manager_config \<Rightarrow> process_manager \<Rightarrow> (bool \<times> process_manager) outcome" where
  "isAnyRegisteredProcessStillRunning cfg PM = alive_loop cfg (prm_processList PM) PM"

definition killAllProcesses :: "process_manager_config \<Rightarrow> process_manager \<Rightarrow> process_manager outcome" where
  "killAllProcesses cfg PM = shutdown_loop cfg SIGKILL (prm_processList PM) PM"

definition printWarningForRegisteredProcessesAndClearProcessList :: "process_manager \<Rightarrow> process_manager" where
  "printWarningForRegisteredProcessesAndClearProcessList PM = PM\<lparr> prm_processList := [] \<rparr>"

subsection \<open>Registration\<close>

definition addProcess ::
  "process_manager_config \<Rightarrow> int \<Rightarrow> string \<Rightarrow> u32 \<Rightarrow> u32 \<Rightarrow> bool \<Rightarrow> int \<Rightarrow> u64 \<Rightarrow> version_info \<Rightarrow> process_manager \<Rightarrow>
     (bool \<times> process_manager) outcome" where
  "addProcess cfg now name pid user isMonitored transmissionTimestamp sessionId versionInfo PM =
     (if \<not> checkCompatibility (prc_version cfg) versionInfo (prc_compatibilityCheckLevel cfg) then Inr (False, PM)
      else if length (prm_processList PM) \<ge> MAX_PROCESS_NUMBER then Inr (False, PM)
      else (let process = Process_ctor now name pid user isMonitored sessionId;
                PM1 = PM\<lparr> prm_processList := prm_processList PM @ [process] \<rparr>;
                offset = getOffset (prc_repositoryCapacity cfg) (prc_repository cfg) (prc_mgmtSegmentId cfg) (prc_segmentManager cfg)
            in obind (sendViaIpcChannel cfg name
                        (IpcMessage_ctor_list [IpcMessageTypeToString MSG_REG_ACK, toString_nat (unat (prc_mgmtMemorySize cfg)),
                           toString_nat (unat offset), toString_int transmissionTimestamp, toString_nat (unat (prc_mgmtSegmentId cfg))]) PM1) (\<lambda>PM2.
               Inr (True, PM2\<lparr> prm_processList := butlast (prm_processList PM2) @ [setTimestamp now (last (prm_processList PM2))],
                                prm_introspection := Introspection_addProcess pid name (prm_introspection PM2) \<rparr>))))"

datatype termination_feedback = SEND_ACK_TO_PROCESS | DO_NOT_SEND_ACK_TO_PROCESS

text \<open>The iterator is the place of the process in the list.\<close>

definition remove_at :: "nat \<Rightarrow> 'a list \<Rightarrow> 'a list" where
  "remove_at i xs = take i xs @ drop (Suc i) xs"

definition removeProcessAndDeleteRespectiveSharedMemoryObjects ::
  "process_manager_config \<Rightarrow> nat \<Rightarrow> termination_feedback \<Rightarrow> process_manager \<Rightarrow> (bool \<times> process_manager) outcome" where
  "removeProcessAndDeleteRespectiveSharedMemoryObjects cfg i feedback PM =
     (if i < length (prm_processList PM)
      then (let process = prm_processList PM ! i
            in obind (deletePortsOfProcess (prc_roudi cfg) (prc_name process) (prm_ports PM)) (\<lambda>N.
               let PM1 = PM\<lparr> prm_ports := N, prm_introspection := Introspection_removeProcess (prc_pid process) (prm_introspection PM) \<rparr>
               in obind (if feedback = SEND_ACK_TO_PROCESS
                         then sendViaIpcChannel cfg (prc_name process) (IpcMessage_ctor_list [IpcMessageTypeToString MSG_TERMINATION_ACK]) PM1
                         else Inr PM1) (\<lambda>PM2.
                  Inr (True, PM2\<lparr> prm_processList := remove_at i (prm_processList PM2) \<rparr>))))
      else Inr (False, PM))"

fun search_and_remove ::
  "process_manager_config \<Rightarrow> string \<Rightarrow> termination_feedback \<Rightarrow> nat \<Rightarrow> process list \<Rightarrow> process_manager \<Rightarrow> (bool \<times> process_manager) outcome" where
  "search_and_remove cfg name feedback i [] PM = Inr (False, PM)"
| "search_and_remove cfg name feedback i (process # processes) PM =
     (if name = prc_name process
      then obind (removeProcessAndDeleteRespectiveSharedMemoryObjects cfg i feedback PM) (\<lambda>(_, PM1). Inr (True, PM1))
      else search_and_remove cfg name feedback (Suc i) processes PM)"

definition searchForProcessAndRemoveIt ::
  "process_manager_config \<Rightarrow> string \<Rightarrow> termination_feedback \<Rightarrow> process_manager \<Rightarrow> (bool \<times> process_manager) outcome" where
  "searchForProcessAndRemoveIt cfg name feedback PM = search_and_remove cfg name feedback 0 (prm_processList PM) PM"

definition registerProcess ::
  "process_manager_config \<Rightarrow> int \<Rightarrow> string \<Rightarrow> u32 \<Rightarrow> u32 \<Rightarrow> bool \<Rightarrow> int \<Rightarrow> u64 \<Rightarrow> version_info \<Rightarrow> process_manager \<Rightarrow>
     (bool \<times> process_manager) outcome" where
  "registerProcess cfg now name pid user isMonitored transmissionTimestamp sessionId versionInfo PM =
     (case findProcess name (prm_processList PM) of
        Some _ \<Rightarrow>
          obind (searchForProcessAndRemoveIt cfg name DO_NOT_SEND_ACK_TO_PROCESS PM) (\<lambda>(removed, PM1).
          if \<not> removed then Inr (False, PM1)
          else addProcess cfg now name pid user isMonitored transmissionTimestamp sessionId versionInfo PM1)
      | None \<Rightarrow> addProcess cfg now name pid user isMonitored transmissionTimestamp sessionId versionInfo PM)"

definition unregisterProcess :: "process_manager_config \<Rightarrow> string \<Rightarrow> process_manager \<Rightarrow> (bool \<times> process_manager) outcome" where
  "unregisterProcess cfg name PM =
     obind (searchForProcessAndRemoveIt cfg name SEND_ACK_TO_PROCESS PM) (\<lambda>(removed, PM1). Inr (removed, PM1))"

definition updateLivelinessOfProcess :: "int \<Rightarrow> string \<Rightarrow> process_manager \<Rightarrow> process_manager outcome" where
  "updateLivelinessOfProcess now name = for_process name (\<lambda>i PM.
     Inr (PM\<lparr> prm_processList := (prm_processList PM)[i := setTimestamp now (prm_processList PM ! i)] \<rparr>))"

subsection \<open>Objects for processes\<close>

text \<open>A null pointer is the address 0.\<close>

definition pointer_to :: "(nat \<Rightarrow> u64) \<Rightarrow> nat pointer \<Rightarrow> u64" where
  "pointer_to address p = (case p of None \<Rightarrow> 0 | Some i \<Rightarrow> address i)"

definition addInterfaceForProcess ::
  "process_manager_config \<Rightarrow> resources \<Rightarrow> string \<Rightarrow> interfaces \<Rightarrow> string \<Rightarrow> process_manager \<Rightarrow> process_manager outcome" where
  "addInterfaceForProcess cfg res name interface node = for_process name (\<lambda>_ PM.
     obind (acquireInterfacePortData (prc_roudi cfg) interface name (res_uniqueId res) (res_buffer res) (prm_ports PM)) (\<lambda>(port, N).
     send_ack cfg MSG_CREATE_INTERFACE_ACK (pointer_to (prc_interfaceAddress cfg) port) name (PM\<lparr> prm_ports := N \<rparr>)))"

definition addNodeForProcess :: "process_manager_config \<Rightarrow> string \<Rightarrow> string \<Rightarrow> process_manager \<Rightarrow> process_manager outcome" where
  "addNodeForProcess cfg runtimeName nodeName = for_process runtimeName (\<lambda>_ PM.
     obind (acquireNodeData (prc_roudi cfg) runtimeName nodeName (prm_ports PM)) (\<lambda>(r, N).
     let PM1 = PM\<lparr> prm_ports := N \<rparr>
     in case r of
          Inr nodeData \<Rightarrow>
            obind (send_ack cfg MSG_CREATE_NODE_ACK (prc_nodeAddress cfg nodeData) runtimeName PM1) (\<lambda>PM2.
            Inr (PM2\<lparr> prm_introspection := Introspection_addNode runtimeName nodeName (prm_introspection PM2) \<rparr>))
        | Inl error \<Rightarrow>
            sendViaIpcChannel cfg runtimeName
              (IpcMessage_ctor_list (IpcMessageTypeToString MSG_ERROR #
                 (if error = NODE_DATA_LIST_FULL then [IpcMessageErrorTypeToString ERR_NODE_DATA_LIST_FULL] else []))) PM1))"

definition sendMessageNotSupportedToRuntime :: "process_manager_config \<Rightarrow> string \<Rightarrow> process_manager \<Rightarrow> process_manager outcome" where
  "sendMessageNotSupportedToRuntime cfg name = for_process name (\<lambda>_ PM.
     sendViaIpcChannel cfg name (IpcMessage_ctor_list [IpcMessageTypeToString MSG_MESSAGE_NOT_SUPPORTED]) PM)"

definition addSubscriberForProcess ::
  "process_manager_config \<Rightarrow> resources \<Rightarrow> string \<Rightarrow> service_description \<Rightarrow> subscriber_options \<Rightarrow> port_config_info \<Rightarrow> process_manager \<Rightarrow>
     process_manager outcome" where
  "addSubscriberForProcess cfg res name service subscriberOptions portConfigInfo = for_process name (\<lambda>_ PM.
     obind (acquireSubscriberPortData (rdc_ports (prc_roudi cfg)) service subscriberOptions name (res_uniqueId res) (res_queueId res)
              (res_rindices res) (rp_ports (prm_ports PM))) (\<lambda>(maybeSubscriber, M).
     let PM1 = PM\<lparr> prm_ports := (prm_ports PM)\<lparr> rp_ports := M \<rparr> \<rparr>
     in case maybeSubscriber of
          Inr j \<Rightarrow> send_ack cfg MSG_CREATE_SUBSCRIBER_ACK (prc_subscriberAddress cfg j) name PM1
        | Inl _ \<Rightarrow> send_error cfg ERR_SUBSCRIBER_LIST_FULL name PM1))"

definition writable_segment :: "process_manager_config \<Rightarrow> nat \<Rightarrow> process_manager \<Rightarrow> bool" where
  "writable_segment cfg i PM \<longleftrightarrow>
     getSegmentInformationWithWriteAccessForUser (prc_groupsOfUser cfg (prc_user (prm_processList PM ! i))) (prc_writerGroups cfg) \<noteq> None"

definition addPublisherForProcess ::
  "process_manager_config \<Rightarrow> resources \<Rightarrow> string \<Rightarrow> service_description \<Rightarrow> publisher_options \<Rightarrow> port_config_info \<Rightarrow> process_manager \<Rightarrow>
     process_manager outcome" where
  "addPublisherForProcess cfg res name service publisherOptions portConfigInfo = for_process name (\<lambda>i PM.
     if \<not> writable_segment cfg i PM then send_error cfg ERR_REQUEST_PUBLISHER_NO_WRITABLE_SHM_SEGMENT name PM
     else obind (acquirePublisherPortData (rdc_ports (prc_roudi cfg)) service publisherOptions name (res_uniqueId res) (res_indices res)
                   (rp_ports (prm_ports PM))) (\<lambda>(maybePublisher, M).
          let PM1 = PM\<lparr> prm_ports := (prm_ports PM)\<lparr> rp_ports := M \<rparr> \<rparr>
          in case maybePublisher of
               Inr j \<Rightarrow> send_ack cfg MSG_CREATE_PUBLISHER_ACK (prc_publisherAddress cfg j) name PM1
             | Inl error \<Rightarrow>
                 send_error cfg
                   (if error = UNIQUE_PUBLISHER_PORT_ALREADY_EXISTS then ERR_NO_UNIQUE_CREATED
                    else if error = INTERNAL_SERVICE_DESCRIPTION_IS_FORBIDDEN then ERR_INTERNAL_SERVICE_DESCRIPTION_IS_FORBIDDEN
                    else ERR_PUBLISHER_LIST_FULL) name PM1))"

definition addClientForProcess ::
  "process_manager_config \<Rightarrow> resources \<Rightarrow> string \<Rightarrow> service_description \<Rightarrow> client_options \<Rightarrow> port_config_info \<Rightarrow> process_manager \<Rightarrow>
     process_manager outcome" where
  "addClientForProcess cfg res name service clientOptions portConfigInfo = for_process name (\<lambda>i PM.
     if \<not> writable_segment cfg i PM then send_error cfg ERR_REQUEST_CLIENT_NO_WRITABLE_SHM_SEGMENT name PM
     else obind (acquireClientPortData (prc_roudi cfg) service clientOptions name (res_uniqueId res) (res_queueId res) (res_indices res)
                   (res_rindices res) (prm_ports PM)) (\<lambda>(clientPort, N).
          let PM1 = PM\<lparr> prm_ports := N \<rparr>
          in case clientPort of
               Inr j \<Rightarrow> send_ack cfg MSG_CREATE_CLIENT_ACK (prc_clientAddress cfg j) name PM1
             | Inl _ \<Rightarrow> send_error cfg ERR_CLIENT_LIST_FULL name PM1))"

definition addServerForProcess ::
  "process_manager_config \<Rightarrow> resources \<Rightarrow> string \<Rightarrow> service_description \<Rightarrow> server_options \<Rightarrow> port_config_info \<Rightarrow> process_manager \<Rightarrow>
     process_manager outcome" where
  "addServerForProcess cfg res name service serverOptions portConfigInfo = for_process name (\<lambda>i PM.
     if \<not> writable_segment cfg i PM then send_error cfg ERR_REQUEST_SERVER_NO_WRITABLE_SHM_SEGMENT name PM
     else obind (acquireServerPortData (prc_roudi cfg) service serverOptions name (res_uniqueId res) (res_queueId res) (res_indices res)
                   (res_rindices res) (prm_ports PM)) (\<lambda>(serverPort, N).
          let PM1 = PM\<lparr> prm_ports := N \<rparr>
          in case serverPort of
               Inr j \<Rightarrow> send_ack cfg MSG_CREATE_SERVER_ACK (prc_serverAddress cfg j) name PM1
             | Inl _ \<Rightarrow> send_error cfg ERR_SERVER_LIST_FULL name PM1))"

definition addConditionVariableForProcess :: "process_manager_config \<Rightarrow> string \<Rightarrow> process_manager \<Rightarrow> process_manager outcome" where
  "addConditionVariableForProcess cfg runtimeName = for_process runtimeName (\<lambda>_ PM.
     obind (acquireConditionVariableData (prc_roudi cfg) runtimeName (prm_ports PM)) (\<lambda>(r, N).
     let PM1 = PM\<lparr> prm_ports := N \<rparr>
     in case r of
          Inr condVar \<Rightarrow> send_ack cfg MSG_CREATE_CONDITION_VARIABLE_ACK (rdc_conditionVariableAddress (prc_roudi cfg) condVar) runtimeName PM1
        | Inl error \<Rightarrow>
            sendViaIpcChannel cfg runtimeName
              (IpcMessage_ctor_list (IpcMessageTypeToString MSG_ERROR #
                 (if error = CONDITION_VARIABLE_LIST_FULL then [IpcMessageErrorTypeToString ERR_CONDITION_VARIABLE_LIST_FULL] else []))) PM1))"

subsection \<open>Monitoring\<close>

text \<open>\<open>PROCESS_KEEP_ALIVE_TIMEOUT\<close>: five times the interval of three discoveries of 100 milliseconds.\<close>

definition PROCESS_KEEP_ALIVE_TIMEOUT :: duration where
  "PROCESS_KEEP_ALIVE_TIMEOUT = Duration_times (Duration_times (fromMilliseconds 100) 3) 5"

definition not_responding :: "int \<Rightarrow> process \<Rightarrow> bool" where
  "not_responding currentTimestamp process \<longleftrightarrow>
     prc_isMonitored process \<and> Duration_greater (fromNanoseconds (currentTimestamp - prc_timestamp process)) PROCESS_KEEP_ALIVE_TIMEOUT"

text \<open>The loop goes through the processes; the processes before the iterator stay.\<close>

fun monitor_loop :: "process_manager_config \<Rightarrow> int \<Rightarrow> nat \<Rightarrow> process list \<Rightarrow> process_manager \<Rightarrow> process_manager outcome" where
  "monitor_loop cfg currentTimestamp i [] PM = Inr PM"
| "monitor_loop cfg currentTimestamp i (process # processes) PM =
     (if not_responding currentTimestamp process
      then obind (deletePortsOfProcess (prc_roudi cfg) (prc_name process) (prm_ports PM)) (\<lambda>N.
           monitor_loop cfg currentTimestamp i processes
             (PM\<lparr> prm_ports := N, prm_introspection := Introspection_removeProcess (prc_pid process) (prm_introspection PM),
                  prm_processList := remove_at i (prm_processList PM) \<rparr>))
      else monitor_loop cfg currentTimestamp (Suc i) processes PM)"

definition monitorProcesses :: "process_manager_config \<Rightarrow> int \<Rightarrow> process_manager \<Rightarrow> process_manager outcome" where
  "monitorProcesses cfg now PM = monitor_loop cfg now 0 (prm_processList PM) PM"

definition discoveryUpdate :: "process_manager_config \<Rightarrow> process_manager \<Rightarrow> process_manager outcome" where
  "discoveryUpdate cfg PM = obind (doDiscovery (prc_roudi cfg) (prm_ports PM)) (\<lambda>N. Inr (PM\<lparr> prm_ports := N \<rparr>))"

definition ProcessManager_run :: "process_manager_config \<Rightarrow> int \<Rightarrow> process_manager \<Rightarrow> process_manager outcome" where
  "ProcessManager_run cfg now PM = obind (monitorProcesses cfg now PM) (\<lambda>PM1. discoveryUpdate cfg PM1)"

definition INTROSPECTION_NODE_NAME :: string where "INTROSPECTION_NODE_NAME = ''introspection''"

definition addIntrospectionPublisherPort ::
  "process_manager_config \<Rightarrow> resources \<Rightarrow> service_description \<Rightarrow> process_manager \<Rightarrow> (nat \<times> process_manager) outcome" where
  "addIntrospectionPublisherPort cfg res service PM =
     (let options = \<lparr> po_historyCapacity = 1, po_nodeName = INTROSPECTION_NODE_NAME, po_offerOnCreate = True,
                      po_subscriberTooSlowPolicy = DISCARD_OLDEST_DATA_OF_CONSUMER \<rparr>
      in obind (acquireInternalPublisherPortData (rdc_ports (prc_roudi cfg)) service options (res_uniqueId res) (res_indices res)
                  (rp_ports (prm_ports PM))) (\<lambda>(i, M).
         Inr (i, PM\<lparr> prm_ports := (prm_ports PM)\<lparr> rp_ports := M \<rparr> \<rparr>)))"

section \<open>Processes and their ports\<close>

text \<open>
  The names of the processes are distinct, there are at most as many as the list can hold, the introspection lists
  no process identifier but those of RouDi and of these processes, and every port and every node belongs to a registered process or to RouDi.
\<close>

abbreviation process_names :: "process_manager \<Rightarrow> string list" where
  "process_names PM \<equiv> map prc_name (prm_processList PM)"

definition process_manager_ok :: "process_manager_config \<Rightarrow> process_manager \<Rightarrow> bool" where
  "process_manager_ok cfg PM \<longleftrightarrow> distinct (process_names PM) \<and> length (prm_processList PM) \<le> MAX_PROCESS_NUMBER \<and>
     mset (map pid_pid (pin_processList (prm_introspection PM))) \<subseteq># add_mset (prc_roudiPid cfg) (mset (map prc_pid (prm_processList PM))) \<and>
     names (prm_ports PM) \<subseteq> insert (pmc_roudiName (rdc_ports (prc_roudi cfg))) (set (process_names PM))"

inductive process_manager_step :: "process_manager_config \<Rightarrow> process_manager \<Rightarrow> process_manager \<Rightarrow> bool" for cfg where
  step_register: "registerProcess cfg now name pid user isMonitored transmissionTimestamp sessionId versionInfo PM = Inr (r, PM') \<Longrightarrow> process_manager_step cfg PM PM'"
| step_unregister: "unregisterProcess cfg name PM = Inr (r, PM') \<Longrightarrow> process_manager_step cfg PM PM'"
| step_prepareShutdown: "handleProcessShutdownPreparationRequest cfg name PM = Inr PM' \<Longrightarrow> process_manager_step cfg PM PM'"
| step_liveliness: "updateLivelinessOfProcess now name PM = Inr PM' \<Longrightarrow> process_manager_step cfg PM PM'"
| step_notSupported: "sendMessageNotSupportedToRuntime cfg name PM = Inr PM' \<Longrightarrow> process_manager_step cfg PM PM'"
| step_addInterface: "addInterfaceForProcess cfg res name interface node PM = Inr PM' \<Longrightarrow> process_manager_step cfg PM PM'"
| step_addNode: "addNodeForProcess cfg name node PM = Inr PM' \<Longrightarrow> process_manager_step cfg PM PM'"
| step_addSubscriber: "addSubscriberForProcess cfg res name service soptions portConfigInfo PM = Inr PM' \<Longrightarrow> process_manager_step cfg PM PM'"
| step_addPublisher: "addPublisherForProcess cfg res name service poptions portConfigInfo PM = Inr PM' \<Longrightarrow> process_manager_step cfg PM PM'"
| step_addClient: "addClientForProcess cfg res name service coptions portConfigInfo PM = Inr PM' \<Longrightarrow> process_manager_step cfg PM PM'"
| step_addServer: "addServerForProcess cfg res name service voptions portConfigInfo PM = Inr PM' \<Longrightarrow> process_manager_step cfg PM PM'"
| step_addConditionVariable: "addConditionVariableForProcess cfg name PM = Inr PM' \<Longrightarrow> process_manager_step cfg PM PM'"
| step_introspectionPort: "addIntrospectionPublisherPort cfg res service PM = Inr (i, PM') \<Longrightarrow> process_manager_step cfg PM PM'"
| step_run: "ProcessManager_run cfg now PM = Inr PM' \<Longrightarrow> process_manager_step cfg PM PM'"
| step_shutdown: "requestShutdownOfAllProcesses cfg PM = Inr PM' \<Longrightarrow> process_manager_step cfg PM PM'"
| step_alive: "isAnyRegisteredProcessStillRunning cfg PM = Inr (r, PM') \<Longrightarrow> process_manager_step cfg PM PM'"
| step_kill: "killAllProcesses cfg PM = Inr PM' \<Longrightarrow> process_manager_step cfg PM PM'"
| step_publisher: "slot (pm_publishers (rp_ports (prm_ports PM))) i = Some p \<Longrightarrow>
    publisher_user_step (popo_config.truncate (rdc_ports (prc_roudi cfg))) (p, rp_popo (prm_ports PM)) (p', P') \<Longrightarrow>
    process_manager_step cfg PM (PM\<lparr> prm_ports := set_popo P' ((prm_ports PM)\<lparr> rp_ports := put_publisher i p' (rp_ports (prm_ports PM)) \<rparr>) \<rparr>)"
| step_subscriber: "slot (pm_subscribers (rp_ports (prm_ports PM))) i = Some s \<Longrightarrow>
    subscriber_user_step (popo_config.truncate (rdc_ports (prc_roudi cfg))) (s, rp_popo (prm_ports PM)) (s', P') \<Longrightarrow>
    process_manager_step cfg PM (PM\<lparr> prm_ports := set_popo P' ((prm_ports PM)\<lparr> rp_ports := put_subscriber i s' (rp_ports (prm_ports PM)) \<rparr>) \<rparr>)"
| step_client: "slot (rp_clients (prm_ports PM)) i = Some c \<Longrightarrow> client_user_step (rdc_rpc (prc_roudi cfg)) (c, rp_popo (prm_ports PM)) (c', P') \<Longrightarrow>
    process_manager_step cfg PM (PM\<lparr> prm_ports := set_popo P' (put_client i c' (prm_ports PM)) \<rparr>)"
| step_server: "slot (rp_servers (prm_ports PM)) i = Some v \<Longrightarrow> server_user_step (rdc_rpc (prc_roudi cfg)) (v, rp_popo (prm_ports PM)) (v', P') \<Longrightarrow>
    process_manager_step cfg PM (PM\<lparr> prm_ports := set_popo P' (put_server i v' (prm_ports PM)) \<rparr>)"

text \<open>What the applications and the operating system are told does not matter for the invariant.\<close>

lemma sendViaIpcChannel_same: "sendViaIpcChannel cfg name m PM = Inr PM' \<Longrightarrow> \<exists>sent. PM' = PM\<lparr> prm_sent := sent \<rparr>"
  by (auto simp: sendViaIpcChannel_def split: option.splits intro: exI [of _ "prm_sent PM"])

lemma send_same:
  "send_ack cfg type ptr name PM = Inr PM' \<Longrightarrow> \<exists>sent. PM' = PM\<lparr> prm_sent := sent \<rparr>"
  "send_error cfg error name PM = Inr PM' \<Longrightarrow> \<exists>sent. PM' = PM\<lparr> prm_sent := sent \<rparr>"
  by (auto simp: send_ack_def send_error_def Let_def dest: sendViaIpcChannel_same)

lemma process_manager_ok_told [simp]:
  "process_manager_ok cfg (PM\<lparr> prm_sent := sent \<rparr>) = process_manager_ok cfg PM"
  "process_manager_ok cfg (PM\<lparr> prm_signals := signals \<rparr>) = process_manager_ok cfg PM"
  by (simp_all add: process_manager_ok_def)

lemma evaluateKillError_same: "evaluateKillError errnum PM = Inr PM' \<Longrightarrow> PM' = PM"
  by (simp add: evaluateKillError_def split: if_splits)

lemma signal_same:
  "requestShutdownOfProcess cfg process policy PM = Inr (r, PM') \<Longrightarrow> \<exists>signals. PM' = PM\<lparr> prm_signals := signals \<rparr>"
  "isProcessAlive cfg process PM = Inr (r, PM') \<Longrightarrow> \<exists>signals. PM' = PM\<lparr> prm_signals := signals \<rparr>"
  by (auto simp: requestShutdownOfProcess_def isProcessAlive_def Let_def split: option.splits if_splits dest!: evaluateKillError_same)

lemma shutdown_loop_same: "shutdown_loop cfg policy processes PM = Inr PM' \<Longrightarrow> \<exists>signals. PM' = PM\<lparr> prm_signals := signals \<rparr>"
proof (induction processes arbitrary: PM)
  case Nil
  then show ?case by (auto intro: exI [of _ "prm_signals PM"])
next
  case (Cons process processes)
  then show ?case by (auto dest!: signal_same(1)) fastforce
qed

lemma alive_loop_same: "alive_loop cfg processes PM = Inr (r, PM') \<Longrightarrow> \<exists>signals. PM' = PM\<lparr> prm_signals := signals \<rparr>"
proof (induction processes arbitrary: PM)
  case Nil
  then show ?case by (auto intro: exI [of _ "prm_signals PM"])
next
  case (Cons process processes)
  then show ?case by (auto dest!: signal_same(2) split: if_splits) fastforce
qed

text \<open>The names of the owners decide.\<close>

lemma process_manager_ok_fewer:
  "process_manager_ok cfg PM \<Longrightarrow> fewer (prm_ports PM) N \<Longrightarrow> process_manager_ok cfg (PM\<lparr> prm_ports := N \<rparr>)"
  unfolding process_manager_ok_def by (auto dest: fewer_names)

lemma process_manager_ok_owner:
  "process_manager_ok cfg PM \<Longrightarrow> owner N = owner (prm_ports PM) \<Longrightarrow> process_manager_ok cfg (PM\<lparr> prm_ports := N \<rparr>)"
  by (rule process_manager_ok_fewer) (auto intro: fewer_eq)

lemma findProcess_Some: "findProcess name ps = Some i \<Longrightarrow> i < length ps \<and> prc_name (ps ! i) = name"
  by (induction ps arbitrary: i) (auto split: if_splits)

lemma findProcess_None: "findProcess name ps = None \<Longrightarrow> name \<notin> prc_name ` set ps"
  by (induction ps) (auto split: if_splits)

lemma process_manager_ok_added:
  assumes "process_manager_ok cfg PM" "findProcess name (prm_processList PM) = Some i" "names N \<subseteq> insert name (names (prm_ports PM))"
  shows "process_manager_ok cfg (PM\<lparr> prm_ports := N \<rparr>)"
proof -
  have "name \<in> set (process_names PM)" using findProcess_Some [OF assms(2)] by (metis image_eqI list.set_map nth_mem)
  then show ?thesis using assms(1, 3) unfolding process_manager_ok_def by auto
qed

lemma for_process_ok:
  assumes "for_process name f PM = Inr PM'" "process_manager_ok cfg PM"
    and "\<And>i. findProcess name (prm_processList PM) = Some i \<Longrightarrow> f i PM = Inr PM' \<Longrightarrow> process_manager_ok cfg PM'"
  shows "process_manager_ok cfg PM'"
  using assms by (auto simp: for_process_def split: option.splits)

subsection \<open>New objects\<close>

lemma answered_ok:
  "(case r of Inl e \<Rightarrow> send_error cfg (f e) name PM1 | Inr j \<Rightarrow> send_ack cfg type (g j) name PM1) = Inr PM' \<Longrightarrow> process_manager_ok cfg PM1 \<Longrightarrow>
     process_manager_ok cfg PM'"
  "(case r of Inl e \<Rightarrow> sendViaIpcChannel cfg name (m e) PM1 | Inr j \<Rightarrow> send_ack cfg type (g j) name PM1) = Inr PM' \<Longrightarrow> process_manager_ok cfg PM1 \<Longrightarrow>
     process_manager_ok cfg PM'"
  by (cases r; auto dest!: send_same sendViaIpcChannel_same)+

lemma add_for_process_ok:
  assumes "process_manager_ok cfg PM"
  shows "addInterfaceForProcess cfg res name interface node PM = Inr PM' \<Longrightarrow> process_manager_ok cfg PM'"
    "addSubscriberForProcess cfg res name service soptions portConfigInfo PM = Inr PM' \<Longrightarrow> process_manager_ok cfg PM'"
    "addPublisherForProcess cfg res name service poptions portConfigInfo PM = Inr PM' \<Longrightarrow> process_manager_ok cfg PM'"
    "addClientForProcess cfg res name service coptions portConfigInfo PM = Inr PM' \<Longrightarrow> process_manager_ok cfg PM'"
    "addServerForProcess cfg res name service voptions portConfigInfo PM = Inr PM' \<Longrightarrow> process_manager_ok cfg PM'"
    "addConditionVariableForProcess cfg name PM = Inr PM' \<Longrightarrow> process_manager_ok cfg PM'"
  unfolding addInterfaceForProcess_def addSubscriberForProcess_def addPublisherForProcess_def addClientForProcess_def addServerForProcess_def
    addConditionVariableForProcess_def
  by (erule for_process_ok [OF _ assms];
      auto simp: assms Let_def split: if_splits elim!: answered_ok
        dest!: send_same sendViaIpcChannel_same acquire_names acquireClientPortData_names acquireServerPortData_names
          acquirePublisherPortData_names [THEN on_ports_names] acquireSubscriberPortData_names [THEN on_ports_names]
        intro!: process_manager_ok_added [OF assms])+

text \<open>The introspection of the nodes keeps the processes.\<close>

lemma Introspection_addNode_pids [simp]: "map pid_pid (pin_processList (Introspection_addNode name node I)) = map pid_pid (pin_processList I)"
  "image_mset pid_pid (mset (pin_processList (Introspection_addNode name node I))) = image_mset pid_pid (mset (pin_processList I))"
  by (auto simp: Introspection_addNode_def simp flip: mset_map intro: arg_cong [of _ _ mset])

lemma addNodeForProcess_ok:
  assumes "process_manager_ok cfg PM" "addNodeForProcess cfg name node PM = Inr PM'"
  shows "process_manager_ok cfg PM'"
proof (rule for_process_ok [OF assms(2) [unfolded addNodeForProcess_def] assms(1)])
  fix i
  assume i: "findProcess name (prm_processList PM) = Some i" and
    run: "obind (acquireNodeData (prc_roudi cfg) name node (prm_ports PM)) (\<lambda>(r, N).
     let PM1 = PM\<lparr> prm_ports := N \<rparr>
     in case r of
          Inr nodeData \<Rightarrow>
            obind (send_ack cfg MSG_CREATE_NODE_ACK (prc_nodeAddress cfg nodeData) name PM1) (\<lambda>PM2.
            Inr (PM2\<lparr> prm_introspection := Introspection_addNode name node (prm_introspection PM2) \<rparr>))
        | Inl error \<Rightarrow>
            sendViaIpcChannel cfg name
              (IpcMessage_ctor_list (IpcMessageTypeToString MSG_ERROR #
                 (if error = NODE_DATA_LIST_FULL then [IpcMessageErrorTypeToString ERR_NODE_DATA_LIST_FULL] else []))) PM1) = Inr PM'"
  then obtain r N where N: "acquireNodeData (prc_roudi cfg) name node (prm_ports PM) = Inr (r, N)" by auto
  have "process_manager_ok cfg (PM\<lparr> prm_ports := N \<rparr>)" using assms(1) i acquire_names(2) [OF N] by (rule process_manager_ok_added)
  with run N show "process_manager_ok cfg PM'"
    by (auto simp: Let_def process_manager_ok_def split: sum.splits dest!: send_same sendViaIpcChannel_same)
qed

lemma addIntrospectionPublisherPort_ok:
  assumes "process_manager_ok cfg PM" "addIntrospectionPublisherPort cfg res service PM = Inr (i, PM')"
  shows "process_manager_ok cfg PM'"
  using assms unfolding process_manager_ok_def
  by (fastforce simp: addIntrospectionPublisherPort_def Let_def dest!: acquireInternalPublisherPortData_names [THEN on_ports_names])

subsection \<open>Messages and signals\<close>

lemma for_process_told_ok:
  assumes "process_manager_ok cfg PM"
  shows "handleProcessShutdownPreparationRequest cfg name PM = Inr PM' \<Longrightarrow> process_manager_ok cfg PM'"
    "updateLivelinessOfProcess now name PM = Inr PM' \<Longrightarrow> process_manager_ok cfg PM'"
    "sendMessageNotSupportedToRuntime cfg name PM = Inr PM' \<Longrightarrow> process_manager_ok cfg PM'"
proof -
  have keep: "map f (ps[i := setTimestamp now (ps ! i)]) = map f ps" if "\<And>p. f (setTimestamp now p) = f p" for ps i and f :: "process \<Rightarrow> 'b"
    using that by (cases "i < length ps") (simp_all add: map_update list_update_same_conv list_update_beyond not_less)
  have t: "process_manager_ok cfg (PM\<lparr> prm_processList := (prm_processList PM)[i := setTimestamp now (prm_processList PM ! i)] \<rparr>)" for i
    using assms keep [of prc_name "prm_processList PM" i] keep [of prc_pid "prm_processList PM" i]
    by (simp add: process_manager_ok_def setTimestamp_def flip: mset_map set_map)
  show "handleProcessShutdownPreparationRequest cfg name PM = Inr PM' \<Longrightarrow> process_manager_ok cfg PM'"
    "updateLivelinessOfProcess now name PM = Inr PM' \<Longrightarrow> process_manager_ok cfg PM'"
    "sendMessageNotSupportedToRuntime cfg name PM = Inr PM' \<Longrightarrow> process_manager_ok cfg PM'"
    unfolding handleProcessShutdownPreparationRequest_def updateLivelinessOfProcess_def sendMessageNotSupportedToRuntime_def
    by (erule for_process_ok [OF _ assms]; auto simp: assms t dest!: sendViaIpcChannel_same unblock_owner intro: process_manager_ok_owner [OF assms])+
qed

lemma signals_ok:
  assumes "process_manager_ok cfg PM"
  shows "requestShutdownOfAllProcesses cfg PM = Inr PM' \<Longrightarrow> process_manager_ok cfg PM'"
    "isAnyRegisteredProcessStillRunning cfg PM = Inr (r, PM') \<Longrightarrow> process_manager_ok cfg PM'"
    "killAllProcesses cfg PM = Inr PM' \<Longrightarrow> process_manager_ok cfg PM'"
  unfolding requestShutdownOfAllProcesses_def isAnyRegisteredProcessStillRunning_def killAllProcesses_def
  by (auto simp: assms dest!: shutdown_loop_same alive_loop_same unblock_owner intro!: process_manager_ok_owner)

subsection \<open>Registration, removal and monitoring\<close>

lemma remove_pid_mset: "mset (map pid_pid (remove_pid pid ds)) = mset (map pid_pid ds) - {#pid#}"
  by (induction ds) auto

lemma remove_at_mset: "i < length xs \<Longrightarrow> mset (map f (remove_at i xs)) = mset (map f xs) - {#f (xs ! i)#}"
  by (subst (2) id_take_nth_drop [of i xs]) (simp_all add: remove_at_def)

lemma remove_at_names:
  assumes "distinct (map f xs)" "i < length xs"
  shows "distinct (map f (remove_at i xs))" "f ` set (remove_at i xs) = f ` set xs - {f (xs ! i)}"
proof -
  have "map f xs = map f (take i xs) @ f (xs ! i) # map f (drop (Suc i) xs)" using id_take_nth_drop [OF assms(2)] by (metis list.simps(9) map_append)
  then have d: "distinct (map f (take i xs) @ f (xs ! i) # map f (drop (Suc i) xs))"
    and s: "f ` set xs = set (map f (take i xs) @ f (xs ! i) # map f (drop (Suc i) xs))" using assms(1) by (metis, metis list.set_map)
  show "distinct (map f (remove_at i xs))" using d by (auto simp: remove_at_def)
  show "f ` set (remove_at i xs) = f ` set xs - {f (xs ! i)}" using d unfolding s by (auto simp: remove_at_def)
qed

lemma remove_at_length: "i < length xs \<Longrightarrow> length (remove_at i xs) = length xs - 1"
  by (auto simp: remove_at_def)

text \<open>A process is removed with all its ports.\<close>

lemma subset_eq_diff_mono: "A \<subseteq># B \<Longrightarrow> A - C \<subseteq># B - (C :: 'a multiset)"
  by (simp add: subseteq_mset_def diff_le_mono)

lemma removed_ok:
  assumes ok: "process_manager_ok cfg PM" and i: "i < length (prm_processList PM)"
    and del: "deletePortsOfProcess (prc_roudi cfg) (prc_name (prm_processList PM ! i)) (prm_ports PM) = Inr N"
    and PM': "prm_processList PM' = remove_at i (prm_processList PM)" "prm_ports PM' = N"
      "prm_introspection PM' = Introspection_removeProcess (prc_pid (prm_processList PM ! i)) (prm_introspection PM)"
  shows "process_manager_ok cfg PM'" "prc_name (prm_processList PM ! i) \<notin> set (process_names PM')"
proof -
  let ?p = "prm_processList PM ! i"
  have ok': "distinct (process_names PM)" "length (prm_processList PM) \<le> MAX_PROCESS_NUMBER"
    "mset (map pid_pid (pin_processList (prm_introspection PM))) \<subseteq># add_mset (prc_roudiPid cfg) (mset (map prc_pid (prm_processList PM)))"
    "names (prm_ports PM) \<subseteq> insert (pmc_roudiName (rdc_ports (prc_roudi cfg))) (set (process_names PM))"
    using ok by (auto simp: process_manager_ok_def)
  note r = remove_at_names [OF ok'(1) i]
  have "distinct (process_names PM')" using r(1) by (simp add: PM')
  moreover have "length (prm_processList PM') \<le> MAX_PROCESS_NUMBER" using ok'(2) remove_at_length [OF i] by (simp add: PM')
  moreover have "mset (map pid_pid (pin_processList (prm_introspection PM'))) \<subseteq># add_mset (prc_roudiPid cfg) (mset (map prc_pid (prm_processList PM')))"
  proof -
    have "prc_pid ?p \<in># mset (map prc_pid (prm_processList PM))" using i by simp
    then obtain M where M: "mset (map prc_pid (prm_processList PM)) = add_mset (prc_pid ?p) M" by (metis mset_add)
    have "mset (map pid_pid (pin_processList (prm_introspection PM'))) = mset (map pid_pid (pin_processList (prm_introspection PM))) - {#prc_pid ?p#}"
      using remove_pid_mset [of "prc_pid ?p" "pin_processList (prm_introspection PM)"] by (simp add: PM' Introspection_removeProcess_def)
    moreover have "mset (map prc_pid (prm_processList PM')) = M" using remove_at_mset [OF i, of prc_pid] by (simp add: PM' M del: mset_map)
    ultimately show ?thesis using subset_eq_diff_mono [OF ok'(3), of "{#prc_pid ?p#}"] by (simp add: M add_mset_commute [of "prc_roudiPid cfg"] del: mset_map)
  qed
  moreover have "names N \<subseteq> names (prm_ports PM) - {prc_name ?p}" using deletePortsOfProcess_owner [OF del] fewer_names by blast
  then have "names (prm_ports PM') \<subseteq> insert (pmc_roudiName (rdc_ports (prc_roudi cfg))) (set (process_names PM'))"
    using ok'(4) r(2) by (auto simp: PM')
  ultimately show "process_manager_ok cfg PM'" by (simp only: process_manager_ok_def)
  show "prc_name ?p \<notin> set (process_names PM')" using r(2) by (simp add: PM')
qed

lemma removeProcess_ok:
  assumes "process_manager_ok cfg PM" "removeProcessAndDeleteRespectiveSharedMemoryObjects cfg i feedback PM = Inr (r, PM')" "i < length (prm_processList PM)"
  shows "process_manager_ok cfg PM'" "prc_name (prm_processList PM ! i) \<notin> set (process_names PM')"
proof -
  obtain N PM2 where N: "deletePortsOfProcess (prc_roudi cfg) (prc_name (prm_processList PM ! i)) (prm_ports PM) = Inr N"
    and PM': "PM' = PM2\<lparr> prm_processList := remove_at i (prm_processList PM2) \<rparr>" and
    PM2: "prm_processList PM2 = prm_processList PM" "prm_ports PM2 = N"
      "prm_introspection PM2 = Introspection_removeProcess (prc_pid (prm_processList PM ! i)) (prm_introspection PM)"
    using assms(2, 3)
    by (auto simp: removeProcessAndDeleteRespectiveSharedMemoryObjects_def Let_def split: if_splits dest!: sendViaIpcChannel_same)
  show "process_manager_ok cfg PM'" "prc_name (prm_processList PM ! i) \<notin> set (process_names PM')"
    by (rule removed_ok [OF assms(1, 3) N]; simp add: PM' PM2)+
qed

lemma search_and_remove_ok:
  assumes "search_and_remove cfg name feedback i (drop i (prm_processList PM)) PM = Inr (r, PM')" "process_manager_ok cfg PM"
    "\<forall>p\<in>set (take i (prm_processList PM)). prc_name p \<noteq> name"
  shows "process_manager_ok cfg PM' \<and> name \<notin> set (process_names PM') \<and> (r \<longleftrightarrow> name \<in> set (process_names PM))"
  using assms(1, 3)
proof (induction "length (prm_processList PM) - i" arbitrary: i)
  case 0
  then show ?case using assms(2) by auto
next
  case (Suc n)
  then have i: "i < length (prm_processList PM)" by simp
  then have d: "drop i (prm_processList PM) = prm_processList PM ! i # drop (Suc i) (prm_processList PM)" by (simp add: Cons_nth_drop_Suc)
  show ?case
  proof (cases "name = prc_name (prm_processList PM ! i)")
    case True
    then obtain r' where "removeProcessAndDeleteRespectiveSharedMemoryObjects cfg i feedback PM = Inr (r', PM')" "r"
      using Suc.prems(1) d by auto
    then show ?thesis using removeProcess_ok [OF assms(2) _ i] True i by auto
  next
    case False
    then have "search_and_remove cfg name feedback (Suc i) (drop (Suc i) (prm_processList PM)) PM = Inr (r, PM')" using Suc.prems(1) d by simp
    moreover have "\<forall>p\<in>set (take (Suc i) (prm_processList PM)). prc_name p \<noteq> name" using Suc.prems(2) False i by (auto simp: take_Suc_conv_app_nth)
    ultimately show ?thesis using Suc.hyps(2) by (intro Suc.hyps(1)) auto
  qed
qed

lemma searchForProcessAndRemoveIt_ok:
  assumes "searchForProcessAndRemoveIt cfg name feedback PM = Inr (r, PM')" "process_manager_ok cfg PM"
  shows "process_manager_ok cfg PM' \<and> name \<notin> set (process_names PM') \<and> (r \<longleftrightarrow> name \<in> set (process_names PM))"
  using search_and_remove_ok [of cfg name feedback 0 PM] assms by (simp add: searchForProcessAndRemoveIt_def)

lemma addProcess_ok:
  assumes "addProcess cfg now name pid user isMonitored transmissionTimestamp sessionId versionInfo PM = Inr (r, PM')"
    and ok: "process_manager_ok cfg PM" and name: "name \<notin> set (process_names PM)"
  shows "process_manager_ok cfg PM'"
proof (cases "checkCompatibility (prc_version cfg) versionInfo (prc_compatibilityCheckLevel cfg) \<and> length (prm_processList PM) < MAX_PROCESS_NUMBER")
  case True
  let ?p = "Process_ctor now name pid user isMonitored sessionId"
  obtain sent where "PM' = PM\<lparr> prm_sent := sent, prm_processList := prm_processList PM @ [setTimestamp now ?p],
      prm_introspection := Introspection_addProcess pid name (prm_introspection PM) \<rparr>"
    using assms(1) True by (auto simp: addProcess_def Let_def dest!: sendViaIpcChannel_same)
  moreover have "add_mset pid M \<subseteq># add_mset r (add_mset pid M')" "M \<subseteq># add_mset r (add_mset pid M')" if "M \<subseteq># add_mset r M'" for M r M'
    using that by (metis add_mset_commute mset_subset_eq_add_mset_cancel) (metis that add_mset_commute subset_mset.dual_order.trans mset_subset_eq_add_right add_mset_add_single union_commute)
  ultimately show ?thesis using True ok name
    by (auto simp: process_manager_ok_def setTimestamp_def Process_ctor_def Introspection_addProcess_def push_back_def)
qed (use assms in \<open>auto simp: addProcess_def not_less split: if_splits\<close>)

lemma registerProcess_ok:
  assumes "registerProcess cfg now name pid user isMonitored transmissionTimestamp sessionId versionInfo PM = Inr (r, PM')" "process_manager_ok cfg PM"
  shows "process_manager_ok cfg PM'"
proof (cases "findProcess name (prm_processList PM)")
  case None
  then show ?thesis using assms findProcess_None [OF None] by (auto simp: registerProcess_def intro: addProcess_ok)
next
  case (Some i)
  then obtain removed PM1 where 1: "searchForProcessAndRemoveIt cfg name DO_NOT_SEND_ACK_TO_PROCESS PM = Inr (removed, PM1)"
    using assms(1) by (auto simp: registerProcess_def)
  then show ?thesis using assms Some searchForProcessAndRemoveIt_ok [OF 1 assms(2)]
    by (auto simp: registerProcess_def split: if_splits intro: addProcess_ok)
qed

lemma unregisterProcess_ok:
  "unregisterProcess cfg name PM = Inr (r, PM') \<Longrightarrow> process_manager_ok cfg PM \<Longrightarrow> process_manager_ok cfg PM'"
  by (auto simp: unregisterProcess_def dest: searchForProcessAndRemoveIt_ok)

lemma monitor_loop_ok:
  "monitor_loop cfg now i ps PM = Inr PM' \<Longrightarrow> ps = drop i (prm_processList PM) \<Longrightarrow> i \<le> length (prm_processList PM) \<Longrightarrow>
     process_manager_ok cfg PM \<Longrightarrow> process_manager_ok cfg PM'"
proof (induction ps arbitrary: i PM)
  case (Cons p ps)
  then have i: "i < length (prm_processList PM)" by (metis drop_eq_Nil2 leI list.distinct(1))
  then have p: "prm_processList PM ! i = p" "drop (Suc i) (prm_processList PM) = ps"
    using Cons.prems(2) by (metis Cons_nth_drop_Suc list.inject)+
  show ?case
  proof (cases "not_responding now p")
    case True
    then obtain N where N: "deletePortsOfProcess (prc_roudi cfg) (prc_name p) (prm_ports PM) = Inr N" using Cons.prems(1) by auto
    let ?PM = "PM\<lparr> prm_ports := N, prm_introspection := Introspection_removeProcess (prc_pid p) (prm_introspection PM),
      prm_processList := remove_at i (prm_processList PM) \<rparr>"
    have "process_manager_ok cfg ?PM" by (rule removed_ok(1) [OF Cons.prems(4) i]) (simp_all add: p N)
    moreover have "drop i (remove_at i (prm_processList PM)) = ps" using i p by (simp add: remove_at_def)
    ultimately show ?thesis using Cons.prems(1) True N i by (intro Cons.IH [of i ?PM]) (auto simp: remove_at_length)
  next
    case False
    then have "monitor_loop cfg now (Suc i) ps PM = Inr PM'" using Cons.prems(1) by simp
    then show ?thesis using Cons.prems(4) i p by (intro Cons.IH [of "Suc i" PM]) auto
  qed
qed simp

lemma ProcessManager_run_ok: "ProcessManager_run cfg now PM = Inr PM' \<Longrightarrow> process_manager_ok cfg PM \<Longrightarrow> process_manager_ok cfg PM'"
  by (auto simp: ProcessManager_run_def monitorProcesses_def discoveryUpdate_def dest!: doDiscovery_fewer monitor_loop_ok intro: process_manager_ok_fewer)

lemmas process_manager_operations_ok = registerProcess_ok unregisterProcess_ok for_process_told_ok add_for_process_ok addNodeForProcess_ok
  addIntrospectionPublisherPort_ok ProcessManager_run_ok signals_ok

lemma process_manager_step_ok: "process_manager_step cfg PM PM' \<Longrightarrow> process_manager_ok cfg PM \<Longrightarrow> process_manager_ok cfg PM'"
proof (induction rule: process_manager_step.induct)
  case (step_publisher PM i p p' P')
  then show ?case using user_step_owner(1) [OF step_publisher(2)]
    by (intro process_manager_ok_owner) (auto simp: owner_def set_popo_def put_owner(1) [OF step_publisher(1)])
next
  case (step_subscriber PM i s s' P')
  then show ?case using user_step_owner(2) [OF step_subscriber(2)]
    by (intro process_manager_ok_owner) (auto simp: owner_def set_popo_def put_owner(2) [OF step_subscriber(1)])
next
  case (step_client PM i c c' P')
  then show ?case using user_step_owner(3) [OF step_client(2)] by (intro process_manager_ok_owner) (auto simp: put_rpc_owner)
next
  case (step_server PM i v v' P')
  then show ?case using user_step_owner(4) [OF step_server(2)] by (intro process_manager_ok_owner) (auto simp: put_rpc_owner)
qed (blast intro: process_manager_operations_ok)+

lemma reachable_process_manager_ok:
  assumes "(process_manager_step cfg)\<^sup>*\<^sup>* PM0 PM" "process_manager_ok cfg PM0"
  shows "process_manager_ok cfg PM"
  using assms by (induction rule: rtranclp_induct) (auto intro: process_manager_step_ok)

subsection \<open>An example\<close>

definition example_version :: version_info where
  "example_version = \<lparr> vi_valid = True, vi_versionMajor = 2, vi_versionMinor = 0, vi_versionPatch = 3, vi_versionTweak = 0,
     vi_buildDateString = ''today'', vi_commitIdString = ''c0ffee'' \<rparr>"

definition example_process_config :: process_manager_config where
  "example_process_config = \<lparr> prc_roudi = example_roudi_config, prc_roudiPid = 1, prc_version = example_version, prc_compatibilityCheckLevel = CHECK_PATCH,
     prc_repository = example_roudi_repository, prc_repositoryCapacity = 4, prc_mgmtSegmentId = 1, prc_mgmtMemorySize = 64, prc_segmentManager = 0x10008,
     prc_publisherAddress = (\<lambda>i. 0x10010), prc_subscriberAddress = (\<lambda>i. 0x10018), prc_clientAddress = (\<lambda>i. 0x10020), prc_serverAddress = (\<lambda>i. 0x10028),
     prc_interfaceAddress = (\<lambda>i. 0x10030), prc_nodeAddress = (\<lambda>i. 0x10038), prc_writerGroups = [''writers''], prc_groupsOfUser = (\<lambda>u. [''users'', ''writers'']),
     prc_channelAccepts = (\<lambda>_ _. True), prc_kill = (\<lambda>_ _. None) \<rparr>"

definition example_resources :: resources where
  "example_resources = \<lparr> res_uniqueId = 1, res_queueId = 10, res_indices = [0, 0], res_rindices = [0, 0], res_buffer = [] \<rparr>"

definition example_processes :: process_manager where
  "example_processes = \<lparr> prm_processList = [], prm_ports = example_roudi, prm_introspection = Introspection_addProcess 1 ''roudi'' \<lparr> pin_processList = [], pin_processListNewData = False \<rparr>,
     prm_sent = [], prm_signals = [] \<rparr>"

definition example_port_config_info :: port_config_info where
  "example_port_config_info = \<lparr> pci_portType = 0, pci_deviceId = 0, pci_memoryType = 0 \<rparr>"

definition example_registered :: process_manager where
  "example_registered = snd (projr (registerProcess example_process_config 5 ''app'' 7 1 True 3 9 example_version example_processes))"

definition example_app_with_client :: process_manager where
  "example_app_with_client = projr (addClientForProcess example_process_config example_resources ''app'' (example_service ''a'') example_client_options
     example_port_config_info example_registered)"

lemma outcome_projr: "\<not> isl r \<Longrightarrow> r = Inr (projr r)" "\<not> isl r' \<Longrightarrow> r' = Inr (fst (projr r'), snd (projr r'))"
  by (cases r; simp) (cases r'; simp)

lemma example_process_run: "(process_manager_step example_process_config)\<^sup>*\<^sup>* example_processes example_app_with_client"
proof -
  have "\<not> isl (registerProcess example_process_config 5 ''app'' 7 1 True 3 9 example_version example_processes)" by code_simp
  from outcome_projr(2) [OF this, folded example_registered_def] have "process_manager_step example_process_config example_processes example_registered"
    by (rule step_register)
  moreover have "\<not> isl (addClientForProcess example_process_config example_resources ''app'' (example_service ''a'') example_client_options
     example_port_config_info example_registered)" by code_simp
  from outcome_projr(1) [OF this, folded example_app_with_client_def] have "process_manager_step example_process_config example_registered example_app_with_client"
    by (rule step_addClient)
  ultimately show ?thesis by simp
qed

text \<open>
  C36: RouDi starts without processes and with no port but its own, and is in the list of the introspection. Whatever sequence of registrations, requests, keep-alive messages, runs of the
  monitoring and discovery, signals, terminations and uses of the ports by the applications follows, the names of the registered processes stay distinct, there are at most
  \<open>MAX_PROCESS_NUMBER\<close> of them, the introspection lists no process identifier but theirs and that of RouDi, and every publisher, subscriber, client, server,
  interface and node belongs to RouDi or to a process that is registered. In particular nothing is left of a process that has been unregistered.
  (The steps do not contain \<open>printWarningForRegisteredProcessesAndClearProcessList\<close>, with which the shutdown of RouDi empties the list while the ports are still there.)
\<close>

theorem ports_belong_to_registered_processes:
  assumes "prm_processList PM0 = []" "map pid_pid (pin_processList (prm_introspection PM0)) = [prc_roudiPid cfg]"
    and "names (prm_ports PM0) \<subseteq> {pmc_roudiName (rdc_ports (prc_roudi cfg))}"
    and "(process_manager_step cfg)\<^sup>*\<^sup>* PM0 PM"
  shows "distinct (process_names PM) \<and> length (prm_processList PM) \<le> MAX_PROCESS_NUMBER \<and>
    mset (map pid_pid (pin_processList (prm_introspection PM))) \<subseteq># add_mset (prc_roudiPid cfg) (mset (map prc_pid (prm_processList PM))) \<and>
    names (prm_ports PM) \<subseteq> insert (pmc_roudiName (rdc_ports (prc_roudi cfg))) (set (process_names PM)) \<and>
    (\<forall>name r PM'. unregisterProcess cfg name PM = Inr (r, PM') \<longrightarrow>
       (r \<longleftrightarrow> name \<in> set (process_names PM)) \<and> name \<notin> set (process_names PM') \<and>
       (name \<noteq> pmc_roudiName (rdc_ports (prc_roudi cfg)) \<longrightarrow> name \<notin> names (prm_ports PM')))"
proof -
  have ok: "process_manager_ok cfg PM"
    using reachable_process_manager_ok [OF assms(4)] assms(1-3) by (auto simp: process_manager_ok_def simp flip: mset_map)
  have "(r \<longleftrightarrow> name \<in> set (process_names PM)) \<and> name \<notin> set (process_names PM') \<and>
       (name \<noteq> pmc_roudiName (rdc_ports (prc_roudi cfg)) \<longrightarrow> name \<notin> names (prm_ports PM'))"
    if "unregisterProcess cfg name PM = Inr (r, PM')" for name r PM'
  proof -
    from that have 1: "searchForProcessAndRemoveIt cfg name SEND_ACK_TO_PROCESS PM = Inr (r, PM')" by (auto simp: unregisterProcess_def)
    from searchForProcessAndRemoveIt_ok [OF this ok] show ?thesis unfolding process_manager_ok_def by blast
  qed
  with ok show ?thesis by (simp add: process_manager_ok_def)
qed

lemma ports_belong_to_registered_processes_witness:
  "distinct (process_names example_app_with_client) \<and> process_names example_app_with_client = [''app''] \<and>
   names (prm_ports example_app_with_client) \<subseteq> {''roudi'', ''app''} \<and> own_clients (owner (prm_ports example_app_with_client)) 0 = Some ''app''"
proof -
  have "names (prm_ports example_processes) \<subseteq> {pmc_roudiName (rdc_ports (prc_roudi example_process_config))}"
    by (auto simp: names_owner owner_def pm_owner_def pm_owners.extend_def example_processes_def example_roudi_def example_manager_def slot_def)
  note start = this [THEN [3] ports_belong_to_registered_processes]
  have n: "process_names example_app_with_client = [''app'']" by code_simp
  have "map_option bpd_runtimeName (slot (rp_clients (prm_ports example_app_with_client)) 0) = Some ''app''" by code_simp
  moreover have "pmc_roudiName (rdc_ports (prc_roudi example_process_config)) = ''roudi''" by code_simp
  ultimately show ?thesis using start [OF _ _ example_process_run] n
    by (auto simp: example_processes_def owner_def pm_owners.extend_def example_process_config_def Introspection_addProcess_def push_back_def MAX_PROCESS_NUMBER_def)
qed

end
