(* ===== verification/RouDi_Messages.thy ===== *)
theory RouDi_Messages
  imports Process_Manager
begin

section \<open>Requests to RouDi\<close>

text \<open>
  The thread of \<open>roudi::RouDi\<close> (\<open>roudi.cpp\<close>) that reads the channel of RouDi: a text becomes a message, and the message a call of the process
  manager. Requests that are malformed are logged and dropped. The objects and the clock are given as in the process manager.
\<close>

record roudi =
  rd_prcMgr :: process_manager
  rd_sessionId :: u64

datatype monitoring_mode = MONITORING_OFF | MONITORING_ON

text \<open>\<open>m_prcMgr->f(...)\<close>.\<close>

definition on_processes :: "(process_manager \<Rightarrow> process_manager outcome) \<Rightarrow> roudi \<Rightarrow> roudi outcome" where
  "on_processes f R = obind (f (rd_prcMgr R)) (\<lambda>PM. Inr (R\<lparr> rd_prcMgr := PM \<rparr>))"

text \<open>\<open>cxx::convert::fromString\<close> leaves its target as it is if the text is not a number of its type.\<close>

definition read_or :: "'a \<Rightarrow> 'a option \<Rightarrow> 'a" where
  "read_or d v = (case v of None \<Rightarrow> d | Some n \<Rightarrow> n)"

definition parseRegisterMessage :: "ipc_message \<Rightarrow> u32 \<times> u32 \<times> int \<times> version_info" where
  "parseRegisterMessage message =
     (read_or 0 (fromString_uint32 (c_str (getElementAtIndex message 2))),
      read_or 0 (fromString_uint32 (c_str (getElementAtIndex message 3))),
      read_or 0 (fromString_int64 (c_str (getElementAtIndex message 4))),
      VersionInfo_of_serialization (getElementAtIndex message 5))"

text \<open>A negative number becomes an enumeration value that has no name; the model has \<open>INTERFACE_END\<close> for it.\<close>

definition StringToCaProInterface :: "string \<Rightarrow> interfaces" where
  "StringToCaProInterface str =
     (let i = read_or 0 (fromString_int32 (c_str str))
      in if i \<ge> int (unat (interface_value INTERFACE_END)) then INTERNAL else interface_of (word_of_int i))"

definition getUniqueSessionIdForProcess :: "roudi \<Rightarrow> u64 \<times> roudi" where
  "getUniqueSessionIdForProcess R = (rd_sessionId R + 1, R\<lparr> rd_sessionId := rd_sessionId R + 1 \<rparr>)"

definition RouDi_registerProcess ::
  "process_manager_config \<Rightarrow> monitoring_mode \<Rightarrow> int \<Rightarrow> string \<Rightarrow> u32 \<Rightarrow> u32 \<Rightarrow> int \<Rightarrow> u64 \<Rightarrow> version_info \<Rightarrow> process_manager \<Rightarrow> process_manager outcome" where
  "RouDi_registerProcess cfg mode now name pid user transmissionTimestamp sessionId versionInfo PM =
     obind (registerProcess cfg now name pid user (mode = MONITORING_ON) transmissionTimestamp sessionId versionInfo PM) (\<lambda>(_, PM1). Inr PM1)"

text \<open>The requests for a port: service, options and configuration are the entries 2 to 4.\<close>

definition create_port ::
  "(string \<Rightarrow> serialization_error + 'o) \<Rightarrow>
     (service_description \<Rightarrow> 'o \<Rightarrow> port_config_info \<Rightarrow> process_manager \<Rightarrow> process_manager outcome) \<Rightarrow> ipc_message \<Rightarrow> roudi \<Rightarrow> roudi outcome" where
  "create_port deserialize_options add message R =
     (if im_numberOfElements message \<noteq> 5 then Inr R
      else case ServiceDescription_deserialize (getElementAtIndex message 2) of Inl _ \<Rightarrow> Inr R
           | Inr service \<Rightarrow>
               (case deserialize_options (getElementAtIndex message 3) of Inl _ \<Rightarrow> Inr R
                | Inr options \<Rightarrow> on_processes (add service options (PortConfigInfo_of_serialization (getElementAtIndex message 4))) R))"

definition processMessage ::
  "process_manager_config \<Rightarrow> monitoring_mode \<Rightarrow> int \<Rightarrow> resources \<Rightarrow> ipc_message \<Rightarrow> ipc_message_type \<Rightarrow> string \<Rightarrow> roudi \<Rightarrow> roudi outcome" where
  "processMessage cfg mode now res message cmd runtimeName R =
     (case cmd of
        MSG_REG \<Rightarrow>
          if im_numberOfElements message \<noteq> 6 then Inr R
          else (case parseRegisterMessage message of (pid, userId, transmissionTimestamp, versionInfo) \<Rightarrow>
                (case getUniqueSessionIdForProcess R of (sessionId, R1) \<Rightarrow>
                 on_processes (RouDi_registerProcess cfg mode now runtimeName pid userId transmissionTimestamp sessionId versionInfo) R1))
      | MSG_CREATE_PUBLISHER \<Rightarrow> create_port PublisherOptions_deserialize (addPublisherForProcess cfg res runtimeName) message R
      | MSG_CREATE_SUBSCRIBER \<Rightarrow> create_port SubscriberOptions_deserialize (addSubscriberForProcess cfg res runtimeName) message R
      | MSG_CREATE_CLIENT \<Rightarrow> create_port ClientOptions_deserialize (addClientForProcess cfg res runtimeName) message R
      | MSG_CREATE_SERVER \<Rightarrow> create_port ServerOptions_deserialize (addServerForProcess cfg res runtimeName) message R
      | MSG_CREATE_CONDITION_VARIABLE \<Rightarrow>
          if im_numberOfElements message \<noteq> 2 then Inr R else on_processes (addConditionVariableForProcess cfg runtimeName) R
      | MSG_CREATE_INTERFACE \<Rightarrow>
          if im_numberOfElements message \<noteq> 4 then Inr R
          else on_processes (addInterfaceForProcess cfg res runtimeName (StringToCaProInterface (take 100 (getElementAtIndex message 2)))
                 (take 100 (getElementAtIndex message 3))) R
      | MSG_CREATE_NODE \<Rightarrow>
          if im_numberOfElements message \<noteq> 3 then Inr R
          else on_processes (addNodeForProcess cfg runtimeName (np_name (NodeProperty_of_serialization (getElementAtIndex message 2)))) R
      | MSG_KEEPALIVE \<Rightarrow> on_processes (updateLivelinessOfProcess now runtimeName) R
      | MSG_PREPARE_APP_TERMINATION \<Rightarrow>
          if im_numberOfElements message \<noteq> 2 then Inr R else on_processes (handleProcessShutdownPreparationRequest cfg runtimeName) R
      | MSG_TERMINATION \<Rightarrow>
          if im_numberOfElements message \<noteq> 2 then Inr R
          else on_processes (\<lambda>PM. obind (unregisterProcess cfg runtimeName PM) (\<lambda>(_, PM1). Inr PM1)) R
      | _ \<Rightarrow> on_processes (sendMessageNotSupportedToRuntime cfg runtimeName) R)"

text \<open>One round of the loop: what the channel had within the time, if anything.\<close>

definition processRuntimeMessages ::
  "process_manager_config \<Rightarrow> monitoring_mode \<Rightarrow> int \<Rightarrow> resources \<Rightarrow> string option \<Rightarrow> roudi \<Rightarrow> roudi outcome" where
  "processRuntimeMessages cfg mode now res received R =
     (case IpcInterface_timedReceive received IpcMessage_ctor of (ok, message) \<Rightarrow>
      if ok
      then (let cmd = stringToIpcMessageType (c_str (getElementAtIndex message 0));
                runtimeName = getElementAtIndex message 1
            in processMessage cfg mode now res message cmd (take 100 runtimeName) R)
      else Inr R)"

text \<open>\<open>monitorAndDiscoveryUpdate\<close>: one round of the other thread.\<close>

definition monitorAndDiscoveryUpdate :: "process_manager_config \<Rightarrow> int \<Rightarrow> roudi \<Rightarrow> roudi outcome" where
  "monitorAndDiscoveryUpdate cfg now = on_processes (ProcessManager_run cfg now)"

subsection \<open>Every message keeps the invariant\<close>

lemma on_processes_ok:
  assumes "on_processes f R = Inr R'" "process_manager_ok cfg (rd_prcMgr R)"
    and "\<And>PM'. f (rd_prcMgr R) = Inr PM' \<Longrightarrow> process_manager_ok cfg PM'"
  shows "process_manager_ok cfg (rd_prcMgr R')"
  using assms by (auto simp: on_processes_def)

lemma create_port_ok:
  assumes "create_port d add message R = Inr R'" "process_manager_ok cfg (rd_prcMgr R)"
    and "\<And>service options i PM'. add service options i (rd_prcMgr R) = Inr PM' \<Longrightarrow> process_manager_ok cfg PM'"
  shows "process_manager_ok cfg (rd_prcMgr R')"
  using assms by (auto simp: create_port_def split: if_splits sum.splits elim!: on_processes_ok)

text \<open>A message of any text from any application, well-formed or not.\<close>

lemma processMessage_ok:
  assumes run: "processMessage cfg mode now res message cmd runtimeName R = Inr R'" and ok: "process_manager_ok cfg (rd_prcMgr R)"
  shows "process_manager_ok cfg (rd_prcMgr R')"
proof -
  have "process_manager_ok cfg (rd_prcMgr R')" if "on_processes f R1 = Inr R'" "rd_prcMgr R1 = rd_prcMgr R" "\<And>PM'. f (rd_prcMgr R) = Inr PM' \<Longrightarrow> process_manager_ok cfg PM'" for f R1
    using that ok on_processes_ok [of f R1 R' cfg] by simp
  note on = this
  show ?thesis
  proof (cases cmd)
    case MSG_REG
    then show ?thesis using run ok
      by (auto simp: processMessage_def getUniqueSessionIdForProcess_def RouDi_registerProcess_def split: if_splits prod.splits elim!: on intro: registerProcess_ok)
  qed (use run ok in \<open>auto simp: processMessage_def split: if_splits elim!: on create_port_ok [OF _ ok]
      intro: add_for_process_ok addNodeForProcess_ok for_process_told_ok unregisterProcess_ok\<close>)
qed

lemma processRuntimeMessages_ok:
  "processRuntimeMessages cfg mode now res received R = Inr R' \<Longrightarrow> process_manager_ok cfg (rd_prcMgr R) \<Longrightarrow> process_manager_ok cfg (rd_prcMgr R')"
  by (auto simp: processRuntimeMessages_def Let_def split: prod.splits if_splits dest: processMessage_ok)

end
