(* ===== verification/Posh_Runtime.thy ===== *)
theory Posh_Runtime
  imports RouDi_Messages
begin

section \<open>The runtime of an application\<close>

text \<open>
  \<open>runtime::PoshRuntimeImpl\<close> (\<open>posh_runtime_impl.cpp\<close>) and the parts of \<open>runtime::IpcRuntimeInterface\<close> (\<open>ipc_runtime_interface.cpp\<close>) that
  exchange messages with RouDi. The exchange of one request for one answer, \<open>sendRequestToRouDi\<close>, is an argument: \<open>None\<close> stands for its result \<open>false\<close>. Pointers
  are the addresses in the process, which has the segments of its own \<open>pointer_repository\<close>.
\<close>

record runtime =
  rt_appName :: string
  rt_MAX_HISTORY_CAPACITY :: u64
  rt_subscriber_MAX_QUEUE_CAPACITY :: u64
  rt_client_MAX_QUEUE_CAPACITY :: u64
  rt_server_MAX_QUEUE_CAPACITY :: u64
  rt_repository :: pointer_repository
  rt_repositoryCapacity :: u64

type_synonym exchange = "ipc_message \<Rightarrow> ipc_message option"

text \<open>\<open>IpcRuntimeInterface::sendRequestToRouDi\<close> for a channel of RouDi that takes a text or not, and the text that arrives in the channel of the application.\<close>

definition sendRequestToRouDi :: "(string \<Rightarrow> bool) \<Rightarrow> (string \<Rightarrow> string option) \<Rightarrow> exchange" where
  "sendRequestToRouDi roudiAccepts arrives msg =
     (case IpcInterface_send roudiAccepts msg of None \<Rightarrow> None
      | Some text \<Rightarrow> (case IpcInterface_receive (arrives text) IpcMessage_ctor of (ok, answer) \<Rightarrow> if ok then Some answer else None))"

definition keepAliveMessage :: "runtime \<Rightarrow> ipc_message" where
  "keepAliveMessage rt = IpcMessage_ctor_list [IpcMessageTypeToString MSG_KEEPALIVE, rt_appName rt]"

definition sendKeepalive :: "(string \<Rightarrow> bool) \<Rightarrow> runtime \<Rightarrow> string option" where
  "sendKeepalive roudiAccepts rt = IpcInterface_send roudiAccepts (keepAliveMessage rt)"

text \<open>The pointer in an answer: the entries 2 and 1 are the segment and the offset.\<close>

definition answered_pointer :: "runtime \<Rightarrow> ipc_message \<Rightarrow> u64" where
  "answered_pointer rt answer =
     (let segmentId = read_or 0 (fromString_uint64 (c_str (getElementAtIndex answer 2)));
          offset = read_or 0 (fromString_uint64 (c_str (getElementAtIndex answer 1)))
      in getPtr (rt_repositoryCapacity rt) (rt_repository rt) segmentId offset)"

text \<open>The five requests that expect an acknowledgement or an error differ in the types of the messages only.\<close>

definition request_from_roudi ::
  "ipc_message_type \<Rightarrow> ipc_message_error_type \<Rightarrow> ipc_message_error_type \<Rightarrow> runtime \<Rightarrow> exchange \<Rightarrow> ipc_message \<Rightarrow> ipc_message_error_type + u64" where
  "request_from_roudi ack invalid_response wrong_response rt exchange sendBuffer =
     (case exchange sendBuffer of None \<Rightarrow> Inl invalid_response
      | Some receiveBuffer \<Rightarrow>
          if im_numberOfElements receiveBuffer = 3 \<and> stringToIpcMessageType (c_str (getElementAtIndex receiveBuffer 0)) = ack
          then Inr (answered_pointer rt receiveBuffer)
          else if im_numberOfElements receiveBuffer = 2 \<and> stringToIpcMessageType (c_str (getElementAtIndex receiveBuffer 0)) = MSG_ERROR
          then Inl (stringToIpcMessageErrorType (c_str (getElementAtIndex receiveBuffer 1)))
          else Inl wrong_response)"

definition requestPublisherFromRoudi :: "runtime \<Rightarrow> exchange \<Rightarrow> ipc_message \<Rightarrow> ipc_message_error_type + u64" where
  "requestPublisherFromRoudi =
     request_from_roudi MSG_CREATE_PUBLISHER_ACK ERR_REQUEST_PUBLISHER_INVALID_RESPONSE ERR_REQUEST_PUBLISHER_WRONG_IPC_MESSAGE_RESPONSE"

definition requestSubscriberFromRoudi :: "runtime \<Rightarrow> exchange \<Rightarrow> ipc_message \<Rightarrow> ipc_message_error_type + u64" where
  "requestSubscriberFromRoudi =
     request_from_roudi MSG_CREATE_SUBSCRIBER_ACK ERR_REQUEST_SUBSCRIBER_INVALID_RESPONSE ERR_REQUEST_SUBSCRIBER_WRONG_IPC_MESSAGE_RESPONSE"

definition requestClientFromRoudi :: "runtime \<Rightarrow> exchange \<Rightarrow> ipc_message \<Rightarrow> ipc_message_error_type + u64" where
  "requestClientFromRoudi =
     request_from_roudi MSG_CREATE_CLIENT_ACK ERR_REQUEST_CLIENT_INVALID_RESPONSE ERR_REQUEST_CLIENT_WRONG_IPC_MESSAGE_RESPONSE"

definition requestServerFromRoudi :: "runtime \<Rightarrow> exchange \<Rightarrow> ipc_message \<Rightarrow> ipc_message_error_type + u64" where
  "requestServerFromRoudi =
     request_from_roudi MSG_CREATE_SERVER_ACK ERR_REQUEST_SERVER_INVALID_RESPONSE ERR_REQUEST_SERVER_WRONG_IPC_MESSAGE_RESPONSE"

definition requestConditionVariableFromRoudi :: "runtime \<Rightarrow> exchange \<Rightarrow> ipc_message \<Rightarrow> ipc_message_error_type + u64" where
  "requestConditionVariableFromRoudi =
     request_from_roudi MSG_CREATE_CONDITION_VARIABLE_ACK ERR_REQUEST_CONDITION_VARIABLE_INVALID_RESPONSE
       ERR_REQUEST_CONDITION_VARIABLE_WRONG_IPC_MESSAGE_RESPONSE"

text \<open>After an error the error handler is called, and if it returns, the result is the null pointer.\<close>

definition pointer_or_error :: "(ipc_message_error_type \<Rightarrow> posh_error) \<Rightarrow> ipc_message_error_type + u64 \<Rightarrow> u64 outcome" where
  "pointer_or_error error_of r = (case r of Inr ptr \<Rightarrow> Inr ptr | Inl e \<Rightarrow> errorHandler (error_of e) SEVERE (Inr 0))"

text \<open>A node name of the options that is empty becomes the name of the application.\<close>

definition default_node_name :: "runtime \<Rightarrow> string \<Rightarrow> string" where
  "default_node_name rt nodeName = (if nodeName = [] then rt_appName rt else nodeName)"

definition port_request ::
  "ipc_message_type \<Rightarrow> runtime \<Rightarrow> service_description \<Rightarrow> string \<Rightarrow> port_config_info \<Rightarrow> ipc_message" where
  "port_request type rt service options portConfigInfo =
     IpcMessage_ctor_list [IpcMessageTypeToString type, rt_appName rt, ServiceDescription_serialize service, options, PortConfigInfo_serialize portConfigInfo]"

subsection \<open>Publishers\<close>

definition limited_publisher_options :: "runtime \<Rightarrow> publisher_options \<Rightarrow> publisher_options" where
  "limited_publisher_options rt publisherOptions =
     (let options = (if po_historyCapacity publisherOptions > rt_MAX_HISTORY_CAPACITY rt
                     then publisherOptions\<lparr> po_historyCapacity := rt_MAX_HISTORY_CAPACITY rt \<rparr> else publisherOptions)
      in options\<lparr> po_nodeName := default_node_name rt (po_nodeName options) \<rparr>)"

text \<open>The limited options are computed, but the message has the options as they were given.\<close>

definition publisher_request :: "runtime \<Rightarrow> service_description \<Rightarrow> publisher_options \<Rightarrow> port_config_info \<Rightarrow> ipc_message" where
  "publisher_request rt service publisherOptions portConfigInfo =
     (let options = limited_publisher_options rt publisherOptions
      in port_request MSG_CREATE_PUBLISHER rt service (PublisherOptions_serialize publisherOptions) portConfigInfo)"

fun publisher_error :: "ipc_message_error_type \<Rightarrow> posh_error" where
  "publisher_error ERR_NO_UNIQUE_CREATED = (RUNTIME POSH__RUNTIME_PUBLISHER_PORT_NOT_UNIQUE)"
| "publisher_error ERR_INTERNAL_SERVICE_DESCRIPTION_IS_FORBIDDEN = (RUNTIME POSH__RUNTIME_SERVICE_DESCRIPTION_FORBIDDEN)"
| "publisher_error ERR_PUBLISHER_LIST_FULL = (RUNTIME POSH__RUNTIME_ROUDI_PUBLISHER_LIST_FULL)"
| "publisher_error ERR_REQUEST_PUBLISHER_INVALID_RESPONSE = (RUNTIME POSH__RUNTIME_ROUDI_REQUEST_PUBLISHER_INVALID_RESPONSE)"
| "publisher_error ERR_REQUEST_PUBLISHER_WRONG_IPC_MESSAGE_RESPONSE = (RUNTIME POSH__RUNTIME_ROUDI_REQUEST_PUBLISHER_WRONG_IPC_MESSAGE_RESPONSE)"
| "publisher_error ERR_REQUEST_PUBLISHER_NO_WRITABLE_SHM_SEGMENT = (RUNTIME POSH__RUNTIME_NO_WRITABLE_SHM_SEGMENT)"
| "publisher_error _ = (RUNTIME POSH__RUNTIME_PUBLISHER_PORT_CREATION_UNKNOWN_ERROR)"

definition getMiddlewarePublisher :: "runtime \<Rightarrow> exchange \<Rightarrow> service_description \<Rightarrow> publisher_options \<Rightarrow> port_config_info \<Rightarrow> u64 outcome" where
  "getMiddlewarePublisher rt exchange service publisherOptions portConfigInfo =
     pointer_or_error publisher_error
       (requestPublisherFromRoudi rt exchange (publisher_request rt service publisherOptions portConfigInfo))"

subsection \<open>Subscribers\<close>

definition limited_queue_capacity :: "u64 \<Rightarrow> u64 \<Rightarrow> u64" where
  "limited_queue_capacity maximum capacity = (if capacity > maximum then maximum else if 0 = capacity then 1 else capacity)"

definition limited_subscriber_options :: "runtime \<Rightarrow> subscriber_options \<Rightarrow> subscriber_options" where
  "limited_subscriber_options rt subscriberOptions =
     (let options = subscriberOptions\<lparr> so_queueCapacity := limited_queue_capacity (rt_subscriber_MAX_QUEUE_CAPACITY rt) (so_queueCapacity subscriberOptions) \<rparr>;
          options = (if so_historyRequest subscriberOptions > so_queueCapacity subscriberOptions
                     then options\<lparr> so_historyRequest := so_queueCapacity subscriberOptions \<rparr> else options)
      in options\<lparr> so_nodeName := default_node_name rt (so_nodeName options) \<rparr>)"

definition subscriber_request :: "runtime \<Rightarrow> service_description \<Rightarrow> subscriber_options \<Rightarrow> port_config_info \<Rightarrow> ipc_message" where
  "subscriber_request rt service subscriberOptions portConfigInfo =
     port_request MSG_CREATE_SUBSCRIBER rt service (SubscriberOptions_serialize (limited_subscriber_options rt subscriberOptions)) portConfigInfo"

fun subscriber_error :: "ipc_message_error_type \<Rightarrow> posh_error" where
  "subscriber_error ERR_SUBSCRIBER_LIST_FULL = (RUNTIME POSH__RUNTIME_ROUDI_SUBSCRIBER_LIST_FULL)"
| "subscriber_error ERR_REQUEST_SUBSCRIBER_INVALID_RESPONSE = (RUNTIME POSH__RUNTIME_ROUDI_REQUEST_SUBSCRIBER_INVALID_RESPONSE)"
| "subscriber_error ERR_REQUEST_SUBSCRIBER_WRONG_IPC_MESSAGE_RESPONSE = (RUNTIME POSH__RUNTIME_ROUDI_REQUEST_SUBSCRIBER_WRONG_IPC_MESSAGE_RESPONSE)"
| "subscriber_error _ = (RUNTIME POSH__RUNTIME_SUBSCRIBER_PORT_CREATION_UNKNOWN_ERROR)"

definition getMiddlewareSubscriber :: "runtime \<Rightarrow> exchange \<Rightarrow> service_description \<Rightarrow> subscriber_options \<Rightarrow> port_config_info \<Rightarrow> u64 outcome" where
  "getMiddlewareSubscriber rt exchange service subscriberOptions portConfigInfo =
     pointer_or_error subscriber_error
       (requestSubscriberFromRoudi rt exchange (subscriber_request rt service subscriberOptions portConfigInfo))"

subsection \<open>Clients and servers\<close>

definition limited_client_options :: "runtime \<Rightarrow> client_options \<Rightarrow> client_options" where
  "limited_client_options rt clientOptions =
     clientOptions\<lparr> co_responseQueueCapacity := limited_queue_capacity (rt_client_MAX_QUEUE_CAPACITY rt) (co_responseQueueCapacity clientOptions) \<rparr>"

definition client_request :: "runtime \<Rightarrow> service_description \<Rightarrow> client_options \<Rightarrow> port_config_info \<Rightarrow> ipc_message" where
  "client_request rt service clientOptions portConfigInfo =
     port_request MSG_CREATE_CLIENT rt service (ClientOptions_serialize (limited_client_options rt clientOptions)) portConfigInfo"

fun client_error :: "ipc_message_error_type \<Rightarrow> posh_error" where
  "client_error ERR_CLIENT_LIST_FULL = (RUNTIME POSH__RUNTIME_ROUDI_OUT_OF_CLIENTS)"
| "client_error ERR_REQUEST_CLIENT_INVALID_RESPONSE = (RUNTIME POSH__RUNTIME_ROUDI_REQUEST_CLIENT_INVALID_RESPONSE)"
| "client_error ERR_REQUEST_CLIENT_WRONG_IPC_MESSAGE_RESPONSE = (RUNTIME POSH__RUNTIME_ROUDI_REQUEST_CLIENT_WRONG_IPC_MESSAGE_RESPONSE)"
| "client_error ERR_REQUEST_CLIENT_NO_WRITABLE_SHM_SEGMENT = (RUNTIME POSH__RUNTIME_NO_WRITABLE_SHM_SEGMENT)"
| "client_error _ = (RUNTIME POSH__RUNTIME_CLIENT_PORT_CREATION_UNKNOWN_ERROR)"

definition getMiddlewareClient :: "runtime \<Rightarrow> exchange \<Rightarrow> service_description \<Rightarrow> client_options \<Rightarrow> port_config_info \<Rightarrow> u64 outcome" where
  "getMiddlewareClient rt exchange service clientOptions portConfigInfo =
     pointer_or_error client_error (requestClientFromRoudi rt exchange (client_request rt service clientOptions portConfigInfo))"

definition limited_server_options :: "runtime \<Rightarrow> server_options \<Rightarrow> server_options" where
  "limited_server_options rt serverOptions =
     serverOptions\<lparr> svo_requestQueueCapacity := limited_queue_capacity (rt_server_MAX_QUEUE_CAPACITY rt) (svo_requestQueueCapacity serverOptions) \<rparr>"

definition server_request :: "runtime \<Rightarrow> service_description \<Rightarrow> server_options \<Rightarrow> port_config_info \<Rightarrow> ipc_message" where
  "server_request rt service serverOptions portConfigInfo =
     port_request MSG_CREATE_SERVER rt service (ServerOptions_serialize (limited_server_options rt serverOptions)) portConfigInfo"

fun server_error :: "ipc_message_error_type \<Rightarrow> posh_error" where
  "server_error ERR_SERVER_LIST_FULL = (RUNTIME POSH__RUNTIME_ROUDI_OUT_OF_SERVERS)"
| "server_error ERR_REQUEST_SERVER_INVALID_RESPONSE = (RUNTIME POSH__RUNTIME_ROUDI_REQUEST_SERVER_INVALID_RESPONSE)"
| "server_error ERR_REQUEST_SERVER_WRONG_IPC_MESSAGE_RESPONSE = (RUNTIME POSH__RUNTIME_ROUDI_REQUEST_SERVER_WRONG_IPC_MESSAGE_RESPONSE)"
| "server_error ERR_REQUEST_SERVER_NO_WRITABLE_SHM_SEGMENT = (RUNTIME POSH__RUNTIME_NO_WRITABLE_SHM_SEGMENT)"
| "server_error _ = (RUNTIME POSH__RUNTIME_SERVER_PORT_CREATION_UNKNOWN_ERROR)"

definition getMiddlewareServer :: "runtime \<Rightarrow> exchange \<Rightarrow> service_description \<Rightarrow> server_options \<Rightarrow> port_config_info \<Rightarrow> u64 outcome" where
  "getMiddlewareServer rt exchange service serverOptions portConfigInfo =
     pointer_or_error server_error (requestServerFromRoudi rt exchange (server_request rt service serverOptions portConfigInfo))"

subsection \<open>Interfaces, nodes and condition variables\<close>

definition request_object ::
  "ipc_message_type \<Rightarrow> posh_error \<Rightarrow> posh_error \<Rightarrow> runtime \<Rightarrow> exchange \<Rightarrow> ipc_message \<Rightarrow> u64 outcome" where
  "request_object ack invalid_response wrong_response rt exchange sendBuffer =
     (case exchange sendBuffer of None \<Rightarrow> errorHandler invalid_response SEVERE (Inr 0)
      | Some receiveBuffer \<Rightarrow>
          if im_numberOfElements receiveBuffer = 3 \<and> stringToIpcMessageType (c_str (getElementAtIndex receiveBuffer 0)) = ack
          then Inr (answered_pointer rt receiveBuffer)
          else errorHandler wrong_response SEVERE (Inr 0))"

definition interface_request :: "runtime \<Rightarrow> interfaces \<Rightarrow> string \<Rightarrow> ipc_message" where
  "interface_request rt interface nodeName =
     IpcMessage_ctor_list [IpcMessageTypeToString MSG_CREATE_INTERFACE, rt_appName rt, toString_nat (unat (interface_value interface)), nodeName]"

definition getMiddlewareInterface :: "runtime \<Rightarrow> exchange \<Rightarrow> interfaces \<Rightarrow> string \<Rightarrow> u64 outcome" where
  "getMiddlewareInterface rt exchange interface nodeName =
     request_object MSG_CREATE_INTERFACE_ACK (RUNTIME POSH__RUNTIME_ROUDI_GET_MW_INTERFACE_INVALID_RESPONSE)
       (RUNTIME POSH__RUNTIME_ROUDI_GET_MW_INTERFACE_WRONG_IPC_MESSAGE_RESPONSE) rt exchange (interface_request rt interface nodeName)"

definition node_request :: "runtime \<Rightarrow> node_property \<Rightarrow> ipc_message" where
  "node_request rt nodeProperty =
     IpcMessage_ctor_list [IpcMessageTypeToString MSG_CREATE_NODE, rt_appName rt, NodeProperty_serialize nodeProperty]"

definition createNode :: "runtime \<Rightarrow> exchange \<Rightarrow> node_property \<Rightarrow> u64 outcome" where
  "createNode rt exchange nodeProperty =
     request_object MSG_CREATE_NODE_ACK (RUNTIME POSH__RUNTIME_ROUDI_CREATE_NODE_INVALID_RESPONSE)
       (RUNTIME POSH__RUNTIME_ROUDI_CREATE_NODE_WRONG_IPC_MESSAGE_RESPONSE) rt exchange (node_request rt nodeProperty)"

definition condition_variable_request :: "runtime \<Rightarrow> ipc_message" where
  "condition_variable_request rt = IpcMessage_ctor_list [IpcMessageTypeToString MSG_CREATE_CONDITION_VARIABLE, rt_appName rt]"

fun condition_variable_error :: "ipc_message_error_type \<Rightarrow> posh_error" where
  "condition_variable_error ERR_CONDITION_VARIABLE_LIST_FULL = (RUNTIME POSH__RUNTIME_ROUDI_CONDITION_VARIABLE_LIST_FULL)"
| "condition_variable_error ERR_REQUEST_CONDITION_VARIABLE_INVALID_RESPONSE = (RUNTIME POSH__RUNTIME_ROUDI_REQUEST_CONDITION_VARIABLE_INVALID_RESPONSE)"
| "condition_variable_error ERR_REQUEST_CONDITION_VARIABLE_WRONG_IPC_MESSAGE_RESPONSE =
     (RUNTIME POSH__RUNTIME_ROUDI_REQUEST_CONDITION_VARIABLE_WRONG_IPC_MESSAGE_RESPONSE)"
| "condition_variable_error _ = (RUNTIME POSH__RUNTIME_ROUDI_CONDITION_VARIABLE_CREATION_UNKNOWN_ERROR)"

definition getMiddlewareConditionVariable :: "runtime \<Rightarrow> exchange \<Rightarrow> u64 outcome" where
  "getMiddlewareConditionVariable rt exchange =
     pointer_or_error condition_variable_error (requestConditionVariableFromRoudi rt exchange (condition_variable_request rt))"

section \<open>Requests and answers\<close>

subsection \<open>RouDi executes the request\<close>

text \<open>Names and service descriptions as the fixed strings of the code hold them, without the separator of messages.\<close>

definition request_ok :: "runtime \<Rightarrow> service_description \<Rightarrow> bool" where
  "request_ok rt sd \<longleftrightarrow> plain (rt_appName rt) \<and> length (rt_appName rt) \<le> 100 \<and> service_description_ok sd \<and>
     sd_scope sd \<noteq> INVALID \<and> sd_interfaceSource sd \<noteq> INTERFACE_END \<and>
     plain (sd_serviceString sd) \<and> plain (sd_instanceString sd) \<and> plain (sd_eventString sd)"

definition node_name_ok :: "string \<Rightarrow> bool" where
  "node_name_ok s \<longleftrightarrow> name_ok s \<and> plain s"

lemma received_request:
  assumes "\<forall>e\<in>set es. plain e" "es = IpcMessageTypeToString type # name # rest" "length name \<le> 100"
  shows "processRuntimeMessages cfg mode now res (Some (im_msg (IpcMessage_ctor_list es))) R = processMessage cfg mode now res (IpcMessage_ctor_list es) type name R"
proof -
  have v: "\<forall>e\<in>set es. isValidEntry e" "\<forall>e\<in>set es. NUL \<notin> set e" using assms(1) plain_entry by blast+
  have "getElementAtIndex (IpcMessage_ctor_list es) 0 = IpcMessageTypeToString type" "getElementAtIndex (IpcMessage_ctor_list es) 1 = name"
    unfolding getElementAtIndex_nth [OF v(1)] using assms(2) by simp_all
  moreover have "c_str (IpcMessageTypeToString type) = IpcMessageTypeToString type" using plain_entry(2) [OF plain_numbers(3)] by (rule c_str_id)
  ultimately show ?thesis using assms(3) by (simp add: processRuntimeMessages_def received_as_sent [OF v] Let_def)
qed

lemma port_request_received:
  assumes "request_ok rt sd" "plain options"
  shows "processRuntimeMessages cfg mode now res (Some (im_msg (port_request type rt sd options info))) R =
      processMessage cfg mode now res (port_request type rt sd options info) type (rt_appName rt) R"
    "create_port d add (port_request type rt sd options info) R =
      (case d options of Inl _ \<Rightarrow> Inr R | Inr o' \<Rightarrow> on_processes (add sd o' info) R)"
proof -
  let ?es = "[IpcMessageTypeToString type, rt_appName rt, ServiceDescription_serialize sd, options, PortConfigInfo_serialize info]"
  have plain: "\<forall>e\<in>set ?es. plain e" using assms by (simp add: request_ok_def)
  then show "processRuntimeMessages cfg mode now res (Some (im_msg (port_request type rt sd options info))) R =
      processMessage cfg mode now res (port_request type rt sd options info) type (rt_appName rt) R"
    using assms(1) unfolding port_request_def by (intro received_request) (auto simp: request_ok_def)
  have v: "\<forall>e\<in>set ?es. isValidEntry e" using plain plain_entry by blast
  have n: "im_numberOfElements (port_request type rt sd options info) = 5" unfolding port_request_def IpcMessage_ctor_list_valid [OF v] by simp
  have e: "getElementAtIndex (port_request type rt sd options info) 2 = ServiceDescription_serialize sd"
    "getElementAtIndex (port_request type rt sd options info) 3 = options"
    "getElementAtIndex (port_request type rt sd options info) 4 = PortConfigInfo_serialize info"
    unfolding port_request_def getElementAtIndex_nth [OF v] by simp_all
  show "create_port d add (port_request type rt sd options info) R =
      (case d options of Inl _ \<Rightarrow> Inr R | Inr o' \<Rightarrow> on_processes (add sd o' info) R)"
    using assms(1) by (cases "d options") (simp_all add: create_port_def n e service_description_reads_back request_ok_def PortConfigInfo_roundtrip)
qed

lemma node_name_plain: "node_name_ok s \<Longrightarrow> name_ok s" "node_name_ok s \<Longrightarrow> plain s"
  by (simp_all add: node_name_ok_def)

lemma default_node_name_ok: "request_ok rt sd \<Longrightarrow> node_name_ok s \<Longrightarrow> node_name_ok (default_node_name rt s)"
  by (auto simp: default_node_name_def node_name_ok_def request_ok_def name_ok_def plain_def)

text \<open>
  What the messages rely on for the options of each kind of port: the text of the options is an entry of a message, and it is read back,
  unless the options have a value that cannot be read. The requests are proved once.
\<close>

locale wire_options =
  fixes serialize :: "'o \<Rightarrow> string" and deserialize :: "string \<Rightarrow> serialization_error + 'o" and nodeName :: "'o \<Rightarrow> string" and readable :: "'o \<Rightarrow> bool"
  assumes entry: "plain (nodeName x) \<Longrightarrow> plain (serialize x)"
    and reads_back: "name_ok (nodeName x) \<Longrightarrow> deserialize (serialize x) = (if readable x then Inr x else Inl DESERIALIZATION_FAILED)"
begin

lemma executed:
  assumes "request_ok rt sd" "node_name_ok (nodeName x)"
    and "\<And>message. processMessage cfg mode now res message type (rt_appName rt) R = create_port deserialize add message R"
  shows "processRuntimeMessages cfg mode now res (Some (im_msg (port_request type rt sd (serialize x) info))) R =
    (if readable x then on_processes (add sd x info) R else Inr R)"
  by (simp add: port_request_received [OF assms(1) entry [OF node_name_plain(2) [OF assms(2)]]] reads_back [OF node_name_plain(1) [OF assms(2)]] assms(3))

lemma request_valid: "request_ok rt sd \<Longrightarrow> node_name_ok (nodeName x) \<Longrightarrow> im_isValid (port_request type rt sd (serialize x) info)"
  using plain_entry(1) entry [OF node_name_plain(2)] by (simp add: port_request_def IpcMessage_ctor_list_isValid request_ok_def)

end

interpretation publisher_wire: wire_options PublisherOptions_serialize PublisherOptions_deserialize po_nodeName "\<lambda>o'. po_historyCapacity o' \<noteq> - 1"
  by unfold_locales (simp_all add: PublisherOptions_roundtrip)

interpretation subscriber_wire: wire_options SubscriberOptions_serialize SubscriberOptions_deserialize so_nodeName
    "\<lambda>o'. so_queueCapacity o' \<noteq> - 1 \<and> so_historyRequest o' \<noteq> - 1"
  by unfold_locales (auto simp: SubscriberOptions_roundtrip)

interpretation client_wire: wire_options ClientOptions_serialize ClientOptions_deserialize co_nodeName "\<lambda>o'. co_responseQueueCapacity o' \<noteq> - 1"
  by unfold_locales (simp_all add: ClientOptions_roundtrip)

interpretation server_wire: wire_options ServerOptions_serialize ServerOptions_deserialize svo_nodeName "\<lambda>o'. svo_requestQueueCapacity o' \<noteq> - 1"
  by unfold_locales (simp_all add: ServerOptions_roundtrip)

lemma publisher_request_executed:
  assumes "request_ok rt sd" "node_name_ok (po_nodeName po)"
  shows "processRuntimeMessages cfg mode now res (Some (im_msg (publisher_request rt sd po info))) R =
    (if po_historyCapacity po = - 1 then Inr R else on_processes (addPublisherForProcess cfg res (rt_appName rt) sd po info) R)"
  using publisher_wire.executed [OF assms, of cfg mode now res MSG_CREATE_PUBLISHER R "addPublisherForProcess cfg res (rt_appName rt)"]
  by (simp add: publisher_request_def processMessage_def)

lemma limited_queue_capacity_readable: "maximum \<noteq> - 1 \<Longrightarrow> limited_queue_capacity maximum c \<noteq> - 1"
  by (auto simp: limited_queue_capacity_def not_less word_order.extremum_unique)

lemma subscriber_request_executed:
  assumes "request_ok rt sd" "node_name_ok (so_nodeName so)" "rt_subscriber_MAX_QUEUE_CAPACITY rt \<noteq> - 1"
  shows "processRuntimeMessages cfg mode now res (Some (im_msg (subscriber_request rt sd so info))) R =
    (if so_queueCapacity so = - 1 \<and> so_historyRequest so = - 1 then Inr R
     else on_processes (addSubscriberForProcess cfg res (rt_appName rt) sd (limited_subscriber_options rt so) info) R)"
proof -
  let ?so = "limited_subscriber_options rt so"
  have node: "node_name_ok (so_nodeName ?so)"
    using default_node_name_ok [OF assms(1,2)] by (simp add: limited_subscriber_options_def Let_def)
  have "so_queueCapacity ?so \<noteq> - 1" using limited_queue_capacity_readable [OF assms(3)] by (simp add: limited_subscriber_options_def Let_def)
  moreover have "so_historyRequest ?so = - 1 \<longleftrightarrow> so_queueCapacity so = - 1 \<and> so_historyRequest so = - 1"
    by (auto simp: limited_subscriber_options_def Let_def not_less word_order.extremum_unique word_order.extremum_strict)
  ultimately show ?thesis
    using subscriber_wire.executed [OF assms(1) node, of cfg mode now res MSG_CREATE_SUBSCRIBER R "addSubscriberForProcess cfg res (rt_appName rt)"]
    by (simp add: subscriber_request_def processMessage_def)
qed

lemma client_server_request_executed:
  assumes "request_ok rt sd"
  shows "node_name_ok (co_nodeName co) \<Longrightarrow> rt_client_MAX_QUEUE_CAPACITY rt \<noteq> - 1 \<Longrightarrow>
      processRuntimeMessages cfg mode now res (Some (im_msg (client_request rt sd co info))) R =
      on_processes (addClientForProcess cfg res (rt_appName rt) sd (limited_client_options rt co) info) R"
    "node_name_ok (svo_nodeName vo) \<Longrightarrow> rt_server_MAX_QUEUE_CAPACITY rt \<noteq> - 1 \<Longrightarrow>
      processRuntimeMessages cfg mode now res (Some (im_msg (server_request rt sd vo info))) R =
      on_processes (addServerForProcess cfg res (rt_appName rt) sd (limited_server_options rt vo) info) R"
proof -
  show "processRuntimeMessages cfg mode now res (Some (im_msg (client_request rt sd co info))) R =
      on_processes (addClientForProcess cfg res (rt_appName rt) sd (limited_client_options rt co) info) R"
    if "node_name_ok (co_nodeName co)" "rt_client_MAX_QUEUE_CAPACITY rt \<noteq> - 1"
    using client_wire.executed [OF assms, of "limited_client_options rt co" cfg mode now res MSG_CREATE_CLIENT R "addClientForProcess cfg res (rt_appName rt)"]
      that limited_queue_capacity_readable by (simp add: client_request_def processMessage_def limited_client_options_def)
  show "processRuntimeMessages cfg mode now res (Some (im_msg (server_request rt sd vo info))) R =
      on_processes (addServerForProcess cfg res (rt_appName rt) sd (limited_server_options rt vo) info) R"
    if "node_name_ok (svo_nodeName vo)" "rt_server_MAX_QUEUE_CAPACITY rt \<noteq> - 1"
    using server_wire.executed [OF assms, of "limited_server_options rt vo" cfg mode now res MSG_CREATE_SERVER R "addServerForProcess cfg res (rt_appName rt)"]
      that limited_queue_capacity_readable by (simp add: server_request_def processMessage_def limited_server_options_def)
qed

subsection \<open>The application understands the answer\<close>

lemma received_answer:
  assumes "\<forall>e\<in>set es. plain e"
  shows "sendRequestToRouDi roudiAccepts (\<lambda>_. Some (im_msg (IpcMessage_ctor_list es))) msg =
    (if im_isValid msg \<and> roudiAccepts (im_msg msg) then Some (IpcMessage_ctor_list es) else None)"
proof -
  have v: "\<forall>e\<in>set es. isValidEntry e" "\<forall>e\<in>set es. NUL \<notin> set e" using assms plain_entry by blast+
  show ?thesis by (simp add: sendRequestToRouDi_def IpcInterface_send_def received_as_sent [OF v])
qed

text \<open>The address of an object of RouDi in the application that has the management segment at its own address.\<close>

definition address_in :: "process_manager_config \<Rightarrow> runtime \<Rightarrow> u64 \<Rightarrow> u64" where
  "address_in cfg rt ptr = PointerRepository_getBasePtr (rt_repositoryCapacity rt) (prc_mgmtSegmentId cfg) (rt_repository rt) +
     (ptr - PointerRepository_getBasePtr (prc_repositoryCapacity cfg) (prc_mgmtSegmentId cfg) (prc_repository cfg))"

definition in_management_segment :: "process_manager_config \<Rightarrow> u64 \<Rightarrow> bool" where
  "in_management_segment cfg ptr \<longleftrightarrow> prc_mgmtSegmentId cfg \<noteq> 0 \<and> prc_mgmtSegmentId cfg \<noteq> - 1 \<and>
     ptr - PointerRepository_getBasePtr (prc_repositoryCapacity cfg) (prc_mgmtSegmentId cfg) (prc_repository cfg) \<noteq> - 1"

lemma send_ack_text:
  assumes "\<forall>text. prc_channelAccepts cfg name text"
  shows "send_ack cfg type ptr name PM = Inr (PM\<lparr> prm_sent := prm_sent PM @ [(name, im_msg (IpcMessage_ctor_list
      [IpcMessageTypeToString type, toString_nat (unat (getOffset (prc_repositoryCapacity cfg) (prc_repository cfg) (prc_mgmtSegmentId cfg) ptr)),
       toString_nat (unat (prc_mgmtSegmentId cfg))]))] \<rparr>)"
    "send_error cfg e name PM = Inr (PM\<lparr> prm_sent := prm_sent PM @ [(name, im_msg (IpcMessage_ctor_list
      [IpcMessageTypeToString MSG_ERROR, IpcMessageErrorTypeToString e]))] \<rparr>)"
  using assms plain_entry(1)
  by (simp_all add: send_ack_def send_error_def Let_def sendViaIpcChannel_def IpcInterface_send_def IpcMessage_ctor_list_isValid)

lemma request_from_roudi_ack:
  assumes "in_management_segment cfg ptr" "im_isValid msg" "roudiAccepts (im_msg msg)"
  shows "request_from_roudi ack invalid wrong rt (sendRequestToRouDi roudiAccepts (\<lambda>_. Some (im_msg (IpcMessage_ctor_list
      [IpcMessageTypeToString ack, toString_nat (unat (getOffset (prc_repositoryCapacity cfg) (prc_repository cfg) (prc_mgmtSegmentId cfg) ptr)),
       toString_nat (unat (prc_mgmtSegmentId cfg))])))) msg = Inr (address_in cfg rt ptr)"
proof -
  let ?o = "getOffset (prc_repositoryCapacity cfg) (prc_repository cfg) (prc_mgmtSegmentId cfg) ptr"
  let ?es = "[IpcMessageTypeToString ack, toString_nat (unat ?o), toString_nat (unat (prc_mgmtSegmentId cfg))]"
  have p: "\<forall>e\<in>set ?es. plain e" by simp
  have v: "\<forall>e\<in>set ?es. isValidEntry e" using p plain_entry by blast
  have e: "getElementAtIndex (IpcMessage_ctor_list ?es) 0 = ?es ! 0" "getElementAtIndex (IpcMessage_ctor_list ?es) 1 = ?es ! 1"
    "getElementAtIndex (IpcMessage_ctor_list ?es) 2 = ?es ! 2" "im_numberOfElements (IpcMessage_ctor_list ?es) = 3"
    unfolding getElementAtIndex_nth [OF v] unfolding IpcMessage_ctor_list_valid [OF v] by simp_all
  have c: "c_str (IpcMessageTypeToString ack) = IpcMessageTypeToString ack" using plain_entry(2) [OF plain_numbers(3)] by (rule c_str_id)
  have "?o \<noteq> - 1" using assms(1) by (simp add: in_management_segment_def getOffset_def NULL_POINTER_ID_def)
  then show ?thesis using assms
    by (simp add: request_from_roudi_def received_answer [OF p] e c answered_pointer_def uint64_roundtrip read_or_def Let_def getPtr_def NULL_POINTER_OFFSET_def
        in_management_segment_def) (simp add: getOffset_def NULL_POINTER_ID_def address_in_def)
qed

lemma request_from_roudi_error:
  assumes "ack \<noteq> MSG_ERROR" "im_isValid msg" "roudiAccepts (im_msg msg)"
  shows "request_from_roudi ack invalid wrong rt (sendRequestToRouDi roudiAccepts (\<lambda>_. Some (im_msg (IpcMessage_ctor_list
      [IpcMessageTypeToString MSG_ERROR, IpcMessageErrorTypeToString e])))) msg = Inl e"
proof -
  let ?es = "[IpcMessageTypeToString MSG_ERROR, IpcMessageErrorTypeToString e]"
  have p: "\<forall>e\<in>set ?es. plain e" by simp
  have v: "\<forall>e\<in>set ?es. isValidEntry e" using p plain_entry by blast
  have el: "getElementAtIndex (IpcMessage_ctor_list ?es) 0 = ?es ! 0" "getElementAtIndex (IpcMessage_ctor_list ?es) 1 = ?es ! 1"
    "im_numberOfElements (IpcMessage_ctor_list ?es) = 2"
    unfolding getElementAtIndex_nth [OF v] unfolding IpcMessage_ctor_list_valid [OF v] by simp_all
  have c: "c_str (IpcMessageTypeToString MSG_ERROR) = IpcMessageTypeToString MSG_ERROR" "c_str (IpcMessageErrorTypeToString e) = IpcMessageErrorTypeToString e"
    using plain_entry(2) [OF plain_numbers(3)] plain_entry(2) [OF plain_numbers(4)] by (auto intro: c_str_id)
  show ?thesis using assms by (simp add: request_from_roudi_def received_answer [OF p] el c)
qed

subsection \<open>An example\<close>

definition example_runtime :: runtime where
  "example_runtime = \<lparr> rt_appName = ''app'', rt_MAX_HISTORY_CAPACITY = 16, rt_subscriber_MAX_QUEUE_CAPACITY = 256, rt_client_MAX_QUEUE_CAPACITY = 16,
     rt_server_MAX_QUEUE_CAPACITY = 1024, rt_repository = example_app_repository, rt_repositoryCapacity = 4 \<rparr>"

definition example_daemon :: roudi where
  "example_daemon = \<lparr> rd_prcMgr = example_registered, rd_sessionId = 1 \<rparr>"

lemma example_request_ok: "request_ok example_runtime (example_service ''a'')" "node_name_ok []"
  by code_simp+

subsection \<open>The properties\<close>

text \<open>
  C37: the text that the runtime of an application sends for a port makes RouDi execute the request for exactly this application, service and configuration, with
  the options of the application for a publisher and with the limited ones for a subscriber, a client or a server. The exceptions are a publisher with
  the history capacity \<open>UINT64_MAX\<close> and a subscriber with this queue capacity and history request: \<open>UINT64_MAX\<close> cannot be read back, and RouDi drops the
  request without an answer, although the runtime has computed smaller limits for both.
\<close>

theorem requests_are_executed:
  assumes "request_ok rt sd" "node_name_ok (po_nodeName po)" "node_name_ok (so_nodeName so)" "node_name_ok (co_nodeName co)" "node_name_ok (svo_nodeName vo)"
    and "rt_subscriber_MAX_QUEUE_CAPACITY rt \<noteq> - 1" "rt_client_MAX_QUEUE_CAPACITY rt \<noteq> - 1" "rt_server_MAX_QUEUE_CAPACITY rt \<noteq> - 1"
  shows "processRuntimeMessages cfg mode now res (Some (im_msg (publisher_request rt sd po info))) R =
      (if po_historyCapacity po = - 1 then Inr R else on_processes (addPublisherForProcess cfg res (rt_appName rt) sd po info) R) \<and>
    processRuntimeMessages cfg mode now res (Some (im_msg (subscriber_request rt sd so info))) R =
      (if so_queueCapacity so = - 1 \<and> so_historyRequest so = - 1 then Inr R
       else on_processes (addSubscriberForProcess cfg res (rt_appName rt) sd (limited_subscriber_options rt so) info) R) \<and>
    processRuntimeMessages cfg mode now res (Some (im_msg (client_request rt sd co info))) R =
      on_processes (addClientForProcess cfg res (rt_appName rt) sd (limited_client_options rt co) info) R \<and>
    processRuntimeMessages cfg mode now res (Some (im_msg (server_request rt sd vo info))) R =
      on_processes (addServerForProcess cfg res (rt_appName rt) sd (limited_server_options rt vo) info) R"
  by (intro conjI publisher_request_executed [OF assms(1,2)] subscriber_request_executed [OF assms(1,3,6)] client_server_request_executed(1) [OF assms(1,4,7)]
      client_server_request_executed(2) [OF assms(1,5,8)])

lemma requests_are_executed_witness:
  "processRuntimeMessages example_process_config MONITORING_ON 8 example_resources
     (Some (im_msg (publisher_request example_runtime (example_service ''a'') (example_publisher_options\<lparr> po_historyCapacity := - 1 \<rparr>) example_port_config_info)))
     example_daemon = Inr example_daemon"
proof -
  have "po_nodeName (example_publisher_options\<lparr> po_historyCapacity := - 1 \<rparr>) = []" "so_nodeName example_subscriber_options = []"
    "co_nodeName example_client_options = []" "svo_nodeName example_server_options = []"
    by (simp_all add: example_publisher_options_def example_subscriber_options_def example_client_options_def example_server_options_def)
  moreover have "rt_subscriber_MAX_QUEUE_CAPACITY example_runtime \<noteq> - 1" "rt_client_MAX_QUEUE_CAPACITY example_runtime \<noteq> - 1"
    "rt_server_MAX_QUEUE_CAPACITY example_runtime \<noteq> - 1" by (simp_all add: example_runtime_def)
  ultimately show ?thesis
    using requests_are_executed [OF example_request_ok(1), of "example_publisher_options\<lparr> po_historyCapacity := - 1 \<rparr>" example_subscriber_options
        example_client_options example_server_options example_process_config MONITORING_ON 8 example_resources example_port_config_info example_daemon]
      example_request_ok(2) by simp
qed

text \<open>
  C38: a registered application asks for a publisher. RouDi executes the request and answers with one message, and the application
  gets the address where the new port of RouDi's pool is in its own address space, or the error that tells why there is no port, among them that the
  application has no writable segment; the result is then the null pointer. The exception is a history capacity of \<open>UINT64_MAX\<close>: RouDi cannot read this
  request and drops it without an answer.
\<close>

theorem publisher_request_end_to_end:
  assumes ok: "request_ok rt sd" "node_name_ok (po_nodeName po)"
    and process: "findProcess (rt_appName rt) (prm_processList (rd_prcMgr R)) = Some i"
    and channels: "\<forall>text. prc_channelAccepts cfg (rt_appName rt) text" "roudiAccepts (im_msg (publisher_request rt sd po info))"
    and created: "writable_segment cfg i (rd_prcMgr R) \<longrightarrow>
      acquirePublisherPortData (rdc_ports (prc_roudi cfg)) sd po (rt_appName rt) (res_uniqueId res) (res_indices res)
        (rp_ports (prm_ports (rd_prcMgr R))) = Inr (r, M)"
    and mapped: "\<forall>j. in_management_segment cfg (prc_publisherAddress cfg j)"
  shows "if po_historyCapacity po = - 1
    then processRuntimeMessages cfg mode now res (Some (im_msg (publisher_request rt sd po info))) R = Inr R
    else \<exists>R' text. processRuntimeMessages cfg mode now res (Some (im_msg (publisher_request rt sd po info))) R = Inr R' \<and>
      prm_sent (rd_prcMgr R') = prm_sent (rd_prcMgr R) @ [(rt_appName rt, text)] \<and>
      rp_ports (prm_ports (rd_prcMgr R')) = (if writable_segment cfg i (rd_prcMgr R) then M else rp_ports (prm_ports (rd_prcMgr R))) \<and>
      requestPublisherFromRoudi rt (sendRequestToRouDi roudiAccepts (\<lambda>_. Some text)) (publisher_request rt sd po info) =
        (if \<not> writable_segment cfg i (rd_prcMgr R) then Inl ERR_REQUEST_PUBLISHER_NO_WRITABLE_SHM_SEGMENT
         else case r of Inr j \<Rightarrow> Inr (address_in cfg rt (prc_publisherAddress cfg j))
              | Inl error \<Rightarrow> Inl (if error = UNIQUE_PUBLISHER_PORT_ALREADY_EXISTS then ERR_NO_UNIQUE_CREATED
                                 else if error = INTERNAL_SERVICE_DESCRIPTION_IS_FORBIDDEN then ERR_INTERNAL_SERVICE_DESCRIPTION_IS_FORBIDDEN
                                 else ERR_PUBLISHER_LIST_FULL)) \<and>
      getMiddlewarePublisher rt (sendRequestToRouDi roudiAccepts (\<lambda>_. Some text)) sd po info =
        Inr (if \<not> writable_segment cfg i (rd_prcMgr R) then 0
             else case r of Inr j \<Rightarrow> address_in cfg rt (prc_publisherAddress cfg j) | Inl _ \<Rightarrow> 0)"
proof (cases "po_historyCapacity po = - 1")
  case True
  then show ?thesis by (simp add: publisher_request_executed [OF ok])
next
  case readable: False
  have valid: "im_isValid (publisher_request rt sd po info)"
    using publisher_wire.request_valid [OF ok] by (simp add: publisher_request_def)
  note executed = publisher_request_executed [OF ok, of cfg mode now res info R]
  note error = request_from_roudi_error [where roudiAccepts = roudiAccepts, OF _ valid channels(2)]
  note run_simps = executed readable on_processes_def addPublisherForProcess_def for_process_def process send_ack_text [OF channels(1)]
    requestPublisherFromRoudi_def getMiddlewarePublisher_def pointer_or_error_def
  show ?thesis
  proof (cases "writable_segment cfg i (rd_prcMgr R)")
    case False
    with error show ?thesis by (auto simp: run_simps)
  next
    case True
    then have acquired: "acquirePublisherPortData (rdc_ports (prc_roudi cfg)) sd po (rt_appName rt) (res_uniqueId res) (res_indices res)
        (rp_ports (prm_ports (rd_prcMgr R))) = Inr (r, M)" using created by simp
    show ?thesis
    proof (cases r)
      case (Inr j)
      have "in_management_segment cfg (prc_publisherAddress cfg j)" using mapped by simp
      from request_from_roudi_ack [where roudiAccepts = roudiAccepts, OF this valid channels(2)] True show ?thesis
        by (auto simp: run_simps acquired Inr)
    next
      case (Inl e)
      with error True show ?thesis by (auto simp: run_simps acquired)
    qed
  qed
qed

lemma publisher_request_end_to_end_witness:
  "\<exists>R' text. processRuntimeMessages example_process_config MONITORING_ON 8 example_resources
      (Some (im_msg (publisher_request example_runtime (example_service ''a'') example_publisher_options example_port_config_info))) example_daemon = Inr R' \<and>
    prm_sent (rd_prcMgr R') = prm_sent example_registered @ [(''app'', text)] \<and>
    getMiddlewarePublisher example_runtime (sendRequestToRouDi (\<lambda>_. True) (\<lambda>_. Some text)) (example_service ''a'') example_publisher_options
      example_port_config_info = Inr 0x50010"
proof -
  let ?r = "acquirePublisherPortData example_pm_config (example_service ''a'') example_publisher_options ''app'' 1 [0, 0] (rp_ports (prm_ports example_registered))"
  have "(case ?r of Inr (Inr j, M) \<Rightarrow> True | _ \<Rightarrow> False)" by code_simp
  then obtain j M where r: "?r = Inr (Inr j, M)" by (auto split: sum.splits)
  have name: "rt_appName example_runtime = ''app''" by (simp add: example_runtime_def)
  have m: "in_management_segment example_process_config (prc_publisherAddress example_process_config j)" for j
  proof -
    have "in_management_segment example_process_config 0x10010" by code_simp
    then show ?thesis by (simp add: example_process_config_def)
  qed
  have a: "address_in example_process_config example_runtime (prc_publisherAddress example_process_config j) = 0x50010"
  proof -
    have "address_in example_process_config example_runtime 0x10010 = 0x50010" by code_simp
    then show ?thesis by (simp add: example_process_config_def)
  qed
  have "findProcess ''app'' (prm_processList (rd_prcMgr example_daemon)) = Some 0" "writable_segment example_process_config 0 (rd_prcMgr example_daemon)" by code_simp+
  note process = this [folded name]
  have c: "\<forall>text. prc_channelAccepts example_process_config (rt_appName example_runtime) text" by (simp add: example_process_config_def)
  have created: "acquirePublisherPortData (rdc_ports (prc_roudi example_process_config)) (example_service ''a'') example_publisher_options (rt_appName example_runtime)
      (res_uniqueId example_resources) (res_indices example_resources) (rp_ports (prm_ports (rd_prcMgr example_daemon))) = Inr (Inr j, M)"
    using r by (simp add: name example_process_config_def example_roudi_config_def example_resources_def example_daemon_def)
  have o: "node_name_ok (po_nodeName example_publisher_options)" "po_historyCapacity example_publisher_options \<noteq> - 1"
    using example_request_ok(2) by (simp_all add: example_publisher_options_def)
  show ?thesis
    using publisher_request_end_to_end [where roudiAccepts = "\<lambda>_. True" and info = example_port_config_info and mode = MONITORING_ON and now = 8,
        OF example_request_ok(1) o(1) process(1) c _ _, of example_resources "Inr j" M] o(2) process(2) created m
    by (auto simp: a name example_daemon_def)
qed

end
