(* ===== verification/Bounded_List.thy ===== *)
theory Bounded_List
  imports Prelude
begin

section \<open>Lists of bounded capacity\<close>

text \<open>
  What \<open>cxx::list\<close> and \<open>cxx::forward_list\<close> promise in common: the operations at the front, those at a position that an iterator is moved to, the removal of elements
  and the size, as operations on a sequence of at most \<open>capacity\<close> elements; and what \<open>cxx::list\<close> promises beyond that, the operations at the back. The
  containers are interpretations of the locales; what follows for sequences of calls is proved
  in the locales. The links of both containers are arrays of indices, and the lemmas on chains of indices are shared.
\<close>

datatype 'a list_call = Push_front 'a | Pop_front | Front | Remove_if "'a \<Rightarrow> bool" | Clear | Size
  | Emplace_at nat 'a | Erase_at nat | Element_at nat

datatype 'a call_result = Flag bool | Element 'a | Number nat | Done

text \<open>The specification. A position is the number of increments of an iterator; there is no call for a position that the list does not have.\<close>

fun list_spec :: "nat \<Rightarrow> 'a list_call \<Rightarrow> 'a list \<Rightarrow> ('a call_result \<times> 'a list) outcome" where
  "list_spec capacity (Push_front x) xs = (if length xs < capacity then Inr (Flag True, x # xs) else Inr (Flag False, xs))"
| "list_spec capacity Pop_front xs = Inr (Flag (xs \<noteq> []), tl xs)"
| "list_spec capacity Front xs = (case xs of [] \<Rightarrow> Inl EXPECTS_ENSURES_FAILED | x # _ \<Rightarrow> Inr (Element x, xs))"
| "list_spec capacity (Remove_if p) xs = Inr (Number (length (filter p xs)), filter (\<lambda>x. \<not> p x) xs)"
| "list_spec capacity Clear xs = Inr (Done, [])"
| "list_spec capacity Size xs = Inr (Number (length xs), xs)"
| "list_spec capacity (Emplace_at k x) xs =
     (if k \<le> length xs \<and> length xs < capacity then Inr (Flag True, take k xs @ x # drop k xs) else Inr (Flag False, xs))"
| "list_spec capacity (Erase_at k) xs =
     (if k < length xs then Inr (Flag True, take k xs @ drop (Suc k) xs) else Inr (Flag False, xs))"
| "list_spec capacity (Element_at k) xs = Inr (if k < length xs then Element (xs ! k) else Done, xs)"

text \<open>An iterator is moved by some increments.\<close>

primrec advance :: "('i \<Rightarrow> 'i outcome) \<Rightarrow> nat \<Rightarrow> 'i \<Rightarrow> 'i outcome" where
  "advance inc 0 iter = Inr iter"
| "advance inc (Suc k) iter = obind (inc iter) (advance inc k)"

text \<open>The operations of a container, and the calls of a container whose operations are given.\<close>

record ('a, 'l) list_operations =
  lo_push_front :: "'a \<Rightarrow> 'l \<Rightarrow> (bool \<times> 'l) outcome"
  lo_pop_front :: "'l \<Rightarrow> (bool \<times> 'l) outcome"
  lo_front :: "'l \<Rightarrow> 'a outcome"
  lo_remove_if :: "('a \<Rightarrow> bool) \<Rightarrow> 'l \<Rightarrow> (nat \<times> 'l) outcome"
  lo_clear :: "'l \<Rightarrow> 'l outcome"
  lo_size :: "'l \<Rightarrow> nat"
  lo_emplace_at :: "nat \<Rightarrow> 'a \<Rightarrow> 'l \<Rightarrow> (bool \<times> 'l) outcome"
  lo_erase_at :: "nat \<Rightarrow> 'l \<Rightarrow> (bool \<times> 'l) outcome"
  lo_element_at :: "nat \<Rightarrow> 'l \<Rightarrow> 'a outcome"

fun list_exec :: "('a, 'l) list_operations \<Rightarrow> 'a list_call \<Rightarrow> 'l \<Rightarrow> ('a call_result \<times> 'l) outcome" where
  "list_exec ops (Push_front x) l = obind (lo_push_front ops x l) (\<lambda>(b, l'). Inr (Flag b, l'))"
| "list_exec ops Pop_front l = obind (lo_pop_front ops l) (\<lambda>(b, l'). Inr (Flag b, l'))"
| "list_exec ops Front l = obind (lo_front ops l) (\<lambda>x. Inr (Element x, l))"
| "list_exec ops (Remove_if p) l = obind (lo_remove_if ops p l) (\<lambda>(n, l'). Inr (Number n, l'))"
| "list_exec ops Clear l = obind (lo_clear ops l) (\<lambda>l'. Inr (Done, l'))"
| "list_exec ops Size l = Inr (Number (lo_size ops l), l)"
| "list_exec ops (Emplace_at k x) l =
     (if k \<le> lo_size ops l then obind (lo_emplace_at ops k x l) (\<lambda>(b, l'). Inr (Flag b, l')) else Inr (Flag False, l))"
| "list_exec ops (Erase_at k) l =
     (if k < lo_size ops l then obind (lo_erase_at ops k l) (\<lambda>(b, l'). Inr (Flag b, l')) else Inr (Flag False, l))"
| "list_exec ops (Element_at k) l =
     (if k < lo_size ops l then obind (lo_element_at ops k l) (\<lambda>x. Inr (Element x, l)) else Inr (Done, l))"

text \<open>The operations at the back, for a list that is linked in both directions.\<close>

datatype 'a back_call = Common "'a list_call" | Push_back 'a | Pop_back | Back

fun back_spec :: "nat \<Rightarrow> 'a back_call \<Rightarrow> 'a list \<Rightarrow> ('a call_result \<times> 'a list) outcome" where
  "back_spec capacity (Common c) xs = list_spec capacity c xs"
| "back_spec capacity (Push_back x) xs = (if length xs < capacity then Inr (Flag True, xs @ [x]) else Inr (Flag False, xs))"
| "back_spec capacity Pop_back xs = Inr (Flag (xs \<noteq> []), butlast xs)"
| "back_spec capacity Back xs = (if xs = [] then Inl EXPECTS_ENSURES_FAILED else Inr (Element (last xs), xs))"

fun back_exec :: "('a, 'l) list_operations \<Rightarrow> ('a \<Rightarrow> 'l \<Rightarrow> (bool \<times> 'l) outcome) \<Rightarrow> ('l \<Rightarrow> (bool \<times> 'l) outcome) \<Rightarrow> ('l \<Rightarrow> 'a outcome) \<Rightarrow>
    'a back_call \<Rightarrow> 'l \<Rightarrow> ('a call_result \<times> 'l) outcome" where
  "back_exec ops push_back pop_back back_element (Common c) l = list_exec ops c l"
| "back_exec ops push_back pop_back back_element (Push_back x) l = obind (push_back x l) (\<lambda>(b, l'). Inr (Flag b, l'))"
| "back_exec ops push_back pop_back back_element Pop_back l = obind (pop_back l) (\<lambda>(b, l'). Inr (Flag b, l'))"
| "back_exec ops push_back pop_back back_element Back l = obind (back_element l) (\<lambda>x. Inr (Element x, l))"

fun run_calls :: "('c \<Rightarrow> 's \<Rightarrow> ('r \<times> 's) outcome) \<Rightarrow> 'c list \<Rightarrow> 's \<Rightarrow> 'r list outcome" where
  "run_calls step [] s = Inr []"
| "run_calls step (c # cs) s = obind (step c s) (\<lambda>(r, s'). obind (run_calls step cs s') (\<lambda>rs. Inr (r # rs)))"

text \<open>If each call does what the specification says, then so does each sequence of calls.\<close>

lemma run_calls_refine:
  assumes "\<And>c l xs. rep l xs \<Longrightarrow> case spec c xs of Inl e \<Rightarrow> exec c l = Inl e | Inr (r, xs') \<Rightarrow> \<exists>l'. exec c l = Inr (r, l') \<and> rep l' xs'"
  shows "rep l xs \<Longrightarrow> run_calls exec cs l = run_calls spec cs xs"
proof (induction cs arbitrary: l xs)
  case (Cons c cs)
  show ?case
  proof (cases "spec c xs")
    case (Inl e)
    then show ?thesis using assms [OF Cons.prems, of c] by simp
  next
    case (Inr q)
    then obtain r xs' where q: "spec c xs = Inr (r, xs')" by (cases q) auto
    then obtain l' where "exec c l = Inr (r, l')" "rep l' xs'" using assms [OF Cons.prems, of c] by auto
    then show ?thesis using q Cons.IH by simp
  qed
qed simp

locale bounded_list =
  fixes capacity :: nat and rep :: "'l \<Rightarrow> 'a list \<Rightarrow> bool" and ops :: "('a, 'l) list_operations"
  assumes push_ok: "rep l xs \<Longrightarrow> length xs < capacity \<Longrightarrow> \<exists>l'. lo_push_front ops x l = Inr (True, l') \<and> rep l' (x # xs)"
    and push_full: "rep l xs \<Longrightarrow> \<not> length xs < capacity \<Longrightarrow> lo_push_front ops x l = Inr (False, l)"
    and pop_ok: "rep l xs \<Longrightarrow> \<exists>l'. lo_pop_front ops l = Inr (xs \<noteq> [], l') \<and> rep l' (tl xs)"
    and front_ok: "rep l xs \<Longrightarrow> lo_front ops l = (case xs of [] \<Rightarrow> Inl EXPECTS_ENSURES_FAILED | x # _ \<Rightarrow> Inr x)"
    and remove_if_ok: "rep l xs \<Longrightarrow> \<exists>l'. lo_remove_if ops p l = Inr (length (filter p xs), l') \<and> rep l' (filter (\<lambda>x. \<not> p x) xs)"
    and clear_ok: "rep l xs \<Longrightarrow> \<exists>l'. lo_clear ops l = Inr l' \<and> rep l' []"
    and size_ok: "rep l xs \<Longrightarrow> lo_size ops l = length xs"
    and emplace_ok: "rep l xs \<Longrightarrow> k \<le> length xs \<Longrightarrow> length xs < capacity \<Longrightarrow>
      \<exists>l'. lo_emplace_at ops k x l = Inr (True, l') \<and> rep l' (take k xs @ x # drop k xs)"
    and emplace_full: "rep l xs \<Longrightarrow> k \<le> length xs \<Longrightarrow> \<not> length xs < capacity \<Longrightarrow> lo_emplace_at ops k x l = Inr (False, l)"
    and erase_ok: "rep l xs \<Longrightarrow> k < length xs \<Longrightarrow> \<exists>l'. lo_erase_at ops k l = Inr (True, l') \<and> rep l' (take k xs @ drop (Suc k) xs)"
    and element_ok: "rep l xs \<Longrightarrow> k < length xs \<Longrightarrow> lo_element_at ops k l = Inr (xs ! k)"
begin

text \<open>Each call does what the specification says.\<close>

lemma exec_refines:
  assumes "rep l xs"
  shows "case list_spec capacity c xs of Inl e \<Rightarrow> list_exec ops c l = Inl e
    | Inr (r, xs') \<Rightarrow> \<exists>l'. list_exec ops c l = Inr (r, l') \<and> rep l' xs'"
proof (cases c)
  case (Push_front x)
  then show ?thesis using push_ok [OF assms, of x] push_full [OF assms, of x] assms by auto
next
  case Front
  then show ?thesis using front_ok [OF assms] assms by (cases xs) simp_all
next
  case (Emplace_at k x)
  then show ?thesis using emplace_ok [OF assms, of k x] emplace_full [OF assms, of k x] size_ok [OF assms] assms by auto
next
  case (Erase_at k)
  then show ?thesis using erase_ok [OF assms, of k] size_ok [OF assms] assms by auto
next
  case (Element_at k)
  then show ?thesis using element_ok [OF assms, of k] size_ok [OF assms] assms by auto
qed (use pop_ok [OF assms] remove_if_ok [OF assms] clear_ok [OF assms] size_ok [OF assms] assms in auto)

lemma run_refines: "rep l xs \<Longrightarrow> run_calls (list_exec ops) cs l = run_calls (list_spec capacity) cs xs"
  by (rule run_calls_refine) (rule exec_refines)

end

locale bounded_back_list = bounded_list capacity rep ops
  for capacity :: nat and rep :: "'l \<Rightarrow> 'a list \<Rightarrow> bool" and ops :: "('a, 'l) list_operations" +
  fixes push_back :: "'a \<Rightarrow> 'l \<Rightarrow> (bool \<times> 'l) outcome" and pop_back :: "'l \<Rightarrow> (bool \<times> 'l) outcome" and back_element :: "'l \<Rightarrow> 'a outcome"
  assumes push_back_ok: "rep l xs \<Longrightarrow> length xs < capacity \<Longrightarrow> \<exists>l'. push_back x l = Inr (True, l') \<and> rep l' (xs @ [x])"
    and push_back_full: "rep l xs \<Longrightarrow> \<not> length xs < capacity \<Longrightarrow> push_back x l = Inr (False, l)"
    and pop_back_ok: "rep l xs \<Longrightarrow> \<exists>l'. pop_back l = Inr (xs \<noteq> [], l') \<and> rep l' (butlast xs)"
    and back_ok: "rep l xs \<Longrightarrow> back_element l = (if xs = [] then Inl EXPECTS_ENSURES_FAILED else Inr (last xs))"
begin

lemma back_exec_refines:
  assumes "rep l xs"
  shows "case back_spec capacity c xs of Inl e \<Rightarrow> back_exec ops push_back pop_back back_element c l = Inl e
    | Inr (r, xs') \<Rightarrow> \<exists>l'. back_exec ops push_back pop_back back_element c l = Inr (r, l') \<and> rep l' xs'"
proof (cases c)
  case (Common c')
  then show ?thesis using exec_refines [OF assms, of c'] by (auto split: sum.splits)
next
  case (Push_back x)
  then show ?thesis using push_back_ok [OF assms, of x] push_back_full [OF assms, of x] assms by auto
qed (use pop_back_ok [OF assms] back_ok [OF assms] assms in auto)

lemma run_back_refines:
  "rep l xs \<Longrightarrow> run_calls (back_exec ops push_back pop_back back_element) cs l = run_calls (back_spec capacity) cs xs"
  by (rule run_calls_refine) (rule back_exec_refines)

end

subsection \<open>Chains of indices\<close>

text \<open>The free indices of a container: from \<open>h\<close> along the links.\<close>

fun chain :: "nat list \<Rightarrow> nat \<Rightarrow> nat list \<Rightarrow> bool" where
  "chain nx h [] \<longleftrightarrow> True"
| "chain nx h (f # fs) \<longleftrightarrow> h = f \<and> chain nx (nx ! f) fs"

lemma chain_frame: "i \<notin> set fs \<Longrightarrow> chain (nx[i := v]) h fs \<longleftrightarrow> chain nx h fs"
  by (induction fs arbitrary: h) auto

lemma chain_upt: "\<forall>i. k \<le> i \<and> Suc i < n \<longrightarrow> nx ! i = Suc i \<Longrightarrow> chain nx k [k..<n]"
proof (induction "n - k" arbitrary: k)
  case (Suc m)
  then have k: "k < n" "m = n - Suc k" by auto
  have "chain nx (Suc k) [Suc k..<n]" using Suc.prems by (intro Suc.hyps(1)) (auto simp: k)
  moreover have "[Suc k..<n] = [] \<or> nx ! k = Suc k" using Suc.prems by (cases "Suc k < n") auto
  ultimately show ?case using k(1) by (auto simp: upt_conv_Cons)
qed simp

end
