(* ===== verification/Cxx_List.thy ===== *)
theory Cxx_List
  imports Bounded_List
begin

section \<open>cxx::list\<close>

text \<open>
  The doubly linked list in an array of links and an array of elements: used elements form a ring through the link
  \<open>BEGIN_END_LINK_INDEX\<close>, unused ones a chain from \<open>m_freeListHeadIdx\<close>, marked by the previous index \<open>INVALID_INDEX\<close>. Indices are
  natural numbers, the code computes with numbers up to \<open>Capacity + 1\<close>. A place of the array without a constructed object is \<open>None\<close>. \<open>l_this\<close> is
  the address of the list.
\<close>

record 'a cxx_list =
  l_this :: nat
  l_freeListHeadIdx :: nat
  l_nextIdx :: "nat list"
  l_prevIdx :: "nat list"
  l_data :: "'a option list"
  l_size :: nat

record list_iterator =
  li_list :: nat
  li_idx :: nat

definition BEGIN_END_LINK_INDEX :: "nat \<Rightarrow> nat" where "BEGIN_END_LINK_INDEX Capacity = Capacity"
definition NODE_LINK_COUNT :: "nat \<Rightarrow> nat" where "NODE_LINK_COUNT Capacity = Capacity + 1"
definition INVALID_INDEX :: "nat \<Rightarrow> nat" where "INVALID_INDEX Capacity = NODE_LINK_COUNT Capacity"

abbreviation getPrevIdx :: "'a cxx_list \<Rightarrow> nat \<Rightarrow> nat" where "getPrevIdx L i \<equiv> l_prevIdx L ! i"
abbreviation getNextIdx :: "'a cxx_list \<Rightarrow> nat \<Rightarrow> nat" where "getNextIdx L i \<equiv> l_nextIdx L ! i"

definition setPrevIdx :: "nat \<Rightarrow> nat \<Rightarrow> 'a cxx_list \<Rightarrow> 'a cxx_list" where
  "setPrevIdx i p L = L\<lparr> l_prevIdx := (l_prevIdx L)[i := p] \<rparr>"

definition setNextIdx :: "nat \<Rightarrow> nat \<Rightarrow> 'a cxx_list \<Rightarrow> 'a cxx_list" where
  "setNextIdx i n L = L\<lparr> l_nextIdx := (l_nextIdx L)[i := n] \<rparr>"

subsection \<open>Checks\<close>

definition isValidElementIdx :: "nat \<Rightarrow> 'a cxx_list \<Rightarrow> nat \<Rightarrow> bool" where
  "isValidElementIdx Capacity L i \<longleftrightarrow> i < Capacity \<and> getPrevIdx L i < INVALID_INDEX Capacity"

definition isInvalidIterator :: "nat \<Rightarrow> 'a cxx_list \<Rightarrow> list_iterator \<Rightarrow> bool outcome" where
  "isInvalidIterator Capacity L iter = Expects (getPrevIdx L (li_idx iter) < INVALID_INDEX Capacity) (Inr False)"

definition isInvalidIterOrDifferentLists :: "nat \<Rightarrow> 'a cxx_list \<Rightarrow> list_iterator \<Rightarrow> bool outcome" where
  "isInvalidIterOrDifferentLists Capacity L iter = Expects (l_this L = li_list iter) (isInvalidIterator Capacity L iter)"

text \<open>\<open>getDataPtrFromIdx\<close> followed by a read.\<close>

definition getData :: "nat \<Rightarrow> 'a cxx_list \<Rightarrow> nat \<Rightarrow> 'a outcome" where
  "getData Capacity L i =
     Expects (isValidElementIdx Capacity L i) (case l_data L ! i of None \<Rightarrow> Inl NULLPTR_ACCESS | Some x \<Rightarrow> Inr x)"

subsection \<open>Construction\<close>

fun init_loop :: "nat \<Rightarrow> nat list \<Rightarrow> 'a cxx_list \<Rightarrow> 'a cxx_list" where
  "init_loop Capacity [] L = L"
| "init_loop Capacity (i # is) L = init_loop Capacity is (setNextIdx i (i + 1) (setPrevIdx i (INVALID_INDEX Capacity) L))"

definition list_init :: "nat \<Rightarrow> 'a cxx_list \<Rightarrow> 'a cxx_list" where
  "list_init Capacity L =
     (let L = setNextIdx 0 1 (setPrevIdx 0 (INVALID_INDEX Capacity) L);
          L = init_loop Capacity [1..<BEGIN_END_LINK_INDEX Capacity - 1] L;
          L = setNextIdx (Capacity - 1) (BEGIN_END_LINK_INDEX Capacity) (setPrevIdx (Capacity - 1) (INVALID_INDEX Capacity) L);
          L = setNextIdx Capacity (BEGIN_END_LINK_INDEX Capacity) (setPrevIdx Capacity (BEGIN_END_LINK_INDEX Capacity) L)
      in L\<lparr> l_freeListHeadIdx := 0, l_size := 0 \<rparr>)"

text \<open>The arrays of a new list are not initialised before \<open>init\<close>.\<close>

definition list_ctor :: "nat \<Rightarrow> nat \<Rightarrow> nat list \<Rightarrow> nat list \<Rightarrow> 'a cxx_list" where
  "list_ctor Capacity this nexts prevs =
     list_init Capacity \<lparr> l_this = this, l_freeListHeadIdx = 0, l_nextIdx = nexts, l_prevIdx = prevs,
       l_data = replicate Capacity None, l_size = 0 \<rparr>"

subsection \<open>Iterators\<close>

definition list_begin :: "nat \<Rightarrow> 'a cxx_list \<Rightarrow> list_iterator" where
  "list_begin Capacity L = \<lparr> li_list = l_this L, li_idx = getNextIdx L (BEGIN_END_LINK_INDEX Capacity) \<rparr>"

definition list_end :: "nat \<Rightarrow> 'a cxx_list \<Rightarrow> list_iterator" where
  "list_end Capacity L = \<lparr> li_list = l_this L, li_idx = BEGIN_END_LINK_INDEX Capacity \<rparr>"

definition iterator_inc :: "nat \<Rightarrow> 'a cxx_list \<Rightarrow> list_iterator \<Rightarrow> list_iterator outcome" where
  "iterator_inc Capacity L iter =
     obind (isInvalidIterator Capacity L iter) (\<lambda>invalid.
       Inr (if \<not> invalid \<and> isValidElementIdx Capacity L (li_idx iter) then iter\<lparr> li_idx := getNextIdx L (li_idx iter) \<rparr> else iter))"

definition iterator_dec :: "nat \<Rightarrow> 'a cxx_list \<Rightarrow> list_iterator \<Rightarrow> list_iterator outcome" where
  "iterator_dec Capacity L iter =
     obind (isInvalidIterator Capacity L iter) (\<lambda>invalid.
       Inr (if \<not> invalid \<and> isValidElementIdx Capacity L (getPrevIdx L (li_idx iter)) then iter\<lparr> li_idx := getPrevIdx L (li_idx iter) \<rparr> else iter))"

definition iterator_eq :: "nat \<Rightarrow> 'a cxx_list \<Rightarrow> list_iterator \<Rightarrow> list_iterator \<Rightarrow> bool outcome" where
  "iterator_eq Capacity L iter rhs =
     obind (isInvalidIterOrDifferentLists Capacity L rhs) (\<lambda>invalid.
       if invalid then Inr False
       else obind (isInvalidIterator Capacity L iter) (\<lambda>invalid'.
         Inr (\<not> invalid' \<and> li_idx iter = li_idx rhs)))"

definition iterator_deref :: "nat \<Rightarrow> 'a cxx_list \<Rightarrow> list_iterator \<Rightarrow> 'a outcome" where
  "iterator_deref Capacity L iter = getData Capacity L (li_idx iter)"

subsection \<open>Insertion and removal\<close>

definition list_full :: "nat \<Rightarrow> 'a cxx_list \<Rightarrow> bool" where
  "list_full Capacity L \<longleftrightarrow> l_size L \<ge> Capacity"

definition list_empty :: "'a cxx_list \<Rightarrow> bool" where
  "list_empty L \<longleftrightarrow> l_size L = 0"

definition list_emplace :: "nat \<Rightarrow> list_iterator \<Rightarrow> 'a \<Rightarrow> 'a cxx_list \<Rightarrow> (list_iterator \<times> 'a cxx_list) outcome" where
  "list_emplace Capacity iter x L =
     obind (isInvalidIterOrDifferentLists Capacity L iter) (\<lambda>invalid.
       if invalid then Inr (list_end Capacity L, L)
       else if l_size L \<ge> Capacity then Inr (list_end Capacity L, L)
       else (let toBeAddedIdx = l_freeListHeadIdx L;
                 L = L\<lparr> l_freeListHeadIdx := getNextIdx L (l_freeListHeadIdx L) \<rparr>;
                 L = setPrevIdx toBeAddedIdx (getPrevIdx L (li_idx iter)) L;
                 L = setNextIdx toBeAddedIdx (li_idx iter) L
             in Expects (isValidElementIdx Capacity L toBeAddedIdx)
                  (let L = L\<lparr> l_data := (l_data L)[toBeAddedIdx := Some x] \<rparr>;
                       L = setNextIdx (getPrevIdx L (li_idx iter)) toBeAddedIdx L;
                       L = setPrevIdx (li_idx iter) toBeAddedIdx L
                   in Inr (\<lparr> li_list = l_this L, li_idx = toBeAddedIdx \<rparr>, L\<lparr> l_size := l_size L + 1 \<rparr>))))"

definition list_erase :: "nat \<Rightarrow> list_iterator \<Rightarrow> 'a cxx_list \<Rightarrow> (list_iterator \<times> 'a cxx_list) outcome" where
  "list_erase Capacity iter L =
     obind (isInvalidIterOrDifferentLists Capacity L iter) (\<lambda>invalid.
       if invalid then Inr (list_end Capacity L, L)
       else (let eraseIdx = li_idx iter
             in if \<not> isValidElementIdx Capacity L eraseIdx \<or> list_empty L then Inr (list_end Capacity L, L)
                else (let retIdx = getNextIdx L (li_idx iter);
                          L = setPrevIdx retIdx (getPrevIdx L (li_idx iter)) L;
                          L = setNextIdx (getPrevIdx L (li_idx iter)) retIdx L
                      in obind (iterator_deref Capacity L iter) (\<lambda>_.
                           let L = L\<lparr> l_data := (l_data L)[eraseIdx := None] \<rparr>;
                               L = setPrevIdx eraseIdx (INVALID_INDEX Capacity) L;
                               L = setNextIdx eraseIdx (l_freeListHeadIdx L) L
                           in Inr (\<lparr> li_list = l_this L, li_idx = retIdx \<rparr>,
                                   L\<lparr> l_freeListHeadIdx := eraseIdx, l_size := l_size L - 1 \<rparr>)))))"

definition list_push_front :: "nat \<Rightarrow> 'a \<Rightarrow> 'a cxx_list \<Rightarrow> (bool \<times> 'a cxx_list) outcome" where
  "list_push_front Capacity x L =
     (let sizeBeforePush = l_size L
      in obind (if l_size L < Capacity then obind (list_emplace Capacity (list_begin Capacity L) x L) (\<lambda>(_, L'). Inr L') else Inr L) (\<lambda>L'.
           Inr (l_size L' = sizeBeforePush + 1, L')))"

definition list_push_back :: "nat \<Rightarrow> 'a \<Rightarrow> 'a cxx_list \<Rightarrow> (bool \<times> 'a cxx_list) outcome" where
  "list_push_back Capacity x L =
     (let sizeBeforePush = l_size L
      in obind (if l_size L < Capacity then obind (list_emplace Capacity (list_end Capacity L) x L) (\<lambda>(_, L'). Inr L') else Inr L) (\<lambda>L'.
           Inr (l_size L' = sizeBeforePush + 1, L')))"

text \<open>\<open>emplace_front\<close> and \<open>emplace_back\<close> return a reference to the new element.\<close>

definition list_emplace_front :: "nat \<Rightarrow> 'a \<Rightarrow> 'a cxx_list \<Rightarrow> ('a \<times> 'a cxx_list) outcome" where
  "list_emplace_front Capacity x L =
     obind (list_emplace Capacity (list_begin Capacity L) x L) (\<lambda>(iter, L').
     obind (iterator_deref Capacity L' iter) (\<lambda>y. Inr (y, L')))"

definition list_emplace_back :: "nat \<Rightarrow> 'a \<Rightarrow> 'a cxx_list \<Rightarrow> ('a \<times> 'a cxx_list) outcome" where
  "list_emplace_back Capacity x L =
     obind (list_emplace Capacity (list_end Capacity L) x L) (\<lambda>(iter, L').
     obind (iterator_deref Capacity L' iter) (\<lambda>y. Inr (y, L')))"

definition list_pop_front :: "nat \<Rightarrow> 'a cxx_list \<Rightarrow> (bool \<times> 'a cxx_list) outcome" where
  "list_pop_front Capacity L =
     (let sizeBeforeErase = l_size L
      in obind (list_erase Capacity (list_begin Capacity L) L) (\<lambda>(_, L'). Inr (l_size L' + 1 = sizeBeforeErase, L')))"

definition list_pop_back :: "nat \<Rightarrow> 'a cxx_list \<Rightarrow> (bool \<times> 'a cxx_list) outcome" where
  "list_pop_back Capacity L =
     (let sizeBeforeErase = l_size L
      in obind (iterator_dec Capacity L (list_end Capacity L)) (\<lambda>iter.
         obind (list_erase Capacity iter L) (\<lambda>(_, L'). Inr (l_size L' + 1 = sizeBeforeErase, L'))))"

definition list_front :: "nat \<Rightarrow> 'a cxx_list \<Rightarrow> 'a outcome" where
  "list_front Capacity L =
     (let iter = list_begin Capacity L
      in Expects (isValidElementIdx Capacity L (li_idx iter)) (iterator_deref Capacity L iter))"

definition list_back :: "nat \<Rightarrow> 'a cxx_list \<Rightarrow> 'a outcome" where
  "list_back Capacity L =
     obind (iterator_dec Capacity L (list_end Capacity L)) (\<lambda>iter.
       Expects (isValidElementIdx Capacity L (li_idx iter)) (iterator_deref Capacity L iter))"

text \<open>The loops of \<open>remove_if\<close> and \<open>clear\<close>; \<open>None\<close> is a loop that does not end.\<close>

partial_function (option) remove_if_loop ::
  "nat \<Rightarrow> ('a \<Rightarrow> bool) \<Rightarrow> list_iterator \<Rightarrow> nat \<Rightarrow> 'a cxx_list \<Rightarrow> (nat \<times> 'a cxx_list) outcome option" where
  "remove_if_loop Capacity pred iter removedCount L =
     (case iterator_eq Capacity L iter (list_end Capacity L) of Inl e \<Rightarrow> Some (Inl e)
      | Inr atEnd \<Rightarrow>
          if atEnd then Some (Inr (removedCount, L))
          else (case iterator_deref Capacity L iter of Inl e \<Rightarrow> Some (Inl e)
                | Inr x \<Rightarrow>
                    if pred x
                    then (case list_erase Capacity iter L of Inl e \<Rightarrow> Some (Inl e)
                          | Inr r \<Rightarrow> remove_if_loop Capacity pred (fst r) (removedCount + 1) (snd r))
                    else (case iterator_inc Capacity L iter of Inl e \<Rightarrow> Some (Inl e)
                          | Inr iter' \<Rightarrow> remove_if_loop Capacity pred iter' removedCount L)))"

definition list_remove_if :: "nat \<Rightarrow> ('a \<Rightarrow> bool) \<Rightarrow> 'a cxx_list \<Rightarrow> (nat \<times> 'a cxx_list) outcome" where
  "list_remove_if Capacity pred L = obind (returns (remove_if_loop Capacity pred (list_begin Capacity L) 0 L)) (\<lambda>r. r)"

definition list_remove :: "nat \<Rightarrow> 'a \<Rightarrow> 'a cxx_list \<Rightarrow> (nat \<times> 'a cxx_list) outcome" where
  "list_remove Capacity x L = list_remove_if Capacity (\<lambda>y. y = x) L"

partial_function (option) clear_loop :: "nat \<Rightarrow> 'a cxx_list \<Rightarrow> 'a cxx_list outcome option" where
  "clear_loop Capacity L =
     (if l_size L = 0 then Some (Inr L)
      else case list_erase Capacity (list_begin Capacity L) L of Inl e \<Rightarrow> Some (Inl e)
           | Inr r \<Rightarrow> clear_loop Capacity (snd r))"

definition list_clear :: "nat \<Rightarrow> 'a cxx_list \<Rightarrow> 'a cxx_list outcome" where
  "list_clear Capacity L = obind (returns (clear_loop Capacity L)) (\<lambda>r. r)"

declare remove_if_loop.simps [code] clear_loop.simps [code]

subsection \<open>Copying\<close>

text \<open>The three loops of the assignment: overwrite, append, erase.\<close>

fun copy_loop :: "nat \<Rightarrow> nat \<Rightarrow> list_iterator \<Rightarrow> list_iterator \<Rightarrow> 'a cxx_list \<Rightarrow> 'a cxx_list \<Rightarrow> (list_iterator \<times> list_iterator \<times> 'a cxx_list) outcome" where
  "copy_loop Capacity 0 iterThis citerRhs rhs L = Inr (iterThis, citerRhs, L)"
| "copy_loop Capacity (Suc n) iterThis citerRhs rhs L =
     obind (iterator_deref Capacity rhs citerRhs) (\<lambda>x.
     obind (iterator_deref Capacity L iterThis) (\<lambda>_.
     let L = L\<lparr> l_data := (l_data L)[li_idx iterThis := Some x] \<rparr>
     in obind (iterator_inc Capacity L iterThis) (\<lambda>iterThis.
        obind (iterator_inc Capacity rhs citerRhs) (\<lambda>citerRhs.
        copy_loop Capacity n iterThis citerRhs rhs L))))"

fun append_loop :: "nat \<Rightarrow> nat \<Rightarrow> list_iterator \<Rightarrow> 'a cxx_list \<Rightarrow> 'a cxx_list \<Rightarrow> 'a cxx_list outcome" where
  "append_loop Capacity 0 citerRhs rhs L = Inr L"
| "append_loop Capacity (Suc n) citerRhs rhs L =
     obind (iterator_deref Capacity rhs citerRhs) (\<lambda>x.
     obind (list_emplace Capacity (list_end Capacity L) x L) (\<lambda>(_, L).
     obind (iterator_inc Capacity rhs citerRhs) (\<lambda>citerRhs. append_loop Capacity n citerRhs rhs L)))"

fun erase_loop :: "nat \<Rightarrow> nat \<Rightarrow> list_iterator \<Rightarrow> 'a cxx_list \<Rightarrow> 'a cxx_list outcome" where
  "erase_loop Capacity 0 iterThis L = Inr L"
| "erase_loop Capacity (Suc n) iterThis L =
     obind (list_erase Capacity iterThis L) (\<lambda>(iterThis, L). erase_loop Capacity n iterThis L)"

definition list_assign :: "nat \<Rightarrow> 'a cxx_list \<Rightarrow> 'a cxx_list \<Rightarrow> 'a cxx_list outcome" where
  "list_assign Capacity rhs L =
     (if l_this L \<noteq> l_this rhs
      then (let startSize = l_size L; minOfLhsRhsSize = min (l_size rhs) startSize
            in obind (copy_loop Capacity minOfLhsRhsSize (list_begin Capacity L) (list_begin Capacity rhs) rhs L) (\<lambda>(iterThis, citerRhs, L).
               obind (append_loop Capacity (l_size rhs - minOfLhsRhsSize) citerRhs rhs L) (\<lambda>L.
               erase_loop Capacity (startSize - max minOfLhsRhsSize (l_size rhs)) iterThis L)))
      else Inr L)"

subsection \<open>The ring of the used elements\<close>

text \<open>Neighbours in the sequence \<open>s\<close> are linked in both directions.\<close>

fun links :: "nat list \<Rightarrow> nat list \<Rightarrow> nat list \<Rightarrow> bool" where
  "links nx pv (x # y # zs) \<longleftrightarrow> nx ! x = y \<and> pv ! y = x \<and> links nx pv (y # zs)"
| "links nx pv _ \<longleftrightarrow> True"

lemma links_append:
  "xs \<noteq> [] \<Longrightarrow> ys \<noteq> [] \<Longrightarrow>
    links nx pv (xs @ ys) \<longleftrightarrow> links nx pv xs \<and> nx ! last xs = hd ys \<and> pv ! hd ys = last xs \<and> links nx pv ys"
proof (induction xs)
  case (Cons x xs)
  then show ?case by (cases xs; cases ys) auto
qed simp

lemma links_next_frame: "i \<notin> set (butlast s) \<Longrightarrow> links (nx[i := v]) pv s \<longleftrightarrow> links nx pv s"
  by (induction nx pv s rule: links.induct) auto

lemma links_prev_frame: "i \<notin> set (tl s) \<Longrightarrow> links nx (pv[i := v]) s \<longleftrightarrow> links nx pv s"
  by (induction nx pv s rule: links.induct) auto

lemma last_notin_butlast: "distinct xs \<Longrightarrow> xs \<noteq> [] \<Longrightarrow> last xs \<notin> set (butlast xs)"
  by (metis append_butlast_last_id distinct_append distinct.simps(2) disjoint_insert(1) list.simps(15))

text \<open>\<open>us\<close> are the used indices in order and \<open>fs\<close> the free ones, \<open>xs\<close> are the elements.\<close>

definition list_state :: "nat \<Rightarrow> 'a cxx_list \<Rightarrow> nat list \<Rightarrow> nat list \<Rightarrow> 'a list \<Rightarrow> bool" where
  "list_state C L us fs xs \<longleftrightarrow>
     length (l_nextIdx L) = C + 1 \<and> length (l_prevIdx L) = C + 1 \<and> length (l_data L) = C \<and>
     distinct (us @ fs) \<and> set (us @ fs) = {..<C} \<and>
     links (l_nextIdx L) (l_prevIdx L) ((C # us) @ [C]) \<and> chain (l_nextIdx L) (l_freeListHeadIdx L) fs \<and>
     (\<forall>f\<in>set fs. l_prevIdx L ! f = C + 1) \<and> map ((!) (l_data L)) us = map Some xs \<and> l_size L = length us"

definition list_rep :: "nat \<Rightarrow> 'a cxx_list \<Rightarrow> 'a list \<Rightarrow> bool" where
  "list_rep C L xs \<longleftrightarrow> (\<exists>us fs. list_state C L us fs xs)"

text \<open>The iterator at the first of the elements \<open>r\<close>, which is the end if there is none.\<close>

definition iterator_at :: "nat \<Rightarrow> 'a cxx_list \<Rightarrow> nat list \<Rightarrow> list_iterator" where
  "iterator_at C L r = \<lparr> li_list = l_this L, li_idx = hd (r @ [C]) \<rparr>"

named_theorems list_defs \<open>definitions of the steps of a list\<close>

lemmas [list_defs] = BEGIN_END_LINK_INDEX_def NODE_LINK_COUNT_def INVALID_INDEX_def setPrevIdx_def setNextIdx_def
  isValidElementIdx_def isInvalidIterator_def isInvalidIterOrDifferentLists_def getData_def list_begin_def list_end_def iterator_at_def

lemma list_state_length: "list_state C L us fs xs \<Longrightarrow> length xs = length us \<and> length us + length fs = C"
proof -
  assume s: "list_state C L us fs xs"
  then have "card (set (us @ fs)) = length (us @ fs)" using distinct_card unfolding list_state_def by blast
  moreover have "set (us @ fs) = {..<C}" "map ((!) (l_data L)) us = map Some xs" using s by (auto simp: list_state_def)
  ultimately show ?thesis by (metis card_lessThan length_append length_map)
qed

lemma list_state_split:
  assumes "list_state C L (l @ r) fs xs"
  shows "l_nextIdx L ! last (C # l) = hd (r @ [C])" "l_prevIdx L ! hd (r @ [C]) = last (C # l)"
    "links (l_nextIdx L) (l_prevIdx L) (C # l)" "links (l_nextIdx L) (l_prevIdx L) (r @ [C])"
  using assms links_append [of "C # l" "r @ [C]" "l_nextIdx L" "l_prevIdx L"] by (simp_all add: list_state_def)

lemma iterator_at_valid:
  assumes "list_state C L (l @ r) fs xs"
  shows "hd (r @ [C]) \<le> C" "last (C # l) \<le> C" "isInvalidIterOrDifferentLists C L (iterator_at C L r) = Inr False"
    "isInvalidIterator C L (iterator_at C L r) = Inr False" "isValidElementIdx C L (hd (r @ [C])) \<longleftrightarrow> r \<noteq> []"
proof -
  have range: "i \<in> set (l @ r) \<Longrightarrow> i < C" for i using assms by (auto simp: list_state_def)
  show h: "hd (r @ [C]) \<le> C" using range by (cases r) (auto intro: less_imp_le)
  show q: "last (C # l) \<le> C" using range [of "last l"] by (cases "l = []") (auto intro: less_imp_le)
  note p = list_state_split(2) [OF assms]
  show "isInvalidIterOrDifferentLists C L (iterator_at C L r) = Inr False" "isInvalidIterator C L (iterator_at C L r) = Inr False"
    using p q by (simp_all add: list_defs)
  show "isValidElementIdx C L (hd (r @ [C])) \<longleftrightarrow> r \<noteq> []" using p q range by (cases r) (auto simp: list_defs)
qed

lemma list_begin_at: "list_state C L us fs xs \<Longrightarrow> list_begin C L = iterator_at C L us"
  using list_state_split(1) [of C L "[]" us] by (simp add: list_defs)

lemma list_end_at: "list_end C L = iterator_at C L []"
  by (simp add: list_defs)

lemma iterator_at_deref:
  assumes "list_state C L (l @ e # r) fs xs"
  shows "iterator_deref C L (iterator_at C L (e # r)) = Inr (xs ! length l)"
proof -
  have m: "map ((!) (l_data L)) (l @ e # r) = map Some xs" using assms by (simp add: list_state_def)
  then have len: "length xs = length (l @ e # r)" by (metis length_map)
  have "map ((!) (l_data L)) (l @ e # r) ! length l = map Some xs ! length l" by (simp only: m)
  then have "l_data L ! e = Some (xs ! length l)" using len by (simp add: nth_append)
  then show ?thesis using iterator_at_valid(5) [OF assms] by (simp add: iterator_deref_def getData_def iterator_at_def)
qed

lemma iterator_at_inc:
  assumes "list_state C L (l @ e # r) fs xs"
  shows "iterator_inc C L (iterator_at C L (e # r)) = Inr (iterator_at C L r)"
proof -
  have "l_nextIdx L ! e = hd (r @ [C])" using list_state_split(1) [of C L "l @ [e]" r] assms by simp
  then show ?thesis using iterator_at_valid(4,5) [OF assms] by (simp add: iterator_inc_def) (simp add: iterator_at_def)
qed

lemma iterator_at_dec:
  assumes "list_state C L (l @ r) fs xs"
  shows "iterator_dec C L (iterator_at C L r) = Inr (iterator_at C L (if l = [] then r else last l # r))"
proof (cases l rule: rev_cases)
  case Nil
  then show ?thesis using iterator_at_valid(4) [OF assms] list_state_split(2) [OF assms]
    by (simp add: iterator_dec_def iterator_at_def isValidElementIdx_def)
next
  case (snoc l' e)
  then have s: "list_state C L (l' @ e # r) fs xs" using assms by simp
  have "l_prevIdx L ! hd (r @ [C]) = e" using list_state_split(2) [OF assms] snoc by simp
  then show ?thesis using iterator_at_valid(4) [OF assms] iterator_at_valid(5) [OF s] snoc
    by (simp add: iterator_dec_def iterator_at_def)
qed

lemma iterator_at_eq_end:
  assumes "list_state C L (l @ r) fs xs"
  shows "iterator_eq C L (iterator_at C L r) (list_end C L) = Inr (r = [])"
proof -
  have "list_state C L ((l @ r) @ []) fs xs" using assms by simp
  note e = iterator_at_valid(3) [OF this]
  have "r \<noteq> [] \<Longrightarrow> hd r \<noteq> C" using assms by (cases r) (auto simp: list_state_def)
  then show ?thesis using e iterator_at_valid(4) [OF assms]
    by (cases r) (simp_all add: iterator_eq_def list_end_at, simp_all add: iterator_at_def)
qed

subsection \<open>Insertion and removal change the sequence\<close>

lemma nth_map_frame: "i \<notin> set us \<Longrightarrow> map ((!) (xs[i := v])) us = map ((!) xs) us"
  by (induction us) auto

lemma list_emplace_state:
  assumes s: "list_state C L (l @ r) (a # fs) xs"
  shows "\<exists>L'. list_emplace C (iterator_at C L r) x L = Inr (iterator_at C L' (a # r), L') \<and> l_this L' = l_this L \<and>
    list_state C L' (l @ a # r) fs (take (length l) xs @ x # drop (length l) xs)"
proof -
  let ?nx = "l_nextIdx L" and ?pv = "l_prevIdx L" and ?p = "hd (r @ [C])" and ?q = "last (C # l)"
  have a: "a < C" "a \<notin> set l" "a \<notin> set r" "a \<noteq> C" "?pv ! a = C + 1" "l_freeListHeadIdx L = a" "a \<notin> set fs"
    using s by (auto simp: list_state_def)
  have dist: "distinct (l @ r)" "C \<notin> set l" "C \<notin> set r" and len: "length ?nx = C + 1" "length ?pv = C + 1" "length (l_data L) = C"
    using s by (auto simp: list_state_def)
  note sp = list_state_split [OF s] and v = iterator_at_valid [OF s]
  have q_in: "?q = C \<or> ?q \<in> set l" by (cases "l = []") auto
  have p_in: "?p = C \<or> ?p \<in> set r" by (cases r) auto
  have ne: "?q \<noteq> a" "?p \<noteq> a" using q_in p_in a by auto
  have room: "\<not> C \<le> l_size L" using list_state_length [OF s] s by (simp add: list_state_def)
  define L' where "L' = L\<lparr> l_freeListHeadIdx := ?nx ! a, l_nextIdx := ?nx[a := ?p, ?q := a], l_prevIdx := ?pv[a := ?q, ?p := a],
    l_data := (l_data L)[a := Some x], l_size := l_size L + 1 \<rparr>"
  have "list_emplace C (iterator_at C L r) x L = Inr (iterator_at C L' (a # r), L')"
    unfolding list_emplace_def v(3) using room a ne len sp(2) v(1,2)
    by (simp add: list_defs L'_def Let_def)
  moreover have "links (l_nextIdx L') (l_prevIdx L') ((C # l @ a # r) @ [C])"
  proof -
    have "links (l_nextIdx L') (l_prevIdx L') (C # l)"
    proof -
      have "?q \<notin> set (butlast (C # l))" using last_notin_butlast [of "C # l"] dist by simp
      moreover have "a \<notin> set (butlast (C # l))" using a by (auto dest: in_set_butlastD)
      moreover have "?p \<notin> set l" "a \<notin> set l" using p_in dist a by auto
      ultimately show ?thesis using sp(3) by (simp add: L'_def links_next_frame links_prev_frame)
    qed
    moreover have "links (l_nextIdx L') (l_prevIdx L') (r @ [C])"
    proof -
      have "?q \<notin> set r" "a \<notin> set r" using q_in dist a by auto
      moreover have "?p \<notin> set (tl (r @ [C]))" using dist by (cases r) auto
      moreover have "a \<notin> set (tl (r @ [C]))" using a by (cases r) auto
      ultimately show ?thesis using sp(4) by (simp add: L'_def links_next_frame links_prev_frame)
    qed
    moreover have "l_nextIdx L' ! ?q = a" "l_prevIdx L' ! a = ?q" "l_nextIdx L' ! a = ?p" "l_prevIdx L' ! ?p = a"
      using ne a len v(1,2) by (simp_all add: L'_def)
    ultimately show ?thesis
      using links_append [of "C # l" "a # r @ [C]"] links_append [of "[a]" "r @ [C]"] by simp
  qed
  moreover have "chain (l_nextIdx L') (l_freeListHeadIdx L') fs"
  proof -
    have "chain ?nx (?nx ! a) fs" using s by (simp add: list_state_def)
    moreover have "?q \<notin> set fs" using q_in s by (auto simp: list_state_def)
    ultimately show ?thesis using a by (simp add: L'_def chain_frame)
  qed
  moreover have "\<forall>f\<in>set fs. l_prevIdx L' ! f = C + 1"
  proof
    fix f assume "f \<in> set fs"
    then have "f \<noteq> ?p" "f \<noteq> a" "?pv ! f = C + 1" using p_in s a by (auto simp: list_state_def)
    then show "l_prevIdx L' ! f = C + 1" by (simp add: L'_def)
  qed
  moreover have "map ((!) (l_data L')) (l @ a # r) = map Some (take (length l) xs @ x # drop (length l) xs)"
  proof -
    have m: "map ((!) (l_data L)) l @ map ((!) (l_data L)) r = map Some xs" using s by (simp add: list_state_def)
    then have "map ((!) (l_data L)) l = map Some (take (length l) xs)" "map ((!) (l_data L)) r = map Some (drop (length l) xs)"
      by (metis append_eq_conv_conj length_map take_map, metis append_eq_conv_conj length_map drop_map)
    then show ?thesis using a len by (simp add: L'_def nth_map_frame)
  qed
  moreover have "distinct ((l @ a # r) @ fs)" "set ((l @ a # r) @ fs) = {..<C}" "l_size L' = length (l @ a # r)" "l_this L' = l_this L"
    using s by (auto simp: list_state_def L'_def)
  moreover have "length (l_nextIdx L') = C + 1" "length (l_prevIdx L') = C + 1" "length (l_data L') = C" using len by (simp_all add: L'_def)
  ultimately show ?thesis unfolding list_state_def by (intro exI [of _ L'] conjI) assumption+
qed

lemma list_emplace_full:
  assumes "list_state C L (l @ r) [] xs"
  shows "list_emplace C (iterator_at C L r) x L = Inr (list_end C L, L)"
  using list_state_length [OF assms] assms iterator_at_valid(3) [OF assms] by (simp add: list_emplace_def list_state_def)

lemma list_erase_state:
  assumes s: "list_state C L (l @ e # r) fs xs"
  shows "\<exists>L'. list_erase C (iterator_at C L (e # r)) L = Inr (iterator_at C L' r, L') \<and> l_this L' = l_this L \<and>
    list_state C L' (l @ r) (e # fs) (take (length l) xs @ drop (Suc (length l)) xs)"
proof -
  let ?nx = "l_nextIdx L" and ?pv = "l_prevIdx L" and ?p = "hd (r @ [C])" and ?q = "last (C # l)"
  have e: "e < C" "e \<notin> set l" "e \<notin> set r" "e \<noteq> C" "e \<notin> set fs" using s by (auto simp: list_state_def)
  have dist: "distinct (l @ r)" "C \<notin> set l" "C \<notin> set r" and len: "length ?nx = C + 1" "length ?pv = C + 1" "length (l_data L) = C"
    using s by (auto simp: list_state_def)
  have s': "list_state C L ((l @ [e]) @ r) fs xs" using s by simp
  note sp = list_state_split [OF s] and sp' = list_state_split [OF s'] and v = iterator_at_valid [OF s] and v' = iterator_at_valid [OF s']
  have q_in: "?q = C \<or> ?q \<in> set l" by (cases "l = []") auto
  have p_in: "?p = C \<or> ?p \<in> set r" by (cases r) auto
  have ne: "?q \<noteq> e" "?p \<noteq> e" using q_in p_in e by auto
  have pe: "?pv ! e = ?q" "?nx ! e = ?p" using sp(2) sp'(1) by simp_all
  have data: "l_data L ! e = Some (xs ! length l)"
    using iterator_at_deref [OF s] v(5) by (simp add: iterator_deref_def getData_def iterator_at_def split: option.splits)
  define L' where "L' = L\<lparr> l_freeListHeadIdx := e, l_nextIdx := ?nx[?q := ?p, e := l_freeListHeadIdx L], l_prevIdx := ?pv[?p := ?q, e := C + 1],
    l_data := (l_data L)[e := None], l_size := l_size L - 1 \<rparr>"
  have "list_erase C (iterator_at C L (e # r)) L = Inr (iterator_at C L' r, L')"
  proof -
    have ne0: "\<not> list_empty L" using s by (simp add: list_empty_def list_state_def)
    have "isValidElementIdx C (setNextIdx ?q ?p (setPrevIdx ?p ?q L)) e" using pe ne len e v(2) by (simp add: list_defs)
    then show ?thesis
      unfolding list_erase_def v(3) using ne0 v(5) pe ne len e v(2) data
      by (cases "l = []") (simp_all add: Let_def iterator_deref_def getData_def L'_def, simp_all add: list_defs L'_def)
  qed
  moreover have "links (l_nextIdx L') (l_prevIdx L') ((C # l @ r) @ [C])"
  proof -
    have "links (l_nextIdx L') (l_prevIdx L') (C # l)"
    proof -
      have "?q \<notin> set (butlast (C # l))" using last_notin_butlast [of "C # l"] dist by simp
      moreover have "e \<notin> set (butlast (C # l))" using e by (auto dest: in_set_butlastD)
      moreover have "?p \<notin> set l" "e \<notin> set l" using p_in dist e by auto
      ultimately show ?thesis using sp(3) by (simp add: L'_def links_next_frame links_prev_frame)
    qed
    moreover have "links (l_nextIdx L') (l_prevIdx L') (r @ [C])"
    proof -
      have "?q \<notin> set r" "e \<notin> set r" using q_in dist e by auto
      moreover have "?p \<notin> set (tl (r @ [C]))" using dist by (cases r) auto
      moreover have "e \<notin> set (tl (r @ [C]))" using e by (cases r) auto
      ultimately show ?thesis using sp'(4) by (simp add: L'_def links_next_frame links_prev_frame)
    qed
    moreover have "l_nextIdx L' ! ?q = ?p" "l_prevIdx L' ! ?p = ?q" using ne e len v'(1) v(2) by (simp_all add: L'_def)
    ultimately show ?thesis using links_append [of "C # l" "r @ [C]"] by simp
  qed
  moreover have "chain (l_nextIdx L') (l_freeListHeadIdx L') (e # fs)"
  proof -
    have "chain ?nx (l_freeListHeadIdx L) fs" using s by (simp add: list_state_def)
    moreover have "?q \<notin> set fs" using q_in s by (auto simp: list_state_def)
    ultimately show ?thesis using e len by (simp add: L'_def chain_frame)
  qed
  moreover have "\<forall>f\<in>set (e # fs). l_prevIdx L' ! f = C + 1"
  proof
    fix f assume "f \<in> set (e # fs)"
    then have "f = e \<or> f \<noteq> ?p \<and> f \<noteq> e \<and> ?pv ! f = C + 1" using p_in s e by (auto simp: list_state_def)
    then show "l_prevIdx L' ! f = C + 1" using e len by (auto simp: L'_def)
  qed
  moreover have "map ((!) (l_data L')) (l @ r) = map Some (take (length l) xs @ drop (Suc (length l)) xs)"
  proof -
    have m: "map ((!) (l_data L)) (l @ e # r) = map Some xs" using s by (simp add: list_state_def)
    have "map ((!) (l_data L)) l = take (length l) (map ((!) (l_data L)) (l @ e # r))"
      "map ((!) (l_data L)) r = drop (Suc (length l)) (map ((!) (l_data L)) (l @ e # r))" by simp_all
    then show ?thesis unfolding m using e by (simp add: L'_def nth_map_frame take_map drop_map)
  qed
  moreover have "distinct ((l @ r) @ e # fs)" "set ((l @ r) @ e # fs) = {..<C}" "l_size L' = length (l @ r)" "l_this L' = l_this L"
    using s by (auto simp: list_state_def L'_def)
  moreover have "length (l_nextIdx L') = C + 1" "length (l_prevIdx L') = C + 1" "length (l_data L') = C" using len by (simp_all add: L'_def)
  ultimately show ?thesis unfolding list_state_def by (intro exI [of _ L'] conjI) assumption+
qed

subsection \<open>The operations of the interface\<close>

lemma list_state_size: "list_state C L us fs xs \<Longrightarrow> l_size L = length xs"
  using list_state_length by (metis list_state_def)

lemma list_state_room: "list_state C L us fs xs \<Longrightarrow> l_size L < C \<longleftrightarrow> fs \<noteq> []"
  using list_state_length [of C L us fs xs] by (auto simp: list_state_def)

lemma list_push_front_rep:
  assumes "list_rep C L xs"
  shows "length xs < C \<Longrightarrow> \<exists>L'. list_push_front C x L = Inr (True, L') \<and> list_rep C L' (x # xs)"
    "\<not> length xs < C \<Longrightarrow> list_push_front C x L = Inr (False, L)"
proof -
  obtain us fs where s: "list_state C L us fs xs" using assms by (auto simp: list_rep_def)
  note sz = list_state_size [OF s] and room = list_state_room [OF s]
  show "\<not> length xs < C \<Longrightarrow> list_push_front C x L = Inr (False, L)" using sz by (simp add: list_push_front_def)
  assume "length xs < C"
  then obtain a fs' where fs: "fs = a # fs'" using sz room by (cases fs) auto
  have "list_state C L ([] @ us) (a # fs') xs" using s fs by simp
  from list_emplace_state [OF this, of x] obtain L' where
    L': "list_emplace C (iterator_at C L us) x L = Inr (iterator_at C L' (a # us), L')" "list_state C L' (a # us) fs' (x # xs)" by auto
  then show "\<exists>L'. list_push_front C x L = Inr (True, L') \<and> list_rep C L' (x # xs)"
    using list_state_size [OF L'(2)] sz \<open>length xs < C\<close> list_begin_at [OF s] by (auto simp: list_push_front_def list_rep_def)
qed

lemma list_push_back_rep:
  assumes "list_rep C L xs"
  shows "length xs < C \<Longrightarrow> \<exists>L'. list_push_back C x L = Inr (True, L') \<and> list_rep C L' (xs @ [x])"
    "\<not> length xs < C \<Longrightarrow> list_push_back C x L = Inr (False, L)"
proof -
  obtain us fs where s: "list_state C L us fs xs" using assms by (auto simp: list_rep_def)
  note sz = list_state_size [OF s] and room = list_state_room [OF s]
  show "\<not> length xs < C \<Longrightarrow> list_push_back C x L = Inr (False, L)" using sz by (simp add: list_push_back_def)
  assume "length xs < C"
  then obtain a fs' where fs: "fs = a # fs'" using sz room by (cases fs) auto
  have "list_state C L (us @ []) (a # fs') xs" using s fs by simp
  from list_emplace_state [OF this, of x] obtain L' where
    L': "list_emplace C (iterator_at C L []) x L = Inr (iterator_at C L' [a], L')" "list_state C L' (us @ [a]) fs' (xs @ [x])"
    using list_state_length [OF s] by auto
  then show "\<exists>L'. list_push_back C x L = Inr (True, L') \<and> list_rep C L' (xs @ [x])"
    using list_state_size [OF L'(2)] sz \<open>length xs < C\<close> by (auto simp: list_push_back_def list_rep_def list_end_at)
qed

lemma list_erase_end:
  assumes "list_state C L us fs xs"
  shows "list_erase C (iterator_at C L []) L = Inr (list_end C L, L)"
proof -
  have "list_state C L (us @ []) fs xs" using assms by simp
  note v = iterator_at_valid [OF this]
  show ?thesis using v(3,5) by (simp add: list_erase_def) (simp add: iterator_at_def)
qed

lemma list_pop_front_rep:
  assumes "list_rep C L xs"
  shows "\<exists>L'. list_pop_front C L = Inr (xs \<noteq> [], L') \<and> list_rep C L' (tl xs)"
proof -
  obtain us fs where s: "list_state C L us fs xs" using assms by (auto simp: list_rep_def)
  show ?thesis
  proof (cases us)
    case Nil
    then have "xs = []" using list_state_length [OF s] by simp
    then show ?thesis using assms list_erase_end [OF s] list_begin_at [OF s] Nil by (simp add: list_pop_front_def list_state_size [OF s])
  next
    case (Cons e r)
    then have s': "list_state C L ([] @ e # r) fs xs" using s by simp
    obtain L' where L': "list_erase C (iterator_at C L (e # r)) L = Inr (iterator_at C L' r, L')" "list_state C L' r (e # fs) (tl xs)"
      using list_erase_state [OF s'] by (auto simp: drop_Suc)
    have "xs \<noteq> []" using list_state_length [OF s] Cons by auto
    then show ?thesis using L' list_begin_at [OF s] Cons list_state_size [OF s] list_state_size [OF L'(2)]
      by (auto simp: list_pop_front_def list_rep_def)
  qed
qed

lemma list_pop_back_rep:
  assumes "list_rep C L xs"
  shows "\<exists>L'. list_pop_back C L = Inr (xs \<noteq> [], L') \<and> list_rep C L' (butlast xs)"
proof -
  obtain us fs where s: "list_state C L us fs xs" using assms by (auto simp: list_rep_def)
  then have s0: "list_state C L (us @ []) fs xs" by simp
  note dec = iterator_at_dec [OF s0]
  show ?thesis
  proof (cases us rule: rev_cases)
    case Nil
    then have "xs = []" using list_state_length [OF s] by simp
    then show ?thesis using assms list_erase_end [OF s] dec Nil by (simp add: list_pop_back_def list_end_at list_state_size [OF s])
  next
    case (snoc l e)
    then have s': "list_state C L (l @ e # []) fs xs" using s by simp
    have len: "length xs = Suc (length l)" using list_state_length [OF s] snoc by simp
    then have b: "take (length l) xs @ drop (Suc (length l)) xs = butlast xs" by (simp add: butlast_conv_take)
    obtain L' where L': "list_erase C (iterator_at C L [e]) L = Inr (iterator_at C L' [], L')" "list_state C L' l (e # fs) (butlast xs)"
      using list_erase_state [OF s'] b by auto
    have "xs \<noteq> []" using len by auto
    then show ?thesis using L' dec snoc list_state_size [OF s] list_state_size [OF L'(2)] len
      by (auto simp: list_pop_back_def list_end_at list_rep_def)
  qed
qed

lemma list_front_rep: "list_rep C L xs \<Longrightarrow> list_front C L = (case xs of [] \<Rightarrow> Inl EXPECTS_ENSURES_FAILED | x # _ \<Rightarrow> Inr x)"
proof -
  assume "list_rep C L xs"
  then obtain us fs where s: "list_state C L us fs xs" by (auto simp: list_rep_def)
  then have s0: "list_state C L ([] @ us) fs xs" by simp
  note v = iterator_at_valid(5) [OF s0]
  show ?thesis
  proof (cases us)
    case Nil
    then show ?thesis using list_state_length [OF s] v list_begin_at [OF s] by (simp add: list_front_def) (simp add: iterator_at_def)
  next
    case (Cons e r)
    then obtain x xs' where "xs = x # xs'" using list_state_length [OF s] by (cases xs) auto
    then show ?thesis using Cons iterator_at_deref [of C L "[]" e r fs xs] s v list_begin_at [OF s]
      by (simp add: list_front_def) (simp add: iterator_at_def)
  qed
qed

lemma list_back_rep: "list_rep C L xs \<Longrightarrow> list_back C L = (if xs = [] then Inl EXPECTS_ENSURES_FAILED else Inr (last xs))"
proof -
  assume "list_rep C L xs"
  then obtain us fs where s: "list_state C L us fs xs" by (auto simp: list_rep_def)
  then have s0: "list_state C L (us @ []) fs xs" by simp
  note dec = iterator_at_dec [OF s0]
  show ?thesis
  proof (cases us rule: rev_cases)
    case Nil
    then show ?thesis using list_state_length [OF s] dec iterator_at_valid(5) [OF s0]
      by (simp add: list_back_def list_end_at) (simp add: iterator_at_def)
  next
    case (snoc l e)
    then have s': "list_state C L (l @ e # []) fs xs" using s by simp
    have len: "length xs = Suc (length l)" using list_state_length [OF s] snoc by simp
    then have "xs \<noteq> []" by auto
    then have "xs ! length l = last xs" using len by (simp add: last_conv_nth)
    then show ?thesis using \<open>xs \<noteq> []\<close> snoc dec iterator_at_deref [OF s'] iterator_at_valid(5) [OF s']
      by (simp add: list_back_def list_end_at) (simp add: iterator_at_def)
  qed
qed

lemma remove_if_loop_state:
  "list_state C L (l @ r) fs xs \<Longrightarrow>
    \<exists>L'. remove_if_loop C p (iterator_at C L r) n L = Some (Inr (n + length (filter p (drop (length l) xs)), L')) \<and>
      list_rep C L' (take (length l) xs @ filter (\<lambda>x. \<not> p x) (drop (length l) xs))"
proof (induction r arbitrary: L l fs xs n)
  case Nil
  then have "length xs = length l" using list_state_length by fastforce
  moreover have "remove_if_loop C p (iterator_at C L []) n L = Some (Inr (n, L))"
    using iterator_at_eq_end [OF Nil] by (subst remove_if_loop.simps) simp
  ultimately show ?case using Nil by (auto simp: list_rep_def)
next
  case (Cons e r)
  have len: "length l < length xs" using list_state_length [OF Cons.prems] by simp
  let ?x = "xs ! length l"
  have d: "drop (length l) xs = ?x # drop (Suc (length l)) xs" using len by (simp add: Cons_nth_drop_Suc)
  note eqs = iterator_at_eq_end [OF Cons.prems] iterator_at_deref [OF Cons.prems]
  show ?case
  proof (cases "p ?x")
    case True
    obtain L' where L': "list_erase C (iterator_at C L (e # r)) L = Inr (iterator_at C L' r, L')"
      "list_state C L' (l @ r) (e # fs) (take (length l) xs @ drop (Suc (length l)) xs)" using list_erase_state [OF Cons.prems] by blast
    then have "remove_if_loop C p (iterator_at C L (e # r)) n L = remove_if_loop C p (iterator_at C L' r) (n + 1) L'"
      using eqs True by (subst remove_if_loop.simps) simp
    moreover have "min (length xs) (length l) = length l" using len by simp
    ultimately show ?thesis using Cons.IH [OF L'(2), of "n + 1"] True d by simp
  next
    case False
    then have "remove_if_loop C p (iterator_at C L (e # r)) n L = remove_if_loop C p (iterator_at C L r) n L"
      using eqs iterator_at_inc [OF Cons.prems] by (subst remove_if_loop.simps) simp
    moreover have "list_state C L ((l @ [e]) @ r) fs xs" using Cons.prems by simp
    moreover have "take (Suc (length l)) xs = take (length l) xs @ [?x]" using len by (simp add: take_Suc_conv_app_nth)
    ultimately show ?thesis using Cons.IH [of L "l @ [e]" fs xs n] False d by simp
  qed
qed

lemma list_remove_if_rep:
  "list_rep C L xs \<Longrightarrow> \<exists>L'. list_remove_if C p L = Inr (length (filter p xs), L') \<and> list_rep C L' (filter (\<lambda>x. \<not> p x) xs)"
proof -
  assume "list_rep C L xs"
  then obtain us fs where s: "list_state C L ([] @ us) fs xs" by (auto simp: list_rep_def)
  show ?thesis using remove_if_loop_state [OF s, of p 0] list_begin_at [of C L us fs xs] s by (auto simp: list_remove_if_def)
qed

lemma clear_loop_state: "list_state C L us fs xs \<Longrightarrow> \<exists>L'. clear_loop C L = Some (Inr L') \<and> list_rep C L' []"
proof (induction us arbitrary: L fs xs)
  case Nil
  then show ?case using list_state_length [OF Nil] list_state_size [OF Nil] by (subst clear_loop.simps) (auto simp: list_rep_def)
next
  case (Cons e r)
  then have s': "list_state C L ([] @ e # r) fs xs" by simp
  obtain L' where L': "list_erase C (iterator_at C L (e # r)) L = Inr (iterator_at C L' r, L')" "list_state C L' r (e # fs) (drop 1 xs)"
    using list_erase_state [OF s'] by auto
  moreover have "l_size L \<noteq> 0" using list_state_length [OF Cons.prems] list_state_size [OF Cons.prems] by simp
  ultimately show ?case using Cons.IH [OF L'(2)] list_begin_at [OF Cons.prems] by (subst clear_loop.simps) simp
qed

lemma list_clear_rep: "list_rep C L xs \<Longrightarrow> \<exists>L'. list_clear C L = Inr L' \<and> list_rep C L' []"
  using clear_loop_state by (fastforce simp: list_rep_def list_clear_def)

text \<open>The operations at a position: an iterator from \<open>begin()\<close> is moved there.\<close>

definition list_emplace_at :: "nat \<Rightarrow> nat \<Rightarrow> 'a \<Rightarrow> 'a cxx_list \<Rightarrow> (bool \<times> 'a cxx_list) outcome" where
  "list_emplace_at Capacity k x L =
     obind (advance (iterator_inc Capacity L) k (list_begin Capacity L)) (\<lambda>iter.
     obind (list_emplace Capacity iter x L) (\<lambda>(_, L'). Inr (l_size L' = l_size L + 1, L')))"

definition list_erase_at :: "nat \<Rightarrow> nat \<Rightarrow> 'a cxx_list \<Rightarrow> (bool \<times> 'a cxx_list) outcome" where
  "list_erase_at Capacity k L =
     obind (advance (iterator_inc Capacity L) k (list_begin Capacity L)) (\<lambda>iter.
     obind (list_erase Capacity iter L) (\<lambda>(_, L'). Inr (l_size L' < l_size L, L')))"

definition list_element_at :: "nat \<Rightarrow> nat \<Rightarrow> 'a cxx_list \<Rightarrow> 'a outcome" where
  "list_element_at Capacity k L =
     obind (advance (iterator_inc Capacity L) k (list_begin Capacity L)) (iterator_deref Capacity L)"

lemma advance_at:
  "list_state C L (l @ r) fs xs \<Longrightarrow> k \<le> length r \<Longrightarrow> advance (iterator_inc C L) k (iterator_at C L r) = Inr (iterator_at C L (drop k r))"
proof (induction k arbitrary: l r)
  case (Suc k)
  then obtain e r' where r: "r = e # r'" by (cases r) auto
  then have "list_state C L ((l @ [e]) @ r') fs xs" using Suc.prems by simp
  from Suc.IH [OF this] show ?case using iterator_at_inc [of C L l e r' fs xs] Suc.prems r by simp
qed simp

lemma advance_begin:
  assumes "list_state C L us fs xs" "k \<le> length us"
  shows "advance (iterator_inc C L) k (list_begin C L) = Inr (iterator_at C L (drop k us))"
  using advance_at [of C L "[]" us fs xs k] assms list_begin_at [OF assms(1)] by simp

lemma list_positions_rep:
  assumes "list_rep C L xs"
  shows "k \<le> length xs \<Longrightarrow> length xs < C \<Longrightarrow> \<exists>L'. list_emplace_at C k x L = Inr (True, L') \<and> list_rep C L' (take k xs @ x # drop k xs)"
    "k \<le> length xs \<Longrightarrow> \<not> length xs < C \<Longrightarrow> list_emplace_at C k x L = Inr (False, L)"
    "k < length xs \<Longrightarrow> \<exists>L'. list_erase_at C k L = Inr (True, L') \<and> list_rep C L' (take k xs @ drop (Suc k) xs)"
    "k < length xs \<Longrightarrow> list_element_at C k L = Inr (xs ! k)"
proof -
  obtain us fs where s: "list_state C L us fs xs" using assms by (auto simp: list_rep_def)
  note sz = list_state_size [OF s] and len = list_state_length [OF s] and adv = advance_begin [OF s]
  have split: "list_state C L (take k us @ drop k us) fs xs" using s by simp
  show "\<not> length xs < C \<Longrightarrow> list_emplace_at C k x L = Inr (False, L)" if "k \<le> length xs"
  proof -
    assume "\<not> length xs < C"
    then have "fs = []" using len by (cases fs) auto
    then show ?thesis using list_emplace_full split adv [of k] that len by (fastforce simp: list_emplace_at_def)
  qed
  show "\<exists>L'. list_emplace_at C k x L = Inr (True, L') \<and> list_rep C L' (take k xs @ x # drop k xs)" if k: "k \<le> length xs" "length xs < C"
  proof -
    obtain a fs' where "fs = a # fs'" using k len by (cases fs) auto
    then obtain L' where L': "list_emplace C (iterator_at C L (drop k us)) x L = Inr (iterator_at C L' (a # drop k us), L')"
      "list_state C L' (take k us @ a # drop k us) fs' (take k xs @ x # drop k xs)"
      using list_emplace_state [of C L "take k us" "drop k us" a fs' xs x] split k len by auto
    then show ?thesis using list_state_size [OF L'(2)] sz adv [of k] k len by (auto simp: list_emplace_at_def list_rep_def)
  qed
  have pos: "drop k us = us ! k # drop (Suc k) us" if "k < length xs" using that len by (simp add: Cons_nth_drop_Suc)
  show "\<exists>L'. list_erase_at C k L = Inr (True, L') \<and> list_rep C L' (take k xs @ drop (Suc k) xs)" if k: "k < length xs"
  proof -
    have "list_state C L (take k us @ us ! k # drop (Suc k) us) fs xs" using split pos [OF k] by simp
    from list_erase_state [OF this] obtain L' where
      L': "list_erase C (iterator_at C L (drop k us)) L = Inr (iterator_at C L' (drop (Suc k) us), L')"
        "list_state C L' (take k us @ drop (Suc k) us) (us ! k # fs) (take k xs @ drop (Suc k) xs)"
      using k len pos [OF k] by auto
    then show ?thesis using list_state_size [OF L'(2)] sz adv [of k] k len by (auto simp: list_erase_at_def list_rep_def)
  qed
  show "list_element_at C k L = Inr (xs ! k)" if k: "k < length xs"
    using iterator_at_deref [of C L "take k us" "us ! k" "drop (Suc k) us" fs xs] split pos [OF k] adv [of k] k len by (simp add: list_element_at_def)
qed

definition cxx_list_operations :: "nat \<Rightarrow> ('a, 'a cxx_list) list_operations" where
  "cxx_list_operations Capacity =
     \<lparr> lo_push_front = list_push_front Capacity, lo_pop_front = list_pop_front Capacity, lo_front = list_front Capacity,
       lo_remove_if = list_remove_if Capacity, lo_clear = list_clear Capacity, lo_size = l_size,
       lo_emplace_at = list_emplace_at Capacity, lo_erase_at = list_erase_at Capacity, lo_element_at = list_element_at Capacity \<rparr>"

interpretation cxx_list: bounded_back_list C "list_rep C" "cxx_list_operations C" "list_push_back C" "list_pop_back C" "list_back C"
  for C
proof (unfold_locales, unfold cxx_list_operations_def list_operations.select_convs)
  fix l :: "'a cxx_list" and xs
  assume "list_rep C l xs"
  then show "l_size l = length xs" using list_state_size by (auto simp: list_rep_def)
qed (fact list_push_front_rep list_pop_front_rep list_front_rep list_remove_if_rep list_clear_rep list_positions_rep
    list_push_back_rep list_pop_back_rep list_back_rep)+

subsection \<open>Construction and copies\<close>

lemma init_loop_fields:
  "l_nextIdx (init_loop C is L) = fold (\<lambda>i nx. nx[i := i + 1]) is (l_nextIdx L)"
  "l_prevIdx (init_loop C is L) = fold (\<lambda>i pv. pv[i := C + 1]) is (l_prevIdx L)"
  "l_this (init_loop C is L) = l_this L" "l_data (init_loop C is L) = l_data L"
  by (induction "is" arbitrary: L) (simp_all add: list_defs)

lemma fold_update: "distinct is \<Longrightarrow> \<forall>i\<in>set is. i < length xs \<Longrightarrow>
    length (fold (\<lambda>i ys. ys[i := f i]) is xs) = length xs \<and>
    (\<forall>j<length xs. fold (\<lambda>i ys. ys[i := f i]) is xs ! j = (if j \<in> set is then f j else xs ! j))"
  by (induction "is" arbitrary: xs) (auto simp: nth_list_update)

lemma list_ctor_rep:
  assumes C: "0 < C" and len: "length nexts = NODE_LINK_COUNT C" "length prevs = NODE_LINK_COUNT C"
  shows "list_rep C (list_ctor C this nexts prevs :: 'a cxx_list) []" "l_this (list_ctor C this nexts prevs :: 'a cxx_list) = this"
proof -
  let ?L = "list_ctor C this nexts prevs :: 'a cxx_list"
  define nx pv where "nx = fold (\<lambda>i nx. nx[i := i + 1]) [1..<C - 1] (nexts[0 := 1])" and "pv = fold (\<lambda>i pv. pv[i := C + 1]) [1..<C - 1] (prevs[0 := C + 1])"
  have L: "l_nextIdx ?L = nx[C - 1 := C, C := C]" "l_prevIdx ?L = pv[C - 1 := C + 1, C := C]" "l_data ?L = replicate C None"
    "l_size ?L = 0" "l_freeListHeadIdx ?L = 0" "l_this ?L = this"
    by (simp_all add: list_ctor_def list_init_def Let_def list_defs init_loop_fields nx_def pv_def)
  have in_range: "\<forall>i\<in>set [1..<C - 1]. i < length (nexts[0 := 1])" "\<forall>i\<in>set [1..<C - 1]. i < length (prevs[0 := C + 1])"
    using len by (auto simp: NODE_LINK_COUNT_def)
  have nx: "length nx = C + 1" "\<And>j. j < C + 1 \<Longrightarrow> nx ! j = (if j \<in> {1..<C - 1} then j + 1 else nexts[0 := 1] ! j)"
    using fold_update [OF distinct_upt in_range(1), of "\<lambda>i. i + 1"] len unfolding nx_def NODE_LINK_COUNT_def by auto
  have pv: "length pv = C + 1" "\<And>j. j < C + 1 \<Longrightarrow> pv ! j = (if j \<in> {1..<C - 1} then C + 1 else prevs[0 := C + 1] ! j)"
    using fold_update [OF distinct_upt in_range(2), of "\<lambda>i. C + 1"] len unfolding pv_def NODE_LINK_COUNT_def by auto
  have "l_nextIdx ?L ! i = Suc i" if "Suc i < C" for i
  proof -
    have "nx ! i = Suc i" using that nx(2) [of i] len by (cases "i = 0") (auto simp: NODE_LINK_COUNT_def)
    then show ?thesis using that by (simp add: L)
  qed
  then have ch: "chain (l_nextIdx ?L) 0 [0..<C]" by (intro chain_upt) auto
  have inv: "l_prevIdx ?L ! f = C + 1" if "f < C" for f
  proof (cases "f = C - 1")
    case False
    then have "pv ! f = C + 1" using that pv(2) [of f] len by (cases "f = 0") (auto simp: NODE_LINK_COUNT_def)
    then show ?thesis using False that by (simp add: L)
  qed (use that pv(1) in \<open>simp add: L\<close>)
  show "list_rep C ?L []"
    unfolding list_rep_def list_state_def
    by (rule exI [of _ "[]"], rule exI [of _ "[0..<C]"])
      (use ch inv nx(1) pv(1) in \<open>simp add: L(3,4,5), simp add: L(1,2) atLeast_upt\<close>)
  show "l_this ?L = this" by (rule L(6))
qed

lemma list_state_overwrite:
  assumes s: "list_state C L (l @ e # r) fs xs"
  shows "list_state C (L\<lparr> l_data := (l_data L)[e := Some x] \<rparr>) (l @ e # r) fs (xs[length l := x])"
proof -
  have m: "map ((!) (l_data L)) (l @ e # r) = map Some xs" and e: "e \<notin> set l" "e \<notin> set r" "e < length (l_data L)"
    using s by (auto simp: list_state_def)
  have "map ((!) ((l_data L)[e := Some x])) (l @ e # r) = (map ((!) (l_data L)) (l @ e # r))[length l := Some x]"
    using e by (simp add: nth_map_frame list_update_append)
  also have "\<dots> = map Some (xs[length l := x])" unfolding m by (simp add: map_update)
  finally show ?thesis using s unfolding list_state_def by simp
qed

lemma copy_loop_state:
  assumes "list_state C L (l @ r) fs xs" "list_state C R (m @ s) gs ys" "n \<le> length r" "n \<le> length s"
  shows "\<exists>L'. copy_loop C n (iterator_at C L r) (iterator_at C R s) R L = Inr (iterator_at C L' (drop n r), iterator_at C R (drop n s), L') \<and>
    list_state C L' (l @ r) fs (take (length l) xs @ take n (drop (length m) ys) @ drop (length l + n) xs)"
  using assms
proof (induction n arbitrary: L l r xs m s)
  case 0
  then show ?case by simp
next
  case (Suc n)
  then obtain e r' f s' where r: "r = e # r'" and s: "s = f # s'" by (metis Suc_le_length_iff)
  note L = Suc.prems(1) [unfolded r] and R = Suc.prems(2) [unfolded s]
  let ?x = "ys ! length m" and ?xs = "xs[length l := ys ! length m]"
  let ?L = "L\<lparr> l_data := (l_data L)[e := Some ?x] \<rparr>"
  have L1: "list_state C ?L (l @ e # r') fs ?xs" by (rule list_state_overwrite [OF L])
  have at: "iterator_at C ?L q = iterator_at C L q" for q by (simp add: iterator_at_def)
  have hd: "li_idx (iterator_at C L (e # r')) = e" by (simp add: iterator_at_def)
  note inc = iterator_at_inc [OF L1, unfolded at]
  have loop: "copy_loop C (Suc n) (iterator_at C L r) (iterator_at C R s) R L = copy_loop C n (iterator_at C ?L r') (iterator_at C R s') R ?L"
    using iterator_at_deref [OF L] iterator_at_deref [OF R] iterator_at_inc [OF R] inc by (simp add: r s hd at)
  have len: "length l < length xs" "length m < length ys" using list_state_length [OF L] list_state_length [OF R] by simp_all
  have "list_state C ?L ((l @ [e]) @ r') fs ?xs" "list_state C R ((m @ [f]) @ s') gs ys" using L1 R by simp_all
  from Suc.IH [OF this] Suc.prems(3,4) obtain L' where
    L': "copy_loop C n (iterator_at C ?L r') (iterator_at C R s') R ?L = Inr (iterator_at C L' (drop n r'), iterator_at C R (drop n s'), L')"
    "list_state C L' ((l @ [e]) @ r') fs (take (Suc (length l)) ?xs @ take n (drop (Suc (length m)) ys) @ drop (Suc (length l) + n) ?xs)"
    by (auto simp: r s)
  have "take (Suc (length l)) ?xs = take (length l) xs @ [?x]" using len by (simp add: take_Suc_conv_app_nth)
  moreover have "take (Suc n) (drop (length m) ys) = ?x # take n (drop (Suc (length m)) ys)" using len by (simp add: Cons_nth_drop_Suc [symmetric])
  ultimately show ?case using loop L' by (auto simp: r s)
qed

lemma append_loop_state:
  assumes "list_state C L us fs xs" "list_state C R (m @ s) gs ys" "n \<le> length s" "length us + n \<le> C"
  shows "\<exists>L' us' fs'. append_loop C n (iterator_at C R s) R L = Inr L' \<and> list_state C L' us' fs' (xs @ take n (drop (length m) ys))"
  using assms
proof (induction n arbitrary: L us fs xs m s)
  case 0
  then show ?case by auto
next
  case (Suc n)
  then obtain f s' where s: "s = f # s'" by (metis Suc_le_length_iff)
  note R = Suc.prems(2) [unfolded s]
  obtain a fs' where fs: "fs = a # fs'" using list_state_length [OF Suc.prems(1)] Suc.prems(4) by (cases fs) auto
  have "list_state C L (us @ []) (a # fs') xs" using Suc.prems(1) fs by simp
  from list_emplace_state [OF this, of "ys ! length m"] obtain L1 where
    L1: "list_emplace C (iterator_at C L []) (ys ! length m) L = Inr (iterator_at C L1 [a], L1)" "list_state C L1 (us @ [a]) fs' (xs @ [ys ! length m])"
    using list_state_length [OF Suc.prems(1)] by auto
  have loop: "append_loop C (Suc n) (iterator_at C R s) R L = append_loop C n (iterator_at C R s') R L1"
    using iterator_at_deref [OF R] iterator_at_inc [OF R] L1(1) by (simp add: s list_end_at)
  have len: "length m < length ys" using list_state_length [OF R] by simp
  have "list_state C R ((m @ [f]) @ s') gs ys" using R by simp
  from Suc.IH [OF L1(2) this] Suc.prems(3,4) have
    "\<exists>L' us' fs'. append_loop C n (iterator_at C R s') R L1 = Inr L' \<and> list_state C L' us' fs' ((xs @ [ys ! length m]) @ take n (drop (Suc (length m)) ys))"
    by (simp add: s)
  moreover have "take (Suc n) (drop (length m) ys) = ys ! length m # take n (drop (Suc (length m)) ys)" using len by (simp add: Cons_nth_drop_Suc [symmetric])
  ultimately show ?case using loop by simp
qed

lemma erase_loop_state:
  "list_state C L (l @ r) fs xs \<Longrightarrow> \<exists>L'. erase_loop C (length r) (iterator_at C L r) L = Inr L' \<and> list_rep C L' (take (length l) xs)"
proof (induction r arbitrary: L fs xs)
  case Nil
  then show ?case using list_state_length [OF Nil] by (auto simp: list_rep_def)
next
  case (Cons e r)
  obtain L' where L': "list_erase C (iterator_at C L (e # r)) L = Inr (iterator_at C L' r, L')"
    "list_state C L' (l @ r) (e # fs) (take (length l) xs @ drop (Suc (length l)) xs)" using list_erase_state [OF Cons.prems] by blast
  moreover have "length l \<le> length xs" using list_state_length [OF Cons.prems] by simp
  ultimately show ?case using Cons.IH [OF L'(2)] by simp
qed

text \<open>A copy holds the elements of the other list.\<close>

lemma list_assign_rep:
  assumes "list_rep C L xs" "list_rep C R ys" "l_this L \<noteq> l_this R"
  shows "\<exists>L'. list_assign C R L = Inr L' \<and> list_rep C L' ys"
proof -
  obtain us fs vs gs where L: "list_state C L ([] @ us) fs xs" and R: "list_state C R ([] @ vs) gs ys" using assms by (auto simp: list_rep_def)
  note lenL = list_state_length [OF L] and lenR = list_state_length [OF R]
  have sz: "l_size L = length xs" "l_size R = length ys" using list_state_size L R by blast+
  let ?n = "min (length ys) (length xs)"
  obtain L1 where L1: "copy_loop C ?n (iterator_at C L us) (iterator_at C R vs) R L = Inr (iterator_at C L1 (drop ?n us), iterator_at C R (drop ?n vs), L1)"
    "list_state C L1 us fs (take ?n ys @ drop ?n xs)"
    using copy_loop_state [OF L R, of ?n] lenL lenR by auto
  have R': "list_state C R (take ?n vs @ drop ?n vs) gs ys" using R by simp
  have begins: "list_begin C L = iterator_at C L us" "list_begin C R = iterator_at C R vs" using list_begin_at L R by (metis append_Nil)+
  have main: "list_assign C R L = obind (append_loop C (length ys - ?n) (iterator_at C R (drop ?n vs)) R L1)
      (\<lambda>L2. erase_loop C (length xs - max ?n (length ys)) (iterator_at C L1 (drop ?n us)) L2)"
    using assms(3) L1(1) by (simp add: list_assign_def Let_def sz begins)
  show ?thesis
  proof (cases "length xs \<le> length ys")
    case True
    then have n: "?n = length xs" by simp
    have "length us + (length ys - ?n) \<le> C" using lenL lenR True by simp
    from append_loop_state [OF L1(2) R' _ this] obtain L2 us' fs' where
      "append_loop C (length ys - ?n) (iterator_at C R (drop ?n vs)) R L1 = Inr L2"
      "list_state C L2 us' fs' ((take ?n ys @ drop ?n xs) @ take (length ys - ?n) (drop (length (take ?n vs)) ys))"
      using lenR by auto
    moreover have "(take ?n ys @ drop ?n xs) @ take (length ys - ?n) (drop (length (take ?n vs)) ys) = ys"
      unfolding n using True lenR by (simp add: min_absorb2)
    moreover have "length xs - max ?n (length ys) = 0" using True by simp
    ultimately show ?thesis unfolding main by (auto simp: list_rep_def)
  next
    case False
    then have n: "?n = length ys" by simp
    have "list_state C L1 (take ?n us @ drop ?n us) fs (take ?n ys @ drop ?n xs)" using L1(2) by simp
    from erase_loop_state [OF this] obtain L2 where
      "erase_loop C (length xs - length ys) (iterator_at C L1 (drop ?n us)) L1 = Inr L2" "list_rep C L2 ys"
      using lenL False by (auto simp: n)
    then show ?thesis using main False by (simp add: n max_def)
  qed
qed

end
