(* ===== verification/Cxx_Forward_List.thy ===== *)
theory Cxx_Forward_List
  imports Cxx_List
begin

section \<open>cxx::forward\_list\<close>

text \<open>
  The singly linked list in an array of links and an array of elements. The links have two places more than the elements: \<open>BEFORE_BEGIN_INDEX\<close>
  leads to the first element, \<open>END_INDEX\<close> to itself. An iterator is invalid if the flag of its link is set.
\<close>

record 'a forward_list =
  f_this :: nat
  f_freeListHeadIdx :: nat
  f_nextIdx :: "nat list"
  f_invalidElement :: "bool list"
  f_data :: "'a option list"
  f_size :: nat

definition BEFORE_BEGIN_INDEX :: "nat \<Rightarrow> nat" where "BEFORE_BEGIN_INDEX Capacity = Capacity"
definition END_INDEX :: "nat \<Rightarrow> nat" where "END_INDEX Capacity = Capacity + 1"
definition FORWARD_NODE_LINK_COUNT :: "nat \<Rightarrow> nat" where "FORWARD_NODE_LINK_COUNT Capacity = Capacity + 2"

abbreviation f_getNextIdx :: "'a forward_list \<Rightarrow> nat \<Rightarrow> nat" where "f_getNextIdx L i \<equiv> f_nextIdx L ! i"
abbreviation f_isInvalidElement :: "'a forward_list \<Rightarrow> nat \<Rightarrow> bool" where "f_isInvalidElement L i \<equiv> f_invalidElement L ! i"

definition f_setNextIdx :: "nat \<Rightarrow> nat \<Rightarrow> 'a forward_list \<Rightarrow> 'a forward_list" where
  "f_setNextIdx i n L = L\<lparr> f_nextIdx := (f_nextIdx L)[i := n] \<rparr>"

definition f_setInvalidElement :: "nat \<Rightarrow> bool \<Rightarrow> 'a forward_list \<Rightarrow> 'a forward_list" where
  "f_setInvalidElement i b L = L\<lparr> f_invalidElement := (f_invalidElement L)[i := b] \<rparr>"

definition f_isValidElementIdx :: "nat \<Rightarrow> 'a forward_list \<Rightarrow> nat \<Rightarrow> bool" where
  "f_isValidElementIdx Capacity L i \<longleftrightarrow> i < Capacity \<and> \<not> f_isInvalidElement L i"

definition f_isInvalidIterator :: "'a forward_list \<Rightarrow> list_iterator \<Rightarrow> bool outcome" where
  "f_isInvalidIterator L iter = Expects (\<not> f_isInvalidElement L (li_idx iter)) (Inr False)"

definition f_isInvalidIterOrDifferentLists :: "'a forward_list \<Rightarrow> list_iterator \<Rightarrow> bool outcome" where
  "f_isInvalidIterOrDifferentLists L iter = Expects (f_this L = li_list iter) (f_isInvalidIterator L iter)"

definition f_getData :: "nat \<Rightarrow> 'a forward_list \<Rightarrow> nat \<Rightarrow> 'a outcome" where
  "f_getData Capacity L i =
     Expects (f_isValidElementIdx Capacity L i) (case f_data L ! i of None \<Rightarrow> Inl NULLPTR_ACCESS | Some x \<Rightarrow> Inr x)"

subsection \<open>Construction\<close>

fun f_init_loop :: "nat list \<Rightarrow> 'a forward_list \<Rightarrow> 'a forward_list" where
  "f_init_loop [] L = L"
| "f_init_loop (i # is) L = f_init_loop is (f_setNextIdx i (i + 1) (f_setInvalidElement i True L))"

definition forward_list_init :: "nat \<Rightarrow> 'a forward_list \<Rightarrow> 'a forward_list" where
  "forward_list_init Capacity L =
     (let L = f_init_loop [f_freeListHeadIdx L..<Capacity - 1] L;
          L = f_setNextIdx (Capacity - 1) (END_INDEX Capacity) (f_setInvalidElement (Capacity - 1) True L);
          L = f_setNextIdx Capacity (END_INDEX Capacity) (f_setInvalidElement Capacity False L);
          L = f_setNextIdx (Capacity + 1) (END_INDEX Capacity) (f_setInvalidElement (Capacity + 1) False L)
      in L\<lparr> f_freeListHeadIdx := 0, f_size := 0 \<rparr>)"

definition forward_list_ctor :: "nat \<Rightarrow> nat \<Rightarrow> nat list \<Rightarrow> bool list \<Rightarrow> 'a forward_list" where
  "forward_list_ctor Capacity this nexts invalids =
     forward_list_init Capacity \<lparr> f_this = this, f_freeListHeadIdx = 0, f_nextIdx = nexts, f_invalidElement = invalids,
       f_data = replicate Capacity None, f_size = 0 \<rparr>"

subsection \<open>Iterators\<close>

definition before_begin :: "nat \<Rightarrow> 'a forward_list \<Rightarrow> list_iterator" where
  "before_begin Capacity L = \<lparr> li_list = f_this L, li_idx = BEFORE_BEGIN_INDEX Capacity \<rparr>"

definition f_begin :: "nat \<Rightarrow> 'a forward_list \<Rightarrow> list_iterator" where
  "f_begin Capacity L = \<lparr> li_list = f_this L, li_idx = f_getNextIdx L (BEFORE_BEGIN_INDEX Capacity) \<rparr>"

definition f_end :: "nat \<Rightarrow> 'a forward_list \<Rightarrow> list_iterator" where
  "f_end Capacity L = \<lparr> li_list = f_this L, li_idx = END_INDEX Capacity \<rparr>"

definition f_iterator_inc :: "'a forward_list \<Rightarrow> list_iterator \<Rightarrow> list_iterator outcome" where
  "f_iterator_inc L iter =
     obind (f_isInvalidIterator L iter) (\<lambda>invalid. Inr (if \<not> invalid then iter\<lparr> li_idx := f_getNextIdx L (li_idx iter) \<rparr> else iter))"

definition f_iterator_eq :: "'a forward_list \<Rightarrow> list_iterator \<Rightarrow> list_iterator \<Rightarrow> bool outcome" where
  "f_iterator_eq L iter rhs =
     obind (f_isInvalidIterOrDifferentLists L rhs) (\<lambda>invalid.
       if invalid then Inr False
       else obind (f_isInvalidIterator L iter) (\<lambda>invalid'. Inr (\<not> invalid' \<and> li_idx iter = li_idx rhs)))"

definition f_iterator_deref :: "nat \<Rightarrow> 'a forward_list \<Rightarrow> list_iterator \<Rightarrow> 'a outcome" where
  "f_iterator_deref Capacity L iter = f_getData Capacity L (li_idx iter)"

subsection \<open>Insertion and removal\<close>

definition forward_list_empty :: "'a forward_list \<Rightarrow> bool" where
  "forward_list_empty L \<longleftrightarrow> f_size L = 0"

definition emplace_after :: "nat \<Rightarrow> list_iterator \<Rightarrow> 'a \<Rightarrow> 'a forward_list \<Rightarrow> (list_iterator \<times> 'a forward_list) outcome" where
  "emplace_after Capacity iter x L =
     obind (f_isInvalidIterOrDifferentLists L iter) (\<lambda>invalid.
       if invalid then Inr (f_end Capacity L, L)
       else if f_size L \<ge> Capacity then Inr (f_end Capacity L, L)
       else (let toBeAddedIdx = f_freeListHeadIdx L;
                 L = L\<lparr> f_freeListHeadIdx := f_getNextIdx L (f_freeListHeadIdx L) \<rparr>;
                 L = f_setInvalidElement toBeAddedIdx False L
             in Expects (f_isValidElementIdx Capacity L toBeAddedIdx)
                  (let L = L\<lparr> f_data := (f_data L)[toBeAddedIdx := Some x] \<rparr>;
                       L = f_setNextIdx toBeAddedIdx (f_getNextIdx L (li_idx iter)) L;
                       L = f_setNextIdx (li_idx iter) toBeAddedIdx L
                   in Inr (\<lparr> li_list = f_this L, li_idx = toBeAddedIdx \<rparr>, L\<lparr> f_size := f_size L + 1 \<rparr>))))"

definition erase_after :: "nat \<Rightarrow> list_iterator \<Rightarrow> 'a forward_list \<Rightarrow> (list_iterator \<times> 'a forward_list) outcome" where
  "erase_after Capacity iter L =
     obind (f_isInvalidIterOrDifferentLists L iter) (\<lambda>invalid.
       if invalid then Inr (f_end Capacity L, L)
       else (let eraseIdx = f_getNextIdx L (li_idx iter)
             in if \<not> f_isValidElementIdx Capacity L eraseIdx \<or> forward_list_empty L then Inr (f_end Capacity L, L)
                else (let retIdx = f_getNextIdx L eraseIdx;
                          L = f_setNextIdx (li_idx iter) retIdx L
                      in obind (f_getData Capacity L eraseIdx) (\<lambda>_.
                           let L = L\<lparr> f_data := (f_data L)[eraseIdx := None] \<rparr>;
                               L = f_setInvalidElement eraseIdx True L;
                               L = f_setNextIdx eraseIdx (f_freeListHeadIdx L) L
                           in Inr (\<lparr> li_list = f_this L, li_idx = retIdx \<rparr>,
                                   L\<lparr> f_freeListHeadIdx := eraseIdx, f_size := f_size L - 1 \<rparr>)))))"

definition f_emplace_front :: "nat \<Rightarrow> 'a \<Rightarrow> 'a forward_list \<Rightarrow> ('a \<times> 'a forward_list) outcome" where
  "f_emplace_front Capacity x L =
     obind (emplace_after Capacity (before_begin Capacity L) x L) (\<lambda>(iter, L').
     obind (f_iterator_deref Capacity L' iter) (\<lambda>y. Inr (y, L')))"

definition f_push_front :: "nat \<Rightarrow> 'a \<Rightarrow> 'a forward_list \<Rightarrow> (bool \<times> 'a forward_list) outcome" where
  "f_push_front Capacity x L =
     (let sizeBeforePush = f_size L
      in obind (if f_size L < Capacity then obind (f_emplace_front Capacity x L) (\<lambda>(_, L'). Inr L') else Inr L) (\<lambda>L'.
           Inr (f_size L' = sizeBeforePush + 1, L')))"

definition f_pop_front :: "nat \<Rightarrow> 'a forward_list \<Rightarrow> (bool \<times> 'a forward_list) outcome" where
  "f_pop_front Capacity L =
     (let sizeBeforeErase = f_size L
      in obind (erase_after Capacity (before_begin Capacity L) L) (\<lambda>(_, L'). Inr (f_size L' + 1 = sizeBeforeErase, L')))"

definition f_front :: "nat \<Rightarrow> 'a forward_list \<Rightarrow> 'a outcome" where
  "f_front Capacity L =
     (let iter = f_begin Capacity L
      in Expects (f_isValidElementIdx Capacity L (li_idx iter)) (f_iterator_deref Capacity L iter))"

partial_function (option) f_remove_if_loop ::
  "nat \<Rightarrow> ('a \<Rightarrow> bool) \<Rightarrow> list_iterator \<Rightarrow> list_iterator \<Rightarrow> nat \<Rightarrow> 'a forward_list \<Rightarrow> (nat \<times> 'a forward_list) outcome option" where
  "f_remove_if_loop Capacity pred iter next_iter removedCount L =
     (case f_iterator_eq L next_iter (f_end Capacity L) of Inl e \<Rightarrow> Some (Inl e)
      | Inr atEnd \<Rightarrow>
          if atEnd then Some (Inr (removedCount, L))
          else (case f_iterator_deref Capacity L next_iter of Inl e \<Rightarrow> Some (Inl e)
                | Inr x \<Rightarrow>
                    if pred x
                    then (case erase_after Capacity iter L of Inl e \<Rightarrow> Some (Inl e)
                          | Inr r \<Rightarrow> f_remove_if_loop Capacity pred iter (fst r) (removedCount + 1) (snd r))
                    else (case f_iterator_inc L next_iter of Inl e \<Rightarrow> Some (Inl e)
                          | Inr next_iter' \<Rightarrow> f_remove_if_loop Capacity pred next_iter next_iter' removedCount L)))"

definition f_remove_if :: "nat \<Rightarrow> ('a \<Rightarrow> bool) \<Rightarrow> 'a forward_list \<Rightarrow> (nat \<times> 'a forward_list) outcome" where
  "f_remove_if Capacity pred L =
     obind (returns (f_remove_if_loop Capacity pred (before_begin Capacity L) (f_begin Capacity L) 0 L)) (\<lambda>r. r)"

definition f_remove :: "nat \<Rightarrow> 'a \<Rightarrow> 'a forward_list \<Rightarrow> (nat \<times> 'a forward_list) outcome" where
  "f_remove Capacity x L = f_remove_if Capacity (\<lambda>y. y = x) L"

partial_function (option) f_clear_loop :: "nat \<Rightarrow> 'a forward_list \<Rightarrow> 'a forward_list outcome option" where
  "f_clear_loop Capacity L =
     (if f_size L = 0 then Some (Inr L)
      else case erase_after Capacity (before_begin Capacity L) L of Inl e \<Rightarrow> Some (Inl e)
           | Inr r \<Rightarrow> f_clear_loop Capacity (snd r))"

definition f_clear :: "nat \<Rightarrow> 'a forward_list \<Rightarrow> 'a forward_list outcome" where
  "f_clear Capacity L = obind (returns (f_clear_loop Capacity L)) (\<lambda>r. r)"

declare f_remove_if_loop.simps [code] f_clear_loop.simps [code]

subsection \<open>The chain of the used elements\<close>

lemma chain_append: "xs \<noteq> [] \<Longrightarrow> chain nx h (xs @ ys) \<longleftrightarrow> chain nx h xs \<and> chain nx (nx ! last xs) ys"
  by (induction xs arbitrary: h) auto

lemma chain_frame_last: "i \<notin> set (butlast fs) \<Longrightarrow> chain (nx[i := v]) h fs \<longleftrightarrow> chain nx h fs"
proof (induction fs arbitrary: h)
  case (Cons f fs)
  then show ?case by (cases "fs = []") simp_all
qed simp

lemma chain_hd: "chain nx h xs \<Longrightarrow> xs \<noteq> [] \<Longrightarrow> h = hd xs"
  by (cases xs) auto

definition forward_state :: "nat \<Rightarrow> 'a forward_list \<Rightarrow> nat list \<Rightarrow> nat list \<Rightarrow> 'a list \<Rightarrow> bool" where
  "forward_state C L us fs xs \<longleftrightarrow>
     length (f_nextIdx L) = C + 2 \<and> length (f_invalidElement L) = C + 2 \<and> length (f_data L) = C \<and>
     distinct (us @ fs) \<and> set (us @ fs) = {..<C} \<and>
     chain (f_nextIdx L) C ((C # us) @ [C + 1]) \<and> chain (f_nextIdx L) (f_freeListHeadIdx L) fs \<and>
     (\<forall>i<C + 2. f_invalidElement L ! i \<longleftrightarrow> i \<in> set fs) \<and> map ((!) (f_data L)) us = map Some xs \<and> f_size L = length us"

definition forward_rep :: "nat \<Rightarrow> 'a forward_list \<Rightarrow> 'a list \<Rightarrow> bool" where
  "forward_rep C L xs \<longleftrightarrow> (\<exists>us fs. forward_state C L us fs xs)"

abbreviation f_at :: "'a forward_list \<Rightarrow> nat \<Rightarrow> list_iterator" where
  "f_at L i \<equiv> \<lparr> li_list = f_this L, li_idx = i \<rparr>"

lemmas [list_defs] = BEFORE_BEGIN_INDEX_def END_INDEX_def f_setNextIdx_def f_setInvalidElement_def f_isValidElementIdx_def
  f_isInvalidIterator_def f_isInvalidIterOrDifferentLists_def f_getData_def before_begin_def f_begin_def f_end_def

lemma forward_state_length: "forward_state C L us fs xs \<Longrightarrow> length xs = length us \<and> length us + length fs = C"
proof -
  assume s: "forward_state C L us fs xs"
  then have "card (set (us @ fs)) = length (us @ fs)" using distinct_card unfolding forward_state_def by blast
  moreover have "set (us @ fs) = {..<C}" "map ((!) (f_data L)) us = map Some xs" using s by (auto simp: forward_state_def)
  ultimately show ?thesis by (metis card_lessThan length_append length_map)
qed

lemma forward_state_split:
  assumes "forward_state C L (l @ r) fs xs"
  shows "f_nextIdx L ! last (C # l) = hd (r @ [C + 1])" "chain (f_nextIdx L) C (C # l)" "chain (f_nextIdx L) (hd (r @ [C + 1])) (r @ [C + 1])"
    "last (C # l) \<le> C" "last (C # l) \<notin> set fs" "\<not> f_invalidElement L ! last (C # l)" "\<not> f_invalidElement L ! hd (r @ [C + 1])"
    "f_isValidElementIdx C L (hd (r @ [C + 1])) \<longleftrightarrow> r \<noteq> []"
proof -
  have c: "chain (f_nextIdx L) C (C # l)" "chain (f_nextIdx L) (f_nextIdx L ! last (C # l)) (r @ [C + 1])"
    using assms chain_append [of "C # l" "f_nextIdx L" C "r @ [C + 1]"] by (simp_all add: forward_state_def)
  then show h: "f_nextIdx L ! last (C # l) = hd (r @ [C + 1])" using chain_hd by blast
  show "chain (f_nextIdx L) C (C # l)" "chain (f_nextIdx L) (hd (r @ [C + 1])) (r @ [C + 1])" using c h by simp_all
  have range: "i < C \<and> i \<notin> set fs" if "i \<in> set (l @ r)" for i using assms that by (auto simp: forward_state_def)
  have fs: "i \<in> set fs \<Longrightarrow> i < C" for i using assms by (auto simp: forward_state_def)
  have q: "last (C # l) = C \<or> last (C # l) \<in> set l" by (cases "l = []") auto
  then show "last (C # l) \<le> C" "last (C # l) \<notin> set fs" using range fs by force+
  have inv: "i < C + 2 \<Longrightarrow> f_invalidElement L ! i \<longleftrightarrow> i \<in> set fs" for i using assms by (simp add: forward_state_def)
  show "\<not> f_invalidElement L ! last (C # l)" using \<open>last (C # l) \<le> C\<close> \<open>last (C # l) \<notin> set fs\<close> inv by simp
  have p: "hd (r @ [C + 1]) = C + 1 \<or> hd (r @ [C + 1]) \<in> set r" by (cases r) auto
  have "hd (r @ [C + 1]) \<notin> set fs" "hd (r @ [C + 1]) < C + 2" using p range fs by force+
  then show n: "\<not> f_invalidElement L ! hd (r @ [C + 1])" using inv by simp
  show "f_isValidElementIdx C L (hd (r @ [C + 1])) \<longleftrightarrow> r \<noteq> []" using n range by (cases r) (auto simp: f_isValidElementIdx_def)
qed

lemma emplace_after_state:
  assumes s: "forward_state C L (l @ r) (a # fs) xs"
  shows "\<exists>L'. emplace_after C (f_at L (last (C # l))) x L = Inr (f_at L' a, L') \<and> f_this L' = f_this L \<and>
    forward_state C L' (l @ a # r) fs (take (length l) xs @ x # drop (length l) xs)"
proof -
  let ?nx = "f_nextIdx L" and ?iv = "f_invalidElement L" and ?p = "hd (r @ [C + 1])" and ?q = "last (C # l)"
  have a: "a < C" "a \<notin> set l" "a \<notin> set r" "f_freeListHeadIdx L = a" "a \<notin> set fs" using s by (auto simp: forward_state_def)
  have range: "i \<in> set l \<union> set r \<Longrightarrow> i < C" for i using s by (auto simp: forward_state_def)
  then have dist: "distinct (l @ r)" "C \<notin> set l" "C \<notin> set r" "C + 1 \<notin> set r" using s by (auto simp: forward_state_def) (meson Un_iff less_Suc_eq less_irrefl)+
  have len: "length ?nx = C + 2" "length ?iv = C + 2" "length (f_data L) = C" using s by (simp_all add: forward_state_def)
  note sp = forward_state_split [OF s]
  have q_in: "?q = C \<or> ?q \<in> set l" by (cases "l = []") auto
  have ne: "?q \<noteq> a" "?q \<notin> set (r @ [C + 1])" using q_in a dist sp(4) by auto
  have room: "\<not> C \<le> f_size L" using forward_state_length [OF s] s by (simp add: forward_state_def)
  define L' where "L' = L\<lparr> f_freeListHeadIdx := ?nx ! a, f_nextIdx := ?nx[a := ?p, ?q := a], f_invalidElement := ?iv[a := False],
    f_data := (f_data L)[a := Some x], f_size := f_size L + 1 \<rparr>"
  have "emplace_after C (f_at L ?q) x L = Inr (f_at L' a, L')"
    using room a ne len sp(1,6) by (simp add: emplace_after_def list_defs L'_def Let_def)
  moreover have "chain (f_nextIdx L') C ((C # l @ a # r) @ [C + 1])"
  proof -
    have "?q \<notin> set (butlast (C # l))" using last_notin_butlast [of "C # l"] dist by simp
    moreover have "a \<notin> set (butlast (C # l))" using a by (auto dest: in_set_butlastD)
    ultimately have "chain (f_nextIdx L') C (C # l)" using sp(2) by (simp add: L'_def chain_frame_last del: chain.simps)
    moreover have "f_nextIdx L' ! ?q = a" "f_nextIdx L' ! a = ?p" using ne a len sp(4) by (simp_all add: L'_def)
    moreover have "a \<notin> set (r @ [C + 1])" using a by auto
    then have "chain (f_nextIdx L') ?p (r @ [C + 1])" using sp(3) ne(2) by (simp add: L'_def chain_frame del: set_append)
    ultimately show ?thesis using chain_append [of "C # l" "f_nextIdx L'" C "a # r @ [C + 1]"] by simp
  qed
  moreover have "chain (f_nextIdx L') (f_freeListHeadIdx L') fs"
  proof -
    have "chain ?nx (?nx ! a) fs" using s by (simp add: forward_state_def)
    moreover have "?q \<notin> set fs" using sp(5) by simp
    ultimately show ?thesis using a by (simp add: L'_def chain_frame)
  qed
  moreover have "\<forall>i<C + 2. f_invalidElement L' ! i \<longleftrightarrow> i \<in> set fs"
    using s a by (auto simp: forward_state_def L'_def nth_list_update)
  moreover have "map ((!) (f_data L')) (l @ a # r) = map Some (take (length l) xs @ x # drop (length l) xs)"
  proof -
    have m: "map ((!) (f_data L)) l @ map ((!) (f_data L)) r = map Some xs" using s by (simp add: forward_state_def)
    then have "map ((!) (f_data L)) l = map Some (take (length l) xs)" "map ((!) (f_data L)) r = map Some (drop (length l) xs)"
      by (metis append_eq_conv_conj length_map take_map, metis append_eq_conv_conj length_map drop_map)
    then show ?thesis using a len by (simp add: L'_def nth_map_frame)
  qed
  moreover have "distinct ((l @ a # r) @ fs)" "set ((l @ a # r) @ fs) = {..<C}" "f_size L' = length (l @ a # r)" "f_this L' = f_this L"
    using s by (auto simp: forward_state_def L'_def)
  moreover have "length (f_nextIdx L') = C + 2" "length (f_invalidElement L') = C + 2" "length (f_data L') = C" using len by (simp_all add: L'_def)
  ultimately show ?thesis unfolding forward_state_def by (intro exI [of _ L'] conjI) assumption+
qed

lemma erase_after_state:
  assumes s: "forward_state C L (l @ e # r) fs xs"
  shows "\<exists>L'. erase_after C (f_at L (last (C # l))) L = Inr (f_at L' (hd (r @ [C + 1])), L') \<and> f_this L' = f_this L \<and>
    forward_state C L' (l @ r) (e # fs) (take (length l) xs @ drop (Suc (length l)) xs)"
proof -
  let ?nx = "f_nextIdx L" and ?iv = "f_invalidElement L" and ?p = "hd (r @ [C + 1])" and ?q = "last (C # l)"
  have e: "e < C" "e \<notin> set l" "e \<notin> set r" "e \<notin> set fs" using s by (auto simp: forward_state_def)
  have range: "i \<in> set l \<union> set r \<Longrightarrow> i < C" for i using s by (auto simp: forward_state_def)
  then have dist: "distinct (l @ r)" "C \<notin> set l" "C \<notin> set r" "C + 1 \<notin> set r" using s by (auto simp: forward_state_def) (meson Un_iff less_Suc_eq less_irrefl)+
  have len: "length ?nx = C + 2" "length ?iv = C + 2" "length (f_data L) = C" using s by (simp_all add: forward_state_def)
  have s': "forward_state C L ((l @ [e]) @ r) fs xs" using s by simp
  note sp = forward_state_split [OF s] and sp' = forward_state_split [OF s']
  have q_in: "?q = C \<or> ?q \<in> set l" by (cases "l = []") auto
  have ne: "?q \<noteq> e" "?q \<notin> set (r @ [C + 1])" using q_in e dist sp(4) by auto
  have pe: "?nx ! ?q = e" "?nx ! e = ?p" using sp(1) sp'(1) by simp_all
  have m: "map ((!) (f_data L)) (l @ e # r) = map Some xs" using s by (simp add: forward_state_def)
  then have "map ((!) (f_data L)) (l @ e # r) ! length l = map Some xs ! length l" by (simp only: m)
  then have data: "f_data L ! e = Some (xs ! length l)" using forward_state_length [OF s] by (simp add: nth_append)
  define L' where "L' = L\<lparr> f_freeListHeadIdx := e, f_nextIdx := ?nx[?q := ?p, e := f_freeListHeadIdx L], f_invalidElement := ?iv[e := True],
    f_data := (f_data L)[e := None], f_size := f_size L - 1 \<rparr>"
  have "erase_after C (f_at L ?q) L = Inr (f_at L' ?p, L')"
  proof -
    have "f_size L \<noteq> 0" using s by (simp add: forward_state_def)
    then show ?thesis using sp(6,8) pe ne len e data
      by (simp add: erase_after_def forward_list_empty_def list_defs L'_def Let_def)
  qed
  moreover have "chain (f_nextIdx L') C ((C # l @ r) @ [C + 1])"
  proof -
    have "?q \<notin> set (butlast (C # l))" using last_notin_butlast [of "C # l"] dist by simp
    moreover have "e \<notin> set (butlast (C # l))" using e by (auto dest: in_set_butlastD)
    ultimately have "chain (f_nextIdx L') C (C # l)" using sp(2) by (simp add: L'_def chain_frame_last del: chain.simps)
    moreover have "f_nextIdx L' ! ?q = ?p" using ne e len sp(4) by (simp add: L'_def)
    moreover have "e \<notin> set (r @ [C + 1])" using e by auto
    then have "chain (f_nextIdx L') ?p (r @ [C + 1])" using sp'(3) ne(2) by (simp add: L'_def chain_frame del: set_append)
    ultimately show ?thesis using chain_append [of "C # l" "f_nextIdx L'" C "r @ [C + 1]"] by simp
  qed
  moreover have "chain (f_nextIdx L') (f_freeListHeadIdx L') (e # fs)"
  proof -
    have "chain ?nx (f_freeListHeadIdx L) fs" using s by (simp add: forward_state_def)
    then show ?thesis using e len sp(5) by (simp add: L'_def chain_frame)
  qed
  moreover have "\<forall>i<C + 2. f_invalidElement L' ! i \<longleftrightarrow> i \<in> set (e # fs)"
    using s e by (auto simp: forward_state_def L'_def nth_list_update)
  moreover have "map ((!) (f_data L')) (l @ r) = map Some (take (length l) xs @ drop (Suc (length l)) xs)"
  proof -
    have "map ((!) (f_data L)) l = take (length l) (map ((!) (f_data L)) (l @ e # r))"
      "map ((!) (f_data L)) r = drop (Suc (length l)) (map ((!) (f_data L)) (l @ e # r))" by simp_all
    then show ?thesis unfolding m using e by (simp add: L'_def nth_map_frame take_map drop_map)
  qed
  moreover have "distinct ((l @ r) @ e # fs)" "set ((l @ r) @ e # fs) = {..<C}" "f_size L' = length (l @ r)" "f_this L' = f_this L"
    using s by (auto simp: forward_state_def L'_def)
  moreover have "length (f_nextIdx L') = C + 2" "length (f_invalidElement L') = C + 2" "length (f_data L') = C" using len by (simp_all add: L'_def)
  ultimately show ?thesis unfolding forward_state_def by (intro exI [of _ L'] conjI) assumption+
qed

subsection \<open>The operations of the interface\<close>

lemma forward_state_size: "forward_state C L us fs xs \<Longrightarrow> f_size L = length xs"
  using forward_state_length by (metis forward_state_def)

lemma before_begin_at: "before_begin C L = f_at L (last (C # []))"
  by (simp add: list_defs)

lemma f_begin_at: "forward_state C L us fs xs \<Longrightarrow> f_begin C L = f_at L (hd (us @ [C + 1]))"
  using forward_state_split(1) [of C L "[]" us fs xs] by (simp add: list_defs)

lemma f_deref_at:
  assumes "forward_state C L (l @ e # r) fs xs"
  shows "f_iterator_deref C L (f_at L e) = Inr (xs ! length l)"
proof -
  have m: "map ((!) (f_data L)) (l @ e # r) = map Some xs" using assms by (simp add: forward_state_def)
  then have "map ((!) (f_data L)) (l @ e # r) ! length l = map Some xs ! length l" by (simp only: m)
  then have "f_data L ! e = Some (xs ! length l)" using forward_state_length [OF assms] by (simp add: nth_append)
  then show ?thesis using forward_state_split(8) [OF assms] by (simp add: f_iterator_deref_def f_getData_def)
qed

lemma f_inc_at:
  assumes "forward_state C L (l @ e # r) fs xs"
  shows "f_iterator_inc L (f_at L e) = Inr (f_at L (hd (r @ [C + 1])))"
  using forward_state_split(7) [OF assms] forward_state_split(1) [of C L "l @ [e]" r] assms by (simp add: f_iterator_inc_def f_isInvalidIterator_def)

lemma f_eq_end_at:
  assumes "forward_state C L (l @ r) fs xs"
  shows "f_iterator_eq L (f_at L (hd (r @ [C + 1]))) (f_end C L) = Inr (r = [])"
proof -
  have "\<not> f_invalidElement L ! (C + 1)" using assms by (auto simp: forward_state_def)
  moreover have "r \<noteq> [] \<Longrightarrow> hd r \<noteq> C + 1" using assms by (cases r) (auto simp: forward_state_def)
  ultimately show ?thesis using forward_state_split(7) [OF assms] by (cases r) (simp_all add: f_iterator_eq_def list_defs)
qed

lemma f_push_front_rep:
  assumes "forward_rep C L xs"
  shows "length xs < C \<Longrightarrow> \<exists>L'. f_push_front C x L = Inr (True, L') \<and> forward_rep C L' (x # xs)"
    "\<not> length xs < C \<Longrightarrow> f_push_front C x L = Inr (False, L)"
proof -
  obtain us fs where s: "forward_state C L us fs xs" using assms by (auto simp: forward_rep_def)
  note sz = forward_state_size [OF s]
  show "\<not> length xs < C \<Longrightarrow> f_push_front C x L = Inr (False, L)" using sz by (simp add: f_push_front_def)
  assume "length xs < C"
  then obtain a fs' where "fs = a # fs'" using forward_state_length [OF s] by (cases fs) auto
  then have "forward_state C L ([] @ us) (a # fs') xs" using s by simp
  from emplace_after_state [OF this, of x] obtain L' where
    L': "emplace_after C (before_begin C L) x L = Inr (f_at L' a, L')" "forward_state C L' ([] @ a # us) fs' (x # xs)" by (auto simp: before_begin_at)
  then show "\<exists>L'. f_push_front C x L = Inr (True, L') \<and> forward_rep C L' (x # xs)"
    using f_deref_at [OF L'(2)] forward_state_size [OF L'(2)] sz \<open>length xs < C\<close>
    by (auto simp: f_push_front_def f_emplace_front_def forward_rep_def)
qed

lemma f_pop_front_rep:
  assumes "forward_rep C L xs"
  shows "\<exists>L'. f_pop_front C L = Inr (xs \<noteq> [], L') \<and> forward_rep C L' (tl xs)"
proof -
  obtain us fs where s: "forward_state C L ([] @ us) fs xs" using assms by (auto simp: forward_rep_def)
  note len = forward_state_length [OF s] and sz = forward_state_size [OF s]
  show ?thesis
  proof (cases us)
    case Nil
    then have "erase_after C (before_begin C L) L = Inr (f_end C L, L)"
      using forward_state_split(1,6,8) [OF s] by (simp add: erase_after_def before_begin_def BEFORE_BEGIN_INDEX_def f_isInvalidIterOrDifferentLists_def f_isInvalidIterator_def)
    then show ?thesis using assms len sz Nil by (simp add: f_pop_front_def)
  next
    case (Cons e r)
    obtain L' where L': "erase_after C (before_begin C L) L = Inr (f_at L' (hd (r @ [C + 1])), L')" "forward_state C L' ([] @ r) (e # fs) (tl xs)"
      using erase_after_state [OF s [unfolded Cons]] by (auto simp: before_begin_at drop_Suc)
    have "xs \<noteq> []" using len Cons by auto
    then show ?thesis using L' sz forward_state_size [OF L'(2)] by (auto simp: f_pop_front_def forward_rep_def)
  qed
qed

lemma f_front_rep: "forward_rep C L xs \<Longrightarrow> f_front C L = (case xs of [] \<Rightarrow> Inl EXPECTS_ENSURES_FAILED | x # _ \<Rightarrow> Inr x)"
proof -
  assume "forward_rep C L xs"
  then obtain us fs where s: "forward_state C L ([] @ us) fs xs" by (auto simp: forward_rep_def)
  note len = forward_state_length [OF s] and v = forward_state_split(8) [OF s]
  have b: "f_begin C L = f_at L (hd (us @ [C + 1]))" using f_begin_at [of C L us fs xs] s by simp
  show ?thesis
  proof (cases us)
    case Nil
    then show ?thesis using len v b by (simp add: f_front_def)
  next
    case (Cons e r)
    then obtain x xs' where "xs = x # xs'" using len by (cases xs) auto
    then show ?thesis using Cons f_deref_at [of C L "[]" e r fs xs] s v b by (simp add: f_front_def)
  qed
qed

lemma f_remove_if_loop_state:
  "forward_state C L (l @ r) fs xs \<Longrightarrow>
    \<exists>L'. f_remove_if_loop C p (f_at L (last (C # l))) (f_at L (hd (r @ [C + 1]))) n L = Some (Inr (n + length (filter p (drop (length l) xs)), L')) \<and>
      forward_rep C L' (take (length l) xs @ filter (\<lambda>x. \<not> p x) (drop (length l) xs))"
proof (induction r arbitrary: L l fs xs n)
  case Nil
  then have "length xs = length l" using forward_state_length by fastforce
  moreover have "f_remove_if_loop C p (f_at L (last (C # l))) (f_at L (hd ([] @ [C + 1]))) n L = Some (Inr (n, L))"
    using f_eq_end_at [OF Nil] by (subst f_remove_if_loop.simps) simp
  ultimately show ?case using Nil by (auto simp: forward_rep_def)
next
  case (Cons e r)
  have len: "length l < length xs" using forward_state_length [OF Cons.prems] by simp
  let ?x = "xs ! length l"
  have d: "drop (length l) xs = ?x # drop (Suc (length l)) xs" using len by (simp add: Cons_nth_drop_Suc)
  have eqs: "f_iterator_eq L (f_at L e) (f_end C L) = Inr False" "f_iterator_deref C L (f_at L e) = Inr ?x"
    using f_eq_end_at [OF Cons.prems] f_deref_at [OF Cons.prems] by simp_all
  show ?case
  proof (cases "p ?x")
    case True
    obtain L' where L': "erase_after C (f_at L (last (C # l))) L = Inr (f_at L' (hd (r @ [C + 1])), L')" "f_this L' = f_this L"
      "forward_state C L' (l @ r) (e # fs) (take (length l) xs @ drop (Suc (length l)) xs)" using erase_after_state [OF Cons.prems] by blast
    then have "f_remove_if_loop C p (f_at L (last (C # l))) (f_at L e) n L =
        f_remove_if_loop C p (f_at L' (last (C # l))) (f_at L' (hd (r @ [C + 1]))) (n + 1) L'"
      using eqs True by (subst f_remove_if_loop.simps) simp
    moreover have "min (length xs) (length l) = length l" using len by simp
    ultimately show ?thesis using Cons.IH [OF L'(3), of "n + 1"] True d by simp
  next
    case False
    then have "f_remove_if_loop C p (f_at L (last (C # l))) (f_at L e) n L = f_remove_if_loop C p (f_at L e) (f_at L (hd (r @ [C + 1]))) n L"
      using eqs f_inc_at [OF Cons.prems] by (subst f_remove_if_loop.simps) simp
    moreover have "forward_state C L ((l @ [e]) @ r) fs xs" using Cons.prems by simp
    moreover have "take (Suc (length l)) xs = take (length l) xs @ [?x]" using len by (simp add: take_Suc_conv_app_nth)
    ultimately show ?thesis using Cons.IH [of L "l @ [e]" fs xs n] False d by simp
  qed
qed

lemma f_remove_if_rep:
  assumes "forward_rep C L xs"
  shows "\<exists>L'. f_remove_if C p L = Inr (length (filter p xs), L') \<and> forward_rep C L' (filter (\<lambda>x. \<not> p x) xs)"
proof -
  obtain us fs where s: "forward_state C L ([] @ us) fs xs" using assms by (auto simp: forward_rep_def)
  then have "f_begin C L = f_at L (hd (us @ [C + 1]))" using f_begin_at [of C L us fs xs] by simp
  then show ?thesis using f_remove_if_loop_state [OF s, of p 0] by (auto simp: f_remove_if_def before_begin_at)
qed

lemma f_clear_loop_state: "forward_state C L us fs xs \<Longrightarrow> \<exists>L'. f_clear_loop C L = Some (Inr L') \<and> forward_rep C L' []"
proof (induction us arbitrary: L fs xs)
  case Nil
  then show ?case using forward_state_length [OF Nil] forward_state_size [OF Nil] by (subst f_clear_loop.simps) (auto simp: forward_rep_def)
next
  case (Cons e r)
  then have s': "forward_state C L ([] @ e # r) fs xs" by simp
  obtain L' where L': "erase_after C (before_begin C L) L = Inr (f_at L' (hd (r @ [C + 1])), L')" "forward_state C L' r (e # fs) (drop 1 xs)"
    using erase_after_state [OF s'] by (auto simp: before_begin_at)
  moreover have "f_size L \<noteq> 0" using forward_state_length [OF Cons.prems] forward_state_size [OF Cons.prems] by simp
  ultimately show ?case using Cons.IH [OF L'(2)] by (subst f_clear_loop.simps) simp
qed

lemma f_clear_rep: "forward_rep C L xs \<Longrightarrow> \<exists>L'. f_clear C L = Inr L' \<and> forward_rep C L' []"
  using f_clear_loop_state by (fastforce simp: forward_rep_def f_clear_def)

text \<open>
  The operations at a position: an iterator from \<open>before_begin()\<close> is moved to the element in front of it, one from \<open>begin()\<close> to an element that is read.
\<close>

definition f_emplace_at :: "nat \<Rightarrow> nat \<Rightarrow> 'a \<Rightarrow> 'a forward_list \<Rightarrow> (bool \<times> 'a forward_list) outcome" where
  "f_emplace_at Capacity k x L =
     obind (advance (f_iterator_inc L) k (before_begin Capacity L)) (\<lambda>iter.
     obind (emplace_after Capacity iter x L) (\<lambda>(_, L'). Inr (f_size L' = f_size L + 1, L')))"

definition f_erase_at :: "nat \<Rightarrow> nat \<Rightarrow> 'a forward_list \<Rightarrow> (bool \<times> 'a forward_list) outcome" where
  "f_erase_at Capacity k L =
     obind (advance (f_iterator_inc L) k (before_begin Capacity L)) (\<lambda>iter.
     obind (erase_after Capacity iter L) (\<lambda>(_, L'). Inr (f_size L' < f_size L, L')))"

definition f_element_at :: "nat \<Rightarrow> nat \<Rightarrow> 'a forward_list \<Rightarrow> 'a outcome" where
  "f_element_at Capacity k L = obind (advance (f_iterator_inc L) k (f_begin Capacity L)) (f_iterator_deref Capacity L)"

lemma f_advance_at:
  "forward_state C L (l @ r) fs xs \<Longrightarrow> k \<le> length r \<Longrightarrow>
     advance (f_iterator_inc L) k (f_at L (last (C # l))) = Inr (f_at L (last (C # l @ take k r)))"
proof (induction k arbitrary: l r)
  case (Suc k)
  then obtain e r' where r: "r = e # r'" by (cases r) auto
  have "f_iterator_inc L (f_at L (last (C # l))) = Inr (f_at L (last (C # l @ [e])))"
    using forward_state_split(1,6) [OF Suc.prems(1)] r by (simp add: f_iterator_inc_def f_isInvalidIterator_def)
  moreover have "forward_state C L ((l @ [e]) @ r') fs xs" using Suc.prems r by simp
  ultimately show ?case using Suc.IH [of "l @ [e]" r'] Suc.prems r by simp
qed simp

lemma forward_positions_rep:
  assumes "forward_rep C L xs"
  shows "k \<le> length xs \<Longrightarrow> length xs < C \<Longrightarrow> \<exists>L'. f_emplace_at C k x L = Inr (True, L') \<and> forward_rep C L' (take k xs @ x # drop k xs)"
    "k \<le> length xs \<Longrightarrow> \<not> length xs < C \<Longrightarrow> f_emplace_at C k x L = Inr (False, L)"
    "k < length xs \<Longrightarrow> \<exists>L'. f_erase_at C k L = Inr (True, L') \<and> forward_rep C L' (take k xs @ drop (Suc k) xs)"
    "k < length xs \<Longrightarrow> f_element_at C k L = Inr (xs ! k)"
proof -
  obtain us fs where s: "forward_state C L us fs xs" using assms by (auto simp: forward_rep_def)
  note sz = forward_state_size [OF s] and len = forward_state_length [OF s]
  have adv: "advance (f_iterator_inc L) k (before_begin C L) = Inr (f_at L (last (C # take k us)))" if "k \<le> length xs"
    using f_advance_at [of C L "[]" us fs xs k] s that len before_begin_at [of C L] by simp
  have split: "forward_state C L (take k us @ drop k us) fs xs" using s by simp
  show "\<not> length xs < C \<Longrightarrow> f_emplace_at C k x L = Inr (False, L)" if k: "k \<le> length xs"
    using adv [OF k] forward_state_split(6) [OF split] sz
    by (simp add: f_emplace_at_def emplace_after_def f_isInvalidIterOrDifferentLists_def f_isInvalidIterator_def)
  show "\<exists>L'. f_emplace_at C k x L = Inr (True, L') \<and> forward_rep C L' (take k xs @ x # drop k xs)" if k: "k \<le> length xs" "length xs < C"
  proof -
    obtain a fs' where "fs = a # fs'" using k len by (cases fs) auto
    then obtain L' where L': "emplace_after C (f_at L (last (C # take k us))) x L = Inr (f_at L' a, L')"
      "forward_state C L' (take k us @ a # drop k us) fs' (take k xs @ x # drop k xs)"
      using emplace_after_state [of C L "take k us" "drop k us" a fs' xs x] split k len by auto
    then show ?thesis using forward_state_size [OF L'(2)] sz adv k len by (auto simp: f_emplace_at_def forward_rep_def)
  qed
  have pos: "drop k us = us ! k # drop (Suc k) us" if "k < length xs" using that len by (simp add: Cons_nth_drop_Suc)
  show "\<exists>L'. f_erase_at C k L = Inr (True, L') \<and> forward_rep C L' (take k xs @ drop (Suc k) xs)" if k: "k < length xs"
  proof -
    have "forward_state C L (take k us @ us ! k # drop (Suc k) us) fs xs" using split pos [OF k] by simp
    from erase_after_state [OF this] obtain L' it where
      L': "erase_after C (f_at L (last (C # take k us))) L = Inr (it, L')"
        "forward_state C L' (take k us @ drop (Suc k) us) (us ! k # fs) (take k xs @ drop (Suc k) xs)"
      using k len by auto
    then show ?thesis using forward_state_size [OF L'(2)] sz adv k len by (auto simp: f_erase_at_def forward_rep_def)
  qed
  show "f_element_at C k L = Inr (xs ! k)" if k: "k < length xs"
  proof -
    obtain e r where us: "us = e # r" using k len by (cases us) auto
    have "forward_state C L ([e] @ r) fs xs" using s us by simp
    from f_advance_at [OF this, of k] have "advance (f_iterator_inc L) k (f_begin C L) = Inr (f_at L (last (C # take (Suc k) us)))"
      using f_begin_at [OF s] us k len by simp
    moreover have "last (C # take (Suc k) us) = us ! k" using k len by (simp add: take_Suc_conv_app_nth)
    moreover have "forward_state C L (take k us @ us ! k # drop (Suc k) us) fs xs" using split pos [OF k] by simp
    ultimately show ?thesis using f_deref_at [of C L "take k us" "us ! k" "drop (Suc k) us" fs xs] k len by (simp add: f_element_at_def)
  qed
qed

definition forward_list_operations :: "nat \<Rightarrow> ('a, 'a forward_list) list_operations" where
  "forward_list_operations Capacity =
     \<lparr> lo_push_front = f_push_front Capacity, lo_pop_front = f_pop_front Capacity, lo_front = f_front Capacity,
       lo_remove_if = f_remove_if Capacity, lo_clear = f_clear Capacity, lo_size = f_size,
       lo_emplace_at = f_emplace_at Capacity, lo_erase_at = f_erase_at Capacity, lo_element_at = f_element_at Capacity \<rparr>"

interpretation forward_list: bounded_list C "forward_rep C" "forward_list_operations C"
  for C
proof (unfold_locales, unfold forward_list_operations_def list_operations.select_convs)
  fix l :: "'a forward_list" and xs
  assume "forward_rep C l xs"
  then show "f_size l = length xs" using forward_state_size by (auto simp: forward_rep_def)
qed (fact f_push_front_rep f_pop_front_rep f_front_rep f_remove_if_rep f_clear_rep forward_positions_rep)+

subsection \<open>Construction\<close>

lemma f_init_loop_fields:
  "f_nextIdx (f_init_loop is L) = fold (\<lambda>i nx. nx[i := i + 1]) is (f_nextIdx L)"
  "f_invalidElement (f_init_loop is L) = fold (\<lambda>i iv. iv[i := True]) is (f_invalidElement L)"
  "f_this (f_init_loop is L) = f_this L" "f_data (f_init_loop is L) = f_data L"
  by (induction "is" arbitrary: L) (simp_all add: list_defs)

lemma forward_list_ctor_rep:
  assumes C: "0 < C" and len: "length nexts = FORWARD_NODE_LINK_COUNT C" "length invalids = FORWARD_NODE_LINK_COUNT C"
  shows "forward_rep C (forward_list_ctor C this nexts invalids :: 'a forward_list) []"
proof -
  let ?L = "forward_list_ctor C this nexts invalids :: 'a forward_list"
  define nx iv where "nx = fold (\<lambda>i nx. nx[i := i + 1]) [0..<C - 1] nexts" and "iv = fold (\<lambda>i iv. iv[i := True]) [0..<C - 1] invalids"
  have L: "f_nextIdx ?L = nx[C - 1 := C + 1, C := C + 1, C + 1 := C + 1]" "f_invalidElement ?L = iv[C - 1 := True, C := False, C + 1 := False]"
    "f_data ?L = replicate C None" "f_size ?L = 0" "f_freeListHeadIdx ?L = 0"
    by (simp_all add: forward_list_ctor_def forward_list_init_def Let_def list_defs f_init_loop_fields nx_def iv_def)
  have in_range: "\<forall>i\<in>set [0..<C - 1]. i < length nexts" "\<forall>i\<in>set [0..<C - 1]. i < length invalids"
    using len by (auto simp: FORWARD_NODE_LINK_COUNT_def)
  have nx: "length nx = C + 2" "\<And>j. j < C - 1 \<Longrightarrow> nx ! j = j + 1"
    using fold_update [OF distinct_upt in_range(1), of "\<lambda>i. i + 1"] len unfolding nx_def FORWARD_NODE_LINK_COUNT_def by auto
  have iv: "length iv = C + 2" "\<And>j. j < C - 1 \<Longrightarrow> iv ! j"
    using fold_update [OF distinct_upt in_range(2), of "\<lambda>i. True"] len unfolding iv_def FORWARD_NODE_LINK_COUNT_def by auto
  have ch: "chain (f_nextIdx ?L) 0 [0..<C]" using nx(2) by (intro chain_upt) (auto simp: L)
  have inv: "f_invalidElement ?L ! i \<longleftrightarrow> i \<in> set [0..<C]" if i: "i < C + 2" for i
  proof -
    consider "i < C - 1" | "i = C - 1" | "i = C" | "i = C + 1" using i C by linarith
    then show ?thesis by cases (use C iv in \<open>auto simp: L nth_list_update\<close>)
  qed
  show ?thesis
    unfolding forward_rep_def forward_state_def
    by (rule exI [of _ "[]"], rule exI [of _ "[0..<C]"])
      (use ch inv nx(1) iv(1) C in \<open>simp add: L(3,4,5), simp add: L(1,2) atLeast_upt\<close>)
qed

subsection \<open>Both containers are bounded sequences\<close>

text \<open>
  C35: whatever sequence of \<open>push_front\<close>, \<open>pop_front\<close>, \<open>front\<close>, \<open>remove_if\<close>, \<open>clear\<close> and \<open>size\<close>, and of insertions, removals and reads at positions the list has,
  is called on a new \<open>cxx::list\<close> and on a new \<open>cxx::forward_list\<close> of the same capacity, all calls return the same results, which are those of a sequence of at most this many elements; for \<open>cxx::list\<close> also if
  \<open>push_back\<close>, \<open>pop_back\<close> and \<open>back\<close> are among the calls. The loops end, a full container refuses the element, and only \<open>front\<close> and \<open>back\<close> of an empty container
  terminate the process.
\<close>

theorem list_and_forward_list_are_bounded_sequences:
  assumes "0 < Capacity" "length nexts = NODE_LINK_COUNT Capacity" "length prevs = NODE_LINK_COUNT Capacity"
    "length nexts' = FORWARD_NODE_LINK_COUNT Capacity" "length invalids = FORWARD_NODE_LINK_COUNT Capacity"
  shows "run_calls (list_exec (cxx_list_operations Capacity)) calls (list_ctor Capacity this nexts prevs) = run_calls (list_spec Capacity) calls [] \<and>
    run_calls (list_exec (forward_list_operations Capacity)) calls (forward_list_ctor Capacity this' nexts' invalids) = run_calls (list_spec Capacity) calls [] \<and>
    run_calls (back_exec (cxx_list_operations Capacity) (list_push_back Capacity) (list_pop_back Capacity) (list_back Capacity)) back_calls
      (list_ctor Capacity this nexts prevs) = run_calls (back_spec Capacity) back_calls []"
  using cxx_list.run_refines [OF list_ctor_rep(1) [OF assms(1-3)]] cxx_list.run_back_refines [OF list_ctor_rep(1) [OF assms(1-3)]]
    forward_list.run_refines [OF forward_list_ctor_rep [OF assms(1,4,5)]] by blast

lemma list_and_forward_list_are_bounded_sequences_witness:
  "run_calls (list_exec (forward_list_operations 3))
     [Push_front (5::nat), Push_front 6, Emplace_at 1 8, Push_front 7, Front, Erase_at 2, Element_at 1, Remove_if (\<lambda>x. x < 7), Size]
     (forward_list_ctor 3 1 [0, 0, 0, 0, 0] [False, False, False, False, False]) =
   Inr [Flag True, Flag True, Flag True, Flag False, Element 6, Flag True, Element 8, Number 1, Number 1] \<and>
   run_calls (back_exec (cxx_list_operations 3) (list_push_back 3) (list_pop_back 3) (list_back 3))
     [Push_back (5::nat), Push_back 6, Common (Emplace_at 1 8), Pop_back, Back, Common Front] (list_ctor 3 1 [0, 0, 0, 0] [0, 0, 0, 0]) =
   Inr [Flag True, Flag True, Flag True, Flag True, Element 8, Element 5]"
  using list_and_forward_list_are_bounded_sequences
    [of 3 "[0, 0, 0, 0]" "[0, 0, 0, 0]" "[0, 0, 0, 0, 0]" "[False, False, False, False, False]"
      "[Push_front (5::nat), Push_front 6, Emplace_at 1 8, Push_front 7, Front, Erase_at 2, Element_at 1, Remove_if (\<lambda>x. x < 7), Size]" 1 1
      "[Push_back (5::nat), Push_back 6, Common (Emplace_at 1 8), Pop_back, Back, Common Front]"]
  by (simp add: NODE_LINK_COUNT_def FORWARD_NODE_LINK_COUNT_def)

subsection \<open>Insertion after the end\<close>

text \<open>
  \<open>emplace_after\<close> accepts the iterator \<open>end()\<close>: the new element is counted but is in no chain from \<open>before_begin()\<close>, and \<open>clear\<close>, which the destructor calls,
  does not return.
\<close>

lemma f_clear_loop_stuck:
  assumes "f_size L \<noteq> 0" "erase_after C (before_begin C L) L = Inr (it, L)"
  shows "f_clear_loop C L = None"
proof (rule ccontr)
  assume "f_clear_loop C L \<noteq> None"
  then obtain r where "f_clear_loop C L = Some r" by auto
  then have "f_size L = 0 \<or> erase_after C (before_begin C L) L \<noteq> Inr (it, L)"
    by (rule f_clear_loop.raw_induct [rotated, where P = "\<lambda>C L r. f_size L = 0 \<or> erase_after C (before_begin C L) L \<noteq> Inr (it, L)"])
      (fastforce split: if_splits sum.splits)
  then show False using assms by blast
qed

lemma emplace_after_end_is_lost:
  "\<exists>it L. emplace_after 2 (f_end 2 L0) (7::nat) L0 = Inr (it, L) \<and> f_size L = 1 \<and> f_begin 2 L = f_end 2 L \<and> f_clear 2 L = Inl NO_RETURN"
  if L0: "L0 = forward_list_ctor 2 1 [0, 0, 0, 0] [False, False, False, False]"
proof -
  define L where "L = snd (the (case emplace_after 2 (f_end 2 L0) (7::nat) L0 of Inl e \<Rightarrow> None | Inr r \<Rightarrow> Some r))"
  have e: "emplace_after 2 (f_end 2 L0) (7::nat) L0 = Inr (\<lparr> li_list = 1, li_idx = 0 \<rparr>, L)" unfolding L_def L0 by code_simp
  have "f_size L = 1" "f_begin 2 L = f_end 2 L" unfolding L_def L0 by code_simp+
  moreover have "erase_after 2 (before_begin 2 L) L = Inr (f_end 2 L, L)" unfolding L_def L0 by code_simp
  ultimately have "f_clear_loop 2 L = None" by (intro f_clear_loop_stuck [of L 2 "f_end 2 L"]) simp_all
  then show ?thesis using e \<open>f_size L = 1\<close> \<open>f_begin 2 L = f_end 2 L\<close> by (auto simp: f_clear_def)
qed

end
