(* ===== verification/LoFFLi_Concurrent.thy ===== *)
theory LoFFLi_Concurrent
  imports LoFFLi
begin

section \<open>The free list under concurrent calls\<close>

text \<open>
  \<open>LoFFLi::pop\<close> and \<open>LoFFLi::push\<close> (\<open>loffli.cpp\<close>) executed by several threads at once. Every access
  to \<open>m_head\<close> and to the array \<open>m_nextFreeIndex\<close> is one step, and the steps of the threads interleave
  in any order; the order of the memory accesses is that of the program text (sequential
  consistency). \<open>compare_exchange_weak\<close> may fail although the values agree, as the standard allows.

  A thread may push an index that another thread has popped (a chunk is allocated by a publisher
  and freed by the last subscriber), but only an index that is in use and that nobody else pushes
  at the same time: this is the contract of \<open>push\<close> (``Push previously poped element'').

  The loops of the code compute the new counter by \<open>newHead.abaCounter += 1\<close>, where \<open>newHead\<close> is
  copied from \<open>oldHead\<close> before the loop only. After a failed exchange \<open>oldHead\<close> is the current head,
  but the counter of \<open>newHead\<close> is still the one of the first attempt, so that a successful exchange
  may set the counter back. The theory shows what this costs: as long as no value of the head
  recurs, every index has exactly one place; and there is a short
  execution, for any free list of at least four indices and three threads, in which a value of the head recurs and an index is
  handed out twice.
\<close>

datatype loffli_point =
    Idle
  | PopBody loffli_node loffli_node
  | PopExchange loffli_node loffli_node
  | PopMark u32
  | PushCheck u32
  | PushLoad u32
  | PushBody u32 loffli_node loffli_node
  | PushExchange u32 loffli_node loffli_node

text \<open>\<open>ls_owned\<close> are the indices that \<open>pop\<close> has returned and that no \<open>push\<close> has been called for.\<close>

record loffli_system =
  ls_list :: loffli
  ls_threads :: "loffli_point list"
  ls_owned :: "u32 list"

text \<open>The exchange: whether it succeeds, the value \<open>oldHead\<close> has afterwards, and the free list.\<close>

definition compare_exchange :: "bool \<Rightarrow> loffli_node \<Rightarrow> loffli_node \<Rightarrow> loffli \<Rightarrow> bool \<times> loffli_node \<times> loffli" where
  "compare_exchange spurious oldHead newHead this =
     (if m_head this = oldHead \<and> \<not> spurious then (True, oldHead, this\<lparr> m_head := newHead \<rparr>)
      else (False, m_head this, this))"

text \<open>
  One step of a thread: its point, the free list and the indices in use afterwards. \<open>spurious\<close>
  says whether an exchange at this step fails spuriously.
\<close>

fun loffli_thread :: "bool \<Rightarrow> loffli_point \<Rightarrow> loffli \<Rightarrow> u32 list \<Rightarrow> loffli_point \<times> loffli \<times> u32 list" where
  "loffli_thread spurious Idle this owned = (Idle, this, owned)"
| "loffli_thread spurious (PopBody oldHead newHead) this owned =
     (if indexToNextFreeIndex oldHead \<ge> m_size this then (Idle, this, owned)
      else (PopExchange oldHead
              (newHead\<lparr> indexToNextFreeIndex := m_nextFreeIndex this ! unat (indexToNextFreeIndex oldHead),
                        abaCounter := abaCounter newHead + 1 \<rparr>), this, owned))"
| "loffli_thread spurious (PopExchange oldHead newHead) this owned =
     (case compare_exchange spurious oldHead newHead this of
        (True, old, this') \<Rightarrow> (PopMark (indexToNextFreeIndex old), this', owned)
      | (False, old, this') \<Rightarrow> (PopBody old newHead, this', owned))"
| "loffli_thread spurious (PopMark index) this owned =
     (Idle, this\<lparr> m_nextFreeIndex := (m_nextFreeIndex this)[unat index := m_invalidIndex this] \<rparr>, index # owned)"
| "loffli_thread spurious (PushCheck index) this owned =
     (if index \<ge> m_size this \<or> m_nextFreeIndex this ! unat index \<noteq> m_invalidIndex this
      then (Idle, this, index # owned) else (PushLoad index, this, owned))"
| "loffli_thread spurious (PushLoad index) this owned = (PushBody index (m_head this) (m_head this), this, owned)"
| "loffli_thread spurious (PushBody index oldHead newHead) this owned =
     (PushExchange index oldHead (newHead\<lparr> indexToNextFreeIndex := index, abaCounter := abaCounter newHead + 1 \<rparr>),
      this\<lparr> m_nextFreeIndex := (m_nextFreeIndex this)[unat index := indexToNextFreeIndex oldHead] \<rparr>, owned)"
| "loffli_thread spurious (PushExchange index oldHead newHead) this owned =
     (case compare_exchange spurious oldHead newHead this of
        (True, old, this') \<Rightarrow> (Idle, this', owned)
      | (False, old, this') \<Rightarrow> (PushBody index old newHead, this', owned))"

text \<open>
  What can happen next: an idle thread calls \<open>pop\<close> (and loads the head) or \<open>push\<close>, or a thread goes
  on. \<open>None\<close> marks an event that is not possible in the state.
\<close>

datatype loffli_event = Call_pop nat | Call_push nat u32 | Go nat bool

fun loffli_next :: "loffli_event \<Rightarrow> loffli_system \<Rightarrow> loffli_system option" where
  "loffli_next (Call_pop t) s =
     (if t < length (ls_threads s) \<and> ls_threads s ! t = Idle
      then Some (s\<lparr> ls_threads := (ls_threads s)[t := PopBody (m_head (ls_list s)) (m_head (ls_list s))] \<rparr>)
      else None)"
| "loffli_next (Call_push t index) s =
     (if t < length (ls_threads s) \<and> ls_threads s ! t = Idle \<and> index \<in> set (ls_owned s)
      then Some (s\<lparr> ls_threads := (ls_threads s)[t := PushCheck index], ls_owned := remove1 index (ls_owned s) \<rparr>)
      else None)"
| "loffli_next (Go t spurious) s =
     (if t < length (ls_threads s)
      then (case loffli_thread spurious (ls_threads s ! t) (ls_list s) (ls_owned s) of (p, l, owned) \<Rightarrow>
              Some \<lparr> ls_list = l, ls_threads = (ls_threads s)[t := p], ls_owned = owned \<rparr>)
      else None)"

primrec loffli_run :: "loffli_event list \<Rightarrow> loffli_system \<Rightarrow> loffli_system option" where
  "loffli_run [] s = Some s"
| "loffli_run (e # es) s = Option.bind (loffli_next e s) (loffli_run es)"

definition loffli_start :: "loffli \<Rightarrow> nat \<Rightarrow> loffli_system" where
  "loffli_start l threads = \<lparr> ls_list = l, ls_threads = replicate threads Idle, ls_owned = [] \<rparr>"

abbreviation head_of :: "loffli_system \<Rightarrow> loffli_node" where
  "head_of s \<equiv> m_head (ls_list s)"

text \<open>\<open>heads_fresh es H s\<close>: whenever \<open>es\<close> changes the head, it becomes a value that is not in \<open>H\<close> and
  that it did not have before.\<close>

primrec heads_fresh :: "loffli_event list \<Rightarrow> loffli_node list \<Rightarrow> loffli_system \<Rightarrow> bool" where
  "heads_fresh [] H s \<longleftrightarrow> True"
| "heads_fresh (e # es) H s \<longleftrightarrow>
     (case loffli_next e s of None \<Rightarrow> True
      | Some s' \<Rightarrow> (head_of s' = head_of s \<or> head_of s' \<notin> set H) \<and> heads_fresh es (head_of s' # H) s')"

text \<open>The index a thread is about to put into use or to free.\<close>

fun held :: "loffli_point \<Rightarrow> u32 multiset" where
  "held (PopMark i) = {#i#}"
| "held (PushCheck i) = {#i#}"
| "held (PushLoad i) = {#i#}"
| "held (PushBody i _ _) = {#i#}"
| "held (PushExchange i _ _) = {#i#}"
| "held _ = {#}"

definition in_transit :: "loffli_point list \<Rightarrow> u32 multiset" where
  "in_transit ths = sum_list (map held ths)"

subsection \<open>The invariant\<close>

text \<open>What a thread knows about the array; \<open>H\<close> are the values the head has had so far.\<close>

fun point_ok :: "loffli_node list \<Rightarrow> loffli \<Rightarrow> loffli_point \<Rightarrow> bool" where
  "point_ok H l (PopBody old new) \<longleftrightarrow> old \<in> set H"
| "point_ok H l (PopExchange old new) \<longleftrightarrow>
     old \<in> set H \<and> indexToNextFreeIndex old < m_size l \<and>
     (m_head l = old \<longrightarrow> m_nextFreeIndex l ! unat (indexToNextFreeIndex old) = indexToNextFreeIndex new)"
| "point_ok H l (PushCheck i) \<longleftrightarrow> m_nextFreeIndex l ! unat i = m_invalidIndex l"
| "point_ok H l (PushExchange i old new) \<longleftrightarrow>
     m_nextFreeIndex l ! unat i = indexToNextFreeIndex old \<and> indexToNextFreeIndex new = i"
| "point_ok H l _ \<longleftrightarrow> True"

definition loffli_bounds :: "loffli \<Rightarrow> bool" where
  "loffli_bounds l \<longleftrightarrow> 0 < m_size l \<and> m_size l < - 1 - 1 \<and> m_invalidIndex l = m_size l + 1 \<and>
     length (m_nextFreeIndex l) = unat (m_size l) + 1"

definition places_ok :: "loffli \<Rightarrow> u32 list \<Rightarrow> loffli_point list \<Rightarrow> u32 list \<Rightarrow> bool" where
  "places_ok l fl ths owned \<longleftrightarrow>
     linked (m_nextFreeIndex l) (m_size l) (indexToNextFreeIndex (m_head l)) fl \<and>
     mset fl + mset owned + in_transit ths = mset_set {i. i < m_size l} \<and>
     (\<forall>i\<in>set owned. m_nextFreeIndex l ! unat i = m_invalidIndex l)"

definition loffli_system_ok :: "loffli_node list \<Rightarrow> u32 list \<Rightarrow> loffli_system \<Rightarrow> bool" where
  "loffli_system_ok H fl s \<longleftrightarrow> loffli_bounds (ls_list s) \<and> m_head (ls_list s) \<in> set H \<and>
     places_ok (ls_list s) fl (ls_threads s) (ls_owned s) \<and> (\<forall>p\<in>set (ls_threads s). point_ok H (ls_list s) p)"


lemma in_transit_update:
  "t < length ths \<Longrightarrow> in_transit (ths[t := p]) + held (ths ! t) = in_transit ths + held p"
  unfolding in_transit_def by (induction ths arbitrary: t) (auto simp: ac_simps split: nat.splits)

lemma in_transit_pos: "t < length ths \<Longrightarrow> held (ths ! t) \<subseteq># in_transit ths"
  unfolding in_transit_def by (induction ths arbitrary: t) (auto simp: subset_mset.add_increasing2 subset_mset.add_increasing
    less_Suc_eq_0_disj)

lemma unat_inj: "unat x = unat (y :: u32) \<Longrightarrow> x = y"
  by (simp add: word_unat_eq_iff)

lemma finite_u32 [simp]: "finite (A :: u32 set)"
  by (rule finite)

text \<open>An index has one place only.\<close>

lemma one_place:
  assumes "A + B = mset_set (S :: u32 set)" "x \<in># A" shows "x \<notin># B"
proof -
  have "count (A + B) x \<le> 1" unfolding assms(1) by (cases "x \<in> S") (simp_all add: finite_u32)
  with assms(2) show ?thesis by (auto simp: not_in_iff simp flip: count_greater_zero_iff)
qed

lemma held_elsewhere:
  assumes "places_ok l fl ths owned" "t < length ths" "i \<in># held (ths ! t)"
  shows "i \<notin> set fl" "i \<notin> set owned" "u < length ths \<Longrightarrow> u \<noteq> t \<Longrightarrow> i \<notin># held (ths ! u)" "i < m_size l"
proof -
  let ?rest = "in_transit (ths[t := Idle])"
  have r: "in_transit ths = held (ths ! t) + ?rest" using in_transit_update [OF assms(2), of Idle] by (simp add: ac_simps)
  have e: "held (ths ! t) + (mset fl + mset owned + ?rest) = mset_set {i. i < m_size l}"
    using assms(1) by (simp add: places_ok_def r ac_simps)
  show "i \<notin> set fl" "i \<notin> set owned" using one_place [OF e assms(3)] by auto
  show "i \<notin># held (ths ! u)" if "u < length ths" "u \<noteq> t"
    using one_place [OF e assms(3)] that in_transit_pos [of u "ths[t := Idle]"] by (auto dest: mset_subset_eqD)
  have "i \<in># mset_set {i. i < m_size l}" using assms(3) by (simp flip: e)
  then show "i < m_size l" by simp
qed

subsection \<open>The steps of one thread do not disturb the others\<close>

lemma point_ok_mono: "point_ok H l p \<Longrightarrow> point_ok (h # H) l p"
  by (cases p) auto

text \<open>A write of the array at an index that is neither free nor held by the other thread.\<close>

lemma point_ok_write:
  "point_ok H l p \<Longrightarrow> x \<notin># held p \<Longrightarrow> indexToNextFreeIndex (m_head l) \<noteq> x \<Longrightarrow>
     point_ok H (l\<lparr> m_nextFreeIndex := (m_nextFreeIndex l)[unat x := v] \<rparr>) p"
  by (cases p) (auto simp: nth_list_update word_unat_eq_iff)

text \<open>A new value of the head: the exchange of the other thread will fail.\<close>

lemma point_ok_head:
  "point_ok H l p \<Longrightarrow> h \<notin> set H \<Longrightarrow> point_ok (h # H) (l\<lparr> m_head := h \<rparr>) p"
  by (cases p) auto

lemma head_in_list: "linked nxt n h fl \<Longrightarrow> h < n \<Longrightarrow> h \<in> set fl"
  by (cases fl) auto

lemma head_free:
  assumes "linked nxt n h fl" "h < n" shows "\<exists>fl'. fl = h # fl' \<and> linked nxt n (nxt ! unat h) fl'"
  using assms by (cases fl) auto

lemma system_ok_step:
  assumes "loffli_system_ok H fl s" "t < length (ls_threads s)"
    and "loffli_bounds l" "m_size l = m_size (ls_list s)" "m_head l \<in> set H'"
    and "linked (m_nextFreeIndex l) (m_size l) (indexToNextFreeIndex (m_head l)) fl'"
    and "mset fl' + mset owned + held p = mset fl + mset (ls_owned s) + held (ls_threads s ! t)"
    and "\<forall>i\<in>set owned. m_nextFreeIndex l ! unat i = m_invalidIndex l"
    and "point_ok H' l p"
    and "\<And>u. u < length (ls_threads s) \<Longrightarrow> u \<noteq> t \<Longrightarrow> point_ok H' l (ls_threads s ! u)"
  shows "loffli_system_ok H' fl' \<lparr> ls_list = l, ls_threads = (ls_threads s)[t := p], ls_owned = owned \<rparr>"
proof -
  let ?ths = "ls_threads s"
  have "mset fl' + mset owned + in_transit (?ths[t := p]) + held (?ths ! t) =
        mset fl' + mset owned + held p + in_transit ?ths"
    using in_transit_update [OF assms(2), of p] by (simp add: add.assoc add.commute [of "held p"])
  also have "\<dots> = mset fl + mset (ls_owned s) + in_transit ?ths + held (?ths ! t)"
    unfolding assms(7) by (simp add: ac_simps)
  finally have "mset fl' + mset owned + in_transit (?ths[t := p]) = mset_set {i. i < m_size l}"
    using assms(1,4) by (simp add: loffli_system_ok_def places_ok_def)
  moreover have "point_ok H' l q" if "q \<in> set (?ths[t := p])" for q
  proof -
    from that obtain u where "u < length ?ths" "q = ?ths[t := p] ! u" by (auto simp: in_set_conv_nth)
    then show ?thesis using assms(9,10) by (cases "u = t") auto
  qed
  ultimately show ?thesis using assms(3,5,6,8) by (simp add: loffli_system_ok_def places_ok_def)
qed


lemma step_same_list:
  assumes "loffli_system_ok H fl s" "t < length (ls_threads s)"
    "point_ok H (ls_list s) p" "held p = held (ls_threads s ! t)"
  shows "loffli_system_ok (head_of s # H) fl (s\<lparr> ls_threads := (ls_threads s)[t := p] \<rparr>)"
proof -
  have "loffli_system_ok (head_of s # H) fl \<lparr> ls_list = ls_list s, ls_threads = (ls_threads s)[t := p], ls_owned = ls_owned s \<rparr>"
    using assms by (intro system_ok_step [OF assms(1,2)])
      (auto simp: loffli_system_ok_def places_ok_def intro: point_ok_mono)
  then show ?thesis by (cases s) simp
qed

lemma bounds_invalid: "loffli_bounds l \<Longrightarrow> i \<le> m_size l \<Longrightarrow> i \<noteq> m_invalidIndex l"
  using u32_no_wrap_Suc [of "m_size l"] by (auto simp: loffli_bounds_def word_le_nat_alt)

lemma pop_exchange_ok:
  assumes "loffli_system_ok H fl s" "t < length (ls_threads s)" "ls_threads s ! t = PopExchange old new"
    "head_of s = old" "new = old \<or> new \<notin> set H"
  shows "\<exists>fl'. loffli_system_ok (new # H) fl'
    \<lparr> ls_list = (ls_list s)\<lparr> m_head := new \<rparr>, ls_threads = (ls_threads s)[t := PopMark (indexToNextFreeIndex old)],
      ls_owned = ls_owned s \<rparr>"
proof -
  let ?l = "ls_list s" and ?i = "indexToNextFreeIndex old"
  have p: "?i < m_size ?l" "m_nextFreeIndex ?l ! unat ?i = indexToNextFreeIndex new"
    using assms(1-4) by (auto simp: loffli_system_ok_def dest!: bspec [OF _ nth_mem])
  have k: "linked (m_nextFreeIndex ?l) (m_size ?l) ?i fl" "mset fl + mset (ls_owned s) + in_transit (ls_threads s) = mset_set {i. i < m_size ?l}"
    using assms(1,4) by (simp_all add: loffli_system_ok_def places_ok_def)
  obtain fl' where f: "fl = ?i # fl'" "linked (m_nextFreeIndex ?l) (m_size ?l) (indexToNextFreeIndex new) fl'"
    using head_free [OF k(1) p(1)] p(2) by auto
  have "?i \<notin> set fl'"
    using one_place [of "{#?i#}" "mset fl' + mset (ls_owned s) + in_transit (ls_threads s)"] k(2) by (simp add: f(1))
  then have "new \<noteq> old" using f(2) p(1) by (cases fl') auto
  then have "loffli_system_ok (new # H) fl'
    \<lparr> ls_list = ?l\<lparr> m_head := new \<rparr>, ls_threads = (ls_threads s)[t := PopMark ?i], ls_owned = ls_owned s \<rparr>"
    using assms f by (intro system_ok_step [OF assms(1,2)])
      (auto simp: loffli_system_ok_def places_ok_def loffli_bounds_def intro!: point_ok_head)
  then show ?thesis ..
qed

lemma push_exchange_ok:
  assumes "loffli_system_ok H fl s" "t < length (ls_threads s)" "ls_threads s ! t = PushExchange i old new"
    "head_of s = old" "new = old \<or> new \<notin> set H"
  shows "\<exists>fl'. loffli_system_ok (new # H) fl'
    \<lparr> ls_list = (ls_list s)\<lparr> m_head := new \<rparr>, ls_threads = (ls_threads s)[t := Idle], ls_owned = ls_owned s \<rparr>"
proof -
  let ?l = "ls_list s"
  have p: "m_nextFreeIndex ?l ! unat i = indexToNextFreeIndex old" "indexToNextFreeIndex new = i"
    using assms(1-3) by (auto simp: loffli_system_ok_def dest!: bspec [OF _ nth_mem])
  have k: "places_ok ?l fl (ls_threads s) (ls_owned s)" using assms(1) by (simp add: loffli_system_ok_def)
  have i: "i \<notin> set fl" "i < m_size ?l" using held_elsewhere [OF k assms(2)] assms(3) by simp_all
  have "new \<noteq> old" using k i p(2) assms(4) by (auto simp: places_ok_def dest: head_in_list)
  then have "loffli_system_ok (new # H) (i # fl)
    \<lparr> ls_list = ?l\<lparr> m_head := new \<rparr>, ls_threads = (ls_threads s)[t := Idle], ls_owned = ls_owned s \<rparr>"
    using assms p i by (intro system_ok_step [OF assms(1,2)])
      (auto simp: loffli_system_ok_def places_ok_def loffli_bounds_def intro!: point_ok_head)
  then show ?thesis ..
qed

text \<open>A write of the array at the index the thread holds.\<close>

lemma write_held_ok:
  assumes "loffli_system_ok H fl s" "t < length (ls_threads s)" "held (ls_threads s ! t) = {#i#}"
    "mset owned + held p = add_mset i (mset (ls_owned s))"
    "i \<in> set owned \<Longrightarrow> v = m_invalidIndex (ls_list s)"
    "point_ok H ((ls_list s)\<lparr> m_nextFreeIndex := (m_nextFreeIndex (ls_list s))[unat i := v] \<rparr>) p"
  shows "loffli_system_ok (head_of s # H) fl
    \<lparr> ls_list = (ls_list s)\<lparr> m_nextFreeIndex := (m_nextFreeIndex (ls_list s))[unat i := v] \<rparr>,
      ls_threads = (ls_threads s)[t := p], ls_owned = owned \<rparr>"
proof (rule system_ok_step [OF assms(1,2)])
  let ?l = "ls_list s"
  have k: "places_ok ?l fl (ls_threads s) (ls_owned s)" using assms(1) by (simp add: loffli_system_ok_def)
  note i = held_elsewhere [OF k assms(2), of i] 
  have hd: "indexToNextFreeIndex (m_head ?l) \<noteq> i"
    using i assms(3) k by (auto simp: places_ok_def dest: head_in_list)
  show "linked (m_nextFreeIndex (?l\<lparr> m_nextFreeIndex := (m_nextFreeIndex ?l)[unat i := v] \<rparr>))
     (m_size (?l\<lparr> m_nextFreeIndex := (m_nextFreeIndex ?l)[unat i := v] \<rparr>))
     (indexToNextFreeIndex (m_head (?l\<lparr> m_nextFreeIndex := (m_nextFreeIndex ?l)[unat i := v] \<rparr>))) fl"
    using k i(1) assms(3) by (simp add: places_ok_def linked_update)
  show "mset fl + mset owned + held p = mset fl + mset (ls_owned s) + held (ls_threads s ! t)"
    using assms(3,4) by (simp add: add.assoc)
  have "set owned \<subseteq> insert i (set (ls_owned s))"
    using arg_cong [OF assms(4), of set_mset] by auto
  then show "\<forall>j\<in>set owned. m_nextFreeIndex (?l\<lparr> m_nextFreeIndex := (m_nextFreeIndex ?l)[unat i := v] \<rparr>) ! unat j =
      m_invalidIndex (?l\<lparr> m_nextFreeIndex := (m_nextFreeIndex ?l)[unat i := v] \<rparr>)"
    using k assms(1,3,5) i(4)
    by (auto simp: places_ok_def loffli_system_ok_def loffli_bounds_def nth_list_update word_less_nat_alt
      dest: unat_inj)
  show "point_ok (head_of s # H) (?l\<lparr> m_nextFreeIndex := (m_nextFreeIndex ?l)[unat i := v] \<rparr>) (ls_threads s ! u)"
    if "u < length (ls_threads s)" "u \<noteq> t" for u
    using assms(1,3) i(3) that hd
    by (intro point_ok_mono point_ok_write) (auto simp: loffli_system_ok_def)
qed (use assms in \<open>auto simp: loffli_system_ok_def loffli_bounds_def intro: point_ok_mono\<close>)


lemma go_ok:
  assumes "loffli_system_ok H fl s" "loffli_next (Go t spurious) s = Some s'" "head_of s' = head_of s \<or> head_of s' \<notin> set H"
  shows "\<exists>fl'. loffli_system_ok (head_of s' # H) fl' s'"
proof -
  let ?l = "ls_list s" and ?p = "ls_threads s ! t"
  have t: "t < length (ls_threads s)" using assms(2) by (simp split: if_splits)
  have s': "s' = (case loffli_thread spurious ?p ?l (ls_owned s) of (p, l, owned) \<Rightarrow>
      \<lparr> ls_list = l, ls_threads = (ls_threads s)[t := p], ls_owned = owned \<rparr>)"
    using assms(2) t by (auto split: prod.splits)
  have k: "places_ok ?l fl (ls_threads s) (ls_owned s)" "loffli_bounds ?l" "head_of s \<in> set H" "point_ok H ?l ?p"
    using assms(1) t by (auto simp: loffli_system_ok_def)
  note same = step_same_list [OF assms(1) t] and pt = held_elsewhere [OF k(1) t]
  show ?thesis
  proof (cases ?p)
    case Idle
    then show ?thesis using same [of Idle] by (intro exI [of _ fl]) (cases s, simp add: s')
  next
    case (PopBody old new)
    then show ?thesis using same [of Idle] same [of "PopExchange old
        (new\<lparr> indexToNextFreeIndex := m_nextFreeIndex ?l ! unat (indexToNextFreeIndex old), abaCounter := abaCounter new + 1 \<rparr>)"] k(4)
      by (intro exI [of _ fl]) (cases s, auto simp: s' not_le)
  next
    case (PopExchange old new)
    then show ?thesis using same [of "PopBody (head_of s) new"] pop_exchange_ok [OF assms(1) t, of old new] k(3) assms(3)
      by (cases s) (auto simp: s' compare_exchange_def split: if_splits)
  next
    case (PopMark i)
    then show ?thesis using write_held_ok [OF assms(1) t, of i "i # ls_owned s" Idle "m_invalidIndex ?l"]
      by (intro exI [of _ fl]) (simp add: s')
  next
    case (PushCheck i)
    then show ?thesis using same [of "PushLoad i"] k(4) pt(4) by (intro exI [of _ fl]) (cases s, auto simp: s' not_le)
  next
    case (PushLoad i)
    then show ?thesis using same [of "PushBody i (head_of s) (head_of s)"] by (intro exI [of _ fl]) (cases s, simp add: s')
  next
    case (PushBody i old new)
    then show ?thesis using pt(2,4) k(2)
        write_held_ok [OF assms(1) t, of i "ls_owned s" "PushExchange i old (new\<lparr> indexToNextFreeIndex := i, abaCounter := abaCounter new + 1 \<rparr>)"
          "indexToNextFreeIndex old"]
      by (intro exI [of _ fl]) (simp add: s' loffli_bounds_def word_less_nat_alt)
  next
    case (PushExchange i old new)
    then show ?thesis using same [of "PushBody i (head_of s) new"] push_exchange_ok [OF assms(1) t, of i old new] assms(3)
      by (cases s) (auto simp: s' compare_exchange_def split: if_splits)
  qed
qed

lemma call_push_ok:
  assumes "loffli_system_ok H fl s" "t < length (ls_threads s)" "ls_threads s ! t = Idle" "i \<in> set (ls_owned s)"
  shows "loffli_system_ok (head_of s # H) fl
    (s\<lparr> ls_threads := (ls_threads s)[t := PushCheck i], ls_owned := remove1 i (ls_owned s) \<rparr>)"
proof -
  have "loffli_system_ok (head_of s # H) fl
    \<lparr> ls_list = ls_list s, ls_threads = (ls_threads s)[t := PushCheck i], ls_owned = remove1 i (ls_owned s) \<rparr>"
    using assms by (intro system_ok_step [OF assms(1,2)])
      (auto simp: loffli_system_ok_def places_ok_def intro: point_ok_mono dest: notin_set_remove1 set_remove1_subset [THEN subsetD])
  then show ?thesis by (cases s) simp
qed

lemma next_ok:
  assumes "loffli_system_ok H fl s" "loffli_next e s = Some s'" "head_of s' = head_of s \<or> head_of s' \<notin> set H"
  shows "\<exists>fl'. loffli_system_ok (head_of s' # H) fl' s'"
proof (cases e)
  case (Call_pop t)
  with assms(2) have t: "t < length (ls_threads s)" "ls_threads s ! t = Idle"
      "s' = s\<lparr> ls_threads := (ls_threads s)[t := PopBody (head_of s) (head_of s)] \<rparr>"
    by (auto split: if_splits)
  then show ?thesis using step_same_list [OF assms(1) t(1), of "PopBody (head_of s) (head_of s)"] assms(1)
    by (auto simp: loffli_system_ok_def)
next
  case (Call_push t i)
  then show ?thesis using assms(2) call_push_ok [OF assms(1), of t i] by (auto split: if_splits)
next
  case (Go t spurious)
  then show ?thesis using go_ok assms by blast
qed

lemma run_ok:
  "loffli_system_ok H fl s \<Longrightarrow> loffli_run es s = Some s' \<Longrightarrow> heads_fresh es H s \<Longrightarrow> \<exists>H' fl'. loffli_system_ok H' fl' s'"
proof (induction es arbitrary: H fl s)
  case (Cons e es)
  then obtain s1 where s1: "loffli_next e s = Some s1" "loffli_run es s1 = Some s'" by (auto simp: bind_eq_Some_conv)
  with Cons.prems obtain fl1 where "loffli_system_ok (head_of s1 # H) fl1 s1" using next_ok [OF _ s1(1)] by auto
  then show ?case using Cons.IH s1 Cons.prems(3) by (auto split: option.splits)
qed auto


subsection \<open>Exclusive ownership, and how it is lost\<close>

lemma in_transit_start: "in_transit (replicate n Idle) = {#}"
  by (induction n) (simp_all add: in_transit_def)

lemma start_ok:
  assumes "0 < capacity" "capacity < - 1 - 1" "length mem = unat capacity + 1"
    and "LoFFLi_init True mem capacity LoFFLi_ctor = Inr l"
  shows "\<exists>fl. loffli_system_ok [m_head l] fl (loffli_start l threads)" "m_size l = capacity"
proof -
  let ?fl = "map of_nat [0..<unat capacity] :: u32 list"
  have l: "loffli_shape l ?fl" "m_size l = capacity"
    using init_shape [OF assms(1-3), of LoFFLi_ctor] assms(4) by (auto simp: LoFFLi_ctor_def)
  then show "m_size l = capacity" by simp
  have "i \<in> of_nat ` {0..<unat capacity}" if "i < capacity" for i :: u32
    using that by (intro image_eqI [of _ _ "unat i"]) (auto simp: word_less_nat_alt)
  moreover have "x < capacity" if "x \<in> set ?fl" for x
    using that l linked_bound by (auto simp only: loffli_shape_def)
  ultimately have "set ?fl = {i. i < capacity}" by fastforce
  moreover have "distinct ?fl" using l(1) by (simp add: loffli_shape_def)
  ultimately have "mset ?fl = mset_set {i. i < capacity}" using mset_set_set [of ?fl] by simp
  then have "loffli_system_ok [m_head l] ?fl (loffli_start l threads)"
    using l by (auto simp: loffli_system_ok_def places_ok_def loffli_bounds_def loffli_start_def in_transit_start loffli_shape_def)
  then show "\<exists>fl. loffli_system_ok [m_head l] fl (loffli_start l threads)" ..
qed

lemma distinct_if_count: "(\<And>x. count (mset xs) x \<le> 1) \<Longrightarrow> distinct xs"
proof (induction xs)
  case (Cons a xs)
  have "count (mset xs) x \<le> 1" for x using Cons.prems [of x] by (cases "a = x") (simp_all add: count_eq_zero_iff [THEN iffD2])
  moreover have "count (mset xs) a = 0" using Cons.prems [of a] by simp
  ultimately show ?case using Cons.IH by (simp add: count_eq_zero_iff)
qed simp

lemma system_ok_free:
  assumes "loffli_system_ok H fl s" shows "free_indices (ls_list s) = fl"
proof -
  have k: "places_ok (ls_list s) fl (ls_threads s) (ls_owned s)" using assms by (simp add: loffli_system_ok_def)
  have "count (mset fl) x \<le> 1" for x
  proof -
    have "mset fl \<subseteq># mset_set {i. i < m_size (ls_list s)}"
      using k unfolding places_ok_def by (metis add.assoc mset_subset_eq_add_left)
    then have "count (mset fl) x \<le> count (mset_set {i. i < m_size (ls_list s)}) x" by (rule mset_subset_eq_count)
    also have "\<dots> \<le> 1" by (cases "x < m_size (ls_list s)") simp_all
    finally show ?thesis .
  qed
  then have "distinct fl" by (rule distinct_if_count)
  then have "length fl \<le> unat (m_size (ls_list s))"
    using k by (intro distinct_below_length) (auto simp: places_ok_def dest: linked_bound)
  then show ?thesis using k by (simp add: free_indices_def linked_walk places_ok_def)
qed

lemma run_size: "loffli_run es s = Some s' \<Longrightarrow> m_size (ls_list s') = m_size (ls_list s)"
proof (induction es arbitrary: s)
  case (Cons e es)
  then obtain s1 where s1: "loffli_next e s = Some s1" "loffli_run es s1 = Some s'" by (auto simp: bind_eq_Some_conv)
  have "m_size (fst (snd (loffli_thread f p l ow))) = m_size l" for f p l ow
    by (cases p) (auto simp: compare_exchange_def)
  then have "m_size (ls_list s1) = m_size (ls_list s)"
    using s1(1) by (cases e) (auto split: if_splits prod.splits, metis fst_conv snd_conv)
  then show ?case using Cons.IH s1 by simp
qed simp

lemma no_recurrence_exclusive:
  assumes "0 < capacity" "capacity < - 1 - 1" "length mem = unat capacity + 1"
    and "LoFFLi_init True mem capacity LoFFLi_ctor = Inr l"
    and "loffli_run es (loffli_start l threads) = Some s"
    and "heads_fresh es [m_head l] (loffli_start l threads)"
  shows "\<exists>H fl. loffli_system_ok H fl s"
    "mset (free_indices (ls_list s)) + mset (ls_owned s) + in_transit (ls_threads s) = mset_set {i. i < capacity}"
proof -
  obtain H fl where ok: "loffli_system_ok H fl s"
    using start_ok(1) [OF assms(1-4)] run_ok assms(5,6) by blast
  then show "\<exists>H fl. loffli_system_ok H fl s" by blast
  have n: "m_size (ls_list s) = capacity"
    using run_size [OF assms(5)] start_ok(2) [OF assms(1-4)] by (simp add: loffli_start_def)
  show "mset (free_indices (ls_list s)) + mset (ls_owned s) + in_transit (ls_threads s) = mset_set {i. i < capacity}"
    using ok n by (simp add: system_ok_free [OF ok] loffli_system_ok_def places_ok_def)
qed

text \<open>
  C9: in every interleaving of any number of threads that call \<open>pop\<close> and \<open>push\<close>, as long as no
  value of the head recurs, no index is lost or handed out twice: the free indices, the indices in
  use and the indices that threads are just taking or giving back are together every index below
  the capacity exactly once. A \<open>push\<close> of an index in use is never refused.
\<close>

theorem loffli_concurrent_exclusive:
  assumes "0 < capacity" "capacity < - 1 - 1" "length mem = unat capacity + 1"
    and "LoFFLi_init True mem capacity LoFFLi_ctor = Inr l"
    and "loffli_run es (loffli_start l threads) = Some s"
    and "heads_fresh es [m_head l] (loffli_start l threads)"
  shows "mset (free_indices (ls_list s)) + mset (ls_owned s) + in_transit (ls_threads s) = mset_set {i. i < capacity} \<and>
    (\<forall>t<length (ls_threads s). \<forall>i. ls_threads s ! t = PushCheck i \<longrightarrow>
      fst (loffli_thread False (PushCheck i) (ls_list s) (ls_owned s)) = PushLoad i)"
proof -
  obtain H fl where ok: "loffli_system_ok H fl s" using no_recurrence_exclusive(1) [OF assms] by blast
  have "fst (loffli_thread False (PushCheck i) (ls_list s) (ls_owned s)) = PushLoad i"
    if t: "t < length (ls_threads s)" "ls_threads s ! t = PushCheck i" for t i
  proof -
    have "i < m_size (ls_list s)" using ok t held_elsewhere(4) [of _ _ _ _ t i] by (auto simp: loffli_system_ok_def)
    moreover have "point_ok H (ls_list s) (PushCheck i)" using ok t nth_mem by (fastforce simp: loffli_system_ok_def)
    ultimately show ?thesis by (simp add: not_le)
  qed
  then show ?thesis using no_recurrence_exclusive(2) [OF assms] by blast
qed

text \<open>
  A value of the head recurs only if some exchange fails or the 32-bit counter wraps: an execution
  of fewer than \<open>2 ^ 32\<close> steps in which every exchange succeeds keeps the indices exclusive.
\<close>

fun exchange_succeeds :: "loffli_event \<Rightarrow> loffli_system \<Rightarrow> bool" where
  "exchange_succeeds (Go t spurious) s \<longleftrightarrow>
     (case ls_threads s ! t of PopExchange old new \<Rightarrow> head_of s = old \<and> \<not> spurious
      | PushExchange i old new \<Rightarrow> head_of s = old \<and> \<not> spurious | _ \<Rightarrow> True)"
| "exchange_succeeds _ s \<longleftrightarrow> True"

primrec uncontended :: "loffli_event list \<Rightarrow> loffli_system \<Rightarrow> bool" where
  "uncontended [] s \<longleftrightarrow> True"
| "uncontended (e # es) s \<longleftrightarrow> exchange_succeeds e s \<and>
     (case loffli_next e s of None \<Rightarrow> True | Some s' \<Rightarrow> uncontended es s')"

fun counter_of_point :: "loffli_point \<Rightarrow> bool" where
  "counter_of_point (PopBody old new) \<longleftrightarrow> new = old"
| "counter_of_point (PopExchange old new) \<longleftrightarrow> abaCounter new = abaCounter old + 1"
| "counter_of_point (PushBody i old new) \<longleftrightarrow> new = old"
| "counter_of_point (PushExchange i old new) \<longleftrightarrow> abaCounter new = abaCounter old + 1"
| "counter_of_point _ \<longleftrightarrow> True"

definition counters_ok :: "nat \<Rightarrow> loffli_node list \<Rightarrow> loffli_system \<Rightarrow> bool" where
  "counters_ok c H s \<longleftrightarrow> abaCounter (head_of s) = of_nat c + 1 \<and> (\<forall>h\<in>set H. \<exists>j\<le>c. abaCounter h = of_nat j + 1) \<and>
     (\<forall>p\<in>set (ls_threads s). counter_of_point p)"

lemma counter_fresh:
  assumes "\<forall>h\<in>set H. \<exists>j\<le>c. abaCounter h = of_nat j + 1" "abaCounter new = of_nat (Suc c) + 1" "Suc c < 2 ^ 32"
  shows "new \<notin> set H"
proof
  assume "new \<in> set H"
  then obtain j where j: "j \<le> c" "(of_nat j :: u32) = of_nat (Suc c)" using assms(1,2) by force
  then have "unat (of_nat j :: u32) = unat (of_nat (Suc c) :: u32)" by simp
  then show False using j(1) assms(3) by (simp add: unat_of_nat_u32 del: of_nat_Suc)
qed

lemma uncontended_next:
  assumes "counters_ok c H s" "loffli_next e s = Some s'" "exchange_succeeds e s" "Suc c < 2 ^ 32"
  shows "(head_of s' = head_of s \<or> head_of s' \<notin> set H) \<and>
    (counters_ok c (head_of s' # H) s' \<or> counters_ok (Suc c) (head_of s' # H) s')"
proof -
  have up: "counter_of_point p \<Longrightarrow> \<forall>q\<in>set ths. counter_of_point q \<Longrightarrow> \<forall>q\<in>set (ths[t := p]). counter_of_point q" for p ths t
    using set_update_subset_insert by fast
  have same: "counters_ok c (head_of s # H) s'" if "head_of s' = head_of s" "ls_threads s' = (ls_threads s)[t := p]" "counter_of_point p" for t p
  proof -
    have "\<exists>j\<le>c. abaCounter (head_of s) = of_nat j + 1" using assms(1) unfolding counters_ok_def by blast
    moreover have "\<forall>q\<in>set (ls_threads s'). counter_of_point q"
      unfolding that(2) using assms(1) by (intro up [OF that(3)]) (simp add: counters_ok_def)
    ultimately show ?thesis using assms(1) that(1) by (simp add: counters_ok_def)
  qed
  have new: "head_of s' \<notin> set H \<and> counters_ok (Suc c) (head_of s' # H) s'"
    if "abaCounter (head_of s') = abaCounter (head_of s) + 1" "ls_threads s' = (ls_threads s)[t := p]" "counter_of_point p" for t p
  proof -
    have "abaCounter (head_of s') = of_nat (Suc c) + 1" using that assms(1) by (simp add: counters_ok_def)
    moreover have "\<forall>q\<in>set (ls_threads s'). counter_of_point q"
      unfolding that(2) using assms(1) by (intro up [OF that(3)]) (simp add: counters_ok_def)
    moreover have "\<forall>h\<in>set (head_of s' # H). \<exists>j\<le>Suc c. abaCounter h = of_nat j + 1"
      using assms(1) calculation(1) unfolding counters_ok_def by (metis le_SucI order_refl set_ConsD)
    ultimately show ?thesis using counter_fresh [OF _ _ assms(4), of H "head_of s'"] assms(1)
      by (simp add: counters_ok_def)
  qed
  have pt: "counter_of_point (ls_threads s ! t)" if "t < length (ls_threads s)" for t
    using assms(1) that by (simp add: counters_ok_def)
  show ?thesis
  proof (cases e)
    case (Call_pop t)
    then show ?thesis using assms(2) same [of t "PopBody (head_of s) (head_of s)"] by (auto split: if_splits)
  next
    case (Call_push t i)
    then show ?thesis using assms(2) same [of t "PushCheck i"] by (auto split: if_splits)
  next
    case (Go t f)
    then have t: "t < length (ls_threads s)" using assms(2) by (simp split: if_splits)
    show ?thesis
      using assms(2,3) Go t pt [OF t] same [of t "fst (loffli_thread f (ls_threads s ! t) (ls_list s) (ls_owned s))"]
        new [of t "fst (loffli_thread f (ls_threads s ! t) (ls_list s) (ls_owned s))"]
      by (cases "ls_threads s ! t") (auto simp: compare_exchange_def split: if_splits)
  qed
qed

lemma uncontended_heads_fresh:
  "counters_ok c H s \<Longrightarrow> uncontended es s \<Longrightarrow> c + length es < 2 ^ 32 \<Longrightarrow> heads_fresh es H s"
proof (induction es arbitrary: c H s)
  case (Cons e es)
  show ?case
  proof (cases "loffli_next e s")
    case (Some s1)
    then have u: "exchange_succeeds e s" "uncontended es s1" using Cons.prems(2) by simp_all
    have c: "Suc c + length es < 2 ^ 32" "c + length es < 2 ^ 32" "Suc c < 2 ^ 32" using Cons.prems(3) by simp_all
    have "heads_fresh es (head_of s1 # H) s1"
      using uncontended_next [OF Cons.prems(1) Some u(1) c(3)] Cons.IH [OF _ u(2)] c(1,2) by blast
    then show ?thesis using uncontended_next [OF Cons.prems(1) Some u(1) c(3)] Some by simp
  qed simp
qed simp

lemma loffli_uncontended_exclusive:
  assumes "0 < capacity" "capacity < - 1 - 1" "length mem = unat capacity + 1"
    and "LoFFLi_init True mem capacity LoFFLi_ctor = Inr l"
    and "loffli_run es (loffli_start l threads) = Some s"
    and "uncontended es (loffli_start l threads)" "length es < 2 ^ 32"
  shows "mset (free_indices (ls_list s)) + mset (ls_owned s) + in_transit (ls_threads s) = mset_set {i. i < capacity}"
proof -
  have "m_head l = m_head LoFFLi_ctor"
    using assms(1,2,4) by (auto simp: LoFFLi_init_def Let_def)
  then have "counters_ok 0 [m_head l] (loffli_start l threads)"
    by (simp add: counters_ok_def loffli_start_def LoFFLi_ctor_def)
  then have "heads_fresh es [m_head l] (loffli_start l threads)"
    using uncontended_heads_fresh [of 0] assms(6,7) by simp
  then show ?thesis using no_recurrence_exclusive [OF assms(1-5)] by simp
qed

definition example_loffli :: loffli where
  "example_loffli = projr (LoFFLi_init True [0, 0, 0, 0, 0] 4 LoFFLi_ctor)"

text \<open>Two threads: the exchange of the second fails once, and it takes the next index.\<close>

definition contended_schedule :: "loffli_event list" where
  "contended_schedule = [Call_pop 0, Call_pop 1, Go 0 False, Go 1 False, Go 0 False, Go 1 False, Go 0 False,
     Go 1 False, Go 1 False, Go 1 False, Call_push 1 0, Go 1 False]"

lemma loffli_concurrent_exclusive_witness:
  "\<exists>s. loffli_run contended_schedule (loffli_start example_loffli 2) = Some s \<and> ls_owned s = [1] \<and>
     mset (free_indices (ls_list s)) + mset (ls_owned s) + in_transit (ls_threads s) = mset_set {i. i < 4}"
proof -
  have i: "LoFFLi_init True [0, 0, 0, 0, 0] 4 LoFFLi_ctor = Inr example_loffli" by code_simp
  have r: "loffli_run contended_schedule (loffli_start example_loffli 2) =
      Some (the (loffli_run contended_schedule (loffli_start example_loffli 2)))" by code_simp
  have f: "heads_fresh contended_schedule [m_head example_loffli] (loffli_start example_loffli 2)" by code_simp
  have o: "ls_owned (the (loffli_run contended_schedule (loffli_start example_loffli 2))) = [1]" by code_simp
  show ?thesis using r o loffli_concurrent_exclusive [OF _ _ _ i r f] by auto
qed

text \<open>
  The schedule that loses the exclusive ownership. Thread 1 loads the head with counter 1 and is
  interrupted. Thread 0 moves the counter to 4; thread 2 loads the head \<open>(1, 4)\<close> and is interrupted.
  Thread 0 takes the indices 1 and 2. The exchange of thread 1 fails, and with the second one it
  sets the counter back to 3. Thread 0 frees index 1, and the head is \<open>(1, 4)\<close> again: the exchange of
  thread 2 succeeds and makes index 2, which is in use, the first free one. Thread 0 takes it.
\<close>

definition aba_schedule :: "loffli_event list" where
  "aba_schedule =
     [Call_pop 1, Go 1 False,
      Call_pop 0, Go 0 False, Go 0 False, Go 0 False,
      Call_push 0 0, Go 0 False, Go 0 False, Go 0 False, Go 0 False,
      Call_pop 0, Go 0 False, Go 0 False, Go 0 False,
      Call_pop 2, Go 2 False,
      Call_pop 0, Go 0 False, Go 0 False, Go 0 False,
      Call_pop 0, Go 0 False, Go 0 False, Go 0 False,
      Go 1 False, Go 1 False, Go 1 False, Go 1 False,
      Call_push 0 1, Go 0 False, Go 0 False, Go 0 False, Go 0 False,
      Go 2 False, Go 2 False,
      Call_pop 0, Go 0 False, Go 0 False, Go 0 False]"

lemma update_2_3: "(x # y # z # ws)[2 := v] = x # y # v # ws" "(x # y # z # w # ws)[3 := v] = x # y # z # v # ws"
  by (simp_all add: numeral_eq_Suc)

lemma aba_run:
  assumes "m_head l = \<lparr> indexToNextFreeIndex = 0, abaCounter = 1 \<rparr>" "m_nextFreeIndex l = 1 # 2 # 3 # 4 # rest"
    "4 \<le> m_size l" "m_invalidIndex l = m_size l + 1" "m_size l < - 2"
  shows "\<exists>s. loffli_run aba_schedule \<lparr> ls_list = l, ls_threads = Idle # Idle # Idle # ths, ls_owned = [] \<rparr> = Some s \<and>
      ls_owned s = [2, 1, 3, 2, 0] \<and> ls_threads s = Idle # Idle # Idle # ths"
    "\<not> heads_fresh aba_schedule [m_head l] \<lparr> ls_list = l, ls_threads = Idle # Idle # Idle # ths, ls_owned = [] \<rparr>"
proof -
  have le: "\<not> m_size l \<le> 0" "\<not> m_size l \<le> 1" "\<not> m_size l \<le> 2" "\<not> m_size l \<le> 3"
    using assms(3) by (auto simp: word_le_nat_alt)
  show "\<exists>s. loffli_run aba_schedule \<lparr> ls_list = l, ls_threads = Idle # Idle # Idle # ths, ls_owned = [] \<rparr> = Some s \<and>
      ls_owned s = [2, 1, 3, 2, 0] \<and> ls_threads s = Idle # Idle # Idle # ths"
    using le assms by (simp add: aba_schedule_def compare_exchange_def update_2_3)
  show "\<not> heads_fresh aba_schedule [m_head l] \<lparr> ls_list = l, ls_threads = Idle # Idle # Idle # ths, ls_owned = [] \<rparr>"
    using le assms by (simp add: aba_schedule_def compare_exchange_def update_2_3)
qed

text \<open>
  C39: the counter against the ABA problem does not do its work. In every free list with at least four indices, used by at least three threads, there is an
  interleaving of correct calls from the initial state on, with fewer than 50 steps and without a spurious failure of an exchange, in which index 2 is handed out twice without being
  pushed in between: all threads are idle again, and the indices in use contain it two times. A value of the head recurs although the counter is far from wrapping.
\<close>

theorem loffli_aba_double_allocation:
  assumes "4 \<le> capacity" "capacity < - 1 - 1" "length mem = unat capacity + 1" "3 \<le> threads"
    and "LoFFLi_init True mem capacity LoFFLi_ctor = Inr l"
  shows "\<exists>es s. loffli_run es (loffli_start l threads) = Some s \<and> (\<forall>t. Go t True \<notin> set es) \<and> length es < 50 \<and>
    ls_threads s = replicate threads Idle \<and> count (mset (ls_owned s)) 2 = 2 \<and>
    \<not> heads_fresh es [m_head l] (loffli_start l threads)"
proof -
  have "0 < capacity" using assms(1) by (simp add: word_le_nat_alt word_less_nat_alt)
  define mem' where "mem' = foldl (\<lambda>mem i. mem[i := of_nat i + (1 :: u32)]) mem [0..<unat (capacity + 1)]"
  have n: "unat (capacity + 1) = unat capacity + 1" by (rule u32_no_wrap_Suc) (fact assms)
  have l: "l = LoFFLi_ctor\<lparr> m_nextFreeIndex := mem', m_size := capacity, m_invalidIndex := capacity + 1 \<rparr>"
    using assms(2,5) \<open>0 < capacity\<close> by (simp add: LoFFLi_init_def Let_def mem'_def)
  have m': "length mem' = unat capacity + 1" "\<forall>j<unat capacity. mem' ! j = of_nat j + 1"
    using assms(3) foldl_list_update [of "\<lambda>i. of_nat i + 1" mem "[0..<unat (capacity + 1)]"]
    by (simp_all add: n mem'_def del: upt_Suc)
  have c: "4 \<le> unat capacity" using assms(1) by (simp add: word_le_nat_alt)
  have "drop 0 mem' = mem' ! 0 # mem' ! 1 # mem' ! 2 # mem' ! 3 # drop 4 mem'"
    using m'(1) c by (simp add: numeral_eq_Suc Cons_nth_drop_Suc del: drop_0)
  then have m: "m_nextFreeIndex l = 1 # 2 # 3 # 4 # drop 4 mem'" using l m'(2) c by simp
  obtain k where k: "threads = 3 + k" using assms(4) le_Suc_ex by blast
  have st: "loffli_start l threads = \<lparr> ls_list = l, ls_threads = Idle # Idle # Idle # replicate k Idle, ls_owned = [] \<rparr>"
    "replicate threads Idle = Idle # Idle # Idle # replicate k Idle"
    by (simp_all add: loffli_start_def k numeral_3_eq_3)
  have "m_head l = \<lparr> indexToNextFreeIndex = 0, abaCounter = 1 \<rparr>" "4 \<le> m_size l" "m_invalidIndex l = m_size l + 1" "m_size l < - 2"
    using assms(1,2) by (simp_all add: l LoFFLi_ctor_def)
  note run = aba_run [OF this(1) m this(2-4), of "replicate k Idle"]
  then show ?thesis unfolding st by (intro exI [of _ aba_schedule]) (auto simp: aba_schedule_def)
qed

lemma loffli_aba_double_allocation_witness:
  "\<exists>es s. loffli_run es (loffli_start example_loffli 3) = Some s \<and> count (mset (ls_owned s)) 2 = 2"
proof -
  have i: "LoFFLi_init True [0, 0, 0, 0, 0] 4 LoFFLi_ctor = Inr example_loffli" by code_simp
  show ?thesis using loffli_aba_double_allocation [OF _ _ _ _ i, of 3] by auto
qed

end
