(* ===== verification/Triggers.thy ===== *)
theory Triggers
  imports Chunk_Queue
begin

section \<open>Triggers, wait sets and listeners\<close>

text \<open>
  How an application waits for data: \<open>popo::NotificationInfo\<close> (\<open>notification_info.hpp/.inl/.cpp\<close>),
  \<open>popo::Trigger\<close> (\<open>trigger.hpp/.inl/.cpp\<close>), \<open>popo::TriggerHandle\<close> (\<open>trigger_handle.cpp\<close>),
  \<open>popo::UserTrigger\<close> (\<open>user_trigger.cpp\<close>), the notification part of \<open>popo::BaseSubscriber\<close>,
  \<open>BaseClient\<close> and \<open>BaseServer\<close>, \<open>popo::WaitSet\<close> (\<open>wait_set.hpp/.inl\<close>) and \<open>popo::Listener\<close>
  (\<open>listener.hpp/.inl/.cpp\<close>), with \<open>cxx::stack\<close> and \<open>algorithm::uniqueMergeSortedContainers\<close>.

  The objects call each other back through method pointers: a wait set (or a listener) keeps for
  every attached origin a trigger (an event) with a pointer to the origin, and the origin keeps a
  handle with a pointer to the wait set. The state \<open>notification_world\<close> therefore holds all the objects
  of an application by their address, and a method callback is the address of the object it calls.
  Calling back an object that does not exist is the error \<open>NULLPTR_ACCESS\<close>.

  The calls run one after the other. The locks of the handles and of the events are held within
  one call only and do not appear.
\<close>

subsection \<open>cxx::stack and the merge of sorted vectors\<close>

text \<open>A stack is the list of its elements from the top downwards.\<close>

definition stack_pop :: "'a list \<Rightarrow> 'a option \<times> 'a list" where
  "stack_pop s = (case s of [] \<Rightarrow> (None, []) | x # xs \<Rightarrow> (Some x, xs))"

definition stack_push :: "nat \<Rightarrow> 'a \<Rightarrow> 'a list \<Rightarrow> bool \<times> 'a list" where
  "stack_push Capacity x s = (if length s \<ge> Capacity then (False, s) else (True, x # s))"

text \<open>The loop with the indices into both containers, on the elements that are left.\<close>

fun uniqueMergeSortedContainers :: "'a :: linorder list \<Rightarrow> 'a list \<Rightarrow> 'a list" where
  "uniqueMergeSortedContainers (x # xs) (y # ys) =
     (if x = y then x # uniqueMergeSortedContainers xs ys
      else if x < y then x # uniqueMergeSortedContainers xs (y # ys)
      else y # uniqueMergeSortedContainers (x # xs) ys)"
| "uniqueMergeSortedContainers [] ys = ys"
| "uniqueMergeSortedContainers xs [] = xs"

subsection \<open>NotificationInfo\<close>

text \<open>A callback is the address of the function, which is user code, and the context data.\<close>

record notification_callback =
  ncb_callback :: "u64 pointer"
  ncb_contextData :: "address pointer"

record notification_info =
  ni_notificationOrigin :: "address pointer"
  ni_userValue :: "address pointer"
  ni_notificationOriginTypeHash :: u64
  ni_notificationId :: u64
  ni_callbackPtr :: "u64 pointer"

text \<open>\<open>NotificationInfo::INVALID_ID\<close>, \<open>Trigger::INVALID_TRIGGER_ID\<close> and \<open>Event_t::INVALID_ID\<close>.\<close>

definition INVALID_TRIGGER_ID :: u64 where
  "INVALID_TRIGGER_ID = - 1"

text \<open>\<open>typeHash\<close> is \<open>typeid(T).hash_code()\<close> for the type of the origin.\<close>

definition NotificationInfo_ctor :: "address \<Rightarrow> u64 \<Rightarrow> notification_callback \<Rightarrow> u64 \<Rightarrow> notification_info" where
  "NotificationInfo_ctor notificationOrigin notificationId callback typeHash =
     \<lparr> ni_notificationOrigin = Some notificationOrigin, ni_userValue = ncb_contextData callback,
       ni_notificationOriginTypeHash = typeHash, ni_notificationId = notificationId, ni_callbackPtr = ncb_callback callback \<rparr>"

definition doesOriginateFrom :: "address pointer \<Rightarrow> notification_info \<Rightarrow> bool" where
  "doesOriginateFrom notificationOrigin this =
     (case ni_notificationOrigin this of None \<Rightarrow> False | Some o1 \<Rightarrow> Some o1 = notificationOrigin)"

definition getOrigin :: "u64 \<Rightarrow> notification_info \<Rightarrow> address pointer outcome" where
  "getOrigin typeHash this =
     (if ni_notificationOriginTypeHash this \<noteq> typeHash
      then errorHandler (NOTIFICATION POPO__NOTIFICATION_INFO_TYPE_INCONSISTENCY_IN_GET_ORIGIN) MODERATE (Inr None)
      else Inr (ni_notificationOrigin this))"

text \<open>The function a notification calls: the origin, the context data and the user's function.\<close>

type_synonym callback_call = "address \<times> address pointer \<times> u64"

definition NotificationInfo_call :: "notification_info \<Rightarrow> bool \<times> callback_call option" where
  "NotificationInfo_call this =
     (case (ni_notificationOrigin this, ni_callbackPtr this) of
        (Some o1, Some f) \<Rightarrow> (True, Some (o1, ni_userValue this, f))
      | _ \<Rightarrow> (False, None))"

subsection \<open>The objects\<close>

text \<open>The callback of a handle: \<open>removeTrigger\<close> of a wait set or of a listener.\<close>

datatype notifyable = In_WaitSet address | In_Listener address

record trigger_handle =
  th_conditionVariableDataPtr :: "address pointer"
  th_resetCallback :: "notifyable option"
  th_uniqueTriggerId :: u64

datatype trigger_type = STATE_BASED | EVENT_BASED | INVALID_TRIGGER

text \<open>
  \<open>tr_hasTriggeredCallback\<close> is the object whose \<open>hasData\<close>, \<open>hasResponses\<close> or \<open>hasRequests\<close> is called,
  \<open>tr_resetCallback\<close> the object whose \<open>invalidateTrigger\<close> is called.
\<close>

record trigger =
  tr_notificationInfo :: notification_info
  tr_hasTriggeredCallback :: "address option"
  tr_resetCallback :: "address option"
  tr_uniqueId :: u64
  tr_triggerType :: trigger_type
  tr_originTriggerType :: u64
  tr_originTriggerTypeHash :: u64

record event_t =
  ev_origin :: "address pointer"
  ev_eventType :: u64
  ev_eventTypeHash :: u64
  ev_callback :: "u64 pointer"
  ev_translationCallback :: bool
  ev_userType :: "address pointer"
  ev_eventId :: u64
  ev_invalidationCallback :: "address option"

text \<open>A wait set with template parameter \<open>Capacity\<close> has a trigger array of that length.\<close>

record wait_set =
  ws_triggerArray :: "trigger option list"
  ws_conditionVariableDataPtr :: address
  ws_toBeDestroyed :: bool
  ws_indexRepository :: "u64 list"
  ws_activeNotifications :: "nat list"

record listener =
  li_events :: "event_t list"
  li_loffli :: loffli
  li_indicesInUse :: u64
  li_wasDtorCalled :: bool
  li_conditionVariableData :: address
  li_toBeDestroyed :: bool

text \<open>
  The origins of notifications: a user trigger, or a subscriber, client or server with the capacity
  and the address of the queue of its port.
\<close>

datatype origin_class = SUBSCRIBER | CLIENT | SERVER

datatype origin = UserTrigger trigger_handle | PortOrigin origin_class u64 address trigger_handle

record notification_world =
  nw_popo :: popo_state
  nw_origins :: "address \<rightharpoonup> origin"
  nw_waitSets :: "address \<rightharpoonup> wait_set"
  nw_listeners :: "address \<rightharpoonup> listener"

primrec origin_handle :: "origin \<Rightarrow> trigger_handle" where
  "origin_handle (UserTrigger h) = h"
| "origin_handle (PortOrigin cls cap q h) = h"

primrec with_handle :: "trigger_handle \<Rightarrow> origin \<Rightarrow> origin" where
  "with_handle h (UserTrigger _) = UserTrigger h"
| "with_handle h (PortOrigin cls cap q _) = PortOrigin cls cap q h"

definition put_handle :: "address \<Rightarrow> trigger_handle \<Rightarrow> notification_world \<Rightarrow> notification_world" where
  "put_handle o1 h W = W\<lparr> nw_origins := (nw_origins W)(o1 := map_option (with_handle h) (nw_origins W o1)) \<rparr>"

definition put_waitSet :: "address \<Rightarrow> wait_set \<Rightarrow> notification_world \<Rightarrow> notification_world" where
  "put_waitSet a w W = W\<lparr> nw_waitSets := (nw_waitSets W)(a \<mapsto> w) \<rparr>"

definition put_listener :: "address \<Rightarrow> listener \<Rightarrow> notification_world \<Rightarrow> notification_world" where
  "put_listener a l W = W\<lparr> nw_listeners := (nw_listeners W)(a \<mapsto> l) \<rparr>"

definition on_popo :: "(popo_state \<Rightarrow> popo_state outcome) \<Rightarrow> notification_world \<Rightarrow> notification_world outcome" where
  "on_popo f W = obind (f (nw_popo W)) (\<lambda>P. Inr (W\<lparr> nw_popo := P \<rparr>))"

subsection \<open>Trigger handles and origins\<close>

text \<open>A handle after \<open>invalidate\<close>, which is also the default-constructed one.\<close>

definition TriggerHandle_invalidated :: trigger_handle where
  "TriggerHandle_invalidated = \<lparr> th_conditionVariableDataPtr = None, th_resetCallback = None, th_uniqueTriggerId = INVALID_TRIGGER_ID \<rparr>"

definition TriggerHandle_ctor :: "address \<Rightarrow> notifyable option \<Rightarrow> u64 \<Rightarrow> trigger_handle outcome" where
  "TriggerHandle_ctor conditionVariableData resetCallback uniqueTriggerId =
     (let h = \<lparr> th_conditionVariableDataPtr = Some conditionVariableData, th_resetCallback = resetCallback,
                th_uniqueTriggerId = uniqueTriggerId \<rparr>
      in if resetCallback = None then errorHandler (NOTIFICATION POPO__TRIGGER_HANDLE_INVALID_RESET_CALLBACK) FATAL (Inr h) else Inr h)"

definition TriggerHandle_isValid :: "trigger_handle \<Rightarrow> bool" where
  "TriggerHandle_isValid h \<longleftrightarrow> th_conditionVariableDataPtr h \<noteq> None"

definition TriggerHandle_trigger :: "trigger_handle \<Rightarrow> popo_state \<Rightarrow> popo_state outcome" where
  "TriggerHandle_trigger h P =
     (case th_conditionVariableDataPtr h of None \<Rightarrow> Inr P
      | Some c \<Rightarrow>
          (case ps_condvars P c of None \<Rightarrow> Inl NULLPTR_ACCESS
           | Some cv \<Rightarrow>
               obind (ConditionNotifier_ctor (th_uniqueTriggerId h)) (\<lambda>i.
               obind (ConditionNotifier_notify i cv) (\<lambda>cv'. Inr (P\<lparr> ps_condvars := (ps_condvars P)(c \<mapsto> cv') \<rparr>)))))"

definition TriggerHandle_wasTriggered :: "trigger_handle \<Rightarrow> popo_state \<Rightarrow> bool outcome" where
  "TriggerHandle_wasTriggered h P =
     (case th_conditionVariableDataPtr h of None \<Rightarrow> Inr False
      | Some c \<Rightarrow>
          (case ps_condvars P c of None \<Rightarrow> Inl NULLPTR_ACCESS
           | Some cv \<Rightarrow>
               if unat (th_uniqueTriggerId h) < length (cv_activeNotifications cv)
               then Inr (cv_activeNotifications cv ! unat (th_uniqueTriggerId h)) else Inl NULLPTR_ACCESS))"

definition UserTrigger_invalidateTrigger :: "address \<Rightarrow> trigger_handle \<Rightarrow> u64 \<Rightarrow> notification_world \<Rightarrow> notification_world outcome" where
  "UserTrigger_invalidateTrigger this m_trigger uniqueTriggerId W =
     (if uniqueTriggerId = th_uniqueTriggerId m_trigger then Inr (put_handle this TriggerHandle_invalidated W) else Inr W)"

definition Base_invalidateTrigger ::
  "address \<Rightarrow> address \<Rightarrow> trigger_handle \<Rightarrow> u64 \<Rightarrow> notification_world \<Rightarrow> notification_world outcome" where
  "Base_invalidateTrigger this queue m_trigger uniqueTriggerId W =
     (if th_uniqueTriggerId m_trigger = uniqueTriggerId
      then obind (on_popo (unsetConditionVariable queue) W) (\<lambda>W1. Inr (put_handle this TriggerHandle_invalidated W1))
      else Inr W)"

definition invalidateTrigger :: "address \<Rightarrow> u64 \<Rightarrow> notification_world \<Rightarrow> notification_world outcome" where
  "invalidateTrigger this uniqueTriggerId W =
     (case nw_origins W this of None \<Rightarrow> Inl NULLPTR_ACCESS
      | Some (UserTrigger h) \<Rightarrow> UserTrigger_invalidateTrigger this h uniqueTriggerId W
      | Some (PortOrigin cls cap q h) \<Rightarrow> Base_invalidateTrigger this q h uniqueTriggerId W)"

text \<open>\<open>hasData\<close>, \<open>hasResponses\<close> and \<open>hasRequests\<close>: the queue of the port is not empty.\<close>

definition hasData :: "address \<Rightarrow> notification_world \<Rightarrow> bool outcome" where
  "hasData this W =
     (case nw_origins W this of
        Some (PortOrigin cls cap q h) \<Rightarrow>
          (case ps_queues (nw_popo W) q of None \<Rightarrow> Inl NULLPTR_ACCESS
           | Some cqd \<Rightarrow> Inr (\<not> VariantQueue_empty cap (cqd_queue cqd)))
      | _ \<Rightarrow> Inl NULLPTR_ACCESS)"

subsection \<open>Trigger\<close>

definition Trigger_invalidate :: "trigger \<Rightarrow> trigger" where
  "Trigger_invalidate t = t\<lparr> tr_hasTriggeredCallback := None, tr_resetCallback := None, tr_uniqueId := INVALID_TRIGGER_ID,
     tr_triggerType := INVALID_TRIGGER, tr_originTriggerType := INVALID_TRIGGER_ID, tr_originTriggerTypeHash := INVALID_TRIGGER_ID \<rparr>"

definition Trigger_isValid :: "trigger \<Rightarrow> bool" where
  "Trigger_isValid t \<longleftrightarrow> tr_uniqueId t \<noteq> INVALID_TRIGGER_ID"

text \<open>The private constructor, the state based and the event based one.\<close>

definition Trigger_ctor ::
  "address \<Rightarrow> address option \<Rightarrow> address option \<Rightarrow> u64 \<Rightarrow> notification_callback \<Rightarrow> u64 \<Rightarrow> trigger_type \<Rightarrow> u64 \<Rightarrow> u64 \<Rightarrow> u64 \<Rightarrow>
     trigger outcome" where
  "Trigger_ctor notificationOrigin hasTriggeredCallback resetCallback notificationId callback uniqueId triggerType
       originTriggerType originTriggerTypeHash typeHash =
     (let t = \<lparr> tr_notificationInfo = NotificationInfo_ctor notificationOrigin notificationId callback typeHash,
                tr_hasTriggeredCallback = hasTriggeredCallback, tr_resetCallback = resetCallback, tr_uniqueId = uniqueId,
                tr_triggerType = triggerType, tr_originTriggerType = originTriggerType,
                tr_originTriggerTypeHash = originTriggerTypeHash \<rparr>
      in if resetCallback = None then errorHandler (NOTIFICATION POPO__TRIGGER_INVALID_RESET_CALLBACK) FATAL (Inr (Trigger_invalidate t))
         else Inr t)"

definition Trigger_ctor_state ::
  "address \<Rightarrow> address option \<Rightarrow> address option \<Rightarrow> u64 \<Rightarrow> notification_callback \<Rightarrow> u64 \<Rightarrow> u64 \<Rightarrow> u64 \<Rightarrow> u64 \<Rightarrow> trigger outcome" where
  "Trigger_ctor_state stateOrigin hasTriggeredCallback resetCallback notificationId callback uniqueId stateType stateTypeHash typeHash =
     obind (Trigger_ctor stateOrigin hasTriggeredCallback resetCallback notificationId callback uniqueId STATE_BASED
              stateType stateTypeHash typeHash) (\<lambda>t.
       if hasTriggeredCallback = None
       then errorHandler (NOTIFICATION POPO__TRIGGER_INVALID_HAS_TRIGGERED_CALLBACK) FATAL (Inr (Trigger_invalidate t)) else Inr t)"

definition Trigger_ctor_event ::
  "address \<Rightarrow> address option \<Rightarrow> u64 \<Rightarrow> notification_callback \<Rightarrow> u64 \<Rightarrow> u64 \<Rightarrow> u64 \<Rightarrow> u64 \<Rightarrow> trigger outcome" where
  "Trigger_ctor_event notificationOrigin resetCallback notificationId callback uniqueId notificationType notificationTypeHash typeHash =
     Trigger_ctor notificationOrigin None resetCallback notificationId callback uniqueId EVENT_BASED
       notificationType notificationTypeHash typeHash"

definition isStateConditionSatisfied :: "trigger \<Rightarrow> notification_world \<Rightarrow> bool outcome" where
  "isStateConditionSatisfied t W =
     (case tr_triggerType t of
        STATE_BASED \<Rightarrow>
          if Trigger_isValid t
          then (case tr_hasTriggeredCallback t of None \<Rightarrow> Inl NULLPTR_ACCESS | Some o1 \<Rightarrow> hasData o1 W) else Inr False
      | EVENT_BASED \<Rightarrow> Inr (Trigger_isValid t)
      | INVALID_TRIGGER \<Rightarrow> Inr False)"

definition isLogicalEqualTo :: "address \<Rightarrow> u64 \<Rightarrow> u64 \<Rightarrow> trigger \<Rightarrow> bool" where
  "isLogicalEqualTo notificationOrigin originTriggerType originTriggerTypeHash t \<longleftrightarrow>
     Trigger_isValid t \<and> ni_notificationOrigin (tr_notificationInfo t) = Some notificationOrigin \<and>
     tr_originTriggerType t = originTriggerType \<and> tr_originTriggerTypeHash t = originTriggerTypeHash"

text \<open>\<open>reset\<close>, which the destructor calls: the origin is told, unless the trigger is invalid.\<close>

definition Trigger_reset :: "trigger \<Rightarrow> notification_world \<Rightarrow> (trigger \<times> notification_world) outcome" where
  "Trigger_reset t W =
     (if \<not> Trigger_isValid t then Inr (t, W)
      else (case tr_resetCallback t of None \<Rightarrow> Inr (Trigger_invalidate t, W)
            | Some o1 \<Rightarrow> obind (invalidateTrigger o1 (tr_uniqueId t) W) (\<lambda>W1. Inr (Trigger_invalidate t, W1))))"

text \<open>\<open>updateOrigin\<close>: callbacks that refer to the old origin refer to the new one.\<close>

definition Trigger_updateOrigin :: "address \<Rightarrow> trigger \<Rightarrow> trigger" where
  "Trigger_updateOrigin newOrigin t =
     (let old = ni_notificationOrigin (tr_notificationInfo t)
      in if Trigger_isValid t \<and> Some newOrigin \<noteq> old
         then t\<lparr> tr_hasTriggeredCallback :=
                    (if tr_hasTriggeredCallback t \<noteq> None \<and> tr_hasTriggeredCallback t = old then Some newOrigin
                     else tr_hasTriggeredCallback t),
                 tr_resetCallback :=
                    (if tr_resetCallback t \<noteq> None \<and> tr_resetCallback t = old then Some newOrigin else tr_resetCallback t),
                 tr_notificationInfo := (tr_notificationInfo t)\<lparr> ni_notificationOrigin := Some newOrigin \<rparr> \<rparr>
         else t)"

subsection \<open>The slots of wait sets and listeners\<close>

text \<open>\<open>WaitSet::removeTrigger\<close>: the loop over the array finds the first trigger with the id.\<close>

primrec find_trigger :: "u64 \<Rightarrow> trigger option list \<Rightarrow> nat option" where
  "find_trigger uniqueTriggerId [] = None"
| "find_trigger uniqueTriggerId (x # xs) =
     (case x of Some t \<Rightarrow> if tr_uniqueId t = uniqueTriggerId then Some 0 else map_option Suc (find_trigger uniqueTriggerId xs)
      | None \<Rightarrow> map_option Suc (find_trigger uniqueTriggerId xs))"

definition WaitSet_removeTrigger :: "address \<Rightarrow> u64 \<Rightarrow> notification_world \<Rightarrow> notification_world outcome" where
  "WaitSet_removeTrigger this uniqueTriggerId W =
     (case nw_waitSets W this of None \<Rightarrow> Inl NULLPTR_ACCESS
      | Some w \<Rightarrow>
          (case find_trigger uniqueTriggerId (ws_triggerArray w) of None \<Rightarrow> Inr W
           | Some i \<Rightarrow>
               (case stack_push (length (ws_triggerArray w)) uniqueTriggerId (ws_indexRepository w) of (pushed, rep) \<Rightarrow>
                  Expects pushed (Inr (put_waitSet this
                    (w\<lparr> ws_triggerArray := (ws_triggerArray w)[i := None], ws_indexRepository := rep \<rparr>) W)))))"

definition MAX_NUMBER_OF_EVENTS_PER_LISTENER :: nat where
  "MAX_NUMBER_OF_EVENTS_PER_LISTENER = MAX_NUMBER_OF_NOTIFIERS"

text \<open>The member initialisers of \<open>Event_t\<close>.\<close>

definition Event_ctor :: event_t where
  "Event_ctor = \<lparr> ev_origin = None, ev_eventType = INVALID_TRIGGER_ID, ev_eventTypeHash = INVALID_TRIGGER_ID, ev_callback = None,
     ev_translationCallback = False, ev_userType = None, ev_eventId = INVALID_TRIGGER_ID, ev_invalidationCallback = None \<rparr>"

definition Event_isInitialized :: "event_t \<Rightarrow> bool" where
  "Event_isInitialized e \<longleftrightarrow> ev_origin e \<noteq> None \<and> ev_eventId e \<noteq> INVALID_TRIGGER_ID \<and> ev_eventType e \<noteq> INVALID_TRIGGER_ID \<and>
     ev_eventTypeHash e \<noteq> INVALID_TRIGGER_ID \<and> ev_callback e \<noteq> None \<and> ev_translationCallback e \<and> ev_invalidationCallback e \<noteq> None"

definition Event_isEqualTo :: "address \<Rightarrow> u64 \<Rightarrow> u64 \<Rightarrow> event_t \<Rightarrow> bool" where
  "Event_isEqualTo o1 eventType eventTypeHash e \<longleftrightarrow>
     ev_origin e = Some o1 \<and> ev_eventType e = eventType \<and> ev_eventTypeHash e = eventTypeHash"

definition Event_init ::
  "u64 \<Rightarrow> address \<Rightarrow> address pointer \<Rightarrow> u64 \<Rightarrow> u64 \<Rightarrow> u64 \<Rightarrow> address option \<Rightarrow> event_t \<Rightarrow> bool \<times> event_t" where
  "Event_init eventId o1 userType eventType eventTypeHash callback invalidationCallback e =
     (if invalidationCallback \<noteq> None
      then (True, e\<lparr> ev_eventId := eventId, ev_origin := Some o1, ev_userType := userType, ev_eventType := eventType,
                     ev_eventTypeHash := eventTypeHash, ev_callback := Some callback, ev_translationCallback := True,
                     ev_invalidationCallback := invalidationCallback \<rparr>)
      else (False, e))"

definition Event_executeCallback :: "event_t \<Rightarrow> callback_call option" where
  "Event_executeCallback e =
     (if \<not> Event_isInitialized e then None
      else Some (the (ev_origin e), ev_userType e, the (ev_callback e)))"

text \<open>\<open>reset\<close> clears everything but the context data; it tells the origin first.\<close>

definition Event_cleared :: "event_t \<Rightarrow> event_t" where
  "Event_cleared e = e\<lparr> ev_eventId := INVALID_TRIGGER_ID, ev_origin := None, ev_eventType := INVALID_TRIGGER_ID, ev_eventTypeHash := INVALID_TRIGGER_ID,
     ev_callback := None, ev_translationCallback := False, ev_invalidationCallback := None \<rparr>"

definition Event_reset :: "event_t \<Rightarrow> notification_world \<Rightarrow> (bool \<times> event_t \<times> notification_world) outcome" where
  "Event_reset e W =
     (case ev_invalidationCallback e of
        Some o1 \<Rightarrow>
          if Event_isInitialized e
          then obind (invalidateTrigger o1 (ev_eventId e) W) (\<lambda>W1. Inr (True, Event_cleared e, W1))
          else Inr (False, e, W)
      | None \<Rightarrow> Inr (False, e, W))"

text \<open>\<open>IndexManager_t::pop\<close> and \<open>push\<close>.\<close>

definition IndexManager_pop :: "listener \<Rightarrow> u32 option \<times> listener" where
  "IndexManager_pop l =
     (case LoFFLi_pop (li_loffli l) of
        (Some i, f) \<Rightarrow> (Some i, l\<lparr> li_loffli := f, li_indicesInUse := li_indicesInUse l + 1 \<rparr>)
      | (None, f) \<Rightarrow> (None, l\<lparr> li_loffli := f \<rparr>))"

definition IndexManager_push :: "u32 \<Rightarrow> listener \<Rightarrow> listener outcome" where
  "IndexManager_push index l =
     (case LoFFLi_push index (li_loffli l) of (pushed, f) \<Rightarrow>
        Expects pushed (Inr (l\<lparr> li_loffli := f, li_indicesInUse := li_indicesInUse l - 1 \<rparr>)))"

definition Listener_removeTrigger :: "address \<Rightarrow> u64 \<Rightarrow> notification_world \<Rightarrow> notification_world outcome" where
  "Listener_removeTrigger this index W =
     (case nw_listeners W this of None \<Rightarrow> Inl NULLPTR_ACCESS
      | Some l \<Rightarrow>
          if unat index \<ge> MAX_NUMBER_OF_EVENTS_PER_LISTENER then Inr W
          else obind (Event_reset (li_events l ! unat index) W) (\<lambda>(wasReset, e, W1).
            let l1 = l\<lparr> li_events := (li_events l)[unat index := e] \<rparr>
            in if wasReset
               then obind (IndexManager_push (ucast index) l1) (\<lambda>l2. Inr (put_listener this l2 W1))
               else Inr (put_listener this l1 W1)))"

subsection \<open>Attaching and detaching on the side of the origin\<close>

definition call_resetCallback :: "notifyable \<Rightarrow> u64 \<Rightarrow> notification_world \<Rightarrow> notification_world outcome" where
  "call_resetCallback n uniqueTriggerId W =
     (case n of In_WaitSet a \<Rightarrow> WaitSet_removeTrigger a uniqueTriggerId W
      | In_Listener a \<Rightarrow> Listener_removeTrigger a uniqueTriggerId W)"

text \<open>\<open>TriggerHandle::reset\<close> of the handle of an origin, which its destructor calls.\<close>

definition TriggerHandle_reset :: "address \<Rightarrow> notification_world \<Rightarrow> notification_world outcome" where
  "TriggerHandle_reset o1 W =
     (case nw_origins W o1 of None \<Rightarrow> Inl NULLPTR_ACCESS
      | Some orig \<Rightarrow>
          let h = origin_handle orig
          in if \<not> TriggerHandle_isValid h then Inr W
             else obind (case th_resetCallback h of None \<Rightarrow> Inr W
                         | Some n \<Rightarrow> call_resetCallback n (th_uniqueTriggerId h) W)
                    (\<lambda>W1. Inr (put_handle o1 TriggerHandle_invalidated W1)))"

text \<open>\<open>m_trigger = std::move(triggerHandle)\<close>\<close>

definition TriggerHandle_move :: "address \<Rightarrow> trigger_handle \<Rightarrow> notification_world \<Rightarrow> notification_world outcome" where
  "TriggerHandle_move o1 triggerHandle W = obind (TriggerHandle_reset o1 W) (\<lambda>W1. Inr (put_handle o1 triggerHandle W1))"

definition UserTrigger_enableEvent :: "address \<Rightarrow> trigger_handle \<Rightarrow> notification_world \<Rightarrow> notification_world outcome" where
  "UserTrigger_enableEvent this triggerHandle W = TriggerHandle_move this triggerHandle W"

text \<open>
  The common body of \<open>enableEvent\<close> and \<open>enableState\<close> of the ports: a valid handle is overridden with
  a warning, then the port notifies the condition variable of the new handle.
\<close>

definition Base_enable :: "posh_error \<Rightarrow> address \<Rightarrow> address \<Rightarrow> trigger_handle \<Rightarrow> trigger_handle \<Rightarrow> notification_world \<Rightarrow>
    notification_world outcome" where
  "Base_enable overriding this queue m_trigger triggerHandle W =
     (let go = obind (TriggerHandle_move this triggerHandle W) (\<lambda>W1.
                 case th_conditionVariableDataPtr triggerHandle of None \<Rightarrow> Inl NULLPTR_ACCESS
                 | Some c \<Rightarrow> on_popo (setConditionVariable c (th_uniqueTriggerId triggerHandle) queue) W1)
      in if TriggerHandle_isValid m_trigger then errorHandler overriding MODERATE go else go)"

definition BaseSubscriber_enableState where
  "BaseSubscriber_enableState =
     Base_enable (NOTIFICATION POPO__BASE_SUBSCRIBER_OVERRIDING_WITH_STATE_SINCE_HAS_DATA_OR_DATA_RECEIVED_ALREADY_ATTACHED)"

definition BaseSubscriber_enableEvent where
  "BaseSubscriber_enableEvent =
     Base_enable (NOTIFICATION POPO__BASE_SUBSCRIBER_OVERRIDING_WITH_EVENT_SINCE_HAS_DATA_OR_DATA_RECEIVED_ALREADY_ATTACHED)"

definition BaseClient_enableState where
  "BaseClient_enableState =
     Base_enable (NOTIFICATION POPO__BASE_CLIENT_OVERRIDING_WITH_STATE_SINCE_HAS_RESPONSE_OR_RESPONSE_RECEIVED_ALREADY_ATTACHED)"

definition BaseClient_enableEvent where
  "BaseClient_enableEvent =
     Base_enable (NOTIFICATION POPO__BASE_CLIENT_OVERRIDING_WITH_EVENT_SINCE_HAS_RESPONSE_OR_RESPONSE_RECEIVED_ALREADY_ATTACHED)"

definition BaseServer_enableState where
  "BaseServer_enableState =
     Base_enable (NOTIFICATION POPO__BASE_SERVER_OVERRIDING_WITH_STATE_SINCE_HAS_REQUEST_OR_REQUEST_RECEIVED_ALREADY_ATTACHED)"

definition BaseServer_enableEvent where
  "BaseServer_enableEvent =
     Base_enable (NOTIFICATION POPO__BASE_SERVER_OVERRIDING_WITH_EVENT_SINCE_HAS_REQUEST_OR_REQUEST_RECEIVED_ALREADY_ATTACHED)"

definition enableState :: "address \<Rightarrow> trigger_handle \<Rightarrow> notification_world \<Rightarrow> notification_world outcome" where
  "enableState o1 triggerHandle W =
     (case nw_origins W o1 of
        Some (PortOrigin SUBSCRIBER cap q h) \<Rightarrow> BaseSubscriber_enableState o1 q h triggerHandle W
      | Some (PortOrigin CLIENT cap q h) \<Rightarrow> BaseClient_enableState o1 q h triggerHandle W
      | Some (PortOrigin SERVER cap q h) \<Rightarrow> BaseServer_enableState o1 q h triggerHandle W
      | _ \<Rightarrow> Inl NULLPTR_ACCESS)"

definition enableEvent :: "address \<Rightarrow> trigger_handle \<Rightarrow> notification_world \<Rightarrow> notification_world outcome" where
  "enableEvent o1 triggerHandle W =
     (case nw_origins W o1 of None \<Rightarrow> Inl NULLPTR_ACCESS
      | Some (UserTrigger h) \<Rightarrow> UserTrigger_enableEvent o1 triggerHandle W
      | Some (PortOrigin SUBSCRIBER cap q h) \<Rightarrow> BaseSubscriber_enableEvent o1 q h triggerHandle W
      | Some (PortOrigin CLIENT cap q h) \<Rightarrow> BaseClient_enableEvent o1 q h triggerHandle W
      | Some (PortOrigin SERVER cap q h) \<Rightarrow> BaseServer_enableEvent o1 q h triggerHandle W)"

definition UserTrigger_disableEvent :: "address \<Rightarrow> notification_world \<Rightarrow> notification_world outcome" where
  "UserTrigger_disableEvent this W = TriggerHandle_reset this W"

text \<open>\<open>disableEvent\<close> and \<open>disableState\<close> of the ports are the same.\<close>

definition Base_disable :: "address \<Rightarrow> address \<Rightarrow> notification_world \<Rightarrow> notification_world outcome" where
  "Base_disable this queue W = obind (TriggerHandle_reset this W) (on_popo (unsetConditionVariable queue))"

definition disableEvent :: "address \<Rightarrow> notification_world \<Rightarrow> notification_world outcome" where
  "disableEvent o1 W =
     (case nw_origins W o1 of None \<Rightarrow> Inl NULLPTR_ACCESS
      | Some (UserTrigger h) \<Rightarrow> UserTrigger_disableEvent o1 W
      | Some (PortOrigin cls cap q h) \<Rightarrow> Base_disable o1 q W)"

definition UserTrigger_trigger :: "address \<Rightarrow> notification_world \<Rightarrow> notification_world outcome" where
  "UserTrigger_trigger this W =
     (case nw_origins W this of Some (UserTrigger h) \<Rightarrow> on_popo (TriggerHandle_trigger h) W | _ \<Rightarrow> Inl NULLPTR_ACCESS)"

definition UserTrigger_hasTriggered :: "address \<Rightarrow> notification_world \<Rightarrow> bool outcome" where
  "UserTrigger_hasTriggered this W =
     (case nw_origins W this of Some (UserTrigger h) \<Rightarrow> TriggerHandle_wasTriggered h (nw_popo W) | _ \<Rightarrow> Inl NULLPTR_ACCESS)"

text \<open>
  The destructors: of a user trigger it is the one of its handle; \<open>SubscriberImpl\<close>, \<open>ClientImpl\<close> and
  \<open>ServerImpl\<close> reset the handle before the port is marked for destruction.
\<close>

definition origin_dtor :: "address \<Rightarrow> notification_world \<Rightarrow> notification_world outcome" where
  "origin_dtor o1 W = obind (TriggerHandle_reset o1 W) (\<lambda>W1. Inr (W1\<lparr> nw_origins := (nw_origins W1)(o1 := None) \<rparr>))"

subsection \<open>WaitSet\<close>

definition WaitSet_ctor :: "nat \<Rightarrow> address \<Rightarrow> wait_set" where
  "WaitSet_ctor Capacity condVarData =
     \<lparr> ws_triggerArray = replicate Capacity None, ws_conditionVariableDataPtr = condVarData, ws_toBeDestroyed = False,
       ws_indexRepository = foldl (\<lambda>s i. snd (stack_push Capacity (of_nat i) s)) [] [0..<Capacity],
       ws_activeNotifications = [] \<rparr>"

datatype wait_set_error = WAIT_SET_FULL | ALREADY_ATTACHED

definition WaitSet_attachImpl ::
  "address \<Rightarrow> address \<Rightarrow> address option \<Rightarrow> u64 \<Rightarrow> notification_callback \<Rightarrow> u64 \<Rightarrow> u64 \<Rightarrow> u64 \<Rightarrow> notification_world \<Rightarrow>
     ((wait_set_error + u64) \<times> notification_world) outcome" where
  "WaitSet_attachImpl this eventOrigin hasTriggeredCallback eventId eventCallback originType originTypeHash typeHash W =
     (case nw_waitSets W this of None \<Rightarrow> Inl NULLPTR_ACCESS
      | Some w \<Rightarrow>
          if list_ex (\<lambda>x. case x of None \<Rightarrow> False | Some t \<Rightarrow> isLogicalEqualTo eventOrigin originType originTypeHash t)
               (ws_triggerArray w)
          then Inr (Inl ALREADY_ATTACHED, W)
          else (case stack_pop (ws_indexRepository w) of
                  (None, rep) \<Rightarrow> Inr (Inl WAIT_SET_FULL, W)
                | (Some index, rep) \<Rightarrow>
                    obind (if hasTriggeredCallback \<noteq> None
                           then Trigger_ctor_state eventOrigin hasTriggeredCallback (Some eventOrigin) eventId eventCallback
                                  index originType originTypeHash typeHash
                           else Trigger_ctor_event eventOrigin (Some eventOrigin) eventId eventCallback index
                                  originType originTypeHash typeHash) (\<lambda>t.
                    if unat index < length (ws_triggerArray w)
                    then Inr (Inr index, put_waitSet this
                           (w\<lparr> ws_triggerArray := (ws_triggerArray w)[unat index := Some t], ws_indexRepository := rep \<rparr>) W)
                    else Inl NULLPTR_ACCESS)))"

text \<open>The continuation after a successful \<open>attachImpl\<close> or \<open>addEvent\<close>.\<close>

definition enable_attached ::
  "(trigger_handle \<Rightarrow> notification_world \<Rightarrow> notification_world outcome) \<Rightarrow> address \<Rightarrow> notifyable \<Rightarrow>
     ('e + u64) \<times> notification_world \<Rightarrow> ('e option \<times> notification_world) outcome" where
  "enable_attached enable conditionVariableData n r =
     (case r of (Inl e, W) \<Rightarrow> Inr (Some e, W)
      | (Inr uniqueId, W) \<Rightarrow>
          obind (TriggerHandle_ctor conditionVariableData (Some n) uniqueId) (\<lambda>h.
          obind (enable h W) (\<lambda>W1. Inr (None, W1))))"

text \<open>\<open>attachEvent\<close> with and without an event type; the result is the error, if there is one.\<close>

definition WaitSet_attachEvent ::
  "address \<Rightarrow> address \<Rightarrow> u64 \<Rightarrow> u64 \<Rightarrow> u64 \<Rightarrow> notification_callback \<Rightarrow> u64 \<Rightarrow> notification_world \<Rightarrow>
     (wait_set_error option \<times> notification_world) outcome" where
  "WaitSet_attachEvent this eventOrigin eventType eventTypeHash eventId eventCallback typeHash W =
     (case nw_waitSets W this of None \<Rightarrow> Inl NULLPTR_ACCESS
      | Some w \<Rightarrow>
          obind (WaitSet_attachImpl this eventOrigin None eventId eventCallback eventType eventTypeHash typeHash W)
            (enable_attached (enableEvent eventOrigin) (ws_conditionVariableDataPtr w) (In_WaitSet this)))"

definition WaitSet_attachState ::
  "address \<Rightarrow> address \<Rightarrow> u64 \<Rightarrow> u64 \<Rightarrow> u64 \<Rightarrow> notification_callback \<Rightarrow> u64 \<Rightarrow> notification_world \<Rightarrow>
     (wait_set_error option \<times> notification_world) outcome" where
  "WaitSet_attachState this stateOrigin stateType stateTypeHash stateId stateCallback typeHash W =
     (case nw_waitSets W this of None \<Rightarrow> Inl NULLPTR_ACCESS
      | Some w \<Rightarrow>
          obind (WaitSet_attachImpl this stateOrigin (Some stateOrigin) stateId stateCallback stateType stateTypeHash typeHash W)
            (enable_attached (enableState stateOrigin) (ws_conditionVariableDataPtr w) (In_WaitSet this)))"

text \<open>\<open>removeAllTriggers\<close>: the optionals are reset one after the other; index \<open>i\<close> is the next one.\<close>

primrec removeAllTriggers_loop :: "address \<Rightarrow> nat list \<Rightarrow> notification_world \<Rightarrow> notification_world outcome" where
  "removeAllTriggers_loop this [] W = Inr W"
| "removeAllTriggers_loop this (i # is) W =
     (case nw_waitSets W this of None \<Rightarrow> Inl NULLPTR_ACCESS
      | Some w \<Rightarrow>
          (case ws_triggerArray w ! i of None \<Rightarrow> removeAllTriggers_loop this is W
           | Some t \<Rightarrow>
               obind (Trigger_reset t W) (\<lambda>(_, W1).
               removeAllTriggers_loop this is
                 (put_waitSet this (w\<lparr> ws_triggerArray := (ws_triggerArray w)[i := None] \<rparr>) W1))))"

definition set_toBeDestroyed :: "address \<Rightarrow> popo_state \<Rightarrow> popo_state outcome" where
  "set_toBeDestroyed c P =
     (case ps_condvars P c of None \<Rightarrow> Inl NULLPTR_ACCESS
      | Some cv \<Rightarrow> Inr (P\<lparr> ps_condvars := (ps_condvars P)(c \<mapsto> cv\<lparr> cv_toBeDestroyed := True \<rparr>) \<rparr>))"

definition WaitSet_dtor :: "address \<Rightarrow> notification_world \<Rightarrow> notification_world outcome" where
  "WaitSet_dtor this W =
     (case nw_waitSets W this of None \<Rightarrow> Inl NULLPTR_ACCESS
      | Some w \<Rightarrow>
          obind (removeAllTriggers_loop this [0..<length (ws_triggerArray w)] W) (\<lambda>W1.
          obind (on_popo (set_toBeDestroyed (ws_conditionVariableDataPtr w)) W1) (\<lambda>W2.
          Inr (W2\<lparr> nw_waitSets := (nw_waitSets W2)(this := None) \<rparr>))))"

definition WaitSet_markForDestruction :: "address \<Rightarrow> notification_world \<Rightarrow> notification_world outcome" where
  "WaitSet_markForDestruction this W =
     (case nw_waitSets W this of None \<Rightarrow> Inl NULLPTR_ACCESS
      | Some w \<Rightarrow>
          (case ps_condvars (nw_popo W) (ws_conditionVariableDataPtr w) of None \<Rightarrow> Inl NULLPTR_ACCESS
           | Some cv \<Rightarrow>
               obind (ConditionListener_destroy cv) (\<lambda>(flag, cv').
               Inr (put_waitSet this (w\<lparr> ws_toBeDestroyed := flag \<rparr>)
                 (W\<lparr> nw_popo := (nw_popo W)\<lparr> ps_condvars :=
                      (ps_condvars (nw_popo W))(ws_conditionVariableDataPtr w \<mapsto> cv') \<rparr> \<rparr>)))))"

definition WaitSet_size :: "wait_set \<Rightarrow> u64" where
  "WaitSet_size w = of_nat (length (ws_triggerArray w)) - of_nat (length (ws_indexRepository w))"

subsection \<open>Waiting\<close>

text \<open>
  \<open>createVectorWithTriggeredTriggers\<close>: the loop goes from the last active notification down to the
  first; \<open>n\<close> is one more than the index \<open>i\<close> of the loop.
\<close>

primrec createVector_loop ::
  "wait_set \<Rightarrow> notification_world \<Rightarrow> nat \<Rightarrow> nat list \<Rightarrow> notification_info list \<Rightarrow> (nat list \<times> notification_info list) outcome" where
  "createVector_loop w W 0 active triggers = Inr (active, triggers)"
| "createVector_loop w W (Suc i) active triggers =
     (let index = active ! i
      in if length (ws_triggerArray w) \<le> index then Inl NULLPTR_ACCESS
         else (case ws_triggerArray w ! index of
                 None \<Rightarrow> createVector_loop w W i (take i active @ drop (Suc i) active) triggers
               | Some t \<Rightarrow>
                   obind (isStateConditionSatisfied t W) (\<lambda>satisfied.
                   if satisfied
                   then Expects (length triggers < length (ws_triggerArray w))
                          (createVector_loop w W i
                             (if tr_triggerType t = EVENT_BASED then take i active @ drop (Suc i) active else active)
                             (triggers @ [tr_notificationInfo t]))
                   else createVector_loop w W i active triggers)))"

definition createVectorWithTriggeredTriggers ::
  "address \<Rightarrow> notification_world \<Rightarrow> (notification_info list \<times> notification_world) outcome" where
  "createVectorWithTriggeredTriggers this W =
     (case nw_waitSets W this of None \<Rightarrow> Inl NULLPTR_ACCESS
      | Some w \<Rightarrow>
          obind (createVector_loop w W (length (ws_activeNotifications w)) (ws_activeNotifications w) []) (\<lambda>(active, triggers).
          Inr (triggers, put_waitSet this (w\<lparr> ws_activeNotifications := active \<rparr>) W)))"

text \<open>
  A wait function is \<open>ConditionListener::wait\<close> or \<open>timedWait\<close> on the condition variable; a call that
  blocks forever is \<open>NO_RETURN\<close>.
\<close>

type_synonym wait_function = "bool \<Rightarrow> condition_variable_data \<Rightarrow> (nat list \<times> condition_variable_data) option"

definition acquireNotifications :: "wait_function \<Rightarrow> address \<Rightarrow> notification_world \<Rightarrow> notification_world outcome" where
  "acquireNotifications wait this W =
     (case nw_waitSets W this of None \<Rightarrow> Inl NULLPTR_ACCESS
      | Some w \<Rightarrow>
          (case ps_condvars (nw_popo W) (ws_conditionVariableDataPtr w) of None \<Rightarrow> Inl NULLPTR_ACCESS
           | Some cv \<Rightarrow>
               obind (returns (wait (ws_toBeDestroyed w) cv)) (\<lambda>(notificationVector, cv').
               Inr (put_waitSet this (w\<lparr> ws_activeNotifications :=
                      (if ws_activeNotifications w = [] then notificationVector
                       else if notificationVector \<noteq> []
                            then uniqueMergeSortedContainers notificationVector (ws_activeNotifications w)
                            else ws_activeNotifications w) \<rparr>)
                 (W\<lparr> nw_popo := (nw_popo W)\<lparr> ps_condvars :=
                      (ps_condvars (nw_popo W))(ws_conditionVariableDataPtr w \<mapsto> cv') \<rparr> \<rparr>)))))"

definition waitAndReturnTriggeredTriggers ::
  "wait_function \<Rightarrow> address \<Rightarrow> notification_world \<Rightarrow> (notification_info list \<times> notification_world) outcome" where
  "waitAndReturnTriggeredTriggers wait this W =
     (case nw_waitSets W this of None \<Rightarrow> Inl NULLPTR_ACCESS
      | Some w \<Rightarrow>
          (case ps_condvars (nw_popo W) (ws_conditionVariableDataPtr w) of None \<Rightarrow> Inl NULLPTR_ACCESS
           | Some cv \<Rightarrow>
               obind (if wasNotified cv then acquireNotifications wait this W else Inr W) (\<lambda>W1.
               obind (createVectorWithTriggeredTriggers this W1) (\<lambda>(triggers, W2).
               if triggers \<noteq> [] then Inr (triggers, W2)
               else obind (acquireNotifications wait this W2) (createVectorWithTriggeredTriggers this)))))"

definition WaitSet_wait :: "address \<Rightarrow> notification_world \<Rightarrow> (notification_info list \<times> notification_world) outcome" where
  "WaitSet_wait this W = waitAndReturnTriggeredTriggers ConditionListener_wait this W"

definition WaitSet_timedWait :: "address \<Rightarrow> notification_world \<Rightarrow> (notification_info list \<times> notification_world) outcome" where
  "WaitSet_timedWait this W = waitAndReturnTriggeredTriggers ConditionListener_timedWait this W"

subsection \<open>Listener\<close>

text \<open>The constructor of \<open>Listener\<close>; \<open>storage\<close> is what the memory of the free list contains.\<close>

definition Listener_ctor :: "u32 list \<Rightarrow> address \<Rightarrow> listener outcome" where
  "Listener_ctor storage conditionVariable =
     obind (LoFFLi_init True storage (of_nat MAX_NUMBER_OF_EVENTS_PER_LISTENER) LoFFLi_ctor) (\<lambda>loffli.
     Inr \<lparr> li_events = replicate MAX_NUMBER_OF_EVENTS_PER_LISTENER Event_ctor, li_loffli = loffli, li_indicesInUse = 0,
           li_wasDtorCalled = False, li_conditionVariableData = conditionVariable, li_toBeDestroyed = False \<rparr>)"

datatype listener_error = LISTENER_FULL | EVENT_ALREADY_ATTACHED | EMPTY_EVENT_CALLBACK | EMPTY_INVALIDATION_CALLBACK

definition Listener_addEvent ::
  "address \<Rightarrow> address \<Rightarrow> address pointer \<Rightarrow> u64 \<Rightarrow> u64 \<Rightarrow> u64 \<Rightarrow> address option \<Rightarrow> notification_world \<Rightarrow>
     ((listener_error + u64) \<times> notification_world) outcome" where
  "Listener_addEvent this o1 userType eventType eventTypeHash callback invalidationCallback W =
     (case nw_listeners W this of None \<Rightarrow> Inl NULLPTR_ACCESS
      | Some l \<Rightarrow>
          if list_ex (Event_isEqualTo o1 eventType eventTypeHash) (li_events l) then Inr (Inl EVENT_ALREADY_ATTACHED, W)
          else (case IndexManager_pop l of
                  (None, l1) \<Rightarrow> Inr (Inl LISTENER_FULL, put_listener this l1 W)
                | (Some index, l1) \<Rightarrow>
                    (case Event_init (ucast index) o1 userType eventType eventTypeHash callback invalidationCallback
                            (li_events l1 ! unat index) of (ok, e) \<Rightarrow>
                       if ok then Inr (Inr (ucast index),
                              put_listener this (l1\<lparr> li_events := (li_events l1)[unat index := e] \<rparr>) W)
                       else Inr (Inl EMPTY_INVALIDATION_CALLBACK, put_listener this l1 W))))"

definition Listener_attachEvent ::
  "address \<Rightarrow> address \<Rightarrow> u64 \<Rightarrow> u64 \<Rightarrow> notification_callback \<Rightarrow> notification_world \<Rightarrow>
     (listener_error option \<times> notification_world) outcome" where
  "Listener_attachEvent this eventOrigin eventType eventTypeHash eventCallback W =
     (case ncb_callback eventCallback of None \<Rightarrow> Inr (Some EMPTY_EVENT_CALLBACK, W)
      | Some f \<Rightarrow>
          (case nw_listeners W this of None \<Rightarrow> Inl NULLPTR_ACCESS
           | Some l \<Rightarrow>
               obind (Listener_addEvent this eventOrigin (ncb_contextData eventCallback) eventType eventTypeHash f
                        (Some eventOrigin) W)
                 (enable_attached (enableEvent eventOrigin) (li_conditionVariableData l) (In_Listener this))))"

text \<open>One iteration of \<open>threadLoop\<close>: the calls of the user's functions, in their order.\<close>

definition Listener_threadLoop_step :: "address \<Rightarrow> notification_world \<Rightarrow> (callback_call list \<times> notification_world) outcome" where
  "Listener_threadLoop_step this W =
     (case nw_listeners W this of None \<Rightarrow> Inl NULLPTR_ACCESS
      | Some l \<Rightarrow>
          if li_wasDtorCalled l then Inr ([], W)
          else (case ps_condvars (nw_popo W) (li_conditionVariableData l) of None \<Rightarrow> Inl NULLPTR_ACCESS
                | Some cv \<Rightarrow>
                    obind (returns (ConditionListener_wait (li_toBeDestroyed l) cv)) (\<lambda>(ids, cv').
                    Inr (List.map_filter (\<lambda>id. Event_executeCallback (li_events l ! id)) ids,
                         W\<lparr> nw_popo := (nw_popo W)\<lparr> ps_condvars :=
                              (ps_condvars (nw_popo W))(li_conditionVariableData l \<mapsto> cv') \<rparr> \<rparr>))))"

text \<open>
  The destructor: its body ends the thread and marks the condition variable, then the members are
  destroyed, which resets the events from the last to the first.
\<close>

definition Listener_dtor_body :: "address \<Rightarrow> notification_world \<Rightarrow> notification_world outcome" where
  "Listener_dtor_body this W =
     (case nw_listeners W this of None \<Rightarrow> Inl NULLPTR_ACCESS
      | Some l \<Rightarrow>
          (case ps_condvars (nw_popo W) (li_conditionVariableData l) of None \<Rightarrow> Inl NULLPTR_ACCESS
           | Some cv \<Rightarrow>
               obind (ConditionListener_destroy cv) (\<lambda>(flag, cv').
               Inr (put_listener this (l\<lparr> li_wasDtorCalled := True, li_toBeDestroyed := flag \<rparr>)
                 (W\<lparr> nw_popo := (nw_popo W)\<lparr> ps_condvars :=
                      (ps_condvars (nw_popo W))(li_conditionVariableData l \<mapsto> cv'\<lparr> cv_toBeDestroyed := True \<rparr>) \<rparr> \<rparr>)))))"

primrec destroy_events_loop :: "address \<Rightarrow> nat list \<Rightarrow> notification_world \<Rightarrow> notification_world outcome" where
  "destroy_events_loop this [] W = Inr W"
| "destroy_events_loop this (i # is) W =
     (case nw_listeners W this of None \<Rightarrow> Inl NULLPTR_ACCESS
      | Some l \<Rightarrow>
          obind (Event_reset (li_events l ! i) W) (\<lambda>(_, e, W1).
          destroy_events_loop this is (put_listener this (l\<lparr> li_events := (li_events l)[i := e] \<rparr>) W1)))"

definition Listener_dtor :: "address \<Rightarrow> notification_world \<Rightarrow> notification_world outcome" where
  "Listener_dtor this W =
     obind (Listener_dtor_body this W) (\<lambda>W1.
     obind (destroy_events_loop this (rev [0..<MAX_NUMBER_OF_EVENTS_PER_LISTENER]) W1) (\<lambda>W2.
     Inr (W2\<lparr> nw_listeners := (nw_listeners W2)(this := None) \<rparr>)))"

end
