(* ===== verification/Notification_Links.thy ===== *)
theory Notification_Links
  imports Triggers
begin

section \<open>The links between origins, wait sets and listeners\<close>

text \<open>
  The invariant of the notification objects: an origin with a valid handle is attached at exactly
  one index of exactly one wait set or listener, which exists, has the origin in its slot, and
  whose condition variable the handle and the queue of the port refer to; an origin without a valid
  handle is attached nowhere. Every operation keeps the invariant and returns.

  The table of triggers of a wait set and the table of events of a listener satisfy the same
  contract, the locale \<open>slot_table\<close>.
\<close>

subsection \<open>The contract of a table of slots\<close>

locale slot_table =
  fixes ok :: "'s \<Rightarrow> bool" and size :: "'s \<Rightarrow> nat" and occupant :: "'s \<Rightarrow> nat \<Rightarrow> address option"
    and free :: "'s \<Rightarrow> nat list" and clear :: "nat \<Rightarrow> 's \<Rightarrow> 's outcome"
  assumes free_distinct: "ok s \<Longrightarrow> distinct (free s)"
    and free_slots: "ok s \<Longrightarrow> set (free s) = {i. i < size s \<and> occupant s i = None}"
    and occupant_bound: "occupant s i = Some o1 \<Longrightarrow> i < size s"
    and clear_slot: "ok s \<Longrightarrow> occupant s i = Some o1 \<Longrightarrow>
      \<exists>s'. clear i s = Inr s' \<and> ok s' \<and> size s' = size s \<and> occupant s' = (occupant s)(i := None) \<and> free s' = i # free s"
begin

lemma used_free: "ok s \<Longrightarrow> card {i. occupant s i \<noteq> None} + length (free s) = size s"
proof -
  assume o: "ok s"
  have "x \<in> {i. occupant s i \<noteq> None} \<union> set (free s) \<longleftrightarrow> x < size s" for x
    using free_slots [OF o] occupant_bound [of s x] by (cases "occupant s x") auto
  then have "{i. occupant s i \<noteq> None} \<union> set (free s) = {..<size s}" by (intro set_eqI) (simp only: lessThan_iff)
  moreover have "{i. occupant s i \<noteq> None} \<inter> set (free s) = {}" unfolding free_slots [OF o] by (auto simp del: not_None_eq)
  moreover have "finite {i. occupant s i \<noteq> None}"
    by (rule finite_subset [of _ "{..<size s}"]) (auto dest: occupant_bound)
  ultimately have "card {i. occupant s i \<noteq> None} + card (set (free s)) = card {..<size s}"
    by (metis List.finite_set card_Un_disjoint)
  then show ?thesis using distinct_card [OF free_distinct [OF o]] by simp
qed

text \<open>The index that was freed last is the next one to be used.\<close>

lemma clear_reuses: "ok s \<Longrightarrow> occupant s i = Some o1 \<Longrightarrow> clear i s = Inr s' \<Longrightarrow> hd (free s') = i"
  using clear_slot [of s i o1] by auto

end

subsection \<open>The slots of a wait set\<close>

definition trigger_ok :: "nat \<Rightarrow> trigger \<Rightarrow> bool" where
  "trigger_ok i t \<longleftrightarrow> tr_uniqueId t = of_nat i \<and> tr_resetCallback t \<noteq> None \<and>
     ni_notificationOrigin (tr_notificationInfo t) = tr_resetCallback t \<and>
     (tr_triggerType t = EVENT_BASED \<or> tr_triggerType t = STATE_BASED \<and> tr_hasTriggeredCallback t = tr_resetCallback t)"

definition ws_capacity :: "wait_set \<Rightarrow> nat" where
  "ws_capacity w = length (ws_triggerArray w)"

definition ws_occupant :: "wait_set \<Rightarrow> nat \<Rightarrow> address option" where
  "ws_occupant w i = (if i < ws_capacity w then Option.bind (ws_triggerArray w ! i) tr_resetCallback else None)"

definition ws_free :: "wait_set \<Rightarrow> nat list" where
  "ws_free w = map unat (ws_indexRepository w)"

definition ws_clear :: "nat \<Rightarrow> wait_set \<Rightarrow> wait_set outcome" where
  "ws_clear i w =
     (case stack_push (length (ws_triggerArray w)) (of_nat i) (ws_indexRepository w) of (pushed, rep) \<Rightarrow>
        Expects pushed (Inr (w\<lparr> ws_triggerArray := (ws_triggerArray w)[i := None], ws_indexRepository := rep \<rparr>)))"

definition ws_array_ok :: "wait_set \<Rightarrow> bool" where
  "ws_array_ok w \<longleftrightarrow> 0 < ws_capacity w \<and> ws_capacity w \<le> MAX_NUMBER_OF_NOTIFIERS \<and>
     (\<forall>i<ws_capacity w. \<forall>t. ws_triggerArray w ! i = Some t \<longrightarrow> trigger_ok i t)"

definition ws_active_ok :: "wait_set \<Rightarrow> bool" where
  "ws_active_ok w \<longleftrightarrow> sorted_wrt (<) (ws_activeNotifications w) \<and> (\<forall>i\<in>set (ws_activeNotifications w). i < ws_capacity w)"

definition ws_table_ok :: "wait_set \<Rightarrow> bool" where
  "ws_table_ok w \<longleftrightarrow> ws_array_ok w \<and> distinct (ws_free w) \<and> set (ws_free w) = {i. i < ws_capacity w \<and> ws_occupant w i = None}"

lemma unat_index_u64: "i \<le> MAX_NUMBER_OF_NOTIFIERS \<Longrightarrow> unat (of_nat i :: u64) = i"
  by (simp add: Prelude.unat_of_nat_u64 MAX_NUMBER_OF_NOTIFIERS_def)

lemma of_nat_index_eq:
  "i \<le> MAX_NUMBER_OF_NOTIFIERS \<Longrightarrow> j \<le> MAX_NUMBER_OF_NOTIFIERS \<Longrightarrow> (of_nat i :: u64) = of_nat j \<longleftrightarrow> i = j"
  by (metis unat_index_u64)

lemma of_nat_index_valid: "i \<le> MAX_NUMBER_OF_NOTIFIERS \<Longrightarrow> (of_nat i :: u64) \<noteq> INVALID_TRIGGER_ID"
proof
  assume "i \<le> MAX_NUMBER_OF_NOTIFIERS" "(of_nat i :: u64) = INVALID_TRIGGER_ID"
  then have "i = unat (- 1 :: u64)" using unat_index_u64 [of i] by (simp add: INVALID_TRIGGER_ID_def)
  moreover have "unat (- 1 :: u64) = 18446744073709551615" by (subst unsigned_minus_1_eq_mask) (simp add: mask_eq_exp_minus_1)
  ultimately show False using \<open>i \<le> MAX_NUMBER_OF_NOTIFIERS\<close> by (simp add: MAX_NUMBER_OF_NOTIFIERS_def)
qed

lemma ws_occupant_trigger:
  assumes "ws_array_ok w" "i < ws_capacity w"
  shows "ws_triggerArray w ! i = None \<longleftrightarrow> ws_occupant w i = None"
  using assms by (cases "ws_triggerArray w ! i") (auto simp: ws_array_ok_def ws_occupant_def trigger_ok_def)

lemma ws_occupant_update:
  "i < ws_capacity w \<Longrightarrow> ws_occupant (w\<lparr> ws_triggerArray := (ws_triggerArray w)[i := x] \<rparr>) =
     (ws_occupant w)(i := Option.bind x tr_resetCallback)"
  by (auto simp: ws_occupant_def ws_capacity_def fun_eq_iff)

lemma ws_fields [simp]:
  "ws_capacity (w\<lparr> ws_indexRepository := r \<rparr>) = ws_capacity w"
  "ws_capacity (w\<lparr> ws_activeNotifications := a \<rparr>) = ws_capacity w"
  "ws_capacity (w\<lparr> ws_toBeDestroyed := d \<rparr>) = ws_capacity w"
  "ws_capacity (w\<lparr> ws_triggerArray := (ws_triggerArray w)[i := x] \<rparr>) = ws_capacity w"
  "ws_occupant (w\<lparr> ws_indexRepository := r \<rparr>) = ws_occupant w"
  "ws_occupant (w\<lparr> ws_activeNotifications := a \<rparr>) = ws_occupant w"
  "ws_occupant (w\<lparr> ws_toBeDestroyed := d \<rparr>) = ws_occupant w"
  by (auto simp: ws_capacity_def ws_occupant_def fun_eq_iff)

lemma ws_array_ok_update:
  assumes "ws_array_ok w" "i < ws_capacity w" "\<And>t. x = Some t \<Longrightarrow> trigger_ok i t"
  shows "ws_array_ok (w\<lparr> ws_triggerArray := (ws_triggerArray w)[i := x] \<rparr>)"
proof -
  have "trigger_ok j t" if "j < ws_capacity w" "(ws_triggerArray w)[i := x] ! j = Some t" for j t
    using assms that by (cases "j = i") (auto simp: ws_array_ok_def ws_capacity_def)
  then show ?thesis using assms(1) by (simp add: ws_array_ok_def)
qed

interpretation wst: slot_table ws_table_ok ws_capacity ws_occupant ws_free ws_clear
proof (unfold_locales, goal_cases)
  case (4 w i o1)
  then have i1: "i < ws_capacity w" by (simp add: ws_occupant_def split: if_splits)
  have "ws_array_ok w" using 4(1) by (simp add: ws_table_ok_def)
  moreover from this i1 have "i \<le> MAX_NUMBER_OF_NOTIFIERS" by (simp add: ws_array_ok_def)
  ultimately have i: "i < ws_capacity w" "i \<le> MAX_NUMBER_OF_NOTIFIERS" "ws_array_ok w" using i1 by simp_all
  have fs: "set (ws_free w) = {j. j < ws_capacity w \<and> ws_occupant w j = None}" "distinct (ws_free w)"
    using 4(1) by (simp_all only: ws_table_ok_def)
  have "set (ws_free w) \<subseteq> {..<ws_capacity w} - {i}" unfolding fs(1) using 4(2) by auto
  then have "card (set (ws_free w)) \<le> card ({..<ws_capacity w} - {i})" by (intro card_mono) auto
  then have "length (ws_indexRepository w) < ws_capacity w"
    using i(1) distinct_card [OF fs(2)] by (simp add: ws_free_def)
  then have c: "ws_clear i w = Inr (w\<lparr> ws_triggerArray := (ws_triggerArray w)[i := None],
      ws_indexRepository := of_nat i # ws_indexRepository w \<rparr>)" (is "_ = Inr ?w")
    by (simp add: ws_clear_def stack_push_def ws_capacity_def)
  have occ: "ws_occupant ?w = (ws_occupant w)(i := None)" using i(1) by (simp add: ws_occupant_update)
  have f: "ws_free ?w = i # ws_free w" using i(2) by (simp add: ws_free_def unat_index_u64)
  have cap: "ws_capacity ?w = ws_capacity w" by simp
  have a: "ws_array_ok ?w" using ws_array_ok_update [OF i(3,1), of None] by (simp add: ws_array_ok_def)
  have "i \<notin> set (ws_free w)" using 4(2) fs(1) by simp
  then have "ws_table_ok ?w" using fs i(1) a unfolding ws_table_ok_def occ f cap by auto
  then show ?case using c occ f cap by blast
qed (auto simp: ws_table_ok_def ws_occupant_def split: if_splits)

subsection \<open>The slots of a listener\<close>

definition event_ok :: "nat \<Rightarrow> event_t \<Rightarrow> bool" where
  "event_ok i e \<longleftrightarrow> Event_isInitialized e \<and> ev_eventId e = of_nat i \<and> ev_invalidationCallback e = ev_origin e \<or>
     ev_origin e = None \<and> ev_invalidationCallback e = None"

definition li_occupant :: "listener \<Rightarrow> nat \<Rightarrow> address option" where
  "li_occupant l i = (if i < MAX_NUMBER_OF_EVENTS_PER_LISTENER then ev_origin (li_events l ! i) else None)"

definition li_free :: "listener \<Rightarrow> nat list" where
  "li_free l = map unat (free_indices (li_loffli l))"

definition li_clear :: "nat \<Rightarrow> listener \<Rightarrow> listener outcome" where
  "li_clear i l = IndexManager_push (of_nat i) (l\<lparr> li_events := (li_events l)[i := Event_cleared (li_events l ! i)] \<rparr>)"

definition li_events_ok :: "listener \<Rightarrow> bool" where
  "li_events_ok l \<longleftrightarrow> length (li_events l) = MAX_NUMBER_OF_EVENTS_PER_LISTENER \<and>
     (\<forall>i<MAX_NUMBER_OF_EVENTS_PER_LISTENER. event_ok i (li_events l ! i))"

definition li_table_ok :: "listener \<Rightarrow> bool" where
  "li_table_ok l \<longleftrightarrow> li_events_ok l \<and> loffli_inv (li_loffli l) \<and>
     unat (m_size (li_loffli l)) = MAX_NUMBER_OF_EVENTS_PER_LISTENER \<and>
     set (li_free l) = {i. i < MAX_NUMBER_OF_EVENTS_PER_LISTENER \<and> li_occupant l i = None} \<and>
     li_indicesInUse l = of_nat MAX_NUMBER_OF_EVENTS_PER_LISTENER - of_nat (length (li_free l))"

lemma events_le_notifiers: "i < MAX_NUMBER_OF_EVENTS_PER_LISTENER \<Longrightarrow> i \<le> MAX_NUMBER_OF_NOTIFIERS"
  by (simp add: MAX_NUMBER_OF_EVENTS_PER_LISTENER_def)

lemma unat_of_nat_index: "i \<le> MAX_NUMBER_OF_NOTIFIERS \<Longrightarrow> unat (of_nat i :: u32) = i"
  by (simp add: unat_of_nat_u32 MAX_NUMBER_OF_NOTIFIERS_def)

lemma ucast_index:
  assumes "i \<le> MAX_NUMBER_OF_NOTIFIERS" shows "(ucast (of_nat i :: u64) :: u32) = of_nat i"
proof -
  have "unat (of_nat i :: u64) < 4294967296" using assms unat_index_u64 [OF assms] by (simp add: MAX_NUMBER_OF_NOTIFIERS_def)
  then have "unat (ucast (of_nat i :: u64) :: u32) = i" using unat_index_u64 [OF assms] unat_ucast_u64_u32 by metis
  then show ?thesis using unat_of_nat_index [OF assms] by (simp add: word_unat_eq_iff)
qed

lemma li_free_distinct: "li_table_ok l \<Longrightarrow> distinct (li_free l)"
  using loffli.free_distinct [of "li_loffli l"]
  by (auto simp: li_table_ok_def li_free_def distinct_map inj_on_def word_unat_eq_iff)

lemma event_ok_initialized: "event_ok i e \<Longrightarrow> Event_isInitialized e \<longleftrightarrow> ev_origin e \<noteq> None"
  by (auto simp: event_ok_def Event_isInitialized_def)

lemma li_occupant_update:
  "li_events_ok l \<Longrightarrow> i < MAX_NUMBER_OF_EVENTS_PER_LISTENER \<Longrightarrow>
     li_occupant (l\<lparr> li_events := (li_events l)[i := e] \<rparr>) = (li_occupant l)(i := ev_origin e)"
  by (auto simp: li_occupant_def li_events_ok_def fun_eq_iff)

lemma li_events_ok_update:
  assumes "li_events_ok l" "event_ok i e"
  shows "li_events_ok (l\<lparr> li_events := (li_events l)[i := e] \<rparr>)"
proof -
  have "event_ok j ((li_events l)[i := e] ! j)" if "j < MAX_NUMBER_OF_EVENTS_PER_LISTENER" for j
    using assms that by (cases "j = i") (auto simp: li_events_ok_def)
  then show ?thesis using assms(1) by (simp add: li_events_ok_def)
qed

lemma li_fields [simp]:
  "li_occupant (l\<lparr> li_loffli := f \<rparr>) = li_occupant l" "li_occupant (l\<lparr> li_indicesInUse := n \<rparr>) = li_occupant l"
  "li_occupant (l\<lparr> li_wasDtorCalled := b \<rparr>) = li_occupant l" "li_occupant (l\<lparr> li_toBeDestroyed := b \<rparr>) = li_occupant l"
  "li_free (l\<lparr> li_indicesInUse := n \<rparr>) = li_free l" "li_free (l\<lparr> li_events := es \<rparr>) = li_free l"
  "li_free (l\<lparr> li_wasDtorCalled := b \<rparr>) = li_free l" "li_free (l\<lparr> li_toBeDestroyed := b \<rparr>) = li_free l"
  by (auto simp: li_occupant_def li_free_def fun_eq_iff)

interpretation lst: slot_table li_table_ok "\<lambda>l. MAX_NUMBER_OF_EVENTS_PER_LISTENER" li_occupant li_free li_clear
proof (unfold_locales, goal_cases)
  case (1 l)
  then show ?case by (rule li_free_distinct)
next
  case (2 l)
  then show ?case by (simp only: li_table_ok_def)
next
  case (3 l i o1)
  then show ?case by (simp add: li_occupant_def split: if_splits)
next
  case (4 l i o1)
  have i: "i < MAX_NUMBER_OF_EVENTS_PER_LISTENER" "i \<le> MAX_NUMBER_OF_NOTIFIERS"
    using 4(2) events_le_notifiers by (simp_all add: li_occupant_def split: if_splits)
  have t: "li_events_ok l" "loffli_inv (li_loffli l)" "unat (m_size (li_loffli l)) = MAX_NUMBER_OF_EVENTS_PER_LISTENER"
    "set (li_free l) = {i. i < MAX_NUMBER_OF_EVENTS_PER_LISTENER \<and> li_occupant l i = None}"
    "li_indicesInUse l = of_nat MAX_NUMBER_OF_EVENTS_PER_LISTENER - of_nat (length (li_free l))"
    using 4(1) by (simp_all only: li_table_ok_def)
  have n: "i \<notin> set (li_free l)" unfolding t(4) using 4(2) by simp
  then have "(of_nat i :: u32) \<notin> set (free_indices (li_loffli l))"
    using i(2) by (metis li_free_def image_eqI list.set_map unat_of_nat_index)
  moreover have "(of_nat i :: u32) < m_size (li_loffli l)" using i t(3) by (simp add: word_less_nat_alt unat_of_nat_index)
  ultimately obtain f where f: "LoFFLi_push (of_nat i) (li_loffli l) = (True, f)" "loffli_inv f"
      "free_indices f = of_nat i # free_indices (li_loffli l)" "m_size f = m_size (li_loffli l)"
    using loffli.push_used [OF t(2)] by blast
  let ?l = "l\<lparr> li_events := (li_events l)[i := Event_cleared (li_events l ! i)], li_loffli := f,
    li_indicesInUse := li_indicesInUse l - 1 \<rparr>"
  have c: "li_clear i l = Inr ?l" using f(1) by (simp add: li_clear_def IndexManager_push_def)
  have e: "event_ok i (Event_cleared (li_events l ! i))" by (simp add: event_ok_def Event_cleared_def)
  have occ: "li_occupant ?l = (li_occupant l)(i := None)"
    using li_occupant_update [OF t(1) i(1)] by (simp add: Event_cleared_def)
  have fr: "li_free ?l = i # li_free l" using i(2) by (simp add: li_free_def f(3) unat_of_nat_index)
  have "li_events_ok ?l" using li_events_ok_update [OF t(1) e] by (simp add: li_events_ok_def)
  moreover have "set (li_free ?l) = {j. j < MAX_NUMBER_OF_EVENTS_PER_LISTENER \<and> li_occupant ?l j = None}"
    unfolding occ fr list.set(2) t(4) using i(1) by auto
  ultimately have "li_table_ok ?l" using f t(3,5) unfolding li_table_ok_def fr by simp
  then show ?case using c occ fr by blast
qed

subsection \<open>The slots of the world\<close>

primrec slot :: "notification_world \<Rightarrow> notifyable \<Rightarrow> nat \<Rightarrow> address option" where
  "slot W (In_WaitSet a) = (case nw_waitSets W a of None \<Rightarrow> (\<lambda>_. None) | Some w \<Rightarrow> ws_occupant w)"
| "slot W (In_Listener a) = (case nw_listeners W a of None \<Rightarrow> (\<lambda>_. None) | Some l \<Rightarrow> li_occupant l)"

primrec condvar_of :: "notification_world \<Rightarrow> notifyable \<Rightarrow> address option" where
  "condvar_of W (In_WaitSet a) = map_option ws_conditionVariableDataPtr (nw_waitSets W a)"
| "condvar_of W (In_Listener a) = map_option li_conditionVariableData (nw_listeners W a)"

primrec capacity_of :: "notification_world \<Rightarrow> notifyable \<Rightarrow> nat" where
  "capacity_of W (In_WaitSet a) = (case nw_waitSets W a of None \<Rightarrow> 0 | Some w \<Rightarrow> ws_capacity w)"
| "capacity_of W (In_Listener a) = MAX_NUMBER_OF_EVENTS_PER_LISTENER"

definition slots :: "(notifyable \<Rightarrow> nat \<Rightarrow> address option) \<Rightarrow> address \<Rightarrow> (notifyable \<times> nat) set" where
  "slots f o1 = {(n, i). f n i = Some o1}"

definition handle_to :: "notifyable \<Rightarrow> nat \<Rightarrow> address \<Rightarrow> trigger_handle" where
  "handle_to n i c = \<lparr> th_conditionVariableDataPtr = Some c, th_resetCallback = Some n, th_uniqueTriggerId = of_nat i \<rparr>"

text \<open>
  The handle of an origin and the slots that refer to the origin; \<open>S\<close> are slots that the handle
  does not know (yet).
\<close>

definition handle_ok :: "notification_world \<Rightarrow> address \<Rightarrow> trigger_handle \<Rightarrow> (notifyable \<times> nat) set \<Rightarrow> bool" where
  "handle_ok W o1 h S \<longleftrightarrow>
     h = TriggerHandle_invalidated \<and> slots (slot W) o1 = S \<or>
     (\<exists>n i c. h = handle_to n i c \<and> slots (slot W) o1 = insert (n, i) S \<and> (n, i) \<notin> S \<and> condvar_of W n = Some c)"

definition handle_of :: "notification_world \<Rightarrow> address \<Rightarrow> trigger_handle option" where
  "handle_of W o1 = map_option origin_handle (nw_origins W o1)"

definition queue_of :: "notification_world \<Rightarrow> address \<Rightarrow> address option" where
  "queue_of W o1 = (case nw_origins W o1 of Some (PortOrigin cls cap q h) \<Rightarrow> Some q | _ \<Rightarrow> None)"

definition links :: "address set \<Rightarrow> notification_world \<Rightarrow> bool" where
  "links X W \<longleftrightarrow> (\<forall>o1. o1 \<notin> X \<longrightarrow>
     (case handle_of W o1 of None \<Rightarrow> slots (slot W) o1 = {} | Some h \<Rightarrow> handle_ok W o1 h {}))"

text \<open>The queue of a port notifies the condition variable of the handle, and no queue has two origins.\<close>

definition notifies :: "chunk_queue_data \<Rightarrow> trigger_handle \<Rightarrow> bool" where
  "notifies cqd h \<longleftrightarrow> cqd_conditionVariableDataPtr cqd = th_conditionVariableDataPtr h \<and>
     cqd_conditionVariableNotificationIndex cqd = (if TriggerHandle_isValid h then Some (th_uniqueTriggerId h) else None)"

definition ports :: "address set \<Rightarrow> notification_world \<Rightarrow> bool" where
  "ports X W \<longleftrightarrow>
     (\<forall>o1 q. queue_of W o1 = Some q \<longrightarrow>
        (\<exists>cqd. ps_queues (nw_popo W) q = Some cqd \<and> (o1 \<notin> X \<longrightarrow> notifies cqd (the (handle_of W o1))))) \<and>
     (\<forall>o1 o2 q. queue_of W o1 = Some q \<longrightarrow> queue_of W o2 = Some q \<longrightarrow> o1 = o2)"

text \<open>The tables; the free lists of the objects in \<open>Z\<close>, which are being destroyed, do not matter.\<close>

definition tables :: "notifyable set \<Rightarrow> notification_world \<Rightarrow> bool" where
  "tables Z W \<longleftrightarrow>
     (\<forall>a w. nw_waitSets W a = Some w \<longrightarrow> ws_array_ok w \<and> ws_active_ok w \<and> (In_WaitSet a \<notin> Z \<longrightarrow> ws_table_ok w) \<and>
        (\<forall>i<ws_capacity w. \<forall>t o1. ws_triggerArray w ! i = Some t \<longrightarrow> tr_triggerType t = STATE_BASED \<longrightarrow>
           tr_resetCallback t = Some o1 \<longrightarrow> queue_of W o1 \<noteq> None)) \<and>
     (\<forall>a l. nw_listeners W a = Some l \<longrightarrow> li_events_ok l \<and> (In_Listener a \<notin> Z \<longrightarrow> li_table_ok l))"

definition condvars :: "notification_world \<Rightarrow> bool" where
  "condvars W \<longleftrightarrow>
     (\<forall>n c. condvar_of W n = Some c \<longrightarrow>
        (\<exists>cv. ps_condvars (nw_popo W) c = Some cv \<and> cv_ok cv \<and> (\<forall>i\<in>set (active_indices cv). i < capacity_of W n)) \<and>
        (\<forall>m. condvar_of W m = Some c \<longrightarrow> m = n)) \<and>
     (\<forall>q cqd c. ps_queues (nw_popo W) q = Some cqd \<longrightarrow> cqd_conditionVariableDataPtr cqd = Some c \<longrightarrow>
        ps_condvars (nw_popo W) c \<noteq> None \<and>
        (\<exists>i<MAX_NUMBER_OF_NOTIFIERS. cqd_conditionVariableNotificationIndex cqd = Some (of_nat i) \<and>
           (\<forall>n. condvar_of W n = Some c \<longrightarrow> i < capacity_of W n)))"

definition world_ok :: "address set \<Rightarrow> notifyable set \<Rightarrow> notification_world \<Rightarrow> bool" where
  "world_ok X Z W \<longleftrightarrow> links X W \<and> ports X W \<and> tables Z W \<and> condvars W"

subsection \<open>Changing one object\<close>

lemma world_okD:
  assumes "world_ok X Z W" shows "links X W" "ports X W" "tables Z W" "condvars W"
  using assms by (simp_all add: world_ok_def)

lemma portsD:
  assumes "ports X W" "queue_of W o1 = Some q"
  shows "\<exists>cqd. ps_queues (nw_popo W) q = Some cqd \<and> (o1 \<notin> X \<longrightarrow> notifies cqd (the (handle_of W o1)))"
    "queue_of W o2 = Some q \<Longrightarrow> o2 = o1"
  using assms unfolding ports_def by blast+

lemma linksD:
  assumes "links X W" "o1 \<notin> X"
  shows "handle_of W o1 = None \<Longrightarrow> slots (slot W) o1 = {}" "handle_of W o1 = Some h \<Longrightarrow> handle_ok W o1 h {}"
  using assms unfolding links_def by (metis option.simps(4), metis option.simps(5))

lemma linksI:
  assumes "\<And>o1. o1 \<notin> X \<Longrightarrow> handle_of W o1 = None \<Longrightarrow> slots (slot W) o1 = {}"
    "\<And>o1 h. o1 \<notin> X \<Longrightarrow> handle_of W o1 = Some h \<Longrightarrow> handle_ok W o1 h {}"
  shows "links X W"
  unfolding links_def
proof (intro allI impI)
  fix o1 assume "o1 \<notin> X"
  then show "case handle_of W o1 of None \<Rightarrow> slots (slot W) o1 = {} | Some h \<Rightarrow> handle_ok W o1 h {}"
    using assms by (cases "handle_of W o1") simp_all
qed

lemma portsI:
  assumes "\<And>o1 q. queue_of W o1 = Some q \<Longrightarrow> \<exists>cqd. ps_queues (nw_popo W) q = Some cqd \<and> (o1 \<notin> X \<longrightarrow> notifies cqd (the (handle_of W o1)))"
    "\<And>o1 o2 q. queue_of W o1 = Some q \<Longrightarrow> queue_of W o2 = Some q \<Longrightarrow> o1 = o2"
  shows "ports X W"
  using assms unfolding ports_def by blast

lemma world_ok_open:
  assumes "world_ok {} Z W" shows "world_ok {o1} Z W"
proof -
  note w = world_okD [OF assms]
  have "links {o1} W" using linksD [OF w(1)] by (intro linksI) simp_all
  moreover have "ports {o1} W"
  proof (rule portsI)
    show "\<exists>cqd. ps_queues (nw_popo W) q = Some cqd \<and> (o2 \<notin> {o1} \<longrightarrow> notifies cqd (the (handle_of W o2)))"
      if "queue_of W o2 = Some q" for o2 q using portsD(1) [OF w(2) that] by auto
    show "o2 = o3" if "queue_of W o2 = Some q" "queue_of W o3 = Some q" for o2 o3 q
      using portsD(2) [OF w(2) that(2,1)] .
  qed
  ultimately show ?thesis using w by (simp add: world_ok_def)
qed

lemma attached_slots_clear: "slots (f(n := (f n)(i := None))) o1 = slots f o1 - {(n, i)}"
  by (auto simp: slots_def split: if_splits)

lemma slots_set:
  "f n i = None \<Longrightarrow> slots (f(n := (f n)(i := Some o1))) o2 = (if o2 = o1 then insert (n, i) (slots f o2) else slots f o2)"
  by (auto simp: slots_def split: if_splits)

lemma handle_ok_cong:
  "slots (slot W') o1 = slots (slot W) o1 \<Longrightarrow> condvar_of W' = condvar_of W \<Longrightarrow> handle_ok W' o1 h S = handle_ok W o1 h S"
  by (simp add: handle_ok_def)

lemma links_cong:
  assumes "links X W" "\<And>o1. o1 \<notin> X \<Longrightarrow> slots (slot W') o1 = slots (slot W) o1" "condvar_of W' = condvar_of W"
    "\<And>o1. o1 \<notin> X \<Longrightarrow> handle_of W' o1 = handle_of W o1"
  shows "links X W'"
proof (rule linksI)
  show "slots (slot W') o1 = {}" if "o1 \<notin> X" "handle_of W' o1 = None" for o1
    using that assms linksD(1) [OF assms(1)] by simp
  show "handle_ok W' o1 h {}" if "o1 \<notin> X" "handle_of W' o1 = Some h" for o1 h
    using that assms linksD(2) [OF assms(1)] handle_ok_cong [OF assms(2,3)] by simp
qed

lemma ports_cong:
  assumes "ports X W" "ps_queues (nw_popo W') = ps_queues (nw_popo W)" "queue_of W' = queue_of W"
    "\<And>o1. o1 \<notin> X \<Longrightarrow> handle_of W' o1 = handle_of W o1"
  shows "ports X W'"
  using assms unfolding ports_def by metis

lemma with_handle_simps [simp]:
  "origin_handle (with_handle h x) = h" "with_handle h (with_handle h' x) = with_handle h x"
  by (cases x; simp)+

lemma put_handle_fields [simp]:
  "slot (put_handle o1 h W) = slot W" "condvar_of (put_handle o1 h W) = condvar_of W"
  "capacity_of (put_handle o1 h W) = capacity_of W" "nw_popo (put_handle o1 h W) = nw_popo W"
  "nw_waitSets (put_handle o1 h W) = nw_waitSets W" "nw_listeners (put_handle o1 h W) = nw_listeners W"
  "queue_of (put_handle o1 h W) = queue_of W"
  "handle_of (put_handle o1 h W) = (handle_of W)(o1 := map_option (\<lambda>_. h) (nw_origins W o1))"
proof -
  show "slot (put_handle o1 h W) = slot W" "condvar_of (put_handle o1 h W) = condvar_of W"
    "capacity_of (put_handle o1 h W) = capacity_of W"
    by (rule ext, rename_tac n, case_tac n; simp add: put_handle_def)+
  show "queue_of (put_handle o1 h W) = queue_of W"
    by (rule ext) (auto simp: queue_of_def put_handle_def split: option.splits origin.splits)
  show "handle_of (put_handle o1 h W) = (handle_of W)(o1 := map_option (\<lambda>_. h) (nw_origins W o1))"
    by (rule ext) (simp add: handle_of_def put_handle_def option.map_comp comp_def)
qed (simp_all add: put_handle_def)

lemma popo_fields [simp]:
  "slot (W\<lparr> nw_popo := P \<rparr>) = slot W" "condvar_of (W\<lparr> nw_popo := P \<rparr>) = condvar_of W"
  "capacity_of (W\<lparr> nw_popo := P \<rparr>) = capacity_of W" "queue_of (W\<lparr> nw_popo := P \<rparr>) = queue_of W"
  "handle_of (W\<lparr> nw_popo := P \<rparr>) = handle_of W"
proof -
  show "slot (W\<lparr> nw_popo := P \<rparr>) = slot W" "condvar_of (W\<lparr> nw_popo := P \<rparr>) = condvar_of W"
    "capacity_of (W\<lparr> nw_popo := P \<rparr>) = capacity_of W"
    by (rule ext, rename_tac n, case_tac n; simp)+
qed (simp_all add: queue_of_def handle_of_def fun_eq_iff)

lemma tables_cong:
  "tables Z W \<Longrightarrow> nw_waitSets W' = nw_waitSets W \<Longrightarrow> nw_listeners W' = nw_listeners W \<Longrightarrow> queue_of W' = queue_of W \<Longrightarrow>
     tables Z W'"
  unfolding tables_def by simp

lemma put_handle_open:
  assumes "world_ok {o1} Z W"
  shows "world_ok {o1} Z (put_handle o1 h W)"
proof -
  note w = world_okD [OF assms]
  have "links {o1} (put_handle o1 h W)" using w(1) by (rule links_cong) simp_all
  moreover have "ports {o1} (put_handle o1 h W)" using w(2) by (rule ports_cong) simp_all
  moreover have "tables Z (put_handle o1 h W)" using w(3) by (rule tables_cong) simp_all
  moreover have "condvars (put_handle o1 h W)" using w(4) by (simp add: condvars_def)
  ultimately show ?thesis by (simp add: world_ok_def)
qed

text \<open>The origin is in order again.\<close>

lemma world_ok_close:
  assumes "world_ok {o1} Z W" "handle_of W o1 = Some h" "handle_ok W o1 h {}"
    "\<And>q. queue_of W o1 = Some q \<Longrightarrow> \<exists>cqd. ps_queues (nw_popo W) q = Some cqd \<and> notifies cqd h"
  shows "world_ok {} Z W"
proof -
  note w = world_okD [OF assms(1)]
  have "links {} W"
  proof (rule linksI)
    show "slots (slot W) o2 = {}" if "handle_of W o2 = None" for o2
      using that assms(2) linksD(1) [OF w(1), of o2] by (cases "o2 = o1") simp_all
    show "handle_ok W o2 h2 {}" if "handle_of W o2 = Some h2" for o2 h2
      using that assms(2,3) linksD(2) [OF w(1), of o2] by (cases "o2 = o1") simp_all
  qed
  moreover have "ports {} W"
  proof (rule portsI)
    show "\<exists>cqd. ps_queues (nw_popo W) q = Some cqd \<and> (o2 \<notin> {} \<longrightarrow> notifies cqd (the (handle_of W o2)))"
      if "queue_of W o2 = Some q" for o2 q
      using that assms(2,4) portsD(1) [OF w(2) that] by (cases "o2 = o1") simp_all
    show "o2 = o3" if "queue_of W o2 = Some q" "queue_of W o3 = Some q" for o2 o3 q
      using portsD(2) [OF w(2) that(2,1)] .
  qed
  ultimately show ?thesis using w by (simp add: world_ok_def)
qed

text \<open>The condition variable a queue refers to.\<close>

definition queue_refers :: "notification_world \<Rightarrow> chunk_queue_data \<Rightarrow> bool" where
  "queue_refers W cqd \<longleftrightarrow> (\<forall>c. cqd_conditionVariableDataPtr cqd = Some c \<longrightarrow>
     ps_condvars (nw_popo W) c \<noteq> None \<and>
     (\<exists>i<MAX_NUMBER_OF_NOTIFIERS. cqd_conditionVariableNotificationIndex cqd = Some (of_nat i) \<and>
        (\<forall>n. condvar_of W n = Some c \<longrightarrow> i < capacity_of W n)))"

lemma update_queue_open:
  assumes "world_ok {o1} Z W" "queue_of W o1 = Some q" "queue_refers W cqd"
  shows "world_ok {o1} Z (W\<lparr> nw_popo := (nw_popo W)\<lparr> ps_queues := (ps_queues (nw_popo W))(q \<mapsto> cqd) \<rparr> \<rparr>)"
    (is "world_ok _ _ ?W")
proof -
  note w = world_okD [OF assms(1)]
  have "links {o1} ?W" using w(1) by (rule links_cong) simp_all
  moreover have "tables Z ?W" using w(3) by (rule tables_cong) simp_all
  moreover have "ports {o1} ?W"
  proof (rule portsI)
    show "\<exists>cqd2. ps_queues (nw_popo ?W) q2 = Some cqd2 \<and> (o2 \<notin> {o1} \<longrightarrow> notifies cqd2 (the (handle_of ?W o2)))"
      if "queue_of ?W o2 = Some q2" for o2 q2
    proof (cases "q2 = q")
      case True
      then show ?thesis using that portsD(2) [OF w(2) assms(2), of o2] by simp
    next
      case False
      then show ?thesis using that portsD(1) [OF w(2), of o2 q2] by simp
    qed
    show "o2 = o3" if "queue_of ?W o2 = Some q" "queue_of ?W o3 = Some q" for o2 o3 q
      using portsD(2) [OF w(2), of o3 q o2] that by simp
  qed
  moreover have "condvars ?W" unfolding condvars_def
  proof (intro conjI)
    show "\<forall>n c. condvar_of ?W n = Some c \<longrightarrow>
        (\<exists>cv. ps_condvars (nw_popo ?W) c = Some cv \<and> cv_ok cv \<and> (\<forall>i\<in>set (active_indices cv). i < capacity_of ?W n)) \<and>
        (\<forall>m. condvar_of ?W m = Some c \<longrightarrow> m = n)"
      using w(4) by (simp add: condvars_def)
    have "queue_refers W cqd2" if "ps_queues (nw_popo W) q2 = Some cqd2" for q2 cqd2
      using w(4) that unfolding condvars_def queue_refers_def by blast
    then have "queue_refers W cqd2" if "ps_queues (nw_popo ?W) q2 = Some cqd2" for q2 cqd2
      using that assms(3) by (auto split: if_splits)
    then show "\<forall>q cqd c. ps_queues (nw_popo ?W) q = Some cqd \<longrightarrow> cqd_conditionVariableDataPtr cqd = Some c \<longrightarrow>
        ps_condvars (nw_popo ?W) c \<noteq> None \<and>
        (\<exists>i<MAX_NUMBER_OF_NOTIFIERS. cqd_conditionVariableNotificationIndex cqd = Some (of_nat i) \<and>
           (\<forall>n. condvar_of ?W n = Some c \<longrightarrow> i < capacity_of ?W n))"
      unfolding queue_refers_def by simp
  qed
  ultimately show ?thesis by (simp add: world_ok_def)
qed

lemma unset_ok:
  assumes "world_ok {o1} Z W" "queue_of W o1 = Some q"
  obtains W' cqd where "on_popo (unsetConditionVariable q) W = Inr W'" "world_ok {o1} Z W'"
    "nw_origins W' = nw_origins W" "nw_waitSets W' = nw_waitSets W" "nw_listeners W' = nw_listeners W"
    "ps_queues (nw_popo W') q = Some cqd" "notifies cqd TriggerHandle_invalidated"
proof -
  obtain cqd where q: "ps_queues (nw_popo W) q = Some cqd" using portsD(1) [OF world_okD(2) [OF assms(1)] assms(2)] by blast
  let ?cqd = "cqd\<lparr> cqd_conditionVariableDataPtr := None, cqd_conditionVariableNotificationIndex := None \<rparr>"
  let ?W = "W\<lparr> nw_popo := (nw_popo W)\<lparr> ps_queues := (ps_queues (nw_popo W))(q \<mapsto> ?cqd) \<rparr> \<rparr>"
  have u: "on_popo (unsetConditionVariable q) W = Inr ?W" by (simp add: on_popo_def unsetConditionVariable_def q)
  have ok: "world_ok {o1} Z ?W" by (rule update_queue_open [OF assms]) (simp add: queue_refers_def)
  have "notifies ?cqd TriggerHandle_invalidated"
    by (simp add: notifies_def TriggerHandle_invalidated_def TriggerHandle_isValid_def)
  then show thesis by (intro that [OF u ok]) simp_all
qed

lemma handle_of_origin: "handle_of W o1 = Some h \<longleftrightarrow> (\<exists>x. nw_origins W o1 = Some x \<and> origin_handle x = h)"
  by (auto simp: handle_of_def)

lemma handle_of_eq: "nw_origins W' = nw_origins W \<Longrightarrow> handle_of W' = handle_of W"
  by (simp add: handle_of_def fun_eq_iff)

lemma queue_of_eq: "nw_origins W' = nw_origins W \<Longrightarrow> queue_of W' = queue_of W"
  by (simp add: queue_of_def fun_eq_iff)

lemma notifyables_eq:
  assumes "nw_waitSets W' = nw_waitSets W" "nw_listeners W' = nw_listeners W"
  shows "slot W' = slot W" "condvar_of W' = condvar_of W" "capacity_of W' = capacity_of W"
proof -
  show "slot W' = slot W" "condvar_of W' = condvar_of W" "capacity_of W' = capacity_of W"
    by (rule ext, rename_tac n, case_tac n; simp add: assms)+
qed

text \<open>What an operation on one origin leaves unchanged.\<close>

definition only_origin :: "address \<Rightarrow> notification_world \<Rightarrow> notification_world \<Rightarrow> bool" where
  "only_origin o1 W W' \<longleftrightarrow> condvar_of W' = condvar_of W \<and> capacity_of W' = capacity_of W \<and> queue_of W' = queue_of W \<and>
     (\<forall>o2. o2 \<noteq> o1 \<longrightarrow> handle_of W' o2 = handle_of W o2)"

lemma invalidateTrigger_ok:
  assumes "world_ok {o1} Z W" "handle_of W o1 = Some h" "th_uniqueTriggerId h = k"
  obtains W' where "invalidateTrigger o1 k W = Inr W'" "world_ok {o1} Z W'" "only_origin o1 W W'"
    "nw_waitSets W' = nw_waitSets W" "nw_listeners W' = nw_listeners W" "handle_of W' o1 = Some TriggerHandle_invalidated"
    "\<And>q. queue_of W o1 = Some q \<Longrightarrow> \<exists>cqd. ps_queues (nw_popo W') q = Some cqd \<and> notifies cqd TriggerHandle_invalidated"
proof -
  obtain x where x: "nw_origins W o1 = Some x" "origin_handle x = h" using assms(2) by (auto simp: handle_of_origin)
  show thesis
  proof (cases x)
    case (UserTrigger h1)
    let ?W = "put_handle o1 TriggerHandle_invalidated W"
    have i: "invalidateTrigger o1 k W = Inr ?W"
      using x UserTrigger assms(3) by (simp add: invalidateTrigger_def UserTrigger_invalidateTrigger_def)
    show thesis
      by (rule that [OF i put_handle_open [OF assms(1)]]) (use x UserTrigger in \<open>simp_all add: only_origin_def queue_of_def\<close>)
  next
    case (PortOrigin cls cap q h1)
    then have q: "queue_of W o1 = Some q" using x by (simp add: queue_of_def)
    obtain W1 cqd where w: "on_popo (unsetConditionVariable q) W = Inr W1" "world_ok {o1} Z W1"
        "nw_origins W1 = nw_origins W" "nw_waitSets W1 = nw_waitSets W" "nw_listeners W1 = nw_listeners W"
        "ps_queues (nw_popo W1) q = Some cqd" "notifies cqd TriggerHandle_invalidated"
      by (rule unset_ok [OF assms(1) q])
    let ?W = "put_handle o1 TriggerHandle_invalidated W1"
    have i: "invalidateTrigger o1 k W = Inr ?W"
      using x PortOrigin assms(3) w(1) by (simp add: invalidateTrigger_def Base_invalidateTrigger_def)
    show thesis
    proof (rule that [OF i put_handle_open [OF w(2)]])
      show "only_origin o1 W ?W"
        using notifyables_eq [OF w(4,5)] handle_of_eq [OF w(3)] queue_of_eq [OF w(3)] by (simp add: only_origin_def)
      show "\<exists>cqd. ps_queues (nw_popo ?W) q2 = Some cqd \<and> notifies cqd TriggerHandle_invalidated"
        if "queue_of W o1 = Some q2" for q2 using that q w(6,7) by simp
    qed (simp_all add: w x)
  qed
qed

text \<open>The origin of a slot that is cleared.\<close>

lemma links_clear:
  assumes "links {o1} W" "slot W n i = Some o1" "slot W' = (slot W)(n := (slot W n)(i := None))"
    "condvar_of W' = condvar_of W" "handle_of W' = handle_of W"
  shows "links {o1} W'"
  using assms(1)
proof (rule links_cong)
  show "slots (slot W') o2 = slots (slot W) o2" if "o2 \<notin> {o1}" for o2
    using that assms(2) by (auto simp: assms(3) attached_slots_clear) (auto simp: slots_def)
qed (simp_all add: assms)

lemma put_waitSet_fields [simp]:
  "slot (put_waitSet a w W) = (slot W)(In_WaitSet a := ws_occupant w)"
  "condvar_of (put_waitSet a w W) = (condvar_of W)(In_WaitSet a := Some (ws_conditionVariableDataPtr w))"
  "capacity_of (put_waitSet a w W) = (capacity_of W)(In_WaitSet a := ws_capacity w)"
  "handle_of (put_waitSet a w W) = handle_of W" "queue_of (put_waitSet a w W) = queue_of W"
  "nw_popo (put_waitSet a w W) = nw_popo W" "nw_origins (put_waitSet a w W) = nw_origins W"
  "nw_listeners (put_waitSet a w W) = nw_listeners W" "nw_waitSets (put_waitSet a w W) = (nw_waitSets W)(a \<mapsto> w)"
proof -
  show "slot (put_waitSet a w W) = (slot W)(In_WaitSet a := ws_occupant w)"
    "condvar_of (put_waitSet a w W) = (condvar_of W)(In_WaitSet a := Some (ws_conditionVariableDataPtr w))"
    "capacity_of (put_waitSet a w W) = (capacity_of W)(In_WaitSet a := ws_capacity w)"
    by (rule ext, rename_tac n, case_tac n; simp add: put_waitSet_def)+
qed (simp_all add: put_waitSet_def handle_of_def queue_of_def fun_eq_iff)

lemma put_listener_fields [simp]:
  "slot (put_listener a l W) = (slot W)(In_Listener a := li_occupant l)"
  "condvar_of (put_listener a l W) = (condvar_of W)(In_Listener a := Some (li_conditionVariableData l))"
  "capacity_of (put_listener a l W) = capacity_of W"
  "handle_of (put_listener a l W) = handle_of W" "queue_of (put_listener a l W) = queue_of W"
  "nw_popo (put_listener a l W) = nw_popo W" "nw_origins (put_listener a l W) = nw_origins W"
  "nw_waitSets (put_listener a l W) = nw_waitSets W" "nw_listeners (put_listener a l W) = (nw_listeners W)(a \<mapsto> l)"
proof -
  show "slot (put_listener a l W) = (slot W)(In_Listener a := li_occupant l)"
    "condvar_of (put_listener a l W) = (condvar_of W)(In_Listener a := Some (li_conditionVariableData l))"
    "capacity_of (put_listener a l W) = capacity_of W"
    by (rule ext, rename_tac n, case_tac n; simp add: put_listener_def)+
qed (simp_all add: put_listener_def handle_of_def queue_of_def fun_eq_iff)

lemma tables_waitSet:
  assumes "tables Z W" "nw_waitSets W a = Some w" "ws_array_ok w'" "ws_active_ok w'" "In_WaitSet a \<notin> Z \<Longrightarrow> ws_table_ok w'"
    "\<And>i t o1. i < ws_capacity w' \<Longrightarrow> ws_triggerArray w' ! i = Some t \<Longrightarrow> tr_triggerType t = STATE_BASED \<Longrightarrow>
       tr_resetCallback t = Some o1 \<Longrightarrow> queue_of W o1 \<noteq> None"
  shows "tables Z (put_waitSet a w' W)"
proof -
  have "ws_array_ok v \<and> ws_active_ok v \<and> (In_WaitSet b \<notin> Z \<longrightarrow> ws_table_ok v) \<and>
      (\<forall>i<ws_capacity v. \<forall>t o1. ws_triggerArray v ! i = Some t \<longrightarrow> tr_triggerType t = STATE_BASED \<longrightarrow>
         tr_resetCallback t = Some o1 \<longrightarrow> queue_of (put_waitSet a w' W) o1 \<noteq> None)"
    if "nw_waitSets (put_waitSet a w' W) b = Some v" for b v
  proof (cases "b = a")
    case True
    then show ?thesis using that assms(3-6) by auto
  next
    case False
    then show ?thesis using that assms(1) unfolding tables_def by simp
  qed
  moreover have "li_events_ok l \<and> (In_Listener b \<notin> Z \<longrightarrow> li_table_ok l)"
    if "nw_listeners (put_waitSet a w' W) b = Some l" for b l
    using that assms(1) unfolding tables_def by simp
  ultimately show ?thesis unfolding tables_def by blast
qed

lemma tables_listener:
  assumes "tables Z W" "nw_listeners W a = Some l" "li_events_ok l'" "In_Listener a \<notin> Z \<Longrightarrow> li_table_ok l'"
  shows "tables Z (put_listener a l' W)"
  using assms unfolding tables_def by simp

lemma condvars_put_waitSet:
  assumes "condvars W" "nw_waitSets W a = Some w" "ws_conditionVariableDataPtr w' = ws_conditionVariableDataPtr w"
    "ws_capacity w' = ws_capacity w"
  shows "condvars (put_waitSet a w' W)"
proof -
  have "condvar_of (put_waitSet a w' W) = condvar_of W" "capacity_of (put_waitSet a w' W) = capacity_of W"
    using assms(2-4) by (simp_all add: fun_upd_idem)
  then show ?thesis using assms(1) unfolding condvars_def by simp
qed

lemma condvars_put_listener:
  assumes "condvars W" "nw_listeners W a = Some l" "li_conditionVariableData l' = li_conditionVariableData l"
  shows "condvars (put_listener a l' W)"
proof -
  have "condvar_of (put_listener a l' W) = condvar_of W"
    using assms(2,3) by (simp add: fun_upd_idem)
  then show ?thesis using assms(1) unfolding condvars_def by simp
qed

text \<open>A slot of a wait set is cleared.\<close>

lemma clear_waitSet_open:
  assumes "world_ok {o1} Z W" "nw_waitSets W a = Some w" "ws_occupant w i = Some o1"
    and w': "ws_triggerArray w' = (ws_triggerArray w)[i := None]" "ws_conditionVariableDataPtr w' = ws_conditionVariableDataPtr w"
      "ws_activeNotifications w' = ws_activeNotifications w" "In_WaitSet a \<notin> Z \<Longrightarrow> ws_table_ok w'"
  shows "world_ok {o1} Z (put_waitSet a w' W)" "ws_occupant w' = (ws_occupant w)(i := None)"
    "only_origin o2 W (put_waitSet a w' W)"
proof -
  note w = world_okD [OF assms(1)]
  have i: "i < ws_capacity w" using assms(3) by (simp add: ws_occupant_def split: if_splits)
  have t: "ws_array_ok w" "ws_active_ok w" using w(3) assms(2) unfolding tables_def by blast+
  have cap: "ws_capacity w' = ws_capacity w" using w'(1) by (simp add: ws_capacity_def)
  show occ: "ws_occupant w' = (ws_occupant w)(i := None)"
    using ws_occupant_update [OF i, of None] w'(1) by (simp add: ws_occupant_def ws_capacity_def fun_eq_iff)
  have "ws_array_ok w'" using ws_array_ok_update [OF t(1) i, of None] w'(1) cap by (simp add: ws_array_ok_def)
  moreover have "ws_active_ok w'" using t(2) w'(3) cap by (simp add: ws_active_ok_def)
  moreover have "queue_of W o2 \<noteq> None"
    if "j < ws_capacity w'" "ws_triggerArray w' ! j = Some t" "tr_triggerType t = STATE_BASED" "tr_resetCallback t = Some o2" for j t o2
  proof -
    have "j \<noteq> i" "ws_triggerArray w ! j = Some t" using that(1,2) w'(1) i by (auto simp: ws_capacity_def nth_list_update split: if_splits)
    then show ?thesis using w(3) assms(2) that(1,3,4) cap unfolding tables_def by auto
  qed
  ultimately have "tables Z (put_waitSet a w' W)" using w'(4) by (intro tables_waitSet [OF w(3) assms(2)])
  moreover have c: "condvar_of (put_waitSet a w' W) = condvar_of W" using assms(2) w'(2) by (simp add: fun_upd_idem)
  moreover have "links {o1} (put_waitSet a w' W)"
    by (rule links_clear [OF w(1), of "In_WaitSet a" i]) (use assms(2,3) occ c in simp_all)
  moreover have "ports {o1} (put_waitSet a w' W)" using w(2) by (rule ports_cong) simp_all
  moreover have "condvars (put_waitSet a w' W)" by (rule condvars_put_waitSet [OF w(4) assms(2) w'(2) cap])
  ultimately show "world_ok {o1} Z (put_waitSet a w' W)" by (simp add: world_ok_def)
  show "only_origin o2 W (put_waitSet a w' W)" using assms(2) cap c by (simp add: only_origin_def fun_upd_idem)
qed

lemma find_trigger_slot:
  assumes "\<forall>j<length xs. \<forall>t. xs ! j = Some t \<longrightarrow> tr_uniqueId t = f j" "\<And>j. j < length xs \<Longrightarrow> f j = f i \<Longrightarrow> j = i"
    "i < length xs" "xs ! i \<noteq> None"
  shows "find_trigger (f i) xs = Some i"
  using assms
proof (induction xs arbitrary: i f)
  case (Cons x xs)
  show ?case
  proof (cases i)
    case 0
    then show ?thesis using Cons.prems by (cases x) auto
  next
    case (Suc j)
    have "find_trigger ((\<lambda>k. f (Suc k)) j) xs = Some j"
    proof (rule Cons.IH)
      show "\<forall>k<length xs. \<forall>t. xs ! k = Some t \<longrightarrow> tr_uniqueId t = f (Suc k)" using Cons.prems(1) by fastforce
      show "k = j" if "k < length xs" "f (Suc k) = f (Suc j)" for k using Cons.prems(2) [of "Suc k"] that Suc by simp
    qed (use Cons.prems(3,4) Suc in simp_all)
    moreover have "tr_uniqueId t \<noteq> f i" if "x = Some t" for t
      using Cons.prems(1,2) that Suc by (metis Zero_not_Suc length_greater_0_conv list.distinct(1) nth_Cons_0)
    ultimately show ?thesis using Suc by (cases x) auto
  qed
qed simp

lemma WaitSet_removeTrigger_ok:
  assumes "world_ok {o1} Z W" "In_WaitSet a \<notin> Z" "slot W (In_WaitSet a) i = Some o1"
  obtains W' where "WaitSet_removeTrigger a (of_nat i) W = Inr W'" "world_ok {o1} Z W'"
    "slot W' = (slot W)(In_WaitSet a := (slot W (In_WaitSet a))(i := None))" "only_origin o1 W W'" "nw_origins W' = nw_origins W"
proof -
  obtain w where w: "nw_waitSets W a = Some w" "ws_occupant w i = Some o1" using assms(3) by (auto split: option.splits)
  have t: "ws_table_ok w" "ws_array_ok w" using world_okD(3) [OF assms(1)] w(1) assms(2) unfolding tables_def by blast+
  have i: "i < ws_capacity w" using w(2) by (simp add: ws_occupant_def split: if_splits)
  have le: "j \<le> MAX_NUMBER_OF_NOTIFIERS" if "j < ws_capacity w" for j using that t(2) by (simp add: ws_array_ok_def)
  have f: "find_trigger ((of_nat :: nat \<Rightarrow> u64) i) (ws_triggerArray w) = Some i"
  proof (rule find_trigger_slot)
    show "\<forall>j<length (ws_triggerArray w). \<forall>t. ws_triggerArray w ! j = Some t \<longrightarrow> tr_uniqueId t = of_nat j"
      using t(2) by (simp add: ws_array_ok_def trigger_ok_def ws_capacity_def)
    show "j = i" if "j < length (ws_triggerArray w)" "(of_nat j :: u64) = of_nat i" for j
      using that le of_nat_index_eq [of j i] i by (simp add: ws_capacity_def)
    show "ws_triggerArray w ! i \<noteq> None" using w(2) ws_occupant_trigger [OF t(2) i] by simp
  qed (use i in \<open>simp add: ws_capacity_def\<close>)
  obtain w' where w': "ws_clear i w = Inr w'" "ws_table_ok w'" using wst.clear_slot [OF t(1) w(2)] by blast
  then have e: "ws_triggerArray w' = (ws_triggerArray w)[i := None]" "ws_conditionVariableDataPtr w' = ws_conditionVariableDataPtr w"
      "ws_activeNotifications w' = ws_activeNotifications w"
    by (auto simp: ws_clear_def Expects_eq_Inr split: prod.splits)
  have r: "WaitSet_removeTrigger a (of_nat i) W = Inr (put_waitSet a w' W)"
    using w'(1) by (auto simp: WaitSet_removeTrigger_def w(1) f ws_clear_def Expects_eq_Inr split: prod.splits)
  note c = clear_waitSet_open [OF assms(1) w e w'(2)]
  show thesis by (rule that [OF r c(1)]) (use c w in simp_all)
qed

text \<open>An event of a listener is reset: the origin is told, then the slot is cleared.\<close>

lemma clear_listener_open:
  assumes "world_ok {o1} Z W" "nw_listeners W a = Some l" "li_occupant l i = Some o1"
    and l': "li_events l' = (li_events l)[i := Event_cleared (li_events l ! i)]"
      "li_conditionVariableData l' = li_conditionVariableData l" "In_Listener a \<notin> Z \<Longrightarrow> li_table_ok l'"
  shows "world_ok {o1} Z (put_listener a l' W)" "li_occupant l' = (li_occupant l)(i := None)"
    "only_origin o2 W (put_listener a l' W)"
proof -
  note w = world_okD [OF assms(1)]
  have i: "i < MAX_NUMBER_OF_EVENTS_PER_LISTENER" using assms(3) by (simp add: li_occupant_def split: if_splits)
  have t: "li_events_ok l" using w(3) assms(2) unfolding tables_def by blast
  show occ: "li_occupant l' = (li_occupant l)(i := None)"
  proof -
    have "li_occupant l' = li_occupant (l\<lparr> li_events := (li_events l)[i := Event_cleared (li_events l ! i)] \<rparr>)"
      using l'(1) by (simp add: li_occupant_def fun_eq_iff)
    then show ?thesis using li_occupant_update [OF t i, of "Event_cleared (li_events l ! i)"] by (simp add: Event_cleared_def)
  qed
  have "event_ok i (Event_cleared (li_events l ! i))" by (simp add: event_ok_def Event_cleared_def)
  then have "li_events_ok l'" using li_events_ok_update [OF t] l'(1) by (simp add: li_events_ok_def)
  then have "tables Z (put_listener a l' W)" by (rule tables_listener [OF w(3) assms(2) _ l'(3)])
  moreover have c: "condvar_of (put_listener a l' W) = condvar_of W" using assms(2) l'(2) by (simp add: fun_upd_idem)
  moreover have "links {o1} (put_listener a l' W)"
    by (rule links_clear [OF w(1), of "In_Listener a" i]) (use assms(2,3) occ c in simp_all)
  moreover have "ports {o1} (put_listener a l' W)" using w(2) by (rule ports_cong) simp_all
  moreover have "condvars (put_listener a l' W)" by (rule condvars_put_listener [OF w(4) assms(2) l'(2)])
  ultimately show "world_ok {o1} Z (put_listener a l' W)" by (simp add: world_ok_def)
  show "only_origin o2 W (put_listener a l' W)" using c by (simp add: only_origin_def)
qed

lemma only_origin_trans: "only_origin o1 W W1 \<Longrightarrow> only_origin o1 W1 W2 \<Longrightarrow> only_origin o1 W W2"
  by (simp add: only_origin_def)

lemma Event_reset_ok:
  assumes "world_ok {o1} Z W" "nw_listeners W a = Some l" "li_occupant l i = Some o1" "handle_of W o1 = Some h"
    "th_uniqueTriggerId h = of_nat i"
  obtains W1 where "Event_reset (li_events l ! i) W = Inr (True, Event_cleared (li_events l ! i), W1)" "world_ok {o1} Z W1"
    "only_origin o1 W W1" "nw_waitSets W1 = nw_waitSets W" "nw_listeners W1 = nw_listeners W"
    "handle_of W1 o1 = Some TriggerHandle_invalidated"
    "\<And>q. queue_of W o1 = Some q \<Longrightarrow> \<exists>cqd. ps_queues (nw_popo W1) q = Some cqd \<and> notifies cqd TriggerHandle_invalidated"
proof -
  let ?e = "li_events l ! i"
  have e: "event_ok i ?e" "ev_origin ?e = Some o1"
    using world_okD(3) [OF assms(1)] assms(2,3) unfolding tables_def li_events_ok_def
    by (auto simp: li_occupant_def split: if_splits)
  then have e2: "Event_isInitialized ?e" "ev_eventId ?e = of_nat i" "ev_invalidationCallback ?e = Some o1"
    by (auto simp: event_ok_def)
  obtain W1 where W1: "invalidateTrigger o1 (of_nat i) W = Inr W1" "world_ok {o1} Z W1" "only_origin o1 W W1"
    "nw_waitSets W1 = nw_waitSets W" "nw_listeners W1 = nw_listeners W" "handle_of W1 o1 = Some TriggerHandle_invalidated"
    "\<And>q. queue_of W o1 = Some q \<Longrightarrow> \<exists>cqd. ps_queues (nw_popo W1) q = Some cqd \<and> notifies cqd TriggerHandle_invalidated"
    by (rule invalidateTrigger_ok [OF assms(1,4,5)]) blast
  have "Event_reset ?e W = Inr (True, Event_cleared ?e, W1)" using e2 W1(1) by (simp add: Event_reset_def)
  then show thesis using W1(2-7) by (rule that)
qed

lemma Listener_removeTrigger_ok:
  assumes "world_ok {o1} Z W" "In_Listener a \<notin> Z" "slot W (In_Listener a) i = Some o1" "handle_of W o1 = Some h"
    "th_uniqueTriggerId h = of_nat i"
  obtains W' where "Listener_removeTrigger a (of_nat i) W = Inr W'" "world_ok {o1} Z W'"
    "slot W' = (slot W)(In_Listener a := (slot W (In_Listener a))(i := None))" "only_origin o1 W W'"
    "handle_of W' o1 = Some TriggerHandle_invalidated"
proof -
  obtain l where l: "nw_listeners W a = Some l" "li_occupant l i = Some o1" using assms(3) by (auto split: option.splits)
  have t: "li_table_ok l" using world_okD(3) [OF assms(1)] l(1) assms(2) unfolding tables_def by blast
  have i: "i < MAX_NUMBER_OF_EVENTS_PER_LISTENER" using l(2) by (simp add: li_occupant_def split: if_splits)
  obtain W1 where W1: "Event_reset (li_events l ! i) W = Inr (True, Event_cleared (li_events l ! i), W1)" "world_ok {o1} Z W1"
    "only_origin o1 W W1" "nw_waitSets W1 = nw_waitSets W" "nw_listeners W1 = nw_listeners W"
    "handle_of W1 o1 = Some TriggerHandle_invalidated"
    by (rule Event_reset_ok [OF assms(1) l assms(4,5)]) blast
  obtain l' where l': "li_clear i l = Inr l'" "li_table_ok l'" using lst.clear_slot [OF t l(2)] by blast
  then have e: "li_events l' = (li_events l)[i := Event_cleared (li_events l ! i)]" "li_conditionVariableData l' = li_conditionVariableData l"
    by (auto simp: li_clear_def IndexManager_push_def split: prod.splits)
  have u: "unat (of_nat i :: u64) = i" "(ucast (of_nat i :: u64) :: u32) = of_nat i"
    using events_le_notifiers [OF i] by (simp_all add: unat_index_u64 ucast_index)
  have r: "Listener_removeTrigger a (of_nat i) W = Inr (put_listener a l' W1)"
    using l'(1) i W1(1) by (simp add: Listener_removeTrigger_def l(1) u li_clear_def)
  have l1: "nw_listeners W1 a = Some l" using W1(5) l(1) by simp
  note c = clear_listener_open [OF W1(2) l1 l(2) e l'(2)]
  show thesis
    by (rule that [OF r c(1)]) (use c W1 l notifyables_eq [OF W1(4,5)] in \<open>simp_all add: only_origin_def\<close>)
qed

lemma call_resetCallback_ok:
  assumes "world_ok {o1} Z W" "n \<notin> Z" "slot W n i = Some o1" "handle_of W o1 = Some h" "th_uniqueTriggerId h = of_nat i"
  obtains W' where "call_resetCallback n (of_nat i) W = Inr W'" "world_ok {o1} Z W'"
    "slot W' = (slot W)(n := (slot W n)(i := None))" "only_origin o1 W W'" "handle_of W' o1 \<noteq> None"
proof (cases n)
  case (In_WaitSet a)
  then obtain W' where "WaitSet_removeTrigger a (of_nat i) W = Inr W'" "world_ok {o1} Z W'"
    "slot W' = (slot W)(n := (slot W n)(i := None))" "only_origin o1 W W'" "nw_origins W' = nw_origins W"
    using WaitSet_removeTrigger_ok [OF assms(1), of a i] assms(2,3) by metis
  then show thesis using In_WaitSet assms(4) handle_of_eq [of W' W] by (intro that [of W']) (simp_all add: call_resetCallback_def)
next
  case (In_Listener a)
  then obtain W' where "Listener_removeTrigger a (of_nat i) W = Inr W'" "world_ok {o1} Z W'"
    "slot W' = (slot W)(n := (slot W n)(i := None))" "only_origin o1 W W'" "handle_of W' o1 = Some TriggerHandle_invalidated"
    using Listener_removeTrigger_ok [OF assms(1), of a i h] assms(2-5) by metis
  then show thesis using In_Listener by (intro that [of W']) (simp_all add: call_resetCallback_def)
qed

text \<open>The handle is reset: its slot is cleared, and the slots the handle does not know remain.\<close>

lemma TriggerHandle_reset_ok:
  assumes "world_ok {o1} {} W" "handle_of W o1 = Some h" "handle_ok W o1 h S"
  obtains W' where "TriggerHandle_reset o1 W = Inr W'" "world_ok {o1} {} W'" "slots (slot W') o1 = S"
    "only_origin o1 W W'" "handle_of W' o1 = Some TriggerHandle_invalidated"
proof -
  obtain x where x: "nw_origins W o1 = Some x" "origin_handle x = h" using assms(2) by (auto simp: handle_of_origin)
  from assms(3) consider (inv) "h = TriggerHandle_invalidated" "slots (slot W) o1 = S"
    | (to) n i c where "h = handle_to n i c" "slots (slot W) o1 = insert (n, i) S" "(n, i) \<notin> S"
    unfolding handle_ok_def by blast
  then show thesis
  proof cases
    case inv
    then have "TriggerHandle_reset o1 W = Inr W"
      using x by (simp add: TriggerHandle_reset_def TriggerHandle_isValid_def TriggerHandle_invalidated_def Let_def)
    then show thesis using assms inv by (intro that [of W]) (simp_all add: only_origin_def)
  next
    case to
    then have s: "slot W n i = Some o1" by (auto simp: slots_def)
    have u: "th_uniqueTriggerId h = of_nat i" using to(1) by (simp add: handle_to_def)
    obtain W1 where W1: "call_resetCallback n (of_nat i) W = Inr W1" "world_ok {o1} {} W1"
        "slot W1 = (slot W)(n := (slot W n)(i := None))" "only_origin o1 W W1" "handle_of W1 o1 \<noteq> None"
      by (rule call_resetCallback_ok [OF assms(1) _ s assms(2) u]) simp_all
    let ?W = "put_handle o1 TriggerHandle_invalidated W1"
    have r: "TriggerHandle_reset o1 W = Inr ?W"
      using x to(1) W1(1) by (simp add: TriggerHandle_reset_def TriggerHandle_isValid_def handle_to_def Let_def)
    obtain y where y: "nw_origins W1 o1 = Some y" using W1(5) by (auto simp: handle_of_def)
    have "slots (slot ?W) o1 = S" using to(2,3) by (simp add: W1(3) attached_slots_clear)
    then show thesis
      by (intro that [OF r put_handle_open [OF W1(2)]]) (use W1(4) y in \<open>simp_all add: only_origin_def\<close>)
  qed
qed

lemma handle_ok_invalid: "handle_ok W o1 TriggerHandle_invalidated {} \<longleftrightarrow> slots (slot W) o1 = {}"
  by (auto simp: handle_ok_def handle_to_def TriggerHandle_invalidated_def)

subsection \<open>Detaching\<close>

lemma disableEvent_ok:
  assumes "world_ok {} {} W" "nw_origins W o1 = Some x"
  obtains W' where "disableEvent o1 W = Inr W'" "world_ok {} {} W'" "only_origin o1 W W'" "slots (slot W') o1 = {}"
proof -
  note op = world_ok_open [OF assms(1), of o1]
  have h: "handle_of W o1 = Some (origin_handle x)" by (simp add: handle_of_def assms(2))
  have "handle_ok W o1 (origin_handle x) {}" using linksD(2) [OF world_okD(1) [OF assms(1)] _ h] by simp
  then obtain W1 where W1: "TriggerHandle_reset o1 W = Inr W1" "world_ok {o1} {} W1" "slots (slot W1) o1 = {}"
    "only_origin o1 W W1" "handle_of W1 o1 = Some TriggerHandle_invalidated"
    by (rule TriggerHandle_reset_ok [OF op h]) blast
  show thesis
  proof (cases x)
    case (UserTrigger h1)
    then have "queue_of W1 o1 = None" using W1(4) assms(2) by (simp add: only_origin_def queue_of_def)
    then have "world_ok {} {} W1" using W1(3) by (intro world_ok_close [OF W1(2,5)]) (simp_all add: handle_ok_invalid)
    then show thesis using UserTrigger assms(2) W1
      by (intro that [of W1]) (simp_all add: disableEvent_def UserTrigger_disableEvent_def)
  next
    case (PortOrigin cls cap q h1)
    then have q: "queue_of W1 o1 = Some q" using W1(4) assms(2) by (simp add: only_origin_def queue_of_def)
    obtain W2 cqd where W2: "on_popo (unsetConditionVariable q) W1 = Inr W2" "world_ok {o1} {} W2"
        "nw_origins W2 = nw_origins W1" "nw_waitSets W2 = nw_waitSets W1" "nw_listeners W2 = nw_listeners W1"
        "ps_queues (nw_popo W2) q = Some cqd" "notifies cqd TriggerHandle_invalidated"
      by (rule unset_ok [OF W1(2) q])
    note eq = notifyables_eq [OF W2(4,5)] handle_of_eq [OF W2(3)] queue_of_eq [OF W2(3)]
    have "world_ok {} {} W2"
      by (rule world_ok_close [OF W2(2)]) (use eq W1 W2(6,7) q in \<open>simp_all add: handle_ok_invalid\<close>)
    then show thesis using PortOrigin assms(2) W1 W2 eq
      by (intro that [of W2]) (simp_all add: disableEvent_def Base_disable_def only_origin_def)
  qed
qed

text \<open>The destructor of an origin.\<close>

lemma remove_origin_ok:
  assumes "world_ok {o1} Z W" "slots (slot W) o1 = {}"
    "\<And>a w i t. nw_waitSets W a = Some w \<Longrightarrow> i < ws_capacity w \<Longrightarrow> ws_triggerArray w ! i = Some t \<Longrightarrow> tr_resetCallback t \<noteq> Some o1"
  shows "world_ok {} Z (W\<lparr> nw_origins := (nw_origins W)(o1 := None) \<rparr>)" (is "world_ok _ _ ?W")
proof -
  note w = world_okD [OF assms(1)]
  have n: "slot ?W = slot W" "condvar_of ?W = condvar_of W" "capacity_of ?W = capacity_of W"
    by (rule notifyables_eq; simp)+
  have h: "handle_of ?W = (handle_of W)(o1 := None)" by (simp add: handle_of_def fun_eq_iff)
  have q: "queue_of ?W = (queue_of W)(o1 := None)" by (simp add: queue_of_def fun_eq_iff)
  have "links {} ?W"
  proof (rule linksI)
    show "slots (slot ?W) o2 = {}" if "handle_of ?W o2 = None" for o2
      using that assms(2) linksD(1) [OF w(1), of o2] h n by (cases "o2 = o1") simp_all
    show "handle_ok ?W o2 h2 {}" if "handle_of ?W o2 = Some h2" for o2 h2
      using that linksD(2) [OF w(1), of o2 h2] h handle_ok_cong [of ?W o2 W] n by (cases "o2 = o1") simp_all
  qed
  moreover have "ports {} ?W"
  proof (rule portsI)
    show "\<exists>cqd. ps_queues (nw_popo ?W) q2 = Some cqd \<and> (o2 \<notin> {} \<longrightarrow> notifies cqd (the (handle_of ?W o2)))"
      if "queue_of ?W o2 = Some q2" for o2 q2
      using that portsD(1) [OF w(2), of o2 q2] by (cases "o2 = o1") (simp_all add: q h)
    show "o2 = o3" if "queue_of ?W o2 = Some q2" "queue_of ?W o3 = Some q2" for o2 o3 q2
      using portsD(2) [OF w(2), of o3 q2 o2] that by (simp add: q split: if_splits)
  qed
  moreover have "tables Z ?W"
  proof -
    have "queue_of ?W o2 \<noteq> None"
      if "nw_waitSets W a = Some v" "i < ws_capacity v" "ws_triggerArray v ! i = Some t" "tr_triggerType t = STATE_BASED"
        "tr_resetCallback t = Some o2" for a v i t o2
    proof -
      have "o2 \<noteq> o1" using assms(3) that by metis
      moreover have "queue_of W o2 \<noteq> None" using w(3) that unfolding tables_def by blast
      ultimately show ?thesis by (simp add: q)
    qed
    then show ?thesis using w(3) unfolding tables_def by simp
  qed
  moreover have "condvars ?W" using w(4) by (simp add: condvars_def n)
  ultimately show ?thesis by (simp add: world_ok_def)
qed

lemma origin_dtor_ok:
  assumes "world_ok {} {} W" "nw_origins W o1 = Some x"
  obtains W' where "origin_dtor o1 W = Inr W'" "world_ok {} {} W'"
proof -
  note op = world_ok_open [OF assms(1), of o1]
  have h: "handle_of W o1 = Some (origin_handle x)" by (simp add: handle_of_def assms(2))
  have "handle_ok W o1 (origin_handle x) {}" using linksD(2) [OF world_okD(1) [OF assms(1)] _ h] by simp
  then obtain W1 where W1: "TriggerHandle_reset o1 W = Inr W1" "world_ok {o1} {} W1" "slots (slot W1) o1 = {}"
    by (rule TriggerHandle_reset_ok [OF op h]) blast
  have "tr_resetCallback t \<noteq> Some o1"
    if "nw_waitSets W1 a = Some w" "i < ws_capacity w" "ws_triggerArray w ! i = Some t" for a w i t
  proof
    assume "tr_resetCallback t = Some o1"
    then have "slot W1 (In_WaitSet a) i = Some o1" using that by (simp add: ws_occupant_def)
    then have "(In_WaitSet a, i) \<in> slots (slot W1) o1" by (simp add: slots_def del: slot.simps)
    then show False using W1(3) by simp
  qed
  then have "world_ok {} {} (W1\<lparr> nw_origins := (nw_origins W1)(o1 := None) \<rparr>)" by (rule remove_origin_ok [OF W1(2,3)])
  then show thesis using W1(1) by (intro that) (simp_all add: origin_dtor_def)
qed

subsection \<open>Attaching\<close>

lemma set_condvar_ok:
  assumes "world_ok {o1} Z W" "queue_of W o1 = Some q" "condvar_of W n = Some c" "i < capacity_of W n" "i < MAX_NUMBER_OF_NOTIFIERS"
  obtains W' cqd where "on_popo (setConditionVariable c (of_nat i) q) W = Inr W'" "world_ok {o1} Z W'"
    "nw_origins W' = nw_origins W" "nw_waitSets W' = nw_waitSets W" "nw_listeners W' = nw_listeners W"
    "ps_queues (nw_popo W') q = Some cqd" "notifies cqd (handle_to n i c)"
proof -
  note w = world_okD [OF assms(1)]
  obtain cqd where q: "ps_queues (nw_popo W) q = Some cqd" using portsD(1) [OF w(2) assms(2)] by blast
  let ?cqd = "cqd\<lparr> cqd_conditionVariableDataPtr := Some c, cqd_conditionVariableNotificationIndex := Some (of_nat i) \<rparr>"
  let ?W = "W\<lparr> nw_popo := (nw_popo W)\<lparr> ps_queues := (ps_queues (nw_popo W))(q \<mapsto> ?cqd) \<rparr> \<rparr>"
  have u: "on_popo (setConditionVariable c (of_nat i) q) W = Inr ?W" by (simp add: on_popo_def setConditionVariable_def q)
  have c: "ps_condvars (nw_popo W) c \<noteq> None" "\<And>m. condvar_of W m = Some c \<Longrightarrow> m = n"
    using w(4) assms(3) unfolding condvars_def by blast+
  have r: "queue_refers W ?cqd" unfolding queue_refers_def
  proof (intro allI impI conjI)
    fix d assume "cqd_conditionVariableDataPtr ?cqd = Some d"
    then have d: "d = c" by simp
    show "ps_condvars (nw_popo W) d \<noteq> None" using c(1) d by simp
    show "\<exists>j<MAX_NUMBER_OF_NOTIFIERS. cqd_conditionVariableNotificationIndex ?cqd = Some (of_nat j) \<and>
        (\<forall>m. condvar_of W m = Some d \<longrightarrow> j < capacity_of W m)"
      using c(2) assms(4,5) d by (intro exI [of _ i]) auto
  qed
  have ok: "world_ok {o1} Z ?W" by (rule update_queue_open [OF assms(1,2) r])
  have "notifies ?cqd (handle_to n i c)" by (simp add: notifies_def handle_to_def TriggerHandle_isValid_def)
  then show thesis by (intro that [OF u ok]) simp_all
qed

text \<open>The origin takes the handle of the slot in which it is new.\<close>

lemma TriggerHandle_move_ok:
  assumes "world_ok {o1} {} W" "handle_of W o1 = Some h" "handle_ok W o1 h {(n, i)}" "condvar_of W n = Some c"
  obtains W' where "TriggerHandle_move o1 (handle_to n i c) W = Inr W'" "world_ok {o1} {} W'" "only_origin o1 W W'"
    "handle_of W' o1 = Some (handle_to n i c)" "handle_ok W' o1 (handle_to n i c) {}"
proof -
  obtain W1 where W1: "TriggerHandle_reset o1 W = Inr W1" "world_ok {o1} {} W1" "slots (slot W1) o1 = {(n, i)}"
    "only_origin o1 W W1" "handle_of W1 o1 = Some TriggerHandle_invalidated"
    by (rule TriggerHandle_reset_ok [OF assms(1-3)])
  let ?W = "put_handle o1 (handle_to n i c) W1"
  obtain y where y: "nw_origins W1 o1 = Some y" using W1(5) by (auto simp: handle_of_def)
  have "condvar_of ?W n = Some c" using W1(4) assms(4) by (simp add: only_origin_def)
  then have "handle_ok ?W o1 (handle_to n i c) {}" using W1(3) unfolding handle_ok_def by auto
  then show thesis
    using W1 y by (intro that [of ?W] put_handle_open) (simp_all add: TriggerHandle_move_def only_origin_def)
qed

lemma Base_enable_ok:
  assumes "world_ok {o1} {} W" "handle_of W o1 = Some h" "handle_ok W o1 h {(n, i)}" "condvar_of W n = Some c"
    "queue_of W o1 = Some q" "i < capacity_of W n" "i < MAX_NUMBER_OF_NOTIFIERS"
  obtains W' where "Base_enable e o1 q h2 (handle_to n i c) W = Inr W'" "world_ok {} {} W'" "handle_of W' o1 = Some (handle_to n i c)"
proof -
  obtain W1 where W1: "TriggerHandle_move o1 (handle_to n i c) W = Inr W1" "world_ok {o1} {} W1" "only_origin o1 W W1"
    "handle_of W1 o1 = Some (handle_to n i c)" "handle_ok W1 o1 (handle_to n i c) {}"
    by (rule TriggerHandle_move_ok [OF assms(1-4)])
  have q: "queue_of W1 o1 = Some q" "condvar_of W1 n = Some c" "i < capacity_of W1 n"
    using W1(3) assms(4-6) by (simp_all add: only_origin_def)
  obtain W2 cqd where W2: "on_popo (setConditionVariable c (of_nat i) q) W1 = Inr W2" "world_ok {o1} {} W2"
    "nw_origins W2 = nw_origins W1" "nw_waitSets W2 = nw_waitSets W1" "nw_listeners W2 = nw_listeners W1"
    "ps_queues (nw_popo W2) q = Some cqd" "notifies cqd (handle_to n i c)"
    by (rule set_condvar_ok [OF W1(2) q assms(7)])
  note eq = notifyables_eq [OF W2(4,5)] handle_of_eq [OF W2(3)] queue_of_eq [OF W2(3)]
  have "world_ok {} {} W2"
    by (rule world_ok_close [OF W2(2)]) (use eq W1(4,5) W2(6,7) q handle_ok_cong [of W2 o1 W1] in simp_all)
  moreover have "Base_enable e o1 q h2 (handle_to n i c) W = Inr W2"
    using W1(1) W2(1) by (simp add: Base_enable_def Let_def handle_to_def)
  moreover have "handle_of W2 o1 = Some (handle_to n i c)" using W1(4) eq by simp
  ultimately show thesis by (intro that)
qed

lemmas enable_defs = enableEvent_def enableState_def BaseSubscriber_enableState_def BaseSubscriber_enableEvent_def
  BaseClient_enableState_def BaseClient_enableEvent_def BaseServer_enableState_def BaseServer_enableEvent_def

lemma enable_ok:
  assumes "world_ok {o1} {} W" "handle_of W o1 = Some h" "handle_ok W o1 h {(n, i)}" "condvar_of W n = Some c"
    "i < capacity_of W n" "i < MAX_NUMBER_OF_NOTIFIERS"
  shows "\<exists>W'. enableEvent o1 (handle_to n i c) W = Inr W' \<and> world_ok {} {} W' \<and> handle_of W' o1 = Some (handle_to n i c)"
    "queue_of W o1 \<noteq> None \<Longrightarrow> \<exists>W'. enableState o1 (handle_to n i c) W = Inr W' \<and> world_ok {} {} W' \<and> handle_of W' o1 = Some (handle_to n i c)"
proof -
  obtain x where x: "nw_origins W o1 = Some x" using assms(2) by (auto simp: handle_of_def)
  have b: "\<exists>W'. Base_enable e o1 q h2 (handle_to n i c) W = Inr W' \<and> world_ok {} {} W' \<and> handle_of W' o1 = Some (handle_to n i c)"
    if "queue_of W o1 = Some q" for e q h2
    using Base_enable_ok [OF assms(1-4) that assms(5,6)] by metis
  show "\<exists>W'. enableEvent o1 (handle_to n i c) W = Inr W' \<and> world_ok {} {} W' \<and> handle_of W' o1 = Some (handle_to n i c)"
  proof (cases x)
    case (UserTrigger h1)
    obtain W1 where W1: "TriggerHandle_move o1 (handle_to n i c) W = Inr W1" "world_ok {o1} {} W1" "only_origin o1 W W1"
      "handle_of W1 o1 = Some (handle_to n i c)" "handle_ok W1 o1 (handle_to n i c) {}"
      by (rule TriggerHandle_move_ok [OF assms(1-4)])
    have "queue_of W1 o1 = None" using W1(3) x UserTrigger by (simp add: only_origin_def queue_of_def)
    then have "world_ok {} {} W1" by (intro world_ok_close [OF W1(2,4,5)]) simp
    then show ?thesis using x UserTrigger W1 by (auto simp: enableEvent_def UserTrigger_enableEvent_def)
  next
    case (PortOrigin cls cap q h1)
    then show ?thesis using x b [of q] by (cases cls) (simp_all add: enable_defs queue_of_def)
  qed
  show "\<exists>W'. enableState o1 (handle_to n i c) W = Inr W' \<and> world_ok {} {} W' \<and> handle_of W' o1 = Some (handle_to n i c)" if "queue_of W o1 \<noteq> None"
  proof (cases x)
    case (UserTrigger h1)
    then show ?thesis using that x by (simp add: queue_of_def)
  next
    case (PortOrigin cls cap q h1)
    then show ?thesis using x b [of q] by (cases cls) (simp_all add: enable_defs queue_of_def)
  qed
qed

text \<open>A slot that is free is given to an origin.\<close>

lemma occupy_open:
  assumes "world_ok {} Z W" "slot W n i = None" "slot W' = (slot W)(n := (slot W n)(i := Some o1))"
    "condvar_of W' = condvar_of W" "capacity_of W' = capacity_of W" "nw_origins W' = nw_origins W" "nw_popo W' = nw_popo W"
    "tables Z W'" "handle_of W o1 = Some h"
  shows "world_ok {o1} Z W'" "handle_ok W' o1 h {(n, i)}"
proof -
  note w = world_okD [OF assms(1)]
  note eq = handle_of_eq [OF assms(6)] queue_of_eq [OF assms(6)]
  have "links {o1} W'"
  proof (rule links_cong)
    show "links {o1} W" using world_okD(1) [OF world_ok_open [OF assms(1)]] .
    show "slots (slot W') o2 = slots (slot W) o2" if "o2 \<notin> {o1}" for o2
      using that assms(2) by (simp add: assms(3) slots_set)
  qed (simp_all add: assms eq)
  moreover have "ports {o1} W'"
    using world_okD(2) [OF world_ok_open [OF assms(1)]] by (rule ports_cong) (simp_all add: assms eq)
  moreover have "condvars W'" using w(4) unfolding condvars_def by (simp add: assms)
  ultimately show "world_ok {o1} Z W'" using assms(8) by (simp add: world_ok_def)
  have h: "handle_ok W o1 h {}" using linksD(2) [OF w(1) _ assms(9)] by simp
  have s: "slots (slot W') o1 = insert (n, i) (slots (slot W) o1)" "(n, i) \<notin> slots (slot W) o1"
    using assms(2) by (simp_all add: assms(3) slots_set) (simp add: slots_def)
  show "handle_ok W' o1 h {(n, i)}"
  proof (cases "h = TriggerHandle_invalidated \<and> slots (slot W) o1 = {}")
    case True
    then show ?thesis using s(1) by (simp add: handle_ok_def)
  next
    case False
    then obtain m j c where m: "h = handle_to m j c" "slots (slot W) o1 = {(m, j)}" "condvar_of W m = Some c"
      using h unfolding handle_ok_def by blast
    then have "slots (slot W') o1 = insert (m, j) {(n, i)}" "(m, j) \<notin> {(n, i)}" using s by (auto simp: insert_commute)
    then show ?thesis using m(1,3) assms(4) unfolding handle_ok_def by metis
  qed
qed

text \<open>The index that a wait set hands out is free, and the trigger is put there.\<close>

lemma WaitSet_attachImpl_ok:
  assumes "world_ok {} {} W" "nw_waitSets W a = Some w" "nw_origins W o1 = Some x" "hasTriggered = None \<or> hasTriggered = Some o1"
    "hasTriggered \<noteq> None \<Longrightarrow> queue_of W o1 \<noteq> None"
  obtains e where "WaitSet_attachImpl a o1 hasTriggered eventId cb ty tyHash typeHash W = Inr (Inl e, W)"
  | i W1 where "WaitSet_attachImpl a o1 hasTriggered eventId cb ty tyHash typeHash W = Inr (Inr (of_nat i), W1)"
      "world_ok {o1} {} W1" "handle_ok W1 o1 (origin_handle x) {(In_WaitSet a, i)}" "i < ws_capacity w"
      "condvar_of W1 = condvar_of W" "capacity_of W1 = capacity_of W" "nw_origins W1 = nw_origins W"
proof (cases "list_ex (\<lambda>x. case x of None \<Rightarrow> False | Some t \<Rightarrow> isLogicalEqualTo o1 ty tyHash t) (ws_triggerArray w)")
  case True
  then show thesis using assms(2) by (intro that(1) [of ALREADY_ATTACHED]) (simp add: WaitSet_attachImpl_def)
next
  case False
  note w = world_okD [OF assms(1)]
  have t: "ws_table_ok w" "ws_array_ok w" "ws_active_ok w" using w(3) assms(2) unfolding tables_def by blast+
  show thesis
  proof (cases "ws_indexRepository w")
    case Nil
    then show thesis using False assms(2) by (intro that(1) [of WAIT_SET_FULL]) (simp add: WaitSet_attachImpl_def stack_pop_def)
  next
    case (Cons k rep)
    define i where "i = unat k"
    have f: "ws_free w = i # map unat rep" by (simp add: ws_free_def Cons i_def)
    have i: "i < ws_capacity w" "ws_occupant w i = None" "i \<notin> set (map unat rep)" "k = of_nat i"
      using wst.free_slots [OF t(1)] wst.free_distinct [OF t(1)] by (auto simp: f i_def)
    define t1 where "t1 = \<lparr> tr_notificationInfo = NotificationInfo_ctor o1 eventId cb typeHash, tr_hasTriggeredCallback = hasTriggered,
      tr_resetCallback = Some o1, tr_uniqueId = k, tr_triggerType = (if hasTriggered = None then EVENT_BASED else STATE_BASED),
      tr_originTriggerType = ty, tr_originTriggerTypeHash = tyHash \<rparr>"
    let ?w = "w\<lparr> ws_triggerArray := (ws_triggerArray w)[i := Some t1], ws_indexRepository := rep \<rparr>"
    have "WaitSet_attachImpl a o1 hasTriggered eventId cb ty tyHash typeHash W = Inr (Inr k, put_waitSet a ?w W)"
      using False assms(2) i(1) Cons
      by (auto simp: WaitSet_attachImpl_def stack_pop_def Trigger_ctor_state_def Trigger_ctor_event_def Trigger_ctor_def Let_def
        t1_def i_def [symmetric] ws_capacity_def)
    then have a: "WaitSet_attachImpl a o1 hasTriggered eventId cb ty tyHash typeHash W = Inr (Inr (of_nat i), put_waitSet a ?w W)"
      using i(4) by simp
    have tr: "trigger_ok i t1" using assms(4) i(4) by (auto simp: trigger_ok_def t1_def NotificationInfo_ctor_def)
    have occ: "ws_occupant ?w = (ws_occupant w)(i := Some o1)" using ws_occupant_update [OF i(1), of "Some t1"] by (simp add: t1_def)
    have ar: "ws_array_ok ?w" using ws_array_ok_update [OF t(2) i(1), of "Some t1"] tr by (simp add: ws_array_ok_def)
    have fs: "set (map unat rep) = {j. j < ws_capacity w \<and> ws_occupant w j = None} - {i}" "distinct (map unat rep)"
      using wst.free_slots [OF t(1)] wst.free_distinct [OF t(1)] i(3) unfolding f by auto
    have "ws_table_ok ?w" unfolding ws_table_ok_def occ
      using ar fs by (auto simp: ws_free_def)
    moreover have "ws_active_ok ?w" using t(3) by (simp add: ws_active_ok_def)
    moreover have "queue_of W o2 \<noteq> None"
      if "j < ws_capacity ?w" "ws_triggerArray ?w ! j = Some t2" "tr_triggerType t2 = STATE_BASED" "tr_resetCallback t2 = Some o2" for j t2 o2
    proof (cases "j = i")
      case True
      then show ?thesis using that assms(5) i(1) by (auto simp: t1_def ws_capacity_def split: if_splits)
    next
      case False
      then show ?thesis using that w(3) assms(2) unfolding tables_def by auto
    qed
    ultimately have "tables {} (put_waitSet a ?w W)" using ar by (intro tables_waitSet [OF w(3) assms(2)])
    moreover have h: "handle_of W o1 = Some (origin_handle x)" by (simp add: handle_of_def assms(3))
    ultimately have "world_ok {o1} {} (put_waitSet a ?w W)" "handle_ok (put_waitSet a ?w W) o1 (origin_handle x) {(In_WaitSet a, i)}"
      using occ i(2) assms(2) by (intro occupy_open [OF assms(1), of "In_WaitSet a" i]; simp add: fun_upd_idem)+
    then show thesis using i(1) assms(2) by (intro that(2) [OF a]) (simp_all add: fun_upd_idem)
  qed
qed

lemma TriggerHandle_ctor_to: "TriggerHandle_ctor c (Some n) (of_nat i) = Inr (handle_to n i c)"
  by (simp add: TriggerHandle_ctor_def handle_to_def Let_def)

text \<open>\<open>attachEvent\<close> and \<open>attachState\<close> of a wait set.\<close>

lemma WaitSet_attach_ok:
  assumes "world_ok {} {} W" "nw_waitSets W a = Some w" "nw_origins W o1 = Some x"
  shows "\<exists>r W'. WaitSet_attachEvent a o1 ty tyHash k cb typeHash W = Inr (r, W') \<and> world_ok {} {} W' \<and>
      (r = None \<longrightarrow> (\<exists>i c. handle_of W' o1 = Some (handle_to (In_WaitSet a) i c)))"
    "queue_of W o1 \<noteq> None \<Longrightarrow> \<exists>r W'. WaitSet_attachState a o1 ty tyHash k cb typeHash W = Inr (r, W') \<and> world_ok {} {} W' \<and>
      (r = None \<longrightarrow> (\<exists>i c. handle_of W' o1 = Some (handle_to (In_WaitSet a) i c)))"
proof -
  have cap: "i < MAX_NUMBER_OF_NOTIFIERS" if "i < ws_capacity w" for i
    using that world_okD(3) [OF assms(1)] assms(2) unfolding tables_def ws_array_ok_def by fastforce
  have h: "handle_of W o1 = Some (origin_handle x)" by (simp add: handle_of_def assms(3))
  show "\<exists>r W'. WaitSet_attachEvent a o1 ty tyHash k cb typeHash W = Inr (r, W') \<and> world_ok {} {} W' \<and>
      (r = None \<longrightarrow> (\<exists>i c. handle_of W' o1 = Some (handle_to (In_WaitSet a) i c)))"
  proof (rule WaitSet_attachImpl_ok [OF assms, of None k cb ty tyHash typeHash], simp, simp)
    fix e assume "WaitSet_attachImpl a o1 None k cb ty tyHash typeHash W = Inr (Inl e, W)"
    then show ?thesis using assms by (simp add: WaitSet_attachEvent_def enable_attached_def)
  next
    fix i W1 assume W1: "WaitSet_attachImpl a o1 None k cb ty tyHash typeHash W = Inr (Inr (of_nat i), W1)"
      "world_ok {o1} {} W1" "handle_ok W1 o1 (origin_handle x) {(In_WaitSet a, i)}" "i < ws_capacity w"
      "condvar_of W1 = condvar_of W" "capacity_of W1 = capacity_of W" "nw_origins W1 = nw_origins W"
    have "\<exists>W'. enableEvent o1 (handle_to (In_WaitSet a) i (ws_conditionVariableDataPtr w)) W1 = Inr W' \<and> world_ok {} {} W' \<and>
        handle_of W' o1 = Some (handle_to (In_WaitSet a) i (ws_conditionVariableDataPtr w))"
      by (rule enable_ok(1) [OF W1(2) _ W1(3)]) (use W1 h assms(2) cap handle_of_eq [OF W1(7)] in simp_all)
    then show ?thesis using W1(1) assms(2) by (auto simp: WaitSet_attachEvent_def enable_attached_def TriggerHandle_ctor_to)
  qed
  show "\<exists>r W'. WaitSet_attachState a o1 ty tyHash k cb typeHash W = Inr (r, W') \<and> world_ok {} {} W' \<and>
      (r = None \<longrightarrow> (\<exists>i c. handle_of W' o1 = Some (handle_to (In_WaitSet a) i c)))" if q: "queue_of W o1 \<noteq> None"
  proof (rule WaitSet_attachImpl_ok [OF assms, of "Some o1" k cb ty tyHash typeHash], simp, simp add: q)
    fix e assume "WaitSet_attachImpl a o1 (Some o1) k cb ty tyHash typeHash W = Inr (Inl e, W)"
    then show ?thesis using assms by (simp add: WaitSet_attachState_def enable_attached_def)
  next
    fix i W1 assume W1: "WaitSet_attachImpl a o1 (Some o1) k cb ty tyHash typeHash W = Inr (Inr (of_nat i), W1)"
      "world_ok {o1} {} W1" "handle_ok W1 o1 (origin_handle x) {(In_WaitSet a, i)}" "i < ws_capacity w"
      "condvar_of W1 = condvar_of W" "capacity_of W1 = capacity_of W" "nw_origins W1 = nw_origins W"
    have "\<exists>W'. enableState o1 (handle_to (In_WaitSet a) i (ws_conditionVariableDataPtr w)) W1 = Inr W' \<and> world_ok {} {} W' \<and>
        handle_of W' o1 = Some (handle_to (In_WaitSet a) i (ws_conditionVariableDataPtr w))"
      by (rule enable_ok(2) [OF W1(2) _ W1(3)]) (use W1 h q assms(2) cap handle_of_eq [OF W1(7)] queue_of_eq [OF W1(7)] in simp_all)
    then show ?thesis using W1(1) assms(2) by (auto simp: WaitSet_attachState_def enable_attached_def TriggerHandle_ctor_to)
  qed
qed

lemma li_occupant_events: "li_events l' = li_events l \<Longrightarrow> li_occupant l' = li_occupant l"
  by (simp add: li_occupant_def fun_eq_iff)

lemma Listener_addEvent_ok:
  assumes "world_ok {} {} W" "nw_listeners W a = Some l" "nw_origins W o1 = Some x" "ty \<noteq> INVALID_TRIGGER_ID" "tyHash \<noteq> INVALID_TRIGGER_ID"
  obtains e W1 where "Listener_addEvent a o1 ud ty tyHash f (Some o1) W = Inr (Inl e, W1)" "world_ok {} {} W1"
  | i W1 where "Listener_addEvent a o1 ud ty tyHash f (Some o1) W = Inr (Inr (of_nat i), W1)"
      "world_ok {o1} {} W1" "handle_ok W1 o1 (origin_handle x) {(In_Listener a, i)}" "i < MAX_NUMBER_OF_EVENTS_PER_LISTENER"
      "condvar_of W1 = condvar_of W" "capacity_of W1 = capacity_of W" "nw_origins W1 = nw_origins W"
proof (cases "list_ex (Event_isEqualTo o1 ty tyHash) (li_events l)")
  case True
  then show thesis using assms(1,2) by (intro that(1) [of EVENT_ALREADY_ATTACHED W]) (simp_all add: Listener_addEvent_def)
next
  case False
  note w = world_okD [OF assms(1)]
  have t: "li_table_ok l" using w(3) assms(2) unfolding tables_def by blast
  have t2: "li_events_ok l" "loffli_inv (li_loffli l)" "unat (m_size (li_loffli l)) = MAX_NUMBER_OF_EVENTS_PER_LISTENER"
    "li_indicesInUse l = of_nat MAX_NUMBER_OF_EVENTS_PER_LISTENER - of_nat (length (li_free l))"
    using t by (simp_all only: li_table_ok_def)
  show thesis
  proof (cases "free_indices (li_loffli l)")
    case Nil
    then have "IndexManager_pop l = (None, l)" using loffli.pop_none [OF t2(2)] by (simp add: IndexManager_pop_def)
    then have a: "Listener_addEvent a o1 ud ty tyHash f (Some o1) W = Inr (Inl LISTENER_FULL, put_listener a l W)"
      using False assms(2) by (simp add: Listener_addEvent_def)
    have "put_listener a l W = W" using assms(2) by (simp add: put_listener_def fun_upd_idem)
    then show thesis using a assms(1) by (intro that(1)) simp_all
  next
    case (Cons k rest)
    define i where "i = unat k"
    obtain g where g: "LoFFLi_pop (li_loffli l) = (Some k, g)" "loffli_inv g" "free_indices g = rest" "m_size g = m_size (li_loffli l)"
      using loffli.pop_some [OF t2(2) Cons] by blast
    have fr: "li_free l = i # map unat rest" by (simp add: li_free_def Cons i_def)
    have i: "i < MAX_NUMBER_OF_EVENTS_PER_LISTENER" "li_occupant l i = None" "i \<notin> set (map unat rest)"
      using lst.free_slots [OF t] lst.free_distinct [OF t] unfolding fr by auto
    have k: "k = of_nat i" "(ucast k :: u64) = of_nat i" by (simp_all add: i_def)
    let ?e = "snd (Event_init (ucast k) o1 ud ty tyHash f (Some o1) (li_events l ! i))"
    let ?l = "l\<lparr> li_loffli := g, li_indicesInUse := li_indicesInUse l + 1, li_events := (li_events l)[i := ?e] \<rparr>"
    have a: "Listener_addEvent a o1 ud ty tyHash f (Some o1) W = Inr (Inr (of_nat i), put_listener a ?l W)"
      using False assms(2) g(1) k(2)
      by (simp add: Listener_addEvent_def IndexManager_pop_def Event_init_def i_def [symmetric])
    have e: "event_ok i ?e" "ev_origin ?e = Some o1"
      using of_nat_index_valid [OF events_le_notifiers [OF i(1)]] assms(4,5) k(2)
      by (auto simp: event_ok_def Event_init_def Event_isInitialized_def)
    have ev: "li_events_ok ?l" using li_events_ok_update [OF t2(1) e(1)] by (simp add: li_events_ok_def)
    have occ: "li_occupant ?l = (li_occupant l)(i := Some o1)"
      using li_occupant_update [OF t2(1) i(1), of ?e] e(2) li_occupant_events [of ?l "l\<lparr> li_events := (li_events l)[i := ?e] \<rparr>"]
      by simp
    have fs: "set (map unat rest) = {j. j < MAX_NUMBER_OF_EVENTS_PER_LISTENER \<and> li_occupant l j = None} - {i}"
      using lst.free_slots [OF t] i(3) unfolding fr by auto
    have fr2: "li_free ?l = map unat rest" by (simp add: li_free_def g(3))
    have "li_indicesInUse l + 1 = of_nat MAX_NUMBER_OF_EVENTS_PER_LISTENER - of_nat (length (map unat rest))"
      by (simp add: t2(4) fr)
    moreover have "set (li_free ?l) = {j. j < MAX_NUMBER_OF_EVENTS_PER_LISTENER \<and> li_occupant ?l j = None}"
      unfolding fr2 fs occ by auto
    ultimately have "li_table_ok ?l" unfolding li_table_ok_def using ev g t2(3) fr2 by simp
    then have "tables {} (put_listener a ?l W)" by (intro tables_listener [OF w(3) assms(2) ev])
    moreover have h: "handle_of W o1 = Some (origin_handle x)" by (simp add: handle_of_def assms(3))
    ultimately have "world_ok {o1} {} (put_listener a ?l W)" "handle_ok (put_listener a ?l W) o1 (origin_handle x) {(In_Listener a, i)}"
      using occ i(2) assms(2) by (intro occupy_open [OF assms(1), of "In_Listener a" i]; simp add: fun_upd_idem)+
    then show thesis using i(1) assms(2) by (intro that(2) [OF a]) (simp_all add: fun_upd_idem)
  qed
qed

lemma Listener_attachEvent_ok:
  assumes "world_ok {} {} W" "nw_listeners W a = Some l" "nw_origins W o1 = Some x" "ty \<noteq> INVALID_TRIGGER_ID" "tyHash \<noteq> INVALID_TRIGGER_ID"
  shows "\<exists>r W'. Listener_attachEvent a o1 ty tyHash cb W = Inr (r, W') \<and> world_ok {} {} W' \<and>
      (r = None \<longrightarrow> (\<exists>i c. handle_of W' o1 = Some (handle_to (In_Listener a) i c)))"
proof (cases "ncb_callback cb")
  case None
  then show ?thesis using assms(1) by (simp add: Listener_attachEvent_def)
next
  case (Some f)
  have h: "handle_of W o1 = Some (origin_handle x)" by (simp add: handle_of_def assms(3))
  show ?thesis
  proof (rule Listener_addEvent_ok [OF assms, of "ncb_contextData cb" f])
    fix e W1 assume "Listener_addEvent a o1 (ncb_contextData cb) ty tyHash f (Some o1) W = Inr (Inl e, W1)" "world_ok {} {} W1"
    then show ?thesis using assms(2) Some by (simp add: Listener_attachEvent_def enable_attached_def)
  next
    fix i W1 assume W1: "Listener_addEvent a o1 (ncb_contextData cb) ty tyHash f (Some o1) W = Inr (Inr (of_nat i), W1)"
      "world_ok {o1} {} W1" "handle_ok W1 o1 (origin_handle x) {(In_Listener a, i)}" "i < MAX_NUMBER_OF_EVENTS_PER_LISTENER"
      "condvar_of W1 = condvar_of W" "capacity_of W1 = capacity_of W" "nw_origins W1 = nw_origins W"
    have "\<exists>W'. enableEvent o1 (handle_to (In_Listener a) i (li_conditionVariableData l)) W1 = Inr W' \<and> world_ok {} {} W' \<and>
        handle_of W' o1 = Some (handle_to (In_Listener a) i (li_conditionVariableData l))"
      by (rule enable_ok(1) [OF W1(2) _ W1(3)])
        (use W1 h assms(2) handle_of_eq [OF W1(7)] in \<open>simp_all add: MAX_NUMBER_OF_EVENTS_PER_LISTENER_def\<close>)
    then show ?thesis using W1(1) assms(2) Some by (auto simp: Listener_attachEvent_def enable_attached_def TriggerHandle_ctor_to)
  qed
qed

subsection \<open>The destruction of a wait set and of a listener\<close>

lemma removeAllTriggers_step:
  assumes "world_ok {} {In_WaitSet a} W" "nw_waitSets W a = Some w" "i < ws_capacity w" "ws_triggerArray w ! i = Some t"
  obtains W1 where "Trigger_reset t W = Inr (Trigger_invalidate t, W1)"
    "world_ok {} {In_WaitSet a} (put_waitSet a (w\<lparr> ws_triggerArray := (ws_triggerArray w)[i := None] \<rparr>) W1)"
    "nw_listeners W1 = nw_listeners W" "nw_waitSets W1 = nw_waitSets W"
proof -
  note w = world_okD [OF assms(1)]
  have ar: "ws_array_ok w" using w(3) assms(2) unfolding tables_def by blast
  then have t: "trigger_ok i t" "i \<le> MAX_NUMBER_OF_NOTIFIERS" using assms(3,4) by (simp_all add: ws_array_ok_def)
  then obtain o1 where o1: "tr_resetCallback t = Some o1" "tr_uniqueId t = of_nat i" by (auto simp: trigger_ok_def)
  have occ: "ws_occupant w i = Some o1" using assms(3,4) o1 by (simp add: ws_occupant_def)
  then have s: "(In_WaitSet a, i) \<in> slots (slot W) o1" using assms(2) by (simp add: slots_def)
  then obtain h where h: "handle_of W o1 = Some h" "handle_ok W o1 h {}"
    using linksD [OF w(1), of o1] by (cases "handle_of W o1") auto
  then obtain n j c where "h = handle_to n j c" "slots (slot W) o1 = {(n, j)}"
    using s unfolding handle_ok_def by blast
  then have hc: "h = handle_to (In_WaitSet a) i c" "slots (slot W) o1 = {(In_WaitSet a, i)}" using s by simp_all
  then have u: "th_uniqueTriggerId h = of_nat i" by (simp add: handle_to_def)
  obtain W1 where W1: "invalidateTrigger o1 (of_nat i) W = Inr W1" "world_ok {o1} {In_WaitSet a} W1" "only_origin o1 W W1"
    "nw_waitSets W1 = nw_waitSets W" "nw_listeners W1 = nw_listeners W" "handle_of W1 o1 = Some TriggerHandle_invalidated"
    "\<And>q. queue_of W o1 = Some q \<Longrightarrow> \<exists>cqd. ps_queues (nw_popo W1) q = Some cqd \<and> notifies cqd TriggerHandle_invalidated"
    by (rule invalidateTrigger_ok [OF world_ok_open [OF assms(1)] h(1) u]) blast
  let ?w = "w\<lparr> ws_triggerArray := (ws_triggerArray w)[i := None] \<rparr>" and ?W = "put_waitSet a (w\<lparr> ws_triggerArray := (ws_triggerArray w)[i := None] \<rparr>) W1"
  have wa: "nw_waitSets W1 a = Some w" using W1(4) assms(2) by simp
  have c: "world_ok {o1} {In_WaitSet a} ?W" "ws_occupant ?w = (ws_occupant w)(i := None)"
    by (rule clear_waitSet_open [OF W1(2) wa occ]; simp)+
  have "slot ?W = (slot W)(In_WaitSet a := (slot W (In_WaitSet a))(i := None))"
    using c(2) assms(2) notifyables_eq(1) [OF W1(4,5)] by simp
  then have "slots (slot ?W) o1 = {}" using hc(2) by (simp only: attached_slots_clear) simp
  moreover have "queue_of ?W = queue_of W" using W1(3) by (simp add: only_origin_def)
  ultimately have "world_ok {} {In_WaitSet a} ?W"
    using W1(6,7) by (intro world_ok_close [OF c(1)]) (simp_all add: handle_ok_invalid)
  moreover have "Trigger_reset t W = Inr (Trigger_invalidate t, W1)"
    using o1 W1(1) of_nat_index_valid [OF t(2)] by (simp add: Trigger_reset_def Trigger_isValid_def)
  ultimately show thesis using W1(4,5) by (intro that)
qed

end
