(* ===== verification/Notification_Lifecycle.thy ===== *)
theory Notification_Lifecycle
  imports Notification_Links
begin

section \<open>Destruction and notification\<close>

text \<open>
  The destructors of wait sets and listeners, the notifications by user triggers and by the queues
  of the ports keep the invariant \<open>world_ok\<close> of the notification objects.
\<close>

lemma condvarsD:
  assumes "condvars W"
  shows "condvar_of W n = Some c \<Longrightarrow>
      \<exists>cv. ps_condvars (nw_popo W) c = Some cv \<and> cv_ok cv \<and> (\<forall>i\<in>set (active_indices cv). i < capacity_of W n)"
    "condvar_of W n = Some c \<Longrightarrow> condvar_of W m = Some c \<Longrightarrow> m = n"
    "ps_queues (nw_popo W) q = Some cqd \<Longrightarrow> queue_refers W cqd"
  using assms unfolding condvars_def queue_refers_def by blast+

lemma condvarsI:
  assumes "\<And>n c. condvar_of W n = Some c \<Longrightarrow>
      \<exists>cv. ps_condvars (nw_popo W) c = Some cv \<and> cv_ok cv \<and> (\<forall>i\<in>set (active_indices cv). i < capacity_of W n)"
    "\<And>n m c. condvar_of W n = Some c \<Longrightarrow> condvar_of W m = Some c \<Longrightarrow> m = n"
    "\<And>q cqd. ps_queues (nw_popo W) q = Some cqd \<Longrightarrow> queue_refers W cqd"
  shows "condvars W"
  using assms unfolding condvars_def queue_refers_def by blast

lemma queue_refers_mono:
  assumes "queue_refers W cqd" "\<And>c. ps_condvars (nw_popo W) c \<noteq> None \<Longrightarrow> ps_condvars (nw_popo W') c \<noteq> None"
    "\<And>n c. condvar_of W' n = Some c \<Longrightarrow> ps_condvars (nw_popo W) c \<noteq> None \<Longrightarrow> condvar_of W n = Some c \<and> capacity_of W' n = capacity_of W n"
  shows "queue_refers W' cqd"
  unfolding queue_refers_def
proof (intro allI impI)
  fix c assume "cqd_conditionVariableDataPtr cqd = Some c"
  then obtain i where c: "ps_condvars (nw_popo W) c \<noteq> None" and i: "i < MAX_NUMBER_OF_NOTIFIERS"
      "cqd_conditionVariableNotificationIndex cqd = Some (of_nat i)" "\<And>n. condvar_of W n = Some c \<Longrightarrow> i < capacity_of W n"
    using assms(1) unfolding queue_refers_def by blast
  have "i < capacity_of W' n" if "condvar_of W' n = Some c" for n using assms(3) [OF that c] i(3) by simp
  then show "ps_condvars (nw_popo W') c \<noteq> None \<and> (\<exists>i<MAX_NUMBER_OF_NOTIFIERS.
      cqd_conditionVariableNotificationIndex cqd = Some (of_nat i) \<and> (\<forall>n. condvar_of W' n = Some c \<longrightarrow> i < capacity_of W' n))"
    using assms(2) [OF c] i(1,2) by blast
qed

subsection \<open>The destructors\<close>

text \<open>An object without attachments disappears.\<close>

lemma remove_notifyable_ok:
  assumes "world_ok {} {n} W" "slot W n = (\<lambda>_. None)" "slot W' = slot W" "condvar_of W' = (condvar_of W)(n := None)"
    "\<And>m. m \<noteq> n \<Longrightarrow> capacity_of W' m = capacity_of W m" "nw_origins W' = nw_origins W" "nw_popo W' = nw_popo W" "tables {} W'"
  shows "world_ok {} {} W'"
proof -
  note w = world_okD [OF assms(1)]
  note o = handle_of_eq [OF assms(6)] queue_of_eq [OF assms(6)]
  have "links {} W'"
  proof (rule linksI)
    show "slots (slot W') o1 = {}" if "handle_of W' o1 = None" for o1 using that linksD(1) [OF w(1), of o1] o assms(3) by simp
    show "handle_ok W' o1 h {}" if "handle_of W' o1 = Some h" for o1 h
    proof -
      have "handle_ok W o1 h {}" using that linksD(2) [OF w(1), of o1 h] o by simp
      moreover have "m \<noteq> n" if "slots (slot W) o1 = {(m, i)}" for m i
      proof -
        have "(m, i) \<in> slots (slot W) o1" using that by simp
        then have "slot W m i = Some o1" by (simp add: slots_def del: slot.simps)
        then show ?thesis using assms(2) by auto
      qed
      ultimately show ?thesis unfolding handle_ok_def assms(3,4) by (metis fun_upd_other)
    qed
  qed
  moreover have "ports {} W'" using w(2) by (rule ports_cong) (simp_all add: o assms(7))
  moreover have "condvars W'"
  proof (rule condvarsI)
    have m: "condvar_of W m = Some d \<and> m \<noteq> n" if "condvar_of W' m = Some d" for m d
      using that assms(4) by (auto split: if_splits)
    show "\<exists>cv. ps_condvars (nw_popo W') d = Some cv \<and> cv_ok cv \<and> (\<forall>i\<in>set (active_indices cv). i < capacity_of W' m)"
      if "condvar_of W' m = Some d" for m d using condvarsD(1) [OF w(4), of m d] m [OF that] assms(5,7) by simp
    show "m2 = m1" if "condvar_of W' m1 = Some d" "condvar_of W' m2 = Some d" for m1 m2 d
      using condvarsD(2) [OF w(4)] m that by blast
    show "queue_refers W' cqd" if "ps_queues (nw_popo W') q = Some cqd" for q cqd
    proof (rule queue_refers_mono)
      show "queue_refers W cqd" using condvarsD(3) [OF w(4)] that assms(7) by simp
    qed (use m assms(5,7) in auto)
  qed
  ultimately show ?thesis using assms(8) by (simp add: world_ok_def)
qed

lemma remove_waitSet_ok:
  assumes "world_ok {} {In_WaitSet a} W" "slot W (In_WaitSet a) = (\<lambda>_. None)"
  shows "world_ok {} {} (W\<lparr> nw_waitSets := (nw_waitSets W)(a := None) \<rparr>)" (is "world_ok _ _ ?W")
proof (rule remove_notifyable_ok [OF assms])
  show "slot ?W = slot W" using assms(2) by (intro ext, rename_tac n i, case_tac n) (auto simp del: fun_upd_apply simp: fun_upd_def)
  show "condvar_of ?W = (condvar_of W)(In_WaitSet a := None)" by (rule ext, rename_tac n, case_tac n; simp)
  show "capacity_of ?W n = capacity_of W n" if "n \<noteq> In_WaitSet a" for n using that by (cases n) simp_all
  have "queue_of ?W = queue_of W" by (rule queue_of_eq) simp
  then show "tables {} ?W" using world_okD(3) [OF assms(1)] unfolding tables_def by (auto split: if_splits)
qed simp_all

lemma remove_listener_ok:
  assumes "world_ok {} {In_Listener a} W" "slot W (In_Listener a) = (\<lambda>_. None)"
  shows "world_ok {} {} (W\<lparr> nw_listeners := (nw_listeners W)(a := None) \<rparr>)" (is "world_ok _ _ ?W")
proof (rule remove_notifyable_ok [OF assms])
  show "slot ?W = slot W" using assms(2) by (intro ext, rename_tac n i, case_tac n) (auto simp del: fun_upd_apply simp: fun_upd_def)
  show "condvar_of ?W = (condvar_of W)(In_Listener a := None)" by (rule ext, rename_tac n, case_tac n; simp)
  show "capacity_of ?W n = capacity_of W n" if "n \<noteq> In_Listener a" for n by (cases n) simp_all
  have "queue_of ?W = queue_of W" by (rule queue_of_eq) simp
  then show "tables {} ?W" using world_okD(3) [OF assms(1)] unfolding tables_def by (auto split: if_splits)
qed simp_all

text \<open>The value of a condition variable changes.\<close>

lemma condvar_update_ok:
  assumes "world_ok X Z W" "ps_condvars (nw_popo W) c = Some cv" "\<And>n. condvar_of W n = Some c \<Longrightarrow> cv_ok cv'"
    "\<And>n i. condvar_of W n = Some c \<Longrightarrow> i \<in> set (active_indices cv') \<Longrightarrow> i < capacity_of W n"
  shows "world_ok X Z (W\<lparr> nw_popo := (nw_popo W)\<lparr> ps_condvars := (ps_condvars (nw_popo W))(c \<mapsto> cv') \<rparr> \<rparr>)" (is "world_ok _ _ ?W")
proof -
  note w = world_okD [OF assms(1)]
  have "links X ?W" using w(1) by (rule links_cong) simp_all
  moreover have "ports X ?W" using w(2) by (rule ports_cong) simp_all
  moreover have "tables Z ?W" using w(3) by (rule tables_cong) simp_all
  moreover have "condvars ?W"
  proof (rule condvarsI)
    show "\<exists>cv. ps_condvars (nw_popo ?W) d = Some cv \<and> cv_ok cv \<and> (\<forall>i\<in>set (active_indices cv). i < capacity_of ?W n)"
      if "condvar_of ?W n = Some d" for n d
      using that assms(3,4) [of n] condvarsD(1) [OF w(4), of n d] by (cases "d = c") simp_all
    show "m = n" if "condvar_of ?W n = Some d" "condvar_of ?W m = Some d" for n m d
      using condvarsD(2) [OF w(4)] that by simp
    show "queue_refers ?W cqd" if "ps_queues (nw_popo ?W) q = Some cqd" for q cqd
      by (rule queue_refers_mono [OF condvarsD(3) [OF w(4), of q]]) (use that in auto)
  qed
  ultimately show ?thesis by (simp add: world_ok_def)
qed

lemma removeAllTriggers_ok:
  assumes "world_ok {} {In_WaitSet a} W" "nw_waitSets W a = Some w" "\<forall>i\<in>set is. i < ws_capacity w"
  shows "\<exists>W' w'. removeAllTriggers_loop a is W = Inr W' \<and> world_ok {} {In_WaitSet a} W' \<and> nw_waitSets W' a = Some w' \<and>
    ws_capacity w' = ws_capacity w \<and> ws_conditionVariableDataPtr w' = ws_conditionVariableDataPtr w \<and>
    (\<forall>i. ws_occupant w' i = (if i \<in> set is then None else ws_occupant w i))"
  using assms
proof (induction "is" arbitrary: W w)
  case (Cons i "is")
  have ar: "ws_array_ok w" using world_okD(3) [OF Cons.prems(1)] Cons.prems(2) unfolding tables_def by blast
  have i: "i < ws_capacity w" "\<forall>j\<in>set is. j < ws_capacity w" using Cons.prems(3) by simp_all
  show ?case
  proof (cases "ws_triggerArray w ! i")
    case None
    then have "ws_occupant w i = None" using i(1) by (simp add: ws_occupant_def)
    then show ?thesis using None Cons.IH [OF Cons.prems(1,2) i(2)] Cons.prems(2) by auto
  next
    case (Some t)
    obtain W1 where W1: "Trigger_reset t W = Inr (Trigger_invalidate t, W1)"
      "world_ok {} {In_WaitSet a} (put_waitSet a (w\<lparr> ws_triggerArray := (ws_triggerArray w)[i := None] \<rparr>) W1)"
      by (rule removeAllTriggers_step [OF Cons.prems(1,2) i(1) Some]) blast
    let ?w = "w\<lparr> ws_triggerArray := (ws_triggerArray w)[i := None] \<rparr>"
    have "removeAllTriggers_loop a (i # is) W = removeAllTriggers_loop a is (put_waitSet a ?w W1)"
      using Cons.prems(2) Some W1(1) by simp
    moreover have "ws_occupant ?w = (ws_occupant w)(i := None)" using ws_occupant_update [OF i(1), of None] by simp
    ultimately show ?thesis using Cons.IH [OF W1(2), of ?w] i(2) by auto
  qed
qed auto

lemma world_ok_more: "world_ok X {} W \<Longrightarrow> world_ok X Z W"
  unfolding world_ok_def tables_def by blast

lemma cv_toBeDestroyed_simps [simp]:
  "cv_ok (cv\<lparr> cv_toBeDestroyed := b \<rparr>) = cv_ok cv" "active_indices (cv\<lparr> cv_toBeDestroyed := b \<rparr>) = active_indices cv"
  by (simp_all add: cv_ok_def active_indices_def)

lemma WaitSet_dtor_ok:
  assumes "world_ok {} {} W" "nw_waitSets W a = Some w"
  obtains W' where "WaitSet_dtor a W = Inr W'" "world_ok {} {} W'"
proof -
  obtain W1 w1 where W1: "removeAllTriggers_loop a [0..<ws_capacity w] W = Inr W1" "world_ok {} {In_WaitSet a} W1"
    "nw_waitSets W1 a = Some w1" "ws_capacity w1 = ws_capacity w" "ws_conditionVariableDataPtr w1 = ws_conditionVariableDataPtr w"
    "\<And>i. ws_occupant w1 i = (if i \<in> set [0..<ws_capacity w] then None else ws_occupant w i)"
    using removeAllTriggers_ok [OF world_ok_more [OF assms(1)] assms(2), of "[0..<ws_capacity w]"] by auto
  have occ: "ws_occupant w1 = (\<lambda>_. None)" using W1(6) by (auto simp: fun_eq_iff ws_occupant_def)
  let ?c = "ws_conditionVariableDataPtr w"
  have c: "condvar_of W1 (In_WaitSet a) = Some ?c" using W1(3,5) by simp
  obtain cv where cv: "ps_condvars (nw_popo W1) ?c = Some cv" "cv_ok cv" "\<forall>i\<in>set (active_indices cv). i < capacity_of W1 (In_WaitSet a)"
    using condvarsD(1) [OF world_okD(4) [OF W1(2)] c] by blast
  let ?W = "W1\<lparr> nw_popo := (nw_popo W1)\<lparr> ps_condvars := (ps_condvars (nw_popo W1))(?c \<mapsto> cv\<lparr> cv_toBeDestroyed := True \<rparr>) \<rparr> \<rparr>"
  have m: "n = In_WaitSet a" if "condvar_of W1 n = Some ?c" for n using condvarsD(2) [OF world_okD(4) [OF W1(2)] c that] .
  have "world_ok {} {In_WaitSet a} ?W"
  proof (rule condvar_update_ok [OF W1(2) cv(1)])
    show "i < capacity_of W1 n" if "condvar_of W1 n = Some ?c" "i \<in> set (active_indices (cv\<lparr> cv_toBeDestroyed := True \<rparr>))" for n i
      using m [OF that(1)] that(2) cv(3) by simp
  qed (simp add: cv(2))
  moreover have "slot ?W (In_WaitSet a) = (\<lambda>_. None)" using W1(3) occ by simp
  ultimately have "world_ok {} {} (?W\<lparr> nw_waitSets := (nw_waitSets ?W)(a := None) \<rparr>)" by (rule remove_waitSet_ok)
  then show thesis
    using W1(1) cv(1) assms(2) by (intro that) (simp_all add: WaitSet_dtor_def ws_capacity_def on_popo_def set_toBeDestroyed_def)
qed

lemma destroy_events_ok:
  assumes "world_ok {} {In_Listener a} W" "nw_listeners W a = Some l" "\<forall>i\<in>set is. i < MAX_NUMBER_OF_EVENTS_PER_LISTENER"
  shows "\<exists>W' l'. destroy_events_loop a is W = Inr W' \<and> world_ok {} {In_Listener a} W' \<and> nw_listeners W' a = Some l' \<and>
    (\<forall>i. li_occupant l' i = (if i \<in> set is then None else li_occupant l i))"
  using assms
proof (induction "is" arbitrary: W l)
  case (Cons i "is")
  note w = world_okD [OF Cons.prems(1)]
  have i: "i < MAX_NUMBER_OF_EVENTS_PER_LISTENER" "\<forall>j\<in>set is. j < MAX_NUMBER_OF_EVENTS_PER_LISTENER" using Cons.prems(3) by simp_all
  have "li_events_ok l" using w(3) Cons.prems(2) unfolding tables_def by blast
  then have e: "event_ok i (li_events l ! i)" using i(1) by (simp add: li_events_ok_def)
  show ?case
  proof (cases "li_occupant l i")
    case None
    then have "Event_reset (li_events l ! i) W = Inr (False, li_events l ! i, W)"
      using e i(1) by (auto simp: event_ok_def li_occupant_def Event_reset_def Event_isInitialized_def)
    moreover have "put_listener a l W = W" using Cons.prems(2) by (simp add: put_listener_def fun_upd_idem)
    ultimately show ?thesis using None Cons.IH [OF Cons.prems(1,2) i(2)] Cons.prems(2) by auto
  next
    case (Some o1)
    then have s: "(In_Listener a, i) \<in> slots (slot W) o1" using Cons.prems(2) by (simp add: slots_def)
    then obtain h where h: "handle_of W o1 = Some h" "handle_ok W o1 h {}"
      using linksD [OF w(1), of o1] by (cases "handle_of W o1") auto
    then obtain n j c where "h = handle_to n j c" "slots (slot W) o1 = {(n, j)}" using s unfolding handle_ok_def by blast
    then have hc: "h = handle_to (In_Listener a) i c" "slots (slot W) o1 = {(In_Listener a, i)}" using s by simp_all
    then have u: "th_uniqueTriggerId h = of_nat i" by (simp add: handle_to_def)
    obtain W1 where W1: "Event_reset (li_events l ! i) W = Inr (True, Event_cleared (li_events l ! i), W1)" "world_ok {o1} {In_Listener a} W1"
      "only_origin o1 W W1" "nw_waitSets W1 = nw_waitSets W" "nw_listeners W1 = nw_listeners W"
      "handle_of W1 o1 = Some TriggerHandle_invalidated"
      "\<And>q. queue_of W o1 = Some q \<Longrightarrow> \<exists>cqd. ps_queues (nw_popo W1) q = Some cqd \<and> notifies cqd TriggerHandle_invalidated"
      by (rule Event_reset_ok [OF world_ok_open [OF Cons.prems(1)] Cons.prems(2) Some h(1) u]) blast
    let ?l = "l\<lparr> li_events := (li_events l)[i := Event_cleared (li_events l ! i)] \<rparr>"
    have l1: "nw_listeners W1 a = Some l" using W1(5) Cons.prems(2) by simp
    have c: "world_ok {o1} {In_Listener a} (put_listener a ?l W1)" "li_occupant ?l = (li_occupant l)(i := None)"
      by (rule clear_listener_open [OF W1(2) l1 Some]; simp)+
    have "slot (put_listener a ?l W1) = (slot W)(In_Listener a := (slot W (In_Listener a))(i := None))"
      using c(2) Cons.prems(2) notifyables_eq(1) [OF W1(4,5)] by simp
    then have "slots (slot (put_listener a ?l W1)) o1 = {}" using hc(2) by (simp only: attached_slots_clear) simp
    moreover have "queue_of (put_listener a ?l W1) = queue_of W" using W1(3) by (simp add: only_origin_def)
    ultimately have "world_ok {} {In_Listener a} (put_listener a ?l W1)"
      using W1(6,7) by (intro world_ok_close [OF c(1)]) (simp_all add: handle_ok_invalid)
    from Cons.IH [OF this, of ?l] show ?thesis using i(2) c(2) W1(1) Cons.prems(2) by auto
  qed
qed auto

lemma ConditionListener_destroy_cv:
  assumes "ConditionListener_destroy cv = Inr (dflag, cv')"
  shows "dflag" "cv_ok cv' = cv_ok cv" "active_indices cv' = active_indices cv"
  using assms by (auto simp: ConditionListener_destroy_def Semaphore_post_def cv_ok_def active_indices_def split: if_splits)

lemma condvar_notifyable:
  assumes "world_ok X Z W" "condvar_of W n = Some c"
  obtains cv where "ps_condvars (nw_popo W) c = Some cv" "cv_ok cv" "\<And>i. i \<in> set (active_indices cv) \<Longrightarrow> i < capacity_of W n"
    "\<And>m. condvar_of W m = Some c \<Longrightarrow> m = n"
  using condvarsD(1) [OF world_okD(4) [OF assms(1)] assms(2)] condvarsD(2) [OF world_okD(4) [OF assms(1)] assms(2)] that by blast

lemma Listener_flags_ok:
  assumes "world_ok X Z W" "nw_listeners W a = Some l" "li_events l' = li_events l" "li_loffli l' = li_loffli l"
    "li_indicesInUse l' = li_indicesInUse l" "li_conditionVariableData l' = li_conditionVariableData l"
  shows "world_ok X Z (put_listener a l' W)"
proof -
  note w = world_okD [OF assms(1)]
  have o: "li_occupant l' = li_occupant l" "li_free l' = li_free l" using assms(3,4) by (simp_all add: li_occupant_def li_free_def fun_eq_iff)
  have t: "li_events_ok l' = li_events_ok l" "li_table_ok l' = li_table_ok l"
    unfolding li_table_ok_def li_events_ok_def o using assms(3-5) by simp_all
  have "tables Z (put_listener a l' W)" by (rule tables_listener [OF w(3) assms(2)]) (use w(3) assms(2) t in \<open>auto simp: tables_def\<close>)
  moreover have "slot (put_listener a l' W) = slot W" "condvar_of (put_listener a l' W) = condvar_of W"
    using assms(2,6) o by (simp_all add: fun_upd_idem)
  moreover from this have "links X (put_listener a l' W)" by (intro links_cong [OF w(1)]) simp_all
  moreover have "ports X (put_listener a l' W)" using w(2) by (rule ports_cong) simp_all
  moreover have "condvars (put_listener a l' W)" by (rule condvars_put_listener [OF w(4) assms(2,6)])
  ultimately show ?thesis by (simp add: world_ok_def)
qed

lemma Listener_dtor_body_ok:
  assumes "world_ok {} {} W" "Listener_dtor_body a W = Inr W'"
  shows "world_ok {} {} W'" "\<exists>l. nw_listeners W' a = Some l"
proof -
  obtain l cv dflag cv' where l: "nw_listeners W a = Some l" "ps_condvars (nw_popo W) (li_conditionVariableData l) = Some cv"
      "ConditionListener_destroy cv = Inr (dflag, cv')"
      "W' = put_listener a (l\<lparr> li_wasDtorCalled := True, li_toBeDestroyed := dflag \<rparr>) (W\<lparr> nw_popo := (nw_popo W)\<lparr> ps_condvars :=
         (ps_condvars (nw_popo W))(li_conditionVariableData l \<mapsto> cv'\<lparr> cv_toBeDestroyed := True \<rparr>) \<rparr> \<rparr>)"
    using assms(2) by (auto simp: Listener_dtor_body_def split: option.splits)
  have "condvar_of W (In_Listener a) = Some (li_conditionVariableData l)" using l(1) by simp
  then obtain cv2 where cv: "ps_condvars (nw_popo W) (li_conditionVariableData l) = Some cv2" "cv_ok cv2"
      "\<And>i. i \<in> set (active_indices cv2) \<Longrightarrow> i < capacity_of W (In_Listener a)"
      "\<And>m. condvar_of W m = Some (li_conditionVariableData l) \<Longrightarrow> m = In_Listener a"
    by (rule condvar_notifyable [OF assms(1)]) blast
  have "world_ok {} {} (W\<lparr> nw_popo := (nw_popo W)\<lparr> ps_condvars :=
      (ps_condvars (nw_popo W))(li_conditionVariableData l \<mapsto> cv'\<lparr> cv_toBeDestroyed := True \<rparr>) \<rparr> \<rparr>)"
    by (rule condvar_update_ok [OF assms(1) l(2)]) (use l(2) cv ConditionListener_destroy_cv [OF l(3)] in auto)
  then show "world_ok {} {} W'" unfolding l(4) by (rule Listener_flags_ok) (use l(1) in simp_all)
  show "\<exists>l. nw_listeners W' a = Some l" by (simp add: l(4))
qed

lemma Listener_dtor_ok:
  assumes "world_ok {} {} W" "Listener_dtor_body a W = Inr W1"
  obtains W' where "Listener_dtor a W = Inr W'" "world_ok {} {} W'"
proof -
  note b = Listener_dtor_body_ok [OF assms]
  obtain l where l: "nw_listeners W1 a = Some l" using b(2) by blast
  obtain W2 l2 where W2: "destroy_events_loop a (rev [0..<MAX_NUMBER_OF_EVENTS_PER_LISTENER]) W1 = Inr W2"
    "world_ok {} {In_Listener a} W2" "nw_listeners W2 a = Some l2"
    "\<And>i. li_occupant l2 i = (if i \<in> set (rev [0..<MAX_NUMBER_OF_EVENTS_PER_LISTENER]) then None else li_occupant l i)"
    using destroy_events_ok [OF world_ok_more [OF b(1)] l, of "rev [0..<MAX_NUMBER_OF_EVENTS_PER_LISTENER]"] by auto
  have "slot W2 (In_Listener a) = (\<lambda>_. None)" using W2(3,4) by (auto simp: fun_eq_iff li_occupant_def)
  then have "world_ok {} {} (W2\<lparr> nw_listeners := (nw_listeners W2)(a := None) \<rparr>)" by (rule remove_listener_ok [OF W2(2)])
  then show thesis using assms(2) W2(1) by (intro that) (simp_all add: Listener_dtor_def)
qed

subsection \<open>Notifications and the traffic of the queues\<close>

definition queue_target :: "chunk_queue_data \<Rightarrow> address pointer \<times> u64 option" where
  "queue_target cqd = (cqd_conditionVariableDataPtr cqd, cqd_conditionVariableNotificationIndex cqd)"

lemma target_cong:
  assumes "queue_target cqd' = queue_target cqd"
  shows "notifies cqd' h = notifies cqd h" "queue_refers W cqd' = queue_refers W cqd"
  using assms by (simp_all add: queue_target_def notifies_def queue_refers_def)

text \<open>Operations on the contents of the queues and the chunks.\<close>

lemma traffic_ok:
  assumes "world_ok X Z W" "\<And>q. map_option queue_target (ps_queues P q) = map_option queue_target (ps_queues (nw_popo W) q)"
    "ps_condvars P = ps_condvars (nw_popo W)"
  shows "world_ok X Z (W\<lparr> nw_popo := P \<rparr>)" (is "world_ok _ _ ?W")
proof -
  note w = world_okD [OF assms(1)]
  have q: "\<exists>cqd2. ps_queues P q = Some cqd2 \<and> queue_target cqd2 = queue_target cqd" if "ps_queues (nw_popo W) q = Some cqd" for q cqd
    using assms(2) [of q] that by auto
  have q2: "\<exists>cqd2. ps_queues (nw_popo W) q = Some cqd2 \<and> queue_target cqd = queue_target cqd2" if "ps_queues P q = Some cqd" for q cqd
    using assms(2) [of q] that by (cases "ps_queues (nw_popo W) q") auto
  have "links X ?W" using w(1) by (rule links_cong) simp_all
  moreover have "ports X ?W"
  proof (rule portsI)
    show "\<exists>cqd. ps_queues (nw_popo ?W) k = Some cqd \<and> (o1 \<notin> X \<longrightarrow> notifies cqd (the (handle_of ?W o1)))"
      if k: "queue_of ?W o1 = Some k" for o1 k
    proof -
      obtain cqd where c: "ps_queues (nw_popo W) k = Some cqd" "o1 \<notin> X \<longrightarrow> notifies cqd (the (handle_of W o1))"
        using portsD(1) [OF w(2), of o1 k] k by auto
      obtain cqd2 where "ps_queues P k = Some cqd2" "queue_target cqd2 = queue_target cqd" using q [OF c(1)] by blast
      then show ?thesis using c(2) target_cong(1) [of cqd2 cqd "the (handle_of W o1)"] by simp
    qed
    show "o1 = o2" if "queue_of ?W o1 = Some k" "queue_of ?W o2 = Some k" for o1 o2 k
      using portsD(2) [OF w(2), of o2 k o1] that by simp
  qed
  moreover have "tables Z ?W" using w(3) by (rule tables_cong) simp_all
  moreover have "condvars ?W"
  proof (rule condvarsI)
    show "\<exists>cv. ps_condvars (nw_popo ?W) d = Some cv \<and> cv_ok cv \<and> (\<forall>i\<in>set (active_indices cv). i < capacity_of ?W n)"
      if "condvar_of ?W n = Some d" for n d using condvarsD(1) [OF w(4), of n d] that assms(3) by simp
    show "m = n" if "condvar_of ?W n = Some d" "condvar_of ?W m = Some d" for n m d
      using condvarsD(2) [OF w(4)] that by simp
    show "queue_refers ?W cqd" if k: "ps_queues (nw_popo ?W) k = Some cqd" for k cqd
    proof -
      obtain cqd2 where "ps_queues (nw_popo W) k = Some cqd2" "queue_target cqd = queue_target cqd2" using q2 [of k] k by auto
      then have "queue_refers W cqd" using condvarsD(3) [OF w(4), of k] target_cong(2) by metis
      then show ?thesis by (rule queue_refers_mono) (use assms(3) in simp_all)
    qed
  qed
  ultimately show ?thesis by (simp add: world_ok_def)
qed

lemma notify_cv:
  assumes "ConditionNotifier_notify (of_nat i) cv = Inr cv'" "i < MAX_NUMBER_OF_NOTIFIERS" "cv_ok cv"
  shows "cv_ok cv'" "set (active_indices cv') = insert i (set (active_indices cv))" "wasNotified cv'"
proof -
  have u: "unat (of_nat i :: u64) = i" using assms(2) by (simp add: unat_index_u64)
  have "cv_semaphore cv < SEM_VALUE_MAX" "cv' = cv\<lparr> cv_activeNotifications := (cv_activeNotifications cv)[i := True],
      cv_semaphore := cv_semaphore cv + 1 \<rparr>"
    using assms(1,2) by (auto simp: ConditionNotifier_notify_def Semaphore_post_def Let_def u split: if_splits)
  then show "cv_ok cv'" "set (active_indices cv') = insert i (set (active_indices cv))" "wasNotified cv'"
    using assms(2,3) by (auto simp: cv_ok_def active_indices_def wasNotified_def nth_list_update)
qed

text \<open>A notification of the condition variable of a wait set or a listener, at an index it has.\<close>

definition notified_at :: "address \<Rightarrow> nat \<Rightarrow> popo_state \<Rightarrow> popo_state \<Rightarrow> bool" where
  "notified_at c i P P' \<longleftrightarrow> (\<exists>cv cv'. ps_condvars P c = Some cv \<and> ConditionNotifier_notify (of_nat i) cv = Inr cv' \<and>
     i < MAX_NUMBER_OF_NOTIFIERS \<and> ps_condvars P' = (ps_condvars P)(c \<mapsto> cv') \<and>
     (\<forall>q. map_option queue_target (ps_queues P' q) = map_option queue_target (ps_queues P q)))"

lemma notified_ok:
  assumes "world_ok X Z W" "notified_at c i (nw_popo W) P" "\<And>n. condvar_of W n = Some c \<Longrightarrow> i < capacity_of W n"
  shows "world_ok X Z (W\<lparr> nw_popo := P \<rparr>)"
proof -
  obtain cv cv' where n: "ps_condvars (nw_popo W) c = Some cv" "ConditionNotifier_notify (of_nat i) cv = Inr cv'"
     "i < MAX_NUMBER_OF_NOTIFIERS" "ps_condvars P = (ps_condvars (nw_popo W))(c \<mapsto> cv')"
     "\<And>q. map_option queue_target (ps_queues P q) = map_option queue_target (ps_queues (nw_popo W) q)"
    using assms(2) unfolding notified_at_def by blast
  let ?W = "W\<lparr> nw_popo := (nw_popo W)\<lparr> ps_condvars := (ps_condvars (nw_popo W))(c \<mapsto> cv') \<rparr> \<rparr>"
  have cv: "cv_ok cv" "\<forall>i\<in>set (active_indices cv). i < capacity_of W m" if "condvar_of W m = Some c" for m
    using condvarsD(1) [OF world_okD(4) [OF assms(1)] that] n(1) by auto
  have "world_ok X Z ?W"
  proof (rule condvar_update_ok [OF assms(1) n(1)])
    fix m assume m: "condvar_of W m = Some c"
    note cv2 = notify_cv [OF n(2,3) cv(1) [OF m]]
    show "cv_ok cv'" by (rule cv2)
    show "j < capacity_of W m" if "j \<in> set (active_indices cv')" for j
      using that assms(3) [OF m] cv(2) [OF m] cv2(2) by auto
  qed
  from traffic_ok [OF this, of P] show ?thesis using n(4,5) by simp
qed

lemma push_target:
  assumes "ChunkQueuePusher_push cap q ch P = Inr (r, P')"
  obtains cqd where "ps_queues P q = Some cqd" "cqd_conditionVariableDataPtr cqd = None" "ps_condvars P' = ps_condvars P"
      "\<And>k. map_option queue_target (ps_queues P' k) = map_option queue_target (ps_queues P k)"
  | cqd c i where "ps_queues P q = Some cqd" "queue_target cqd = (Some c, Some i)"
      "\<exists>cv cv'. ps_condvars P c = Some cv \<and> ConditionNotifier_notify i cv = Inr cv' \<and> ps_condvars P' = (ps_condvars P)(c \<mapsto> cv')"
      "unat i < MAX_NUMBER_OF_NOTIFIERS" "\<And>k. map_option queue_target (ps_queues P' k) = map_option queue_target (ps_queues P k)"
proof -
  obtain cqd pr vq b S cvs where p: "ps_queues P q = Some cqd" "notify_receiver cqd (ps_condvars P) = Inr cvs"
      "P' = P\<lparr> ps_shm := S, ps_queues := (ps_queues P)(q \<mapsto> cqd\<lparr> cqd_queue := vq \<rparr>), ps_condvars := cvs \<rparr>"
    using assms by (auto simp: ChunkQueuePusher_push_def split: option.splits prod.splits)
  have t: "map_option queue_target (ps_queues P' k) = map_option queue_target (ps_queues P k)" for k
    using p(1) by (simp add: p(3) queue_target_def)
  show thesis
  proof (cases "cqd_conditionVariableDataPtr cqd")
    case None
    then show thesis using p t by (intro that(1) [of cqd]) (simp_all add: notify_receiver_def)
  next
    case (Some c)
    then show thesis using p(2) that(2) [OF p(1) _ _ _ t, of c] p(3)
      by (auto simp: notify_receiver_def queue_target_def ConditionNotifier_ctor_def not_le split: option.splits if_splits)
  qed
qed

lemma push_ok:
  assumes "world_ok {} {} W" "ChunkQueuePusher_push cap q ch (nw_popo W) = Inr (r, P)"
  shows "world_ok {} {} (W\<lparr> nw_popo := P \<rparr>)"
  using assms(2)
proof (rule push_target)
  fix cqd
  assume "ps_condvars P = ps_condvars (nw_popo W)"
    "\<And>k. map_option queue_target (ps_queues P k) = map_option queue_target (ps_queues (nw_popo W) k)"
  then show ?thesis by (intro traffic_ok [OF assms(1)])
next
  fix cqd c k
  assume p: "ps_queues (nw_popo W) q = Some cqd" "queue_target cqd = (Some c, Some k)"
      "\<exists>cv cv'. ps_condvars (nw_popo W) c = Some cv \<and> ConditionNotifier_notify k cv = Inr cv' \<and> ps_condvars P = (ps_condvars (nw_popo W))(c \<mapsto> cv')"
      "unat k < MAX_NUMBER_OF_NOTIFIERS" "\<And>j. map_option queue_target (ps_queues P j) = map_option queue_target (ps_queues (nw_popo W) j)"
  obtain i where i: "i < MAX_NUMBER_OF_NOTIFIERS" "k = of_nat i" "\<And>n. condvar_of W n = Some c \<Longrightarrow> i < capacity_of W n"
    using condvarsD(3) [OF world_okD(4) [OF assms(1)] p(1)] p(2) unfolding queue_refers_def queue_target_def by auto
  have "notified_at c i (nw_popo W) P" unfolding notified_at_def using p(3,5) i(1,2) by blast
  then show ?thesis by (rule notified_ok [OF assms(1) _ i(3)])
qed

text \<open>The handle of an origin that is attached.\<close>

lemma attached_handle:
  assumes "world_ok {} {} W" "slot W n i = Some o1"
  obtains c where "handle_of W o1 = Some (handle_to n i c)" "condvar_of W n = Some c" "slots (slot W) o1 = {(n, i)}"
proof -
  have s: "(n, i) \<in> slots (slot W) o1" using assms(2) by (simp add: slots_def del: slot.simps)
  then obtain h where h: "handle_of W o1 = Some h" "handle_ok W o1 h {}"
    using linksD [OF world_okD(1) [OF assms(1)], of o1] by (cases "handle_of W o1") auto
  then obtain m j c where "h = handle_to m j c" "slots (slot W) o1 = {(m, j)}" "condvar_of W m = Some c"
    using s unfolding handle_ok_def by blast
  then show thesis using s h(1) by (intro that [of c]) simp_all
qed

lemma slot_bound: "world_ok X Z W \<Longrightarrow> slot W n i = Some o1 \<Longrightarrow> i < capacity_of W n \<and> i < MAX_NUMBER_OF_NOTIFIERS"
proof (cases n)
  case (In_WaitSet a)
  assume w: "world_ok X Z W" "slot W n i = Some o1"
  then obtain v where v: "nw_waitSets W a = Some v" "i < ws_capacity v" using In_WaitSet
    by (auto simp: ws_occupant_def split: option.splits if_splits)
  then have "ws_array_ok v" using world_okD(3) [OF w(1)] unfolding tables_def by blast
  then show ?thesis using v In_WaitSet by (simp add: ws_array_ok_def)
next
  case (In_Listener a)
  assume "world_ok X Z W" "slot W n i = Some o1"
  then show ?thesis using In_Listener
    by (auto simp: li_occupant_def MAX_NUMBER_OF_EVENTS_PER_LISTENER_def split: option.splits if_splits)
qed

lemma unattached_handle:
  assumes "world_ok {} {} W" "handle_of W o1 = Some h"
  obtains "h = TriggerHandle_invalidated" "slots (slot W) o1 = {}"
  | n i c where "h = handle_to n i c" "slot W n i = Some o1" "condvar_of W n = Some c"
proof -
  have "handle_ok W o1 h {}" using linksD(2) [OF world_okD(1) [OF assms(1)] _ assms(2)] by simp
  then consider "h = TriggerHandle_invalidated" "slots (slot W) o1 = {}"
    | n i c where "h = handle_to n i c" "slots (slot W) o1 = {(n, i)}" "condvar_of W n = Some c"
    unfolding handle_ok_def by blast
  then show thesis
  proof cases
    case (2 n i c)
    then have "(n, i) \<in> slots (slot W) o1" by simp
    then show thesis using 2 by (intro that(2)) (simp_all add: slots_def del: slot.simps)
  qed (use that in blast)
qed

lemma trigger_notifies:
  assumes "TriggerHandle_trigger (handle_to n i c) P = Inr P'" "i < MAX_NUMBER_OF_NOTIFIERS"
  shows "notified_at c i P P'"
  using assms by (auto simp: TriggerHandle_trigger_def handle_to_def notified_at_def ConditionNotifier_ctor_def split: option.splits if_splits)

lemma UserTrigger_trigger_ok:
  assumes "world_ok {} {} W" "UserTrigger_trigger o1 W = Inr W'"
  shows "world_ok {} {} W'"
proof -
  obtain h P where h: "nw_origins W o1 = Some (UserTrigger h)" "TriggerHandle_trigger h (nw_popo W) = Inr P" "W' = W\<lparr> nw_popo := P \<rparr>"
    using assms(2) by (auto simp: UserTrigger_trigger_def on_popo_def split: option.splits origin.splits)
  have "handle_of W o1 = Some h" using h(1) by (simp add: handle_of_def)
  then show ?thesis
  proof (rule unattached_handle [OF assms(1)])
    assume "h = TriggerHandle_invalidated"
    then have "P = nw_popo W" using h(2) by (simp add: TriggerHandle_trigger_def TriggerHandle_invalidated_def)
    then show ?thesis using assms(1) h(3) by simp
  next
    fix n i c assume n: "h = handle_to n i c" "slot W n i = Some o1" "condvar_of W n = Some c"
    note b = slot_bound [OF assms(1) n(2)]
    have "notified_at c i (nw_popo W) P" using trigger_notifies h(2) n(1) b by blast
    then have "world_ok {} {} (W\<lparr> nw_popo := P \<rparr>)"
    proof (rule notified_ok [OF assms(1)])
      show "i < capacity_of W m" if "condvar_of W m = Some c" for m
        using condvarsD(2) [OF world_okD(4) [OF assms(1)] n(3) that] b by simp
    qed
    then show ?thesis using h(3) by simp
  qed
qed

end
