(* ===== verification/Wait_Sets.thy ===== *)
theory Wait_Sets
  imports Notification_Lifecycle
begin

section \<open>Waiting for notifications\<close>

text \<open>
  The waiting of wait sets and listeners keeps the invariant \<open>world_ok\<close>, and a notification of an
  attached origin reaches the thread that waits. The step relation \<open>notification_step\<close> collects all
  operations of the notification objects; the properties are about the states it reaches.
\<close>

subsection \<open>The contract of a wait call\<close>

text \<open>
  What \<open>ConditionListener::wait\<close> and \<open>timedWait\<close> promise to the wait set: a call that returns
  hands over the active notifications, each once, and none after \<open>destroy\<close>; a call finds the
  notifications that are there without blocking.
\<close>

locale wait_call =
  fixes wait :: wait_function
  assumes wait_result: "cv_ok cv \<Longrightarrow> wait toBeDestroyed cv = Some (ns, cv') \<Longrightarrow> cv_ok cv' \<and> cv_semaphore cv' = 0 \<and>
      (if toBeDestroyed then ns = [] \<and> active_indices cv' = active_indices cv
       else ns = active_indices cv \<and> active_indices cv' = [])"
    and wait_returns: "cv_ok cv \<Longrightarrow> active_indices cv \<noteq> [] \<or> toBeDestroyed \<Longrightarrow> wait toBeDestroyed cv \<noteq> None"

lemma waitImpl_first:
  assumes "cv_ok cv" "active_indices cv \<noteq> [] \<or> toBeDestroyed"
  obtains ns cv' where "waitImpl waitCall toBeDestroyed cv = Some (ns, cv')" "cv_ok cv'" "cv_semaphore cv' = 0"
    "if toBeDestroyed then ns = [] \<and> active_indices cv' = active_indices cv else ns = active_indices cv \<and> active_indices cv' = []"
proof (cases toBeDestroyed)
  case True
  let ?cv = "cv\<lparr> cv_semaphore := 0 \<rparr>"
  have "waitImpl waitCall toBeDestroyed cv = Some ([], ?cv)"
    using True by (subst waitImpl_def, subst waitImpl_loop.simps) (simp add: resetSemaphore_eq)
  then show thesis using True assms(1) by (intro that [of "[]" ?cv]) (simp_all add: cv_ok_def active_indices_def)
next
  case False
  have a: "cv_ok (cv\<lparr> cv_semaphore := 0 \<rparr>)" "active_indices (cv\<lparr> cv_semaphore := 0 \<rparr>) = active_indices cv"
    using assms(1) by (simp_all add: cv_ok_def active_indices_def)
  obtain cv' where c: "collect [0..<MAX_NUMBER_OF_NOTIFIERS] [] (cv\<lparr> cv_semaphore := 0 \<rparr>) = (active_indices cv, cv')" "cv_ok cv'"
      "active_indices cv' = []" "cv_semaphore cv' = 0"
    by (rule collect_all [OF a(1)]) (simp add: a(2))
  have "waitImpl waitCall toBeDestroyed cv = Some (active_indices cv, cv')"
    using False assms(2) c(1) by (subst waitImpl_def, subst waitImpl_loop.simps) (simp add: resetSemaphore_eq)
  then show thesis using c False by (intro that) simp_all
qed

lemma waitImpl_result:
  assumes "waitImpl waitCall toBeDestroyed cv = Some (ns, cv')" "cv_ok cv" "active_indices cv \<noteq> [] \<or> toBeDestroyed"
  shows "cv_ok cv' \<and> cv_semaphore cv' = 0 \<and>
    (if toBeDestroyed then ns = [] \<and> active_indices cv' = active_indices cv else ns = active_indices cv \<and> active_indices cv' = [])"
  by (rule waitImpl_first [OF assms(2,3), where waitCall = waitCall]) (use assms(1) in simp)

lemma waitImpl_returns: "cv_ok cv \<Longrightarrow> active_indices cv \<noteq> [] \<or> toBeDestroyed \<Longrightarrow> waitImpl waitCall toBeDestroyed cv \<noteq> None"
  by (metis option.distinct(1) waitImpl_first)

text \<open>Without active notifications \<open>wait\<close> blocks; \<open>timedWait\<close> returns nothing.\<close>

lemma collect_none:
  assumes "cv_ok cv" "active_indices cv = []"
  obtains cv' where "collect [0..<MAX_NUMBER_OF_NOTIFIERS] [] cv = ([], cv')" "cv_ok cv'" "active_indices cv' = []"
    "cv_semaphore cv' = cv_semaphore cv"
  using collect_all [OF assms(1)] assms(2) by metis

lemma wait_blocks:
  assumes "cv_ok cv" "active_indices cv = []"
  shows "ConditionListener_wait False cv = None"
proof -
  have "cv_ok (cv\<lparr> cv_semaphore := 0 \<rparr>)" "active_indices (cv\<lparr> cv_semaphore := 0 \<rparr>) = []"
    using assms by (simp_all add: cv_ok_def active_indices_def)
  then obtain cv' where c: "collect [0..<MAX_NUMBER_OF_NOTIFIERS] [] (cv\<lparr> cv_semaphore := 0 \<rparr>) = ([], cv')" "cv_semaphore cv' = 0"
    by (rule collect_none) auto
  then show ?thesis
    by (subst ConditionListener_wait_def, subst waitImpl_def, subst waitImpl_loop.simps) (simp add: resetSemaphore_eq Semaphore_wait_def)
qed

lemma timedWait_returns:
  assumes "cv_ok cv" "active_indices cv = []"
  obtains cv' where "ConditionListener_timedWait False cv = Some ([], cv')" "cv_ok cv'" "active_indices cv' = []" "cv_semaphore cv' = 0"
proof -
  have a: "cv_ok (cv\<lparr> cv_semaphore := 0 \<rparr>)" "active_indices (cv\<lparr> cv_semaphore := 0 \<rparr>) = []"
    using assms by (simp_all add: cv_ok_def active_indices_def)
  obtain cv1 where c: "collect [0..<MAX_NUMBER_OF_NOTIFIERS] [] (cv\<lparr> cv_semaphore := 0 \<rparr>) = ([], cv1)" "cv_ok cv1"
      "active_indices cv1 = []" "cv_semaphore cv1 = 0"
    using collect_none [OF a] by auto
  obtain cv2 where c2: "collect [0..<MAX_NUMBER_OF_NOTIFIERS] [] cv1 = ([], cv2)" "cv_ok cv2" "active_indices cv2 = []" "cv_semaphore cv2 = 0"
    using collect_none [OF c(2,3)] c(4) by auto
  let ?call = "\<lambda>cv. Some (False, case Semaphore_wait (cv_semaphore cv) of Some v \<Rightarrow> cv\<lparr> cv_semaphore := v \<rparr> | None \<Rightarrow> cv)"
  have "waitImpl_loop ?call False True [] cv1 = Some ([], cv2)" by (subst waitImpl_loop.simps) (simp add: c2)
  then have "waitImpl_loop ?call False False [] (resetSemaphore cv) = Some ([], cv2)"
    by (subst waitImpl_loop.simps) (simp add: resetSemaphore_eq Semaphore_wait_def c)
  then have "ConditionListener_timedWait False cv = Some ([], cv2)" by (simp add: ConditionListener_timedWait_def waitImpl_def)
  then show thesis using c2 by (intro that)
qed

interpretation blocking: wait_call ConditionListener_wait
proof
  fix cv ns cv' toBeDestroyed
  assume cv: "cv_ok cv" and w: "ConditionListener_wait toBeDestroyed cv = Some (ns, cv')"
  then have "active_indices cv \<noteq> [] \<or> toBeDestroyed" using wait_blocks [OF cv] by (cases toBeDestroyed) auto
  from this show "cv_ok cv' \<and> cv_semaphore cv' = 0 \<and>
      (if toBeDestroyed then ns = [] \<and> active_indices cv' = active_indices cv else ns = active_indices cv \<and> active_indices cv' = [])"
    by (rule waitImpl_result [OF w [unfolded ConditionListener_wait_def] cv])
next
  fix cv toBeDestroyed
  assume "cv_ok cv" "active_indices cv \<noteq> [] \<or> toBeDestroyed"
  then show "ConditionListener_wait toBeDestroyed cv \<noteq> None"
    unfolding ConditionListener_wait_def by (rule waitImpl_returns)
qed

interpretation timed: wait_call ConditionListener_timedWait
proof
  fix cv ns cv' toBeDestroyed
  assume cv: "cv_ok cv" and w: "ConditionListener_timedWait toBeDestroyed cv = Some (ns, cv')"
  show "cv_ok cv' \<and> cv_semaphore cv' = 0 \<and>
      (if toBeDestroyed then ns = [] \<and> active_indices cv' = active_indices cv else ns = active_indices cv \<and> active_indices cv' = [])"
  proof (cases "active_indices cv \<noteq> [] \<or> toBeDestroyed")
    case True
    then show ?thesis
      by (rule waitImpl_result [OF w [unfolded ConditionListener_timedWait_def] cv])
  next
    case False
    then have "active_indices cv = []" by simp
    then show ?thesis by (rule timedWait_returns [OF cv]) (use w False in simp)
  qed
next
  fix cv toBeDestroyed
  assume "cv_ok cv" "active_indices cv \<noteq> [] \<or> toBeDestroyed"
  then show "ConditionListener_timedWait toBeDestroyed cv \<noteq> None"
    unfolding ConditionListener_timedWait_def by (rule waitImpl_returns)
qed

subsection \<open>The vector of triggers\<close>

lemma uniqueMerge_set: "set (uniqueMergeSortedContainers xs ys) = set xs \<union> set ys"
  by (induction xs ys rule: uniqueMergeSortedContainers.induct) auto

lemma uniqueMerge_sorted:
  fixes xs ys :: "'a :: linorder list"
  shows "sorted_wrt (<) xs \<Longrightarrow> sorted_wrt (<) ys \<Longrightarrow> sorted_wrt (<) (uniqueMergeSortedContainers xs ys)"
proof (induction xs ys rule: uniqueMergeSortedContainers.induct)
  case (1 x xs y ys)
  consider "x = y" | "x < y" | "y < x" by fastforce
  then show ?case
  proof cases
    case 1
    then show ?thesis using "1.IH"(1) "1.prems" by (auto simp: uniqueMerge_set)
  next
    case 2
    then show ?thesis using "1.IH"(2) "1.prems" by (force simp: uniqueMerge_set)
  next
    case 3
    then show ?thesis using "1.IH"(3) "1.prems" by (force simp: uniqueMerge_set)
  qed
qed auto

text \<open>Two strictly sorted lists with the same elements are equal: the merge is the sorted union.\<close>

lemma uniqueMerge_eq:
  fixes xs ys zs :: "'a :: linorder list"
  assumes "sorted_wrt (<) xs" "sorted_wrt (<) ys"
  shows "uniqueMergeSortedContainers xs ys = sorted_list_of_set (set xs \<union> set ys)"
  using uniqueMerge_sorted [OF assms] uniqueMerge_set [of xs ys]
  by (metis List.finite_set strict_sorted_equal strict_sorted_list_of_set set_sorted_list_of_set)

lemma sorted_below_length:
  assumes "sorted_wrt (<) xs" "\<forall>i\<in>set xs. i < (n :: nat)" shows "length xs \<le> n"
proof -
  have "card (set xs) \<le> card {..<n}" using assms(2) by (intro card_mono) auto
  then show ?thesis using assms(1) by (simp add: distinct_card strict_sorted_iff)
qed

definition trigger_satisfied :: "wait_set \<Rightarrow> notification_world \<Rightarrow> nat \<Rightarrow> bool" where
  "trigger_satisfied w W i \<longleftrightarrow> (case ws_triggerArray w ! i of None \<Rightarrow> False | Some t \<Rightarrow> isStateConditionSatisfied t W = Inr True)"

text \<open>An active index stays active only for a trigger that is attached to a state.\<close>

definition trigger_stays :: "wait_set \<Rightarrow> nat \<Rightarrow> bool" where
  "trigger_stays w i \<longleftrightarrow> (case ws_triggerArray w ! i of None \<Rightarrow> False | Some t \<Rightarrow> tr_triggerType t = STATE_BASED)"

definition trigger_info :: "wait_set \<Rightarrow> nat \<Rightarrow> notification_info" where
  "trigger_info w i = tr_notificationInfo (the (ws_triggerArray w ! i))"

text \<open>The condition of a trigger in a consistent world can be evaluated.\<close>

lemma isStateConditionSatisfied_returns:
  assumes "world_ok X Z W" "nw_waitSets W a = Some w" "i < ws_capacity w" "ws_triggerArray w ! i = Some t"
  shows "tr_triggerType t = EVENT_BASED \<and> isStateConditionSatisfied t W = Inr True \<or>
    tr_triggerType t = STATE_BASED \<and> (\<exists>b. isStateConditionSatisfied t W = Inr b)"
proof -
  note w = world_okD [OF assms(1)]
  have t: "ws_array_ok w" "tr_triggerType t = STATE_BASED \<Longrightarrow> tr_resetCallback t = Some o1 \<Longrightarrow> queue_of W o1 \<noteq> None" for o1
    using w(3) assms(2-4) unfolding tables_def by blast+
  then have tr: "trigger_ok i t" "i \<le> MAX_NUMBER_OF_NOTIFIERS" using assms(3,4) by (simp_all add: ws_array_ok_def)
  then have v: "Trigger_isValid t" using of_nat_index_valid by (auto simp: trigger_ok_def Trigger_isValid_def)
  show ?thesis
  proof (cases "tr_triggerType t = EVENT_BASED")
    case True
    then show ?thesis using v by (simp add: isStateConditionSatisfied_def)
  next
    case False
    then obtain o1 where o1: "tr_triggerType t = STATE_BASED" "tr_hasTriggeredCallback t = Some o1" "tr_resetCallback t = Some o1"
      using tr(1) by (auto simp: trigger_ok_def)
    then obtain q where q: "queue_of W o1 = Some q" using t(2) by blast
    then obtain cqd where "ps_queues (nw_popo W) q = Some cqd" using portsD(1) [OF w(2)] by blast
    then have "\<exists>b. hasData o1 W = Inr b" using q by (auto simp: hasData_def queue_of_def split: option.splits origin.splits)
    then show ?thesis using o1 v by (simp add: isStateConditionSatisfied_def)
  qed
qed

lemma createVector_loop_eq:
  assumes "world_ok X Z W" "nw_waitSets W a = Some w" "\<forall>i\<in>set acts. i < ws_capacity w" "length tr + length acts \<le> ws_capacity w"
  shows "createVector_loop w W (length acts) (acts @ ys) tr =
    Inr (filter (trigger_stays w) acts @ ys, tr @ map (trigger_info w) (filter (trigger_satisfied w W) (rev acts)))"
  using assms(3,4)
proof (induction acts arbitrary: ys tr rule: rev_induct)
  case (snoc i acts)
  have i: "i < ws_capacity w" "i < length (ws_triggerArray w)" using snoc.prems(1) by (simp_all add: ws_capacity_def)
  have p: "\<forall>i\<in>set acts. i < ws_capacity w" "length tr + length acts \<le> ws_capacity w" "length (tr @ [x]) + length acts \<le> ws_capacity w" for x
    using snoc.prems by simp_all
  note IH = snoc.IH [OF p(1,2)] snoc.IH [OF p(1,3)]
  have e: "take (length acts) ((acts @ [i]) @ ys) @ drop (Suc (length acts)) ((acts @ [i]) @ ys) = acts @ ys" by simp
  show ?case
  proof (cases "ws_triggerArray w ! i")
    case None
    then show ?thesis using i IH(1) [of ys] by (simp add: trigger_stays_def trigger_satisfied_def not_le)
  next
    case (Some t)
    have s: "tr_triggerType t = EVENT_BASED \<and> isStateConditionSatisfied t W = Inr True \<or>
        tr_triggerType t = STATE_BASED \<and> (\<exists>b. isStateConditionSatisfied t W = Inr b)"
      by (rule isStateConditionSatisfied_returns [OF assms(1,2) i(1) Some])
    have l: "length tr < length (ws_triggerArray w)" using snoc.prems(2) by (simp add: ws_capacity_def)
    from s consider "tr_triggerType t = EVENT_BASED" "isStateConditionSatisfied t W = Inr True"
      | "tr_triggerType t = STATE_BASED" "isStateConditionSatisfied t W = Inr True"
      | "tr_triggerType t = STATE_BASED" "isStateConditionSatisfied t W = Inr False"
      by (metis (full_types))
    then show ?thesis
    proof cases
      case 1
      then show ?thesis using i l Some IH(2) [of ys "tr_notificationInfo t"]
        by (simp add: trigger_stays_def trigger_satisfied_def trigger_info_def not_le)
    next
      case 2
      then show ?thesis using i l Some IH(2) [of "i # ys" "tr_notificationInfo t"]
        by (simp add: trigger_stays_def trigger_satisfied_def trigger_info_def not_le)
    next
      case 3
      then show ?thesis using i l Some IH(1) [of "i # ys"]
        by (simp add: trigger_stays_def trigger_satisfied_def trigger_info_def not_le)
    qed
  qed
qed simp

subsection \<open>Waiting keeps the invariant\<close>

lemma waitSet_flags_ok:
  assumes "world_ok X Z W" "nw_waitSets W a = Some w" "ws_triggerArray w' = ws_triggerArray w"
    "ws_indexRepository w' = ws_indexRepository w" "ws_conditionVariableDataPtr w' = ws_conditionVariableDataPtr w" "ws_active_ok w'"
  shows "world_ok X Z (put_waitSet a w' W)"
proof -
  note w = world_okD [OF assms(1)]
  have o: "ws_capacity w' = ws_capacity w" "ws_occupant w' = ws_occupant w" "ws_free w' = ws_free w"
    using assms(3,4) by (simp_all add: ws_occupant_def ws_capacity_def ws_free_def fun_eq_iff)
  have t: "ws_array_ok w' = ws_array_ok w" "ws_table_ok w' = ws_table_ok w"
    unfolding ws_table_ok_def ws_array_ok_def o using assms(3) by simp_all
  have "ws_array_ok w" "In_WaitSet a \<notin> Z \<Longrightarrow> ws_table_ok w"
    "\<And>i t o1. i < ws_capacity w \<Longrightarrow> ws_triggerArray w ! i = Some t \<Longrightarrow> tr_triggerType t = STATE_BASED \<Longrightarrow>
       tr_resetCallback t = Some o1 \<Longrightarrow> queue_of W o1 \<noteq> None"
    using w(3) assms(2) unfolding tables_def by blast+
  then have "tables Z (put_waitSet a w' W)" by (intro tables_waitSet [OF w(3) assms(2)]) (use assms(3,6) o t in simp_all)
  moreover have "slot (put_waitSet a w' W) = slot W" "condvar_of (put_waitSet a w' W) = condvar_of W"
    using assms(2,5) o by (simp_all add: fun_upd_idem)
  moreover from this have "links X (put_waitSet a w' W)" by (intro links_cong [OF w(1)]) simp_all
  moreover have "ports X (put_waitSet a w' W)" using w(2) by (rule ports_cong) simp_all
  moreover have "condvars (put_waitSet a w' W)" by (rule condvars_put_waitSet [OF w(4) assms(2,5) o(1)])
  ultimately show ?thesis by (simp add: world_ok_def)
qed

definition put_condvar :: "address \<Rightarrow> condition_variable_data \<Rightarrow> notification_world \<Rightarrow> notification_world" where
  "put_condvar c cv W = W\<lparr> nw_popo := (nw_popo W)\<lparr> ps_condvars := (ps_condvars (nw_popo W))(c \<mapsto> cv) \<rparr> \<rparr>"

lemma put_condvar_fields [simp]:
  "nw_waitSets (put_condvar c cv W) = nw_waitSets W" "nw_listeners (put_condvar c cv W) = nw_listeners W"
  "nw_origins (put_condvar c cv W) = nw_origins W" "ps_queues (nw_popo (put_condvar c cv W)) = ps_queues (nw_popo W)"
  "ps_condvars (nw_popo (put_condvar c cv W)) = (ps_condvars (nw_popo W))(c \<mapsto> cv)"
  by (simp_all add: put_condvar_def)

lemma active_indices_sorted: "sorted_wrt (<) (active_indices cv)"
  unfolding active_indices_def by (intro sorted_wrt_filter) simp

text \<open>
  The indices a wait set has to look at: those it still remembers and those that were notified
  since. After \<open>markForDestruction\<close> the condition variable is not asked any more.
\<close>

definition pending :: "wait_set \<Rightarrow> condition_variable_data \<Rightarrow> nat set" where
  "pending w cv = set (ws_activeNotifications w) \<union> (if ws_toBeDestroyed w then {} else set (active_indices cv))"

text \<open>What a world says about the condition of a trigger does not depend on the wait sets and condition variables.\<close>

lemma isStateConditionSatisfied_cong:
  "nw_origins W' = nw_origins W \<Longrightarrow> ps_queues (nw_popo W') = ps_queues (nw_popo W) \<Longrightarrow>
     isStateConditionSatisfied t W' = isStateConditionSatisfied t W"
  by (simp add: isStateConditionSatisfied_def hasData_def split: trigger_type.splits option.splits origin.splits)

lemma createVector_ok:
  assumes "world_ok {} {} W" "nw_waitSets W a = Some w"
  shows "createVectorWithTriggeredTriggers a W =
      Inr (map (trigger_info w) (filter (trigger_satisfied w W) (rev (ws_activeNotifications w))),
        put_waitSet a (w\<lparr> ws_activeNotifications := filter (trigger_stays w) (ws_activeNotifications w) \<rparr>) W)"
    "world_ok {} {} (put_waitSet a (w\<lparr> ws_activeNotifications := filter (trigger_stays w) (ws_activeNotifications w) \<rparr>) W)"
proof -
  have act: "ws_active_ok w" using world_okD(3) [OF assms(1)] assms(2) unfolding tables_def by blast
  then have "length (ws_activeNotifications w) \<le> ws_capacity w" by (simp add: ws_active_ok_def sorted_below_length)
  then show "createVectorWithTriggeredTriggers a W =
      Inr (map (trigger_info w) (filter (trigger_satisfied w W) (rev (ws_activeNotifications w))),
        put_waitSet a (w\<lparr> ws_activeNotifications := filter (trigger_stays w) (ws_activeNotifications w) \<rparr>) W)"
    using createVector_loop_eq [OF assms, of "ws_activeNotifications w" "[]" "[]"] act assms(2)
    by (simp add: createVectorWithTriggeredTriggers_def ws_active_ok_def)
  show "world_ok {} {} (put_waitSet a (w\<lparr> ws_activeNotifications := filter (trigger_stays w) (ws_activeNotifications w) \<rparr>) W)"
    by (rule waitSet_flags_ok [OF assms]) (use act in \<open>simp_all add: ws_active_ok_def sorted_wrt_filter\<close>)
qed

context wait_call
begin

lemma acquire_ok:
  assumes "world_ok {} {} W" "nw_waitSets W a = Some w" "ps_condvars (nw_popo W) (ws_conditionVariableDataPtr w) = Some cv"
    "wait (ws_toBeDestroyed w) cv = Some (ns, cv')"
  defines "w' \<equiv> w\<lparr> ws_activeNotifications := sorted_list_of_set (pending w cv) \<rparr>"
  shows "acquireNotifications wait a W = Inr (put_waitSet a w' (put_condvar (ws_conditionVariableDataPtr w) cv' W))"
    "world_ok {} {} (put_waitSet a w' (put_condvar (ws_conditionVariableDataPtr w) cv' W))"
proof -
  let ?c = "ws_conditionVariableDataPtr w"
  have "condvar_of W (In_WaitSet a) = Some ?c" using assms(2) by simp
  then have cv: "cv_ok cv" "\<And>i. i \<in> set (active_indices cv) \<Longrightarrow> i < ws_capacity w" "\<And>n. condvar_of W n = Some ?c \<Longrightarrow> n = In_WaitSet a"
    using condvar_notifyable [OF assms(1), of "In_WaitSet a" ?c] assms(2,3) by (metis capacity_of.simps(1) option.inject option.simps(5))+
  note r = wait_result [OF cv(1) assms(4)]
  have act: "sorted_wrt (<) (ws_activeNotifications w)" "\<forall>i\<in>set (ws_activeNotifications w). i < ws_capacity w"
    using world_okD(3) [OF assms(1)] assms(2) unfolding tables_def ws_active_ok_def by blast+
  have ns: "sorted_wrt (<) ns" "set ns = (if ws_toBeDestroyed w then {} else set (active_indices cv))"
    using r active_indices_sorted by (auto split: if_splits)
  have fin: "finite (pending w cv)" by (simp add: pending_def)
  have "(if ws_activeNotifications w = [] then ns
         else if ns \<noteq> [] then uniqueMergeSortedContainers ns (ws_activeNotifications w) else ws_activeNotifications w) =
      sorted_list_of_set (pending w cv)"
  proof -
    have u: "pending w cv = set ns \<union> set (ws_activeNotifications w)" by (auto simp: pending_def ns(2))
    have "sorted_list_of_set (pending w cv) = uniqueMergeSortedContainers ns (ws_activeNotifications w)"
      unfolding u by (rule uniqueMerge_eq [OF ns(1) act(1), symmetric])
    then show ?thesis by (cases ns; cases "ws_activeNotifications w") auto
  qed
  then show "acquireNotifications wait a W = Inr (put_waitSet a w' (put_condvar ?c cv' W))"
    using assms(2,3,4) by (simp add: acquireNotifications_def w'_def put_condvar_def)
  have "i < capacity_of W n" if "condvar_of W n = Some ?c" "i \<in> set (active_indices cv')" for n i
    using cv(2) cv(3) [OF that(1)] that(2) r assms(2) by (auto split: if_splits)
  then have "world_ok {} {} (put_condvar ?c cv' W)" unfolding put_condvar_def
    using r by (intro condvar_update_ok [OF assms(1,3)]) simp_all
  then show "world_ok {} {} (put_waitSet a w' (put_condvar ?c cv' W))"
    by (rule waitSet_flags_ok [where w = w])
      (use assms(2) act(2) cv(2) fin in \<open>auto simp: w'_def ws_active_ok_def pending_def strict_sorted_list_of_set\<close>)
qed

text \<open>
  \<open>wait\<close> when an attached trigger that is satisfied was notified: the call does not block and gives
  the triggers that are pending and satisfied, from the highest index to the lowest.
\<close>

lemma wait_notified:
  assumes "world_ok {} {} W" "nw_waitSets W a = Some w" "ps_condvars (nw_popo W) (ws_conditionVariableDataPtr w) = Some cv"
    "wasNotified cv" "\<not> ws_toBeDestroyed w" "i \<in> set (active_indices cv)" "trigger_satisfied w W i"
  obtains cv' where "cv_ok cv'" "active_indices cv' = []" "cv_semaphore cv' = 0"
    "waitAndReturnTriggeredTriggers wait a W =
       Inr (map (trigger_info w) (filter (trigger_satisfied w W) (rev (sorted_list_of_set (pending w cv)))),
         put_waitSet a (w\<lparr> ws_activeNotifications := filter (trigger_stays w) (sorted_list_of_set (pending w cv)) \<rparr>)
           (put_condvar (ws_conditionVariableDataPtr w) cv' W))"
    "world_ok {} {} (put_waitSet a (w\<lparr> ws_activeNotifications := filter (trigger_stays w) (sorted_list_of_set (pending w cv)) \<rparr>)
       (put_condvar (ws_conditionVariableDataPtr w) cv' W))"
proof -
  let ?c = "ws_conditionVariableDataPtr w" and ?acts = "sorted_list_of_set (pending w cv)"
  have "condvar_of W (In_WaitSet a) = Some ?c" using assms(2) by simp
  then have cv: "cv_ok cv" using condvar_notifyable [OF assms(1)] assms(3) by (metis option.inject)
  moreover have "active_indices cv \<noteq> []" using assms(6) by auto
  ultimately obtain ns cv' where r: "wait (ws_toBeDestroyed w) cv = Some (ns, cv')" using wait_returns by fastforce
  note cv' = wait_result [OF cv r]
  let ?ts = "map (trigger_info w) (filter (trigger_satisfied w W) (rev ?acts))"
    and ?W = "put_waitSet a (w\<lparr> ws_activeNotifications := filter (trigger_stays w) ?acts \<rparr>) (put_condvar ?c cv' W)"
  define w1 where "w1 = w\<lparr> ws_activeNotifications := ?acts \<rparr>"
  define W1 where "W1 = put_waitSet a w1 (put_condvar ?c cv' W)"
  have a: "acquireNotifications wait a W = Inr W1" "world_ok {} {} W1" "nw_waitSets W1 a = Some w1"
    using acquire_ok [OF assms(1-3) r] by (simp_all add: W1_def w1_def)
  have s: "trigger_satisfied w1 W1 = trigger_satisfied w W" "trigger_info w1 = trigger_info w" "trigger_stays w1 = trigger_stays w"
    using isStateConditionSatisfied_cong [of W1 W]
    by (simp_all add: trigger_satisfied_def trigger_info_def trigger_stays_def w1_def W1_def fun_eq_iff split: option.splits)
  note c = createVector_ok [OF a(2,3)]
  have W: "put_waitSet a (w1\<lparr> ws_activeNotifications := filter (trigger_stays w1) (ws_activeNotifications w1) \<rparr>) W1 = ?W"
    by (simp add: W1_def w1_def s(3) [unfolded w1_def] put_waitSet_def)
  have "i \<in> set (filter (trigger_satisfied w W) (rev ?acts))" using assms(5-7) by (simp add: pending_def)
  then have "?ts \<noteq> []" by (metis empty_iff list.map_disc_iff list.set(1))
  moreover have "createVectorWithTriggeredTriggers a W1 = Inr (?ts, ?W)" using c(1) unfolding W unfolding s by (simp add: w1_def)
  ultimately have "waitAndReturnTriggeredTriggers wait a W = Inr (?ts, ?W)"
    using assms(2-4) a(1) by (simp add: waitAndReturnTriggeredTriggers_def)
  moreover have "world_ok {} {} ?W" using c(2) unfolding W .
  ultimately show thesis using cv' assms(5) by (intro that [of cv']) simp_all
qed

lemma acquire_preserves:
  assumes "world_ok {} {} W" "acquireNotifications wait a W = Inr W1"
  shows "world_ok {} {} W1" "\<exists>w. nw_waitSets W1 a = Some w"
proof -
  obtain w cv ns cv' where w: "nw_waitSets W a = Some w" "ps_condvars (nw_popo W) (ws_conditionVariableDataPtr w) = Some cv"
      "wait (ws_toBeDestroyed w) cv = Some (ns, cv')"
    using assms(2) by (auto simp: acquireNotifications_def returns_def split: option.splits)
  show "world_ok {} {} W1" "\<exists>w. nw_waitSets W1 a = Some w" using acquire_ok [OF assms(1) w] assms(2) by auto
qed

lemma wait_preserves:
  assumes "world_ok {} {} W" "waitAndReturnTriggeredTriggers wait a W = Inr (ts, W')"
  shows "world_ok {} {} W'"
proof -
  obtain w cv W1 ts2 W2 where w: "nw_waitSets W a = Some w" "ps_condvars (nw_popo W) (ws_conditionVariableDataPtr w) = Some cv"
      "(if wasNotified cv then acquireNotifications wait a W else Inr W) = Inr W1"
      "createVectorWithTriggeredTriggers a W1 = Inr (ts2, W2)"
      "W' = W2 \<or> obind (acquireNotifications wait a W2) (createVectorWithTriggeredTriggers a) = Inr (ts, W')"
    using assms(2) by (auto simp: waitAndReturnTriggeredTriggers_def split: option.splits if_splits)
  have W1: "world_ok {} {} W1" "\<exists>w. nw_waitSets W1 a = Some w"
    using w(1,3) assms(1) acquire_preserves [OF assms(1)] by (auto split: if_splits)
  then have W2: "world_ok {} {} W2" using createVector_ok w(4) by fastforce
  from w(5) show ?thesis
  proof
    assume "obind (acquireNotifications wait a W2) (createVectorWithTriggeredTriggers a) = Inr (ts, W')"
    then obtain W3 where W3: "acquireNotifications wait a W2 = Inr W3" "createVectorWithTriggeredTriggers a W3 = Inr (ts, W')" by auto
    from acquire_preserves [OF W2 W3(1)] show ?thesis using createVector_ok W3(2) by fastforce
  qed (use W2 in simp)
qed

end

subsection \<open>The listener thread and the end of waiting\<close>

lemma threadLoop_preserves:
  assumes "world_ok {} {} W" "Listener_threadLoop_step a W = Inr (calls, W')"
  shows "world_ok {} {} W'"
proof -
  obtain l where l: "nw_listeners W a = Some l" using assms(2) by (auto simp: Listener_threadLoop_step_def split: option.splits)
  let ?c = "li_conditionVariableData l"
  show ?thesis
  proof (cases "li_wasDtorCalled l")
    case True
    then show ?thesis using l assms by (simp add: Listener_threadLoop_step_def)
  next
    case False
    then obtain cv ids cv' where cv: "ps_condvars (nw_popo W) ?c = Some cv" "ConditionListener_wait (li_toBeDestroyed l) cv = Some (ids, cv')"
        "W' = W\<lparr> nw_popo := (nw_popo W)\<lparr> ps_condvars := (ps_condvars (nw_popo W))(?c \<mapsto> cv') \<rparr> \<rparr>"
      using assms(2) l by (auto simp: Listener_threadLoop_step_def returns_def split: option.splits)
    have "condvar_of W (In_Listener a) = Some ?c" using l by simp
    then obtain cv2 where c: "ps_condvars (nw_popo W) ?c = Some cv2" "cv_ok cv2"
        "\<And>i. i \<in> set (active_indices cv2) \<Longrightarrow> i < capacity_of W (In_Listener a)" "\<And>m. condvar_of W m = Some ?c \<Longrightarrow> m = In_Listener a"
      by (rule condvar_notifyable [OF assms(1)]) blast
    then have c2: "cv_ok cv" "\<And>i. i \<in> set (active_indices cv) \<Longrightarrow> i < capacity_of W (In_Listener a)" using cv(1) by simp_all
    note r = blocking.wait_result [OF c2(1) cv(2)]
    have "i < capacity_of W m" if "condvar_of W m = Some ?c" "i \<in> set (active_indices cv')" for m i
      using c(4) [OF that(1)] that(2) c2(2) r by (auto split: if_splits)
    then show ?thesis unfolding cv(3) using r by (intro condvar_update_ok [OF assms(1) cv(1)]) simp_all
  qed
qed

lemma markForDestruction_preserves:
  assumes "world_ok {} {} W" "WaitSet_markForDestruction a W = Inr W'"
  shows "world_ok {} {} W'"
proof -
  obtain w cv dflag cv' where w: "nw_waitSets W a = Some w" "ps_condvars (nw_popo W) (ws_conditionVariableDataPtr w) = Some cv"
      "ConditionListener_destroy cv = Inr (dflag, cv')"
      "W' = put_waitSet a (w\<lparr> ws_toBeDestroyed := dflag \<rparr>) (put_condvar (ws_conditionVariableDataPtr w) cv' W)"
    using assms(2) by (auto simp: WaitSet_markForDestruction_def put_condvar_def split: option.splits)
  let ?c = "ws_conditionVariableDataPtr w"
  have "condvar_of W (In_WaitSet a) = Some ?c" using w(1) by simp
  then obtain cv2 where c: "ps_condvars (nw_popo W) ?c = Some cv2" "cv_ok cv2"
      "\<And>i. i \<in> set (active_indices cv2) \<Longrightarrow> i < capacity_of W (In_WaitSet a)" "\<And>m. condvar_of W m = Some ?c \<Longrightarrow> m = In_WaitSet a"
    by (rule condvar_notifyable [OF assms(1)]) blast
  have "i < capacity_of W m" if "condvar_of W m = Some ?c" "i \<in> set (active_indices cv')" for m i
    using c(1,3) c(4) [OF that(1)] that(2) w(2) ConditionListener_destroy_cv [OF w(3)] by simp
  then have "world_ok {} {} (put_condvar ?c cv' W)" unfolding put_condvar_def
    using c(1,2) w(2) ConditionListener_destroy_cv [OF w(3)] by (intro condvar_update_ok [OF assms(1) w(2)]) simp_all
  moreover have "ws_active_ok (w\<lparr> ws_toBeDestroyed := dflag \<rparr>)"
    using world_okD(3) [OF assms(1)] w(1) unfolding tables_def by (simp add: ws_active_ok_def)
  ultimately show ?thesis unfolding w(4) using w(1) by (intro waitSet_flags_ok [where w = w]) simp_all
qed

subsection \<open>The constructors\<close>

lemma add_notifyable_ok:
  assumes "world_ok {} {} W" "condvar_of W n = None" "ps_condvars (nw_popo W) c = None" "cv_ok cv" "active_indices cv = []"
    and W': "slot W' = slot W" "condvar_of W' = (condvar_of W)(n \<mapsto> c)" "\<And>m. m \<noteq> n \<Longrightarrow> capacity_of W' m = capacity_of W m"
      "nw_origins W' = nw_origins W" "ps_queues (nw_popo W') = ps_queues (nw_popo W)"
      "ps_condvars (nw_popo W') = (ps_condvars (nw_popo W))(c \<mapsto> cv)" "tables {} W'"
  shows "world_ok {} {} W'"
proof -
  note w = world_okD [OF assms(1)]
  note o = handle_of_eq [OF W'(4)] queue_of_eq [OF W'(4)]
  have c: "d \<noteq> c" if "condvar_of W m = Some d" for m d using condvarsD(1) [OF w(4) that] assms(3) by auto
  have m: "(m = n \<and> d = c) \<or> (m \<noteq> n \<and> condvar_of W m = Some d \<and> d \<noteq> c)" if "condvar_of W' m = Some d" for m d
    using that W'(2) c by (auto split: if_splits)
  have "links {} W'"
  proof (rule linksI)
    show "slots (slot W') o1 = {}" if "handle_of W' o1 = None" for o1 using that linksD(1) [OF w(1), of o1] o W'(1) by simp
    show "handle_ok W' o1 h {}" if "handle_of W' o1 = Some h" for o1 h
    proof -
      have "handle_ok W o1 h {}" using that linksD(2) [OF w(1), of o1 h] o by simp
      then show ?thesis unfolding handle_ok_def W'(1,2) using assms(2) by (metis fun_upd_other option.distinct(1))
    qed
  qed
  moreover have "ports {} W'" using w(2) by (rule ports_cong) (simp_all add: o W'(5))
  moreover have "condvars W'"
  proof (rule condvarsI)
    show "\<exists>cv. ps_condvars (nw_popo W') d = Some cv \<and> cv_ok cv \<and> (\<forall>i\<in>set (active_indices cv). i < capacity_of W' m)"
      if "condvar_of W' m = Some d" for m d using m [OF that] condvarsD(1) [OF w(4), of m d] assms(4,5) W'(3,6) by auto
    show "m2 = m1" if "condvar_of W' m1 = Some d" "condvar_of W' m2 = Some d" for m1 m2 d
      using condvarsD(2) [OF w(4)] m that by blast
    show "queue_refers W' cqd" if "ps_queues (nw_popo W') q = Some cqd" for q cqd
    proof (rule queue_refers_mono)
      show "queue_refers W cqd" using condvarsD(3) [OF w(4)] that W'(5) by simp
      show "condvar_of W k = Some d \<and> capacity_of W' k = capacity_of W k"
        if "condvar_of W' k = Some d" "ps_condvars (nw_popo W) d \<noteq> None" for k d
        using m [OF that(1)] that(2) assms(3) W'(3) by auto
    qed (use W'(6) in auto)
  qed
  ultimately show ?thesis using W'(7) by (simp add: world_ok_def)
qed

lemma ConditionVariableData_ctor_ok: "cv_ok (ConditionVariableData_ctor r)" "active_indices (ConditionVariableData_ctor r) = []"
  by (simp_all add: cv_ok_def ConditionVariableData_ctor_def active_indices_def filter_empty_conv)

lemma stack_push_all:
  "n \<le> Capacity \<Longrightarrow> foldl (\<lambda>s i. snd (stack_push Capacity (f i) s)) [] [0..<n] = rev (map f [0..<n])"
  by (induction n) (simp_all add: stack_push_def)

lemma WaitSet_ctor_ok:
  assumes "0 < Capacity" "Capacity \<le> MAX_NUMBER_OF_NOTIFIERS"
  shows "ws_array_ok (WaitSet_ctor Capacity c)" "ws_active_ok (WaitSet_ctor Capacity c)" "ws_table_ok (WaitSet_ctor Capacity c)"
    "ws_occupant (WaitSet_ctor Capacity c) = (\<lambda>_. None)" "ws_capacity (WaitSet_ctor Capacity c) = Capacity"
proof -
  let ?w = "WaitSet_ctor Capacity c"
  show cap: "ws_capacity ?w = Capacity" by (simp add: ws_capacity_def WaitSet_ctor_def)
  show occ: "ws_occupant ?w = (\<lambda>_. None)" unfolding ws_occupant_def cap by (simp add: WaitSet_ctor_def fun_eq_iff)
  show a: "ws_array_ok ?w" "ws_active_ok ?w" using assms by (simp_all add: ws_array_ok_def ws_active_ok_def cap, simp_all add: WaitSet_ctor_def)
  have "ws_free ?w = map unat (map of_nat (rev [0..<Capacity]) :: u64 list)"
    by (simp add: ws_free_def WaitSet_ctor_def stack_push_all rev_map)
  also have "\<dots> = rev [0..<Capacity]" unfolding map_map
    by (rule map_idI) (use assms in \<open>simp add: unat_index_u64\<close>)
  finally show "ws_table_ok ?w" using a(1) by (auto simp: ws_table_ok_def occ cap)
qed

lemma new_waitSet_ok:
  assumes "world_ok {} {} W" "nw_waitSets W a = None" "ps_condvars (nw_popo W) c = None" "0 < Capacity" "Capacity \<le> MAX_NUMBER_OF_NOTIFIERS"
  shows "world_ok {} {} (put_waitSet a (WaitSet_ctor Capacity c) (put_condvar c (ConditionVariableData_ctor r) W))" (is "world_ok _ _ ?W")
proof (rule add_notifyable_ok [OF assms(1) _ assms(3) ConditionVariableData_ctor_ok])
  note ctor = WaitSet_ctor_ok [OF assms(4,5), of c]
  have p: "slot (put_condvar c cv W) = slot W" "condvar_of (put_condvar c cv W) = condvar_of W" "queue_of (put_condvar c cv W) = queue_of W"
    "capacity_of (put_condvar c cv W) = capacity_of W" for cv
    unfolding put_condvar_def by simp_all
  show "slot ?W = slot W" using assms(2) ctor(4) p by (simp add: fun_upd_idem)
  show "condvar_of ?W = (condvar_of W)(In_WaitSet a \<mapsto> c)" using p by (simp add: WaitSet_ctor_def)
  show "capacity_of ?W m = capacity_of W m" if "m \<noteq> In_WaitSet a" for m using that p by simp
  show "tables {} ?W" unfolding tables_def
  proof (intro conjI allI impI)
    fix b v assume v: "nw_waitSets ?W b = Some v"
    have t: "b = a \<and> v = WaitSet_ctor Capacity c \<or> nw_waitSets W b = Some v" using v by (auto split: if_splits)
    then show "ws_array_ok v" "ws_active_ok v" "ws_table_ok v"
      using ctor world_okD(3) [OF assms(1)] unfolding tables_def by blast+
    fix i tr o1 assume i: "i < ws_capacity v" "ws_triggerArray v ! i = Some tr" "tr_triggerType tr = STATE_BASED" "tr_resetCallback tr = Some o1"
    have "\<not> (b = a \<and> v = WaitSet_ctor Capacity c)" using i(1,2) ctor(5) by (auto simp: WaitSet_ctor_def)
    then have "queue_of W o1 \<noteq> None" using t i world_okD(3) [OF assms(1)] unfolding tables_def by blast
    then show "queue_of ?W o1 \<noteq> None" using p by simp
  qed (use world_okD(3) [OF assms(1)] in \<open>simp_all add: tables_def\<close>)
qed (use assms(2) in simp_all)

lemma Listener_ctor_ok:
  assumes "length storage = MAX_NUMBER_OF_EVENTS_PER_LISTENER + 1"
  obtains l where "Listener_ctor storage c = Inr l" "li_events_ok l" "li_table_ok l" "li_occupant l = (\<lambda>_. None)" "li_conditionVariableData l = c"
proof -
  have n: "unat (of_nat MAX_NUMBER_OF_EVENTS_PER_LISTENER :: u32) = MAX_NUMBER_OF_EVENTS_PER_LISTENER"
    using unat_of_nat_index [of MAX_NUMBER_OF_EVENTS_PER_LISTENER] by (simp add: MAX_NUMBER_OF_EVENTS_PER_LISTENER_def)
  have b: "0 < (of_nat MAX_NUMBER_OF_EVENTS_PER_LISTENER :: u32)" "(of_nat MAX_NUMBER_OF_EVENTS_PER_LISTENER :: u32) < - 1 - 1"
    by (simp_all add: MAX_NUMBER_OF_EVENTS_PER_LISTENER_def MAX_NUMBER_OF_NOTIFIERS_def)
  obtain f where f: "LoFFLi_init True storage (of_nat MAX_NUMBER_OF_EVENTS_PER_LISTENER) LoFFLi_ctor = Inr f"
      "loffli_shape f (map of_nat [0..<MAX_NUMBER_OF_EVENTS_PER_LISTENER])" "m_size f = of_nat MAX_NUMBER_OF_EVENTS_PER_LISTENER"
    using init_shape [OF b, of storage LoFFLi_ctor] assms n by (auto simp: LoFFLi_ctor_def)
  define l where "l = \<lparr> li_events = replicate MAX_NUMBER_OF_EVENTS_PER_LISTENER Event_ctor, li_loffli = f, li_indicesInUse = 0,
           li_wasDtorCalled = False, li_conditionVariableData = c, li_toBeDestroyed = False \<rparr>"
  have ev: "li_events_ok l" by (simp add: li_events_ok_def l_def event_ok_def Event_ctor_def)
  have occ: "li_occupant l = (\<lambda>_. None)" by (simp add: li_occupant_def l_def Event_ctor_def fun_eq_iff)
  have "li_free l = map unat (map of_nat [0..<MAX_NUMBER_OF_EVENTS_PER_LISTENER] :: u32 list)"
    using f(2) by (simp add: li_free_def l_def loffli_shape_iff)
  also have "\<dots> = [0..<MAX_NUMBER_OF_EVENTS_PER_LISTENER]" unfolding map_map
    by (rule map_idI) (simp add: unat_of_nat_index events_le_notifiers)
  finally have fr: "li_free l = [0..<MAX_NUMBER_OF_EVENTS_PER_LISTENER]" .
  have "li_table_ok l" unfolding li_table_ok_def fr occ using ev f(2,3) n by (auto simp: l_def loffli_shape_iff)
  moreover have "Listener_ctor storage c = Inr l" by (simp add: Listener_ctor_def f(1) l_def)
  moreover have "li_conditionVariableData l = c" by (simp add: l_def)
  ultimately show thesis using ev occ by (intro that)
qed

lemma new_listener_ok:
  assumes "world_ok {} {} W" "nw_listeners W a = None" "ps_condvars (nw_popo W) c = None"
    "length storage = MAX_NUMBER_OF_EVENTS_PER_LISTENER + 1" "Listener_ctor storage c = Inr l"
  shows "world_ok {} {} (put_listener a l (put_condvar c (ConditionVariableData_ctor r) W))" (is "world_ok _ _ ?W")
proof (rule add_notifyable_ok [OF assms(1) _ assms(3) ConditionVariableData_ctor_ok])
  obtain l2 where "Listener_ctor storage c = Inr l2" "li_events_ok l2" "li_table_ok l2" "li_occupant l2 = (\<lambda>_. None)" "li_conditionVariableData l2 = c"
    by (rule Listener_ctor_ok [OF assms(4)]) blast
  then have l: "li_events_ok l" "li_table_ok l" "li_occupant l = (\<lambda>_. None)" "li_conditionVariableData l = c" using assms(5) by simp_all
  have p: "slot (put_condvar c cv W) = slot W" "condvar_of (put_condvar c cv W) = condvar_of W" "queue_of (put_condvar c cv W) = queue_of W"
    "capacity_of (put_condvar c cv W) = capacity_of W" for cv
    unfolding put_condvar_def by simp_all
  show "slot ?W = slot W" using assms(2) l(3) p by (simp add: fun_upd_idem)
  show "condvar_of ?W = (condvar_of W)(In_Listener a \<mapsto> c)" using p l(4) by simp
  show "capacity_of ?W m = capacity_of W m" if "m \<noteq> In_Listener a" for m using p by simp
  show "tables {} ?W" using world_okD(3) [OF assms(1)] l(1,2) p(3) unfolding tables_def by (simp split: if_splits)
qed (use assms(2) in simp_all)

lemma new_origin_ok:
  assumes "world_ok {} {} W" "nw_origins W a = None" "origin_handle x = TriggerHandle_invalidated"
    "nw_waitSets W' = nw_waitSets W" "nw_listeners W' = nw_listeners W" "nw_origins W' = (nw_origins W)(a \<mapsto> x)"
    "ps_condvars (nw_popo W') = ps_condvars (nw_popo W)"
    and q: "\<And>k cqd. ps_queues (nw_popo W') k = Some cqd \<Longrightarrow> ps_queues (nw_popo W) k = Some cqd \<or> queue_target cqd = (None, None)"
      "\<And>k cqd. ps_queues (nw_popo W) k = Some cqd \<Longrightarrow> ps_queues (nw_popo W') k = Some cqd"
      "\<And>k. queue_of W' a = Some k \<Longrightarrow> ps_queues (nw_popo W) k = None \<and> (\<exists>cqd. ps_queues (nw_popo W') k = Some cqd)"
  shows "world_ok {} {} W'"
proof -
  note w = world_okD [OF assms(1)]
  note s = notifyables_eq [OF assms(4,5)]
  have h: "handle_of W' = (handle_of W)(a \<mapsto> TriggerHandle_invalidated)" "handle_of W a = None"
    using assms(2,3,6) by (simp_all add: handle_of_def fun_eq_iff)
  have k: "queue_of W' o1 = queue_of W o1" if "o1 \<noteq> a" for o1 using that assms(6) by (simp add: queue_of_def)
  have kN: "queue_of W a = None" using assms(2) by (simp add: queue_of_def)
  have "links {} W'"
  proof (rule linksI)
    show "slots (slot W') o1 = {}" if "handle_of W' o1 = None" for o1 using that linksD(1) [OF w(1), of o1] h s by (simp split: if_splits)
    show "handle_ok W' o1 h1 {}" if "handle_of W' o1 = Some h1" for o1 h1
    proof (cases "o1 = a")
      case True
      then show ?thesis using that h linksD(1) [OF w(1), of a] s by (simp add: handle_ok_invalid)
    next
      case False
      then have "handle_ok W o1 h1 {}" using that h(1) linksD(2) [OF w(1)] by simp
      then show ?thesis using handle_ok_cong [of W' o1 W] s by simp
    qed
  qed
  moreover have "ports {} W'"
  proof (rule portsI)
    show "\<exists>cqd. ps_queues (nw_popo W') j = Some cqd \<and> (o1 \<notin> {} \<longrightarrow> notifies cqd (the (handle_of W' o1)))" if j: "queue_of W' o1 = Some j" for o1 j
    proof (cases "o1 = a")
      case True
      then obtain cqd where "ps_queues (nw_popo W') j = Some cqd" "ps_queues (nw_popo W) j = None" using q(3) j by blast
      moreover from this have "queue_target cqd = (None, None)" using q(1) by force
      ultimately show ?thesis using True h by (simp add: queue_target_def notifies_def TriggerHandle_invalidated_def TriggerHandle_isValid_def)
    next
      case False
      then show ?thesis using portsD(1) [OF w(2), of o1 j] k j h q(2) by fastforce
    qed
    have d: "ps_queues (nw_popo W) j \<noteq> None" if "queue_of W o1 = Some j" for o1 j using portsD(1) [OF w(2) that] by auto
    show "o1 = o2" if "queue_of W' o1 = Some j" "queue_of W' o2 = Some j" for o1 o2 j
      using that q(3) k d portsD(2) [OF w(2)] by metis
  qed
  moreover have "tables {} W'"
  proof -
    have "queue_of W o1 \<noteq> None \<Longrightarrow> queue_of W' o1 \<noteq> None" for o1 using k kN by (cases "o1 = a") auto
    then show ?thesis using w(3) unfolding tables_def assms(4,5) by meson
  qed
  moreover have "condvars W'"
  proof (rule condvarsI)
    show "\<exists>cv. ps_condvars (nw_popo W') d = Some cv \<and> cv_ok cv \<and> (\<forall>i\<in>set (active_indices cv). i < capacity_of W' n)"
      if "condvar_of W' n = Some d" for n d using condvarsD(1) [OF w(4), of n d] that assms(7) s by simp
    show "m = n" if "condvar_of W' n = Some d" "condvar_of W' m = Some d" for n m d
      using condvarsD(2) [OF w(4)] that s by simp
    show "queue_refers W' cqd" if "ps_queues (nw_popo W') j = Some cqd" for j cqd
      using q(1) [OF that]
    proof
      assume "ps_queues (nw_popo W) j = Some cqd"
      then have "queue_refers W cqd" by (rule condvarsD(3) [OF w(4)])
      then show ?thesis by (rule queue_refers_mono) (simp_all add: assms(7) s)
    qed (simp add: queue_refers_def queue_target_def)
  qed
  ultimately show ?thesis by (simp add: world_ok_def)
qed

subsection \<open>All operations\<close>

text \<open>
  The state of a process without notification objects, and the operations on them in any order. The
  condition variables and the queues are created by RouDi; a condition variable is not reused while
  the process lives, and neither is the queue of a port.
\<close>

definition no_objects :: "popo_state \<Rightarrow> notification_world" where
  "no_objects P = \<lparr> nw_popo = P\<lparr> ps_queues := Map.empty, ps_condvars := Map.empty \<rparr>, nw_origins = Map.empty,
     nw_waitSets = Map.empty, nw_listeners = Map.empty \<rparr>"

inductive notification_step :: "notification_world \<Rightarrow> notification_world \<Rightarrow> bool" where
  new_user_trigger: "nw_origins W a = None \<Longrightarrow>
    notification_step W (W\<lparr> nw_origins := (nw_origins W)(a \<mapsto> UserTrigger TriggerHandle_invalidated) \<rparr>)"
| new_port: "nw_origins W a = None \<Longrightarrow> ps_queues (nw_popo W) q = None \<Longrightarrow>
    notification_step W (W\<lparr> nw_origins := (nw_origins W)(a \<mapsto> PortOrigin cls cap q TriggerHandle_invalidated),
      nw_popo := (nw_popo W)\<lparr> ps_queues := (ps_queues (nw_popo W))(q \<mapsto> ChunkQueueData_ctor cap uid policy type) \<rparr> \<rparr>)"
| new_wait_set: "nw_waitSets W a = None \<Longrightarrow> ps_condvars (nw_popo W) c = None \<Longrightarrow> 0 < Capacity \<Longrightarrow> Capacity \<le> MAX_NUMBER_OF_NOTIFIERS \<Longrightarrow>
    notification_step W (put_waitSet a (WaitSet_ctor Capacity c) (put_condvar c (ConditionVariableData_ctor name) W))"
| new_listener: "nw_listeners W a = None \<Longrightarrow> ps_condvars (nw_popo W) c = None \<Longrightarrow>
    length storage = MAX_NUMBER_OF_EVENTS_PER_LISTENER + 1 \<Longrightarrow> Listener_ctor storage c = Inr l \<Longrightarrow>
    notification_step W (put_listener a l (put_condvar c (ConditionVariableData_ctor name) W))"
| attach_event: "nw_origins W o1 \<noteq> None \<Longrightarrow> WaitSet_attachEvent a o1 ty tyHash k cb typeHash W = Inr (r, W') \<Longrightarrow> notification_step W W'"
| attach_state: "queue_of W o1 \<noteq> None \<Longrightarrow> WaitSet_attachState a o1 ty tyHash k cb typeHash W = Inr (r, W') \<Longrightarrow> notification_step W W'"
| attach_listener: "nw_origins W o1 \<noteq> None \<Longrightarrow> ty \<noteq> INVALID_TRIGGER_ID \<Longrightarrow> tyHash \<noteq> INVALID_TRIGGER_ID \<Longrightarrow>
    Listener_attachEvent a o1 ty tyHash cb W = Inr (lr, W') \<Longrightarrow> notification_step W W'"
| detach: "disableEvent o1 W = Inr W' \<Longrightarrow> notification_step W W'"
| destroy_origin: "origin_dtor o1 W = Inr W' \<Longrightarrow> notification_step W W'"
| destroy_wait_set: "WaitSet_dtor a W = Inr W' \<Longrightarrow> notification_step W W'"
| destroy_listener: "Listener_dtor a W = Inr W' \<Longrightarrow> notification_step W W'"
| trigger: "UserTrigger_trigger o1 W = Inr W' \<Longrightarrow> notification_step W W'"
| push: "ChunkQueuePusher_push cap q ch (nw_popo W) = Inr (pr, P) \<Longrightarrow> notification_step W (W\<lparr> nw_popo := P \<rparr>)"
| pop: "ChunkQueuePopper_tryPop cap q (nw_popo W) = Inr (mc, P) \<Longrightarrow> notification_step W (W\<lparr> nw_popo := P \<rparr>)"
| wait: "WaitSet_wait a W = Inr (ts, W') \<Longrightarrow> notification_step W W'"
| timed_wait: "WaitSet_timedWait a W = Inr (ts, W') \<Longrightarrow> notification_step W W'"
| thread_loop: "Listener_threadLoop_step a W = Inr (calls, W') \<Longrightarrow> notification_step W W'"
| mark_for_destruction: "WaitSet_markForDestruction a W = Inr W' \<Longrightarrow> notification_step W W'"

inductive notification_reachable :: "notification_world \<Rightarrow> bool" where
  start: "notification_reachable (no_objects P)"
| step: "notification_reachable W \<Longrightarrow> notification_step W W' \<Longrightarrow> notification_reachable W'"

lemma no_objects_ok: "world_ok {} {} (no_objects P)"
proof -
  have n: "slot (no_objects P) n = (\<lambda>_. None)" "condvar_of (no_objects P) n = None" for n
    by (cases n; simp add: no_objects_def)+
  have "links {} (no_objects P)"
    by (rule linksI) (auto simp: handle_of_def slots_def n, simp_all add: no_objects_def)
  moreover have "ports {} (no_objects P)" by (rule portsI) (simp_all add: queue_of_def no_objects_def)
  moreover have "tables {} (no_objects P)" by (simp add: tables_def no_objects_def)
  moreover have "condvars (no_objects P)" by (rule condvarsI) (simp_all add: n, simp_all add: no_objects_def)
  ultimately show ?thesis by (simp add: world_ok_def)
qed

lemma pop_target:
  assumes "ChunkQueuePopper_tryPop cap q P = Inr (r, P')"
  shows "ps_condvars P' = ps_condvars P" "map_option queue_target (ps_queues P' k) = map_option queue_target (ps_queues P k)"
proof -
  obtain cqd vq where p: "ps_queues P q = Some cqd" "ps_queues P' = (ps_queues P)(q \<mapsto> cqd\<lparr> cqd_queue := vq \<rparr>)" "ps_condvars P' = ps_condvars P"
  proof -
    obtain cqd ret vq where c: "ps_queues P q = Some cqd" "VariantQueue_pop cap (cqd_queue cqd) = Some (ret, vq)"
      using assms by (auto simp: ChunkQueuePopper_tryPop_def returns_def split: option.splits)
    then show thesis using assms that [OF c(1)]
      by (cases ret) (auto simp: ChunkQueuePopper_tryPop_def Let_def split: prod.splits)
  qed
  show "ps_condvars P' = ps_condvars P" by (rule p(3))
  show "map_option queue_target (ps_queues P' k) = map_option queue_target (ps_queues P k)" using p(1) by (simp add: p(2) queue_target_def)
qed

lemma notification_step_ok: "notification_step W W' \<Longrightarrow> world_ok {} {} W \<Longrightarrow> world_ok {} {} W'"
proof (induction rule: notification_step.induct)
  case (new_user_trigger W a)
  show ?case by (rule new_origin_ok [OF new_user_trigger(2,1), of "UserTrigger TriggerHandle_invalidated"]) (simp_all add: queue_of_def)
next
  case (new_port W a q cap uid policy type cls)
  show ?case by (rule new_origin_ok [OF new_port(3,1), of "PortOrigin cls cap q TriggerHandle_invalidated"])
      (use new_port(2) in \<open>auto simp: queue_of_def queue_target_def ChunkQueueData_ctor_def split: if_splits\<close>)
next
  case (new_wait_set W a c Capacity name)
  then show ?case by (intro new_waitSet_ok)
next
  case (new_listener W a c storage l name)
  then show ?case by (intro new_listener_ok)
next
  case (attach_event W o1 a ty tyHash k cb typeHash r W')
  then obtain w x where "nw_waitSets W a = Some w" "nw_origins W o1 = Some x" by (auto simp: WaitSet_attachEvent_def split: option.splits)
  from WaitSet_attach_ok(1) [OF attach_event(3) this, of ty tyHash k cb typeHash] show ?case using attach_event(2) by fastforce
next
  case (attach_state W o1 a ty tyHash k cb typeHash r W')
  then obtain w x where "nw_waitSets W a = Some w" "nw_origins W o1 = Some x"
    by (auto simp: WaitSet_attachState_def queue_of_def split: option.splits)
  from WaitSet_attach_ok(2) [OF attach_state(3) this attach_state(1), of ty tyHash k cb typeHash] show ?case using attach_state(2) by fastforce
next
  case (attach_listener W o1 ty tyHash a cb lr W')
  show ?case
  proof (cases "ncb_callback cb")
    case None
    then show ?thesis using attach_listener by (simp add: Listener_attachEvent_def)
  next
    case (Some f)
    then obtain l x where "nw_listeners W a = Some l" "nw_origins W o1 = Some x"
      using attach_listener by (auto simp: Listener_attachEvent_def split: option.splits)
    from Listener_attachEvent_ok [OF attach_listener(5) this attach_listener(2,3), of cb] show ?thesis using attach_listener(4) by fastforce
  qed
next
  case (detach o1 W W')
  then obtain x where "nw_origins W o1 = Some x" by (auto simp: disableEvent_def split: option.splits)
  then show ?case using disableEvent_ok [OF detach.prems] detach.hyps by (metis sum.inject(2))
next
  case (destroy_origin o1 W W')
  then obtain x where "nw_origins W o1 = Some x" by (auto simp: origin_dtor_def TriggerHandle_reset_def split: option.splits)
  then show ?case using origin_dtor_ok [OF destroy_origin.prems] destroy_origin.hyps by (metis sum.inject(2))
next
  case (destroy_wait_set a W W')
  then obtain w where "nw_waitSets W a = Some w" by (auto simp: WaitSet_dtor_def split: option.splits)
  then show ?case using WaitSet_dtor_ok [OF destroy_wait_set.prems] destroy_wait_set.hyps by (metis sum.inject(2))
next
  case (destroy_listener a W W')
  then obtain W1 where "Listener_dtor_body a W = Inr W1" by (auto simp: Listener_dtor_def)
  then show ?case using Listener_dtor_ok [OF destroy_listener.prems] destroy_listener.hyps by (metis sum.inject(2))
next
  case (trigger o1 W W')
  show ?case by (rule UserTrigger_trigger_ok [OF trigger(2,1)])
next
  case (push cap q ch W pr P)
  show ?case by (rule push_ok [OF push(2,1)])
next
  case (pop cap q W mc P)
  show ?case by (rule traffic_ok [OF pop(2)]) (use pop_target [OF pop(1)] in auto)
next
  case (wait a W ts W')
  show ?case by (rule blocking.wait_preserves [OF wait(2) wait(1) [unfolded WaitSet_wait_def]])
next
  case (timed_wait a W ts W')
  show ?case by (rule timed.wait_preserves [OF timed_wait(2) timed_wait(1) [unfolded WaitSet_timedWait_def]])
next
  case (thread_loop a W calls W')
  show ?case by (rule threadLoop_preserves [OF thread_loop(2,1)])
next
  case (mark_for_destruction a W W')
  show ?case by (rule markForDestruction_preserves [OF mark_for_destruction(2,1)])
qed

lemma notification_reachable_ok: "notification_reachable W \<Longrightarrow> world_ok {} {} W"
  by (induction rule: notification_reachable.induct) (auto intro: no_objects_ok notification_step_ok)

subsection \<open>The properties\<close>

lemma valid_handle_cases:
  assumes "world_ok {} {} W" "handle_of W o1 = Some h" "TriggerHandle_isValid h"
  obtains n i c where "h = handle_to n i c" "condvar_of W n = Some c" "\<And>m j. slot W m j = Some o1 \<longleftrightarrow> m = n \<and> j = i"
proof (rule unattached_handle [OF assms(1,2)])
  assume "h = TriggerHandle_invalidated"
  then show thesis using assms(3) by (simp add: TriggerHandle_invalidated_def TriggerHandle_isValid_def)
next
  fix n i c assume h: "h = handle_to n i c" "slot W n i = Some o1" "condvar_of W n = Some c"
  have "slots (slot W) o1 = {(n, i)}" using attached_handle [OF assms(1) h(2)] by blast
  then have "(m, j) \<in> slots (slot W) o1 \<longleftrightarrow> (m, j) = (n, i)" for m j by simp
  then show thesis using h by (intro that [of n i c]) (simp_all add: slots_def del: slot.simps)
qed

lemma port_notifies:
  assumes "world_ok {} {} W" "queue_of W o1 = Some q" "handle_of W o1 = Some (handle_to n i c)"
  obtains cqd where "ps_queues (nw_popo W) q = Some cqd" "cqd_conditionVariableDataPtr cqd = Some c"
    "cqd_conditionVariableNotificationIndex cqd = Some (of_nat i)"
  using portsD(1) [OF world_okD(2) [OF assms(1)] assms(2)] assms(3) that
  by (auto simp: notifies_def handle_to_def TriggerHandle_isValid_def)

lemma WaitSet_size_eq:
  assumes "world_ok {} {} W" "nw_waitSets W a = Some w"
  shows "WaitSet_size w = of_nat (card {i. ws_occupant w i \<noteq> None})"
proof -
  have "ws_table_ok w" using world_okD(3) [OF assms(1)] assms(2) unfolding tables_def by blast
  from wst.used_free [OF this] have "of_nat (card {i. ws_occupant w i \<noteq> None} + length (ws_free w)) = (of_nat (ws_capacity w) :: u64)" by simp
  then show ?thesis by (simp add: WaitSet_size_def ws_capacity_def ws_free_def diff_eq_eq)
qed

text \<open>
  C10: the links between origins and notifiers are always consistent. In every state that the
  operations of user triggers, ports, wait sets and listeners reach, in any order and including
  their destructors, a valid handle refers to an existing wait set or listener and to its condition
  variable, and exactly the slot with the index of the handle refers back to the origin; the queue
  of an attached port notifies this condition variable at this index; every occupied slot belongs to
  an origin whose handle refers to it; and \<open>size\<close> of a wait set is the number of attachments.
\<close>

theorem notification_links_consistent:
  assumes "notification_reachable W"
  shows "(\<forall>o1 h. handle_of W o1 = Some h \<longrightarrow> TriggerHandle_isValid h \<longrightarrow>
      (\<exists>n i c. h = handle_to n i c \<and> i < capacity_of W n \<and> condvar_of W n = Some c \<and> ps_condvars (nw_popo W) c \<noteq> None \<and>
         (\<forall>m j. slot W m j = Some o1 \<longleftrightarrow> m = n \<and> j = i) \<and>
         (\<forall>q. queue_of W o1 = Some q \<longrightarrow> (\<exists>cqd. ps_queues (nw_popo W) q = Some cqd \<and>
            cqd_conditionVariableDataPtr cqd = Some c \<and> cqd_conditionVariableNotificationIndex cqd = Some (of_nat i))))) \<and>
    (\<forall>n i o1. slot W n i = Some o1 \<longrightarrow> (\<exists>c. handle_of W o1 = Some (handle_to n i c))) \<and>
    (\<forall>a w. nw_waitSets W a = Some w \<longrightarrow> WaitSet_size w = of_nat (card {i. ws_occupant w i \<noteq> None}))"
proof (intro conjI)
  note ok = notification_reachable_ok [OF assms]
  show "\<forall>n i o1. slot W n i = Some o1 \<longrightarrow> (\<exists>c. handle_of W o1 = Some (handle_to n i c))"
    using attached_handle [OF ok] by metis
  show "\<forall>a w. nw_waitSets W a = Some w \<longrightarrow> WaitSet_size w = of_nat (card {i. ws_occupant w i \<noteq> None})"
    using WaitSet_size_eq [OF ok] by blast
  show "\<forall>o1 h. handle_of W o1 = Some h \<longrightarrow> TriggerHandle_isValid h \<longrightarrow>
      (\<exists>n i c. h = handle_to n i c \<and> i < capacity_of W n \<and> condvar_of W n = Some c \<and> ps_condvars (nw_popo W) c \<noteq> None \<and>
         (\<forall>m j. slot W m j = Some o1 \<longleftrightarrow> m = n \<and> j = i) \<and>
         (\<forall>q. queue_of W o1 = Some q \<longrightarrow> (\<exists>cqd. ps_queues (nw_popo W) q = Some cqd \<and>
            cqd_conditionVariableDataPtr cqd = Some c \<and> cqd_conditionVariableNotificationIndex cqd = Some (of_nat i))))"
  proof (intro allI impI)
    fix o1 h assume h: "handle_of W o1 = Some h" "TriggerHandle_isValid h"
    obtain n i c where n: "h = handle_to n i c" "condvar_of W n = Some c" "\<And>m j. slot W m j = Some o1 \<longleftrightarrow> m = n \<and> j = i"
      by (rule valid_handle_cases [OF ok h]) blast
    have "slot W n i = Some o1" using n(3) by blast
    then have "i < capacity_of W n" using slot_bound [OF ok] by blast
    moreover have "ps_condvars (nw_popo W) c \<noteq> None" using condvarsD(1) [OF world_okD(4) [OF ok] n(2)] by auto
    moreover have "\<exists>cqd. ps_queues (nw_popo W) q = Some cqd \<and> cqd_conditionVariableDataPtr cqd = Some c \<and>
        cqd_conditionVariableNotificationIndex cqd = Some (of_nat i)" if "queue_of W o1 = Some q" for q
      by (rule port_notifies [OF ok that]) (use h(1) n(1) in auto)
    ultimately show "\<exists>n i c. h = handle_to n i c \<and> i < capacity_of W n \<and> condvar_of W n = Some c \<and> ps_condvars (nw_popo W) c \<noteq> None \<and>
         (\<forall>m j. slot W m j = Some o1 \<longleftrightarrow> m = n \<and> j = i) \<and>
         (\<forall>q. queue_of W o1 = Some q \<longrightarrow> (\<exists>cqd. ps_queues (nw_popo W) q = Some cqd \<and>
            cqd_conditionVariableDataPtr cqd = Some c \<and> cqd_conditionVariableNotificationIndex cqd = Some (of_nat i)))"
      using n by blast
  qed
qed

text \<open>An origin is notified: the user triggers it, or a chunk is pushed into the queue of the port.\<close>

definition notified :: "address \<Rightarrow> notification_world \<Rightarrow> notification_world \<Rightarrow> bool" where
  "notified o1 W W' \<longleftrightarrow> UserTrigger_trigger o1 W = Inr W' \<or>
     (\<exists>cap q ch r P. queue_of W o1 = Some q \<and> ChunkQueuePusher_push cap q ch (nw_popo W) = Inr (r, P) \<and> W' = W\<lparr> nw_popo := P \<rparr>)"

lemma notified_step: "notified o1 W W' \<Longrightarrow> notification_step W W'"
  unfolding notified_def by (auto intro: notification_step.intros)

lemma notified_attached:
  assumes "world_ok {} {} W" "slot W n i = Some o1" "notified o1 W W'"
  obtains c cv where "condvar_of W n = Some c" "ps_condvars (nw_popo W') c = Some cv" "wasNotified cv" "i \<in> set (active_indices cv)"
    "nw_waitSets W' = nw_waitSets W" "nw_listeners W' = nw_listeners W"
proof -
  note b = slot_bound [OF assms(1,2)]
  obtain c where c: "handle_of W o1 = Some (handle_to n i c)" "condvar_of W n = Some c" by (rule attached_handle [OF assms(1,2)]) blast
  have "notified_at c i (nw_popo W) (nw_popo W') \<and> W' = W\<lparr> nw_popo := nw_popo W' \<rparr>"
    using assms(3) unfolding notified_def
  proof
    assume "UserTrigger_trigger o1 W = Inr W'"
    then obtain P where "TriggerHandle_trigger (handle_to n i c) (nw_popo W) = Inr P" "W' = W\<lparr> nw_popo := P \<rparr>"
      using c(1) by (auto simp: UserTrigger_trigger_def handle_of_def on_popo_def split: option.splits origin.splits)
    then show ?thesis using trigger_notifies b by auto
  next
    assume "\<exists>cap q ch r P. queue_of W o1 = Some q \<and> ChunkQueuePusher_push cap q ch (nw_popo W) = Inr (r, P) \<and> W' = W\<lparr> nw_popo := P \<rparr>"
    then obtain cap q ch r P where p: "queue_of W o1 = Some q" "ChunkQueuePusher_push cap q ch (nw_popo W) = Inr (r, P)" "W' = W\<lparr> nw_popo := P \<rparr>"
      by blast
    obtain cqd where q: "ps_queues (nw_popo W) q = Some cqd" "cqd_conditionVariableDataPtr cqd = Some c"
        "cqd_conditionVariableNotificationIndex cqd = Some (of_nat i)"
      by (rule port_notifies [OF assms(1) p(1) c(1)]) blast
    have "notified_at c i (nw_popo W) P"
      by (rule push_target [OF p(2)]) (use q b in \<open>auto simp: queue_target_def notified_at_def\<close>)
    then show ?thesis using p(3) by simp
  qed
  then obtain cv cv' where n: "ps_condvars (nw_popo W) c = Some cv" "ConditionNotifier_notify (of_nat i) cv = Inr cv'"
      "ps_condvars (nw_popo W') = (ps_condvars (nw_popo W))(c \<mapsto> cv')" "W' = W\<lparr> nw_popo := nw_popo W' \<rparr>"
    unfolding notified_at_def by blast
  have "cv_ok cv" using condvarsD(1) [OF world_okD(4) [OF assms(1)] c(2)] n(1) by auto
  then have "wasNotified cv'" "i \<in> set (active_indices cv')" using notify_cv [OF n(2)] b by auto
  moreover have "nw_waitSets W' = nw_waitSets W" "nw_listeners W' = nw_listeners W" by (subst n(4), simp)+
  moreover have "ps_condvars (nw_popo W') c = Some cv'" by (simp add: n(3))
  ultimately show thesis using c(2) by (intro that [of c cv'])
qed

text \<open>
  C11: a notification reaches the thread that waits. When an origin that is attached as an event to a
  wait set which is not marked for destruction is notified, by the user trigger or by a chunk in the queue of its port, then \<open>wait\<close>
  and \<open>timedWait\<close> of the wait set return without blocking. They give the triggers that are
  pending and satisfied, from the highest index to the lowest, the notified one among them, and the
  wait set then remembers exactly the pending triggers that are attached to a state.
\<close>

theorem notification_wakes_wait_set:
  assumes "notification_reachable W" "nw_waitSets W a = Some w" "\<not> ws_toBeDestroyed w" "i < ws_capacity w"
    "ws_triggerArray w ! i = Some t" "tr_triggerType t = EVENT_BASED" "tr_resetCallback t = Some o1" "notified o1 W W1"
  shows "\<exists>cv ts. ps_condvars (nw_popo W1) (ws_conditionVariableDataPtr w) = Some cv \<and> i \<in> pending w cv \<and>
    ts = map (trigger_info w) (filter (trigger_satisfied w W1) (rev (sorted_list_of_set (pending w cv)))) \<and>
    tr_notificationInfo t \<in> set ts \<and>
    (\<forall>waiting\<in>{WaitSet_wait, WaitSet_timedWait}. \<exists>W2 w2. waiting a W1 = Inr (ts, W2) \<and> nw_waitSets W2 a = Some w2 \<and>
       set (ws_activeNotifications w2) = {j \<in> pending w cv. trigger_stays w j})"
proof -
  note ok = notification_reachable_ok [OF assms(1)]
  have s: "slot W (In_WaitSet a) i = Some o1" using assms(2,4,5,7) by (simp add: ws_occupant_def)
  obtain c cv where c: "condvar_of W (In_WaitSet a) = Some c" "ps_condvars (nw_popo W1) c = Some cv" "wasNotified cv" "i \<in> set (active_indices cv)"
    "nw_waitSets W1 = nw_waitSets W" by (rule notified_attached [OF ok s assms(8)]) blast
  then have cw: "ps_condvars (nw_popo W1) (ws_conditionVariableDataPtr w) = Some cv" "nw_waitSets W1 a = Some w" using assms(2) by simp_all
  have ok1: "world_ok {} {} W1" by (rule notification_step_ok [OF notified_step [OF assms(8)] ok])
  have sat: "trigger_satisfied w W1 i"
    using isStateConditionSatisfied_returns [OF ok1 cw(2) assms(4,5)] assms(5,6) by (simp add: trigger_satisfied_def)
  let ?acts = "sorted_list_of_set (pending w cv)"
  let ?ts = "map (trigger_info w) (filter (trigger_satisfied w W1) (rev ?acts))"
  have fin: "finite (pending w cv)" and p: "i \<in> pending w cv" using c(4) assms(3) by (simp_all add: pending_def)
  then have "i \<in> set (filter (trigger_satisfied w W1) (rev ?acts))" using sat by simp
  then have "trigger_info w i \<in> set ?ts" by (metis image_eqI list.set_map)
  then have t: "tr_notificationInfo t \<in> set ?ts" using assms(5) by (simp add: trigger_info_def)
  have "\<exists>W2 w2. WaitSet_wait a W1 = Inr (?ts, W2) \<and> nw_waitSets W2 a = Some w2 \<and>
       set (ws_activeNotifications w2) = {j \<in> pending w cv. trigger_stays w j}"
    by (rule blocking.wait_notified [OF ok1 cw(2,1) c(3) assms(3) c(4) sat]) (use fin in \<open>auto simp: WaitSet_wait_def\<close>)
  moreover have "\<exists>W2 w2. WaitSet_timedWait a W1 = Inr (?ts, W2) \<and> nw_waitSets W2 a = Some w2 \<and>
       set (ws_activeNotifications w2) = {j \<in> pending w cv. trigger_stays w j}"
    by (rule timed.wait_notified [OF ok1 cw(2,1) c(3) assms(3) c(4) sat]) (use fin in \<open>auto simp: WaitSet_timedWait_def\<close>)
  ultimately show ?thesis using cw(1) p t by blast
qed

lemma attached_slot:
  assumes "\<exists>r W'. R = Inr (r, W') \<and> world_ok {} {} W' \<and> (r = None \<longrightarrow> (\<exists>i c. handle_of W' o1 = Some (handle_to n i c)))"
  shows "\<exists>r W'. R = Inr (r, W') \<and> (r = None \<longrightarrow> (\<exists>i. slot W' n i = Some o1))"
proof -
  obtain r W' where r: "R = Inr (r, W')" "world_ok {} {} W'" "r = None \<longrightarrow> (\<exists>i c. handle_of W' o1 = Some (handle_to n i c))"
    using assms by blast
  have "\<exists>j. slot W' n j = Some o1" if h: "handle_of W' o1 = Some (handle_to n i c)" for i c
    by (rule unattached_handle [OF r(2) h]) (auto simp: handle_to_def TriggerHandle_invalidated_def)
  then show ?thesis using r by blast
qed

lemma operations_return:
  assumes ok: "world_ok {} {} W"
  shows "nw_origins W o1 \<noteq> None \<Longrightarrow> \<exists>W'. disableEvent o1 W = Inr W' \<and> (\<forall>n i. slot W' n i \<noteq> Some o1)"
    "nw_origins W o1 \<noteq> None \<Longrightarrow> \<exists>W'. origin_dtor o1 W = Inr W' \<and> (\<forall>n i. slot W' n i \<noteq> Some o1)"
    "nw_waitSets W a \<noteq> None \<Longrightarrow> \<exists>W'. WaitSet_dtor a W = Inr W'"
    "nw_waitSets W a \<noteq> None \<Longrightarrow> nw_origins W o1 \<noteq> None \<Longrightarrow> \<exists>r W'. WaitSet_attachEvent a o1 ty tyHash k cb typeHash W = Inr (r, W') \<and>
       (r = None \<longrightarrow> (\<exists>i. slot W' (In_WaitSet a) i = Some o1))"
    "nw_waitSets W a \<noteq> None \<Longrightarrow> queue_of W o1 \<noteq> None \<Longrightarrow> \<exists>r W'. WaitSet_attachState a o1 ty tyHash k cb typeHash W = Inr (r, W') \<and>
       (r = None \<longrightarrow> (\<exists>i. slot W' (In_WaitSet a) i = Some o1))"
    "nw_listeners W a \<noteq> None \<Longrightarrow> nw_origins W o1 \<noteq> None \<Longrightarrow> ty \<noteq> INVALID_TRIGGER_ID \<Longrightarrow> tyHash \<noteq> INVALID_TRIGGER_ID \<Longrightarrow>
       \<exists>r W'. Listener_attachEvent a o1 ty tyHash cb W = Inr (r, W') \<and>
       (r = None \<longrightarrow> (\<exists>i. slot W' (In_Listener a) i = Some o1))"
    "nw_listeners W a = Some l \<Longrightarrow> \<exists>cv. ps_condvars (nw_popo W) (li_conditionVariableData l) = Some cv \<and>
       (if cv_semaphore cv < SEM_VALUE_MAX then \<exists>W'. Listener_dtor a W = Inr W' \<and> nw_listeners W' a = None
        else Listener_dtor a W = Inl (NOTIFICATION POPO__CONDITION_LISTENER_SEMAPHORE_CORRUPTED_IN_DESTROY))"
proof -
  show "\<exists>W'. disableEvent o1 W = Inr W' \<and> (\<forall>n i. slot W' n i \<noteq> Some o1)" if o: "nw_origins W o1 \<noteq> None"
  proof -
    obtain x where "nw_origins W o1 = Some x" using o by blast
    then obtain W' where "disableEvent o1 W = Inr W'" "slots (slot W') o1 = {}" by (rule disableEvent_ok [OF ok]) blast
    then show ?thesis by (auto simp: slots_def simp del: slot.simps)
  qed
  show "\<exists>W'. origin_dtor o1 W = Inr W' \<and> (\<forall>n i. slot W' n i \<noteq> Some o1)" if o: "nw_origins W o1 \<noteq> None"
  proof -
    obtain x where "nw_origins W o1 = Some x" using o by blast
    from origin_dtor_ok [OF ok this] obtain W' where W': "origin_dtor o1 W = Inr W'" "world_ok {} {} W'" by blast
    have "handle_of W' o1 = None" using W'(1) by (auto simp: origin_dtor_def handle_of_def)
    then have "slots (slot W') o1 = {}" using linksD(1) [OF world_okD(1) [OF W'(2)]] by blast
    then show ?thesis using W'(1) by (auto simp: slots_def simp del: slot.simps)
  qed
  show "\<exists>W'. WaitSet_dtor a W = Inr W'" if "nw_waitSets W a \<noteq> None" using that WaitSet_dtor_ok [OF ok] by (metis option.exhaust)
  show "\<exists>r W'. WaitSet_attachEvent a o1 ty tyHash k cb typeHash W = Inr (r, W') \<and>
       (r = None \<longrightarrow> (\<exists>i. slot W' (In_WaitSet a) i = Some o1))"
    if "nw_waitSets W a \<noteq> None" "nw_origins W o1 \<noteq> None" 
    by (rule attached_slot) (use that WaitSet_attach_ok(1) [OF ok] in blast)
  show "\<exists>r W'. WaitSet_attachState a o1 ty tyHash k cb typeHash W = Inr (r, W') \<and>
       (r = None \<longrightarrow> (\<exists>i. slot W' (In_WaitSet a) i = Some o1))" if q: "nw_waitSets W a \<noteq> None" "queue_of W o1 \<noteq> None"
  proof -
    have "nw_origins W o1 \<noteq> None" using q(2) by (auto simp: queue_of_def split: option.splits)
    then show ?thesis by (intro attached_slot) (use q WaitSet_attach_ok(2) [OF ok] in blast)
  qed
  show "\<exists>r W'. Listener_attachEvent a o1 ty tyHash cb W = Inr (r, W') \<and>
       (r = None \<longrightarrow> (\<exists>i. slot W' (In_Listener a) i = Some o1))"
    if "nw_listeners W a \<noteq> None" "nw_origins W o1 \<noteq> None" "ty \<noteq> INVALID_TRIGGER_ID" "tyHash \<noteq> INVALID_TRIGGER_ID"
    by (rule attached_slot) (use that Listener_attachEvent_ok [OF ok] in blast)
  show "\<exists>cv. ps_condvars (nw_popo W) (li_conditionVariableData l) = Some cv \<and>
       (if cv_semaphore cv < SEM_VALUE_MAX then \<exists>W'. Listener_dtor a W = Inr W' \<and> nw_listeners W' a = None
        else Listener_dtor a W = Inl (NOTIFICATION POPO__CONDITION_LISTENER_SEMAPHORE_CORRUPTED_IN_DESTROY))"
    if l: "nw_listeners W a = Some l"
  proof -
    have "condvar_of W (In_Listener a) = Some (li_conditionVariableData l)" using l by simp
    then obtain cv where cv: "ps_condvars (nw_popo W) (li_conditionVariableData l) = Some cv" by (rule condvar_notifyable [OF ok]) blast
    show ?thesis
    proof (cases "cv_semaphore cv < SEM_VALUE_MAX")
      case True
      then obtain W1 where "Listener_dtor_body a W = Inr W1"
        using l cv by (auto simp: Listener_dtor_body_def ConditionListener_destroy_def Semaphore_post_def)
      then obtain W' where "Listener_dtor a W = Inr W'" by (rule Listener_dtor_ok [OF ok])
      moreover from this have "nw_listeners W' a = None" by (auto simp: Listener_dtor_def)
      ultimately show ?thesis using cv True by simp
    next
      case False
      then show ?thesis using l cv by (simp add: Listener_dtor_def Listener_dtor_body_def ConditionListener_destroy_def Semaphore_post_def)
    qed
  qed
qed

text \<open>
  C12: detaching and destroying. In every reachable state an origin can be detached, after which no slot refers to it, and destroyed; a wait set can be
  destroyed, whatever is attached; and so can a listener, unless the semaphore of its condition variable has reached its largest value, in which case the
  destructor ends with the error of a corrupted semaphore. Attaching an origin to a wait set, or to a listener for a valid event type, returns, with an error
  value if it is full or the origin is attached already, or with the origin attached.
\<close>

theorem notification_operations_return:
  assumes "notification_reachable W"
  shows "(nw_origins W o1 \<noteq> None \<longrightarrow> (\<exists>W'. disableEvent o1 W = Inr W' \<and> (\<forall>n i. slot W' n i \<noteq> Some o1))) \<and>
    (nw_origins W o1 \<noteq> None \<longrightarrow> (\<exists>W'. origin_dtor o1 W = Inr W' \<and> (\<forall>n i. slot W' n i \<noteq> Some o1))) \<and>
    (nw_waitSets W a \<noteq> None \<longrightarrow> (\<exists>W'. WaitSet_dtor a W = Inr W')) \<and>
    (nw_waitSets W a \<noteq> None \<longrightarrow> nw_origins W o1 \<noteq> None \<longrightarrow> (\<exists>r W'. WaitSet_attachEvent a o1 ty tyHash k cb typeHash W = Inr (r, W') \<and>
       (r = None \<longrightarrow> (\<exists>i. slot W' (In_WaitSet a) i = Some o1)))) \<and>
    (nw_waitSets W a \<noteq> None \<longrightarrow> queue_of W o1 \<noteq> None \<longrightarrow> (\<exists>r W'. WaitSet_attachState a o1 ty tyHash k cb typeHash W = Inr (r, W') \<and>
       (r = None \<longrightarrow> (\<exists>i. slot W' (In_WaitSet a) i = Some o1)))) \<and>
    (nw_listeners W a \<noteq> None \<longrightarrow> nw_origins W o1 \<noteq> None \<longrightarrow> ty \<noteq> INVALID_TRIGGER_ID \<longrightarrow> tyHash \<noteq> INVALID_TRIGGER_ID \<longrightarrow>
       (\<exists>r W'. Listener_attachEvent a o1 ty tyHash cb W = Inr (r, W') \<and>
       (r = None \<longrightarrow> (\<exists>i. slot W' (In_Listener a) i = Some o1)))) \<and>
    (nw_listeners W a = Some l \<longrightarrow> (\<exists>cv. ps_condvars (nw_popo W) (li_conditionVariableData l) = Some cv \<and>
       (if cv_semaphore cv < SEM_VALUE_MAX then \<exists>W'. Listener_dtor a W = Inr W' \<and> nw_listeners W' a = None
        else Listener_dtor a W = Inl (NOTIFICATION POPO__CONDITION_LISTENER_SEMAPHORE_CORRUPTED_IN_DESTROY))))"
  using operations_return [OF notification_reachable_ok [OF assms]] by (intro conjI impI)

subsection \<open>An example\<close>

text \<open>A process with a wait set of capacity 2 and two user triggers, the first of which is attached.\<close>

definition example_objects :: notification_world where
  "example_objects = (put_waitSet 1 (WaitSet_ctor 2 16) (put_condvar 16 (ConditionVariableData_ctor ''app'')
     (no_objects (example_popo example_shm))))
     \<lparr> nw_origins := [3 \<mapsto> UserTrigger TriggerHandle_invalidated, 4 \<mapsto> UserTrigger TriggerHandle_invalidated] \<rparr>"

definition example_callback :: notification_callback where
  "example_callback = \<lparr> ncb_callback = Some 0x1000, ncb_contextData = None \<rparr>"

definition example_attached :: notification_world where
  "example_attached = snd (projr (WaitSet_attachEvent 1 3 0 1 7 example_callback 0 example_objects))"

lemma example_objects_reachable: "notification_reachable example_objects"
proof -
  let ?W0 = "no_objects (example_popo example_shm)"
  let ?W1 = "put_waitSet 1 (WaitSet_ctor 2 16) (put_condvar 16 (ConditionVariableData_ctor ''app'') ?W0)"
  let ?W2 = "?W1\<lparr> nw_origins := (nw_origins ?W1)(3 \<mapsto> UserTrigger TriggerHandle_invalidated) \<rparr>"
  let ?W3 = "?W2\<lparr> nw_origins := (nw_origins ?W2)(4 \<mapsto> UserTrigger TriggerHandle_invalidated) \<rparr>"
  have o: "nw_origins ?W0 = Map.empty" by (simp add: no_objects_def)
  have "notification_step ?W0 ?W1"
    by (rule notification_step.new_wait_set) (simp_all add: no_objects_def MAX_NUMBER_OF_NOTIFIERS_def)
  moreover have "notification_step ?W1 ?W2" by (rule notification_step.new_user_trigger) (simp add: o)
  moreover have "notification_step ?W2 ?W3" by (rule notification_step.new_user_trigger) (simp add: o)
  ultimately have "notification_reachable ?W3" by (meson notification_reachable.intros)
  then show ?thesis by (simp add: example_objects_def o)
qed

lemma example_attach: "WaitSet_attachEvent 1 3 0 1 7 example_callback 0 example_objects = Inr (None, example_attached)"
proof -
  have "(case WaitSet_attachEvent 1 3 0 1 7 example_callback 0 example_objects of Inr (None, W) \<Rightarrow> True | _ \<Rightarrow> False)" by code_simp
  then show ?thesis by (auto simp: example_attached_def split: sum.splits option.splits prod.splits)
qed

lemma example_attached_reachable: "notification_reachable example_attached"
  by (rule notification_reachable.step [OF example_objects_reachable notification_step.attach_event [OF _ example_attach]])
    (simp add: example_objects_def)

lemma example_attached_handle: "handle_of example_attached 3 = Some (handle_to (In_WaitSet 1) 1 16)"
  by code_simp

lemma notification_links_consistent_witness:
  "notification_reachable example_attached \<and> handle_of example_attached 3 = Some (handle_to (In_WaitSet 1) 1 16) \<and>
   (\<forall>m j. slot example_attached m j = Some 3 \<longleftrightarrow> m = In_WaitSet 1 \<and> j = 1)"
proof -
  have v: "TriggerHandle_isValid (handle_to (In_WaitSet 1) 1 16)" by (simp add: TriggerHandle_isValid_def handle_to_def)
  then obtain n i c where h: "handle_to (In_WaitSet 1) 1 16 = handle_to n i c" "i < capacity_of example_attached n"
      "\<forall>m j. slot example_attached m j = Some 3 \<longleftrightarrow> m = n \<and> j = i"
    using notification_links_consistent [OF example_attached_reachable] example_attached_handle by blast
  then have n: "n = In_WaitSet 1" "(of_nat i :: u64) = of_nat 1" by (simp_all add: handle_to_def)
  moreover have "capacity_of example_attached (In_WaitSet 1) = 2" by code_simp
  ultimately have "i < 2" using h(2) by simp
  then have "i = 1" using n(2) of_nat_index_eq [of i 1] by (simp add: MAX_NUMBER_OF_NOTIFIERS_def)
  then show ?thesis using h n(1) example_attached_reachable example_attached_handle by auto
qed

lemma notification_operations_return_witness:
  "notification_reachable example_attached \<and> (\<exists>W'. disableEvent 3 example_attached = Inr W' \<and> (\<forall>n i. slot W' n i \<noteq> Some 3)) \<and>
   (\<exists>W'. origin_dtor 3 example_attached = Inr W' \<and> (\<forall>n i. slot W' n i \<noteq> Some 3)) \<and> (\<exists>W'. WaitSet_dtor 1 example_attached = Inr W')"
proof -
  have "nw_origins example_attached 3 \<noteq> None" using example_attached_handle by (auto simp: handle_of_def)
  moreover have "nw_waitSets example_attached 1 \<noteq> None" by code_simp
  ultimately show ?thesis
    using notification_operations_return [OF example_attached_reachable, of 3 1] example_attached_reachable by blast
qed

lemma notify_returns: "cv_semaphore cv < SEM_VALUE_MAX \<Longrightarrow> \<exists>cv'. ConditionNotifier_notify i cv = Inr cv'"
  by (auto simp: ConditionNotifier_notify_def Let_def Semaphore_post_def)

lemma example_condvar: "ps_condvars (nw_popo example_attached) 16 = Some (ConditionVariableData_ctor ''app'')"
  by code_simp

lemma example_trigger:
  obtains P cv where "UserTrigger_trigger 3 example_attached = Inr (example_attached\<lparr> nw_popo := P \<rparr>)"
    "ps_condvars P 16 = Some cv" "wasNotified cv" "active_indices cv = [1]"
proof -
  have h: "nw_origins example_attached 3 = Some (UserTrigger (handle_to (In_WaitSet 1) 1 16))" by code_simp
  obtain cv where cv: "ConditionNotifier_notify (of_nat 1) (ConditionVariableData_ctor ''app'') = Inr cv"
    using notify_returns [of "ConditionVariableData_ctor ''app''" "of_nat 1"]
    by (auto simp: ConditionVariableData_ctor_def SEM_VALUE_MAX_def)
  note n = notify_cv [OF cv _ ConditionVariableData_ctor_ok(1)]
  have m: "(1 :: nat) < MAX_NUMBER_OF_NOTIFIERS" by (simp add: MAX_NUMBER_OF_NOTIFIERS_def)
  have "set (active_indices cv) = {1}" using n(2) [OF m] by (simp add: ConditionVariableData_ctor_ok(2))
  then have a: "active_indices cv = [1]" using active_indices_sorted [of cv] strict_sorted_equal [of "active_indices cv" "[1]"] by simp
  let ?P = "(nw_popo example_attached)\<lparr> ps_condvars := (ps_condvars (nw_popo example_attached))(16 \<mapsto> cv) \<rparr>"
  have "TriggerHandle_trigger (handle_to (In_WaitSet 1) 1 16) (nw_popo example_attached) = Inr ?P"
    using cv example_condvar m by (simp add: TriggerHandle_trigger_def handle_to_def ConditionNotifier_ctor_def)
  then have "UserTrigger_trigger 3 example_attached = Inr (example_attached\<lparr> nw_popo := ?P \<rparr>)"
    by (simp add: UserTrigger_trigger_def h on_popo_def)
  then show thesis using n(3) [OF m] a by (intro that [of ?P cv]) simp_all
qed

lemma notification_wakes_wait_set_witness:
  "\<exists>W w t W1 ts W2. notification_reachable W \<and> nw_waitSets W 1 = Some w \<and> ws_triggerArray w ! 1 = Some t \<and> notified 3 W W1 \<and>
     WaitSet_wait 1 W1 = Inr (ts, W2) \<and> tr_notificationInfo t \<in> set ts"
proof -
  let ?W = example_attached
  obtain W1 where W1: "UserTrigger_trigger 3 ?W = Inr W1" by (rule example_trigger) blast
  define w where "w = the (nw_waitSets ?W 1)"
  define t where "t = the (ws_triggerArray w ! 1)"
  have w: "nw_waitSets ?W 1 = Some w"
  proof -
    have "nw_waitSets ?W 1 \<noteq> None" by code_simp
    then show ?thesis by (auto simp: w_def)
  qed
  have t: "ws_triggerArray w ! 1 = Some t"
  proof -
    have "ws_triggerArray (the (nw_waitSets ?W 1)) ! 1 \<noteq> None" by code_simp
    then show ?thesis by (auto simp: t_def w_def)
  qed
  have f: "\<not> ws_toBeDestroyed w" "1 < ws_capacity w" unfolding w_def by code_simp+
  have g: "tr_triggerType t = EVENT_BASED" "tr_resetCallback t = Some 3" unfolding t_def w_def by code_simp+
  have n: "notified 3 ?W W1" using W1 by (simp add: notified_def)
  obtain cv ts where c: "tr_notificationInfo t \<in> set ts" "\<forall>waiting\<in>{WaitSet_wait, WaitSet_timedWait}. \<exists>W2 w2. waiting 1 W1 = Inr (ts, W2) \<and>
      nw_waitSets W2 1 = Some w2 \<and> set (ws_activeNotifications w2) = {j \<in> pending w cv. trigger_stays w j}"
    using notification_wakes_wait_set [OF example_attached_reachable w f t g n] by blast
  then obtain W2 where "WaitSet_wait 1 W1 = Inr (ts, W2)" by blast
  then show ?thesis using example_attached_reachable w t n c(1) by blast
qed

subsection \<open>A notification that outlives its origin\<close>

text \<open>
  The first user trigger is attached and triggered, and then detached before anybody waits; the
  second one, which is never triggered, is attached and gets the index of the first. \<open>removeTrigger\<close>
  and the invalidation of the handle leave the flag of the index set in the condition variable.
\<close>

text \<open>The first trigger is detached and the second attached; the condition variables play no part in it.\<close>

definition stale_wait_set :: wait_set where
  "stale_wait_set = \<lparr> ws_triggerArray = [None, Some \<lparr> tr_notificationInfo = NotificationInfo_ctor 4 8 example_callback 0,
       tr_hasTriggeredCallback = None, tr_resetCallback = Some 4, tr_uniqueId = of_nat 1, tr_triggerType = EVENT_BASED,
       tr_originTriggerType = 0, tr_originTriggerTypeHash = 1 \<rparr>],
     ws_conditionVariableDataPtr = 16, ws_toBeDestroyed = False, ws_indexRepository = [of_nat 0], ws_activeNotifications = [] \<rparr>"

lemma reattach:
  "obind (disableEvent 3 (example_attached\<lparr> nw_popo := P \<rparr>)) (\<lambda>W3.
     obind (WaitSet_attachEvent 1 4 0 1 8 example_callback 0 W3) (\<lambda>(r, W4). Inr (r, nw_popo W4, nw_waitSets W4 1, map_option (\<lambda>_. ()) (nw_origins W3 4)))) =
   Inr (None, P, Some stale_wait_set, Some ())"
proof -
  have "obind (disableEvent 3 (example_attached\<lparr> nw_popo := P \<rparr>)) (\<lambda>W3.
     obind (WaitSet_attachEvent 1 4 0 1 8 example_callback 0 W3) (\<lambda>(r, W4). Inr (r, nw_popo W4, nw_waitSets W4 1, map_option (\<lambda>_. ()) (nw_origins W3 4)))) = X"
    if "X = Inr (None, P, Some stale_wait_set, Some ())" for X
    by (code_simp, simp add: that stale_wait_set_def NotificationInfo_ctor_def example_callback_def)
  then show ?thesis by blast
qed

definition stale_schedule :: "(wait_set_error option \<times> notification_info list) outcome" where
  "stale_schedule =
     obind (UserTrigger_trigger 3 example_attached) (\<lambda>W1.
     obind (disableEvent 3 W1) (\<lambda>W2.
     obind (WaitSet_attachEvent 1 4 0 1 8 example_callback 0 W2) (\<lambda>(r, W3).
     obind (WaitSet_wait 1 W3) (\<lambda>(ts, W4). Inr (r, ts)))))"

text \<open>
  C40: a wait set may report an event that did not happen. There is a schedule in which an event origin is
  triggered and detached before the next wait, the notification is not withdrawn, and \<open>wait\<close> reports it
  for the origin that was attached at the same index afterwards, although that one was never triggered.
\<close>

theorem stale_notification_is_reported: "stale_schedule = Inr (None, [NotificationInfo_ctor 4 8 example_callback 0])"
proof -
  obtain P cv where P: "UserTrigger_trigger 3 example_attached = Inr (example_attached\<lparr> nw_popo := P \<rparr>)"
    "ps_condvars P 16 = Some cv" "wasNotified cv" "active_indices cv = [1]" by (rule example_trigger)
  obtain W2 W3 where W: "disableEvent 3 (example_attached\<lparr> nw_popo := P \<rparr>) = Inr W2"
      "WaitSet_attachEvent 1 4 0 1 8 example_callback 0 W2 = Inr (None, W3)" "nw_popo W3 = P" "nw_waitSets W3 1 = Some stale_wait_set"
      "nw_origins W2 4 \<noteq> None"
    using reattach [of P] by auto
  have ok2: "world_ok {} {} W2"
    by (rule notification_step_ok [OF notification_step.detach [OF W(1)]],
        rule notification_step_ok [OF notification_step.trigger [OF P(1)]],
        rule notification_reachable_ok [OF example_attached_reachable])
  have ok: "world_ok {} {} W3" by (rule notification_step_ok [OF notification_step.attach_event [OF W(5,2)] ok2])
  have c: "ps_condvars (nw_popo W3) (ws_conditionVariableDataPtr stale_wait_set) = Some cv" using P(2) W(3) by (simp add: stale_wait_set_def)
  have p: "pending stale_wait_set cv = {1}" using P(4) by (simp add: pending_def stale_wait_set_def)
  have s: "trigger_satisfied stale_wait_set W3 1"
    using of_nat_index_valid [of 1]
    by (simp add: trigger_satisfied_def stale_wait_set_def isStateConditionSatisfied_def Trigger_isValid_def MAX_NUMBER_OF_NOTIFIERS_def)
  have i: "trigger_info stale_wait_set 1 = NotificationInfo_ctor 4 8 example_callback 0" by (simp add: trigger_info_def stale_wait_set_def)
  have d: "\<not> ws_toBeDestroyed stale_wait_set" by (simp add: stale_wait_set_def)
  have "1 \<in> set (active_indices cv)" using P(4) by simp
  then obtain W4 where "WaitSet_wait 1 W3 = Inr ([NotificationInfo_ctor 4 8 example_callback 0], W4)"
    by (rule blocking.wait_notified [OF ok W(4) c P(3) d _ s]) (use p s i in \<open>simp add: WaitSet_wait_def\<close>)
  then show ?thesis using P(1) W(1,2) by (simp add: stale_schedule_def)
qed

end
