(* ===== verification/Spec2Isabelle.thy ===== *)
theory Spec2Isabelle
  imports Posh_Runtime Cxx_Forward_List LoFFLi_Concurrent Wait_Sets
begin

text \<open>
  Verification library of iceoryx, an inter-process communication middleware (\<open>src/iceoryx\<close>, C++).

  \<^bold>\<open>The program.\<close> Applications exchange data without copying it: a publisher allocates a chunk of shared memory, writes into it and
  sends a pointer; every subscriber gets the same chunk, and it is freed when the last of them releases it. Clients and servers exchange
  requests and responses in the same way. The daemon RouDi creates the shared memory and all ports in it, connects the ports whose services match,
  and removes what a dead application has left. The applications talk to RouDi by short text messages. The library \<open>iceoryx_hoofs\<close> has the
  containers, lock-free queues and relative pointers that live in shared memory, the library \<open>iceoryx_posh\<close> the memory pools
  (\<open>mepoo\<close>), the ports (\<open>popo\<close>), the protocol between ports (\<open>capro\<close>), RouDi (\<open>roudi\<close>) and the side of the applications (\<open>runtime\<close>).

  \<^bold>\<open>How the code is modelled.\<close> A class is a record with the names of its members (prefixed by an abbreviation of the class), an enumeration a datatype, a method
  a function from the arguments and the state to the result and the new state. Integers are words of their width. \<open>outcome\<close> is the result of
  a computation that may terminate the process (\<open>Expects\<close>, or \<open>errorHandler\<close> with a fatal error, or the use of a pointer to nothing); an
  \<open>expected\<close> of the code is a sum. Memory is explicit where it matters: \<open>shm\<close> is the memory of the chunks, \<open>popo_state\<close> has in addition the queues and condition
  variables by their addresses, \<open>port_manager\<close> and \<open>roudi_ports\<close> the pool of ports, \<open>process_manager\<close> the registered processes. Template parameters and
  compile-time limits are arguments or fields of \<open>..._config\<close> records, so that the theorems hold for all of them. What the operating
  system decides is an argument too: the clock, whether a channel accepts a text, the groups of a user, the result of \<open>kill\<close>, the
  addresses and initial contents of new objects.

  A loop that ends is a structural recursion or has a termination proof. Loops of the lock-free queues, of the condition listener and of
  containers with linked indices are \<open>partial_function (option)\<close>, where \<open>None\<close> is a loop that does not end; that they return is proved for states that satisfy the invariant, and
  \<open>resizeable_queue_capacity_0_push_hangs\<close> is a case where the code really does not return. No definition has fuel.

  \<^bold>\<open>The theories.\<close>
  \<^item> \<open>Prelude\<close>: words, outcomes, the error handler, shared lemmas. \<open>Helplets\<close>, \<open>Duration\<close>: \<open>cxx/helplets.inl\<close>, \<open>units/duration.inl\<close> and the
    deadline timer; saturated arithmetic of durations against a reference on natural numbers.
  \<^item> \<open>Allocator\<close>, \<open>LoFFLi\<close>, \<open>Mem_Pool\<close>, \<open>Mepoo_Config\<close>, \<open>Chunk_Settings\<close>, \<open>Chunk_Header\<close>, \<open>Memory_Manager\<close>, \<open>Shared_Chunk\<close>, \<open>Memory_Setup\<close>: the
    memory, from the bump allocator to reference-counted chunks (\<open>source/mepoo\<close>, \<open>posix_wrapper\<close>, \<open>concurrent/loffli\<close>). Chunks in use are disjoint, the layout of a chunk is
    correct for every accepted setting, nothing leaks, the computed memory size is enough. The locales \<open>index_allocator\<close>,
    \<open>chunk_pool\<close> and \<open>chunk_ownership\<close> are the contracts of the free list, of a pool and of the owners of chunks.
    \<open>LoFFLi_Concurrent\<close> has \<open>pop\<close> and \<open>push\<close> of the free list step by step: any number of threads never get the same index twice as long as no
    head value recurs, and for every free list with four or more indices and every number of threads from three on there is a schedule in which one does recur.
    What the exclusiveness of chunks needs, that the byte offsets of a pool fit in 32 bits, is no check of the code; it is a condition of the theorems on chunks (\<open>offsets_fit_u32\<close>).
  \<^item> \<open>Index_Queue\<close>, \<open>Lock_Free_Queue\<close>, \<open>Variant_Queue\<close>: the queues (\<open>concurrent\<close>, \<open>cxx/variant_queue\<close>), with \<open>bounded_queue\<close> as the contract that all four kinds refine.
  \<^item> \<open>Bounded_List\<close>, \<open>Cxx_List\<close>, \<open>Cxx_Forward_List\<close>: the two linked lists in arrays, which refine bounded sequences: the calls at the front, at positions and,
    for \<open>cxx::list\<close>, at the back, in any order (locales \<open>bounded_list\<close> and \<open>bounded_back_list\<close>).
  \<^item> \<open>Relative_Pointer\<close>: pointers that are valid in every process (\<open>relocatable_pointer\<close>), under any sequence of registrations and unregistrations of segments, with the case in which
    an unregistered segment captures an address; the packed form in one machine word, which is how a chunk is kept between its owners (\<open>shm_safe_unmanaged_chunk.cpp\<close>).
  \<^item> \<open>Used_Chunk_List\<close>, \<open>Condition_Variable\<close>, \<open>Chunk_Queue\<close>, \<open>Chunk_Distributor\<close>, \<open>Chunk_Sender\<close>, \<open>Chunk_Receiver\<close>: the building blocks of ports
    (\<open>popo/building_blocks\<close>): delivery to all queues, history, exclusive allocation, clean-up after a crash, and no lost wake-up for
    any interleaving of notifiers and listener. A delivery waits for blocking queues in rounds (\<open>delivery_rounds\<close>), between which the other threads do anything
    that keeps the state consistent (\<open>others_ok\<close>), disconnecting queues included.
  \<^item> \<open>Triggers\<close>, \<open>Notification_Links\<close>, \<open>Notification_Lifecycle\<close>, \<open>Wait_Sets\<close>: triggers, trigger handles, user triggers, wait sets and listeners (\<open>popo/trigger\<close>, \<open>wait_set.inl\<close>,
    \<open>listener.inl\<close>, the notification part of \<open>base_subscriber.inl\<close>, \<open>base_client.inl\<close>, \<open>base_server.inl\<close>). The objects of a process refer to each other by address in
    \<open>notification_world\<close>; in every state that attaching, detaching, destroying, notifying and waiting reach, in any order, the references of both sides agree, and a
    notification reaches the thread that waits. The locale \<open>slot_table\<close> is the contract of the table of attachments, which wait set and listener fulfil,
    and \<open>wait_call\<close> the contract of the two wait calls of the condition variable.
  \<^item> \<open>Serialization\<close>, \<open>Service_Description\<close>, \<open>Service_Registry\<close>: conversions and serialization (\<open>cxx/convert.inl\<close>, \<open>cxx/serialization.inl\<close>), with exactly the values that survive it, services and messages of the
    protocol (\<open>capro\<close>), the registry of offers with its contract \<open>offer_directory\<close>.
  \<^item> \<open>Pub_Sub_Ports\<close>, \<open>Client_Server_Ports\<close>: the ports (\<open>popo/ports\<close>). \<open>Port_Manager\<close>, \<open>Discovery\<close>: the pool of ports and the port manager
    (\<open>port_pool.cpp\<close>, \<open>port_manager.cpp\<close>). \<open>Connections\<close>, \<open>Rpc_Connections\<close>: invariants of all runs of RouDi and the applications: connections are complete and consistent,
    and no queue of a destroyed port is left behind. \<open>Ownership\<close>: which application a port belongs to, and that the end of a
    process removes all its ports.
  \<^item> \<open>Ipc_Message\<close>, \<open>Port_Options\<close>: messages between applications and RouDi, and options, properties and versions as text. \<open>Process_Manager\<close>, \<open>RouDi_Messages\<close>: the processes and the
    thread of RouDi that executes requests (\<open>process_manager.cpp\<close>, \<open>roudi.cpp\<close>). \<open>Posh_Runtime\<close>: the requests of the applications and their
    answers (\<open>posh_runtime_impl.cpp\<close>); the locale \<open>wire_options\<close> is what a request relies on for its options. The last theorem follows a request
    from the application through message, RouDi, port manager and relative pointer back to the application.

  \<^bold>\<open>Concurrency.\<close> The operations of one object run one after the other. Interleavings are modelled where the code is about them: notifiers and
  listener of a condition variable, and the threads that use one free list, as step relations on single atomic accesses, what other threads do while a publisher waits for a full queue as an argument of
  the waiting, and RouDi and the applications as a step relation on whole operations, in any order.

  \<^bold>\<open>Properties that show flaws.\<close> Some theorems state what the code does although it should not: a pool above 4 GiB hands out a chunk twice, a
  queue resized to capacity 0 never returns from push, a reused chunk loses its origin, an overflowing length is accepted by the
  deserialization, the ABA counter of the free list goes backwards after a failed exchange so that an index is handed out twice, a wait set reports the pending notification
  of a detached origin for the next origin at its index, the end of a gateway or an interface leaves a dangling queue or uses a destroyed port, and a request with the largest 64-bit
  number is never answered.

  \<^bold>\<open>Not modelled.\<close> The operating system below the wrappers in \<open>posix_wrapper\<close> and the platform layer; logging; configuration files and command line, which
  third-party libraries parse; the gateway to DDS and the C binding, which forward to other interfaces; the typed API on top of the ports; the periodic
  introspection; construction and shutdown of RouDi with their threads and timers and the registration handshake of the runtime; floating-point conversions; tests, examples and tools. Weak
  memory orders and the interleaving of single accesses inside the lock-free queues are left out: their operations are executed as a whole.

  \<^bold>\<open>What could follow.\<close> \<open>cxx::vector\<close>; the registration handshake of \<open>IpcRuntimeInterface\<close>; the typed publishers and subscribers with their samples; the memory
  blocks and providers of RouDi.
\<close>

end
